(* ===== verification/Prelude.thy ===== *)
theory Prelude
  imports Main
    "HOL-Library.AList"
    "HOL-Library.Multiset"
    "HOL-Library.List_Lexorder"
    "HOL-Library.Char_ord"
begin

text \<open>
  Shared vocabulary of the development: instants and durations, 64-bit wrap-around and truncated
  division, the byte-string operations of the Go package \<^verbatim>\<open>strings\<close> the sources call, association
  lists for Go maps, and the stable sort behind \<^verbatim>\<open>sort.SliceStable\<close> with the order interface
  (a locale) its clients instantiate.

  A Go \<^verbatim>\<open>string\<close> is a byte sequence, here \<open>string\<close> (a list of 8-bit \<open>char\<close>s), ordered bytewise as Go's
  \<^verbatim>\<open><\<close> orders it (\<open>List_Lexorder\<close>, \<open>Char_ord\<close>). \<^verbatim>\<open>strings.ToLower\<close> and \<^verbatim>\<open>strings.TrimSpace\<close> are modelled on
  ASCII bytes; bytes of multi-byte UTF-8 sequences are left alone.
\<close>

named_theorems str_simps \<open>evaluation of the string operations\<close>
named_theorems health_simps \<open>entry-level facts of the circuit breaker\<close>
named_theorems loop_simps \<open>facts of the attempt loop\<close>

section \<open>Time and machine integers\<close>

text \<open>An instant is its distance in nanoseconds from Go's zero \<^verbatim>\<open>time.Time\<close>; a duration is a
  nanosecond count, an \<^verbatim>\<open>int64\<close> whose arithmetic wraps.\<close>

type_synonym time = int
type_synonym duration = int

definition IsZero :: "time \<Rightarrow> bool" where
  "IsZero t = (t = 0)"

definition second :: duration where
  "second = 1000000000"

definition int64_max :: int where
  "int64_max = 9223372036854775807"

definition wrap64 :: "int \<Rightarrow> int" where
  "wrap64 x = (x + 9223372036854775808) mod 18446744073709551616 - 9223372036854775808"

text \<open>Go's integer division truncates towards zero.\<close>

definition go_div :: "int \<Rightarrow> int \<Rightarrow> int" where
  "go_div a b = sgn a * sgn b * (\<bar>a\<bar> div \<bar>b\<bar>)"

lemma wrap64_id:
  "- 9223372036854775808 \<le> x \<Longrightarrow> x \<le> int64_max \<Longrightarrow> wrap64 x = x"
  by (simp add: wrap64_def int64_max_def)

lemma wrap64_range: "- 9223372036854775808 \<le> wrap64 x \<and> wrap64 x \<le> int64_max"
proof -
  have "0 \<le> (x + 9223372036854775808) mod 18446744073709551616"
    and "(x + 9223372036854775808) mod 18446744073709551616 < 18446744073709551616"
    by simp_all
  then show ?thesis by (simp add: wrap64_def int64_max_def)
qed

lemma go_div_nonneg: "0 \<le> a \<Longrightarrow> 0 < b \<Longrightarrow> go_div a b = a div b"
  by (cases "a = 0") (simp_all add: go_div_def)

section \<open>Byte strings\<close>

text \<open>The byte strings of the sources that are not plain ASCII literals: the line feed and the
  carriage return.\<close>

definition LF :: char where
  "LF = CHR 0x0A"

definition CR :: char where
  "CR = CHR 0x0D"

lemma LF_neq_CR [simp]: "LF \<noteq> CR" "CR \<noteq> LF"
  by (simp_all add: LF_def CR_def)

definition to_lower_char :: "char \<Rightarrow> char" where
  "to_lower_char c =
     (let n = (of_char c :: nat) in if 65 \<le> n \<and> n \<le> 90 then char_of (n + 32) else c)"

definition ToLower :: "string \<Rightarrow> string" where
  "ToLower s = map to_lower_char s"

fun HasPrefix :: "string \<Rightarrow> string \<Rightarrow> bool" where
  "HasPrefix s [] = True"
| "HasPrefix [] (p # ps) = False"
| "HasPrefix (c # s) (p # ps) = (c = p \<and> HasPrefix s ps)"

definition HasSuffix :: "string \<Rightarrow> string \<Rightarrow> bool" where
  "HasSuffix s p = HasPrefix (rev s) (rev p)"

fun Contains :: "string \<Rightarrow> string \<Rightarrow> bool" where
  "Contains [] p = (p = [])"
| "Contains (c # s) p = (HasPrefix (c # s) p \<or> Contains s p)"

text \<open>\<^verbatim>\<open>strings.Cut(s, sep)\<close> for a one-byte separator: \<open>Some (before, after)\<close> at the first
  separator, \<open>None\<close> when there is none.\<close>

fun Cut :: "char \<Rightarrow> string \<Rightarrow> (string \<times> string) option" where
  "Cut sep [] = None"
| "Cut sep (c # s) =
     (if c = sep then Some ([], s)
      else (case Cut sep s of None \<Rightarrow> None | Some (a, b) \<Rightarrow> Some (c # a, b)))"

text \<open>\<^verbatim>\<open>strings.Split(s, sep)\<close> for a one-byte separator: one more piece than there are separators.\<close>

fun Split :: "char \<Rightarrow> string \<Rightarrow> string list" where
  "Split sep [] = [[]]"
| "Split sep (c # s) =
     (if c = sep then [] # Split sep s
      else (case Split sep s of [] \<Rightarrow> [[c]] | p # ps \<Rightarrow> (c # p) # ps))"

fun Join :: "string \<Rightarrow> string list \<Rightarrow> string" where
  "Join sep [] = []"
| "Join sep [s] = s"
| "Join sep (s # t # ss) = s @ sep @ Join sep (t # ss)"

definition is_space :: "char \<Rightarrow> bool" where
  "is_space c = ((of_char c :: nat) \<in> {9, 10, 11, 12, 13, 32})"

definition TrimSpace :: "string \<Rightarrow> string" where
  "TrimSpace s = rev (dropWhile is_space (rev (dropWhile is_space s)))"

text \<open>\<^verbatim>\<open>strings.ReplaceAll\<close> for a one-byte old string.\<close>

definition ReplaceChar :: "char \<Rightarrow> string \<Rightarrow> string \<Rightarrow> string" where
  "ReplaceChar old new s = concat (map (\<lambda>c. if c = old then new else [c]) s)"

lemma HasPrefix_iff: "HasPrefix s p \<longleftrightarrow> (\<exists>t. s = p @ t)"
  by (induction s p rule: HasPrefix.induct) auto

lemma HasPrefix_append [simp]: "HasPrefix (p @ s) p"
  by (auto simp: HasPrefix_iff)

lemma HasSuffix_iff: "HasSuffix s p \<longleftrightarrow> (\<exists>t. s = t @ p)"
proof
  assume "HasSuffix s p"
  then obtain t where "rev s = rev p @ t" by (auto simp: HasSuffix_def HasPrefix_iff)
  then have "s = rev t @ p" by (metis rev_append rev_rev_ident)
  then show "\<exists>t. s = t @ p" ..
next
  assume "\<exists>t. s = t @ p"
  then show "HasSuffix s p" by (auto simp: HasSuffix_def)
qed

lemma Contains_iff: "Contains s p \<longleftrightarrow> (\<exists>a b. s = a @ p @ b)"
proof (induction s)
  case Nil
  then show ?case by auto
next
  case (Cons c s)
  have "(\<exists>a b. c # s = a @ p @ b) \<longleftrightarrow>
      (\<exists>b. c # s = p @ b) \<or> (\<exists>a b. s = a @ p @ b)"
    by (metis append_Cons append_Nil list.exhaust list.inject)
  with Cons show ?case by (simp add: HasPrefix_iff)
qed

lemma Cut_Some_iff: "Cut sep s = Some (a, b) \<longleftrightarrow> s = a @ sep # b \<and> sep \<notin> set a"
proof (induction s arbitrary: a)
  case Nil
  then show ?case by simp
next
  case (Cons c s)
  show ?case
  proof (cases "c = sep")
    case True
    then show ?thesis by (cases a) auto
  next
    case False
    then have "Cut sep (c # s) = Some (a, b) \<longleftrightarrow> (\<exists>a'. a = c # a' \<and> Cut sep s = Some (a', b))"
      by (auto split: option.splits)
    also have "\<dots> \<longleftrightarrow> (\<exists>a'. a = c # a' \<and> s = a' @ sep # b \<and> sep \<notin> set a')"
      by (simp only: Cons.IH)
    also have "\<dots> \<longleftrightarrow> c # s = a @ sep # b \<and> sep \<notin> set a"
      using False by (cases a) auto
    finally show ?thesis .
  qed
qed

lemma Cut_None_iff: "Cut sep s = None \<longleftrightarrow> sep \<notin> set s"
  by (induction s) (auto split: option.splits)

lemma Split_nonempty [simp]: "Split sep s \<noteq> []"
  by (induction s) (auto split: list.splits)

lemma Join_Split: "Join [sep] (Split sep s) = s"
proof (induction s)
  case Nil
  then show ?case by simp
next
  case (Cons c s)
  obtain p ps where "Split sep s = p # ps" by (cases "Split sep s") auto
  with Cons show ?case by (cases ps) auto
qed

lemma Split_pieces: "p \<in> set (Split sep s) \<Longrightarrow> sep \<notin> set p"
  by (induction s arbitrary: p) (auto split: list.splits if_splits)

lemma Split_chars: "p \<in> set (Split sep s) \<Longrightarrow> set p \<subseteq> set s"
proof (induction s arbitrary: p)
  case Nil
  then show ?case by simp
next
  case (Cons c s)
  obtain q qs where q: "Split sep s = q # qs" by (cases "Split sep s") auto
  with Cons show ?case by (auto split: if_splits) blast+
qed

lemma length_ToLower [simp]: "length (ToLower s) = length s"
  by (simp add: ToLower_def)

lemma to_lower_char_idem: "to_lower_char (to_lower_char c) = to_lower_char c"
proof -
  have "(of_char (char_of n :: char) :: nat) = n" if "n < 256" for n
    using that by (simp add: of_char_of)
  then show ?thesis by (auto simp: to_lower_char_def Let_def)
qed

lemma ToLower_idem [simp]: "ToLower (ToLower s) = ToLower s"
  by (simp add: ToLower_def to_lower_char_idem)

section \<open>Go maps as association lists\<close>

text \<open>A Go map is an association list with distinct keys: \<open>map_of\<close> reads it, \<open>AList.update\<close> and
  \<open>AList.delete\<close> write it, and a \<^verbatim>\<open>range\<close> loop visits the entries in list order, one of the orders
  the language allows.\<close>

type_synonym ('k, 'v) gomap = "('k \<times> 'v) list"

definition map_wf :: "('k, 'v) gomap \<Rightarrow> bool" where
  "map_wf m = distinct (map fst m)"

lemma map_wf_Nil [simp]: "map_wf []"
  by (simp add: map_wf_def)

lemma map_wf_update [simp]: "map_wf m \<Longrightarrow> map_wf (AList.update k v m)"
  by (simp add: map_wf_def distinct_update)

lemma map_wf_delete [simp]: "map_wf m \<Longrightarrow> map_wf (AList.delete k m)"
  by (simp add: map_wf_def distinct_delete)

lemma map_of_update [simp]: "map_of (AList.update k v m) = (map_of m)(k \<mapsto> v)"
  by (rule update_conv')

lemma map_of_delete [simp]: "map_of (AList.delete k m) = (map_of m)(k := None)"
  by (rule delete_conv')

lemma update_fresh: "map_of m k = None \<Longrightarrow> AList.update k v m = m @ [(k, v)]"
  by (induction m) (auto split: if_splits)

lemma map_wf_map_of: "map_wf m \<Longrightarrow> (k, v) \<in> set m \<longleftrightarrow> map_of m k = Some v"
  by (metis map_of_SomeD map_of_is_SomeI map_wf_def)

section \<open>Stable sorting by a comparison\<close>

text \<open>
  \<^verbatim>\<open>sort.SliceStable(xs, less)\<close>. Inserting from the right, each element before its equals, keeps the
  input order among elements the comparison does not separate, which is the stability Go promises.
\<close>

fun insert_less :: "('a \<Rightarrow> 'a \<Rightarrow> bool) \<Rightarrow> 'a \<Rightarrow> 'a list \<Rightarrow> 'a list" where
  "insert_less lt x [] = [x]"
| "insert_less lt x (y # ys) = (if lt y x then y # insert_less lt x ys else x # y # ys)"

definition SliceStable :: "('a \<Rightarrow> 'a \<Rightarrow> bool) \<Rightarrow> 'a list \<Rightarrow> 'a list" where
  "SliceStable lt xs = foldr (insert_less lt) xs []"

lemma SliceStable_simps [simp]:
  "SliceStable lt [] = []"
  "SliceStable lt (x # xs) = insert_less lt x (SliceStable lt xs)"
  by (simp_all add: SliceStable_def)

lemma mset_insert_less [simp]: "mset (insert_less lt x ys) = add_mset x (mset ys)"
  by (induction ys) auto

lemma mset_SliceStable [simp]: "mset (SliceStable lt xs) = mset xs"
  by (induction xs) auto

lemma set_SliceStable [simp]: "set (SliceStable lt xs) = set xs"
  by (metis mset_SliceStable set_mset_mset)

lemma length_SliceStable [simp]: "length (SliceStable lt xs) = length xs"
  by (metis mset_SliceStable size_mset)

text \<open>What a comparison function has to satisfy for the sort to mean anything: a strict weak order
  on the elements that can occur.\<close>

locale strict_weak =
  fixes lt :: "'a \<Rightarrow> 'a \<Rightarrow> bool"
  assumes less_irrefl: "\<not> lt x x"
    and less_trans: "lt x y \<Longrightarrow> lt y z \<Longrightarrow> lt x z"
    and incomp_trans: "\<not> lt x y \<Longrightarrow> \<not> lt y z \<Longrightarrow> \<not> lt x z"
begin

abbreviation le :: "'a \<Rightarrow> 'a \<Rightarrow> bool" where
  "le x y \<equiv> \<not> lt y x"

lemma less_asym: "lt x y \<Longrightarrow> \<not> lt y x"
  using less_irrefl less_trans by blast

lemma sorted_insert: "sorted_wrt le ys \<Longrightarrow> sorted_wrt le (insert_less lt x ys)"
proof (induction ys)
  case Nil
  then show ?case by simp
next
  case (Cons y ys)
  show ?case
  proof (cases "lt y x")
    case True
    have "set (insert_less lt x ys) = insert x (set ys)"
      by (metis mset_insert_less set_mset_add_mset_insert set_mset_mset)
    with True Cons show ?thesis by (auto dest: less_asym)
  next
    case False
    with Cons.prems show ?thesis by (auto dest: incomp_trans)
  qed
qed

lemma sorted_SliceStable: "sorted_wrt le (SliceStable lt xs)"
  by (induction xs) (simp_all add: sorted_insert)

lemma insert_stable: "filter (\<lambda>z. \<not> lt a z \<and> \<not> lt z a) (insert_less lt x ys) =
    filter (\<lambda>z. \<not> lt a z \<and> \<not> lt z a) (x # ys)"
proof (induction ys)
  case Nil
  then show ?case by simp
next
  case (Cons y ys)
  show ?case
  proof (cases "lt y x")
    case True
    then have "\<not> ((\<not> lt a x \<and> \<not> lt x a) \<and> (\<not> lt a y \<and> \<not> lt y a))"
      using incomp_trans by blast
    with True Cons show ?thesis by auto
  qed simp
qed

lemma stable: "filter (\<lambda>z. \<not> lt a z \<and> \<not> lt z a) (SliceStable lt xs) =
    filter (\<lambda>z. \<not> lt a z \<and> \<not> lt z a) xs"
  by (induction xs) (auto simp: insert_stable)

end

text \<open>A comparison with a tie-break: elements it does not separate carry the same key, so on lists
  without duplicate keys the sorted result depends on the elements alone, never on their order.\<close>

locale strict_keyed = strict_weak lt for lt :: "'a \<Rightarrow> 'a \<Rightarrow> bool" +
  fixes key :: "'a \<Rightarrow> 'k"
  assumes tie: "\<not> lt x y \<Longrightarrow> \<not> lt y x \<Longrightarrow> key x = key y"
begin

lemma sorted_unique:
  assumes "mset xs = mset ys" "distinct (map key xs)" "sorted_wrt le xs" "sorted_wrt le ys"
  shows "xs = ys"
  using assms
proof (induction xs arbitrary: ys)
  case Nil
  then show ?case by simp
next
  case (Cons x xs)
  then obtain y ys' where ys: "ys = y # ys'" by (cases ys) auto
  have yin: "y \<in> set (x # xs)" and xin: "x \<in> set (y # ys')"
    using Cons.prems(1) ys by (metis list.set_intros(1) set_mset_mset)+
  have "x = y"
  proof (rule ccontr)
    assume ne: "x \<noteq> y"
    then have "\<not> lt y x" using yin Cons.prems(3) by auto
    moreover have "\<not> lt x y" using ne xin Cons.prems(4) ys by auto
    ultimately have "key x = key y" using tie by blast
    moreover have "key y \<in> key ` set xs" using yin ne by auto
    ultimately show False using Cons.prems(2) by auto
  qed
  moreover have "xs = ys'"
    using Cons.IH[of ys'] Cons.prems ys \<open>x = y\<close> by simp
  ultimately show ?case using ys by simp
qed

lemma SliceStable_perm:
  assumes "mset xs = mset ys" "distinct (map key xs)"
  shows "SliceStable lt xs = SliceStable lt ys"
proof (rule sorted_unique)
  show "mset (SliceStable lt xs) = mset (SliceStable lt ys)" using assms(1) by simp
  have "mset (map key (SliceStable lt xs)) = mset (map key xs)" by simp
  then show "distinct (map key (SliceStable lt xs))"
    using assms(2) by (metis mset_eq_imp_distinct_iff)
qed (simp_all add: sorted_SliceStable)

end

text \<open>The bytewise order of strings, used by \<^verbatim>\<open>sort.Strings\<close>.\<close>

interpretation str_ord: strict_keyed "(<) :: string \<Rightarrow> string \<Rightarrow> bool" "\<lambda>s. s"
  by unfold_locales auto

definition sort_strings :: "string list \<Rightarrow> string list" where
  "sort_strings = SliceStable (<)"

end
