(* ===== verification/Json.thy ===== *)
theory Json
  imports Prelude
begin

text \<open>
  JSON values and what the sources use of \<^verbatim>\<open>encoding/json\<close>: decoding into Go structs, pointers, maps and scalars.
  A \<^verbatim>\<open>json.RawMessage\<close> is the value its bytes denote, so two messages that differ in white space alone are one; a
  number whose literal is an integer is \<open>JInt\<close>, any other literal stays text.

  \<^verbatim>\<open>json.Unmarshal\<close> visits the members in order, matches a key to a field without regard to (ASCII) case, lets a later
  member of the same key write over an earlier one, leaves the field alone on \<^verbatim>\<open>null\<close>, and fails on a value of the
  wrong kind; \<open>None\<close> is the error. What is decoded before an error is never read by the sources.
\<close>

datatype json =
    JNull
  | JBool bool
  | JInt int
  | JNumber string
  | JStr string
  | JArr "json list"
  | JObj "(string \<times> json) list"

section \<open>Decoding\<close>

fun dec_string :: "json \<Rightarrow> string \<Rightarrow> string option" where
  "dec_string (JStr v) s = Some v"
| "dec_string JNull s = Some s"
| "dec_string _ s = None"

fun dec_int :: "json \<Rightarrow> int \<Rightarrow> int option" where
  "dec_int (JInt v) n = (if - 9223372036854775808 \<le> v \<and> v \<le> int64_max then Some v else None)"
| "dec_int JNull n = Some n"
| "dec_int _ n = None"

fun dec_bool :: "json \<Rightarrow> bool \<Rightarrow> bool option" where
  "dec_bool (JBool v) b = Some v"
| "dec_bool JNull b = Some b"
| "dec_bool _ b = None"

text \<open>A struct: \<open>f\<close> decodes one member, its key already folded.\<close>

fun dec_members :: "(string \<Rightarrow> json \<Rightarrow> 's \<Rightarrow> 's option) \<Rightarrow> (string \<times> json) list \<Rightarrow> 's \<Rightarrow> 's option" where
  "dec_members f [] s = Some s"
| "dec_members f ((k, v) # ms) s = (case f (ToLower k) v s of None \<Rightarrow> None | Some s1 \<Rightarrow> dec_members f ms s1)"

fun dec_struct :: "(string \<Rightarrow> json \<Rightarrow> 's \<Rightarrow> 's option) \<Rightarrow> json \<Rightarrow> 's \<Rightarrow> 's option" where
  "dec_struct f (JObj ms) s = dec_members f ms s"
| "dec_struct f JNull s = Some s"
| "dec_struct f _ s = None"

text \<open>A pointer: \<^verbatim>\<open>null\<close> clears it, anything else is decoded into what it points to, a zero value at first.\<close>

definition dec_ptr :: "'s \<Rightarrow> (json \<Rightarrow> 's \<Rightarrow> 's option) \<Rightarrow> json \<Rightarrow> 's option \<Rightarrow> 's option option" where
  "dec_ptr zero dec j p =
     (if j = JNull then Some None
      else case dec j (case p of None \<Rightarrow> zero | Some s \<Rightarrow> s) of None \<Rightarrow> None | Some s \<Rightarrow> Some (Some s))"

text \<open>A \<^verbatim>\<open>float64\<close> is the number it is read from, the number it is printed as; \<open>fin\<close> says which literals are in range.\<close>

fun dec_float :: "(json \<Rightarrow> bool) \<Rightarrow> json \<Rightarrow> json \<Rightarrow> json option" where
  "dec_float fin (JInt n) x = (if fin (JInt n) then Some (JInt n) else None)"
| "dec_float fin (JNumber l) x = (if fin (JNumber l) then Some (JNumber l) else None)"
| "dec_float fin JNull x = Some x"
| "dec_float fin _ x = None"

text \<open>A slice: an element that the slice already has is decoded over, any other from the zero value; the result is as long
  as the array.\<close>

fun dec_elems :: "'s \<Rightarrow> (json \<Rightarrow> 's \<Rightarrow> 's option) \<Rightarrow> json list \<Rightarrow> 's list \<Rightarrow> 's list option" where
  "dec_elems zero dec [] old = Some []"
| "dec_elems zero dec (x # xs) old =
     (case dec x (case old of [] \<Rightarrow> zero | prev # _ \<Rightarrow> prev) of
        None \<Rightarrow> None
      | Some v \<Rightarrow> map_option ((#) v) (dec_elems zero dec xs (tl old)))"

fun dec_slice :: "'s \<Rightarrow> (json \<Rightarrow> 's \<Rightarrow> 's option) \<Rightarrow> json \<Rightarrow> 's list \<Rightarrow> 's list option" where
  "dec_slice zero dec (JArr xs) old = dec_elems zero dec xs old"
| "dec_slice zero dec JNull old = Some []"
| "dec_slice zero dec _ old = None"

text \<open>\<^verbatim>\<open>map[string]json.RawMessage\<close>.\<close>

fun dec_raw_map :: "json \<Rightarrow> (string, json) gomap option" where
  "dec_raw_map (JObj ms) = Some (fold (\<lambda>(k, v). AList.update k v) ms [])"
| "dec_raw_map JNull = Some []"
| "dec_raw_map _ = None"

text \<open>\<^verbatim>\<open>map[string]string\<close>, decoded into a map that is there; \<^verbatim>\<open>null\<close> clears it, and a \<^verbatim>\<open>null\<close> value is the empty string.\<close>

fun dec_entries :: "(string \<times> json) list \<Rightarrow> (string, string) gomap \<Rightarrow> (string, string) gomap option" where
  "dec_entries [] m = Some m"
| "dec_entries ((k, v) # ms) m = (case dec_string v '''' of None \<Rightarrow> None | Some s \<Rightarrow> dec_entries ms (AList.update k s m))"

fun dec_string_map :: "json \<Rightarrow> (string, string) gomap \<Rightarrow> (string, string) gomap option" where
  "dec_string_map (JObj ms) m = dec_entries ms m"
| "dec_string_map JNull m = Some []"
| "dec_string_map _ m = None"

text \<open>\<^verbatim>\<open>[]json.RawMessage\<close>.\<close>

fun dec_raws :: "json \<Rightarrow> json list \<Rightarrow> json list option" where
  "dec_raws (JArr xs) old = Some xs"
| "dec_raws JNull old = Some []"
| "dec_raws _ old = None"

text \<open>Storing a decoded field, the usual case of a member.\<close>

definition set_field :: "('v \<Rightarrow> 's \<Rightarrow> 's) \<Rightarrow> 'v option \<Rightarrow> 's \<Rightarrow> 's option" where
  "set_field upd r s = (case r of None \<Rightarrow> None | Some v \<Rightarrow> Some (upd v s))"

lemma set_field_simps [simp]:
  "set_field upd None s = None"
  "set_field upd (Some v) s = Some (upd v s)"
  by (simp_all add: set_field_def)

lemma dec_ptr_simps [simp]:
  "dec_ptr z dec JNull p = Some None"
  "j \<noteq> JNull \<Longrightarrow> dec_ptr z dec j p = map_option Some (dec j (case p of None \<Rightarrow> z | Some s \<Rightarrow> s))"
  by (simp_all add: dec_ptr_def split: option.splits)

end
