(* ===== verification/IR.thy ===== *)
theory IR
  imports Json
begin

text \<open>
  The canonical request, response and stream types of \<^verbatim>\<open>internal/ir\<close> with their operations: surfaces,
  the capability needs of a request, and the open-block bookkeeping every flat-delta stream parser
  shares. Go's string-typed enumerations that are open (a value outside the declared constants can
  arrive off the wire) carry a last constructor holding the raw string; the empty string is the zero
  value. A \<^verbatim>\<open>json.RawMessage\<close> is the value its bytes denote, \<open>None\<close> where there are none; a \<^verbatim>\<open>float64\<close> is the JSON number
  it is read from and printed as.
\<close>

section \<open>Vocabulary\<close>

datatype Role = RoleSystem | RoleUser | RoleAssistant | RoleTool | RoleOther string

datatype BlockType =
    BlockText | BlockImage | BlockAudio | BlockDocument | BlockThinking
  | BlockRedactedThinking | BlockToolUse | BlockToolResult | BlockOther string

datatype StopReason =
    StopEndTurn | StopMaxTokens | StopToolUse | StopStopSequence
  | StopContentFilter | StopPauseTurn | StopError | StopOther string

datatype ErrorType =
    ErrInvalidRequest | ErrAuthentication | ErrPermission | ErrNotFound | ErrRateLimit
  | ErrOverloaded | ErrAPI | ErrContentFilter | ErrDarkrouter | ErrPayloadTooLarge
  | ErrUnsupportedMedia | ErrOther string

datatype EventType =
    EventMessageStart | EventBlockStart | EventContentDelta | EventBlockStop
  | EventMessageDelta | EventMessageStop | EventPing | EventError | EventOther string

fun BlockType_string :: "BlockType \<Rightarrow> string" where
  "BlockType_string BlockText = ''text''"
| "BlockType_string BlockImage = ''image''"
| "BlockType_string BlockAudio = ''audio''"
| "BlockType_string BlockDocument = ''document''"
| "BlockType_string BlockThinking = ''thinking''"
| "BlockType_string BlockRedactedThinking = ''redacted_thinking''"
| "BlockType_string BlockToolUse = ''tool_use''"
| "BlockType_string BlockToolResult = ''tool_result''"
| "BlockType_string (BlockOther s) = s"

fun ErrorType_string :: "ErrorType \<Rightarrow> string" where
  "ErrorType_string ErrInvalidRequest = ''invalid_request''"
| "ErrorType_string ErrAuthentication = ''authentication''"
| "ErrorType_string ErrPermission = ''permission''"
| "ErrorType_string ErrNotFound = ''not_found''"
| "ErrorType_string ErrRateLimit = ''rate_limit''"
| "ErrorType_string ErrOverloaded = ''overloaded''"
| "ErrorType_string ErrAPI = ''api_error''"
| "ErrorType_string ErrContentFilter = ''content_filter''"
| "ErrorType_string ErrDarkrouter = ''darkrouter''"
| "ErrorType_string ErrPayloadTooLarge = ''payload_too_large''"
| "ErrorType_string ErrUnsupportedMedia = ''unsupported_media''"
| "ErrorType_string (ErrOther s) = s"

section \<open>Surfaces\<close>

text \<open>A surface is a string in Go, and the empty string means the query names none.\<close>

type_synonym Surface = string

definition SurfaceLLM :: Surface where
  "SurfaceLLM = ''llm''"

definition AllSurfaces :: "Surface list" where
  "AllSurfaces = [SurfaceLLM, ''embedding'', ''image'', ''tts'', ''stt'', ''rerank'', ''moderation'']"

definition ParseSurface :: "string \<Rightarrow> Surface option" where
  "ParseSurface s = List.find (\<lambda>known. s = known) AllSurfaces"

definition MediaKind :: "string \<Rightarrow> BlockType" where
  "MediaKind mime =
     (if HasPrefix mime ''image/'' then BlockImage
      else if HasPrefix mime ''audio/'' then BlockAudio
      else BlockDocument)"

lemma find_equal: "List.find (\<lambda>known. s = known) xs = (if s \<in> set xs then Some s else None)"
  by (induction xs) auto

lemma ParseSurface_Some_iff: "ParseSurface s = Some x \<longleftrightarrow> x = s \<and> s \<in> set AllSurfaces"
  by (auto simp: ParseSurface_def find_equal)

section \<open>Content\<close>

record Media =
  MIME :: string
  Data :: string
  URL :: string
  FileID :: string

record Thinking =
  thText :: string
  thSignature :: string
  thData :: string

record ToolUse =
  tuID :: string
  tuName :: string
  tuInput :: "json option"
  tuSignature :: string

record CacheControl =
  ccType :: string
  ccTTL :: string

datatype ContentBlock = ContentBlock
    (cbType: BlockType) (cbText: string) (cbMedia: "Media option")
    (cbThinking: "Thinking option") (cbToolUse: "ToolUse option")
    (cbToolResult: "ToolResult option") (cbCacheControl: "CacheControl option")
    (cbExtra: "(string \<times> json) list")
and ToolResult = ToolResult
    (trToolUseID: string) (trContent: "ContentBlock list") (trIsError: bool)

definition text_block :: "string \<Rightarrow> ContentBlock" where
  "text_block s = ContentBlock BlockText s None None None None None []"

text \<open>\<^verbatim>\<open>ExtraString\<close> reads a string-valued extra; a JSON null leaves the empty string.\<close>

definition ExtraString :: "ContentBlock \<Rightarrow> string \<Rightarrow> string" where
  "ExtraString b key =
     (case map_of (cbExtra b) key of
        None \<Rightarrow> ''''
      | Some raw \<Rightarrow> (case dec_string raw '''' of None \<Rightarrow> '''' | Some s \<Rightarrow> s))"

fun SetExtraString :: "string \<Rightarrow> string \<Rightarrow> ContentBlock \<Rightarrow> ContentBlock" where
  "SetExtraString key value (ContentBlock t s m th tu tr cc ex) =
     ContentBlock t s m th tu tr cc (AList.update key (JStr value) ex)"

lemma ExtraString_SetExtraString [simp]:
  "ExtraString (SetExtraString key value b) k = (if k = key then value else ExtraString b k)"
  by (cases b) (simp add: ExtraString_def)

text \<open>\<^verbatim>\<open>(*ToolResult).Text\<close>: a nil result is empty, otherwise the text blocks concatenated.\<close>

definition ToolResult_Text :: "ToolResult option \<Rightarrow> string" where
  "ToolResult_Text t =
     (case t of None \<Rightarrow> ''''
      | Some tr \<Rightarrow> concat (map cbText (filter (\<lambda>b. cbType b = BlockText) (trContent tr))))"

record Message =
  msgRole :: Role
  msgContent :: "ContentBlock list"

record Tool =
  toolName :: string
  toolDescription :: string
  toolSchema :: "json option"
  toolSchemaDialect :: string
  toolExtra :: "(string, json) gomap"

definition BuiltIn :: "Tool \<Rightarrow> bool" where
  "BuiltIn t =
     (let typed = map_of (toolExtra t) ''type'' \<noteq> None
      in toolName t = '''' \<and> length (toolExtra t) > 0 \<and> \<not> typed)"

record ToolChoice =
  tcMode :: string
  tcName :: string

record Reasoning =
  rsEffort :: string
  rsBudget :: int
  rsDisabled :: bool

record ResponseFormat =
  rfType :: string
  rfSchema :: "json option"
  rfSchemaDialect :: string
  rfName :: string
  rfStrict :: "bool option"

record Warning =
  wField :: string
  wTarget :: string
  wReason :: string

definition Warning_String :: "Warning \<Rightarrow> string" where
  "Warning_String w = wField w @ '' -> '' @ wTarget w @ '': '' @ wReason w"

record Request =
  reqModel :: string
  reqSystem :: "ContentBlock list"
  reqMessages :: "Message list"
  reqTools :: "Tool list"
  reqToolChoice :: "ToolChoice option"
  reqParallelToolCalls :: "bool option"
  reqMaxTokens :: "int option"
  reqTemperature :: "json option"
  reqTopP :: "json option"
  reqTopK :: "int option"
  reqStopSequences :: "string list"
  reqStream :: bool
  reqReasoning :: "Reasoning option"
  reqResponseFormat :: "ResponseFormat option"
  reqSafety :: "(string \<times> string) list"
  reqMetadata :: "(string, string) gomap"
  reqExtra :: "(string, json) gomap"
  reqWarnings :: "Warning list"

record Usage =
  InputTokens :: int
  OutputTokens :: int
  CacheReadTokens :: int
  CacheWriteTokens :: int
  ReasoningTokens :: int
  Estimated :: bool
  CacheWrite5mTokens :: int
  CacheWrite1hTokens :: int

definition zero_usage :: Usage where
  "zero_usage = \<lparr>InputTokens = 0, OutputTokens = 0, CacheReadTokens = 0, CacheWriteTokens = 0,
     ReasoningTokens = 0, Estimated = False, CacheWrite5mTokens = 0, CacheWrite1hTokens = 0\<rparr>"

definition PromptTokens :: "Usage \<Rightarrow> int" where
  "PromptTokens u = InputTokens u + CacheReadTokens u"

record IRResponse =
  rspID :: string
  rspModel :: string
  rspContent :: "ContentBlock list"
  rspStopReason :: StopReason
  rspUsage :: Usage
  rspWarnings :: "Warning list"
  rspExtra :: "(string, json) gomap"

record Error =
  errType :: ErrorType
  errMessage :: string
  errCode :: string

definition mk_error :: "ErrorType \<Rightarrow> string \<Rightarrow> Error" where
  "mk_error t m = \<lparr>errType = t, errMessage = m, errCode = ''''\<rparr>"

definition Error_Error :: "Error \<Rightarrow> string" where
  "Error_Error e = ErrorType_string (errType e) @ '': '' @ errMessage e"

record Delta =
  dType :: BlockType
  dText :: string
  dThinking :: string
  dSignature :: string
  dToolInput :: string
  dToolID :: string
  dToolName :: string
  dExtra :: "(string, json) gomap"

record StreamEvent =
  evType :: EventType
  evIndex :: int
  evDelta :: "Delta option"
  evUsage :: "Usage option"
  evStopReason :: StopReason
  evErr :: "Error option"
  evID :: string
  evModel :: string
  evWarnings :: "Warning list"

definition zero_event :: StreamEvent where
  "zero_event = \<lparr>evType = EventOther '''', evIndex = 0, evDelta = None, evUsage = None,
     evStopReason = StopOther '''', evErr = None, evID = '''', evModel = '''', evWarnings = []\<rparr>"

definition zero_delta :: Delta where
  "zero_delta = \<lparr>dType = BlockOther '''', dText = '''', dThinking = '''', dSignature = '''',
     dToolInput = '''', dToolID = '''', dToolName = '''', dExtra = []\<rparr>"

section \<open>Capability needs\<close>

record Needs =
  nTools :: bool
  nVision :: bool
  nReasoning :: bool

fun blocksHaveImage :: "ContentBlock list \<Rightarrow> bool" where
  "blocksHaveImage [] = False"
| "blocksHaveImage (b # bs) =
     (if cbType b = BlockImage then True
      else if (case cbToolResult b of None \<Rightarrow> False
               | Some tr \<Rightarrow> list_ex (\<lambda>inner. cbType inner = BlockImage) (trContent tr)) then True
      else blocksHaveImage bs)"

definition Request_Needs :: "Request \<Rightarrow> Needs" where
  "Request_Needs r =
     \<lparr>nTools = length (reqTools r) > 0,
      nVision = foldl (\<lambda>v m. if blocksHaveImage (msgContent m) then True else v) False (reqMessages r),
      nReasoning = reqReasoning r \<noteq> None\<rparr>"

lemma blocksHaveImage_iff:
  "blocksHaveImage bs \<longleftrightarrow> (\<exists>b \<in> set bs. cbType b = BlockImage \<or>
     (\<exists>tr. cbToolResult b = Some tr \<and> (\<exists>i \<in> set (trContent tr). cbType i = BlockImage)))"
  by (induction bs) (auto simp: list_ex_iff split: option.splits)

lemma vision_fold: "foldl (\<lambda>v m. if p m then True else v) v0 ms \<longleftrightarrow> v0 \<or> (\<exists>m \<in> set ms. p m)"
  by (induction ms arbitrary: v0) auto

lemma Needs_Vision_iff:
  "nVision (Request_Needs r) \<longleftrightarrow> (\<exists>m \<in> set (reqMessages r). blocksHaveImage (msgContent m))"
  by (simp add: Request_Needs_def vision_fold)

section \<open>Open blocks of a stream\<close>

text \<open>
  \<^verbatim>\<open>OpenBlocks\<close>: the set of open block indices as a Go map with \<^verbatim>\<open>true\<close> values. \<^verbatim>\<open>CloseAll\<close> yields to
  its consumer, a state transformer that also says whether it is still listening.
\<close>

type_synonym OpenBlocks = "(int, bool) gomap"

definition Open :: "OpenBlocks \<Rightarrow> int \<Rightarrow> OpenBlocks" where
  "Open ob idx = AList.update idx True ob"

definition IsOpen :: "OpenBlocks \<Rightarrow> int \<Rightarrow> bool" where
  "IsOpen ob idx = (map_of ob idx = Some True)"

definition block_stop :: "int \<Rightarrow> StreamEvent" where
  "block_stop idx = zero_event\<lparr>evType := EventBlockStop, evIndex := idx\<rparr>"

fun yield_stops :: "('s \<Rightarrow> StreamEvent \<Rightarrow> 's \<times> bool) \<Rightarrow> 's \<Rightarrow> int list \<Rightarrow> 's \<times> bool" where
  "yield_stops yield s [] = (s, True)"
| "yield_stops yield s (i # is) =
     (case yield s (block_stop i) of (s', ok) \<Rightarrow> if \<not> ok then (s', False) else yield_stops yield s' is)"

definition CloseAll ::
    "OpenBlocks \<Rightarrow> ('s \<Rightarrow> StreamEvent \<Rightarrow> 's \<times> bool) \<Rightarrow> 's \<Rightarrow> OpenBlocks \<times> 's \<times> bool" where
  "CloseAll ob yield s =
     (case yield_stops yield s (sort (map fst ob)) of (s', ok) \<Rightarrow> ([], s', ok))"

text \<open>A consumer that never stops listening and records what it is given.\<close>

definition collect :: "StreamEvent list \<Rightarrow> StreamEvent \<Rightarrow> StreamEvent list \<times> bool" where
  "collect out ev = (out @ [ev], True)"

lemma yield_stops_collect: "yield_stops collect out is = (out @ map block_stop is, True)"
  by (induction "is" arbitrary: out) (auto simp: collect_def)

end
