(* ===== verification/Catalog.thy ===== *)
theory Catalog
  imports IR
begin

text \<open>
  The catalog's data and readers: \<^verbatim>\<open>internal/catalog/catalog.go\<close>, \<^verbatim>\<open>snapshot.go\<close>, \<^verbatim>\<open>pricing.go\<close>, \<^verbatim>\<open>free.go\<close>,
  \<^verbatim>\<open>freecatalog.go\<close>, the preset vocabulary of \<^verbatim>\<open>preset.go\<close>, \<^verbatim>\<open>normalize.go\<close>, \<^verbatim>\<open>orphan.go\<close>, and the provider
  records of \<^verbatim>\<open>internal/provider/provider.go\<close> with the style vocabulary of \<^verbatim>\<open>internal/auth/static.go\<close>. Both
  implementations of the \<^verbatim>\<open>Reader\<close> interface interpret one locale, which is all the router relies on.
\<close>

section \<open>Providers\<close>

record Credential =
  crID :: string
  crSecret :: string
  crEnabled :: bool
  crKind :: string
  crAccountID :: string

record Provider =
  prID :: string
  prKind :: string
  prBaseURL :: string
  prPreset :: string
  prAuthStyle :: string
  prCredentials :: "Credential list"
  prPriority :: int
  prModels :: "string list"
  prRegion :: string
  prProject :: string
  prLocation :: string
  prFreeModelsOnly :: bool
  prAllowUnsanctionedFree :: bool

definition IsStatic :: "string \<Rightarrow> bool" where
  "IsStatic style = (style \<in> {'''', ''bearer'', ''x-api-key'', ''api-key'', ''query-param'', ''none'',
     ''optional'', ''anonymous''})"

definition IsKeyless :: "string \<Rightarrow> bool" where
  "IsKeyless style = (style = ''none'' \<or> style = ''optional'' \<or> style = ''anonymous'')"

section \<open>Models\<close>

text \<open>\<open>SourceNone\<close> is the empty string, the zero value of the Go type.\<close>

datatype Source = SourceNone | SourceModelsDev | SourceDiscovered | SourceInferred | SourceOverride
  | SourceLiteLLM | SourceRegistry

fun Source_string :: "Source \<Rightarrow> string" where
  "Source_string SourceNone = ''''"
| "Source_string SourceModelsDev = ''models_dev''"
| "Source_string SourceDiscovered = ''discovered''"
| "Source_string SourceInferred = ''inferred''"
| "Source_string SourceOverride = ''override''"
| "Source_string SourceLiteLLM = ''litellm''"
| "Source_string SourceRegistry = ''registry''"

datatype Grade = GradeMeasured | GradeDeclared | GradeIndexed | GradeGuessed

fun grade :: "Source \<Rightarrow> Grade" where
  "grade SourceDiscovered = GradeMeasured"
| "grade SourceOverride = GradeDeclared"
| "grade SourceModelsDev = GradeIndexed"
| "grade SourceLiteLLM = GradeIndexed"
| "grade SourceRegistry = GradeIndexed"
| "grade _ = GradeGuessed"

fun Authoritative :: "Source \<Rightarrow> bool" where
  "Authoritative SourceOverride = True"
| "Authoritative SourceDiscovered = True"
| "Authoritative SourceModelsDev = True"
| "Authoritative _ = False"

record Capabilities =
  cpTools :: bool
  cpVision :: bool
  cpReasoning :: bool
  cpKnown :: bool

definition zero_capabilities :: Capabilities where
  "zero_capabilities = \<lparr>cpTools = False, cpVision = False, cpReasoning = False, cpKnown = False\<rparr>"

definition Satisfies :: "Capabilities \<Rightarrow> Capabilities \<Rightarrow> bool" where
  "Satisfies c need =
     (if \<not> cpKnown c then True
      else if cpTools need \<and> \<not> cpTools c then False
      else if cpVision need \<and> \<not> cpVision c then False
      else if cpReasoning need \<and> \<not> cpReasoning c then False
      else True)"

datatype State = StateLive | StateStale | StateRemovedUpstream

record Traits =
  trAdaptive :: bool
  trManualBudget :: bool
  trFreeSampling :: bool
  trKnown :: bool
  trNoPrefill :: bool
  trThinkingAlwaysOn :: bool
  trNoForcedToolChoice :: bool

definition zero_traits :: Traits where
  "zero_traits = \<lparr>trAdaptive = False, trManualBudget = False, trFreeSampling = False, trKnown = False,
     trNoPrefill = False, trThinkingAlwaysOn = False, trNoForcedToolChoice = False\<rparr>"

record Pricing =
  pcInputMicrosPerMTok :: int
  pcOutputMicrosPerMTok :: int
  pcCacheReadMicrosPerMTok :: int
  pcCacheWriteMicrosPerMTok :: int
  pcKnown :: bool
  pcSource :: Source
  pcResold :: bool
  pcCacheReadSource :: Source
  pcCacheWriteSource :: Source

definition zero_pricing :: Pricing where
  "zero_pricing = \<lparr>pcInputMicrosPerMTok = 0, pcOutputMicrosPerMTok = 0, pcCacheReadMicrosPerMTok = 0,
     pcCacheWriteMicrosPerMTok = 0, pcKnown = False, pcSource = SourceNone, pcResold = False,
     pcCacheReadSource = SourceNone, pcCacheWriteSource = SourceNone\<rparr>"

definition Pricing_Grade :: "Pricing \<Rightarrow> Grade" where
  "Pricing_Grade p =
     (let g = grade (pcSource p) in if pcResold p \<and> g = GradeMeasured then GradeIndexed else g)"

section \<open>Free tiers\<close>

record FreeTier =
  ftFreeType :: string
  ftMonthlyTokens :: int
  ftCreditTokens :: int
  ftPoolKey :: string
  ftToS :: string

definition zero_free_tier :: FreeTier where
  "zero_free_tier = \<lparr>ftFreeType = '''', ftMonthlyTokens = 0, ftCreditTokens = 0, ftPoolKey = '''', ftToS = ''''\<rparr>"

definition Unsanctioned :: "FreeTier \<Rightarrow> bool" where
  "Unsanctioned t = (ftToS t = ''avoid'')"

definition Live :: "FreeTier \<Rightarrow> bool" where
  "Live t = (ftFreeType t \<noteq> ''discontinued'')"

definition Vetoed :: "FreeTier \<Rightarrow> bool" where
  "Vetoed t = (Live t \<and> Unsanctioned t)"

text \<open>\<^verbatim>\<open>FreeCatalog.Providers\<close>: preset id, then model id. A missing inner map reads as an empty one.\<close>

type_synonym FreeCatalog = "(string, (string, FreeTier) gomap) gomap"

definition get2 :: "('k, ('j, 'v) gomap) gomap \<Rightarrow> 'k \<Rightarrow> 'j \<Rightarrow> 'v option" where
  "get2 m k j = (case map_of m k of None \<Rightarrow> None | Some inner \<Rightarrow> map_of inner j)"

definition Tier :: "FreeCatalog \<Rightarrow> string \<Rightarrow> string \<Rightarrow> FreeTier option" where
  "Tier c presetID modelID = get2 c presetID modelID"

definition Covers :: "FreeCatalog \<Rightarrow> string \<Rightarrow> string \<Rightarrow> bool" where
  "Covers c presetID modelID = (case get2 c presetID modelID of None \<Rightarrow> False | Some tier \<Rightarrow> Live tier)"

definition ModelsFor :: "FreeCatalog \<Rightarrow> string \<Rightarrow> string list" where
  "ModelsFor c presetID =
     (case map_of c presetID of
        None \<Rightarrow> []
      | Some models \<Rightarrow> map fst (filter (\<lambda>(mid, tier). Live tier) models))"

section \<open>The model record\<close>

record Model =
  mdProviderID :: string
  mdModelID :: string
  mdPublisher :: string
  mdSurfaces :: "Surface list"
  mdCapabilities :: Capabilities
  mdSource :: Source
  mdState :: State
  mdContextWindow :: int
  mdMaxOutputTokens :: int
  mdTraits :: Traits
  mdPricing :: Pricing
  mdFreeTier :: FreeTier

definition Routable :: "Model \<Rightarrow> bool" where
  "Routable m = (mdState m \<noteq> StateRemovedUpstream)"

fun declares :: "Surface list \<Rightarrow> Surface \<Rightarrow> bool" where
  "declares [] s = False"
| "declares (h # hs) s = (if h = s then True else declares hs s)"

definition DeclaresSurface :: "Model \<Rightarrow> Surface \<Rightarrow> bool" where
  "DeclaresSurface m s = declares (mdSurfaces m) s"

definition Model_Inferred :: "Model \<Rightarrow> bool" where
  "Model_Inferred m = (mdSource m = SourceInferred)"

lemma declares_iff [simp]: "declares hs s \<longleftrightarrow> s \<in> set hs"
  by (induction hs) auto

section \<open>Readers\<close>

text \<open>Both readers keep the same two indexes. \<open>append_at\<close> is \<^verbatim>\<open>m[k] = append(m[k], v)\<close>.\<close>

record reader_index =
  byProvider :: "(string, (string, Model) gomap) gomap"
  offering :: "(string, string list) gomap"

definition append_at :: "'k \<Rightarrow> 'v \<Rightarrow> ('k, 'v list) gomap \<Rightarrow> ('k, 'v list) gomap" where
  "append_at k v m = AList.update k ((case map_of m k of None \<Rightarrow> [] | Some vs \<Rightarrow> vs) @ [v]) m"

definition providerReader_model :: "string \<Rightarrow> string \<Rightarrow> Model" where
  "providerReader_model pid mid = \<lparr>mdProviderID = pid, mdModelID = mid, mdPublisher = '''',
     mdSurfaces = [SurfaceLLM], mdCapabilities = zero_capabilities, mdSource = SourceInferred,
     mdState = StateLive, mdContextWindow = 0, mdMaxOutputTokens = 0, mdTraits = zero_traits,
     mdPricing = zero_pricing, mdFreeTier = zero_free_tier\<rparr>"

definition FromProviders :: "Provider list \<Rightarrow> reader_index" where
  "FromProviders ps =
     fold (\<lambda>p r.
       (case fold (\<lambda>mid (models, off).
            (AList.update mid (providerReader_model (prID p) mid) models, append_at mid (prID p) off))
          (prModels p) ([], offering r) of
        (models, off) \<Rightarrow> r\<lparr>byProvider := AList.update (prID p) models (byProvider r), offering := off\<rparr>))
     ps \<lparr>byProvider = [], offering = []\<rparr>"

text \<open>\<^verbatim>\<open>Lookup\<close> and \<^verbatim>\<open>Offering\<close> have the same body in both implementations.\<close>

definition Lookup :: "'a reader_index_scheme \<Rightarrow> string \<Rightarrow> string \<Rightarrow> Model option" where
  "Lookup r providerID modelID =
     (case map_of (byProvider r) providerID of
        None \<Rightarrow> None
      | Some models \<Rightarrow> map_of models modelID)"

definition Offering :: "'a reader_index_scheme \<Rightarrow> string \<Rightarrow> string list" where
  "Offering r modelID = (case map_of (offering r) modelID of None \<Rightarrow> [] | Some ids \<Rightarrow> ids)"

record CatSnapshot = reader_index +
  all_models :: "Model list"

definition index_model :: "Model \<Rightarrow> (string, (string, Model) gomap) gomap \<Rightarrow> (string, (string, Model) gomap) gomap" where
  "index_model m bp =
     (let byModel = (case map_of bp (mdProviderID m) of None \<Rightarrow> [] | Some x \<Rightarrow> x) in
      AList.update (mdProviderID m) (AList.update (mdModelID m) m byModel) bp)"

definition offer_pass :: "Model list \<Rightarrow> string \<Rightarrow> (string, string list) gomap \<Rightarrow> (string, string list) gomap" where
  "offer_pass models pid off =
     fold (\<lambda>m off'. if mdProviderID m \<noteq> pid \<or> \<not> Routable m then off'
                    else append_at (mdModelID m) pid off') models off"

definition NewSnapshot :: "Model list \<Rightarrow> string list \<Rightarrow> CatSnapshot" where
  "NewSnapshot models providerOrder =
     \<lparr>byProvider = fold index_model models [],
      offering = fold (offer_pass models) providerOrder [],
      all_models = models\<rparr>"

record Filter =
  flSurface :: Surface
  flProviderID :: string
  flQuery :: string
  flIncludeRemoved :: bool

definition Search :: "CatSnapshot \<Rightarrow> Filter \<Rightarrow> Model list" where
  "Search s f =
     (let q = ToLower (flQuery f) in
      filter (\<lambda>m.
        if \<not> flIncludeRemoved f \<and> \<not> Routable m then False
        else if flProviderID f \<noteq> '''' \<and> mdProviderID m \<noteq> flProviderID f then False
        else if flSurface f \<noteq> '''' \<and> \<not> DeclaresSurface m (flSurface f) then False
        else if q \<noteq> '''' \<and> \<not> Contains (ToLower (mdModelID m)) q then False
        else True) (all_models s))"

section \<open>The snapshot's holder\<close>

text \<open>\<^verbatim>\<open>catalog.Store\<close>: the live snapshot and the sources of the documents a rebuild reads. A rebuild's
  reads are the three results the database gives; \<open>merge\<close> is the catalog's own merge applied to them.\<close>

definition empty_snapshot :: CatSnapshot where
  "empty_snapshot = NewSnapshot [] []"

definition Store_Snapshot :: "CatSnapshot option \<Rightarrow> CatSnapshot" where
  "Store_Snapshot cur = (case cur of None \<Rightarrow> empty_snapshot | Some s \<Rightarrow> s)"

definition live_or :: "('k, 'v) gomap option \<Rightarrow> ('k, 'v) gomap \<Rightarrow> ('k, 'v) gomap" where
  "live_or live fallback = (case live of Some d \<Rightarrow> if d \<noteq> [] then d else fallback | None \<Rightarrow> fallback)"

definition Rebuild ::
    "(Provider list \<Rightarrow> 'r list \<Rightarrow> 'o list \<Rightarrow> Model list) \<Rightarrow> bool \<Rightarrow> (string + Provider list) \<Rightarrow> (string + 'r list)
       \<Rightarrow> (string + 'o list) \<Rightarrow> CatSnapshot option \<Rightarrow> string option \<times> CatSnapshot option" where
  "Rebuild merge wired providers_r rows_r overrides_r cur =
     (if \<not> wired then (None, cur)
      else case providers_r of
        Inl e \<Rightarrow> (Some (''catalog rebuild: providers: '' @ e), cur)
      | Inr providers \<Rightarrow> (case rows_r of
          Inl e \<Rightarrow> (Some (''catalog rebuild: models: '' @ e), cur)
        | Inr rows \<Rightarrow> (case overrides_r of
            Inl e \<Rightarrow> (Some (''catalog rebuild: overrides: '' @ e), cur)
          | Inr overrides \<Rightarrow>
              (None, Some (NewSnapshot (merge providers rows overrides) (map prID providers))))))"

section \<open>Pricing\<close>

record Tokens =
  tkInput :: int
  tkOutput :: int
  tkCacheRead :: int
  tkCacheWrite :: int
  tkCacheWrite5m :: int
  tkCacheWrite1h :: int

definition rateMicros :: "int \<Rightarrow> int \<Rightarrow> int" where
  "rateMicros perMTok tokens =
     (if tokens \<le> 0 \<or> perMTok \<le> 0 then 0
      else go_div (wrap64 (wrap64 (perMTok * tokens) + 500000)) 1000000)"

definition Cost :: "Pricing \<Rightarrow> Tokens \<Rightarrow> int option" where
  "Cost p t =
     (if \<not> pcKnown p then None
      else
        let plain = wrap64 (tkCacheWrite t - tkCacheWrite5m t - tkCacheWrite1h t) in
        Some (wrap64
          (rateMicros (pcInputMicrosPerMTok p) (tkInput t) +
           rateMicros (pcOutputMicrosPerMTok p) (tkOutput t) +
           rateMicros (pcCacheReadMicrosPerMTok p) (tkCacheRead t) +
           rateMicros (pcCacheWriteMicrosPerMTok p) plain +
           rateMicros (go_div (wrap64 (pcInputMicrosPerMTok p * 1250)) 1000) (tkCacheWrite5m t) +
           rateMicros (go_div (wrap64 (pcInputMicrosPerMTok p * 2000)) 1000) (tkCacheWrite1h t))))"

fun gradeRank :: "Grade \<Rightarrow> int" where
  "gradeRank GradeMeasured = 3"
| "gradeRank GradeDeclared = 2"
| "gradeRank GradeIndexed = 1"
| "gradeRank GradeGuessed = 0"

definition weaker :: "Grade \<Rightarrow> Grade \<Rightarrow> Grade" where
  "weaker a b = (if gradeRank b < gradeRank a then b else a)"

definition GradeFor :: "Pricing \<Rightarrow> Tokens \<Rightarrow> Grade" where
  "GradeFor p t =
     (let g0 = Pricing_Grade p;
          g1 = (if tkCacheRead t > 0 \<and> pcCacheReadSource p \<noteq> SourceNone
                then weaker g0 (grade (pcCacheReadSource p)) else g0)
      in if wrap64 (tkCacheWrite t - tkCacheWrite5m t - tkCacheWrite1h t) > 0 \<and> pcCacheWriteSource p \<noteq> SourceNone
         then weaker g1 (grade (pcCacheWriteSource p)) else g1)"

definition CostMicros :: "Pricing \<Rightarrow> int \<Rightarrow> int \<Rightarrow> int \<Rightarrow> int \<Rightarrow> int option" where
  "CostMicros p inp out cacheRead cacheWrite =
     Cost p \<lparr>tkInput = inp, tkOutput = out, tkCacheRead = cacheRead, tkCacheWrite = cacheWrite,
       tkCacheWrite5m = 0, tkCacheWrite1h = 0\<rparr>"

section \<open>Metadata and free-only import\<close>

record Metadata =
  meContextWindow :: int
  meMaxOutputTokens :: int
  meInputMicrosPerMTok :: int
  meOutputMicrosPerMTok :: int
  meCacheReadMicrosPerMTok :: int
  meCacheWriteMicrosPerMTok :: int
  mePriceKnown :: bool
  meCapabilities :: Capabilities

type_synonym Doc = "(string, (string, Metadata) gomap) gomap"

definition Doc_Metadata :: "Doc \<Rightarrow> string \<Rightarrow> string \<Rightarrow> Metadata option" where
  "Doc_Metadata d modelsDevID modelID = get2 d modelsDevID modelID"

definition Doc_ModelsFor :: "Doc \<Rightarrow> string \<Rightarrow> string list" where
  "Doc_ModelsFor d modelsDevID =
     (case map_of d modelsDevID of None \<Rightarrow> [] | Some models \<Rightarrow> sort_strings (map fst models))"

text \<open>A rule a provider does not have is a nil function, here \<open>None\<close>. A discovered model is known to the
  filter by its id alone.\<close>

record FreeRules =
  frPrice :: "(string \<Rightarrow> Metadata option) option"
  frCurated :: "(string \<Rightarrow> bool) option"
  frKeyless :: bool
  frUnsanctioned :: "(string \<Rightarrow> bool) option"

definition IsFreeModel :: "string \<Rightarrow> Metadata option \<Rightarrow> (string \<Rightarrow> bool) option \<Rightarrow> bool" where
  "IsFreeModel modelID meta curated =
     (if HasSuffix modelID '':free'' then True
      else if (case curated of None \<Rightarrow> False | Some f \<Rightarrow> f modelID) then True
      else case meta of
        None \<Rightarrow> False
      | Some m \<Rightarrow> if \<not> mePriceKnown m then False
                  else meInputMicrosPerMTok m = 0 \<and> meOutputMicrosPerMTok m = 0)"

definition vetoes :: "(string \<Rightarrow> bool) option \<Rightarrow> string \<Rightarrow> bool" where
  "vetoes u modelID = (case u of None \<Rightarrow> False | Some f \<Rightarrow> f modelID)"

fun withoutUnsanctioned :: "('d \<Rightarrow> string) \<Rightarrow> 'd list \<Rightarrow> (string \<Rightarrow> bool) option \<Rightarrow> 'd list \<times> string list" where
  "withoutUnsanctioned mid ms None = (ms, [])"
| "withoutUnsanctioned mid [] (Some u) = ([], [])"
| "withoutUnsanctioned mid (m # ms) (Some u) =
     (case withoutUnsanctioned mid ms (Some u) of (kept, dropped) \<Rightarrow>
        if u (mid m) then (kept, mid m # dropped) else (m # kept, dropped))"

fun select_loop :: "('d \<Rightarrow> string) \<Rightarrow> FreeRules \<Rightarrow> 'd list \<Rightarrow> 'd list \<Rightarrow> string list \<Rightarrow> 'd list \<times> string list" where
  "select_loop mid rules [] out dropped = (out, dropped)"
| "select_loop mid rules (m # ms) out dropped =
     (let meta = (case frPrice rules of None \<Rightarrow> None | Some price \<Rightarrow> price (mid m)) in
      if vetoes (frUnsanctioned rules) (mid m) then select_loop mid rules ms out (dropped @ [mid m])
      else if IsFreeModel (mid m) meta (frCurated rules) then select_loop mid rules ms (out @ [m]) dropped
      else select_loop mid rules ms out (dropped @ [mid m]))"

definition SelectModelsForImport :: "('d \<Rightarrow> string) \<Rightarrow> 'd list \<Rightarrow> bool \<Rightarrow> FreeRules \<Rightarrow> 'd list \<times> string list" where
  "SelectModelsForImport mid models freeOnly rules =
     (if \<not> freeOnly then (models, [])
      else case select_loop mid rules models [] [] of (out, dropped) \<Rightarrow>
        if length out = 0 \<and> frKeyless rules \<and> length models > 0
        then withoutUnsanctioned mid models (frUnsanctioned rules)
        else (out, dropped))"

section \<open>Presets\<close>

record Auth =
  auStyle :: string
  auHeader :: string
  auQueryParam :: string
  auKey :: string

definition Auth_Secret :: "Auth \<Rightarrow> string \<Rightarrow> string" where
  "Auth_Secret a configured = (if configured = '''' \<and> auStyle a = ''anonymous'' then auKey a else configured)"

record TraitRule =
  tuMatch :: string
  tuAdaptive :: bool
  tuManualBudget :: bool
  tuFreeSampling :: bool
  tuNoPrefill :: bool
  tuThinkingAlwaysOn :: bool
  tuNoForcedToolChoice :: bool

text \<open>The preset's fields with a reader in the modelled code.\<close>

record Preset =
  psKind :: string
  psBaseURL :: string
  psAuth :: Auth
  psSurfaces :: "string list"
  psModelsDevID :: string
  psNoModelsDev :: bool
  psLiteLLMID :: string
  psNoLiteLLM :: bool
  psFreeTier :: bool
  psResells :: bool
  psQuirks :: "string list"
  psModelAliases :: "(string, string) gomap"
  psModelTraits :: "TraitRule list"
  psPublisher :: string

definition zero_preset :: Preset where
  "zero_preset = \<lparr>psKind = '''', psBaseURL = '''', psAuth = \<lparr>auStyle = '''', auHeader = '''', auQueryParam = '''', auKey = ''''\<rparr>,
     psSurfaces = [], psModelsDevID = '''', psNoModelsDev = False, psLiteLLMID = '''', psNoLiteLLM = False,
     psFreeTier = False, psResells = False, psQuirks = [], psModelAliases = [], psModelTraits = [], psPublisher = ''''\<rparr>"

definition ResellsPrices :: "Preset \<Rightarrow> bool" where
  "ResellsPrices p = (psResells p \<or> (psFreeTier p \<and> psNoModelsDev p \<and> psNoLiteLLM p))"

definition HasQuirk :: "Preset \<Rightarrow> string \<Rightarrow> bool" where
  "HasQuirk p tag = list_ex (\<lambda>q. q = tag) (psQuirks p)"

fun quirk_loop :: "string \<Rightarrow> string list \<Rightarrow> string option" where
  "quirk_loop prefix [] = None"
| "quirk_loop prefix (q # qs) =
     (if HasPrefix q prefix then Some (drop (length prefix) q) else quirk_loop prefix qs)"

definition QuirkValue :: "Preset \<Rightarrow> string \<Rightarrow> string option" where
  "QuirkValue p tag = quirk_loop (tag @ ''='') (psQuirks p)"

type_synonym Presets = "(string, Preset) gomap"

definition OrphanedPresets_orphans :: "Provider list \<Rightarrow> Presets \<Rightarrow> Provider list" where
  "OrphanedPresets_orphans providers presets =
     SliceStable (\<lambda>p q. prID p < prID q)
       (filter (\<lambda>p. prPreset p \<noteq> '''' \<and> map_of presets (prPreset p) = None) providers)"

section \<open>Normalisation and the metadata join\<close>

definition leaf :: "string \<Rightarrow> string" where
  "leaf s = rev (takeWhile (\<lambda>c. c \<noteq> CHR ''/'') (rev s))"

definition NormalizeModelID :: "string \<Rightarrow> string" where
  "NormalizeModelID mid = ReplaceChar (CHR '':'') ''-'' (leaf (ToLower (TrimSpace mid)))"

text \<open>The ladder both joins walk: explicit alias, exact id, first id in sorted order with the same
  normal form.\<close>

definition join_ladder :: "(string, string) gomap \<Rightarrow> (string, 'v) gomap \<Rightarrow> string \<Rightarrow> 'v option" where
  "join_ladder aliases bucket modelID =
     (let exact = (case map_of bucket modelID of
          Some m \<Rightarrow> Some m
        | None \<Rightarrow>
            (let want = NormalizeModelID modelID in
             if want = '''' then None
             else case find (\<lambda>i. NormalizeModelID i = want) (sort_strings (map fst bucket)) of
               None \<Rightarrow> None
             | Some i \<Rightarrow> map_of bucket i))
      in case map_of aliases modelID of
           None \<Rightarrow> exact
         | Some alias \<Rightarrow> (case map_of bucket alias of Some m \<Rightarrow> Some m | None \<Rightarrow> exact))"

definition bucket_of :: "(string, (string, 'v) gomap) gomap \<Rightarrow> string \<Rightarrow> (string, 'v) gomap" where
  "bucket_of d k = (case map_of d k of None \<Rightarrow> [] | Some b \<Rightarrow> b)"

definition Join_doc :: "Preset \<Rightarrow> Doc \<Rightarrow> string \<Rightarrow> Metadata option" where
  "Join_doc p doc modelID =
     (if psNoModelsDev p \<or> psModelsDevID p = '''' then None
      else join_ladder (psModelAliases p) (bucket_of doc (psModelsDevID p)) modelID)"

section \<open>The readers as indexes\<close>

definition model_key :: "Model \<Rightarrow> string \<times> string" where
  "model_key m = (mdProviderID m, mdModelID m)"

lemma get2_Nil [simp]: "get2 [] p i = None"
  by (simp add: get2_def)

lemma get2_index_model:
  "get2 (index_model m bp) p i = (if model_key m = (p, i) then Some m else get2 bp p i)"
  by (auto simp: index_model_def get2_def model_key_def Let_def split: option.splits)

lemma get2_fold_index:
  "get2 (fold index_model ms bp) p i =
     (case find (\<lambda>m. model_key m = (p, i)) (rev ms) of None \<Rightarrow> get2 bp p i | Some m \<Rightarrow> Some m)"
  by (induction ms rule: rev_induct) (auto simp: get2_index_model)

lemma Lookup_get2: "Lookup r p i = get2 (byProvider r) p i"
  by (simp add: Lookup_def get2_def)

lemma Lookup_NewSnapshot:
  "Lookup (NewSnapshot ms order) p i = find (\<lambda>m. model_key m = (p, i)) (rev ms)"
  by (simp add: Lookup_get2 NewSnapshot_def get2_fold_index split: option.splits)

lemma find_distinct_key:
  assumes "distinct (map f ms)" "m \<in> set ms"
  shows "find (\<lambda>x. f x = f m) ms = Some m"
  using assms by (induction ms) (auto simp: rev_image_eqI)

definition entries_at :: "('k, 'v list) gomap \<Rightarrow> 'k \<Rightarrow> 'v list" where
  "entries_at m k = (case map_of m k of None \<Rightarrow> [] | Some vs \<Rightarrow> vs)"

lemma entries_append_at: "entries_at (append_at k v m) j = entries_at m j @ (if k = j then [v] else [])"
  by (auto simp: entries_at_def append_at_def)

lemma entries_offer_pass:
  "entries_at (offer_pass ms pid off) i =
     entries_at off i @ map (\<lambda>_. pid) (filter (\<lambda>m. model_key m = (pid, i) \<and> Routable m) ms)"
proof (induction ms arbitrary: off)
  case (Cons m ms)
  have "offer_pass (m # ms) pid off =
      offer_pass ms pid (if mdProviderID m \<noteq> pid \<or> \<not> Routable m then off else append_at (mdModelID m) pid off)"
    by (simp add: offer_pass_def)
  then show ?case by (auto simp: Cons.IH entries_append_at model_key_def)
qed (simp add: offer_pass_def)

lemma entries_fold_offer:
  "entries_at (fold (offer_pass ms) order off) i = entries_at off i @
     concat (map (\<lambda>pid. map (\<lambda>_. pid) (filter (\<lambda>m. model_key m = (pid, i) \<and> Routable m) ms)) order)"
  by (induction order arbitrary: off) (simp_all add: entries_offer_pass)

lemma Offering_entries: "Offering r i = entries_at (offering r) i"
  by (simp add: Offering_def entries_at_def)

lemma Offering_NewSnapshot:
  "Offering (NewSnapshot ms order) i =
     concat (map (\<lambda>pid. map (\<lambda>_. pid) (filter (\<lambda>m. model_key m = (pid, i) \<and> Routable m) ms)) order)"
  by (simp add: Offering_entries NewSnapshot_def entries_fold_offer) (simp add: entries_at_def)

text \<open>With one row per provider and model, which is the primary key of the table the rows come from, the
  offering is the provider order restricted to the providers with a routable row.\<close>

lemma filter_distinct_key:
  assumes "distinct (map f ms)"
  shows "filter (\<lambda>m. f m = k \<and> P m) ms =
    (case find (\<lambda>m. f m = k) ms of None \<Rightarrow> [] | Some m \<Rightarrow> if P m then [m] else [])"
  using assms
proof (induction ms)
  case (Cons m ms)
  have "find (\<lambda>m. f m = k) ms = None" if "f m = k"
    using Cons.prems that by (auto simp: find_None_iff image_iff)
  moreover have "filter (\<lambda>m. f m = k \<and> P m) ms = []" if "f m = k"
    using Cons.prems that by (auto simp: filter_empty_conv image_iff)
  ultimately show ?case using Cons by auto
qed simp

lemma find_rev_distinct:
  assumes "distinct (map f ms)"
  shows "find (\<lambda>m. f m = k) (rev ms) = find (\<lambda>m. f m = k) ms"
proof (cases "find (\<lambda>m. f m = k) ms")
  case None
  then have "find (\<lambda>m. f m = k) (rev ms) = None" by (simp add: find_None_iff)
  with None show ?thesis by simp
next
  case (Some m)
  then have m: "m \<in> set ms" "f m = k" by (auto simp: find_Some_iff)
  have "distinct (map f (rev ms))" using assms by (simp add: rev_map[symmetric])
  then show ?thesis using find_distinct_key[of f "rev ms" m] m Some by simp
qed

lemma Offering_NewSnapshot_distinct:
  assumes "distinct (map model_key ms)"
  shows "Offering (NewSnapshot ms order) i =
    filter (\<lambda>pid. case Lookup (NewSnapshot ms order) pid i of None \<Rightarrow> False | Some m \<Rightarrow> Routable m) order"
proof -
  have "map (\<lambda>_. pid) (filter (\<lambda>m. model_key m = (pid, i) \<and> Routable m) ms) =
      (if (case Lookup (NewSnapshot ms order) pid i of None \<Rightarrow> False | Some m \<Rightarrow> Routable m) then [pid] else [])" for pid
    unfolding filter_distinct_key[OF assms] Lookup_NewSnapshot find_rev_distinct[OF assms]
    by (auto split: option.splits)
  moreover have "concat (map (\<lambda>x. if P x then [x] else []) xs) = filter P xs" for P and xs :: "string list"
    by (induction xs) simp_all
  ultimately show ?thesis by (simp add: Offering_NewSnapshot)
qed

lemma find_key: "find (\<lambda>m. f m = k) ms = Some m \<Longrightarrow> f m = k \<and> m \<in> set ms"
  by (auto simp: find_Some_iff)

text \<open>The phase-three reader, over the configured fleet.\<close>

definition reader_step :: "Provider \<Rightarrow> reader_index \<Rightarrow> reader_index" where
  "reader_step p r =
     (case fold (\<lambda>mid (models, off).
            (AList.update mid (providerReader_model (prID p) mid) models, append_at mid (prID p) off))
          (prModels p) ([], offering r) of
        (models, off) \<Rightarrow> r\<lparr>byProvider := AList.update (prID p) models (byProvider r), offering := off\<rparr>)"

lemma FromProviders_steps: "FromProviders ps = fold reader_step ps \<lparr>byProvider = [], offering = []\<rparr>"
  by (simp add: FromProviders_def reader_step_def[abs_def])

lemma reader_inner:
  assumes "fold (\<lambda>mid (models, off). (AList.update mid (g mid) models, append_at mid pid off)) ids (m0, o0) = (m1, o1)"
  shows "map_of m1 i = (if i \<in> set ids then Some (g i) else map_of m0 i) \<and>
    entries_at o1 i = entries_at o0 i @ map (\<lambda>_. pid) (filter (\<lambda>x. x = i) ids)"
  using assms by (induction ids arbitrary: m0 o0) (auto simp: entries_append_at)

lemma reader_step_get2:
  "get2 (byProvider (reader_step p r)) q i =
     (if q = prID p then (if i \<in> set (prModels p) then Some (providerReader_model q i) else None)
      else get2 (byProvider r) q i)"
proof -
  obtain m1 o1 where f: "fold (\<lambda>mid (models, off). (AList.update mid (providerReader_model (prID p) mid) models,
      append_at mid (prID p) off)) (prModels p) ([], offering r) = (m1, o1)" by (rule prod.exhaust)
  show ?thesis using reader_inner[OF f, of i] by (auto simp: reader_step_def f get2_def)
qed

lemma reader_step_offering:
  "entries_at (offering (reader_step p r)) i =
     entries_at (offering r) i @ map (\<lambda>_. prID p) (filter (\<lambda>x. x = i) (prModels p))"
proof -
  obtain m1 o1 where f: "fold (\<lambda>mid (models, off). (AList.update mid (providerReader_model (prID p) mid) models,
      append_at mid (prID p) off)) (prModels p) ([], offering r) = (m1, o1)" by (rule prod.exhaust)
  show ?thesis using reader_inner[OF f, of i] by (simp add: reader_step_def f)
qed

lemma Offering_FromProviders:
  "Offering (FromProviders ps) i = concat (map (\<lambda>p. map (\<lambda>_. prID p) (filter (\<lambda>x. x = i) (prModels p))) ps)"
proof -
  have "entries_at (offering (fold reader_step ps r)) i =
      entries_at (offering r) i @ concat (map (\<lambda>p. map (\<lambda>_. prID p) (filter (\<lambda>x. x = i) (prModels p))) ps)" for r
    by (induction ps arbitrary: r) (simp_all add: reader_step_offering)
  then show ?thesis by (simp add: Offering_entries FromProviders_steps) (simp add: entries_at_def)
qed

lemma Lookup_FromProviders:
  "Lookup (FromProviders ps) q i =
     (case find (\<lambda>p. prID p = q) (rev ps) of
        None \<Rightarrow> None
      | Some p \<Rightarrow> if i \<in> set (prModels p) then Some (providerReader_model q i) else None)"
proof -
  have "get2 (byProvider (fold reader_step ps r)) q i =
      (case find (\<lambda>p. prID p = q) (rev ps) of
         None \<Rightarrow> get2 (byProvider r) q i
       | Some p \<Rightarrow> if i \<in> set (prModels p) then Some (providerReader_model q i) else None)" for r
    by (induction ps rule: rev_induct) (auto simp: reader_step_get2)
  then show ?thesis by (simp add: Lookup_get2 FromProviders_steps split: option.splits)
qed

section \<open>The reader interface\<close>

text \<open>What the router relies on: a provider an index offers for a model has a record of it, under its own
  key, and the record is routable.\<close>

locale catalog_reader =
  fixes invar :: "'r \<Rightarrow> bool"
    and lookup :: "'r \<Rightarrow> string \<Rightarrow> string \<Rightarrow> Model option"
    and offers :: "'r \<Rightarrow> string \<Rightarrow> string list"
  assumes offered_found: "invar r \<Longrightarrow> pid \<in> set (offers r i) \<Longrightarrow> \<exists>m. lookup r pid i = Some m \<and> Routable m"
    and lookup_key: "invar r \<Longrightarrow> lookup r pid i = Some m \<Longrightarrow> mdProviderID m = pid \<and> mdModelID m = i"
begin

lemma offered_not_removed:
  "invar r \<Longrightarrow> pid \<in> set (offers r i) \<Longrightarrow> lookup r pid i = Some m \<Longrightarrow> mdState m \<noteq> StateRemovedUpstream"
  using offered_found by (fastforce simp: Routable_def)

end

definition snapshot_inv :: "CatSnapshot \<Rightarrow> bool" where
  "snapshot_inv s = (\<exists>ms order. s = NewSnapshot ms order \<and> distinct (map model_key ms))"

definition provider_reader_inv :: "reader_index \<Rightarrow> bool" where
  "provider_reader_inv r = (\<exists>ps. r = FromProviders ps \<and> distinct (map prID ps))"

interpretation snap: catalog_reader snapshot_inv Lookup Offering
proof
  fix r :: CatSnapshot and pid i
  assume "snapshot_inv r" and in_off: "pid \<in> set (Offering r i)"
  then obtain ms order where r: "r = NewSnapshot ms order" and "distinct (map model_key ms)"
    by (auto simp: snapshot_inv_def)
  then show "\<exists>m. Lookup r pid i = Some m \<and> Routable m"
    using in_off Offering_NewSnapshot_distinct[of ms order i] by (auto split: option.splits)
next
  fix r :: CatSnapshot and pid i m
  assume "snapshot_inv r" "Lookup r pid i = Some m"
  then show "mdProviderID m = pid \<and> mdModelID m = i"
    by (auto simp: snapshot_inv_def Lookup_NewSnapshot dest!: find_key, auto simp: model_key_def)
qed

interpretation fleet_reader: catalog_reader provider_reader_inv Lookup Offering
proof
  fix r :: reader_index and pid i
  assume "provider_reader_inv r" and in_off: "pid \<in> set (Offering r i)"
  then obtain ps where r: "r = FromProviders ps" and d: "distinct (map prID ps)"
    by (auto simp: provider_reader_inv_def)
  from in_off obtain p where p: "p \<in> set ps" "prID p = pid" "i \<in> set (prModels p)"
    unfolding r Offering_FromProviders by auto
  have "find (\<lambda>x. prID x = pid) (rev ps) = Some p"
    using find_distinct_key[OF d p(1)] p(2) find_rev_distinct[OF d] by simp
  with p show "\<exists>m. Lookup r pid i = Some m \<and> Routable m"
    by (simp add: r Lookup_FromProviders Routable_def providerReader_model_def)
next
  fix r :: reader_index and pid i m
  assume "provider_reader_inv r" "Lookup r pid i = Some m"
  then show "mdProviderID m = pid \<and> mdModelID m = i"
    by (auto simp: provider_reader_inv_def Lookup_FromProviders providerReader_model_def
        split: option.splits if_splits)
qed

section \<open>Properties\<close>

definition demo_model :: "string \<Rightarrow> string \<Rightarrow> State \<Rightarrow> Model" where
  "demo_model pid i st = (providerReader_model pid i)\<lparr>mdState := st\<rparr>"

text \<open>The catalog snapshot is an index of the merged rows: with one row per provider and model, every
  row is found under its own key, and a bare model name is offered by exactly the providers, in the
  operator's priority order, whose row is not retired upstream.\<close>

theorem snapshot_priority:
  assumes "distinct (map model_key ms)" "s = NewSnapshot ms order"
  shows "Offering s i = filter (\<lambda>pid. case Lookup s pid i of None \<Rightarrow> False | Some m \<Rightarrow> Routable m) order \<and>
    (pid \<in> set (Offering s i) \<longrightarrow> (\<exists>m. Lookup s pid i = Some m \<and> Routable m \<and> mdProviderID m = pid \<and> mdModelID m = i)) \<and>
    (m \<in> set ms \<longrightarrow> Lookup s (mdProviderID m) (mdModelID m) = Some m)"
proof -
  have inv: "snapshot_inv s" using assms by (auto simp: snapshot_inv_def)
  have "Lookup s (mdProviderID m) (mdModelID m) = Some m" if "m \<in> set ms"
    using find_distinct_key[OF assms(1) that]
    by (simp add: assms(2) Lookup_NewSnapshot find_rev_distinct[OF assms(1)] model_key_def[of m])
  then show ?thesis
    using snap.offered_found[OF inv] snap.lookup_key[OF inv] Offering_NewSnapshot_distinct[OF assms(1)]
    by (force simp: assms(2))
qed

theorem snapshot_priority_witness:
  "Offering (NewSnapshot [demo_model ''a'' ''m'' StateLive, demo_model ''b'' ''m'' StateRemovedUpstream,
     demo_model ''c'' ''m'' StateStale] [''c'', ''b'', ''a'']) ''m'' = [''c'', ''a'']"
proof -
  let ?ms = "[demo_model ''a'' ''m'' StateLive, demo_model ''b'' ''m'' StateRemovedUpstream, demo_model ''c'' ''m'' StateStale]"
  have "distinct (map model_key ?ms)" by code_simp
  note p = snapshot_priority[OF this refl]
  have "filter (\<lambda>pid. case Lookup (NewSnapshot ?ms [''c'', ''b'', ''a'']) pid ''m'' of None \<Rightarrow> False | Some m \<Rightarrow> Routable m)
      [''c'', ''b'', ''a''] = [''c'', ''a'']" by code_simp
  then show ?thesis using p[of "[''c'', ''b'', ''a'']" "''m''"] by simp
qed

lemma rateMicros_round:
  assumes "0 \<le> r" "r \<le> 2000000000" "0 \<le> t" "t \<le> 1000000000"
  shows "\<bar>1000000 * rateMicros r t - r * t\<bar> \<le> 500000 \<and> 0 \<le> rateMicros r t \<and> rateMicros r t \<le> 2000000000001"
proof (cases "t = 0 \<or> r = 0")
  case True
  then show ?thesis by (auto simp: rateMicros_def)
next
  case False
  have b: "r * t \<le> 2000000000 * 1000000000" using assms by (intro mult_mono) auto
  have nn: "0 \<le> r * t" using assms by simp
  have w: "wrap64 (r * t) = r * t" "wrap64 (r * t + 500000) = r * t + 500000"
    using b nn by (auto intro!: wrap64_id simp: int64_max_def)
  have e: "rateMicros r t = (r * t + 500000) div 1000000"
    using False assms nn by (simp add: rateMicros_def w go_div_nonneg)
  show ?thesis unfolding e using b nn by linarith
qed

lemma abs_sum2:
  fixes a1 :: int
  assumes "\<bar>k * a1 - x1\<bar> \<le> e" "\<bar>k * a2 - x2\<bar> \<le> f"
  shows "\<bar>k * (a1 + a2) - (x1 + x2)\<bar> \<le> e + f"
  using assms by (simp add: distrib_left)

lemma abs_sum6:
  fixes a1 :: int
  assumes "\<bar>1000000 * a1 - x1\<bar> \<le> 500000" "\<bar>1000000 * a2 - x2\<bar> \<le> 500000" "\<bar>1000000 * a3 - x3\<bar> \<le> 500000"
    "\<bar>1000000 * a4 - x4\<bar> \<le> 500000" "\<bar>1000000 * a5 - x5\<bar> \<le> 500000" "\<bar>1000000 * a6 - x6\<bar> \<le> 500000"
  shows "\<bar>1000000 * (a1 + a2 + a3 + a4 + a5 + a6) - (x1 + x2 + x3 + x4 + x5 + x6)\<bar> \<le> 3000000"
  using abs_sum2[OF abs_sum2[OF abs_sum2[OF abs_sum2[OF abs_sum2[OF assms(1,2)] assms(3)] assms(4)] assms(5)] assms(6)]
  by simp

text \<open>What a request costs: nothing at all is reported for an unpriced model; for a priced one the
  total is the sum of the six rate-times-tokens products, each rounded to the nearest micro-dollar, so it is
  within three micro-dollars of the exact figure, with no overflow for rates up to a thousand dollars a
  million tokens and up to a billion tokens of each kind.\<close>

theorem cost_accurate:
  assumes "pcKnown p"
    and "0 \<le> pcInputMicrosPerMTok p" "pcInputMicrosPerMTok p \<le> 1000000000"
    and "0 \<le> pcOutputMicrosPerMTok p" "pcOutputMicrosPerMTok p \<le> 1000000000"
    and "0 \<le> pcCacheReadMicrosPerMTok p" "pcCacheReadMicrosPerMTok p \<le> 1000000000"
    and "0 \<le> pcCacheWriteMicrosPerMTok p" "pcCacheWriteMicrosPerMTok p \<le> 1000000000"
    and "0 \<le> tkInput t" "tkInput t \<le> 1000000000" "0 \<le> tkOutput t" "tkOutput t \<le> 1000000000"
    and "0 \<le> tkCacheRead t" "tkCacheRead t \<le> 1000000000"
    and "0 \<le> tkCacheWrite5m t" "0 \<le> tkCacheWrite1h t"
    and "tkCacheWrite5m t + tkCacheWrite1h t \<le> tkCacheWrite t" "tkCacheWrite t \<le> 1000000000"
  shows "\<exists>c. Cost p t = Some c \<and> 0 \<le> c \<and>
    \<bar>1000000 * c - (pcInputMicrosPerMTok p * tkInput t + pcOutputMicrosPerMTok p * tkOutput t +
       pcCacheReadMicrosPerMTok p * tkCacheRead t +
       pcCacheWriteMicrosPerMTok p * (tkCacheWrite t - tkCacheWrite5m t - tkCacheWrite1h t) +
       (pcInputMicrosPerMTok p * 1250 div 1000) * tkCacheWrite5m t +
       (pcInputMicrosPerMTok p * 2) * tkCacheWrite1h t)\<bar> \<le> 3000000"
proof -
  let ?i = "pcInputMicrosPerMTok p" and ?plain = "tkCacheWrite t - tkCacheWrite5m t - tkCacheWrite1h t"
  have wp: "wrap64 ?plain = ?plain" using assms by (intro wrap64_id) (auto simp: int64_max_def)
  have wi: "wrap64 (?i * 1250) = ?i * 1250" "wrap64 (?i * 2000) = ?i * 2000"
    using assms by (auto intro!: wrap64_id simp: int64_max_def)
  have d: "go_div (?i * 1250) 1000 = ?i * 1250 div 1000" "go_div (?i * 2000) 1000 = ?i * 2"
    using assms by (simp_all add: go_div_nonneg)
  have d5: "0 \<le> ?i * 1250 div 1000" "?i * 1250 div 1000 \<le> 2000000000" using assms by auto
  note r1 = rateMicros_round[of ?i "tkInput t"] and r2 = rateMicros_round[of "pcOutputMicrosPerMTok p" "tkOutput t"]
    and r3 = rateMicros_round[of "pcCacheReadMicrosPerMTok p" "tkCacheRead t"]
    and r4 = rateMicros_round[of "pcCacheWriteMicrosPerMTok p" ?plain]
    and r5 = rateMicros_round[OF d5, of "tkCacheWrite5m t"]
    and r6 = rateMicros_round[of "?i * 2" "tkCacheWrite1h t"]
  define S where "S = rateMicros ?i (tkInput t) + rateMicros (pcOutputMicrosPerMTok p) (tkOutput t) +
    rateMicros (pcCacheReadMicrosPerMTok p) (tkCacheRead t) + rateMicros (pcCacheWriteMicrosPerMTok p) ?plain +
    rateMicros (?i * 1250 div 1000) (tkCacheWrite5m t) + rateMicros (?i * 2) (tkCacheWrite1h t)"
  have bnd: "0 \<le> S" "S \<le> int64_max"
    using r1 r2 r3 r4 r5 r6 assms by (simp_all add: S_def int64_max_def)
  have "Cost p t = Some S"
    using assms(1) bnd wrap64_id[of S] by (simp add: Cost_def Let_def wp wi d S_def)
  moreover have "\<bar>1000000 * S - (?i * tkInput t + pcOutputMicrosPerMTok p * tkOutput t +
      pcCacheReadMicrosPerMTok p * tkCacheRead t + pcCacheWriteMicrosPerMTok p * ?plain +
      (?i * 1250 div 1000) * tkCacheWrite5m t + (?i * 2) * tkCacheWrite1h t)\<bar> \<le> 3000000"
    unfolding S_def by (rule abs_sum6; rule conjunct1[OF rateMicros_round]; use assms d5 in linarith)
  ultimately show ?thesis using bnd(1) by blast
qed

theorem cost_accurate_witness:
  "Cost (zero_pricing\<lparr>pcKnown := True, pcInputMicrosPerMTok := 3000000\<rparr>)
     \<lparr>tkInput = 1000, tkOutput = 5, tkCacheRead = 0, tkCacheWrite = 0, tkCacheWrite5m = 0, tkCacheWrite1h = 0\<rparr> = Some 3000 \<and>
   (\<exists>c. Cost (zero_pricing\<lparr>pcKnown := True, pcInputMicrosPerMTok := 3000000\<rparr>)
     \<lparr>tkInput = 1000, tkOutput = 5, tkCacheRead = 0, tkCacheWrite = 0, tkCacheWrite5m = 0, tkCacheWrite1h = 0\<rparr> = Some c \<and> 0 \<le> c)"
proof
  let ?p = "zero_pricing\<lparr>pcKnown := True, pcInputMicrosPerMTok := 3000000\<rparr>"
  let ?t = "\<lparr>tkInput = 1000, tkOutput = 5, tkCacheRead = 0, tkCacheWrite = 0, tkCacheWrite5m = 0, tkCacheWrite1h = 0\<rparr>"
  show "Cost ?p ?t = Some 3000" by code_simp
  show "\<exists>c. Cost ?p ?t = Some c \<and> 0 \<le> c"
    using cost_accurate[of ?p ?t] by (auto simp: zero_pricing_def)
qed

text \<open>What the import filter is meant to keep.\<close>

definition qualifies :: "('d \<Rightarrow> string) \<Rightarrow> FreeRules \<Rightarrow> 'd \<Rightarrow> bool" where
  "qualifies mid rules m \<longleftrightarrow> \<not> vetoes (frUnsanctioned rules) (mid m) \<and>
     IsFreeModel (mid m) (case frPrice rules of None \<Rightarrow> None | Some price \<Rightarrow> price (mid m)) (frCurated rules)"

lemma select_loop_filter:
  "select_loop mid rules ms out dropped =
     (out @ filter (qualifies mid rules) ms, dropped @ map mid (filter (\<lambda>m. \<not> qualifies mid rules m) ms))"
  by (induction ms arbitrary: out dropped) (simp_all add: Let_def qualifies_def)

lemma withoutUnsanctioned_filter:
  "withoutUnsanctioned mid ms u =
     (filter (\<lambda>m. \<not> vetoes u (mid m)) ms, map mid (filter (\<lambda>m. \<not> \<not> vetoes u (mid m)) ms))"
  by (induction mid ms u rule: withoutUnsanctioned.induct) (auto simp: vetoes_def split: prod.splits)

lemma mset_filter_split: "mset (map f (filter P xs)) + mset (map f (filter (\<lambda>x. \<not> P x) xs)) = mset (map f xs)"
  by (induction xs) auto

text \<open>A free-only import partitions the listing: every listed model is either kept or named as dropped,
  never both and never lost; no model of a tier the vendor has not sanctioned is ever kept, keyless fallback
  included; and where any model qualifies, exactly the qualifying ones are kept, in listing order.\<close>

theorem import_partition:
  assumes "SelectModelsForImport mid ms True rules = (kept, dropped)"
  shows "mset (map mid kept) + mset dropped = mset (map mid ms) \<and>
    (\<forall>m \<in> set kept. \<not> vetoes (frUnsanctioned rules) (mid m)) \<and>
    (filter (qualifies mid rules) ms \<noteq> [] \<or> \<not> frKeyless rules \<longrightarrow> kept = filter (qualifies mid rules) ms)"
proof (cases "filter (qualifies mid rules) ms = [] \<and> frKeyless rules \<and> ms \<noteq> []")
  case True
  then have e: "withoutUnsanctioned mid ms (frUnsanctioned rules) = (kept, dropped)"
    using assms by (simp add: SelectModelsForImport_def select_loop_filter)
  then have "mset (map mid kept) + mset dropped = mset (map mid ms)"
    using mset_filter_split[of mid "\<lambda>m. \<not> vetoes (frUnsanctioned rules) (mid m)" ms]
    by (simp only: withoutUnsanctioned_filter prod.inject)
  with True e show ?thesis by (auto simp: withoutUnsanctioned_filter)
next
  case False
  then have e: "kept = filter (qualifies mid rules) ms" "dropped = map mid (filter (\<lambda>m. \<not> qualifies mid rules m) ms)"
    using assms by (auto simp: SelectModelsForImport_def select_loop_filter split: if_splits)
  show ?thesis
    unfolding e using mset_filter_split[of mid "qualifies mid rules" ms] by (auto simp: qualifies_def)
qed

theorem import_partition_witness:
  "SelectModelsForImport (\<lambda>s. s) [''a:free'', ''b'', ''c:free''] True
     \<lparr>frPrice = None, frCurated = None, frKeyless = False, frUnsanctioned = Some (\<lambda>s. s = ''c:free'')\<rparr>
     = ([''a:free''], [''b'', ''c:free'']) \<and>
   mset [''a:free''] + mset [''b'', ''c:free''] = mset [''a:free'', ''b'', ''c:free'']"
proof -
  let ?r = "\<lparr>frPrice = None, frCurated = None, frKeyless = False, frUnsanctioned = Some (\<lambda>s. s = ''c:free'')\<rparr>"
  have e: "SelectModelsForImport (\<lambda>s. s) [''a:free'', ''b'', ''c:free''] True ?r = ([''a:free''], [''b'', ''c:free''])"
    by code_simp
  show ?thesis using e import_partition[OF e] by simp
qed

end
