(* ===== verification/Adapter.thy ===== *)
theory Adapter
  imports IR
begin

text \<open>
  The failover taxonomy of \<^verbatim>\<open>internal/adapter\<close> and the classification of an upstream result by its
  status line, with the two body classifiers (\<^verbatim>\<open>openaicompat\<close> and \<^verbatim>\<open>gemini\<close>) that refine a 400. The
  JSON decoding of an error body is \<^verbatim>\<open>encoding/json\<close>, an argument of the classifiers: it returns
  \<open>None\<close> where \<^verbatim>\<open>json.Unmarshal\<close> fails.
\<close>

datatype Outcome =
    OutcomeSuccess | OutcomeRetryableProvider | OutcomeRetryableCredential
  | OutcomeRetryableModel | OutcomeFatal | OutcomeClientCancelled

fun Outcome_string :: "Outcome \<Rightarrow> string" where
  "Outcome_string OutcomeSuccess = ''success''"
| "Outcome_string OutcomeRetryableProvider = ''retryable_provider''"
| "Outcome_string OutcomeRetryableCredential = ''retryable_credential''"
| "Outcome_string OutcomeRetryableModel = ''retryable_model''"
| "Outcome_string OutcomeFatal = ''fatal''"
| "Outcome_string OutcomeClientCancelled = ''client_cancelled''"

text \<open>What the executor reads of an \<^verbatim>\<open>*http.Response\<close>: its status and the \<^verbatim>\<open>Retry-After\<close> header
  (empty when absent).\<close>

record Response =
  StatusCode :: int
  RetryAfterHeader :: string

type_synonym SurfaceSet = "(Surface, bool) gomap"

definition SurfaceSet_Has :: "SurfaceSet \<Rightarrow> Surface \<Rightarrow> bool" where
  "SurfaceSet_Has s x = (map_of s x = Some True)"

text \<open>\<^verbatim>\<open>SurfacesOf\<close>: what an adapter that implements \<^verbatim>\<open>SurfaceProvider\<close> declares, chat alone otherwise.\<close>

definition SurfacesOf :: "SurfaceSet option \<Rightarrow> SurfaceSet" where
  "SurfacesOf sp = (case sp of Some ss \<Rightarrow> ss | None \<Rightarrow> [(SurfaceLLM, True)])"

definition openaicompat_Surfaces :: SurfaceSet where
  "openaicompat_Surfaces = map (\<lambda>s. (s, True)) AllSurfaces"

text \<open>\<open>err\<close> tells whether the send failed.\<close>

definition ClassifyStatus :: "Response option \<Rightarrow> bool \<Rightarrow> Outcome" where
  "ClassifyStatus resp err =
     (case resp of
        None \<Rightarrow> OutcomeRetryableProvider
      | Some r \<Rightarrow>
          if err then OutcomeRetryableProvider
          else let code = StatusCode r in
            if code \<ge> 200 \<and> code < 300 then OutcomeSuccess
            else if code = 401 \<or> code = 402 \<or> code = 403 then OutcomeRetryableCredential
            else if code = 404 then OutcomeRetryableModel
            else if code = 408 \<or> code = 429 then OutcomeRetryableProvider
            else if code \<ge> 300 \<and> code < 400 then OutcomeRetryableProvider
            else if code \<ge> 500 then OutcomeRetryableProvider
            else OutcomeFatal)"

definition unknownModelCodes :: "string list" where
  "unknownModelCodes = [''model_not_found'', ''invalid_model'', ''unknown_model'']"

text \<open>The OpenAI-compatible refinement; \<open>decode\<close> gives the error's code and message.\<close>

definition openaicompat_ClassifyBody ::
    "(string \<Rightarrow> (string \<times> string) option) \<Rightarrow> Response option \<Rightarrow> string \<Rightarrow> bool \<Rightarrow> Outcome" where
  "openaicompat_ClassifyBody decode resp body err =
     (let base = ClassifyStatus resp err in
      if base \<noteq> OutcomeFatal \<or> (case resp of None \<Rightarrow> True | Some r \<Rightarrow> StatusCode r \<noteq> 400) then base
      else case decode body of
        None \<Rightarrow> base
      | Some (code, message) \<Rightarrow>
          if ToLower code \<in> set unknownModelCodes then OutcomeRetryableModel
          else let msg = ToLower message in
            if Contains msg ''model'' \<and>
               (Contains msg ''does not exist'' \<or> Contains msg ''not found'' \<or> Contains msg ''unknown model'')
            then OutcomeRetryableModel
            else base)"

text \<open>The Gemini refinement; \<open>decode\<close> gives the \<^verbatim>\<open>@type\<close> and \<^verbatim>\<open>reason\<close> of each error detail.\<close>

definition APIKeyInvalid :: "(string \<Rightarrow> (string \<times> string) list option) \<Rightarrow> string \<Rightarrow> bool" where
  "APIKeyInvalid decode body =
     (case decode body of
        None \<Rightarrow> False
      | Some ds \<Rightarrow> list_ex (\<lambda>(ty, reason).
          ty = ''type.googleapis.com/google.rpc.ErrorInfo'' \<and> reason = ''API_KEY_INVALID'') ds)"

definition gemini_ClassifyBody ::
    "(string \<Rightarrow> (string \<times> string) list option) \<Rightarrow> Response option \<Rightarrow> string \<Rightarrow> bool \<Rightarrow> Outcome" where
  "gemini_ClassifyBody decode resp body err =
     (let base = ClassifyStatus resp err in
      if base = OutcomeFatal \<and> (case resp of None \<Rightarrow> False | Some r \<Rightarrow> StatusCode r = 400) \<and>
         APIKeyInvalid decode body
      then OutcomeRetryableCredential else base)"

section \<open>Facts\<close>

lemma ClassifyStatus_success_iff:
  "ClassifyStatus resp err = OutcomeSuccess \<longleftrightarrow>
     \<not> err \<and> (\<exists>r. resp = Some r \<and> 200 \<le> StatusCode r \<and> StatusCode r < 300)"
  by (auto simp: ClassifyStatus_def Let_def split: option.splits if_splits)

lemma ClassifyStatus_never_cancelled: "ClassifyStatus resp err \<noteq> OutcomeClientCancelled"
  by (simp add: ClassifyStatus_def Let_def split: option.splits)

lemma ClassifyStatus_fatal_iff:
  "ClassifyStatus resp err = OutcomeFatal \<longleftrightarrow>
     \<not> err \<and> (\<exists>r. resp = Some r \<and>
       (StatusCode r < 200 \<or> 400 \<le> StatusCode r \<and> StatusCode r < 500 \<and>
          StatusCode r \<notin> {401, 402, 403, 404, 408, 429}))"
  by (auto simp: ClassifyStatus_def Let_def split: option.splits if_splits)

lemma body_classifier_refines:
  assumes "\<not> (ClassifyStatus resp err = OutcomeFatal \<and> (\<exists>r. resp = Some r \<and> StatusCode r = 400))"
  shows "openaicompat_ClassifyBody dec resp body err = ClassifyStatus resp err"
    and "gemini_ClassifyBody dec' resp body err = ClassifyStatus resp err"
  using assms
  by (auto simp: openaicompat_ClassifyBody_def gemini_ClassifyBody_def Let_def split: option.splits)

end
