(* ===== verification/Health.thy ===== *)
theory Health
  imports Adapter
begin

text \<open>
  The circuit breaker of \<^verbatim>\<open>internal/health\<close>: \<^verbatim>\<open>breaker.go\<close>, the frozen view of \<^verbatim>\<open>availability.go\<close>, the
  least-recently-used clock of \<^verbatim>\<open>lru.go\<close>, the Retry-After parser and the persister's tick. The mutex
  makes every exported method one atomic step, so each is a function from a breaker to a breaker; the
  clock readings a method takes are arguments. \<^verbatim>\<open>policy\<close>, the hot-editable source of the thresholds, is
  the pair it would return now. Failure counters are unbounded integers here: they count requests and
  cannot reach the width of a Go \<^verbatim>\<open>int\<close>. Durations wrap at 64 bits where the source multiplies.
\<close>

section \<open>State\<close>

record Key =
  hkProvider :: string
  hkKey :: string
  hkModel :: string

definition cred_key :: "Key \<Rightarrow> Key" where
  "cred_key k = \<lparr>hkProvider = hkProvider k, hkKey = hkKey k, hkModel = ''''\<rparr>"

record Signal =
  sgOutcome :: Outcome
  sgStatusCode :: int
  sgRetryAfter :: duration
  sgHasRetryAfter :: bool

record Entry =
  enKey :: Key
  enCoolingUntil :: time
  enBackoffLevel :: int
  enConsecutiveFailures :: int

record state =
  coolingUntil :: time
  backoffLevel :: int
  consecutiveFailures :: int
  probing :: bool
  retryAfterOnly :: bool

definition zero_state :: state where
  "zero_state = \<lparr>coolingUntil = 0, backoffLevel = 0, consecutiveFailures = 0,
     probing = False, retryAfterOnly = False\<rparr>"

record CredKey =
  ckProvider :: string
  ckKey :: string

record Breaker =
  bm :: "(Key, state) gomap"
  lastUsed :: "(CredKey, time) gomap"
  tripAfter :: int
  maxCool :: duration
  policy :: "(int \<times> duration) option"
  dirty :: bool

section \<open>The ladder\<close>

definition ladder :: "duration list" where
  "ladder = map (\<lambda>s. s * second) [1, 2, 4, 8, 15, 30, 60, 120]"

fun cooldown_loop :: "nat \<Rightarrow> duration \<Rightarrow> duration \<Rightarrow> duration" where
  "cooldown_loop 0 d mx = (if d > mx then mx else d)"
| "cooldown_loop (Suc n) d mx =
     (if d \<ge> go_div mx 2 then mx else cooldown_loop n (wrap64 (d * 2)) mx)"

definition cooldownFor :: "int \<Rightarrow> duration \<Rightarrow> duration" where
  "cooldownFor level0 mx =
     (let level = (if level0 < 0 then 0 else level0) in
      if level < int (length ladder) then
        (let d = ladder ! nat level in if d < mx then d else mx)
      else cooldown_loop (nat (level - int (length ladder) + 1)) (ladder ! (length ladder - 1)) mx)"

definition clampPolicy :: "int \<Rightarrow> duration \<Rightarrow> int \<times> duration" where
  "clampPolicy trip mx =
     ((if trip < 1 then 1 else trip), (if mx \<le> 0 then 15 * 60 * second else mx))"

section \<open>Construction and policy\<close>

definition New :: "int \<Rightarrow> duration \<Rightarrow> Breaker" where
  "New trip mx =
     (case clampPolicy trip mx of (trip', mx') \<Rightarrow>
        \<lparr>bm = [], lastUsed = [], tripAfter = trip', maxCool = mx', policy = None, dirty = False\<rparr>)"

definition Configure :: "Breaker \<Rightarrow> int \<times> duration \<Rightarrow> Breaker" where
  "Configure b source = b\<lparr>policy := Some source\<rparr>"

definition policyLocked :: "Breaker \<Rightarrow> int \<times> duration" where
  "policyLocked b =
     (case policy b of None \<Rightarrow> (tripAfter b, maxCool b) | Some (t, m) \<Rightarrow> clampPolicy t m)"

section \<open>Availability and the half-open claim\<close>

text \<open>\<open>Available\<close> reads the clock once per entry it consults: \<open>now1\<close> for the first, \<open>now2\<close> for the
  model's entry after the credential's.\<close>

definition set_entry :: "Breaker \<Rightarrow> Key \<Rightarrow> state \<Rightarrow> Breaker" where
  "set_entry b k st = b\<lparr>bm := AList.update k st (bm b)\<rparr>"

definition availableLocked :: "Breaker \<Rightarrow> time \<Rightarrow> Key \<Rightarrow> (bool \<times> bool) \<times> Breaker" where
  "availableLocked b now k =
     (case map_of (bm b) k of
        None \<Rightarrow> ((True, False), b)
      | Some st \<Rightarrow>
          if IsZero (coolingUntil st) then ((True, False), b)
          else if now < coolingUntil st then ((False, False), b)
          else if retryAfterOnly st then
            ((True, False), (set_entry b k (st\<lparr>coolingUntil := 0, retryAfterOnly := False\<rparr>))\<lparr>dirty := True\<rparr>)
          else if probing st then ((False, False), b)
          else ((True, True), set_entry b k (st\<lparr>probing := True\<rparr>)))"

definition Available :: "Breaker \<Rightarrow> time \<Rightarrow> time \<Rightarrow> Key \<Rightarrow> bool \<times> Breaker" where
  "Available b now1 now2 k =
     (if hkModel k = '''' then
        (case availableLocked b now1 k of ((ok, _), b') \<Rightarrow> (ok, b'))
      else
        let ck = cred_key k in
        (case availableLocked b now1 ck of ((ok, claimed), b1) \<Rightarrow>
           if \<not> ok then (False, b1)
           else (case availableLocked b1 now2 k of ((ok2, _), b2) \<Rightarrow>
             if \<not> ok2 then
               (False, if claimed
                       then (case map_of (bm b2) ck of
                               None \<Rightarrow> b2
                             | Some st \<Rightarrow> set_entry b2 ck (st\<lparr>probing := False\<rparr>))
                       else b2)
             else (True, b2))))"

section \<open>Recording outcomes\<close>

definition releaseProbeLocked :: "Breaker \<Rightarrow> Key \<Rightarrow> Breaker" where
  "releaseProbeLocked b k =
     (case map_of (bm b) k of
        None \<Rightarrow> b
      | Some st \<Rightarrow> if probing st
          then (set_entry b k (st\<lparr>probing := False\<rparr>))\<lparr>dirty := True\<rparr> else b)"

definition resetLocked :: "Breaker \<Rightarrow> Key \<Rightarrow> Breaker" where
  "resetLocked b k =
     (case map_of (bm b) k of
        None \<Rightarrow> b
      | Some _ \<Rightarrow> b\<lparr>bm := AList.delete k (bm b), dirty := True\<rparr>)"

text \<open>\<open>getLocked\<close> inserts a zero entry where there was none; the entry's later writes go through
  \<open>set_entry\<close>, which is what the pointer it returns does.\<close>

definition getLocked :: "Breaker \<Rightarrow> Key \<Rightarrow> state \<times> Breaker" where
  "getLocked b k =
     (case map_of (bm b) k of
        None \<Rightarrow> (zero_state, set_entry b k zero_state)
      | Some st \<Rightarrow> (st, b))"

definition coolLocked :: "Breaker \<Rightarrow> Key \<Rightarrow> state \<Rightarrow> time \<Rightarrow> int \<Rightarrow> Breaker" where
  "coolLocked b k st now level =
     (let mx = snd (policyLocked b) in
      (set_entry b k (st\<lparr>coolingUntil := now + cooldownFor level mx, backoffLevel := level + 1,
         retryAfterOnly := False, probing := False\<rparr>))\<lparr>dirty := True\<rparr>)"

definition record_provider :: "Breaker \<Rightarrow> time \<Rightarrow> Key \<Rightarrow> Signal \<Rightarrow> Breaker" where
  "record_provider b0 now k s =
     (case getLocked (releaseProbeLocked b0 (cred_key k)) k of (st, b) \<Rightarrow>
        case policyLocked b of (trip, mx) \<Rightarrow>
          if sgHasRetryAfter s then
            let d = (if sgRetryAfter s > mx then mx else sgRetryAfter s) in
            (set_entry b k (st\<lparr>coolingUntil := now + d, retryAfterOnly := True,
               probing := False\<rparr>))\<lparr>dirty := True\<rparr>
          else if sgStatusCode s = 429 then coolLocked b k st now (backoffLevel st)
          else
            let st' = st\<lparr>consecutiveFailures := consecutiveFailures st + 1, probing := False\<rparr>;
                b' = (set_entry b k st')\<lparr>dirty := True\<rparr>
            in if consecutiveFailures st' \<ge> trip then coolLocked b' k st' now (backoffLevel st') else b')"

definition Record :: "Breaker \<Rightarrow> time \<Rightarrow> Key \<Rightarrow> Signal \<Rightarrow> Breaker" where
  "Record b now k s =
     (let ck = cred_key k in
      case sgOutcome s of
        OutcomeClientCancelled \<Rightarrow> releaseProbeLocked (releaseProbeLocked b k) ck
      | OutcomeRetryableModel \<Rightarrow> releaseProbeLocked (releaseProbeLocked b k) ck
      | OutcomeSuccess \<Rightarrow> resetLocked (resetLocked b k) ck
      | OutcomeFatal \<Rightarrow> releaseProbeLocked (resetLocked b k) ck
      | OutcomeRetryableCredential \<Rightarrow>
          (case getLocked (releaseProbeLocked b k) ck of (st, b') \<Rightarrow>
             coolLocked b' ck st now (backoffLevel st))
      | OutcomeRetryableProvider \<Rightarrow> record_provider b now k s)"

definition ReleaseProbe :: "Breaker \<Rightarrow> Key \<Rightarrow> Breaker" where
  "ReleaseProbe b k = releaseProbeLocked (releaseProbeLocked b k) (cred_key k)"

section \<open>Persistence\<close>

definition entry_of :: "Key \<times> state \<Rightarrow> Entry" where
  "entry_of = (\<lambda>(k, st). \<lparr>enKey = k, enCoolingUntil = coolingUntil st,
     enBackoffLevel = backoffLevel st, enConsecutiveFailures = consecutiveFailures st\<rparr>)"

definition Snapshot :: "Breaker \<Rightarrow> Entry list" where
  "Snapshot b = map entry_of (bm b)"

definition rehydrate_state :: "time \<Rightarrow> Entry \<Rightarrow> state" where
  "rehydrate_state now e =
     zero_state\<lparr>backoffLevel := enBackoffLevel e, consecutiveFailures := enConsecutiveFailures e,
       coolingUntil := (if \<not> IsZero (enCoolingUntil e) \<and> now < enCoolingUntil e
                        then enCoolingUntil e else 0)\<rparr>"

definition Rehydrate :: "Breaker \<Rightarrow> time \<Rightarrow> Entry list \<Rightarrow> Breaker" where
  "Rehydrate b now entries =
     fold (\<lambda>e b'. set_entry b' (enKey e) (rehydrate_state now e)) entries b"

definition TakeDirty :: "Breaker \<Rightarrow> bool \<times> Breaker" where
  "TakeDirty b = (dirty b, b\<lparr>dirty := False\<rparr>)"

text \<open>One tick of the persister's loop: what it hands to \<^verbatim>\<open>SaveHealth\<close>, if anything. The final flush
  on shutdown is \<open>Snapshot\<close> unconditionally.\<close>

definition Persister_tick :: "Breaker \<Rightarrow> Entry list option \<times> Breaker" where
  "Persister_tick b =
     (case TakeDirty b of (d, b') \<Rightarrow> if \<not> d then (None, b') else (Some (Snapshot b'), b'))"

section \<open>The frozen view\<close>

type_synonym Availability = "(Key, unit) gomap"

definition Availability_Available :: "Availability \<Rightarrow> Key \<Rightarrow> bool" where
  "Availability_Available a k =
     (if length a = 0 then True
      else if hkModel k \<noteq> '''' \<and> map_of a (cred_key k) \<noteq> None then False
      else map_of a k = None)"

definition SnapshotAvailability :: "Breaker \<Rightarrow> time \<Rightarrow> Availability" where
  "SnapshotAvailability b at =
     map (\<lambda>(k, st). (k, ()))
       (filter (\<lambda>(k, st). \<not> (IsZero (coolingUntil st) \<or> \<not> at < coolingUntil st)) (bm b))"

section \<open>Least-recently-used clock\<close>

definition MarkUsed :: "Breaker \<Rightarrow> CredKey \<Rightarrow> time \<Rightarrow> Breaker" where
  "MarkUsed b ck at = b\<lparr>lastUsed := AList.update ck at (lastUsed b), dirty := True\<rparr>"

definition LastUsedSnapshot :: "Breaker \<Rightarrow> (CredKey, time) gomap" where
  "LastUsedSnapshot b = fold (\<lambda>(k, v) out. AList.update k v out) (lastUsed b) []"

definition RehydrateLastUsed :: "Breaker \<Rightarrow> (CredKey, time) gomap \<Rightarrow> Breaker" where
  "RehydrateLastUsed b m = b\<lparr>lastUsed := fold (\<lambda>(k, v) lu. AList.update k v lu) m (lastUsed b)\<rparr>"

section \<open>Retry-After\<close>

text \<open>\<^verbatim>\<open>strconv.Atoi\<close>: an optional sign and digits, failing outside the 64-bit range.\<close>

fun digits_val :: "string \<Rightarrow> int \<Rightarrow> int option" where
  "digits_val [] acc = Some acc"
| "digits_val (c # cs) acc =
     (let n = (of_char c :: nat) in
      if 48 \<le> n \<and> n \<le> 57 then digits_val cs (acc * 10 + int (n - 48)) else None)"

definition Atoi :: "string \<Rightarrow> int option" where
  "Atoi s =
     (let (neg, ds) = (case s of
          [] \<Rightarrow> (False, [])
        | c # cs \<Rightarrow> if c = CHR ''-'' then (True, cs) else if c = CHR ''+'' then (False, cs) else (False, s))
      in if ds = [] then None
         else case digits_val ds 0 of
           None \<Rightarrow> None
         | Some v \<Rightarrow>
             let r = (if neg then - v else v) in
             if r < - int64_max - 1 \<or> r > int64_max then None else Some r)"

fun nat_digits :: "nat \<Rightarrow> nat \<Rightarrow> string" where
  "nat_digits 0 n = []"
| "nat_digits (Suc fuel) n =
     (if n < 10 then [char_of (48 + n)] else nat_digits fuel (n div 10) @ [char_of (48 + n mod 10)])"

text \<open>\<^verbatim>\<open>strconv.Itoa\<close> on a counter: as many digits as there can be.\<close>

definition Itoa :: "nat \<Rightarrow> string" where
  "Itoa n = nat_digits (Suc n) n"

text \<open>Printing and reading a decimal integer.\<close>

definition FormatInt :: "int \<Rightarrow> string" where
  "FormatInt n = (if n < 0 then CHR ''-'' # Itoa (nat (- n)) else Itoa (nat n))"

lemma digits_val_append: "digits_val (xs @ ys) acc = (case digits_val xs acc of None \<Rightarrow> None | Some v \<Rightarrow> digits_val ys v)"
  by (induction xs arbitrary: acc) (simp_all add: Let_def)

lemma digit_char: "n < 10 \<Longrightarrow> (of_char (char_of (48 + n) :: char) :: nat) = 48 + n"
  by (simp add: of_char_of)

lemma digits_val_digits: "n < fuel \<Longrightarrow> digits_val (nat_digits fuel n) 0 = Some (int n)"
proof (induction fuel arbitrary: n)
  case (Suc fuel)
  show ?case
  proof (cases "n < 10")
    case True
    then show ?thesis using digit_char[OF True] by (simp add: Let_def)
  next
    case False
    then have "n div 10 < fuel" using Suc.prems by simp
    from Suc.IH[OF this] False show ?thesis
      using digit_char[of "n mod 10"] by (simp add: digits_val_append Let_def) presburger
  qed
qed simp

lemma nat_digits_head: "n < fuel \<Longrightarrow> \<exists>c cs. nat_digits fuel n = c # cs \<and> c \<noteq> CHR ''-'' \<and> c \<noteq> CHR ''+''"
proof (induction fuel arbitrary: n)
  case (Suc fuel)
  show ?case
  proof (cases "n < 10")
    case True
    then show ?thesis using digit_char[OF True] by (auto dest: arg_cong[where f = "of_char :: char \<Rightarrow> nat"])
  next
    case False
    then have "n div 10 < fuel" using Suc.prems by simp
    from Suc.IH[OF this] False show ?thesis by auto
  qed
qed simp

lemma Atoi_FormatInt:
  assumes "- int64_max \<le> n" "n \<le> int64_max"
  shows "Atoi (FormatInt n) = Some n"
proof -
  have d: "digits_val (Itoa k) 0 = Some (int k)" "\<exists>c cs. Itoa k = c # cs \<and> c \<noteq> CHR ''-'' \<and> c \<noteq> CHR ''+''" for k
    using digits_val_digits[of k "Suc k"] nat_digits_head[of k "Suc k"] by (simp_all add: Itoa_def)
  obtain c cs where c: "Itoa (nat (if n < 0 then - n else n)) = c # cs" "c \<noteq> CHR ''-''" "c \<noteq> CHR ''+''"
    using d(2) by blast
  with d(1)[of "nat (if n < 0 then - n else n)"] show ?thesis
    using assms by (cases "n < 0") (auto simp: Atoi_def FormatInt_def Let_def)
qed

text \<open>\<open>time.Time.Sub\<close> saturates at the ends of the duration range.\<close>

definition time_sub :: "time \<Rightarrow> time \<Rightarrow> duration" where
  "time_sub t u = max (- int64_max - 1) (min int64_max (t - u))"

text \<open>\<open>parse_time\<close> is \<^verbatim>\<open>http.ParseTime\<close>: the instant of an HTTP date, \<open>None\<close> where it fails.\<close>

definition ParseRetryAfter :: "(string \<Rightarrow> time option) \<Rightarrow> string \<Rightarrow> time \<Rightarrow> duration option" where
  "ParseRetryAfter parse_time h0 now =
     (let h = TrimSpace h0 in
      if h = '''' then None
      else case Atoi h of
        Some secs \<Rightarrow> if secs < 0 then None else Some (wrap64 (secs * second))
      | None \<Rightarrow>
          (case parse_time h of
             None \<Rightarrow> None
           | Some t \<Rightarrow> let d = time_sub t now in Some (if d < 0 then 0 else d)))"

section \<open>Entry-level view\<close>

text \<open>Every operation is characterised by what it does to \<open>map_of (bm b)\<close>, one lemma per locked
  helper; the exported operations follow by rewriting with the bundle \<open>entry_lemmas\<close>.\<close>

text \<open>The half-open probes in flight.\<close>

definition claims :: "Breaker \<Rightarrow> Key set" where
  "claims b = {k. \<exists>st. map_of (bm b) k = Some st \<and> probing st}"

text \<open>The instant an entry reopens; zero for an entry that is not cooling.\<close>

definition until :: "Breaker \<Rightarrow> Key \<Rightarrow> time" where
  "until b k = (case map_of (bm b) k of None \<Rightarrow> 0 | Some st \<Rightarrow> coolingUntil st)"

definition state_wf :: "state \<Rightarrow> bool" where
  "state_wf st \<longleftrightarrow> 0 \<le> backoffLevel st \<and> 0 \<le> consecutiveFailures st \<and>
     (probing st \<longrightarrow> coolingUntil st \<noteq> 0 \<and> \<not> retryAfterOnly st)"

definition breaker_wf :: "Breaker \<Rightarrow> bool" where
  "breaker_wf b \<longleftrightarrow> map_wf (bm b) \<and> map_wf (lastUsed b) \<and> 1 \<le> tripAfter b \<and> 0 < maxCool b \<and>
     (\<forall>k st. map_of (bm b) k = Some st \<longrightarrow> state_wf st)"

lemma set_entry_simps [simp]:
  "map_of (bm (set_entry b k st)) = (map_of (bm b))(k \<mapsto> st)"
  "map_wf (bm b) \<Longrightarrow> map_wf (bm (set_entry b k st))"
  "lastUsed (set_entry b k st) = lastUsed b"
  "tripAfter (set_entry b k st) = tripAfter b"
  "maxCool (set_entry b k st) = maxCool b"
  "policy (set_entry b k st) = policy b"
  by (simp_all add: set_entry_def)

lemma probing_idem [simp]: "\<not> probing st \<Longrightarrow> st\<lparr>probing := False\<rparr> = st"
  by simp

lemma cred_key_idem [simp]: "cred_key (cred_key k) = cred_key k" "hkModel (cred_key k) = ''''"
  by (simp_all add: cred_key_def)

lemma cred_key_eq_iff: "cred_key k = k \<longleftrightarrow> hkModel k = ''''"
  by (cases k) (auto simp: cred_key_def)

lemma releaseProbe_map:
  "map_of (bm (releaseProbeLocked b k)) =
     (map_of (bm b))(k := map_option (\<lambda>st. st\<lparr>probing := False\<rparr>) (map_of (bm b) k))"
  by (auto simp: releaseProbeLocked_def fun_eq_iff split: option.splits)

lemma reset_map: "map_of (bm (resetLocked b k)) = (map_of (bm b))(k := None)"
  by (auto simp: resetLocked_def fun_eq_iff split: option.splits)

lemma getLocked_fst: "fst (getLocked b k) = (case map_of (bm b) k of None \<Rightarrow> zero_state | Some st \<Rightarrow> st)"
  by (simp add: getLocked_def split: option.splits)

lemma getLocked_map: "map_of (bm (snd (getLocked b k))) = (map_of (bm b))(k \<mapsto> fst (getLocked b k))"
  by (auto simp: getLocked_def fun_eq_iff split: option.splits)

lemma cool_map:
  "map_of (bm (coolLocked b k st now level)) =
     (map_of (bm b))(k \<mapsto> st\<lparr>coolingUntil := now + cooldownFor level (snd (policyLocked b)),
        backoffLevel := level + 1, retryAfterOnly := False, probing := False\<rparr>)"
  by (simp add: coolLocked_def Let_def)

lemma helper_frames [simp]:
  "lastUsed (releaseProbeLocked b k) = lastUsed b" "tripAfter (releaseProbeLocked b k) = tripAfter b"
  "maxCool (releaseProbeLocked b k) = maxCool b" "policy (releaseProbeLocked b k) = policy b"
  "lastUsed (resetLocked b k) = lastUsed b" "tripAfter (resetLocked b k) = tripAfter b"
  "maxCool (resetLocked b k) = maxCool b" "policy (resetLocked b k) = policy b"
  "lastUsed (snd (getLocked b k)) = lastUsed b" "tripAfter (snd (getLocked b k)) = tripAfter b"
  "maxCool (snd (getLocked b k)) = maxCool b" "policy (snd (getLocked b k)) = policy b"
  "lastUsed (coolLocked b k st now l) = lastUsed b" "tripAfter (coolLocked b k st now l) = tripAfter b"
  "maxCool (coolLocked b k st now l) = maxCool b" "policy (coolLocked b k st now l) = policy b"
  by (simp_all add: releaseProbeLocked_def resetLocked_def getLocked_def coolLocked_def Let_def
      split: option.splits)

lemma helper_map_wf [simp]:
  "map_wf (bm b) \<Longrightarrow> map_wf (bm (releaseProbeLocked b k))"
  "map_wf (bm b) \<Longrightarrow> map_wf (bm (resetLocked b k))"
  "map_wf (bm b) \<Longrightarrow> map_wf (bm (snd (getLocked b k)))"
  "map_wf (bm b) \<Longrightarrow> map_wf (bm (coolLocked b k st now l))"
  by (simp_all add: releaseProbeLocked_def resetLocked_def getLocked_def coolLocked_def Let_def
      split: option.splits)

lemma policyLocked_cong:
  "policy b' = policy b \<Longrightarrow> tripAfter b' = tripAfter b \<Longrightarrow> maxCool b' = maxCool b \<Longrightarrow>
     policyLocked b' = policyLocked b"
  by (simp add: policyLocked_def split: option.splits)

lemma policyLocked_frames [simp]:
  "policyLocked (releaseProbeLocked b k) = policyLocked b"
  "policyLocked (resetLocked b k) = policyLocked b"
  "policyLocked (snd (getLocked b k)) = policyLocked b"
  "policyLocked (set_entry b k st) = policyLocked b"
  "policyLocked (b\<lparr>dirty := d\<rparr>) = policyLocked b"
  by (auto intro: policyLocked_cong)

lemma policyLocked_bounds:
  "breaker_wf b \<Longrightarrow> 1 \<le> fst (policyLocked b) \<and> 0 < snd (policyLocked b)"
  by (auto simp: policyLocked_def clampPolicy_def breaker_wf_def second_def split: option.splits)

text \<open>What \<open>Record\<close> leaves at each key, for the outcomes that cool.\<close>

definition entry_or_zero :: "Breaker \<Rightarrow> Key \<Rightarrow> state" where
  "entry_or_zero b k = (case map_of (bm b) k of None \<Rightarrow> zero_state | Some st \<Rightarrow> st)"

lemma record_provider_map:
  "map_of (bm (record_provider b now k s)) =
    (let b1 = releaseProbeLocked b (cred_key k); st = entry_or_zero b1 k; trip = fst (policyLocked b);
         mx = snd (policyLocked b); st' = st\<lparr>consecutiveFailures := consecutiveFailures st + 1, probing := False\<rparr>
     in (map_of (bm b1))(k \<mapsto>
       (if sgHasRetryAfter s then
          st\<lparr>coolingUntil := now + min (sgRetryAfter s) mx, retryAfterOnly := True, probing := False\<rparr>
        else if sgStatusCode s = 429 then
          st\<lparr>coolingUntil := now + cooldownFor (backoffLevel st) mx, backoffLevel := backoffLevel st + 1,
             retryAfterOnly := False, probing := False\<rparr>
        else if consecutiveFailures st' \<ge> trip then
          st'\<lparr>coolingUntil := now + cooldownFor (backoffLevel st) mx, backoffLevel := backoffLevel st + 1,
              retryAfterOnly := False, probing := False\<rparr>
        else st')))"
proof -
  let ?b1 = "releaseProbeLocked b (cred_key k)"
  obtain g b2 where g: "getLocked ?b1 k = (g, b2)" by fastforce
  have geq: "g = entry_or_zero ?b1 k" using g getLocked_fst[of ?b1 k] by (simp add: entry_or_zero_def)
  have b2: "map_of (bm b2) = (map_of (bm ?b1))(k \<mapsto> g)"
    using getLocked_map[of ?b1 k] g by simp
  have pol: "policyLocked b2 = policyLocked b" using g policyLocked_frames(3)[of ?b1 k] by simp
  obtain trip mx where tm: "policyLocked b = (trip, mx)" by fastforce
  show ?thesis
    unfolding record_provider_def g Let_def geq[symmetric]
    by (auto simp: tm pol b2 cool_map min_def fun_eq_iff)
qed

lemma record_credential_map:
  assumes "sgOutcome s = OutcomeRetryableCredential"
  shows "map_of (bm (Record b now k s)) =
    (let b1 = releaseProbeLocked b k; st = entry_or_zero b1 (cred_key k) in
     (map_of (bm b1))(cred_key k \<mapsto> st\<lparr>coolingUntil := now + cooldownFor (backoffLevel st) (snd (policyLocked b)),
        backoffLevel := backoffLevel st + 1, retryAfterOnly := False, probing := False\<rparr>))"
proof -
  let ?b1 = "releaseProbeLocked b k"
  obtain g b2 where g: "getLocked ?b1 (cred_key k) = (g, b2)" by fastforce
  have geq: "g = entry_or_zero ?b1 (cred_key k)"
    using g getLocked_fst[of ?b1 "cred_key k"] by (simp add: entry_or_zero_def)
  have b2: "map_of (bm b2) = (map_of (bm ?b1))(cred_key k \<mapsto> g)"
    using getLocked_map[of ?b1 "cred_key k"] g by simp
  have pol: "policyLocked b2 = policyLocked b" using g policyLocked_frames(3)[of ?b1 "cred_key k"] by simp
  show ?thesis
    by (simp add: Record_def assms Let_def g cool_map pol b2 geq[symmetric])
qed

lemmas entry_lemmas = releaseProbe_map reset_map record_provider_map record_credential_map

section \<open>Half-open claims\<close>

lemma claims_releaseProbe: "claims (releaseProbeLocked b k) = claims b - {k}"
  by (auto simp: claims_def releaseProbe_map split: if_splits)

lemma claims_reset: "claims (resetLocked b k) = claims b - {k}"
  by (auto simp: claims_def reset_map split: if_splits)

lemma claims_record_provider: "claims (record_provider b now k s) = claims b - {k, cred_key k}"
  by (auto simp: claims_def record_provider_map releaseProbe_map Let_def split: if_splits)

lemma claims_Record: "claims (Record b now k s) = claims b - {k, cred_key k}"
proof (cases "sgOutcome s")
  case OutcomeRetryableCredential
  then show ?thesis
    by (auto simp: claims_def record_credential_map releaseProbe_map Let_def split: if_splits)
qed (auto simp: Record_def Let_def claims_releaseProbe claims_reset claims_record_provider)

lemma claims_ReleaseProbe: "claims (ReleaseProbe b k) = claims b - {k, cred_key k}"
  by (auto simp: ReleaseProbe_def claims_releaseProbe)

lemma claims_MarkUsed: "claims (MarkUsed b ck at) = claims b"
  by (simp add: claims_def MarkUsed_def)

section \<open>The ladder in closed form\<close>

lemma ladder_simps [simp]: "length ladder = 8" by (simp add: ladder_def)

text \<open>The ladder as the design states it: the table, then doubling past its last rung.\<close>

definition ladder_ideal :: "nat \<Rightarrow> duration" where
  "ladder_ideal n = (if n < 8 then ladder ! n else 120 * second * 2 ^ (n - 7))"

lemma ladder_pos: "i < 8 \<Longrightarrow> 0 < ladder ! i \<and> ladder ! i \<le> 120 * second"
  by (auto simp: ladder_def second_def nth_Cons' )

lemma cooldown_loop_spec:
  assumes "0 < d" "0 < mx" "mx \<le> int64_max" "d \<le> 120 * second \<or> d \<le> mx"
  shows "cooldown_loop n d mx = min (d * 2 ^ n) mx \<or>
         (d * 2 ^ n = mx - 1 \<or> d * 2 ^ n \<ge> mx) \<and> cooldown_loop n d mx = mx"
  using assms
proof (induction n arbitrary: d)
  case 0
  then show ?case by auto
next
  case (Suc n)
  show ?case
  proof (cases "d \<ge> go_div mx 2")
    case True
    then have "2 * d \<ge> mx - 1" using Suc.prems by (simp add: go_div_nonneg)
    moreover have "(2::int) ^ n \<ge> 1" by simp
    then have "2 * d * 1 \<le> 2 * d * 2 ^ n" using Suc.prems(1) by (intro mult_left_mono) auto
    ultimately have "d * 2 ^ Suc n \<ge> mx - 1" by simp
    with True show ?thesis by auto
  next
    case False
    then have lt: "2 * d \<le> mx" using Suc.prems by (simp add: go_div_nonneg)
    then have w: "wrap64 (d * 2) = 2 * d" using Suc.prems by (subst wrap64_id) auto
    have "cooldown_loop n (2 * d) mx = min (2 * d * 2 ^ n) mx \<or>
         (2 * d * 2 ^ n = mx - 1 \<or> 2 * d * 2 ^ n \<ge> mx) \<and> cooldown_loop n (2 * d) mx = mx"
      using Suc.prems lt by (intro Suc.IH) auto
    moreover have "2 * d * 2 ^ n = d * 2 ^ Suc n" by simp
    moreover have "cooldown_loop (Suc n) d mx = cooldown_loop n (2 * d) mx" using False w by simp
    ultimately show ?thesis by metis
  qed
qed
lemma cooldownFor_spec:
  assumes "0 < mx" "mx \<le> int64_max"
  shows "cooldownFor (int n) mx = min (ladder_ideal n) mx \<or>
         ladder_ideal n = mx - 1 \<and> cooldownFor (int n) mx = mx"
proof (cases "n < 8")
  case True
  then show ?thesis by (auto simp: cooldownFor_def ladder_ideal_def Let_def)
next
  case False
  then obtain m where m: "n = m + 8" by (metis add.commute le_Suc_ex not_less)
  have "ladder ! 7 = 120 * second" by (simp add: ladder_def)
  then have "cooldownFor (int n) mx = cooldown_loop (Suc m) (120 * second) mx"
    using m by (simp add: cooldownFor_def Let_def nat_add_distrib)
  moreover have "ladder_ideal n = 120 * second * 2 ^ Suc m"
    using m by (simp add: ladder_ideal_def)
  ultimately show ?thesis
    using cooldown_loop_spec[of "120 * second" mx "Suc m"] assms by (auto simp: second_def)
qed

lemma cooldownFor_bounds:
  assumes "0 < mx" "mx \<le> int64_max"
  shows "0 < cooldownFor level mx \<and> cooldownFor level mx \<le> mx"
proof -
  have eq: "cooldownFor level mx = cooldownFor (int (nat level)) mx"
    by (simp add: cooldownFor_def Let_def)
  have pos: "0 < ladder_ideal (nat level)"
    using ladder_pos by (auto simp: ladder_ideal_def second_def)
  have "cooldownFor level mx = min (ladder_ideal (nat level)) mx \<or> cooldownFor level mx = mx"
    unfolding eq using cooldownFor_spec[OF assms, of "nat level"] by blast
  with pos assms(1) show ?thesis by (elim disjE) (simp_all only: min_less_iff_conj min.cobounded2 order.refl simp_thms)
qed

section \<open>Availability\<close>

lemma availableLocked_False:
  "fst (fst (availableLocked b now k)) = False \<Longrightarrow> snd (availableLocked b now k) = b \<and> snd (fst (availableLocked b now k)) = False"
  by (auto simp: availableLocked_def split: option.splits if_splits)

lemma availableLocked_iff:
  "fst (fst (availableLocked b now k)) \<longleftrightarrow>
     (case map_of (bm b) k of None \<Rightarrow> True
      | Some st \<Rightarrow> coolingUntil st = 0 \<or> coolingUntil st \<le> now \<and> (retryAfterOnly st \<or> \<not> probing st))"
  by (auto simp: availableLocked_def IsZero_def split: option.splits)

lemma availableLocked_other:
  "j \<noteq> k \<Longrightarrow> map_of (bm (snd (availableLocked b now k))) j = map_of (bm b) j"
  by (auto simp: availableLocked_def split: option.splits)

lemma claims_availableLocked:
  "claims (snd (availableLocked b now k)) =
     claims b \<union> (if snd (fst (availableLocked b now k)) then {k} else {})"
  by (auto simp: availableLocked_def claims_def split: option.splits if_splits)

lemma availableLocked_claimed:
  "snd (fst (availableLocked b now k)) \<Longrightarrow> k \<notin> claims b"
  by (auto simp: availableLocked_def claims_def split: option.splits if_splits)

lemma Available_iff:
  "fst (Available b now1 now2 k) \<longleftrightarrow>
     (if hkModel k = '''' then fst (fst (availableLocked b now1 k))
      else fst (fst (availableLocked b now1 (cred_key k))) \<and> fst (fst (availableLocked b now2 k)))"
proof (cases "hkModel k = ''''")
  case False
  then have "k \<noteq> cred_key k" using cred_key_eq_iff by metis
  then have "fst (fst (availableLocked (snd (availableLocked b now1 (cred_key k))) now2 k)) =
      fst (fst (availableLocked b now2 k))"
    by (simp add: availableLocked_iff availableLocked_other)
  with False show ?thesis by (auto simp: Available_def Let_def split: prod.splits)
qed (auto simp: Available_def split: prod.splits)

lemma claims_Available_False:
  assumes "Available b now1 now2 k = (False, b')"
  shows "claims b' = claims b"
proof (cases "hkModel k = ''''")
  case True
  with assms show ?thesis
    using availableLocked_False[of b now1 k] by (auto simp: Available_def split: prod.splits)
next
  case False
  then have ne: "cred_key k \<noteq> k" by (simp add: cred_key_eq_iff)
  obtain ok cl b1 where a1: "availableLocked b now1 (cred_key k) = ((ok, cl), b1)" by (metis prod.exhaust)
  obtain ok2 cl2 b2 where a2: "availableLocked b1 now2 k = ((ok2, cl2), b2)" by (metis prod.exhaust)
  have c1: "claims b1 = claims b \<union> (if cl then {cred_key k} else {})"
    using claims_availableLocked[of b now1 "cred_key k"] a1 by simp
  have b2: "b2 = b1" if "\<not> ok2"
    using availableLocked_False[of b1 now2 k] a2 that by simp
  show ?thesis
  proof (cases ok)
    case True
    then have nok: "\<not> ok2" and b': "b' = (if cl then (case map_of (bm b2) (cred_key k) of None \<Rightarrow> b2
         | Some st \<Rightarrow> set_entry b2 (cred_key k) (st\<lparr>probing := False\<rparr>)) else b2)"
      using assms False a1 a2 by (auto simp: Available_def Let_def split: if_splits)
    have notin: "cl \<Longrightarrow> cred_key k \<notin> claims b" using availableLocked_claimed[of b now1 "cred_key k"] a1 by simp
    show ?thesis
    proof (cases cl)
      case True
      then have "claims b' = claims b1 - {cred_key k}"
        using b' b2[OF nok] by (auto simp: claims_def split: option.splits if_splits)
      with True c1 notin show ?thesis by auto
    qed (use b' b2[OF nok] c1 in auto)
  next
    case False
    then have "b' = b1" using assms \<open>hkModel k \<noteq> ''''\<close> a1 by (auto simp: Available_def Let_def)
    then show ?thesis using availableLocked_False[of b now1 "cred_key k"] a1 False by auto
  qed
qed

lemma claims_Available_True:
  assumes "Available b now1 now2 k = (True, b')"
  shows "claims b' \<subseteq> claims b \<union> {k, cred_key k}"
proof (cases "hkModel k = ''''")
  case True
  with assms show ?thesis
    using claims_availableLocked[of b now1 k] by (auto simp: Available_def split: prod.splits if_splits)
next
  case False
  with assms show ?thesis
    using claims_availableLocked[of b now1 "cred_key k"]
      claims_availableLocked[of "snd (availableLocked b now1 (cred_key k))" now2 k]
    by (auto simp: Available_def Let_def split: prod.splits if_splits)
qed

text \<open>
  What the executor's loop relies on (its \<^verbatim>\<open>Fleet\<close> and \<^verbatim>\<open>HealthRecorder\<close> interfaces): a refusal takes no
  half-open claim, an admission takes claims on the candidate's own two entries only, and recording or
  releasing gives both back.
\<close>

locale fleet =
  fixes available :: "'b \<Rightarrow> time \<Rightarrow> time \<Rightarrow> Key \<Rightarrow> bool \<times> 'b"
    and record_outcome :: "'b \<Rightarrow> time \<Rightarrow> Key \<Rightarrow> Signal \<Rightarrow> 'b"
    and release :: "'b \<Rightarrow> Key \<Rightarrow> 'b"
    and mark_used :: "'b \<Rightarrow> CredKey \<Rightarrow> time \<Rightarrow> 'b"
    and held :: "'b \<Rightarrow> Key set"
  assumes refuse_held: "available b t1 t2 k = (False, b') \<Longrightarrow> held b' = held b"
    and admit_held: "available b t1 t2 k = (True, b') \<Longrightarrow> held b' \<subseteq> held b \<union> {k, cred_key k}"
    and record_held: "held (record_outcome b t k s) = held b - {k, cred_key k}"
    and release_held: "held (release b k) = held b - {k, cred_key k}"
    and mark_held: "held (mark_used b ck t) = held b"
begin

text \<open>One admitted attempt: admission, the dispatch mark, any number of releases at commit, and the one
  outcome recorded on the way out.\<close>

lemma attempt_no_leak:
  assumes "available b t1 t2 k = (True, b')"
  shows "held (record_outcome (mark_used b' ck t) t' k s) \<subseteq> held b"
    and "held (record_outcome (release (mark_used b' ck t) k) t' k s) \<subseteq> held b"
  using admit_held[OF assms] by (auto simp: record_held release_held mark_held)

end

interpretation brk: fleet Available Record ReleaseProbe MarkUsed claims
  by unfold_locales
    (fact claims_Available_False claims_Available_True claims_Record claims_ReleaseProbe claims_MarkUsed)+

section \<open>The breaker as a state machine\<close>

datatype op =
    OpAvailable time time Key
  | OpRecord time Key Signal
  | OpReleaseProbe Key
  | OpMarkUsed CredKey time
  | OpConfigure "int \<times> duration"
  | OpTakeDirty
  | OpRehydrate time "Entry list"
  | OpRehydrateLastUsed "(CredKey, time) gomap"

fun apply_op :: "op \<Rightarrow> Breaker \<Rightarrow> Breaker" where
  "apply_op (OpAvailable t1 t2 k) b = snd (Available b t1 t2 k)"
| "apply_op (OpRecord t k s) b = Record b t k s"
| "apply_op (OpReleaseProbe k) b = ReleaseProbe b k"
| "apply_op (OpMarkUsed ck t) b = MarkUsed b ck t"
| "apply_op (OpConfigure p) b = Configure b p"
| "apply_op OpTakeDirty b = snd (TakeDirty b)"
| "apply_op (OpRehydrate t es) b = Rehydrate b t es"
| "apply_op (OpRehydrateLastUsed m) b = RehydrateLastUsed b m"

text \<open>The store hands back only levels and counters it was given, which are never negative.\<close>

fun op_ok :: "op \<Rightarrow> bool" where
  "op_ok (OpRehydrate t es) =
     (\<forall>e \<in> set es. 0 \<le> enBackoffLevel e \<and> 0 \<le> enConsecutiveFailures e)"
| "op_ok _ = True"

inductive reachable :: "Breaker \<Rightarrow> bool" where
  start: "reachable (New trip mx)"
| step: "reachable b \<Longrightarrow> op_ok oper \<Longrightarrow> reachable (apply_op oper b)"

lemma wf_entry: "breaker_wf b \<Longrightarrow> map_of (bm b) k = Some st \<Longrightarrow> state_wf st"
  by (simp add: breaker_wf_def)

lemma wf_set_entry: "breaker_wf b \<Longrightarrow> state_wf st \<Longrightarrow> breaker_wf (set_entry b k st)"
  by (simp add: breaker_wf_def)

lemma wf_dirty [simp]: "breaker_wf (b\<lparr>dirty := d\<rparr>) = breaker_wf b"
  by (simp add: breaker_wf_def)

lemma wf_zero [simp]: "state_wf zero_state" by (simp add: state_wf_def zero_state_def)

lemma wf_New: "breaker_wf (New trip mx)"
  by (simp add: New_def clampPolicy_def breaker_wf_def map_wf_def second_def)

lemma wf_release: "breaker_wf b \<Longrightarrow> breaker_wf (releaseProbeLocked b k)"
  unfolding releaseProbeLocked_def
  by (auto split: option.splits dest: wf_entry intro!: wf_set_entry simp: state_wf_def)

lemma wf_reset: "breaker_wf b \<Longrightarrow> breaker_wf (resetLocked b k)"
  by (auto simp: breaker_wf_def reset_map)

lemma wf_getLocked:
  "breaker_wf b \<Longrightarrow> getLocked b k = (st, b') \<Longrightarrow> state_wf st \<and> breaker_wf b'"
  by (auto simp: getLocked_def split: option.splits dest: wf_entry intro!: wf_set_entry)

lemma wf_cool: "breaker_wf b \<Longrightarrow> state_wf st \<Longrightarrow> breaker_wf (coolLocked b k st now (backoffLevel st))"
  by (simp add: coolLocked_def Let_def wf_set_entry state_wf_def)

lemma wf_record_provider:
  assumes "breaker_wf b" shows "breaker_wf (record_provider b now k s)"
proof -
  obtain st b' where g: "getLocked (releaseProbeLocked b (cred_key k)) k = (st, b')" by fastforce
  note w = wf_getLocked[OF wf_release[OF assms] g]
  have "state_wf (st\<lparr>coolingUntil := t, retryAfterOnly := True, probing := False\<rparr>)" for t
    using w by (simp add: state_wf_def)
  moreover have "state_wf (st\<lparr>consecutiveFailures := consecutiveFailures st + 1, probing := False\<rparr>)"
    using w by (simp add: state_wf_def)
  ultimately show ?thesis
    using w wf_cool[of b' st k now] wf_cool[of _ "st\<lparr>consecutiveFailures := consecutiveFailures st + 1, probing := False\<rparr>" k now]
    by (simp add: record_provider_def g Let_def wf_set_entry split: prod.splits)
qed

lemma wf_Record: "breaker_wf b \<Longrightarrow> breaker_wf (Record b now k s)"
  unfolding Record_def
  by (auto simp: Let_def wf_release wf_reset wf_record_provider wf_cool
      split: Outcome.splits prod.splits dest: wf_getLocked[OF wf_release])

lemma wf_availableLocked: "breaker_wf b \<Longrightarrow> breaker_wf (snd (availableLocked b now k))"
  unfolding availableLocked_def
  by (auto split: option.splits dest: wf_entry intro!: wf_set_entry simp: IsZero_def state_wf_def)

lemma wf_Available:
  assumes "breaker_wf b" shows "breaker_wf (snd (Available b now1 now2 k))"
proof -
  note w1 = wf_availableLocked[OF assms, of now1]
  note w2 = wf_availableLocked[OF w1, where now = now2 and k = k]
  show ?thesis
    using w1[of k] w1[of "cred_key k"] w2[of "cred_key k"]
    by (auto simp: Available_def Let_def state_wf_def split: prod.splits option.splits
        intro!: wf_set_entry dest: wf_entry)
qed

lemma wf_rehydrate_state:
  "0 \<le> enBackoffLevel e \<Longrightarrow> 0 \<le> enConsecutiveFailures e \<Longrightarrow> state_wf (rehydrate_state now e)"
  by (simp add: rehydrate_state_def state_wf_def zero_state_def)

lemma wf_Rehydrate:
  "\<forall>e \<in> set es. 0 \<le> enBackoffLevel e \<and> 0 \<le> enConsecutiveFailures e \<Longrightarrow> breaker_wf b \<Longrightarrow>
     breaker_wf (Rehydrate b now es)"
  unfolding Rehydrate_def
  by (induction es arbitrary: b) (simp_all add: wf_set_entry wf_rehydrate_state)

lemma map_wf_fold_update [simp]:
  "map_wf m0 \<Longrightarrow> map_wf (fold (\<lambda>(k, v) lu. AList.update k v lu) m m0)"
  by (induction m arbitrary: m0) auto

lemma wf_ReleaseProbe: "breaker_wf b \<Longrightarrow> breaker_wf (ReleaseProbe b k)"
  by (simp add: ReleaseProbe_def wf_release)

lemma wf_small_ops:
  assumes "breaker_wf b"
  shows "breaker_wf (MarkUsed b ck t)" "breaker_wf (Configure b p)" "breaker_wf (snd (TakeDirty b))"
    "breaker_wf (RehydrateLastUsed b m)"
  using assms
  by (simp_all add: breaker_wf_def MarkUsed_def Configure_def TakeDirty_def RehydrateLastUsed_def)

lemma wf_apply_op: "breaker_wf b \<Longrightarrow> op_ok oper \<Longrightarrow> breaker_wf (apply_op oper b)"
  by (cases oper) (simp_all add: wf_Available wf_Record wf_Rehydrate wf_small_ops wf_ReleaseProbe)

lemma reachable_wf: "reachable b \<Longrightarrow> breaker_wf b"
  by (induction rule: reachable.induct) (auto intro: wf_New wf_apply_op)

section \<open>Half-open exclusion\<close>

text \<open>The operations of other callers: those that do not speak for \<open>k\<close>'s own attempt.\<close>

fun keeps_probe :: "Key \<Rightarrow> op \<Rightarrow> bool" where
  "keeps_probe k (OpRecord t j s) = (k \<noteq> j \<and> k \<noteq> cred_key j)"
| "keeps_probe k (OpReleaseProbe j) = (k \<noteq> j \<and> k \<noteq> cred_key j)"
| "keeps_probe k (OpRehydrate t es) = False"
| "keeps_probe k _ = True"

lemma claims_Available_mono: "claims b \<subseteq> claims (snd (Available b t1 t2 k))"
proof (cases "fst (Available b t1 t2 k)")
  case True
  then show ?thesis
    using claims_availableLocked[of b t1 k] claims_availableLocked[of b t1 "cred_key k"]
      claims_availableLocked[of "snd (availableLocked b t1 (cred_key k))" t2 k]
    by (auto simp: Available_def Let_def split: prod.splits if_splits)
next
  case False
  then show ?thesis using claims_Available_False[of b t1 t2 k] by (metis order.refl prod.collapse)
qed

lemma claims_frames:
  "claims (Configure b p) = claims b" "claims (snd (TakeDirty b)) = claims b"
  "claims (RehydrateLastUsed b m) = claims b"
  by (simp_all add: claims_def Configure_def TakeDirty_def RehydrateLastUsed_def)

lemma claims_kept:
  assumes "k \<in> claims b" "keeps_probe k oper" shows "k \<in> claims (apply_op oper b)"
  using assms
  by (cases oper) (auto simp: claims_Record claims_ReleaseProbe claims_MarkUsed claims_frames
      intro: subsetD[OF claims_Available_mono])

lemma claims_kept_fold:
  "k \<in> claims b \<Longrightarrow> \<forall>oper \<in> set ops. keeps_probe k oper \<Longrightarrow> k \<in> claims (fold apply_op ops b)"
  by (induction ops arbitrary: b) (auto intro: claims_kept)

lemma keeps_probe_ok: "keeps_probe k oper \<Longrightarrow> op_ok oper"
  by (cases oper) auto

lemma wf_fold: "breaker_wf b \<Longrightarrow> \<forall>oper \<in> set ops. op_ok oper \<Longrightarrow> breaker_wf (fold apply_op ops b)"
  by (induction ops arbitrary: b) (auto intro: wf_apply_op)

lemma claimed_refused:
  assumes "breaker_wf b" "c \<in> claims b" "j = c \<or> cred_key j = c"
  shows "\<not> fst (Available b t1 t2 j)"
proof -
  obtain st where st: "map_of (bm b) c = Some st" "probing st" using assms(2) by (auto simp: claims_def)
  then have "\<not> fst (fst (availableLocked b t c))" for t
    using wf_entry[OF assms(1) st(1)] by (simp add: availableLocked_iff state_wf_def)
  with assms(3) show ?thesis using cred_key_eq_iff[of j] by (auto simp: Available_iff)
qed

lemma claimed_after:
  assumes "map_of (bm b) k = Some st" "coolingUntil st \<noteq> 0" "\<not> retryAfterOnly st"
    and "fst (Available b t1 t2 k)"
  shows "k \<in> claims (snd (Available b t1 t2 k))"
proof -
  have *: "k \<in> claims (snd (availableLocked b' t k))"
    if "map_of (bm b') k = Some st" "fst (fst (availableLocked b' t k))" for b' t
    using that assms(2,3) by (auto simp: availableLocked_def claims_def IsZero_def split: if_splits)
  show ?thesis
  proof (cases "hkModel k = ''''")
    case True
    then show ?thesis using assms *[of b t1] by (auto simp: Available_def split: prod.splits)
  next
    case False
    then have "k \<noteq> cred_key k" by (metis cred_key_eq_iff)
    then have "map_of (bm (snd (availableLocked b t1 (cred_key k)))) k = Some st"
      using assms(1) availableLocked_other[of k "cred_key k" b t1] by simp
    then show ?thesis
      using False assms(4) *[of "snd (availableLocked b t1 (cred_key k))" t2]
      by (auto simp: Available_def Let_def split: prod.splits if_splits)
  qed
qed

text \<open>When an entry's cooldown is over and nobody holds its probe, the next caller is admitted.\<close>

lemma admitted:
  assumes "k \<notin> claims b" "until b k = 0 \<or> until b k \<le> t2"
    and "cred_key k \<notin> claims b" "until b (cred_key k) = 0 \<or> until b (cred_key k) \<le> t1"
  shows "fst (Available b t1 t2 k)"
proof -
  have *: "fst (fst (availableLocked b t j))" if "j \<notin> claims b" "until b j = 0 \<or> until b j \<le> t" for j t
    using that by (auto simp: availableLocked_iff until_def claims_def split: option.splits)
  show ?thesis
    using *[OF assms(1,2)] *[OF assms(3,4)] cred_key_eq_iff[of k] by (auto simp: Available_iff)
qed

lemma until_Record:
  assumes "0 < snd (policyLocked b)" "snd (policyLocked b) \<le> int64_max"
  shows "until (Record b now k s) j \<le> max (until b j) (now + snd (policyLocked b)) \<or> until (Record b now k s) j = 0"
proof -
  note c = cooldownFor_bounds[OF assms]
  show ?thesis
  proof (cases "sgOutcome s")
    case OutcomeRetryableProvider
    then show ?thesis
      using c[of "backoffLevel (entry_or_zero (releaseProbeLocked b (cred_key k)) k)"]
      by (auto simp: Record_def until_def record_provider_map Let_def releaseProbe_map entry_or_zero_def
          zero_state_def split: option.splits)
  next
    case OutcomeRetryableCredential
    then show ?thesis
      using c[of "backoffLevel (entry_or_zero (releaseProbeLocked b k) (cred_key k))"]
      by (auto simp: until_def record_credential_map Let_def releaseProbe_map split: option.splits)
  qed (auto simp: Record_def Let_def until_def releaseProbe_map reset_map split: option.splits)
qed

section \<open>Consecutive failures\<close>

definition plain_failure :: "Signal \<Rightarrow> bool" where
  "plain_failure s \<longleftrightarrow> sgOutcome s = OutcomeRetryableProvider \<and> \<not> sgHasRetryAfter s \<and> sgStatusCode s \<noteq> 429"

definition record_all :: "Key \<Rightarrow> Signal \<Rightarrow> time list \<Rightarrow> Breaker \<Rightarrow> Breaker" where
  "record_all k s ts b = fold (\<lambda>t b'. Record b' t k s) ts b"

lemma policyLocked_cool [simp]: "policyLocked (coolLocked b k st now l) = policyLocked b"
  by (auto intro: policyLocked_cong)

lemma policyLocked_record_provider [simp]: "policyLocked (record_provider b now k s) = policyLocked b"
proof -
  obtain st b' where g: "getLocked (releaseProbeLocked b (cred_key k)) k = (st, b')" by fastforce
  then have "policyLocked b' = policyLocked b"
    using policyLocked_frames(3)[of "releaseProbeLocked b (cred_key k)" k] by simp
  then show ?thesis by (simp add: record_provider_def g Let_def split: prod.splits)
qed

lemma record_all_snoc: "record_all k s (ts @ [t]) b = Record (record_all k s ts b) t k s"
  by (simp add: record_all_def)

lemma record_all_simps [simp]: "record_all k s [] b = b" "record_all k s [t] b = Record b t k s"
  by (simp_all add: record_all_def)

lemma plain_failures:
  assumes "plain_failure s" "map_of (bm b) k = None" "1 \<le> fst (policyLocked b)"
  shows "policyLocked (record_all k s ts b) = policyLocked b \<and>
    (ts \<noteq> [] \<longrightarrow> map_of (bm (record_all k s ts b)) k = Some \<lparr>
       coolingUntil = (if int (length ts) < fst (policyLocked b) then 0
          else last ts + cooldownFor (int (length ts) - fst (policyLocked b)) (snd (policyLocked b))),
       backoffLevel = (if int (length ts) < fst (policyLocked b) then 0
          else int (length ts) - fst (policyLocked b) + 1),
       consecutiveFailures = int (length ts), probing = False, retryAfterOnly = False\<rparr>)"
proof (induction ts rule: rev_induct)
  case Nil
  then show ?case by (simp add: record_all_def)
next
  case (snoc t ts)
  have R: "Record b' t k s = record_provider b' t k s" for b'
    using assms(1) by (simp add: Record_def plain_failure_def)
  have e: "entry_or_zero (releaseProbeLocked (record_all k s ts b) (cred_key k)) k =
      (if ts = [] then zero_state else the (map_of (bm (record_all k s ts b)) k))"
    using snoc assms(2)
    by (cases "ts = []") (auto simp: entry_or_zero_def releaseProbe_map record_all_def)
  let ?n = "int (length ts)" and ?trip = "fst (policyLocked b)"
  consider "ts = []" | "ts \<noteq> []" "?n + 1 < ?trip" | "ts \<noteq> []" "?trip = ?n + 1"
    | "ts \<noteq> []" "?trip \<le> ?n" by linarith
  then show ?case
  proof cases
    case 1
    then have "entry_or_zero (releaseProbeLocked b (cred_key k)) k = zero_state" using e by simp
    with 1 show ?thesis
      using assms(1,3) by (simp add: R record_provider_map Let_def plain_failure_def zero_state_def)
  next
    case 4
    have n: "?n - ?trip + 1 = 1 + ?n - ?trip" by simp
    with 4 show ?thesis
      using snoc assms(1,3)
      by (simp add: record_all_snoc R record_provider_map Let_def e plain_failure_def n)
  qed (use snoc assms(1,3) in \<open>simp_all add: record_all_snoc R record_provider_map Let_def e
      plain_failure_def zero_state_def\<close>)
qed

section \<open>The frozen view and the live breaker\<close>

lemma frozen_map_of:
  assumes "map_wf (bm b)"
  shows "map_of (SnapshotAvailability b at) k = None \<longleftrightarrow> until b k = 0 \<or> until b k \<le> at"
proof -
  have "map_of (SnapshotAvailability b at) k = None \<longleftrightarrow>
      (\<forall>st. (k, st) \<in> set (bm b) \<longrightarrow> coolingUntil st = 0 \<or> coolingUntil st \<le> at)"
    by (force simp: SnapshotAvailability_def map_of_eq_None_iff IsZero_def)
  moreover have "(k, st) \<in> set (bm b) \<longleftrightarrow> map_of (bm b) k = Some st" for st
    using assms by (simp add: map_wf_def)
  ultimately show ?thesis by (auto simp: until_def split: option.splits)
qed

lemma frozen_iff:
  assumes "map_wf (bm b)"
  shows "Availability_Available (SnapshotAvailability b at) k \<longleftrightarrow>
    (until b k = 0 \<or> until b k \<le> at) \<and> (until b (cred_key k) = 0 \<or> until b (cred_key k) \<le> at)"
proof -
  have "SnapshotAvailability b at = [] \<Longrightarrow> map_of (SnapshotAvailability b at) j = None" for j by simp
  then show ?thesis
    using cred_key_eq_iff[of k] unfolding Availability_Available_def frozen_map_of[OF assms, symmetric]
    by (auto simp del: not_None_eq)
qed

lemma live_iff:
  assumes "breaker_wf b"
  shows "fst (Available b at at k) \<longleftrightarrow>
    (until b k = 0 \<or> until b k \<le> at) \<and> (until b (cred_key k) = 0 \<or> until b (cred_key k) \<le> at) \<and>
    k \<notin> claims b \<and> cred_key k \<notin> claims b"
proof -
  have "fst (fst (availableLocked b at j)) \<longleftrightarrow> (until b j = 0 \<or> until b j \<le> at) \<and> j \<notin> claims b" for j
  proof (cases "map_of (bm b) j")
    case (Some st)
    with wf_entry[OF assms Some] show ?thesis
      by (auto simp: availableLocked_iff until_def claims_def state_wf_def)
  qed (simp add: availableLocked_iff until_def claims_def)
  then show ?thesis
    using cred_key_eq_iff[of k] by (cases "hkModel k = []") (simp_all add: Available_iff, blast)
qed

section \<open>Persistence round trip\<close>

lemma map_of_Rehydrate:
  "distinct (map enKey es) \<Longrightarrow>
   map_of (bm (Rehydrate b now es)) k =
     (case find (\<lambda>e. enKey e = k) es of None \<Rightarrow> map_of (bm b) k | Some e \<Rightarrow> Some (rehydrate_state now e))"
proof (induction es arbitrary: b)
  case (Cons e es)
  have none: "find (\<lambda>e. enKey e = enKey x) es = None" if "enKey x \<notin> enKey ` set es" for x
    using that by (force simp: find_None_iff)
  have "Rehydrate b now (e # es) = Rehydrate (set_entry b (enKey e) (rehydrate_state now e)) now es"
    by (simp add: Rehydrate_def)
  with Cons none[of e] show ?case by (auto split: option.splits)
qed (simp add: Rehydrate_def)

lemma find_Snapshot:
  "find (\<lambda>e. enKey e = k) (Snapshot b) = map_option (\<lambda>st. entry_of (k, st)) (map_of (bm b) k)"
proof -
  have "find (\<lambda>e. enKey e = k) (map entry_of m) = map_option (\<lambda>st. entry_of (k, st)) (map_of m k)" for m
    by (induction m) (auto simp: entry_of_def)
  then show ?thesis by (simp add: Snapshot_def)
qed

lemma map_of_round_trip:
  assumes "map_wf (bm b)"
  shows "map_of (bm (Rehydrate (New trip mx) now (Snapshot b))) k =
    map_option (\<lambda>st. rehydrate_state now (entry_of (k, st))) (map_of (bm b) k)"
proof -
  have "distinct (map enKey (Snapshot b))"
    using assms by (simp add: Snapshot_def map_wf_def comp_def entry_of_def case_prod_beta)
  then show ?thesis
    by (auto simp: map_of_Rehydrate find_Snapshot New_def split: option.splits prod.splits)
qed

section \<open>Properties\<close>

lemma ladder_ideal_mono: "ladder_ideal n < ladder_ideal (Suc n)"
proof (cases "n < 7")
  case True
  then have "n \<in> {0, 1, 2, 3, 4, 5, 6}" by auto
  then show ?thesis by (auto simp: ladder_ideal_def ladder_def second_def)
next
  case False
  then obtain m where m: "n = m + 7" by (metis add.commute le_Suc_ex not_less)
  have "ladder ! 7 = 120 * second" by (simp add: ladder_def)
  then have "ladder_ideal n = 120 * second * 2 ^ m" "ladder_ideal (Suc n) = 120 * second * 2 ^ Suc m"
    using m by (cases m; simp add: ladder_ideal_def)+
  then show ?thesis by (simp add: second_def)
qed

text \<open>The cooldown at ladder level \<open>n\<close> is the rung of the ladder (1, 2, 4, 8, 15, 30, 60, 120 seconds,
  doubling after that) capped at the maximum, to within the one nanosecond the halved maximum loses; it is
  always positive, never exceeds the maximum, never shrinks as the level grows, and the doubling never
  overflows a 64-bit duration.\<close>

theorem cooldown_ladder:
  assumes "0 < mx" "mx \<le> int64_max"
  shows "(ladder_ideal n + 1 < mx \<longrightarrow> cooldownFor (int n) mx = ladder_ideal n) \<and>
    (mx \<le> ladder_ideal n \<longrightarrow> cooldownFor (int n) mx = mx) \<and>
    0 < cooldownFor level mx \<and> cooldownFor level mx \<le> mx \<and>
    cooldownFor (int n) mx \<le> cooldownFor (int (Suc n)) mx"
proof -
  have s: "cooldownFor (int n) mx = min (ladder_ideal n) mx \<or> ladder_ideal n = mx - 1 \<and> cooldownFor (int n) mx = mx"
    by (rule cooldownFor_spec[OF assms])
  have s': "cooldownFor (int (Suc n)) mx = min (ladder_ideal (Suc n)) mx \<or>
      ladder_ideal (Suc n) = mx - 1 \<and> cooldownFor (int (Suc n)) mx = mx"
    by (rule cooldownFor_spec[OF assms])
  show ?thesis
    using s s' ladder_ideal_mono[of n] cooldownFor_bounds[OF assms, of level]
      cooldownFor_bounds[OF assms, of "int n"] by (auto simp: min_def)
qed

theorem cooldown_ladder_witness:
  "cooldownFor 9 (900 * second) = 480 * second \<and> cooldownFor 12 (900 * second) = 900 * second \<and>
   cooldownFor 3 (900 * second) \<le> cooldownFor 4 (900 * second)"
proof -
  have m: "0 < 900 * second" "900 * second \<le> int64_max" by (simp_all add: second_def int64_max_def)
  have "ladder_ideal 9 = 480 * second" "900 * second \<le> ladder_ideal 12"
    by (simp_all add: ladder_ideal_def second_def)
  then show ?thesis
    using cooldown_ladder[OF m, of 9 0] cooldown_ladder[OF m, of 12 0] cooldown_ladder[OF m, of 3 0]
    by (simp add: second_def)
qed

text \<open>C31. Every breaker that construction and any sequence of the exported operations can reach is
  well formed: one entry per key, no negative level or counter, thresholds in force at least one failure
  and a positive maximum, and a half-open probe only on an entry whose ladder cooldown was tripped.\<close>

theorem breaker_invariant:
  assumes "reachable b"
  shows "breaker_wf b \<and> 1 \<le> fst (policyLocked b) \<and> 0 < snd (policyLocked b) \<and>
    (\<forall>k \<in> claims b. until b k \<noteq> 0)"
  using reachable_wf[OF assms] policyLocked_bounds[of b]
  by (auto simp: claims_def until_def state_wf_def dest: wf_entry)

definition demo_key :: Key where
  "demo_key = \<lparr>hkProvider = ''openai'', hkKey = ''k1'', hkModel = ''gpt-4o''\<rparr>"

definition demo_fail :: "int \<Rightarrow> Signal" where
  "demo_fail code = \<lparr>sgOutcome = OutcomeRetryableProvider, sgStatusCode = code, sgRetryAfter = 0,
     sgHasRetryAfter = False\<rparr>"

definition demo_tripped :: Breaker where
  "demo_tripped = apply_op (OpRecord 100 demo_key (demo_fail 429)) (New 3 (900 * second))"

lemma demo_tripped_reachable: "reachable demo_tripped"
  unfolding demo_tripped_def by (rule reachable.step[OF reachable.start]) simp

lemma demo_tripped_bm:
  "bm demo_tripped = [(demo_key, \<lparr>coolingUntil = 100 + second, backoffLevel = 1, consecutiveFailures = 0,
     probing = False, retryAfterOnly = False\<rparr>)]" by code_simp

theorem breaker_invariant_witness: "breaker_wf demo_tripped \<and> 1 \<le> fst (policyLocked demo_tripped)"
  using breaker_invariant[OF demo_tripped_reachable] by simp

text \<open>C7. Half-open: at expiry of a ladder cooldown the next caller is admitted, and from then on every
  other caller of the same key is refused, at every instant, whatever operations for other keys happen in
  between, until an outcome for the key is recorded or its probe is released.\<close>

theorem half_open_single_probe:
  assumes "reachable b" and "map_of (bm b) k = Some st" "coolingUntil st \<noteq> 0" "coolingUntil st \<le> t1"
    "coolingUntil st \<le> t2" "\<not> retryAfterOnly st" "\<not> probing st"
    and "hkModel k \<noteq> ''''" "map_of (bm b) (cred_key k) = None"
    and "\<forall>oper \<in> set ops. keeps_probe k oper"
  shows "fst (Available b t1 t2 k) \<and>
    \<not> fst (Available (fold apply_op ops (snd (Available b t1 t2 k))) t3 t4 k)"
proof -
  let ?b = "snd (Available b t1 t2 k)"
  have ok: "fst (Available b t1 t2 k)"
    using assms by (intro admitted) (auto simp: claims_def until_def)
  have "k \<in> claims (fold apply_op ops ?b)"
    using claimed_after[OF assms(2,3,6) ok] assms(10) by (intro claims_kept_fold)
  moreover have "breaker_wf (fold apply_op ops ?b)"
    using assms(1,10) by (intro wf_fold wf_Available reachable_wf) (auto intro: keeps_probe_ok)
  ultimately show ?thesis using ok claimed_refused by blast
qed

theorem half_open_single_probe_witness:
  "fst (Available demo_tripped (100 + second) (100 + second) demo_key) \<and>
   \<not> fst (Available (fold apply_op [OpMarkUsed \<lparr>ckProvider = ''p'', ckKey = ''c''\<rparr> 7]
       (snd (Available demo_tripped (100 + second) (100 + second) demo_key))) (200 * second) (200 * second) demo_key)"
  by (rule half_open_single_probe[OF demo_tripped_reachable, where st = "snd (hd (bm demo_tripped))"])
    (simp_all add: demo_tripped_bm second_def demo_key_def cred_key_def)

text \<open>C36. Liveness with a bound: whatever outcome is recorded for a key, the key is admitted again at the
  latest one maximum cooldown later (where its entries were not already cooling for longer than that).\<close>

theorem bounded_outage:
  assumes "reachable b" "snd (policyLocked b) \<le> int64_max"
    and "until b k \<le> now + snd (policyLocked b)" "until b (cred_key k) \<le> now + snd (policyLocked b)"
    and "0 \<le> now" "now + snd (policyLocked b) \<le> t1" "now + snd (policyLocked b) \<le> t2"
  shows "fst (Available (Record b now k s) t1 t2 k)"
proof -
  have pos: "0 < snd (policyLocked b)" using policyLocked_bounds[OF reachable_wf[OF assms(1)]] by simp
  have "until (Record b now k s) j \<le> now + snd (policyLocked b)" if "j = k \<or> j = cred_key k" for j
    using until_Record[OF pos assms(2), of now k s j] that assms(3-5) pos by auto
  then show ?thesis
    using assms(6,7) by (intro admitted) (force simp: claims_Record intro!: disjI2)+
qed

theorem bounded_outage_witness:
  "fst (Available (Record demo_tripped 500 demo_key (demo_fail 429)) (900 * second + 500) (901 * second) demo_key)"
proof (rule bounded_outage[OF demo_tripped_reachable])
  have p: "snd (policyLocked demo_tripped) = 900 * second" by code_simp
  show "snd (policyLocked demo_tripped) \<le> int64_max" "500 + snd (policyLocked demo_tripped) \<le> 900 * second + 500"
    "500 + snd (policyLocked demo_tripped) \<le> 901 * second"
    by (simp_all add: p second_def int64_max_def)
  show "until demo_tripped demo_key \<le> 500 + snd (policyLocked demo_tripped)"
    "until demo_tripped (cred_key demo_key) \<le> 500 + snd (policyLocked demo_tripped)"
    by (simp_all add: p until_def demo_tripped_bm second_def demo_key_def cred_key_def)
qed simp

text \<open>The trip threshold: plain failures of a key (retryable, no Retry-After, not a 429) do not cool
  it until \<open>trip_after\<close> of them are recorded in a row; from that one on, every further one cools it from
  its own instant at the next rung of the ladder.\<close>

theorem trip_threshold:
  assumes "reachable b" "plain_failure s" "map_of (bm b) k = None" "ts \<noteq> []"
  shows "until (record_all k s ts b) k =
    (if int (length ts) < fst (policyLocked b) then 0
     else last ts + cooldownFor (int (length ts) - fst (policyLocked b)) (snd (policyLocked b)))"
  using plain_failures[OF assms(2,3), of ts] policyLocked_bounds[OF reachable_wf[OF assms(1)]] assms(4)
  by (simp add: until_def)

theorem trip_threshold_witness:
  "until (record_all demo_key (demo_fail 500) [1, 2] (New 3 (900 * second))) demo_key = 0 \<and>
   until (record_all demo_key (demo_fail 500) [1, 2, 7] (New 3 (900 * second))) demo_key = 7 + second"
proof -
  have p: "policyLocked (New 3 (900 * second)) = (3, 900 * second)" by code_simp
  have c: "cooldownFor 0 (900 * second) = second" by code_simp
  have "plain_failure (demo_fail 500)" "map_of (bm (New 3 (900 * second))) demo_key = None" by code_simp+
  note t = trip_threshold[OF reachable.start this]
  show ?thesis using t[of "[1, 2]"] t[of "[1, 2, 7]"] by (simp add: p c)
qed

text \<open>No attempt leaks a half-open probe: once admitted, an attempt that marks its credential used,
  optionally releases its probe at commit, and records its outcome leaves no claim that was not there
  before it; and a refusal leaves every claim as it was.\<close>

theorem attempt_returns_claims:
  assumes "Available b t1 t2 k = (ok, b')"
  shows "if ok then claims (Record (MarkUsed b' ck t) t' k s) \<subseteq> claims b \<and>
      claims (Record (ReleaseProbe (MarkUsed b' ck t) k) t' k s) \<subseteq> claims b
    else claims b' = claims b"
  using assms brk.attempt_no_leak[of b t1 t2 k b'] brk.refuse_held[of b t1 t2 k b'] by auto

theorem attempt_returns_claims_witness:
  "claims (Record (MarkUsed (snd (Available demo_tripped (100 + second) (100 + second) demo_key))
      \<lparr>ckProvider = ''openai'', ckKey = ''k1''\<rparr> 7) 8 demo_key (demo_fail 500)) = {}"
proof -
  have a: "Available demo_tripped (100 + second) (100 + second) demo_key =
      (True, snd (Available demo_tripped (100 + second) (100 + second) demo_key))" by code_simp
  have "claims demo_tripped = {}" by (auto simp: claims_def demo_tripped_bm split: if_splits)
  then show ?thesis using attempt_returns_claims[OF a] by simp
qed

text \<open>A provider's own Retry-After is honoured as given, capped at the maximum, and is not a step on
  the ladder: level and failure count are unchanged, and when it expires every caller is admitted at once,
  with no probe claimed on the entry.\<close>

theorem retry_after_reopens:
  assumes "sgOutcome s = OutcomeRetryableProvider" "sgHasRetryAfter s" "hkModel k \<noteq> ''''"
    and "b' = Record b now k s"
  shows "until b' k = now + min (sgRetryAfter s) (snd (policyLocked b)) \<and>
    backoffLevel (entry_or_zero b' k) = backoffLevel (entry_or_zero b k) \<and>
    consecutiveFailures (entry_or_zero b' k) = consecutiveFailures (entry_or_zero b k) \<and>
    (until b' k \<le> t \<longrightarrow> availableLocked b' t k = ((True, False), snd (availableLocked b' t k)) \<and>
       k \<notin> claims (snd (availableLocked b' t k)) \<and> until (snd (availableLocked b' t k)) k = 0)"
proof -
  have ne: "cred_key k \<noteq> k" using assms(3) by (simp add: cred_key_eq_iff)
  let ?st = "entry_or_zero b k"
  have m: "map_of (bm b') k = Some (?st\<lparr>coolingUntil := now + min (sgRetryAfter s) (snd (policyLocked b)),
      retryAfterOnly := True, probing := False\<rparr>)"
    using assms ne by (simp add: Record_def record_provider_map Let_def entry_or_zero_def releaseProbe_map)
  then show ?thesis
    by (auto simp: until_def entry_or_zero_def availableLocked_def claims_def IsZero_def)
qed

definition demo_retry :: Signal where
  "demo_retry = \<lparr>sgOutcome = OutcomeRetryableProvider, sgStatusCode = 429, sgRetryAfter = 30 * second,
     sgHasRetryAfter = True\<rparr>"

theorem retry_after_reopens_witness:
  "until (Record demo_tripped 500 demo_key demo_retry) demo_key = 500 + 30 * second \<and>
   backoffLevel (entry_or_zero (Record demo_tripped 500 demo_key demo_retry) demo_key) = 1"
proof -
  have p: "snd (policyLocked demo_tripped) = 900 * second" by code_simp
  have "backoffLevel (entry_or_zero demo_tripped demo_key) = 1" by code_simp
  then show ?thesis
    using retry_after_reopens[of demo_retry demo_key, OF _ _ _ refl, of demo_tripped 500]
    by (simp add: p demo_retry_def demo_key_def second_def)
qed

lemma Record_other:
  assumes "j \<noteq> k" "j \<noteq> cred_key k"
  shows "map_of (bm (Record b now k s)) j = map_of (bm b) j"
proof (cases "sgOutcome s")
  case OutcomeRetryableCredential
  then show ?thesis using assms by (simp add: record_credential_map Let_def releaseProbe_map)
next
  case OutcomeRetryableProvider
  then show ?thesis using assms by (simp add: Record_def record_provider_map Let_def releaseProbe_map)
qed (use assms in \<open>simp_all add: Record_def Let_def releaseProbe_map reset_map\<close>)

text \<open>What an outcome other than success or a credential failure leaves of the credential's entry.\<close>

lemma Record_cred_entry:
  assumes "hkModel k \<noteq> ''''" "sgOutcome s \<noteq> OutcomeSuccess" "sgOutcome s \<noteq> OutcomeRetryableCredential"
  shows "map_of (bm (Record b now k s)) (cred_key k) =
    map_option (\<lambda>st. st\<lparr>probing := False\<rparr>) (map_of (bm b) (cred_key k))"
proof -
  have ne: "cred_key k \<noteq> k" using assms(1) by (simp add: cred_key_eq_iff)
  show ?thesis
    using ne assms(2,3)
    by (cases "sgOutcome s") (simp_all add: Record_def Let_def releaseProbe_map reset_map record_provider_map)
qed

text \<open>Failures are charged to the right entry. A credential failure cools every model the credential
  serves until the cooldown ends; an outcome touches no entry of another credential or, for a provider
  failure, of another model; and no outcome but success lowers the credential's ladder or ends its
  cooldown early.\<close>

theorem outcome_scope:
  assumes "hkModel k \<noteq> ''''"
  shows "(sgOutcome s = OutcomeRetryableCredential \<and> cred_key j = cred_key k \<and>
      now + cooldownFor (backoffLevel (entry_or_zero b (cred_key k))) (snd (policyLocked b)) \<noteq> 0 \<and>
      t1 < now + cooldownFor (backoffLevel (entry_or_zero b (cred_key k))) (snd (policyLocked b)) \<longrightarrow>
        \<not> fst (Available (Record b now k s) t1 t2 j)) \<and>
    (j \<noteq> k \<and> j \<noteq> cred_key k \<longrightarrow> map_of (bm (Record b now k s)) j = map_of (bm b) j) \<and>
    (sgOutcome s \<noteq> OutcomeSuccess \<longrightarrow>
      backoffLevel (entry_or_zero (Record b now k s) (cred_key k)) \<ge> backoffLevel (entry_or_zero b (cred_key k)) \<and>
      (sgOutcome s \<noteq> OutcomeRetryableCredential \<longrightarrow> until (Record b now k s) (cred_key k) = until b (cred_key k)))"
  (is "?cools \<and> ?other \<and> ?ladder")
proof (intro conjI)
  have ne: "cred_key k \<noteq> k" using assms by (simp add: cred_key_eq_iff)
  have e: "backoffLevel (entry_or_zero (releaseProbeLocked b k) (cred_key k)) = backoffLevel (entry_or_zero b (cred_key k))"
    using ne by (simp add: entry_or_zero_def releaseProbe_map)
  show ?other by (simp add: Record_other)
  show ?ladder
  proof (cases "sgOutcome s = OutcomeRetryableCredential")
    case True
    then have "backoffLevel (entry_or_zero (Record b now k s) (cred_key k)) =
        backoffLevel (entry_or_zero (releaseProbeLocked b k) (cred_key k)) + 1"
      by (subst entry_or_zero_def) (simp add: record_credential_map Let_def)
    with True e show ?thesis by simp
  next
    case False
    then show ?thesis
      using Record_cred_entry[OF assms, of s b now]
      by (cases "map_of (bm b) (cred_key k)") (simp_all add: entry_or_zero_def until_def)
  qed
  show ?cools
    using cred_key_eq_iff[of j]
    by (auto simp: Available_iff availableLocked_iff record_credential_map Let_def e)
qed

theorem outcome_scope_witness:
  "\<not> fst (Available (Record demo_tripped 500 demo_key
      \<lparr>sgOutcome = OutcomeRetryableCredential, sgStatusCode = 401, sgRetryAfter = 0, sgHasRetryAfter = False\<rparr>)
      600 600 (demo_key\<lparr>hkModel := ''o3''\<rparr>))"
proof -
  have c: "cooldownFor (backoffLevel (entry_or_zero demo_tripped (cred_key demo_key))) (snd (policyLocked demo_tripped)) = second"
    by code_simp
  have "hkModel demo_key \<noteq> ''''" by (simp add: demo_key_def)
  then show ?thesis
    using outcome_scope[of demo_key _ "demo_key\<lparr>hkModel := ''o3''\<rparr>" 500 demo_tripped 600] unfolding c
    by (simp add: second_def cred_key_def)
qed

text \<open>The frozen view the router reads agrees with the live breaker: for every reachable breaker a key is
  available in the snapshot taken at an instant exactly when the breaker itself would admit it at that
  instant, save for half-open probes already in flight; and reading the view changes nothing.\<close>

theorem frozen_view_agrees:
  assumes "reachable b"
  shows "fst (Available b at at k) \<longleftrightarrow>
    Availability_Available (SnapshotAvailability b at) k \<and> k \<notin> claims b \<and> cred_key k \<notin> claims b"
  using frozen_iff[of b at k] live_iff[OF reachable_wf[OF assms], of at k] reachable_wf[OF assms]
  by (auto simp: breaker_wf_def)

theorem frozen_view_agrees_witness:
  "Availability_Available (SnapshotAvailability demo_tripped (100 + second)) demo_key"
proof -
  have "fst (Available demo_tripped (100 + second) (100 + second) demo_key)" by code_simp
  then show ?thesis using frozen_view_agrees[OF demo_tripped_reachable] by simp
qed

text \<open>Restart: rehydrating a fresh breaker from a snapshot keeps every ladder level and failure count
  of every key, and, at every instant from the restart on, exactly the same keys are cooling.\<close>

theorem restart_round_trip:
  assumes "reachable b" "now \<le> at" and r: "r = Rehydrate (New trip mx) now (Snapshot b)"
  shows "Availability_Available (SnapshotAvailability r at) k = Availability_Available (SnapshotAvailability b at) k \<and>
    backoffLevel (entry_or_zero r k) = backoffLevel (entry_or_zero b k) \<and>
    consecutiveFailures (entry_or_zero r k) = consecutiveFailures (entry_or_zero b k)"
proof -
  have w: "map_wf (bm b)" using reachable_wf[OF assms(1)] by (simp add: breaker_wf_def)
  have "breaker_wf r"
    unfolding r using reachable_wf[OF assms(1)]
    by (intro wf_Rehydrate wf_New) (auto simp: Snapshot_def entry_of_def breaker_wf_def state_wf_def map_wf_def)
  then have wr: "map_wf (bm r)" by (simp add: breaker_wf_def)
  have m: "map_of (bm r) j = map_option (\<lambda>st. rehydrate_state now (entry_of (j, st))) (map_of (bm b) j)" for j
    unfolding r by (rule map_of_round_trip[OF w])
  have "until r j = 0 \<or> until r j \<le> at \<longleftrightarrow> until b j = 0 \<or> until b j \<le> at" for j
    using assms(2) by (cases "map_of (bm b) j")
      (auto simp: until_def m rehydrate_state_def entry_of_def zero_state_def IsZero_def)
  then show ?thesis
    unfolding frozen_iff[OF w] frozen_iff[OF wr]
    by (cases "map_of (bm b) k") (auto simp: m entry_or_zero_def rehydrate_state_def entry_of_def)
qed

theorem restart_round_trip_witness:
  "\<not> Availability_Available (SnapshotAvailability (Rehydrate (New 5 second) 200 (Snapshot demo_tripped)) 300) demo_key"
proof -
  have "\<not> Availability_Available (SnapshotAvailability demo_tripped 300) demo_key" by code_simp
  then show ?thesis
    using restart_round_trip[OF demo_tripped_reachable, of 200 300, OF _ refl] by simp
qed

section \<open>Where the code departs from its comments\<close>

text \<open>A Retry-After of ten billion seconds overflows the 64-bit duration and becomes negative, so the
  provider that asked for the longest wait is available at once.\<close>

lemma retry_after_overflow:
  "ParseRetryAfter (\<lambda>_. None) ''10000000000'' 0 = Some (- 8446744073709551616)" by code_simp

lemma retry_after_overflow_available:
  "fst (Available (Record (New 3 (900 * second)) 1000 demo_key
     (demo_retry\<lparr>sgRetryAfter := - 8446744073709551616\<rparr>)) 1000 1000 demo_key)" by code_simp

text \<open>Two probes at once: a request admitted before the key tripped ends as cancelled while another caller
  is probing; its outcome gives back the other caller's claim and a third caller is admitted too.\<close>

definition cancelled_signal :: Signal where
  "cancelled_signal = \<lparr>sgOutcome = OutcomeClientCancelled, sgStatusCode = 0, sgRetryAfter = 0, sgHasRetryAfter = False\<rparr>"

lemma stale_outcome_frees_probe:
  "let t = 100 + second;
       (ok1, b1) = Available demo_tripped t t demo_key;
       b2 = Record b1 t demo_key cancelled_signal;
       (ok2, b3) = Available b2 t t demo_key
   in ok1 \<and> ok2" by code_simp

text \<open>A Retry-After cooldown needs no probe when it expires, but the flag that says so is not part of the
  persisted entry: after a restart the same cooldown ends in a half-open probe.\<close>

lemma retry_after_flag_not_persisted:
  "let b = Record (New 3 (900 * second)) 1000 demo_key demo_retry; t = 1000 + 30 * second;
       r = Rehydrate (New 3 (900 * second)) 1000 (Snapshot b)
   in \<not> snd (fst (availableLocked b t demo_key)) \<and> snd (fst (availableLocked r t demo_key))" by code_simp

end
