(* ===== verification/Router.thy ===== *)
theory Router
  imports Catalog Health
begin

text \<open>
  The router, \<^verbatim>\<open>internal/router\<close>: \<^verbatim>\<open>types.go\<close>, \<^verbatim>\<open>model.go\<close>, \<^verbatim>\<open>order.go\<close>, \<^verbatim>\<open>filter.go\<close> and \<^verbatim>\<open>router.go\<close>. \<^verbatim>\<open>Resolve\<close> is
  a pure function of a query and a frozen view of the system; so it is here. The \<^verbatim>\<open>catalog.Reader\<close> of the
  view is its two methods.
\<close>

section \<open>Data\<close>

record Query =
  qyModel :: string
  qySurface :: Surface
  qyNeedsTools :: bool
  qyNeedsVision :: bool
  qyNeedsReasoning :: bool

record RouterSnapshot =
  rsAt :: time
  rsProviders :: "Provider list"
  rsLookup :: "string \<Rightarrow> string \<Rightarrow> Model option"
  rsOffering :: "string \<Rightarrow> string list"
  rsAliases :: "(string, string list) gomap option"
  rsHealth :: Availability
  rsLastUsed :: "(CredKey, time) gomap"
  rsAdapterSurfaces :: "(string, SurfaceSet) gomap"

record Candidate =
  cdProviderID :: string
  cdKeyID :: string
  cdModel :: string
  cdKind :: string
  cdPublisher :: string
  cdInferred :: bool

datatype SkipReason = SkipDisabled | SkipCooling | SkipSurface | SkipCapability | SkipNoCredential
  | SkipRemoved | SkipAdapterSurface | SkipUnsanctioned

record Skip =
  skProviderID :: string
  skKeyID :: string
  skModel :: string
  skReason :: SkipReason

record target =
  tgProviderID :: string
  tgModelID :: string

datatype RouterError = ErrModelNotFound | ErrSurfaceUnsupported | ErrAllCooling | ErrCapabilityUnsatisfied
  | ErrUnsanctionedFree

section \<open>Model names\<close>

definition aliasFor :: "string \<Rightarrow> (string, string list) gomap \<Rightarrow> string" where
  "aliasFor name aliases = (if map_of aliases name \<noteq> None then name else '''')"

definition resolveDirect :: "(string \<Rightarrow> string list) \<Rightarrow> string list \<Rightarrow> string \<Rightarrow> target list" where
  "resolveDirect offers providers name =
     (case (case Cut (CHR ''/'') name of
              Some (prefix, rest) \<Rightarrow> if prefix \<in> set providers then Some (prefix, rest) else None
            | None \<Rightarrow> None) of
        Some (prefix, rest) \<Rightarrow> [\<lparr>tgProviderID = prefix, tgModelID = rest\<rparr>]
      | None \<Rightarrow> map (\<lambda>pid. \<lparr>tgProviderID = pid, tgModelID = name\<rparr>) (offers name))"

definition resolveModel ::
    "string \<Rightarrow> (string, string list) gomap \<Rightarrow> string list \<Rightarrow> (string \<Rightarrow> string list) \<Rightarrow> target list \<times> string" where
  "resolveModel name aliases providers offers =
     (let alias = aliasFor name aliases in
      if alias \<noteq> '''' then
        (concat (map (resolveDirect offers providers)
           (case map_of aliases alias of None \<Rightarrow> [] | Some es \<Rightarrow> es)), alias)
      else (resolveDirect offers providers name, ''''))"

section \<open>Credential order\<close>

definition cred_before :: "string \<Rightarrow> (CredKey, time) gomap \<Rightarrow> Credential \<Rightarrow> Credential \<Rightarrow> bool" where
  "cred_before pid lu ci cj =
     (case (map_of lu \<lparr>ckProvider = pid, ckKey = crID ci\<rparr>, map_of lu \<lparr>ckProvider = pid, ckKey = crID cj\<rparr>) of
        (None, None) \<Rightarrow> crID ci < crID cj
      | (None, Some _) \<Rightarrow> True
      | (Some _, None) \<Rightarrow> False
      | (Some ti, Some tj) \<Rightarrow> if ti \<noteq> tj then ti < tj else crID ci < crID cj)"

definition orderCredentials :: "string \<Rightarrow> Credential list \<Rightarrow> (CredKey, time) gomap \<Rightarrow> Credential list" where
  "orderCredentials pid creds lu = SliceStable (cred_before pid lu) creds"

section \<open>Filtering one target\<close>

definition Keyless :: "Provider \<Rightarrow> bool" where
  "Keyless p = IsKeyless (prAuthStyle p)"

definition skip_target :: "target \<Rightarrow> SkipReason \<Rightarrow> Skip" where
  "skip_target t r = \<lparr>skProviderID = tgProviderID t, skKeyID = '''', skModel = tgModelID t, skReason = r\<rparr>"

definition anonymous_credential :: Credential where
  "anonymous_credential = \<lparr>crID = '''', crSecret = '''', crEnabled = True, crKind = '''', crAccountID = ''''\<rparr>"

fun offer_credentials :: "RouterSnapshot \<Rightarrow> Provider \<Rightarrow> Model \<Rightarrow> target \<Rightarrow> Credential list \<Rightarrow> Candidate list \<times> Skip list" where
  "offer_credentials snap p m t [] = ([], [])"
| "offer_credentials snap p m t (c # cs) =
     (let k = \<lparr>hkProvider = prID p, hkKey = crID c, hkModel = tgModelID t\<rparr> in
      case offer_credentials snap p m t cs of (cands, skips) \<Rightarrow>
        if \<not> Availability_Available (rsHealth snap) k then
          (cands, \<lparr>skProviderID = prID p, skKeyID = crID c, skModel = tgModelID t, skReason = SkipCooling\<rparr> # skips)
        else
          (\<lparr>cdProviderID = prID p, cdKeyID = crID c, cdModel = tgModelID t, cdKind = prKind p,
             cdPublisher = mdPublisher m, cdInferred = (\<not> cpKnown (mdCapabilities m))\<rparr> # cands, skips))"

definition filterTarget ::
    "target \<Rightarrow> Query \<Rightarrow> RouterSnapshot \<Rightarrow> (string, Provider) gomap \<Rightarrow> Candidate list \<times> Skip list \<times> bool" where
  "filterTarget t q snap byID =
     (case map_of byID (tgProviderID t) of
        None \<Rightarrow> ([], [skip_target t SkipDisabled], False)
      | Some p \<Rightarrow>
          (case rsLookup snap (tgProviderID t) (tgModelID t) of
             None \<Rightarrow> ([], [skip_target t SkipSurface], True)
           | Some m \<Rightarrow>
               if \<not> DeclaresSurface m (qySurface q) then ([], [skip_target t SkipSurface], True)
               else if \<not> Routable m then ([], [skip_target t SkipRemoved], True)
               else if Vetoed (mdFreeTier m) \<and> \<not> prAllowUnsanctionedFree p
                 then ([], [skip_target t SkipUnsanctioned], True)
               else if qySurface q \<noteq> '''' \<and>
                   (case map_of (rsAdapterSurfaces snap) (prKind p) of
                      None \<Rightarrow> False | Some ss \<Rightarrow> \<not> SurfaceSet_Has ss (qySurface q))
                 then ([], [skip_target t SkipAdapterSurface], True)
               else if \<not> Satisfies (mdCapabilities m)
                     \<lparr>cpTools = qyNeedsTools q, cpVision = qyNeedsVision q, cpReasoning = qyNeedsReasoning q, cpKnown = False\<rparr>
                 then ([], [skip_target t SkipCapability], True)
               else
                 let creds = orderCredentials (prID p) (prCredentials p) (rsLastUsed snap) in
                 if length creds = 0 \<and> \<not> Keyless p then ([], [skip_target t SkipNoCredential], True)
                 else
                   (case offer_credentials snap p m t (if length creds = 0 then [anonymous_credential] else creds) of
                      (cands, skips) \<Rightarrow> (cands, skips, True))))"

section \<open>Resolve\<close>

fun empty_scan :: "Skip list \<Rightarrow> bool \<times> bool \<times> bool \<times> bool \<Rightarrow> bool \<times> bool \<times> bool \<times> bool" where
  "empty_scan [] acc = acc"
| "empty_scan (s # ss) (allCooling, sawSurface, sawCapability, sawUnsanctioned) =
     empty_scan ss
       (case skReason s of
          SkipCooling \<Rightarrow> (allCooling, sawSurface, sawCapability, sawUnsanctioned)
        | SkipSurface \<Rightarrow> (False, True, sawCapability, sawUnsanctioned)
        | SkipAdapterSurface \<Rightarrow> (False, True, sawCapability, sawUnsanctioned)
        | SkipCapability \<Rightarrow> (False, sawSurface, True, sawUnsanctioned)
        | SkipUnsanctioned \<Rightarrow> (False, sawSurface, sawCapability, True)
        | _ \<Rightarrow> (False, sawSurface, sawCapability, sawUnsanctioned))"

definition emptyReason :: "Skip list \<Rightarrow> RouterError" where
  "emptyReason skips =
     (if length skips = 0 then ErrModelNotFound
      else case empty_scan skips (True, False, False, False) of
        (allCooling, sawSurface, sawCapability, sawUnsanctioned) \<Rightarrow>
          if allCooling then ErrAllCooling
          else if sawUnsanctioned then ErrUnsanctionedFree
          else if sawSurface then ErrSurfaceUnsupported
          else if sawCapability then ErrCapabilityUnsatisfied
          else ErrModelNotFound)"

definition by_id :: "Provider list \<Rightarrow> (string, Provider) gomap" where
  "by_id ps = fold (\<lambda>p m. AList.update (prID p) p m) ps []"

definition snap_aliases :: "RouterSnapshot \<Rightarrow> (string, string list) gomap" where
  "snap_aliases snap = (case rsAliases snap of None \<Rightarrow> [] | Some a \<Rightarrow> a)"

definition Resolve :: "Query \<Rightarrow> RouterSnapshot \<Rightarrow> Candidate list \<times> Skip list \<times> RouterError option" where
  "Resolve q snap =
     (let byID = by_id (rsProviders snap);
          providerIDs = map prID (rsProviders snap);
          targets = fst (resolveModel (qyModel q) (snap_aliases snap) providerIDs (rsOffering snap)) in
      if length targets = 0 then ([], [], Some ErrModelNotFound)
      else
        let results = map (\<lambda>t. filterTarget t q snap byID) targets;
            cands = concat (map fst results);
            skips = concat (map (\<lambda>r. fst (snd r)) results)
        in if length cands = 0 then ([], skips, Some (emptyReason skips)) else (cands, skips, None))"

definition MatchedAlias :: "string \<Rightarrow> RouterSnapshot \<Rightarrow> string" where
  "MatchedAlias model snap = (case rsAliases snap of None \<Rightarrow> '''' | Some a \<Rightarrow> aliasFor model a)"

section \<open>Facts\<close>

text \<open>The position of a credential in the order: never used first, then by last use, then by id.\<close>

definition lru_rank :: "string \<Rightarrow> (CredKey, time) gomap \<Rightarrow> Credential \<Rightarrow> bool \<times> time \<times> string" where
  "lru_rank pid lu c =
     (case map_of lu \<lparr>ckProvider = pid, ckKey = crID c\<rparr> of
        None \<Rightarrow> (False, 0, crID c)
      | Some t \<Rightarrow> (True, t, crID c))"

definition rank_less :: "bool \<times> time \<times> string \<Rightarrow> bool \<times> time \<times> string \<Rightarrow> bool" where
  "rank_less x y \<longleftrightarrow> (\<not> fst x \<and> fst y) \<or>
     (fst x = fst y \<and> (fst (snd x) < fst (snd y) \<or> (fst (snd x) = fst (snd y) \<and> snd (snd x) < snd (snd y))))"

lemma cred_before_rank: "cred_before pid lu a b \<longleftrightarrow> rank_less (lru_rank pid lu a) (lru_rank pid lu b)"
  by (auto simp: cred_before_def lru_rank_def rank_less_def split: option.splits)

lemma rank_less_linear:
  "\<not> rank_less x x" "rank_less x y \<Longrightarrow> rank_less y z \<Longrightarrow> rank_less x z"
  "\<not> rank_less x y \<Longrightarrow> \<not> rank_less y x \<Longrightarrow> x = y"
  by (cases x; cases y; cases z; auto simp: rank_less_def)+

interpretation cred_ord: strict_keyed "cred_before pid lu" crID for pid lu
proof
  fix x y z
  show "\<not> cred_before pid lu x x" by (simp add: cred_before_rank rank_less_linear)
  show "cred_before pid lu x y \<Longrightarrow> cred_before pid lu y z \<Longrightarrow> cred_before pid lu x z"
    unfolding cred_before_rank by (rule rank_less_linear)
  show "\<not> cred_before pid lu x y \<Longrightarrow> \<not> cred_before pid lu y z \<Longrightarrow> \<not> cred_before pid lu x z"
    unfolding cred_before_rank by (metis rank_less_linear(2,3))
  assume "\<not> cred_before pid lu x y" "\<not> cred_before pid lu y x"
  then have "lru_rank pid lu x = lru_rank pid lu y" unfolding cred_before_rank by (rule rank_less_linear)
  then show "crID x = crID y" by (auto simp: lru_rank_def split: option.splits)
qed

lemma set_orderCredentials [simp]: "set (orderCredentials pid cs lu) = set cs"
  "length (orderCredentials pid cs lu) = length cs"
  by (simp_all add: orderCredentials_def)

lemma map_of_by_id: "map_of (by_id ps) i = find (\<lambda>p. prID p = i) (rev ps)"
  unfolding by_id_def by (induction ps rule: rev_induct) auto

lemma by_id_Some: "map_of (by_id ps) i = Some p \<Longrightarrow> prID p = i \<and> p \<in> set ps"
  by (auto simp: map_of_by_id dest!: find_key)

definition candidate_of :: "Provider \<Rightarrow> Model \<Rightarrow> string \<Rightarrow> string \<Rightarrow> Candidate" where
  "candidate_of p m keyid modelid = \<lparr>cdProviderID = prID p, cdKeyID = keyid, cdModel = modelid, cdKind = prKind p,
     cdPublisher = mdPublisher m, cdInferred = (\<not> cpKnown (mdCapabilities m))\<rparr>"

definition cred_hkey :: "Provider \<Rightarrow> target \<Rightarrow> Credential \<Rightarrow> Key" where
  "cred_hkey p t c = \<lparr>hkProvider = prID p, hkKey = crID c, hkModel = tgModelID t\<rparr>"

lemma offer_credentials_eq:
  "offer_credentials snap p m t cs =
     (map (\<lambda>c. candidate_of p m (crID c) (tgModelID t))
        (filter (\<lambda>c. Availability_Available (rsHealth snap) (cred_hkey p t c)) cs),
      map (\<lambda>c. \<lparr>skProviderID = prID p, skKeyID = crID c, skModel = tgModelID t, skReason = SkipCooling\<rparr>)
        (filter (\<lambda>c. \<not> Availability_Available (rsHealth snap) (cred_hkey p t c)) cs))"
  by (induction cs) (simp_all add: Let_def candidate_of_def cred_hkey_def)

text \<open>The gates a provider's model has to pass, apart from health: what the configuration and the
  catalogue say.\<close>

definition gates :: "Query \<Rightarrow> RouterSnapshot \<Rightarrow> Provider \<Rightarrow> Model \<Rightarrow> bool" where
  "gates q snap p m \<longleftrightarrow> qySurface q \<in> set (mdSurfaces m) \<and> mdState m \<noteq> StateRemovedUpstream \<and>
     (Vetoed (mdFreeTier m) \<longrightarrow> prAllowUnsanctionedFree p) \<and>
     (qySurface q \<noteq> '''' \<longrightarrow> (\<forall>ss. map_of (rsAdapterSurfaces snap) (prKind p) = Some ss \<longrightarrow> SurfaceSet_Has ss (qySurface q))) \<and>
     (cpKnown (mdCapabilities m) \<longrightarrow>
        (qyNeedsTools q \<longrightarrow> cpTools (mdCapabilities m)) \<and> (qyNeedsVision q \<longrightarrow> cpVision (mdCapabilities m)) \<and>
        (qyNeedsReasoning q \<longrightarrow> cpReasoning (mdCapabilities m)))"

text \<open>The credentials a provider can be called with: its own, or the anonymous one of a keyless style.\<close>

definition usable :: "Provider \<Rightarrow> (CredKey, time) gomap \<Rightarrow> Credential list" where
  "usable p lu =
     (if prCredentials p = [] then (if Keyless p then [anonymous_credential] else [])
      else orderCredentials (prID p) (prCredentials p) lu)"

text \<open>Why a model of a configured provider is passed over, apart from health.\<close>

definition block_reason :: "Query \<Rightarrow> RouterSnapshot \<Rightarrow> Provider \<Rightarrow> Model \<Rightarrow> SkipReason option" where
  "block_reason q snap p m =
     (if \<not> DeclaresSurface m (qySurface q) then Some SkipSurface
      else if \<not> Routable m then Some SkipRemoved
      else if Vetoed (mdFreeTier m) \<and> \<not> prAllowUnsanctionedFree p then Some SkipUnsanctioned
      else if qySurface q \<noteq> '''' \<and> (case map_of (rsAdapterSurfaces snap) (prKind p) of
          None \<Rightarrow> False | Some ss \<Rightarrow> \<not> SurfaceSet_Has ss (qySurface q)) then Some SkipAdapterSurface
      else if \<not> Satisfies (mdCapabilities m)
          \<lparr>cpTools = qyNeedsTools q, cpVision = qyNeedsVision q, cpReasoning = qyNeedsReasoning q, cpKnown = False\<rparr>
        then Some SkipCapability
      else if usable p (rsLastUsed snap) = [] then Some SkipNoCredential else None)"

lemma orderCredentials_Nil [simp]: "orderCredentials pid cs lu = [] \<longleftrightarrow> cs = []"
  by (metis length_0_conv set_orderCredentials(2))

lemma filterTarget_eq:
  assumes "map_of byID (tgProviderID t) = Some p" "rsLookup snap (tgProviderID t) (tgModelID t) = Some m"
  shows "filterTarget t q snap byID =
    (case block_reason q snap p m of
       Some r \<Rightarrow> ([], [skip_target t r], True)
     | None \<Rightarrow> (case offer_credentials snap p m t (usable p (rsLastUsed snap)) of (cands, skips) \<Rightarrow> (cands, skips, True)))"
  unfolding filterTarget_def block_reason_def usable_def assms
  by (simp add: Let_def)

lemma Satisfies_iff: "Satisfies c need \<longleftrightarrow> (cpKnown c \<longrightarrow> (cpTools need \<longrightarrow> cpTools c) \<and>
    (cpVision need \<longrightarrow> cpVision c) \<and> (cpReasoning need \<longrightarrow> cpReasoning c))"
  by (simp add: Satisfies_def)

lemma block_reason_None:
  "block_reason q snap p m = None \<longleftrightarrow> gates q snap p m \<and> usable p (rsLastUsed snap) \<noteq> []"
  by (auto simp: block_reason_def gates_def DeclaresSurface_def Routable_def Satisfies_iff split: option.splits)

lemma block_reason_Some: "block_reason q snap p m = Some r \<Longrightarrow> r \<noteq> SkipCooling"
  by (auto simp: block_reason_def split: if_splits)

lemma filterTarget_cands:
  "fst (filterTarget t q snap byID) =
     (case map_of byID (tgProviderID t) of
        None \<Rightarrow> []
      | Some p \<Rightarrow> (case rsLookup snap (tgProviderID t) (tgModelID t) of
          None \<Rightarrow> []
        | Some m \<Rightarrow> if gates q snap p m
            then map (\<lambda>c. candidate_of p m (crID c) (tgModelID t))
              (filter (\<lambda>c. Availability_Available (rsHealth snap) (cred_hkey p t c)) (usable p (rsLastUsed snap)))
            else []))"
proof (cases "map_of byID (tgProviderID t)")
  case (Some p)
  show ?thesis
  proof (cases "rsLookup snap (tgProviderID t) (tgModelID t)")
    case (Some m)
    with \<open>map_of byID (tgProviderID t) = Some p\<close> show ?thesis
      using block_reason_None[of q snap p m]
      by (cases "block_reason q snap p m") (auto simp: filterTarget_eq offer_credentials_eq)
  qed (simp add: filterTarget_def Some)
qed (simp add: filterTarget_def)

lemma filterTarget_skips:
  assumes "map_of byID (tgProviderID t) = Some p" "rsLookup snap (tgProviderID t) (tgModelID t) = Some m"
    and "gates q snap p m" "usable p (rsLastUsed snap) \<noteq> []"
  shows "fst (snd (filterTarget t q snap byID)) =
    map (\<lambda>c. \<lparr>skProviderID = prID p, skKeyID = crID c, skModel = tgModelID t, skReason = SkipCooling\<rparr>)
      (filter (\<lambda>c. \<not> Availability_Available (rsHealth snap) (cred_hkey p t c)) (usable p (rsLastUsed snap)))"
  using assms block_reason_None[of q snap p m] by (simp add: filterTarget_eq offer_credentials_eq)

lemma filterTarget_blocked:
  assumes "map_of byID (tgProviderID t) = None \<or> rsLookup snap (tgProviderID t) (tgModelID t) = None \<or>
      (\<exists>p m. map_of byID (tgProviderID t) = Some p \<and> rsLookup snap (tgProviderID t) (tgModelID t) = Some m \<and>
         (\<not> gates q snap p m \<or> usable p (rsLastUsed snap) = []))"
  shows "\<exists>r. fst (snd (filterTarget t q snap byID)) = [skip_target t r] \<and> r \<noteq> SkipCooling"
proof -
  have "\<exists>r. fst (snd (filterTarget t q snap byID)) = [skip_target t r] \<and> r \<noteq> SkipCooling"
    if "map_of byID (tgProviderID t) = Some p" "rsLookup snap (tgProviderID t) (tgModelID t) = Some m"
      "\<not> (gates q snap p m \<and> usable p (rsLastUsed snap) \<noteq> [])" for p m
    using that block_reason_None[of q snap p m] block_reason_Some[of q snap p m]
    by (cases "block_reason q snap p m") (auto simp: filterTarget_eq)
  then show ?thesis
    using assms by (cases "map_of byID (tgProviderID t)"; cases "rsLookup snap (tgProviderID t) (tgModelID t)")
      (auto simp: filterTarget_def)
qed

definition targets_of :: "Query \<Rightarrow> RouterSnapshot \<Rightarrow> target list" where
  "targets_of q snap =
     fst (resolveModel (qyModel q) (snap_aliases snap) (map prID (rsProviders snap)) (rsOffering snap))"

lemma Resolve_cands:
  "fst (Resolve q snap) = concat (map (\<lambda>t. fst (filterTarget t q snap (by_id (rsProviders snap)))) (targets_of q snap))"
  by (auto simp: Resolve_def targets_of_def Let_def comp_def)

lemma Resolve_skips:
  "fst (snd (Resolve q snap)) =
     concat (map (\<lambda>t. fst (snd (filterTarget t q snap (by_id (rsProviders snap))))) (targets_of q snap))"
  by (auto simp: Resolve_def targets_of_def Let_def comp_def)

lemma empty_scan_eq:
  "empty_scan ss (a, b, c, d) =
     (a \<and> (\<forall>s \<in> set ss. skReason s = SkipCooling),
      b \<or> (\<exists>s \<in> set ss. skReason s = SkipSurface \<or> skReason s = SkipAdapterSurface),
      c \<or> (\<exists>s \<in> set ss. skReason s = SkipCapability),
      d \<or> (\<exists>s \<in> set ss. skReason s = SkipUnsanctioned))"
  by (induction ss arbitrary: a b c d) (auto split: SkipReason.splits)

text \<open>The reader's contract, as the router uses it: a name that is not addressed to one provider never
  resolves to a retired model, whatever else filters it.\<close>

context catalog_reader
begin

lemma bare_name_not_removed:
  assumes "invar r" "rsLookup snap = lookup r" "t \<in> set (map (\<lambda>pid. \<lparr>tgProviderID = pid, tgModelID = name\<rparr>) (offers r name))"
    and "s \<in> set (fst (snd (filterTarget t q snap byID)))"
  shows "skReason s \<noteq> SkipRemoved"
proof -
  obtain m where "lookup r (tgProviderID t) (tgModelID t) = Some m" "Routable m"
    using assms(1,3) offered_found by fastforce
  then show ?thesis
    using assms(2,4)
    by (cases "map_of byID (tgProviderID t)") (auto simp: filterTarget_eq, auto simp: filterTarget_def skip_target_def
        offer_credentials_eq block_reason_def split: option.splits if_splits)
qed

end

section \<open>Properties\<close>

lemma mem_filterTarget:
  "c \<in> set (fst (filterTarget t q snap byID)) \<longleftrightarrow>
     (\<exists>p m cr. map_of byID (tgProviderID t) = Some p \<and> rsLookup snap (tgProviderID t) (tgModelID t) = Some m \<and>
        gates q snap p m \<and> cr \<in> set (usable p (rsLastUsed snap)) \<and>
        Availability_Available (rsHealth snap) (cred_hkey p t cr) \<and> c = candidate_of p m (crID cr) (tgModelID t))"
  by (cases "map_of byID (tgProviderID t)"; cases "rsLookup snap (tgProviderID t) (tgModelID t)")
    (auto simp: filterTarget_cands)

text \<open>C9. Soundness and completeness of routing: a candidate is offered exactly when one of the query's
  targets names a configured provider whose catalogue record of the model serves the surface, is not
  retired, is sanctioned or opted into, is within what the adapter can serve and has the capabilities
  the request needs, the candidate's credential is one the provider can be called with, and the breaker's
  frozen view has it available.\<close>

theorem resolve_exact:
  "c \<in> set (fst (Resolve q snap)) \<longleftrightarrow>
     (\<exists>t p m cr. t \<in> set (targets_of q snap) \<and>
        map_of (by_id (rsProviders snap)) (tgProviderID t) = Some p \<and>
        rsLookup snap (tgProviderID t) (tgModelID t) = Some m \<and> gates q snap p m \<and>
        cr \<in> set (usable p (rsLastUsed snap)) \<and>
        Availability_Available (rsHealth snap) (cred_hkey p t cr) \<and>
        c = candidate_of p m (crID cr) (tgModelID t))"
  unfolding Resolve_cands by (simp add: mem_filterTarget) blast

text \<open>Nothing is passed over silently: every target of the query is accounted for by a candidate or by a
  skip that names it, and where its gates are open every credential of its provider is one or the other.\<close>

theorem resolve_trace_complete:
  assumes "t \<in> set (targets_of q snap)" "Resolve q snap = (cands, skips, err)"
  shows "((\<exists>c \<in> set cands. cdProviderID c = tgProviderID t \<and> cdModel c = tgModelID t) \<or>
      (\<exists>s \<in> set skips. skProviderID s = tgProviderID t \<and> skModel s = tgModelID t)) \<and>
    (\<forall>p m cr. map_of (by_id (rsProviders snap)) (tgProviderID t) = Some p \<and>
       rsLookup snap (tgProviderID t) (tgModelID t) = Some m \<and> gates q snap p m \<and> cr \<in> set (prCredentials p) \<longrightarrow>
       candidate_of p m (crID cr) (tgModelID t) \<in> set cands \<or>
       \<lparr>skProviderID = prID p, skKeyID = crID cr, skModel = tgModelID t, skReason = SkipCooling\<rparr> \<in> set skips)"
proof -
  let ?byID = "by_id (rsProviders snap)"
  have c: "set (fst (filterTarget t q snap ?byID)) \<subseteq> set cands"
    and s: "set (fst (snd (filterTarget t q snap ?byID))) \<subseteq> set skips"
    using assms Resolve_cands[of q snap] Resolve_skips[of q snap] by auto
  have open_gates: "candidate_of p m (crID cr) (tgModelID t) \<in> set cands \<or>
       \<lparr>skProviderID = prID p, skKeyID = crID cr, skModel = tgModelID t, skReason = SkipCooling\<rparr> \<in> set skips"
    if "map_of ?byID (tgProviderID t) = Some p" "rsLookup snap (tgProviderID t) (tgModelID t) = Some m"
      "gates q snap p m" "cr \<in> set (usable p (rsLastUsed snap))" for p m cr
    using that c s filterTarget_skips[OF that(1-3)] filterTarget_cands[of t q snap ?byID]
    by (cases "Availability_Available (rsHealth snap) (cred_hkey p t cr)") fastforce+
  have "cr \<in> set (usable p (rsLastUsed snap))" if "cr \<in> set (prCredentials p)" for cr p
    using that by (auto simp: usable_def)
  moreover have "(\<exists>c \<in> set cands. cdProviderID c = tgProviderID t \<and> cdModel c = tgModelID t) \<or>
      (\<exists>s \<in> set skips. skProviderID s = tgProviderID t \<and> skModel s = tgModelID t)"
  proof (cases "\<exists>p m cr. map_of ?byID (tgProviderID t) = Some p \<and> rsLookup snap (tgProviderID t) (tgModelID t) = Some m \<and>
      gates q snap p m \<and> cr \<in> set (usable p (rsLastUsed snap))")
    case True
    then obtain p m cr where h: "map_of ?byID (tgProviderID t) = Some p" "rsLookup snap (tgProviderID t) (tgModelID t) = Some m"
      "gates q snap p m" "cr \<in> set (usable p (rsLastUsed snap))" by blast
    show ?thesis using open_gates[OF h] by_id_Some[OF h(1)] by (force simp: candidate_of_def)
  next
    case False
    then have "map_of ?byID (tgProviderID t) = None \<or> rsLookup snap (tgProviderID t) (tgModelID t) = None \<or>
      (\<exists>p m. map_of ?byID (tgProviderID t) = Some p \<and> rsLookup snap (tgProviderID t) (tgModelID t) = Some m \<and>
         (\<not> gates q snap p m \<or> usable p (rsLastUsed snap) = []))"
      by (metis list.set_intros(1) neq_Nil_conv option.exhaust)
    from filterTarget_blocked[OF this] show ?thesis using s by (force simp: skip_target_def)
  qed
  ultimately show ?thesis using open_gates by blast
qed

text \<open>The error tells the caller what happened. There is an error exactly when there is no candidate; all
  cooling is reported only when cooling is the whole story and it always is then; otherwise an unsanctioned
  free tier, then a missing surface, then a missing capability is named, whichever was seen first in that
  order of precedence, and an unknown model only when nothing else was.\<close>

theorem resolve_error_exact:
  assumes "Resolve q snap = (cands, skips, err)"
  shows "(err = None \<longleftrightarrow> cands \<noteq> []) \<and>
    (err = Some ErrAllCooling \<longleftrightarrow> cands = [] \<and> skips \<noteq> [] \<and> (\<forall>s \<in> set skips. skReason s = SkipCooling)) \<and>
    (err = Some ErrUnsanctionedFree \<longleftrightarrow> cands = [] \<and> (\<exists>s \<in> set skips. skReason s = SkipUnsanctioned)) \<and>
    (err = Some ErrSurfaceUnsupported \<longleftrightarrow> cands = [] \<and>
       (\<exists>s \<in> set skips. skReason s \<in> {SkipSurface, SkipAdapterSurface}) \<and> (\<forall>s \<in> set skips. skReason s \<noteq> SkipUnsanctioned)) \<and>
    (err = Some ErrCapabilityUnsatisfied \<longleftrightarrow> cands = [] \<and> (\<exists>s \<in> set skips. skReason s = SkipCapability) \<and>
       (\<forall>s \<in> set skips. skReason s \<notin> {SkipUnsanctioned, SkipSurface, SkipAdapterSurface}))"
proof -
  have err: "err = (if cands \<noteq> [] then None else Some (emptyReason skips))"
    using assms by (auto simp: Resolve_def Let_def emptyReason_def split: if_splits)
  have "emptyReason skips = ErrAllCooling \<longleftrightarrow> skips \<noteq> [] \<and> (\<forall>s \<in> set skips. skReason s = SkipCooling)"
    "emptyReason skips = ErrUnsanctionedFree \<longleftrightarrow> (\<exists>s \<in> set skips. skReason s = SkipUnsanctioned)"
    "emptyReason skips = ErrSurfaceUnsupported \<longleftrightarrow>
       (\<exists>s \<in> set skips. skReason s \<in> {SkipSurface, SkipAdapterSurface}) \<and> (\<forall>s \<in> set skips. skReason s \<noteq> SkipUnsanctioned)"
    "emptyReason skips = ErrCapabilityUnsatisfied \<longleftrightarrow> (\<exists>s \<in> set skips. skReason s = SkipCapability) \<and>
       (\<forall>s \<in> set skips. skReason s \<notin> {SkipUnsanctioned, SkipSurface, SkipAdapterSurface})"
    by (auto simp: emptyReason_def empty_scan_eq split: if_splits)
  then show ?thesis unfolding err by auto
qed

text \<open>Credentials are tried least recently used first: the order is a rearrangement of the provider's
  credentials, sorted by never-used first, then oldest use, then id, and it depends on the set of
  credentials and the clock only, never on the order they were loaded in.\<close>

theorem credentials_lru:
  assumes "distinct (map crID cs)" "mset cs = mset cs'"
  shows "orderCredentials pid cs lu = orderCredentials pid cs' lu \<and> mset (orderCredentials pid cs lu) = mset cs \<and>
    sorted_wrt (\<lambda>a b. \<not> rank_less (lru_rank pid lu b) (lru_rank pid lu a)) (orderCredentials pid cs lu)"
  using cred_ord.SliceStable_perm[OF assms(2,1)] cred_ord.sorted_SliceStable[of pid lu cs] assms(2)
  by (simp add: orderCredentials_def cred_before_rank[abs_def])

definition demo_cred :: "string \<Rightarrow> Credential" where
  "demo_cred i = anonymous_credential\<lparr>crID := i\<rparr>"

theorem credentials_lru_witness:
  "orderCredentials ''p'' [demo_cred ''a'', demo_cred ''b'', demo_cred ''c''] [(\<lparr>ckProvider = ''p'', ckKey = ''a''\<rparr>, 5)] =
   orderCredentials ''p'' [demo_cred ''c'', demo_cred ''a'', demo_cred ''b''] [(\<lparr>ckProvider = ''p'', ckKey = ''a''\<rparr>, 5)] \<and>
   map crID (orderCredentials ''p'' [demo_cred ''a'', demo_cred ''b'', demo_cred ''c'']
     [(\<lparr>ckProvider = ''p'', ckKey = ''a''\<rparr>, 5)]) = [''b'', ''c'', ''a'']"
proof
  have "distinct (map crID [demo_cred ''a'', demo_cred ''b'', demo_cred ''c''])" by code_simp
  moreover have "mset [demo_cred ''a'', demo_cred ''b'', demo_cred ''c''] = mset [demo_cred ''c'', demo_cred ''a'', demo_cred ''b'']"
    by simp
  ultimately show "orderCredentials ''p'' [demo_cred ''a'', demo_cred ''b'', demo_cred ''c''] [(\<lparr>ckProvider = ''p'', ckKey = ''a''\<rparr>, 5)] =
    orderCredentials ''p'' [demo_cred ''c'', demo_cred ''a'', demo_cred ''b''] [(\<lparr>ckProvider = ''p'', ckKey = ''a''\<rparr>, 5)]"
    using credentials_lru by blast
  show "map crID (orderCredentials ''p'' [demo_cred ''a'', demo_cred ''b'', demo_cred ''c'']
     [(\<lparr>ckProvider = ''p'', ckKey = ''a''\<rparr>, 5)]) = [''b'', ''c'', ''a'']" by code_simp
qed

text \<open>A small fleet for the examples: one provider with two keys, the first cooling, and one keyless provider
  that offers the model on an unsanctioned tier.\<close>

definition demo_provider :: Provider where
  "demo_provider = \<lparr>prID = ''openai'', prKind = ''openaicompat'', prBaseURL = '''', prPreset = '''', prAuthStyle = ''bearer'',
     prCredentials = [demo_cred ''k1'', demo_cred ''k2''], prPriority = 0, prModels = [''gpt-4o''], prRegion = '''',
     prProject = '''', prLocation = '''', prFreeModelsOnly = False, prAllowUnsanctionedFree = False\<rparr>"

definition demo_index :: reader_index where
  "demo_index = FromProviders [demo_provider]"

definition demo_snap :: "RouterSnapshot" where
  "demo_snap = \<lparr>rsAt = 200, rsProviders = [demo_provider], rsLookup = Lookup demo_index, rsOffering = Offering demo_index,
     rsAliases = Some [(''fast'', [''gpt-4o'', ''missing''])], rsHealth = SnapshotAvailability demo_tripped 200,
     rsLastUsed = [], rsAdapterSurfaces = []\<rparr>"

definition demo_query :: "string \<Rightarrow> Query" where
  "demo_query name = \<lparr>qyModel = name, qySurface = SurfaceLLM, qyNeedsTools = True, qyNeedsVision = False, qyNeedsReasoning = False\<rparr>"

definition demo_candidate :: Candidate where
  "demo_candidate = \<lparr>cdProviderID = ''openai'', cdKeyID = ''k2'', cdModel = ''gpt-4o'', cdKind = ''openaicompat'',
     cdPublisher = '''', cdInferred = True\<rparr>"

lemma demo_resolve:
  "Resolve (demo_query ''fast'') demo_snap =
     ([demo_candidate], [\<lparr>skProviderID = ''openai'', skKeyID = ''k1'', skModel = ''gpt-4o'', skReason = SkipCooling\<rparr>], None)"
  by code_simp

lemma demo_targets:
  "targets_of (demo_query ''fast'') demo_snap = [\<lparr>tgProviderID = ''openai'', tgModelID = ''gpt-4o''\<rparr>]"
  by code_simp

theorem resolve_trace_complete_witness:
  "\<exists>c \<in> set [demo_candidate]. cdProviderID c = ''openai'' \<and> cdModel c = ''gpt-4o''"
  using resolve_trace_complete[of "\<lparr>tgProviderID = ''openai'', tgModelID = ''gpt-4o''\<rparr>", OF _ demo_resolve]
  by (simp add: demo_targets demo_candidate_def)

theorem resolve_error_exact_witness:
  "snd (snd (Resolve (demo_query ''gpt-4o'')
     (demo_snap\<lparr>rsProviders := [demo_provider\<lparr>prCredentials := [demo_cred ''k1'']\<rparr>]\<rparr>))) = Some ErrAllCooling"
proof -
  let ?r = "Resolve (demo_query ''gpt-4o'') (demo_snap\<lparr>rsProviders := [demo_provider\<lparr>prCredentials := [demo_cred ''k1'']\<rparr>]\<rparr>)"
  have "fst ?r = []" by code_simp
  moreover have "fst (snd ?r) = [\<lparr>skProviderID = ''openai'', skKeyID = ''k1'', skModel = ''gpt-4o'', skReason = SkipCooling\<rparr>]"
    by code_simp
  moreover have "?r = (fst ?r, fst (snd ?r), snd (snd ?r))" by simp
  note resolve_error_exact[OF this]
  ultimately show ?thesis by simp
qed

text \<open>A bare model name never resolves to a retired model: for the catalogue snapshot, and for the reader
  built from the fleet alone, no skip of a target that came from the offering gives removed upstream as its
  reason, so a retired row can only be met when the client addresses the provider by name.\<close>

theorem bare_name_never_removed:
  assumes "snapshot_inv r" "rsLookup snap = Lookup r" "rsOffering snap = Offering r" "snap_aliases snap = []"
    and "Cut (CHR ''/'') (qyModel q) = None"
    and "s \<in> set (fst (snd (Resolve q snap)))"
  shows "skReason s \<noteq> SkipRemoved"
proof -
  have "targets_of q snap = map (\<lambda>pid. \<lparr>tgProviderID = pid, tgModelID = qyModel q\<rparr>) (Offering r (qyModel q))"
    using assms(3-5) by (simp add: targets_of_def resolveModel_def aliasFor_def resolveDirect_def)
  then obtain t where "t \<in> set (map (\<lambda>pid. \<lparr>tgProviderID = pid, tgModelID = qyModel q\<rparr>) (Offering r (qyModel q)))"
    "s \<in> set (fst (snd (filterTarget t q snap (by_id (rsProviders snap)))))"
    using assms(6) by (auto simp: Resolve_skips)
  then show ?thesis by (rule snap.bare_name_not_removed[OF assms(1,2)])
qed

definition demo_snapshot :: CatSnapshot where
  "demo_snapshot = NewSnapshot [demo_model ''openai'' ''gpt-4o'' StateRemovedUpstream, demo_model ''other'' ''gpt-4o'' StateLive] [''openai'', ''other'']"

theorem bare_name_never_removed_witness:
  "fst (snd (Resolve (demo_query ''gpt-4o'')
     (demo_snap\<lparr>rsLookup := Lookup demo_snapshot, rsOffering := Offering demo_snapshot, rsAliases := None\<rparr>))) =
     [skip_target \<lparr>tgProviderID = ''other'', tgModelID = ''gpt-4o''\<rparr> SkipDisabled] \<and>
   skReason (skip_target \<lparr>tgProviderID = ''other'', tgModelID = ''gpt-4o''\<rparr> SkipDisabled) \<noteq> SkipRemoved"
proof -
  let ?snap = "demo_snap\<lparr>rsLookup := Lookup demo_snapshot, rsOffering := Offering demo_snapshot, rsAliases := None\<rparr>"
  have "distinct (map model_key [demo_model ''openai'' ''gpt-4o'' StateRemovedUpstream, demo_model ''other'' ''gpt-4o'' StateLive])"
    by code_simp
  then have inv: "snapshot_inv demo_snapshot" unfolding snapshot_inv_def demo_snapshot_def by blast
  have cut: "Cut (CHR ''/'') (qyModel (demo_query ''gpt-4o'')) = None" by code_simp
  have r: "fst (snd (Resolve (demo_query ''gpt-4o'') ?snap)) =
      [skip_target \<lparr>tgProviderID = ''other'', tgModelID = ''gpt-4o''\<rparr> SkipDisabled]" by code_simp
  have "skReason (skip_target \<lparr>tgProviderID = ''other'', tgModelID = ''gpt-4o''\<rparr> SkipDisabled) \<noteq> SkipRemoved"
    by (rule bare_name_never_removed[OF inv _ _ _ cut, of ?snap]) (simp_all add: snap_aliases_def r)
  with r show ?thesis by blast
qed

end
