(* ===== verification/Records.thy ===== *)
theory Records
  imports Router
begin

text \<open>
  The executor's vocabulary, \<^verbatim>\<open>internal/exec\<close>: the request and attempt rows of \<^verbatim>\<open>internal/store/log.go\<close> that a
  request fills as it proceeds, the timeout budget of \<^verbatim>\<open>deadline.go\<close>, the advance rule of \<^verbatim>\<open>advance.go\<close>, and
  the classification, accounting, pricing and credential helpers of \<^verbatim>\<open>exec.go\<close>.

  A Go \<^verbatim>\<open>error\<close> is what the executor reads of one: its text, the \<^verbatim>\<open>*ir.Error\<close> that \<^verbatim>\<open>errors.As\<close> finds in its
  chain, and whether \<^verbatim>\<open>errors.Is\<close> finds \<^verbatim>\<open>errClientWrite\<close> there.
\<close>

section \<open>Rows\<close>

record AttemptRecord =
  arSeq :: nat
  arProviderID :: string
  arKeyID :: string
  arModel :: string
  arOutcome :: string
  arStatusCode :: int
  arLatencyMs :: int
  arError :: string
  arPath :: string
  arTokensIn :: int
  arTokensOut :: int
  arCostMicros :: "int option"
  arPriceGrade :: "Grade option"

record RequestRecord =
  rrID :: string
  rrTS :: time
  rrDialect :: string
  rrSurface :: string
  rrRequestedModel :: string
  rrResolvedAlias :: string
  rrCandidates :: "string list"
  rrSkips :: "string list"
  rrFinalProviderID :: string
  rrFinalModel :: string
  rrStatus :: string
  rrTokensIn :: int
  rrTokensOut :: int
  rrCacheReadTokens :: int
  rrCacheWriteTokens :: int
  rrReasoningTokens :: int
  rrCacheWrite5mTokens :: int
  rrCacheWrite1hTokens :: int
  rrCostMicros :: "int option"
  rrPriceGrade :: "Grade option"
  rrTTFTMs :: "int option"
  rrTotalMs :: "int option"
  rrErrorCode :: string
  rrWarnings :: "string list"
  rrSource :: string
  rrAttempts :: "AttemptRecord list"

text \<open>\<^verbatim>\<open>newRecord\<close>: the row starts as an error, so an exit that forgets to say otherwise is a failure.\<close>

definition newRecord :: "string \<Rightarrow> time \<Rightarrow> string \<Rightarrow> string \<Rightarrow> string \<Rightarrow> RequestRecord" where
  "newRecord rid start dialect surface source =
     \<lparr>rrID = rid, rrTS = start, rrDialect = dialect, rrSurface = surface, rrRequestedModel = '''',
      rrResolvedAlias = '''', rrCandidates = [], rrSkips = [], rrFinalProviderID = '''', rrFinalModel = '''',
      rrStatus = ''error'', rrTokensIn = 0, rrTokensOut = 0, rrCacheReadTokens = 0, rrCacheWriteTokens = 0,
      rrReasoningTokens = 0, rrCacheWrite5mTokens = 0, rrCacheWrite1hTokens = 0, rrCostMicros = None,
      rrPriceGrade = None, rrTTFTMs = None, rrTotalMs = None, rrErrorCode = '''', rrWarnings = [],
      rrSource = source, rrAttempts = []\<rparr>"

section \<open>Errors\<close>

record go_error =
  geText :: string
  geIR :: "Error option"
  geClientWrite :: bool

definition plain_error :: "string \<Rightarrow> go_error" where
  "plain_error msg = \<lparr>geText = msg, geIR = None, geClientWrite = False\<rparr>"

definition of_ir_error :: "Error \<Rightarrow> go_error" where
  "of_ir_error e = \<lparr>geText = Error_Error e, geIR = Some e, geClientWrite = False\<rparr>"

text \<open>\<^verbatim>\<open>fmt.Errorf("%s: %w", msg, err)\<close>.\<close>

definition wrap_error :: "string \<Rightarrow> go_error \<Rightarrow> go_error" where
  "wrap_error msg e = e\<lparr>geText := msg @ '': '' @ geText e\<rparr>"

text \<open>\<^verbatim>\<open>%q\<close> on a string with nothing to escape.\<close>

definition quoted :: "string \<Rightarrow> string" where
  "quoted s = CHR 0x22 # s @ [CHR 0x22]"

definition outcomeForParseError :: "go_error \<Rightarrow> Outcome" where
  "outcomeForParseError err =
     (case geIR err of
        None \<Rightarrow> OutcomeRetryableProvider
      | Some e \<Rightarrow>
          (if errType e \<in> {ErrContentFilter, ErrInvalidRequest, ErrPayloadTooLarge, ErrUnsupportedMedia} then OutcomeFatal
           else if errType e \<in> {ErrAuthentication, ErrPermission} then OutcomeRetryableCredential
           else if errType e = ErrNotFound then OutcomeRetryableModel
           else OutcomeRetryableProvider))"

definition statusForParseError :: "go_error option \<Rightarrow> int" where
  "statusForParseError err =
     (case err of
        None \<Rightarrow> 0
      | Some ge \<Rightarrow> (case geIR ge of Some e \<Rightarrow> if errType e = ErrRateLimit then 429 else 0 | None \<Rightarrow> 0))"

definition withStatus :: "Response option \<Rightarrow> int \<Rightarrow> Response option" where
  "withStatus resp status =
     (case resp of
        None \<Rightarrow> None
      | Some r \<Rightarrow> if status = 0 then Some r else Some (r\<lparr>StatusCode := status\<rparr>))"

definition errorFor :: "Outcome \<Rightarrow> go_error option \<Rightarrow> Error" where
  "errorFor oc err =
     (let msg = (case err of None \<Rightarrow> ''upstream request failed'' | Some e \<Rightarrow> geText e) in
      case oc of
        OutcomeRetryableCredential \<Rightarrow> mk_error ErrAuthentication ''upstream rejected the credential''
      | OutcomeRetryableModel \<Rightarrow> mk_error ErrNotFound ''upstream does not serve this model''
      | OutcomeFatal \<Rightarrow> mk_error ErrInvalidRequest msg
      | OutcomeClientCancelled \<Rightarrow> mk_error ErrDarkrouter ''client cancelled the request''
      | _ \<Rightarrow> mk_error ErrAPI msg)"

definition routerError :: "RouterError \<Rightarrow> Error" where
  "routerError e =
     (case e of
        ErrModelNotFound \<Rightarrow> mk_error ErrNotFound ''no configured provider offers this model''
      | ErrSurfaceUnsupported \<Rightarrow> mk_error ErrNotFound ''no configured provider offers this model on this surface''
      | ErrAllCooling \<Rightarrow> mk_error ErrAPI ''every provider offering this model is cooling''
      | ErrCapabilityUnsatisfied \<Rightarrow>
          mk_error ErrInvalidRequest ''no provider offering this model has the required capabilities''
      | ErrUnsanctionedFree \<Rightarrow>
          mk_error ErrDarkrouter (''this model is only offered on a free tier the vendor has not sanctioned; '' @
            ''set allow_unsanctioned_free on the provider to route to it''))"

text \<open>What a cancelled context tells: \<open>ctxTimeout\<close> that the attempt's own timer fired, \<open>ctxDone\<close> that the
  inbound request is over, \<open>ctxCanceled\<close> that it was cancelled, \<open>ctxShutdown\<close> that the gateway cancelled it.\<close>

record ctx_view =
  ctxTimeout :: bool
  ctxDone :: bool
  ctxCanceled :: bool
  ctxShutdown :: bool

definition stoppedWaiting :: "ctx_view \<Rightarrow> Outcome option" where
  "stoppedWaiting cx =
     (if ctxTimeout cx then Some OutcomeRetryableProvider
      else if ctxDone cx then Some OutcomeClientCancelled
      else None)"

text \<open>An adapter, as the executor's loop uses one: its status classifier, its body classifier if it has one.\<close>

record adapter_ops =
  adClassify :: "Response option \<Rightarrow> bool \<Rightarrow> Outcome"
  adClassifyBody :: "(Response option \<Rightarrow> string \<Rightarrow> bool \<Rightarrow> Outcome) option"

definition classify :: "adapter_ops \<Rightarrow> ctx_view \<Rightarrow> Response option \<Rightarrow> go_error option \<Rightarrow> Outcome" where
  "classify ad cx resp err =
     (case err of
        None \<Rightarrow> adClassify ad resp False
      | Some _ \<Rightarrow>
          if ctxTimeout cx then OutcomeRetryableProvider
          else if ctxCanceled cx then OutcomeClientCancelled
          else adClassify ad resp True)"

definition readOutcome :: "ctx_view \<Rightarrow> go_error \<Rightarrow> Outcome" where
  "readOutcome cx err =
     (if geClientWrite err then OutcomeClientCancelled
      else if ctxTimeout cx then OutcomeRetryableProvider
      else if ctxCanceled cx then OutcomeClientCancelled
      else outcomeForParseError err)"

definition shutdownError :: Error where
  "shutdownError = mk_error ErrDarkrouter ''gateway is shutting down''"

section \<open>The budget\<close>

record TimeoutConfig =
  tcConnect :: duration
  tcFirstByte :: duration
  tcTotal :: duration
  tcIdle :: duration

record budget =
  buDeadline :: time
  buPerTry :: duration

definition newBudget :: "TimeoutConfig \<Rightarrow> time \<Rightarrow> budget" where
  "newBudget t start = \<lparr>buDeadline = start + tcTotal t, buPerTry = wrap64 (tcConnect t + tcFirstByte t)\<rparr>"

definition remaining :: "budget \<Rightarrow> time \<Rightarrow> duration" where
  "remaining b now = (let d = time_sub (buDeadline b) now in if d < 0 then 0 else d)"

definition canStartAttempt :: "budget \<Rightarrow> time \<Rightarrow> bool" where
  "canStartAttempt b now = (remaining b now \<ge> buPerTry b)"

definition attemptDeadline :: "budget \<Rightarrow> time \<Rightarrow> time" where
  "attemptDeadline b now = (let byTry = now + buPerTry b in if byTry > buDeadline b then buDeadline b else byTry)"

section \<open>Advancing\<close>

datatype advanceAction = actionFinish | actionReturn | actionNext

function skip_from :: "Candidate list \<Rightarrow> Candidate \<Rightarrow> nat \<Rightarrow> nat" where
  "skip_from cands c j =
     (if j < length cands \<and> cdProviderID (cands ! j) = cdProviderID c \<and> cdModel (cands ! j) = cdModel c
      then skip_from cands c (Suc j) else j)"
  by pat_completeness auto
termination by (relation "measure (\<lambda>(cands, c, j). length cands - j)") auto

declare skip_from.simps [simp del]

definition skipTarget :: "Candidate list \<Rightarrow> nat \<Rightarrow> nat" where
  "skipTarget cands i = (if i \<ge> length cands then i else skip_from cands (cands ! i) (i + 1))"

definition nextIndex :: "Candidate list \<Rightarrow> nat \<Rightarrow> Outcome \<Rightarrow> int \<Rightarrow> nat \<times> advanceAction" where
  "nextIndex cands i oc statusCode =
     (case oc of
        OutcomeSuccess \<Rightarrow> (i, actionFinish)
      | OutcomeFatal \<Rightarrow> (i, actionReturn)
      | OutcomeClientCancelled \<Rightarrow> (i, actionReturn)
      | OutcomeRetryableCredential \<Rightarrow> (i + 1, actionNext)
      | OutcomeRetryableModel \<Rightarrow> (i + 1, actionNext)
      | OutcomeRetryableProvider \<Rightarrow>
          if statusCode = 429 then (i + 1, actionNext) else (skipTarget cands i, actionNext))"

definition traceSkipOf :: "Candidate \<Rightarrow> string \<Rightarrow> string" where
  "traceSkipOf c reason = cdProviderID c @ ''/'' @ cdKeyID c @ ''/'' @ cdModel c @ '':'' @ reason"

definition advanceSkips :: "Candidate list \<Rightarrow> nat \<Rightarrow> nat \<Rightarrow> string list" where
  "advanceSkips cands i next0 =
     (let next = (if next0 > length cands then length cands else next0) in
      map (\<lambda>j. traceSkipOf (cands ! j) ''target_failed'') [i + 1 ..< next])"

definition traceCandidates :: "Candidate list \<Rightarrow> string list" where
  "traceCandidates cs = map (\<lambda>c. cdProviderID c @ ''/'' @ cdKeyID c @ ''/'' @ cdModel c) cs"

fun SkipReason_string :: "SkipReason \<Rightarrow> string" where
  "SkipReason_string SkipDisabled = ''disabled''"
| "SkipReason_string SkipCooling = ''cooling''"
| "SkipReason_string SkipSurface = ''surface''"
| "SkipReason_string SkipCapability = ''capability''"
| "SkipReason_string SkipNoCredential = ''no_credential''"
| "SkipReason_string SkipRemoved = ''removed_upstream''"
| "SkipReason_string SkipAdapterSurface = ''adapter_surface''"
| "SkipReason_string SkipUnsanctioned = ''unsanctioned''"

definition traceSkips :: "Skip list \<Rightarrow> string list" where
  "traceSkips ss =
     map (\<lambda>s. skProviderID s @ ''/'' @ skKeyID s @ ''/'' @ skModel s @ '':'' @ SkipReason_string (skReason s)) ss"

section \<open>Accounting\<close>

definition applyUsage :: "RequestRecord \<Rightarrow> Usage option \<Rightarrow> RequestRecord" where
  "applyUsage rec u =
     (case u of
        None \<Rightarrow> rec
      | Some x \<Rightarrow> rec\<lparr>rrTokensIn := InputTokens x, rrTokensOut := OutputTokens x,
          rrCacheReadTokens := CacheReadTokens x, rrCacheWriteTokens := CacheWriteTokens x,
          rrReasoningTokens := ReasoningTokens x, rrCacheWrite5mTokens := CacheWrite5mTokens x,
          rrCacheWrite1hTokens := CacheWrite1hTokens x\<rparr>)"

definition mergeUsage :: "Usage \<Rightarrow> Usage option \<Rightarrow> Usage" where
  "mergeUsage dst u =
     (case u of
        None \<Rightarrow> dst
      | Some x \<Rightarrow>
          dst\<lparr>InputTokens := (if InputTokens x > 0 then InputTokens x else InputTokens dst),
             OutputTokens := (if OutputTokens x > 0 then OutputTokens x else OutputTokens dst),
             CacheReadTokens := (if CacheReadTokens x > 0 then CacheReadTokens x else CacheReadTokens dst),
             CacheWriteTokens := (if CacheWriteTokens x > 0 then CacheWriteTokens x else CacheWriteTokens dst),
             CacheWrite5mTokens := (if CacheWrite5mTokens x > 0 then CacheWrite5mTokens x else CacheWrite5mTokens dst),
             CacheWrite1hTokens := (if CacheWrite1hTokens x > 0 then CacheWrite1hTokens x else CacheWrite1hTokens dst),
             ReasoningTokens := (if ReasoningTokens x > 0 then ReasoningTokens x else ReasoningTokens dst)\<rparr>)"

definition recordAttempt ::
    "RequestRecord \<Rightarrow> Candidate \<Rightarrow> Outcome \<Rightarrow> int \<Rightarrow> go_error option \<Rightarrow> duration \<Rightarrow> string \<Rightarrow> RequestRecord" where
  "recordAttempt rec c oc statusCode err latency path =
     rec\<lparr>rrAttempts := rrAttempts rec @
       [\<lparr>arSeq = length (rrAttempts rec), arProviderID = cdProviderID c, arKeyID = cdKeyID c, arModel = cdModel c,
         arOutcome = Outcome_string oc, arStatusCode = statusCode, arLatencyMs = go_div latency 1000000,
         arError = (case err of None \<Rightarrow> '''' | Some e \<Rightarrow> geText e), arPath = path,
         arTokensIn = 0, arTokensOut = 0, arCostMicros = None, arPriceGrade = None\<rparr>]\<rparr>"

text \<open>\<open>rec.Attempts[n-1]\<close> is written only when there is one.\<close>

definition map_last :: "('a \<Rightarrow> 'a) \<Rightarrow> 'a list \<Rightarrow> 'a list" where
  "map_last f xs = (if xs = [] then [] else butlast xs @ [f (last xs)])"

definition on_last :: "(AttemptRecord \<Rightarrow> AttemptRecord) \<Rightarrow> RequestRecord \<Rightarrow> RequestRecord" where
  "on_last f rec = rec\<lparr>rrAttempts := map_last f (rrAttempts rec)\<rparr>"

definition demoteLastAttempt :: "RequestRecord \<Rightarrow> Outcome \<Rightarrow> bool \<Rightarrow> RequestRecord" where
  "demoteLastAttempt rec outcome committed =
     (if committed \<or> outcome = OutcomeSuccess then rec
      else if length (rrAttempts rec) = 0 then rec
      else
        let a = last (rrAttempts rec);
            rec1 = on_last (\<lambda>x. x\<lparr>arOutcome := Outcome_string outcome\<rparr>) rec
        in if arTokensIn a \<noteq> 0 \<or> arTokensOut a \<noteq> 0 then rec1
           else if rrTokensIn rec = 0 \<and> rrTokensOut rec = 0 \<and> rrCacheReadTokens rec = 0 \<and>
                   rrCacheWriteTokens rec = 0 \<and> rrReasoningTokens rec = 0 then rec1
           else (on_last (\<lambda>x. x\<lparr>arTokensIn := rrTokensIn rec, arTokensOut := rrTokensOut rec\<rparr>) rec1)
             \<lparr>rrTokensIn := 0, rrTokensOut := 0, rrCacheReadTokens := 0, rrCacheWriteTokens := 0, rrReasoningTokens := 0\<rparr>)"

section \<open>Pricing a finished request\<close>

definition burned :: "RequestRecord \<Rightarrow> bool" where
  "burned rec \<longleftrightarrow> rrTokensIn rec \<noteq> 0 \<or> rrTokensOut rec \<noteq> 0 \<or> rrCacheReadTokens rec \<noteq> 0 \<or>
     rrCacheWriteTokens rec \<noteq> 0 \<or> rrReasoningTokens rec \<noteq> 0"

definition price_request :: "(string \<Rightarrow> string \<Rightarrow> Model option) \<Rightarrow> RequestRecord \<Rightarrow> RequestRecord" where
  "price_request lookup rec =
     (if rrCostMicros rec = None \<and> burned rec \<and> rrFinalProviderID rec \<noteq> '''' \<and> rrFinalModel rec \<noteq> '''' then
        (case lookup (rrFinalProviderID rec) (rrFinalModel rec) of
           None \<Rightarrow> rec
         | Some m \<Rightarrow>
             let tokens = \<lparr>tkInput = rrTokensIn rec, tkOutput = rrTokensOut rec, tkCacheRead = rrCacheReadTokens rec,
                   tkCacheWrite = rrCacheWriteTokens rec, tkCacheWrite5m = rrCacheWrite5mTokens rec,
                   tkCacheWrite1h = rrCacheWrite1hTokens rec\<rparr>;
                 cost = Cost (mdPricing m) tokens
             in rec\<lparr>rrCostMicros := cost,
                  rrPriceGrade := (if cost \<noteq> None then Some (GradeFor (mdPricing m) tokens) else rrPriceGrade rec)\<rparr>)
      else rec)"

text \<open>The first success row without tokens takes the request's usage and, when the request burned any, its cost.\<close>

fun attribute_success :: "RequestRecord \<Rightarrow> AttemptRecord list \<Rightarrow> AttemptRecord list" where
  "attribute_success rec [] = []"
| "attribute_success rec (a # as) =
     (if arOutcome a = Outcome_string OutcomeSuccess \<and> arTokensIn a = 0 \<and> arTokensOut a = 0 then
        (let a1 = a\<lparr>arTokensIn := rrTokensIn rec, arTokensOut := rrTokensOut rec\<rparr> in
         (if rrCostMicros rec \<noteq> None \<and> burned rec
          then a1\<lparr>arCostMicros := rrCostMicros rec, arPriceGrade := rrPriceGrade rec\<rparr> else a1) # as)
      else a # attribute_success rec as)"

definition price_attempt :: "(string \<Rightarrow> string \<Rightarrow> Model option) \<Rightarrow> AttemptRecord \<Rightarrow> AttemptRecord" where
  "price_attempt lookup a =
     (if arCostMicros a \<noteq> None \<or> arProviderID a = '''' \<or> arModel a = '''' then a
      else if arTokensIn a = 0 \<and> arTokensOut a = 0 then a
      else case lookup (arProviderID a) (arModel a) of
        None \<Rightarrow> a
      | Some am \<Rightarrow>
          let cost = CostMicros (mdPricing am) (arTokensIn a) (arTokensOut a) 0 0 in
          a\<lparr>arCostMicros := cost,
            arPriceGrade := (if cost \<noteq> None then Some (Pricing_Grade (mdPricing am)) else arPriceGrade a)\<rparr>)"

text \<open>\<open>snap\<close> is the catalogue's current snapshot, \<open>None\<close> when no catalogue is wired.\<close>

definition priceRecord :: "(string \<Rightarrow> string \<Rightarrow> Model option) option \<Rightarrow> RequestRecord \<Rightarrow> RequestRecord" where
  "priceRecord snap rec =
     (case snap of
        None \<Rightarrow> rec
      | Some lookup \<Rightarrow>
          let rec1 = price_request lookup rec;
              as1 = attribute_success rec1 (rrAttempts rec1)
          in rec1\<lparr>rrAttempts := map (price_attempt lookup) as1\<rparr>)"

section \<open>Credentials and warnings\<close>

definition inferredWarningFor :: "Candidate \<Rightarrow> Query \<Rightarrow> Warning option" where
  "inferredWarningFor c q =
     (if \<not> cdInferred c then None
      else
        let missing = (if qyNeedsTools q then [''tools''] else []) @ (if qyNeedsVision q then [''vision''] else []) @
                      (if qyNeedsReasoning q then [''reasoning''] else [])
        in if length missing = 0 then None
           else Some \<lparr>wField = ''capabilities'', wTarget = cdProviderID c @ ''/'' @ cdModel c,
             wReason = ''the request needs '' @ Join '', '' missing @
               '' and this model's capabilities are unverified; routed anyway''\<rparr>)"

text \<open>The adapter's \<^verbatim>\<open>ModelInfo\<close>: \<open>None\<close> is its zero value.\<close>

definition modelInfo :: "(string \<Rightarrow> string \<Rightarrow> Model option) \<Rightarrow> string \<Rightarrow> string \<Rightarrow> (int \<times> int \<times> Traits) option" where
  "modelInfo lookup providerID modelID =
     (case lookup providerID modelID of
        None \<Rightarrow> None
      | Some m \<Rightarrow> Some (mdContextWindow m, mdMaxOutputTokens m, mdTraits m))"

definition presetAuth :: "Presets \<Rightarrow> string \<Rightarrow> Auth" where
  "presetAuth presets preset =
     (if preset = '''' then psAuth zero_preset
      else case map_of presets preset of None \<Rightarrow> psAuth zero_preset | Some p \<Rightarrow> psAuth p)"

definition styleOf :: "Presets \<Rightarrow> Provider \<Rightarrow> string" where
  "styleOf presets p = (if prAuthStyle p \<noteq> '''' then prAuthStyle p else auStyle (presetAuth presets (prPreset p)))"

fun cred_find :: "Credential list \<Rightarrow> string \<Rightarrow> Credential option" where
  "cred_find [] keyID = None"
| "cred_find (c # cs) keyID = (if crID c = keyID then Some c else cred_find cs keyID)"

definition secretOf :: "Presets \<Rightarrow> Provider \<Rightarrow> string \<Rightarrow> string \<Rightarrow> string" where
  "secretOf presets p keyID style =
     (case cred_find (prCredentials p) keyID of
        Some c \<Rightarrow> crSecret c
      | None \<Rightarrow> if style \<noteq> ''anonymous'' then '''' else auKey (presetAuth presets (prPreset p)))"

definition accountOf :: "Provider \<Rightarrow> string \<Rightarrow> string" where
  "accountOf p keyID = (case cred_find (prCredentials p) keyID of Some c \<Rightarrow> crAccountID c | None \<Rightarrow> '''')"

definition credentialKind :: "Provider \<Rightarrow> string \<Rightarrow> string" where
  "credentialKind p keyID = (case cred_find (prCredentials p) keyID of Some c \<Rightarrow> crKind c | None \<Rightarrow> '''')"

text \<open>How the credential reaches the request: written by the adapter, by a static authorizer at a declared
  place, or by the authorizer the strategy registry returned for this style.\<close>

datatype credential_plan = AdapterWrites string | StaticAuthorizer string string string | StrategyAuthorizer

text \<open>\<open>auth_for\<close> is the registry's answer for a style that is not static: \<open>None\<close> when no registry is wired,
  otherwise its error or nothing.\<close>

definition credentialFor ::
    "Presets \<Rightarrow> (string \<Rightarrow> string \<Rightarrow> string \<Rightarrow> go_error option) option \<Rightarrow> Provider \<Rightarrow> Candidate \<Rightarrow> go_error + credential_plan" where
  "credentialFor presets auth_for p c =
     (let style = styleOf presets p;
          secret = secretOf presets p (cdKeyID c) style;
          pa = presetAuth presets (prPreset p)
      in if style = ''x-api-key'' \<or> style = ''api-key'' \<or> style = ''query-param''
           then Inr (StaticAuthorizer style (if style = ''query-param'' then auQueryParam pa else auHeader pa) secret)
         else if IsStatic style then Inr (AdapterWrites secret)
         else case auth_for of
           None \<Rightarrow> Inl (plain_error (''provider '' @ quoted (prID p) @ '' needs the '' @ style @ '' strategy, which is not wired''))
         | Some f \<Rightarrow> (case f style (credentialKind p (cdKeyID c)) secret of
             Some e \<Rightarrow> Inl e
           | None \<Rightarrow> Inr StrategyAuthorizer))"

definition account_char :: "char \<Rightarrow> bool" where
  "account_char c = (let n = (of_char c :: nat) in
     (65 \<le> n \<and> n \<le> 90) \<or> (97 \<le> n \<and> n \<le> 122) \<or> (48 \<le> n \<and> n \<le> 57) \<or> n = 46 \<or> n = 95 \<or> n = 45)"

function replace_all :: "string \<Rightarrow> string \<Rightarrow> string \<Rightarrow> string" where
  "replace_all old new [] = []"
| "replace_all old new (c # s) =
     (if old \<noteq> [] \<and> HasPrefix (c # s) old then new @ replace_all old new (drop (length old) (c # s))
      else c # replace_all old new s)"
  by pat_completeness auto
termination by (relation "measure (\<lambda>(old, new, s). length s)") auto

definition NeedsAccount :: "string \<Rightarrow> bool" where
  "NeedsAccount baseURL = Contains baseURL ''{account_id}''"

definition ResolveBaseURL :: "string \<Rightarrow> string \<Rightarrow> go_error + string" where
  "ResolveBaseURL baseURL account =
     (if \<not> NeedsAccount baseURL then Inr baseURL
      else if account = '''' then
        Inl (plain_error (''this provider's endpoint needs an account identifier, and this credential carries none''))
      else if \<not> list_all account_char account then 
        Inl (plain_error (''account identifier '' @ quoted account @
          '' is not one: letters, digits, dot, dash and underscore only''))
      else Inr (replace_all ''{account_id}'' account baseURL))"

definition warningStrings :: "Warning list \<Rightarrow> string list" where
  "warningStrings ws = map Warning_String ws"

section \<open>Facts\<close>

lemma skip_from_spec:
  assumes "j \<le> length cands"
  shows "j \<le> skip_from cands c j \<and> skip_from cands c j \<le> length cands \<and>
    (\<forall>k. j \<le> k \<and> k < skip_from cands c j \<longrightarrow> cdProviderID (cands ! k) = cdProviderID c \<and> cdModel (cands ! k) = cdModel c) \<and>
    (skip_from cands c j < length cands \<longrightarrow>
       \<not> (cdProviderID (cands ! skip_from cands c j) = cdProviderID c \<and> cdModel (cands ! skip_from cands c j) = cdModel c))"
  using assms
proof (induction cands c j rule: skip_from.induct)
  case (1 cands c j)
  show ?case
  proof (cases "j < length cands \<and> cdProviderID (cands ! j) = cdProviderID c \<and> cdModel (cands ! j) = cdModel c")
    case True
    then have IH: "Suc j \<le> skip_from cands c (Suc j) \<and> skip_from cands c (Suc j) \<le> length cands \<and>
      (\<forall>k. Suc j \<le> k \<and> k < skip_from cands c (Suc j) \<longrightarrow> cdProviderID (cands ! k) = cdProviderID c \<and> cdModel (cands ! k) = cdModel c) \<and>
      (skip_from cands c (Suc j) < length cands \<longrightarrow>
       \<not> (cdProviderID (cands ! skip_from cands c (Suc j)) = cdProviderID c \<and> cdModel (cands ! skip_from cands c (Suc j)) = cdModel c))"
      by (intro "1.IH"[OF True]) (use True in simp)
    have eq: "skip_from cands c j = skip_from cands c (Suc j)" using True by (subst skip_from.simps) simp
    have "cdProviderID (cands ! k) = cdProviderID c \<and> cdModel (cands ! k) = cdModel c"
      if "j \<le> k" "k < skip_from cands c (Suc j)" for k
      using that True IH by (cases "k = j") (auto simp: not_less_eq_eq)
    with IH show ?thesis unfolding eq by auto
  next
    case False
    then have e: "skip_from cands c j = j" using skip_from.simps[of cands c j] by presburger
    show ?thesis unfolding e using False "1.prems" by auto
  qed
qed

lemma skipTarget_bounds: "i < length cands \<Longrightarrow> i < skipTarget cands i \<and> skipTarget cands i \<le> length cands"
  using skip_from_spec[of "i + 1" cands "cands ! i"] by (simp add: skipTarget_def)

lemma nextIndex_progress:
  "i < length cands \<Longrightarrow> nextIndex cands i oc st = (nxt, actionNext) \<Longrightarrow> i < nxt \<and> nxt \<le> length cands"
  using skipTarget_bounds[of i cands] by (auto simp: nextIndex_def split: Outcome.splits if_splits)

lemma map_last_simps [simp]: "map_last f [] = []" "map_last f (xs @ [x]) = xs @ [f x]" "length (map_last f xs) = length xs"
  by (auto simp: map_last_def)

section \<open>Properties\<close>

text \<open>Advancing after a failed attempt: the index always moves forward and never past the end; a provider
  failure other than a rate limit steps over every remaining candidate of the same provider and model and no
  other; and the trace gains exactly one skip for each candidate stepped over, in order.\<close>

theorem advance_accounts:
  assumes "i < length cands" "nextIndex cands i oc st = (nxt, actionNext)"
  shows "i < nxt \<and> nxt \<le> length cands \<and>
    advanceSkips cands i nxt = map (\<lambda>c. traceSkipOf c ''target_failed'') (take (nxt - (i + 1)) (drop (i + 1) cands)) \<and>
    (\<forall>j. i < j \<and> j < nxt \<longrightarrow> cdProviderID (cands ! j) = cdProviderID (cands ! i) \<and> cdModel (cands ! j) = cdModel (cands ! i)) \<and>
    (oc = OutcomeRetryableProvider \<and> st \<noteq> 429 \<and> nxt < length cands \<longrightarrow>
       (cdProviderID (cands ! nxt), cdModel (cands ! nxt)) \<noteq> (cdProviderID (cands ! i), cdModel (cands ! i)))"
proof -
  note p = nextIndex_progress[OF assms]
  have skips: "advanceSkips cands i nxt = map (\<lambda>c. traceSkipOf c ''target_failed'') (take (nxt - (i + 1)) (drop (i + 1) cands))"
    using p by (intro nth_equalityI) (auto simp: advanceSkips_def Let_def)
  show ?thesis
  proof (cases "oc = OutcomeRetryableProvider \<and> st \<noteq> 429")
    case True
    then have n: "nxt = skip_from cands (cands ! i) (i + 1)"
      using assms by (auto simp: nextIndex_def skipTarget_def)
    have "i + 1 \<le> length cands" using assms(1) by simp
    from skip_from_spec[OF this, of "cands ! i"]
    have same: "\<forall>k. i + 1 \<le> k \<and> k < nxt \<longrightarrow> cdProviderID (cands ! k) = cdProviderID (cands ! i) \<and> cdModel (cands ! k) = cdModel (cands ! i)"
      and other: "nxt < length cands \<longrightarrow> \<not> (cdProviderID (cands ! nxt) = cdProviderID (cands ! i) \<and> cdModel (cands ! nxt) = cdModel (cands ! i))"
      unfolding n by blast+
    show ?thesis using p skips same other by (intro conjI) (blast, blast, blast, metis Suc_eq_plus1 Suc_leI, simp)
  next
    case False
    then have "nxt = i + 1" using assms by (auto simp: nextIndex_def split: Outcome.splits if_splits)
    then show ?thesis using p skips False by (intro conjI) (blast, blast, blast, linarith, blast)
  qed
qed

definition demo_cands :: "Candidate list" where
  "demo_cands = [demo_candidate, demo_candidate\<lparr>cdKeyID := ''k3''\<rparr>, demo_candidate\<lparr>cdProviderID := ''other''\<rparr>]"

theorem advance_accounts_witness:
  "nextIndex demo_cands 0 OutcomeRetryableProvider 503 = (2, actionNext) \<and>
   advanceSkips demo_cands 0 2 = [traceSkipOf (demo_candidate\<lparr>cdKeyID := ''k3''\<rparr>) ''target_failed'']"
proof -
  have n: "nextIndex demo_cands 0 OutcomeRetryableProvider 503 = (2, actionNext)" by code_simp
  have "0 < length demo_cands" by code_simp
  from advance_accounts[OF this n] have "advanceSkips demo_cands 0 2 =
      map (\<lambda>c. traceSkipOf c ''target_failed'') (take (2 - (0 + 1)) (drop (0 + 1) demo_cands))" by blast
  with n show ?thesis by (simp add: demo_cands_def)
qed

text \<open>Tokens are conserved when a failed attempt is demoted: what the request row held moves to the failed
  attempt's own row, none is lost or counted twice, no other attempt changes, and a second demotion for the
  same fault moves nothing; a committed attempt keeps everything.\<close>

theorem demote_conserves:
  assumes "rec' = demoteLastAttempt rec oc committed"
  shows "rrTokensIn rec' + sum_list (map arTokensIn (rrAttempts rec')) =
      rrTokensIn rec + sum_list (map arTokensIn (rrAttempts rec)) \<and>
    rrTokensOut rec' + sum_list (map arTokensOut (rrAttempts rec')) =
      rrTokensOut rec + sum_list (map arTokensOut (rrAttempts rec)) \<and>
    butlast (rrAttempts rec') = butlast (rrAttempts rec) \<and>
    (committed \<longrightarrow> rec' = rec) \<and>
    demoteLastAttempt rec' oc committed = rec'"
proof (cases "rrAttempts rec" rule: rev_exhaust)
  case Nil
  then show ?thesis using assms by (auto simp: demoteLastAttempt_def)
next
  case (snoc as a)
  show ?thesis
    unfolding assms using snoc by (auto simp: demoteLastAttempt_def on_last_def Let_def)
qed

definition demo_record :: RequestRecord where
  "demo_record = recordAttempt ((newRecord ''r1'' 0 ''openai'' ''llm'' ''proxy'')\<lparr>rrTokensIn := 10, rrTokensOut := 3\<rparr>)
     demo_candidate OutcomeSuccess 200 None 5 ''ir''"

theorem demote_conserves_witness:
  "rrTokensIn (demoteLastAttempt demo_record OutcomeRetryableProvider False) = 0 \<and>
   sum_list (map arTokensIn (rrAttempts (demoteLastAttempt demo_record OutcomeRetryableProvider False))) = 10"
proof -
  have "rrTokensIn (demoteLastAttempt demo_record OutcomeRetryableProvider False) = 0" by code_simp
  moreover have "rrTokensIn demo_record + sum_list (map arTokensIn (rrAttempts demo_record)) = 10" by code_simp
  ultimately show ?thesis using demote_conserves[OF refl, of demo_record OutcomeRetryableProvider False] by simp
qed

text \<open>The budget gate: an attempt that is allowed to start gets its whole connect and first-byte time before
  the request's total runs out, and the bound put on a send never reaches past the total whatever the time.\<close>

theorem budget_gate:
  assumes "0 \<le> buPerTry b" "\<bar>buDeadline b - now\<bar> \<le> int64_max"
  shows "attemptDeadline b now \<le> buDeadline b \<and>
    (0 < buPerTry b \<longrightarrow> canStartAttempt b now = (now + buPerTry b \<le> buDeadline b)) \<and>
    (0 < buPerTry b \<and> canStartAttempt b now \<longrightarrow> attemptDeadline b now = now + buPerTry b)"
  using assms by (auto simp: attemptDeadline_def canStartAttempt_def remaining_def time_sub_def Let_def int64_max_def)

theorem budget_gate_witness:
  "canStartAttempt (newBudget \<lparr>tcConnect = 10, tcFirstByte = 20, tcTotal = 100, tcIdle = 5\<rparr> 1000) 1070 \<and>
   attemptDeadline (newBudget \<lparr>tcConnect = 10, tcFirstByte = 20, tcTotal = 100, tcIdle = 5\<rparr> 1000) 1070 = 1100"
proof -
  have b: "newBudget \<lparr>tcConnect = 10, tcFirstByte = 20, tcTotal = 100, tcIdle = 5\<rparr> 1000 = \<lparr>buDeadline = 1100, buPerTry = 30\<rparr>"
    by code_simp
  show ?thesis using budget_gate[of "\<lparr>buDeadline = 1100, buPerTry = 30\<rparr>" 1070] unfolding b by (simp add: int64_max_def)
qed

lemma attribute_success_split:
  assumes "\<forall>a \<in> set as. arOutcome a \<noteq> ''success''"
  shows "attribute_success rec (as @ a # bs) =
    as @ (if arOutcome a = ''success'' \<and> arTokensIn a = 0 \<and> arTokensOut a = 0
      then (let a1 = a\<lparr>arTokensIn := rrTokensIn rec, arTokensOut := rrTokensOut rec\<rparr> in
         (if rrCostMicros rec \<noteq> None \<and> burned rec
          then a1\<lparr>arCostMicros := rrCostMicros rec, arPriceGrade := rrPriceGrade rec\<rparr> else a1) # bs)
      else a # attribute_success rec bs)"
  using assms by (induction as) auto

lemma attribute_success_map: "length (attribute_success rec as) = length as \<and>
    map (\<lambda>a. (arProviderID a, arModel a, arOutcome a)) (attribute_success rec as) =
      map (\<lambda>a. (arProviderID a, arModel a, arOutcome a)) as"
  by (induction as) (auto simp: Let_def)

lemma price_attempt_frame:
  "arProviderID (price_attempt lookup a) = arProviderID a \<and> arModel (price_attempt lookup a) = arModel a \<and>
   arOutcome (price_attempt lookup a) = arOutcome a"
  by (auto simp: price_attempt_def Let_def split: option.splits)

lemma price_request_attempts [simp]: "rrAttempts (price_request lookup rec) = rrAttempts rec"
  "burned (price_request lookup rec) = burned rec"
  by (auto simp: price_request_def burned_def Let_def split: option.splits)

lemma attribute_success_other:
  "i < length as \<Longrightarrow> arOutcome (as ! i) \<noteq> ''success'' \<Longrightarrow> attribute_success rec as ! i = as ! i"
proof (induction as arbitrary: i)
  case (Cons a as)
  then show ?case by (cases i) (auto simp: Let_def)
qed simp

lemma price_attempt_priced: "arCostMicros a \<noteq> None \<Longrightarrow> price_attempt lookup a = a"
  by (simp add: price_attempt_def)

text \<open>Pricing attributes a request's cost without duplicating or losing it: it keeps the attempts and their
  targets; an attempt that did not succeed is priced at the rates of the model it tried itself, and one that
  burned nothing keeps no cost; and when the request has a cost and a success not yet attributed, that
  attempt's cost is the request's.\<close>

theorem pricing_attributes:
  assumes "rec' = priceRecord (Some lookup) rec"
  shows "map (\<lambda>a. (arProviderID a, arModel a, arOutcome a)) (rrAttempts rec') =
      map (\<lambda>a. (arProviderID a, arModel a, arOutcome a)) (rrAttempts rec) \<and>
    (\<forall>i < length (rrAttempts rec). let a = rrAttempts rec ! i in
       arOutcome a \<noteq> ''success'' \<and> arCostMicros a = None \<longrightarrow>
         (arTokensIn a = 0 \<and> arTokensOut a = 0 \<longrightarrow> arCostMicros (rrAttempts rec' ! i) = None) \<and>
         ((arTokensIn a \<noteq> 0 \<or> arTokensOut a \<noteq> 0) \<and> arProviderID a \<noteq> '''' \<and> arModel a \<noteq> '''' \<longrightarrow>
            arCostMicros (rrAttempts rec' ! i) =
              (case lookup (arProviderID a) (arModel a) of None \<Rightarrow> None
               | Some m \<Rightarrow> CostMicros (mdPricing m) (arTokensIn a) (arTokensOut a) 0 0))) \<and>
    (\<forall>as a bs. rrAttempts rec = as @ a # bs \<and> (\<forall>x \<in> set as. arOutcome x \<noteq> ''success'') \<and> arOutcome a = ''success'' \<and>
       arTokensIn a = 0 \<and> arTokensOut a = 0 \<and> burned rec \<and> rrCostMicros rec' \<noteq> None \<longrightarrow>
       arCostMicros (rrAttempts rec' ! length as) = rrCostMicros rec')"
proof -
  let ?r1 = "price_request lookup rec"
  have r: "rrAttempts rec' = map (price_attempt lookup) (attribute_success ?r1 (rrAttempts rec))"
    "rrCostMicros rec' = rrCostMicros ?r1"
    by (simp_all add: assms priceRecord_def Let_def)
  have "map (\<lambda>a. (arProviderID a, arModel a, arOutcome a)) (rrAttempts rec') =
      map (\<lambda>a. (arProviderID a, arModel a, arOutcome a)) (rrAttempts rec)"
    unfolding r map_map comp_def
    using attribute_success_map[of ?r1 "rrAttempts rec"] by (simp add: price_attempt_frame)
  moreover have "rrAttempts rec' ! i = price_attempt lookup (rrAttempts rec ! i)"
    if "i < length (rrAttempts rec)" "arOutcome (rrAttempts rec ! i) \<noteq> ''success''" for i
    using that attribute_success_map[of ?r1 "rrAttempts rec"] by (simp add: r attribute_success_other)
  moreover have "arCostMicros (rrAttempts rec' ! length as) = rrCostMicros rec'"
    if h: "rrAttempts rec = as @ a # bs" "\<forall>x \<in> set as. arOutcome x \<noteq> ''success''" "arOutcome a = ''success''"
      "arTokensIn a = 0" "arTokensOut a = 0" "burned rec" "rrCostMicros rec' \<noteq> None" for as a bs
    using h by (simp add: r attribute_success_split[OF h(2)] Let_def nth_append price_attempt_priced)
  ultimately show ?thesis by (auto simp: Let_def price_attempt_def split: option.splits)
qed

theorem pricing_attributes_witness:
  "rrCostMicros (priceRecord (Some (\<lambda>p i. Some ((demo_model p i StateLive)\<lparr>mdPricing := zero_pricing\<lparr>pcKnown := True,
      pcInputMicrosPerMTok := 3000000\<rparr>\<rparr>))) (demo_record\<lparr>rrFinalProviderID := ''openai'', rrFinalModel := ''gpt-4o''\<rparr>)) = Some 30 \<and>
   arCostMicros (rrAttempts (priceRecord (Some (\<lambda>p i. Some ((demo_model p i StateLive)\<lparr>mdPricing := zero_pricing\<lparr>pcKnown := True,
      pcInputMicrosPerMTok := 3000000\<rparr>\<rparr>))) (demo_record\<lparr>rrFinalProviderID := ''openai'', rrFinalModel := ''gpt-4o''\<rparr>)) ! 0) = Some 30"
proof -
  let ?l = "\<lambda>p i. Some ((demo_model p i StateLive)\<lparr>mdPricing := zero_pricing\<lparr>pcKnown := True, pcInputMicrosPerMTok := 3000000\<rparr>\<rparr>)"
  let ?rec = "demo_record\<lparr>rrFinalProviderID := ''openai'', rrFinalModel := ''gpt-4o''\<rparr>"
  have c: "rrCostMicros (priceRecord (Some ?l) ?rec) = Some 30" by code_simp
  obtain a where a: "rrAttempts ?rec = [] @ a # []" "arOutcome a = ''success''" "arTokensIn a = 0" "arTokensOut a = 0"
    by (simp add: demo_record_def recordAttempt_def newRecord_def)
  have b: "burned ?rec" by code_simp
  from pricing_attributes[OF refl, of ?l ?rec] a b c
  have "arCostMicros (rrAttempts (priceRecord (Some ?l) ?rec) ! length ([] :: AttemptRecord list)) = Some 30"
    by (metis empty_iff empty_set option.distinct(1))
  with c show ?thesis by simp
qed

text \<open>The account identifier substituted into a base URL can only ever be a name: a URL without the
  placeholder is used as it is, one with it is refused unless the credential carries an identifier made of
  letters, digits, dots, dashes and underscores, so no separator, port or user-info mark can be smuggled in,
  and no placeholder is left behind in the result of a single substitution.\<close>

lemma replace_all_single:
  assumes "\<not> Contains b old" "old \<noteq> []" "\<forall>n < length a. \<not> HasPrefix (drop n (a @ old @ b)) old"
  shows "replace_all old new (a @ old @ b) = a @ new @ b"
  using assms(3)
proof (induction a)
  case Nil
  have id: "replace_all old new s = s" if "\<not> Contains s old" for s
    using that by (induction s) (auto split: if_splits)
  obtain c cs where "old = c # cs" using assms(2) by (cases old) auto
  then have "replace_all old new (old @ b) = new @ replace_all old new b"
    by (simp add: HasPrefix_iff)
  with id[OF assms(1)] show ?case by simp
next
  case (Cons c a)
  have "\<not> HasPrefix ((c # a) @ old @ b) old" using Cons.prems[rule_format, of 0] by simp
  moreover have "\<forall>n < length a. \<not> HasPrefix (drop n (a @ old @ b)) old"
  proof (intro allI impI)
    fix n assume "n < length a"
    then show "\<not> HasPrefix (drop n (a @ old @ b)) old" using Cons.prems[rule_format, of "Suc n"] by simp
  qed
  ultimately show ?case using Cons.IH by simp
qed

theorem base_url_account_safe:
  "(\<not> NeedsAccount u \<longrightarrow> ResolveBaseURL u account = Inr u) \<and>
   (NeedsAccount u \<and> ResolveBaseURL u account = Inr v \<longrightarrow>
      account \<noteq> '''' \<and> list_all account_char account \<and> v = replace_all ''{account_id}'' account u \<and>
      CHR ''/'' \<notin> set account \<and> CHR ''@'' \<notin> set account \<and> CHR '':'' \<notin> set account \<and> CHR ''?'' \<notin> set account) \<and>
   (u = a @ ''{account_id}'' @ b \<and> \<not> Contains b ''{account_id}'' \<and> CHR ''{'' \<notin> set a \<and> account \<noteq> '''' \<and> list_all account_char account \<longrightarrow>
      ResolveBaseURL u account = Inr (a @ account @ b))"
proof -
  have bad: "\<not> account_char (CHR ''/'')" "\<not> account_char (CHR ''@'')" "\<not> account_char (CHR '':'')" "\<not> account_char (CHR ''?'')"
    by code_simp+
  have "ResolveBaseURL u account = Inr (a @ account @ b)"
    if h: "u = a @ ''{account_id}'' @ b" "\<not> Contains b ''{account_id}''" "CHR ''{'' \<notin> set a" "account \<noteq> ''''" "list_all account_char account"
  proof -
    have "NeedsAccount u" using h(1) by (auto simp: NeedsAccount_def Contains_iff)
    moreover have "\<forall>n < length a. \<not> HasPrefix (drop n (a @ ''{account_id}'' @ b)) ''{account_id}''"
    proof (intro allI impI)
      fix n assume n: "n < length a"
      then have "drop n (a @ ''{account_id}'' @ b) = a ! n # drop (Suc n) a @ ''{account_id}'' @ b"
        by (simp add: Cons_nth_drop_Suc[symmetric])
      moreover have "a ! n \<noteq> CHR ''{''" using h(3) n nth_mem by fastforce
      ultimately show "\<not> HasPrefix (drop n (a @ ''{account_id}'' @ b)) ''{account_id}''" by simp
    qed
    ultimately show ?thesis
      using replace_all_single[OF h(2), of a account] h by (simp add: ResolveBaseURL_def)
  qed
  then show ?thesis
    using bad by (auto simp: ResolveBaseURL_def list_all_iff split: if_splits)
qed

theorem base_url_account_safe_witness:
  "ResolveBaseURL ''https://x/{account_id}/v1'' ''acc-1'' = Inr ''https://x/acc-1/v1''"
  using base_url_account_safe[of "''https://x/{account_id}/v1''" "''acc-1''" "''''" "''https://x/''" "''/v1''"]
  by (simp add: account_char_def list_all_iff)

end
