(* ===== verification/SSE.thy ===== *)
theory SSE
  imports Prelude
begin

text \<open>
  The event-stream wire format. \<^verbatim>\<open>internal/sse\<close>: the reader's line splitter and event assembly and the writer's
  framing; and the passthrough splitter of \<^verbatim>\<open>internal/exec/rawstream.go\<close>, which finds event boundaries in raw
  chunks so that the bytes between them can be forwarded untouched.

  \<^verbatim>\<open>bufio.Scanner\<close> is modelled on a body that is completely available, so the split function sees the whole
  remaining input at end of file. Its buffer holds at most the line cap, and it gives up with
  \<^verbatim>\<open>bufio.ErrTooLong\<close> when the buffer is full and the split function still asks for more: a line needs room
  for its terminator, and one ended by a carriage return for the byte after it as well.
\<close>

section \<open>Reader\<close>

record Event =
  seType :: string
  seData :: string
  seID :: string
  seRetry :: string

definition zero_sse :: Event where
  "zero_sse = \<lparr>seType = '''', seData = '''', seID = '''', seRetry = ''''\<rparr>"

text \<open>\<open>splitLines data atEOF\<close>: the bytes consumed and the token, \<open>None\<close> for the request for more data.\<close>

fun split_at :: "string \<Rightarrow> nat \<Rightarrow> string \<Rightarrow> bool \<Rightarrow> (nat \<times> string) option" where
  "split_at data i [] atEOF = (if atEOF then Some (length data, data) else None)"
| "split_at data i (c # cs) atEOF =
     (if c = LF then Some (i + 1, take i data)
      else if c = CR then
        (case cs of
           [] \<Rightarrow> if atEOF then Some (i + 1, take i data) else None
         | d # _ \<Rightarrow> if d = LF then Some (i + 2, take i data) else Some (i + 1, take i data))
      else split_at data (i + 1) cs atEOF)"

definition splitLines :: "string \<Rightarrow> bool \<Rightarrow> (nat \<times> string) option" where
  "splitLines data atEOF = (if atEOF \<and> data = [] then None else split_at data 0 data atEOF)"

lemma split_at_advance:
  "split_at data i cs True = Some (n, tok) \<Longrightarrow> i + length cs \<le> length data \<Longrightarrow> data \<noteq> [] \<Longrightarrow> 0 < n"
  by (induction data i cs True rule: split_at.induct) (auto split: if_splits list.splits)

text \<open>The bytes the scanner's buffer must hold to find a line.\<close>

definition line_room :: "string \<Rightarrow> string \<Rightarrow> nat" where
  "line_room data tok =
     (if length tok < length data \<and> data ! length tok = CR then length tok + 2 else length tok + 1)"

function scan_lines :: "string \<Rightarrow> (nat \<times> string) list" where
  "scan_lines data =
     (case splitLines data True of
        None \<Rightarrow> []
      | Some (n, tok) \<Rightarrow> (line_room data tok, tok) # scan_lines (drop n data))"
  by pat_completeness auto
termination
proof (relation "measure length", goal_cases)
  case (2 data a n tok)
  then have "data \<noteq> []" "split_at data 0 data True = Some (n, tok)"
    by (auto simp: splitLines_def split: if_splits)
  then have "0 < n" using split_at_advance[of data 0 data n tok] by simp
  with \<open>data \<noteq> []\<close> show ?case by simp
qed simp

declare scan_lines.simps [simp del]

datatype sse_error = ErrLineTooLong | ErrEventTooLong_sse | EOF

record next_state =
  nsEvent :: Event
  nsData :: "string list"
  nsBytes :: nat
  nsSeen :: bool

definition next_init :: next_state where
  "next_init = \<lparr>nsEvent = zero_sse, nsData = [], nsBytes = 0, nsSeen = False\<rparr>"

definition trim_one_space :: "string \<Rightarrow> string" where
  "trim_one_space v = (if HasPrefix v '' '' then drop 1 v else v)"

definition finish_event :: "next_state \<Rightarrow> Event" where
  "finish_event st = (nsEvent st)\<lparr>seData := Join [LF] (nsData st)\<rparr>"

text \<open>One field line: a bare name changes nothing but that something was seen; data lines are counted with the
  newline that will join them.\<close>

definition field_line :: "nat \<Rightarrow> string \<Rightarrow> next_state \<Rightarrow> next_state option" where
  "field_line mx line st0 =
     (let st = st0\<lparr>nsSeen := True\<rparr> in
      case Cut (CHR '':'') line of
        None \<Rightarrow> Some st
      | Some (field, value0) \<Rightarrow>
          let value = trim_one_space value0 in
          if field = ''data'' then
            let n = nsBytes st + (if length (nsData st) > 0 then 1 else 0) + length value in
            if n > mx then None else Some (st\<lparr>nsBytes := n, nsData := nsData st @ [value]\<rparr>)
          else if field = ''event'' then Some (st\<lparr>nsEvent := (nsEvent st)\<lparr>seType := value\<rparr>\<rparr>)
          else if field = ''id'' then Some (st\<lparr>nsEvent := (nsEvent st)\<lparr>seID := value\<rparr>\<rparr>)
          else if field = ''retry'' then Some (st\<lparr>nsEvent := (nsEvent st)\<lparr>seRetry := value\<rparr>\<rparr>)
          else Some st)"

text \<open>\<^verbatim>\<open>Next\<close> over the remaining lines: the event and the lines after it, or why there is none.\<close>

fun next_loop :: "nat \<Rightarrow> (nat \<times> string) list \<Rightarrow> next_state \<Rightarrow> sse_error + (Event \<times> (nat \<times> string) list)" where
  "next_loop mx [] st = (if nsSeen st then Inr (finish_event st, []) else Inl EOF)"
| "next_loop mx ((room, line) # ls) st =
     (if room > mx then Inl ErrLineTooLong
      else if line = [] then
        (if \<not> nsSeen st then next_loop mx ls st else Inr (finish_event st, ls))
      else if HasPrefix line '':'' then next_loop mx ls st
      else case field_line mx line st of
        None \<Rightarrow> Inl ErrEventTooLong_sse
      | Some st' \<Rightarrow> next_loop mx ls st')"

definition Next :: "nat \<Rightarrow> (nat \<times> string) list \<Rightarrow> sse_error + (Event \<times> (nat \<times> string) list)" where
  "Next mx ls = next_loop mx ls next_init"

lemma next_loop_shorter: "next_loop mx ls st = Inr (ev, rest) \<Longrightarrow> ls \<noteq> [] \<Longrightarrow> length rest < length ls"
  by (induction mx ls st rule: next_loop.induct) (force split: if_splits option.splits)+

text \<open>Every event of a body, as a consumer that calls \<^verbatim>\<open>Next\<close> until it fails sees them.\<close>

function read_all :: "nat \<Rightarrow> (nat \<times> string) list \<Rightarrow> Event list \<times> sse_error" where
  "read_all mx ls =
     (case Next mx ls of
        Inl e \<Rightarrow> ([], e)
      | Inr (ev, rest) \<Rightarrow> if ls = [] then ([], EOF) else (case read_all mx rest of (evs, e) \<Rightarrow> (ev # evs, e)))"
  by pat_completeness auto
termination
  by (relation "measure (\<lambda>(mx, ls). length ls)") (auto simp: Next_def dest: next_loop_shorter)

declare read_all.simps [simp del]

section \<open>Writer\<close>

definition Send :: "string \<Rightarrow> string \<Rightarrow> string" where
  "Send event data =
     (if event \<noteq> '''' then ''event: '' @ event @ [LF] else []) @
     concat (map (\<lambda>line. ''data: '' @ line @ [LF]) (Split LF data)) @ [LF]"

definition SendDone :: string where
  "SendDone = Send '''' ''[DONE]''"

section \<open>The passthrough splitter\<close>

text \<open>\<open>eventEnd b\<close>: the number of bytes up to and including the blank line that ends the first event.\<close>

fun event_end :: "string \<Rightarrow> nat option" where
  "event_end [] = None"
| "event_end (c # rest) =
     (if c = LF then
        (case rest of
           d # ts \<Rightarrow>
             if d = LF then Some 2
             else if d = CR then (case ts of e # _ \<Rightarrow> if e = LF then Some 3 else Some 2 | [] \<Rightarrow> Some 2)
             else map_option Suc (event_end rest)
         | [] \<Rightarrow> None)
      else if c = CR then
        (case rest of
           d # ts \<Rightarrow>
             if d = LF then
               (case ts of
                  e # us \<Rightarrow>
                    if e = LF then Some 3
                    else if e = CR then (case us of f # _ \<Rightarrow> if f = LF then Some 4 else Some 3 | [] \<Rightarrow> Some 3)
                    else map_option (\<lambda>n. n + 2) (event_end ts)
                | [] \<Rightarrow> None)
             else if d = CR then Some 2
             else map_option Suc (event_end rest)
         | [] \<Rightarrow> None)
      else map_option Suc (event_end rest))"

lemma event_end_bounds: "event_end b = Some n \<Longrightarrow> 2 \<le> n \<and> n \<le> length b"
proof (induction b arbitrary: n rule: length_induct)
  case (1 b)
  have IH: "event_end s = Some m \<Longrightarrow> length s < length b \<Longrightarrow> 2 \<le> m \<and> m \<le> length s" for s m
    using 1 by blast
  show ?case
  proof (cases b)
    case (Cons c rest)
    show ?thesis
      using 1(2) IH[of rest] IH[of "tl rest"] unfolding Cons
      by (cases rest; cases "tl rest"; cases "tl (tl rest)") (auto split: if_splits)
  qed (use 1 in simp)
qed

function drain :: "string \<Rightarrow> string list \<times> string" where
  "drain buf =
     (case event_end buf of
        None \<Rightarrow> ([], buf)
      | Some n \<Rightarrow> (case drain (drop n buf) of (evs, rest) \<Rightarrow> (take n buf # evs, rest)))"
  by pat_completeness auto
termination by (relation "measure length") (auto dest: event_end_bounds)

declare drain.simps [simp del]

record eventSplitter =
  spBuf :: string
  spMax :: int

text \<open>\<open>push\<close>: the complete events, whether the carry is over the cap, and the splitter after it.\<close>

definition push :: "eventSplitter \<Rightarrow> string \<Rightarrow> string list \<times> bool \<times> eventSplitter" where
  "push s chunk =
     (case drain (spBuf s @ chunk) of
        (out, rest) \<Rightarrow> (out, spMax s > 0 \<and> int (length rest) > spMax s, s\<lparr>spBuf := rest\<rparr>))"

definition flush :: "eventSplitter \<Rightarrow> string \<times> eventSplitter" where
  "flush s = (spBuf s, s\<lparr>spBuf := []\<rparr>)"

text \<open>\<open>parseEvent\<close>: the first event of a raw piece, read by the same reader.\<close>

definition parseEvent :: "string \<Rightarrow> nat \<Rightarrow> Event option" where
  "parseEvent raw maxLine = (case Next maxLine (scan_lines raw) of Inl _ \<Rightarrow> None | Inr (ev, _) \<Rightarrow> Some ev)"

section \<open>Lines\<close>

definition plain_line :: "string \<Rightarrow> bool" where
  "plain_line l \<longleftrightarrow> LF \<notin> set l \<and> CR \<notin> set l"

lemma split_at_plain:
  "plain_line l \<Longrightarrow> data = p @ l @ LF # rest \<Longrightarrow> split_at data (length p) (l @ LF # rest) True = Some (length p + length l + 1, p @ l)"
proof (induction l arbitrary: p)
  case (Cons c l)
  have "split_at data (length (p @ [c])) (l @ LF # rest) True = Some (length (p @ [c]) + length l + 1, (p @ [c]) @ l)"
    using Cons.prems by (intro Cons.IH) (auto simp: plain_line_def)
  with Cons.prems show ?case by (auto simp: plain_line_def)
qed simp

lemma scan_lines_plain:
  assumes "plain_line l"
  shows "scan_lines (l @ LF # rest) = (length l + 1, l) # scan_lines rest"
proof -
  have "splitLines (l @ LF # rest) True = Some (length l + 1, l)"
    using split_at_plain[OF assms, of "l @ LF # rest" "[]" rest] by (simp add: splitLines_def)
  moreover have "line_room (l @ LF # rest) l = length l + 1" by (simp add: line_room_def nth_append)
  ultimately show ?thesis by (subst scan_lines.simps) simp
qed

lemma scan_lines_frames:
  assumes "\<forall>l \<in> set ls. plain_line l"
  shows "scan_lines (concat (map (\<lambda>l. l @ [LF]) ls) @ rest) = map (\<lambda>l. (length l + 1, l)) ls @ scan_lines rest"
  using assms by (induction ls) (auto simp: scan_lines_plain)

section \<open>What the writer sends the reader reads\<close>

lemma data_line:
  "field_line mx (''data: '' @ v) st =
     (let n = nsBytes st + (if nsData st \<noteq> [] then 1 else 0) + length v in
      if n > mx then None else Some (st\<lparr>nsSeen := True, nsBytes := n, nsData := nsData st @ [v]\<rparr>))"
  by (simp add: field_line_def Let_def trim_one_space_def)

lemma event_line:
  "field_line mx (''event: '' @ v) st = Some (st\<lparr>nsSeen := True, nsEvent := (nsEvent st)\<lparr>seType := v\<rparr>\<rparr>)"
  by (simp add: field_line_def Let_def trim_one_space_def)

definition joined_len :: "string list \<Rightarrow> nat" where
  "joined_len ls = sum_list (map length ls) + (length ls - 1)"

lemma length_Join: "length (Join [LF] ls) = joined_len ls"
  by (induction "[LF]" ls rule: Join.induct) (auto simp: joined_len_def)

lemma read_data_lines:
  assumes "\<forall>l \<in> set ls. length l + 7 \<le> mx" "nsBytes st = joined_len (nsData st)" "joined_len (nsData st @ ls) \<le> mx"
  shows "next_loop mx (map (\<lambda>l. (length l + 7, ''data: '' @ l)) ls @ rest) st =
    next_loop mx rest (st\<lparr>nsSeen := nsSeen st \<or> ls \<noteq> [], nsBytes := joined_len (nsData st @ ls), nsData := nsData st @ ls\<rparr>)"
  using assms
proof (induction ls arbitrary: st)
  case Nil
  then show ?case by (cases st) simp
next
  case (Cons l ls)
  let ?st = "st\<lparr>nsSeen := True, nsBytes := joined_len (nsData st @ [l]), nsData := nsData st @ [l]\<rparr>"
  have n: "nsBytes st + (if nsData st \<noteq> [] then 1 else 0) + length l = joined_len (nsData st @ [l])"
    using Cons.prems(2) by (cases "nsData st") (auto simp: joined_len_def)
  have le: "joined_len (nsData st @ [l]) \<le> joined_len (nsData st @ l # ls)" by (simp add: joined_len_def)
  have f: "field_line mx (''data: '' @ l) st = Some ?st"
    unfolding data_line Let_def n using le Cons.prems(3) by simp
  have "next_loop mx (map (\<lambda>l. (length l + 7, ''data: '' @ l)) (l # ls) @ rest) st =
      next_loop mx (map (\<lambda>l. (length l + 7, ''data: '' @ l)) ls @ rest) ?st"
    using f Cons.prems(1) by simp
  also have "\<dots> = next_loop mx rest (?st\<lparr>nsSeen := nsSeen ?st \<or> ls \<noteq> [], nsBytes := joined_len (nsData ?st @ ls), nsData := nsData ?st @ ls\<rparr>)"
    using Cons.prems by (intro Cons.IH) auto
  finally show ?case by simp
qed

lemma Send_lines:
  "Send e d = concat (map (\<lambda>l. l @ [LF])
     ((if e \<noteq> '''' then [''event: '' @ e] else []) @ map (\<lambda>l. ''data: '' @ l) (Split LF d) @ ['''']))"
  by (simp add: Send_def comp_def)

lemma plain_Send_lines:
  assumes "plain_line e" "CR \<notin> set d"
  shows "\<forall>l \<in> set ((if e \<noteq> '''' then [''event: '' @ e] else []) @ map (\<lambda>l. ''data: '' @ l) (Split LF d) @ ['''']). plain_line l"
proof -
  have "LF \<notin> set l \<and> CR \<notin> set l" if "l \<in> set (Split LF d)" for l
    using that assms(2) Split_pieces[OF that] Split_chars[OF that] by auto
  then show ?thesis using assms(1) by (auto simp: plain_line_def LF_def CR_def)
qed

lemma read_Send:
  assumes "plain_line e" "CR \<notin> set d" "length e + 8 \<le> mx" "length d + 7 \<le> mx"
  shows "Next mx (scan_lines (Send e d @ rest)) = Inr (\<lparr>seType = e, seData = d, seID = '''', seRetry = ''''\<rparr>, scan_lines rest)"
proof -
  let ?ds = "Split LF d"
  have jl: "joined_len ?ds = length d" using length_Join[of ?ds] by (simp add: Join_Split)
  have short: "length l \<le> length d" if "l \<in> set ?ds" for l
  proof -
    have "length l \<le> sum_list (map length ?ds)" using that by (simp add: member_le_sum_list)
    then show ?thesis using jl by (simp add: joined_len_def)
  qed
  define st where "st = (if e \<noteq> '''' then next_init\<lparr>nsSeen := True, nsEvent := zero_sse\<lparr>seType := e\<rparr>\<rparr> else next_init)"
  have "scan_lines (Send e d @ rest) =
      map (\<lambda>l. (length l + 1, l)) (if e \<noteq> '''' then [''event: '' @ e] else []) @
      map (\<lambda>l. (length l + 7, ''data: '' @ l)) ?ds @ (1, '''') # scan_lines rest"
    unfolding Send_lines using scan_lines_frames[OF plain_Send_lines[OF assms(1,2)], of rest]
    by (simp add: comp_def)
  then have "Next mx (scan_lines (Send e d @ rest)) =
      next_loop mx (map (\<lambda>l. (length l + 7, ''data: '' @ l)) ?ds @ (1, '''') # scan_lines rest) st"
    using assms(3) event_line[of mx e next_init] by (auto simp: Next_def st_def next_init_def)
  also have "\<dots> = next_loop mx ((1, '''') # scan_lines rest)
      (st\<lparr>nsSeen := nsSeen st \<or> ?ds \<noteq> [], nsBytes := joined_len (nsData st @ ?ds), nsData := nsData st @ ?ds\<rparr>)"
    using assms(4) short jl
    by (intro read_data_lines) (fastforce simp: st_def next_init_def joined_len_def)+
  also have "\<dots> = Inr (\<lparr>seType = e, seData = d, seID = '''', seRetry = ''''\<rparr>, scan_lines rest)"
    using assms(3) by (auto simp: st_def next_init_def finish_event_def Join_Split zero_sse_def)
  finally show ?thesis .
qed

section \<open>The splitter keeps every byte\<close>

lemma drain_None: "event_end b = None \<Longrightarrow> drain b = ([], b)"
  by (subst drain.simps) simp

lemma drain_Some:
  "event_end b = Some n \<Longrightarrow> drain b = (take n b # fst (drain (drop n b)), snd (drain (drop n b)))"
  by (subst drain.simps) (simp split: prod.splits)

lemma drain_concat: "drain buf = (evs, rest) \<Longrightarrow> concat evs @ rest = buf"
proof (induction buf arbitrary: evs rest rule: drain.induct)
  case (1 buf)
  show ?case
  proof (cases "event_end buf")
    case None
    then show ?thesis using "1.prems" by (simp add: drain_None)
  next
    case (Some n)
    obtain evs' rest' where d: "drain (drop n buf) = (evs', rest')" by fastforce
    then have "evs = take n buf # evs'" "rest = rest'"
      using "1.prems" Some by (simp_all add: drain_Some)
    then show ?thesis using "1.IH"[OF Some d] by simp
  qed
qed

lemma drain_carry: "drain buf = (evs, rest) \<Longrightarrow> event_end rest = None"
proof (induction buf arbitrary: evs rest rule: drain.induct)
  case (1 buf)
  show ?case
  proof (cases "event_end buf")
    case None
    then show ?thesis using "1.prems" by (simp add: drain_None)
  next
    case (Some n)
    obtain evs' rest' where d: "drain (drop n buf) = (evs', rest')" by fastforce
    then have "rest = rest'" using "1.prems" Some by (simp add: drain_Some)
    then show ?thesis using "1.IH"[OF Some d] by simp
  qed
qed

text \<open>The pushes of a whole response, in order.\<close>

fun push_all :: "eventSplitter \<Rightarrow> string list \<Rightarrow> string list \<times> eventSplitter" where
  "push_all s [] = ([], s)"
| "push_all s (c # cs) =
     (case push s c of (evs, _, s1) \<Rightarrow> case push_all s1 cs of (evs', s2) \<Rightarrow> (evs @ evs', s2))"

lemma push_all_concat:
  "push_all s cs = (evs, s') \<Longrightarrow> concat evs @ spBuf s' = spBuf s @ concat cs \<and> spMax s' = spMax s"
proof (induction cs arbitrary: s evs)
  case (Cons c cs)
  obtain e1 r1 where d: "drain (spBuf s @ c) = (e1, r1)" by fastforce
  obtain e2 where p: "push_all (s\<lparr>spBuf := r1\<rparr>) cs = (e2, s')" "evs = e1 @ e2"
    using Cons.prems d by (auto simp: push_def split: prod.splits)
  have "concat e1 @ concat e2 @ spBuf s' = concat e1 @ r1 @ concat cs" "spMax s' = spMax s"
    using Cons.IH[OF p(1)] by simp_all
  moreover have "concat e1 @ r1 @ concat cs = spBuf s @ c @ concat cs"
    using drain_concat[OF d] by (metis append_assoc)
  ultimately show ?case using p(2) by simp
qed simp

text \<open>Without carriage returns a boundary, once there, stays where it is however the stream goes on.\<close>

lemma event_end_LF:
  assumes "CR \<notin> set (c # s)"
  shows "event_end (c # s) = (if c = LF \<and> s \<noteq> [] \<and> hd s = LF then Some 2 else map_option Suc (event_end s))"
  using assms by (cases s) auto

lemma event_end_extend:
  "CR \<notin> set a \<Longrightarrow> CR \<notin> set b \<Longrightarrow> event_end a = Some n \<Longrightarrow> event_end (a @ b) = Some n"
proof (induction a arbitrary: n)
  case (Cons c a)
  then show ?case
    by (cases a) (auto simp: event_end_LF simp del: event_end.simps(2) split: if_splits)
qed simp

lemma drain_append:
  assumes "CR \<notin> set (a @ b)" "drain a = (evs1, r1)" "drain (r1 @ b) = (evs2, r2)"
  shows "drain (a @ b) = (evs1 @ evs2, r2)"
  using assms
proof (induction a arbitrary: evs1 r1 rule: drain.induct)
  case (1 a)
  show ?case
  proof (cases "event_end a")
    case None
    then have "evs1 = []" "r1 = a" using "1.prems"(2) by (simp_all add: drain_None)
    then show ?thesis using "1.prems"(3) by simp
  next
    case (Some n)
    obtain e r where d: "drain (drop n a) = (e, r)" by fastforce
    then have e: "evs1 = take n a # e" "r1 = r"
      using "1.prems"(2) Some by (simp_all add: drain_Some)
    have n: "n \<le> length a" using event_end_bounds[OF Some] by simp
    have "drain (drop n a @ b) = (e @ evs2, r2)"
      using "1.prems" e by (intro "1.IH"[OF Some _ d]) (auto dest: in_set_dropD)
    moreover have "event_end (a @ b) = Some n" using "1.prems"(1) Some by (intro event_end_extend) auto
    ultimately show ?thesis using n e by (simp add: drain_Some)
  qed
qed

lemma push_all_drain:
  assumes "CR \<notin> set (spBuf s @ concat cs)" "event_end (spBuf s) = None"
  shows "fst (push_all s cs) = fst (drain (spBuf s @ concat cs)) \<and>
    spBuf (snd (push_all s cs)) = snd (drain (spBuf s @ concat cs))"
  using assms
proof (induction cs arbitrary: s)
  case Nil
  then show ?case by (simp add: drain_None)
next
  case (Cons c cs)
  obtain e1 r1 where d: "drain (spBuf s @ c) = (e1, r1)" by fastforce
  obtain e2 r2 where d2: "drain (r1 @ concat cs) = (e2, r2)" by fastforce
  have cr: "CR \<notin> set (r1 @ concat cs)"
    using Cons.prems(1) drain_concat[OF d] by (metis UnCI UnE concat.simps(2) set_append)
  have "fst (push_all (s\<lparr>spBuf := r1\<rparr>) cs) = e2 \<and> spBuf (snd (push_all (s\<lparr>spBuf := r1\<rparr>) cs)) = r2"
    using Cons.IH[of "s\<lparr>spBuf := r1\<rparr>"] cr drain_carry[OF d] d2 by simp
  moreover have "drain (spBuf s @ c @ concat cs) = (e1 @ e2, r2)"
    using drain_append[of "spBuf s @ c" "concat cs", OF _ d d2] Cons.prems(1) by simp
  ultimately show ?case using d by (auto simp: push_def split: prod.splits)
qed

section \<open>Frames\<close>

lemma event_end_plain: "plain_line l \<Longrightarrow> event_end (l @ s) = map_option (\<lambda>n. n + length l) (event_end s)"
  by (induction l) (auto simp: plain_line_def option.map_comp comp_def option.map_ident)

lemma event_end_lines:
  assumes "\<forall>l \<in> set ls. plain_line l \<and> l \<noteq> []" "ls \<noteq> []"
  shows "event_end (concat (map (\<lambda>l. l @ [LF]) ls) @ LF # rest) = Some (length (concat (map (\<lambda>l. l @ [LF]) ls)) + 1)"
  using assms
proof (induction ls)
  case (Cons l ls)
  have l: "event_end (l @ s) = map_option (\<lambda>n. n + length l) (event_end s)" for s
    using Cons.prems event_end_plain by simp
  show ?case
  proof (cases ls)
    case Nil
    then show ?thesis by (simp add: l)
  next
    case (Cons l2 ls2)
    then obtain c cs where c: "l2 = c # cs" "c \<noteq> LF" "c \<noteq> CR"
      using \<open>\<forall>l \<in> set (l # ls). plain_line l \<and> l \<noteq> []\<close> by (cases l2) (auto simp: plain_line_def)
    have step: "event_end (LF # c # s) = map_option Suc (event_end (c # s))" for s using c by simp
    have IH: "event_end (concat (map (\<lambda>l. l @ [LF]) ls) @ LF # rest) = Some (length (concat (map (\<lambda>l. l @ [LF]) ls)) + 1)"
      using Cons.prems local.Cons by (intro Cons.IH) auto
    obtain s where s: "concat (map (\<lambda>l. l @ [LF]) ls) @ LF # rest = c # s" using local.Cons c by simp
    have "event_end (concat (map (\<lambda>l. l @ [LF]) (l # ls)) @ LF # rest) = map_option (\<lambda>n. n + length l) (event_end (LF # c # s))"
      using s l[of "LF # c # s"] by simp
    also have "\<dots> = map_option (\<lambda>n. n + length l) (map_option Suc (event_end (c # s)))" by (simp only: step)
    also have "\<dots> = Some (length (concat (map (\<lambda>l. l @ [LF]) (l # ls))) + 1)" using IH s by simp
    finally show ?thesis .
  qed
qed simp

lemma event_end_Send:
  assumes "plain_line e" "CR \<notin> set d"
  shows "event_end (Send e d @ rest) = Some (length (Send e d))"
proof -
  let ?ls = "(if e \<noteq> '''' then [''event: '' @ e] else []) @ map (\<lambda>l. ''data: '' @ l) (Split LF d)"
  have "\<forall>l \<in> set ?ls. plain_line l \<and> l \<noteq> []" using plain_Send_lines[OF assms] by auto
  moreover have "?ls \<noteq> []" by simp
  ultimately have "event_end (concat (map (\<lambda>l. l @ [LF]) ?ls) @ LF # rest) = Some (length (concat (map (\<lambda>l. l @ [LF]) ?ls)) + 1)"
    by (rule event_end_lines)
  moreover have "Send e d = concat (map (\<lambda>l. l @ [LF]) ?ls) @ [LF]" by (simp add: Send_def comp_def)
  ultimately show ?thesis by simp
qed

definition frame_ok :: "string \<times> string \<Rightarrow> bool" where
  "frame_ok f \<longleftrightarrow> plain_line (fst f) \<and> CR \<notin> set (snd f)"

definition frames :: "(string \<times> string) list \<Rightarrow> string" where
  "frames fs = concat (map (\<lambda>(e, d). Send e d) fs)"

lemma drain_frames: "\<forall>f \<in> set fs. frame_ok f \<Longrightarrow> drain (frames fs) = (map (\<lambda>(e, d). Send e d) fs, [])"
proof (induction fs)
  case Nil
  then show ?case by (simp add: frames_def drain_None)
next
  case (Cons f fs)
  obtain e d where f: "f = (e, d)" by fastforce
  have "event_end (frames (f # fs)) = Some (length (Send e d))"
    using Cons.prems event_end_Send[of e d "frames fs"] by (simp add: f frames_def frame_ok_def)
  then show ?case using Cons by (simp add: drain_Some f frames_def)
qed

lemma frames_no_CR: "\<forall>f \<in> set fs. frame_ok f \<Longrightarrow> CR \<notin> set (frames fs)"
proof (induction fs)
  case (Cons f fs)
  obtain e d where f: "f = (e, d)" by fastforce
  have "plain_line e" "CR \<notin> set d" using Cons.prems by (simp_all add: f frame_ok_def)
  note pl = plain_Send_lines[OF this]
  have "CR \<notin> set (concat (map (\<lambda>l. l @ [LF]) ls))" if "\<forall>l \<in> set ls. plain_line l" for ls
    using that by (auto simp: plain_line_def)
  from this[OF pl] have "CR \<notin> set (Send e d)" by (simp only: Send_lines not_False_eq_True)
  then show ?case using Cons by (simp add: f frames_def)
qed (simp add: frames_def)

section \<open>Properties\<close>

lemma read_frames:
  assumes "\<forall>f \<in> set fs. frame_ok f \<and> length (fst f) + 8 \<le> mx \<and> length (snd f) + 7 \<le> mx"
  shows "read_all mx (scan_lines (frames fs)) =
    (map (\<lambda>(e, d). \<lparr>seType = e, seData = d, seID = '''', seRetry = ''''\<rparr>) fs, EOF)"
  using assms
proof (induction fs)
  case Nil
  have "scan_lines [] = []" by (subst scan_lines.simps) (simp add: splitLines_def)
  then show ?case by (subst read_all.simps) (simp add: frames_def Next_def next_init_def)
next
  case (Cons f fs)
  obtain e d where f: "f = (e, d)" by fastforce
  have n: "Next mx (scan_lines (frames (f # fs))) = Inr (\<lparr>seType = e, seData = d, seID = '''', seRetry = ''''\<rparr>, scan_lines (frames fs))"
    using Cons.prems read_Send[of e d mx "frames fs"] by (simp add: f frames_def frame_ok_def)
  moreover have "scan_lines (frames (f # fs)) \<noteq> []" using n by (auto simp: Next_def next_init_def)
  ultimately show ?case using Cons by (subst read_all.simps) (simp add: f)
qed

text \<open>The event stream round trip: a body made of frames the writer sent, whose names and data hold no
  carriage return, reads back as exactly those events in order, multi-line data included, and then ends
  cleanly, whenever the line cap leaves room for the longest of them.\<close>

theorem sse_round_trip:
  assumes "\<forall>f \<in> set fs. frame_ok f \<and> length (fst f) + 8 \<le> mx \<and> length (snd f) + 7 \<le> mx"
  shows "read_all mx (scan_lines (frames fs)) =
    (map (\<lambda>(e, d). \<lparr>seType = e, seData = d, seID = '''', seRetry = ''''\<rparr>) fs, EOF)"
  using assms by (rule read_frames)

theorem sse_round_trip_witness:
  "read_all 100 (scan_lines (frames [(''ping'', ''a''), ('''', ''[DONE]'')])) =
     ([\<lparr>seType = ''ping'', seData = ''a'', seID = '''', seRetry = ''''\<rparr>, \<lparr>seType = '''', seData = ''[DONE]'', seID = '''', seRetry = ''''\<rparr>], EOF)"
  using sse_round_trip[of "[(''ping'', ''a''), ('''', ''[DONE]'')]" 100]
  by (simp add: frame_ok_def plain_line_def LF_def CR_def)

text \<open>The passthrough splitter neither loses, adds nor reorders a byte: over any chunks at all, the events it
  returned followed by what it still carries are the chunks, and what it carries holds no complete event.\<close>

theorem splitter_preserves_bytes:
  assumes "push_all \<lparr>spBuf = [], spMax = mx\<rparr> chunks = (evs, s)"
  shows "concat evs @ fst (flush s) = concat chunks \<and> (chunks \<noteq> [] \<longrightarrow> event_end (spBuf s) = None)"
proof -
  have "event_end (spBuf (snd (push_all s0 cs))) = None" if "cs \<noteq> []" for s0 cs
    using that
  proof (induction cs arbitrary: s0)
    case (Cons c cs)
    obtain e1 r1 where d: "drain (spBuf s0 @ c) = (e1, r1)" by fastforce
    then show ?case
      using Cons.IH[of "s0\<lparr>spBuf := r1\<rparr>"] drain_carry[OF d]
      by (cases cs) (auto simp: push_def split: prod.splits)
  qed simp
  then show ?thesis using assms push_all_concat[OF assms] by (auto simp: flush_def) (metis snd_conv)
qed

theorem splitter_preserves_bytes_witness:
  "concat (fst (push_all \<lparr>spBuf = [], spMax = 64\<rparr> [''data: a'', [LF, LF], ''data: b''])) = ''data: a'' @ [LF, LF]"
proof -
  let ?r = "push_all \<lparr>spBuf = [], spMax = 64\<rparr> [''data: a'', [LF, LF], ''data: b'']"
  have p: "?r = (fst ?r, snd ?r)" by simp
  have "fst (flush (snd ?r)) = ''data: b''" by code_simp
  then show ?thesis using splitter_preserves_bytes[OF p] by simp
qed

text \<open>The splitter and the framing agree whatever the chunking: frames without carriage returns, cut into
  chunks anywhere, come out as exactly the frames that were sent, each whole, with nothing left over.\<close>

theorem splitter_recovers_frames:
  assumes "\<forall>f \<in> set fs. frame_ok f" "concat chunks = frames fs"
  shows "fst (push_all \<lparr>spBuf = [], spMax = mx\<rparr> chunks) = map (\<lambda>(e, d). Send e d) fs \<and>
    spBuf (snd (push_all \<lparr>spBuf = [], spMax = mx\<rparr> chunks)) = []"
  using push_all_drain[of "\<lparr>spBuf = [], spMax = mx\<rparr>" chunks] drain_frames[OF assms(1)] frames_no_CR[OF assms(1)] assms(2)
  by simp

theorem splitter_recovers_frames_witness:
  "fst (push_all \<lparr>spBuf = [], spMax = 9\<rparr> [''da'', ''ta: x'' @ [LF], [LF]]) = [Send '''' ''x'']"
  using splitter_recovers_frames[of "[('''', ''x'')]" "[''da'', ''ta: x'' @ [LF], [LF]]" 9]
  by (simp add: frame_ok_def plain_line_def frames_def Send_def LF_def CR_def)

text \<open>With carriage returns a boundary can move with the chunking: a line feed that arrives in the chunk after a
  blank line ended by a carriage return starts the next event. No byte is lost.\<close>

lemma splitter_chunking_with_CR:
  "fst (push_all \<lparr>spBuf = [], spMax = 0\<rparr> [''a'' @ [LF, CR, LF]]) = [''a'' @ [LF, CR, LF]] \<and>
   fst (push_all \<lparr>spBuf = [], spMax = 0\<rparr> [''a'' @ [LF, CR], [LF]]) = [''a'' @ [LF, CR]]"
  by code_simp

end
