(* ===== verification/Attempt.thy ===== *)
theory Attempt
  imports Records SSE
begin

text \<open>
  One upstream call, \<^verbatim>\<open>internal/exec\<close>: the commit writer (\<^verbatim>\<open>commitwriter.go\<close>), the pre-commit buffer
  (\<^verbatim>\<open>commit.go\<close>), the attempt's context with its one breaker signal (\<^verbatim>\<open>surface.go\<close>), the translated and forwarded
  response paths (\<^verbatim>\<open>attemptStream\<close>, \<^verbatim>\<open>chatOp.Respond\<close>, \<^verbatim>\<open>forwardStream\<close>, \<^verbatim>\<open>forwardUnary\<close>) and \<^verbatim>\<open>attempt\<close> itself.

  The state threaded through a request is \<open>xstate\<close>: the breaker shared with every other request, the calls this
  request made to the health recorder, the request row, the response headers, the errors written to the
  client, and the attempt's own context. What collaborators answer (the upstream's reads, the adapter's parser,
  the dialect writer, the client's end of the connection, the clock) is an argument. \<^verbatim>\<open>slog\<close> calls, the attempt
  timer and the redaction of secrets from error texts are left out: a timer that fires is seen as the context
  view an observation carries.
\<close>

section \<open>The commit writer\<close>

text \<open>The client's end is a plan: what each further write or flush accepts and whether it fails; an exhausted
  plan accepts everything.\<close>

record CommitWriter =
  cwCommitted :: bool
  cwBytes :: int
  cwErr :: "string option"
  cwOut :: string
  cwStatus :: "int option"
  cwPlan :: "(nat \<times> string option) list"

definition NewCommitWriter :: "(nat \<times> string option) list \<Rightarrow> CommitWriter" where
  "NewCommitWriter plan =
     \<lparr>cwCommitted = False, cwBytes = 0, cwErr = None, cwOut = [], cwStatus = None, cwPlan = plan\<rparr>"

definition cw_commit :: "CommitWriter \<Rightarrow> CommitWriter" where
  "cw_commit c = c\<lparr>cwCommitted := True\<rparr>"

definition cw_fail :: "CommitWriter \<Rightarrow> string option \<Rightarrow> CommitWriter" where
  "cw_fail c err = (if err \<noteq> None \<and> cwErr c = None then c\<lparr>cwErr := err\<rparr> else c)"

definition WriteHeader :: "CommitWriter \<Rightarrow> int \<Rightarrow> CommitWriter" where
  "WriteHeader c status = (cw_commit c)\<lparr>cwStatus := (case cwStatus c of None \<Rightarrow> Some status | Some s \<Rightarrow> Some s)\<rparr>"

definition cw_Write :: "CommitWriter \<Rightarrow> string \<Rightarrow> CommitWriter" where
  "cw_Write c b =
     (if length b = 0 then c
      else
        let c1 = cw_commit c;
            (n, err) = (case cwPlan c of [] \<Rightarrow> (length b, None) | (k, e) # _ \<Rightarrow> (min k (length b), e))
        in cw_fail (c1\<lparr>cwBytes := cwBytes c1 + int n, cwOut := cwOut c1 @ take n b, cwPlan := tl (cwPlan c1)\<rparr>) err)"

definition cw_Flush :: "CommitWriter \<Rightarrow> CommitWriter" where
  "cw_Flush c =
     (let c1 = cw_commit c in
      cw_fail (c1\<lparr>cwPlan := tl (cwPlan c1)\<rparr>) (case cwPlan c of [] \<Rightarrow> None | (k, e) # _ \<Rightarrow> e))"

section \<open>The pre-commit buffer\<close>

definition IsContentBearing :: "StreamEvent \<Rightarrow> bool" where
  "IsContentBearing ev =
     (if evType ev \<noteq> EventContentDelta then False
      else case evDelta ev of
        None \<Rightarrow> False
      | Some d \<Rightarrow>
          (case dType d of
             BlockText \<Rightarrow> dText d \<noteq> ''''
           | BlockThinking \<Rightarrow> dThinking d \<noteq> ''''
           | BlockRedactedThinking \<Rightarrow> dThinking d \<noteq> ''''
           | BlockToolUse \<Rightarrow> dToolInput d \<noteq> ''''
           | _ \<Rightarrow> False))"

definition eventBytes :: "StreamEvent \<Rightarrow> int" where
  "eventBytes ev =
     64 + int (length (evID ev)) + int (length (evModel ev)) +
     (case evDelta ev of
        None \<Rightarrow> 0
      | Some d \<Rightarrow> int (length (dText d)) + int (length (dThinking d)) + int (length (dSignature d)) +
          int (length (dToolInput d)) + int (length (dToolID d)) + int (length (dToolName d))) +
     sum_list (map (\<lambda>w. int (length (wField w)) + int (length (wTarget w)) + int (length (wReason w))) (evWarnings ev))"

record preCommitBuffer =
  pbEvs :: "StreamEvent list"
  pbBytes :: int
  pbMax :: int

definition newPreCommitBuffer :: "int \<Rightarrow> preCommitBuffer" where
  "newPreCommitBuffer mx = \<lparr>pbEvs = [], pbBytes = 0, pbMax = mx\<rparr>"

definition pb_add :: "preCommitBuffer \<Rightarrow> StreamEvent \<Rightarrow> preCommitBuffer option" where
  "pb_add b ev =
     (let n = eventBytes ev in
      if pbMax b > 0 \<and> pbBytes b + n > pbMax b then None
      else Some (b\<lparr>pbBytes := pbBytes b + n, pbEvs := pbEvs b @ [ev]\<rparr>))"

definition ErrPreCommitBufferFull :: go_error where
  "ErrPreCommitBufferFull = plain_error ''exec: pre-commit buffer exceeded''"

section \<open>State\<close>

text \<open>What a request has done so far: the breaker and what it was told, the row, the response header, the errors written to the
  client, the candidates a request was sent to, and the state of the attempt under way. The signals, the errors and the
  requests sent are kept in order.\<close>

record xstate =
  xBreaker :: Breaker
  xSignals :: "(Key \<times> Signal) list"
  xRec :: RequestRecord
  xHeader :: "(string, string) gomap"
  xErrors :: "Error list"
  xSent :: "Key list"
  xCand :: Candidate
  xSeq :: nat
  xWarns :: "Warning list"
  xResp :: "Response option"
  xHealthDone :: bool
  xCW :: CommitWriter

text \<open>The wiring of the executor: whether a fleet and a health recorder are present, the parse of an HTTP date,
  the presets, the credential strategies, and the two caps of the configuration.\<close>

record exec_env =
  exFleet :: bool
  exHealth :: bool
  exParseTime :: "string \<Rightarrow> time option"
  exPresets :: Presets
  exAuthFor :: "(string \<Rightarrow> string \<Rightarrow> string \<Rightarrow> go_error option) option"
  exMaxPrecommit :: int
  exMaxLine :: nat

text \<open>The clock readings of one attempt: Retry-After parsing, the breaker's own reading, time to first byte, and
  the two latencies.\<close>

record att_clock =
  akRetryAfter :: time
  akRecord :: time
  akServed :: time
  akLatency :: duration
  akFullLatency :: duration

definition cand_key :: "Candidate \<Rightarrow> Key" where
  "cand_key c = \<lparr>hkProvider = cdProviderID c, hkKey = cdKeyID c, hkModel = cdModel c\<rparr>"

section \<open>The breaker signal\<close>

definition signal_of :: "exec_env \<Rightarrow> att_clock \<Rightarrow> Outcome \<Rightarrow> Response option \<Rightarrow> Signal" where
  "signal_of env ck oc resp =
     (case resp of
        None \<Rightarrow> \<lparr>sgOutcome = oc, sgStatusCode = 0, sgRetryAfter = 0, sgHasRetryAfter = False\<rparr>
      | Some r \<Rightarrow>
          (case ParseRetryAfter (exParseTime env) (RetryAfterHeader r) (akRetryAfter ck) of
             None \<Rightarrow> \<lparr>sgOutcome = oc, sgStatusCode = StatusCode r, sgRetryAfter = 0, sgHasRetryAfter = False\<rparr>
           | Some d \<Rightarrow> \<lparr>sgOutcome = oc, sgStatusCode = StatusCode r, sgRetryAfter = d, sgHasRetryAfter = True\<rparr>))"

definition recordHealthFor :: "exec_env \<Rightarrow> att_clock \<Rightarrow> Outcome \<Rightarrow> Response option \<Rightarrow> xstate \<Rightarrow> xstate" where
  "recordHealthFor env ck oc resp xs =
     (if \<not> exHealth env then xs
      else
        let k = cand_key (xCand xs); s = signal_of env ck oc resp in
        xs\<lparr>xBreaker := Record (xBreaker xs) (akRecord ck) k s, xSignals := xSignals xs @ [(k, s)]\<rparr>)"

definition recordHealth :: "exec_env \<Rightarrow> att_clock \<Rightarrow> Outcome \<Rightarrow> Response option \<Rightarrow> xstate \<Rightarrow> xstate" where
  "recordHealth env ck oc resp xs =
     (if xHealthDone xs then xs else recordHealthFor env ck oc resp (xs\<lparr>xHealthDone := True\<rparr>))"

definition recordFailure :: "exec_env \<Rightarrow> att_clock \<Rightarrow> Outcome \<Rightarrow> Response option \<Rightarrow> go_error option \<Rightarrow> xstate \<Rightarrow> xstate" where
  "recordFailure env ck oc resp err xs =
     recordHealth env ck oc
       (if oc = OutcomeRetryableProvider then withStatus resp (statusForParseError err) else resp) xs"

section \<open>Outcomes of a response\<close>

definition upd_rec :: "(RequestRecord \<Rightarrow> RequestRecord) \<Rightarrow> xstate \<Rightarrow> xstate" where
  "upd_rec f xs = xs\<lparr>xRec := f (xRec xs)\<rparr>"

definition ir_of :: "go_error \<Rightarrow> Error" where
  "ir_of err = (case geIR err of Some e \<Rightarrow> e | None \<Rightarrow> mk_error ErrAPI (geText err))"

definition failedAfterCommit :: "ctx_view \<Rightarrow> go_error \<Rightarrow> Outcome \<times> Error" where
  "failedAfterCommit cx err = (readOutcome cx err, ir_of err)"

definition client_write_error :: "string \<Rightarrow> go_error" where
  "client_write_error werr =
     \<lparr>geText = ''write to client failed: '' @ werr, geIR = None, geClientWrite = True\<rparr>"

definition clientFailed :: "ctx_view \<Rightarrow> string \<Rightarrow> Outcome \<times> Error" where
  "clientFailed cx werr = failedAfterCommit cx (client_write_error werr)"

definition delivered :: "ctx_view \<Rightarrow> xstate \<Rightarrow> Outcome \<times> Error option" where
  "delivered cx xs =
     (case cwErr (xCW xs) of
        Some werr \<Rightarrow> (let (oc, e) = clientFailed cx werr in (oc, Some e))
      | None \<Rightarrow> (OutcomeSuccess, None))"

definition reclassifyStream ::
    "exec_env \<Rightarrow> att_clock \<Rightarrow> ctx_view \<Rightarrow> go_error \<Rightarrow> xstate \<Rightarrow> xstate \<times> Outcome \<times> Error option" where
  "reclassifyStream env ck cx err xs =
     (let oc = readOutcome cx err;
          xs1 = recordFailure env ck oc (xResp xs) (Some err) xs;
          xs2 = upd_rec (\<lambda>r. on_last (\<lambda>a. a\<lparr>arError := geText err\<rparr>) (demoteLastAttempt r oc False)) xs1
      in (xs2, oc, Some (if oc = OutcomeClientCancelled then errorFor oc (Some err) else ir_of err)))"

definition failedParse ::
    "exec_env \<Rightarrow> att_clock \<Rightarrow> ctx_view \<Rightarrow> Response option \<Rightarrow> go_error \<Rightarrow> xstate \<Rightarrow> xstate \<times> Outcome \<times> Error option" where
  "failedParse env ck cx resp err xs =
     (let oc = readOutcome cx err;
          xs1 = upd_rec (on_last (\<lambda>a. a\<lparr>arOutcome := Outcome_string oc, arError := geText err\<rparr>)) xs;
          xs2 = recordFailure env ck oc resp (Some err) xs1
      in (xs2, oc, Some (if oc \<noteq> OutcomeClientCancelled
            then (case geIR err of Some e \<Rightarrow> e | None \<Rightarrow> errorFor oc (Some err)) else errorFor oc (Some err))))"

definition served :: "exec_env \<Rightarrow> att_clock \<Rightarrow> Warning list \<Rightarrow> xstate \<Rightarrow> xstate" where
  "served env ck warns xs =
     (let c = xCand xs; r = xRec xs;
          r1 = (if rrTTFTMs r = None then r\<lparr>rrTTFTMs := Some (go_div (time_sub (akServed ck) (rrTS r)) 1000000)\<rparr> else r);
          r2 = r1\<lparr>rrFinalProviderID := cdProviderID c, rrFinalModel := cdModel c, rrWarnings := warningStrings warns\<rparr>
      in xs\<lparr>xRec := r2,
           xBreaker := (if exFleet env then ReleaseProbe (xBreaker xs) (cand_key c) else xBreaker xs)\<rparr>)"

definition set_header :: "string \<Rightarrow> string \<Rightarrow> xstate \<Rightarrow> xstate" where
  "set_header k v xs = xs\<lparr>xHeader := AList.update k v (xHeader xs)\<rparr>"

definition writeDiagnostics :: "xstate \<Rightarrow> xstate" where
  "writeDiagnostics xs =
     set_header ''X-Darkrouter-Attempts'' (Itoa (xSeq xs))
       (set_header ''X-Darkrouter-Model'' (cdModel (xCand xs))
         (set_header ''X-Darkrouter-Provider'' (cdProviderID (xCand xs))
           (set_header ''X-Darkrouter-Request'' (rrID (xRec xs)) xs)))"

definition writeErrorDiagnostics :: "nat \<Rightarrow> xstate \<Rightarrow> xstate" where
  "writeErrorDiagnostics attempts xs =
     (let xs1 = set_header ''X-Darkrouter-Attempts'' (Itoa attempts) xs; as = rrAttempts (xRec xs) in
      if length as = 0 then xs1
      else set_header ''X-Darkrouter-Model'' (arModel (last as))
             (set_header ''X-Darkrouter-Provider'' (arProviderID (last as)) xs1))"

section \<open>Translated streams\<close>

text \<open>A pull of the adapter's parser: an event or an error, with the contexts as they stood then. The end of the
  list is the end of the stream.\<close>

type_synonym pull = "(StreamEvent + go_error) \<times> ctx_view"

text \<open>The dialect's stream writer, as the loop it is: per event or error it writes to the client and says whether
  it goes on, and at the end it may write once more.\<close>

record 'd dialect =
  dlInit :: 'd
  dlStep :: "'d \<Rightarrow> CommitWriter \<Rightarrow> StreamEvent + go_error \<Rightarrow> 'd \<times> CommitWriter \<times> bool"
  dlEnd :: "'d \<Rightarrow> CommitWriter \<Rightarrow> CommitWriter"

datatype phase_one =
    PhaseFailed ctx_view go_error RequestRecord
  | PhaseReady preCommitBuffer "StreamEvent option" "pull list" RequestRecord "Warning list"

fun drain_until_content :: "pull list \<Rightarrow> preCommitBuffer \<Rightarrow> RequestRecord \<Rightarrow> Warning list \<Rightarrow> phase_one" where
  "drain_until_content [] buf rec warns = PhaseReady buf None [] rec warns"
| "drain_until_content ((Inr err, cx) # ps) buf rec warns = PhaseFailed cx err rec"
| "drain_until_content ((Inl ev, cx) # ps) buf rec warns =
     (let rec1 = applyUsage rec (evUsage ev); warns1 = warns @ evWarnings ev in
      if IsContentBearing ev then PhaseReady buf (Some ev) ps rec1 warns1
      else case pb_add buf ev of
        None \<Rightarrow> PhaseFailed cx ErrPreCommitBufferFull rec1
      | Some buf1 \<Rightarrow> drain_until_content ps buf1 rec1 warns1)"

fun replay :: "('d, 'z) dialect_scheme \<Rightarrow> StreamEvent list \<Rightarrow> 'd \<Rightarrow> CommitWriter \<Rightarrow> 'd \<times> CommitWriter \<times> bool" where
  "replay dl [] d cw = (d, cw, True)"
| "replay dl (ev # evs) d cw =
     (case dlStep dl d cw (Inl ev) of (d1, cw1, go) \<Rightarrow> if go then replay dl evs d1 cw1 else (d1, cw1, False))"

record 'd live_state =
  lvD :: 'd
  lvCW :: CommitWriter
  lvRec :: RequestRecord
  lvWarns :: "Warning list"
  lvFailed :: "(Outcome \<times> Error) option"

fun stream_live :: "('d, 'z) dialect_scheme \<Rightarrow> pull list \<Rightarrow> 'd live_state \<Rightarrow> 'd live_state" where
  "stream_live dl [] st = st"
| "stream_live dl ((p, cx) # ps) st =
     (if cwErr (lvCW st) \<noteq> None then st
      else case p of
        Inl ev \<Rightarrow>
          let st1 = st\<lparr>lvRec := applyUsage (lvRec st) (evUsage ev), lvWarns := lvWarns st @ evWarnings ev\<rparr> in
          (case dlStep dl (lvD st1) (lvCW st1) (Inl ev) of (d, cw, go) \<Rightarrow>
             let st2 = st1\<lparr>lvD := d, lvCW := cw\<rparr> in if go then stream_live dl ps st2 else st2)
      | Inr err \<Rightarrow>
          (case dlStep dl (lvD st) (lvCW st) (Inr err) of (d, cw, go) \<Rightarrow>
             st\<lparr>lvD := d, lvCW := cw, lvFailed := Some (failedAfterCommit cx err)\<rparr>))"

text \<open>The replayed head and, unless the writer stopped, the live tail.\<close>

definition go_live ::
    "('d, 'z) dialect_scheme \<Rightarrow> StreamEvent list \<Rightarrow> pull list \<Rightarrow> Warning list \<Rightarrow> xstate \<Rightarrow> 'd live_state" where
  "go_live dl evs rest warns xs =
     (case replay dl evs (dlInit dl) (xCW xs) of (d1, cw1, go) \<Rightarrow>
        let st0 = \<lparr>lvD = d1, lvCW = cw1, lvRec = xRec xs, lvWarns = warns, lvFailed = None\<rparr> in
        if go then stream_live dl rest st0 else st0)"

definition after_commit :: "ctx_view \<Rightarrow> go_error \<Rightarrow> xstate \<Rightarrow> xstate \<times> Outcome \<times> Error option" where
  "after_commit cx err xs = (let (oc, e) = failedAfterCommit cx err in (xs, oc, Some e))"

definition deliver :: "ctx_view \<Rightarrow> xstate \<Rightarrow> xstate \<times> Outcome \<times> Error option" where
  "deliver cx xs = (let (oc, e) = delivered cx xs in (xs, oc, e))"

definition stream_result :: "('d, 'z) dialect_scheme \<Rightarrow> ctx_view \<Rightarrow> 'd live_state \<Rightarrow> xstate \<Rightarrow> xstate \<times> Outcome \<times> Error option" where
  "stream_result dl cx st xs =
     (let xs1 = xs\<lparr>xCW := dlEnd dl (lvD st) (lvCW st),
                 xRec := (lvRec st)\<lparr>rrWarnings := warningStrings (xWarns xs @ lvWarns st)\<rparr>\<rparr>
      in case lvFailed st of
           Some (oc, e) \<Rightarrow> (xs1, oc, Some e)
         | None \<Rightarrow> deliver cx xs1)"

text \<open>\<open>cx\<close> is the view of the contexts after the stream.\<close>

definition attemptStream ::
    "exec_env \<Rightarrow> att_clock \<Rightarrow> ('d, 'z) dialect_scheme \<Rightarrow> pull list \<Rightarrow> ctx_view \<Rightarrow> xstate \<Rightarrow> xstate \<times> Outcome \<times> Error option" where
  "attemptStream env ck dl pulls cx xs =
     (case drain_until_content pulls (newPreCommitBuffer (exMaxPrecommit env)) (xRec xs) [] of
        PhaseFailed cx1 err rec1 \<Rightarrow> reclassifyStream env ck cx1 err (xs\<lparr>xRec := rec1\<rparr>)
      | PhaseReady buf content rest rec1 warns1 \<Rightarrow>
          let xs1 = writeDiagnostics (served env ck (xWarns xs) (xs\<lparr>xRec := rec1\<rparr>)) in
          stream_result dl cx
            (go_live dl (pbEvs buf @ (case content of Some ev \<Rightarrow> [ev] | None \<Rightarrow> [])) rest warns1 xs1) xs1)"

section \<open>Translated unary responses\<close>

text \<open>The adapter's parse of the body: its usage and warnings, with what the dialect then writes for it, or the
  error with the contexts as they stood.\<close>

type_synonym parsed = "(Usage \<times> Warning list \<times> string list) + (go_error \<times> ctx_view)"

definition respond_unary ::
    "exec_env \<Rightarrow> att_clock \<Rightarrow> parsed \<Rightarrow> ctx_view \<Rightarrow> xstate \<Rightarrow> xstate \<times> Outcome \<times> Error option" where
  "respond_unary env ck parsed cx xs =
     (case parsed of
        Inr (err, cx1) \<Rightarrow> failedParse env ck cx1 (xResp xs) err xs
      | Inl (usage, warns, writes) \<Rightarrow>
          let xs1 = upd_rec (\<lambda>r. applyUsage r (Some usage)) xs;
              xs2 = writeDiagnostics (served env ck (xWarns xs1 @ warns) xs1);
              xs3 = xs2\<lparr>xCW := foldl cw_Write (xCW xs2) writes\<rparr>
          in deliver cx xs3)"

datatype 'd chat_input = ChatStream "'d dialect" "pull list" | ChatUnary parsed

text \<open>\<^verbatim>\<open>chatOp.Respond\<close>: the request says which of the two it is.\<close>

definition chat_Respond ::
    "exec_env \<Rightarrow> att_clock \<Rightarrow> 'd chat_input \<Rightarrow> ctx_view \<Rightarrow> xstate \<Rightarrow> xstate \<times> Outcome \<times> Error option" where
  "chat_Respond env ck inp cx xs =
     (case inp of
        ChatStream dl pulls \<Rightarrow> attemptStream env ck dl pulls cx xs
      | ChatUnary p \<Rightarrow> respond_unary env ck p cx xs)"

section \<open>Forwarded streams\<close>

text \<open>What the adapter recognises in one raw event.\<close>

record RawEvent =
  reContent :: bool
  reErrPayload :: string
  reUsage :: "Usage option"
  reUsageOnly :: bool
  reTerminal :: bool

text \<open>The forwarding adapter: its event recogniser, the first error its stream parser gives for an event, the usage
  it finds in a body, and the typed error its response parser finds there; with whether a body is JSON at all.\<close>

record forwarder =
  fwRecognize :: "Event \<Rightarrow> RawEvent"
  fwStreamError :: "string \<Rightarrow> go_error option"
  fwUsage :: "string \<Rightarrow> Usage option"
  fwParseError :: "string \<Rightarrow> Error option"
  fwJSONValid :: "string \<Rightarrow> bool"

definition zero_raw :: RawEvent where
  "zero_raw = \<lparr>reContent = False, reErrPayload = '''', reUsage = None, reUsageOnly = False, reTerminal = False\<rparr>"

definition forwardedStreamError :: "forwarder \<Rightarrow> string \<Rightarrow> string \<Rightarrow> go_error" where
  "forwardedStreamError fw raw payload =
     (case fwStreamError fw raw of Some e \<Rightarrow> e | None \<Rightarrow> plain_error payload)"

record fstate =
  fsX :: xstate
  fsPending :: "string list"
  fsPendingBytes :: int
  fsCommitted :: bool
  fsUsage :: Usage
  fsFailed :: "go_error option"
  fsTerminated :: bool

definition forwardedResponseHeaders :: "string list" where
  "forwardedResponseHeaders = [''content-type'', ''cache-control'', ''x-request-id'']"

definition forwarded_header :: "string \<Rightarrow> bool" where
  "forwarded_header k =
     (let lk = ToLower k in lk \<in> set forwardedResponseHeaders \<or> HasPrefix lk ''x-ratelimit-'')"

text \<open>Headers are a list here: \<^verbatim>\<open>Add\<close> appends, and a later \<^verbatim>\<open>Set\<close> replaces.\<close>

definition copyResponseHeaders :: "(string \<times> string) list \<Rightarrow> (string, string) gomap \<Rightarrow> (string, string) gomap" where
  "copyResponseHeaders src dst = dst @ filter (\<lambda>(k, v). forwarded_header k) src"

definition fw_commit ::
    "exec_env \<Rightarrow> att_clock \<Rightarrow> (string \<times> string) list \<Rightarrow> int \<Rightarrow> fstate \<Rightarrow> fstate" where
  "fw_commit env ck hdrs status fs =
     (let xs1 = served env ck (xWarns (fsX fs)) (fsX fs);
          xs2 = xs1\<lparr>xHeader := copyResponseHeaders hdrs (xHeader xs1)\<rparr>;
          xs3 = writeDiagnostics xs2;
          cw = cw_Flush (foldl cw_Write (WriteHeader (xCW xs3) status) (fsPending fs))
      in fs\<lparr>fsCommitted := True, fsX := xs3\<lparr>xCW := cw\<rparr>, fsPending := [], fsPendingBytes := 0\<rparr>)"

definition fw_write :: "string \<Rightarrow> fstate \<Rightarrow> fstate" where
  "fw_write raw fs = fs\<lparr>fsX := (fsX fs)\<lparr>xCW := cw_Flush (cw_Write (xCW (fsX fs)) raw)\<rparr>\<rparr>"

text \<open>\<open>step\<close>: one whole event; \<open>Inr\<close> goes on, \<open>Inl\<close> ends the attempt.\<close>

definition fw_step ::
    "exec_env \<Rightarrow> att_clock \<Rightarrow> forwarder \<Rightarrow> (string \<times> string) list \<Rightarrow> int \<Rightarrow> bool \<Rightarrow> ctx_view \<Rightarrow> string \<Rightarrow> fstate
       \<Rightarrow> (xstate \<times> Outcome \<times> Error option) + fstate" where
  "fw_step env ck fw hdrs status strip cx raw fs0 =
     (let re = (case parseEvent raw (exMaxLine env) of Some ev \<Rightarrow> fwRecognize fw ev | None \<Rightarrow> zero_raw);
          u = mergeUsage (fsUsage fs0) (reUsage re);
          fs = (if reUsage re \<noteq> None
                then fs0\<lparr>fsUsage := u, fsX := upd_rec (\<lambda>r. applyUsage r (Some u)) (fsX fs0)\<rparr> else fs0)
      in if \<not> fsCommitted fs then
           (if reErrPayload re \<noteq> '''' then
              Inl (reclassifyStream env ck cx (forwardedStreamError fw raw (reErrPayload re)) (fsX fs))
            else if reContent re then Inr (fw_write raw (fw_commit env ck hdrs status fs))
            else if exMaxPrecommit env > 0 \<and> fsPendingBytes fs + int (length raw) > exMaxPrecommit env then
              Inl (reclassifyStream env ck cx ErrPreCommitBufferFull (fsX fs))
            else
              let fs1 = fs\<lparr>fsPendingBytes := fsPendingBytes fs + int (length raw)\<rparr> in
              Inr (if strip \<and> reUsageOnly re then fs1 else fs1\<lparr>fsPending := fsPending fs1 @ [raw]\<rparr>))
         else
           let fs1 = (if reErrPayload re \<noteq> '''' \<and> fsFailed fs = None
                      then fs\<lparr>fsFailed := Some (forwardedStreamError fw raw (reErrPayload re))\<rparr> else fs)
           in Inr (if strip \<and> reUsageOnly re then fs1
                   else (fw_write raw fs1)\<lparr>fsTerminated := fsTerminated fs1 \<or> reTerminal re\<rparr>))"

definition clientGone :: "ctx_view \<Rightarrow> string \<Rightarrow> fstate \<Rightarrow> xstate \<times> Outcome \<times> Error option" where
  "clientGone cx werr fs =
     (case fsFailed fs of
        Some err \<Rightarrow> after_commit cx err (fsX fs)
      | None \<Rightarrow> (let (oc, e) = clientFailed cx werr in (fsX fs, oc, Some e)))"

fun fw_steps ::
    "exec_env \<Rightarrow> att_clock \<Rightarrow> forwarder \<Rightarrow> (string \<times> string) list \<Rightarrow> int \<Rightarrow> bool \<Rightarrow> ctx_view \<Rightarrow> string list \<Rightarrow> fstate
       \<Rightarrow> (xstate \<times> Outcome \<times> Error option) + fstate" where
  "fw_steps env ck fw hdrs status strip cx [] fs = Inr fs"
| "fw_steps env ck fw hdrs status strip cx (raw # raws) fs =
     (case fw_step env ck fw hdrs status strip cx raw fs of
        Inl r \<Rightarrow> Inl r
      | Inr fs1 \<Rightarrow>
          (case cwErr (xCW (fsX fs1)) of
             Some werr \<Rightarrow> Inl (clientGone cx werr fs1)
           | None \<Rightarrow> fw_steps env ck fw hdrs status strip cx raws fs1))"

text \<open>A read of the upstream body: its bytes, and how it ended.\<close>

datatype read_end = ReadMore | ReadEOF | ReadFail go_error

type_synonym body_read = "string \<times> read_end \<times> ctx_view"

definition write_err :: "CommitWriter \<Rightarrow> string option" where
  "write_err c = (case cwPlan c of [] \<Rightarrow> None | (k, e) # _ \<Rightarrow> e)"

text \<open>\<^verbatim>\<open>copyFlushing\<close>: the error it returns, if any, with the contexts as they stood.\<close>

fun copyFlushing :: "body_read list \<Rightarrow> CommitWriter \<Rightarrow> CommitWriter \<times> (go_error \<times> ctx_view) option" where
  "copyFlushing [] cw = (cw, None)"
| "copyFlushing ((chunk, fin, cx) # rest) cw =
     (let werr = (if chunk = [] then None else write_err cw);
          cw1 = cw_Write cw chunk
      in case werr of
           Some e \<Rightarrow> (cw1, Some (client_write_error e, cx))
         | None \<Rightarrow>
             let cw2 = (if chunk = [] then cw1 else cw_Flush cw1) in
             (case (if chunk = [] then None else cwErr cw2) of
                Some e \<Rightarrow> (cw2, Some (client_write_error e, cx))
              | None \<Rightarrow>
                  (case fin of
                     ReadMore \<Rightarrow> copyFlushing rest cw2
                   | ReadEOF \<Rightarrow> (cw2, None)
                   | ReadFail err \<Rightarrow> (cw2, Some (err, cx)))))"

definition ErrEventTooLong :: go_error where
  "ErrEventTooLong = plain_error ''exec: forwarded event exceeds the line cap''"

definition recordWarning :: "string \<Rightarrow> fstate \<Rightarrow> fstate" where
  "recordWarning reason fs =
     (let c = xCand (fsX fs) in
      fs\<lparr>fsX := upd_rec (\<lambda>r. r\<lparr>rrWarnings := rrWarnings r @
        [Warning_String \<lparr>wField = ''passthrough'', wTarget = cdProviderID c @ ''/'' @ cdModel c, wReason = reason\<rparr>]\<rparr>) (fsX fs)\<rparr>)"

definition write_tail :: "string \<Rightarrow> fstate \<Rightarrow> fstate" where
  "write_tail tail fs = fs\<lparr>fsX := (fsX fs)\<lparr>xCW := cw_Write (xCW (fsX fs)) tail\<rparr>\<rparr>"

text \<open>The carry outgrew the cap: before commit a failed attempt, after it the rest goes out raw.\<close>

definition forward_overflow ::
    "exec_env \<Rightarrow> att_clock \<Rightarrow> ctx_view \<Rightarrow> body_read list \<Rightarrow> string \<Rightarrow> fstate \<Rightarrow> xstate \<times> Outcome \<times> Error option" where
  "forward_overflow env ck cx rest tail fs =
     (if \<not> fsCommitted fs then reclassifyStream env ck cx ErrEventTooLong (fsX fs)
      else
        let fs1 = recordWarning (''scanner error after commit, forwarding raw: '' @ geText ErrEventTooLong) (write_tail tail fs);
            (cw, err) = copyFlushing rest (cw_Flush (xCW (fsX fs1)));
            fs2 = fs1\<lparr>fsX := (fsX fs1)\<lparr>xCW := cw\<rparr>\<rparr>
        in case err of
             Some (e, cx1) \<Rightarrow> after_commit cx1 e (fsX fs2)
           | None \<Rightarrow>
               (case cwErr cw of
                  Some werr \<Rightarrow> clientGone cx werr fs2
                | None \<Rightarrow> (fsX fs2, OutcomeSuccess, None)))"

text \<open>The upstream connection failed. \<open>se\<close> is what the dialect writes for a terminal in-stream error.\<close>

definition forward_broken ::
    "exec_env \<Rightarrow> att_clock \<Rightarrow> (Error \<Rightarrow> string list) \<Rightarrow> ctx_view \<Rightarrow> go_error \<Rightarrow> string \<Rightarrow> fstate \<Rightarrow> xstate \<times> Outcome \<times> Error option" where
  "forward_broken env ck se cx rerr tail fs =
     (if \<not> fsCommitted fs then reclassifyStream env ck cx rerr (fsX fs)
      else
        let cause = (case fsFailed fs of Some e \<Rightarrow> e | None \<Rightarrow> rerr);
            (oc, ie) = failedAfterCommit cx cause;
            fs1 = write_tail tail fs
        in if fsTerminated fs \<and> fsFailed fs = None then
             (case cwErr (xCW (fsX fs1)) of
                Some werr \<Rightarrow> clientGone cx werr fs1
              | None \<Rightarrow> (fsX fs1, OutcomeSuccess, None))
           else
             let fs2 = recordWarning (''upstream connection failed after commit: '' @ geText rerr) fs1;
                 xs = fsX fs2
             in (if fsFailed fs = None
                 then xs\<lparr>xCW := foldl cw_Write (xCW xs) (se (mk_error ErrAPI ''upstream read failed''))\<rparr> else xs,
                 oc, Some ie))"

text \<open>The upstream closed cleanly: what is left in the carry is an event of its own, and a response with no content
  is committed as the empty completion it is.\<close>

definition forward_finish ::
    "exec_env \<Rightarrow> att_clock \<Rightarrow> forwarder \<Rightarrow> (string \<times> string) list \<Rightarrow> int \<Rightarrow> bool \<Rightarrow> ctx_view \<Rightarrow> string \<Rightarrow> fstate
       \<Rightarrow> xstate \<times> Outcome \<times> Error option" where
  "forward_finish env ck fw hdrs status strip cx tail fs =
     (case (if tail = [] then Inr fs else fw_step env ck fw hdrs status strip cx tail fs) of
        Inl r \<Rightarrow> r
      | Inr fs1 \<Rightarrow>
          let fs2 = (if \<not> fsCommitted fs1 then fw_commit env ck hdrs status fs1 else fs1) in
          (case cwErr (xCW (fsX fs2)) of
             Some werr \<Rightarrow> clientGone cx werr fs2
           | None \<Rightarrow>
               (case fsFailed fs2 of
                  Some e \<Rightarrow> after_commit cx e (fsX fs2)
                | None \<Rightarrow> (fsX fs2, OutcomeSuccess, None))))"

fun forward_loop ::
    "exec_env \<Rightarrow> att_clock \<Rightarrow> forwarder \<Rightarrow> (Error \<Rightarrow> string list) \<Rightarrow> (string \<times> string) list \<Rightarrow> int \<Rightarrow> bool \<Rightarrow> ctx_view
       \<Rightarrow> body_read list \<Rightarrow> eventSplitter \<Rightarrow> fstate \<Rightarrow> xstate \<times> Outcome \<times> Error option" where
  "forward_loop env ck fw se hdrs status strip cxe [] sp fs =
     forward_finish env ck fw hdrs status strip cxe (fst (flush sp)) fs"
| "forward_loop env ck fw se hdrs status strip cxe ((chunk, fin, cx) # rest) sp fs =
     (let (evs, over, sp1) = (if chunk = [] then ([], False, sp) else push sp chunk) in
      case fw_steps env ck fw hdrs status strip cx evs fs of
        Inl r \<Rightarrow> r
      | Inr fs1 \<Rightarrow>
          if over then
            forward_overflow env ck cx (if fin = ReadMore then rest else [([], fin, cx)]) (fst (flush sp1)) fs1
          else
            (case fin of
               ReadMore \<Rightarrow> forward_loop env ck fw se hdrs status strip cxe rest sp1 fs1
             | ReadEOF \<Rightarrow> forward_finish env ck fw hdrs status strip cx (fst (flush sp1)) fs1
             | ReadFail err \<Rightarrow> forward_broken env ck se cx err (fst (flush sp1)) fs1))"

definition forwardStream ::
    "exec_env \<Rightarrow> att_clock \<Rightarrow> forwarder \<Rightarrow> (Error \<Rightarrow> string list) \<Rightarrow> (string \<times> string) list \<Rightarrow> bool \<Rightarrow> body_read list
       \<Rightarrow> ctx_view \<Rightarrow> xstate \<Rightarrow> xstate \<times> Outcome \<times> Error option" where
  "forwardStream env ck fw se hdrs strip reads cx xs =
     forward_loop env ck fw se hdrs (case xResp xs of Some r \<Rightarrow> StatusCode r | None \<Rightarrow> 0) strip cx reads
       \<lparr>spBuf = [], spMax = int (exMaxLine env)\<rparr>
       \<lparr>fsX = xs, fsPending = [], fsPendingBytes = 0, fsCommitted = False, fsUsage = zero_usage,
        fsFailed = None, fsTerminated = False\<rparr>"

section \<open>Forwarded unary responses\<close>

definition unservableBody :: "forwarder \<Rightarrow> int \<Rightarrow> string \<Rightarrow> go_error option" where
  "unservableBody fw status body =
     (if \<not> fwJSONValid fw body then Some (plain_error ''upstream returned a 2xx body that is not valid JSON'')
      else if reErrPayload (fwRecognize fw (zero_sse\<lparr>seData := body\<rparr>)) = '''' then None
      else case fwParseError fw body of
        Some e \<Rightarrow> Some (of_ir_error e)
      | None \<Rightarrow> Some (plain_error (''upstream returned an error body under status '' @ Itoa (nat status))))"

definition maxForwardedUnaryBytes :: nat where
  "maxForwardedUnaryBytes = 33554432"

text \<open>\<open>body\<close> is what \<^verbatim>\<open>io.ReadAll\<close> of the limited body returned with \<open>rerr\<close>, \<open>rest\<close> what follows an oversized one.\<close>

definition forwardUnary ::
    "exec_env \<Rightarrow> att_clock \<Rightarrow> forwarder \<Rightarrow> (string \<times> string) list \<Rightarrow> string \<Rightarrow> (go_error \<times> ctx_view) option \<Rightarrow> body_read list
       \<Rightarrow> ctx_view \<Rightarrow> xstate \<Rightarrow> xstate \<times> Outcome \<times> Error option" where
  "forwardUnary env ck fw hdrs body rerr rest cx xs =
     (let status = (case xResp xs of Some r \<Rightarrow> StatusCode r | None \<Rightarrow> 0);
          oversize = length body > maxForwardedUnaryBytes;
          c = xCand xs;
          target = cdProviderID c @ ''/'' @ cdModel c;
          bad = (case rerr of
              Some (e, cx1) \<Rightarrow> if oversize then None else Some (wrap_error ''upstream read failed'' e, cx1)
            | None \<Rightarrow> if oversize then None else map_option (\<lambda>e. (e, cx)) (unservableBody fw status body))
      in case bad of
           Some (e, cx1) \<Rightarrow> failedParse env ck cx1 (xResp xs) e xs
         | None \<Rightarrow>
             let (xs1, warns) =
                   (if oversize then (xs, xWarns xs @ [\<lparr>wField = ''usage'', wTarget = target,
                      wReason = ''the response exceeded the buffer for usage extraction; tokens are unknown''\<rparr>])
                    else case fwUsage fw body of
                      Some u \<Rightarrow> (upd_rec (\<lambda>r. applyUsage r (Some u)) xs, xWarns xs)
                    | None \<Rightarrow> (xs, xWarns xs @ [\<lparr>wField = ''usage'', wTarget = target,
                        wReason = ''the response carried no usage; tokens are recorded as unknown''\<rparr>]));
                 xs2 = served env ck warns xs1;
                 xs3 = writeDiagnostics (xs2\<lparr>xHeader := copyResponseHeaders hdrs (xHeader xs2)\<rparr>);
                 cw = cw_Write (WriteHeader (xCW xs3) status) body;
                 (cw1, err) = (if oversize then copyFlushing rest cw else (cw, None));
                 xs4 = xs3\<lparr>xCW := cw1\<rparr>
             in case err of
                  Some (e, cx1) \<Rightarrow> after_commit cx1 e xs4
                | None \<Rightarrow> deliver cx xs4)"

section \<open>What a response may change\<close>

text \<open>The columns of the row that no response path touches, and that an earlier attempt's row stays as it was.\<close>

definition row_key :: "AttemptRecord \<Rightarrow> Key" where
  "row_key a = \<lparr>hkProvider = arProviderID a, hkKey = arKeyID a, hkModel = arModel a\<rparr>"

definition rec_frame :: "RequestRecord \<Rightarrow> RequestRecord \<Rightarrow> bool" where
  "rec_frame r r' \<longleftrightarrow> rrID r' = rrID r \<and> rrTS r' = rrTS r \<and> rrStatus r' = rrStatus r \<and> rrErrorCode r' = rrErrorCode r \<and>
     rrSkips r' = rrSkips r \<and> rrCandidates r' = rrCandidates r \<and>
     length (rrAttempts r') = length (rrAttempts r) \<and> butlast (rrAttempts r') = butlast (rrAttempts r) \<and>
     map row_key (rrAttempts r') = map row_key (rrAttempts r)"

definition kept :: "xstate \<Rightarrow> xstate \<Rightarrow> bool" where
  "kept xs xs' \<longleftrightarrow> xCand xs' = xCand xs \<and> xSeq xs' = xSeq xs \<and> xErrors xs' = xErrors xs \<and> xSent xs' = xSent xs \<and> xResp xs' = xResp xs \<and>
     claims (xBreaker xs') \<subseteq> claims (xBreaker xs) \<and> rec_frame (xRec xs) (xRec xs')"

definition quiet :: "xstate \<Rightarrow> xstate \<Rightarrow> bool" where
  "quiet xs xs' \<longleftrightarrow> kept xs xs' \<and> xSignals xs' = xSignals xs \<and> xHealthDone xs' = xHealthDone xs"

text \<open>A response that failed before anything was written: the one signal may already be out, the client's end is
  untouched.\<close>

definition signalled :: "exec_env \<Rightarrow> Outcome \<Rightarrow> xstate \<Rightarrow> xstate \<Rightarrow> bool" where
  "signalled env oc xs xs' \<longleftrightarrow> kept xs xs' \<and> xCW xs' = xCW xs \<and> xHealthDone xs' \<and>
     (if xHealthDone xs \<or> \<not> exHealth env then xSignals xs' = xSignals xs
      else \<exists>s. sgOutcome s = oc \<and> xSignals xs' = xSignals xs @ [(cand_key (xCand xs), s)] \<and>
             claims (xBreaker xs') \<inter> {cand_key (xCand xs), cred_key (cand_key (xCand xs))} = {})"

definition responds :: "exec_env \<Rightarrow> xstate \<Rightarrow> xstate \<times> Outcome \<times> Error option \<Rightarrow> bool" where
  "responds env xs out \<longleftrightarrow> (case out of (xs', oc, e) \<Rightarrow>
     (e = None \<longleftrightarrow> oc = OutcomeSuccess) \<and> (quiet xs xs' \<or> oc \<noteq> OutcomeSuccess \<and> signalled env oc xs xs'))"

lemma map_last_frame [simp]:
  "length (map_last f xs) = length xs" "butlast (map_last f xs) = butlast xs" "map_last f xs = [] \<longleftrightarrow> xs = []"
  by (simp_all add: map_last_def)

lemma map_map_last: "(\<And>x. g (f x) = g x) \<Longrightarrow> map g (map_last f xs) = map g xs"
  by (cases xs rule: rev_cases) (simp_all add: map_last_def)

lemma row_key_simps [simp]:
  "row_key (a\<lparr>arOutcome := x1\<rparr>) = row_key a" "row_key (a\<lparr>arError := x2\<rparr>) = row_key a"
  "row_key (a\<lparr>arTokensIn := x3\<rparr>) = row_key a" "row_key (a\<lparr>arTokensOut := x4\<rparr>) = row_key a"
  "row_key (a\<lparr>arLatencyMs := x5\<rparr>) = row_key a" "row_key (a\<lparr>arCostMicros := x6\<rparr>) = row_key a"
  by (simp_all add: row_key_def)

lemma rec_frame_refl [simp, intro]: "rec_frame r r" by (simp add: rec_frame_def)

lemma rec_frame_trans [trans]: "rec_frame r s \<Longrightarrow> rec_frame s t \<Longrightarrow> rec_frame r t" by (simp add: rec_frame_def)

lemma rec_frame_on_last [intro]: "(\<And>a. row_key (f a) = row_key a) \<Longrightarrow> rec_frame r (on_last f r)"
  by (simp add: rec_frame_def on_last_def map_map_last)

lemma rec_frame_small [simp, intro]:
  "rec_frame r (r\<lparr>rrWarnings := w\<rparr>)" "rec_frame r (applyUsage r u)" "rec_frame r (r\<lparr>rrTTFTMs := t\<rparr>)"
  "rec_frame r (r\<lparr>rrFinalProviderID := p, rrFinalModel := m, rrWarnings := w\<rparr>)"
  by (auto simp: rec_frame_def applyUsage_def split: option.splits)

lemma rec_frame_demote [simp, intro]: "rec_frame r (demoteLastAttempt r oc com)"
  by (auto simp: rec_frame_def demoteLastAttempt_def Let_def on_last_def map_map_last)

lemma kept_refl [simp, intro]: "kept xs xs" by (simp add: kept_def)
lemma kept_trans [trans]: "kept a b \<Longrightarrow> kept b c \<Longrightarrow> kept a c"
  unfolding kept_def using rec_frame_trans by fastforce
lemma quiet_refl [simp, intro]: "quiet xs xs" by (simp add: quiet_def)
lemma quiet_trans [trans]: "quiet a b \<Longrightarrow> quiet b c \<Longrightarrow> quiet a c"
  unfolding quiet_def using kept_trans by auto

lemma quiet_upd_rec [intro]: "rec_frame (xRec xs) (f (xRec xs)) \<Longrightarrow> quiet xs (upd_rec f xs)"
  by (simp add: quiet_def kept_def upd_rec_def)

lemma quiet_rec: "rec_frame (xRec xs) r \<Longrightarrow> quiet xs (xs\<lparr>xRec := r\<rparr>)"
  by (simp add: quiet_def kept_def)

lemma quiet_small [simp, intro]:
  "quiet xs (xs\<lparr>xCW := cw\<rparr>)" "quiet xs (xs\<lparr>xHeader := h\<rparr>)" "quiet xs (set_header k v xs)" "quiet xs (writeDiagnostics xs)"
  by (simp_all add: quiet_def kept_def set_header_def writeDiagnostics_def)

lemma quiet_served [simp, intro]: "quiet xs (served env ck ws xs)"
  by (auto simp: quiet_def kept_def served_def Let_def claims_ReleaseProbe rec_frame_def)

lemma xCW_frames [simp]:
  "xCW (served env ck ws xs) = xCW xs" "xCW (writeDiagnostics xs) = xCW xs" "xCW (upd_rec f xs) = xCW xs"
  "xCW (set_header k v xs) = xCW xs"
  by (simp_all add: served_def writeDiagnostics_def upd_rec_def set_header_def Let_def)

lemma claims_record_sub: "claims (Record b now k s) \<subseteq> claims b" by (simp add: claims_Record)

lemma signal_of_outcome [simp]: "sgOutcome (signal_of env ck oc resp) = oc"
  by (simp add: signal_of_def split: option.splits)

lemma recordHealth_signalled: "signalled env oc xs (recordHealth env ck oc resp xs)"
  by (auto simp: signalled_def kept_def recordHealth_def recordHealthFor_def Let_def claims_Record)

lemma recordFailure_signalled: "signalled env oc xs (recordFailure env ck oc resp err xs)"
  unfolding recordFailure_def by (rule recordHealth_signalled)

lemma signalled_kept: "signalled env oc xs xs' \<Longrightarrow> kept xs xs'" by (simp add: signalled_def)

lemma signalled_upd_rec:
  assumes "signalled env oc xs xs'" "rec_frame (xRec xs') (f (xRec xs'))"
  shows "signalled env oc xs (upd_rec f xs')"
proof -
  have "kept xs (upd_rec f xs')"
    using assms rec_frame_trans by (auto simp: signalled_def kept_def upd_rec_def)
  moreover have "xSignals (upd_rec f xs') = xSignals xs'" "xBreaker (upd_rec f xs') = xBreaker xs'"
    "xHealthDone (upd_rec f xs') = xHealthDone xs'"
    by (simp_all add: upd_rec_def)
  ultimately show ?thesis using assms(1) by (auto simp: signalled_def)
qed

lemma quiet_signalled:
  assumes "quiet xs xs1" "xCW xs1 = xCW xs" "signalled env oc xs1 xs2" shows "signalled env oc xs xs2"
proof -
  have "kept xs xs2" using assms kept_trans by (auto simp: quiet_def signalled_def)
  then show ?thesis using assms by (auto simp: quiet_def kept_def signalled_def)
qed

lemma reclassify_signalled:
  "reclassifyStream env ck cx err xs = (xs', oc, e) \<Longrightarrow> signalled env oc xs xs' \<and> e \<noteq> None"
  unfolding reclassifyStream_def Let_def
  by (auto intro!: signalled_upd_rec recordFailure_signalled intro: rec_frame_trans[OF rec_frame_demote rec_frame_on_last])

lemma readOutcome_not_success [simp]: "readOutcome cx err \<noteq> OutcomeSuccess"
  by (auto simp: readOutcome_def outcomeForParseError_def split: option.splits)

lemma reclassify_outcome: "reclassifyStream env ck cx err xs = (xs', oc, e) \<Longrightarrow> oc = readOutcome cx err"
  by (auto simp: reclassifyStream_def Let_def)

lemma responds_reclassify:
  assumes "quiet xs xs1" "xCW xs1 = xCW xs" shows "responds env xs (reclassifyStream env ck cx err xs1)"
  using reclassify_signalled[of env ck cx err xs1] reclassify_outcome[of env ck cx err xs1] quiet_signalled[OF assms]
  by (cases "reclassifyStream env ck cx err xs1") (auto simp: responds_def)

lemma responds_failedParse:
  assumes "quiet xs xs1" "xCW xs1 = xCW xs" shows "responds env xs (failedParse env ck cx resp err xs1)"
proof -
  let ?oc = "readOutcome cx err"
  let ?xs2 = "upd_rec (on_last (\<lambda>a. a\<lparr>arOutcome := Outcome_string ?oc, arError := geText err\<rparr>)) xs1"
  have "quiet xs ?xs2" by (rule quiet_trans[OF assms(1)]) (auto intro!: quiet_upd_rec rec_frame_on_last)
  then have "signalled env ?oc xs (recordFailure env ck ?oc resp (Some err) ?xs2)"
    using assms(2) by (intro quiet_signalled[OF _ _ recordFailure_signalled]) simp_all
  then show ?thesis by (simp add: failedParse_def responds_def Let_def)
qed

lemma responds_quiet:
  "quiet xs xs' \<Longrightarrow> (e = None \<longleftrightarrow> oc = OutcomeSuccess) \<Longrightarrow> responds env xs (xs', oc, e)"
  by (simp add: responds_def)

lemma failedAfterCommit_not_success [simp]: "fst (failedAfterCommit cx err) \<noteq> OutcomeSuccess"
  "fst (clientFailed cx w) \<noteq> OutcomeSuccess"
  by (simp_all add: failedAfterCommit_def clientFailed_def)

lemma delivered_ok: "delivered cx xs = (oc, e) \<Longrightarrow> e = None \<longleftrightarrow> oc = OutcomeSuccess"
  by (auto simp: delivered_def clientFailed_def failedAfterCommit_def split: option.splits)

section \<open>Every response path keeps the contract\<close>

lemma drain_frame:
  "drain_until_content ps buf rec warns = PhaseFailed cx err rec1 \<Longrightarrow> rec_frame rec rec1"
  "drain_until_content ps buf rec warns = PhaseReady buf1 ev rest rec1 warns1 \<Longrightarrow> rec_frame rec rec1"
proof (induction ps buf rec warns rule: drain_until_content.induct)
  case (3 ev cx ps buf rec warns)
  { case 1 then show ?case using 3(1,2) rec_frame_trans[OF rec_frame_small(2)]
      by (fastforce simp: Let_def split: if_splits option.splits) }
  { case 2 then show ?case using 3(1,2) rec_frame_trans[OF rec_frame_small(2)]
      by (fastforce simp: Let_def split: if_splits option.splits) }
qed (auto)

lemma live_frame: "rec_frame (lvRec st) (lvRec (stream_live dl ps st))"
proof (induction ps arbitrary: st)
  case (Cons q ps)
  obtain p cx where q: "q = (p, cx)" by (cases q)
  show ?case
  proof (cases p)
    case (Inl ev)
    let ?st1 = "st\<lparr>lvRec := applyUsage (lvRec st) (evUsage ev), lvWarns := lvWarns st @ evWarnings ev\<rparr>"
    obtain d cw go where ds: "dlStep dl (lvD st) (lvCW st) (Inl ev) = (d, cw, go)" by (metis prod_cases3)
    show ?thesis
      using Cons[of "?st1\<lparr>lvD := d, lvCW := cw\<rparr>"] rec_frame_trans[OF rec_frame_small(2)[of "lvRec st" "evUsage ev"]]
      by (simp add: q Inl ds Let_def)
  qed (simp add: q split: prod.splits)
qed simp

lemma live_failed:
  "lvFailed (stream_live dl ps st) = Some (oc, e) \<Longrightarrow> (lvFailed st = Some (oc, e) \<or> oc \<noteq> OutcomeSuccess)"
proof (induction dl ps st rule: stream_live.induct)
  case (2 dl p cx ps st)
  then show ?case
    by (auto simp: Let_def failedAfterCommit_def split: prod.splits sum.splits if_splits)
qed simp

lemma responds_after_commit: "quiet xs xs' \<Longrightarrow> responds env xs (after_commit cx err xs')"
  by (simp add: after_commit_def failedAfterCommit_def responds_quiet)

lemma responds_deliver: "quiet xs xs' \<Longrightarrow> responds env xs (deliver cx xs')"
  using delivered_ok[of cx xs'] by (cases "delivered cx xs'") (simp add: deliver_def responds_quiet)

lemma go_live_frame: "rec_frame (xRec xs) (lvRec (go_live dl evs rest warns xs))"
proof -
  obtain d1 cw1 go where "replay dl evs (dlInit dl) (xCW xs) = (d1, cw1, go)" by (metis prod_cases3)
  then show ?thesis
    using live_frame[of "\<lparr>lvD = d1, lvCW = cw1, lvRec = xRec xs, lvWarns = warns, lvFailed = None\<rparr>" dl rest]
    by (simp add: go_live_def Let_def)
qed

lemma go_live_failed: "lvFailed (go_live dl evs rest warns xs) = Some (oc, e) \<Longrightarrow> oc \<noteq> OutcomeSuccess"
proof -
  assume a: "lvFailed (go_live dl evs rest warns xs) = Some (oc, e)"
  obtain d1 cw1 go where "replay dl evs (dlInit dl) (xCW xs) = (d1, cw1, go)" by (metis prod_cases3)
  then show ?thesis
    using a live_failed[of dl rest "\<lparr>lvD = d1, lvCW = cw1, lvRec = xRec xs, lvWarns = warns, lvFailed = None\<rparr>" oc e]
    by (simp add: go_live_def Let_def split: if_splits)
qed

lemma responds_stream_result:
  assumes "quiet xs0 xs" "rec_frame (xRec xs) (lvRec st)" "\<And>oc e. lvFailed st = Some (oc, e) \<Longrightarrow> oc \<noteq> OutcomeSuccess"
  shows "responds env xs0 (stream_result dl cx st xs)"
proof -
  let ?xs1 = "xs\<lparr>xCW := dlEnd dl (lvD st) (lvCW st),
                xRec := (lvRec st)\<lparr>rrWarnings := warningStrings (xWarns xs @ lvWarns st)\<rparr>\<rparr>"
  have "quiet xs ?xs1" using rec_frame_trans[OF assms(2) rec_frame_small(1)] by (simp add: quiet_def kept_def)
  then have "quiet xs0 ?xs1" using assms(1) quiet_trans by blast
  then show ?thesis
    using assms(3) responds_deliver[of xs0 ?xs1] responds_quiet[of xs0 ?xs1]
    by (auto simp: stream_result_def Let_def split: option.splits)
qed

lemma responds_stream: "responds env xs (attemptStream env ck dl pulls cx xs)"
proof (cases "drain_until_content pulls (newPreCommitBuffer (exMaxPrecommit env)) (xRec xs) []")
  case (PhaseFailed cx1 err rec1)
  then show ?thesis
    using responds_reclassify[of xs "xs\<lparr>xRec := rec1\<rparr>" env ck cx1 err] quiet_rec[OF drain_frame(1)[OF PhaseFailed]]
    by (simp add: attemptStream_def)
next
  case (PhaseReady buf content rest rec1 warns1)
  have "quiet xs (writeDiagnostics (served env ck (xWarns xs) (xs\<lparr>xRec := rec1\<rparr>)))"
    using quiet_rec[OF drain_frame(2)[OF PhaseReady]] quiet_trans quiet_small(4) quiet_served by blast
  then show ?thesis
    unfolding attemptStream_def PhaseReady phase_one.case Let_def
    by (intro responds_stream_result go_live_frame go_live_failed) simp_all
qed

lemma responds_unary: "responds env xs (respond_unary env ck p cx xs)"
proof (cases p)
  case (Inl pp)
  obtain usage warns writes where p: "p = Inl (usage, warns, writes)" using Inl by (cases pp) auto
  have "quiet xs (upd_rec (\<lambda>r. applyUsage r (Some usage)) xs)" by (intro quiet_upd_rec rec_frame_small)
  then show ?thesis
    unfolding respond_unary_def p sum.case prod.case Let_def
    by (intro responds_deliver quiet_trans[OF _ quiet_small(1)] quiet_trans[OF _ quiet_small(4)]
        quiet_trans[OF _ quiet_served])
next
  case (Inr ec)
  then show ?thesis by (cases ec) (simp add: respond_unary_def responds_failedParse)
qed

lemma responds_chat: "responds env xs (chat_Respond env ck inp cx xs)"
  by (simp add: chat_Respond_def responds_stream responds_unary split: chat_input.splits)

text \<open>A forwarded stream so far: quiet, and untouched on the client's side until it commits.\<close>

definition fw_quiet :: "xstate \<Rightarrow> fstate \<Rightarrow> bool" where
  "fw_quiet xs fs \<longleftrightarrow> quiet xs (fsX fs) \<and> (\<not> fsCommitted fs \<longrightarrow> xCW (fsX fs) = xCW xs)"

lemma quiet_usage: "quiet xs (upd_rec (\<lambda>r. applyUsage r u) xs)"
  by (intro quiet_upd_rec rec_frame_small)

lemma fw_commit_quiet:
  assumes "quiet xs (fsX fs)"
  shows "quiet xs (fsX (fw_commit env ck hdrs status fs))" "fsCommitted (fw_commit env ck hdrs status fs)"
  unfolding fw_commit_def Let_def
  by (auto intro!: quiet_trans[OF _ quiet_small(1)] quiet_trans[OF _ quiet_small(4)] quiet_trans[OF _ quiet_small(2)]
      quiet_trans[OF assms quiet_served])

lemma fw_write_quiet:
  "quiet xs (fsX (fw_write raw fs)) \<longleftrightarrow> quiet xs (fsX fs)" "fsCommitted (fw_write raw fs) = fsCommitted fs"
  by (simp_all add: fw_write_def quiet_def kept_def)

lemma fw_step_contract:
  assumes "fw_quiet xs fs"
  shows "case fw_step env ck fw hdrs status strip cx raw fs of Inl r \<Rightarrow> responds env xs r | Inr fs' \<Rightarrow> fw_quiet xs fs'"
proof -
  define re where "re = (case parseEvent raw (exMaxLine env) of Some ev \<Rightarrow> fwRecognize fw ev | None \<Rightarrow> zero_raw)"
  define fs1 where "fs1 = (if reUsage re \<noteq> None
    then fs\<lparr>fsUsage := mergeUsage (fsUsage fs) (reUsage re),
            fsX := upd_rec (\<lambda>r. applyUsage r (Some (mergeUsage (fsUsage fs) (reUsage re)))) (fsX fs)\<rparr> else fs)"
  have q: "fw_quiet xs fs1"
    using assms quiet_trans[OF _ quiet_usage] by (auto simp: fw_quiet_def fs1_def)
  then have q1: "quiet xs (fsX fs1)" "\<not> fsCommitted fs1 \<Longrightarrow> xCW (fsX fs1) = xCW xs" by (simp_all add: fw_quiet_def)
  show ?thesis
    unfolding fw_step_def Let_def re_def[symmetric] fs1_def[symmetric]
    using q q1 by (simp add: responds_reclassify fw_quiet_def fw_write_quiet fw_commit_quiet)
qed

lemma responds_clientGone: "quiet xs (fsX fs) \<Longrightarrow> responds env xs (clientGone cx werr fs)"
  by (auto simp: clientGone_def clientFailed_def failedAfterCommit_def responds_after_commit intro!: responds_quiet split: option.splits)

lemma fw_steps_contract:
  assumes "fw_quiet xs fs"
  shows "case fw_steps env ck fw hdrs status strip cx raws fs of Inl r \<Rightarrow> responds env xs r | Inr fs' \<Rightarrow> fw_quiet xs fs'"
  using assms
proof (induction raws arbitrary: fs)
  case (Cons raw raws)
  note c = fw_step_contract[OF Cons.prems, of env ck fw hdrs status strip cx raw]
  show ?case
  proof (cases "fw_step env ck fw hdrs status strip cx raw fs")
    case (Inr fs1)
    then have "fw_quiet xs fs1" using c by simp
    then show ?thesis
      using Cons.IH[of fs1] responds_clientGone[of xs fs1] by (auto simp: Inr fw_quiet_def split: option.splits)
  qed (use c in simp)
qed simp

lemma quiet_recordWarning [simp]: "quiet xs (fsX (recordWarning w fs)) \<longleftrightarrow> quiet xs (fsX fs)"
  by (simp add: recordWarning_def quiet_def kept_def rec_frame_def upd_rec_def Let_def)

lemma quiet_write_tail [simp]: "quiet xs (fsX (write_tail t fs)) \<longleftrightarrow> quiet xs (fsX fs)"
  by (simp add: write_tail_def quiet_def kept_def)

lemma quiet_set_cw [simp]: "quiet xs (ys\<lparr>xCW := cw\<rparr>) \<longleftrightarrow> quiet xs ys"
  by (simp add: quiet_def kept_def)

lemma responds_overflow:
  assumes "fw_quiet xs fs" shows "responds env xs (forward_overflow env ck cx rest tail fs)"
proof (cases "fsCommitted fs")
  case False then show ?thesis using assms by (simp add: forward_overflow_def fw_quiet_def responds_reclassify)
next
  case True
  have q: "quiet xs (fsX fs)" using assms by (simp add: fw_quiet_def)
  show ?thesis
    unfolding forward_overflow_def Let_def using True q
    by (auto intro!: responds_after_commit responds_clientGone responds_quiet split: prod.splits option.splits)
qed

lemma responds_broken:
  assumes "fw_quiet xs fs" shows "responds env xs (forward_broken env ck se cx rerr tail fs)"
proof (cases "fsCommitted fs")
  case False then show ?thesis using assms by (simp add: forward_broken_def fw_quiet_def responds_reclassify)
next
  case True
  have q: "quiet xs (fsX fs)" using assms by (simp add: fw_quiet_def)
  show ?thesis
    unfolding forward_broken_def Let_def failedAfterCommit_def using True q
    by (auto intro!: responds_clientGone responds_quiet split: option.splits)
qed

lemma responds_finish:
  assumes "fw_quiet xs fs" shows "responds env xs (forward_finish env ck fw hdrs status strip cx tail fs)"
proof -
  let ?r = "if tail = [] then Inr fs else fw_step env ck fw hdrs status strip cx tail fs"
  have c: "case ?r of Inl r \<Rightarrow> responds env xs r | Inr fs' \<Rightarrow> fw_quiet xs fs'"
    using assms fw_step_contract[OF assms] by simp
  show ?thesis
  proof (cases ?r)
    case (Inl r) then show ?thesis using c by (simp add: forward_finish_def)
  next
    case (Inr fs1)
    define fs2 where "fs2 = (if \<not> fsCommitted fs1 then fw_commit env ck hdrs status fs1 else fs1)"
    have q: "quiet xs (fsX fs2)" using c Inr fw_commit_quiet(1) by (auto simp: fs2_def fw_quiet_def)
    show ?thesis
      unfolding forward_finish_def Inr sum.case Let_def fs2_def[symmetric]
      using q by (auto intro!: responds_after_commit responds_clientGone responds_quiet split: option.splits)
  qed
qed

lemma responds_loop:
  assumes "fw_quiet xs fs" shows "responds env xs (forward_loop env ck fw se hdrs status strip cxe reads sp fs)"
  using assms
proof (induction reads arbitrary: sp fs)
  case Nil then show ?case by (simp add: responds_finish)
next
  case (Cons rd rest)
  obtain chunk fin cx where rd: "rd = (chunk, fin, cx)" by (cases rd)
  obtain evs over sp1 where ps: "(if chunk = [] then ([], False, sp) else push sp chunk) = (evs, over, sp1)"
    by (metis prod_cases3)
  show ?case
    using fw_steps_contract[OF Cons.prems, of env ck fw hdrs status strip cx evs] Cons.IH
    by (auto simp: rd ps Let_def responds_overflow responds_broken responds_finish split: sum.splits read_end.splits)
qed

lemma responds_forwardStream: "responds env xs (forwardStream env ck fw se hdrs strip reads cx xs)"
  unfolding forwardStream_def by (rule responds_loop) (simp add: fw_quiet_def)

lemma responds_forwardUnary: "responds env xs (forwardUnary env ck fw hdrs body rerr rest cx xs)"
proof -
  have s: "quiet xs ys \<Longrightarrow> quiet xs (writeDiagnostics ((served env ck w ys)\<lparr>xHeader := h\<rparr>))" for ys w h
    by (intro quiet_trans[OF _ quiet_small(4)] quiet_trans[OF _ quiet_small(2)] quiet_trans[OF _ quiet_served])
  show ?thesis
    unfolding forwardUnary_def Let_def
    by (auto intro!: responds_failedParse responds_after_commit responds_deliver s quiet_usage
        split: option.splits prod.splits if_splits)
qed

end
