(* ===== verification/Exec.thy ===== *)
theory Exec
  imports Attempt
begin

text \<open>
  The attempt, \<^verbatim>\<open>internal/exec/exec.go\<close>: eligibility and rewriting of a forwarded body (\<^verbatim>\<open>passthrough.go\<close>), the
  surface's contract (\<^verbatim>\<open>SurfaceOp\<close> of \<^verbatim>\<open>surface.go\<close>) and \<^verbatim>\<open>attempt\<close> from credential to breaker signal.

  What is outside this repository or this component is read from the observation of the attempt: the request
  builders of the adapters, the authorizer, the HTTP round trip, the body's reads and the client's writes. The
  breaker is shared, so an observation also carries what other requests did to it meanwhile.
\<close>

section \<open>Forwarding\<close>

record Passthrough =
  ptBody :: string
  ptModelField :: string
  ptSurface :: Surface
  ptMethod :: string
  ptQuery :: "(string, string list) gomap"
  ptStream :: bool

definition Values_Get :: "(string, string list) gomap \<Rightarrow> string \<Rightarrow> string" where
  "Values_Get q k = (case map_of q k of Some (v # _) \<Rightarrow> v | _ \<Rightarrow> '''')"

definition forwardKinds :: "(string, string) gomap" where
  "forwardKinds = [(''openai'', ''openaicompat''), (''anthropic'', ''anthropic''), (''gemini'', ''gemini'')]"

definition presetRejectsStreamOptions :: "Presets \<Rightarrow> string \<Rightarrow> bool" where
  "presetRejectsStreamOptions presets preset =
     (if preset = '''' then False
      else HasQuirk (case map_of presets preset of Some p \<Rightarrow> p | None \<Rightarrow> zero_preset) ''rejects-stream-options'')"

text \<open>A map read of an absent key is the zero value.\<close>

definition forwardable ::
    "Presets \<Rightarrow> string \<Rightarrow> Passthrough option \<Rightarrow> Candidate \<Rightarrow> Provider \<Rightarrow> forwarder option \<Rightarrow> forwarder option" where
  "forwardable presets dialect pt0 c p ad =
     (case pt0 of
        None \<Rightarrow> None
      | Some pt \<Rightarrow>
          if ptSurface pt \<noteq> SurfaceLLM then None
          else if (case map_of forwardKinds dialect of Some k \<Rightarrow> k | None \<Rightarrow> '''') \<noteq> cdKind c then None
          else if (ptModelField pt = '''') = (ptMethod pt = '''') then None
          else case ad of
            None \<Rightarrow> None
          | Some fw \<Rightarrow>
              if ptStream pt \<and> cdKind c = ''gemini'' \<and> Values_Get (ptQuery pt) ''alt'' \<noteq> ''sse'' then None
              else if ptStream pt \<and> cdKind c = ''openaicompat'' \<and> presetRejectsStreamOptions presets (prPreset p) then None
              else Some fw)"

text \<open>\<^verbatim>\<open>encoding/json\<close> on the top level of an object: decoding to raw members, encoding a string, and encoding the
  members again without HTML escaping.\<close>

record json_ops =
  jsUnmarshal :: "string \<Rightarrow> go_error + (string, string) gomap"
  jsString :: "string \<Rightarrow> string"
  jsEncode :: "(string, string) gomap \<Rightarrow> string"

definition ErrNoModelField :: go_error where
  "ErrNoModelField = plain_error ''exec: passthrough body carries no model field''"

definition include_usage :: string where
  "include_usage = CHR 0x7B # quoted ''include_usage'' @ '':true}''"

definition TrimRight_newline :: "string \<Rightarrow> string" where
  "TrimRight_newline s = rev (dropWhile (\<lambda>c. c = CHR 0x0A) (rev s))"

definition rewriteForward ::
    "json_ops \<Rightarrow> Passthrough \<Rightarrow> string \<Rightarrow> string \<Rightarrow> string \<Rightarrow> go_error + (string \<times> bool)" where
  "rewriteForward js pt requested target kind =
     (if ptModelField pt = '''' then Inr (ptBody pt, False)
      else case jsUnmarshal js (ptBody pt) of
        Inl err \<Rightarrow> Inl err
      | Inr mem \<Rightarrow>
          if map_of mem (ptModelField pt) = None then Inl ErrNoModelField
          else
            let (mem1, changed1) = (if requested \<noteq> target
                   then (AList.update (ptModelField pt) (jsString js target) mem, True) else (mem, False));
                (mem2, changed2, injected) =
                  (if kind = ''openaicompat'' \<and> ptStream pt \<and> map_of mem1 ''stream_options'' = None
                   then (AList.update ''stream_options'' include_usage mem1, True, True) else (mem1, changed1, False))
            in if \<not> changed2 then Inr (ptBody pt, False)
               else Inr (TrimRight_newline (jsEncode js mem2 @ [CHR 0x0A]), injected))"

definition forwardHeaderAllowlist :: "string list" where
  "forwardHeaderAllowlist = [''content-type'', ''accept'', ''user-agent'', ''anthropic-version'', ''anthropic-beta'', ''openai-beta'']"

text \<open>A header map is its (name, value) pairs.\<close>

definition forwardHeaders :: "(string \<times> string) list \<Rightarrow> (string \<times> string) list" where
  "forwardHeaders hs = filter (\<lambda>(k, v). ToLower k \<in> set forwardHeaderAllowlist) hs"

definition compressedBody :: "string \<Rightarrow> bool" where
  "compressedBody contentEncoding =
     (let enc = TrimSpace contentEncoding in enc \<noteq> '''' \<and> ToLower enc \<noteq> ''identity'')"

section \<open>Targets and surfaces\<close>

definition rerankPath :: "Presets \<Rightarrow> string \<Rightarrow> string" where
  "rerankPath presets preset =
     (if preset = '''' then ''''
      else case map_of presets preset of
        None \<Rightarrow> ''''
      | Some p \<Rightarrow> (case QuirkValue p ''rerank-path'' of Some v \<Rightarrow> v | None \<Rightarrow> ''''))"

record Target =
  taBaseURL :: string
  taAPIKey :: string
  taModel :: string
  taInfo :: "(int \<times> int \<times> Traits) option"
  taPreset :: string
  taRerankPath :: string
  taRegion :: string
  taProject :: string
  taLocation :: string
  taPublisher :: string

record Forward =
  fdBody :: string
  fdHeader :: "(string \<times> string) list"
  fdStream :: bool
  fdMethod :: string
  fdQuery :: "(string, string list) gomap"

text \<open>An adapter as the attempt uses it: besides the classifiers, its forwarder with the forwarding builder when it
  has one. A builder's answer is its error, if any.\<close>

record adapter_full = adapter_ops +
  adForwarder :: "forwarder option"
  adBuildForward :: "Target \<Rightarrow> Forward \<Rightarrow> go_error option"

text \<open>A surface: what \<^verbatim>\<open>SurfaceOp\<close> and \<^verbatim>\<open>passthroughOp\<close> answer. \<open>opBuild\<close> returns the warnings of the rendering and
  its error; \<open>opStreamError\<close> is what a terminal in-stream error writes.\<close>

record surface_op =
  opDialect :: string
  opQuery :: Query
  opPassthrough :: "Passthrough option"
  opBuild :: "Target \<Rightarrow> Warning list \<times> go_error option"
  opStreamError :: "Error \<Rightarrow> string list"

definition chat_Query :: "Request \<Rightarrow> Query" where
  "chat_Query req =
     (let needs = Request_Needs req in
      \<lparr>qyModel = reqModel req, qySurface = SurfaceLLM, qyNeedsTools = nTools needs, qyNeedsVision = nVision needs,
       qyNeedsReasoning = nReasoning needs\<rparr>)"

definition chat_Build ::
    "(Target \<Rightarrow> Request \<Rightarrow> Warning list \<times> go_error option) \<Rightarrow> Request \<Rightarrow> Target \<Rightarrow> Warning list \<times> go_error option" where
  "chat_Build build_request req tgt =
     (case build_request tgt req of (warns, err) \<Rightarrow> (warns @ reqWarnings req, err))"

section \<open>One attempt\<close>

record attemptResult =
  atOutcome :: Outcome
  atStatus :: int
  atErr :: "Error option"
  atPath :: string
  atCommitted :: bool
  atClientGone :: bool
  atIssued :: bool

text \<open>What one attempt saw. \<open>obSendOps\<close> and \<open>obBodyOps\<close> are other requests' breaker operations while the request was
  out and while the response was served.\<close>

record 'i att_obs =
  obClock :: att_clock
  obReplay :: "go_error option"
  obAuth :: "go_error option"
  obAuthCtx :: ctx_view
  obResp :: "Response option"
  obDoErr :: "go_error option"
  obSendCtx :: ctx_view
  obErrBody :: "string \<times> go_error option"
  obSendOps :: "op list"
  obPlan :: "(nat \<times> string option) list"
  obHeaders :: "(string \<times> string) list"
  obReads :: "body_read list"
  obUnary :: "string \<times> (go_error \<times> ctx_view) option \<times> body_read list"
  obInput :: 'i
  obReadCtx :: ctx_view
  obBodyOps :: "op list"
  obEndCtx :: ctx_view

type_synonym 'i respond = "exec_env \<Rightarrow> att_clock \<Rightarrow> 'i \<Rightarrow> ctx_view \<Rightarrow> xstate \<Rightarrow> xstate \<times> Outcome \<times> Error option"

definition others :: "op list \<Rightarrow> xstate \<Rightarrow> xstate" where
  "others ops xs = xs\<lparr>xBreaker := fold apply_op ops (xBreaker xs)\<rparr>"

definition PathIR :: string where "PathIR = ''ir''"
definition PathPassthrough :: string where "PathPassthrough = ''passthrough''"

definition msgCredentialUnavailable :: string where "msgCredentialUnavailable = ''credential unavailable''"
definition msgRenderFailed :: string where "msgRenderFailed = ''request could not be rendered for this provider''"

definition failBefore ::
    "string \<Rightarrow> Outcome \<Rightarrow> go_error \<Rightarrow> string \<Rightarrow> ErrorType \<Rightarrow> xstate \<Rightarrow> xstate \<times> attemptResult" where
  "failBefore path oc err msg typ xs =
     (upd_rec (\<lambda>r. recordAttempt r (xCand xs) oc 0 (Some (wrap_error msg err)) 0 path) xs,
      \<lparr>atOutcome = oc, atStatus = 0, atErr = Some (mk_error typ msg), atPath = path, atCommitted = False,
       atClientGone = False, atIssued = False\<rparr>)"

definition failRender :: "string \<Rightarrow> go_error \<Rightarrow> xstate \<Rightarrow> xstate \<times> attemptResult" where
  "failRender path err xs =
     (case geIR err of
        Some ie \<Rightarrow>
          if ErrorType_string (errType ie) \<noteq> '''' then
            (case failBefore path OutcomeFatal err msgRenderFailed (errType ie) xs of (xs1, res) \<Rightarrow> (xs1, res\<lparr>atErr := Some ie\<rparr>))
          else failBefore path OutcomeRetryableModel err msgRenderFailed ErrDarkrouter xs
      | None \<Rightarrow> failBefore path OutcomeRetryableModel err msgRenderFailed ErrDarkrouter xs)"

definition add_warns :: "Warning list \<Rightarrow> xstate \<Rightarrow> xstate" where
  "add_warns ws xs = xs\<lparr>xWarns := xWarns xs @ ws\<rparr>"

definition target_of :: "exec_env \<Rightarrow> (string \<Rightarrow> string \<Rightarrow> Model option) \<Rightarrow> Provider \<Rightarrow> Candidate \<Rightarrow> string \<Rightarrow> string \<Rightarrow> Target" where
  "target_of env cat p c baseURL apiKey =
     \<lparr>taBaseURL = baseURL, taAPIKey = apiKey, taModel = cdModel c, taInfo = modelInfo cat (cdProviderID c) (cdModel c),
      taPreset = prPreset p, taRerankPath = rerankPath (exPresets env) (prPreset p), taRegion = prRegion p,
      taProject = prProject p, taLocation = prLocation p, taPublisher = cdPublisher c\<rparr>"

text \<open>How the request will go out: the forwarder when the body is forwarded, with whether the client streams and
  whether the added usage chunk is to be stripped.\<close>

record route =
  rtPath :: string
  rtForwarder :: "forwarder option"
  rtStrip :: bool
  rtStreaming :: bool

definition ir_route :: route where
  "ir_route = \<lparr>rtPath = PathIR, rtForwarder = None, rtStrip = False, rtStreaming = False\<rparr>"

definition rewrite_warning :: "Candidate \<Rightarrow> go_error \<Rightarrow> Warning" where
  "rewrite_warning c rerr = \<lparr>wField = ''passthrough'', wTarget = cdProviderID c @ ''/'' @ cdModel c,
     wReason = ''the body could not be forwarded and was translated instead: '' @ geText rerr\<rparr>"

text \<open>The fast path: \<open>Inl\<close> ends the attempt, \<open>Inr\<close> is the route so far, \<open>None\<close> when nothing was built.\<close>

definition try_forward ::
    "exec_env \<Rightarrow> json_ops \<Rightarrow> surface_op \<Rightarrow> ('z) adapter_full_scheme \<Rightarrow> Provider \<Rightarrow> Target \<Rightarrow> (string \<times> string) list \<Rightarrow> bool \<Rightarrow> xstate
       \<Rightarrow> (xstate \<times> attemptResult) + (xstate \<times> route option)" where
  "try_forward env js op ad p tgt inHeaders allowForward xs =
     (let c = xCand xs in
      if \<not> allowForward then Inr (xs, None)
      else case (opPassthrough op, forwardable (exPresets env) (opDialect op) (opPassthrough op) c p (adForwarder ad)) of
        (Some pt, Some f) \<Rightarrow>
          (case rewriteForward js pt (qyModel (opQuery op)) (cdModel c) (cdKind c) of
             Inl rerr \<Rightarrow> Inr (add_warns [rewrite_warning c rerr] xs, None)
           | Inr (body, injected) \<Rightarrow>
               (case adBuildForward ad tgt \<lparr>fdBody = body, fdHeader = forwardHeaders inHeaders, fdStream = ptStream pt,
                       fdMethod = ptMethod pt, fdQuery = ptQuery pt\<rparr> of
                  Some berr \<Rightarrow> Inl (failRender PathIR berr xs)
                | None \<Rightarrow> Inr (xs, Some \<lparr>rtPath = PathPassthrough, rtForwarder = Some f, rtStrip = injected,
                     rtStreaming = ptStream pt\<rparr>)))
      | _ \<Rightarrow> Inr (xs, None))"

definition try_build :: "surface_op \<Rightarrow> Target \<Rightarrow> xstate \<Rightarrow> (xstate \<times> attemptResult) + (xstate \<times> route)" where
  "try_build op tgt xs =
     (case opBuild op tgt of (ws, err) \<Rightarrow>
        let xs1 = add_warns ws xs in
        case err of Some e \<Rightarrow> Inl (failRender PathIR e xs1) | None \<Rightarrow> Inr (xs1, ir_route))"

text \<open>Body replay and the authorizer, the last steps before the send.\<close>

definition try_authorize :: "'i att_obs \<Rightarrow> credential_plan \<Rightarrow> route \<Rightarrow> xstate \<Rightarrow> (xstate \<times> attemptResult) + (xstate \<times> route)" where
  "try_authorize ob plan rt xs =
     (case obReplay ob of
        Some err \<Rightarrow> Inl (failBefore (rtPath rt) OutcomeFatal err msgRenderFailed ErrDarkrouter xs)
      | None \<Rightarrow>
          (case (case plan of AdapterWrites k \<Rightarrow> None | _ \<Rightarrow> obAuth ob) of
             None \<Rightarrow> Inr (xs, rt)
           | Some err \<Rightarrow>
               (case stoppedWaiting (obAuthCtx ob) of
                  Some oc \<Rightarrow>
                    let ie = errorFor oc (Some err) in Inl (failBefore (rtPath rt) oc err (errMessage ie) (errType ie) xs)
                | None \<Rightarrow> Inl (failBefore (rtPath rt) OutcomeRetryableCredential err msgCredentialUnavailable ErrAuthentication xs))))"

text \<open>Everything before the send.\<close>

definition prepare ::
    "exec_env \<Rightarrow> json_ops \<Rightarrow> surface_op \<Rightarrow> ('z) adapter_full_scheme \<Rightarrow> Provider \<Rightarrow> (string \<Rightarrow> string \<Rightarrow> Model option)
       \<Rightarrow> (string \<times> string) list \<Rightarrow> bool \<Rightarrow> 'i att_obs \<Rightarrow> xstate \<Rightarrow> (xstate \<times> attemptResult) + (xstate \<times> route)" where
  "prepare env js op ad p cat inHeaders allowForward ob xs =
     (let c = xCand xs;
          denied = (\<lambda>e. Inl (failBefore PathIR OutcomeRetryableCredential e msgCredentialUnavailable ErrAuthentication xs))
      in case credentialFor (exPresets env) (exAuthFor env) p c of
           Inl credErr \<Rightarrow> denied credErr
         | Inr plan \<Rightarrow>
             (case ResolveBaseURL (prBaseURL p) (accountOf p (cdKeyID c)) of
                Inl urlErr \<Rightarrow> denied urlErr
              | Inr baseURL \<Rightarrow>
                  let tgt = target_of env cat p c baseURL (case plan of AdapterWrites k \<Rightarrow> k | _ \<Rightarrow> '''');
                      xs1 = (case inferredWarningFor c (opQuery op) of Some w \<Rightarrow> add_warns [w] xs | None \<Rightarrow> xs)
                  in (case try_forward env js op ad p tgt inHeaders allowForward xs1 of
                        Inl r \<Rightarrow> Inl r
                      | Inr (xs2, Some rt) \<Rightarrow> try_authorize ob plan rt xs2
                      | Inr (xs2, None) \<Rightarrow>
                          (case try_build op tgt xs2 of
                             Inl r \<Rightarrow> Inl r
                           | Inr (xs3, rt) \<Rightarrow> try_authorize ob plan rt xs3))))"

text \<open>The send and its classification: the outcome, with the error the row records.\<close>

definition send_outcome :: "('z) adapter_full_scheme \<Rightarrow> 'i att_obs \<Rightarrow> Outcome \<times> go_error option" where
  "send_outcome ad ob =
     (let oc = classify (adapter_ops.truncate ad) (obSendCtx ob) (obResp ob) (obDoErr ob) in
      case (adClassifyBody ad, obResp ob) of
        (Some bc, Some r) \<Rightarrow>
          if oc = OutcomeFatal \<and> StatusCode r = 400 then
            (let err = (case snd (obErrBody ob) of Some e \<Rightarrow> Some e | None \<Rightarrow> obDoErr ob) in
             (bc (Some r) (fst (obErrBody ob)) (err \<noteq> None), err))
          else (oc, obDoErr ob)
      | _ \<Rightarrow> (oc, obDoErr ob))"

definition dispatch ::
    "'i respond \<Rightarrow> exec_env \<Rightarrow> surface_op \<Rightarrow> route \<Rightarrow> 'i att_obs \<Rightarrow> xstate \<Rightarrow> xstate \<times> Outcome \<times> Error option" where
  "dispatch respond env op rt ob xs =
     (case rtForwarder rt of
        Some fw \<Rightarrow>
          if rtStreaming rt
          then forwardStream env (obClock ob) fw (opStreamError op) (obHeaders ob) (rtStrip rt) (obReads ob) (obReadCtx ob) xs
          else (case obUnary ob of (body, rerr, rest) \<Rightarrow>
                  forwardUnary env (obClock ob) fw (obHeaders ob) body rerr rest (obReadCtx ob) xs)
      | None \<Rightarrow> respond env (obClock ob) (obInput ob) (obReadCtx ob) xs)"

text \<open>After the response: latency, demotion, and the verdict on a committed response that failed.\<close>

definition settle ::
    "exec_env \<Rightarrow> route \<Rightarrow> 'i att_obs \<Rightarrow> int \<Rightarrow> xstate \<times> Outcome \<times> Error option \<Rightarrow> xstate \<times> attemptResult" where
  "settle env rt ob statusCode out =
     (case out of (xs0, oc, aerr) \<Rightarrow>
        let xs1 = upd_rec (on_last (\<lambda>a. a\<lparr>arLatencyMs := go_div (akFullLatency (obClock ob)) 1000000\<rparr>)) xs0;
            com = cwCommitted (xCW xs1);
            xs2 = upd_rec (\<lambda>r. demoteLastAttempt r oc com) xs1
        in if com \<and> oc \<noteq> OutcomeSuccess then
             (let xs3 = recordFailure env (obClock ob) oc (xResp xs2) (map_option of_ir_error aerr) xs2;
                  gone0 = (oc = OutcomeClientCancelled);
                  shut = gone0 \<and> cwErr (xCW xs3) = None \<and> ctxShutdown (obEndCtx ob);
                  gone = (gone0 \<and> \<not> shut);
                  aerr1 = (if shut then Some shutdownError else aerr);
                  code = (case aerr1 of Some e \<Rightarrow> if ErrorType_string (errType e) \<noteq> '''' then errType e else ErrAPI | None \<Rightarrow> ErrAPI);
                  xs4 = (if gone then xs3
                         else upd_rec (\<lambda>r. (case aerr1 of Some e \<Rightarrow> on_last (\<lambda>a. a\<lparr>arError := errMessage e\<rparr>) | None \<Rightarrow> id)
                                (r\<lparr>rrErrorCode := ErrorType_string code\<rparr>)) xs3)
              in (xs4, \<lparr>atOutcome = OutcomeSuccess, atStatus = statusCode, atErr = None, atPath = rtPath rt,
                    atCommitted = True, atClientGone = gone, atIssued = True\<rparr>))
           else
             (let s = (if oc = OutcomeRetryableProvider then statusForParseError (map_option of_ir_error aerr) else 0) in
              (xs2, \<lparr>atOutcome = oc, atStatus = (if s \<noteq> 0 then s else statusCode), atErr = aerr, atPath = rtPath rt,
                 atCommitted = com, atClientGone = False, atIssued = True\<rparr>)))"

definition attempt_body ::
    "'i respond \<Rightarrow> exec_env \<Rightarrow> json_ops \<Rightarrow> surface_op \<Rightarrow> ('z) adapter_full_scheme \<Rightarrow> Provider \<Rightarrow> (string \<Rightarrow> string \<Rightarrow> Model option)
       \<Rightarrow> (string \<times> string) list \<Rightarrow> bool \<Rightarrow> 'i att_obs \<Rightarrow> xstate \<Rightarrow> xstate \<times> attemptResult" where
  "attempt_body respond env js op ad p cat inHeaders allowForward ob xs =
     (case prepare env js op ad p cat inHeaders allowForward ob xs of
        Inl r \<Rightarrow> r
      | Inr (xs0, rt) \<Rightarrow>
          let xs1 = (others (obSendOps ob) xs0)\<lparr>xSent := xSent xs0 @ [cand_key (xCand xs0)], xResp := obResp ob\<rparr>;
              (oc, doErr) = send_outcome ad ob;
              statusCode = (case obResp ob of Some r \<Rightarrow> StatusCode r | None \<Rightarrow> 0);
              xs2 = upd_rec (\<lambda>r. recordAttempt r (xCand xs1) oc statusCode doErr (akLatency (obClock ob)) (rtPath rt)) xs1
          in if oc \<noteq> OutcomeSuccess then
               (xs2, \<lparr>atOutcome = oc, atStatus = statusCode, atErr = Some (errorFor oc doErr), atPath = rtPath rt,
                  atCommitted = False, atClientGone = False, atIssued = True\<rparr>)
             else
               (case dispatch respond env op rt ob (xs2\<lparr>xCW := NewCommitWriter (obPlan ob)\<rparr>) of (xs3, oc1, aerr) \<Rightarrow>
                  settle env rt ob statusCode (others (obBodyOps ob) xs3, oc1, aerr)))"

text \<open>The deferred record: the breaker hears every attempt once, on the way out.\<close>

definition attempt ::
    "'i respond \<Rightarrow> exec_env \<Rightarrow> json_ops \<Rightarrow> surface_op \<Rightarrow> ('z) adapter_full_scheme \<Rightarrow> Provider \<Rightarrow> (string \<Rightarrow> string \<Rightarrow> Model option)
       \<Rightarrow> (string \<times> string) list \<Rightarrow> bool \<Rightarrow> 'i att_obs \<Rightarrow> xstate \<Rightarrow> xstate \<times> attemptResult" where
  "attempt respond env js op ad p cat inHeaders allowForward ob xs =
     (case attempt_body respond env js op ad p cat inHeaders allowForward ob xs of (xs1, res) \<Rightarrow>
        let oc = (if atOutcome res = OutcomeFatal \<and> \<not> atIssued res then OutcomeClientCancelled else atOutcome res)
        in (recordHealth env (obClock ob) oc (xResp xs1) xs1, res))"

section \<open>The surface contract\<close>

text \<open>
  What the attempt relies on: a surface turns a response into client bytes without touching what other attempts
  wrote, reports at most one breaker signal, and reports it only while the client has received nothing.
\<close>

locale surface =
  fixes respond :: "'i respond"
  assumes contract: "responds env xs (respond env ck inp cx xs)"
begin

lemma dispatch_contract: "responds env xs (dispatch respond env sop rt ob xs)"
  by (auto simp: dispatch_def contract responds_forwardStream responds_forwardUnary split: option.splits prod.splits)

end

interpretation chat: surface chat_Respond
  by unfold_locales (rule responds_chat)

section \<open>What an attempt leaves behind\<close>

text \<open>Keys other requests may have claimed meanwhile.\<close>

fun op_claims :: "op \<Rightarrow> Key set" where
  "op_claims (OpAvailable t1 t2 k) = {k, cred_key k}"
| "op_claims _ = {}"

definition ops_claims :: "op list \<Rightarrow> Key set" where
  "ops_claims ops = (\<Union>x \<in> set ops. op_claims x)"

lemma claims_Rehydrate: "claims (Rehydrate b now es) \<subseteq> claims b"
  unfolding Rehydrate_def
proof (induction es arbitrary: b)
  case (Cons e es)
  have "claims (set_entry b (enKey e) (rehydrate_state now e)) \<subseteq> claims b"
    by (auto simp: claims_def rehydrate_state_def zero_state_def split: if_splits)
  then show ?case using Cons[of "set_entry b (enKey e) (rehydrate_state now e)"] by auto
qed simp

lemma claims_apply_op: "claims (apply_op x b) \<subseteq> claims b \<union> op_claims x"
proof (cases x)
  case (OpAvailable t1 t2 k)
  obtain ok b' where "Available b t1 t2 k = (ok, b')" by (cases "Available b t1 t2 k")
  then show ?thesis
    using brk.refuse_held[of b t1 t2 k b'] brk.admit_held[of b t1 t2 k b'] OpAvailable by (cases ok) auto
qed (use claims_Rehydrate in \<open>auto simp: claims_Record claims_ReleaseProbe claims_MarkUsed claims_frames\<close>)

lemma claims_ops: "claims (fold apply_op ops b) \<subseteq> claims b \<union> ops_claims ops"
proof (induction ops arbitrary: b)
  case (Cons x ops)
  then show ?case using claims_apply_op[of x b] by (fastforce simp: ops_claims_def)
qed (simp add: ops_claims_def)

lemma others_frames [simp]:
  "xCand (others ops xs) = xCand xs" "xSeq (others ops xs) = xSeq xs" "xErrors (others ops xs) = xErrors xs"
  "xRec (others ops xs) = xRec xs" "xSignals (others ops xs) = xSignals xs" "xHealthDone (others ops xs) = xHealthDone xs"
  "xCW (others ops xs) = xCW xs" "xHeader (others ops xs) = xHeader xs" "xWarns (others ops xs) = xWarns xs"
  "xResp (others ops xs) = xResp xs" "xSent (others ops xs) = xSent xs"
  by (simp_all add: others_def)

lemma claims_others: "claims (xBreaker (others ops xs)) \<subseteq> claims (xBreaker xs) \<union> ops_claims ops"
  using claims_ops by (simp add: others_def)

text \<open>Before the send: warnings only, or one row that says why the candidate was not used.\<close>

definition with_row :: "AttemptRecord \<Rightarrow> xstate \<Rightarrow> xstate" where
  "with_row row xs = upd_rec (\<lambda>r. r\<lparr>rrAttempts := rrAttempts r @ [row]\<rparr>) xs"

definition refused :: "xstate \<Rightarrow> xstate \<times> attemptResult \<Rightarrow> bool" where
  "refused xs out \<longleftrightarrow> (case out of (xs', res) \<Rightarrow>
     (\<exists>ws row. xs' = with_row row (xs\<lparr>xWarns := ws\<rparr>) \<and> row_key row = cand_key (xCand xs) \<and>
        arOutcome row = Outcome_string (atOutcome res)) \<and>
     \<not> atIssued res \<and> \<not> atCommitted res \<and> \<not> atClientGone res \<and> atErr res \<noteq> None \<and> atOutcome res \<noteq> OutcomeSuccess)"

lemma failBefore_refused:
  "oc \<noteq> OutcomeSuccess \<Longrightarrow> refused xs (failBefore path oc err msg typ (xs\<lparr>xWarns := ws\<rparr>))"
  unfolding refused_def failBefore_def prod.case with_row_def upd_rec_def recordAttempt_def
  by (auto simp: row_key_def cand_key_def intro!: exI[of _ ws])

lemma refused_err: "refused xs (xs', res) \<Longrightarrow> refused xs (xs', res\<lparr>atErr := Some e\<rparr>)"
  by (simp add: refused_def)

lemma failRender_refused: "refused xs (failRender path err (xs\<lparr>xWarns := ws\<rparr>))"
proof -
  have f: "refused xs (case failBefore path OutcomeFatal err msgRenderFailed t (xs\<lparr>xWarns := ws\<rparr>) of
      (xs1, res) \<Rightarrow> (xs1, res\<lparr>atErr := Some ie\<rparr>))" for t ie
    using failBefore_refused[of OutcomeFatal xs path err msgRenderFailed t ws]
    by (cases "failBefore path OutcomeFatal err msgRenderFailed t (xs\<lparr>xWarns := ws\<rparr>)") (simp add: refused_err)
  show ?thesis
    unfolding failRender_def using f by (simp add: failBefore_refused split: option.split)
qed

lemma warns_self: "\<exists>ws. xs = xs\<lparr>xWarns := ws\<rparr>" by (rule exI[of _ "xWarns xs"]) simp

lemma try_authorize_spec:
  "case try_authorize ob plan rt (xs\<lparr>xWarns := ws\<rparr>) of
     Inl out \<Rightarrow> refused xs out | Inr (xs', rt') \<Rightarrow> xs' = xs\<lparr>xWarns := ws\<rparr> \<and> rt' = rt"
proof -
  have "stoppedWaiting cx = Some oc \<Longrightarrow> oc \<noteq> OutcomeSuccess" for cx oc
    by (auto simp: stoppedWaiting_def split: if_splits)
  then show ?thesis
    unfolding try_authorize_def Let_def by (auto intro!: failBefore_refused split: option.splits)
qed

lemma try_build_spec:
  "case try_build sop tgt (xs\<lparr>xWarns := ws\<rparr>) of
     Inl out \<Rightarrow> refused xs out | Inr (xs', rt') \<Rightarrow> (\<exists>ws'. xs' = xs\<lparr>xWarns := ws'\<rparr>)"
  using failRender_refused[of xs PathIR]
  by (auto simp: try_build_def add_warns_def Let_def split: prod.splits option.splits)

lemma try_forward_spec:
  "case try_forward env js sop ad p tgt hs allow (xs\<lparr>xWarns := ws\<rparr>) of
     Inl out \<Rightarrow> refused xs out | Inr (xs', rt') \<Rightarrow> (\<exists>ws'. xs' = xs\<lparr>xWarns := ws'\<rparr>)"
  by (auto simp: try_forward_def add_warns_def Let_def split: prod.splits option.splits sum.splits)
    (metis failRender_refused)+

lemma prepare_spec:
  "case prepare env js sop ad p cat hs allow ob xs of
     Inl out \<Rightarrow> refused xs out | Inr (xs', rt) \<Rightarrow> (\<exists>ws. xs' = xs\<lparr>xWarns := ws\<rparr>)"
proof -
  have denied: "refused xs (failBefore PathIR OutcomeRetryableCredential e msgCredentialUnavailable ErrAuthentication xs)" for e
    using failBefore_refused[of OutcomeRetryableCredential xs PathIR e msgCredentialUnavailable ErrAuthentication "xWarns xs"] by simp
  show ?thesis
  proof (cases "credentialFor (exPresets env) (exAuthFor env) p (xCand xs)")
    case (Inl e) then show ?thesis using denied by (simp add: prepare_def Let_def)
  next
    case plan: (Inr plan)
    show ?thesis
    proof (cases "ResolveBaseURL (prBaseURL p) (accountOf p (cdKeyID (xCand xs)))")
      case (Inl e) then show ?thesis using denied plan by (simp add: prepare_def Let_def)
    next
      case url: (Inr url)
      define tgt where "tgt = target_of env cat p (xCand xs) url (case plan of AdapterWrites k \<Rightarrow> k | _ \<Rightarrow> '''')"
      define xs1 where "xs1 = (case inferredWarningFor (xCand xs) (opQuery sop) of Some w \<Rightarrow> add_warns [w] xs | None \<Rightarrow> xs)"
      obtain ws1 where xs1: "xs1 = xs\<lparr>xWarns := ws1\<rparr>"
        using warns_self[of xs] by (cases "inferredWarningFor (xCand xs) (opQuery sop)") (auto simp: xs1_def add_warns_def)
      have auth: "case try_authorize ob plan rt (xs\<lparr>xWarns := ws\<rparr>) of
          Inl out \<Rightarrow> refused xs out | Inr (xs', rt) \<Rightarrow> (\<exists>ws. xs' = xs\<lparr>xWarns := ws\<rparr>)" for rt ws
        using try_authorize_spec[of xs ws rt ob plan] by (auto split: sum.splits)
      have "prepare env js sop ad p cat hs allow ob xs =
        (case try_forward env js sop ad p tgt hs allow xs1 of
                        Inl r \<Rightarrow> Inl r
                      | Inr (xs2, Some rt) \<Rightarrow> try_authorize ob plan rt xs2
                      | Inr (xs2, None) \<Rightarrow>
                          (case try_build sop tgt xs2 of
                             Inl r \<Rightarrow> Inl r
                           | Inr (xs3, rt) \<Rightarrow> try_authorize ob plan rt xs3))"
        unfolding prepare_def Let_def plan url tgt_def xs1_def by simp
      moreover note try_forward_spec[of xs env js sop ad p tgt hs allow ws1]
      moreover have "case (case try_build sop tgt (xs\<lparr>xWarns := ws\<rparr>) of Inl r \<Rightarrow> Inl r | Inr (xs3, rt) \<Rightarrow> try_authorize ob plan rt xs3)
          of Inl out \<Rightarrow> refused xs out | Inr (xs', rt) \<Rightarrow> (\<exists>ws. xs' = xs\<lparr>xWarns := ws\<rparr>)" for ws
        using try_build_spec[of xs sop tgt ws] auth by (cases "try_build sop tgt (xs\<lparr>xWarns := ws\<rparr>)") auto
      ultimately show ?thesis
        using auth by (cases "try_forward env js sop ad p tgt hs allow xs1") (auto simp: xs1 split: option.splits)
    qed
  qed
qed
text \<open>The rows and the client's end after an attempt, whatever it did.\<close>

definition attempted :: "xstate \<Rightarrow> xstate \<Rightarrow> attemptResult \<Rightarrow> bool" where
  "attempted xs xs' res \<longleftrightarrow>
     xCand xs' = xCand xs \<and> xSeq xs' = xSeq xs \<and> xErrors xs' = xErrors xs \<and>
     rrStatus (xRec xs') = rrStatus (xRec xs) \<and> rrSkips (xRec xs') = rrSkips (xRec xs) \<and>
     (\<exists>row. rrAttempts (xRec xs') = rrAttempts (xRec xs) @ [row] \<and> row_key row = cand_key (xCand xs) \<and>
        (atOutcome res \<noteq> OutcomeSuccess \<longrightarrow> arOutcome row = Outcome_string (atOutcome res))) \<and>
     (atCommitted res \<longleftrightarrow> cwCommitted (xCW xs')) \<and> (atCommitted res \<longrightarrow> atOutcome res = OutcomeSuccess \<and> atIssued res) \<and>
     (atErr res = None \<longleftrightarrow> atOutcome res = OutcomeSuccess) \<and>
     (\<not> atCommitted res \<longrightarrow> rrErrorCode (xRec xs') = rrErrorCode (xRec xs) \<and> \<not> atClientGone res)"

text \<open>The breaker's share: with the recorder wired, the body of an attempt has either left the signal to the deferred
  record or sent it, giving back the claim.\<close>

definition breaker_part :: "Key set \<Rightarrow> xstate \<Rightarrow> xstate \<Rightarrow> attemptResult \<Rightarrow> bool" where
  "breaker_part others_keys xs xs' res \<longleftrightarrow>
     (let k = cand_key (xCand xs) in
      if xHealthDone xs' then
        \<exists>s. xSignals xs' = xSignals xs @ [(k, s)] \<and> claims (xBreaker xs') \<subseteq> (claims (xBreaker xs) - {k, cred_key k}) \<union> others_keys \<and>
          sgOutcome s \<noteq> OutcomeSuccess \<and> atIssued res \<and>
          (if atCommitted res then atClientGone res \<or> rrErrorCode (xRec xs') \<noteq> '''' else sgOutcome s = atOutcome res)
      else xSignals xs' = xSignals xs \<and> claims (xBreaker xs') \<subseteq> claims (xBreaker xs) \<union> others_keys)"

lemma attempted_refused:
  "refused xs (xs', res) \<Longrightarrow> \<not> cwCommitted (xCW xs) \<Longrightarrow> attempted xs xs' res"
  by (auto simp: refused_def attempted_def with_row_def upd_rec_def)

lemma demote_outcome:
  "rrAttempts r \<noteq> [] \<Longrightarrow> \<not> com \<Longrightarrow> oc \<noteq> OutcomeSuccess \<Longrightarrow>
     arOutcome (last (rrAttempts (demoteLastAttempt r oc com))) = Outcome_string oc"
  by (simp add: demoteLastAttempt_def Let_def on_last_def map_last_def)

lemma rec_frame_snoc:
  assumes "rec_frame r r'" "rrAttempts r = as @ [row]"
  shows "\<exists>row'. rrAttempts r' = as @ [row'] \<and> row_key row' = row_key row"
proof -
  have "rrAttempts r' \<noteq> []" using assms by (metis length_0_conv rec_frame_def snoc_eq_iff_butlast)
  then obtain bs row' where b: "rrAttempts r' = bs @ [row']" by (metis rev_exhaust)
  then show ?thesis using assms by (auto simp: rec_frame_def)
qed

lemma responds_kept: "responds env xs (xs', oc, e) \<Longrightarrow> kept xs xs'"
  by (auto simp: responds_def quiet_def signalled_def)

text \<open>\<open>settle\<close>, case by case: \<open>xs2\<close> is the state with the latency and the demotion written.\<close>

definition settled_rec :: "'i att_obs \<Rightarrow> Outcome \<Rightarrow> xstate \<Rightarrow> xstate" where
  "settled_rec ob oc xs =
     upd_rec (\<lambda>r. demoteLastAttempt r oc (cwCommitted (xCW xs)))
       (upd_rec (on_last (\<lambda>a. a\<lparr>arLatencyMs := go_div (akFullLatency (obClock ob)) 1000000\<rparr>)) xs)"

lemma settled_rec_quiet: "quiet xs (settled_rec ob oc xs)" "xCW (settled_rec ob oc xs) = xCW xs"
  "xBreaker (settled_rec ob oc xs) = xBreaker xs" "xResp (settled_rec ob oc xs) = xResp xs"
proof -
  show "quiet xs (settled_rec ob oc xs)"
    unfolding settled_rec_def by (rule quiet_trans[OF quiet_upd_rec quiet_upd_rec]) (auto intro!: rec_frame_on_last)
qed (simp_all add: settled_rec_def upd_rec_def)

lemma settled_rec_outcome:
  assumes "rrAttempts (xRec xs) \<noteq> []" "\<not> cwCommitted (xCW xs)" "oc \<noteq> OutcomeSuccess"
  shows "arOutcome (last (rrAttempts (xRec (settled_rec ob oc xs)))) = Outcome_string oc"
  using assms by (simp add: settled_rec_def upd_rec_def demote_outcome on_last_def)

lemma settle_open:
  assumes "\<not> (cwCommitted (xCW xs) \<and> oc \<noteq> OutcomeSuccess)" "settle env rt ob st (xs, oc, e) = (xs', res)"
  shows "xs' = settled_rec ob oc xs \<and> atOutcome res = oc \<and> atErr res = e \<and> atCommitted res = cwCommitted (xCW xs) \<and>
    \<not> atClientGone res \<and> atIssued res"
  using assms by (auto simp: settle_def settled_rec_def Let_def)

lemma code_nonempty:
  "ErrorType_string (case e of Some x \<Rightarrow> if ErrorType_string (errType x) \<noteq> '''' then errType x else ErrAPI | None \<Rightarrow> ErrAPI) \<noteq> ''''"
  by (simp split: option.splits)

lemma settle_committed:
  assumes "cwCommitted (xCW xs)" "oc \<noteq> OutcomeSuccess" "settle env rt ob st (xs, oc, e) = (xs', res)"
  shows "\<exists>xs3. signalled env oc (settled_rec ob oc xs) xs3 \<and>
      xCand xs' = xCand xs3 \<and> xSeq xs' = xSeq xs3 \<and> xErrors xs' = xErrors xs3 \<and> xSignals xs' = xSignals xs3 \<and>
      xBreaker xs' = xBreaker xs3 \<and> xHealthDone xs' = xHealthDone xs3 \<and> xCW xs' = xCW xs3 \<and>
      rec_frame (xRec xs3) ((xRec xs')\<lparr>rrErrorCode := rrErrorCode (xRec xs3)\<rparr>) \<and>
      (atClientGone res \<or> rrErrorCode (xRec xs') \<noteq> '''') \<and> xSent xs' = xSent xs3" (is ?A)
    and "atOutcome res = OutcomeSuccess \<and> atErr res = None \<and> atCommitted res \<and> atIssued res" (is ?B)
proof -
  define xs3 where "xs3 = recordFailure env (obClock ob) oc (xResp (settled_rec ob oc xs)) (map_option of_ir_error e) (settled_rec ob oc xs)"
  have s: "signalled env oc (settled_rec ob oc xs) xs3" unfolding xs3_def by (rule recordFailure_signalled)
  define shut where "shut \<longleftrightarrow> oc = OutcomeClientCancelled \<and> cwErr (xCW xs3) = None \<and> ctxShutdown (obEndCtx ob)"
  define gone where "gone \<longleftrightarrow> oc = OutcomeClientCancelled \<and> \<not> shut"
  define e1 where "e1 = (if shut then Some shutdownError else e)"
  define code where "code = (case e1 of Some x \<Rightarrow> if ErrorType_string (errType x) \<noteq> '''' then errType x else ErrAPI | None \<Rightarrow> ErrAPI)"
  define f where "f = (\<lambda>r. (case e1 of Some x \<Rightarrow> on_last (\<lambda>a. a\<lparr>arError := errMessage x\<rparr>) | None \<Rightarrow> id) (r\<lparr>rrErrorCode := ErrorType_string code\<rparr>))"
  have eq: "settle env rt ob st (xs, oc, e) = (if gone then xs3 else upd_rec f xs3,
     \<lparr>atOutcome = OutcomeSuccess, atStatus = st, atErr = None, atPath = rtPath rt,
                    atCommitted = True, atClientGone = gone, atIssued = True\<rparr>)"
    unfolding settle_def Let_def prod.case f_def code_def e1_def gone_def shut_def xs3_def settled_rec_def using assms(1,2) by simp
  have fr: "rec_frame r ((f r)\<lparr>rrErrorCode := rrErrorCode r\<rparr>)" "rrErrorCode (f r) \<noteq> ''''" for r
    using code_nonempty[of e1, folded code_def]
    by (auto simp: f_def rec_frame_def on_last_def map_map_last split: option.splits)
  show ?A using eq assms(3) s fr by (intro exI[of _ xs3]) (auto simp: upd_rec_def)
  show ?B using eq assms(3) by auto
qed
text \<open>The state a response starts from: the attempt's row is written, nothing else of the request has moved.\<close>

definition opened :: "Key set \<Rightarrow> xstate \<Rightarrow> xstate \<Rightarrow> bool" where
  "opened K xs xb \<longleftrightarrow>
     xCand xb = xCand xs \<and> xSeq xb = xSeq xs \<and> xErrors xb = xErrors xs \<and> xSignals xb = xSignals xs \<and> \<not> xHealthDone xb \<and>
     rrStatus (xRec xb) = rrStatus (xRec xs) \<and> rrSkips (xRec xb) = rrSkips (xRec xs) \<and>
     rrErrorCode (xRec xb) = rrErrorCode (xRec xs) \<and>
     (\<exists>row. rrAttempts (xRec xb) = rrAttempts (xRec xs) @ [row] \<and> row_key row = cand_key (xCand xs)) \<and>
     \<not> cwCommitted (xCW xb) \<and> claims (xBreaker xb) \<subseteq> claims (xBreaker xs) \<union> K"

lemma opened_rec:
  assumes "opened K xs xb" "rec_frame (xRec xb) r"
  shows "rrStatus r = rrStatus (xRec xs) \<and> rrSkips r = rrSkips (xRec xs) \<and> rrErrorCode r = rrErrorCode (xRec xs) \<and>
    (\<exists>row. rrAttempts r = rrAttempts (xRec xs) @ [row] \<and> row_key row = cand_key (xCand xs))"
proof -
  obtain row where "rrAttempts (xRec xb) = rrAttempts (xRec xs) @ [row]" "row_key row = cand_key (xCand xs)"
    using assms(1) by (auto simp: opened_def)
  then show ?thesis using assms rec_frame_snoc[OF assms(2)] by (auto simp: opened_def rec_frame_def)
qed

text \<open>What holds of the settled state in either case.\<close>

lemma settle_claims:
  assumes op: "opened K xs xb" and r: "responds env xb (x3, oc, e)"
  shows "claims (xBreaker x3) \<subseteq> claims (xBreaker xs) \<union> K"
    "claims (xBreaker (others ops x3)) \<subseteq> claims (xBreaker xs) \<union> (K \<union> ops_claims ops)"
proof -
  show cl: "claims (xBreaker x3) \<subseteq> claims (xBreaker xs) \<union> K"
    using responds_kept[OF r] op by (auto simp: kept_def opened_def)
  show "claims (xBreaker (others ops x3)) \<subseteq> claims (xBreaker xs) \<union> (K \<union> ops_claims ops)"
    using claims_others[of ops x3] cl by blast
qed

lemma settle_base:
  assumes op: "opened K xs xb" and r: "responds env xb (x3, oc, e)"
  shows "rec_frame (xRec xb) (xRec (settled_rec ob oc (others ops x3)))"
    "xCand (settled_rec ob oc (others ops x3)) = xCand xs" "xSeq (settled_rec ob oc (others ops x3)) = xSeq xs"
    "xErrors (settled_rec ob oc (others ops x3)) = xErrors xs" "xSignals (settled_rec ob oc (others ops x3)) = xSignals x3"
    "xHealthDone (settled_rec ob oc (others ops x3)) = xHealthDone x3"
    "xBreaker (settled_rec ob oc (others ops x3)) = xBreaker (others ops x3)"
    "xCW (settled_rec ob oc (others ops x3)) = xCW x3"
proof -
  have k3: "kept xb x3" by (rule responds_kept[OF r])
  note q = settled_rec_quiet[where xs = "others ops x3" and ob = ob and oc = oc]
  show "rec_frame (xRec xb) (xRec (settled_rec ob oc (others ops x3)))"
    using k3 q(1) rec_frame_trans by (fastforce simp: kept_def quiet_def)
qed (use settled_rec_quiet[where xs = "others ops x3" and ob = ob and oc = oc] responds_kept[OF r] op
     in \<open>auto simp: quiet_def kept_def opened_def\<close>)

lemma respond_settle_open:
  assumes op: "opened K xs xb" and r: "responds env xb (x3, oc, e)" and h: "exHealth env"
    and s: "settle env rt ob st (others ops x3, oc, e) = (xs', res)" and nc: "\<not> (cwCommitted (xCW x3) \<and> oc \<noteq> OutcomeSuccess)"
  shows "attempted xs xs' res" "breaker_part (K \<union> ops_claims ops) xs xs' res"
proof -
  let ?k = "cand_key (xCand xs)"
  note b = settle_base[OF op r, where ob = ob and ops = ops]
  have so: "xs' = settled_rec ob oc (others ops x3)" "atOutcome res = oc" "atErr res = e"
    "atCommitted res = cwCommitted (xCW x3)" "\<not> atClientGone res" "atIssued res"
    using settle_open[OF _ s] nc by auto
  have ne: "rrAttempts (xRec (others ops x3)) \<noteq> []"
    using responds_kept[OF r] op by (auto simp: kept_def rec_frame_def opened_def)
  have oc: "oc \<noteq> OutcomeSuccess \<Longrightarrow> arOutcome (last (rrAttempts (xRec xs'))) = Outcome_string oc"
    using settled_rec_outcome[OF ne, of oc ob] nc so(1) by simp
  show "attempted xs xs' res"
    using opened_rec[OF op b(1)] so b oc nc r by (auto simp: attempted_def responds_def)
  show "breaker_part (K \<union> ops_claims ops) xs xs' res"
  proof (cases "xHealthDone x3")
    case True
    then have sg: "signalled env oc xb x3" "oc \<noteq> OutcomeSuccess" using r op by (auto simp: responds_def quiet_def opened_def)
    then obtain s where "sgOutcome s = oc" "xSignals x3 = xSignals xs @ [(?k, s)]"
      "claims (xBreaker x3) \<inter> {?k, cred_key ?k} = {}" "\<not> cwCommitted (xCW x3)"
      using op h by (auto simp: signalled_def opened_def)
    moreover from this(3) have "claims (xBreaker (others ops x3)) \<subseteq> (claims (xBreaker xs) - {?k, cred_key ?k}) \<union> (K \<union> ops_claims ops)"
      using settle_claims(1)[OF op r] claims_others[of ops x3] by blast
    ultimately show ?thesis using True so(1,2,4-6) b(5-8) sg(2) by (simp add: breaker_part_def Let_def)
  next
    case False
    then have "xSignals x3 = xSignals xs" using r op by (auto simp: responds_def quiet_def signalled_def opened_def)
    then show ?thesis using False so b settle_claims(2)[OF op r, of ops] by (simp add: breaker_part_def)
  qed
qed

lemma respond_settle_committed:
  assumes op: "opened K xs xb" and r: "responds env xb (x3, oc, e)" and h: "exHealth env"
    and s: "settle env rt ob st (others ops x3, oc, e) = (xs', res)" and c: "cwCommitted (xCW x3)" "oc \<noteq> OutcomeSuccess"
  shows "attempted xs xs' res" "breaker_part (K \<union> ops_claims ops) xs xs' res"
proof -
  let ?k = "cand_key (xCand xs)"
  note b = settle_base[OF op r, where ob = ob and ops = ops]
  have q3: "quiet xb x3" using r c op by (auto simp: responds_def signalled_def opened_def)
  have c': "cwCommitted (xCW (others ops x3))" using c by simp
  note sc = settle_committed[OF c' c(2) s]
  from sc(1) obtain x5 where x5: "signalled env oc (settled_rec ob oc (others ops x3)) x5"
    "xCand xs' = xCand x5" "xSeq xs' = xSeq x5" "xErrors xs' = xErrors x5" "xSignals xs' = xSignals x5"
    "xBreaker xs' = xBreaker x5" "xHealthDone xs' = xHealthDone x5" "xCW xs' = xCW x5"
    "rec_frame (xRec x5) ((xRec xs')\<lparr>rrErrorCode := rrErrorCode (xRec x5)\<rparr>)"
    "atClientGone res \<or> rrErrorCode (xRec xs') \<noteq> ''''" by (elim exE conjE, intro that)
  have k5: "kept (settled_rec ob oc (others ops x3)) x5" by (rule signalled_kept[OF x5(1)])
  have fr5: "rec_frame (xRec xb) ((xRec xs')\<lparr>rrErrorCode := rrErrorCode (xRec x5)\<rparr>)"
    using rec_frame_trans[OF rec_frame_trans[OF b(1)] x5(9)] k5 by (simp add: kept_def)
  have "xCand x5 = xCand xs" "xSeq x5 = xSeq xs" "xErrors x5 = xErrors xs" "xCW x5 = xCW x3"
    using k5 b x5(1) by (simp_all add: kept_def signalled_def)
  then show "attempted xs xs' res"
    using opened_rec[OF op fr5] x5(2-4,8) sc(2) c by (simp add: attempted_def)
  have nd: "\<not> xHealthDone x3" "xSignals x3 = xSignals xs" using q3 op by (auto simp: quiet_def opened_def)
  then obtain s where "sgOutcome s = oc" "xSignals x5 = xSignals xs @ [(?k, s)]"
    "claims (xBreaker x5) \<inter> {?k, cred_key ?k} = {}" "xHealthDone x5"
    using x5(1) h b by (auto simp: signalled_def)
  moreover have "claims (xBreaker x5) \<subseteq> claims (xBreaker xs) \<union> (K \<union> ops_claims ops)"
    using k5 b settle_claims(2)[OF op r, of ops] by (auto simp: kept_def)
  ultimately show "breaker_part (K \<union> ops_claims ops) xs xs' res"
    using x5 sc(2) c by (auto simp: breaker_part_def Let_def)
qed

lemmas respond_settle = respond_settle_open respond_settle_committed
lemma opened_send:
  assumes "\<not> xHealthDone xs"
  shows "opened (ops_claims ops) xs
    ((upd_rec (\<lambda>r. recordAttempt r (xCand xs) oc sc err lat path)
       ((others ops (xs\<lparr>xWarns := ws\<rparr>))\<lparr>xSent := snt, xResp := resp\<rparr>))\<lparr>xCW := NewCommitWriter plan\<rparr>)"
  using assms claims_others[of ops "xs\<lparr>xWarns := ws\<rparr>"]
  by (auto simp: opened_def upd_rec_def recordAttempt_def row_key_def cand_key_def NewCommitWriter_def)

definition attempt_keys :: "'i att_obs \<Rightarrow> Key set" where
  "attempt_keys ob = ops_claims (obSendOps ob) \<union> ops_claims (obBodyOps ob)"

text \<open>What happened to the candidate: the refusal before the send, the classification of the send, or what became of the
  response, which a body that dies after its first bytes decides too.\<close>

definition sent_state :: "('z) adapter_full_scheme \<Rightarrow> route \<Rightarrow> 'i att_obs \<Rightarrow> xstate \<Rightarrow> xstate" where
  "sent_state ad rt ob xs =
     (case send_outcome ad ob of (oc, doErr) \<Rightarrow>
        (upd_rec (\<lambda>r. recordAttempt r (xCand xs) oc (case obResp ob of Some r \<Rightarrow> StatusCode r | None \<Rightarrow> 0) doErr
             (akLatency (obClock ob)) (rtPath rt))
           ((others (obSendOps ob) xs)\<lparr>xSent := xSent xs @ [cand_key (xCand xs)], xResp := obResp ob\<rparr>))
          \<lparr>xCW := NewCommitWriter (obPlan ob)\<rparr>)"

definition what_happened ::
    "'i respond \<Rightarrow> exec_env \<Rightarrow> json_ops \<Rightarrow> surface_op \<Rightarrow> ('z) adapter_full_scheme \<Rightarrow> Provider \<Rightarrow> (string \<Rightarrow> string \<Rightarrow> Model option)
       \<Rightarrow> (string \<times> string) list \<Rightarrow> bool \<Rightarrow> 'i att_obs \<Rightarrow> xstate \<Rightarrow> Outcome" where
  "what_happened respond env js op ad p cat inHeaders allowForward ob xs =
     (case prepare env js op ad p cat inHeaders allowForward ob xs of
        Inl (_, res) \<Rightarrow> if atOutcome res = OutcomeFatal then OutcomeClientCancelled else atOutcome res
      | Inr (xs0, rt) \<Rightarrow>
          if fst (send_outcome ad ob) \<noteq> OutcomeSuccess then fst (send_outcome ad ob)
          else fst (snd (dispatch respond env op rt ob (sent_state ad rt ob xs0))))"

text \<open>The body of an attempt has told the breaker that, or leaves it to the deferred record.\<close>

definition verdict_part :: "Outcome \<Rightarrow> xstate \<Rightarrow> xstate \<Rightarrow> attemptResult \<Rightarrow> bool" where
  "verdict_part v xs xs' res \<longleftrightarrow>
     (if xHealthDone xs' then \<exists>s. xSignals xs' = xSignals xs @ [(cand_key (xCand xs), s)] \<and> sgOutcome s = v
      else xSignals xs' = xSignals xs \<and> v = (if atOutcome res = OutcomeFatal \<and> \<not> atIssued res then OutcomeClientCancelled else atOutcome res)) \<and>
     (atCommitted res \<and> v \<noteq> OutcomeSuccess \<longrightarrow> (if atClientGone res then v = OutcomeClientCancelled else rrErrorCode (xRec xs') \<noteq> '''')) \<and>
     (v = OutcomeSuccess \<longrightarrow> \<not> atClientGone res \<and> rrErrorCode (xRec xs') = rrErrorCode (xRec xs))"

lemma settle_verdict:
  assumes op: "opened K xs xb" and r: "responds env xb (x3, oc, e)" and h: "exHealth env"
    and s: "settle env rt ob st (others ops x3, oc, e) = (xs', res)"
  shows "verdict_part oc xs xs' res"
proof (cases "cwCommitted (xCW x3) \<and> oc \<noteq> OutcomeSuccess")
  case True
  note b = settle_base[OF op r, where ob = ob and ops = ops]
  have c: "cwCommitted (xCW (others ops x3))" "oc \<noteq> OutcomeSuccess" using True by simp_all
  note sc = settle_committed[OF c s]
  from sc(1) obtain x5 where x5: "signalled env oc (settled_rec ob oc (others ops x3)) x5" "xSignals xs' = xSignals x5"
    "xHealthDone xs' = xHealthDone x5" "atClientGone res \<or> rrErrorCode (xRec xs') \<noteq> ''''" by blast
  have q: "quiet xb x3" using r op True by (auto simp: responds_def signalled_def opened_def)
  then have "\<not> xHealthDone x3" "xSignals x3 = xSignals xs" using op by (auto simp: quiet_def opened_def)
  then have "\<exists>s. xSignals xs' = xSignals xs @ [(cand_key (xCand xs), s)] \<and> sgOutcome s = oc" "xHealthDone xs'"
    using x5 h b by (auto simp: signalled_def)
  moreover have "atClientGone res \<Longrightarrow> oc = OutcomeClientCancelled" using s True by (auto simp: settle_def Let_def)
  ultimately show ?thesis using x5(4) True by (auto simp: verdict_part_def)
next
  case False
  note b = settle_base[OF op r, where ob = ob and ops = ops]
  have so: "xs' = settled_rec ob oc (others ops x3)" "atOutcome res = oc" "atCommitted res = cwCommitted (xCW x3)"
    "\<not> atClientGone res" "atIssued res" using settle_open[OF _ s] False by auto
  have code: "rrErrorCode (xRec xs') = rrErrorCode (xRec xs)" using opened_rec[OF op b(1)] by (simp add: so(1))
  show ?thesis
  proof (cases "xHealthDone x3")
    case True
    then have "signalled env oc xb x3" using r op by (auto simp: responds_def quiet_def opened_def)
    then show ?thesis using True so b op h code False by (auto simp: verdict_part_def signalled_def opened_def)
  next
    case nd: False
    then have "xSignals x3 = xSignals xs" using r op by (auto simp: responds_def quiet_def signalled_def opened_def)
    then show ?thesis using nd so b code False by (auto simp: verdict_part_def)
  qed
qed

text \<open>The deferred record on top of what the body left.\<close>

definition attempt_signal :: "xstate \<Rightarrow> xstate \<Rightarrow> attemptResult \<Rightarrow> Key set \<Rightarrow> bool" where
  "attempt_signal xs xs' res K \<longleftrightarrow>
     (\<exists>s. let k = cand_key (xCand xs) in
        xSignals xs' = xSignals xs @ [(k, s)] \<and> claims (xBreaker xs') \<subseteq> (claims (xBreaker xs) - {k, cred_key k}) \<union> K \<and>
        (if atCommitted res then sgOutcome s = OutcomeSuccess \<or> atClientGone res \<or> rrErrorCode (xRec xs') \<noteq> ''''
         else sgOutcome s = (if atOutcome res = OutcomeFatal \<and> \<not> atIssued res then OutcomeClientCancelled else atOutcome res)))"

lemma deferred_record:
  assumes a: "attempted xs x1 res" and b: "breaker_part K xs x1 res" and h: "exHealth env"
    and x': "xs' = recordHealth env ck (if atOutcome res = OutcomeFatal \<and> \<not> atIssued res then OutcomeClientCancelled else atOutcome res) (xResp x1) x1"
  shows "attempted xs xs' res" "attempt_signal xs xs' res K"
proof -
  define oc where "oc = (if atOutcome res = OutcomeFatal \<and> \<not> atIssued res then OutcomeClientCancelled else atOutcome res)"
  have sg: "signalled env oc x1 xs'" unfolding x' oc_def by (rule recordHealth_signalled)
  have rec: "xRec xs' = xRec x1" unfolding x' by (simp add: recordHealth_def recordHealthFor_def Let_def)
  have k: "xCand x1 = xCand xs" using a by (simp add: attempted_def)
  show "attempted xs xs' res" using a sg rec by (simp add: attempted_def signalled_def kept_def)
  show "attempt_signal xs xs' res K"
  proof (cases "xHealthDone x1")
    case True
    then have "xs' = x1" unfolding x' by (simp add: recordHealth_def)
    then show ?thesis using b True by (auto simp: breaker_part_def attempt_signal_def Let_def)
  next
    case False
    let ?k = "cand_key (xCand xs)"
    obtain s where s: "sgOutcome s = oc" "xSignals xs' = xSignals x1 @ [(?k, s)]" "claims (xBreaker xs') \<inter> {?k, cred_key ?k} = {}"
      using sg False h k by (auto simp: signalled_def)
    have "xSignals x1 = xSignals xs" "claims (xBreaker xs') \<subseteq> claims (xBreaker xs) \<union> K"
      using b False sg by (auto simp: breaker_part_def signalled_def kept_def)
    moreover have "atCommitted res \<Longrightarrow> oc = OutcomeSuccess" using a by (simp add: attempted_def oc_def)
    ultimately show ?thesis
      using s by (auto simp: attempt_signal_def Let_def oc_def intro!: exI[of _ s])
  qed
qed

context surface
begin

lemma attempt_body_spec:
  assumes "exHealth env" "\<not> xHealthDone xs" "\<not> cwCommitted (xCW xs)"
    "attempt_body respond env js sop ad p cat hs allow ob xs = (xs', res)"
  shows "attempted xs xs' res" "breaker_part (attempt_keys ob) xs xs' res"
proof -
  have "attempted xs xs' res \<and> breaker_part (attempt_keys ob) xs xs' res"
  proof (cases "prepare env js sop ad p cat hs allow ob xs")
    case (Inl out)
    then have r: "refused xs (xs', res)" using prepare_spec[of xs env js sop ad p cat hs allow ob] assms(4) by (simp add: attempt_body_def)
    then have "breaker_part (attempt_keys ob) xs xs' res"
      using assms(2) by (auto simp: refused_def breaker_part_def with_row_def upd_rec_def)
    then show ?thesis using attempted_refused[OF r assms(3)] by simp
  next
    case (Inr pr)
    then obtain ws rt where pr: "pr = (xs\<lparr>xWarns := ws\<rparr>, rt)"
      using prepare_spec[of xs env js sop ad p cat hs allow ob] by (cases pr) auto
    obtain oc doErr where so: "send_outcome ad ob = (oc, doErr)" by (cases "send_outcome ad ob")
    define sc where "sc = (case obResp ob of Some r \<Rightarrow> StatusCode r | None \<Rightarrow> 0)"
    define xb where "xb = upd_rec (\<lambda>r. recordAttempt r (xCand xs) oc sc doErr (akLatency (obClock ob)) (rtPath rt))
       ((others (obSendOps ob) (xs\<lparr>xWarns := ws\<rparr>))\<lparr>xSent := xSent xs @ [cand_key (xCand xs)], xResp := obResp ob\<rparr>)"
    note op = opened_send[OF assms(2), where ops = "obSendOps ob" and oc = oc and sc = sc and err = doErr and ws = ws and
        lat = "akLatency (obClock ob)" and path = "rtPath rt" and resp = "obResp ob" and snt = "xSent xs @ [cand_key (xCand xs)]",
        folded xb_def]
    show ?thesis
    proof (cases "oc = OutcomeSuccess")
      case False
      then have e: "xs' = xb" "res = \<lparr>atOutcome = oc, atStatus = sc, atErr = Some (errorFor oc doErr), atPath = rtPath rt,
                  atCommitted = False, atClientGone = False, atIssued = True\<rparr>"
        using assms(4) unfolding attempt_body_def Inr pr by (simp_all add: so sc_def xb_def Let_def)
      have "opened (ops_claims (obSendOps ob)) xs (xb\<lparr>xCW := NewCommitWriter []\<rparr>)" by (rule op)
      then show ?thesis
        using False assms(3) unfolding e
        by (auto simp: opened_def attempted_def breaker_part_def attempt_keys_def xb_def upd_rec_def recordAttempt_def)
    next
      case True
      obtain x3 oc1 e where d: "dispatch respond env sop rt ob (xb\<lparr>xCW := NewCommitWriter (obPlan ob)\<rparr>) = (x3, oc1, e)"
        by (metis prod_cases3)
      then have r: "responds env (xb\<lparr>xCW := NewCommitWriter (obPlan ob)\<rparr>) (x3, oc1, e)"
        using dispatch_contract[of env "xb\<lparr>xCW := NewCommitWriter (obPlan ob)\<rparr>" sop rt ob] by simp
      have s: "settle env rt ob sc (others (obBodyOps ob) x3, oc1, e) = (xs', res)"
        using assms(4) d True unfolding attempt_body_def Inr pr by (simp add: so sc_def xb_def Let_def)
      show ?thesis
        using respond_settle[OF op r assms(1) s] by (cases "cwCommitted (xCW x3) \<and> oc1 \<noteq> OutcomeSuccess") (auto simp: attempt_keys_def)
    qed
  qed
  then show "attempted xs xs' res" "breaker_part (attempt_keys ob) xs xs' res" by simp_all
qed

text \<open>A request is sent to the candidate, once, exactly when the attempt says it was issued.\<close>

lemma settle_sent:
  assumes "settle env rt ob st (xs, oc, e) = (xs', res)"
  shows "xSent xs' = xSent xs \<and> atIssued res"
proof (cases "cwCommitted (xCW xs) \<and> oc \<noteq> OutcomeSuccess")
  case False
  then show ?thesis using settle_open[OF False assms] settled_rec_quiet(1)[of xs ob oc] by (auto simp: quiet_def kept_def)
next
  case True
  have "xSent (settled_rec ob oc xs) = xSent xs" using settled_rec_quiet(1)[of xs ob oc] by (simp add: quiet_def kept_def)
  moreover obtain xs3 where "signalled env oc (settled_rec ob oc xs) xs3" "xSent xs' = xSent xs3"
    using settle_committed(1)[OF conjunct1[OF True] conjunct2[OF True] assms] by blast
  ultimately show ?thesis using settle_committed(2)[OF conjunct1[OF True] conjunct2[OF True] assms] by (simp add: signalled_def kept_def)
qed

lemma attempt_sent:
  assumes "attempt respond env js sop ad p cat hs allow ob xs = (xs', res)"
  shows "xSent xs' = xSent xs @ (if atIssued res then [cand_key (xCand xs)] else [])"
proof -
  obtain x1 r1 where b: "attempt_body respond env js sop ad p cat hs allow ob xs = (x1, r1)" by (metis prod.exhaust)
  have e: "r1 = res" "xSent xs' = xSent x1"
    using assms b recordHealth_signalled[of env "if atOutcome res = OutcomeFatal \<and> \<not> atIssued res then OutcomeClientCancelled else atOutcome res"
        x1 "obClock ob" "xResp x1"]
    by (auto simp: attempt_def Let_def signalled_def kept_def)
  show ?thesis
  proof (cases "prepare env js sop ad p cat hs allow ob xs")
    case (Inl out)
    then have "refused xs (x1, res)" using prepare_spec[of xs env js sop ad p cat hs allow ob] b e(1) by (simp add: attempt_body_def)
    then show ?thesis by (auto simp: e refused_def with_row_def upd_rec_def)
  next
    case (Inr pr)
    then obtain ws rt where pr: "pr = (xs\<lparr>xWarns := ws\<rparr>, rt)"
      using prepare_spec[of xs env js sop ad p cat hs allow ob] by (cases pr) auto
    obtain oc doErr where so: "send_outcome ad ob = (oc, doErr)" by (cases "send_outcome ad ob")
    let ?xb = "sent_state ad rt ob (xs\<lparr>xWarns := ws\<rparr>)"
    have sent: "xSent ?xb = xSent xs @ [cand_key (xCand xs)]" by (simp add: sent_state_def so upd_rec_def)
    show ?thesis
    proof (cases "oc = OutcomeSuccess")
      case False
      then show ?thesis using b unfolding attempt_body_def Inr pr by (auto simp: so Let_def e upd_rec_def)
    next
      case True
      obtain x3 oc1 a where d: "dispatch respond env sop rt ob ?xb = (x3, oc1, a)" by (metis prod_cases3)
      have "xSent x3 = xSent ?xb" using responds_kept[of env ?xb x3 oc1 a] dispatch_contract[of env ?xb sop rt ob] d by (simp add: kept_def)
      moreover have "settle env rt ob (case obResp ob of Some r \<Rightarrow> StatusCode r | None \<Rightarrow> 0) (others (obBodyOps ob) x3, oc1, a) = (x1, res)"
        using b d True e(1) unfolding attempt_body_def Inr pr by (simp add: so sent_state_def Let_def)
      ultimately show ?thesis using settle_sent by (metis others_frames(11) sent e(2))
    qed
  qed
qed

lemma attempt_body_verdict:
  assumes "exHealth env" "\<not> xHealthDone xs" "\<not> cwCommitted (xCW xs)"
    "attempt_body respond env js sop ad p cat hs allow ob xs = (xs', res)"
  shows "verdict_part (what_happened respond env js sop ad p cat hs allow ob xs) xs xs' res"
proof (cases "prepare env js sop ad p cat hs allow ob xs")
  case (Inl out)
  then have o: "out = (xs', res)" using assms(4) by (simp add: attempt_body_def)
  have "refused xs (xs', res)" using prepare_spec[of xs env js sop ad p cat hs allow ob] Inl o by simp
  then show ?thesis using assms(2) Inl
    by (auto simp: o refused_def verdict_part_def what_happened_def with_row_def upd_rec_def)
next
  case (Inr pr)
  then obtain ws rt where pr: "pr = (xs\<lparr>xWarns := ws\<rparr>, rt)"
    using prepare_spec[of xs env js sop ad p cat hs allow ob] by (cases pr) auto
  obtain oc doErr where so: "send_outcome ad ob = (oc, doErr)" by (cases "send_outcome ad ob")
  let ?xb = "sent_state ad rt ob (xs\<lparr>xWarns := ws\<rparr>)"
  show ?thesis
  proof (cases "oc = OutcomeSuccess")
    case False
    then show ?thesis
      using assms(2,4) unfolding attempt_body_def Inr pr
      by (auto simp: so Let_def verdict_part_def what_happened_def Inr pr upd_rec_def recordAttempt_def)
  next
    case True
    obtain x3 oc1 e where d: "dispatch respond env sop rt ob ?xb = (x3, oc1, e)" by (metis prod_cases3)
    have op: "opened (ops_claims (obSendOps ob)) xs ?xb"
      using opened_send[OF assms(2)] by (simp add: sent_state_def so)
    have r: "responds env ?xb (x3, oc1, e)" using dispatch_contract[of env ?xb sop rt ob] by (simp add: d)
    have s: "settle env rt ob (case obResp ob of Some r \<Rightarrow> StatusCode r | None \<Rightarrow> 0) (others (obBodyOps ob) x3, oc1, e) = (xs', res)"
      using assms(4) d True unfolding attempt_body_def Inr pr by (simp add: so sent_state_def Let_def)
    have "what_happened respond env js sop ad p cat hs allow ob xs = oc1"
      using True d by (simp add: what_happened_def Inr pr so)
    then show ?thesis using settle_verdict[OF op r assms(1) s] by simp
  qed
qed

lemma attempt_verdict:
  assumes "exHealth env" "\<not> xHealthDone xs" "\<not> cwCommitted (xCW xs)"
    "attempt respond env js sop ad p cat hs allow ob xs = (xs', res)"
  shows "\<exists>s. xSignals xs' = xSignals xs @ [(cand_key (xCand xs), s)] \<and>
    sgOutcome s = what_happened respond env js sop ad p cat hs allow ob xs"
    and "atCommitted res \<Longrightarrow> what_happened respond env js sop ad p cat hs allow ob xs \<noteq> OutcomeSuccess \<Longrightarrow>
      (if atClientGone res then what_happened respond env js sop ad p cat hs allow ob xs = OutcomeClientCancelled
       else rrErrorCode (xRec xs') \<noteq> '''')"
    and "what_happened respond env js sop ad p cat hs allow ob xs = OutcomeSuccess \<Longrightarrow>
      \<not> atClientGone res \<and> rrErrorCode (xRec xs') = rrErrorCode (xRec xs)"
proof -
  define v where "v = what_happened respond env js sop ad p cat hs allow ob xs"
  obtain x1 r1 where b: "attempt_body respond env js sop ad p cat hs allow ob xs = (x1, r1)" by (metis prod.exhaust)
  define oc where "oc = (if atOutcome res = OutcomeFatal \<and> \<not> atIssued res then OutcomeClientCancelled else atOutcome res)"
  have e: "r1 = res" "xs' = recordHealth env (obClock ob) oc (xResp x1) x1"
    using assms(4) b by (auto simp: attempt_def Let_def oc_def)
  have vp: "verdict_part v xs x1 res" unfolding v_def by (rule attempt_body_verdict[OF assms(1-3) b[unfolded e(1)]])
  have a: "attempted xs x1 res" by (rule attempt_body_spec(1)[OF assms(1-3) b[unfolded e(1)]])
  have rec: "xRec xs' = xRec x1" by (simp add: e(2) recordHealth_def recordHealthFor_def Let_def)
  show "\<exists>s. xSignals xs' = xSignals xs @ [(cand_key (xCand xs), s)] \<and> sgOutcome s = v"
  proof (cases "xHealthDone x1")
    case True
    then show ?thesis using vp by (auto simp: e(2) recordHealth_def verdict_part_def)
  next
    case False
    have "signalled env oc x1 xs'" unfolding e(2) by (rule recordHealth_signalled)
    then show ?thesis using False vp a assms(1) by (auto simp: signalled_def verdict_part_def attempted_def oc_def)
  qed
  show "atCommitted res \<Longrightarrow> v \<noteq> OutcomeSuccess \<Longrightarrow>
      (if atClientGone res then v = OutcomeClientCancelled else rrErrorCode (xRec xs') \<noteq> '''')"
    "v = OutcomeSuccess \<Longrightarrow> \<not> atClientGone res \<and> rrErrorCode (xRec xs') = rrErrorCode (xRec xs)"
    using vp by (simp_all add: verdict_part_def rec)
qed

lemma attempt_spec:
  assumes "exHealth env" "\<not> xHealthDone xs" "\<not> cwCommitted (xCW xs)"
    "attempt respond env js sop ad p cat hs allow ob xs = (xs', res)"
  shows "attempted xs xs' res" "attempt_signal xs xs' res (attempt_keys ob)"
proof -
  obtain x1 r1 where b: "attempt_body respond env js sop ad p cat hs allow ob xs = (x1, r1)" by (metis prod.exhaust)
  then have e: "r1 = res" "xs' = recordHealth env (obClock ob)
      (if atOutcome res = OutcomeFatal \<and> \<not> atIssued res then OutcomeClientCancelled else atOutcome res) (xResp x1) x1"
    using assms(4) by (auto simp: attempt_def Let_def)
  show "attempted xs xs' res" "attempt_signal xs xs' res (attempt_keys ob)"
    by (rule deferred_record[OF attempt_body_spec[OF assms(1-3) b[unfolded e(1)]] assms(1) e(2)])+
qed

end

text \<open>C4. The breaker hears from every attempt exactly once, and hears what happened. With the recorder wired, an attempt
  through the chat surface appends one signal, for its own candidate, and one row. The signal's outcome is what happened to
  the candidate, whether bytes had reached the client or not: the refusal before the send (one that could not even be rendered
  is told as cancelled, so that a client cannot reset a cooling model), the classification of the send, or the verdict of the
  response path, a body that breaks off included. While nothing was committed it is the attempt's own outcome. A committed
  response always ends the chain as a success, and then the signal is a success exactly when the client stayed to the end and the
  attempt wrote no error code: a client that left is told as a cancellation, any other failure leaves its code on the row.\<close>

theorem attempt_reports_once:
  assumes "exHealth env" "\<not> xHealthDone xs" "\<not> cwCommitted (xCW xs)"
    and "attempt chat_Respond env js sop ad p cat hs allow ob xs = (xs', res)"
  shows "\<exists>s row. xSignals xs' = xSignals xs @ [(cand_key (xCand xs), s)] \<and>
    rrAttempts (xRec xs') = rrAttempts (xRec xs) @ [row] \<and> row_key row = cand_key (xCand xs) \<and>
    sgOutcome s = what_happened chat_Respond env js sop ad p cat hs allow ob xs \<and>
    (atCommitted res \<longleftrightarrow> cwCommitted (xCW xs')) \<and>
    (if atCommitted res then atOutcome res = OutcomeSuccess \<and>
       (if sgOutcome s = OutcomeSuccess then \<not> atClientGone res \<and> rrErrorCode (xRec xs') = rrErrorCode (xRec xs)
        else if atClientGone res then sgOutcome s = OutcomeClientCancelled
        else rrErrorCode (xRec xs') \<noteq> '''')
     else sgOutcome s = (if atOutcome res = OutcomeFatal \<and> \<not> atIssued res then OutcomeClientCancelled else atOutcome res))"
proof -
  note v = chat.attempt_verdict[OF assms]
  obtain s where s: "xSignals xs' = xSignals xs @ [(cand_key (xCand xs), s)]"
    "sgOutcome s = what_happened chat_Respond env js sop ad p cat hs allow ob xs" using v(1) by blast
  moreover have "\<not> atCommitted res \<Longrightarrow> sgOutcome s = (if atOutcome res = OutcomeFatal \<and> \<not> atIssued res then OutcomeClientCancelled else atOutcome res)"
    using chat.attempt_spec(2)[OF assms] s(1) by (auto simp: attempt_signal_def Let_def)
  ultimately show ?thesis using chat.attempt_spec(1)[OF assms] v(2,3) by (auto simp: attempted_def)
qed

definition demo_exec_env :: exec_env where
  "demo_exec_env = \<lparr>exFleet = True, exHealth = True, exParseTime = (\<lambda>_. None), exPresets = [], exAuthFor = None,
     exMaxPrecommit = 65536, exMaxLine = 65536\<rparr>"

definition demo_op :: "go_error option \<Rightarrow> surface_op" where
  "demo_op err = \<lparr>opDialect = ''openai'', opQuery = demo_query ''gpt-4o'', opPassthrough = None,
     opBuild = (\<lambda>_. ([], err)), opStreamError = (\<lambda>_. [])\<rparr>"

definition demo_adapter :: adapter_full where
  "demo_adapter = \<lparr>adClassify = ClassifyStatus, adClassifyBody = None, adForwarder = None, adBuildForward = (\<lambda>_ _. None)\<rparr>"

definition demo_ctx :: ctx_view where
  "demo_ctx = \<lparr>ctxTimeout = False, ctxDone = False, ctxCanceled = False, ctxShutdown = False\<rparr>"

definition demo_att :: "int \<Rightarrow> unit chat_input att_obs" where
  "demo_att status = \<lparr>obClock = \<lparr>akRetryAfter = 220, akRecord = 220, akServed = 215, akLatency = 10, akFullLatency = 20\<rparr>,
     obReplay = None, obAuth = None, obAuthCtx = demo_ctx,
     obResp = Some \<lparr>StatusCode = status, RetryAfterHeader = ''''\<rparr>, obDoErr = None, obSendCtx = demo_ctx,
     obErrBody = ('''', None), obSendOps = [], obPlan = [], obHeaders = [], obReads = [], obUnary = ('''', None, []),
     obInput = ChatUnary (Inl (zero_usage\<lparr>InputTokens := 7, OutputTokens := 2\<rparr>, [], [''hello''])), obReadCtx = demo_ctx,
     obBodyOps = [], obEndCtx = demo_ctx\<rparr>"

definition demo_attempt_state :: xstate where
  "demo_attempt_state =
     \<lparr>xBreaker = demo_tripped, xSignals = [], xRec = newRecord ''r1'' 0 ''openai'' ''llm'' ''proxy'', xHeader = [], xErrors = [], xSent = [],
      xCand = demo_candidate, xSeq = 1, xWarns = [], xResp = None, xHealthDone = False, xCW = NewCommitWriter []\<rparr>"

definition demo_json :: json_ops where
  "demo_json = \<lparr>jsUnmarshal = (\<lambda>_. Inr []), jsString = id, jsEncode = (\<lambda>_. '''')\<rparr>"

definition demo_run :: "go_error option \<Rightarrow> int \<Rightarrow> xstate \<times> attemptResult" where
  "demo_run err status = attempt chat_Respond demo_exec_env demo_json
     (demo_op err) demo_adapter demo_provider (\<lambda>_ _. None) [] True (demo_att status) demo_attempt_state"

text \<open>A body the adapter refuses to render, with a typed error: the attempt is fatal, the breaker hears a cancellation.\<close>

lemma demo_run_refused:
  "snd (demo_run (Some (of_ir_error (mk_error ErrInvalidRequest ''bad''))) 200) =
     \<lparr>atOutcome = OutcomeFatal, atStatus = 0, atErr = Some (mk_error ErrInvalidRequest ''bad''), atPath = ''ir'',
      atCommitted = False, atClientGone = False, atIssued = False\<rparr>"
proof -
  have "credentialFor [] None demo_provider demo_candidate = Inr (AdapterWrites '''')" by code_simp
  moreover have "ResolveBaseURL (prBaseURL demo_provider) (accountOf demo_provider (cdKeyID demo_candidate)) = Inr ''''" by code_simp
  ultimately show ?thesis
    by (simp add: demo_run_def attempt_def attempt_body_def prepare_def try_forward_def try_build_def failRender_def failBefore_def
        forwardable_def demo_op_def demo_exec_env_def demo_attempt_state_def of_ir_error_def mk_error_def PathIR_def
        add_warns_def Let_def split: prod.splits option.splits)
qed

theorem attempt_reports_once_witness:
  "\<exists>s row. xSignals (fst (demo_run (Some (of_ir_error (mk_error ErrInvalidRequest ''bad''))) 200)) = [(cand_key demo_candidate, s)] \<and>
     rrAttempts (xRec (fst (demo_run (Some (of_ir_error (mk_error ErrInvalidRequest ''bad''))) 200))) = [row] \<and>
     sgOutcome s = OutcomeClientCancelled"
proof -
  let ?r = "demo_run (Some (of_ir_error (mk_error ErrInvalidRequest ''bad''))) 200"
  have a: "?r = (fst ?r, snd ?r)" by simp
  have h: "exHealth demo_exec_env" "\<not> xHealthDone demo_attempt_state" "\<not> cwCommitted (xCW demo_attempt_state)"
    "xSignals demo_attempt_state = []" "rrAttempts (xRec demo_attempt_state) = []" "xCand demo_attempt_state = demo_candidate"
    by (simp_all add: demo_exec_env_def demo_attempt_state_def NewCommitWriter_def newRecord_def)
  show ?thesis
    using attempt_reports_once[OF h(1-3) a[unfolded demo_run_def], folded demo_run_def] h(4-6) demo_run_refused by auto
qed

end
