(* ===== verification/Loop.thy ===== *)
theory Loop
  imports Exec
begin

text \<open>
  The chain, \<^verbatim>\<open>internal/exec\<close>: \<^verbatim>\<open>runAttempts\<close> of \<^verbatim>\<open>exec.go\<close>, the shared prologue of \<^verbatim>\<open>resolve.go\<close> and the entry
  points of \<^verbatim>\<open>surface.go\<close>. Each turn of the loop reads one observation: what other requests did to the breaker
  before it, the clock, and what its attempt or its two attempts saw. The turn is a function of its own, so that the
  loop's progress is a fact about it.
\<close>

section \<open>One turn of the loop\<close>

record 'i iter_obs =
  itOps :: "op list"
  itNow :: time
  itAvail :: "time \<times> time"
  itFirst :: "'i att_obs"
  itRetryNow :: time
  itRetry :: "'i att_obs"
  itEndCtx :: ctx_view

text \<open>What a request's loop is given once: the wiring, the op and its \<^verbatim>\<open>Respond\<close>, the adapters by kind, the provider of
  an id, the catalogue's lookup, the inbound headers, the candidates, the budget and the attempt limit.\<close>

record 'i loop_env =
  leEnv :: exec_env
  leJSON :: json_ops
  leOp :: surface_op
  leRespond :: "'i respond"
  leAdapters :: "(string, adapter_full) gomap"
  leByID :: "(string, Provider) gomap"
  leCatalog :: "string \<Rightarrow> string \<Rightarrow> Model option"
  leHeaders :: "(string \<times> string) list"
  leCands :: "Candidate list"
  leBudget :: budget
  leMaxAttempts :: nat

definition zero_provider :: Provider where
  "zero_provider = \<lparr>prID = '''', prKind = '''', prBaseURL = '''', prPreset = '''', prAuthStyle = '''', prCredentials = [],
     prPriority = 0, prModels = [], prRegion = '''', prProject = '''', prLocation = '''', prFreeModelsOnly = False,
     prAllowUnsanctionedFree = False\<rparr>"

definition provider_of :: "'i loop_env \<Rightarrow> Candidate \<Rightarrow> Provider" where
  "provider_of le c = (case map_of (leByID le) (cdProviderID c) of Some p \<Rightarrow> p | None \<Rightarrow> zero_provider)"

definition add_skips :: "string list \<Rightarrow> xstate \<Rightarrow> xstate" where
  "add_skips ss xs = upd_rec (\<lambda>r. r\<lparr>rrSkips := rrSkips r @ ss\<rparr>) xs"

text \<open>A fresh \<^verbatim>\<open>AttemptCtx\<close>.\<close>

definition new_ctx :: "Candidate \<Rightarrow> nat \<Rightarrow> Warning list \<Rightarrow> xstate \<Rightarrow> xstate" where
  "new_ctx c sq ws xs = xs\<lparr>xCand := c, xSeq := sq, xWarns := ws, xResp := None, xHealthDone := False\<rparr>"

definition retry_warning :: "Candidate \<Rightarrow> Warning" where
  "retry_warning c = \<lparr>wField = ''passthrough'', wTarget = cdProviderID c @ ''/'' @ cdModel c,
     wReason = ''the provider rejected the forwarded body; it was '' @
       ''translated and retried, which drops any field the IR does not model''\<rparr>"

text \<open>The tail every failed chain shares: the row's code, the diagnostics, the error in the client's dialect.\<close>

definition write_error :: "nat \<Rightarrow> Error \<Rightarrow> xstate \<Rightarrow> xstate" where
  "write_error attempts e xs =
     (let xs1 = writeErrorDiagnostics attempts (upd_rec (\<lambda>r. r\<lparr>rrErrorCode := ErrorType_string (errType e)\<rparr>) xs)
      in xs1\<lparr>xErrors := xErrors xs1 @ [e]\<rparr>)"

definition deadline_error :: "Error option \<Rightarrow> Error" where
  "deadline_error lastErr =
     (case lastErr of
        None \<Rightarrow> mk_error ErrDarkrouter ''attempts exhausted by deadline''
      | Some e \<Rightarrow> e\<lparr>errMessage := errMessage e @ '' (attempts exhausted by deadline)''\<rparr>)"

definition every_failed :: "Error option \<Rightarrow> Error" where
  "every_failed lastErr = (case lastErr of Some e \<Rightarrow> e | None \<Rightarrow> mk_error ErrAPI ''every candidate failed'')"

datatype turn = Stop xstate nat | Goto nat nat "Error option" xstate

definition run_one ::
    "'i loop_env \<Rightarrow> adapter_full \<Rightarrow> Candidate \<Rightarrow> bool \<Rightarrow> 'i att_obs \<Rightarrow> xstate \<Rightarrow> xstate \<times> attemptResult" where
  "run_one le ad c allow ob xs =
     attempt (leRespond le) (leEnv le) (leJSON le) (leOp le) ad (provider_of le c) (leCatalog le) (leHeaders le) allow ob xs"

definition count_issued :: "nat \<Rightarrow> attemptResult \<Rightarrow> nat" where
  "count_issued attempts res = (if atIssued res then attempts + 1 else attempts)"

definition keep_err :: "Error option \<Rightarrow> attemptResult \<Rightarrow> Error option" where
  "keep_err lastErr res = (case atErr res of Some e \<Rightarrow> Some e | None \<Rightarrow> lastErr)"

definition wants_retry :: "'i loop_env \<Rightarrow> nat \<Rightarrow> time \<Rightarrow> attemptResult \<Rightarrow> bool" where
  "wants_retry le attempts now res =
     (atPath res = PathPassthrough \<and> \<not> atCommitted res \<and> atOutcome res = OutcomeFatal \<and> atStatus res = 400 \<and>
      attempts < leMaxAttempts le \<and> canStartAttempt (leBudget le) now)"

text \<open>The candidate's attempt, with the translated retry of a forwarded body its provider refused.\<close>

definition try_candidate ::
    "'i loop_env \<Rightarrow> adapter_full \<Rightarrow> Candidate \<Rightarrow> 'i iter_obs \<Rightarrow> nat \<Rightarrow> Error option \<Rightarrow> xstate
       \<Rightarrow> xstate \<times> attemptResult \<times> nat \<times> Error option" where
  "try_candidate le ad c ob attempts lastErr xs =
     (case run_one le ad c True (itFirst ob) (new_ctx c (attempts + 1) [] xs) of (xs1, res) \<Rightarrow>
        let n1 = count_issued attempts res; e1 = keep_err lastErr res in
        if wants_retry le n1 (itRetryNow ob) res then
          (case run_one le ad c False (itRetry ob) (new_ctx c (n1 + 1) [retry_warning c] xs1) of (xs2, res2) \<Rightarrow>
             (xs2, res2, count_issued n1 res2, keep_err e1 res2))
        else (xs1, res, n1, e1))"

definition finish_turn :: "bool \<Rightarrow> xstate \<Rightarrow> xstate" where
  "finish_turn gone xs = upd_rec (\<lambda>r. r\<lparr>rrStatus := (if gone then ''cancelled'' else ''success'')\<rparr>) xs"

definition return_turn :: "ctx_view \<Rightarrow> Outcome \<Rightarrow> nat \<Rightarrow> Error option \<Rightarrow> xstate \<Rightarrow> xstate" where
  "return_turn cx oc attempts lastErr xs =
     (let (e, xs1) =
            (if oc = OutcomeClientCancelled then
               (if ctxShutdown cx
                then (Some shutdownError, upd_rec (on_last (\<lambda>a. a\<lparr>arError := errMessage shutdownError\<rparr>)) xs)
                else (lastErr, upd_rec (\<lambda>r. r\<lparr>rrStatus := ''cancelled''\<rparr>) xs))
             else (lastErr, xs))
      in case e of Some x \<Rightarrow> write_error attempts x xs1 | None \<Rightarrow> xs1)"

definition loop_turn :: "'i loop_env \<Rightarrow> 'i iter_obs \<Rightarrow> nat \<Rightarrow> nat \<Rightarrow> Error option \<Rightarrow> xstate \<Rightarrow> turn" where
  "loop_turn le ob i attempts lastErr xs =
     (let c = leCands le ! i; xs0 = others (itOps ob) xs in
      if \<not> canStartAttempt (leBudget le) (itNow ob) then Stop (write_error attempts (deadline_error lastErr) xs0) attempts
      else case map_of (leAdapters le) (cdKind c) of
        None \<Rightarrow> Goto (i + 1) attempts lastErr (add_skips [traceSkipOf c ''no_adapter''] xs0)
      | Some ad \<Rightarrow>
          (case (if exFleet (leEnv le) then Available (xBreaker xs0) (fst (itAvail ob)) (snd (itAvail ob)) (cand_key c)
                 else (True, xBreaker xs0)) of (ok, b) \<Rightarrow>
             if \<not> ok then Goto (i + 1) attempts lastErr (add_skips [traceSkipOf c ''cooling''] (xs0\<lparr>xBreaker := b\<rparr>))
             else
               let xs1 = xs0\<lparr>xBreaker := (if exFleet (leEnv le)
                           then MarkUsed b \<lparr>ckProvider = cdProviderID c, ckKey = cdKeyID c\<rparr> (itNow ob) else b)\<rparr> in
               (case try_candidate le ad c ob attempts lastErr xs1 of (xs2, res, attempts2, lastErr2) \<Rightarrow>
                  (case nextIndex (leCands le) i (atOutcome res) (atStatus res) of
                     (_, actionFinish) \<Rightarrow> Stop (finish_turn (atClientGone res) xs2) attempts2
                   | (_, actionReturn) \<Rightarrow> Stop (return_turn (itEndCtx ob) (atOutcome res) attempts2 lastErr2 xs2) attempts2
                   | (next, actionNext) \<Rightarrow>
                       Goto next attempts2 lastErr2 (add_skips (advanceSkips (leCands le) i next) xs2)))))"

lemma loop_turn_progress:
  assumes "loop_turn le ob i attempts lastErr xs = Goto j a e xs'" "i < length (leCands le)"
  shows "i < j \<and> j \<le> length (leCands le)"
  using assms nextIndex_progress[of i "leCands le"]
  by (auto simp: loop_turn_def Let_def split: if_splits option.splits prod.splits advanceAction.splits)

section \<open>The loop\<close>

text \<open>\<open>obs n\<close> is what turn \<open>n\<close> sees.\<close>

function run_loop :: "'i loop_env \<Rightarrow> (nat \<Rightarrow> 'i iter_obs) \<Rightarrow> nat \<Rightarrow> nat \<Rightarrow> nat \<Rightarrow> Error option \<Rightarrow> xstate \<Rightarrow> xstate \<times> nat" where
  "run_loop le obs n i attempts lastErr xs =
     (if i < length (leCands le) \<and> attempts < leMaxAttempts le then
        (case loop_turn le (obs n) i attempts lastErr xs of
           Stop xs1 a \<Rightarrow> (xs1, a)
         | Goto j a e xs1 \<Rightarrow> run_loop le obs (Suc n) j a e xs1)
      else (write_error attempts (every_failed lastErr) xs, attempts))"
  by pat_completeness auto
termination
  by (relation "measure (\<lambda>(le, obs, n, i, a, e, xs). length (leCands le) - i)")
    (auto dest!: loop_turn_progress)

declare run_loop.simps [simp del]

definition runAttempts :: "'i loop_env \<Rightarrow> (nat \<Rightarrow> 'i iter_obs) \<Rightarrow> xstate \<Rightarrow> xstate \<times> nat" where
  "runAttempts le obs xs = run_loop le obs 0 0 0 None xs"

section \<open>What the chain leaves behind\<close>

text \<open>Progress from one state to a later one: rows and signals are only appended, and correspond one to one.\<close>

definition grew :: "xstate \<Rightarrow> xstate \<Rightarrow> (Key \<times> Signal) list \<Rightarrow> bool" where
  "grew xs xs' sigs \<longleftrightarrow> xSignals xs' = xSignals xs @ sigs \<and>
     (\<exists>rows. rrAttempts (xRec xs') = rrAttempts (xRec xs) @ rows \<and> map row_key rows = map fst sigs)"

lemma grew_refl [simp, intro]: "xSignals xs' = xSignals xs \<Longrightarrow> rrAttempts (xRec xs') = rrAttempts (xRec xs) \<Longrightarrow> grew xs xs' []"
  by (simp add: grew_def)

lemma grew_trans: "grew a b s \<Longrightarrow> grew b c t \<Longrightarrow> grew a c (s @ t)"
  by (fastforce simp: grew_def)

lemma grew_rows: "grew xs xs' sigs \<Longrightarrow> set (map row_key (rrAttempts (xRec xs'))) = set (map row_key (rrAttempts (xRec xs))) \<union> fst ` set sigs"
proof -
  assume "grew xs xs' sigs"
  then obtain rows where "rrAttempts (xRec xs') = rrAttempts (xRec xs) @ rows" "map row_key rows = map fst sigs" by (auto simp: grew_def)
  then show ?thesis by (simp flip: set_map)
qed

definition candidate_done :: "Candidate \<Rightarrow> xstate \<Rightarrow> xstate \<Rightarrow> attemptResult \<Rightarrow> Key set \<Rightarrow> bool" where
  "candidate_done c xs xs' res K \<longleftrightarrow>
     xErrors xs' = xErrors xs \<and> rrStatus (xRec xs') = rrStatus (xRec xs) \<and> rrSkips (xRec xs') = rrSkips (xRec xs) \<and>
     (\<exists>sigs. grew xs xs' sigs \<and> fst ` set sigs = {cand_key c}) \<and>
     claims (xBreaker xs') \<subseteq> (claims (xBreaker xs) - {cand_key c, cred_key (cand_key c)}) \<union> K \<and>
     (atCommitted res \<longleftrightarrow> cwCommitted (xCW xs')) \<and> (atCommitted res \<longrightarrow> atOutcome res = OutcomeSuccess) \<and>
     (atErr res = None \<longleftrightarrow> atOutcome res = OutcomeSuccess) \<and>
     (\<not> atCommitted res \<longrightarrow> rrErrorCode (xRec xs') = rrErrorCode (xRec xs) \<and> \<not> atClientGone res)"

definition turn_keys :: "'i iter_obs \<Rightarrow> Key set" where
  "turn_keys ob = ops_claims (itOps ob) \<union> attempt_keys (itFirst ob) \<union> attempt_keys (itRetry ob)"

lemma new_ctx_frames [simp]:
  "xCand (new_ctx c sq ws xs) = c" "xErrors (new_ctx c sq ws xs) = xErrors xs" "xRec (new_ctx c sq ws xs) = xRec xs"
  "xSignals (new_ctx c sq ws xs) = xSignals xs" "xBreaker (new_ctx c sq ws xs) = xBreaker xs" "xCW (new_ctx c sq ws xs) = xCW xs"
  "\<not> xHealthDone (new_ctx c sq ws xs)"
  by (simp_all add: new_ctx_def)

lemma count_issued_le: "n < m \<Longrightarrow> count_issued n res \<le> m" "n \<le> count_issued n res"
  by (simp_all add: count_issued_def)

lemma keep_err_some: "atErr res \<noteq> None \<Longrightarrow> keep_err e res \<noteq> None" by (auto simp: keep_err_def)

lemma candidate_done_trans:
  assumes a: "candidate_done c x0 x1 r1 K1" "\<not> atCommitted r1" and b: "candidate_done c x1 x2 r2 K2"
  shows "candidate_done c x0 x2 r2 (K1 \<union> K2)"
proof -
  obtain s1 s2 where "grew x0 x1 s1" "fst ` set s1 = {cand_key c}" "grew x1 x2 s2" "fst ` set s2 = {cand_key c}"
    using a b by (auto simp: candidate_done_def)
  then have "\<exists>sigs. grew x0 x2 sigs \<and> fst ` set sigs = {cand_key c}"
    by (intro exI[of _ "s1 @ s2"]) (auto simp: image_Un intro: grew_trans)
  moreover have "claims (xBreaker x2) \<subseteq> (claims (xBreaker x0) - {cand_key c, cred_key (cand_key c)}) \<union> (K1 \<union> K2)"
    using a(1) b unfolding candidate_done_def by blast
  ultimately show ?thesis using a b by (auto simp: candidate_done_def)
qed

lemma candidate_done_mono: "candidate_done c xs xs' res K \<Longrightarrow> K \<subseteq> K' \<Longrightarrow> candidate_done c xs xs' res K'"
  unfolding candidate_done_def by blast

context surface
begin

lemma run_one_done:
  assumes "leRespond le = respond" "exHealth (leEnv le)" "\<not> cwCommitted (xCW xs)"
    "run_one le ad c allow ob (new_ctx c sq ws xs) = (xs', res)"
  shows "candidate_done c xs xs' res (attempt_keys ob)"
proof -
  note sp = attempt_spec[of "leEnv le" "new_ctx c sq ws xs" "leJSON le" "leOp le" ad "provider_of le c" "leCatalog le" "leHeaders le" allow ob xs' res]
  have a: "attempted (new_ctx c sq ws xs) xs' res" and s: "attempt_signal (new_ctx c sq ws xs) xs' res (attempt_keys ob)"
    using sp assms by (simp_all add: run_one_def)
  obtain row where row: "rrAttempts (xRec xs') = rrAttempts (xRec xs) @ [row]" "row_key row = cand_key c"
    using a by (auto simp: attempted_def)
  obtain sg where sg: "xSignals xs' = xSignals xs @ [(cand_key c, sg)]"
    "claims (xBreaker xs') \<subseteq> (claims (xBreaker xs) - {cand_key c, cred_key (cand_key c)}) \<union> attempt_keys ob"
    using s by (auto simp: attempt_signal_def Let_def)
  have "grew xs xs' [(cand_key c, sg)]" using row sg by (simp add: grew_def)
  then show ?thesis using a sg(2) by (auto simp: candidate_done_def attempted_def intro!: exI[of _ "[(cand_key c, sg)]"])
qed

lemma try_candidate_done:
  assumes le: "leRespond le = respond" "exHealth (leEnv le)" and nc: "\<not> cwCommitted (xCW xs)"
    and n: "attempts < leMaxAttempts le"
    and t: "try_candidate le ad c ob attempts lastErr xs = (xs', res, n', e')"
  shows "candidate_done c xs xs' res (turn_keys ob)" "n' \<le> leMaxAttempts le" "atOutcome res \<noteq> OutcomeSuccess \<Longrightarrow> e' \<noteq> None"
proof -
  obtain x1 r1 where r1: "run_one le ad c True (itFirst ob) (new_ctx c (attempts + 1) [] xs) = (x1, r1)" by (metis prod.exhaust)
  note d1 = run_one_done[OF le nc r1]
  let ?n1 = "count_issued attempts r1"
  have "candidate_done c xs xs' res (turn_keys ob) \<and> n' \<le> leMaxAttempts le \<and> (atOutcome res \<noteq> OutcomeSuccess \<longrightarrow> e' \<noteq> None)"
  proof (cases "wants_retry le ?n1 (itRetryNow ob) r1")
    case False
    then show ?thesis
      using t r1 d1 count_issued_le(1)[OF n] keep_err_some[of res lastErr]
      by (auto simp: try_candidate_def Let_def candidate_done_def turn_keys_def)
  next
    case True
    then have nc1: "\<not> cwCommitted (xCW x1)" and n1: "?n1 < leMaxAttempts le"
      using d1 by (auto simp: wants_retry_def candidate_done_def)
    obtain x2 r2 where r2: "run_one le ad c False (itRetry ob) (new_ctx c (?n1 + 1) [retry_warning c] x1) = (x2, r2)" by (metis prod.exhaust)
    note d2 = run_one_done[OF le nc1 r2]
    have eq: "xs' = x2" "res = r2" "n' = count_issued ?n1 r2" "e' = keep_err (keep_err lastErr r1) r2"
      using t r1 r2 True by (auto simp: try_candidate_def Let_def)
    have "\<not> atCommitted r1" using True by (simp add: wants_retry_def)
    note d = candidate_done_mono[OF candidate_done_trans[OF d1 this d2], of "turn_keys ob"]
    show ?thesis
      using d d2 count_issued_le(1)[OF n1] keep_err_some[of r2] unfolding eq by (auto simp: turn_keys_def candidate_done_def)
  qed
  then show "candidate_done c xs xs' res (turn_keys ob)" "n' \<le> leMaxAttempts le" "atOutcome res \<noteq> OutcomeSuccess \<Longrightarrow> e' \<noteq> None" by auto
qed

end

text \<open>Each request the chain sends is counted once, and goes to a candidate of the list.\<close>

definition sent_more :: "'i loop_env \<Rightarrow> nat \<Rightarrow> xstate \<Rightarrow> nat \<Rightarrow> xstate \<Rightarrow> bool" where
  "sent_more le n xs n' xs' \<longleftrightarrow>
     (\<exists>ks. xSent xs' = xSent xs @ ks \<and> n' = n + length ks \<and> set ks \<subseteq> cand_key ` set (leCands le))"

lemma sent_more_refl [simp]: "xSent xs' = xSent xs \<Longrightarrow> sent_more le n xs n xs'"
  by (simp add: sent_more_def)

lemma sent_more_trans: "sent_more le n a m b \<Longrightarrow> sent_more le m b k c \<Longrightarrow> sent_more le n a k c"
  unfolding sent_more_def by (elim exE, rule_tac x = "ks @ ksa" in exI) auto

lemma sent_frames [simp]:
  "xSent (new_ctx c sq ws xs) = xSent xs" "xSent (add_skips ss xs) = xSent xs" "xSent (write_error n e xs) = xSent xs"
  "xSent (finish_turn g xs) = xSent xs" "xSent (xs\<lparr>xBreaker := b\<rparr>) = xSent xs"
  by (simp_all add: new_ctx_def add_skips_def upd_rec_def write_error_def writeErrorDiagnostics_def set_header_def finish_turn_def Let_def)

lemma sent_return [simp]: "xSent (return_turn cx oc n e xs) = xSent xs"
  by (auto simp: return_turn_def upd_rec_def Let_def split: option.split)

context surface
begin

lemma run_one_sent:
  assumes "leRespond le = respond" "c \<in> set (leCands le)" "run_one le ad c allow ob (new_ctx c sq ws xs) = (xs', res)"
  shows "sent_more le n xs (count_issued n res) xs'"
  using attempt_sent[of "leEnv le" "leJSON le" "leOp le" ad "provider_of le c" "leCatalog le" "leHeaders le" allow ob "new_ctx c sq ws xs" xs' res] assms
  by (auto simp: run_one_def sent_more_def count_issued_def)

lemma try_candidate_sent:
  assumes le: "leRespond le = respond" "c \<in> set (leCands le)" and t: "try_candidate le ad c ob attempts lastErr xs = (xs', res, n', e')"
  shows "sent_more le attempts xs n' xs'"
proof -
  obtain x1 r1 where r1: "run_one le ad c True (itFirst ob) (new_ctx c (attempts + 1) [] xs) = (x1, r1)" by (metis prod.exhaust)
  let ?n1 = "count_issued attempts r1"
  obtain x2 r2 where r2: "run_one le ad c False (itRetry ob) (new_ctx c (?n1 + 1) [retry_warning c] x1) = (x2, r2)" by (metis prod.exhaust)
  note s1 = run_one_sent[OF le r1, of attempts] and s2 = run_one_sent[OF le r2, of ?n1]
  show ?thesis using t s1 sent_more_trans[OF s1 s2]
    by (cases "wants_retry le ?n1 (itRetryNow ob) r1") (auto simp: try_candidate_def Let_def r1[simplified] r2[simplified])
qed

lemma loop_turn_sent:
  assumes le: "leRespond le = respond" "i < length (leCands le)"
  shows "case loop_turn le ob i attempts lastErr xs of Stop xs' n' \<Rightarrow> sent_more le attempts xs n' xs' | Goto j n' e xs' \<Rightarrow> sent_more le attempts xs n' xs'"
proof -
  let ?c = "leCands le ! i"
  have c: "?c \<in> set (leCands le)" using le(2) by simp
  have try_sent: "case (case try_candidate le ad ?c ob attempts lastErr x1 of (xs2, res, attempts2, lastErr2) \<Rightarrow>
       (case nextIndex (leCands le) i (atOutcome res) (atStatus res) of
          (_, actionFinish) \<Rightarrow> Stop (finish_turn (atClientGone res) xs2) attempts2
        | (_, actionReturn) \<Rightarrow> Stop (return_turn (itEndCtx ob) (atOutcome res) attempts2 lastErr2 xs2) attempts2
        | (next, actionNext) \<Rightarrow> Goto next attempts2 lastErr2 (add_skips (advanceSkips (leCands le) i next) xs2)))
      of Stop xs' n' \<Rightarrow> sent_more le attempts xs n' xs' | Goto j n' e xs' \<Rightarrow> sent_more le attempts xs n' xs'"
    if "xSent x1 = xSent xs" for ad x1
  proof -
    obtain x2 res n2 e2 where t: "try_candidate le ad ?c ob attempts lastErr x1 = (x2, res, n2, e2)" by (metis prod_cases4)
    have "sent_more le attempts xs n2 x2" using try_candidate_sent[OF le(1) c t] that by (simp add: sent_more_def)
    then show ?thesis using t by (auto simp: sent_more_def split: prod.splits advanceAction.splits)
  qed
  show ?thesis
    unfolding loop_turn_def Let_def
    by (simp add: try_sent split: option.split prod.split)
qed

lemma run_loop_sent:
  assumes "leRespond le = respond"
  shows "sent_more le attempts xs (snd (run_loop le obs n i attempts lastErr xs)) (fst (run_loop le obs n i attempts lastErr xs))"
  using assms
proof (induction le obs n i attempts lastErr xs rule: run_loop.induct)
  case (1 le obs n i attempts lastErr xs)
  show ?case
  proof (cases "i < length (leCands le) \<and> attempts < leMaxAttempts le")
    case True
    from True have i: "i < length (leCands le)" by simp
    note t = loop_turn_sent[OF 1(2) i, where ob = "obs n" and attempts = attempts and lastErr = lastErr and xs = xs]
    show ?thesis
    proof (cases "loop_turn le (obs n) i attempts lastErr xs")
      case (Stop x a)
      then show ?thesis using t True by (subst (1 2) run_loop.simps) simp
    next
      case (Goto j a e x)
      then have "sent_more le attempts xs a x" using t by simp
      from sent_more_trans[OF this 1(1)[OF True Goto 1(2)]] show ?thesis using True Goto by (subst (1 2) run_loop.simps) simp
    qed
  next
    case False
    then show ?thesis by (subst (1 2) run_loop.simps) auto
  qed
qed

end

text \<open>Every candidate the loop has passed is explained by an attempt row or by a skip.\<close>

definition accounted :: "Candidate \<Rightarrow> xstate \<Rightarrow> bool" where
  "accounted c xs \<longleftrightarrow> cand_key c \<in> row_key ` set (rrAttempts (xRec xs)) \<or>
     (\<exists>reason. traceSkipOf c reason \<in> set (rrSkips (xRec xs)))"

definition loop_inv :: "'i loop_env \<Rightarrow> Key set \<Rightarrow> xstate \<Rightarrow> nat \<Rightarrow> xstate \<Rightarrow> bool" where
  "loop_inv le K x0 i xs \<longleftrightarrow>
     xErrors xs = xErrors x0 \<and> rrStatus (xRec xs) = rrStatus (xRec x0) \<and> \<not> cwCommitted (xCW xs) \<and>
     (\<exists>sigs. grew x0 xs sigs) \<and> claims (xBreaker xs) \<subseteq> claims (xBreaker x0) \<union> K \<and>
     (\<forall>j < i. accounted (leCands le ! j) xs)"

definition chain_end :: "Key set \<Rightarrow> xstate \<Rightarrow> xstate \<Rightarrow> bool" where
  "chain_end K x0 xs \<longleftrightarrow>
     (\<exists>sigs. grew x0 xs sigs) \<and> claims (xBreaker xs) \<subseteq> claims (xBreaker x0) \<union> K \<and>
     (xErrors xs = xErrors x0 \<and> rrStatus (xRec xs) \<in> {''success'', ''cancelled''} \<or>
      (\<exists>e. xErrors xs = xErrors x0 @ [e] \<and> \<not> cwCommitted (xCW xs) \<and> rrErrorCode (xRec xs) = ErrorType_string (errType e) \<and>
         rrStatus (xRec xs) \<in> {rrStatus (xRec x0), ''cancelled''}))"

lemma accounted_mono:
  assumes "accounted c xs" "set (rrSkips (xRec xs)) \<subseteq> set (rrSkips (xRec xs'))" "grew xs xs' sigs"
  shows "accounted c xs'"
  using assms grew_rows[OF assms(3)] by (fastforce simp: accounted_def)

lemma add_skips_frames [simp]:
  "xErrors (add_skips ss xs) = xErrors xs" "rrStatus (xRec (add_skips ss xs)) = rrStatus (xRec xs)" "xCW (add_skips ss xs) = xCW xs"
  "xSignals (add_skips ss xs) = xSignals xs" "rrAttempts (xRec (add_skips ss xs)) = rrAttempts (xRec xs)"
  "xBreaker (add_skips ss xs) = xBreaker xs" "rrSkips (xRec (add_skips ss xs)) = rrSkips (xRec xs) @ ss"
  by (simp_all add: add_skips_def upd_rec_def)

lemma inv_others:
  assumes "loop_inv le K x0 i xs" "ops_claims ops \<subseteq> K" shows "loop_inv le K x0 i (others ops xs)"
  using assms claims_others[of ops xs] by (auto simp: loop_inv_def grew_def accounted_def)

lemma inv_skip:
  assumes "loop_inv le K x0 i xs" "claims b \<subseteq> claims (xBreaker x0) \<union> K"
  shows "loop_inv le K x0 (Suc i) (add_skips [traceSkipOf (leCands le ! i) reason] (xs\<lparr>xBreaker := b\<rparr>))"
  using assms by (auto simp: loop_inv_def grew_def accounted_def less_Suc_eq)

lemma write_error_frames [simp]:
  "xErrors (write_error n e xs) = xErrors xs @ [e]" "xCW (write_error n e xs) = xCW xs" "xSignals (write_error n e xs) = xSignals xs"
  "xBreaker (write_error n e xs) = xBreaker xs" "rrAttempts (xRec (write_error n e xs)) = rrAttempts (xRec xs)"
  "rrStatus (xRec (write_error n e xs)) = rrStatus (xRec xs)" "rrErrorCode (xRec (write_error n e xs)) = ErrorType_string (errType e)"
  by (simp_all add: write_error_def writeErrorDiagnostics_def set_header_def upd_rec_def Let_def)

lemma end_error: "loop_inv le K x0 i xs \<Longrightarrow> chain_end K x0 (write_error n e xs)"
  by (auto simp: loop_inv_def chain_end_def grew_def)

text \<open>What the breaker's admission and the attempts it guards do to the invariant.\<close>

definition admitted :: "'i loop_env \<Rightarrow> Key set \<Rightarrow> xstate \<Rightarrow> nat \<Rightarrow> xstate \<Rightarrow> bool" where
  "admitted le K x0 i xs \<longleftrightarrow>
     (let k = cand_key (leCands le ! i) in
      xErrors xs = xErrors x0 \<and> rrStatus (xRec xs) = rrStatus (xRec x0) \<and> \<not> cwCommitted (xCW xs) \<and>
      (\<exists>sigs. grew x0 xs sigs) \<and> claims (xBreaker xs) \<subseteq> claims (xBreaker x0) \<union> K \<union> {k, cred_key k} \<and>
      (\<forall>j < i. accounted (leCands le ! j) xs))"

lemma done_grew:
  assumes "admitted le K x0 i xs" "candidate_done (leCands le ! i) xs xs' res Kt" "Kt \<subseteq> K"
  shows "\<exists>sigs. grew x0 xs' sigs" "claims (xBreaker xs') \<subseteq> claims (xBreaker x0) \<union> K" "xErrors xs' = xErrors x0"
    "rrStatus (xRec xs') = rrStatus (xRec x0)" "\<forall>j < Suc i. accounted (leCands le ! j) xs'"
proof -
  let ?c = "leCands le ! i"
  obtain s0 s1 where g: "grew x0 xs s0" "grew xs xs' s1" "fst ` set s1 = {cand_key ?c}"
    using assms(1,2) by (auto simp: admitted_def candidate_done_def Let_def)
  show "\<exists>sigs. grew x0 xs' sigs" using grew_trans[OF g(1,2)] by blast
  show "claims (xBreaker xs') \<subseteq> claims (xBreaker x0) \<union> K"
    using assms by (auto simp: admitted_def candidate_done_def Let_def)
  show "xErrors xs' = xErrors x0" "rrStatus (xRec xs') = rrStatus (xRec x0)"
    using assms(1,2) by (simp_all add: admitted_def candidate_done_def Let_def)
  have "cand_key ?c \<in> set (map row_key (rrAttempts (xRec xs')))" using grew_rows[OF g(2)] g(3) by simp
  then have "accounted ?c xs'" by (simp add: accounted_def)
  moreover have "j < i \<Longrightarrow> accounted (leCands le ! j) xs'" for j
    using accounted_mono[OF _ _ g(2), of "leCands le ! j"] assms(1,2) by (simp add: admitted_def candidate_done_def Let_def)
  ultimately show "\<forall>j < Suc i. accounted (leCands le ! j) xs'" by (simp add: less_Suc_eq)
qed

lemma done_next:
  assumes "admitted le K x0 i xs" "candidate_done (leCands le ! i) xs xs' res Kt" "Kt \<subseteq> K" "atOutcome res \<noteq> OutcomeSuccess"
    "i < nxt" "nxt \<le> length (leCands le)"
  shows "loop_inv le K x0 nxt (add_skips (advanceSkips (leCands le) i nxt) xs')"
proof -
  note d = done_grew[OF assms(1-3)]
  have "accounted (leCands le ! j) (add_skips (advanceSkips (leCands le) i nxt) xs')" if "j < nxt" for j
  proof (cases "j \<le> i")
    case True then show ?thesis using d(5) by (auto simp: accounted_def less_Suc_eq_le)
  next
    case False
    then have "traceSkipOf (leCands le ! j) ''target_failed'' \<in> set (advanceSkips (leCands le) i nxt)"
      using that assms(6) by (auto simp: advanceSkips_def)
    then show ?thesis by (auto simp: accounted_def)
  qed
  moreover have "\<not> cwCommitted (xCW xs')" using assms(2,4) by (auto simp: candidate_done_def)
  ultimately show ?thesis using d by (auto simp: loop_inv_def grew_def)
qed

lemma done_finish:
  assumes "admitted le K x0 i xs" "candidate_done (leCands le ! i) xs xs' res Kt" "Kt \<subseteq> K"
  shows "chain_end K x0 (finish_turn g xs')"
  using done_grew[OF assms] by (auto simp: chain_end_def finish_turn_def upd_rec_def grew_def)

lemma grew_on_last:
  assumes "grew x0 xs sigs" "grew xs xs' s1" "s1 \<noteq> []" "\<And>a. row_key (f a) = row_key a"
  shows "grew x0 (upd_rec (on_last f) xs') (sigs @ s1)"
proof -
  obtain rows where r: "rrAttempts (xRec xs') = rrAttempts (xRec xs) @ rows" "map row_key rows = map fst s1"
    using assms(2) by (auto simp: grew_def)
  then have "rows \<noteq> []" using assms(3) by auto
  then have "map_last f (rrAttempts (xRec xs')) = rrAttempts (xRec xs) @ map_last f rows"
    using r(1) by (simp add: map_last_def butlast_append)
  then have "grew xs (upd_rec (on_last f) xs') s1"
    using assms(2,4) r by (auto simp: grew_def upd_rec_def on_last_def map_map_last)
  then show ?thesis by (rule grew_trans[OF assms(1)])
qed

lemma done_return:
  assumes a: "admitted le K x0 i xs" and c: "candidate_done (leCands le ! i) xs xs' res Kt" "Kt \<subseteq> K" "atOutcome res \<noteq> OutcomeSuccess"
    and e: "e \<noteq> None"
  shows "chain_end K x0 (return_turn cx oc n e xs')"
proof -
  note d = done_grew[OF a c(1,2)]
  have nc: "\<not> cwCommitted (xCW xs')" using c by (auto simp: candidate_done_def)
  obtain s0 where s0: "grew x0 xs s0" using a by (auto simp: admitted_def Let_def)
  obtain s1 where s1: "grew xs xs' s1" "fst ` set s1 = {cand_key (leCands le ! i)}" using c(1) by (auto simp: candidate_done_def)
  then have "s1 \<noteq> []" by auto
  note g = grew_on_last[OF s0 s1(1) this row_key_simps(2)]
  obtain x where x: "e = Some x" using e by blast
  let ?xs = "if oc = OutcomeClientCancelled then (if ctxShutdown cx
        then upd_rec (on_last (\<lambda>a. a\<lparr>arError := errMessage shutdownError\<rparr>)) xs'
        else upd_rec (\<lambda>r. r\<lparr>rrStatus := ''cancelled''\<rparr>) xs') else xs'"
  have "\<exists>sigs. grew x0 ?xs sigs" using g d(1) by (auto simp: grew_def upd_rec_def)
  moreover have "rrStatus (xRec ?xs) \<in> {rrStatus (xRec x0), ''cancelled''}" "xCW ?xs = xCW xs'" "xErrors ?xs = xErrors x0" "xBreaker ?xs = xBreaker xs'"
    using d by (auto simp: upd_rec_def on_last_def)
  moreover have "\<exists>y. return_turn cx oc n e xs' = write_error n y ?xs" by (auto simp: return_turn_def x)
  ultimately show ?thesis using d(2) nc by (auto simp: chain_end_def grew_def split del: if_split)
qed
lemma admit_inv:
  assumes "loop_inv le K x0 i xs" "Available (xBreaker xs) t1 t2 (cand_key (leCands le ! i)) = (ok, b)"
  shows "\<not> ok \<Longrightarrow> claims b \<subseteq> claims (xBreaker x0) \<union> K"
    "ok \<Longrightarrow> admitted le K x0 i (xs\<lparr>xBreaker := MarkUsed b ck t\<rparr>)"
  using assms brk.refuse_held[of "xBreaker xs" t1 t2 "cand_key (leCands le ! i)" b]
    brk.admit_held[of "xBreaker xs" t1 t2 "cand_key (leCands le ! i)" b]
  by (auto simp: loop_inv_def admitted_def Let_def grew_def accounted_def claims_MarkUsed)

lemma inv_admitted: "loop_inv le K x0 i xs \<Longrightarrow> admitted le K x0 i xs"
  by (auto simp: loop_inv_def admitted_def Let_def)

lemma nextIndex_success: "nextIndex cands i oc st = (nxt, act) \<Longrightarrow> (act = actionFinish \<longleftrightarrow> oc = OutcomeSuccess)"
  by (auto simp: nextIndex_def split: Outcome.splits if_splits)

definition turn_ok :: "'i loop_env \<Rightarrow> Key set \<Rightarrow> xstate \<Rightarrow> turn \<Rightarrow> bool" where
  "turn_ok le K x0 t \<longleftrightarrow> (case t of
     Stop xs a \<Rightarrow> chain_end K x0 xs \<and> a \<le> leMaxAttempts le
   | Goto j a e xs \<Rightarrow> loop_inv le K x0 j xs \<and> a \<le> leMaxAttempts le)"

context surface
begin

lemma candidate_turn:
  assumes le: "leRespond le = respond" "exHealth (leEnv le)" and i: "i < length (leCands le)" and n: "attempts < leMaxAttempts le"
    and K: "turn_keys ob \<subseteq> K" and a: "admitted le K x0 i xs"
  shows "turn_ok le K x0
    (case try_candidate le ad (leCands le ! i) ob attempts lastErr xs of (xs2, res, attempts2, lastErr2) \<Rightarrow>
       (case nextIndex (leCands le) i (atOutcome res) (atStatus res) of
          (_, actionFinish) \<Rightarrow> Stop (finish_turn (atClientGone res) xs2) attempts2
        | (_, actionReturn) \<Rightarrow> Stop (return_turn (itEndCtx ob) (atOutcome res) attempts2 lastErr2 xs2) attempts2
        | (next, actionNext) \<Rightarrow> Goto next attempts2 lastErr2 (add_skips (advanceSkips (leCands le) i next) xs2)))"
proof -
  obtain x2 res n2 e2 where t: "try_candidate le ad (leCands le ! i) ob attempts lastErr xs = (x2, res, n2, e2)" by (metis prod_cases4)
  have nc: "\<not> cwCommitted (xCW xs)" using a by (simp add: admitted_def Let_def)
  note d = try_candidate_done[OF le nc n t]
  obtain nxt act where x: "nextIndex (leCands le) i (atOutcome res) (atStatus res) = (nxt, act)" by fastforce
  note s = nextIndex_success[OF x]
  show ?thesis
  proof (cases act)
    case actionFinish then show ?thesis using t x d(2) done_finish[OF a d(1) K] by (simp add: turn_ok_def)
  next
    case actionReturn then show ?thesis using t x s d(2,3) done_return[OF a d(1) K] by (simp add: turn_ok_def)
  next
    case actionNext
    then show ?thesis
      using t x s d(2) done_next[OF a d(1) K] nextIndex_progress[OF i] by (simp add: turn_ok_def)
  qed
qed

lemma turn_invariant:
  assumes le: "leRespond le = respond" "exHealth (leEnv le)" and i: "i < length (leCands le)" and n: "attempts < leMaxAttempts le"
    and K: "turn_keys ob \<subseteq> K" and inv: "loop_inv le K x0 i xs"
  shows "turn_ok le K x0 (loop_turn le ob i attempts lastErr xs)"
proof -
  let ?c = "leCands le ! i"
  define y where "y = others (itOps ob) xs"
  have inv': "loop_inv le K x0 i y" unfolding y_def using K by (intro inv_others[OF inv]) (auto simp: turn_keys_def)
  obtain ok b where av: "(if exFleet (leEnv le) then Available (xBreaker y) (fst (itAvail ob)) (snd (itAvail ob)) (cand_key ?c)
      else (True, xBreaker y)) = (ok, b)" by fastforce
  have refuse: "\<not> ok \<Longrightarrow> claims b \<subseteq> claims (xBreaker x0) \<union> K"
    using av admit_inv(1)[OF inv'] by (auto split: if_splits)
  have admit: "ok \<Longrightarrow> admitted le K x0 i (y\<lparr>xBreaker := (if exFleet (leEnv le)
        then MarkUsed b \<lparr>ckProvider = cdProviderID ?c, ckKey = cdKeyID ?c\<rparr> (itNow ob) else b)\<rparr>)"
    using av admit_inv(2)[OF inv'] inv_admitted[OF inv'] by (auto split: if_splits)
  have skip: "turn_ok le K x0 (Goto (i + 1) attempts lastErr (add_skips [traceSkipOf ?c r] (y\<lparr>xBreaker := b'\<rparr>)))"
    if "claims b' \<subseteq> claims (xBreaker x0) \<union> K" for r b'
    using inv_skip[OF inv' that] n by (simp add: turn_ok_def)
  have skip0: "turn_ok le K x0 (Goto (i + 1) attempts lastErr (add_skips [traceSkipOf ?c r] y))" for r
    using skip[of "xBreaker y" r] inv' by (simp add: loop_inv_def)
  show ?thesis
    unfolding loop_turn_def Let_def y_def[symmetric] av prod.case
    using skip[OF refuse] skip0 candidate_turn[OF le i n K admit] end_error[OF inv'] n
    by (auto simp: turn_ok_def split: option.splits)
qed

lemma loop_end:
  assumes le: "leRespond le = respond" "exHealth (leEnv le)" and K: "\<And>m. turn_keys (obs m) \<subseteq> K"
  shows "loop_inv le K x0 i xs \<Longrightarrow> attempts \<le> leMaxAttempts le \<Longrightarrow>
    chain_end K x0 (fst (run_loop le obs n i attempts lastErr xs)) \<and> snd (run_loop le obs n i attempts lastErr xs) \<le> leMaxAttempts le"
  using le K
proof (induction le obs n i attempts lastErr xs rule: run_loop.induct)
  case (1 le obs n i attempts lastErr xs)
  show ?case
  proof (cases "i < length (leCands le) \<and> attempts < leMaxAttempts le")
    case True
    have "turn_ok le K x0 (loop_turn le (obs n) i attempts lastErr xs)"
      using turn_invariant[OF 1(4,5) conjunct1[OF True] conjunct2[OF True] 1(6) 1(2)] .
    then show ?thesis
      using True 1 by (subst (1 2) run_loop.simps) (auto simp: turn_ok_def split: turn.splits)
  next
    case False
    then show ?thesis using 1(2,3) end_error[of le K x0 i xs] by (subst (1 2) run_loop.simps) auto
  qed
qed

lemma runAttempts_end:
  assumes "leRespond le = respond" "exHealth (leEnv le)" "\<not> cwCommitted (xCW xs)"
  shows "chain_end (\<Union>m. turn_keys (obs m)) xs (fst (runAttempts le obs xs))" "snd (runAttempts le obs xs) \<le> leMaxAttempts le"
proof -
  have "loop_inv le (\<Union>m. turn_keys (obs m)) xs 0 xs" using assms(3) by (auto simp: loop_inv_def grew_def)
  from loop_end[OF assms(1,2) _ this, of obs 0 0 None]
  show "chain_end (\<Union>m. turn_keys (obs m)) xs (fst (runAttempts le obs xs))" "snd (runAttempts le obs xs) \<le> leMaxAttempts le"
    by (auto simp: runAttempts_def)
qed

end

section \<open>The prologue and the entry points\<close>

text \<open>What the executor is built with, and what it reads once per request: the provider source's answer, the live
  catalogue if one is wired, the adapters with the surfaces each declares, and the configuration in force.\<close>

record request_env =
  reEnv :: exec_env
  reProviders :: "go_error + Provider list"
  reCatalog :: "reader_index option"
  reAdapters :: "(string, adapter_full) gomap"
  reSurfaces :: "(string, SurfaceSet) gomap"
  reAliases :: "(string, string list) gomap option"
  reTimeout :: TimeoutConfig
  reMaxAttempts :: int
  reStart :: time

definition catalogFor :: "reader_index option \<Rightarrow> Provider list \<Rightarrow> reader_index" where
  "catalogFor cat providers = (case cat of Some s \<Rightarrow> s | None \<Rightarrow> FromProviders providers)"

definition RouteSnapshot :: "request_env \<Rightarrow> Breaker \<Rightarrow> go_error + RouterSnapshot" where
  "RouteSnapshot re b =
     (case reProviders re of
        Inl err \<Rightarrow> Inl err
      | Inr providers \<Rightarrow>
          let cat = catalogFor (reCatalog re) providers; fl = exFleet (reEnv re) in
          Inr \<lparr>rsAt = reStart re, rsProviders = providers, rsLookup = Lookup cat, rsOffering = Offering cat,
            rsAliases = reAliases re, rsHealth = (if fl then SnapshotAvailability b (reStart re) else []),
            rsLastUsed = (if fl then LastUsedSnapshot b else []), rsAdapterSurfaces = reSurfaces re\<rparr>)"

definition write_plain_error :: "Error \<Rightarrow> xstate \<Rightarrow> xstate" where
  "write_plain_error e xs =
     (upd_rec (\<lambda>r. r\<lparr>rrErrorCode := ErrorType_string (errType e)\<rparr>) xs)\<lparr>xErrors := xErrors xs @ [e]\<rparr>"

text \<open>The candidates with the snapshot they came from, or nothing when the error has been written.\<close>

definition resolve :: "request_env \<Rightarrow> Query \<Rightarrow> xstate \<Rightarrow> xstate \<times> (Candidate list \<times> RouterSnapshot) option" where
  "resolve re q xs =
     (let xs1 = upd_rec (\<lambda>r. r\<lparr>rrSurface := qySurface q, rrRequestedModel := qyModel q\<rparr>) xs in
      case RouteSnapshot re (xBreaker xs1) of
        Inl err \<Rightarrow> (write_plain_error (mk_error ErrDarkrouter (geText err)) xs1, None)
      | Inr snap \<Rightarrow>
          (case Resolve q snap of (cands, skips, rerr) \<Rightarrow>
             let xs2 = upd_rec (\<lambda>r. r\<lparr>rrResolvedAlias := MatchedAlias (qyModel q) snap,
                         rrCandidates := traceCandidates cands, rrSkips := traceSkips skips\<rparr>) xs1 in
             case rerr of
               Some e \<Rightarrow> (write_plain_error (routerError e) xs2, None)
             | None \<Rightarrow> (xs2, Some (cands, snap))))"

text \<open>A later provider of the same id wins, as in the map the prologue fills.\<close>

definition byID :: "Provider list \<Rightarrow> (string, Provider) gomap" where
  "byID providers = rev (map (\<lambda>p. (prID p, p)) providers)"

definition runOp ::
    "request_env \<Rightarrow> json_ops \<Rightarrow> surface_op \<Rightarrow> 'i respond \<Rightarrow> (string \<times> string) list \<Rightarrow> (nat \<Rightarrow> 'i iter_obs) \<Rightarrow> xstate \<Rightarrow> xstate" where
  "runOp re js sop respond headers obs xs =
     (case resolve re (opQuery sop) xs of
        (xs1, None) \<Rightarrow> xs1
      | (xs1, Some (cands, snap)) \<Rightarrow>
          fst (runAttempts
            \<lparr>leEnv = reEnv re, leJSON = js, leOp = sop, leRespond = respond, leAdapters = reAdapters re,
             leByID = byID (rsProviders snap), leCatalog = rsLookup snap, leHeaders = headers, leCands = cands,
             leBudget = newBudget (reTimeout re) (reStart re), leMaxAttempts = nat (reMaxAttempts re)\<rparr> obs xs1))"

definition beginResponse :: "xstate \<Rightarrow> xstate" where
  "beginResponse xs = set_header ''X-Darkrouter-Attempts'' ''0'' (set_header ''X-Darkrouter-Request'' (rrID (xRec xs)) xs)"

definition compressed_error :: Error where
  "compressed_error = mk_error ErrUnsupportedMedia ''content-encoding is not supported: send an uncompressed request body''"

definition refuseCompressed :: "string \<Rightarrow> xstate \<Rightarrow> xstate option" where
  "refuseCompressed contentEncoding xs =
     (if \<not> compressedBody contentEncoding then None else Some (write_plain_error compressed_error xs))"

definition build_error :: "go_error \<Rightarrow> Error" where
  "build_error err =
     (case geIR err of
        Some ie \<Rightarrow> if ErrorType_string (errType ie) \<noteq> '''' then ie else mk_error ErrInvalidRequest (geText err)
      | None \<Rightarrow> mk_error ErrInvalidRequest (geText err))"

text \<open>The record's closer: the total is set and the priced row is emitted; \<open>snap\<close> is the catalogue it is priced on.\<close>

definition close_record :: "int \<Rightarrow> (string \<Rightarrow> string \<Rightarrow> Model option) option \<Rightarrow> RequestRecord \<Rightarrow> RequestRecord" where
  "close_record totalMs snap rec = priceRecord snap (rec\<lparr>rrTotalMs := Some totalMs\<rparr>)"

definition fresh_state :: "Breaker \<Rightarrow> RequestRecord \<Rightarrow> xstate" where
  "fresh_state b rec =
     \<lparr>xBreaker = b, xSignals = [], xRec = rec, xHeader = [], xErrors = [], xSent = [],
      xCand = \<lparr>cdProviderID = '''', cdKeyID = '''', cdModel = '''', cdKind = '''', cdPublisher = '''', cdInferred = False\<rparr>,
      xSeq = 0, xWarns = [], xResp = None, xHealthDone = False, xCW = NewCommitWriter []\<rparr>"

text \<open>\<^verbatim>\<open>RunAux\<close> without body capture: the parse happens inside the record's lifetime. The final state, with the row as
  it is emitted.\<close>

definition RunAux ::
    "request_env \<Rightarrow> json_ops \<Rightarrow> string \<Rightarrow> Surface \<Rightarrow> string \<Rightarrow> string \<Rightarrow> (string \<times> string) list \<Rightarrow> string \<Rightarrow> go_error + surface_op
       \<Rightarrow> 'i respond \<Rightarrow> (nat \<Rightarrow> 'i iter_obs) \<Rightarrow> int \<Rightarrow> (string \<Rightarrow> string \<Rightarrow> Model option) option \<Rightarrow> Breaker \<Rightarrow> xstate" where
  "RunAux re js dialect surf source rid headers contentEncoding built respond obs totalMs snap b =
     (let xs0 = beginResponse (fresh_state b (newRecord rid (reStart re) dialect surf source));
          xs1 = (case refuseCompressed contentEncoding xs0 of
              Some xs \<Rightarrow> xs
            | None \<Rightarrow>
                (case built of
                   Inl err \<Rightarrow> write_plain_error (build_error err) xs0
                 | Inr sop \<Rightarrow> runOp re js sop respond headers obs xs0))
      in upd_rec (close_record totalMs snap) xs1)"
section \<open>Properties of a request\<close>

lemma price_frames [simp]:
  "rrStatus (priceRecord snap r) = rrStatus r" "rrErrorCode (priceRecord snap r) = rrErrorCode r"
  by (simp_all add: priceRecord_def price_request_def Let_def split: option.splits)

lemma close_frames [simp]:
  "rrStatus (close_record t snap r) = rrStatus r" "rrErrorCode (close_record t snap r) = rrErrorCode r"
  by (simp_all add: close_record_def)

text \<open>A request is answered once: served (or given up by the client) with no error written, or one error and
  nothing committed.\<close>

definition answered :: "xstate \<Rightarrow> bool" where
  "answered xs \<longleftrightarrow>
     (xErrors xs = [] \<and> rrStatus (xRec xs) \<in> {''success'', ''cancelled''} \<or>
      (\<exists>e. xErrors xs = [e] \<and> \<not> cwCommitted (xCW xs) \<and> rrErrorCode (xRec xs) = ErrorType_string (errType e) \<and>
         rrStatus (xRec xs) \<in> {''error'', ''cancelled''}))"

lemma resolve_frames:
  assumes "resolve re q xs = (xs', r)"
  shows "rrStatus (xRec xs') = rrStatus (xRec xs)" "xCW xs' = xCW xs" "rrAttempts (xRec xs') = rrAttempts (xRec xs)"
    "xSignals xs' = xSignals xs" "xBreaker xs' = xBreaker xs"
    "r \<noteq> None \<Longrightarrow> xErrors xs' = xErrors xs"
    "r = None \<Longrightarrow> \<exists>e. xErrors xs' = xErrors xs @ [e] \<and> rrErrorCode (xRec xs') = ErrorType_string (errType e)"
  using assms by (auto simp: resolve_def write_plain_error_def upd_rec_def Let_def split: sum.splits prod.splits option.splits)

context surface
begin

lemma runOp_answered:
  assumes "exHealth (reEnv re)" "\<not> cwCommitted (xCW xs)" "xErrors xs = []" "rrStatus (xRec xs) = ''error''"
  shows "answered (runOp re js sop respond headers obs xs)"
proof -
  obtain x1 r where r: "resolve re (opQuery sop) xs = (x1, r)" by fastforce
  note f = resolve_frames[OF r]
  show ?thesis
  proof (cases r)
    case None
    then obtain e where "xErrors x1 = xErrors xs @ [e]" "rrErrorCode (xRec x1) = ErrorType_string (errType e)" using f(7) by blast
    then show ?thesis using None r f(1,2) assms by (simp add: runOp_def answered_def)
  next
    case (Some cs)
    define le where "le = \<lparr>leEnv = reEnv re, leJSON = js, leOp = sop, leRespond = respond, leAdapters = reAdapters re,
             leByID = byID (rsProviders (snd cs)), leCatalog = rsLookup (snd cs), leHeaders = headers, leCands = fst cs,
             leBudget = newBudget (reTimeout re) (reStart re), leMaxAttempts = nat (reMaxAttempts re)\<rparr>"
    have "chain_end (\<Union>m. turn_keys (obs m)) x1 (fst (runAttempts le obs x1))"
      by (rule runAttempts_end(1)) (use assms f(2) in \<open>simp_all add: le_def\<close>)
    then show ?thesis
      using Some r f(1,6) assms(3,4) by (cases cs) (auto simp: runOp_def answered_def chain_end_def le_def)
  qed
qed

lemma RunAux_answered:
  assumes "exHealth (reEnv re)"
  shows "answered (RunAux re js dialect surf source rid headers enc built respond obs totalMs snap b)"
proof -
  define x0 where "x0 = beginResponse (fresh_state b (newRecord rid (reStart re) dialect surf source))"
  have x0: "\<not> cwCommitted (xCW x0)" "xErrors x0 = []" "rrStatus (xRec x0) = ''error''"
    by (simp_all add: x0_def beginResponse_def set_header_def fresh_state_def newRecord_def NewCommitWriter_def)
  then have e: "answered (write_plain_error e x0)" for e by (auto simp: answered_def write_plain_error_def upd_rec_def)
  have a: "answered xs \<Longrightarrow> answered (upd_rec (close_record totalMs snap) xs)" for xs
    by (simp add: answered_def upd_rec_def)
  show ?thesis
    unfolding RunAux_def Let_def x0_def[symmetric]
    by (rule a) (auto simp: refuseCompressed_def e runOp_answered[OF assms x0] split: sum.splits)
qed

end

section \<open>The chain served by the chat surface\<close>

text \<open>A small gateway to run the properties on: one candidate with a bearer credential and no adapter able to forward.\<close>

definition demo_request_env :: request_env where
  "demo_request_env = \<lparr>reEnv = demo_exec_env, reProviders = Inr [demo_provider], reCatalog = None,
     reAdapters = [(''openaicompat'', demo_adapter)], reSurfaces = [], reAliases = None,
     reTimeout = \<lparr>tcConnect = 5 * second, tcFirstByte = 30 * second, tcTotal = 300 * second, tcIdle = 60 * second\<rparr>,
     reMaxAttempts = 3, reStart = 1000\<rparr>"

definition demo_loop :: "'i respond \<Rightarrow> 'i loop_env" where
  "demo_loop respond = \<lparr>leEnv = demo_exec_env, leJSON = demo_json, leOp = demo_op None, leRespond = respond,
     leAdapters = [(''openaicompat'', demo_adapter)], leByID = [(''openai'', demo_provider)], leCatalog = Lookup demo_index,
     leHeaders = [], leCands = [demo_candidate], leBudget = \<lparr>buDeadline = 1000, buPerTry = 10\<rparr>, leMaxAttempts = 3\<rparr>"

definition demo_state :: xstate where
  "demo_state = fresh_state demo_tripped (newRecord ''r1'' 0 ''openai'' ''llm'' ''proxy'')"

definition demo_obs :: "int \<Rightarrow> nat \<Rightarrow> unit chat_input iter_obs" where
  "demo_obs status n = \<lparr>itOps = [], itNow = 200, itAvail = (200, 200), itFirst = demo_att status, itRetryNow = 230,
     itRetry = demo_att status, itEndCtx = demo_ctx\<rparr>"

text \<open>C2. One signal per attempt, and no attempt without one: over a whole chain, whatever the upstreams answer and
  whatever other requests do to the breaker meanwhile, the candidates the breaker was told about are exactly the
  candidates of the attempt rows, in the same order.\<close>

theorem signals_match_rows:
  assumes "exHealth (leEnv le)" "\<not> cwCommitted (xCW xs)" "xSignals xs = []" "rrAttempts (xRec xs) = []"
  shows "map fst (xSignals (fst (runAttempts (le\<lparr>leRespond := chat_Respond\<rparr>) obs xs))) =
    map row_key (rrAttempts (xRec (fst (runAttempts (le\<lparr>leRespond := chat_Respond\<rparr>) obs xs))))"
  using chat.runAttempts_end(1)[of "le\<lparr>leRespond := chat_Respond\<rparr>" xs obs] assms
  by (auto simp: chain_end_def grew_def)

lemma demo_loop_ok: "exHealth (leEnv (demo_loop chat_Respond))" "\<not> cwCommitted (xCW demo_state)"
  "xSignals demo_state = []" "rrAttempts (xRec demo_state) = []" "(demo_loop chat_Respond)\<lparr>leRespond := chat_Respond\<rparr> = demo_loop chat_Respond"
  by (simp_all add: demo_loop_def demo_exec_env_def demo_state_def fresh_state_def newRecord_def NewCommitWriter_def)

theorem signals_match_rows_witness:
  "map fst (xSignals (fst (runAttempts (demo_loop chat_Respond) (demo_obs 503) demo_state))) =
   map row_key (rrAttempts (xRec (fst (runAttempts (demo_loop chat_Respond) (demo_obs 503) demo_state))))"
  using signals_match_rows[OF demo_loop_ok(1-4), of "demo_obs 503"] by (simp only: demo_loop_ok(5))

text \<open>C3. No chain leaks a half-open probe: every claim standing when the chain has ended stood before it began or was
  taken by another request meanwhile.\<close>

theorem chain_no_probe_leak:
  assumes "exHealth (leEnv le)" "\<not> cwCommitted (xCW xs)"
  shows "claims (xBreaker (fst (runAttempts (le\<lparr>leRespond := chat_Respond\<rparr>) obs xs))) \<subseteq>
    claims (xBreaker xs) \<union> (\<Union>n. turn_keys (obs n))"
  using chat.runAttempts_end(1)[of "le\<lparr>leRespond := chat_Respond\<rparr>" xs obs] assms by (simp add: chain_end_def)

theorem chain_no_probe_leak_witness:
  "claims (xBreaker (fst (runAttempts (demo_loop chat_Respond) (demo_obs 503) demo_state))) = {}"
proof -
  have "turn_keys (demo_obs 503 n) = {}" for n
    by (simp add: turn_keys_def attempt_keys_def ops_claims_def demo_obs_def demo_att_def)
  moreover have "claims (xBreaker demo_state) = {}"
    by (auto simp: demo_state_def fresh_state_def claims_def demo_tripped_bm split: if_splits)
  ultimately show ?thesis
    using chain_no_probe_leak[OF demo_loop_ok(1,2), of "demo_obs 503"] by (simp add: demo_loop_ok(5))
qed

text \<open>C1. A request is answered once. Whatever the upstreams, the client and the breaker do, the request that went
  through the gateway ends in one of two ways: served or given up by the client, with no error written; or with
  exactly one error in the client's dialect, whose type is the row's error code, and then nothing of a response was
  committed before it.\<close>

theorem request_answered_once:
  assumes "exHealth (reEnv re)"
  shows "answered (RunAux re js dialect surf source rid headers enc built chat_Respond obs totalMs snap b)"
  by (rule chat.RunAux_answered[OF assms])

theorem request_answered_once_witness:
  "answered (RunAux demo_request_env demo_json ''openai'' SurfaceLLM ''proxy'' ''r1'' [] '''' (Inr (demo_op None)) chat_Respond
     (demo_obs 200) 20 None demo_tripped)"
  by (rule request_answered_once) (simp add: demo_request_env_def demo_exec_env_def)

text \<open>C32. The attempt limit is a limit on requests sent: the chain of a chat request, with the breaker's recorder wired and
  nothing committed yet, sends at most \<^verbatim>\<open>max_attempts\<close> requests to its upstreams, the
  translated retry of a refused forward included, each of them to one of the request's candidates, and the count it
  reports is the number it sent.\<close>

theorem attempts_bounded:
  assumes "exHealth (leEnv le)" "\<not> cwCommitted (xCW xs)"
  shows "\<exists>calls. xSent (fst (runAttempts (le\<lparr>leRespond := chat_Respond\<rparr>) obs xs)) = xSent xs @ calls \<and>
    length calls \<le> leMaxAttempts le \<and> set calls \<subseteq> cand_key ` set (leCands le) \<and>
    snd (runAttempts (le\<lparr>leRespond := chat_Respond\<rparr>) obs xs) = length calls"
  using chat.runAttempts_end(2)[of "le\<lparr>leRespond := chat_Respond\<rparr>" xs obs] assms
    chat.run_loop_sent[of "le\<lparr>leRespond := chat_Respond\<rparr>" 0 xs obs 0 0 None]
  by (auto simp: runAttempts_def sent_more_def)

theorem attempts_bounded_witness:
  "length (xSent (fst (runAttempts (demo_loop chat_Respond) (demo_obs 503) demo_state))) \<le> 3"
proof -
  obtain calls where "xSent (fst (runAttempts (demo_loop chat_Respond) (demo_obs 503) demo_state)) = xSent demo_state @ calls"
    "length calls \<le> 3"
    using attempts_bounded[OF demo_loop_ok(1,2), of "demo_obs 503"] unfolding demo_loop_ok(5) by (auto simp: demo_loop_def)
  then show ?thesis by (simp add: demo_state_def fresh_state_def)
qed

end

