(* ===== verification/Streams.thy ===== *)
theory Streams
  imports Attempt
begin

text \<open>
  What reaches the client of a streamed response: the pre-commit buffer holds back exactly the events before the first
  content and no more than its cap, replaying it is invisible to the dialect writer, and a forwarded stream delivers the
  upstream's bytes unchanged.
\<close>

section \<open>The pre-commit buffer\<close>

lemma drain_until_spec:
  assumes "drain_until_content ps buf rec warns = PhaseReady buf' content rest rec' warns'"
  shows "\<exists>evs. pbEvs buf' = pbEvs buf @ evs \<and> map fst ps = map Inl (evs @ (case content of Some ev \<Rightarrow> [ev] | None \<Rightarrow> [])) @ map fst rest \<and>
      (\<forall>ev \<in> set evs. \<not> IsContentBearing ev) \<and> pbMax buf' = pbMax buf \<and>
      pbBytes buf' = pbBytes buf + sum_list (map eventBytes evs) \<and> (evs \<noteq> [] \<and> pbMax buf > 0 \<longrightarrow> pbBytes buf' \<le> pbMax buf) \<and>
      (case content of Some ev \<Rightarrow> IsContentBearing ev | None \<Rightarrow> rest = [])"
  using assms
proof (induction ps buf rec warns rule: drain_until_content.induct)
  case (3 ev cx ps buf rec warns)
  show ?case
  proof (cases "IsContentBearing ev")
    case True
    then have e: "buf' = buf" "content = Some ev" "rest = ps" using 3(2) by (simp_all add: Let_def)
    show ?thesis unfolding e using True by (intro exI[of _ "[]"]) simp
  next
    case False
    then obtain b1 where b: "pb_add buf ev = Some b1"
      and r: "drain_until_content ps b1 (applyUsage rec (evUsage ev)) (warns @ evWarnings ev) = PhaseReady buf' content rest rec' warns'"
      using 3(2) by (auto simp: Let_def split: option.splits)
    have b1: "pbEvs b1 = pbEvs buf @ [ev]" "pbBytes b1 = pbBytes buf + eventBytes ev" "pbMax b1 = pbMax buf"
      "pbMax buf > 0 \<Longrightarrow> pbBytes b1 \<le> pbMax buf"
      using b by (auto simp: pb_add_def Let_def split: if_splits)
    from 3(1)[OF refl refl False b r] obtain evs where
      "pbEvs buf' = pbEvs b1 @ evs" "map fst ps = map Inl (evs @ (case content of Some ev \<Rightarrow> [ev] | None \<Rightarrow> [])) @ map fst rest"
      "\<forall>ev \<in> set evs. \<not> IsContentBearing ev" "pbMax buf' = pbMax b1" "pbBytes buf' = pbBytes b1 + sum_list (map eventBytes evs)"
      "evs \<noteq> [] \<and> pbMax b1 > 0 \<longrightarrow> pbBytes buf' \<le> pbMax b1" "case content of Some ev \<Rightarrow> IsContentBearing ev | None \<Rightarrow> rest = []"
      by blast
    then show ?thesis using False b1 by (intro exI[of _ "ev # evs"]) auto
  qed
qed auto

text \<open>The pre-commit buffer. When the first phase of a translated stream is ready, what it buffered and the event
  that ended it are exactly the events pulled so far, in order; nothing buffered carries content; the buffered bytes
  are within the configured cap; and without a content event the stream had ended.\<close>

theorem precommit_buffer_exact:
  assumes "drain_until_content ps (newPreCommitBuffer mx) rec [] = PhaseReady buf content rest rec' warns"
  shows "map fst ps = map Inl (pbEvs buf @ (case content of Some ev \<Rightarrow> [ev] | None \<Rightarrow> [])) @ map fst rest \<and>
    list_all (\<lambda>ev. \<not> IsContentBearing ev) (pbEvs buf) \<and> (mx > 0 \<longrightarrow> sum_list (map eventBytes (pbEvs buf)) \<le> mx) \<and>
    (case content of Some ev \<Rightarrow> IsContentBearing ev | None \<Rightarrow> rest = [])"
  using drain_until_spec[OF assms] by (auto simp: newPreCommitBuffer_def list_all_iff split: option.splits)

definition demo_event :: "string \<Rightarrow> StreamEvent" where
  "demo_event t = zero_event\<lparr>evType := EventContentDelta, evDelta := Some (zero_delta\<lparr>dType := BlockText, dText := t\<rparr>)\<rparr>"

definition demo_pulls :: "pull list" where
  "demo_pulls = map (\<lambda>ev. (Inl ev, \<lparr>ctxTimeout = False, ctxDone = False, ctxCanceled = False, ctxShutdown = False\<rparr>))
     [demo_event '''', demo_event ''a'', demo_event ''b'']"

theorem precommit_buffer_exact_witness:
  "sum_list (map eventBytes [demo_event '''']) \<le> 100 \<and> \<not> IsContentBearing (demo_event '''')"
proof -
  have "drain_until_content demo_pulls (newPreCommitBuffer 100) demo_record [] =
      PhaseReady \<lparr>pbEvs = [demo_event ''''], pbBytes = 64, pbMax = 100\<rparr> (Some (demo_event ''a'')) (drop 2 demo_pulls) demo_record []"
    by (simp add: demo_pulls_def demo_event_def IsContentBearing_def pb_add_def eventBytes_def newPreCommitBuffer_def
        zero_event_def zero_delta_def applyUsage_def Let_def)
  from precommit_buffer_exact[OF this] show ?thesis by simp
qed

section \<open>The replayed buffer is invisible\<close>

text \<open>The dialect writer run on a list of events, as it would be with no buffer in between.\<close>

definition write_events :: "('d, 'z) dialect_scheme \<Rightarrow> StreamEvent list \<Rightarrow> 'd \<Rightarrow> CommitWriter \<Rightarrow> 'd \<times> CommitWriter" where
  "write_events dl evs d cw = fold (\<lambda>ev (d, cw). case dlStep dl d cw (Inl ev) of (d1, cw1, _) \<Rightarrow> (d1, cw1)) evs (d, cw)"

text \<open>A client that takes every event: the writer goes on and no write fails.\<close>

fun takes_all :: "('d, 'z) dialect_scheme \<Rightarrow> StreamEvent list \<Rightarrow> 'd \<Rightarrow> CommitWriter \<Rightarrow> bool" where
  "takes_all dl [] d cw = (cwErr cw = None)"
| "takes_all dl (ev # evs) d cw =
     (cwErr cw = None \<and> (case dlStep dl d cw (Inl ev) of (d1, cw1, go) \<Rightarrow> go \<and> takes_all dl evs d1 cw1))"

lemma write_events_Cons:
  "dlStep dl d cw (Inl ev) = (d1, cw1, go) \<Longrightarrow> write_events dl (ev # evs) d cw = write_events dl evs d1 cw1"
  by (simp add: write_events_def)

lemma write_events_append:
  "write_events dl (xs @ ys) d cw = (case write_events dl xs d cw of (d1, cw1) \<Rightarrow> write_events dl ys d1 cw1)"
  by (simp add: write_events_def)

lemma takes_all_append:
  "takes_all dl (xs @ ys) d cw \<Longrightarrow> takes_all dl xs d cw \<and> (case write_events dl xs d cw of (d1, cw1) \<Rightarrow> takes_all dl ys d1 cw1)"
proof (induction xs arbitrary: d cw)
  case Nil
  then show ?case by (cases ys) (simp_all add: write_events_def)
next
  case (Cons x xs)
  obtain d1 cw1 go where s: "dlStep dl d cw (Inl x) = (d1, cw1, go)" by (metis prod_cases3)
  then show ?case using Cons by (simp add: write_events_Cons[OF s])
qed

lemma replay_takes_all:
  "takes_all dl evs d cw \<Longrightarrow> write_events dl evs d cw = (d1, cw1) \<Longrightarrow> replay dl evs d cw = (d1, cw1, True)"
proof (induction evs arbitrary: d cw)
  case (Cons ev evs)
  obtain d2 cw2 go where s: "dlStep dl d cw (Inl ev) = (d2, cw2, go)" by (metis prod_cases3)
  then show ?case using Cons by (simp add: write_events_Cons[OF s])
qed (simp add: write_events_def)

lemma live_takes_all:
  assumes "takes_all dl evs (lvD st) (lvCW st)" "map fst ps = map Inl evs" "write_events dl evs (lvD st) (lvCW st) = (d1, cw1)"
  shows "lvD (stream_live dl ps st) = d1 \<and> lvCW (stream_live dl ps st) = cw1 \<and> lvFailed (stream_live dl ps st) = lvFailed st"
  using assms
proof (induction evs arbitrary: st ps)
  case (Cons ev evs)
  then obtain cx ps' where ps: "ps = (Inl ev, cx) # ps'" "map fst ps' = map Inl evs" by (cases ps) auto
  obtain d2 cw2 go where s: "dlStep dl (lvD st) (lvCW st) (Inl ev) = (d2, cw2, go)" by (metis prod_cases3)
  let ?st = "st\<lparr>lvRec := applyUsage (lvRec st) (evUsage ev), lvWarns := lvWarns st @ evWarnings ev, lvD := d2, lvCW := cw2\<rparr>"
  show ?case
    using Cons.IH[of ?st ps'] Cons.prems s by (simp add: ps Let_def write_events_Cons[OF s])
qed (simp add: write_events_def)
lemma eventBytes_pos: "64 \<le> eventBytes ev"
proof -
  have "0 \<le> sum_list (map (\<lambda>w. int (length (wField w)) + int (length (wTarget w)) + int (length (wReason w))) (evWarnings ev))"
    by (rule sum_list_nonneg) auto
  then show ?thesis by (auto simp: eventBytes_def split: option.splits)
qed

text \<open>What is held back of a stream: the bytes of the events before its first content.\<close>

definition held_bytes :: "StreamEvent list \<Rightarrow> int" where
  "held_bytes evs = sum_list (map eventBytes (takeWhile (\<lambda>ev. \<not> IsContentBearing ev) evs))"

lemma held_bytes_simps [simp]:
  "held_bytes [] = 0" "held_bytes (ev # evs) = (if IsContentBearing ev then 0 else eventBytes ev + held_bytes evs)"
  by (simp_all add: held_bytes_def)

lemma held_bytes_nonneg: "0 \<le> held_bytes evs"
  unfolding held_bytes_def
  by (rule sum_list_nonneg) (use eventBytes_pos in \<open>auto intro: order_trans[of _ 64]\<close>)

lemma drain_ready:
  assumes "map fst ps = map Inl evs" "pbMax buf \<le> 0 \<or> pbBytes buf + held_bytes evs \<le> pbMax buf"
  shows "\<exists>buf' content rest rec' warns'. drain_until_content ps buf rec warns = PhaseReady buf' content rest rec' warns'"
  using assms
proof (induction evs arbitrary: ps buf rec warns)
  case (Cons ev evs)
  then obtain cx ps' where ps: "ps = (Inl ev, cx) # ps'" "map fst ps' = map Inl evs" by (cases ps) auto
  show ?case
  proof (cases "IsContentBearing ev")
    case False
    let ?b = "buf\<lparr>pbBytes := pbBytes buf + eventBytes ev, pbEvs := pbEvs buf @ [ev]\<rparr>"
    have b: "pb_add buf ev = Some ?b" using Cons.prems(2) held_bytes_nonneg[of evs] False by (auto simp: pb_add_def Let_def)
    have "pbMax ?b \<le> 0 \<or> pbBytes ?b + held_bytes evs \<le> pbMax ?b" using Cons.prems(2) False by auto
    from Cons.IH[OF ps(2) this] show ?thesis by (simp add: ps(1) False b Let_def)
  qed (simp add: ps(1) Let_def)
qed simp





lemma buffered_stream:
  assumes "map fst pulls = map Inl evs" "exMaxPrecommit env \<le> 0 \<or> held_bytes evs \<le> exMaxPrecommit env"
    and "takes_all dl evs (dlInit dl) (xCW xs)" "write_events dl evs (dlInit dl) (xCW xs) = (d, cw)" "cwErr (dlEnd dl d cw) = None"
  shows "\<exists>xs'. attemptStream env ck dl pulls cx xs = (xs', OutcomeSuccess, None) \<and> xCW xs' = dlEnd dl d cw"
proof -
  have "pbMax (newPreCommitBuffer (exMaxPrecommit env)) \<le> 0 \<or> pbBytes (newPreCommitBuffer (exMaxPrecommit env)) +
      held_bytes evs \<le> pbMax (newPreCommitBuffer (exMaxPrecommit env))"
    using assms(2) by (simp add: newPreCommitBuffer_def)
  then obtain buf content rest rec1 warns1 where
    dr: "drain_until_content pulls (newPreCommitBuffer (exMaxPrecommit env)) (xRec xs) [] = PhaseReady buf content rest rec1 warns1"
    using drain_ready[OF assms(1)] by blast
  define hd where "hd = pbEvs buf @ (case content of Some ev \<Rightarrow> [ev] | None \<Rightarrow> [])"
  have "map Inl evs = map Inl hd @ map fst rest"
    using drain_until_spec[OF dr] assms(1) by (auto simp: hd_def newPreCommitBuffer_def)
  then obtain tl where tl: "evs = hd @ tl" "map fst rest = map Inl tl"
    by (metis (no_types, opaque_lifting) append_eq_map_conv inj_Inl inj_map_eq_map)
  obtain d1 cw1 where w1: "write_events dl hd (dlInit dl) (xCW xs) = (d1, cw1)" by fastforce
  have t: "takes_all dl hd (dlInit dl) (xCW xs)" "takes_all dl tl d1 cw1" "write_events dl tl d1 cw1 = (d, cw)"
    using assms(3,4) takes_all_append[of dl hd tl "dlInit dl" "xCW xs"] w1 by (auto simp: tl(1) write_events_append)
  define xs1 where "xs1 = writeDiagnostics (served env ck (xWarns xs) (xs\<lparr>xRec := rec1\<rparr>))"
  have cw: "xCW xs1 = xCW xs" by (simp add: xs1_def)
  have "lvD (go_live dl hd rest warns1 xs1) = d \<and> lvCW (go_live dl hd rest warns1 xs1) = cw \<and> lvFailed (go_live dl hd rest warns1 xs1) = None"
    using replay_takes_all[OF t(1) w1] live_takes_all[OF _ tl(2), of dl "\<lparr>lvD = d1, lvCW = cw1, lvRec = xRec xs1, lvWarns = warns1, lvFailed = None\<rparr>"] t
    by (simp add: go_live_def cw Let_def)
  then show ?thesis
    using assms(5) by (simp add: attemptStream_def dr Let_def stream_result_def deliver_def delivered_def flip: hd_def xs1_def)
qed



definition demo_stream_env :: exec_env where
  "demo_stream_env = \<lparr>exFleet = True, exHealth = True, exParseTime = (\<lambda>_. None), exPresets = [], exAuthFor = None,
     exMaxPrecommit = 65536, exMaxLine = 65536\<rparr>"

definition demo_stream_state :: xstate where
  "demo_stream_state =
     \<lparr>xBreaker = demo_tripped, xSignals = [], xRec = newRecord ''r1'' 0 ''openai'' ''llm'' ''proxy'', xHeader = [], xErrors = [], xSent = [],
      xCand = demo_candidate, xSeq = 1, xWarns = [], xResp = Some \<lparr>StatusCode = 200, RetryAfterHeader = ''''\<rparr>, xHealthDone = False,
      xCW = NewCommitWriter []\<rparr>"

definition demo_stream_clock :: att_clock where
  "demo_stream_clock = \<lparr>akRetryAfter = 220, akRecord = 220, akServed = 215, akLatency = 10, akFullLatency = 20\<rparr>"

definition demo_stream_ctx :: ctx_view where
  "demo_stream_ctx = \<lparr>ctxTimeout = False, ctxDone = False, ctxCanceled = False, ctxShutdown = False\<rparr>"


section \<open>Forwarded bytes\<close>

text \<open>The bytes of a body as its reads deliver them, up to the end of file or the failure.\<close>

fun body_bytes :: "body_read list \<Rightarrow> string" where
  "body_bytes [] = []"
| "body_bytes ((chunk, fin, cx) # rest) = chunk @ (if fin = ReadMore then body_bytes rest else [])"

text \<open>A client that accepts everything.\<close>

definition clean :: "CommitWriter \<Rightarrow> bool" where
  "clean c \<longleftrightarrow> cwErr c = None \<and> cwPlan c = []"

lemma clean_write [simp]:
  "clean c \<Longrightarrow> clean (cw_Write c b)" "clean c \<Longrightarrow> cwOut (cw_Write c b) = cwOut c @ b" "cwStatus (cw_Write c b) = cwStatus c"
  by (auto simp: clean_def cw_Write_def cw_commit_def cw_fail_def Let_def split: prod.splits list.splits)

lemma clean_flush [simp]:
  "clean c \<Longrightarrow> clean (cw_Flush c)" "cwOut (cw_Flush c) = cwOut c" "cwStatus (cw_Flush c) = cwStatus c"
  by (auto simp: clean_def cw_Flush_def cw_commit_def cw_fail_def Let_def split: list.splits)

lemma clean_header [simp]:
  "clean (WriteHeader c s) = clean c" "cwOut (WriteHeader c s) = cwOut c" "cwStatus c = None \<Longrightarrow> cwStatus (WriteHeader c s) = Some s"
  by (simp_all add: clean_def WriteHeader_def cw_commit_def)

lemma clean_writes:
  "clean c \<Longrightarrow> clean (foldl cw_Write c bs) \<and> cwOut (foldl cw_Write c bs) = cwOut c @ concat bs \<and> cwStatus (foldl cw_Write c bs) = cwStatus c"
  by (induction bs arbitrary: c) auto

text \<open>Forwarding so far: what is out and what is pending are the bytes consumed; \<open>st\<close> is the upstream's status.\<close>

definition fw_bytes :: "int \<Rightarrow> string \<Rightarrow> string \<Rightarrow> fstate \<Rightarrow> bool" where
  "fw_bytes st base bytes fs \<longleftrightarrow> clean (xCW (fsX fs)) \<and> cwOut (xCW (fsX fs)) @ concat (fsPending fs) = base @ bytes \<and>
     (if fsCommitted fs then fsPending fs = [] \<and> cwStatus (xCW (fsX fs)) = Some st else cwStatus (xCW (fsX fs)) = None)"

lemma fw_bytes_write: "fsCommitted fs \<Longrightarrow> fw_bytes st base bytes fs \<Longrightarrow> fw_bytes st base (bytes @ raw) (fw_write raw fs)"
  by (auto simp: fw_bytes_def fw_write_def)

lemma fw_bytes_commit:
  assumes "\<not> fsCommitted fs" "fw_bytes st base bytes fs"
  shows "fw_bytes st base bytes (fw_commit env ck hdrs st fs) \<and> fsCommitted (fw_commit env ck hdrs st fs)"
proof -
  let ?cw = "WriteHeader (xCW (fsX fs)) st"
  have "clean ?cw" using assms by (simp add: fw_bytes_def)
  then show ?thesis
    using assms clean_writes[of ?cw "fsPending fs"] by (auto simp: fw_bytes_def fw_commit_def Let_def)
qed

lemma fw_bytes_upd [simp]:
  "fw_bytes st base bytes (fs\<lparr>fsUsage := u, fsX := upd_rec f (fsX fs)\<rparr>) = fw_bytes st base bytes fs"
  "fw_bytes st base bytes (fs\<lparr>fsFailed := e\<rparr>) = fw_bytes st base bytes fs"
  "fw_bytes st base bytes (fs\<lparr>fsTerminated := t\<rparr>) = fw_bytes st base bytes fs"
  by (simp_all add: fw_bytes_def)

lemma reclassify_fails: "fst (snd (reclassifyStream env ck cx err xs)) \<noteq> OutcomeSuccess"
  by (simp add: reclassifyStream_def Let_def)

lemma fw_step_bytes:
  assumes "fw_bytes st base bytes fs"
  shows "case fw_step env ck fw hdrs st False cx raw fs of
    Inl r \<Rightarrow> fst (snd r) \<noteq> OutcomeSuccess | Inr fs' \<Rightarrow> fw_bytes st base (bytes @ raw) fs'"
proof -
  define re where "re = (case parseEvent raw (exMaxLine env) of Some ev \<Rightarrow> fwRecognize fw ev | None \<Rightarrow> zero_raw)"
  define f1 where "f1 = (if reUsage re \<noteq> None
    then fs\<lparr>fsUsage := mergeUsage (fsUsage fs) (reUsage re),
            fsX := upd_rec (\<lambda>r. applyUsage r (Some (mergeUsage (fsUsage fs) (reUsage re)))) (fsX fs)\<rparr> else fs)"
  have b: "fw_bytes st base bytes f1" using assms by (simp add: f1_def)
  have p: "\<not> fsCommitted f1 \<Longrightarrow> fw_bytes st base (bytes @ raw) (f1\<lparr>fsPendingBytes := n, fsPending := fsPending f1 @ [raw]\<rparr>)" for n
    using b by (simp add: fw_bytes_def)
  show ?thesis
    unfolding fw_step_def Let_def re_def[symmetric] f1_def[symmetric]
    using b p fw_bytes_commit[OF _ b, of env ck hdrs] by (simp add: fw_bytes_write reclassify_fails)
qed

lemma clientGone_fails: "fst (snd (clientGone cx w fs)) \<noteq> OutcomeSuccess"
  by (simp add: clientGone_def after_commit_def clientFailed_def failedAfterCommit_def split: option.splits)

lemma fw_steps_bytes:
  assumes "fw_bytes st base bytes fs"
  shows "case fw_steps env ck fw hdrs st False cx raws fs of
    Inl r \<Rightarrow> fst (snd r) \<noteq> OutcomeSuccess | Inr fs' \<Rightarrow> fw_bytes st base (bytes @ concat raws) fs'"
  using assms
proof (induction raws arbitrary: fs bytes)
  case (Cons raw raws)
  note c = fw_step_bytes[OF Cons.prems, where env = env and ck = ck and fw = fw and hdrs = hdrs and cx = cx and raw = raw]
  show ?case
  proof (cases "fw_step env ck fw hdrs st False cx raw fs")
    case (Inr f1)
    then have "fw_bytes st base (bytes @ raw) f1" using c by simp
    then show ?thesis using Cons.IH[of "bytes @ raw" f1] clientGone_fails by (auto simp: Inr split: option.splits sum.splits)
  qed (use c in simp)
qed simp
lemma copyFlushing_bytes:
  "clean cw \<Longrightarrow> copyFlushing reads cw = (cw', None) \<Longrightarrow>
     clean cw' \<and> cwOut cw' = cwOut cw @ body_bytes reads \<and> cwStatus cw' = cwStatus cw"
proof (induction reads arbitrary: cw)
  case (Cons r rest)
  obtain chunk fin cx where r: "r = (chunk, fin, cx)" by (cases r)
  have n: "write_err cw = None" "cwErr (cw_Flush (cw_Write cw chunk)) = None"
    using Cons.prems(1) clean_flush(1)[OF clean_write(1)[OF Cons.prems(1), of chunk]] by (auto simp: write_err_def clean_def)
  define c2 where "c2 = (if chunk = [] then cw_Write cw chunk else cw_Flush (cw_Write cw chunk))"
  have c2: "clean c2" "cwOut c2 = cwOut cw @ chunk" "cwStatus c2 = cwStatus cw" using Cons.prems(1) by (auto simp: c2_def)
  have eq: "copyFlushing (r # rest) cw = (case fin of ReadMore \<Rightarrow> copyFlushing rest c2 | ReadEOF \<Rightarrow> (c2, None) | ReadFail err \<Rightarrow> (c2, Some (err, cx)))"
    using n by (auto simp: r c2_def Let_def split: read_end.splits)
  have "(case fin of ReadMore \<Rightarrow> copyFlushing rest c2 | ReadEOF \<Rightarrow> (c2, None) | ReadFail err \<Rightarrow> (c2, Some (err, cx))) = (cw', None)"
    using Cons.prems(2) eq by simp
  then show ?case using Cons.IH[OF c2(1)] c2 by (cases fin) (auto simp: r)
qed auto

lemma frame_cw [simp]: "xCW (fsX (recordWarning w fs)) = xCW (fsX fs)" "xCW (fsX (write_tail t fs)) = cw_Write (xCW (fsX fs)) t"
  by (simp_all add: recordWarning_def write_tail_def upd_rec_def Let_def)

definition delivers :: "int \<Rightarrow> string \<Rightarrow> xstate \<times> Outcome \<times> Error option \<Rightarrow> bool" where
  "delivers st out r \<longleftrightarrow> (case r of (xs, oc, e) \<Rightarrow> oc = OutcomeSuccess \<longrightarrow> cwOut (xCW xs) = out \<and> cwStatus (xCW xs) = Some st)"

lemma delivers_fail: "fst (snd r) \<noteq> OutcomeSuccess \<Longrightarrow> delivers st out r"
  by (auto simp: delivers_def)

lemma overflow_bytes:
  assumes "fw_bytes st base bytes fs"
  shows "delivers st (base @ bytes @ tail @ body_bytes rest) (forward_overflow env ck cx rest tail fs)"
proof (cases "fsCommitted fs")
  case False then show ?thesis by (simp add: forward_overflow_def delivers_fail reclassify_fails)
next
  case True
  define cw where "cw = cw_Flush (cw_Write (xCW (fsX fs)) tail)"
  have cl: "clean cw" "cwOut cw = base @ bytes @ tail" "cwStatus cw = Some st"
    using assms True by (auto simp: cw_def fw_bytes_def)
  obtain cw' err where c: "copyFlushing rest cw = (cw', err)" by fastforce
  show ?thesis
  proof (cases err)
    case None
    note b = copyFlushing_bytes[OF cl(1) c[unfolded None]]
    then have "cwErr cw' = None" by (simp add: clean_def)
    then show ?thesis
      using True c None b cl by (simp add: forward_overflow_def Let_def delivers_def flip: cw_def)
  next
    case (Some ec)
    obtain e cx1 where "ec = (e, cx1)" by (cases ec)
    then show ?thesis
      using True c Some by (auto simp: forward_overflow_def Let_def after_commit_def failedAfterCommit_def intro!: delivers_fail simp flip: cw_def)
  qed
qed

lemma broken_bytes:
  assumes "fw_bytes st base bytes fs" shows "delivers st (base @ bytes @ tail) (forward_broken env ck se cx rerr tail fs)"
proof (cases "fsCommitted fs")
  case False then show ?thesis by (simp add: forward_broken_def delivers_fail reclassify_fails)
next
  case True
  have "clean (cw_Write (xCW (fsX fs)) tail)" "cwOut (cw_Write (xCW (fsX fs)) tail) = base @ bytes @ tail"
      "cwStatus (cw_Write (xCW (fsX fs)) tail) = Some st"
    using assms True by (auto simp: fw_bytes_def)
  then show ?thesis
    using True by (auto simp: forward_broken_def Let_def delivers_def clean_def failedAfterCommit_def)
qed

lemma finish_bytes:
  assumes "fw_bytes st base bytes fs" shows "delivers st (base @ bytes @ tail) (forward_finish env ck fw hdrs st False cx tail fs)"
proof -
  let ?r = "if tail = [] then Inr fs else fw_step env ck fw hdrs st False cx tail fs"
  have c: "case ?r of Inl r \<Rightarrow> fst (snd r) \<noteq> OutcomeSuccess | Inr fs' \<Rightarrow> fw_bytes st base (bytes @ tail) fs'"
    using assms fw_step_bytes[OF assms] by simp
  show ?thesis
  proof (cases ?r)
    case (Inl r) then show ?thesis using c by (simp add: forward_finish_def delivers_fail)
  next
    case (Inr f1)
    define f2 where "f2 = (if \<not> fsCommitted f1 then fw_commit env ck hdrs st f1 else f1)"
    have b: "fw_bytes st base (bytes @ tail) f2 \<and> fsCommitted f2"
      using c Inr fw_bytes_commit[of f1 st base "bytes @ tail" env ck hdrs] by (simp add: f2_def)
    show ?thesis
      unfolding forward_finish_def Inr sum.case Let_def f2_def[symmetric]
      using b by (auto simp: delivers_def fw_bytes_def clean_def after_commit_def failedAfterCommit_def split: option.splits)
  qed
qed

lemma loop_bytes:
  assumes "fw_bytes st base bytes fs"
  shows "delivers st (base @ bytes @ spBuf sp @ body_bytes reads) (forward_loop env ck fw se hdrs st False cxe reads sp fs)"
  using assms
proof (induction reads arbitrary: sp fs bytes)
  case Nil then show ?case by (simp add: finish_bytes flush_def)
next
  case (Cons rd rest)
  obtain chunk fin cx where rd: "rd = (chunk, fin, cx)" by (cases rd)
  obtain evs over sp1 where ps: "(if chunk = [] then ([], False, sp) else push sp chunk) = (evs, over, sp1)" by (metis prod_cases3)
  have cc: "concat evs @ spBuf sp1 = spBuf sp @ chunk"
    using ps drain_concat[of "spBuf sp @ chunk"] by (auto simp: push_def split: if_splits prod.splits)
  note s = fw_steps_bytes[OF Cons.prems, where env = env and ck = ck and fw = fw and hdrs = hdrs and cx = cx and raws = evs]
  show ?case
  proof (cases "fw_steps env ck fw hdrs st False cx evs fs")
    case (Inl r) then show ?thesis using s by (simp add: rd ps Let_def delivers_fail)
  next
    case (Inr f1)
    then have b: "fw_bytes st base (bytes @ concat evs) f1" using s by simp
    have eq: "base @ bytes @ spBuf sp @ body_bytes (rd # rest) = base @ (bytes @ concat evs) @ spBuf sp1 @ (if fin = ReadMore then body_bytes rest else [])"
      using cc[symmetric] by (simp add: rd)
    show ?thesis
      unfolding eq
      using Cons.IH[OF b, of sp1] overflow_bytes[OF b, of "spBuf sp1"] broken_bytes[OF b, of "spBuf sp1"] finish_bytes[OF b, of "spBuf sp1"]
        overflow_bytes[OF b, of "spBuf sp1" "[([], fin, cx)]"]
      by (cases fin) (auto simp: rd ps Let_def Inr flush_def)
  qed
qed

text \<open>C8. Byte fidelity of the fast path. When nothing was injected into the request, a forwarded stream that ends well has
  delivered to a client that kept reading exactly the bytes of the upstream's body, under the upstream's status: through
  the split into events, the pre-commit buffer, a carry that outgrew its cap, and a connection that dropped after the
  terminal event.\<close>

theorem forward_byte_exact:
  assumes "cwErr (xCW xs) = None" "cwPlan (xCW xs) = []" "cwStatus (xCW xs) = None" "xResp xs = Some resp"
    and "forwardStream env ck fw se hdrs False reads cx xs = (xs', OutcomeSuccess, e)"
  shows "cwOut (xCW xs') = cwOut (xCW xs) @ body_bytes reads \<and> cwStatus (xCW xs') = Some (StatusCode resp)"
proof -
  have "fw_bytes (StatusCode resp) (cwOut (xCW xs)) []
     \<lparr>fsX = xs, fsPending = [], fsPendingBytes = 0, fsCommitted = False, fsUsage = zero_usage, fsFailed = None, fsTerminated = False\<rparr>"
    using assms by (simp add: fw_bytes_def clean_def)
  from loop_bytes[OF this, of "\<lparr>spBuf = [], spMax = int (exMaxLine env)\<rparr>" reads env ck fw se hdrs cx]
  show ?thesis using assms(4,5) by (simp add: forwardStream_def delivers_def)
qed

definition demo_forwarder :: forwarder where
  "demo_forwarder = \<lparr>fwRecognize = (\<lambda>e. zero_raw\<lparr>reContent := (seData e = ''x'')\<rparr>), fwStreamError = (\<lambda>_. None),
     fwUsage = (\<lambda>_. None), fwParseError = (\<lambda>_. None), fwJSONValid = (\<lambda>_. True)\<rparr>"

definition demo_reads :: "body_read list" where
  "demo_reads = [('': ping'' @ [LF, LF] @ ''data: '', ReadMore, demo_stream_ctx), (''x'' @ [LF, LF], ReadEOF, demo_stream_ctx)]"

lemma demo_parse: "parseEvent ('': ping'' @ [LF, LF]) 64 = None" "parseEvent (''data: x'' @ [LF, LF]) 64 \<noteq> None"
  "map_option seData (parseEvent (''data: x'' @ [LF, LF]) 64) = Some ''x''"
  by code_simp+

lemma demo_push:
  "push \<lparr>spBuf = [], spMax = 64\<rparr> ('': ping'' @ [LF, LF] @ ''data: '') = (['': ping'' @ [LF, LF]], False, \<lparr>spBuf = ''data: '', spMax = 64\<rparr>)"
  "push \<lparr>spBuf = ''data: '', spMax = 64\<rparr> (''x'' @ [LF, LF]) = ([''data: x'' @ [LF, LF]], False, \<lparr>spBuf = [], spMax = 64\<rparr>)"
  by code_simp+
lemma demo_forward:
  "snd (forwardStream (demo_stream_env\<lparr>exMaxLine := 64\<rparr>) demo_stream_clock demo_forwarder (\<lambda>_. []) [] False demo_reads demo_stream_ctx demo_stream_state)
     = (OutcomeSuccess, None)"
proof -
  obtain ev where ev: "parseEvent (''data: x'' @ [LF, LF]) 64 = Some ev" "seData ev = ''x''" using demo_parse(2,3) by auto
  show ?thesis
    using demo_push demo_parse(1) ev
    by (simp add: forwardStream_def demo_reads_def fw_step_def demo_forwarder_def zero_raw_def demo_stream_env_def demo_stream_state_def
        forward_finish_def flush_def fw_commit_def fw_write_def NewCommitWriter_def served_def writeDiagnostics_def set_header_def
        WriteHeader_def cw_Write_def cw_Flush_def cw_commit_def cw_fail_def mergeUsage_def Let_def)
qed

theorem forward_byte_exact_witness:
  "cwOut (xCW (fst (forwardStream (demo_stream_env\<lparr>exMaxLine := 64\<rparr>) demo_stream_clock demo_forwarder (\<lambda>_. []) [] False demo_reads
      demo_stream_ctx demo_stream_state))) = '': ping'' @ [LF, LF] @ ''data: x'' @ [LF, LF]"
proof -
  let ?r = "forwardStream (demo_stream_env\<lparr>exMaxLine := 64\<rparr>) demo_stream_clock demo_forwarder (\<lambda>_. []) [] False demo_reads demo_stream_ctx demo_stream_state"
  have r: "?r = (fst ?r, OutcomeSuccess, None)" using demo_forward by (metis prod.collapse)
  have "cwErr (xCW demo_stream_state) = None" "cwPlan (xCW demo_stream_state) = []" "cwStatus (xCW demo_stream_state) = None"
    "xResp demo_stream_state = Some \<lparr>StatusCode = 200, RetryAfterHeader = ''''\<rparr>" "cwOut (xCW demo_stream_state) = []"
    by (simp_all add: demo_stream_state_def NewCommitWriter_def)
  from forward_byte_exact[OF this(1-4) r] this(5) show ?thesis by (simp add: demo_reads_def)
qed

text \<open>The overflow branch does not look at \<open>failed\<close>: an error event the provider sent after commit is forgotten when a later
  event outgrows the cap, and the breaker is told the response succeeded.\<close>

lemma overflow_forgets_error:
  assumes "fsCommitted fs" "fsFailed fs = Some err" "clean (xCW (fsX fs))"
  shows "\<exists>xs'. forward_overflow env ck cx [] tail fs = (xs', OutcomeSuccess, None)"
    "\<exists>xs' oc e. forward_finish env ck fw hdrs status strip cx [] fs = (xs', oc, Some e) \<and> oc \<noteq> OutcomeSuccess"
proof -
  have "clean (cw_Flush (cw_Write (xCW (fsX fs)) tail))" using assms(3) by simp
  then show "\<exists>xs'. forward_overflow env ck cx [] tail fs = (xs', OutcomeSuccess, None)"
    using assms by (simp add: forward_overflow_def Let_def clean_def)
  show "\<exists>xs' oc e. forward_finish env ck fw hdrs status strip cx [] fs = (xs', oc, Some e) \<and> oc \<noteq> OutcomeSuccess"
    using assms by (simp add: forward_finish_def Let_def clean_def after_commit_def failedAfterCommit_def)
qed
end
