(* ===== verification/Catalog_Merge.thy ===== *)
theory Catalog_Merge
  imports Catalog Health
begin

text \<open>
  The merge behind every catalog snapshot, \<^verbatim>\<open>internal/catalog/merge.go\<close>: one routable model out of the
  database row, the preset, the two price directories, the curated free catalogue and the operator's
  override, each field by its own precedence. The embedded free catalogue (\<^verbatim>\<open>FreeModels\<close>) is an argument.
\<close>

section \<open>Inputs\<close>

record ModelCapabilities =
  mcTools :: bool
  mcVision :: bool
  mcReasoning :: bool

text \<open>The columns of a model row the merge reads; the streak and the timestamps belong to discovery.\<close>

record ModelRow =
  mrProviderID :: string
  mrModelID :: string
  mrPublisher :: string
  mrSurfaces :: "string list"
  mrCapabilities :: ModelCapabilities
  mrCapabilitiesSource :: string
  mrContextWindow :: int
  mrMaxOutputTokens :: int
  mrInputMicrosPerMTok :: int
  mrOutputMicrosPerMTok :: int
  mrCacheReadMicrosPerMTok :: int
  mrCacheWriteMicrosPerMTok :: int
  mrCacheReadKnown :: bool
  mrCacheWriteKnown :: bool
  mrPriceKnown :: bool
  mrPriceSource :: string
  mrState :: string

text \<open>A nil pointer is \<open>None\<close>.\<close>

record ModelOverride =
  moProviderID :: string
  moModelID :: string
  moSurfaces :: "string list"
  moCapabilities :: "ModelCapabilities option"
  moContextWindow :: "int option"

definition zero_override :: ModelOverride where
  "zero_override = \<lparr>moProviderID = '''', moModelID = '''', moSurfaces = [], moCapabilities = None,
     moContextWindow = None\<rparr>"

type_synonym LiteLLMDoc = "(string, (string, Pricing) gomap) gomap"

record MergeInput =
  miProviders :: "Provider list"
  miPresets :: Presets
  miDoc :: Doc
  miLiteLLM :: LiteLLMDoc
  miFree :: FreeCatalog
  miRows :: "ModelRow list"
  miOverrides :: "ModelOverride list"

section \<open>Field by field\<close>

definition servesAnthropicShape :: "Provider \<Rightarrow> Preset \<Rightarrow> bool" where
  "servesAnthropicShape p preset =
     (if prKind p = ''anthropic'' \<or> prKind p = ''bedrock'' then True
      else if prKind p = ''vertex'' then psPublisher preset = ''publishers/anthropic''
      else False)"

definition freeCatalogKey :: "Provider \<Rightarrow> string" where
  "freeCatalogKey p = (if prPreset p \<noteq> '''' then prPreset p else prID p)"

definition JoinLiteLLM :: "Preset \<Rightarrow> LiteLLMDoc \<Rightarrow> string \<Rightarrow> Pricing option" where
  "JoinLiteLLM p doc modelID =
     (if psNoLiteLLM p \<or> psLiteLLMID p = '''' then None
      else join_ladder (psModelAliases p) (bucket_of doc (psLiteLLMID p)) modelID)"

definition model_state :: "string \<Rightarrow> State" where
  "model_state s =
     (if s = ''stale'' then StateStale
      else if s = ''removed_upstream'' then StateRemovedUpstream
      else StateLive)"

fun parseSurfaces :: "string list \<Rightarrow> Surface list" where
  "parseSurfaces [] = []"
| "parseSurfaces (s # ss) =
     (case ParseSurface s of Some parsed \<Rightarrow> parsed # parseSurfaces ss | None \<Rightarrow> parseSurfaces ss)"

definition surfaceHints :: "(Surface \<times> string list) list" where
  "surfaceHints =
     [(''embedding'', [''embed'', ''bge-'', ''e5-'', ''gte-'', ''minilm'']),
      (''rerank'', [''rerank'']),
      (''image'', [''dall-e'', ''gpt-image'', ''flux'', ''stable-diffusion'', ''sdxl'', ''imagen'']),
      (''tts'', [''tts'']),
      (''stt'', [''whisper'', ''transcribe'']),
      (''moderation'', [''moderation''])]"

fun hint_loop :: "string \<Rightarrow> Surface list \<Rightarrow> (Surface \<times> string list) list \<Rightarrow> Surface list" where
  "hint_loop mid declared [] = []"
| "hint_loop mid declared ((s, fragments) # hints) =
     (if s \<notin> set declared then hint_loop mid declared hints
      else if list_ex (\<lambda>f. Contains mid f) fragments then s # hint_loop mid declared hints
      else hint_loop mid declared hints)"

definition modelSurfaces :: "string \<Rightarrow> Surface list \<Rightarrow> Surface list" where
  "modelSurfaces modelID declared =
     (if length declared = 1 then declared
      else
        let out = hint_loop (ToLower modelID) declared surfaceHints in
        if out \<noteq> [] then out
        else if SurfaceLLM \<in> set declared then [SurfaceLLM]
        else declared)"

definition surfaces :: "ModelRow \<Rightarrow> Preset \<Rightarrow> ModelOverride \<Rightarrow> Surface list" where
  "surfaces row preset override =
     (let parsed = parseSurfaces (moSurfaces override) in
      if parsed \<noteq> [] then parsed
      else let parsed = parseSurfaces (psSurfaces preset) in
      if parsed \<noteq> [] then modelSurfaces (mrModelID row) parsed
      else let parsed = parseSurfaces (mrSurfaces row) in
      if parsed \<noteq> [] then parsed
      else [SurfaceLLM])"

definition trait_name :: "string \<Rightarrow> string" where
  "trait_name s = ReplaceChar (CHR ''.'') ''-'' (ToLower s)"

definition rule_traits :: "TraitRule \<Rightarrow> Traits" where
  "rule_traits r = \<lparr>trAdaptive = tuAdaptive r, trManualBudget = tuManualBudget r,
     trFreeSampling = tuFreeSampling r, trKnown = True, trNoPrefill = tuNoPrefill r,
     trThinkingAlwaysOn = tuThinkingAlwaysOn r, trNoForcedToolChoice = tuNoForcedToolChoice r\<rparr>"

fun traits_loop :: "string \<Rightarrow> TraitRule list \<Rightarrow> int \<Rightarrow> Traits \<Rightarrow> Traits" where
  "traits_loop name [] best out = out"
| "traits_loop name (rule # rules) best out =
     (let match = trait_name (tuMatch rule) in
      if match = '''' \<or> \<not> Contains name match then traits_loop name rules best out
      else if int (length match) > best then traits_loop name rules (int (length match)) (rule_traits rule)
      else traits_loop name rules best out)"

definition traitsFor :: "Preset \<Rightarrow> string \<Rightarrow> Traits" where
  "traitsFor preset modelID = traits_loop (trait_name modelID) (psModelTraits preset) (- 1) zero_traits"

definition priceSource :: "string \<Rightarrow> Source" where
  "priceSource stored =
     (case List.find (\<lambda>s. Source_string s = stored)
        [SourceDiscovered, SourceOverride, SourceModelsDev, SourceLiteLLM, SourceRegistry] of
        Some s \<Rightarrow> s
      | None \<Rightarrow> SourceInferred)"

fun fill_cache_rates :: "ModelRow \<Rightarrow> Pricing list \<Rightarrow> Pricing \<Rightarrow> Pricing" where
  "fill_cache_rates row [] p = p"
| "fill_cache_rates row (c # lower) p =
     (if \<not> pcKnown c then fill_cache_rates row lower p
      else
        let p1 = (if \<not> mrCacheReadKnown row \<and> pcCacheReadMicrosPerMTok p = 0 \<and> pcCacheReadMicrosPerMTok c \<noteq> 0
                  then p\<lparr>pcCacheReadMicrosPerMTok := pcCacheReadMicrosPerMTok c, pcCacheReadSource := pcSource c\<rparr>
                  else p);
            p2 = (if \<not> mrCacheWriteKnown row \<and> pcCacheWriteMicrosPerMTok p1 = 0 \<and> pcCacheWriteMicrosPerMTok c \<noteq> 0
                  then p1\<lparr>pcCacheWriteMicrosPerMTok := pcCacheWriteMicrosPerMTok c, pcCacheWriteSource := pcSource c\<rparr>
                  else p1)
        in fill_cache_rates row lower p2)"

definition withUnquotedCacheRates :: "Pricing \<Rightarrow> ModelRow \<Rightarrow> Pricing list \<Rightarrow> Pricing" where
  "withUnquotedCacheRates p row lower =
     (if mrInputMicrosPerMTok row = 0 \<and> mrOutputMicrosPerMTok row = 0 then p
      else
        let p1 = fill_cache_rates row lower p;
            p2 = (if \<not> mrCacheReadKnown row \<and> pcCacheReadSource p1 = SourceNone
                  then p1\<lparr>pcCacheReadSource := SourceInferred\<rparr> else p1)
        in if \<not> mrCacheWriteKnown row \<and> pcCacheWriteSource p2 = SourceNone
           then p2\<lparr>pcCacheWriteSource := SourceInferred\<rparr> else p2)"

fun resolvePrice :: "Pricing list \<Rightarrow> Pricing" where
  "resolvePrice [] = zero_pricing\<lparr>pcSource := SourceInferred\<rparr>"
| "resolvePrice (c # cs) = (if pcKnown c then c else resolvePrice cs)"

section \<open>One model\<close>

definition known_caps :: "ModelCapabilities \<Rightarrow> Capabilities" where
  "known_caps c = \<lparr>cpTools = mcTools c, cpVision = mcVision c, cpReasoning = mcReasoning c, cpKnown = True\<rparr>"

definition stored_price :: "ModelRow \<Rightarrow> Pricing" where
  "stored_price row = zero_pricing\<lparr>
     pcInputMicrosPerMTok := mrInputMicrosPerMTok row, pcOutputMicrosPerMTok := mrOutputMicrosPerMTok row,
     pcCacheReadMicrosPerMTok := mrCacheReadMicrosPerMTok row,
     pcCacheWriteMicrosPerMTok := mrCacheWriteMicrosPerMTok row,
     pcKnown := mrPriceKnown row, pcSource := priceSource (mrPriceSource row)\<rparr>"

definition doc_price :: "Metadata option \<Rightarrow> Pricing" where
  "doc_price meta = (case meta of
       None \<Rightarrow> zero_pricing
     | Some m \<Rightarrow> if mePriceKnown m
         then zero_pricing\<lparr>pcInputMicrosPerMTok := meInputMicrosPerMTok m,
           pcOutputMicrosPerMTok := meOutputMicrosPerMTok m,
           pcCacheReadMicrosPerMTok := meCacheReadMicrosPerMTok m,
           pcCacheWriteMicrosPerMTok := meCacheWriteMicrosPerMTok m,
           pcKnown := True, pcSource := SourceModelsDev\<rparr>
         else zero_pricing)"

definition litellm_price :: "Pricing option \<Rightarrow> Pricing" where
  "litellm_price r = (case r of Some p \<Rightarrow> if pcKnown p then p else zero_pricing | None \<Rightarrow> zero_pricing)"

definition merge_price :: "ModelRow \<Rightarrow> Preset \<Rightarrow> Metadata option \<Rightarrow> Pricing option \<Rightarrow> Pricing" where
  "merge_price row preset meta lite =
     (let stored = stored_price row; fromDoc = doc_price meta; fromLiteLLM = litellm_price lite;
          p = (if Authoritative (pcSource stored)
               then let q = resolvePrice [stored, fromDoc, fromLiteLLM] in
                    if pcKnown stored then withUnquotedCacheRates q row [fromDoc, fromLiteLLM] else q
               else resolvePrice [fromDoc, fromLiteLLM, stored])
      in p\<lparr>pcResold := ResellsPrices preset\<rparr>)"

definition quirk_window :: "Preset \<Rightarrow> int option" where
  "quirk_window preset =
     (case QuirkValue preset ''context-override'' of
        None \<Rightarrow> None
      | Some v \<Rightarrow> (case Atoi v of None \<Rightarrow> None | Some n \<Rightarrow> if n > 0 then Some n else None))"

definition mergeOne ::
    "ModelRow \<Rightarrow> string \<Rightarrow> Preset \<Rightarrow> Doc \<Rightarrow> LiteLLMDoc \<Rightarrow> FreeCatalog \<Rightarrow> ModelOverride \<Rightarrow> Model" where
  "mergeOne row presetID preset doc litellm free override =
     (let meta = Join_doc preset doc (mrModelID row);
          m0 = \<lparr>mdProviderID = mrProviderID row, mdModelID = mrModelID row, mdPublisher = mrPublisher row,
            mdSurfaces = surfaces row preset override, mdCapabilities = zero_capabilities, mdSource = SourceNone,
            mdState = model_state (mrState row), mdContextWindow = 0, mdMaxOutputTokens = 0,
            mdTraits = traitsFor preset (mrModelID row), mdPricing = zero_pricing, mdFreeTier = zero_free_tier\<rparr>;
          m1 = (case meta of
              Some md \<Rightarrow> m0\<lparr>mdCapabilities := meCapabilities md, mdSource := SourceModelsDev,
                mdContextWindow := meContextWindow md, mdMaxOutputTokens := meMaxOutputTokens md\<rparr>
            | None \<Rightarrow> m0\<lparr>mdContextWindow := mrContextWindow row, mdMaxOutputTokens := mrMaxOutputTokens row,
                mdSource := SourceInferred\<rparr>);
          m2 = m1\<lparr>mdPricing := merge_price row preset meta (JoinLiteLLM preset litellm (mrModelID row))\<rparr>;
          m3 = (case Tier free presetID (mrModelID row) of Some tier \<Rightarrow> m2\<lparr>mdFreeTier := tier\<rparr> | None \<Rightarrow> m2);
          m4 = (if mrCapabilitiesSource row = Source_string SourceDiscovered
                then m3\<lparr>mdCapabilities := known_caps (mrCapabilities row), mdSource := SourceDiscovered\<rparr>
                else m3);
          m5 = (case moCapabilities override of
              Some c \<Rightarrow> m4\<lparr>mdCapabilities := known_caps c, mdSource := SourceOverride\<rparr>
            | None \<Rightarrow> m4);
          m6 = (case moContextWindow override of Some n \<Rightarrow> m5\<lparr>mdContextWindow := n\<rparr> | None \<Rightarrow> m5)
      in case quirk_window preset of
           Some n \<Rightarrow> if moContextWindow override = None then m6\<lparr>mdContextWindow := n\<rparr> else m6
         | None \<Rightarrow> m6)"

section \<open>The whole catalog\<close>

text \<open>A later entry of a slice overwrites an earlier one of the same key in the map built from it.\<close>

definition provider_index :: "Provider list \<Rightarrow> (string, Provider) gomap" where
  "provider_index ps = fold (\<lambda>p m. AList.update (prID p) p m) ps []"

definition override_index :: "ModelOverride list \<Rightarrow> (string \<times> string, ModelOverride) gomap" where
  "override_index os = fold (\<lambda>ov m. AList.update (moProviderID ov, moModelID ov) ov m) os []"

definition preset_at :: "Presets \<Rightarrow> string \<Rightarrow> Preset" where
  "preset_at presets k = (case map_of presets k of Some p \<Rightarrow> p | None \<Rightarrow> zero_preset)"

definition merge_row :: "MergeInput \<Rightarrow> FreeCatalog \<Rightarrow> ModelRow \<Rightarrow> Model option" where
  "merge_row inp free row =
     (case map_of (provider_index (miProviders inp)) (mrProviderID row) of
        None \<Rightarrow> None
      | Some p \<Rightarrow>
          (let preset = preset_at (miPresets inp) (prPreset p);
               override = (case map_of (override_index (miOverrides inp)) (mrProviderID row, mrModelID row) of
                   Some ov \<Rightarrow> ov | None \<Rightarrow> zero_override);
               m = mergeOne row (freeCatalogKey p) preset (miDoc inp) (miLiteLLM inp) free override
           in Some (if psModelTraits preset = [] \<and> servesAnthropicShape p preset
                    then m\<lparr>mdTraits := traitsFor (preset_at (miPresets inp) ''anthropic'') (mrModelID row)\<rparr>
                    else m)))"

definition model_before :: "Model \<Rightarrow> Model \<Rightarrow> bool" where
  "model_before a b =
     (if mdProviderID a \<noteq> mdProviderID b then mdProviderID a < mdProviderID b
      else mdModelID a < mdModelID b)"

definition Merge :: "FreeCatalog \<Rightarrow> MergeInput \<Rightarrow> Model list" where
  "Merge embedded inp =
     (let free = (if miFree inp = [] then embedded else miFree inp) in
      SliceStable model_before (List.map_filter (merge_row inp free) (miRows inp)))"

section \<open>Surfaces and traits\<close>

lemma parseSurfaces_filter: "parseSurfaces ss = filter (\<lambda>s. s \<in> set AllSurfaces) ss"
proof (induction ss)
  case (Cons s ss)
  show ?case
  proof (cases "ParseSurface s")
    case None
    then have "s \<notin> set AllSurfaces" using ParseSurface_Some_iff[of s s] by auto
    with None Cons show ?thesis by simp
  next
    case (Some x)
    with Cons ParseSurface_Some_iff[of s x] show ?thesis by auto
  qed
qed simp

lemma hint_loop_subset: "set (hint_loop mid declared hints) \<subseteq> set declared"
  by (induction mid declared hints rule: hint_loop.induct) auto

lemma modelSurfaces_subset: "set (modelSurfaces mid declared) \<subseteq> set declared"
  using hint_loop_subset by (auto simp: modelSurfaces_def Let_def)

lemma modelSurfaces_nonempty: "declared \<noteq> [] \<Longrightarrow> modelSurfaces mid declared \<noteq> []"
  by (auto simp: modelSurfaces_def Let_def)

lemma surfaces_known: "set (surfaces row preset override) \<subseteq> set AllSurfaces"
proof -
  have p: "set (parseSurfaces ss) \<subseteq> set AllSurfaces" for ss by (auto simp: parseSurfaces_filter)
  have "SurfaceLLM \<in> set AllSurfaces" by (simp add: AllSurfaces_def)
  with p[of "moSurfaces override"] p[of "mrSurfaces row"]
    order.trans[OF modelSurfaces_subset p[of "psSurfaces preset"]]
  show ?thesis by (simp add: surfaces_def Let_def)
qed

lemma surfaces_nonempty: "surfaces row preset override \<noteq> []"
  by (simp add: surfaces_def Let_def modelSurfaces_nonempty)

text \<open>The rules of a list that match a name, and the loop's answer: the first of the longest.\<close>

definition rule_matches :: "string \<Rightarrow> TraitRule \<Rightarrow> bool" where
  "rule_matches name r = (trait_name (tuMatch r) \<noteq> '''' \<and> Contains name (trait_name (tuMatch r)))"

definition rule_weight :: "TraitRule \<Rightarrow> int" where
  "rule_weight r = int (length (trait_name (tuMatch r)))"

definition first_longest :: "string \<Rightarrow> TraitRule list \<Rightarrow> TraitRule \<Rightarrow> bool" where
  "first_longest name rules r = (\<exists>xs ys. rules = xs @ r # ys \<and> rule_matches name r \<and>
     (\<forall>x \<in> set xs. rule_matches name x \<longrightarrow> rule_weight x < rule_weight r) \<and>
     (\<forall>y \<in> set ys. rule_matches name y \<longrightarrow> rule_weight y \<le> rule_weight r))"

lemma first_longest_head:
  "rule_matches name r \<Longrightarrow> (\<forall>y \<in> set rules. rule_matches name y \<longrightarrow> rule_weight y \<le> rule_weight r) \<Longrightarrow>
   first_longest name (r # rules) r"
  unfolding first_longest_def by (rule exI[of _ "[]"]) auto

lemma first_longest_tail:
  assumes "first_longest name rules s" "rule_matches name r \<longrightarrow> rule_weight r < rule_weight s"
  shows "first_longest name (r # rules) s"
proof -
  from assms(1) obtain xs ys where "rules = xs @ s # ys" "rule_matches name s"
    "\<forall>x \<in> set xs. rule_matches name x \<longrightarrow> rule_weight x < rule_weight s"
    "\<forall>y \<in> set ys. rule_matches name y \<longrightarrow> rule_weight y \<le> rule_weight s"
    by (auto simp: first_longest_def)
  with assms(2) show ?thesis
    unfolding first_longest_def by (intro exI[of _ "r # xs"] exI[of _ ys]) auto
qed

lemma traits_loop_cases:
  "(traits_loop name rules best out = out \<and> (\<forall>r \<in> set rules. rule_matches name r \<longrightarrow> rule_weight r \<le> best)) \<or>
   (\<exists>r. first_longest name rules r \<and> best < rule_weight r \<and> traits_loop name rules best out = rule_traits r)"
proof (induction rules arbitrary: best out)
  case (Cons r rules)
  show ?case
  proof (cases "rule_matches name r \<and> best < rule_weight r")
    case True
    then have step: "traits_loop name (r # rules) best out = traits_loop name rules (rule_weight r) (rule_traits r)"
      by (simp add: rule_matches_def rule_weight_def Let_def)
    from Cons.IH[of "rule_weight r" "rule_traits r"]
    have "\<exists>s. first_longest name (r # rules) s \<and> rule_weight r \<le> rule_weight s \<and>
        traits_loop name rules (rule_weight r) (rule_traits r) = rule_traits s"
      using True first_longest_head[of name r rules] first_longest_tail[of name rules _ r] by fastforce
    with True show ?thesis unfolding step by fastforce
  next
    case False
    then have step: "traits_loop name (r # rules) best out = traits_loop name rules best out"
      by (auto simp: rule_matches_def rule_weight_def Let_def)
    have "rule_matches name r \<longrightarrow> rule_weight r < rule_weight s" if "best < rule_weight s" for s
      using False that by auto
    then have tail: "first_longest name (r # rules) s" if "first_longest name rules s" "best < rule_weight s" for s
      using first_longest_tail that by blast
    have "rule_matches name r \<longrightarrow> rule_weight r \<le> best" using False by auto
    with tail Cons.IH[of best out] show ?thesis unfolding step by (elim disjE) (simp, blast)
  qed
qed simp

lemma traitsFor_longest:
  "(\<exists>r. first_longest (trait_name i) (psModelTraits preset) r \<and> traitsFor preset i = rule_traits r) \<or>
   (traitsFor preset i = zero_traits \<and> (\<forall>r \<in> set (psModelTraits preset). \<not> rule_matches (trait_name i) r))"
  using traits_loop_cases[of "trait_name i" "psModelTraits preset" "- 1" zero_traits]
  by (fastforce simp: traitsFor_def rule_weight_def)

section \<open>Prices\<close>

lemma fill_keeps [simp]:
  "pcInputMicrosPerMTok (fill_cache_rates row lower p) = pcInputMicrosPerMTok p"
  "pcOutputMicrosPerMTok (fill_cache_rates row lower p) = pcOutputMicrosPerMTok p"
  "pcKnown (fill_cache_rates row lower p) = pcKnown p"
  "pcSource (fill_cache_rates row lower p) = pcSource p"
  by (induction row lower p rule: fill_cache_rates.induct) (simp_all add: Let_def)

text \<open>The first directory, in order, that publishes a rate.\<close>

definition publisher_of :: "(Pricing \<Rightarrow> int) \<Rightarrow> Pricing list \<Rightarrow> Pricing option" where
  "publisher_of rate lower = List.find (\<lambda>c. pcKnown c \<and> rate c \<noteq> 0) lower"

definition rate_after :: "bool \<Rightarrow> (Pricing \<Rightarrow> int) \<Rightarrow> Pricing list \<Rightarrow> int \<times> Source \<Rightarrow> int \<times> Source" where
  "rate_after quoted rate lower held =
     (if quoted \<or> fst held \<noteq> 0 then held
      else case publisher_of rate lower of None \<Rightarrow> held | Some c \<Rightarrow> (rate c, pcSource c))"

lemma rate_after_simps:
  "rate_after quoted rate [] held = held"
  "rate_after quoted rate (c # lower) held =
     (if pcKnown c \<and> \<not> quoted \<and> fst held = 0 \<and> rate c \<noteq> 0 then (rate c, pcSource c)
      else rate_after quoted rate lower held)"
  by (auto simp: rate_after_def publisher_of_def)

lemma fill_read:
  "(pcCacheReadMicrosPerMTok (fill_cache_rates row lower p), pcCacheReadSource (fill_cache_rates row lower p)) =
   rate_after (mrCacheReadKnown row) pcCacheReadMicrosPerMTok lower (pcCacheReadMicrosPerMTok p, pcCacheReadSource p)"
proof (induction row lower p rule: fill_cache_rates.induct)
  case (2 row c lower p)
  then show ?case by (auto simp: Let_def rate_after_simps(2)) (auto simp: rate_after_def)
qed (simp add: rate_after_simps)

lemma fill_write:
  "(pcCacheWriteMicrosPerMTok (fill_cache_rates row lower p), pcCacheWriteSource (fill_cache_rates row lower p)) =
   rate_after (mrCacheWriteKnown row) pcCacheWriteMicrosPerMTok lower (pcCacheWriteMicrosPerMTok p, pcCacheWriteSource p)"
proof (induction row lower p rule: fill_cache_rates.induct)
  case (2 row c lower p)
  then show ?case by (auto simp: Let_def rate_after_simps(2)) (auto simp: rate_after_def)
qed (simp add: rate_after_simps)

section \<open>The catalog as a function of its rows\<close>

definition row_key :: "ModelRow \<Rightarrow> string \<times> string" where
  "row_key r = (mrProviderID r, mrModelID r)"

lemma mergeOne_key: "model_key (mergeOne row k preset doc lite free ov) = row_key row"
  by (simp add: mergeOne_def model_key_def row_key_def Let_def split: option.splits)

lemma merge_row_key: "merge_row inp free row = Some m \<Longrightarrow> model_key m = row_key row"
  using mergeOne_key
  by (auto simp: merge_row_def Let_def model_key_def row_key_def split: option.splits)

lemma merge_row_None:
  "merge_row inp free row = None \<longleftrightarrow> map_of (provider_index (miProviders inp)) (mrProviderID row) = None"
  by (auto simp: merge_row_def Let_def split: option.splits)

interpretation catalog_order: strict_keyed model_before model_key
  by unfold_locales (auto simp: model_before_def model_key_def split: if_splits)

lemma map_filter_keys:
  assumes "\<And>r m. f r = Some m \<Longrightarrow> g m = h r"
  shows "set (map g (List.map_filter f rs)) \<subseteq> set (map h rs)"
    and "distinct (map h rs) \<Longrightarrow> distinct (map g (List.map_filter f rs))"
proof -
  show sub: "set (map g (List.map_filter f rs)) \<subseteq> set (map h rs)" for rs
    using assms by (induction rs) (auto simp: map_filter_simps split: option.splits)
  show "distinct (map h rs) \<Longrightarrow> distinct (map g (List.map_filter f rs))"
  proof (induction rs)
    case (Cons r rs)
    show ?case
    proof (cases "f r")
      case (Some m)
      with assms[OF this] Cons sub[of rs] show ?thesis by (auto simp: map_filter_simps)
    qed (use Cons in \<open>auto simp: map_filter_simps\<close>)
  qed (simp add: map_filter_simps)
qed

lemma find_key_iff:
  assumes "distinct (map f xs)"
  shows "List.find (\<lambda>x. f x = k) xs = Some x \<longleftrightarrow> x \<in> set xs \<and> f x = k"
  using find_distinct_key[OF assms] by (auto simp: find_Some_iff in_set_conv_nth)

lemma find_perm:
  assumes "mset xs = mset ys" "distinct (map f xs)"
  shows "List.find (\<lambda>x. f x = k) xs = List.find (\<lambda>x. f x = k) ys"
proof -
  have "distinct (map f ys)" using assms by (metis mset_eq_imp_distinct_iff mset_map)
  with assms have "List.find (\<lambda>x. f x = k) xs = Some x \<longleftrightarrow> List.find (\<lambda>x. f x = k) ys = Some x" for x
    by (simp add: find_key_iff flip: set_mset_mset)
  then show ?thesis by (metis not_None_eq)
qed

lemma find_map_filter:
  assumes "\<And>r m. f r = Some m \<Longrightarrow> g m = h r" "distinct (map h rs)"
  shows "List.find (\<lambda>m. g m = k) (List.map_filter f rs) =
    (case List.find (\<lambda>r. h r = k) rs of None \<Rightarrow> None | Some r \<Rightarrow> f r)"
  using assms(2)
proof (induction rs)
  case (Cons r rs)
  have none: "List.find (\<lambda>r. h r = k) rs = None" if "h r = k"
    using Cons.prems that by (auto simp: find_None_iff) (metis image_eqI)
  show ?case using Cons none assms(1)[of r]
    by (auto simp: map_filter_simps split: option.splits)
qed (simp add: map_filter_simps)

lemma mset_map_filter: "mset xs = mset ys \<Longrightarrow> mset (List.map_filter f xs) = mset (List.map_filter f ys)"
  by (simp add: map_filter_def mset_filter)

lemma sorted_strict:
  assumes "sorted_wrt (\<lambda>a b. \<not> model_before b a) ms" "distinct (map model_key ms)"
  shows "sorted_wrt model_before ms"
  using assms
proof (induction ms)
  case (Cons m ms)
  then have "model_before m x" if "x \<in> set ms" for x
    using that catalog_order.tie[of m x] by force
  with Cons show ?case by simp
qed simp

section \<open>Properties\<close>

text \<open>The precedence table of the merge, one ranked list of answers per field; the first source with an
  answer decides.\<close>

fun first_of :: "'a option list \<Rightarrow> 'a \<Rightarrow> 'a" where
  "first_of [] d = d"
| "first_of (None # xs) d = first_of xs d"
| "first_of (Some x # xs) d = x"

definition table_capabilities :: "ModelRow \<Rightarrow> Metadata option \<Rightarrow> ModelOverride \<Rightarrow> Capabilities \<times> Source" where
  "table_capabilities row meta ov = first_of
     [map_option (\<lambda>c. (known_caps c, SourceOverride)) (moCapabilities ov),
      (if mrCapabilitiesSource row = ''discovered'' then Some (known_caps (mrCapabilities row), SourceDiscovered) else None),
      map_option (\<lambda>m. (meCapabilities m, SourceModelsDev)) meta]
     (zero_capabilities, SourceInferred)"

definition table_window :: "ModelRow \<Rightarrow> Preset \<Rightarrow> Metadata option \<Rightarrow> ModelOverride \<Rightarrow> int" where
  "table_window row preset meta ov =
     first_of [moContextWindow ov, quirk_window preset, map_option meContextWindow meta] (mrContextWindow row)"

definition table_prices :: "ModelRow \<Rightarrow> Metadata option \<Rightarrow> Pricing option \<Rightarrow> Pricing option list" where
  "table_prices row meta lite =
     (let known = (\<lambda>p. if pcKnown p then Some p else None);
          doc = known (doc_price meta); index = known (litellm_price lite); stored = known (stored_price row)
      in if Authoritative (priceSource (mrPriceSource row)) then [stored, doc, index] else [doc, index, stored])"

lemma resolvePrice_first:
  "resolvePrice cs = first_of (map (\<lambda>p. if pcKnown p then Some p else None) cs) (zero_pricing\<lparr>pcSource := SourceInferred\<rparr>)"
  by (induction cs) auto

lemma unquoted_keeps:
  "pcInputMicrosPerMTok (withUnquotedCacheRates p row lower) = pcInputMicrosPerMTok p"
  "pcOutputMicrosPerMTok (withUnquotedCacheRates p row lower) = pcOutputMicrosPerMTok p"
  "pcKnown (withUnquotedCacheRates p row lower) = pcKnown p"
  "pcSource (withUnquotedCacheRates p row lower) = pcSource p"
  by (simp_all add: withUnquotedCacheRates_def Let_def)

text \<open>The surfaces a preset declares, narrowed to those the model's id hints at when it declares several.\<close>

definition hinted :: "string \<Rightarrow> Surface list \<Rightarrow> Surface list" where
  "hinted i declared =
     map fst (filter (\<lambda>(s, frags). s \<in> set declared \<and> list_ex (\<lambda>f. Contains (ToLower i) f) frags) surfaceHints)"

definition narrowed :: "string \<Rightarrow> Surface list \<Rightarrow> Surface list" where
  "narrowed i declared =
     first_of [if length declared = 1 then Some declared else None,
               if hinted i declared \<noteq> [] then Some (hinted i declared) else None,
               if SurfaceLLM \<in> set declared then Some [SurfaceLLM] else None] declared"

definition table_surfaces :: "ModelRow \<Rightarrow> Preset \<Rightarrow> ModelOverride \<Rightarrow> Surface list" where
  "table_surfaces row preset ov =
     (let stated = (\<lambda>ss. let known = filter (\<lambda>s. s \<in> set AllSurfaces) ss in if known = [] then None else Some known)
      in first_of [stated (moSurfaces ov), map_option (narrowed (mrModelID row)) (stated (psSurfaces preset)), stated (mrSurfaces row)]
           [SurfaceLLM])"

lemma hint_loop_hinted: "hint_loop (ToLower i) declared surfaceHints = hinted i declared"
proof -
  have "hint_loop mid declared hints = map fst (filter (\<lambda>(s, frags). s \<in> set declared \<and> list_ex (\<lambda>f. Contains mid f) frags) hints)" for mid hints
    by (induction mid declared hints rule: hint_loop.induct) auto
  then show ?thesis by (simp only: hinted_def)
qed

lemma surfaces_table: "surfaces row preset ov = table_surfaces row preset ov"
proof -
  have "modelSurfaces i d = narrowed i d" for i d
    by (simp add: modelSurfaces_def narrowed_def hint_loop_hinted Let_def)
  then show ?thesis by (simp add: surfaces_def table_surfaces_def parseSurfaces_filter Let_def)
qed

text \<open>The traits: those of the longest rule whose text is in the model's name, the first of them if several are as long.\<close>

definition table_traits :: "TraitRule list \<Rightarrow> string \<Rightarrow> Traits \<Rightarrow> bool" where
  "table_traits rules i t =
     ((\<exists>r. first_longest (trait_name i) rules r \<and> t = rule_traits r) \<or>
      (t = zero_traits \<and> \<not> list_ex (rule_matches (trait_name i)) rules))"

lemma traits_table: "table_traits (psModelTraits preset) i (traitsFor preset i)"
  using traitsFor_longest[of i preset] by (auto simp: table_traits_def list_ex_iff)

lemma Merge_keys:
  "distinct (map row_key (miRows inp)) \<Longrightarrow> distinct (map model_key (List.map_filter (merge_row inp free) (miRows inp)))"
  by (rule map_filter_keys(2)[of "merge_row inp free" model_key row_key]) (rule merge_row_key)

lemma merge_row_rows [simp]: "merge_row (inp\<lparr>miRows := rows\<rparr>) free = merge_row inp free"
  by (rule ext) (simp add: merge_row_def Let_def split: option.split)

text \<open>The catalog is a function of the rows it is built from and of nothing else: the snapshot of a merge
  answers a lookup with the merge of that row alone, or with nothing when there is no such row or its
  provider is gone; the models come in strictly increasing order of provider and model; and reading the rows
  in another order gives the same list.\<close>

theorem merged_catalog_exact:
  assumes rows: "distinct (map row_key (miRows inp))" and perm: "mset rows' = mset (miRows inp)"
  shows "Lookup (NewSnapshot (Merge embedded inp) order) pid i =
      (case List.find (\<lambda>r. row_key r = (pid, i)) (miRows inp) of
         None \<Rightarrow> None
       | Some row \<Rightarrow> merge_row inp (if miFree inp = [] then embedded else miFree inp) row) \<and>
    sorted_wrt model_before (Merge embedded inp) \<and>
    Merge embedded (inp\<lparr>miRows := rows'\<rparr>) = Merge embedded inp"
proof -
  define free where "free = (if miFree inp = [] then embedded else miFree inp)"
  let ?out = "List.map_filter (merge_row inp free) (miRows inp)"
  have M: "Merge embedded inp = SliceStable model_before ?out" by (simp add: Merge_def free_def Let_def)
  have d: "distinct (map model_key ?out)" using Merge_keys[OF rows] .
  then have ds: "distinct (map model_key (SliceStable model_before ?out))"
    by (metis mset_SliceStable mset_eq_imp_distinct_iff mset_map)
  have "Lookup (NewSnapshot (Merge embedded inp) order) pid i = List.find (\<lambda>m. model_key m = (pid, i)) ?out"
    unfolding M Lookup_NewSnapshot find_rev_distinct[OF ds] by (rule find_perm[OF _ ds]) simp
  also have "\<dots> = (case List.find (\<lambda>r. row_key r = (pid, i)) (miRows inp) of None \<Rightarrow> None | Some row \<Rightarrow> merge_row inp free row)"
    using merge_row_key rows by (rule find_map_filter)
  finally have "Lookup (NewSnapshot (Merge embedded inp) order) pid i = \<dots>" .
  moreover have "sorted_wrt model_before (Merge embedded inp)"
    unfolding M using catalog_order.sorted_SliceStable ds by (rule sorted_strict)
  moreover have "Merge embedded (inp\<lparr>miRows := rows'\<rparr>) = Merge embedded inp"
    unfolding M using catalog_order.SliceStable_perm[OF mset_map_filter[OF perm[symmetric]] d]
    by (simp add: Merge_def free_def Let_def)
  ultimately show ?thesis unfolding free_def by blast
qed

text \<open>What the readers of a merged model may rely on.\<close>

definition model_wf :: "Model \<Rightarrow> bool" where
  "model_wf m = (mdSurfaces m \<noteq> [] \<and> set (mdSurfaces m) \<subseteq> set AllSurfaces \<and>
     mdSource m \<in> {SourceOverride, SourceDiscovered, SourceModelsDev, SourceInferred} \<and>
     (mdSource m \<in> {SourceOverride, SourceDiscovered} \<longrightarrow> cpKnown (mdCapabilities m)))"

lemma mergeOne_wf: "model_wf (mergeOne row k preset doc lite free ov)"
proof -
  let ?m = "mergeOne row k preset doc lite free ov" and ?meta = "Join_doc preset doc (mrModelID row)"
  have s: "mdSurfaces ?m = surfaces row preset ov"
    by (simp add: mergeOne_def Let_def split: option.splits)
  have "(mdCapabilities ?m, mdSource ?m) = table_capabilities row ?meta ov"
    by (simp add: mergeOne_def Let_def table_capabilities_def split: option.splits)
  then have "mdSource ?m \<in> {SourceOverride, SourceDiscovered, SourceModelsDev, SourceInferred} \<and>
      (mdSource ?m \<in> {SourceOverride, SourceDiscovered} \<longrightarrow> cpKnown (mdCapabilities ?m))"
    by (auto simp: table_capabilities_def known_caps_def option.map_sel split: option.splits if_splits)
       (cases "moCapabilities ov"; cases ?meta; auto)+
  then show ?thesis by (simp add: model_wf_def s surfaces_nonempty surfaces_known)
qed

text \<open>C38. Every model of a merged catalog is well formed: it serves at least one surface, and only surfaces the
  gateway knows; its capabilities name one of four sources, and are known whenever an operator or a runtime
  stated them.\<close>

theorem merged_models_wf: "list_all model_wf (Merge embedded inp)"
proof -
  have t: "model_wf (m\<lparr>mdTraits := t\<rparr>) = model_wf m" for m t by (simp add: model_wf_def)
  have "model_wf m" if "merge_row inp free row = Some m" for free row m
    using that by (auto simp: merge_row_def Let_def t mergeOne_wf split: option.splits if_splits)
  then show ?thesis by (auto simp: list_all_iff Merge_def Let_def map_filter_def)
qed

text \<open>What a cache rate ends up as: the row's own when it quotes one, else the first directory's that publishes
  it, else zero marked as a guess.\<close>

definition cache_rate_spec :: "bool \<Rightarrow> int \<Rightarrow> (Pricing \<Rightarrow> int) \<Rightarrow> Pricing list \<Rightarrow> int \<times> Source" where
  "cache_rate_spec quoted own rate lower =
     (if quoted then (own, SourceNone)
      else case publisher_of rate lower of Some c \<Rightarrow> (rate c, pcSource c) | None \<Rightarrow> (0, SourceInferred))"

definition mark_guess :: "bool \<Rightarrow> int \<times> Source \<Rightarrow> int \<times> Source" where
  "mark_guess quoted r = (if \<not> quoted \<and> snd r = SourceNone then (fst r, SourceInferred) else r)"

lemma unquoted_rates:
  fixes p :: Pricing and lower :: "Pricing list"
  assumes "mrInputMicrosPerMTok row \<noteq> 0 \<or> mrOutputMicrosPerMTok row \<noteq> 0"
  defines "q \<equiv> withUnquotedCacheRates p row lower"
  shows "(pcCacheReadMicrosPerMTok q, pcCacheReadSource q) = mark_guess (mrCacheReadKnown row)
      (rate_after (mrCacheReadKnown row) pcCacheReadMicrosPerMTok lower (pcCacheReadMicrosPerMTok p, pcCacheReadSource p))"
    and "(pcCacheWriteMicrosPerMTok q, pcCacheWriteSource q) = mark_guess (mrCacheWriteKnown row)
      (rate_after (mrCacheWriteKnown row) pcCacheWriteMicrosPerMTok lower (pcCacheWriteMicrosPerMTok p, pcCacheWriteSource p))"
  using assms by (auto simp: q_def withUnquotedCacheRates_def Let_def mark_guess_def simp flip: fill_read fill_write)

text \<open>A cache rate of a merged model. An authoritative row that quotes a price, but not this rate of it, and is not free
  both ways, takes the first nonzero rate a directory below it publishes, under that directory's name; what no one
  states is marked a guess. Every other price has the rate of the source that won it.\<close>

definition table_cache :: "ModelRow \<Rightarrow> bool \<Rightarrow> (Pricing \<Rightarrow> int) \<Rightarrow> (Pricing \<Rightarrow> Source) \<Rightarrow> Pricing \<Rightarrow> Pricing list \<Rightarrow> int \<times> Source" where
  "table_cache row quoted rate src w lower =
     (if Authoritative (priceSource (mrPriceSource row)) \<and> mrPriceKnown row \<and> \<not> quoted \<and>
         (mrInputMicrosPerMTok row \<noteq> 0 \<or> mrOutputMicrosPerMTok row \<noteq> 0)
      then (if rate w \<noteq> 0 then (rate w, SourceInferred)
            else case publisher_of rate lower of
              None \<Rightarrow> (0, SourceInferred)
            | Some c \<Rightarrow> (rate c, if pcSource c = SourceNone then SourceInferred else pcSource c))
      else (rate w, src w))"

definition table_pricing :: "ModelRow \<Rightarrow> Preset \<Rightarrow> Metadata option \<Rightarrow> Pricing option \<Rightarrow> Pricing" where
  "table_pricing row preset meta lite =
     (let w = first_of (table_prices row meta lite) (zero_pricing\<lparr>pcSource := SourceInferred\<rparr>);
          lower = [doc_price meta, litellm_price lite];
          (r, rs) = table_cache row (mrCacheReadKnown row) pcCacheReadMicrosPerMTok pcCacheReadSource w lower;
          (wr, ws) = table_cache row (mrCacheWriteKnown row) pcCacheWriteMicrosPerMTok pcCacheWriteSource w lower
      in w\<lparr>pcCacheReadMicrosPerMTok := r, pcCacheReadSource := rs, pcCacheWriteMicrosPerMTok := wr, pcCacheWriteSource := ws,
           pcResold := ResellsPrices preset\<rparr>)"

lemma stored_cache:
  assumes "Authoritative (priceSource (mrPriceSource row))" "mrPriceKnown row"
    and "mrInputMicrosPerMTok row \<noteq> 0 \<or> mrOutputMicrosPerMTok row \<noteq> 0" "src w = SourceNone"
  shows "mark_guess quoted (rate_after quoted rate lower (rate w, src w)) = table_cache row quoted rate src w lower"
  using assms by (auto simp: mark_guess_def rate_after_def table_cache_def split: option.splits)

lemma merge_price_table: "merge_price row preset meta lite = table_pricing row preset meta lite"
proof (cases "Authoritative (priceSource (mrPriceSource row)) \<and> mrPriceKnown row")
  case False
  have s: "pcSource (stored_price row) = priceSource (mrPriceSource row)" "pcKnown (stored_price row) = mrPriceKnown row"
    by (simp_all add: stored_price_def)
  have "merge_price row preset meta lite =
      (first_of (table_prices row meta lite) (zero_pricing\<lparr>pcSource := SourceInferred\<rparr>))\<lparr>pcResold := ResellsPrices preset\<rparr>"
    using False by (simp add: merge_price_def Let_def s resolvePrice_first[symmetric] table_prices_def)
  moreover have "table_cache row q rate src w lower = (rate w, src w)" for q rate src w lower
    using False by (auto simp: table_cache_def)
  ultimately show ?thesis by (simp add: table_pricing_def Let_def)
next
  case True
  let ?p = "stored_price row" and ?lower = "[doc_price meta, litellm_price lite]"
  let ?q = "withUnquotedCacheRates ?p row ?lower"
  have s: "pcSource ?p = priceSource (mrPriceSource row)" "pcKnown ?p" "pcCacheReadSource ?p = SourceNone" "pcCacheWriteSource ?p = SourceNone"
    "pcResold ?p = False" using True by (simp_all add: stored_price_def zero_pricing_def)
  have w: "first_of (table_prices row meta lite) (zero_pricing\<lparr>pcSource := SourceInferred\<rparr>) = ?p"
    using True s(2) by (simp add: table_prices_def Let_def)
  have m: "merge_price row preset meta lite = ?q\<lparr>pcResold := ResellsPrices preset\<rparr>"
    using True s(1,2) by (simp add: merge_price_def Let_def)
  have c: "(pcCacheReadMicrosPerMTok ?q, pcCacheReadSource ?q) =
      table_cache row (mrCacheReadKnown row) pcCacheReadMicrosPerMTok pcCacheReadSource ?p ?lower"
    "(pcCacheWriteMicrosPerMTok ?q, pcCacheWriteSource ?q) =
      table_cache row (mrCacheWriteKnown row) pcCacheWriteMicrosPerMTok pcCacheWriteSource ?p ?lower"
  proof -
    show "(pcCacheReadMicrosPerMTok ?q, pcCacheReadSource ?q) =
        table_cache row (mrCacheReadKnown row) pcCacheReadMicrosPerMTok pcCacheReadSource ?p ?lower"
    proof (cases "mrInputMicrosPerMTok row = 0 \<and> mrOutputMicrosPerMTok row = 0")
      case True
      then show ?thesis by (simp add: withUnquotedCacheRates_def table_cache_def)
    next
      case False
      then have nz: "mrInputMicrosPerMTok row \<noteq> 0 \<or> mrOutputMicrosPerMTok row \<noteq> 0" by simp
      show ?thesis by (rule trans[OF unquoted_rates(1)[OF nz] stored_cache]) (use True nz s in simp_all)
    qed
    show "(pcCacheWriteMicrosPerMTok ?q, pcCacheWriteSource ?q) =
        table_cache row (mrCacheWriteKnown row) pcCacheWriteMicrosPerMTok pcCacheWriteSource ?p ?lower"
    proof (cases "mrInputMicrosPerMTok row = 0 \<and> mrOutputMicrosPerMTok row = 0")
      case True
      then show ?thesis by (simp add: withUnquotedCacheRates_def table_cache_def)
    next
      case False
      then have nz: "mrInputMicrosPerMTok row \<noteq> 0 \<or> mrOutputMicrosPerMTok row \<noteq> 0" by simp
      show ?thesis by (rule trans[OF unquoted_rates(2)[OF nz] stored_cache]) (use True nz s in simp_all)
    qed
  qed
  show ?thesis
    by (simp only: m table_pricing_def w Let_def c[symmetric] prod.case, rule Pricing.equality)
      (simp_all add: unquoted_keeps)
qed

text \<open>C30. Each field of a merged model is decided on its own, by the first source of its ranked list that has something to
  say: surfaces by the operator's override, then the preset, narrowed by what the model's id hints at, then the row, then
  chat; capabilities, and the source named for them, by the override, then a runtime's own report, then models.dev; the
  context window by the override, then the preset's context-override, then models.dev, then the row; the output cap by
  models.dev, then the row; the price by the stored row when its stamp outranks a directory, then models.dev, then the
  price index, then the row; each cache rate with the price, except that one an authoritative row does not quote comes
  from the first directory that publishes it; the traits by the longest rule of the preset that matches the name, the
  Anthropic preset's rules standing in for a provider of that shape with none; the free tier by the curated
  catalogue; names, state and publisher by the row. A source that decides one field decides no other by that, and a
  row whose provider is gone gives no model.\<close>

theorem merge_precedence:
  "case map_of (provider_index (miProviders inp)) (mrProviderID row) of
     None \<Rightarrow> merge_row inp free row = None
   | Some p \<Rightarrow>
       (\<exists>m. merge_row inp free row = Some m \<and>
          (let preset = preset_at (miPresets inp) (prPreset p);
               ov = (case map_of (override_index (miOverrides inp)) (mrProviderID row, mrModelID row) of Some ov \<Rightarrow> ov | None \<Rightarrow> zero_override);
               meta = Join_doc preset (miDoc inp) (mrModelID row);
               rules = (if psModelTraits preset = [] \<and> servesAnthropicShape p preset
                        then psModelTraits (preset_at (miPresets inp) ''anthropic'') else psModelTraits preset)
           in (mdProviderID m, mdModelID m, mdPublisher m) = (mrProviderID row, mrModelID row, mrPublisher row) \<and>
              mdSurfaces m = table_surfaces row preset ov \<and>
              (mdCapabilities m, mdSource m) = table_capabilities row meta ov \<and>
              mdState m = (if mrState row = ''stale'' then StateStale
                           else if mrState row = ''removed_upstream'' then StateRemovedUpstream else StateLive) \<and>
              mdContextWindow m = table_window row preset meta ov \<and>
              mdMaxOutputTokens m = first_of [map_option meMaxOutputTokens meta] (mrMaxOutputTokens row) \<and>
              table_traits rules (mrModelID row) (mdTraits m) \<and>
              mdPricing m = table_pricing row preset meta (JoinLiteLLM preset (miLiteLLM inp) (mrModelID row)) \<and>
              mdFreeTier m = first_of [Tier free (freeCatalogKey p) (mrModelID row)] zero_free_tier))"
proof (cases "map_of (provider_index (miProviders inp)) (mrProviderID row)")
  case None
  then show ?thesis by (simp add: merge_row_def)
next
  case (Some p)
  define preset where "preset = preset_at (miPresets inp) (prPreset p)"
  define ov where "ov = (case map_of (override_index (miOverrides inp)) (mrProviderID row, mrModelID row) of Some ov \<Rightarrow> ov | None \<Rightarrow> zero_override)"
  define meta where "meta = Join_doc preset (miDoc inp) (mrModelID row)"
  define m where "m = mergeOne row (freeCatalogKey p) preset (miDoc inp) (miLiteLLM inp) free ov"
  define rules where "rules = (if psModelTraits preset = [] \<and> servesAnthropicShape p preset
    then psModelTraits (preset_at (miPresets inp) ''anthropic'') else psModelTraits preset)"
  define t where "t = (if psModelTraits preset = [] \<and> servesAnthropicShape p preset
    then traitsFor (preset_at (miPresets inp) ''anthropic'') (mrModelID row) else mdTraits m)"
  have mt: "mdTraits m = traitsFor preset (mrModelID row)" by (simp add: m_def mergeOne_def Let_def split: option.splits)
  have r: "merge_row inp free row = Some (m\<lparr>mdTraits := t\<rparr>)"
    unfolding merge_row_def Some Let_def t_def m_def preset_def ov_def by simp
  have fields: "(mdProviderID m, mdModelID m, mdPublisher m) = (mrProviderID row, mrModelID row, mrPublisher row) \<and>
      mdSurfaces m = table_surfaces row preset ov \<and> (mdCapabilities m, mdSource m) = table_capabilities row meta ov \<and>
      mdState m = model_state (mrState row) \<and> mdContextWindow m = table_window row preset meta ov \<and>
      mdMaxOutputTokens m = first_of [map_option meMaxOutputTokens meta] (mrMaxOutputTokens row) \<and>
      mdPricing m = table_pricing row preset meta (JoinLiteLLM preset (miLiteLLM inp) (mrModelID row)) \<and>
      mdFreeTier m = first_of [Tier free (freeCatalogKey p) (mrModelID row)] zero_free_tier"
    by (simp add: m_def mergeOne_def meta_def Let_def table_capabilities_def table_window_def merge_price_table surfaces_table split: option.splits)
  have "table_traits rules (mrModelID row) t"
    using traits_table[of preset "mrModelID row"] traits_table[of "preset_at (miPresets inp) ''anthropic''" "mrModelID row"]
    by (simp add: rules_def t_def mt)
  then show ?thesis
    unfolding Some option.case Let_def preset_def[symmetric] ov_def[symmetric] meta_def[symmetric] rules_def[symmetric]
    using r fields by (intro exI[of _ "m\<lparr>mdTraits := t\<rparr>"]) (simp add: model_state_def)
qed

lemma spec_of_rates:
  assumes "\<not> quoted \<longrightarrow> own = 0" "\<forall>c. publisher_of rate lower = Some c \<longrightarrow> pcSource c \<noteq> SourceNone"
  shows "mark_guess quoted (rate_after quoted rate lower (own, SourceNone)) = cache_rate_spec quoted own rate lower"
  using assms by (auto simp: mark_guess_def rate_after_def cache_rate_spec_def split: option.splits)

text \<open>Directories are never a measurement.\<close>

lemma directory_source:
  assumes "\<forall>c. lite = Some c \<longrightarrow> pcSource c = SourceLiteLLM"
    and "publisher_of rate [doc_price meta, litellm_price lite] = Some c"
  shows "pcSource c = SourceModelsDev \<or> pcSource c = SourceLiteLLM"
  using assms
  by (auto simp: publisher_of_def doc_price_def litellm_price_def zero_pricing_def split: option.splits if_splits)

lemma weaker_not_measured: "gradeRank (weaker g h) \<le> gradeRank h \<and> gradeRank (weaker g h) \<le> gradeRank g"
  by (cases g; cases h) (simp_all add: weaker_def)

text \<open>The cache rates of a price an authority stands behind: a rate the row quotes is kept, zero included;
  one it does not quote is taken from the first directory that publishes it, and named as that directory's; one
  nobody publishes costs nothing and is marked a guess. So a request that read cached tokens at a rate the
  seller never stated is graded indexed or guessed, however well the headline price is known.\<close>

theorem cache_rate_provenance:
  assumes "mrPriceKnown row" "Authoritative (priceSource (mrPriceSource row))"
    and "mrInputMicrosPerMTok row \<noteq> 0 \<or> mrOutputMicrosPerMTok row \<noteq> 0"
    and "\<not> mrCacheReadKnown row \<longrightarrow> mrCacheReadMicrosPerMTok row = 0"
    and "\<not> mrCacheWriteKnown row \<longrightarrow> mrCacheWriteMicrosPerMTok row = 0"
    and lite: "\<forall>c. lite = Some c \<longrightarrow> pcSource c = SourceLiteLLM"
  shows "let p = merge_price row preset meta lite; lower = [doc_price meta, litellm_price lite] in
    (pcCacheReadMicrosPerMTok p, pcCacheReadSource p) =
      cache_rate_spec (mrCacheReadKnown row) (mrCacheReadMicrosPerMTok row) pcCacheReadMicrosPerMTok lower \<and>
    (pcCacheWriteMicrosPerMTok p, pcCacheWriteSource p) =
      cache_rate_spec (mrCacheWriteKnown row) (mrCacheWriteMicrosPerMTok row) pcCacheWriteMicrosPerMTok lower \<and>
    (\<not> mrCacheReadKnown row \<and> 0 < tkCacheRead t \<longrightarrow> gradeRank (GradeFor p t) \<le> gradeRank GradeIndexed)"
proof -
  let ?lower = "[doc_price meta, litellm_price lite]"
  define p where "p = merge_price row preset meta lite"
  have src: "\<forall>c. publisher_of rate ?lower = Some c \<longrightarrow> pcSource c \<noteq> SourceNone" for rate
    using directory_source[OF lite] by fastforce
  have "p = (withUnquotedCacheRates (stored_price row) row ?lower)\<lparr>pcResold := ResellsPrices preset\<rparr>"
    using assms(1,2) by (simp add: p_def merge_price_def Let_def stored_price_def)
  then have r: "(pcCacheReadMicrosPerMTok p, pcCacheReadSource p) =
      cache_rate_spec (mrCacheReadKnown row) (mrCacheReadMicrosPerMTok row) pcCacheReadMicrosPerMTok ?lower"
    and w: "(pcCacheWriteMicrosPerMTok p, pcCacheWriteSource p) =
      cache_rate_spec (mrCacheWriteKnown row) (mrCacheWriteMicrosPerMTok row) pcCacheWriteMicrosPerMTok ?lower"
    using unquoted_rates[OF assms(3), of "stored_price row" ?lower]
      spec_of_rates[OF assms(4) src] spec_of_rates[OF assms(5) src]
    by (simp_all add: stored_price_def zero_pricing_def)
  have "gradeRank (GradeFor p t) \<le> gradeRank GradeIndexed" if "\<not> mrCacheReadKnown row" "0 < tkCacheRead t"
  proof -
    have s: "pcCacheReadSource p \<in> {SourceModelsDev, SourceLiteLLM, SourceInferred}"
      using r that(1) directory_source[OF lite, of pcCacheReadMicrosPerMTok]
      by (auto simp: cache_rate_spec_def split: option.splits)
    then have "gradeRank (weaker (Pricing_Grade p) (grade (pcCacheReadSource p))) \<le> gradeRank GradeIndexed"
      using weaker_not_measured[of "Pricing_Grade p" "grade (pcCacheReadSource p)"] by auto
    with s that(2) show ?thesis
      using weaker_not_measured[of "weaker (Pricing_Grade p) (grade (pcCacheReadSource p))" "grade (pcCacheWriteSource p)"]
      by (auto simp: GradeFor_def Let_def)
  qed
  with r w show ?thesis by (simp add: p_def Let_def)
qed

definition demo_row :: "string \<Rightarrow> string \<Rightarrow> ModelRow" where
  "demo_row pid i = \<lparr>mrProviderID = pid, mrModelID = i, mrPublisher = '''', mrSurfaces = [''llm''],
     mrCapabilities = \<lparr>mcTools = True, mcVision = False, mcReasoning = False\<rparr>, mrCapabilitiesSource = ''discovered'',
     mrContextWindow = 8000, mrMaxOutputTokens = 1000, mrInputMicrosPerMTok = 3000000, mrOutputMicrosPerMTok = 15000000,
     mrCacheReadMicrosPerMTok = 0, mrCacheWriteMicrosPerMTok = 3750000, mrCacheReadKnown = False, mrCacheWriteKnown = True,
     mrPriceKnown = True, mrPriceSource = ''discovered'', mrState = ''live''\<rparr>"

definition demo_index_price :: Pricing where
  "demo_index_price = zero_pricing\<lparr>pcInputMicrosPerMTok := 1, pcCacheReadMicrosPerMTok := 300000, pcKnown := True,
     pcSource := SourceLiteLLM\<rparr>"

theorem cache_rate_provenance_witness:
  "pcCacheReadMicrosPerMTok (merge_price (demo_row ''a'' ''m'') zero_preset None (Some demo_index_price)) = 300000 \<and>
   pcCacheWriteMicrosPerMTok (merge_price (demo_row ''a'' ''m'') zero_preset None (Some demo_index_price)) = 3750000 \<and>
   gradeRank (GradeFor (merge_price (demo_row ''a'' ''m'') zero_preset None (Some demo_index_price))
     \<lparr>tkInput = 1, tkOutput = 1, tkCacheRead = 5, tkCacheWrite = 0, tkCacheWrite5m = 0, tkCacheWrite1h = 0\<rparr>) \<le> 1"
proof -
  let ?t = "\<lparr>tkInput = 1, tkOutput = 1, tkCacheRead = 5, tkCacheWrite = 0, tkCacheWrite5m = 0, tkCacheWrite1h = 0\<rparr>"
  have h: "mrPriceKnown (demo_row ''a'' ''m'')" "mrInputMicrosPerMTok (demo_row ''a'' ''m'') \<noteq> 0"
    "\<not> mrCacheReadKnown (demo_row ''a'' ''m'')" "mrCacheWriteKnown (demo_row ''a'' ''m'')"
    "mrCacheReadMicrosPerMTok (demo_row ''a'' ''m'') = 0" "mrCacheWriteMicrosPerMTok (demo_row ''a'' ''m'') = 3750000"
    by (simp_all add: demo_row_def)
  have a: "Authoritative (priceSource (mrPriceSource (demo_row ''a'' ''m'')))" by code_simp
  have l: "\<forall>c. Some demo_index_price = Some c \<longrightarrow> pcSource c = SourceLiteLLM" by (simp add: demo_index_price_def)
  have q: "publisher_of pcCacheReadMicrosPerMTok [doc_price None, litellm_price (Some demo_index_price)] = Some demo_index_price"
    by (simp add: publisher_of_def doc_price_def litellm_price_def demo_index_price_def zero_pricing_def)
  have r: "pcCacheReadMicrosPerMTok demo_index_price = 300000" by (simp add: demo_index_price_def)
  from cache_rate_provenance[of "demo_row ''a'' ''m''" "Some demo_index_price" zero_preset None ?t] h a l
  show ?thesis by (simp add: Let_def cache_rate_spec_def q r)
qed

definition demo_source :: "string \<Rightarrow> Provider" where
  "demo_source pid = \<lparr>prID = pid, prKind = ''openai'', prBaseURL = '''', prPreset = '''', prAuthStyle = '''',
     prCredentials = [], prPriority = 0, prModels = [], prRegion = '''', prProject = '''', prLocation = '''',
     prFreeModelsOnly = False, prAllowUnsanctionedFree = False\<rparr>"

definition demo_merge_input :: "ModelRow list \<Rightarrow> MergeInput" where
  "demo_merge_input rows = \<lparr>miProviders = [demo_source ''a'', demo_source ''b''], miPresets = [], miDoc = [],
     miLiteLLM = [], miFree = [], miRows = rows, miOverrides = []\<rparr>"

theorem merged_catalog_exact_witness:
  "let rows = [demo_row ''b'' ''m'', demo_row ''gone'' ''m'', demo_row ''a'' ''n'']; inp = demo_merge_input rows in
   Lookup (NewSnapshot (Merge [] inp) [''a'']) ''gone'' ''m'' = None \<and>
   Lookup (NewSnapshot (Merge [] inp) [''a'']) ''a'' ''n'' = merge_row inp [] (demo_row ''a'' ''n'') \<and>
   merge_row inp [] (demo_row ''a'' ''n'') \<noteq> None \<and>
   Merge [] (inp\<lparr>miRows := rev rows\<rparr>) = Merge [] inp"
proof -
  let ?rows = "[demo_row ''b'' ''m'', demo_row ''gone'' ''m'', demo_row ''a'' ''n'']"
  let ?inp = "demo_merge_input ?rows"
  have k: "row_key (demo_row p i) = (p, i)" for p i by (simp add: row_key_def demo_row_def)
  have rows: "miRows ?inp = ?rows" "miFree ?inp = []" by (simp_all add: demo_merge_input_def)
  have d: "distinct (map row_key (miRows ?inp))" by (simp add: rows k)
  have perm: "mset (rev ?rows) = mset (miRows ?inp)" by (simp add: rows)
  note e = merged_catalog_exact[OF d perm, of "[]" "[''a'']", unfolded rows, simplified k]
  have g: "merge_row ?inp [] (demo_row ''gone'' ''m'') = None"
    and n: "merge_row ?inp [] (demo_row ''a'' ''n'') \<noteq> None"
    unfolding merge_row_None
    by (simp_all add: demo_merge_input_def provider_index_def demo_source_def demo_row_def)
  show ?thesis using e[of "''gone''" "''m''"] e[of "''a''" "''n''"] g n by (simp add: Let_def k)
qed

end
