(* ===== verification/Count.thy ===== *)
theory Count
  imports Loop
begin

text \<open>
  Token counting, \<^verbatim>\<open>internal/exec/count.go\<close>: one native call to the first admitted candidate that speaks the inbound
  counting dialect, or a local estimate. The adapter's count builder and parser, the transport and the tokenizer are
  read from the observation; the breaker is shared with the attempt loop and used by the same rules.
\<close>

section \<open>The native call\<close>

record count_obs =
  coClock :: att_clock
  coReplay :: "go_error option"
  coAuth :: "go_error option"
  coResp :: "Response option"
  coDoErr :: "go_error option"
  coCtx :: ctx_view
  coParsed :: "go_error + int"
  coOps :: "op list"

definition count_target :: "(string \<Rightarrow> string \<Rightarrow> Model option) \<Rightarrow> Provider \<Rightarrow> Candidate \<Rightarrow> string \<Rightarrow> string \<Rightarrow> Target" where
  "count_target cat p c baseURL apiKey =
     \<lparr>taBaseURL = baseURL, taAPIKey = apiKey, taModel = cdModel c, taInfo = modelInfo cat (cdProviderID c) (cdModel c),
      taPreset = '''', taRerankPath = '''', taRegion = prRegion p, taProject = prProject p, taLocation = prLocation p,
      taPublisher = cdPublisher c\<rparr>"

text \<open>How the call ends: the outcome for the breaker, the response it read, and the count.\<close>

definition count_call ::
    "exec_env \<Rightarrow> ('z) adapter_ops_scheme \<Rightarrow> (Target \<Rightarrow> go_error option) \<Rightarrow> Provider \<Rightarrow> (string \<Rightarrow> string \<Rightarrow> Model option)
       \<Rightarrow> Candidate \<Rightarrow> count_obs \<Rightarrow> Outcome \<times> Response option \<times> int option" where
  "count_call env ad build p cat c ob =
     (case credentialFor (exPresets env) (exAuthFor env) p c of
        Inl err \<Rightarrow> (OutcomeRetryableCredential, None, None)
      | Inr plan \<Rightarrow>
          (case ResolveBaseURL (prBaseURL p) (accountOf p (cdKeyID c)) of
             Inl urlErr \<Rightarrow> (OutcomeRetryableCredential, None, None)
           | Inr baseURL \<Rightarrow>
               if build (count_target cat p c baseURL (case plan of AdapterWrites k \<Rightarrow> k | _ \<Rightarrow> '''')) \<noteq> None
               then (OutcomeFatal, None, None)
               else if coReplay ob \<noteq> None then (OutcomeFatal, None, None)
               else if (case plan of AdapterWrites k \<Rightarrow> False | _ \<Rightarrow> coAuth ob \<noteq> None) then (OutcomeRetryableCredential, None, None)
               else
                 let oc = classify (adapter_ops.truncate ad) (coCtx ob) (coResp ob) (coDoErr ob) in
                 if oc \<noteq> OutcomeSuccess then (oc, coResp ob, None)
                 else (case coParsed ob of
                         Inl err \<Rightarrow> (OutcomeRetryableProvider, coResp ob, None)
                       | Inr tokens \<Rightarrow> (oc, coResp ob, Some tokens))))"

definition countOnce ::
    "exec_env \<Rightarrow> ('z) adapter_ops_scheme \<Rightarrow> (Target \<Rightarrow> go_error option) \<Rightarrow> Provider \<Rightarrow> (string \<Rightarrow> string \<Rightarrow> Model option)
       \<Rightarrow> count_obs \<Rightarrow> xstate \<Rightarrow> xstate \<times> int option" where
  "countOnce env ad build p cat ob xs =
     (case count_call env ad build p cat (xCand xs) ob of (oc, resp, tokens) \<Rightarrow>
        (recordHealthFor env (coClock ob) oc resp (others (coOps ob) xs), tokens))"

text \<open>What the search for a candidate is given once.\<close>

record count_env =
  ceEnv :: exec_env
  ceKind :: string
  ceAdapters :: "(string, adapter_full) gomap"
  ceCounters :: "(string, Target \<Rightarrow> Request \<Rightarrow> go_error option) gomap"
  ceByID :: "(string, Provider) gomap"
  ceCatalog :: "string \<Rightarrow> string \<Rightarrow> Model option"

text \<open>\<open>av n\<close> is what others did before the breaker was asked about candidate \<open>n\<close>, and the two instants it was asked at.\<close>

fun nativeCount ::
    "count_env \<Rightarrow> Request \<Rightarrow> (nat \<Rightarrow> op list \<times> time \<times> time) \<Rightarrow> count_obs \<Rightarrow> nat \<Rightarrow> Candidate list \<Rightarrow> xstate \<Rightarrow> xstate \<times> int option" where
  "nativeCount ce req av ob n [] xs = (xs, None)"
| "nativeCount ce req av ob n (c # cs) xs =
     (if cdKind c \<noteq> ceKind ce then nativeCount ce req av ob (Suc n) cs xs
      else case (map_of (ceAdapters ce) (cdKind c), map_of (ceCounters ce) (cdKind c)) of
        (Some ad, Some build) \<Rightarrow>
          (case av n of (ops, t1, t2) \<Rightarrow>
             let xs0 = others ops xs in
             (case (if exFleet (ceEnv ce) then Available (xBreaker xs0) t1 t2 (cand_key c) else (True, xBreaker xs0)) of (ok, b) \<Rightarrow>
                let xs1 = xs0\<lparr>xBreaker := b\<rparr> in
                if \<not> ok then nativeCount ce req av ob (Suc n) cs xs1
                else countOnce (ceEnv ce) ad (\<lambda>t. build t req)
                  (case map_of (ceByID ce) (cdProviderID c) of Some p \<Rightarrow> p | None \<Rightarrow> zero_provider)
                  (ceCatalog ce) ob (xs1\<lparr>xCand := c\<rparr>)))
      | _ \<Rightarrow> nativeCount ce req av ob (Suc n) cs xs)"

section \<open>The endpoint\<close>

text \<open>The final state with the row as it is emitted, and the count written to the client if one was.\<close>

definition count_model :: "Request \<Rightarrow> Candidate list \<Rightarrow> string" where
  "count_model req cands = (case cands of [] \<Rightarrow> reqModel req | c # _ \<Rightarrow> cdModel c)"

definition answer_count :: "int \<Rightarrow> xstate \<Rightarrow> xstate" where
  "answer_count tokens xs = upd_rec (\<lambda>r. r\<lparr>rrStatus := ''success'', rrTokensIn := tokens\<rparr>) xs"

definition estimate_count ::
    "(Request \<Rightarrow> string \<Rightarrow> int option) \<Rightarrow> string \<Rightarrow> Request \<Rightarrow> string \<Rightarrow> xstate \<Rightarrow> xstate \<times> int option" where
  "estimate_count estimate dialect req model xs =
     (let xs1 = set_header ''X-Darkrouter-Estimated'' ''true'' xs in
      case estimate req model of
        None \<Rightarrow> (upd_rec (\<lambda>r. r\<lparr>rrStatus := ''cancelled''\<rparr>) xs1, None)
      | Some tokens \<Rightarrow>
          (upd_rec (\<lambda>r. r\<lparr>rrWarnings := [''count -> '' @ dialect @ '': estimated locally'']\<rparr>) (answer_count tokens xs1), Some tokens))"

definition HandleCount ::
    "request_env \<Rightarrow> string \<Rightarrow> string \<Rightarrow> string \<Rightarrow> string \<Rightarrow> (string, Target \<Rightarrow> Request \<Rightarrow> go_error option) gomap \<Rightarrow> go_error + Request
       \<Rightarrow> (nat \<Rightarrow> op list \<times> time \<times> time) \<Rightarrow> count_obs \<Rightarrow> (Request \<Rightarrow> string \<Rightarrow> int option) \<Rightarrow> int
       \<Rightarrow> (string \<Rightarrow> string \<Rightarrow> Model option) option \<Rightarrow> Breaker \<Rightarrow> xstate \<times> int option" where
  "HandleCount re dialect nativeKind source rid counters parsed av ob estimate totalMs snap b =
     (let xs0 = set_header ''X-Darkrouter-Request'' rid (fresh_state b (newRecord rid (reStart re) dialect SurfaceLLM source));
          (xs1, ans) = (case parsed of
              Inl err \<Rightarrow> (write_plain_error (mk_error ErrInvalidRequest (geText err)) xs0, None)
            | Inr req \<Rightarrow>
                (case resolve re (chat_Query req) xs0 of
                   (xs, None) \<Rightarrow> (xs, None)
                 | (xs, Some (cands, rsnap)) \<Rightarrow>
                     (case nativeCount \<lparr>ceEnv = reEnv re, ceKind = nativeKind, ceAdapters = reAdapters re, ceCounters = counters,
                              ceByID = byID (rsProviders rsnap), ceCatalog = rsLookup rsnap\<rparr> req av ob 0 cands xs of
                        (xs2, Some tokens) \<Rightarrow> (answer_count tokens xs2, Some tokens)
                      | (xs2, None) \<Rightarrow> estimate_count estimate dialect req (count_model req cands) xs2)))
      in (upd_rec (close_record totalMs snap) xs1, ans))"

section \<open>The breaker's side\<close>

text \<open>What the search leaves behind: at most one signal, for a candidate of the counting kind, and no claim of its own.\<close>

definition count_done :: "count_env \<Rightarrow> Key set \<Rightarrow> Candidate list \<Rightarrow> xstate \<Rightarrow> xstate \<Rightarrow> bool" where
  "count_done ce K cands xs xs' \<longleftrightarrow>
     xErrors xs' = xErrors xs \<and> xRec xs' = xRec xs \<and> xHeader xs' = xHeader xs \<and>
     (xSignals xs' = xSignals xs \<or>
      (\<exists>c s. c \<in> set cands \<and> cdKind c = ceKind ce \<and> xSignals xs' = xSignals xs @ [(cand_key c, s)])) \<and>
     claims (xBreaker xs') \<subseteq> claims (xBreaker xs) \<union> K"

definition count_keys :: "(nat \<Rightarrow> op list \<times> time \<times> time) \<Rightarrow> count_obs \<Rightarrow> Key set" where
  "count_keys av ob = (\<Union>n. ops_claims (fst (av n))) \<union> ops_claims (coOps ob)"

lemma countOnce_done:
  assumes "exHealth env" "countOnce env ad build p cat ob xs = (xs', ans)"
  shows "xErrors xs' = xErrors xs \<and> xRec xs' = xRec xs \<and> xHeader xs' = xHeader xs \<and>
    (\<exists>s. xSignals xs' = xSignals xs @ [(cand_key (xCand xs), s)]) \<and>
    claims (xBreaker xs') \<subseteq> (claims (xBreaker xs) - {cand_key (xCand xs), cred_key (cand_key (xCand xs))}) \<union> ops_claims (coOps ob)"
proof -
  obtain oc resp t where "count_call env ad build p cat (xCand xs) ob = (oc, resp, t)" by (metis prod_cases3)
  with assms have "xs' = recordHealthFor env (coClock ob) oc resp (others (coOps ob) xs)" by (simp add: countOnce_def)
  with assms(1) claims_others[of "coOps ob" xs] show ?thesis by (auto simp: recordHealthFor_def Let_def claims_Record)
qed

lemma count_done_skip:
  assumes "count_done ce K cs (xs\<lparr>xBreaker := b\<rparr>) xs'" "claims b \<subseteq> claims (xBreaker xs) \<union> K"
  shows "count_done ce K (c # cs) xs xs'"
  using assms by (auto simp: count_done_def)

lemma nativeCount_done:
  assumes "exHealth (ceEnv ce)" "nativeCount ce req av ob n cs xs = (xs', ans)"
  shows "count_done ce (count_keys av ob) cs xs xs'"
  using assms(2)
proof (induction cs arbitrary: n xs)
  case Nil
  then show ?case by (simp add: count_done_def)
next
  case (Cons c cs)
  obtain ops t1 t2 where av: "av n = (ops, t1, t2)" by (metis prod_cases3)
  define xs0 where "xs0 = others ops xs"
  obtain ok b where ok: "(if exFleet (ceEnv ce) then Available (xBreaker xs0) t1 t2 (cand_key c) else (True, xBreaker xs0)) = (ok, b)"
    by fastforce
  have "ops = fst (av n)" by (simp add: av)
  then have K: "ops_claims ops \<subseteq> count_keys av ob" by (auto simp: count_keys_def)
  have cb: "claims b \<subseteq> claims (xBreaker xs) \<union> count_keys av ob \<union> (if ok then {cand_key c, cred_key (cand_key c)} else {})"
    using ok claims_others[of ops xs] K brk.refuse_held[of "xBreaker xs0" t1 t2 "cand_key c" b]
      brk.admit_held[of "xBreaker xs0" t1 t2 "cand_key c" b]
    by (auto simp: xs0_def split: if_splits)
  consider (other) "nativeCount ce req av ob (Suc n) cs xs = (xs', ans)"
    | (refused) "\<not> ok" "nativeCount ce req av ob (Suc n) cs (xs0\<lparr>xBreaker := b\<rparr>) = (xs', ans)"
    | (called) ad :: adapter_full and build p where "cdKind c = ceKind ce" "ok"
      "countOnce (ceEnv ce) ad build p (ceCatalog ce) ob (xs0\<lparr>xBreaker := b, xCand := c\<rparr>) = (xs', ans)"
    using Cons.prems av ok by (auto simp: Let_def simp flip: xs0_def split: if_splits option.splits)
  then show ?case
  proof cases
    case other
    then show ?thesis using Cons.IH count_done_skip[where b = "xBreaker xs" and xs = xs] by simp
  next
    case refused
    have "xs0\<lparr>xBreaker := b\<rparr> = xs\<lparr>xBreaker := b\<rparr>" by (simp add: xs0_def others_def)
    with refused(2) have "count_done ce (count_keys av ob) cs (xs\<lparr>xBreaker := b\<rparr>) xs'" using Cons.IH by metis
    then show ?thesis by (rule count_done_skip) (use cb refused(1) in simp)
  next
    case called
    from countOnce_done[OF assms(1) called(3)] called(1,2) cb show ?thesis by (auto simp: count_done_def xs0_def count_keys_def)
  qed
qed

section \<open>Properties\<close>

text \<open>How a counting request ends: with a count, with one error, or with nothing for a client that went away.\<close>

definition count_answered :: "xstate \<times> int option \<Rightarrow> bool" where
  "count_answered r = (case r of (xs, ans) \<Rightarrow>
     (case ans of
        Some tokens \<Rightarrow> xErrors xs = [] \<and> rrStatus (xRec xs) = ''success''
      | None \<Rightarrow> (\<exists>e. xErrors xs = [e] \<and> rrStatus (xRec xs) = ''error'' \<and> rrErrorCode (xRec xs) = ErrorType_string (errType e)) \<or>
                xErrors xs = [] \<and> rrStatus (xRec xs) = ''cancelled''))"

lemma set_header_frames [simp]:
  "xErrors (set_header k v xs) = xErrors xs" "xRec (set_header k v xs) = xRec xs" "xSignals (set_header k v xs) = xSignals xs"
  "xBreaker (set_header k v xs) = xBreaker xs"
  by (simp_all add: set_header_def)

lemma resolve_frame:
  assumes "resolve re q xs = (xs', r)" "xErrors xs = []" "rrStatus (xRec xs) = ''error''"
  shows "xSignals xs' = xSignals xs \<and> xBreaker xs' = xBreaker xs \<and> rrStatus (xRec xs') = ''error'' \<and>
    (case r of None \<Rightarrow> (\<exists>e. xErrors xs' = [e] \<and> rrErrorCode (xRec xs') = ErrorType_string (errType e)) | Some _ \<Rightarrow> xErrors xs' = [])"
  using assms by (auto simp: resolve_def write_plain_error_def upd_rec_def Let_def split: sum.splits prod.splits option.splits)

lemma estimate_frame:
  assumes "estimate_count est dialect req model xs = (xs', ans)" "xErrors xs = []"
  shows "count_answered (xs', ans) \<and> xSignals xs' = xSignals xs \<and> xBreaker xs' = xBreaker xs"
  using assms by (auto simp: estimate_count_def answer_count_def count_answered_def upd_rec_def Let_def split: option.splits)

lemma close_answered: "count_answered (upd_rec (close_record t snap) xs, ans) = count_answered (xs, ans)"
  by (auto simp: count_answered_def upd_rec_def split: option.splits)

text \<open>A counting request keeps the discipline of an attempt. It tells the breaker about at most one candidate, one
  of the counting dialect; every half-open claim standing afterwards stood before it or was taken by another request
  meanwhile; and it is answered once, with a count (native, or estimated when the native call failed), with one error,
  or, for a client that went away, not at all.\<close>

theorem count_disciplined:
  assumes "exHealth (reEnv re)"
    and h: "HandleCount re dialect nativeKind source rid counters parsed av ob estimate totalMs snap b = (xs, ans)"
  shows "count_answered (xs, ans) \<and> claims (xBreaker xs) \<subseteq> claims b \<union> count_keys av ob \<and>
    (xSignals xs = [] \<or> (\<exists>c s. cdKind c = nativeKind \<and> xSignals xs = [(cand_key c, s)]))"
proof -
  let ?xs0 = "set_header ''X-Darkrouter-Request'' rid (fresh_state b (newRecord rid (reStart re) dialect SurfaceLLM source))"
  have f: "xErrors ?xs0 = []" "rrStatus (xRec ?xs0) = ''error''" "xSignals ?xs0 = []" "xBreaker ?xs0 = b"
    by (simp_all add: fresh_state_def newRecord_def)
  show ?thesis
  proof (cases parsed)
    case (Inl err)
    with h f show ?thesis
      by (auto simp: HandleCount_def count_answered_def write_plain_error_def upd_rec_def Let_def)
  next
    case (Inr req)
    obtain x1 r where rs: "resolve re (chat_Query req) ?xs0 = (x1, r)" by fastforce
    note rf = resolve_frame[OF rs f(1,2)]
    show ?thesis
    proof (cases r)
      case None
      with h Inr rs rf f show ?thesis
        by (auto simp: HandleCount_def close_answered) (auto simp: count_answered_def upd_rec_def)
    next
      case (Some cs)
      obtain cands rsnap where cs: "cs = (cands, rsnap)" by (cases cs)
      let ?ce = "\<lparr>ceEnv = reEnv re, ceKind = nativeKind, ceAdapters = reAdapters re, ceCounters = counters,
        ceByID = byID (rsProviders rsnap), ceCatalog = rsLookup rsnap\<rparr>"
      obtain x2 t where nc: "nativeCount ?ce req av ob 0 cands x1 = (x2, t)" by fastforce
      have d: "count_done ?ce (count_keys av ob) cands x1 x2" by (rule nativeCount_done[OF _ nc]) (simp add: assms(1))
      obtain x3 where x3: "xs = upd_rec (close_record totalMs snap) x3" "(case t of Some tokens \<Rightarrow> (answer_count tokens x2, Some tokens)
          | None \<Rightarrow> estimate_count estimate dialect req (count_model req cands) x2) = (x3, ans)"
        using h Inr rs Some cs nc by (auto simp: HandleCount_def split: option.splits prod.splits)
      have "xErrors x2 = []" using d rf Some by (simp add: count_done_def)
      then have "count_answered (x3, ans) \<and> xSignals x3 = xSignals x2 \<and> xBreaker x3 = xBreaker x2"
        using x3(2) estimate_frame[of estimate dialect req "count_model req cands" x2 x3 ans]
        by (auto simp: answer_count_def count_answered_def upd_rec_def split: option.splits)
      then show ?thesis using d rf f x3(1) by (auto simp: count_done_def close_answered) (auto simp: upd_rec_def)
    qed
  qed
qed

definition demo_gone :: ctx_view where
  "demo_gone = \<lparr>ctxTimeout = False, ctxDone = True, ctxCanceled = True, ctxShutdown = False\<rparr>"

definition demo_count_obs :: "ctx_view \<Rightarrow> count_obs" where
  "demo_count_obs cx = \<lparr>coClock = \<lparr>akRetryAfter = 220, akRecord = 220, akServed = 215, akLatency = 10, akFullLatency = 20\<rparr>,
     coReplay = None, coAuth = Some (plain_error ''context canceled''), coResp = Some \<lparr>StatusCode = 200, RetryAfterHeader = ''''\<rparr>,
     coDoErr = None, coCtx = cx, coParsed = Inr 42, coOps = []\<rparr>"

definition demo_count_request :: Request where
  "demo_count_request = \<lparr>reqModel = ''gpt-4o'', reqSystem = [], reqMessages = [], reqTools = [], reqToolChoice = None,
     reqParallelToolCalls = None, reqMaxTokens = None, reqTemperature = None, reqTopP = None, reqTopK = None, reqStopSequences = [], reqStream = False,
     reqReasoning = None, reqResponseFormat = None, reqSafety = [], reqMetadata = [], reqExtra = [], reqWarnings = []\<rparr>"

theorem count_disciplined_witness:
  "let r = HandleCount demo_request_env ''anthropic'' ''openaicompat'' ''proxy'' ''r1'' [(''openaicompat'', \<lambda>_ _. None)]
       (Inr demo_count_request) (\<lambda>_. ([], 200, 200)) (demo_count_obs demo_ctx) (\<lambda>_ _. Some 7) 20 None demo_tripped in
   count_answered r \<and> claims (xBreaker (fst r)) = {}"
proof -
  let ?r = "HandleCount demo_request_env ''anthropic'' ''openaicompat'' ''proxy'' ''r1'' [(''openaicompat'', \<lambda>_ _. None)]
       (Inr demo_count_request) (\<lambda>_. ([], 200, 200)) (demo_count_obs demo_ctx) (\<lambda>_ _. Some 7) 20 None demo_tripped"
  have h: "exHealth (reEnv demo_request_env)" by (simp add: demo_request_env_def demo_exec_env_def)
  have k: "count_keys (\<lambda>_. ([], 200, 200)) (demo_count_obs demo_ctx) = {}"
    by (simp add: count_keys_def ops_claims_def demo_count_obs_def)
  have c: "claims demo_tripped = {}" by (auto simp: claims_def demo_tripped_bm split: if_splits)
  have "?r = (fst ?r, snd ?r)" by simp
  from count_disciplined[OF h this] k c show ?thesis by (simp add: Let_def)
qed

section \<open>Where counting departs from the attempt's discipline\<close>

text \<open>A request that could not be rendered, and so was never sent, is reported as fatal, which to the breaker proves that
  the provider answered: a cooling model's ladder is reset by it. The attempt reports such a refusal as a
  cancellation for just that reason.\<close>

definition demo_cooling :: xstate where
  "demo_cooling = demo_attempt_state\<lparr>xCand := \<lparr>cdProviderID = ''openai'', cdKeyID = ''k1'', cdModel = ''gpt-4o'',
     cdKind = ''openaicompat'', cdPublisher = '''', cdInferred = False\<rparr>\<rparr>"

definition refused_count :: xstate where
  "refused_count = fst (countOnce demo_exec_env demo_adapter (\<lambda>_. Some (plain_error ''no such block'')) demo_provider
     (Lookup demo_index) (demo_count_obs demo_ctx) demo_cooling)"

lemma demo_count_credential:
  "case credentialFor [] None demo_provider (xCand demo_cooling) of Inr (AdapterWrites k) \<Rightarrow> True | _ \<Rightarrow> False"
  "case credentialFor [] None (demo_provider\<lparr>prAuthStyle := ''x-api-key''\<rparr>) (xCand demo_cooling) of
     Inr (StaticAuthorizer s h k) \<Rightarrow> True | _ \<Rightarrow> False"
  "ResolveBaseURL [] (accountOf demo_provider ''k1'') = Inr []"
  "ResolveBaseURL [] (accountOf (demo_provider\<lparr>prAuthStyle := ''x-api-key''\<rparr>) ''k1'') = Inr []"
  by code_simp+

lemma demo_cooling_simps:
  "exPresets demo_exec_env = []" "exAuthFor demo_exec_env = None" "exHealth demo_exec_env"
  "prBaseURL demo_provider = []" "cdKeyID (xCand demo_cooling) = ''k1''" "cand_key (xCand demo_cooling) = demo_key"
  "xBreaker demo_cooling = demo_tripped" "xSignals demo_cooling = []"
  by (simp_all add: demo_exec_env_def demo_provider_def demo_cooling_def demo_attempt_state_def cand_key_def demo_key_def)

lemma refused_count_resets_ladder:
  "map_option backoffLevel (map_of (bm (xBreaker demo_cooling)) demo_key) = Some 1 \<and>
   map_option backoffLevel (map_of (bm (xBreaker refused_count)) demo_key) \<in> {None, Some 0}"
proof
  have "count_call demo_exec_env demo_adapter (\<lambda>_. Some (plain_error ''no such block'')) demo_provider (Lookup demo_index)
      (xCand demo_cooling) (demo_count_obs demo_ctx) = (OutcomeFatal, None, None)"
    using demo_count_credential(1,3)
    by (auto simp: count_call_def demo_cooling_simps split: sum.splits credential_plan.splits)
  then have "xBreaker refused_count = Record demo_tripped 220 demo_key
      (signal_of demo_exec_env (coClock (demo_count_obs demo_ctx)) OutcomeFatal None)"
    by (simp add: refused_count_def countOnce_def recordHealthFor_def demo_cooling_simps others_def Let_def)
       (simp add: demo_count_obs_def)
  moreover have "map_option backoffLevel (map_of (bm (Record demo_tripped 220 demo_key
      (signal_of demo_exec_env (coClock (demo_count_obs demo_ctx)) OutcomeFatal None))) demo_key) \<in> {None, Some 0}"
    by (simp add: Record_def signal_of_def reset_map releaseProbe_map Let_def)
  ultimately show "map_option backoffLevel (map_of (bm (xBreaker refused_count)) demo_key) \<in> {None, Some 0}" by simp
qed (simp add: demo_cooling_simps demo_tripped_bm)

text \<open>A client that hangs up while the credential is being produced, or while the count is being read, is reported as
  the credential's failure or the provider's; the attempt reports neither.\<close>

definition hung_up :: "go_error option \<Rightarrow> xstate" where
  "hung_up auth = fst (countOnce demo_exec_env demo_adapter (\<lambda>_. None) (demo_provider\<lparr>prAuthStyle := ''x-api-key''\<rparr>)
     (Lookup demo_index) ((demo_count_obs demo_gone)\<lparr>coAuth := auth, coParsed := Inl (plain_error ''context canceled'')\<rparr>) demo_cooling)"

lemma count_blames_hang_up:
  "stoppedWaiting demo_gone = Some OutcomeClientCancelled \<and>
   readOutcome demo_gone (plain_error ''context canceled'') = OutcomeClientCancelled \<and>
   map (\<lambda>(k, s). sgOutcome s) (xSignals (hung_up (Some (plain_error ''context canceled'')))) = [OutcomeRetryableCredential] \<and>
   map (\<lambda>(k, s). sgOutcome s) (xSignals (hung_up None)) = [OutcomeRetryableProvider]"
  using demo_count_credential(2,4)
  by (auto simp: hung_up_def countOnce_def count_call_def recordHealthFor_def demo_cooling_simps others_def Let_def demo_count_obs_def
      stoppedWaiting_def readOutcome_def demo_gone_def plain_error_def classify_def demo_adapter_def adapter_ops.defs ClassifyStatus_def
      signal_of_def split: sum.splits credential_plan.splits option.splits)

end
