(* ===== verification/Log_Writer.thy ===== *)
theory Log_Writer
  imports Records "HOL-Library.Word" "HOL-Library.Sublist"
begin

text \<open>
  The request log, \<^verbatim>\<open>internal/store/log.go\<close>: the channel a finished request's record is handed to without waiting, the
  batching loop behind it, and the transaction that writes a batch.

  The three tables are lists of rows with the keys of the schema: inserting a row whose key is there is refused, which
  undoes that statement alone. What else the database may do to a transaction is an argument (\<open>tx_plan\<close>): refuse to
  begin, to prepare, to commit, or refuse a statement. \<open>marshal\<close> is \<^verbatim>\<open>json.Marshal\<close>, \<open>None\<close> where it fails; a nil slice
  and an empty one are one list, which is what \<^verbatim>\<open>nonNil\<close> makes of them. The counters are 64-bit words and wrap.
\<close>

section \<open>Records and rows\<close>

record LogRecord = RequestRecord +
  rrRequestBody :: string
  rrResponseBody :: string
  rrBodiesExpireAt :: time
  rrSurfaceMeta :: "(string \<times> json) list option"
  rrResponseBytes :: int
  rrResponseContentType :: string

text \<open>\<^verbatim>\<open>time.Time.UnixMilli\<close>: whole milliseconds since 1970, rounded down.\<close>

definition unix_zero :: time where
  "unix_zero = 62135596800000000000"

definition UnixMilli :: "time \<Rightarrow> int" where
  "UnixMilli t = (t - unix_zero) div 1000000"

record request_row =
  rqID :: string
  rqTS :: int
  rqDialect :: string
  rqSurface :: string
  rqRequestedModel :: string
  rqResolvedAlias :: string
  rqCandidatesJSON :: string
  rqFinalProviderID :: string
  rqFinalModel :: string
  rqStatus :: string
  rqTokensIn :: int
  rqTokensOut :: int
  rqCacheReadTokens :: int
  rqCacheWriteTokens :: int
  rqReasoningTokens :: int
  rqCostMicros :: "int option"
  rqTTFTMs :: "int option"
  rqTotalMs :: "int option"
  rqErrorCode :: string
  rqWarningsJSON :: string
  rqSurfaceMetaJSON :: string
  rqResponseBytes :: int
  rqResponseContentType :: string
  rqSource :: string
  rqPriceGrade :: "Grade option"

record attempt_row =
  atRequestID :: string
  atSeq :: nat
  atProviderID :: string
  atKeyID :: string
  atModel :: string
  atOutcome :: string
  atStatusCode :: int
  atLatencyMs :: int
  atError :: string
  atPath :: string
  atTokensIn :: int
  atTokensOut :: int
  atCostMicros :: "int option"
  atPriceGrade :: "Grade option"

record body_row =
  boRequestID :: string
  boRequestJSON :: string
  boResponseJSON :: string
  boExpiresAt :: int

record log_db =
  dbRequests :: "request_row list"
  dbAttempts :: "attempt_row list"
  dbBodies :: "body_row list"

definition sourceOf :: "('a RequestRecord_scheme) \<Rightarrow> string" where
  "sourceOf r = (if rrSource r = '''' then ''proxy'' else rrSource r)"

definition request_row_of :: "LogRecord \<Rightarrow> string \<Rightarrow> string \<Rightarrow> string \<Rightarrow> request_row" where
  "request_row_of r trace warnings meta =
     \<lparr>rqID = rrID r, rqTS = UnixMilli (rrTS r), rqDialect = rrDialect r, rqSurface = rrSurface r,
      rqRequestedModel = rrRequestedModel r, rqResolvedAlias = rrResolvedAlias r, rqCandidatesJSON = trace,
      rqFinalProviderID = rrFinalProviderID r, rqFinalModel = rrFinalModel r, rqStatus = rrStatus r,
      rqTokensIn = rrTokensIn r, rqTokensOut = rrTokensOut r, rqCacheReadTokens = rrCacheReadTokens r,
      rqCacheWriteTokens = rrCacheWriteTokens r, rqReasoningTokens = rrReasoningTokens r,
      rqCostMicros = rrCostMicros r, rqTTFTMs = rrTTFTMs r, rqTotalMs = rrTotalMs r, rqErrorCode = rrErrorCode r,
      rqWarningsJSON = warnings, rqSurfaceMetaJSON = meta, rqResponseBytes = rrResponseBytes r,
      rqResponseContentType = rrResponseContentType r, rqSource = sourceOf r, rqPriceGrade = rrPriceGrade r\<rparr>"

definition attempt_row_of :: "string \<Rightarrow> AttemptRecord \<Rightarrow> attempt_row" where
  "attempt_row_of rid a =
     \<lparr>atRequestID = rid, atSeq = arSeq a, atProviderID = arProviderID a, atKeyID = arKeyID a, atModel = arModel a,
      atOutcome = arOutcome a, atStatusCode = arStatusCode a, atLatencyMs = arLatencyMs a, atError = arError a,
      atPath = (if arPath a = '''' then ''ir'' else arPath a), atTokensIn = arTokensIn a, atTokensOut = arTokensOut a,
      atCostMicros = arCostMicros a, atPriceGrade = arPriceGrade a\<rparr>"

definition body_row_of :: "LogRecord \<Rightarrow> body_row" where
  "body_row_of r = \<lparr>boRequestID = rrID r, boRequestJSON = rrRequestBody r, boResponseJSON = rrResponseBody r,
      boExpiresAt = UnixMilli (rrBodiesExpireAt r)\<rparr>"

definition bodies_of :: "LogRecord \<Rightarrow> body_row list" where
  "bodies_of r = (if rrRequestBody r \<noteq> '''' \<or> rrResponseBody r \<noteq> '''' then [body_row_of r] else [])"

section \<open>One record\<close>

datatype stmt = ReqStmt request_row | AttStmt attempt_row | BodyStmt body_row

text \<open>A prepared statement executed: \<open>None\<close> when its key is taken, the statement being undone.\<close>

definition exec_stmt :: "(stmt \<Rightarrow> bool) \<Rightarrow> stmt \<Rightarrow> log_db \<Rightarrow> log_db option" where
  "exec_stmt refuses s db =
     (if refuses s then None else
      case s of
        ReqStmt r \<Rightarrow> if rqID r \<in> rqID ` set (dbRequests db) then None else Some (db\<lparr>dbRequests := dbRequests db @ [r]\<rparr>)
      | AttStmt a \<Rightarrow>
          if (atRequestID a, atSeq a) \<in> (\<lambda>x. (atRequestID x, atSeq x)) ` set (dbAttempts db) then None
          else Some (db\<lparr>dbAttempts := dbAttempts db @ [a]\<rparr>)
      | BodyStmt b \<Rightarrow>
          if boRequestID b \<in> boRequestID ` set (dbBodies db) then None else Some (db\<lparr>dbBodies := dbBodies db @ [b]\<rparr>))"

text \<open>Statements in order up to the first that fails; what the earlier ones wrote stays in the transaction.\<close>

fun exec_stmts :: "(stmt \<Rightarrow> bool) \<Rightarrow> stmt list \<Rightarrow> log_db \<Rightarrow> log_db \<times> bool" where
  "exec_stmts refuses [] db = (db, True)"
| "exec_stmts refuses (s # ss) db =
     (case exec_stmt refuses s db of None \<Rightarrow> (db, False) | Some db1 \<Rightarrow> exec_stmts refuses ss db1)"

definition trace_json :: "LogRecord \<Rightarrow> json" where
  "trace_json r = JObj [(''candidates'', JArr (map JStr (rrCandidates r))), (''skips'', JArr (map JStr (rrSkips r)))]"

definition stmts_of :: "(json \<Rightarrow> string option) \<Rightarrow> LogRecord \<Rightarrow> stmt list option" where
  "stmts_of marshal r =
     (case marshal (trace_json r) of
        None \<Rightarrow> None
      | Some trace \<Rightarrow>
          (case marshal (JArr (map JStr (rrWarnings r))) of
             None \<Rightarrow> None
           | Some warnings \<Rightarrow>
               (case marshal (JObj (case rrSurfaceMeta r of None \<Rightarrow> [] | Some m \<Rightarrow> m)) of
                  None \<Rightarrow> None
                | Some meta \<Rightarrow>
                    Some (ReqStmt (request_row_of r trace warnings meta)
                      # map AttStmt (map (attempt_row_of (rrID r)) (rrAttempts r)) @ map BodyStmt (bodies_of r)))))"

definition insertOne ::
    "(json \<Rightarrow> string option) \<Rightarrow> (stmt \<Rightarrow> bool) \<Rightarrow> LogRecord \<Rightarrow> log_db \<Rightarrow> log_db \<times> bool" where
  "insertOne marshal refuses r db =
     (case stmts_of marshal r of None \<Rightarrow> (db, False) | Some ss \<Rightarrow> exec_stmts refuses ss db)"

section \<open>One batch\<close>

record tx_plan =
  txBegins :: bool
  txPrepares :: bool
  txRefuses :: "stmt \<Rightarrow> bool"
  txCommits :: bool

fun insert_all ::
    "(json \<Rightarrow> string option) \<Rightarrow> (stmt \<Rightarrow> bool) \<Rightarrow> LogRecord list \<Rightarrow> log_db \<Rightarrow> nat \<Rightarrow> log_db \<times> nat" where
  "insert_all marshal refuses [] db written = (db, written)"
| "insert_all marshal refuses (r # rs) db written =
     (let (db1, ok) = insertOne marshal refuses r db
      in insert_all marshal refuses rs db1 (if ok then written + 1 else written))"

text \<open>\<open>None\<close> is the error; a transaction that does not commit leaves the tables as they were.\<close>

definition WriteBatch ::
    "(json \<Rightarrow> string option) \<Rightarrow> tx_plan \<Rightarrow> LogRecord list \<Rightarrow> log_db \<Rightarrow> log_db \<times> nat option" where
  "WriteBatch marshal tx batch db =
     (if \<not> txBegins tx \<or> \<not> txPrepares tx then (db, None)
      else
        let (db1, written) = insert_all marshal (txRefuses tx) batch db 0
        in if txCommits tx then (db1, Some written) else (db, None))"

section \<open>The writer\<close>

record LogOptions =
  loBuffer :: int
  loBatchSize :: int
  loFlushEvery :: duration

record LogWriter =
  lwDB :: log_db
  lwCh :: "LogRecord list"
  lwOpt :: LogOptions
  lwDropped :: "64 word"
  lwWritten :: "64 word"
  lwBatch :: "LogRecord list"
  lwRunning :: bool

definition NewLogWriter :: "log_db \<Rightarrow> LogOptions \<Rightarrow> LogWriter" where
  "NewLogWriter db opt0 =
     (let opt1 = (if loBuffer opt0 \<le> 0 then opt0\<lparr>loBuffer := 4096\<rparr> else opt0);
          opt2 = (if loBatchSize opt1 \<le> 0 then opt1\<lparr>loBatchSize := 128\<rparr> else opt1);
          opt3 = (if loFlushEvery opt2 \<le> 0 then opt2\<lparr>loFlushEvery := 250000000\<rparr> else opt2)
      in \<lparr>lwDB = db, lwCh = [], lwOpt = opt3, lwDropped = 0, lwWritten = 0, lwBatch = [], lwRunning = True\<rparr>)"

text \<open>\<^verbatim>\<open>Log\<close>: a send that finds the channel full takes the \<^verbatim>\<open>default\<close> branch.\<close>

definition Log :: "LogRecord option \<Rightarrow> LogWriter \<Rightarrow> LogWriter" where
  "Log r w =
     (case r of
        None \<Rightarrow> w
      | Some x \<Rightarrow>
          if int (length (lwCh w)) < loBuffer (lwOpt w) then w\<lparr>lwCh := lwCh w @ [x]\<rparr>
          else w\<lparr>lwDropped := lwDropped w + 1\<rparr>)"

definition flush :: "(json \<Rightarrow> string option) \<Rightarrow> tx_plan \<Rightarrow> LogWriter \<Rightarrow> LogWriter" where
  "flush marshal tx w =
     (if lwBatch w = [] then w
      else
        let (db1, res) = WriteBatch marshal tx (lwBatch w) (lwDB w); n = length (lwBatch w);
            w1 = w\<lparr>lwDB := db1\<rparr>;
            w2 = (case res of
                None \<Rightarrow> w1\<lparr>lwDropped := lwDropped w1 + of_nat n\<rparr>
              | Some written \<Rightarrow>
                  let w2 = w1\<lparr>lwWritten := lwWritten w1 + of_nat written\<rparr>
                  in if n - written > 0 then w2\<lparr>lwDropped := lwDropped w2 + of_nat (n - written)\<rparr> else w2)
        in w2\<lparr>lwBatch := []\<rparr>)"

text \<open>A record taken from the channel, in the loop and in the drain.\<close>

definition take_in :: "(json \<Rightarrow> string option) \<Rightarrow> tx_plan \<Rightarrow> LogRecord \<Rightarrow> LogWriter \<Rightarrow> LogWriter" where
  "take_in marshal tx r w =
     (let w1 = w\<lparr>lwBatch := lwBatch w @ [r]\<rparr>
      in if int (length (lwBatch w1)) \<ge> loBatchSize (lwOpt w1) then flush marshal tx w1 else w1)"

text \<open>The drain: \<open>plans\<close> lists what the database does to its transactions in turn. \<open>q\<close> is the channel.\<close>

fun drain_from :: "(json \<Rightarrow> string option) \<Rightarrow> (nat \<Rightarrow> tx_plan) \<Rightarrow> LogRecord list \<Rightarrow> LogWriter \<Rightarrow> LogWriter" where
  "drain_from marshal plans [] w = flush marshal (plans 0) (w\<lparr>lwCh := []\<rparr>)"
| "drain_from marshal plans (r # q) w =
     drain_from marshal (\<lambda>n. plans (Suc n)) q (take_in marshal (plans 0) r (w\<lparr>lwCh := q\<rparr>))"

definition drain :: "(json \<Rightarrow> string option) \<Rightarrow> (nat \<Rightarrow> tx_plan) \<Rightarrow> LogWriter \<Rightarrow> LogWriter" where
  "drain marshal plans w = drain_from marshal plans (lwCh w) w"

section \<open>Runs\<close>

text \<open>
  The request goroutines' \<^verbatim>\<open>Log\<close> calls interleaved with the branches of \<^verbatim>\<open>Run\<close>'s \<^verbatim>\<open>select\<close>; \<open>offered\<close> lists the
  records handed over so far, oldest first. After the cancellation nothing is sent, as the caller promises.
\<close>

inductive log_run ::
    "(json \<Rightarrow> string option) \<Rightarrow> tx_plan set \<Rightarrow> LogWriter \<Rightarrow> LogRecord list \<Rightarrow> LogWriter \<Rightarrow> bool"
  for marshal faults w0 where
  Start: "log_run marshal faults w0 [] w0"
| Offer: "log_run marshal faults w0 rs w \<Longrightarrow> lwRunning w \<Longrightarrow> log_run marshal faults w0 (rs @ [r]) (Log (Some r) w)"
| Recv: "log_run marshal faults w0 rs w \<Longrightarrow> lwRunning w \<Longrightarrow> lwCh w = r # q \<Longrightarrow> tx \<in> faults \<Longrightarrow>
     log_run marshal faults w0 rs (take_in marshal tx r (w\<lparr>lwCh := q\<rparr>))"
| Tick: "log_run marshal faults w0 rs w \<Longrightarrow> lwRunning w \<Longrightarrow> tx \<in> faults \<Longrightarrow>
     log_run marshal faults w0 rs (flush marshal tx w)"
| Cancel: "log_run marshal faults w0 rs w \<Longrightarrow> lwRunning w \<Longrightarrow> range plans \<subseteq> faults \<Longrightarrow>
     log_run marshal faults w0 rs ((drain marshal plans w)\<lparr>lwRunning := False\<rparr>)"

inductive_cases log_run_cases: "log_run marshal faults w0 rs w"

section \<open>Nothing is lost uncounted\<close>

definition counted :: "LogWriter \<Rightarrow> 64 word" where
  "counted w = lwWritten w + lwDropped w + of_nat (length (lwCh w) + length (lwBatch w))"

lemma insert_all_written: "insert_all m f rs db n = (db', n') \<Longrightarrow> n \<le> n' \<and> n' \<le> n + length rs"
proof (induction rs arbitrary: db n)
  case (Cons r rs)
  obtain db1 ok where i: "insertOne m f r db = (db1, ok)" by (cases "insertOne m f r db")
  show ?case using Cons.prems Cons.IH[of db1 "if ok then n + 1 else n"] by (auto simp: i split: if_splits)
qed simp

lemma WriteBatch_written: "WriteBatch m tx b db = (db', Some n) \<Longrightarrow> n \<le> length b"
  by (auto simp: WriteBatch_def split: if_splits prod.splits dest: insert_all_written)

lemma flush_frame:
  "lwCh (flush m tx w) = lwCh w" "lwOpt (flush m tx w) = lwOpt w" "lwBatch (flush m tx w) = []"
  "lwRunning (flush m tx w) = lwRunning w"
  by (auto simp: flush_def Let_def split: option.splits prod.splits)

lemma counted_flush: "counted (flush m tx w) = counted w"
proof (cases "lwBatch w = []")
  case False
  obtain db res where b: "WriteBatch m tx (lwBatch w) (lwDB w) = (db, res)" by (cases "WriteBatch m tx (lwBatch w) (lwDB w)")
  show ?thesis
  proof (cases res)
    case (Some n)
    then have "n \<le> length (lwBatch w)" using b WriteBatch_written by blast
    then have "of_nat n + of_nat (length (lwBatch w) - n) = (of_nat (length (lwBatch w)) :: 64 word)"
      by (metis le_add_diff_inverse of_nat_add)
    then show ?thesis using False Some b by (auto simp: counted_def flush_def Let_def algebra_simps)
  qed (use False b in \<open>simp add: counted_def flush_def Let_def algebra_simps\<close>)
qed (simp add: flush_def)

lemma take_in_frame:
  "lwCh (take_in m tx r w) = lwCh w" "lwOpt (take_in m tx r w) = lwOpt w" "lwRunning (take_in m tx r w) = lwRunning w"
  by (simp_all add: take_in_def Let_def flush_frame)

lemma counted_take_in: "counted (take_in m tx r w) = counted w + 1"
proof -
  have "counted (w\<lparr>lwBatch := lwBatch w @ [r]\<rparr>) = counted w + 1"
    by (simp add: counted_def)
  then show ?thesis by (simp add: take_in_def Let_def counted_flush)
qed

lemma log_drain_frame:
  "lwCh (drain_from m plans q w) = []" "lwBatch (drain_from m plans q w) = []" "lwOpt (drain_from m plans q w) = lwOpt w"
  by (induction q arbitrary: w plans) (simp_all add: flush_frame take_in_frame)

lemma counted_drain: "lwCh w = q \<Longrightarrow> counted (drain_from m plans q w) = counted w"
proof (induction q arbitrary: w plans)
  case Nil
  then have "w\<lparr>lwCh := []\<rparr> = w" by (metis LogWriter.surjective LogWriter.update_convs(2))
  then show ?case by (simp add: counted_flush)
next
  case (Cons r q)
  have "counted (take_in m (plans 0) r (w\<lparr>lwCh := q\<rparr>)) = counted (w\<lparr>lwCh := q\<rparr>) + 1" by (rule counted_take_in)
  also have "\<dots> = counted w" using Cons.prems by (simp add: counted_def)
  finally show ?case using Cons.IH[of "take_in m (plans 0) r (w\<lparr>lwCh := q\<rparr>)"] by (simp add: take_in_frame)
qed

lemma NewLogWriter_frame:
  "lwCh (NewLogWriter db opt) = []" "lwBatch (NewLogWriter db opt) = []" "lwWritten (NewLogWriter db opt) = 0"
  "lwDropped (NewLogWriter db opt) = 0" "lwDB (NewLogWriter db opt) = db" "0 < loBuffer (lwOpt (NewLogWriter db opt))"
  "0 < loBatchSize (lwOpt (NewLogWriter db opt))" "lwRunning (NewLogWriter db opt)"
  by (simp_all add: NewLogWriter_def Let_def)

definition log_inv :: "LogRecord list \<Rightarrow> LogWriter \<Rightarrow> bool" where
  "log_inv rs w \<longleftrightarrow> counted w = of_nat (length rs) \<and> int (length (lwCh w)) \<le> loBuffer (lwOpt w) \<and>
     int (length (lwBatch w)) < loBatchSize (lwOpt w) \<and> (\<not> lwRunning w \<longrightarrow> lwCh w = [] \<and> lwBatch w = [])"

lemma log_run_inv:
  assumes "log_run m faults (NewLogWriter db opt) rs w"
  shows "log_inv rs w"
  using assms
proof (induction rs w)
  case Start
  then show ?case by (simp add: log_inv_def counted_def NewLogWriter_frame less_imp_le)
next
  case (Offer rs w r)
  then show ?case by (auto simp: log_inv_def counted_def Log_def algebra_simps)
next
  case (Recv rs w r q tx)
  have "counted (w\<lparr>lwCh := q\<rparr>) + 1 = counted w" using Recv.hyps by (simp add: counted_def)
  with Recv show ?case
    by (auto simp: log_inv_def counted_take_in take_in_frame) (auto simp: take_in_def Let_def flush_frame)
next
  case (Tick rs w tx)
  then show ?case by (simp add: log_inv_def counted_flush flush_frame)
next
  case (Cancel rs w plans)
  have "counted (drain m plans w) = counted w" by (simp add: drain_def counted_drain)
  moreover have "counted ((drain m plans w)\<lparr>lwRunning := False\<rparr>) = counted (drain m plans w)" by (simp add: counted_def)
  ultimately show ?case using Cancel.IH by (simp add: log_inv_def drain_def log_drain_frame)
qed

section \<open>What is stored\<close>

text \<open>The tables holding exactly the rows of \<open>kept\<close>, in order.\<close>

definition stored :: "(json \<Rightarrow> string option) \<Rightarrow> LogRecord list \<Rightarrow> log_db" where
  "stored m kept =
     (let ss = concat (map (\<lambda>r. case stmts_of m r of None \<Rightarrow> [] | Some ss \<Rightarrow> ss) kept)
      in \<lparr>dbRequests = [x. ReqStmt x \<leftarrow> ss], dbAttempts = [x. AttStmt x \<leftarrow> ss], dbBodies = [x. BodyStmt x \<leftarrow> ss]\<rparr>)"

definition loggable :: "(json \<Rightarrow> string option) \<Rightarrow> LogRecord \<Rightarrow> bool" where
  "loggable m r \<longleftrightarrow> stmts_of m r \<noteq> None"

definition seqs_distinct :: "LogRecord \<Rightarrow> bool" where
  "seqs_distinct r = distinct (map arSeq (rrAttempts r))"

definition kept_wf :: "(json \<Rightarrow> string option) \<Rightarrow> LogRecord list \<Rightarrow> bool" where
  "kept_wf m kept \<longleftrightarrow> distinct (map rrID kept) \<and> (\<forall>r \<in> set kept. loggable m r)"

lemma exec_attempts:
  assumes "distinct (map (\<lambda>x. (atRequestID x, atSeq x)) as)"
    and "(\<lambda>x. (atRequestID x, atSeq x)) ` set as \<inter> (\<lambda>x. (atRequestID x, atSeq x)) ` set (dbAttempts db) = {}"
  shows "exec_stmts (\<lambda>_. False) (map AttStmt as @ ss) db =
    exec_stmts (\<lambda>_. False) ss (db\<lparr>dbAttempts := dbAttempts db @ as\<rparr>)"
  using assms
proof (induction as arbitrary: db)
  case (Cons a as)
  have "(atRequestID a, atSeq a) \<notin> (\<lambda>x. (atRequestID x, atSeq x)) ` set (dbAttempts db)" using Cons.prems(2) by auto
  moreover have "(\<lambda>x. (atRequestID x, atSeq x)) ` set as \<inter>
      (\<lambda>x. (atRequestID x, atSeq x)) ` set (dbAttempts (db\<lparr>dbAttempts := dbAttempts db @ [a]\<rparr>)) = {}"
    using Cons.prems by auto
  ultimately show ?case
    using Cons.prems(1) Cons.IH[of "db\<lparr>dbAttempts := dbAttempts db @ [a]\<rparr>"] by (simp add: exec_stmt_def)
qed simp

lemma loggable_stmts:
  assumes "loggable m r"
  obtains tr ws me where "stmts_of m r = Some (ReqStmt (request_row_of r tr ws me)
      # map AttStmt (map (attempt_row_of (rrID r)) (rrAttempts r)) @ map BodyStmt (bodies_of r))"
  using assms by (auto simp: loggable_def stmts_of_def split: option.splits)

lemma stored_append: "stored m (kept @ [r]) = (let db = stored m kept; one = stored m [r] in
    \<lparr>dbRequests = dbRequests db @ dbRequests one, dbAttempts = dbAttempts db @ dbAttempts one,
     dbBodies = dbBodies db @ dbBodies one\<rparr>)"
  by (simp add: stored_def Let_def)

lemma stmts_select [simp]:
  "[x. ReqStmt x \<leftarrow> map AttStmt as] = []" "[x. ReqStmt x \<leftarrow> map BodyStmt bs] = []"
  "[x. AttStmt x \<leftarrow> map AttStmt as] = as" "[x. AttStmt x \<leftarrow> map BodyStmt bs] = []"
  "[x. BodyStmt x \<leftarrow> map AttStmt as] = []" "[x. BodyStmt x \<leftarrow> map BodyStmt bs] = bs"
  by (induction as, simp_all) (induction bs, simp_all)+

lemma stored_one:
  assumes "stmts_of m r = Some (ReqStmt row # map AttStmt as @ map BodyStmt bs)"
  shows "stored m [r] = \<lparr>dbRequests = [row], dbAttempts = as, dbBodies = bs\<rparr>"
  using assms stmts_select by (simp add: stored_def Let_def)

lemma row_ids [simp]:
  "rqID (request_row_of r tr ws me) = rrID r" "atRequestID (attempt_row_of i a) = i" "atSeq (attempt_row_of i a) = arSeq a"
  "boRequestID (body_row_of r) = rrID r"
  by (simp_all add: request_row_of_def attempt_row_of_def body_row_of_def)

lemma bodies_ids: "boRequestID ` set (bodies_of r) \<subseteq> {rrID r}"
  by (auto simp: bodies_of_def)

lemma exec_bodies:
  "rrID r \<notin> boRequestID ` set (dbBodies db) \<Longrightarrow>
    exec_stmts (\<lambda>_. False) (map BodyStmt (bodies_of r)) db = (db\<lparr>dbBodies := dbBodies db @ bodies_of r\<rparr>, True)"
  by (simp add: bodies_of_def exec_stmt_def)

lemma stored_ids:
  assumes "kept_wf m kept"
  shows "rqID ` set (dbRequests (stored m kept)) = rrID ` set kept \<and>
    atRequestID ` set (dbAttempts (stored m kept)) \<subseteq> rrID ` set kept \<and>
    boRequestID ` set (dbBodies (stored m kept)) \<subseteq> rrID ` set kept"
  using assms
proof (induction kept rule: rev_induct)
  case Nil
  then show ?case by (simp add: stored_def)
next
  case (snoc r kept)
  obtain tr ws me where "stmts_of m r = Some (ReqStmt (request_row_of r tr ws me)
      # map AttStmt (map (attempt_row_of (rrID r)) (rrAttempts r)) @ map BodyStmt (bodies_of r))"
    using snoc.prems loggable_stmts[of m r] by (auto simp: kept_wf_def)
  note one = stored_one[OF this]
  have "kept_wf m kept" using snoc.prems by (simp add: kept_wf_def)
  with snoc.IH bodies_ids[of r] show ?case by (auto simp: stored_append one Let_def image_Un)
qed

definition log_append :: "log_db \<Rightarrow> log_db \<Rightarrow> log_db" where
  "log_append db one = \<lparr>dbRequests = dbRequests db @ dbRequests one, dbAttempts = dbAttempts db @ dbAttempts one,
     dbBodies = dbBodies db @ dbBodies one\<rparr>"

definition log_ids :: "log_db \<Rightarrow> string set" where
  "log_ids db = rqID ` set (dbRequests db) \<union> atRequestID ` set (dbAttempts db) \<union> boRequestID ` set (dbBodies db)"

lemma stored_snoc: "stored m (kept @ [r]) = log_append (stored m kept) (stored m [r])"
  by (simp add: stored_append log_append_def Let_def)

text \<open>A record under a new id is written whole.\<close>

lemma insertOne_fresh:
  assumes new: "rrID r \<notin> log_ids db" and d: "seqs_distinct r" and l: "loggable m r"
  shows "insertOne m (\<lambda>_. False) r db = (log_append db (stored m [r]), True)"
proof -
  from l obtain tr ws me where s: "stmts_of m r = Some (ReqStmt (request_row_of r tr ws me)
      # map AttStmt (map (attempt_row_of (rrID r)) (rrAttempts r)) @ map BodyStmt (bodies_of r))"
    by (rule loggable_stmts)
  let ?db = "db\<lparr>dbRequests := dbRequests db @ [request_row_of r tr ws me]\<rparr>"
  let ?as = "map (attempt_row_of (rrID r)) (rrAttempts r)"
  have a: "distinct (map (\<lambda>x. (atRequestID x, atSeq x)) ?as)"
    using d by (auto simp: seqs_distinct_def distinct_map inj_on_def)
  have "rrID r \<notin> atRequestID ` set (dbAttempts ?db)" using new by (simp add: log_ids_def)
  moreover have "atRequestID x = rrID r" if "x \<in> set ?as" for x using that by auto
  ultimately have b: "(\<lambda>x. (atRequestID x, atSeq x)) ` set ?as \<inter> (\<lambda>x. (atRequestID x, atSeq x)) ` set (dbAttempts ?db) = {}"
    by (auto simp: image_iff)
  have "rrID r \<notin> boRequestID ` set (dbBodies (?db\<lparr>dbAttempts := dbAttempts ?db @ ?as\<rparr>))"
    using new by (simp add: log_ids_def)
  from exec_bodies[OF this] have e: "exec_stmts (\<lambda>_. False) (map AttStmt ?as @ map BodyStmt (bodies_of r)) ?db =
      (?db\<lparr>dbAttempts := dbAttempts ?db @ ?as, dbBodies := dbBodies ?db @ bodies_of r\<rparr>, True)"
    unfolding exec_attempts[OF a b] by simp
  have "exec_stmt (\<lambda>_. False) (ReqStmt (request_row_of r tr ws me)) db = Some ?db"
    using new by (simp add: exec_stmt_def log_ids_def)
  then have "insertOne m (\<lambda>_. False) r db =
      (?db\<lparr>dbAttempts := dbAttempts ?db @ ?as, dbBodies := dbBodies ?db @ bodies_of r\<rparr>, True)"
    using e by (simp only: insertOne_def s exec_stmts.simps option.case)
  then show ?thesis by (simp add: log_append_def stored_one[OF s])
qed

text \<open>A record is written whole or not at all: its request row goes first, so a taken id stops it there, and the
  other tables hold rows of stored requests only.\<close>

lemma insertOne_atomic:
  assumes k: "kept_wf m kept" and d: "seqs_distinct r"
  shows "insertOne m (\<lambda>_. False) r (stored m kept) =
    (if loggable m r \<and> rrID r \<notin> rrID ` set kept then (stored m (kept @ [r]), True) else (stored m kept, False))"
proof (cases "loggable m r")
  case False
  then show ?thesis by (simp add: insertOne_def loggable_def)
next
  case True
  note ids = stored_ids[OF k]
  show ?thesis
  proof (cases "rrID r \<in> rrID ` set kept")
    case False
    with ids have "rrID r \<notin> log_ids (stored m kept)" by (auto simp: log_ids_def)
    from insertOne_fresh[OF this d True] False True show ?thesis by (simp add: stored_snoc)
  next
    case taken: True
    from True obtain tr ws me where "stmts_of m r = Some (ReqStmt (request_row_of r tr ws me)
      # map AttStmt (map (attempt_row_of (rrID r)) (rrAttempts r)) @ map BodyStmt (bodies_of r))"
      by (rule loggable_stmts)
    with taken ids True show ?thesis by (simp add: insertOne_def exec_stmt_def)
  qed
qed

lemma insert_all_atomic:
  assumes "kept_wf m kept" "\<forall>r \<in> set rs. seqs_distinct r" "insert_all m (\<lambda>_. False) rs (stored m kept) n = (db, n')"
  shows "\<exists>new. subseq new rs \<and> kept_wf m (kept @ new) \<and> db = stored m (kept @ new) \<and> n' = n + length new"
  using assms
proof (induction rs arbitrary: kept n)
  case (Cons r rs)
  have d: "seqs_distinct r" "\<forall>r \<in> set rs. seqs_distinct r" using Cons.prems(2) by simp_all
  show ?case
  proof (cases "loggable m r \<and> rrID r \<notin> rrID ` set kept")
    case True
    with Cons.prems(1) have "kept_wf m (kept @ [r])" by (auto simp: kept_wf_def)
    moreover have "insert_all m (\<lambda>_. False) rs (stored m (kept @ [r])) (n + 1) = (db, n')"
      using Cons.prems(3) True by (simp add: insertOne_atomic[OF Cons.prems(1) d(1)])
    ultimately obtain new where "subseq new rs" "kept_wf m ((kept @ [r]) @ new)" "db = stored m ((kept @ [r]) @ new)"
      "n' = n + 1 + length new" using Cons.IH[of "kept @ [r]"] d(2) by blast
    then show ?thesis by (intro exI[of _ "r # new"]) simp
  next
    case False
    have "insert_all m (\<lambda>_. False) rs (stored m kept) n = (db, n')"
      using Cons.prems(3) False by (simp add: insertOne_atomic[OF Cons.prems(1) d(1)])
    then show ?thesis using Cons.IH[OF Cons.prems(1) d(2)] by (meson list_emb_Cons)
  qed
qed auto

text \<open>A database that may refuse a whole transaction, never one statement of it.\<close>

abbreviation whole_tx :: "tx_plan set" where
  "whole_tx \<equiv> {tx. txRefuses tx = (\<lambda>_. False)}"

lemma WriteBatch_atomic:
  assumes "kept_wf m kept" "\<forall>r \<in> set b. seqs_distinct r" "tx \<in> whole_tx" "WriteBatch m tx b (stored m kept) = (db, res)"
  shows "\<exists>new. subseq new b \<and> kept_wf m (kept @ new) \<and> db = stored m (kept @ new) \<and>
    (case res of None \<Rightarrow> new = [] | Some n \<Rightarrow> n = length new)"
proof -
  obtain db1 n1 where i: "insert_all m (\<lambda>_. False) b (stored m kept) 0 = (db1, n1)"
    by (cases "insert_all m (\<lambda>_. False) b (stored m kept) 0")
  from insert_all_atomic[OF assms(1,2) i] show ?thesis
    using assms(1,3,4) by (auto simp: WriteBatch_def i split: if_splits intro: exI[of _ "[]"])
qed

text \<open>A batch of records under new ids: all of them that can be marshalled, or none.\<close>

lemma log_append_assoc: "log_append (log_append a b) c = log_append a (log_append b c)"
  by (simp add: log_append_def)

lemma stored_Cons: "stored m (r # rs) = log_append (stored m [r]) (stored m rs)"
  by (simp add: stored_def log_append_def Let_def)

lemma stored_one_ids: "log_ids (stored m [r]) \<subseteq> {rrID r}"
proof (cases "loggable m r")
  case True
  then show ?thesis using stored_ids[of m "[r]"] by (auto simp: log_ids_def kept_wf_def)
next
  case False
  then show ?thesis by (simp add: stored_def loggable_def log_ids_def)
qed

lemma log_ids_append: "log_ids (log_append a b) = log_ids a \<union> log_ids b"
  by (auto simp: log_ids_def log_append_def)

lemma insert_all_fresh:
  assumes "distinct (map rrID rs)" "rrID ` set rs \<inter> log_ids db = {}" "\<forall>r \<in> set rs. seqs_distinct r"
  shows "insert_all m (\<lambda>_. False) rs db n =
    (log_append db (stored m (filter (loggable m) rs)), n + length (filter (loggable m) rs))"
  using assms
proof (induction rs arbitrary: db n)
  case Nil
  then show ?case by (simp add: log_append_def stored_def)
next
  case (Cons r rs)
  show ?case
  proof (cases "loggable m r")
    case True
    have "rrID ` set rs \<inter> log_ids (log_append db (stored m [r])) = {}"
    proof -
      have "rrID ` set rs \<inter> {rrID r} = {}" "rrID ` set rs \<inter> log_ids db = {}" using Cons.prems by auto
      then show ?thesis using stored_one_ids[of m r] unfolding log_ids_append by blast
    qed
    with Cons True show ?thesis
      using insertOne_fresh[of r db m] stored_Cons[of m r "filter (loggable m) rs"]
      by (simp add: log_append_assoc)
  next
    case False
    then have "insertOne m (\<lambda>_. False) r db = (db, False)" by (simp add: insertOne_def loggable_def)
    with Cons False show ?thesis by simp
  qed
qed

lemma WriteBatch_fresh:
  assumes "distinct (map rrID rs)" "rrID ` set rs \<inter> log_ids db = {}" "\<forall>r \<in> set rs. seqs_distinct r" "tx \<in> whole_tx"
  shows "fst (WriteBatch m tx rs db) = (if txBegins tx \<and> txPrepares tx \<and> txCommits tx
    then log_append db (stored m (filter (loggable m) rs)) else db)"
  using assms(4) by (simp add: WriteBatch_def insert_all_fresh[OF assms(1-3)])

text \<open>The tables hold a subsequence of what was handed over; what is still queued comes after it.\<close>

definition kept_inv :: "(json \<Rightarrow> string option) \<Rightarrow> LogRecord list \<Rightarrow> LogWriter \<Rightarrow> LogRecord list \<Rightarrow> bool" where
  "kept_inv m rs w kept \<longleftrightarrow> kept_wf m kept \<and> lwDB w = stored m kept \<and> lwWritten w = of_nat (length kept) \<and>
     subseq (kept @ lwBatch w @ lwCh w) rs"

lemma kept_flush:
  assumes "kept_inv m rs w kept" "\<forall>r \<in> set rs. seqs_distinct r" "tx \<in> whole_tx"
  shows "\<exists>kept'. kept_inv m rs (flush m tx w) kept'"
proof (cases "lwBatch w = []")
  case True
  then show ?thesis using assms(1) by (auto simp: flush_def)
next
  case False
  obtain db res where b: "WriteBatch m tx (lwBatch w) (stored m kept) = (db, res)"
    by (cases "WriteBatch m tx (lwBatch w) (stored m kept)")
  have s: "subseq (kept @ lwBatch w @ lwCh w) rs" using assms(1) by (simp add: kept_inv_def)
  then have "set (lwBatch w) \<subseteq> set rs" by (auto dest: list_emb_set)
  then obtain new where n: "subseq new (lwBatch w)" "kept_wf m (kept @ new)" "db = stored m (kept @ new)"
    "case res of None \<Rightarrow> new = [] | Some n \<Rightarrow> n = length new"
    using WriteBatch_atomic[OF _ _ assms(3) b] assms(1,2) by (auto simp: kept_inv_def)
  have "subseq ((kept @ new) @ lwCh w) (kept @ lwBatch w @ lwCh w)" using n(1) by (simp add: list_emb_append_mono)
  then have "subseq ((kept @ new) @ lwCh w) rs" using s subseq_order.trans by blast
  then have "kept_inv m rs (flush m tx w) (kept @ new)"
    using assms(1) False b n by (auto simp: kept_inv_def flush_def Let_def split: option.splits)
  then show ?thesis ..
qed

lemma kept_take_in:
  assumes "kept_inv m rs w kept" "\<forall>r \<in> set rs. seqs_distinct r" "tx \<in> whole_tx" "lwCh w = r # q"
  shows "\<exists>kept'. kept_inv m rs (take_in m tx r (w\<lparr>lwCh := q\<rparr>)) kept'"
proof -
  have "kept_inv m rs (w\<lparr>lwCh := q, lwBatch := lwBatch w @ [r]\<rparr>) kept" using assms(1,4) by (simp add: kept_inv_def)
  then show ?thesis using kept_flush[OF _ assms(2,3)] by (auto simp: take_in_def Let_def)
qed

lemma kept_drain:
  assumes "kept_inv m rs w kept" "\<forall>r \<in> set rs. seqs_distinct r" "range plans \<subseteq> whole_tx" "lwCh w = q"
  shows "\<exists>kept'. kept_inv m rs (drain_from m plans q w) kept'"
  using assms
proof (induction q arbitrary: w plans kept)
  case Nil
  then have "kept_inv m rs (w\<lparr>lwCh := []\<rparr>) kept" "plans 0 \<in> whole_tx" by (auto simp: kept_inv_def)
  then show ?case using kept_flush[OF _ Nil.prems(2)] by simp
next
  case (Cons r q)
  have "plans 0 \<in> whole_tx" "range (\<lambda>n. plans (Suc n)) \<subseteq> whole_tx" using Cons.prems(3) by auto
  with kept_take_in[OF Cons.prems(1,2) _ Cons.prems(4)] obtain k
    where "kept_inv m rs (take_in m (plans 0) r (w\<lparr>lwCh := q\<rparr>)) k" by blast
  then show ?case using Cons.IH[OF _ Cons.prems(2) \<open>range (\<lambda>n. plans (Suc n)) \<subseteq> whole_tx\<close>] by (simp add: take_in_frame)
qed

definition empty_log :: log_db where
  "empty_log = \<lparr>dbRequests = [], dbAttempts = [], dbBodies = []\<rparr>"

lemma log_run_kept:
  assumes "log_run m whole_tx (NewLogWriter empty_log opt) rs w" "\<forall>r \<in> set rs. seqs_distinct r"
  shows "\<exists>kept. kept_inv m rs w kept"
  using assms
proof (induction rs w)
  case Start
  have "kept_inv m [] (NewLogWriter empty_log opt) []"
    by (simp add: kept_inv_def kept_wf_def NewLogWriter_frame stored_def empty_log_def)
  then show ?case ..
next
  case (Offer rs w r)
  then obtain kept where k: "kept_inv m rs w kept" by auto
  then have s: "subseq (kept @ lwBatch w @ lwCh w) rs" by (simp add: kept_inv_def)
  have "subseq (kept @ lwBatch w @ lwCh w) (rs @ [r])" "subseq ((kept @ lwBatch w @ lwCh w) @ [r]) (rs @ [r])"
    using list_emb_append_mono[OF s, of "[]" "[r]"] list_emb_append_mono[OF s, of "[r]" "[r]"] by simp_all
  with k have "kept_inv m (rs @ [r]) (Log (Some r) w) kept" by (simp add: kept_inv_def Log_def)
  then show ?case ..
next
  case (Recv rs w r q tx)
  then show ?case using kept_take_in by blast
next
  case (Tick rs w tx)
  then show ?case using kept_flush by blast
next
  case (Cancel rs w plans)
  then obtain k where "kept_inv m rs w k" by auto
  from kept_drain[OF this Cancel.prems Cancel.hyps(3) refl] obtain kept where "kept_inv m rs (drain m plans w) kept"
    by (auto simp: drain_def)
  then have "kept_inv m rs ((drain m plans w)\<lparr>lwRunning := False\<rparr>) kept" by (simp add: kept_inv_def)
  then show ?case ..
qed
section \<open>A skipped record\<close>

text \<open>A record an attempt row of which is refused counts as dropped, yet its request row is committed with the batch:
  \<^verbatim>\<open>insertOne\<close> returns without undoing what it wrote.\<close>

lemma skipped_record_leaves_row:
  assumes "stmts_of marshal r = Some (ReqStmt row # AttStmt a # ss)" "rqID row \<notin> rqID ` set (dbRequests db)"
    and "txBegins tx" "txPrepares tx" "txCommits tx" "\<not> txRefuses tx (ReqStmt row)" "txRefuses tx (AttStmt a)"
  shows "WriteBatch marshal tx [r] db = (db\<lparr>dbRequests := dbRequests db @ [row]\<rparr>, Some 0)"
  using assms by (simp add: WriteBatch_def insertOne_def exec_stmt_def)

section \<open>An example\<close>

definition demo_log_record :: "string \<Rightarrow> LogRecord" where
  "demo_log_record rid = RequestRecord.extend (newRecord rid unix_zero ''openai'' ''chat'' '''')
     (LogRecord.fields '''' '''' 0 None 0 '''')"

definition demo_log_opt :: "int \<Rightarrow> LogOptions" where
  "demo_log_opt n = \<lparr>loBuffer = n, loBatchSize = 2, loFlushEvery = 0\<rparr>"

definition demo_tx :: tx_plan where
  "demo_tx = \<lparr>txBegins = True, txPrepares = True, txRefuses = (\<lambda>_. False), txCommits = True\<rparr>"

definition demo_log :: "int \<Rightarrow> LogWriter" where
  "demo_log n = (drain (\<lambda>_. Some []) (\<lambda>_. demo_tx)
     (Log (Some (demo_log_record ''b'')) (Log (Some (demo_log_record ''a'')) (NewLogWriter empty_log (demo_log_opt n)))))
     \<lparr>lwRunning := False\<rparr>"

lemma demo_log_run:
  "log_run (\<lambda>_. Some []) whole_tx (NewLogWriter empty_log (demo_log_opt n)) [demo_log_record ''a'', demo_log_record ''b''] (demo_log n)"
proof -
  let ?w = "NewLogWriter empty_log (demo_log_opt n)" and ?a = "demo_log_record ''a''" and ?b = "demo_log_record ''b''"
  have f: "lwRunning (Log r w) = lwRunning w" for r w by (simp add: Log_def split: option.splits)
  have "log_run (\<lambda>_. Some []) whole_tx ?w ([] @ [?a]) (Log (Some ?a) ?w)"
    by (intro log_run.Offer log_run.Start) (simp add: NewLogWriter_frame)
  then have "log_run (\<lambda>_. Some []) whole_tx ?w (([] @ [?a]) @ [?b]) (Log (Some ?b) (Log (Some ?a) ?w))"
    by (rule log_run.Offer) (simp add: f NewLogWriter_frame)
  from log_run.Cancel[OF this, of "\<lambda>_. demo_tx"] show ?thesis
    by (simp add: demo_log_def f NewLogWriter_frame demo_tx_def)
qed

lemmas demo_log_eval = demo_log_def drain_def Log_def NewLogWriter_def demo_log_opt_def take_in_def flush_def
  WriteBatch_def demo_tx_def insertOne_def stmts_of_def exec_stmt_def empty_log_def Let_def demo_log_record_def
  RequestRecord.defs LogRecord.defs newRecord_def bodies_of_def request_row_of_def

section \<open>The properties\<close>

text \<open>What becomes of a record, with no counter in sight: turned away at a full channel; saved, when every statement of it ran in
  a transaction that committed; skipped, when a statement of it was refused in one (what ran before stays, as above); or
  lost with a transaction that did not commit. \<open>settle_batch\<close> is what a transaction does to the tables and to the
  records of a batch, \<open>fate_run\<close> the run of the channel, the batch and the tables.\<close>

datatype fate = Turned_away | Saved | Skipped | Lost

fun insert_fates :: "(json \<Rightarrow> string option) \<Rightarrow> (stmt \<Rightarrow> bool) \<Rightarrow> LogRecord list \<Rightarrow> log_db \<Rightarrow> log_db \<times> (LogRecord \<times> fate) list" where
  "insert_fates m refuses [] db = (db, [])"
| "insert_fates m refuses (r # rs) db =
     (case stmts_of m r of
        None \<Rightarrow> map_prod id (Cons (r, Skipped)) (insert_fates m refuses rs db)
      | Some ss \<Rightarrow>
          (case exec_stmts refuses ss db of (db1, done) \<Rightarrow>
             map_prod id (Cons (r, if done then Saved else Skipped)) (insert_fates m refuses rs db1)))"

definition settle_batch ::
    "(json \<Rightarrow> string option) \<Rightarrow> tx_plan \<Rightarrow> LogRecord list \<Rightarrow> log_db \<Rightarrow> log_db \<times> (LogRecord \<times> fate) list" where
  "settle_batch m tx batch db =
     (if txBegins tx \<and> txPrepares tx \<and> txCommits tx then insert_fates m (txRefuses tx) batch db
      else (db, map (\<lambda>r. (r, Lost)) batch))"

inductive fate_run ::
    "(json \<Rightarrow> string option) \<Rightarrow> tx_plan set \<Rightarrow> int \<Rightarrow> log_db \<Rightarrow> LogRecord list \<Rightarrow> (LogRecord \<times> fate) list
       \<Rightarrow> LogRecord list \<Rightarrow> LogRecord list \<Rightarrow> log_db \<Rightarrow> bool"
  for m faults cap db0 where
  Fresh: "fate_run m faults cap db0 [] [] [] [] db0"
| Room: "fate_run m faults cap db0 rs fs ch batch db \<Longrightarrow> int (length ch) < cap \<Longrightarrow>
     fate_run m faults cap db0 (rs @ [r]) fs (ch @ [r]) batch db"
| Full: "fate_run m faults cap db0 rs fs ch batch db \<Longrightarrow> \<not> int (length ch) < cap \<Longrightarrow>
     fate_run m faults cap db0 (rs @ [r]) (fs @ [(r, Turned_away)]) ch batch db"
| Taken: "fate_run m faults cap db0 rs fs (r # ch) batch db \<Longrightarrow> fate_run m faults cap db0 rs fs ch (batch @ [r]) db"
| Settled: "fate_run m faults cap db0 rs fs ch batch db \<Longrightarrow> tx \<in> faults \<Longrightarrow> settle_batch m tx batch db = (db', fs') \<Longrightarrow>
     fate_run m faults cap db0 rs (fs @ fs') ch [] db'"

lemma insert_fates_batch: "map fst (snd (insert_fates m refuses rs db)) = rs"
proof (induction rs arbitrary: db)
  case (Cons r rs)
  then show ?case by (simp split: option.split prod.split)
qed simp

lemma settle_batch_batch: "settle_batch m tx batch db = (db', fs) \<Longrightarrow> map fst fs = batch"
  using insert_fates_batch[of m "txRefuses tx" batch db] by (auto simp: settle_batch_def comp_def split: if_splits)

lemma fate_run_all: "fate_run m faults cap db0 rs fs ch batch db \<Longrightarrow> mset rs = mset (map fst fs) + mset batch + mset ch"
  by (induction rule: fate_run.induct) (auto dest!: settle_batch_batch simp flip: mset_map)

definition saved_of :: "(LogRecord \<times> fate) list \<Rightarrow> LogRecord list" where
  "saved_of fs = map fst (filter (\<lambda>x. snd x = Saved) fs)"

definition unsaved_of :: "(LogRecord \<times> fate) list \<Rightarrow> LogRecord list" where
  "unsaved_of fs = map fst (filter (\<lambda>x. snd x \<noteq> Saved) fs)"

lemma insert_all_fates:
  "insert_all m refuses rs db n = (fst (insert_fates m refuses rs db), n + length (saved_of (snd (insert_fates m refuses rs db))))"
proof (induction rs arbitrary: db n)
  case (Cons r rs)
  then show ?case by (simp add: insertOne_def saved_of_def Let_def split: option.split prod.split)
qed (simp add: saved_of_def)

lemma saved_unsaved: "length (saved_of fs) + length (unsaved_of fs) = length fs"
  by (induction fs) (auto simp: saved_of_def unsaved_of_def)

text \<open>The counters are the fates.\<close>

definition fated :: "(json \<Rightarrow> string option) \<Rightarrow> tx_plan set \<Rightarrow> int \<Rightarrow> log_db \<Rightarrow> LogRecord list \<Rightarrow> LogWriter \<Rightarrow> bool" where
  "fated m faults cap db0 rs w \<longleftrightarrow>
     (\<exists>fs. fate_run m faults cap db0 rs fs (lwCh w) (lwBatch w) (lwDB w) \<and>
        lwWritten w = of_nat (length (saved_of fs)) \<and> lwDropped w = of_nat (length (unsaved_of fs)))"

lemma fated_flush:
  assumes "fated m faults cap db0 rs w" "tx \<in> faults"
  shows "fated m faults cap db0 rs (flush m tx w)"
proof (cases "lwBatch w = []")
  case True
  then show ?thesis using assms(1) by (simp add: flush_def)
next
  case False
  obtain fs where f: "fate_run m faults cap db0 rs fs (lwCh w) (lwBatch w) (lwDB w)"
    "lwWritten w = of_nat (length (saved_of fs))" "lwDropped w = of_nat (length (unsaved_of fs))"
    using assms(1) by (auto simp: fated_def)
  obtain db' fs' where s: "settle_batch m tx (lwBatch w) (lwDB w) = (db', fs')" by fastforce
  note run = fate_run.Settled[OF f(1) assms(2) s]
  have len: "length fs' = length (lwBatch w)" using settle_batch_batch[OF s] by (metis length_map)
  have count: "lwDB (flush m tx w) = db' \<and> lwWritten (flush m tx w) = lwWritten w + of_nat (length (saved_of fs')) \<and>
      lwDropped (flush m tx w) = lwDropped w + of_nat (length (unsaved_of fs'))"
  proof (cases "txBegins tx \<and> txPrepares tx \<and> txCommits tx")
    case True
    then have i: "insert_fates m (txRefuses tx) (lwBatch w) (lwDB w) = (db', fs')" using s by (simp add: settle_batch_def)
    have "WriteBatch m tx (lwBatch w) (lwDB w) = (db', Some (length (saved_of fs')))"
      using True by (simp add: WriteBatch_def insert_all_fates i)
    moreover have "length (lwBatch w) - length (saved_of fs') = length (unsaved_of fs')" using saved_unsaved[of fs'] len by simp
    ultimately show ?thesis using False by (simp add: flush_def Let_def)
  next
    case no: False
    then have s': "db' = lwDB w" "fs' = map (\<lambda>r. (r, Lost)) (lwBatch w)" using s by (auto simp: settle_batch_def)
    have "length (saved_of fs') = 0" by (simp add: s'(2) saved_of_def comp_def)
    then have "saved_of fs' = []" "length (unsaved_of fs') = length (lwBatch w)" using saved_unsaved[of fs'] len by simp_all
    moreover have "WriteBatch m tx (lwBatch w) (lwDB w) = (lwDB w, None)" using no by (auto simp: WriteBatch_def split: prod.split)
    ultimately show ?thesis using False by (simp add: flush_def Let_def s'(1))
  qed
  show ?thesis unfolding fated_def using run f(2,3) count
    by (intro exI[of _ "fs @ fs'"]) (simp add: flush_frame saved_of_def unsaved_of_def)
qed

lemma fated_take_in:
  assumes "fated m faults cap db0 rs w" "tx \<in> faults" "lwCh w = r # q"
  shows "fated m faults cap db0 rs (take_in m tx r (w\<lparr>lwCh := q\<rparr>))"
proof -
  have "fated m faults cap db0 rs (w\<lparr>lwCh := q, lwBatch := lwBatch w @ [r]\<rparr>)"
    using assms(1,3) by (auto simp: fated_def intro: fate_run.Taken)
  then show ?thesis using fated_flush[OF _ assms(2)] by (auto simp: take_in_def Let_def)
qed

lemma fated_drain:
  "fated m faults cap db0 rs w \<Longrightarrow> range plans \<subseteq> faults \<Longrightarrow> lwCh w = q \<Longrightarrow> fated m faults cap db0 rs (drain_from m plans q w)"
proof (induction q arbitrary: w plans)
  case Nil
  then have e: "w\<lparr>lwCh := []\<rparr> = w" by (metis LogWriter.surjective LogWriter.update_convs(2))
  have "plans 0 \<in> faults" using Nil.prems(2) by auto
  from fated_flush[OF Nil.prems(1) this] show ?case by (simp add: e)
next
  case (Cons r q)
  have p: "plans 0 \<in> faults" "range (\<lambda>n. plans (Suc n)) \<subseteq> faults" using Cons.prems(2) by auto
  show ?case using Cons.IH[OF fated_take_in[OF Cons.prems(1) p(1) Cons.prems(3)] p(2)] by (simp add: take_in_frame)
qed

lemma log_run_opt: "log_run m faults w0 rs w \<Longrightarrow> lwOpt w = lwOpt w0"
  by (induction rule: log_run.induct) (auto simp: Log_def take_in_frame flush_frame drain_def log_drain_frame)

lemma log_run_fated:
  assumes "log_run m faults (NewLogWriter db0 opt) rs w"
  shows "fated m faults (loBuffer (lwOpt (NewLogWriter db0 opt))) db0 rs w"
  using assms
proof (induction rs w)
  case Start
  show ?case unfolding fated_def
    by (intro exI[of _ "[]"]) (simp add: NewLogWriter_frame fate_run.Fresh saved_of_def unsaved_of_def)
next
  case (Offer rs w r)
  let ?cap = "loBuffer (lwOpt (NewLogWriter db0 opt))"
  obtain fs where f: "fate_run m faults ?cap db0 rs fs (lwCh w) (lwBatch w) (lwDB w)"
    "lwWritten w = of_nat (length (saved_of fs))" "lwDropped w = of_nat (length (unsaved_of fs))"
    using Offer.IH by (auto simp: fated_def)
  have c: "loBuffer (lwOpt w) = ?cap" using log_run_opt[OF Offer.hyps(1)] by simp
  show ?case
  proof (cases "int (length (lwCh w)) < ?cap")
    case True
    then show ?thesis using f fate_run.Room[OF f(1) True] unfolding fated_def by (intro exI[of _ fs]) (simp add: Log_def c)
  next
    case False
    then show ?thesis using f fate_run.Full[OF f(1) False] unfolding fated_def
      by (intro exI[of _ "fs @ [(r, Turned_away)]"]) (simp add: Log_def c saved_of_def unsaved_of_def)
  qed
next
  case (Recv rs w r q tx)
  then show ?case using fated_take_in by blast
next
  case (Tick rs w tx)
  then show ?case using fated_flush by blast
next
  case (Cancel rs w plans)
  have "fated m faults (loBuffer (lwOpt (NewLogWriter db0 opt))) db0 rs (drain m plans w)"
    unfolding drain_def by (rule fated_drain[OF Cancel.IH Cancel.hyps(3) refl])
  then show ?case by (simp add: fated_def)
qed

text \<open>C33. Every record handed to the log is accounted for, and the counters say what became of it, whatever the database does
  and however the calls interleave with the writer. Each record is still in the channel or the batch, or has met its
  fate; \<^verbatim>\<open>Written\<close> counts the saved, every statement of which ran in a transaction that committed, and \<^verbatim>\<open>Dropped\<close> the
  others: those turned away at the full channel, those of a transaction that did not commit, and those a statement of
  which was refused, though rows that went in before it stay (on 64-bit counters, so modulo their range). The tables are
  what those transactions left. The channel never outgrows its buffer, the batch is flushed before it exceeds its
  size, and once the writer has drained nothing is left behind.\<close>

theorem log_accounted:
  assumes "log_run marshal faults (NewLogWriter db opt) offered w"
  shows "\<exists>fs. fate_run marshal faults (loBuffer (lwOpt w)) db offered fs (lwCh w) (lwBatch w) (lwDB w) \<and>
    mset offered = mset (map fst fs) + mset (lwBatch w) + mset (lwCh w) \<and>
    lwWritten w = of_nat (length (saved_of fs)) \<and> lwDropped w = of_nat (length (unsaved_of fs)) \<and>
    int (length (lwCh w)) \<le> loBuffer (lwOpt w) \<and> int (length (lwBatch w)) < loBatchSize (lwOpt w) \<and>
    (\<not> lwRunning w \<longrightarrow> lwCh w = [] \<and> lwBatch w = [])"
proof -
  have c: "lwOpt w = lwOpt (NewLogWriter db opt)" by (rule log_run_opt[OF assms])
  obtain fs where f: "fate_run marshal faults (loBuffer (lwOpt w)) db offered fs (lwCh w) (lwBatch w) (lwDB w)"
    "lwWritten w = of_nat (length (saved_of fs))" "lwDropped w = of_nat (length (unsaved_of fs))"
    using log_run_fated[OF assms] by (auto simp: fated_def c)
  then show ?thesis using fate_run_all[OF f(1)] log_run_inv[OF assms] by (intro exI[of _ fs]) (simp add: log_inv_def)
qed

theorem log_accounted_witness:
  "\<exists>fs. mset (map fst fs) = {#demo_log_record ''a'', demo_log_record ''b''#} \<and>
     1 = (of_nat (length (saved_of fs)) :: 64 word) \<and> 1 = (of_nat (length (unsaved_of fs)) :: 64 word)"
proof -
  have r: "\<not> lwRunning (demo_log 1)" by (simp add: demo_log_def)
  have "lwWritten (demo_log 1) = 1" "lwDropped (demo_log 1) = 1" by (simp_all add: demo_log_eval)
  then show ?thesis using log_accounted[OF demo_log_run[of 1]] r by (auto simp: add_mset_commute)
qed

text \<open>C27. The drop counter is what tells that the log is incomplete: when the database refuses whole transactions only,
  the tables hold the rows of a subsequence of the records, each whole, in order and under its own id, and
  \<^verbatim>\<open>Written\<close> is its length; and when the writer has drained and \<^verbatim>\<open>Dropped\<close> reads zero, that is every record.\<close>

theorem log_complete:
  assumes "log_run marshal whole_tx (NewLogWriter empty_log opt) offered w" "\<forall>r \<in> set offered. seqs_distinct r"
    and "length offered < 2 ^ 64"
  shows "\<exists>kept. subseq kept offered \<and> lwDB w = stored marshal kept \<and> distinct (map rrID kept) \<and>
    unat (lwWritten w) = length kept \<and> (\<not> lwRunning w \<longrightarrow> lwDropped w = 0 \<longrightarrow> kept = offered)"
proof -
  obtain kept where k: "kept_inv marshal offered w kept" using log_run_kept[OF assms(1,2)] by blast
  have all: "subseq (kept @ lwBatch w @ lwCh w) offered" using k by (simp add: kept_inv_def)
  have s: "subseq kept offered"
    using subseq_order.trans[OF list_emb_append_mono[of "(=)" kept kept "[]" "lwBatch w @ lwCh w"] all] by simp
  then have len: "length kept \<le> length offered" by (rule list_emb_length)
  have w: "unat (lwWritten w) = length kept" using k len assms(3) by (simp add: kept_inv_def unat_of_nat)
  have "kept = offered" if "\<not> lwRunning w" "lwDropped w = 0"
  proof -
    have "lwWritten w = of_nat (length offered)"
      using log_run_inv[OF assms(1)] that by (auto simp: log_inv_def counted_def)
    then have "length kept = length offered" using w assms(3) by (simp add: unat_of_nat)
    with s show ?thesis by (rule subseq_same_length)
  qed
  with s w k show ?thesis by (auto simp: kept_inv_def kept_wf_def)
qed
theorem log_complete_witness:
  "lwDB (demo_log 0) = stored (\<lambda>_. Some []) [demo_log_record ''a'', demo_log_record ''b'']"
proof -
  have d: "\<forall>r \<in> set [demo_log_record ''a'', demo_log_record ''b'']. seqs_distinct r"
    by (simp add: seqs_distinct_def demo_log_record_def RequestRecord.defs LogRecord.defs newRecord_def)
  have "\<not> lwRunning (demo_log 0)" "lwDropped (demo_log 0) = 0" by (simp_all add: demo_log_eval)
  with log_complete[OF demo_log_run d] show ?thesis by auto
qed
end
