(* ===== verification/Usage_Ledger.thy ===== *)
theory Usage_Ledger
  imports Log_Writer "HOL-Library.Product_Lexorder"
begin

text \<open>
  The usage ledger, \<^verbatim>\<open>internal/store\<close>: the daily rollup of the request log (\<^verbatim>\<open>rollup.go\<close>), the retention that prunes it
  (\<^verbatim>\<open>retention.go\<close>) and the usage report an operator reads (\<^verbatim>\<open>analytics.go\<close>). The SQL statements are the list
  operations they denote: a \<^verbatim>\<open>GROUP BY\<close> is one row per key, in key order; a table is its rows, \<^verbatim>\<open>usage_daily\<close> with at most
  one per (day, provider, model, alias).

  A calendar day of UTC is its number of days since 1970, which orders as its \<^verbatim>\<open>YYYY-MM-DD\<close> text does.
\<close>

section \<open>Calendar\<close>

definition day_ns :: duration where
  "day_ns = 86400000000000"

definition utc_day :: "time \<Rightarrow> int" where
  "utc_day t = (t - unix_zero) div day_ns"

text \<open>\<^verbatim>\<open>time.Date(y, m, d, 0, 0, 0, 0, time.UTC)\<close>.\<close>

definition DateUTC :: "int \<Rightarrow> time" where
  "DateUTC d = unix_zero + d * day_ns"

text \<open>\<^verbatim>\<open>time.UnixMilli\<close>, the instant of a millisecond count.\<close>

definition of_UnixMilli :: "int \<Rightarrow> time" where
  "of_UnixMilli ms = unix_zero + ms * 1000000"

text \<open>\<^verbatim>\<open>strftime('%Y-%m-%d', ts / 1000, 'unixepoch')\<close>.\<close>

definition sql_day :: "int \<Rightarrow> int" where
  "sql_day ts = go_div ts 1000 div 86400"

definition rollupDays :: "time \<Rightarrow> time \<times> time \<times> time" where
  "rollupDays now = (let d = utc_day now in (DateUTC d, DateUTC (d - 1), DateUTC (d + 1)))"

section \<open>Tables\<close>

record usage_row =
  usDay :: int
  usProviderID :: string
  usModel :: string
  usAlias :: string
  usRequests :: int
  usAttempts :: int
  usTokensIn :: int
  usTokensOut :: int
  usCostMicros :: "int option"

record usage_db =
  udLog :: log_db
  udUsage :: "usage_row list"
  udSettings :: "(string, string) gomap"

definition putSetting :: "string \<Rightarrow> string \<Rightarrow> usage_db \<Rightarrow> usage_db" where
  "putSetting k v db = db\<lparr>udSettings := AList.update k v (udSettings db)\<rparr>"

definition getSetting :: "string \<Rightarrow> usage_db \<Rightarrow> string option" where
  "getSetting k db = map_of (udSettings db) k"

text \<open>A setting that holds an instant in milliseconds: absent, or text that is no number, reads as nothing.\<close>

definition millis_setting :: "string \<Rightarrow> usage_db \<Rightarrow> int option" where
  "millis_setting k db = (case getSetting k db of None \<Rightarrow> None | Some v \<Rightarrow> Atoi v)"

definition settingRollupLastRun :: string where
  "settingRollupLastRun = ''usage_rollup_last_run''"

definition settingPruneCutoff :: string where
  "settingPruneCutoff = ''log_prune_cutoff''"

section \<open>Aggregation\<close>

text \<open>\<^verbatim>\<open>usageSourceSQL\<close>: one row per attempt of a request in the window, and one per request that names a provider and has
  no attempt.\<close>

definition attempt_usage :: "request_row \<Rightarrow> attempt_row \<Rightarrow> usage_row" where
  "attempt_usage r a =
     \<lparr>usDay = sql_day (rqTS r), usProviderID = atProviderID a, usModel = atModel a, usAlias = rqResolvedAlias r,
      usRequests = (if atOutcome a = ''success'' then 1 else 0), usAttempts = 1,
      usTokensIn = atTokensIn a, usTokensOut = atTokensOut a, usCostMicros = atCostMicros a\<rparr>"

definition request_usage :: "request_row \<Rightarrow> usage_row" where
  "request_usage r =
     \<lparr>usDay = sql_day (rqTS r), usProviderID = rqFinalProviderID r, usModel = rqFinalModel r,
      usAlias = rqResolvedAlias r, usRequests = 1, usAttempts = 0,
      usTokensIn = rqTokensIn r, usTokensOut = rqTokensOut r, usCostMicros = rqCostMicros r\<rparr>"

definition in_window :: "int \<Rightarrow> int \<Rightarrow> request_row \<Rightarrow> bool" where
  "in_window from to r \<longleftrightarrow> from \<le> rqTS r \<and> rqTS r < to"

definition attempts_for :: "log_db \<Rightarrow> request_row \<Rightarrow> attempt_row list" where
  "attempts_for db r = filter (\<lambda>a. atRequestID a = rqID r) (dbAttempts db)"

definition usage_rows :: "log_db \<Rightarrow> request_row list \<Rightarrow> usage_row list" where
  "usage_rows db rs = concat (map (\<lambda>r. map (attempt_usage r) (attempts_for db r)) rs)
     @ map request_usage (filter (\<lambda>r. rqFinalProviderID r \<noteq> '''' \<and> attempts_for db r = []) rs)"

definition usageSource :: "int \<Rightarrow> int \<Rightarrow> log_db \<Rightarrow> usage_row list" where
  "usageSource from to db = usage_rows db (filter (in_window from to) (dbRequests db))"

record usage_totals =
  toRequests :: int
  toAttempts :: int
  toTokensIn :: int
  toTokensOut :: int
  toCostMicros :: "int option"

text \<open>\<^verbatim>\<open>CASE WHEN count(c) = 0 THEN NULL ELSE sum(c) END\<close> and the plain sums.\<close>

definition sum_cost :: "int option list \<Rightarrow> int option" where
  "sum_cost cs = (let vs = [v. Some v \<leftarrow> cs] in if length vs = 0 then None else Some (sum_list vs))"

definition totals :: "usage_row list \<Rightarrow> usage_totals" where
  "totals us = \<lparr>toRequests = sum_list (map usRequests us), toAttempts = sum_list (map usAttempts us),
     toTokensIn = sum_list (map usTokensIn us), toTokensOut = sum_list (map usTokensOut us),
     toCostMicros = sum_cost (map usCostMicros us)\<rparr>"

definition group_by :: "(usage_row \<Rightarrow> 'k::linorder) \<Rightarrow> usage_row list \<Rightarrow> ('k \<times> usage_totals) list" where
  "group_by key us = map (\<lambda>k. (k, totals (filter (\<lambda>u. key u = k) us))) (sort (remdups (map key us)))"

definition usage_key :: "usage_row \<Rightarrow> int \<times> string \<times> string \<times> string" where
  "usage_key u = (usDay u, usProviderID u, usModel u, usAlias u)"

definition usage_of_group :: "(int \<times> string \<times> string \<times> string) \<times> usage_totals \<Rightarrow> usage_row" where
  "usage_of_group g = (case g of ((d, p, m, a), t) \<Rightarrow>
     \<lparr>usDay = d, usProviderID = p, usModel = m, usAlias = a, usRequests = toRequests t, usAttempts = toAttempts t,
      usTokensIn = toTokensIn t, usTokensOut = toTokensOut t, usCostMicros = toCostMicros t\<rparr>)"

definition rolled :: "usage_row list \<Rightarrow> usage_row list" where
  "rolled us = map usage_of_group (group_by usage_key us)"

section \<open>The rollup\<close>

definition firstUnprunedDay :: "usage_db \<Rightarrow> time" where
  "firstUnprunedDay db =
     (case millis_setting settingPruneCutoff db of
        None \<Rightarrow> 0
      | Some ms \<Rightarrow>
          let c = of_UnixMilli ms; day = DateUTC (utc_day c)
          in if day < c then DateUTC (utc_day c + 1) else day)"

definition rollupFrom :: "time \<Rightarrow> usage_db \<Rightarrow> time" where
  "rollupFrom now db =
     (let from = fst (snd (rollupDays now)) in
      case millis_setting settingRollupLastRun db of
        None \<Rightarrow> from
      | Some ms \<Rightarrow>
          let lastDay = DateUTC (utc_day (of_UnixMilli ms)) in
          if lastDay < from then
            (if firstUnprunedDay db > lastDay then DateUTC (utc_day (of_UnixMilli ms) + 1) else lastDay)
          else from)"

definition request_days :: "int \<Rightarrow> int \<Rightarrow> log_db \<Rightarrow> int list" where
  "request_days from to db = map (\<lambda>r. sql_day (rqTS r)) (filter (in_window from to) (dbRequests db))"

text \<open>\<open>None\<close> is the error, of a statement the database refuses (\<open>\<not> ok\<close>) or of an inserted row whose key is taken; the
  transaction is then rolled back.\<close>

definition Rollup :: "bool \<Rightarrow> time \<Rightarrow> usage_db \<Rightarrow> usage_db option" where
  "Rollup ok now db =
     (let (today, yesterday, to) = rollupDays now; from = rollupFrom now db;
          f = UnixMilli from; t = UnixMilli to;
          left = filter (\<lambda>u. usDay u \<notin> set (request_days f t (udLog db))) (udUsage db);
          rows = left @ rolled (usageSource f t (udLog db))
      in if \<not> ok \<or> \<not> distinct (map usage_key rows) then None
         else Some (putSetting settingRollupLastRun (FormatInt (UnixMilli now)) (db\<lparr>udUsage := rows\<rparr>)))"

section \<open>The report\<close>

definition pendingFrom :: "time \<Rightarrow> usage_db \<Rightarrow> time" where
  "pendingFrom now db =
     (let from = rollupFrom now db in
      case millis_setting settingRollupLastRun db of
        None \<Rightarrow> from
      | Some ms \<Rightarrow> let lastDay = DateUTC (utc_day (of_UnixMilli ms)) in if lastDay > from then lastDay else from)"

datatype UsageDimension = UsageByDayOnly | UsageByProvider | UsageByModel | UsageByAlias

fun column :: "UsageDimension \<Rightarrow> usage_row \<Rightarrow> string" where
  "column UsageByDayOnly u = ''''"
| "column UsageByProvider u = usProviderID u"
| "column UsageByModel u = usModel u"
| "column UsageByAlias u = usAlias u"

definition UsageWindow :: "time \<Rightarrow> int \<Rightarrow> int \<times> int" where
  "UsageWindow now days0 =
     (let days = (if days0 \<le> 0 \<or> days0 > 365 then 30 else days0); today = utc_day now in (today + (1 - days), today))"

definition UsageBy :: "time \<Rightarrow> int \<Rightarrow> UsageDimension \<Rightarrow> usage_db \<Rightarrow> ((int \<times> string) \<times> usage_totals) list" where
  "UsageBy now days dim db =
     (let (first, last) = UsageWindow now days; pending0 = pendingFrom now db; end = snd (snd (rollupDays now));
          firstDay = DateUTC first; pending = (if pending0 < firstDay then firstDay else pending0);
          pf = UnixMilli pending; to = UnixMilli end;
          settled = filter (\<lambda>u. first \<le> usDay u \<and> usDay u \<le> last \<and> usDay u \<notin> set (request_days pf to (udLog db))) (udUsage db)
      in group_by (\<lambda>u. (usDay u, column dim u)) (settled @ usageSource pf to (udLog db)))"

section \<open>Retention\<close>

text \<open>What the database or a cancelled context does to a batch: the transaction fails, or the pause after it does.\<close>

datatype batch_fault = BatchRuns | BatchFails | PauseFails

definition DefaultUsageRetention :: duration where
  "DefaultUsageRetention = 400 * day_ns"

text \<open>\<^verbatim>\<open>SELECT id FROM requests WHERE ts < ? ORDER BY ts LIMIT ?\<close>.\<close>

definition expired_ids :: "int \<Rightarrow> nat \<Rightarrow> log_db \<Rightarrow> string list" where
  "expired_ids cutoff batch db = map rqID (take batch (sort_key rqTS (filter (\<lambda>r. rqTS r < cutoff) (dbRequests db))))"

definition pruneRequestBatch :: "int \<Rightarrow> nat \<Rightarrow> log_db \<Rightarrow> log_db \<times> nat" where
  "pruneRequestBatch cutoff batch db =
     (let ids = set (expired_ids cutoff batch db);
          rs = filter (\<lambda>r. rqID r \<notin> ids) (dbRequests db)
      in (db\<lparr>dbAttempts := filter (\<lambda>a. atRequestID a \<notin> ids) (dbAttempts db), dbRequests := rs\<rparr>,
          length (dbRequests db) - length rs))"

definition pruneBodyBatch :: "int \<Rightarrow> nat \<Rightarrow> log_db \<Rightarrow> log_db \<times> nat" where
  "pruneBodyBatch nowMillis batch db =
     (let ids = set (map boRequestID (take batch (filter (\<lambda>b. boExpiresAt b < nowMillis) (dbBodies db))));
          bs = filter (\<lambda>b. boRequestID b \<notin> ids) (dbBodies db)
      in (db\<lparr>dbBodies := bs\<rparr>, length (dbBodies db) - length bs))"

lemma pruneRequestBatch_shrinks: "pruneRequestBatch cutoff batch db = (db1, n) \<Longrightarrow>
    length (dbRequests db1) + n = length (dbRequests db)"
  by (auto simp: pruneRequestBatch_def Let_def)

lemma pruneBodyBatch_shrinks: "pruneBodyBatch ms batch db = (db1, n) \<Longrightarrow> length (dbBodies db1) + n = length (dbBodies db)"
  by (auto simp: pruneBodyBatch_def Let_def)

text \<open>The loops: batches until one deletes nothing. \<open>faults\<close> lists what happens to the batches in turn; the last
  component tells whether the loop ended without an error.\<close>

function prune_requests :: "(nat \<Rightarrow> batch_fault) \<Rightarrow> int \<Rightarrow> nat \<Rightarrow> log_db \<Rightarrow> nat \<Rightarrow> log_db \<times> nat \<times> bool" where
  "prune_requests faults cutoff batch db deleted =
     (if faults 0 = BatchFails then (db, deleted, False)
      else
        let (db1, n) = pruneRequestBatch cutoff batch db in
        if n = 0 then (db1, deleted + n, True)
        else if faults 0 = PauseFails then (db1, deleted + n, False)
        else prune_requests (\<lambda>i. faults (Suc i)) cutoff batch db1 (deleted + n))"
  by pat_completeness auto
termination
  by (relation "measure (\<lambda>(faults, cutoff, batch, db, deleted). length (dbRequests db))")
    (auto dest!: sym[of "(_, _)"] pruneRequestBatch_shrinks)

function prune_bodies :: "(nat \<Rightarrow> batch_fault) \<Rightarrow> int \<Rightarrow> nat \<Rightarrow> log_db \<Rightarrow> log_db \<times> bool" where
  "prune_bodies faults ms batch db =
     (if faults 0 = BatchFails then (db, False)
      else
        let (db1, n) = pruneBodyBatch ms batch db in
        if n = 0 then (db1, True)
        else if faults 0 = PauseFails then (db1, False)
        else prune_bodies (\<lambda>i. faults (Suc i)) ms batch db1)"
  by pat_completeness auto
termination
  by (relation "measure (\<lambda>(faults, ms, batch, db). length (dbBodies db))")
    (auto dest!: sym[of "(_, _)"] pruneBodyBatch_shrinks)

declare prune_requests.simps [simp del] prune_bodies.simps [simp del]

record prune_plan =
  ppCutoff :: bool
  ppRequests :: "nat \<Rightarrow> batch_fault"
  ppBodies :: "nat \<Rightarrow> batch_fault"
  ppUsage :: bool
  ppVacuum :: bool
  ppCheckpoint :: bool

text \<open>The cutoff is kept at its maximum: \<^verbatim>\<open>CASE WHEN CAST(excluded.value AS INTEGER) > CAST(settings.value AS INTEGER)\<close>.
  Only decimal text is stored there, so the cast is its number.\<close>

definition record_cutoff :: "int \<Rightarrow> usage_db \<Rightarrow> usage_db" where
  "record_cutoff cutoff db =
     (case millis_setting settingPruneCutoff db of
        Some old \<Rightarrow> if cutoff > old then putSetting settingPruneCutoff (FormatInt cutoff) db else db
      | None \<Rightarrow> putSetting settingPruneCutoff (FormatInt cutoff) db)"

text \<open>The number of requests deleted, and whether there was no error.\<close>

definition Prune :: "prune_plan \<Rightarrow> time \<Rightarrow> duration \<Rightarrow> duration \<Rightarrow> int \<Rightarrow> usage_db \<Rightarrow> usage_db \<times> nat \<times> bool" where
  "Prune pp now logRetention usageRetention0 batch0 db =
     (let batch = nat (if batch0 \<le> 0 then 500 else batch0);
          usageRetention = (if usageRetention0 \<le> 0 then DefaultUsageRetention else usageRetention0);
          logCutoff = UnixMilli (now - logRetention)
      in if \<not> ppCutoff pp then (db, 0, False)
         else
           let db1 = record_cutoff logCutoff db;
               (log2, deleted, ok2) = prune_requests (ppRequests pp) logCutoff batch (udLog db1) 0;
               db2 = db1\<lparr>udLog := log2\<rparr>
           in if \<not> ok2 then (db2, deleted, False)
              else
                let (log3, ok3) = prune_bodies (ppBodies pp) (UnixMilli now) batch (udLog db2);
                    db3 = db2\<lparr>udLog := log3\<rparr>
                in if \<not> ok3 \<or> \<not> ppUsage pp then (db3, deleted, False)
                   else
                     let db4 = db3\<lparr>udUsage := filter (\<lambda>u. \<not> usDay u < utc_day (now - usageRetention)) (udUsage db3)\<rparr>
                     in (db4, deleted, ppVacuum pp \<and> ppCheckpoint pp))"

section \<open>Calendar facts\<close>

abbreviation day_ms :: int where
  "day_ms \<equiv> 86400000"

lemma UnixMilli_DateUTC [simp]: "UnixMilli (DateUTC d) = d * day_ms"
proof -
  have "d * 86400000000000 = (d * 86400000) * (1000000::int)" by simp
  then show ?thesis unfolding UnixMilli_def DateUTC_def day_ns_def by (metis add_diff_cancel_left' nonzero_mult_div_cancel_right zero_neq_numeral)
qed

lemma utc_day_millis: "utc_day t = UnixMilli t div day_ms"
  by (simp add: utc_day_def UnixMilli_def day_ns_def div_mult2_eq[symmetric] flip: zdiv_zmult2_eq)

lemma UnixMilli_of [simp]: "UnixMilli (of_UnixMilli ms) = ms"
  by (simp add: UnixMilli_def of_UnixMilli_def)

lemma utc_day_of_UnixMilli [simp]: "utc_day (of_UnixMilli ms) = ms div day_ms"
  by (simp add: utc_day_millis)

lemma sql_day_div: "0 \<le> ts \<Longrightarrow> sql_day ts = ts div day_ms"
  by (simp add: sql_day_def go_div_nonneg flip: zdiv_zmult2_eq)

lemma DateUTC_less [simp]: "DateUTC a < DateUTC b \<longleftrightarrow> a < b"
  by (simp add: DateUTC_def day_ns_def)

lemma DateUTC_le [simp]: "DateUTC a \<le> DateUTC b \<longleftrightarrow> a \<le> b"
  by (simp add: DateUTC_def day_ns_def)

lemma DateUTC_eq [simp]: "DateUTC a = DateUTC b \<longleftrightarrow> a = b"
  by (simp add: DateUTC_def day_ns_def)

lemma day_ge: "(d::int) \<le> t div day_ms \<longleftrightarrow> d * day_ms \<le> t"
  by linarith

lemma UnixMilli_mono: "t \<le> u \<Longrightarrow> UnixMilli t \<le> UnixMilli u"
  by (simp add: UnixMilli_def zdiv_mono1)

lemma utc_day_mono: "t \<le> u \<Longrightarrow> utc_day t \<le> utc_day u"
  by (simp add: utc_day_def day_ns_def zdiv_mono1)

lemma utc_day_shift: "utc_day (t - n * day_ns) = utc_day t - n"
proof -
  have "t - n * day_ns - unix_zero = (t - unix_zero) + (- n) * day_ns" by simp
  then show ?thesis unfolding utc_day_def by (simp add: day_ns_def)
qed

section \<open>Usage of a log, day by day\<close>

definition all_usage :: "log_db \<Rightarrow> usage_row list" where
  "all_usage db = usage_rows db (dbRequests db)"

definition since_epoch :: "log_db \<Rightarrow> bool" where
  "since_epoch db = (\<forall>r \<in> set (dbRequests db). 0 \<le> rqTS r)"

lemma usage_day [simp]: "usDay (attempt_usage r a) = sql_day (rqTS r)" "usDay (request_usage r) = sql_day (rqTS r)"
  by (simp_all add: attempt_usage_def request_usage_def)

lemma filter_concat_map:
  "(\<And>x y. x \<in> set xs \<Longrightarrow> y \<in> set (f x) \<Longrightarrow> Q y = P x) \<Longrightarrow> filter Q (concat (map f xs)) = concat (map f (filter P xs))"
proof (induction xs)
  case (Cons x xs)
  have "filter Q (f x) = (if P x then f x else [])" using Cons.prems[of x] by (auto simp: filter_id_conv filter_empty_conv)
  with Cons show ?case by simp
qed simp

lemma in_window_days:
  assumes "0 \<le> rqTS r"
  shows "in_window (d * day_ms) (e * day_ms) r \<longleftrightarrow> d \<le> sql_day (rqTS r) \<and> sql_day (rqTS r) < e"
  using day_ge[of d "rqTS r"] day_ge[of e "rqTS r"] by (auto simp: in_window_def sql_day_div[OF assms])

lemma filter_usage_rows:
  assumes "\<And>r. r \<in> set rs \<Longrightarrow> Q (sql_day (rqTS r)) = P r"
  shows "filter (\<lambda>u. Q (usDay u)) (usage_rows db rs) = usage_rows db (filter P rs)"
proof -
  have "filter (\<lambda>u. Q (usDay u)) (concat (map (\<lambda>r. map (attempt_usage r) (attempts_for db r)) rs)) =
      concat (map (\<lambda>r. map (attempt_usage r) (attempts_for db r)) (filter P rs))"
    by (rule filter_concat_map) (auto simp: assms)
  moreover have "filter (\<lambda>u. Q (usDay u)) (map request_usage (filter P' rs)) = map request_usage (filter P' (filter P rs))" for P'
    by (auto simp: filter_map assms intro!: arg_cong[where f = "map request_usage"] filter_cong)
  ultimately show ?thesis by (simp add: usage_rows_def)
qed

lemma usageSource_days:
  assumes "since_epoch db"
  shows "usageSource (d * day_ms) (e * day_ms) db = filter (\<lambda>u. d \<le> usDay u \<and> usDay u < e) (all_usage db)"
  unfolding usageSource_def all_usage_def
  by (rule filter_usage_rows[symmetric]) (use assms in_window_days in \<open>simp add: since_epoch_def\<close>)

lemma request_days_iff:
  assumes "since_epoch db"
  shows "k \<in> set (request_days (d * day_ms) (e * day_ms) db) \<longleftrightarrow>
    d \<le> k \<and> k < e \<and> (\<exists>r \<in> set (dbRequests db). sql_day (rqTS r) = k)"
  using assms in_window_days by (auto simp: request_days_def since_epoch_def)

lemma all_usage_day: "u \<in> set (all_usage db) \<Longrightarrow> \<exists>r \<in> set (dbRequests db). sql_day (rqTS r) = usDay u"
  by (auto simp: all_usage_def usage_rows_def)

section \<open>Grouping\<close>

lemma set_group_keys [simp]: "set (sort (remdups (map key us))) = key ` set us"
  by simp


lemma usage_key_of_group [simp]: "usage_key (usage_of_group (k, t)) = k"
  by (cases k) (simp add: usage_key_def usage_of_group_def)

lemma rolled_keys: "map usage_key (rolled us) = sort (remdups (map usage_key us))"
  by (simp add: rolled_def group_by_def comp_def)

lemma rolled_Nil [simp]: "rolled [] = []"
  by (simp add: rolled_def group_by_def)

lemma rolled_filter: "filter (\<lambda>u. Q (usage_key u)) (rolled us) = rolled (filter (\<lambda>u. Q (usage_key u)) us)"
proof -
  have m: "filter Q (map usage_key us) = map usage_key (filter (\<lambda>u. Q (usage_key u)) us)" by (simp add: filter_map comp_def)
  have k: "filter Q (sort (remdups (map usage_key us))) = sort (remdups (map usage_key (filter (\<lambda>u. Q (usage_key u)) us)))"
    by (simp add: filter_sort remdups_filter flip: m)
  have t: "filter (\<lambda>u. usage_key u = k) (filter (\<lambda>u. Q (usage_key u)) us) = filter (\<lambda>u. usage_key u = k) us" if "Q k" for k
    using that by (auto simp: filter_filter intro: filter_cong)
  show ?thesis unfolding rolled_def group_by_def filter_map comp_def usage_key_of_group
    using t by (simp flip: k)
qed


definition cost_part :: "int option \<Rightarrow> int" where
  "cost_part c = (case c of None \<Rightarrow> 0 | Some v \<Rightarrow> v)"

lemma cost_part_simps [simp]: "cost_part None = 0" "cost_part (Some v) = v"
  by (simp_all add: cost_part_def)


lemma usage_of_group_sel [simp]:
  "usRequests (usage_of_group (k, t)) = toRequests t" "usAttempts (usage_of_group (k, t)) = toAttempts t"
  "usTokensIn (usage_of_group (k, t)) = toTokensIn t" "usTokensOut (usage_of_group (k, t)) = toTokensOut t"
  "usCostMicros (usage_of_group (k, t)) = toCostMicros t"
  by (cases k, simp add: usage_of_group_def)+

lemma totals_sel [simp]:
  "toRequests (totals us) = sum_list (map usRequests us)" "toAttempts (totals us) = sum_list (map usAttempts us)"
  "toTokensIn (totals us) = sum_list (map usTokensIn us)" "toTokensOut (totals us) = sum_list (map usTokensOut us)"
  "toCostMicros (totals us) = sum_cost (map usCostMicros us)"
  by (simp_all add: totals_def)



section \<open>The ledger over time\<close>

text \<open>
  The log writer, the rollup and retention over one database, in any order as the clock advances. \<open>full\<close> is the log as it
  would be without retention. What a run keeps to: the startup rollup precedes the first prune and an hourly one is never
  a day late (\<^verbatim>\<open>RunRollup\<close>); retention keeps two days of requests at least (\<^verbatim>\<open>log.retention\<close> is floored there); request ids
  are never reused; and a record reaches the tables before the first rollup of a day after its own (\<open>timely\<close>), which is so but
  for requests that run over midnight.
\<close>

definition last_day :: "usage_db \<Rightarrow> int option" where
  "last_day db = map_option (\<lambda>ms. ms div day_ms) (millis_setting settingRollupLastRun db)"

definition timely :: "time \<Rightarrow> usage_db \<Rightarrow> log_db \<Rightarrow> LogRecord list \<Rightarrow> bool" where
  "timely now db full batch \<longleftrightarrow> distinct (map rrID batch) \<and> rrID ` set batch \<inter> log_ids full = {} \<and>
     (\<forall>r \<in> set batch. seqs_distinct r \<and> unix_zero \<le> rrTS r \<and> rrTS r \<le> now \<and>
        (case last_day db of None \<Rightarrow> True | Some d \<Rightarrow> d \<le> utc_day (rrTS r)))"

definition no_log :: usage_db where
  "no_log = \<lparr>udLog = empty_log, udUsage = [], udSettings = []\<rparr>"

inductive ledger :: "(json \<Rightarrow> string option) \<Rightarrow> usage_db \<Rightarrow> log_db \<Rightarrow> time \<Rightarrow> bool" for marshal where
  Open: "unix_zero \<le> now \<Longrightarrow> UnixMilli now \<le> int64_max \<Longrightarrow> ledger marshal no_log empty_log now"
| Wait: "ledger marshal db full clk \<Longrightarrow> clk \<le> now \<Longrightarrow> UnixMilli now \<le> int64_max \<Longrightarrow> ledger marshal db full now"
| Write: "ledger marshal db full now \<Longrightarrow> timely now db full batch \<Longrightarrow> tx \<in> whole_tx \<Longrightarrow>
     ledger marshal (db\<lparr>udLog := fst (WriteBatch marshal tx batch (udLog db))\<rparr>) (fst (WriteBatch marshal tx batch full)) now"
| Roll: "ledger marshal db full now \<Longrightarrow>
     (last_day db = None \<Longrightarrow> \<forall>r \<in> set (dbRequests full). utc_day now - 1 \<le> sql_day (rqTS r)) \<Longrightarrow>
     Rollup ok now db = Some db' \<Longrightarrow> ledger marshal db' full now"
| Retain: "ledger marshal db full now \<Longrightarrow> millis_setting settingRollupLastRun db = Some ms \<Longrightarrow>
     now \<le> of_UnixMilli ms + day_ns \<Longrightarrow> 2 * day_ns \<le> logRetention \<Longrightarrow> now - logRetention \<ge> unix_zero \<Longrightarrow>
     ledger marshal (fst (Prune pp now logRetention DefaultUsageRetention 0 db)) full now"

text \<open>What holds of the database at an instant, against the unpruned log.\<close>

definition log_kept :: "usage_db \<Rightarrow> log_db \<Rightarrow> string set \<Rightarrow> bool" where
  "log_kept db full I \<longleftrightarrow>
     dbRequests (udLog db) = filter (\<lambda>r. rqID r \<in> I) (dbRequests full) \<and>
     dbAttempts (udLog db) = filter (\<lambda>a. atRequestID a \<in> I) (dbAttempts full) \<and>
     boRequestID ` set (dbBodies (udLog db)) \<subseteq> log_ids full \<and>
     (\<forall>r \<in> set (dbRequests full). rqID r \<notin> I \<longrightarrow> (\<exists>c. millis_setting settingPruneCutoff db = Some c \<and> rqTS r < c))"

definition ledger_inv :: "usage_db \<Rightarrow> log_db \<Rightarrow> time \<Rightarrow> bool" where
  "ledger_inv db full now \<longleftrightarrow>
     unix_zero \<le> now \<and> UnixMilli now \<le> int64_max \<and>
     (\<forall>r \<in> set (dbRequests full). 0 \<le> rqTS r \<and> rqTS r \<le> UnixMilli now) \<and> distinct (map rqID (dbRequests full)) \<and>
     atRequestID ` set (dbAttempts full) \<subseteq> rqID ` set (dbRequests full) \<and>
     (\<exists>I. log_kept db full I) \<and>
     (\<forall>ms. millis_setting settingRollupLastRun db = Some ms \<longrightarrow> 0 \<le> ms \<and> ms \<le> UnixMilli now) \<and>
     (\<forall>c. millis_setting settingPruneCutoff db = Some c \<longrightarrow>
        c < (utc_day now - 1) * day_ms \<and> (\<exists>d. last_day db = Some d \<and> c \<le> d * day_ms)) \<and>
     (\<forall>d k. last_day db = Some d \<longrightarrow> k < d \<longrightarrow> utc_day now - 400 \<le> k \<longrightarrow>
        filter (\<lambda>u. usDay u = k) (udUsage db) = rolled (filter (\<lambda>u. usDay u = k) (all_usage full))) \<and>
     (\<forall>u \<in> set (udUsage db). \<exists>d. last_day db = Some d \<and>
        (d \<le> usDay u \<longrightarrow> (\<exists>r \<in> set (dbRequests (udLog db)). sql_day (rqTS r) = usDay u))) \<and>
     distinct (map usage_key (udUsage db))"
lemma two_days_back: "UnixMilli (now - 2 * day_ns) < (utc_day now - 1) * day_ms"
  using utc_day_shift[of now 2] day_ge[of "utc_day now - 1" "UnixMilli (now - 2 * day_ns)"]
  by (simp add: utc_day_millis)

lemma ledger_inv_epoch:
  assumes "ledger_inv db full now"
  shows "since_epoch full" "since_epoch (udLog db)"
  using assms by (auto simp: ledger_inv_def since_epoch_def log_kept_def)

text \<open>Retention has not touched a day at or after the cutoff: the pruned log agrees with the full one there.\<close>

lemma kept_days:
  assumes "ledger_inv db full now" and "\<And>c. millis_setting settingPruneCutoff db = Some c \<Longrightarrow> c \<le> d * day_ms"
  shows "filter (\<lambda>u. d \<le> usDay u) (all_usage (udLog db)) = filter (\<lambda>u. d \<le> usDay u) (all_usage full)"
    and "d \<le> k \<Longrightarrow> (\<exists>r \<in> set (dbRequests (udLog db)). sql_day (rqTS r) = k) \<longleftrightarrow> (\<exists>r \<in> set (dbRequests full). sql_day (rqTS r) = k)"
proof -
  obtain I where I: "log_kept db full I" using assms(1) by (auto simp: ledger_inv_def)
  have i: "rqID r \<in> I" if "r \<in> set (dbRequests full)" "d \<le> sql_day (rqTS r)" for r
  proof (rule ccontr)
    assume "rqID r \<notin> I"
    with I that(1) obtain c where c: "millis_setting settingPruneCutoff db = Some c" "rqTS r < c"
      by (auto simp: log_kept_def)
    have "0 \<le> rqTS r" using that(1) assms(1) by (simp add: ledger_inv_def)
    with that(2) have "d * day_ms \<le> rqTS r" by (simp add: sql_day_div day_ge)
    with c assms(2) show False by fastforce
  qed
  have rs: "filter (\<lambda>r. d \<le> sql_day (rqTS r)) (dbRequests (udLog db)) = filter (\<lambda>r. d \<le> sql_day (rqTS r)) (dbRequests full)"
    using I i by (auto simp: log_kept_def filter_filter intro: filter_cong)
  have "attempts_for (udLog db) r = attempts_for full r" if "rqID r \<in> I" for r
    using I that by (auto simp: log_kept_def attempts_for_def filter_filter intro: filter_cong)
  then have "usage_rows (udLog db) (filter (\<lambda>r. d \<le> sql_day (rqTS r)) (dbRequests full)) =
      usage_rows full (filter (\<lambda>r. d \<le> sql_day (rqTS r)) (dbRequests full))"
    unfolding usage_rows_def using i
    by (auto intro!: arg_cong2[where f = append] arg_cong[where f = concat] arg_cong[where f = "map request_usage"]
        map_cong filter_cong)
  then show "filter (\<lambda>u. d \<le> usDay u) (all_usage (udLog db)) = filter (\<lambda>u. d \<le> usDay u) (all_usage full)"
    unfolding all_usage_def
    by (simp add: filter_usage_rows[where P = "\<lambda>r. d \<le> sql_day (rqTS r)" and Q = "\<lambda>k. d \<le> k"] rs)
  show "(\<exists>r \<in> set (dbRequests (udLog db)). sql_day (rqTS r) = k) \<longleftrightarrow> (\<exists>r \<in> set (dbRequests full). sql_day (rqTS r) = k)"
    if "d \<le> k"
    using I i that by (auto simp: log_kept_def)
qed
lemma last_day_Some:
  assumes "ledger_inv db full now" "last_day db = Some d"
  shows "d \<le> utc_day now" "0 \<le> d"
proof -
  obtain ms where "millis_setting settingRollupLastRun db = Some ms" "d = ms div day_ms"
    using assms(2) by (auto simp: last_day_def)
  then show "d \<le> utc_day now" "0 \<le> d" using assms(1) by (auto simp: ledger_inv_def utc_day_millis zdiv_mono1 pos_imp_zdiv_nonneg_iff)
qed

text \<open>The fence never reaches past the last run's day, so the reach-back goes to that day.\<close>

lemma rollupFrom_day:
  assumes "ledger_inv db full now"
  shows "rollupFrom now db = DateUTC (case last_day db of None \<Rightarrow> utc_day now - 1 | Some d \<Rightarrow> min d (utc_day now - 1))"
proof (cases "last_day db")
  case None
  then show ?thesis by (simp add: rollupFrom_def rollupDays_def Let_def last_day_def)
next
  case (Some d)
  have "\<not> firstUnprunedDay db > DateUTC d"
  proof (cases "millis_setting settingPruneCutoff db")
    case None
    then show ?thesis using last_day_Some[OF assms Some]
      by (simp add: firstUnprunedDay_def DateUTC_def unix_zero_def day_ns_def)
  next
    case (Some c)
    with assms \<open>last_day db = Some d\<close> have c: "c \<le> d * day_ms" by (auto simp: ledger_inv_def)
    have "DateUTC (c div day_ms) < of_UnixMilli c \<Longrightarrow> c div day_ms * day_ms < c"
      by (simp add: DateUTC_def of_UnixMilli_def day_ns_def)
    then show ?thesis using c by (auto simp: firstUnprunedDay_def Some Let_def not_less)
  qed
  with Some show ?thesis
    by (auto simp: rollupFrom_def rollupDays_def Let_def last_day_def min_def)
qed

lemma cutoff_before:
  assumes "ledger_inv db full now" "millis_setting settingPruneCutoff db = Some c"
  shows "c \<le> (case last_day db of None \<Rightarrow> utc_day now - 1 | Some d \<Rightarrow> min d (utc_day now - 1)) * day_ms"
  using assms by (auto simp: ledger_inv_def min_def)

lemma ledger_inv_usage:
  "ledger_inv db full now \<Longrightarrow> u \<in> set (udUsage db) \<Longrightarrow> \<exists>d. last_day db = Some d \<and>
    (d \<le> usDay u \<longrightarrow> (\<exists>r \<in> set (dbRequests (udLog db)). sql_day (rqTS r) = usDay u))"
  unfolding ledger_inv_def by blast

text \<open>A day without requests has no usage.\<close>

lemma unlogged_day:
  assumes inv: "ledger_inv db full now" and none: "\<not> (\<exists>r \<in> set (dbRequests full). sql_day (rqTS r) = k)"
    and k: "utc_day now - 400 \<le> k"
  shows "filter (\<lambda>u. usDay u = k) (udUsage db) = []"
proof (rule ccontr)
  assume "filter (\<lambda>u. usDay u = k) (udUsage db) \<noteq> []"
  then obtain u where u: "u \<in> set (udUsage db)" "usDay u = k" by (auto simp: filter_empty_conv)
  obtain d where d: "last_day db = Some d" "d \<le> k \<longrightarrow> (\<exists>r \<in> set (dbRequests (udLog db)). sql_day (rqTS r) = k)"
    using ledger_inv_usage[OF inv u(1)] u(2) by blast
  have cut: "c \<le> d * day_ms" if "millis_setting settingPruneCutoff db = Some c" for c
    using inv that d(1) by (auto simp: ledger_inv_def)
  show False
  proof (cases "d \<le> k")
    case True
    with d none kept_days(2)[OF inv cut True] show False by blast
  next
    case False
    have "filter (\<lambda>u. usDay u = k) (all_usage full) = []" using none all_usage_day by (fastforce simp: filter_empty_conv)
    with False d(1) k inv have "filter (\<lambda>u. usDay u = k) (udUsage db) = []" by (auto simp: ledger_inv_def)
    with u show False by (auto simp: filter_empty_conv)
  qed
qed

text \<open>What a rollup leaves of each day, from its first day on: the rollup of the full log.\<close>

lemma Rollup_days:
  assumes inv: "ledger_inv db full now"
    and f: "f = (case last_day db of None \<Rightarrow> utc_day now - 1 | Some d \<Rightarrow> min d (utc_day now - 1))"
    and R: "Rollup ok now db = Some db'"
  shows "f \<le> k \<Longrightarrow> k \<le> utc_day now \<Longrightarrow> utc_day now - 400 \<le> k \<Longrightarrow>
      filter (\<lambda>u. usDay u = k) (udUsage db') = rolled (filter (\<lambda>u. usDay u = k) (all_usage full))"
    and "k < f \<or> utc_day now < k \<Longrightarrow> filter (\<lambda>u. usDay u = k) (udUsage db') = filter (\<lambda>u. usDay u = k) (udUsage db)"
    and "distinct (map usage_key (udUsage db'))" and "udLog db' = udLog db"
proof -
  let ?T = "utc_day now" and ?day = "\<lambda>k us. filter (\<lambda>u. usDay u = k) us"
  let ?days = "set (request_days (f * day_ms) ((?T + 1) * day_ms) (udLog db))"
  let ?src = "usageSource (f * day_ms) ((?T + 1) * day_ms) (udLog db)"
  have fr: "rollupFrom now db = DateUTC f" using rollupFrom_day[OF inv] f by simp
  have db': "udUsage db' = filter (\<lambda>u. usDay u \<notin> ?days) (udUsage db) @ rolled ?src" "udLog db' = udLog db"
    "distinct (map usage_key (udUsage db'))"
    using R by (auto simp: Rollup_def rollupDays_def Let_def fr putSetting_def split: if_splits)
  note ep = ledger_inv_epoch[OF inv]
  have cut: "c \<le> f * day_ms" if "millis_setting settingPruneCutoff db = Some c" for c
    using cutoff_before[OF inv that] f by simp
  have src: "?day k ?src = (if f \<le> k \<and> k \<le> ?T then ?day k (all_usage full) else [])" for k
  proof -
    have "?src = filter (\<lambda>u. f \<le> usDay u \<and> usDay u < ?T + 1) (all_usage (udLog db))" by (rule usageSource_days[OF ep(2)])
    then have "?day k ?src = (if k \<le> ?T then ?day k (filter (\<lambda>u. f \<le> usDay u) (all_usage (udLog db))) else [])"
      by (auto simp: filter_filter filter_empty_conv intro!: filter_cong)
    also have "filter (\<lambda>u. f \<le> usDay u) (all_usage (udLog db)) = filter (\<lambda>u. f \<le> usDay u) (all_usage full)"
      using kept_days(1)[OF inv cut] .
    finally show ?thesis by (auto simp: filter_filter filter_empty_conv intro: filter_cong)
  qed
  have rol: "?day k (rolled us) = rolled (?day k us)" for us k
    using rolled_filter[of "\<lambda>x. fst x = k" us] by (simp add: usage_key_def)
  have days: "k \<in> ?days \<longleftrightarrow> f \<le> k \<and> k \<le> ?T \<and> (\<exists>r \<in> set (dbRequests full). sql_day (rqTS r) = k)" for k
    using request_days_iff[OF ep(2), of k f "?T + 1"] kept_days(2)[OF inv cut, of k] by auto
  have new: "?day k (udUsage db') = (if k \<in> ?days then [] else ?day k (udUsage db)) @ rolled (?day k ?src)" for k
    by (auto simp: db'(1) rol filter_filter filter_empty_conv intro: filter_cong)
  show "?day k (udUsage db') = ?day k (udUsage db)" if "k < f \<or> ?T < k"
    using that new[of k] src[of k] days[of k] by auto
  show "?day k (udUsage db') = rolled (?day k (all_usage full))" if k: "f \<le> k" "k \<le> ?T" "?T - 400 \<le> k"
  proof (cases "k \<in> ?days")
    case True
    then show ?thesis using new[of k] src[of k] k by simp
  next
    case False
    then have none: "\<not> (\<exists>r \<in> set (dbRequests full). sql_day (rqTS r) = k)" using days k by blast
    then have e: "?day k (all_usage full) = []" using all_usage_day by (fastforce simp: filter_empty_conv)
    show ?thesis using new[of k] src[of k] e unlogged_day[OF inv none k(3)] by (simp split: if_splits)
  qed
  show "distinct (map usage_key (udUsage db'))" "udLog db' = udLog db" using db' by simp_all
qed
lemma millis_put [simp]:
  "millis_setting k (putSetting k' v db) = (if k = k' then Atoi v else millis_setting k db)"
  "millis_setting k (db\<lparr>udUsage := us\<rparr>) = millis_setting k db" "millis_setting k (db\<lparr>udLog := l\<rparr>) = millis_setting k db"
  by (simp_all add: millis_setting_def getSetting_def putSetting_def)

lemma settings_differ [simp]: "settingPruneCutoff \<noteq> settingRollupLastRun" "settingRollupLastRun \<noteq> settingPruneCutoff"
  by (simp_all add: settingPruneCutoff_def settingRollupLastRun_def)

lemma last_day_frame [simp]:
  "last_day (db\<lparr>udUsage := us\<rparr>) = last_day db" "last_day (db\<lparr>udLog := l\<rparr>) = last_day db"
  "last_day (putSetting settingPruneCutoff v db) = last_day db"
  by (simp_all add: last_day_def)

lemma putSetting_frame [simp]: "udLog (putSetting k v db) = udLog db" "udUsage (putSetting k v db) = udUsage db"
  by (simp_all add: putSetting_def)

lemma Rollup_settings:
  assumes "Rollup ok now db = Some db'" "unix_zero \<le> now" "UnixMilli now \<le> int64_max"
  shows "millis_setting settingRollupLastRun db' = Some (UnixMilli now)"
    and "millis_setting settingPruneCutoff db' = millis_setting settingPruneCutoff db" "last_day db' = Some (utc_day now)"
proof -
  have "0 \<le> UnixMilli now" using assms(2) by (simp add: UnixMilli_def pos_imp_zdiv_nonneg_iff)
  then have "Atoi (FormatInt (UnixMilli now)) = Some (UnixMilli now)" using assms(3) by (intro Atoi_FormatInt) (simp_all add: int64_max_def)
  then show "millis_setting settingRollupLastRun db' = Some (UnixMilli now)"
    and "millis_setting settingPruneCutoff db' = millis_setting settingPruneCutoff db" "last_day db' = Some (utc_day now)"
    using assms(1) by (auto simp: Rollup_def Let_def last_day_def utc_day_millis split: prod.splits if_splits)
qed

lemma full_days:
  assumes "ledger_inv db full now" "r \<in> set (dbRequests full)"
  shows "sql_day (rqTS r) \<le> utc_day now"
  using assms by (auto simp: ledger_inv_def sql_day_div utc_day_millis zdiv_mono1)

lemma inv_roll:
  assumes inv: "ledger_inv db full now" and R: "Rollup ok now db = Some db'"
    and first: "last_day db = None \<Longrightarrow> \<forall>r \<in> set (dbRequests full). utc_day now - 1 \<le> sql_day (rqTS r)"
  shows "ledger_inv db' full now"
proof -
  define f where "f = (case last_day db of None \<Rightarrow> utc_day now - 1 | Some d \<Rightarrow> min d (utc_day now - 1))"
  let ?T = "utc_day now" and ?day = "\<lambda>k us. filter (\<lambda>u. usDay u = k) us"
  note days = Rollup_days[OF inv f_def R]
  have n: "unix_zero \<le> now" "UnixMilli now \<le> int64_max" using inv by (simp_all add: ledger_inv_def)
  note st = Rollup_settings[OF R n]
  have low: "?day k (udUsage db) = rolled (?day k (all_usage full))" if "k < f" "?T - 400 \<le> k" for k
  proof (cases "last_day db")
    case None
    then have "\<not> (\<exists>r \<in> set (dbRequests full). sql_day (rqTS r) = k)" using that(1) first f_def by fastforce
    moreover from this have "?day k (all_usage full) = []" using all_usage_day by (fastforce simp: filter_empty_conv)
    ultimately show ?thesis using unlogged_day[OF inv _ that(2)] by simp
  next
    case (Some d)
    then show ?thesis using that inv f_def by (simp add: ledger_inv_def)
  qed
  have past: "?day k (udUsage db') = rolled (?day k (all_usage full))" if "k < ?T" "?T - 400 \<le> k" for k
    using days(1,2)[of k] low[of k] that by (cases "k < f") auto
  have late: "\<exists>r \<in> set (dbRequests (udLog db')). sql_day (rqTS r) = usDay u" if u: "u \<in> set (udUsage db')" "?T \<le> usDay u" for u
  proof (cases "usDay u = ?T")
    case True
    have "f \<le> ?T" using last_day_Some[OF inv] by (auto simp: f_def split: option.splits)
    with days(1)[of ?T] have "?day ?T (udUsage db') = rolled (?day ?T (all_usage full))" by simp
    with u(1) True have "?day ?T (all_usage full) \<noteq> []" by (metis (mono_tags, lifting) filter_empty_conv rolled_Nil)
    then obtain v where "v \<in> set (all_usage full)" "usDay v = ?T" by (auto simp: filter_empty_conv)
    then obtain r where "r \<in> set (dbRequests full)" "sql_day (rqTS r) = ?T" using all_usage_day by force
    then show ?thesis using kept_days(2)[OF inv cutoff_before[OF inv], of ?T] \<open>f \<le> ?T\<close> True days(4) unfolding f_def by auto
  next
    case False
    then have "?day (usDay u) (udUsage db') = ?day (usDay u) (udUsage db)" using u(2) days(2)[of "usDay u"] by simp
    moreover have "u \<in> set (?day (usDay u) (udUsage db'))" using u(1) by simp
    ultimately have "u \<in> set (?day (usDay u) (udUsage db))" by (simp only:)
    then have "u \<in> set (udUsage db)" by simp
    then obtain d where "last_day db = Some d" "d \<le> usDay u \<longrightarrow> (\<exists>r \<in> set (dbRequests (udLog db)). sql_day (rqTS r) = usDay u)"
      using ledger_inv_usage[OF inv] by blast
    then show ?thesis using last_day_Some[OF inv] u(2) days(4) by fastforce
  qed
  have "?T \<le> ?T" "0 \<le> UnixMilli now" "UnixMilli now \<le> UnixMilli now" using n by (simp_all add: UnixMilli_def pos_imp_zdiv_nonneg_iff)
  moreover have "c < (?T - 1) * day_ms \<and> c \<le> ?T * day_ms" if "millis_setting settingPruneCutoff db = Some c" for c
    using inv that by (auto simp: ledger_inv_def)
  moreover have "\<exists>I. log_kept db' full I" using inv st(2) days(4) by (simp add: ledger_inv_def log_kept_def)
  ultimately show ?thesis
    using inv st days(3) past late unfolding ledger_inv_def by simp
qed

text \<open>Prunes.\<close>

lemma pruneRequestBatch_kept:
  assumes "distinct (map rqID (dbRequests db))" "pruneRequestBatch cutoff batch db = (db1, n)"
  shows "\<exists>D. dbRequests db1 = filter (\<lambda>r. rqID r \<notin> D) (dbRequests db) \<and> dbAttempts db1 = filter (\<lambda>a. atRequestID a \<notin> D) (dbAttempts db) \<and>
    dbBodies db1 = dbBodies db \<and> (\<forall>r \<in> set (dbRequests db). rqID r \<in> D \<longrightarrow> rqTS r < cutoff)"
proof (intro exI conjI ballI impI)
  let ?D = "set (expired_ids cutoff batch db)"
  show "dbRequests db1 = filter (\<lambda>r. rqID r \<notin> ?D) (dbRequests db)" "dbAttempts db1 = filter (\<lambda>a. atRequestID a \<notin> ?D) (dbAttempts db)"
    "dbBodies db1 = dbBodies db"
    using assms(2) by (auto simp: pruneRequestBatch_def Let_def)
  fix r assume r: "r \<in> set (dbRequests db)" "rqID r \<in> ?D"
  then obtain r' where r': "rqID r = rqID r'" "r' \<in> set (dbRequests db)" "rqTS r' < cutoff"
    by (auto simp: expired_ids_def dest!: in_set_takeD)
  with r assms(1) have "r = r'" by (simp add: distinct_map inj_on_def)
  with r' show "rqTS r < cutoff" by simp
qed

lemma prune_requests_kept:
  assumes "distinct (map rqID (dbRequests db))" "prune_requests faults cutoff batch db n = (db', res)"
  shows "\<exists>D. dbRequests db' = filter (\<lambda>r. rqID r \<notin> D) (dbRequests db) \<and> dbAttempts db' = filter (\<lambda>a. atRequestID a \<notin> D) (dbAttempts db) \<and>
    dbBodies db' = dbBodies db \<and> (\<forall>r \<in> set (dbRequests db). rqID r \<in> D \<longrightarrow> rqTS r < cutoff)"
  using assms
proof (induction faults cutoff batch db n rule: prune_requests.induct)
  case (1 faults cutoff batch db n)
  obtain db1 k where b: "pruneRequestBatch cutoff batch db = (db1, k)" by (cases "pruneRequestBatch cutoff batch db")
  from pruneRequestBatch_kept[OF 1(2) b] obtain D where D: "dbRequests db1 = filter (\<lambda>r. rqID r \<notin> D) (dbRequests db)"
    "dbAttempts db1 = filter (\<lambda>a. atRequestID a \<notin> D) (dbAttempts db)" "dbBodies db1 = dbBodies db"
    "\<forall>r \<in> set (dbRequests db). rqID r \<in> D \<longrightarrow> rqTS r < cutoff" by blast
  show ?case
  proof (cases "faults 0 = BatchFails \<or> k = 0 \<or> faults 0 = PauseFails")
    case True
    with 1(3) have "db' = db \<or> db' = db1" by (auto simp: prune_requests.simps[of faults] b split: if_splits)
    then show ?thesis using D by (auto intro: exI[of _ "{}"] exI[of _ D])
  next
    case False
    then have "prune_requests (\<lambda>i. faults (Suc i)) cutoff batch db1 (n + k) = (db', res)"
      using 1(3) by (simp add: prune_requests.simps[of faults] b)
    moreover have "distinct (map rqID (dbRequests db1))" using 1(2) D(1) by (simp add: distinct_map inj_on_def)
    ultimately obtain E where E: "dbRequests db' = filter (\<lambda>r. rqID r \<notin> E) (dbRequests db1)"
      "dbAttempts db' = filter (\<lambda>a. atRequestID a \<notin> E) (dbAttempts db1)" "dbBodies db' = dbBodies db1"
      "\<forall>r \<in> set (dbRequests db1). rqID r \<in> E \<longrightarrow> rqTS r < cutoff"
      using 1(1)[OF _ b[symmetric] refl] False b by auto
    with D show ?thesis by (intro exI[of _ "D \<union> E"]) (auto simp: filter_filter intro: filter_cong)
  qed
qed

lemma prune_bodies_kept: "prune_bodies faults ms batch db = (db', ok) \<Longrightarrow>
    dbRequests db' = dbRequests db \<and> dbAttempts db' = dbAttempts db \<and> set (dbBodies db') \<subseteq> set (dbBodies db)"
proof (induction faults ms batch db rule: prune_bodies.induct)
  case (1 faults ms batch db)
  obtain db1 k where b: "pruneBodyBatch ms batch db = (db1, k)" by (cases "pruneBodyBatch ms batch db")
  then have f: "dbRequests db1 = dbRequests db" "dbAttempts db1 = dbAttempts db" "set (dbBodies db1) \<subseteq> set (dbBodies db)"
    by (auto simp: pruneBodyBatch_def Let_def)
  show ?case
  proof (cases "faults 0 = BatchFails \<or> k = 0 \<or> faults 0 = PauseFails")
    case True
    with 1(2) have "db' = db \<or> db' = db1" by (auto simp: prune_bodies.simps[of faults] b split: if_splits)
    then show ?thesis using f by auto
  next
    case False
    then have "prune_bodies (\<lambda>i. faults (Suc i)) ms batch db1 = (db', ok)" using 1(2) by (simp add: prune_bodies.simps[of faults] b)
    then show ?thesis using 1(1)[OF _ b[symmetric] refl] False f b by auto
  qed
qed

definition pruned_from :: "log_db \<Rightarrow> int \<Rightarrow> log_db \<Rightarrow> bool" where
  "pruned_from db cutoff db' \<longleftrightarrow> (\<exists>D. dbRequests db' = filter (\<lambda>r. rqID r \<notin> D) (dbRequests db) \<and>
     dbAttempts db' = filter (\<lambda>a. atRequestID a \<notin> D) (dbAttempts db) \<and> set (dbBodies db') \<subseteq> set (dbBodies db) \<and>
     (\<forall>r \<in> set (dbRequests db). rqID r \<in> D \<longrightarrow> rqTS r < cutoff))"

lemma record_cutoff_frame [simp]:
  "udLog (record_cutoff c db) = udLog db" "udUsage (record_cutoff c db) = udUsage db" "last_day (record_cutoff c db) = last_day db"
  "millis_setting settingRollupLastRun (record_cutoff c db) = millis_setting settingRollupLastRun db"
  by (simp_all add: record_cutoff_def split: option.splits)

lemma record_cutoff_max:
  assumes "- int64_max \<le> c" "c \<le> int64_max"
  shows "millis_setting settingPruneCutoff (record_cutoff c db) =
    Some (case millis_setting settingPruneCutoff db of None \<Rightarrow> c | Some old \<Rightarrow> max c old)"
  using Atoi_FormatInt[OF assms] by (auto simp: record_cutoff_def max_def split: option.splits)

lemma Prune_effect:
  assumes "distinct (map rqID (dbRequests (udLog db)))" "c = UnixMilli (now - ret)"
    and "db' = fst (Prune pp now ret DefaultUsageRetention batch db)"
  shows "db' = db \<or> (pruned_from (udLog db) c (udLog db') \<and> udSettings db' = udSettings (record_cutoff c db) \<and>
    (udUsage db' = udUsage db \<or> udUsage db' = filter (\<lambda>u. utc_day now - 400 \<le> usDay u) (udUsage db)))"
proof (cases "ppCutoff pp")
  case True
  let ?n = "nat (if batch \<le> 0 then 500 else batch)"
  obtain l2 del ok2 where p: "prune_requests (ppRequests pp) c ?n (udLog db) 0 = (l2, del, ok2)"
    by (cases "prune_requests (ppRequests pp) c ?n (udLog db) 0")
  obtain l3 ok3 where b: "prune_bodies (ppBodies pp) (UnixMilli now) ?n l2 = (l3, ok3)"
    by (cases "prune_bodies (ppBodies pp) (UnixMilli now) ?n l2")
  obtain D where D: "dbRequests l2 = filter (\<lambda>r. rqID r \<notin> D) (dbRequests (udLog db))"
    "dbAttempts l2 = filter (\<lambda>a. atRequestID a \<notin> D) (dbAttempts (udLog db))" "dbBodies l2 = dbBodies (udLog db)"
    "\<forall>r \<in> set (dbRequests (udLog db)). rqID r \<in> D \<longrightarrow> rqTS r < c"
    using prune_requests_kept[OF assms(1) p] by blast
  have k: "pruned_from (udLog db) c l2" "pruned_from (udLog db) c l3"
    unfolding pruned_from_def using D prune_bodies_kept[OF b] by (intro exI[of _ D]; auto)+
  have u: "DefaultUsageRetention = 400 * day_ns" "\<not> DefaultUsageRetention \<le> 0"
    by (simp_all add: DefaultUsageRetention_def day_ns_def)
  have "udLog db' = l2 \<or> udLog db' = l3" "udSettings db' = udSettings (record_cutoff c db)"
    "udUsage db' = udUsage db \<or> udUsage db' = filter (\<lambda>u. utc_day now - 400 \<le> usDay u) (udUsage db)"
    using True u(2) utc_day_shift[of now 400] unfolding assms(3)
    by (auto simp: Prune_def Let_def p b u(1) not_less simp flip: assms(2) split: if_splits)
  with k show ?thesis by auto
qed (simp add: assms(3) Prune_def Let_def)

lemma kept_pruned:
  assumes I: "log_kept db full I" and p: "pruned_from (udLog db) c (udLog db')"
    and cut: "millis_setting settingPruneCutoff db' =
      Some (case millis_setting settingPruneCutoff db of None \<Rightarrow> c | Some old \<Rightarrow> max c old)"
  shows "\<exists>I. log_kept db' full I"
proof -
  obtain D where D: "dbRequests (udLog db') = filter (\<lambda>r. rqID r \<notin> D) (dbRequests (udLog db))"
    "dbAttempts (udLog db') = filter (\<lambda>a. atRequestID a \<notin> D) (dbAttempts (udLog db))"
    "set (dbBodies (udLog db')) \<subseteq> set (dbBodies (udLog db))" "\<forall>r \<in> set (dbRequests (udLog db)). rqID r \<in> D \<longrightarrow> rqTS r < c"
    using p by (auto simp: pruned_from_def)
  have "\<exists>c'. millis_setting settingPruneCutoff db' = Some c' \<and> rqTS r < c'" if h: "r \<in> set (dbRequests full)" "rqID r \<notin> I - D" for r
  proof (cases "rqID r \<in> I")
    case True
    then have "rqTS r < c" using h D(4) I by (auto simp: log_kept_def)
    then show ?thesis using cut by (auto split: option.splits)
  next
    case False
    moreover have "\<forall>r \<in> set (dbRequests full). rqID r \<notin> I \<longrightarrow> (\<exists>c. millis_setting settingPruneCutoff db = Some c \<and> rqTS r < c)"
      using I by (simp add: log_kept_def)
    ultimately obtain old where "millis_setting settingPruneCutoff db = Some old" "rqTS r < old"
      using h(1) by blast
    then show ?thesis using cut by auto
  qed
  moreover have "boRequestID ` set (dbBodies (udLog db')) \<subseteq> log_ids full" using I D(3) unfolding log_kept_def by blast
  ultimately have "log_kept db' full (I - D)" using I D
    by (auto simp: log_kept_def filter_filter intro!: filter_cong)
  then show ?thesis ..
qed

lemma inv_pruned:
  assumes inv: "ledger_inv db full now" and d: "last_day db = Some d" and c: "c < (utc_day now - 1) * day_ms" "c \<le> d * day_ms"
    and cut: "millis_setting settingPruneCutoff (record_cutoff c db) =
      Some (case millis_setting settingPruneCutoff db of None \<Rightarrow> c | Some old \<Rightarrow> max c old)"
    and e: "pruned_from (udLog db) c (udLog db') \<and> udSettings db' = udSettings (record_cutoff c db) \<and>
      (udUsage db' = udUsage db \<or> udUsage db' = filter (\<lambda>u. utc_day now - 400 \<le> usDay u) (udUsage db))"
  shows "ledger_inv db' full now"
proof -
  have st: "millis_setting k db' = millis_setting k (record_cutoff c db)" for k using e by (simp add: millis_setting_def getSetting_def)
  have d': "last_day db' = Some d" using st[of settingRollupLastRun] d by (simp add: last_day_def)
  obtain I where I: "log_kept db full I" using inv by (auto simp: ledger_inv_def)
  have kept: "\<exists>I. log_kept db' full I" using kept_pruned[OF I, of c db'] e cut st by simp
  have fence: "x < (utc_day now - 1) * day_ms \<and> x \<le> d * day_ms" if "millis_setting settingPruneCutoff db' = Some x" for x
  proof -
    have "old < (utc_day now - 1) * day_ms \<and> old \<le> d * day_ms" if "millis_setting settingPruneCutoff db = Some old" for old
      using inv d that by (auto simp: ledger_inv_def)
    then show ?thesis using that c by (auto simp: st cut max_def split: option.splits if_splits)
  qed
  have us: "set (udUsage db') \<subseteq> set (udUsage db)" "distinct (map usage_key (udUsage db'))"
  proof -
    have "distinct (map usage_key (udUsage db))" using inv by (simp add: ledger_inv_def)
    then show "distinct (map usage_key (udUsage db'))" using e by (auto simp: distinct_map_filter)
  qed (use e in auto)
  have day: "filter (\<lambda>u. usDay u = k) (udUsage db') = filter (\<lambda>u. usDay u = k) (udUsage db)" if "utc_day now - 400 \<le> k" for k
  proof -
    have "filter (\<lambda>u. usDay u = k) (filter (\<lambda>u. utc_day now - 400 \<le> usDay u) us) = filter (\<lambda>u. usDay u = k) us" for us
      using that by (auto simp: filter_filter intro!: filter_cong)
    then show ?thesis using e by metis
  qed
  have late: "\<exists>r \<in> set (dbRequests (udLog db')). sql_day (rqTS r) = usDay u" if u: "u \<in> set (udUsage db')" "d \<le> usDay u" for u
  proof -
    obtain r where r: "r \<in> set (dbRequests (udLog db))" "sql_day (rqTS r) = usDay u"
      using ledger_inv_usage[OF inv, of u] us(1) u d by auto
    have "0 \<le> rqTS r" using ledger_inv_epoch(2)[OF inv] r(1) by (simp add: since_epoch_def)
    with r(2) u(2) have "c \<le> rqTS r" using c(2) day_ge[of d "rqTS r"] by (simp add: sql_day_div)
    then have "r \<in> set (dbRequests (udLog db'))" using e r(1) by (fastforce simp: pruned_from_def)
    with r(2) show ?thesis by blast
  qed
  have past: "filter (\<lambda>u. usDay u = k) (udUsage db') = rolled (filter (\<lambda>u. usDay u = k) (all_usage full))"
    if "k < d" "utc_day now - 400 \<le> k" for k
    using day[OF that(2)] inv d that by (simp add: ledger_inv_def)
  have "millis_setting settingRollupLastRun db' = millis_setting settingRollupLastRun db" using st by simp
  then show ?thesis using inv d' kept fence us(2) late past unfolding ledger_inv_def by simp
qed

lemma inv_retain:
  assumes inv: "ledger_inv db full now" and last: "millis_setting settingRollupLastRun db = Some ms" "now \<le> of_UnixMilli ms + day_ns"
    and ret: "2 * day_ns \<le> ret" "unix_zero \<le> now - ret"
  shows "ledger_inv (fst (Prune pp now ret DefaultUsageRetention 0 db)) full now"
proof -
  define c where "c = UnixMilli (now - ret)"
  let ?db = "fst (Prune pp now ret DefaultUsageRetention 0 db)" and ?d = "ms div day_ms"
  have d: "last_day db = Some ?d" using last(1) by (simp add: last_day_def)
  have c1: "c < (utc_day now - 1) * day_ms"
    using UnixMilli_mono[of "now - ret" "now - 2 * day_ns"] two_days_back[of now] ret(1) by (simp add: c_def)
  have "now - ret \<le> of_UnixMilli ms - 1 * day_ns" using last(2) ret(1) by simp
  then have "utc_day (now - ret) \<le> ?d - 1" using utc_day_mono utc_day_shift[of "of_UnixMilli ms" 1] by fastforce
  then have c2: "c \<le> ?d * day_ms" using day_ge[of ?d c] by (simp add: c_def utc_day_millis)
  have c0: "0 \<le> c" using ret(2) by (simp add: c_def UnixMilli_def pos_imp_zdiv_nonneg_iff)
  have "c \<le> UnixMilli now" unfolding c_def using ret(1) by (intro UnixMilli_mono) (simp add: day_ns_def)
  then have cm: "c \<le> int64_max" "- int64_max \<le> c" using inv c0 by (auto simp: ledger_inv_def int64_max_def)
  note cut = record_cutoff_max[OF cm(2,1)]
  obtain I where I: "log_kept db full I" using inv by (auto simp: ledger_inv_def)
  then have "distinct (map rqID (dbRequests (udLog db)))" using inv by (simp add: ledger_inv_def log_kept_def distinct_map inj_on_def)
  from Prune_effect[OF this c_def refl] show ?thesis
  proof
    assume "?db = db"
    then show ?thesis using inv by simp
  next
    assume e: "pruned_from (udLog db) c (udLog ?db) \<and> udSettings ?db = udSettings (record_cutoff c db) \<and>
      (udUsage ?db = udUsage db \<or> udUsage ?db = filter (\<lambda>u. utc_day now - 400 \<le> usDay u) (udUsage db))"
    then show ?thesis using inv_pruned[OF inv d c1 c2 cut] by blast
  qed
qed
text \<open>Writes: a record of the last run's day or later leaves the earlier days as they are.\<close>

lemma stored_rows:
  assumes "\<forall>r \<in> set rs. loggable m r"
  shows "map rqID (dbRequests (stored m rs)) = map rrID rs \<and> map rqTS (dbRequests (stored m rs)) = map (\<lambda>r. UnixMilli (rrTS r)) rs \<and>
    log_ids (stored m rs) \<subseteq> rrID ` set rs"
  using assms
proof (induction rs)
  case Nil
  then show ?case by (simp add: stored_def log_ids_def)
next
  case (Cons r rs)
  then have l: "loggable m r" "\<forall>r \<in> set rs. loggable m r" by simp_all
  obtain tr ws me where s: "stmts_of m r = Some (ReqStmt (request_row_of r tr ws me)
      # map AttStmt (map (attempt_row_of (rrID r)) (rrAttempts r)) @ map BodyStmt (bodies_of r))"
    using loggable_stmts[OF l(1)] by blast
  have t: "rqTS (request_row_of r tr ws me) = UnixMilli (rrTS r)" by (simp add: request_row_of_def)
  note st = stored_Cons[of m r rs] stored_one[OF s]
  show ?case using Cons.IH[OF l(2)] t bodies_ids[of r] by (auto simp: st log_append_def log_ids_def)
qed

lemma attempts_append:
  assumes "rqID r \<notin> atRequestID ` set (dbAttempts b)"
  shows "attempts_for (log_append a b) r = attempts_for a r"
  using assms by (force simp: attempts_for_def log_append_def filter_empty_conv)

lemma all_usage_append:
  assumes "atRequestID ` set (dbAttempts b) \<subseteq> rqID ` set (dbRequests b)"
    and "rqID ` set (dbRequests b) \<inter> rqID ` set (dbRequests a) = {}"
    and "\<And>r. r \<in> set (dbRequests b) \<Longrightarrow> d \<le> sql_day (rqTS r)" and "k < d"
  shows "filter (\<lambda>u. usDay u = k) (all_usage (log_append a b)) = filter (\<lambda>u. usDay u = k) (all_usage a)"
proof -
  let ?rs = "filter (\<lambda>r. sql_day (rqTS r) = k) (dbRequests a)"
  have "filter (\<lambda>r. sql_day (rqTS r) = k) (dbRequests b) = []" using assms(3,4) by (force simp: filter_empty_conv)
  then have "filter (\<lambda>u. usDay u = k) (all_usage (log_append a b)) = usage_rows (log_append a b) ?rs"
    unfolding all_usage_def by (subst filter_usage_rows[where P = "\<lambda>r. sql_day (rqTS r) = k" and Q = "\<lambda>x. x = k"])
      (simp_all add: log_append_def)
  also have "\<dots> = usage_rows a ?rs"
  proof -
    have "attempts_for (log_append a b) r = attempts_for a r" if "r \<in> set ?rs" for r
      using that assms(1,2) by (intro attempts_append) auto
    then show ?thesis unfolding usage_rows_def
      by (auto intro!: arg_cong2[where f = append] arg_cong[where f = concat] arg_cong[where f = "map request_usage"]
          map_cong filter_cong)
  qed
  also have "\<dots> = filter (\<lambda>u. usDay u = k) (all_usage a)"
    unfolding all_usage_def by (subst filter_usage_rows[where P = "\<lambda>r. sql_day (rqTS r) = k" and Q = "\<lambda>x. x = k"]) simp_all
  finally show ?thesis .
qed
lemma kept_append:
  assumes I: "log_kept db full I" and new: "log_ids new \<inter> log_ids full = {}"
  shows "log_kept (db\<lparr>udLog := log_append (udLog db) new\<rparr>) (log_append full new) ((I \<inter> log_ids full) \<union> log_ids new)"
proof -
  have "filter (\<lambda>r. rqID r \<in> I \<inter> log_ids full \<or> rqID r \<in> log_ids new) (dbRequests full) = filter (\<lambda>r. rqID r \<in> I) (dbRequests full)"
    "filter (\<lambda>a. atRequestID a \<in> I \<inter> log_ids full \<or> atRequestID a \<in> log_ids new) (dbAttempts full) =
      filter (\<lambda>a. atRequestID a \<in> I) (dbAttempts full)"
    using new by (auto simp: log_ids_def intro!: filter_cong)
  moreover have "filter (\<lambda>r. P r \<or> rqID r \<in> log_ids new) (dbRequests new) = dbRequests new"
    "filter (\<lambda>a. Q a \<or> atRequestID a \<in> log_ids new) (dbAttempts new) = dbAttempts new" for P Q
    by (auto simp: filter_id_conv log_ids_def)
  moreover have "boRequestID ` set (dbBodies (udLog db)) \<subseteq> log_ids full" "boRequestID ` set (dbBodies new) \<subseteq> log_ids new"
    using I by (auto simp: log_kept_def log_ids_def)
  moreover have "\<exists>c. millis_setting settingPruneCutoff db = Some c \<and> rqTS r < c"
    if h: "r \<in> set (dbRequests full) \<union> set (dbRequests new)" "rqID r \<notin> (I \<inter> log_ids full) \<union> log_ids new" for r
  proof -
    have "r \<in> set (dbRequests full)" "rqID r \<notin> I" using h by (auto simp: log_ids_def)
    with I show ?thesis by (simp add: log_kept_def)
  qed
  ultimately show ?thesis using I unfolding log_kept_def by (auto simp: log_append_def log_ids_append[unfolded log_append_def])
qed

lemma inv_append:
  assumes inv: "ledger_inv db full now" and dis: "distinct (map rqID (dbRequests new))" and new: "log_ids new \<inter> log_ids full = {}"
    and att: "atRequestID ` set (dbAttempts new) \<subseteq> rqID ` set (dbRequests new)"
    and ts: "\<And>r. r \<in> set (dbRequests new) \<Longrightarrow>
      0 \<le> rqTS r \<and> rqTS r \<le> UnixMilli now \<and> (\<forall>d. last_day db = Some d \<longrightarrow> d \<le> sql_day (rqTS r))"
  shows "ledger_inv (db\<lparr>udLog := log_append (udLog db) new\<rparr>) (log_append full new) now"
proof -
  let ?db = "db\<lparr>udLog := log_append (udLog db) new\<rparr>" and ?full = "log_append full new"
  obtain I where I: "log_kept db full I" using inv by (auto simp: ledger_inv_def)
  have kept: "\<exists>I. log_kept ?db ?full I" using kept_append[OF I new] ..
  have dj: "rqID ` set (dbRequests new) \<inter> rqID ` set (dbRequests full) = {}" using new by (auto simp: log_ids_def)
  have ids: "distinct (map rqID (dbRequests ?full))" "atRequestID ` set (dbAttempts ?full) \<subseteq> rqID ` set (dbRequests ?full)"
    using inv dis dj att by (auto simp: log_append_def ledger_inv_def)
  have past: "filter (\<lambda>u. usDay u = k) (udUsage ?db) = rolled (filter (\<lambda>u. usDay u = k) (all_usage ?full))"
    if "last_day db = Some d" "k < d" "utc_day now - 400 \<le> k" for d k
  proof -
    have "filter (\<lambda>u. usDay u = k) (all_usage ?full) = filter (\<lambda>u. usDay u = k) (all_usage full)"
      using ts that by (intro all_usage_append[OF att dj, of d]) auto
    then show ?thesis using inv that by (simp add: ledger_inv_def)
  qed
  have "\<forall>r \<in> set (dbRequests ?full). 0 \<le> rqTS r \<and> rqTS r \<le> UnixMilli now" using inv ts by (auto simp: ledger_inv_def log_append_def)
  moreover have "set (dbRequests (udLog db)) \<subseteq> set (dbRequests (udLog ?db))" by (simp add: log_append_def)
  moreover have "\<exists>d. last_day db = Some d \<and> (d \<le> usDay u \<longrightarrow> (\<exists>r \<in> set (dbRequests (udLog ?db)). sql_day (rqTS r) = usDay u))"
    if "u \<in> set (udUsage db)" for u
    using ledger_inv_usage[OF inv that] by (auto simp: log_append_def)
  ultimately show ?thesis using inv kept ids past unfolding ledger_inv_def by simp
qed

lemma inv_write:
  assumes inv: "ledger_inv db full now" and t: "timely now db full batch" and tx: "tx \<in> whole_tx"
  shows "ledger_inv (db\<lparr>udLog := fst (WriteBatch m tx batch (udLog db))\<rparr>) (fst (WriteBatch m tx batch full)) now"
proof (cases "txBegins tx \<and> txPrepares tx \<and> txCommits tx")
  case False
  then show ?thesis using inv by (auto simp: WriteBatch_def split: prod.splits)
next
  case True
  define new where "new = stored m (filter (loggable m) batch)"
  let ?db = "db\<lparr>udLog := log_append (udLog db) new\<rparr>" and ?full = "log_append full new"
  obtain I where I: "log_kept db full I" using inv by (auto simp: ledger_inv_def)
  have f: "distinct (map rrID batch)" "rrID ` set batch \<inter> log_ids full = {}" "\<forall>r \<in> set batch. seqs_distinct r"
    using t by (auto simp: timely_def)
  have "log_ids (udLog db) \<subseteq> log_ids full" using I by (auto simp: log_kept_def log_ids_def)
  then have f': "rrID ` set batch \<inter> log_ids (udLog db) = {}" using f(2) by blast
  have w: "fst (WriteBatch m tx batch (udLog db)) = log_append (udLog db) new" "fst (WriteBatch m tx batch full) = ?full"
    using True WriteBatch_fresh[OF f(1) f' f(3) tx] WriteBatch_fresh[OF f tx] by (simp_all add: new_def)
  have rows: "map rqID (dbRequests new) = map rrID (filter (loggable m) batch)"
    "map rqTS (dbRequests new) = map (\<lambda>r. UnixMilli (rrTS r)) (filter (loggable m) batch)" "log_ids new \<subseteq> rrID ` set batch"
    using stored_rows[of "filter (loggable m) batch" m] by (auto simp: new_def)
  have ts: "0 \<le> rqTS r \<and> rqTS r \<le> UnixMilli now \<and> (\<forall>d. last_day db = Some d \<longrightarrow> d \<le> sql_day (rqTS r))"
    if "r \<in> set (dbRequests new)" for r
  proof -
    have "rqTS r \<in> set (map rqTS (dbRequests new))" using that by simp
    then obtain x where x: "x \<in> set batch" "rqTS r = UnixMilli (rrTS x)" unfolding rows(2) by auto
    then have b: "unix_zero \<le> rrTS x" "rrTS x \<le> now" "\<forall>d. last_day db = Some d \<longrightarrow> d \<le> utc_day (rrTS x)"
      using t by (auto simp: timely_def)
    then have "0 \<le> rqTS r" by (simp add: x(2) UnixMilli_def pos_imp_zdiv_nonneg_iff)
    with b show ?thesis by (simp add: x(2) UnixMilli_mono sql_day_div utc_day_millis)
  qed
  have "kept_wf m (filter (loggable m) batch)" using f(1) by (simp add: kept_wf_def distinct_map_filter)
  from stored_ids[OF this] have att: "atRequestID ` set (dbAttempts new) \<subseteq> rqID ` set (dbRequests new)" by (simp add: new_def)
  have "distinct (map rqID (dbRequests new))" unfolding rows(1) using f(1) by (simp add: distinct_map_filter)
  moreover have "log_ids new \<inter> log_ids full = {}" using rows(3) f(2) by blast
  ultimately show ?thesis unfolding w using inv_append[OF inv _ _ att ts] by blast
qed
lemma inv_wait:
  assumes "ledger_inv db full clk" "clk \<le> now" "UnixMilli now \<le> int64_max"
  shows "ledger_inv db full now"
proof -
  have m: "UnixMilli clk \<le> UnixMilli now" "utc_day clk \<le> utc_day now" using assms(2) UnixMilli_mono utc_day_mono by blast+
  then have "(utc_day clk - 1) * day_ms \<le> (utc_day now - 1) * day_ms" by simp
  with assms m show ?thesis unfolding ledger_inv_def by (safe; fastforce)
qed

lemma ledger_invariant: "ledger m db full now \<Longrightarrow> ledger_inv db full now"
proof (induction rule: ledger.induct)
  case (Open now)
  have "millis_setting k no_log = None" for k by (simp add: millis_setting_def getSetting_def no_log_def)
  then show ?case using Open
    by (auto simp: ledger_inv_def log_kept_def no_log_def empty_log_def last_day_def)
next
  case (Wait db full clk now)
  then show ?case using inv_wait by blast
next
  case (Write db full now batch tx)
  then show ?case using inv_write by blast
next
  case (Roll db full now ok db')
  show ?case by (rule inv_roll[OF Roll.IH Roll.hyps(3,2)])
next
  case (Retain db full now ms ret pp)
  then show ?case using inv_retain by blast
qed


text \<open>The loops run dry: a batch that deletes nothing finds nothing expired.\<close>

lemma pruneRequestBatch_dry:
  assumes "0 < batch" "pruneRequestBatch cutoff batch db = (db1, 0)"
  shows "filter (\<lambda>r. rqTS r < cutoff) (dbRequests db) = []"
proof (rule ccontr)
  assume ne: "filter (\<lambda>r. rqTS r < cutoff) (dbRequests db) \<noteq> []"
  then obtain x xs where x: "sort_key rqTS (filter (\<lambda>r. rqTS r < cutoff) (dbRequests db)) = x # xs"
    by (metis length_0_conv length_sort neq_Nil_conv)
  then have "rqID x \<in> set (expired_ids cutoff batch db)" using assms(1) by (cases batch) (simp_all add: expired_ids_def)
  moreover have "x \<in> set (dbRequests db)" using x by (metis filter_is_subset list.set_intros(1) set_sort subsetD)
  moreover have "length (filter (\<lambda>r. rqID r \<notin> set (expired_ids cutoff batch db)) (dbRequests db)) = length (dbRequests db)"
    using assms(2) length_filter_le[of "\<lambda>r. rqID r \<notin> set (expired_ids cutoff batch db)" "dbRequests db"]
    by (auto simp: pruneRequestBatch_def Let_def)
  then have "filter (\<lambda>r. rqID r \<notin> set (expired_ids cutoff batch db)) (dbRequests db) = dbRequests db"
    by (metis filter_id_conv length_filter_less less_irrefl)
  ultimately show False by (metis (mono_tags, lifting) filter_id_conv)
qed

lemma prune_requests_all:
  assumes "0 < batch" "distinct (map rqID (dbRequests db))"
  shows "\<exists>db'. prune_requests (\<lambda>_. BatchRuns) cutoff batch db n =
      (db', n + length (filter (\<lambda>r. rqTS r < cutoff) (dbRequests db)), True) \<and>
    dbRequests db' = filter (\<lambda>r. cutoff \<le> rqTS r) (dbRequests db) \<and>
    dbAttempts db' = filter (\<lambda>a. atRequestID a \<notin> rqID ` {r \<in> set (dbRequests db). rqTS r < cutoff}) (dbAttempts db) \<and>
    dbBodies db' = dbBodies db"
  using assms(2)
proof (induction "length (dbRequests db)" arbitrary: db n rule: less_induct)
  case less
  obtain db1 k where b: "pruneRequestBatch cutoff batch db = (db1, k)" by (cases "pruneRequestBatch cutoff batch db")
  let ?D = "set (expired_ids cutoff batch db)" and ?E = "\<lambda>db. rqID ` {r \<in> set (dbRequests db). rqTS r < cutoff}"
  have D: "dbRequests db1 = filter (\<lambda>r. rqID r \<notin> ?D) (dbRequests db)" "dbBodies db1 = dbBodies db"
    "dbAttempts db1 = filter (\<lambda>a. atRequestID a \<notin> ?D) (dbAttempts db)" "length (dbRequests db1) + k = length (dbRequests db)"
    using b pruneRequestBatch_shrinks[OF b] by (auto simp: pruneRequestBatch_def Let_def)
  have sub: "?D \<subseteq> ?E db" by (auto simp: expired_ids_def dest!: in_set_takeD)
  have old: "rqTS r < cutoff" if "r \<in> set (dbRequests db)" "rqID r \<in> ?D" for r
    using that sub less.prems by (auto simp: distinct_map inj_on_def)
  have keep: "filter (\<lambda>r. cutoff \<le> rqTS r) (dbRequests db1) = filter (\<lambda>r. cutoff \<le> rqTS r) (dbRequests db)"
    unfolding D(1) filter_filter using old by (intro filter_cong) force+
  then have "length (filter (\<lambda>r. \<not> rqTS r < cutoff) (dbRequests db1)) = length (filter (\<lambda>r. \<not> rqTS r < cutoff) (dbRequests db))"
    by (simp add: not_less)
  then have cnt: "length (filter (\<lambda>r. rqTS r < cutoff) (dbRequests db1)) + k = length (filter (\<lambda>r. rqTS r < cutoff) (dbRequests db))"
    using sum_length_filter_compl[of "\<lambda>r. rqTS r < cutoff" "dbRequests db1"]
      sum_length_filter_compl[of "\<lambda>r. rqTS r < cutoff" "dbRequests db"] D(4) by linarith
  show ?case
  proof (cases "k = 0")
    case True
    then have e: "filter (\<lambda>r. rqTS r < cutoff) (dbRequests db) = []" using pruneRequestBatch_dry[OF assms(1)] b by simp
    then have E: "?E db = {}" by (auto simp: filter_empty_conv)
    then have "expired_ids cutoff batch db = []" using sub by (metis set_empty subset_empty)
    moreover have "filter (\<lambda>r. cutoff \<le> rqTS r) (dbRequests db) = dbRequests db"
      using e by (simp add: filter_id_conv filter_empty_conv not_less)
    moreover have "filter (\<lambda>a. atRequestID a \<notin> ?E db) (dbAttempts db) = dbAttempts db" unfolding E by simp
    ultimately show ?thesis using D e True b
      by (intro exI[of _ db1]) (simp add: prune_requests.simps[of _ _ _ db])
  next
    case False
    have "distinct (map rqID (dbRequests db1))" using less.prems by (simp add: D(1) distinct_map_filter)
    with less.hyps[of db1 "n + k"] False D(4) obtain db' where I: "prune_requests (\<lambda>_. BatchRuns) cutoff batch db1 (n + k) =
        (db', n + k + length (filter (\<lambda>r. rqTS r < cutoff) (dbRequests db1)), True)"
      "dbRequests db' = filter (\<lambda>r. cutoff \<le> rqTS r) (dbRequests db1)"
      "dbAttempts db' = filter (\<lambda>a. atRequestID a \<notin> ?E db1) (dbAttempts db1)" "dbBodies db' = dbBodies db1" by auto
    have "x \<notin> ?E db1 \<and> x \<notin> ?D \<longleftrightarrow> x \<notin> ?E db" for x using sub by (auto simp: D(1))
    then have "dbAttempts db' = filter (\<lambda>a. atRequestID a \<notin> ?E db) (dbAttempts db)"
      unfolding I(3) D(3) filter_filter by (intro filter_cong) auto
    with I(1,2,4) D(2) keep cnt False b show ?thesis
      by (intro exI[of _ db']) (simp add: prune_requests.simps[of _ _ _ db] add.assoc add.commute)
  qed
qed

lemma pruneBodyBatch_dry:
  assumes "0 < batch" "pruneBodyBatch ms batch db = (db1, 0)"
  shows "db1 = db \<and> filter (\<lambda>b. boExpiresAt b < ms) (dbBodies db) = []"
proof -
  let ?ids = "set (map boRequestID (take batch (filter (\<lambda>b. boExpiresAt b < ms) (dbBodies db))))"
  have "\<not> length (filter (\<lambda>b. boRequestID b \<notin> ?ids) (dbBodies db)) < length (dbBodies db)"
    using assms(2) by (auto simp: pruneBodyBatch_def Let_def)
  then have n: "boRequestID b \<notin> ?ids" if "b \<in> set (dbBodies db)" for b using that length_filter_less by fastforce
  have "filter (\<lambda>b. boExpiresAt b < ms) (dbBodies db) = []"
  proof (cases "filter (\<lambda>b. boExpiresAt b < ms) (dbBodies db)")
    case (Cons x xs)
    then have "x \<in> set (dbBodies db)" by (metis filter_is_subset list.set_intros(1) subsetD)
    moreover have "boRequestID x \<in> ?ids" using assms(1) Cons by (cases batch) simp_all
    ultimately show ?thesis using n by blast
  qed
  then show ?thesis using assms(2) by (auto simp: pruneBodyBatch_def Let_def)
qed

lemma prune_bodies_all:
  assumes "0 < batch" "distinct (map boRequestID (dbBodies db))"
  shows "\<exists>db'. prune_bodies (\<lambda>_. BatchRuns) ms batch db = (db', True) \<and> dbRequests db' = dbRequests db \<and>
    dbAttempts db' = dbAttempts db \<and> dbBodies db' = filter (\<lambda>b. ms \<le> boExpiresAt b) (dbBodies db)"
  using assms(2)
proof (induction "length (dbBodies db)" arbitrary: db rule: less_induct)
  case less
  obtain db1 k where b: "pruneBodyBatch ms batch db = (db1, k)" by (cases "pruneBodyBatch ms batch db")
  let ?D = "set (map boRequestID (take batch (filter (\<lambda>b. boExpiresAt b < ms) (dbBodies db))))"
  have D: "dbBodies db1 = filter (\<lambda>b. boRequestID b \<notin> ?D) (dbBodies db)" "dbRequests db1 = dbRequests db"
    "dbAttempts db1 = dbAttempts db" "length (dbBodies db1) + k = length (dbBodies db)"
    using b pruneBodyBatch_shrinks[OF b] by (auto simp: pruneBodyBatch_def Let_def)
  show ?case
  proof (cases "k = 0")
    case True
    with pruneBodyBatch_dry[OF assms(1), of ms db db1] b have "db1 = db" "\<forall>b \<in> set (dbBodies db). ms \<le> boExpiresAt b"
      by (auto simp: filter_empty_conv not_less)
    with True b show ?thesis by (intro exI[of _ db1]) (simp add: prune_bodies.simps[of _ _ _ db])
  next
    case False
    have old: "boExpiresAt x < ms" if h: "x \<in> set (dbBodies db)" "boRequestID x \<in> ?D" for x
    proof -
      obtain y where "boRequestID x = boRequestID y" "y \<in> set (take batch (filter (\<lambda>b. boExpiresAt b < ms) (dbBodies db)))"
        using h(2) by auto
      moreover from this have "y \<in> set (dbBodies db)" "boExpiresAt y < ms" by (auto dest: in_set_takeD)
      ultimately show ?thesis using h(1) less.prems by (metis distinct_map inj_onD)
    qed
    then have "filter (\<lambda>b. ms \<le> boExpiresAt b) (dbBodies db1) = filter (\<lambda>b. ms \<le> boExpiresAt b) (dbBodies db)"
      unfolding D(1) filter_filter by (intro filter_cong refl) (meson not_less)
    moreover have "distinct (map boRequestID (dbBodies db1))" using less.prems by (simp add: D(1) distinct_map_filter)
    moreover have "length (dbBodies db1) < length (dbBodies db)" using D(4) False by simp
    ultimately show ?thesis using less.hyps[of db1] False D(2,3) b by (simp add: prune_bodies.simps[of _ _ _ db])
  qed
qed

section \<open>An example\<close>

definition demo_now :: time where
  "demo_now = DateUTC 20000"

definition demo_rolled :: usage_db where
  "demo_rolled = putSetting settingRollupLastRun (FormatInt (UnixMilli demo_now)) no_log"

definition demo_usage_record :: LogRecord where
  "demo_usage_record = (demo_log_record ''a'')\<lparr>rrTS := demo_now, rrFinalProviderID := ''p'', rrTokensIn := 7\<rparr>"

definition demo_full :: log_db where
  "demo_full = stored (\<lambda>_. Some []) [demo_usage_record]"

definition demo_ledger_db :: usage_db where
  "demo_ledger_db = demo_rolled\<lparr>udLog := demo_full\<rparr>"

lemma demo_now_simps [simp]: "UnixMilli demo_now = 20000 * day_ms" "utc_day demo_now = 20000" "unix_zero \<le> demo_now"
  by (simp_all add: demo_now_def utc_day_millis) (simp add: DateUTC_def unix_zero_def day_ns_def)

lemma demo_setting [simp]: "millis_setting settingRollupLastRun demo_rolled = Some (20000 * day_ms)"
  "millis_setting settingPruneCutoff demo_rolled = None"
  using Atoi_FormatInt[of "20000 * day_ms"]
  by (simp_all add: demo_rolled_def int64_max_def) (simp add: millis_setting_def getSetting_def no_log_def)

lemma demo_rollup: "Rollup True demo_now no_log = Some demo_rolled"
  by (simp add: Rollup_def rollupDays_def Let_def demo_rolled_def request_days_def usageSource_def usage_rows_def
      no_log_def empty_log_def)

lemma demo_stored: "demo_full = log_append empty_log (stored (\<lambda>_. Some []) [demo_usage_record])"
  "dbRequests demo_full = [request_row_of demo_usage_record [] [] []]" "dbAttempts demo_full = []"
proof -
  have "stmts_of (\<lambda>_. Some []) demo_usage_record = Some (ReqStmt (request_row_of demo_usage_record [] [] [])
      # map AttStmt [] @ map BodyStmt [])"
    by (simp add: stmts_of_def bodies_of_def demo_usage_record_def demo_log_record_def RequestRecord.defs LogRecord.defs newRecord_def)
  note s = stored_one[OF this]
  show "demo_full = log_append empty_log (stored (\<lambda>_. Some []) [demo_usage_record])"
    "dbRequests demo_full = [request_row_of demo_usage_record [] [] []]" "dbAttempts demo_full = []"
    by (simp_all add: demo_full_def log_append_def empty_log_def s)
qed

lemma demo_ledger: "ledger (\<lambda>_. Some []) demo_ledger_db demo_full demo_now" "last_day demo_ledger_db = Some 20000"
proof -
  have n: "UnixMilli demo_now \<le> int64_max" by (simp add: int64_max_def)
  have "ledger (\<lambda>_. Some []) no_log empty_log demo_now" by (rule ledger.Open) (use n in simp_all)
  then have r: "ledger (\<lambda>_. Some []) demo_rolled empty_log demo_now"
    by (rule ledger.Roll[OF _ _ demo_rollup]) (simp add: empty_log_def)
  have d: "last_day demo_rolled = Some 20000" by (simp add: last_day_def)
  have t: "timely demo_now demo_rolled empty_log [demo_usage_record]"
    by (simp add: timely_def d log_ids_def empty_log_def seqs_distinct_def demo_usage_record_def demo_log_record_def
        RequestRecord.defs LogRecord.defs newRecord_def)
  have l: "loggable (\<lambda>_. Some []) demo_usage_record" by (simp add: loggable_def stmts_of_def)
  have w: "fst (WriteBatch (\<lambda>_. Some []) demo_tx [demo_usage_record] empty_log) = demo_full"
    using WriteBatch_fresh[of "[demo_usage_record]" empty_log demo_tx "\<lambda>_. Some []"] t l
    by (simp add: timely_def demo_tx_def demo_stored(1))
  have "udLog demo_rolled = empty_log" by (simp add: demo_rolled_def no_log_def)
  with ledger.Write[OF r t, of demo_tx] w show "ledger (\<lambda>_. Some []) demo_ledger_db demo_full demo_now"
    by (simp add: demo_ledger_db_def) (simp add: demo_tx_def)
  show "last_day demo_ledger_db = Some 20000" by (simp add: demo_ledger_db_def d)
qed

section \<open>A late request\<close>

text \<open>The report of a day is said to be what the rollup would store if it ran now. It is not for a request that began
  before midnight and landed after the day's first rollup: the report leaves it out, the rollup counts it.\<close>

definition demo_late :: usage_db where
  "demo_late = putSetting settingRollupLastRun (FormatInt (20001 * day_ms)) (no_log\<lparr>udLog := demo_full\<rparr>)"

lemma late_request_unreported:
  "UsageBy (DateUTC 20001) 7 UsageByDayOnly demo_late = []"
  "\<exists>db'. Rollup True (DateUTC 20001) demo_late = Some db' \<and> udUsage db' \<noteq> []"
proof -
  have st: "millis_setting settingRollupLastRun demo_late = Some (20001 * day_ms)" "millis_setting settingPruneCutoff demo_late = None"
    using Atoi_FormatInt[of "20001 * day_ms"]
    by (simp_all add: demo_late_def int64_max_def) (simp add: millis_setting_def getSetting_def no_log_def)
  have d: "utc_day (DateUTC 20001) = 20001" by (simp add: utc_day_millis)
  have r: "rqTS (request_row_of demo_usage_record [] [] []) = 20000 * day_ms"
    "rqFinalProviderID (request_row_of demo_usage_record [] [] []) = ''p''"
    by (simp_all add: request_row_of_def demo_usage_record_def)
  have u: "udLog demo_late = demo_full" "udUsage demo_late = []" by (simp_all add: demo_late_def no_log_def)
  have f: "rollupFrom (DateUTC 20001) demo_late = DateUTC 20000" by (simp add: rollupFrom_def rollupDays_def Let_def st d)
  show "UsageBy (DateUTC 20001) 7 UsageByDayOnly demo_late = []"
    by (simp add: UsageBy_def UsageWindow_def pendingFrom_def f st Let_def d rollupDays_def u usageSource_def usage_rows_def
        demo_stored(2,3) in_window_def r group_by_def)
  show "\<exists>db'. Rollup True (DateUTC 20001) demo_late = Some db' \<and> udUsage db' \<noteq> []"
    by (simp add: Rollup_def f Let_def rollupDays_def d u usageSource_def usage_rows_def demo_stored(2,3) in_window_def r
        attempts_for_def rolled_def group_by_def)
qed

section \<open>The properties\<close>

text \<open>C35. A prune that meets no error ends, and deletes what has expired and nothing else, however the batches cut it: the
  requests before the cutoff with their attempts, the bodies past their own deadline, the usage of days before the usage
  cutoff; it returns the number of requests deleted.\<close>

theorem prune_exact:
  assumes "distinct (map rqID (dbRequests (udLog db)))" "distinct (map boRequestID (dbBodies (udLog db)))" "0 < usageRetention"
    and "cutoff = UnixMilli (now - logRetention)"
    and "Prune \<lparr>ppCutoff = True, ppRequests = (\<lambda>_. BatchRuns), ppBodies = (\<lambda>_. BatchRuns), ppUsage = True, ppVacuum = True,
        ppCheckpoint = True\<rparr> now logRetention usageRetention batch db = (db', deleted, ok)"
  shows "dbRequests (udLog db') = filter (\<lambda>r. cutoff \<le> rqTS r) (dbRequests (udLog db)) \<and>
    dbAttempts (udLog db') =
      filter (\<lambda>a. atRequestID a \<notin> rqID ` {r \<in> set (dbRequests (udLog db)). rqTS r < cutoff}) (dbAttempts (udLog db)) \<and>
    dbBodies (udLog db') = filter (\<lambda>b. UnixMilli now \<le> boExpiresAt b) (dbBodies (udLog db)) \<and>
    udUsage db' = filter (\<lambda>u. utc_day (now - usageRetention) \<le> usDay u) (udUsage db) \<and>
    deleted = length (filter (\<lambda>r. rqTS r < cutoff) (dbRequests (udLog db))) \<and> ok"
proof -
  let ?n = "nat (if batch \<le> 0 then 500 else batch)"
  have n: "0 < ?n" by simp
  obtain l2 where p: "prune_requests (\<lambda>_. BatchRuns) cutoff ?n (udLog db) 0 =
      (l2, 0 + length (filter (\<lambda>r. rqTS r < cutoff) (dbRequests (udLog db))), True)"
    "dbRequests l2 = filter (\<lambda>r. cutoff \<le> rqTS r) (dbRequests (udLog db))"
    "dbAttempts l2 = filter (\<lambda>a. atRequestID a \<notin> rqID ` {r \<in> set (dbRequests (udLog db)). rqTS r < cutoff}) (dbAttempts (udLog db))"
    "dbBodies l2 = dbBodies (udLog db)"
    using prune_requests_all[OF n assms(1), of cutoff 0] by blast
  have "distinct (map boRequestID (dbBodies l2))" using assms(2) p(4) by simp
  from prune_bodies_all[OF n this, of "UnixMilli now"] obtain l3
    where b: "prune_bodies (\<lambda>_. BatchRuns) (UnixMilli now) ?n l2 = (l3, True)" "dbRequests l3 = dbRequests l2"
      "dbAttempts l3 = dbAttempts l2" "dbBodies l3 = filter (\<lambda>b. UnixMilli now \<le> boExpiresAt b) (dbBodies l2)" by blast
  have res: "udLog db' = l3" "udUsage db' = filter (\<lambda>u. utc_day (now - usageRetention) \<le> usDay u) (udUsage db)"
    "deleted = length (filter (\<lambda>r. rqTS r < cutoff) (dbRequests (udLog db)))" "ok"
    using assms(3,5) p(1) b(1) by (auto simp: Prune_def Let_def not_less simp flip: assms(4))
  show ?thesis unfolding res(1) b(2,3,4) p(2,3,4) using res(2,3,4) by (intro conjI refl)
qed



text \<open>A rollup never trips over its own table: whatever was logged, pruned and rolled up before, the rows it inserts
  never meet a key that is there, so it fails only when the database does, and it leaves one row per key.\<close>

theorem rollup_never_conflicts:
  assumes "ledger marshal db full now"
  shows "\<exists>db'. Rollup True now db = Some db' \<and> distinct (map usage_key (udUsage db')) \<and> udLog db' = udLog db"
proof -
  note inv = ledger_invariant[OF assms]
  define f where "f = (case last_day db of None \<Rightarrow> utc_day now - 1 | Some d \<Rightarrow> min d (utc_day now - 1))"
  define e where "e = utc_day now + 1"
  let ?days = "set (request_days (f * day_ms) (e * day_ms) (udLog db))"
  let ?src = "usageSource (f * day_ms) (e * day_ms) (udLog db)"
  let ?left = "filter (\<lambda>u. usDay u \<notin> ?days) (udUsage db)"
  note ep = ledger_inv_epoch(2)[OF inv]
  have "usDay u \<in> ?days" if "u \<in> set ?src" for u
  proof -
    have "u \<in> set (all_usage (udLog db))" "f \<le> usDay u" "usDay u < e"
      using that unfolding usageSource_days[OF ep] by auto
    then show ?thesis using all_usage_day[of u "udLog db"] unfolding request_days_iff[OF ep] by blast
  qed
  then have "fst k \<in> ?days" if "k \<in> usage_key ` set ?src" for k using that by (auto simp: usage_key_def)
  then have "usage_key ` set ?left \<inter> usage_key ` set (rolled ?src) = {}"
    unfolding rolled_keys[THEN arg_cong[where f = set], unfolded set_map set_group_keys] by (fastforce simp: usage_key_def)
  moreover have "distinct (map usage_key ?left)" using inv by (simp add: ledger_inv_def distinct_map_filter)
  moreover have "distinct (map usage_key (rolled ?src))" by (simp add: rolled_keys)
  ultimately have "distinct (map usage_key (?left @ rolled ?src))" by simp
  then show ?thesis
    using rollupFrom_day[OF inv] unfolding f_def[symmetric]
    by (simp add: Rollup_def rollupDays_def Let_def e_def[symmetric] del: map_append)
qed

theorem rollup_never_conflicts_witness: "\<exists>db'. Rollup True demo_now demo_ledger_db = Some db' \<and> udLog db' = demo_full"
  using rollup_never_conflicts[OF demo_ledger(1)] by (auto simp: demo_ledger_db_def)
theorem prune_exact_witness:
  "dbRequests (udLog (fst (Prune \<lparr>ppCutoff = True, ppRequests = (\<lambda>_. BatchRuns), ppBodies = (\<lambda>_. BatchRuns), ppUsage = True,
      ppVacuum = True, ppCheckpoint = True\<rparr> (demo_now + 3 * day_ns) (2 * day_ns) day_ns 0 demo_ledger_db))) = []"
proof -
  let ?pp = "\<lparr>ppCutoff = True, ppRequests = (\<lambda>_. BatchRuns), ppBodies = (\<lambda>_. BatchRuns), ppUsage = True, ppVacuum = True,
    ppCheckpoint = True\<rparr>"
  let ?P = "Prune ?pp (demo_now + 3 * day_ns) (2 * day_ns) day_ns 0 demo_ledger_db"
  have l: "udLog demo_ledger_db = demo_full" by (simp add: demo_ledger_db_def)
  have i: "distinct (map rqID (dbRequests (udLog demo_ledger_db)))" by (simp add: l demo_stored(2))
  have b: "distinct (map boRequestID (dbBodies (udLog demo_ledger_db)))"
    by (simp add: l demo_full_def stored_def stmts_of_def bodies_of_def demo_usage_record_def demo_log_record_def
        RequestRecord.defs LogRecord.defs newRecord_def)
  have c: "UnixMilli (demo_now + 3 * day_ns - 2 * day_ns) = 20001 * day_ms"
    using UnixMilli_DateUTC[of 20001] by (simp add: demo_now_def DateUTC_def day_ns_def add.commute)
  have t: "rqTS (request_row_of demo_usage_record [] [] []) = 20000 * day_ms" by (simp add: request_row_of_def demo_usage_record_def)
  have e: "?P = (fst ?P, fst (snd ?P), snd (snd ?P))" and r: "0 < day_ns" by (simp_all add: day_ns_def)
  from prune_exact[OF i b r c[symmetric] e] show ?thesis by (simp add: l demo_stored(2) t)
qed
end
