(* ===== verification/Timer.thy ===== *)
theory Timer
  imports Records
begin

text \<open>
  The attempt timer, \<^verbatim>\<open>internal/exec/surface.go\<close> and \<^verbatim>\<open>exec.go\<close>: one \<^verbatim>\<open>time.Timer\<close> that bounds an attempt, moved from the send
  deadline to the idle bound and held while a write to the client blocks, and the name the operator is given for the bound
  that ran out.

  A Go timer is the instant it is armed for. Expiring disarms it and starts a goroutine that reads the name when it runs,
  a separate step here: \<open>tmFiring\<close> counts the ones started and not yet run. \<^verbatim>\<open>Stop\<close> tells whether it disarmed the timer.
\<close>

section \<open>Bounds\<close>

datatype timeoutBound = boundFirstByte | boundConnect | boundIdle | boundTotal

fun timeoutBound_String :: "timeoutBound \<Rightarrow> string" where
  "timeoutBound_String boundConnect = ''connect''"
| "timeoutBound_String boundIdle = ''idle''"
| "timeoutBound_String boundTotal = ''total''"
| "timeoutBound_String boundFirstByte = ''first_byte''"

definition timeoutCause :: "timeoutBound \<Rightarrow> go_error" where
  "timeoutCause b = plain_error (''darkrouter: '' @ timeoutBound_String b @ '' timeout exceeded'')"

record attempt_timer =
  tmPresent :: bool
  tmExpiry :: "time option"
  tmFiring :: nat
  tmCause :: "timeoutBound option"
  tmIdleArmed :: bool
  tmTimerHeld :: bool
  tmBound :: timeoutBound
  tmConnected :: bool
  tmBud :: budget
  tmCommitted :: bool
  tmIdle :: duration

section \<open>Operations\<close>

definition Timer_Stop :: "attempt_timer \<Rightarrow> attempt_timer \<times> bool" where
  "Timer_Stop s = (s\<lparr>tmExpiry := None\<rparr>, tmExpiry s \<noteq> None)"

definition Timer_Reset :: "time \<Rightarrow> duration \<Rightarrow> attempt_timer \<Rightarrow> attempt_timer" where
  "Timer_Reset now d s = s\<lparr>tmExpiry := Some (now + d)\<rparr>"

definition sendDeadline :: "budget \<Rightarrow> time \<Rightarrow> time \<times> timeoutBound" where
  "sendDeadline bud now =
     (let d = attemptDeadline bud now in if d = buDeadline bud then (d, boundTotal) else (d, boundFirstByte))"

definition rearm :: "time \<Rightarrow> duration \<Rightarrow> timeoutBound \<Rightarrow> bool \<Rightarrow> attempt_timer \<Rightarrow> attempt_timer" where
  "rearm now d b send s =
     (let (s1, stopped) = Timer_Stop s;
          s2 = (if stopped \<or> tmTimerHeld s1
                then (if send then s1\<lparr>tmConnected := False\<rparr> else s1)\<lparr>tmBound := b\<rparr> else s1)
      in Timer_Reset now d (s2\<lparr>tmTimerHeld := False\<rparr>))"

definition resetIdle :: "time \<Rightarrow> attempt_timer \<Rightarrow> attempt_timer" where
  "resetIdle now s =
     (if \<not> tmPresent s then s
      else if tmIdle s > 0 then
        let s1 = s\<lparr>tmIdleArmed := True\<rparr>;
            (d, b) =
              (if \<not> tmCommitted s \<and> \<not> IsZero (buDeadline (tmBud s)) then
                 let left = time_sub (buDeadline (tmBud s)) now
                 in if left < tmIdle s then (left, boundTotal) else (tmIdle s, boundIdle)
               else (tmIdle s, boundIdle))
        in rearm now d b False s1
      else s)"

definition resetSend :: "time \<Rightarrow> attempt_timer \<Rightarrow> attempt_timer" where
  "resetSend now s =
     (if \<not> tmPresent s then s
      else
        let (d, b) = sendDeadline (tmBud s) now
        in rearm now (time_sub d now) b True (s\<lparr>tmIdleArmed := False\<rparr>))"

definition beginWrite :: "attempt_timer \<Rightarrow> attempt_timer" where
  "beginWrite s0 =
     (let s = s0\<lparr>tmCommitted := True\<rparr> in
      if tmPresent s \<and> tmIdleArmed s then
        let (s1, stopped) = Timer_Stop s in if stopped then s1\<lparr>tmTimerHeld := True\<rparr> else s1
      else s)"

definition endWrite :: "time \<Rightarrow> attempt_timer \<Rightarrow> attempt_timer" where
  "endWrite now s = (if tmIdleArmed s then resetIdle now s else s)"

text \<open>A read of \<open>n\<close> bytes through \<^verbatim>\<open>idleBody\<close>.\<close>

definition idleBody_Read :: "time \<Rightarrow> nat \<Rightarrow> attempt_timer \<Rightarrow> attempt_timer" where
  "idleBody_Read now n s = (if n > 0 \<and> tmIdleArmed s then resetIdle now s else s)"

definition firedCause :: "attempt_timer \<Rightarrow> timeoutBound" where
  "firedCause s = (if tmBound s = boundFirstByte \<and> \<not> tmConnected s then boundConnect else tmBound s)"

text \<open>\<open>done\<close> tells that the attempt's context is over, \<open>timedOut\<close> that the error is a network timeout.\<close>

definition transportTimeout :: "attempt_timer \<Rightarrow> bool \<Rightarrow> bool \<Rightarrow> go_error \<Rightarrow> go_error" where
  "transportTimeout s done timedOut err =
     (if done \<or> \<not> timedOut then err
      else wrap_error (geText (timeoutCause (if tmConnected s then boundFirstByte else boundConnect))) err)"

text \<open>The timer as \<^verbatim>\<open>attempt\<close> creates it.\<close>

definition start_timer :: "budget \<Rightarrow> duration \<Rightarrow> time \<Rightarrow> attempt_timer" where
  "start_timer bud idle now =
     (let (deadline, bound) = sendDeadline bud now in
      \<lparr>tmPresent = True, tmExpiry = Some (now + time_sub deadline now), tmFiring = 0, tmCause = None, tmIdleArmed = False,
       tmTimerHeld = False, tmBound = bound, tmConnected = False, tmBud = bud, tmCommitted = False, tmIdle = idle\<rparr>)"

section \<open>Runs\<close>

text \<open>
  What the attempt's goroutine does in turn, with the clock, the timer and the connection trace running beside it:
  \<open>trWriting\<close> while a write to the client is under way, \<open>trFirst\<close> the bound in force when the timer first expired, \<open>trMoved\<close>
  how often it was moved between that and the goroutine it started.
\<close>

record timer_run =
  trTimer :: attempt_timer
  trNow :: time
  trWriting :: bool
  trFirst :: "timeoutBound option"
  trMoved :: nat

definition moved :: "timer_run \<Rightarrow> attempt_timer \<Rightarrow> timer_run" where
  "moved r s = r\<lparr>trTimer := s,
     trMoved := (if trFirst r = None \<or> tmCause (trTimer r) \<noteq> None \<or> s = trTimer r then trMoved r else Suc (trMoved r))\<rparr>"

inductive timer_reach :: "budget \<Rightarrow> duration \<Rightarrow> timer_run \<Rightarrow> bool" for bud idle where
  Begin: "timer_reach bud idle
     \<lparr>trTimer = start_timer bud idle now, trNow = now, trWriting = False, trFirst = None, trMoved = 0\<rparr>"
| Clock: "timer_reach bud idle r \<Longrightarrow> trNow r \<le> now \<Longrightarrow> timer_reach bud idle (r\<lparr>trNow := now\<rparr>)"
| Sending: "timer_reach bud idle r \<Longrightarrow> timer_reach bud idle (r\<lparr>trTimer := (trTimer r)\<lparr>tmConnected := False\<rparr>\<rparr>)"
| GotConn: "timer_reach bud idle r \<Longrightarrow> timer_reach bud idle (r\<lparr>trTimer := (trTimer r)\<lparr>tmConnected := True\<rparr>\<rparr>)"
| Idle: "timer_reach bud idle r \<Longrightarrow> \<not> trWriting r \<Longrightarrow> timer_reach bud idle (moved r (resetIdle (trNow r) (trTimer r)))"
| Resend: "timer_reach bud idle r \<Longrightarrow> \<not> trWriting r \<Longrightarrow> timer_reach bud idle (moved r (resetSend (trNow r) (trTimer r)))"
| Read: "timer_reach bud idle r \<Longrightarrow> \<not> trWriting r \<Longrightarrow>
     timer_reach bud idle (moved r (idleBody_Read (trNow r) n (trTimer r)))"
| StartWrite: "timer_reach bud idle r \<Longrightarrow> \<not> trWriting r \<Longrightarrow>
     timer_reach bud idle (r\<lparr>trTimer := beginWrite (trTimer r), trWriting := True\<rparr>)"
| FinishWrite: "timer_reach bud idle r \<Longrightarrow> trWriting r \<Longrightarrow>
     timer_reach bud idle ((moved r (endWrite (trNow r) (trTimer r)))\<lparr>trWriting := False\<rparr>)"
| Expire: "timer_reach bud idle r \<Longrightarrow> tmExpiry (trTimer r) = Some t \<Longrightarrow> t \<le> trNow r \<Longrightarrow>
     timer_reach bud idle (r\<lparr>trTimer := (trTimer r)\<lparr>tmExpiry := None, tmFiring := Suc (tmFiring (trTimer r))\<rparr>,
       trFirst := (case trFirst r of None \<Rightarrow> Some (tmBound (trTimer r)) | Some b \<Rightarrow> Some b)\<rparr>)"
| Fire: "timer_reach bud idle r \<Longrightarrow> tmFiring (trTimer r) > 0 \<Longrightarrow>
     timer_reach bud idle (r\<lparr>trTimer := (trTimer r)\<lparr>tmFiring := tmFiring (trTimer r) - 1,
       tmCause := (case tmCause (trTimer r) of None \<Rightarrow> Some (firedCause (trTimer r)) | Some c \<Rightarrow> Some c)\<rparr>\<rparr>)"

section \<open>The invariant\<close>

definition names :: "timeoutBound \<Rightarrow> timeoutBound \<Rightarrow> bool" where
  "names b c \<longleftrightarrow> c = b \<or> (b = boundFirstByte \<and> c = boundConnect)"

definition bound_inv :: "budget \<Rightarrow> duration \<Rightarrow> timer_run \<Rightarrow> bool" where
  "bound_inv bud idle r \<longleftrightarrow> (let s = trTimer r in
     tmPresent s \<and> tmBud s = bud \<and> tmIdle s = idle \<and> (tmIdleArmed s \<longrightarrow> 0 < idle) \<and>
     (trWriting r \<longrightarrow> tmCommitted s \<and> (tmIdleArmed s \<longrightarrow> tmExpiry s = None)) \<and>
     (\<forall>t. tmExpiry s = Some t \<longrightarrow> \<not> tmCommitted s \<longrightarrow> \<not> IsZero (buDeadline bud) \<longrightarrow> t \<le> buDeadline bud \<or> t \<le> trNow r) \<and>
     (\<forall>t. tmExpiry s = Some t \<longrightarrow> tmIdleArmed s \<longrightarrow> t \<le> trNow r + idle) \<and>
     (trFirst r = None \<longrightarrow> tmExpiry s \<noteq> None \<or> (trWriting r \<and> tmIdleArmed s)))"

definition name_inv :: "timer_run \<Rightarrow> bool" where
  "name_inv r \<longleftrightarrow> (let s = trTimer r in
     (tmTimerHeld s \<longrightarrow> tmExpiry s = None) \<and>
     (case trFirst r of
        None \<Rightarrow> tmFiring s = 0 \<and> tmCause s = None \<and> trMoved r = 0
      | Some b \<Rightarrow>
          (case tmCause s of
             None \<Rightarrow> (trMoved r = 0 \<longrightarrow> tmExpiry s = None \<and> \<not> tmTimerHeld s) \<and> (trMoved r \<le> 1 \<longrightarrow> tmBound s = b)
           | Some c \<Rightarrow> trMoved r \<le> 1 \<longrightarrow> names b c)))"

lemma time_sub_deadline: "now + time_sub d now \<le> d \<or> now + time_sub d now \<le> now"
  by (auto simp: time_sub_def max_def min_def int64_max_def)

lemma attemptDeadline_le: "attemptDeadline bud now \<le> buDeadline bud"
  by (simp add: attemptDeadline_def Let_def)

lemma send_le: "now + time_sub (attemptDeadline bud now) now \<le> buDeadline bud \<or> now + time_sub (attemptDeadline bud now) now \<le> now"
  using time_sub_deadline[of now "attemptDeadline bud now"] attemptDeadline_le[of bud now] by linarith

lemma sendDeadline_fst: "fst (sendDeadline bud now) = attemptDeadline bud now"
  by (simp add: sendDeadline_def Let_def)

text \<open>A timer moved to a bound: armed for it, under its name when nothing had fired.\<close>

lemma rearm_frame [simp]:
  "tmExpiry (rearm now d b send s) = Some (now + d)" "\<not> tmTimerHeld (rearm now d b send s)"
  "tmPresent (rearm now d b send s) = tmPresent s" "tmBud (rearm now d b send s) = tmBud s" "tmIdle (rearm now d b send s) = tmIdle s"
  "tmIdleArmed (rearm now d b send s) = tmIdleArmed s" "tmCommitted (rearm now d b send s) = tmCommitted s"
  "tmFiring (rearm now d b send s) = tmFiring s" "tmCause (rearm now d b send s) = tmCause s"
  "tmBound (rearm now d b send s) = (if tmExpiry s \<noteq> None \<or> tmTimerHeld s then b else tmBound s)"
  by (simp_all add: rearm_def Timer_Stop_def Timer_Reset_def Let_def)

lemma moved_same [simp]: "moved r (trTimer r) = r"
  by (simp add: moved_def)

lemma moved_sel [simp]: "trTimer (moved r s) = s" "trFirst (moved r s) = trFirst r" "trNow (moved r s) = trNow r"
  by (simp_all add: moved_def)

lemma bound_rearm:
  assumes "bound_inv bud idle r" "s = rearm (trNow r) d b send ((trTimer r)\<lparr>tmIdleArmed := armed\<rparr>)"
    and "armed \<Longrightarrow> 0 < idle \<and> d \<le> idle"
    and "\<not> tmCommitted (trTimer r) \<Longrightarrow> \<not> IsZero (buDeadline bud) \<Longrightarrow> trNow r + d \<le> buDeadline bud \<or> trNow r + d \<le> trNow r"
  shows "bound_inv bud idle ((moved r s)\<lparr>trWriting := False\<rparr>)"
  using assms(1,3,4) by (auto simp: bound_inv_def Let_def assms(2))

lemma name_rearm:
  assumes "name_inv r" "s = rearm now d b send ((trTimer r)\<lparr>tmIdleArmed := armed\<rparr>)"
  shows "name_inv ((moved r s)\<lparr>trWriting := w\<rparr>)"
proof (cases "s = trTimer r")
  case True
  then show ?thesis using assms(1) by (simp add: name_inv_def Let_def split: option.splits)
next
  case False
  then have m: "trMoved (moved r s) = (if trFirst r = None \<or> tmCause (trTimer r) \<noteq> None then trMoved r else Suc (trMoved r))"
    by (simp add: moved_def)
  show ?thesis using assms(1) unfolding assms(2)
    by (auto simp: name_inv_def Let_def m[unfolded assms(2)] split: option.splits)
qed

definition timer_inv :: "budget \<Rightarrow> duration \<Rightarrow> timer_run \<Rightarrow> bool" where
  "timer_inv bud idle r \<longleftrightarrow> bound_inv bud idle r \<and> name_inv r"

lemma inv_rearm:
  assumes "timer_inv bud idle r" "s = rearm (trNow r) d b send ((trTimer r)\<lparr>tmIdleArmed := armed\<rparr>)"
    and "armed \<Longrightarrow> 0 < idle \<and> d \<le> idle"
    and "\<not> tmCommitted (trTimer r) \<Longrightarrow> \<not> IsZero (buDeadline bud) \<Longrightarrow> trNow r + d \<le> buDeadline bud \<or> trNow r + d \<le> trNow r"
  shows "timer_inv bud idle ((moved r s)\<lparr>trWriting := False\<rparr>)"
  using assms bound_rearm name_rearm by (simp add: timer_inv_def)

lemma inv_present: "timer_inv bud idle r \<Longrightarrow> tmPresent (trTimer r) \<and> tmIdle (trTimer r) = idle \<and> tmBud (trTimer r) = bud"
  by (simp add: timer_inv_def bound_inv_def Let_def)

lemma inv_resetIdle:
  assumes inv: "timer_inv bud idle r" and w: "trWriting r \<Longrightarrow> tmIdleArmed (trTimer r)"
  shows "timer_inv bud idle ((moved r (resetIdle (trNow r) (trTimer r)))\<lparr>trWriting := False\<rparr>)"
proof (cases "idle > 0")
  case True
  let ?s = "trTimer r" and ?left = "time_sub (buDeadline bud) (trNow r)"
  define d where "d = (if \<not> tmCommitted ?s \<and> \<not> IsZero (buDeadline bud) \<and> ?left < idle then ?left else idle)"
  define b where "b = (if \<not> tmCommitted ?s \<and> \<not> IsZero (buDeadline bud) \<and> ?left < idle then boundTotal else boundIdle)"
  have eq: "resetIdle (trNow r) ?s = rearm (trNow r) d b False (?s\<lparr>tmIdleArmed := True\<rparr>)"
    using inv_present[OF inv] True by (simp add: resetIdle_def d_def b_def Let_def)
  have "trNow r + idle \<le> buDeadline bud" if "\<not> ?left < idle"
    using that True by (auto simp: time_sub_def max_def min_def int64_max_def split: if_splits)
  then have "trNow r + d \<le> buDeadline bud \<or> trNow r + d \<le> trNow r" if "\<not> tmCommitted ?s" "\<not> IsZero (buDeadline bud)"
    using that time_sub_deadline[of "trNow r" "buDeadline bud"] by (auto simp: d_def)
  with inv_rearm[OF inv eq] True show ?thesis by (auto simp: d_def)
next
  case False
  then have n: "\<not> trWriting r" using inv w by (auto simp: timer_inv_def bound_inv_def Let_def)
  have "resetIdle (trNow r) (trTimer r) = trTimer r" using False inv_present[OF inv] by (simp add: resetIdle_def)
  moreover have "r\<lparr>trWriting := False\<rparr> = r" using n by (cases r) simp
  ultimately show ?thesis using inv by simp
qed

lemma inv_resetSend:
  assumes inv: "timer_inv bud idle r" and "\<not> trWriting r"
  shows "timer_inv bud idle (moved r (resetSend (trNow r) (trTimer r)))"
proof -
  let ?s = "trTimer r"
  have "resetSend (trNow r) ?s = rearm (trNow r) (time_sub (attemptDeadline bud (trNow r)) (trNow r))
      (snd (sendDeadline bud (trNow r))) True (?s\<lparr>tmIdleArmed := False\<rparr>)"
    using inv_present[OF inv] sendDeadline_fst[of bud "trNow r"] by (cases "sendDeadline bud (trNow r)") (simp add: resetSend_def)
  from inv_rearm[OF inv this] have "timer_inv bud idle ((moved r (resetSend (trNow r) ?s))\<lparr>trWriting := False\<rparr>)"
    using send_le[of "trNow r" bud] by simp
  moreover have "(moved r (resetSend (trNow r) ?s))\<lparr>trWriting := False\<rparr> = moved r (resetSend (trNow r) ?s)"
    using assms(2) by (simp add: moved_def)
  ultimately show ?thesis by simp
qed

lemma timer_reach_inv: "timer_reach bud idle r \<Longrightarrow> timer_inv bud idle r"
proof (induction rule: timer_reach.induct)
  case (Begin now)
  show ?case using send_le[of now bud] by (auto simp: timer_inv_def bound_inv_def name_inv_def start_timer_def sendDeadline_def Let_def)
next
  case (Clock r now)
  then have "name_inv (r\<lparr>trNow := now\<rparr>)" by (simp add: timer_inv_def name_inv_def Let_def split: option.splits)
  with Clock show ?case by (fastforce simp: timer_inv_def bound_inv_def Let_def)
next
  case (Sending r)
  then show ?case by (simp add: timer_inv_def bound_inv_def name_inv_def Let_def split: option.splits)
next
  case (GotConn r)
  then show ?case by (simp add: timer_inv_def bound_inv_def name_inv_def Let_def split: option.splits)
next
  case (Idle r)
  then have "(moved r (resetIdle (trNow r) (trTimer r)))\<lparr>trWriting := False\<rparr> = moved r (resetIdle (trNow r) (trTimer r))"
    by (simp add: moved_def)
  with inv_resetIdle[OF Idle.IH] Idle.hyps show ?case by simp
next
  case (Resend r)
  then show ?case using inv_resetSend by blast
next
  case (Read r n)
  then have "(moved r (resetIdle (trNow r) (trTimer r)))\<lparr>trWriting := False\<rparr> = moved r (resetIdle (trNow r) (trTimer r))"
    by (simp add: moved_def)
  with inv_resetIdle[OF Read.IH] Read.hyps Read.IH show ?case by (simp add: idleBody_Read_def)
next
  case (StartWrite r)
  then show ?case
    by (auto simp: timer_inv_def bound_inv_def name_inv_def Let_def beginWrite_def Timer_Stop_def split: option.splits)
next
  case (FinishWrite r)
  show ?case
  proof (cases "tmIdleArmed (trTimer r)")
    case True
    with inv_resetIdle[OF FinishWrite.IH] show ?thesis by (simp add: endWrite_def)
  next
    case False
    with FinishWrite show ?thesis
      by (auto simp: endWrite_def timer_inv_def bound_inv_def name_inv_def Let_def split: option.splits)
  qed
next
  case (Expire r t)
  then show ?case by (auto simp: timer_inv_def bound_inv_def name_inv_def Let_def split: option.splits)
next
  case (Fire r)
  then show ?case by (auto simp: timer_inv_def bound_inv_def name_inv_def Let_def names_def firedCause_def split: option.splits)
qed

section \<open>Examples\<close>

definition demo_bud :: budget where
  "demo_bud = \<lparr>buDeadline = 1000, buPerTry = 100\<rparr>"

definition demo_start :: timer_run where
  "demo_start = \<lparr>trTimer = start_timer demo_bud 50 10, trNow = 10, trWriting = False, trFirst = None, trMoved = 0\<rparr>"

text \<open>Headers arrive, idle is armed, a write to the client begins.\<close>

definition demo_writing :: timer_run where
  "demo_writing = (let r = moved demo_start (resetIdle 10 (trTimer demo_start))
     in r\<lparr>trTimer := beginWrite (trTimer r), trWriting := True\<rparr>)"

text \<open>The send deadline passes and the timer's goroutine starts.\<close>

definition demo_expired :: timer_run where
  "demo_expired = demo_start\<lparr>trNow := 200, trTimer := (trTimer demo_start)\<lparr>tmExpiry := None, tmFiring := 1\<rparr>,
     trFirst := Some boundFirstByte\<rparr>"

lemma demo_timer_eval:
  "trTimer demo_start = \<lparr>tmPresent = True, tmExpiry = Some 110, tmFiring = 0, tmCause = None, tmIdleArmed = False,
     tmTimerHeld = False, tmBound = boundFirstByte, tmConnected = False, tmBud = demo_bud, tmCommitted = False, tmIdle = 50\<rparr>"
  by (simp add: demo_start_def start_timer_def sendDeadline_def attemptDeadline_def demo_bud_def Let_def time_sub_def int64_max_def)

lemma demo_start_sel [simp]: "trNow demo_start = 10" "\<not> trWriting demo_start" "trFirst demo_start = None" "trMoved demo_start = 0"
  by (simp_all add: demo_start_def)

lemma demo_start_reach: "timer_reach demo_bud 50 demo_start"
  unfolding demo_start_def by (rule timer_reach.Begin)

lemma demo_writing_reach: "timer_reach demo_bud 50 demo_writing" "trWriting demo_writing" "tmIdleArmed (trTimer demo_writing)"
proof -
  have "timer_reach demo_bud 50 (moved demo_start (resetIdle 10 (trTimer demo_start)))"
    using timer_reach.Idle[OF demo_start_reach] by simp
  then show "timer_reach demo_bud 50 demo_writing"
    unfolding demo_writing_def Let_def by (intro timer_reach.StartWrite) (simp_all add: moved_def)
  show "trWriting demo_writing" "tmIdleArmed (trTimer demo_writing)"
    by (simp_all add: demo_writing_def Let_def demo_timer_eval resetIdle_def beginWrite_def Timer_Stop_def demo_bud_def split: prod.splits)
qed

lemma demo_expired_reach: "timer_reach demo_bud 50 demo_expired"
proof -
  have "timer_reach demo_bud 50 (demo_start\<lparr>trNow := 200\<rparr>)"
    by (rule timer_reach.Clock[OF demo_start_reach]) simp
  from timer_reach.Expire[OF this, of 110] show ?thesis
    by (simp add: demo_timer_eval demo_expired_def)
qed

section \<open>A name changed under a firing\<close>

text \<open>\<^verbatim>\<open>rearm\<close> is meant to rename the timer only when no firing has started. It tells by \<^verbatim>\<open>Stop\<close>, which knows nothing of an
  earlier firing once the timer has been armed again: when the goroutine is late and the timer is moved twice before it runs,
  a send that ran out of its first byte is reported as an idle provider.\<close>

lemma late_goroutine_misnames:
  "\<exists>r. timer_reach demo_bud 50 r \<and> trFirst r = Some boundFirstByte \<and> tmCause (trTimer r) = Some boundIdle"
proof -
  let ?idle = "\<lambda>r. moved r (resetIdle (trNow r) (trTimer r))"
  let ?r = "?idle (?idle demo_expired)"
  have w: "\<not> trWriting demo_expired" by (simp add: demo_expired_def)
  have "timer_reach demo_bud 50 (?idle demo_expired)" using demo_expired_reach w by (rule timer_reach.Idle)
  then have r: "timer_reach demo_bud 50 ?r" by (rule timer_reach.Idle) (use w in \<open>simp add: moved_def\<close>)
  have f: "tmFiring (trTimer ?r) = 1" "tmCause (trTimer ?r) = None" "firedCause (trTimer ?r) = boundIdle" "trFirst ?r = Some boundFirstByte"
    by (simp_all add: demo_expired_def demo_timer_eval resetIdle_def firedCause_def Let_def demo_bud_def IsZero_def time_sub_def int64_max_def)
  let ?r' = "?r\<lparr>trTimer := (trTimer ?r)\<lparr>tmFiring := 0, tmCause := Some boundIdle\<rparr>\<rparr>"
  have "timer_reach demo_bud 50 ?r'" using timer_reach.Fire[OF r] f(1-3) by simp
  then show ?thesis using f(4) by (intro exI[of _ ?r']) simp
qed

section \<open>The properties\<close>

text \<open>C34. The attempt is bounded by the right clock at every moment: idle never runs while a write to the client is under way;
  until a write has begun nothing bounds the attempt past the request's total (save an instant already past); and between
  writes, until it expires, the timer is armed, once idle is armed for no later than one idle interval from now.\<close>

theorem timer_bounds:
  assumes "timer_reach bud idle r"
  shows "(trWriting r \<and> tmIdleArmed (trTimer r) \<longrightarrow> tmExpiry (trTimer r) = None) \<and>
    (\<forall>t. tmExpiry (trTimer r) = Some t \<and> \<not> tmCommitted (trTimer r) \<and> \<not> IsZero (buDeadline bud) \<longrightarrow>
       t \<le> buDeadline bud \<or> t \<le> trNow r) \<and>
    (\<not> trWriting r \<and> trFirst r = None \<longrightarrow>
       (\<exists>t. tmExpiry (trTimer r) = Some t \<and> (tmIdleArmed (trTimer r) \<longrightarrow> t \<le> trNow r + idle)))"
  using timer_reach_inv[OF assms] by (auto simp: timer_inv_def bound_inv_def name_inv_def Let_def)

theorem timer_bounds_witness: "tmExpiry (trTimer demo_writing) = None"
  using timer_bounds[OF demo_writing_reach(1)] demo_writing_reach(2,3) by blast

text \<open>An attempt the timer cancels is told the bound that ran out: the cause is the bound in force when the timer expired,
  \<^verbatim>\<open>connect\<close> for a send that never got its connection, as long as the timer was moved at most once before the goroutine it
  started ran.\<close>

theorem timeout_named:
  assumes "timer_reach bud idle r" "tmCause (trTimer r) = Some c" "trMoved r \<le> 1"
  shows "\<exists>b. trFirst r = Some b \<and> (c = b \<or> b = boundFirstByte \<and> c = boundConnect)"
proof -
  note inv = timer_reach_inv[OF assms(1)]
  obtain b where "trFirst r = Some b" using inv assms(2) by (cases "trFirst r") (auto simp: timer_inv_def bound_inv_def name_inv_def Let_def)
  with inv assms(2,3) show ?thesis by (auto simp: timer_inv_def bound_inv_def name_inv_def Let_def names_def)
qed

theorem timeout_named_witness:
  "\<exists>r c. timer_reach demo_bud 50 r \<and> tmCause (trTimer r) = Some c \<and> c = boundConnect"
proof -
  let ?r = "demo_expired\<lparr>trTimer := (trTimer demo_expired)\<lparr>tmFiring := 0, tmCause := Some boundConnect\<rparr>\<rparr>"
  have f: "tmFiring (trTimer demo_expired) = 1" "tmCause (trTimer demo_expired) = None" "firedCause (trTimer demo_expired) = boundConnect"
    "trMoved demo_expired = 0"
    by (simp_all add: demo_expired_def demo_timer_eval firedCause_def)
  then have r: "timer_reach demo_bud 50 ?r" using timer_reach.Fire[OF demo_expired_reach] by simp
  have "\<exists>b. trFirst ?r = Some b \<and> (boundConnect = b \<or> b = boundFirstByte \<and> boundConnect = boundConnect)"
    using timeout_named[OF r] f(4) by simp
  with r show ?thesis by (intro exI[of _ ?r]) auto
qed

end
