(* ===== verification/Dialect.thy ===== *)
theory Dialect
  imports Streams
begin

text \<open>
  What the client dialects' stream writers share: a wire event is an SSE name and a JSON body, sent and flushed one by
  one until a write fails; and their contract with the executor, a locale: on a client that takes everything, a writer
  delivers a text that depends on the events alone. The executor's side of that contract is proved once, inside it.

  A Go map that is marshalled is listed in the order of its keys, the order \<^verbatim>\<open>json.Marshal\<close> prints it in; \<open>marshal\<close>, the
  printer itself, is an argument where bytes are written.
\<close>

section \<open>Wire events\<close>

type_synonym wire = "string \<times> json"

definition go_map :: "(string \<times> json) list \<Rightarrow> json" where
  "go_map ms = JObj (sort_key fst ms)"

definition member :: "string \<Rightarrow> json \<Rightarrow> json option" where
  "member k j = (case j of JObj ms \<Rightarrow> map_of ms k | _ \<Rightarrow> None)"

text \<open>The writer behind a client: a failed write returns from it; a failed flush does not.\<close>

fun send_all :: "(json \<Rightarrow> string) \<Rightarrow> wire list \<Rightarrow> CommitWriter \<Rightarrow> CommitWriter \<times> bool" where
  "send_all marshal [] cw = (cw, True)"
| "send_all marshal ((name, body) # ws) cw =
     (let e = write_err cw; cw1 = cw_Write cw (Send name (marshal body)) in
      if e \<noteq> None then (cw1, False) else send_all marshal ws (cw_Flush cw1))"

section \<open>A client that takes everything\<close>

definition healthy :: "CommitWriter \<Rightarrow> bool" where
  "healthy cw = (cwPlan cw = [] \<and> cwErr cw = None)"

definition wire_text :: "(json \<Rightarrow> string) \<Rightarrow> wire list \<Rightarrow> string" where
  "wire_text marshal ws = frames (map (\<lambda>(name, body). (name, marshal body)) ws)"

lemma wire_text_append: "wire_text m (xs @ ys) = wire_text m xs @ wire_text m ys"
  by (simp add: wire_text_def frames_def)

lemma healthy_send:
  "healthy cw \<Longrightarrow> healthy (cw_Flush (cw_Write cw b)) \<and> cwOut (cw_Flush (cw_Write cw b)) = cwOut cw @ b \<and> write_err cw = None"
  by (auto simp: healthy_def cw_Flush_def cw_Write_def cw_commit_def cw_fail_def write_err_def Let_def)

lemma send_all_healthy:
  assumes "healthy cw"
  shows "\<exists>cw'. send_all m ws cw = (cw', True) \<and> healthy cw' \<and> cwOut cw' = cwOut cw @ wire_text m ws"
  using assms
proof (induction ws arbitrary: cw)
  case (Cons x ws)
  obtain name body where x: "x = (name, body)" by (cases x)
  note h = healthy_send[OF Cons.prems, of "Send name (m body)"]
  then show ?case using Cons.IH[of "cw_Flush (cw_Write cw (Send name (m body)))"]
    by (simp add: x Let_def wire_text_def frames_def)
qed (simp add: wire_text_def frames_def)

section \<open>The contract of a stream writer\<close>

locale stream_dialect =
  fixes dl :: "'d dialect"
    and sent :: "StreamEvent list \<Rightarrow> string"
  assumes writes_sent: "healthy cw \<Longrightarrow> \<exists>d cw'. write_events dl evs (dlInit dl) cw = (d, cw') \<and>
      takes_all dl evs (dlInit dl) cw \<and> healthy (dlEnd dl d cw') \<and> cwOut (dlEnd dl d cw') = cwOut cw @ sent evs"
begin

lemma client_receives:
  assumes "map fst pulls = map Inl evs" "exMaxPrecommit env \<le> 0 \<or> held_bytes evs \<le> exMaxPrecommit env"
    and "healthy (xCW xs)"
  shows "\<exists>xs'. attemptStream env ck dl pulls cx xs = (xs', OutcomeSuccess, None) \<and> cwOut (xCW xs') = cwOut (xCW xs) @ sent evs"
proof -
  from writes_sent[OF assms(3)] obtain d cw' where w: "write_events dl evs (dlInit dl) (xCW xs) = (d, cw')"
    "takes_all dl evs (dlInit dl) (xCW xs)" "healthy (dlEnd dl d cw')" "cwOut (dlEnd dl d cw') = cwOut (xCW xs) @ sent evs"
    by blast
  have "cwErr (dlEnd dl d cw') = None" using w(3) by (simp add: healthy_def)
  from buffered_stream[OF assms(1,2) w(2,1) this] w(4) show ?thesis by fastforce
qed

end

section \<open>Writers that send as they go\<close>

text \<open>A writer given by what it sends: the bytes of each event and of the end of the stream, each a function of the
  state it has reached. It meets the contract above, with the concatenation of those bytes.\<close>

fun text_run :: "(StreamEvent \<Rightarrow> 'd \<Rightarrow> 'd \<times> string) \<Rightarrow> ('d \<Rightarrow> string) \<Rightarrow> StreamEvent list \<Rightarrow> 'd \<Rightarrow> string" where
  "text_run sends fin [] d = fin d"
| "text_run sends fin (ev # evs) d = (case sends ev d of (d1, b) \<Rightarrow> b @ text_run sends fin evs d1)"

locale event_writer =
  fixes dl :: "'d dialect"
    and sends :: "StreamEvent \<Rightarrow> 'd \<Rightarrow> 'd \<times> string"
    and fin :: "'d \<Rightarrow> string"
    and live :: "'d \<Rightarrow> bool"
  assumes live_init: "live (dlInit dl)"
    and step_sends: "healthy cw \<Longrightarrow> live d \<Longrightarrow> sends ev d = (d1, b) \<Longrightarrow>
      live d1 \<and> (\<exists>cw1. dlStep dl d cw (Inl ev) = (d1, cw1, True) \<and> healthy cw1 \<and> cwOut cw1 = cwOut cw @ b)"
    and end_sends: "healthy cw \<Longrightarrow> live d \<Longrightarrow> healthy (dlEnd dl d cw) \<and> cwOut (dlEnd dl d cw) = cwOut cw @ fin d"
begin

lemma write_events_live:
  assumes "healthy cw" "live d"
  shows "\<exists>d' cw'. write_events dl evs d cw = (d', cw') \<and> takes_all dl evs d cw \<and> healthy (dlEnd dl d' cw') \<and>
    cwOut (dlEnd dl d' cw') = cwOut cw @ text_run sends fin evs d"
  using assms
proof (induction evs arbitrary: d cw)
  case Nil
  then show ?case using end_sends[OF Nil] by (simp add: write_events_def healthy_def)
next
  case (Cons ev evs)
  obtain d1 b where e: "sends ev d = (d1, b)" by fastforce
  from step_sends[OF Cons.prems e] obtain cw1 where s: "live d1" "dlStep dl d cw (Inl ev) = (d1, cw1, True)" "healthy cw1"
    "cwOut cw1 = cwOut cw @ b" by blast
  from Cons.IH[OF s(3,1)] s(4) Cons.prems(1) show ?case
    by (simp add: write_events_Cons[OF s(2)] s(2) e healthy_def)
qed

end

sublocale event_writer \<subseteq> stream_dialect dl "\<lambda>evs. text_run sends fin evs (dlInit dl)"
  by unfold_locales (use write_events_live[OF _ live_init] in blast)

end
