(* ===== verification/OpenAI_Writer.thy ===== *)
theory OpenAI_Writer
  imports Dialect
begin

text \<open>
  The OpenAI client dialect's response side, \<^verbatim>\<open>internal/edge/openai/stream.go\<close> and \<^verbatim>\<open>write.go\<close>: the chat-completion chunks a
  stream of canonical events becomes, the response and error bodies. \<open>clock\<close> gives the seconds \<^verbatim>\<open>now().Unix()\<close> reads for
  each chunk in turn; a \<^verbatim>\<open>json.RawMessage\<close> as text is \<open>raw_text\<close> of its value.
\<close>

section \<open>Bodies\<close>

fun finishReason :: "StopReason \<Rightarrow> string" where
  "finishReason StopMaxTokens = ''length''"
| "finishReason StopToolUse = ''tool_calls''"
| "finishReason StopContentFilter = ''content_filter''"
| "finishReason _ = ''stop''"

definition oa_usageBody :: "Usage \<Rightarrow> json" where
  "oa_usageBody u = JObj
     ([(''completion_tokens'', JInt (OutputTokens u))] @
      (if ReasoningTokens u > 0
       then [(''completion_tokens_details'', JObj [(''reasoning_tokens'', JInt (ReasoningTokens u))])] else []) @
      [(''prompt_tokens'', JInt (PromptTokens u))] @
      (if CacheReadTokens u > 0
       then [(''prompt_tokens_details'', JObj [(''cached_tokens'', JInt (CacheReadTokens u))])] else []) @
      [(''total_tokens'', JInt (PromptTokens u + OutputTokens u))])"

fun oa_statusFor :: "ErrorType \<Rightarrow> int" where
  "oa_statusFor ErrInvalidRequest = 400"
| "oa_statusFor ErrContentFilter = 400"
| "oa_statusFor ErrAuthentication = 401"
| "oa_statusFor ErrPermission = 403"
| "oa_statusFor ErrNotFound = 404"
| "oa_statusFor ErrPayloadTooLarge = 413"
| "oa_statusFor ErrUnsupportedMedia = 415"
| "oa_statusFor ErrRateLimit = 429"
| "oa_statusFor ErrOverloaded = 503"
| "oa_statusFor _ = 502"

definition oa_error_body :: "Error \<Rightarrow> json" where
  "oa_error_body e = JObj [(''error'', JObj [(''code'', JStr (errCode e)), (''message'', JStr (errMessage e)),
     (''type'', JStr (ErrorType_string (errType e)))])]"

definition oa_WriteError :: "Error \<Rightarrow> int \<times> json" where
  "oa_WriteError e = (oa_statusFor (errType e), oa_error_body e)"

text \<open>The three accumulators of \<^verbatim>\<open>WriteResponse\<close>: text, reasoning, tool calls.\<close>

definition oa_fold_block :: "(json \<Rightarrow> string) \<Rightarrow> ContentBlock \<Rightarrow> string \<times> string \<times> json list \<Rightarrow> string \<times> string \<times> json list" where
  "oa_fold_block raw_text b acc =
     (case acc of (txt, reasoning, calls) \<Rightarrow>
        case cbType b of
          BlockText \<Rightarrow> (txt @ cbText b, reasoning, calls)
        | BlockThinking \<Rightarrow> (case cbThinking b of None \<Rightarrow> acc | Some th \<Rightarrow> (txt, reasoning @ thText th, calls))
        | BlockToolUse \<Rightarrow>
            (case cbToolUse b of
               None \<Rightarrow> acc
             | Some tu \<Rightarrow>
                 let args0 = (case tuInput tu of None \<Rightarrow> '''' | Some j \<Rightarrow> raw_text j);
                     args = (if args0 = '''' then ''{}'' else args0)
                 in (txt, reasoning, calls @ [JObj [(''function'', JObj [(''arguments'', JStr args), (''name'', JStr (tuName tu))]),
                      (''id'', JStr (tuID tu)), (''type'', JStr ''function'')]]))
        | _ \<Rightarrow> acc)"

definition oa_WriteResponse :: "(json \<Rightarrow> string) \<Rightarrow> int \<Rightarrow> IRResponse \<Rightarrow> json" where
  "oa_WriteResponse raw_text created r =
     (case fold (oa_fold_block raw_text) (rspContent r) ('''', '''', []) of (txt, reasoning, calls) \<Rightarrow>
        let msg = JObj ([(''content'', if length txt > 0 then JStr txt else JNull)] @
              (if length reasoning > 0 then [(''reasoning_content'', JStr reasoning)] else []) @
              [(''role'', JStr ''assistant'')] @
              (if length calls > 0 then [(''tool_calls'', JArr calls)] else []))
        in JObj [(''choices'', JArr [JObj [(''finish_reason'', JStr (finishReason (rspStopReason r))), (''index'', JInt 0),
                (''message'', msg)]]),
             (''created'', JInt created), (''id'', JStr (rspID r)), (''model'', JStr (rspModel r)),
             (''object'', JStr ''chat.completion''), (''usage'', oa_usageBody (rspUsage r))])"

section \<open>The stream writer\<close>

record ow_state =
  owID :: string
  owModel :: string
  owToolIndex :: "(int, int) gomap"
  owSent :: nat
  owDone :: bool

definition ow_init :: ow_state where
  "ow_init = \<lparr>owID = '''', owModel = '''', owToolIndex = [], owSent = 0, owDone = False\<rparr>"

definition chunk_with :: "json \<Rightarrow> (string \<times> json) list \<Rightarrow> int \<Rightarrow> ow_state \<Rightarrow> wire" where
  "chunk_with choices extra created st =
     ('''', JObj ([(''choices'', choices), (''created'', JInt created),
        (''id'', JStr (if owID st = '''' then ''chatcmpl-darkrouter'' else owID st)), (''model'', JStr (owModel st)),
        (''object'', JStr ''chat.completion.chunk'')] @ extra))"

definition chunk :: "json \<Rightarrow> json \<Rightarrow> int \<Rightarrow> ow_state \<Rightarrow> wire" where
  "chunk delta finish created st =
     chunk_with (JArr [JObj [(''delta'', delta), (''finish_reason'', finish), (''index'', JInt 0)]]) [] created st"

definition usage_chunk :: "Usage \<Rightarrow> int \<Rightarrow> ow_state \<Rightarrow> wire" where
  "usage_chunk u created st = chunk_with (JArr []) [(''usage'', oa_usageBody u)] created st"

definition open_call :: "int \<Rightarrow> Delta \<Rightarrow> json" where
  "open_call idx d = JObj [(''tool_calls'', JArr [JObj [(''function'', JObj [(''arguments'', JStr ''''), (''name'', JStr (dToolName d))]),
     (''id'', JStr (dToolID d)), (''index'', JInt idx), (''type'', JStr ''function'')]])]"

definition more_args :: "int \<Rightarrow> string \<Rightarrow> json" where
  "more_args idx args = JObj [(''tool_calls'', JArr [JObj [(''function'', JObj [(''arguments'', JStr args)]), (''index'', JInt idx)]])]"

text \<open>One event: the state it leaves and the chunks it sends, each made with the clock of its turn.\<close>

definition ow_event :: "(nat \<Rightarrow> int) \<Rightarrow> StreamEvent \<Rightarrow> ow_state \<Rightarrow> ow_state \<times> wire list" where
  "ow_event clock ev st =
     (let t = clock (owSent st); t' = clock (Suc (owSent st)); sent1 = (\<lambda>s. s\<lparr>owSent := Suc (owSent s)\<rparr>) in
      case evType ev of
        EventMessageStart \<Rightarrow>
          let st1 = st\<lparr>owID := evID ev, owModel := evModel ev\<rparr>
          in (sent1 st1, [chunk (JObj [(''role'', JStr ''assistant'')]) JNull t st1])
      | EventBlockStart \<Rightarrow>
          (case evDelta ev of
             None \<Rightarrow> (st, [])
           | Some d \<Rightarrow>
               if dType d \<noteq> BlockToolUse then (st, [])
               else
                 let idx = int (length (owToolIndex st)); st1 = st\<lparr>owToolIndex := AList.update (evIndex ev) idx (owToolIndex st)\<rparr>
                 in (sent1 st1, [chunk (open_call idx d) JNull t st1]))
      | EventContentDelta \<Rightarrow>
          (case evDelta ev of
             None \<Rightarrow> (st, [])
           | Some d \<Rightarrow>
               (case dType d of
                  BlockText \<Rightarrow> (sent1 st, [chunk (JObj [(''content'', JStr (dText d))]) JNull t st])
                | BlockThinking \<Rightarrow>
                    if dThinking d = '''' then (st, [])
                    else (sent1 st, [chunk (JObj [(''reasoning_content'', JStr (dThinking d))]) JNull t st])
                | BlockToolUse \<Rightarrow>
                    if dToolInput d = '''' then (st, [])
                    else
                      (case map_of (owToolIndex st) (evIndex ev) of
                         Some idx \<Rightarrow> (sent1 st, [chunk (more_args idx (dToolInput d)) JNull t st])
                       | None \<Rightarrow>
                           let idx = int (length (owToolIndex st));
                               st1 = st\<lparr>owToolIndex := AList.update (evIndex ev) idx (owToolIndex st)\<rparr>
                           in (sent1 (sent1 st1),
                               [chunk (open_call idx d) JNull t st1, chunk (more_args idx (dToolInput d)) JNull t' st1]))
                | _ \<Rightarrow> (st, [])))
      | EventMessageDelta \<Rightarrow>
          (case evUsage ev of None \<Rightarrow> (st, []) | Some u \<Rightarrow> (sent1 st, [usage_chunk u t st]))
      | EventMessageStop \<Rightarrow> (sent1 st, [chunk (JObj []) (JStr (finishReason (evStopReason ev))) t st])
      | _ \<Rightarrow> (st, []))"

definition ow_error :: "go_error \<Rightarrow> wire" where
  "ow_error err = ('''', oa_error_body (case geIR err of Some e \<Rightarrow> e | None \<Rightarrow> mk_error ErrAPI (geText err)))"

text \<open>The sentinel, which is no JSON body.\<close>

definition send_done :: "CommitWriter \<Rightarrow> CommitWriter" where
  "send_done cw = (let e = write_err cw; cw1 = cw_Write cw SendDone in if e \<noteq> None then cw1 else cw_Flush cw1)"

text \<open>An error chunk is followed by the sentinel at once, unless its write failed.\<close>

definition ow_step :: "(json \<Rightarrow> string) \<Rightarrow> (nat \<Rightarrow> int) \<Rightarrow> ow_state \<Rightarrow> CommitWriter \<Rightarrow> StreamEvent + go_error
    \<Rightarrow> ow_state \<times> CommitWriter \<times> bool" where
  "ow_step marshal clock st cw x =
     (case x of
        Inl ev \<Rightarrow>
          (case ow_event clock ev st of (st1, out) \<Rightarrow>
             case send_all marshal out cw of (cw1, ok) \<Rightarrow> (st1\<lparr>owDone := \<not> ok\<rparr>, cw1, ok))
      | Inr err \<Rightarrow>
          (case send_all marshal [ow_error err] cw of (cw1, ok) \<Rightarrow>
             (st\<lparr>owDone := True\<rparr>, if ok then send_done cw1 else cw1, False)))"

definition oa_WriteStream :: "(json \<Rightarrow> string) \<Rightarrow> (nat \<Rightarrow> int) \<Rightarrow> ow_state dialect" where
  "oa_WriteStream marshal clock = \<lparr>dlInit = ow_init, dlStep = ow_step marshal clock,
     dlEnd = (\<lambda>st cw. if owDone st then cw else send_done cw)\<rparr>"

text \<open>The loop with no client behind it: the chunks it sends before the sentinel.\<close>

fun ow_run :: "(nat \<Rightarrow> int) \<Rightarrow> (StreamEvent + go_error) list \<Rightarrow> ow_state \<Rightarrow> wire list" where
  "ow_run clock [] st = []"
| "ow_run clock (Inr err # xs) st = [ow_error err]"
| "ow_run clock (Inl ev # xs) st = (case ow_event clock ev st of (st1, out) \<Rightarrow> out @ ow_run clock xs st1)"

section \<open>The writer meets the contract\<close>

lemma send_done_healthy: "healthy cw \<Longrightarrow> healthy (send_done cw) \<and> cwOut (send_done cw) = cwOut cw @ SendDone"
  using healthy_send[of cw SendDone] by (simp add: send_done_def Let_def)

lemma ow_event_done: "ow_event clock ev st = (st1, out) \<Longrightarrow> owDone st1 = owDone st"
  by (auto simp: ow_event_def Let_def split: EventType.splits option.splits BlockType.splits if_splits)

definition ow_sends :: "(json \<Rightarrow> string) \<Rightarrow> (nat \<Rightarrow> int) \<Rightarrow> StreamEvent \<Rightarrow> ow_state \<Rightarrow> ow_state \<times> string" where
  "ow_sends m clock ev st = (case ow_event clock ev st of (st1, out) \<Rightarrow> (st1, wire_text m out))"

interpretation openai: event_writer "oa_WriteStream m clock" "ow_sends m clock" "\<lambda>st. SendDone" "\<lambda>st. \<not> owDone st" for m clock
proof
  show "\<not> owDone (dlInit (oa_WriteStream m clock))" by (simp add: oa_WriteStream_def ow_init_def)
next
  fix cw ev d d1 b
  assume h: "healthy cw" "\<not> owDone d" "ow_sends m clock ev d = (d1, b)"
  obtain out where e: "ow_event clock ev d = (d1, out)" "b = wire_text m out"
    using h(3) by (auto simp: ow_sends_def split: prod.splits)
  obtain cw1 where "send_all m out cw = (cw1, True)" "healthy cw1" "cwOut cw1 = cwOut cw @ wire_text m out"
    using send_all_healthy[OF h(1)] by blast
  moreover have "d1\<lparr>owDone := False\<rparr> = d1" "\<not> owDone d1" using ow_event_done[OF e(1)] h(2) by simp_all
  ultimately show "\<not> owDone d1 \<and>
      (\<exists>cw1. dlStep (oa_WriteStream m clock) d cw (Inl ev) = (d1, cw1, True) \<and> healthy cw1 \<and> cwOut cw1 = cwOut cw @ b)"
    by (simp add: oa_WriteStream_def ow_step_def e)
next
  fix cw and d :: ow_state
  assume "healthy cw" "\<not> owDone d"
  then show "healthy (dlEnd (oa_WriteStream m clock) d cw) \<and>
      cwOut (dlEnd (oa_WriteStream m clock) d cw) = cwOut cw @ SendDone"
    by (simp add: oa_WriteStream_def send_done_healthy)
qed

lemma ow_text:
  "text_run (ow_sends m clock) (\<lambda>st. SendDone) evs st = wire_text m (ow_run clock (map Inl evs) st) @ SendDone"
  by (induction evs arbitrary: st) (auto simp: ow_sends_def wire_text_append wire_text_def frames_def split: prod.splits)

section \<open>What a client makes of the chunks\<close>

text \<open>What an SDK accumulates, and what the canonical events carry: text, reasoning, and one entry per tool call with the
  name, the id and the argument text collected under its index.\<close>

record assembled =
  asText :: string
  asThinking :: string
  asCalls :: "(int \<times> string \<times> string \<times> string) list"

definition nothing_yet :: assembled where
  "nothing_yet = \<lparr>asText = '''', asThinking = '''', asCalls = []\<rparr>"

fun add_call :: "int \<Rightarrow> string \<Rightarrow> string \<Rightarrow> string \<Rightarrow> (int \<times> string \<times> string \<times> string) list
    \<Rightarrow> (int \<times> string \<times> string \<times> string) list" where
  "add_call i ident name args [] = [(i, ident, name, args)]"
| "add_call i ident name args ((j, ident', name', args') # cs) =
     (if i = j then (j, ident', name', args' @ args) # cs else (j, ident', name', args') # add_call i ident name args cs)"

definition str_of :: "json option \<Rightarrow> string" where
  "str_of x = (case x of Some (JStr s) \<Rightarrow> s | _ \<Rightarrow> '''')"

definition call_of :: "json \<Rightarrow> assembled \<Rightarrow> assembled" where
  "call_of tc a =
     (case member ''index'' tc of
        Some (JInt i) \<Rightarrow>
          let f = (case member ''function'' tc of Some f \<Rightarrow> f | None \<Rightarrow> JNull)
          in a\<lparr>asCalls := add_call i (str_of (member ''id'' tc)) (str_of (member ''name'' f)) (str_of (member ''arguments'' f)) (asCalls a)\<rparr>
      | _ \<Rightarrow> a)"

definition client_chunk :: "wire \<Rightarrow> assembled \<Rightarrow> assembled" where
  "client_chunk w a =
     (case member ''choices'' (snd w) of
        Some (JArr (c # _)) \<Rightarrow>
          (case member ''delta'' c of
             Some d \<Rightarrow>
               let a1 = a\<lparr>asText := asText a @ str_of (member ''content'' d),
                          asThinking := asThinking a @ str_of (member ''reasoning_content'' d)\<rparr>
               in (case member ''tool_calls'' d of Some (JArr tcs) \<Rightarrow> fold call_of tcs a1 | _ \<Rightarrow> a1)
           | None \<Rightarrow> a)
      | _ \<Rightarrow> a)"

definition ir_take :: "StreamEvent \<Rightarrow> assembled \<Rightarrow> assembled" where
  "ir_take ev a =
     (case evDelta ev of
        None \<Rightarrow> a
      | Some d \<Rightarrow>
          if evType ev = EventBlockStart \<and> dType d = BlockToolUse
          then a\<lparr>asCalls := add_call (evIndex ev) (dToolID d) (dToolName d) '''' (asCalls a)\<rparr>
          else if evType ev = EventContentDelta \<and> dType d = BlockText then a\<lparr>asText := asText a @ dText d\<rparr>
          else if evType ev = EventContentDelta \<and> dType d = BlockThinking then a\<lparr>asThinking := asThinking a @ dThinking d\<rparr>
          else if evType ev = EventContentDelta \<and> dType d = BlockToolUse \<and> dToolInput d \<noteq> ''''
          then a\<lparr>asCalls := add_call (evIndex ev) (dToolID d) (dToolName d) (dToolInput d) (asCalls a)\<rparr>
          else a)"

text \<open>No tool block is started on an index a tool block already has.\<close>

fun tools_open_once :: "StreamEvent list \<Rightarrow> assembled \<Rightarrow> bool" where
  "tools_open_once [] a = True"
| "tools_open_once (ev # evs) a =
     ((case evDelta ev of
         Some d \<Rightarrow> evType ev = EventBlockStart \<and> dType d = BlockToolUse \<longrightarrow> evIndex ev \<notin> fst ` set (asCalls a)
       | None \<Rightarrow> True) \<and> tools_open_once evs (ir_take ev a))"

text \<open>The calls under the numbers OpenAI gives them: densely from zero in the order they open.\<close>

definition number :: "(int \<times> 'r) list \<Rightarrow> (int \<times> 'r) list" where
  "number cs = map2 (\<lambda>n (i, r). (int n, r)) [0..<length cs] cs"

lemma number_snoc: "number (cs @ [(i, r)]) = number cs @ [(int (length cs), r)]"
  by (simp add: number_def)

lemma length_number [simp]: "length (number cs) = length cs"
  by (simp add: number_def)

lemma nth_number: "k < length cs \<Longrightarrow> number cs ! k = (int k, snd (cs ! k))"
  by (simp add: number_def split: prod.split)

lemma number_update: "k < length cs \<Longrightarrow> number (cs[k := (i, r)]) = (number cs)[k := (int k, r)]"
  by (intro nth_equalityI) (auto simp: nth_number nth_list_update)

lemma distinct_number: "distinct (map fst (number cs))"
  by (simp add: distinct_conv_nth nth_number)

lemma add_call_new: "i \<notin> fst ` set cs \<Longrightarrow> add_call i x y z cs = cs @ [(i, x, y, z)]"
  by (induction cs) auto

lemma add_call_nth:
  "distinct (map fst cs) \<Longrightarrow> k < length cs \<Longrightarrow> cs ! k = (i, r) \<Longrightarrow>
   add_call i x y z cs = cs[k := (i, fst r, fst (snd r), snd (snd r) @ z)]"
proof (induction cs arbitrary: k)
  case (Cons c cs)
  show ?case
  proof (cases k)
    case (Suc k')
    then have "cs ! k' = (i, r)" "k' < length cs" using Cons.prems(2,3) by auto
    moreover from this have "i \<in> fst ` set cs" by (metis fst_conv imageI nth_mem)
    ultimately show ?thesis using Cons.IH[of k'] Cons.prems(1) Suc by (cases c) auto
  qed (use Cons.prems in \<open>cases c, auto\<close>)
qed simp

lemma add_call_dom: "fst ` set (add_call i x y z cs) = insert i (fst ` set cs)"
proof (induction cs)
  case (Cons c cs)
  then show ?case by (cases c) (simp add: insert_commute)
qed simp

lemma add_call_distinct: "distinct (map fst cs) \<Longrightarrow> distinct (map fst (add_call i x y z cs))"
proof (induction cs)
  case (Cons c cs)
  then show ?case using add_call_dom[of i x y z cs] by (cases c) auto
qed simp

lemma number_add_call:
  assumes "distinct (map fst cs)" "k < length cs" "cs ! k = (i, r)"
  shows "number (add_call i x y z cs) = add_call (int k) x' y' z (number cs)"
  using add_call_nth[OF assms, of x y z] add_call_nth[OF distinct_number, of k cs "int k" r x' y' z] assms(2,3)
  by (simp add: nth_number number_update)
definition slots :: "(int \<times> 'r) list \<Rightarrow> (int, int) gomap" where
  "slots cs = map2 (\<lambda>n (i, r). (i, int n)) [0..<length cs] cs"

definition numbered :: "assembled \<Rightarrow> assembled" where
  "numbered a = a\<lparr>asCalls := number (asCalls a)\<rparr>"

lemma length_slots [simp]: "length (slots cs) = length cs"
  by (simp add: slots_def)

lemma nth_slots: "k < length cs \<Longrightarrow> slots cs ! k = (fst (cs ! k), int k)"
  by (simp add: slots_def split: prod.split)

lemma slots_keys: "map fst (slots cs) = map fst cs"
  by (intro nth_equalityI) (simp_all add: nth_slots)

lemma slots_cong: "map fst cs = map fst cs' \<Longrightarrow> slots cs = slots cs'"
  by (intro nth_equalityI) (simp_all add: nth_slots map_equality_iff)

lemma slots_lookup:
  assumes "map_of (slots cs) i = Some n"
  obtains k r where "n = int k" "k < length cs" "cs ! k = (i, r)"
proof -
  obtain k where k: "k < length cs" "slots cs ! k = (i, n)"
    using map_of_SomeD[OF assms] by (auto simp: in_set_conv_nth)
  then have "cs ! k = (i, snd (cs ! k))" "n = int k" by (simp_all add: nth_slots prod_eq_iff)
  with k(1) that show thesis by blast
qed

lemma slots_new: "map_of (slots cs) i = None \<longleftrightarrow> i \<notin> fst ` set cs"
  using slots_keys[of cs] by (metis image_set map_of_eq_None_iff)

lemma slots_snoc:
  assumes "i \<notin> fst ` set cs"
  shows "AList.update i (int (length cs)) (slots cs) = slots (cs @ [(i, r)])"
proof -
  have "map_of (slots cs) i = None" using assms by (simp add: slots_new)
  then show ?thesis by (simp add: update_fresh slots_def)
qed

lemma add_call_keys:
  assumes "i \<in> fst ` set cs"
  shows "map fst (add_call i x y z cs) = map fst cs"
  using assms
proof (induction cs)
  case (Cons c cs)
  then show ?case by (cases c) (auto simp del: set_map)
qed simp

lemma add_call_twice: "add_call i x' y' z' (add_call i x y z cs) = add_call i x y (z @ z') cs"
proof (induction cs)
  case (Cons c cs)
  then show ?case by (cases c) simp
qed simp

text \<open>The chunks, read back.\<close>

lemma client_chunk_text:
  "client_chunk (chunk (JObj [(''content'', JStr s)]) f t st) a = a\<lparr>asText := asText a @ s\<rparr>"
  "client_chunk (chunk (JObj [(''reasoning_content'', JStr s)]) f t st) a = a\<lparr>asThinking := asThinking a @ s\<rparr>"
  by (simp_all add: client_chunk_def chunk_def chunk_with_def member_def str_of_def Let_def)

lemma client_chunk_call:
  "client_chunk (chunk (open_call i d) f t st) a = a\<lparr>asCalls := add_call i (dToolID d) (dToolName d) '''' (asCalls a)\<rparr>"
  "client_chunk (chunk (more_args i s) f t st) a = a\<lparr>asCalls := add_call i '''' '''' s (asCalls a)\<rparr>"
  by (simp_all add: client_chunk_def chunk_def chunk_with_def member_def str_of_def Let_def open_call_def more_args_def call_of_def)

lemma client_chunk_other:
  "client_chunk (chunk (JObj [(''role'', r)]) f t st) a = a"
  "client_chunk (chunk (JObj []) f t st) a = a"
  "client_chunk (usage_chunk u t st) a = a"
  by (simp_all add: client_chunk_def chunk_def usage_chunk_def chunk_with_def member_def str_of_def Let_def)

lemmas client_chunk_simps = client_chunk_text client_chunk_call client_chunk_other

text \<open>One event: the numbers given out stay those of the calls in order, and the client follows.\<close>

lemma open_follows:
  assumes "i \<notin> fst ` set (asCalls a)"
  shows "number (add_call i x y z (asCalls a)) = add_call (int (length (asCalls a))) x y z (number (asCalls a))"
proof -
  have "fst (number (asCalls a) ! k) \<noteq> int (length (asCalls a))" if "k < length (asCalls a)" for k
    using that by (simp add: nth_number)
  then have "int (length (asCalls a)) \<notin> fst ` set (number (asCalls a))"
    by (force simp: in_set_conv_nth)
  then show ?thesis by (simp add: add_call_new number_snoc assms)
qed

lemma ow_event_follows:
  assumes "ow_event clock ev st = (st1, out)" "owToolIndex st = slots (asCalls a)" "distinct (map fst (asCalls a))"
    and "tools_open_once (ev # evs) a"
  shows "owToolIndex st1 = slots (asCalls (ir_take ev a)) \<and> distinct (map fst (asCalls (ir_take ev a))) \<and>
    fold client_chunk out (numbered a) = numbered (ir_take ev a)"
proof (cases "evDelta ev")
  case None
  then show ?thesis using assms(1-3)
    by (auto simp: ow_event_def ir_take_def Let_def client_chunk_simps split: EventType.splits option.splits)
next
  case (Some d)
  have new: "i \<notin> fst ` set (asCalls a) \<Longrightarrow>
      slots (add_call i x y z (asCalls a)) = AList.update i (int (length (asCalls a))) (slots (asCalls a))" for i x y z
    using slots_snoc[of i "asCalls a" "(x, y, z)"] by (simp add: add_call_new)
  show ?thesis
  proof (cases "evType ev = EventBlockStart \<and> dType d = BlockToolUse")
    case True
    then have "evIndex ev \<notin> fst ` set (asCalls a)" using assms(4) Some by simp
    with True assms(1-3) show ?thesis
      by (auto simp: ow_event_def Some ir_take_def Let_def client_chunk_simps new open_follows add_call_distinct numbered_def)
  next
    case False
    show ?thesis
    proof (cases "evType ev = EventContentDelta \<and> dType d = BlockToolUse \<and> dToolInput d \<noteq> ''''")
      case delta: True
      show ?thesis
      proof (cases "map_of (slots (asCalls a)) (evIndex ev)")
        case None
        then have "evIndex ev \<notin> fst ` set (asCalls a)" by (simp add: slots_new)
        with None delta Some assms(1-3) show ?thesis
          by (auto simp: ow_event_def ir_take_def Let_def client_chunk_simps new add_call_twice open_follows add_call_distinct numbered_def)
      next
        case at: (Some n)
        then obtain k r where k: "n = int k" "k < length (asCalls a)" "asCalls a ! k = (evIndex ev, r)"
          by (rule slots_lookup)
        have "evIndex ev \<in> fst ` set (asCalls a)" using at slots_new[of "asCalls a"] by (metis option.distinct(1))
        then have "slots (add_call (evIndex ev) x y z (asCalls a)) = slots (asCalls a)" for x y z
          by (intro slots_cong add_call_keys)
        with at delta Some assms(1-3) number_add_call[OF assms(3) k(2,3), of _ _ _ "''''" "''''"] show ?thesis
          by (auto simp: ow_event_def ir_take_def Let_def client_chunk_simps add_call_distinct k(1) numbered_def)
      qed
    next
      case nodelta: False
      with False assms(1-3) Some show ?thesis
        by (auto simp: ow_event_def ir_take_def Let_def client_chunk_simps numbered_def
            split: EventType.splits option.splits BlockType.splits if_splits)
    qed
  qed
qed
lemma ow_run_follows:
  assumes "owToolIndex st = slots (asCalls a)" "distinct (map fst (asCalls a))" "tools_open_once evs a"
  shows "fold client_chunk (ow_run clock (map Inl evs) st) (numbered a) = numbered (fold ir_take evs a)"
  using assms
proof (induction evs arbitrary: st a)
  case (Cons ev evs)
  obtain st1 out where e: "ow_event clock ev st = (st1, out)" by fastforce
  from ow_event_follows[OF e Cons.prems] Cons.IH[of st1 "ir_take ev a"] Cons.prems(3) show ?case
    by (simp add: e)
qed simp

text \<open>C28. What the client of an OpenAI route receives from a translated stream. When the upstream's events are read
  without error, fit the cap before their first content, start no tool block twice and the client takes every write,
  the attempt succeeds, and the bytes the client has received since are the frames of chunks and the DONE sentinel;
  a client that accumulates those chunks by the protocol has the text, the reasoning and every tool call of the
  canonical events, each call with its own id, name and arguments, numbered densely from zero in the order they open.\<close>

theorem openai_client_stream:
  assumes "map fst pulls = map Inl evs" "exMaxPrecommit env \<le> 0 \<or> held_bytes evs \<le> exMaxPrecommit env"
    and "healthy (xCW xs)" "tools_open_once evs nothing_yet"
  shows "\<exists>xs' ws. attemptStream env ck (oa_WriteStream marshal clock) pulls cx xs = (xs', OutcomeSuccess, None) \<and>
    cwOut (xCW xs') = cwOut (xCW xs) @ wire_text marshal ws @ SendDone \<and>
    fold client_chunk ws nothing_yet = numbered (fold ir_take evs nothing_yet)"
proof -
  have "fold client_chunk (ow_run clock (map Inl evs) ow_init) (numbered nothing_yet) = numbered (fold ir_take evs nothing_yet)"
    by (rule ow_run_follows) (simp_all add: ow_init_def slots_def nothing_yet_def assms(4)[unfolded nothing_yet_def])
  moreover have "numbered nothing_yet = nothing_yet" by (simp add: numbered_def nothing_yet_def number_def)
  moreover have "dlInit (oa_WriteStream marshal clock) = ow_init" by (simp add: oa_WriteStream_def)
  ultimately show ?thesis using openai.client_receives[OF assms(1-3), of ck marshal clock cx] unfolding ow_text by metis
qed

definition demo_tool_event :: "EventType \<Rightarrow> int \<Rightarrow> string \<Rightarrow> string \<Rightarrow> StreamEvent" where
  "demo_tool_event t i ident args =
     zero_event\<lparr>evType := t, evIndex := i, evDelta := Some (zero_delta\<lparr>dType := BlockToolUse, dToolID := ident, dToolInput := args\<rparr>)\<rparr>"

definition demo_tool_events :: "StreamEvent list" where
  "demo_tool_events = [demo_event ''a'', demo_tool_event EventBlockStart 1000 ''x'' '''', demo_tool_event EventBlockStart 1001 ''y'' '''',
     demo_tool_event EventContentDelta 1001 '''' ''{}'', demo_tool_event EventContentDelta 1000 '''' ''{'',
     demo_tool_event EventContentDelta 1000 '''' ''}'']"

lemmas demo_events_defs = demo_tool_events_def demo_tool_event_def demo_event_def zero_event_def zero_delta_def

theorem openai_client_stream_witness:
  "\<exists>xs' ws. attemptStream demo_stream_env demo_stream_clock (oa_WriteStream (\<lambda>_. ''{}'') int)
      (map (\<lambda>e. (Inl e, demo_stream_ctx)) demo_tool_events) demo_stream_ctx demo_stream_state = (xs', OutcomeSuccess, None) \<and>
     cwOut (xCW xs') = wire_text (\<lambda>_. ''{}'') ws @ SendDone \<and>
     fold client_chunk ws nothing_yet =
       \<lparr>asText = ''a'', asThinking = '''', asCalls = [(0, ''x'', '''', ''{}''), (1, ''y'', '''', ''{}'')]\<rparr>"
proof -
  have "exMaxPrecommit demo_stream_env \<le> 0 \<or> held_bytes demo_tool_events \<le> exMaxPrecommit demo_stream_env"
    by (simp add: demo_stream_env_def demo_events_defs eventBytes_def)
  moreover have "healthy (xCW demo_stream_state)" "cwOut (xCW demo_stream_state) = []"
    by (simp_all add: healthy_def demo_stream_state_def NewCommitWriter_def)
  moreover have "tools_open_once demo_tool_events nothing_yet"
    "numbered (fold ir_take demo_tool_events nothing_yet) =
       \<lparr>asText = ''a'', asThinking = '''', asCalls = [(0, ''x'', '''', ''{}''), (1, ''y'', '''', ''{}'')]\<rparr>"
    by (simp_all add: demo_events_defs ir_take_def nothing_yet_def numbered_def number_def)
  ultimately show ?thesis
    using openai_client_stream[of "map (\<lambda>e. (Inl e, demo_stream_ctx)) demo_tool_events" demo_tool_events demo_stream_env demo_stream_state
        demo_stream_clock "\<lambda>_. ''{}''" int demo_stream_ctx] by (simp add: comp_def)
qed

text \<open>Without that hypothesis the numbering is not dense: a tool block started again on an index that already has one takes
  a new number but adds no entry to the map its length is read from, so the next call to open gets that number too.\<close>

lemma reopened_tool_collides:
  "fold client_chunk (ow_run int (map Inl [demo_tool_event EventBlockStart 1000 ''x'' '''', demo_tool_event EventBlockStart 1000 ''y'' '''',
       demo_tool_event EventBlockStart 1001 ''z'' '''', demo_tool_event EventContentDelta 1001 '''' ''{}'']) ow_init) nothing_yet =
     \<lparr>asText = '''', asThinking = '''', asCalls = [(0, ''x'', '''', ''''), (1, ''y'', '''', ''{}'')]\<rparr>"
  by (simp add: demo_events_defs ow_event_def ow_init_def Let_def client_chunk_simps nothing_yet_def)
end
