(* ===== verification/Codec.thy ===== *)
theory Codec
  imports Dialect
begin

text \<open>
  What the two directions of a wire format share: the canonical events in the form the parsers build them, an SSE stream as
  the reader's events, and the law a JSON printer and reader have to meet on the bodies of a stream. The printer and
  the reader are arguments of everything here; a table of the bodies themselves is an instance, used by the examples.
\<close>

section \<open>Canonical events\<close>

definition text_d :: "string \<Rightarrow> Delta" where
  "text_d s = zero_delta\<lparr>dType := BlockText, dText := s\<rparr>"

definition thinking_d :: "string \<Rightarrow> Delta" where
  "thinking_d s = zero_delta\<lparr>dType := BlockThinking, dThinking := s\<rparr>"

definition signature_d :: "string \<Rightarrow> Delta" where
  "signature_d s = zero_delta\<lparr>dType := BlockThinking, dSignature := s\<rparr>"

definition input_d :: "string \<Rightarrow> Delta" where
  "input_d s = zero_delta\<lparr>dType := BlockToolUse, dToolInput := s\<rparr>"

definition tool_d :: "string \<Rightarrow> string \<Rightarrow> Delta" where
  "tool_d i name = zero_delta\<lparr>dType := BlockToolUse, dToolID := i, dToolName := name\<rparr>"

definition start_ev :: "int \<Rightarrow> Delta \<Rightarrow> StreamEvent" where
  "start_ev i d = zero_event\<lparr>evType := EventBlockStart, evIndex := i, evDelta := Some d\<rparr>"

definition delta_ev :: "int \<Rightarrow> Delta \<Rightarrow> StreamEvent" where
  "delta_ev i d = zero_event\<lparr>evType := EventContentDelta, evIndex := i, evDelta := Some d\<rparr>"

definition usage_event :: "Usage \<Rightarrow> Warning list \<Rightarrow> StreamEvent" where
  "usage_event u warns = zero_event\<lparr>evType := EventMessageDelta, evUsage := Some u, evWarnings := warns\<rparr>"

section \<open>Numbers and member names\<close>

named_theorems json_keys \<open>folded member names\<close>

definition int64 :: "int \<Rightarrow> bool" where
  "int64 n = (0 \<le> n \<and> n \<le> int64_max)"

lemma dec_int_int64: "int64 n \<Longrightarrow> dec_int (JInt n) m = Some n"
  by (simp add: int64_def)

section \<open>Codecs\<close>

text \<open>A codec that prints and reads back the bodies of a wire stream.\<close>

definition codec_ok :: "(json \<Rightarrow> string) \<Rightarrow> (string \<Rightarrow> json option) \<Rightarrow> wire list \<Rightarrow> bool" where
  "codec_ok marshal unmarshal ws =
     list_all (\<lambda>w. unmarshal (marshal (snd w)) = Some (snd w) \<and> marshal (snd w) \<noteq> '''') ws"

definition sse_of :: "(json \<Rightarrow> string) \<Rightarrow> wire list \<Rightarrow> Event list" where
  "sse_of marshal ws = map (\<lambda>(name, body). \<lparr>seType = name, seData = marshal body, seID = '''', seRetry = ''''\<rparr>) ws"

lemma codec_ok_append [simp]: "codec_ok m un (xs @ ys) \<longleftrightarrow> codec_ok m un xs \<and> codec_ok m un ys"
  by (simp add: codec_ok_def)

lemma sse_of_append [simp]: "sse_of m (xs @ ys) = sse_of m xs @ sse_of m ys"
  by (simp add: sse_of_def)

definition lines_fit :: "(json \<Rightarrow> string) \<Rightarrow> nat \<Rightarrow> wire list \<Rightarrow> bool" where
  "lines_fit marshal mx ws = list_all (\<lambda>w. frame_ok (fst w, marshal (snd w)) \<and> length (fst w) + 8 \<le> mx \<and>
     length (marshal (snd w)) + 7 \<le> mx) ws"

lemma read_wire_text:
  assumes "lines_fit m mx ws"
  shows "read_all mx (scan_lines (wire_text m ws)) = (sse_of m ws, EOF)"
proof -
  have "\<forall>f \<in> set (map (\<lambda>(name, body). (name, m body)) ws). frame_ok f \<and> length (fst f) + 8 \<le> mx \<and> length (snd f) + 7 \<le> mx"
    using assms by (auto simp: lines_fit_def list_all_iff split: prod.splits)
  from read_frames[OF this] show ?thesis by (simp add: wire_text_def sse_of_def case_prod_unfold comp_def)
qed

text \<open>A codec for a given list of bodies: the place of a body in the list, in unary.\<close>

fun table_marshal :: "json list \<Rightarrow> json \<Rightarrow> string" where
  "table_marshal [] j = []"
| "table_marshal (b # bs) j = CHR ''x'' # (if b = j then [] else table_marshal bs j)"

definition table_unmarshal :: "json list \<Rightarrow> string \<Rightarrow> json option" where
  "table_unmarshal bs s =
     (if s \<noteq> [] \<and> list_all (\<lambda>c. c = CHR ''x'') s \<and> length s \<le> length bs then Some (bs ! (length s - 1)) else None)"

lemma table_marshal_short: "length (table_marshal bs j) \<le> length bs \<and> set (table_marshal bs j) \<subseteq> {CHR ''x''}"
  by (induction bs) auto

lemma table_codec: "j \<in> set bs \<Longrightarrow> table_unmarshal bs (table_marshal bs j) = Some j \<and> table_marshal bs j \<noteq> []"
proof (induction bs)
  case (Cons b bs)
  then show ?case by (cases "b = j") (auto simp: table_unmarshal_def nth_Cons' split: if_splits)
qed simp

end
