(* ===== verification/OpenAI_Parser.thy ===== *)
theory OpenAI_Parser
  imports OpenAI_Writer Codec Health
begin

text \<open>
  The OpenAI-compatible adapter's response side, \<^verbatim>\<open>internal/adapter/openaicompat/parse.go\<close>: the wire structs and their
  decoding, the unary completion, and the state machine that turns flat chunks into canonical blocks. The properties:
  whatever the upstream sends, the events are well nested; a stream the OpenAI writer wrote is read back as it was; a
  unary completion likewise; a completion replayed as a stream carries what the completion carried.

  \<open>unmarshal\<close>, the reading of a text as a JSON value, and \<open>raw_text\<close>, the bytes of a \<^verbatim>\<open>json.RawMessage\<close>, are arguments, as is
  \<open>raw_of\<close>, the message made of a text the upstream sent inside a JSON string: that text is never checked, so it may be
  no JSON at all. What a stream yields is a list: a consumer that stops early has read a prefix of it.
\<close>

section \<open>Wire structs\<close>

record oc_wireUsage =
  ocPrompt :: int
  ocCompletion :: int
  ocCached :: int
  ocReasoning :: int

definition oc_zero_usage :: oc_wireUsage where
  "oc_zero_usage = \<lparr>ocPrompt = 0, ocCompletion = 0, ocCached = 0, ocReasoning = 0\<rparr>"

definition oc_dec_usage :: "json \<Rightarrow> oc_wireUsage \<Rightarrow> oc_wireUsage option" where
  "oc_dec_usage = dec_struct (\<lambda>k v s.
     if k = ''prompt_tokens'' then set_field (\<lambda>x s. s\<lparr>ocPrompt := x\<rparr>) (dec_int v (ocPrompt s)) s
     else if k = ''completion_tokens'' then set_field (\<lambda>x s. s\<lparr>ocCompletion := x\<rparr>) (dec_int v (ocCompletion s)) s
     else if k = ''prompt_tokens_details'' then
       dec_struct (\<lambda>k v s. if k = ''cached_tokens'' then set_field (\<lambda>x s. s\<lparr>ocCached := x\<rparr>) (dec_int v (ocCached s)) s else Some s) v s
     else if k = ''completion_tokens_details'' then
       dec_struct (\<lambda>k v s. if k = ''reasoning_tokens'' then set_field (\<lambda>x s. s\<lparr>ocReasoning := x\<rparr>) (dec_int v (ocReasoning s)) s else Some s) v s
     else Some s)"

definition oc_toIR :: "oc_wireUsage \<Rightarrow> Usage" where
  "oc_toIR u =
     (let inp = wrap64 (ocPrompt u - ocCached u); inp1 = (if inp < 0 then 0 else inp)
      in zero_usage\<lparr>InputTokens := inp1, OutputTokens := ocCompletion u, CacheReadTokens := ocCached u, ReasoningTokens := ocReasoning u\<rparr>)"

definition oc_stopReason :: "string \<Rightarrow> StopReason" where
  "oc_stopReason s =
     (if s = ''length'' then StopMaxTokens
      else if s = ''tool_calls'' \<or> s = ''function_call'' then StopToolUse
      else if s = ''content_filter'' then StopContentFilter
      else StopEndTurn)"

record oc_wireError =
  oeMessage :: string
  oeType :: string
  oeCode :: "json option"

definition oc_zero_error :: oc_wireError where
  "oc_zero_error = \<lparr>oeMessage = '''', oeType = '''', oeCode = None\<rparr>"

definition oc_dec_error :: "json \<Rightarrow> oc_wireError \<Rightarrow> oc_wireError option" where
  "oc_dec_error = dec_struct (\<lambda>k v s.
     if k = ''message'' then set_field (\<lambda>x s. s\<lparr>oeMessage := x\<rparr>) (dec_string v (oeMessage s)) s
     else if k = ''type'' then set_field (\<lambda>x s. s\<lparr>oeType := x\<rparr>) (dec_string v (oeType s)) s
     else if k = ''code'' then Some (s\<lparr>oeCode := Some v\<rparr>)
     else Some s)"

section \<open>Errors\<close>

definition classify_word :: "string \<Rightarrow> ErrorType option" where
  "classify_word v =
     (if v = '''' then None
      else if v = ''429'' \<or> Contains v ''rate_limit'' \<or> Contains v ''insufficient_quota'' \<or> Contains v ''quota'' then Some ErrRateLimit
      else if v = ''503'' \<or> v = ''529'' \<or> Contains v ''overloaded'' \<or> Contains v ''server_error'' \<or> Contains v ''unavailable'' then Some ErrOverloaded
      else if v = ''401'' \<or> Contains v ''authentication'' \<or> Contains v ''invalid_api_key'' then Some ErrAuthentication
      else if v = ''403'' \<or> Contains v ''permission'' then Some ErrPermission
      else if v = ''404'' \<or> Contains v ''not_found'' then Some ErrNotFound
      else if Contains v ''content_filter'' \<or> Contains v ''content_policy'' then Some ErrContentFilter
      else if v = ''400'' \<or> Contains v ''invalid_request'' \<or> Contains v ''invalid_argument'' then Some ErrInvalidRequest
      else None)"

definition classifyError :: "string \<Rightarrow> string \<Rightarrow> ErrorType" where
  "classifyError typ code =
     (case classify_word (ToLower code) of
        Some t \<Rightarrow> t
      | None \<Rightarrow> (case classify_word (ToLower typ) of Some t \<Rightarrow> t | None \<Rightarrow> ErrAPI))"

definition trim_quotes :: "string \<Rightarrow> string" where
  "trim_quotes s = (let q = (\<lambda>c. c = CHR 0x22) in rev (dropWhile q (rev (dropWhile q s))))"

definition oc_error_toIR :: "(json \<Rightarrow> string) \<Rightarrow> oc_wireError \<Rightarrow> Error" where
  "oc_error_toIR raw_text e =
     (let code0 = trim_quotes (case oeCode e of None \<Rightarrow> '''' | Some j \<Rightarrow> raw_text j);
          code = (if code0 = ''null'' then '''' else code0)
      in \<lparr>errType = classifyError (oeType e) code, errMessage = oeMessage e, errCode = code\<rparr>)"

section \<open>The unary completion\<close>

record oc_part =
  opType :: string
  opPartText :: string

definition oc_dec_part :: "json \<Rightarrow> oc_part \<Rightarrow> oc_part option" where
  "oc_dec_part = dec_struct (\<lambda>k v s.
     if k = ''type'' then set_field (\<lambda>x s. s\<lparr>opType := x\<rparr>) (dec_string v (opType s)) s
     else if k = ''text'' then set_field (\<lambda>x s. s\<lparr>opPartText := x\<rparr>) (dec_string v (opPartText s)) s
     else Some s)"

definition contentText :: "json option \<Rightarrow> string" where
  "contentText raw =
     (case raw of
        None \<Rightarrow> ''''
      | Some j \<Rightarrow>
          if j = JNull then ''''
          else
            (case dec_string j '''' of
               Some s \<Rightarrow> s
             | None \<Rightarrow>
                 (case dec_slice \<lparr>opType = '''', opPartText = ''''\<rparr> oc_dec_part j [] of
                    None \<Rightarrow> ''''
                  | Some parts \<Rightarrow> concat (map opPartText (filter (\<lambda>p. opType p = '''' \<or> opType p = ''text'') parts)))))"

definition toolArguments :: "(string \<Rightarrow> json) \<Rightarrow> json option \<Rightarrow> json" where
  "toolArguments raw_of raw =
     (case raw of
        None \<Rightarrow> JObj []
      | Some j \<Rightarrow>
          (case dec_string j '''' of
             Some s \<Rightarrow> if TrimSpace s = '''' then JObj [] else raw_of s
           | None \<Rightarrow> j))"

record oc_toolCall =
  ouID :: string
  ouName :: string
  ouArguments :: "json option"

definition oc_zero_toolCall :: oc_toolCall where
  "oc_zero_toolCall = \<lparr>ouID = '''', ouName = '''', ouArguments = None\<rparr>"

definition oc_dec_toolCall :: "json \<Rightarrow> oc_toolCall \<Rightarrow> oc_toolCall option" where
  "oc_dec_toolCall = dec_struct (\<lambda>k v s.
     if k = ''id'' then set_field (\<lambda>x s. s\<lparr>ouID := x\<rparr>) (dec_string v (ouID s)) s
     else if k = ''function'' then
       dec_struct (\<lambda>k v s.
         if k = ''name'' then set_field (\<lambda>x s. s\<lparr>ouName := x\<rparr>) (dec_string v (ouName s)) s
         else if k = ''arguments'' then Some (s\<lparr>ouArguments := Some v\<rparr>)
         else Some s) v s
     else Some s)"

record oc_message =
  omContent :: "json option"
  omReasoningContent :: string
  omReasoning :: string
  omToolCalls :: "oc_toolCall list"
  omFinish :: string

definition oc_zero_message :: oc_message where
  "oc_zero_message = \<lparr>omContent = None, omReasoningContent = '''', omReasoning = '''', omToolCalls = [], omFinish = ''''\<rparr>"

definition oc_dec_message :: "json \<Rightarrow> oc_message \<Rightarrow> oc_message option" where
  "oc_dec_message = dec_struct (\<lambda>k v s.
     if k = ''content'' then Some (s\<lparr>omContent := Some v\<rparr>)
     else if k = ''reasoning_content'' then set_field (\<lambda>x s. s\<lparr>omReasoningContent := x\<rparr>) (dec_string v (omReasoningContent s)) s
     else if k = ''reasoning'' then set_field (\<lambda>x s. s\<lparr>omReasoning := x\<rparr>) (dec_string v (omReasoning s)) s
     else if k = ''tool_calls'' then set_field (\<lambda>x s. s\<lparr>omToolCalls := x\<rparr>) (dec_slice oc_zero_toolCall oc_dec_toolCall v (omToolCalls s)) s
     else Some s)"

definition oc_dec_unary_choice :: "json \<Rightarrow> oc_message \<Rightarrow> oc_message option" where
  "oc_dec_unary_choice = dec_struct (\<lambda>k v s.
     if k = ''message'' then oc_dec_message v s
     else if k = ''finish_reason'' then set_field (\<lambda>x s. s\<lparr>omFinish := x\<rparr>) (dec_string v (omFinish s)) s
     else Some s)"

record oc_completion =
  orID :: string
  orModel :: string
  orChoices :: "oc_message list"
  orUsage :: oc_wireUsage
  orError :: "oc_wireError option"

definition oc_zero_completion :: oc_completion where
  "oc_zero_completion = \<lparr>orID = '''', orModel = '''', orChoices = [], orUsage = oc_zero_usage, orError = None\<rparr>"

definition oc_dec_completion :: "json \<Rightarrow> oc_completion \<Rightarrow> oc_completion option" where
  "oc_dec_completion = dec_struct (\<lambda>k v s.
     if k = ''id'' then set_field (\<lambda>x s. s\<lparr>orID := x\<rparr>) (dec_string v (orID s)) s
     else if k = ''model'' then set_field (\<lambda>x s. s\<lparr>orModel := x\<rparr>) (dec_string v (orModel s)) s
     else if k = ''choices'' then set_field (\<lambda>x s. s\<lparr>orChoices := x\<rparr>) (dec_slice oc_zero_message oc_dec_unary_choice v (orChoices s)) s
     else if k = ''usage'' then set_field (\<lambda>x s. s\<lparr>orUsage := x\<rparr>) (oc_dec_usage v (orUsage s)) s
     else if k = ''error'' then set_field (\<lambda>x s. s\<lparr>orError := x\<rparr>) (dec_ptr oc_zero_error oc_dec_error v (orError s)) s
     else Some s)"

definition thought_block :: "string \<Rightarrow> ContentBlock" where
  "thought_block t = ContentBlock BlockThinking '''' None (Some \<lparr>thText = t, thSignature = '''', thData = ''''\<rparr>) None None None []"

definition call_block :: "(string \<Rightarrow> json) \<Rightarrow> oc_toolCall \<Rightarrow> ContentBlock" where
  "call_block raw_of tc = ContentBlock BlockToolUse '''' None None
     (Some \<lparr>tuID = ouID tc, tuName = ouName tc, tuInput = Some (toolArguments raw_of (ouArguments tc)), tuSignature = ''''\<rparr>) None None []"

definition choice_content :: "(string \<Rightarrow> json) \<Rightarrow> oc_message \<Rightarrow> ContentBlock list" where
  "choice_content raw_of m =
     (let thought = omReasoningContent m @ omReasoning m; txt = contentText (omContent m)
      in (if thought \<noteq> '''' then [thought_block thought] else []) @ (if txt \<noteq> '''' then [text_block txt] else []) @
         map (call_block raw_of) (omToolCalls m))"

text \<open>\<open>body\<close> is what reading the body and scanning it as JSON gave; \<open>decode_err\<close> is the decoder's error.\<close>

definition decodeResponse ::
    "(json \<Rightarrow> string) \<Rightarrow> (string \<Rightarrow> json) \<Rightarrow> go_error \<Rightarrow> go_error + json \<Rightarrow> go_error + IRResponse" where
  "decodeResponse raw_text raw_of decode_err body =
     (case body of
        Inl e \<Rightarrow> Inl e
      | Inr j \<Rightarrow>
          (case oc_dec_completion j oc_zero_completion of
             None \<Rightarrow> Inl decode_err
           | Some w \<Rightarrow>
               (case orError w of
                  Some e \<Rightarrow> Inl (of_ir_error (oc_error_toIR raw_text e))
                | None \<Rightarrow>
                    (case orChoices w of
                       [] \<Rightarrow> Inl (of_ir_error (mk_error ErrAPI ''the upstream response carried no choices''))
                     | c # cs \<Rightarrow>
                         Inr \<lparr>rspID = orID w, rspModel = orModel w, rspContent = choice_content raw_of c,
                           rspStopReason = oc_stopReason (omFinish c), rspUsage = oc_toIR (orUsage w),
                           rspWarnings =
                             (if length (orChoices w) > 1
                              then [\<lparr>wField = ''choices'', wTarget = ''openaicompat'',
                                      wReason = ''the upstream returned '' @ Itoa (length (orChoices w)) @
                                        '' choices; only the first is carried''\<rparr>]
                              else []),
                           rspExtra = []\<rparr>))))"

section \<open>The chunks\<close>

record oc_call =
  tcIndex :: "int option"
  tcID :: string
  tcName :: string
  tcArguments :: string

definition oc_zero_call :: oc_call where
  "oc_zero_call = \<lparr>tcIndex = None, tcID = '''', tcName = '''', tcArguments = ''''\<rparr>"

definition oc_dec_call :: "json \<Rightarrow> oc_call \<Rightarrow> oc_call option" where
  "oc_dec_call = dec_struct (\<lambda>k v s.
     if k = ''index'' then set_field (\<lambda>x s. s\<lparr>tcIndex := x\<rparr>) (dec_ptr 0 dec_int v (tcIndex s)) s
     else if k = ''id'' then set_field (\<lambda>x s. s\<lparr>tcID := x\<rparr>) (dec_string v (tcID s)) s
     else if k = ''function'' then
       dec_struct (\<lambda>k v s.
         if k = ''name'' then set_field (\<lambda>x s. s\<lparr>tcName := x\<rparr>) (dec_string v (tcName s)) s
         else if k = ''arguments'' then set_field (\<lambda>x s. s\<lparr>tcArguments := x\<rparr>) (dec_string v (tcArguments s)) s
         else Some s) v s
     else Some s)"

record oc_choice =
  chRole :: string
  chContent :: string
  chReasoning :: string
  chReasoningAlt :: string
  chToolCalls :: "oc_call list"
  chFinish :: "string option"

definition oc_zero_choice :: oc_choice where
  "oc_zero_choice = \<lparr>chRole = '''', chContent = '''', chReasoning = '''', chReasoningAlt = '''', chToolCalls = [], chFinish = None\<rparr>"

definition oc_dec_delta :: "json \<Rightarrow> oc_choice \<Rightarrow> oc_choice option" where
  "oc_dec_delta = dec_struct (\<lambda>k v s.
     if k = ''role'' then set_field (\<lambda>x s. s\<lparr>chRole := x\<rparr>) (dec_string v (chRole s)) s
     else if k = ''content'' then set_field (\<lambda>x s. s\<lparr>chContent := x\<rparr>) (dec_string v (chContent s)) s
     else if k = ''reasoning_content'' then set_field (\<lambda>x s. s\<lparr>chReasoning := x\<rparr>) (dec_string v (chReasoning s)) s
     else if k = ''reasoning'' then set_field (\<lambda>x s. s\<lparr>chReasoningAlt := x\<rparr>) (dec_string v (chReasoningAlt s)) s
     else if k = ''tool_calls'' then set_field (\<lambda>x s. s\<lparr>chToolCalls := x\<rparr>) (dec_slice oc_zero_call oc_dec_call v (chToolCalls s)) s
     else Some s)"

definition oc_dec_choice :: "json \<Rightarrow> oc_choice \<Rightarrow> oc_choice option" where
  "oc_dec_choice = dec_struct (\<lambda>k v s.
     if k = ''delta'' then oc_dec_delta v s
     else if k = ''finish_reason'' then set_field (\<lambda>x s. s\<lparr>chFinish := x\<rparr>) (dec_ptr '''' dec_string v (chFinish s)) s
     else Some s)"

record wireChunk =
  wkID :: string
  wkModel :: string
  wkChoices :: "oc_choice list"
  wkUsage :: "oc_wireUsage option"
  wkError :: "oc_wireError option"

definition zero_chunk :: wireChunk where
  "zero_chunk = \<lparr>wkID = '''', wkModel = '''', wkChoices = [], wkUsage = None, wkError = None\<rparr>"

definition dec_chunk :: "json \<Rightarrow> wireChunk \<Rightarrow> wireChunk option" where
  "dec_chunk = dec_struct (\<lambda>k v s.
     if k = ''id'' then set_field (\<lambda>x s. s\<lparr>wkID := x\<rparr>) (dec_string v (wkID s)) s
     else if k = ''model'' then set_field (\<lambda>x s. s\<lparr>wkModel := x\<rparr>) (dec_string v (wkModel s)) s
     else if k = ''choices'' then set_field (\<lambda>x s. s\<lparr>wkChoices := x\<rparr>) (dec_slice oc_zero_choice oc_dec_choice v (wkChoices s)) s
     else if k = ''usage'' then set_field (\<lambda>x s. s\<lparr>wkUsage := x\<rparr>) (dec_ptr oc_zero_usage oc_dec_usage v (wkUsage s)) s
     else if k = ''error'' then set_field (\<lambda>x s. s\<lparr>wkError := x\<rparr>) (dec_ptr oc_zero_error oc_dec_error v (wkError s)) s
     else Some s)"

section \<open>The state machine\<close>

definition toolBlockBase :: int where "toolBlockBase = 1000"
definition reasoningBlockBase :: int where "reasoningBlockBase = 2000"

record oc_state =
  ocOpen :: OpenBlocks
  ocTextIdx :: int
  ocReasoningIdx :: int
  ocStarted :: bool
  ocCallByID :: "(string, int) gomap"
  ocNextCall :: int
  ocFinished :: bool

definition oc_init :: oc_state where
  "oc_init = \<lparr>ocOpen = [], ocTextIdx = - 1, ocReasoningIdx = - 1, ocStarted = False, ocCallByID = [], ocNextCall = 0,
     ocFinished = False\<rparr>"

definition oc_closeAll :: "oc_state \<Rightarrow> oc_state \<times> StreamEvent list" where
  "oc_closeAll st =
     (let st1 = st\<lparr>ocTextIdx := - 1, ocReasoningIdx := - 1, ocCallByID := [], ocNextCall := 0\<rparr>
      in case CloseAll (ocOpen st1) collect [] of (ob, out, _) \<Rightarrow> (st1\<lparr>ocOpen := ob\<rparr>, out))"

definition oc_text :: "string \<Rightarrow> oc_state \<Rightarrow> oc_state \<times> StreamEvent list" where
  "oc_text s st =
     (if s = '''' then (st, [])
      else if ocTextIdx st < 0
      then (st\<lparr>ocTextIdx := 0, ocOpen := Open (ocOpen st) 0\<rparr>, [start_ev 0 (text_d ''''), delta_ev 0 (text_d s)])
      else (st, [delta_ev (ocTextIdx st) (text_d s)]))"

definition oc_think :: "string \<Rightarrow> oc_state \<Rightarrow> oc_state \<times> StreamEvent list" where
  "oc_think s st =
     (if s = '''' then (st, [])
      else if ocReasoningIdx st < 0
      then (st\<lparr>ocReasoningIdx := reasoningBlockBase, ocOpen := Open (ocOpen st) reasoningBlockBase\<rparr>,
            [start_ev reasoningBlockBase (thinking_d ''''), delta_ev reasoningBlockBase (thinking_d s)])
      else (st, [delta_ev (ocReasoningIdx st) (thinking_d s)]))"

definition call_index :: "oc_call \<Rightarrow> oc_state \<Rightarrow> int" where
  "call_index tc st =
     (case tcIndex tc of
        Some i \<Rightarrow> wrap64 (toolBlockBase + i)
      | None \<Rightarrow>
          let known = (case map_of (ocCallByID st) (tcID tc) of Some i \<Rightarrow> i | None \<Rightarrow> 0)
          in if tcID tc \<noteq> '''' \<and> known \<noteq> 0 then known else toolBlockBase + ocNextCall st)"

definition call_delta :: "oc_call \<Rightarrow> Delta" where
  "call_delta tc = (tool_d (tcID tc) (tcName tc))\<lparr>dToolInput := tcArguments tc\<rparr>"

definition oc_tool :: "oc_call \<Rightarrow> oc_state \<Rightarrow> oc_state \<times> StreamEvent list" where
  "oc_tool tc st =
     (let idx = call_index tc st in
      if \<not> IsOpen (ocOpen st) idx
      then (st\<lparr>ocOpen := Open (ocOpen st) idx, ocNextCall := ocNextCall st + 1,
              ocCallByID := (if tcID tc \<noteq> '''' then AList.update (tcID tc) idx (ocCallByID st) else ocCallByID st)\<rparr>,
            [start_ev idx (tool_d (tcID tc) (tcName tc)), delta_ev idx (call_delta tc)])
      else (st, [delta_ev idx (call_delta tc)]))"

definition oc_finish :: "string option \<Rightarrow> oc_state \<Rightarrow> oc_state \<times> StreamEvent list" where
  "oc_finish fin st =
     (case fin of
        None \<Rightarrow> (st, [])
      | Some s \<Rightarrow>
          (case oc_closeAll (st\<lparr>ocFinished := True\<rparr>) of
             (st1, out) \<Rightarrow> (st1, out @ [zero_event\<lparr>evType := EventMessageStop, evStopReason := oc_stopReason s\<rparr>])))"

text \<open>Steps in sequence, what they yield in order.\<close>

fun emits :: "('s \<Rightarrow> 's \<times> 'o list) list \<Rightarrow> 's \<Rightarrow> 's \<times> 'o list" where
  "emits [] st = (st, [])"
| "emits (f # fs) st = (case f st of (st1, out) \<Rightarrow> case emits fs st1 of (st2, out') \<Rightarrow> (st2, out @ out'))"

definition choice_steps :: "oc_choice \<Rightarrow> (oc_state \<Rightarrow> oc_state \<times> StreamEvent list) list" where
  "choice_steps ch =
     [oc_text (chContent ch), oc_think (if chReasoning ch = '''' then chReasoningAlt ch else chReasoning ch)] @
     map oc_tool (chToolCalls ch) @ [oc_finish (chFinish ch)]"

definition oc_start :: "wireChunk \<Rightarrow> oc_state \<Rightarrow> oc_state \<times> StreamEvent list" where
  "oc_start c st =
     (if ocStarted st then (st, [])
      else (st\<lparr>ocStarted := True\<rparr>, [zero_event\<lparr>evType := EventMessageStart, evID := wkID c, evModel := wkModel c\<rparr>]))"

definition oc_usage :: "wireChunk \<Rightarrow> oc_state \<Rightarrow> oc_state \<times> StreamEvent list" where
  "oc_usage c st = (st, case wkUsage c of None \<Rightarrow> [] | Some u \<Rightarrow> [usage_event (oc_toIR u) []])"

definition chunk_steps :: "wireChunk \<Rightarrow> (oc_state \<Rightarrow> oc_state \<times> StreamEvent list) list" where
  "chunk_steps c = [oc_start c, oc_usage c] @ concat (map choice_steps (wkChoices c))"

definition oc_truncated :: go_error where
  "oc_truncated = plain_error ''upstream stream ended before a finish reason: unexpected EOF''"

text \<open>The loop over the events the SSE reader returns; \<open>fin\<close> is how reading ended, \<open>None\<close> for the end of the body.\<close>

fun oc_loop :: "(string \<Rightarrow> json option) \<Rightarrow> (json \<Rightarrow> string) \<Rightarrow> Event list \<Rightarrow> go_error option \<Rightarrow> oc_state
    \<Rightarrow> (StreamEvent + go_error) list" where
  "oc_loop unmarshal raw_text [] fin st =
     (case fin of
        None \<Rightarrow> if \<not> ocFinished st then [Inr oc_truncated] else map Inl (snd (oc_closeAll st))
      | Some err \<Rightarrow> [Inr err])"
| "oc_loop unmarshal raw_text (raw # raws) fin st =
     (if seData raw = ''[DONE]'' then map Inl (snd (oc_closeAll st))
      else case unmarshal (seData raw) of
        None \<Rightarrow> oc_loop unmarshal raw_text raws fin st
      | Some j \<Rightarrow>
          (case dec_chunk j zero_chunk of
             None \<Rightarrow> oc_loop unmarshal raw_text raws fin st
           | Some c \<Rightarrow>
               (case wkError c of
                  Some e \<Rightarrow> [Inr (of_ir_error (oc_error_toIR raw_text e))]
                | None \<Rightarrow>
                    (case emits (chunk_steps c) st of
                       (st1, out) \<Rightarrow> map Inl out @ oc_loop unmarshal raw_text raws fin st1))))"

definition isUnaryBody :: "string \<Rightarrow> bool" where
  "isUnaryBody body =
     (case dropWhile (\<lambda>c. c \<in> {CHR '' '', CHR 0x09, CR, LF}) body of [] \<Rightarrow> False | c # _ \<Rightarrow> c = CHR 0x7B)"

text \<open>One block of a completion as events, with the number of tool calls before it.\<close>

definition replay_block :: "(json \<Rightarrow> string) \<Rightarrow> ContentBlock \<Rightarrow> int \<Rightarrow> int \<times> StreamEvent list" where
  "replay_block raw_text b tools =
     (let block = (\<lambda>idx start delta. [start_ev idx start, delta_ev idx delta, block_stop idx]) in
      case cbType b of
        BlockText \<Rightarrow> (tools, block 0 (text_d '''') (text_d (cbText b)))
      | BlockThinking \<Rightarrow>
          (case cbThinking b of None \<Rightarrow> (tools, [])
           | Some th \<Rightarrow> (tools, block reasoningBlockBase (thinking_d '''') (thinking_d (thText th))))
      | BlockToolUse \<Rightarrow>
          (case cbToolUse b of None \<Rightarrow> (tools, [])
           | Some tu \<Rightarrow>
               let d = tool_d (tuID tu) (tuName tu)
               in (tools + 1, block (toolBlockBase + tools) d
                    (d\<lparr>dToolInput := (case tuInput tu of None \<Rightarrow> '''' | Some j \<Rightarrow> raw_text j)\<rparr>)))
      | _ \<Rightarrow> (tools, []))"

definition replay_events :: "(json \<Rightarrow> string) \<Rightarrow> IRResponse \<Rightarrow> StreamEvent list" where
  "replay_events raw_text resp =
     [zero_event\<lparr>evType := EventMessageStart, evID := rspID resp, evModel := rspModel resp, evWarnings := rspWarnings resp\<rparr>] @
     snd (emits (map (replay_block raw_text) (rspContent resp)) 0) @
     [usage_event (rspUsage resp) [], zero_event\<lparr>evType := EventMessageStop, evStopReason := rspStopReason resp\<rparr>]"

definition replayResponse ::
    "(json \<Rightarrow> string) \<Rightarrow> (string \<Rightarrow> json) \<Rightarrow> go_error \<Rightarrow> go_error + json \<Rightarrow> (StreamEvent + go_error) list" where
  "replayResponse raw_text raw_of decode_err whole =
     (case decodeResponse raw_text raw_of decode_err whole of
        Inl err \<Rightarrow> [Inr err]
      | Inr resp \<Rightarrow> map Inl (replay_events raw_text resp))"

text \<open>\<open>body\<close> is the body's text, \<open>whole\<close> its reading as one JSON value, \<open>raws\<close> and \<open>fin\<close> its reading as an event stream.\<close>

definition oc_ParseStream ::
    "(string \<Rightarrow> json option) \<Rightarrow> (json \<Rightarrow> string) \<Rightarrow> (string \<Rightarrow> json) \<Rightarrow> go_error \<Rightarrow> string \<Rightarrow> go_error + json \<Rightarrow>
     Event list \<Rightarrow> go_error option \<Rightarrow> (StreamEvent + go_error) list" where
  "oc_ParseStream unmarshal raw_text raw_of decode_err body whole raws fin =
     (if isUnaryBody body then replayResponse raw_text raw_of decode_err whole
      else oc_loop unmarshal raw_text raws fin oc_init)"

section \<open>Well-nested streams\<close>

text \<open>What every consumer of canonical events may rely on: one message start before anything else, a block opened once
  until it is stopped, a delta only in an open block of its own kind, no block open at the message stop or at the end
  of a stream that did not fail, and nothing after an error.\<close>

type_synonym nest = "bool \<times> (int \<times> BlockType) list"

definition nest_step :: "StreamEvent \<Rightarrow> nest \<Rightarrow> nest option" where
  "nest_step ev n =
     (case n of (started, op) \<Rightarrow>
        case evType ev of
          EventMessageStart \<Rightarrow> if \<not> started \<and> op = [] then Some (True, []) else None
        | EventBlockStart \<Rightarrow>
            (case evDelta ev of
               None \<Rightarrow> None
             | Some d \<Rightarrow> if started \<and> evIndex ev \<notin> fst ` set op then Some (True, op @ [(evIndex ev, dType d)]) else None)
        | EventContentDelta \<Rightarrow>
            (case evDelta ev of
               None \<Rightarrow> None
             | Some d \<Rightarrow> if (evIndex ev, dType d) \<in> set op then Some (started, op) else None)
        | EventBlockStop \<Rightarrow>
            if evIndex ev \<in> fst ` set op then Some (started, filter (\<lambda>b. fst b \<noteq> evIndex ev) op) else None
        | EventMessageDelta \<Rightarrow> if started then Some (started, op) else None
        | EventMessageStop \<Rightarrow> if started \<and> op = [] then Some (started, op) else None
        | _ \<Rightarrow> Some (started, op))"

fun nest_run :: "StreamEvent list \<Rightarrow> nest \<Rightarrow> nest option" where
  "nest_run [] n = Some n"
| "nest_run (ev # evs) n = (case nest_step ev n of None \<Rightarrow> None | Some n1 \<Rightarrow> nest_run evs n1)"

fun nested :: "nest \<Rightarrow> (StreamEvent + go_error) list \<Rightarrow> bool" where
  "nested n [] = (snd n = [])"
| "nested n (Inr err # xs) = (xs = [])"
| "nested n (Inl ev # xs) = (case nest_step ev n of None \<Rightarrow> False | Some n1 \<Rightarrow> nested n1 xs)"

lemma nest_run_append:
  "nest_run (xs @ ys) n = (case nest_run xs n of None \<Rightarrow> None | Some n1 \<Rightarrow> nest_run ys n1)"
  by (induction xs arbitrary: n) (auto split: option.splits)

lemma nested_append: "nest_run out n = Some n1 \<Longrightarrow> nested n (map Inl out @ xs) = nested n1 xs"
  by (induction out arbitrary: n) (auto split: option.splits)

lemmas nest_simps = nest_step_def start_ev_def delta_ev_def block_stop_def usage_event_def zero_event_def text_d_def
  thinking_d_def tool_d_def zero_delta_def

lemma nest_run_stops:
  "distinct ks \<Longrightarrow> set ks = fst ` set op \<Longrightarrow> nest_run (map block_stop ks) (b, op) = Some (b, [])"
proof (induction ks arbitrary: op)
  case (Cons k ks)
  have "fst ` set (filter (\<lambda>p. fst p \<noteq> k) op) = fst ` set op - {k}" by force
  then have "set ks = fst ` set (filter (\<lambda>p. fst p \<noteq> k) op)" using Cons.prems by auto
  from Cons.IH[OF _ this] Cons.prems show ?case by (auto simp: nest_simps)
qed simp

text \<open>The tool blocks keep out of the numbers of the text and the reasoning block.\<close>

definition tools_in_range :: "StreamEvent list \<Rightarrow> bool" where
  "tools_in_range = list_all (\<lambda>ev. case evDelta ev of
     None \<Rightarrow> True
   | Some d \<Rightarrow> dType d = BlockToolUse \<longrightarrow> toolBlockBase \<le> evIndex ev \<and> evIndex ev < reasoningBlockBase)"

lemma tools_in_range_append [simp]: "tools_in_range (xs @ ys) \<longleftrightarrow> tools_in_range xs \<and> tools_in_range ys"
  by (simp add: tools_in_range_def)

definition block_kind :: "int \<Rightarrow> BlockType" where
  "block_kind i = (if i = 0 then BlockText else if i = reasoningBlockBase then BlockThinking else BlockToolUse)"

definition oc_abs :: "oc_state \<Rightarrow> nest" where
  "oc_abs st = (ocStarted st, map (\<lambda>(i, _). (i, block_kind i)) (ocOpen st))"

definition oc_inv :: "oc_state \<Rightarrow> bool" where
  "oc_inv st = (ocStarted st \<and> distinct (map fst (ocOpen st)) \<and> (\<forall>(i, b) \<in> set (ocOpen st). b) \<and>
     (if ocTextIdx st < 0 then 0 \<notin> fst ` set (ocOpen st) else ocTextIdx st = 0 \<and> 0 \<in> fst ` set (ocOpen st)) \<and>
     (if ocReasoningIdx st < 0 then reasoningBlockBase \<notin> fst ` set (ocOpen st)
      else ocReasoningIdx st = reasoningBlockBase \<and> reasoningBlockBase \<in> fst ` set (ocOpen st)))"

definition nests :: "(oc_state \<Rightarrow> oc_state \<times> StreamEvent list) \<Rightarrow> bool" where
  "nests f = (\<forall>st. oc_inv st \<and> tools_in_range (snd (f st)) \<longrightarrow>
     nest_run (snd (f st)) (oc_abs st) = Some (oc_abs (fst (f st))) \<and> oc_inv (fst (f st)))"

lemma nests_emits: "list_all nests fs \<Longrightarrow> nests (emits fs)"
proof (induction fs)
  case Nil
  show ?case by (simp add: nests_def)
next
  case (Cons f fs)
  then have f: "nests f" and fs: "nests (emits fs)" by simp_all
  show ?case unfolding nests_def
  proof (intro allI impI)
    fix st assume a: "oc_inv st \<and> tools_in_range (snd (emits (f # fs) st))"
    obtain st1 out where 1: "f st = (st1, out)" by fastforce
    obtain st2 out' where 2: "emits fs st1 = (st2, out')" by fastforce
    have "tools_in_range out" "tools_in_range out'" using a by (simp_all add: 1 2)
    then show "nest_run (snd (emits (f # fs) st)) (oc_abs st) = Some (oc_abs (fst (emits (f # fs) st))) \<and>
        oc_inv (fst (emits (f # fs) st))"
      using f[unfolded nests_def, rule_format, of st] fs[unfolded nests_def, rule_format, of st1] a
      by (simp add: 1 2 nest_run_append)
  qed
qed

lemma open_keys: "oc_inv st \<Longrightarrow> IsOpen (ocOpen st) i \<longleftrightarrow> i \<in> fst ` set (ocOpen st)"
  by (force simp: oc_inv_def IsOpen_def map_of_eq_Some_iff)

lemma abs_keys [simp]: "fst ` set (snd (oc_abs st)) = fst ` set (ocOpen st)"
  by (force simp: oc_abs_def)

lemma abs_mem: "i \<in> fst ` set (ocOpen st) \<Longrightarrow> (i, block_kind i) \<in> set (snd (oc_abs st))"
  by (force simp: oc_abs_def)

lemma Open_fresh: "i \<notin> fst ` set ob \<Longrightarrow> Open ob i = ob @ [(i, True)]"
  by (simp add: Open_def update_fresh map_of_eq_None_iff)

lemma nests_start: "oc_inv st \<Longrightarrow> i \<notin> fst ` set (ocOpen st) \<Longrightarrow> dType d = block_kind i \<Longrightarrow>
   nest_step (start_ev i d) (oc_abs st) = Some (ocStarted st, map (\<lambda>(i, _). (i, block_kind i)) (Open (ocOpen st) i))"
  using abs_keys[of st] by (simp add: nest_simps oc_inv_def Open_fresh oc_abs_def del: abs_keys)

lemma nests_delta: "i \<in> fst ` set (ocOpen st) \<Longrightarrow> dType d = block_kind i \<Longrightarrow>
   nest_step (delta_ev i d) (oc_abs st) = Some (oc_abs st)"
  using abs_mem[of i st] by (simp add: nest_simps oc_abs_def)
lemma opened:
  assumes "oc_inv st" "i \<notin> fst ` set (ocOpen st)" "dType d = block_kind i" "dType d' = block_kind i"
    and "ocOpen st1 = Open (ocOpen st) i" "ocStarted st1 = ocStarted st"
  shows "nest_run [start_ev i d, delta_ev i d'] (oc_abs st) = Some (oc_abs st1)"
proof -
  have s: "nest_step (start_ev i d) (oc_abs st) = Some (oc_abs st1)"
    using nests_start[OF assms(1,2,3)] assms(5,6) by (simp add: oc_abs_def)
  have "i \<in> fst ` set (ocOpen st1)" by (simp add: assms(5) Open_fresh[OF assms(2)])
  then show ?thesis by (simp add: s nests_delta assms(4))
qed

lemma nests_text: "nests (oc_text s)"
  unfolding nests_def
proof (intro allI impI)
  fix st assume a: "oc_inv st \<and> tools_in_range (snd (oc_text s st))"
  let ?st1 = "st\<lparr>ocTextIdx := 0, ocOpen := Open (ocOpen st) 0\<rparr>"
  have k: "block_kind 0 = BlockText" by (simp add: block_kind_def)
  consider "s = ''''" | "s \<noteq> ''''" "ocTextIdx st < 0" | "s \<noteq> ''''" "\<not> ocTextIdx st < 0" by blast
  then show "nest_run (snd (oc_text s st)) (oc_abs st) = Some (oc_abs (fst (oc_text s st))) \<and> oc_inv (fst (oc_text s st))"
  proof cases
    case 1
    then show ?thesis using a by (simp add: oc_text_def)
  next
    case 2
    then have n: "0 \<notin> fst ` set (ocOpen st)" using a by (simp add: oc_inv_def)
    have "nest_run [start_ev 0 (text_d ''''), delta_ev 0 (text_d s)] (oc_abs st) = Some (oc_abs ?st1)"
      using opened[of st 0 "text_d ''''" "text_d s" ?st1] a n by (simp add: k text_d_def)
    moreover have "oc_inv ?st1" using a n by (simp add: oc_inv_def Open_fresh reasoningBlockBase_def split: if_splits)
    ultimately show ?thesis using 2 by (simp add: oc_text_def)
  next
    case 3
    then have "0 \<in> fst ` set (ocOpen st)" "ocTextIdx st = 0" using a by (simp_all add: oc_inv_def)
    then show ?thesis using a 3 nests_delta[of 0 st "text_d s"] by (simp add: oc_text_def k text_d_def)
  qed
qed

lemma nests_think: "nests (oc_think s)"
  unfolding nests_def
proof (intro allI impI)
  fix st assume a: "oc_inv st \<and> tools_in_range (snd (oc_think s st))"
  let ?r = reasoningBlockBase
  let ?st1 = "st\<lparr>ocReasoningIdx := ?r, ocOpen := Open (ocOpen st) ?r\<rparr>"
  have k: "block_kind ?r = BlockThinking" by (simp add: block_kind_def reasoningBlockBase_def)
  consider "s = ''''" | "s \<noteq> ''''" "ocReasoningIdx st < 0" | "s \<noteq> ''''" "\<not> ocReasoningIdx st < 0" by blast
  then show "nest_run (snd (oc_think s st)) (oc_abs st) = Some (oc_abs (fst (oc_think s st))) \<and> oc_inv (fst (oc_think s st))"
  proof cases
    case 1
    then show ?thesis using a by (simp add: oc_think_def)
  next
    case 2
    then have n: "?r \<notin> fst ` set (ocOpen st)" using a by (simp add: oc_inv_def)
    have "nest_run [start_ev ?r (thinking_d ''''), delta_ev ?r (thinking_d s)] (oc_abs st) = Some (oc_abs ?st1)"
      using opened[of st ?r "thinking_d ''''" "thinking_d s" ?st1] a n by (simp add: k thinking_d_def)
    moreover have "oc_inv ?st1" using a n by (simp add: oc_inv_def Open_fresh reasoningBlockBase_def split: if_splits)
    ultimately show ?thesis using 2 by (simp add: oc_think_def)
  next
    case 3
    then have "?r \<in> fst ` set (ocOpen st)" "ocReasoningIdx st = ?r" using a by (simp_all add: oc_inv_def)
    then show ?thesis using a 3 nests_delta[of ?r st "thinking_d s"] by (simp add: oc_think_def k thinking_d_def)
  qed
qed

lemma tool_range:
  "tools_in_range (snd (oc_tool tc st)) \<Longrightarrow> toolBlockBase \<le> call_index tc st \<and> call_index tc st < reasoningBlockBase"
  by (auto simp: oc_tool_def Let_def tools_in_range_def delta_ev_def call_delta_def tool_d_def zero_event_def split: if_splits)

lemma nests_tool: "nests (oc_tool tc)"
  unfolding nests_def
proof (intro allI impI)
  fix st assume a: "oc_inv st \<and> tools_in_range (snd (oc_tool tc st))"
  define i where "i = call_index tc st"
  define ids where "ids = (if tcID tc \<noteq> '''' then AList.update (tcID tc) i (ocCallByID st) else ocCallByID st)"
  let ?st1 = "st\<lparr>ocOpen := Open (ocOpen st) i, ocNextCall := ocNextCall st + 1, ocCallByID := ids\<rparr>"
  have r: "toolBlockBase \<le> i" "i < reasoningBlockBase" using tool_range a by (simp_all add: i_def)
  then have k: "block_kind i = BlockToolUse" "i \<noteq> 0" "i \<noteq> reasoningBlockBase" by (simp_all add: block_kind_def toolBlockBase_def)
  have d: "dType (tool_d (tcID tc) (tcName tc)) = BlockToolUse" "dType (call_delta tc) = BlockToolUse"
    by (simp_all add: tool_d_def call_delta_def)
  show "nest_run (snd (oc_tool tc st)) (oc_abs st) = Some (oc_abs (fst (oc_tool tc st))) \<and> oc_inv (fst (oc_tool tc st))"
  proof (cases "i \<in> fst ` set (ocOpen st)")
    case True
    then have "IsOpen (ocOpen st) i" using a open_keys by blast
    then show ?thesis using a nests_delta[OF True, of "call_delta tc"] by (simp add: oc_tool_def i_def[symmetric] k d)
  next
    case False
    then have "\<not> IsOpen (ocOpen st) i" using a open_keys by blast
    moreover have "nest_run [start_ev i (tool_d (tcID tc) (tcName tc)), delta_ev i (call_delta tc)] (oc_abs st) = Some (oc_abs ?st1)"
      using opened[of st i _ _ ?st1] a False by (simp add: k d)
    moreover have "oc_inv ?st1" using a False k by (simp add: oc_inv_def Open_fresh split: if_splits)
    ultimately show ?thesis by (simp add: oc_tool_def i_def[symmetric] ids_def Let_def)
  qed
qed

lemma closeAll_eq:
  "oc_closeAll st = (st\<lparr>ocTextIdx := - 1, ocReasoningIdx := - 1, ocCallByID := [], ocNextCall := 0, ocOpen := []\<rparr>,
     map block_stop (sort (map fst (ocOpen st))))"
  by (simp add: oc_closeAll_def CloseAll_def yield_stops_collect Let_def)

lemma nests_closeAll:
  assumes "oc_inv st"
  shows "nest_run (snd (oc_closeAll st)) (oc_abs st) = Some (oc_abs (fst (oc_closeAll st))) \<and> oc_inv (fst (oc_closeAll st)) \<and>
    snd (oc_abs (fst (oc_closeAll st))) = []"
proof -
  have "nest_run (map block_stop (sort (map fst (ocOpen st)))) (ocStarted st, snd (oc_abs st)) = Some (ocStarted st, [])"
    using assms by (intro nest_run_stops) (auto simp: oc_inv_def oc_abs_def intro: rev_image_eqI)
  then show ?thesis using assms by (simp add: closeAll_eq oc_abs_def oc_inv_def)
qed

lemma nests_finish: "nests (oc_finish fin)"
proof (cases fin)
  case None
  then show ?thesis by (simp add: nests_def oc_finish_def)
next
  case (Some s)
  show ?thesis unfolding nests_def
  proof (intro allI impI)
    fix st assume a: "oc_inv st \<and> tools_in_range (snd (oc_finish fin st))"
    let ?st = "st\<lparr>ocFinished := True\<rparr>"
    have "oc_inv ?st" "oc_abs ?st = oc_abs st" using a by (simp_all add: oc_inv_def oc_abs_def)
    moreover obtain st1 out where c: "oc_closeAll ?st = (st1, out)" by fastforce
    ultimately have r: "nest_run out (oc_abs st) = Some (oc_abs st1)" "oc_inv st1" "snd (oc_abs st1) = []"
      using nests_closeAll[of ?st] by simp_all
    then have "oc_abs st1 = (True, [])" by (simp add: oc_abs_def oc_inv_def)
    then have "nest_step (zero_event\<lparr>evType := EventMessageStop, evStopReason := oc_stopReason s\<rparr>) (oc_abs st1) = Some (oc_abs st1)"
      by (simp add: nest_simps)
    with r show "nest_run (snd (oc_finish fin st)) (oc_abs st) = Some (oc_abs (fst (oc_finish fin st))) \<and>
        oc_inv (fst (oc_finish fin st))"
      by (simp add: oc_finish_def Some c nest_run_append)
  qed
qed

lemma nests_choice: "list_all nests (choice_steps ch)"
  by (simp add: choice_steps_def nests_text nests_think nests_finish nests_tool list_all_iff)

lemma nests_usage: "nests (oc_usage c)"
  by (auto simp: nests_def oc_usage_def nest_simps oc_abs_def oc_inv_def split: option.splits)

lemma chunk_nests:
  assumes "oc_inv st \<or> st = oc_init" "emits (chunk_steps c) st = (st1, out)" "tools_in_range out"
  shows "nest_run out (oc_abs st) = Some (oc_abs st1) \<and> oc_inv st1"
proof -
  have n: "nests (emits (oc_usage c # concat (map choice_steps (wkChoices c))))"
    using nests_choice by (intro nests_emits) (auto simp: list_all_iff nests_usage)
  obtain st0 out0 where s: "oc_start c st = (st0, out0)" by fastforce
  obtain st2 out2 where e: "emits (oc_usage c # concat (map choice_steps (wkChoices c))) st0 = (st2, out2)" by fastforce
  have out: "st1 = st2" "out = out0 @ out2" using assms(2) by (simp_all add: chunk_steps_def s e del: emits.simps(2) add: emits.simps(2)[of "oc_start c"])
  have "nest_run out0 (oc_abs st) = Some (oc_abs st0) \<and> oc_inv st0"
    using assms(1) s by (auto simp: oc_start_def oc_inv_def oc_init_def oc_abs_def nest_simps split: if_splits)
  then show ?thesis using n[unfolded nests_def, rule_format, of st0] assms(3) e by (simp add: out nest_run_append)
qed

fun lefts :: "('a + 'b) list \<Rightarrow> 'a list" where
  "lefts [] = []"
| "lefts (Inl x # xs) = x # lefts xs"
| "lefts (Inr y # xs) = lefts xs"

lemma lefts_append: "lefts (xs @ ys) = lefts xs @ lefts ys"
  by (induction xs rule: lefts.induct) auto

lemma lefts_map [simp]: "lefts (map Inl xs) = xs"
  by (induction xs) auto

declare lefts_append [simp]

lemma closed_nested:
  assumes "oc_inv st \<or> st = oc_init"
  shows "nested (oc_abs st) (map Inl (snd (oc_closeAll st)))"
proof -
  have "nest_run (snd (oc_closeAll st)) (oc_abs st) = Some (oc_abs (fst (oc_closeAll st))) \<and> snd (oc_abs (fst (oc_closeAll st))) = []"
    using assms nests_closeAll[of st] by (auto simp: closeAll_eq oc_init_def oc_abs_def)
  then show ?thesis using nested_append[of _ _ _ "[]"] by simp
qed

lemma oc_loop_cases:
  assumes "seData raw \<noteq> ''[DONE]''"
  shows "oc_loop un rt (raw # raws) fin st = oc_loop un rt raws fin st \<or>
    (\<exists>e. oc_loop un rt (raw # raws) fin st = [Inr e]) \<or>
    (\<exists>c st1 out. emits (chunk_steps c) st = (st1, out) \<and>
       oc_loop un rt (raw # raws) fin st = map Inl out @ oc_loop un rt raws fin st1)"
proof (cases "case un (seData raw) of None \<Rightarrow> None | Some j \<Rightarrow> dec_chunk j zero_chunk")
  case None
  then show ?thesis using assms by (auto split: option.splits)
next
  case (Some c)
  obtain st1 out where "emits (chunk_steps c) st = (st1, out)" by fastforce
  then show ?thesis using assms Some by (cases "wkError c") (auto split: option.splits)
qed

lemma loop_nested:
  assumes "oc_inv st \<or> st = oc_init" "tools_in_range (lefts (oc_loop un rt raws fin st))"
  shows "nested (oc_abs st) (oc_loop un rt raws fin st)"
  using assms
proof (induction raws arbitrary: st)
  case Nil
  then show ?case using closed_nested[OF Nil.prems(1)] by (simp split: option.splits)
next
  case (Cons raw raws)
  show ?case
  proof (cases "seData raw = ''[DONE]''")
    case True
    then show ?thesis using closed_nested[OF Cons.prems(1)] by simp
  next
    case False
    consider (skip) "oc_loop un rt (raw # raws) fin st = oc_loop un rt raws fin st"
      | (error) e where "oc_loop un rt (raw # raws) fin st = [Inr e]"
      | (chunk) c st1 out where "emits (chunk_steps c) st = (st1, out)"
          "oc_loop un rt (raw # raws) fin st = map Inl out @ oc_loop un rt raws fin st1"
      using oc_loop_cases[OF False] by metis
    then show ?thesis
    proof cases
      case skip
      then show ?thesis using Cons.IH[OF Cons.prems(1)] Cons.prems(2) by metis
    next
      case error
      then show ?thesis by (metis nested.simps(2))
    next
      case chunk
      have t: "tools_in_range out" "tools_in_range (lefts (oc_loop un rt raws fin st1))"
        using Cons.prems(2) unfolding chunk(2) by simp_all
      from chunk_nests[OF Cons.prems(1) chunk(1) t(1)] Cons.IH[of st1] t(2) show ?thesis
        unfolding chunk(2) by (simp add: nested_append)
    qed
  qed
qed
lemma replay_nested: "nest_run (snd (emits (map (replay_block rt) bs) k)) (True, []) = Some (True, [])"
proof (induction bs arbitrary: k)
  case (Cons b bs)
  obtain k1 out where b: "replay_block rt b k = (k1, out)" by fastforce
  then have "nest_run out (True, []) = Some (True, [])"
    by (auto simp: replay_block_def Let_def nest_simps split: BlockType.splits option.splits)
  with Cons.IH[of k1] show ?case by (auto simp: b nest_run_append split: prod.splits)
qed simp

lemma replay_events_nested: "nest_run (replay_events rt resp) (False, []) = Some (True, [])"
  using replay_nested[of rt "rspContent resp" 0] by (simp add: replay_events_def nest_run_append nest_simps)

section \<open>Reading back what the OpenAI writer sends\<close>

lemma oc_folded_keys [json_keys]:
  "ToLower ''choices'' = ''choices''" "ToLower ''created'' = ''created''" "ToLower ''id'' = ''id''" "ToLower ''model'' = ''model''"
  "ToLower ''object'' = ''object''" "ToLower ''delta'' = ''delta''" "ToLower ''finish_reason'' = ''finish_reason''"
  "ToLower ''index'' = ''index''" "ToLower ''role'' = ''role''" "ToLower ''content'' = ''content''" "ToLower ''message'' = ''message''"
  "ToLower ''reasoning_content'' = ''reasoning_content''" "ToLower ''tool_calls'' = ''tool_calls''"
  "ToLower ''function'' = ''function''" "ToLower ''arguments'' = ''arguments''" "ToLower ''name'' = ''name''" "ToLower ''type'' = ''type''"
  "ToLower ''usage'' = ''usage''" "ToLower ''prompt_tokens'' = ''prompt_tokens''" "ToLower ''completion_tokens'' = ''completion_tokens''"
  "ToLower ''total_tokens'' = ''total_tokens''" "ToLower ''prompt_tokens_details'' = ''prompt_tokens_details''"
  "ToLower ''completion_tokens_details'' = ''completion_tokens_details''" "ToLower ''cached_tokens'' = ''cached_tokens''"
  "ToLower ''reasoning_tokens'' = ''reasoning_tokens''"
  by code_simp+

text \<open>A usage with an OpenAI form: counts of 64 bits, no cache writes, nothing estimated.\<close>

definition oc_usage_ok :: "Usage \<Rightarrow> bool" where
  "oc_usage_ok u = (int64 (InputTokens u) \<and> int64 (OutputTokens u) \<and> int64 (CacheReadTokens u) \<and> int64 (ReasoningTokens u) \<and>
     InputTokens u + CacheReadTokens u \<le> int64_max \<and> CacheWriteTokens u = 0 \<and> CacheWrite5mTokens u = 0 \<and>
     CacheWrite1hTokens u = 0 \<and> \<not> Estimated u)"

lemma oc_usage_round_trip:
  assumes "oc_usage_ok u"
  shows "\<exists>w. oc_dec_usage (oa_usageBody u) oc_zero_usage = Some w \<and> oc_toIR w = u"
proof -
  have p: "PromptTokens u = InputTokens u + CacheReadTokens u" "int64 (PromptTokens u)"
    using assms by (auto simp: oc_usage_ok_def int64_def PromptTokens_def)
  have w: "wrap64 (InputTokens u) = InputTokens u"
    using assms by (intro wrap64_id) (auto simp: oc_usage_ok_def int64_def int64_max_def)
  show ?thesis
    using assms p w
    by (auto simp: oc_dec_usage_def oa_usageBody_def json_keys dec_int_int64 oc_usage_ok_def oc_toIR_def int64_def Let_def
        zero_usage_def oc_zero_usage_def simp del: dec_int.simps intro!: Usage.equality)
qed

text \<open>Each kind of chunk, decoded.\<close>

definition chunk_of :: "ow_state \<Rightarrow> oc_choice list \<Rightarrow> wireChunk" where
  "chunk_of st chs = \<lparr>wkID = (if owID st = '''' then ''chatcmpl-darkrouter'' else owID st), wkModel = owModel st, wkChoices = chs,
     wkUsage = None, wkError = None\<rparr>"

lemmas dec_chunk_simps = dec_chunk_def zero_chunk_def chunk_def chunk_with_def chunk_of_def oc_dec_choice_def oc_dec_delta_def
  oc_zero_choice_def oc_dec_call_def oc_zero_call_def open_call_def more_args_def

lemma dec_role: "dec_chunk (snd (chunk (JObj [(''role'', JStr ''assistant'')]) JNull t st)) zero_chunk =
    Some (chunk_of st [oc_zero_choice\<lparr>chRole := ''assistant''\<rparr>])"
  by (simp add: dec_chunk_simps json_keys)

lemma dec_content: "dec_chunk (snd (chunk (JObj [(''content'', JStr s)]) JNull t st)) zero_chunk =
    Some (chunk_of st [oc_zero_choice\<lparr>chContent := s\<rparr>])"
  by (simp add: dec_chunk_simps json_keys)

lemma dec_reasoning: "dec_chunk (snd (chunk (JObj [(''reasoning_content'', JStr s)]) JNull t st)) zero_chunk =
    Some (chunk_of st [oc_zero_choice\<lparr>chReasoning := s\<rparr>])"
  by (simp add: dec_chunk_simps json_keys)

lemma dec_open_call: "int64 i \<Longrightarrow> dec_chunk (snd (chunk (open_call i d) JNull t st)) zero_chunk =
    Some (chunk_of st [oc_zero_choice\<lparr>chToolCalls := [\<lparr>tcIndex = Some i, tcID = dToolID d, tcName = dToolName d, tcArguments = ''''\<rparr>]\<rparr>])"
  by (simp add: dec_chunk_simps json_keys dec_int_int64 del: dec_int.simps)

lemma dec_more_args: "int64 i \<Longrightarrow> dec_chunk (snd (chunk (more_args i s) JNull t st)) zero_chunk =
    Some (chunk_of st [oc_zero_choice\<lparr>chToolCalls := [\<lparr>tcIndex = Some i, tcID = '''', tcName = '''', tcArguments = s\<rparr>]\<rparr>])"
  by (simp add: dec_chunk_simps json_keys dec_int_int64 del: dec_int.simps)

lemma dec_finish: "dec_chunk (snd (chunk (JObj []) (JStr s) t st)) zero_chunk =
    Some (chunk_of st [oc_zero_choice\<lparr>chFinish := Some s\<rparr>])"
  by (simp add: dec_chunk_simps json_keys)

lemma dec_usage_chunk:
  assumes "oc_usage_ok u"
  shows "\<exists>w. dec_chunk (snd (usage_chunk u t st)) zero_chunk = Some ((chunk_of st [])\<lparr>wkUsage := Some w\<rparr>) \<and> oc_toIR w = u"
proof -
  have "oa_usageBody u \<noteq> JNull" by (simp add: oa_usageBody_def)
  with oc_usage_round_trip[OF assms] show ?thesis
    by (auto simp: dec_chunk_simps json_keys usage_chunk_def)
qed

text \<open>What an assistant turn is made of, and its canonical events as this parser yields them: \<open>tx\<close> and \<open>th\<close> say whether a
  text and a reasoning block are open, \<open>n\<close> how many calls are.\<close>

datatype oc_item = OText string | OThink string | OCall string string | OArgs nat string

fun oc_next :: "oc_item \<Rightarrow> bool \<times> bool \<times> nat \<Rightarrow> bool \<times> bool \<times> nat" where
  "oc_next (OText s) (tx, th, n) = (True, th, n)"
| "oc_next (OThink s) (tx, th, n) = (tx, True, n)"
| "oc_next (OCall i nm) (tx, th, n) = (tx, th, Suc n)"
| "oc_next (OArgs k s) (tx, th, n) = (tx, th, n)"

fun oc_item_ok :: "oc_item \<Rightarrow> bool \<times> bool \<times> nat \<Rightarrow> bool" where
  "oc_item_ok (OText s) b = (s \<noteq> '''')"
| "oc_item_ok (OThink s) b = (s \<noteq> '''')"
| "oc_item_ok (OCall i nm) (tx, th, n) = (n < 1000)"
| "oc_item_ok (OArgs k s) (tx, th, n) = (k < n \<and> s \<noteq> '''')"

fun oc_item_events :: "oc_item \<Rightarrow> bool \<times> bool \<times> nat \<Rightarrow> StreamEvent list" where
  "oc_item_events (OText s) (tx, th, n) = (if tx then [] else [start_ev 0 (text_d '''')]) @ [delta_ev 0 (text_d s)]"
| "oc_item_events (OThink s) (tx, th, n) = (if th then [] else [start_ev 2000 (thinking_d '''')]) @ [delta_ev 2000 (thinking_d s)]"
| "oc_item_events (OCall i nm) (tx, th, n) = [start_ev (1000 + int n) (tool_d i nm), delta_ev (1000 + int n) (tool_d i nm)]"
| "oc_item_events (OArgs k s) (tx, th, n) = [delta_ev (1000 + int k) (input_d s)]"

fun oc_body :: "oc_item list \<Rightarrow> bool \<times> bool \<times> nat \<Rightarrow> StreamEvent list" where
  "oc_body [] b = []"
| "oc_body (x # xs) b = oc_item_events x b @ oc_body xs (oc_next x b)"

fun oc_body_ok :: "oc_item list \<Rightarrow> bool \<times> bool \<times> nat \<Rightarrow> bool" where
  "oc_body_ok [] b = True"
| "oc_body_ok (x # xs) b = (oc_item_ok x b \<and> oc_body_ok xs (oc_next x b))"

fun oc_after :: "oc_item list \<Rightarrow> bool \<times> bool \<times> nat \<Rightarrow> bool \<times> bool \<times> nat" where
  "oc_after [] b = b"
| "oc_after (x # xs) b = oc_after xs (oc_next x b)"

fun oc_keys :: "bool \<times> bool \<times> nat \<Rightarrow> int list" where
  "oc_keys (tx, th, n) = (if tx then [0] else []) @ map (\<lambda>k. 1000 + int k) [0..<n] @ (if th then [2000] else [])"

definition oc_stream :: "string \<Rightarrow> string \<Rightarrow> oc_item list \<Rightarrow> StopReason \<Rightarrow> Usage \<Rightarrow> StreamEvent list" where
  "oc_stream mid model items stop u =
     [zero_event\<lparr>evType := EventMessageStart, evID := mid, evModel := model\<rparr>] @ oc_body items (False, False, 0) @
     map block_stop (oc_keys (oc_after items (False, False, 0))) @
     [zero_event\<lparr>evType := EventMessageStop, evStopReason := stop\<rparr>, usage_event u []]"

definition ow_mid :: "string \<Rightarrow> string \<Rightarrow> nat \<Rightarrow> ow_state \<Rightarrow> bool" where
  "ow_mid mid model n st = (owID st = mid \<and> owModel st = model \<and> owToolIndex st = map (\<lambda>k. (1000 + int k, int k)) [0..<n])"

fun oc_mid :: "bool \<times> bool \<times> nat \<Rightarrow> oc_state \<Rightarrow> bool" where
  "oc_mid (tx, th, n) st = (n \<le> 1000 \<and> ocStarted st \<and> ocTextIdx st = (if tx then 0 else - 1) \<and>
     ocReasoningIdx st = (if th then 2000 else - 1) \<and> (\<forall>(i, b) \<in> set (ocOpen st). b) \<and>
     mset (map fst (ocOpen st)) = mset (oc_keys (tx, th, n)))"

lemma map_of_slots: "map_of (map (\<lambda>k. (1000 + int k, int k)) [0..<n]) (1000 + int k) = (if k < n then Some (int k) else None)"
  by (induction n) (auto simp: map_add_def map_of_eq_None_iff)

lemma slots_Suc: "AList.update (1000 + int n) (int n) (map (\<lambda>k. (1000 + int k, int k)) [0..<n]) =
    map (\<lambda>k. (1000 + int k, int k)) [0..<Suc n]"
  by (simp add: update_fresh map_of_slots)

text \<open>The writer on one item: one chunk.\<close>

definition item_delta :: "oc_item \<Rightarrow> nat \<Rightarrow> json" where
  "item_delta x n = (case x of
     OText s \<Rightarrow> JObj [(''content'', JStr s)]
   | OThink s \<Rightarrow> JObj [(''reasoning_content'', JStr s)]
   | OCall i nm \<Rightarrow> open_call (int n) (tool_d i nm)
   | OArgs k s \<Rightarrow> more_args (int k) s)"

lemma ow_item:
  assumes "ow_mid mid model n st" "oc_item_ok x (tx, th, n)"
  shows "\<exists>t st1 st2. (\<forall>tail. ow_run clock (map Inl (oc_item_events x (tx, th, n) @ tail)) st =
      chunk (item_delta x n) JNull t st1 # ow_run clock (map Inl tail) st2) \<and>
    owID st1 = mid \<and> owModel st1 = model \<and> ow_mid mid model (snd (snd (oc_next x (tx, th, n)))) st2"
proof (cases x)
  case (OText s)
  let ?st = "st\<lparr>owSent := Suc (owSent st)\<rparr>"
  show ?thesis using assms(1)
    by (intro exI[of _ "clock (owSent st)"] exI[of _ st] exI[of _ ?st])
       (simp add: OText ow_event_def start_ev_def delta_ev_def text_d_def zero_event_def zero_delta_def item_delta_def ow_mid_def Let_def)
next
  case (OThink s)
  let ?st = "st\<lparr>owSent := Suc (owSent st)\<rparr>"
  show ?thesis using assms
    by (intro exI[of _ "clock (owSent st)"] exI[of _ st] exI[of _ ?st])
       (simp add: OThink ow_event_def start_ev_def delta_ev_def thinking_d_def zero_event_def zero_delta_def item_delta_def ow_mid_def Let_def)
next
  case (OCall i nm)
  let ?st1 = "st\<lparr>owToolIndex := map (\<lambda>k. (1000 + int k, int k)) [0..<Suc n]\<rparr>"
  let ?st = "?st1\<lparr>owSent := Suc (owSent st)\<rparr>"
  have "owToolIndex st = map (\<lambda>k. (1000 + int k, int k)) [0..<n]" using assms(1) by (simp add: ow_mid_def)
  then show ?thesis using assms(1) slots_Suc[of n]
    by (intro exI[of _ "clock (owSent st)"] exI[of _ ?st1] exI[of _ ?st])
       (simp add: OCall ow_event_def start_ev_def delta_ev_def tool_d_def zero_event_def zero_delta_def item_delta_def ow_mid_def Let_def
          del: upt_Suc)
next
  case (OArgs k s)
  let ?st = "st\<lparr>owSent := Suc (owSent st)\<rparr>"
  show ?thesis using assms
    by (intro exI[of _ "clock (owSent st)"] exI[of _ st] exI[of _ ?st])
       (simp add: OArgs ow_event_def delta_ev_def input_d_def zero_event_def zero_delta_def item_delta_def ow_mid_def Let_def map_of_slots)
qed

text \<open>The parser on that chunk: the item's events.\<close>

lemma oc_loop_chunk:
  assumes "codec_ok m un [w]" "un ''[DONE]'' = None" "dec_chunk (snd w) zero_chunk = Some c" "wkError c = None"
    and "emits (chunk_steps c) st = (st1, out)"
  shows "oc_loop un rt (sse_of m [w] @ raws) fin st = map Inl out @ oc_loop un rt raws fin st1"
proof -
  have "m (snd w) \<noteq> ''[DONE]''" using assms(1,2) by (auto simp: codec_ok_def)
  then show ?thesis using assms by (cases w) (simp add: codec_ok_def sse_of_def)
qed

lemma oc_mid_open: "oc_mid b st \<Longrightarrow> IsOpen (ocOpen st) i \<longleftrightarrow> i \<in> set (oc_keys b)"
proof -
  assume a: "oc_mid b st"
  then have "set (map fst (ocOpen st)) = set (oc_keys b)" by (cases b) (metis oc_mid.simps set_mset_mset)
  moreover have "distinct (oc_keys b)" using a by (cases b) (auto simp: distinct_map inj_on_def)
  then have "distinct (map fst (ocOpen st))" using a by (cases b) (metis oc_mid.simps mset_eq_imp_distinct_iff)
  ultimately have "IsOpen (ocOpen st) i \<longleftrightarrow> (i, True) \<in> set (ocOpen st)" "set (map fst (ocOpen st)) = set (oc_keys b)"
    by (simp_all add: IsOpen_def map_of_eq_Some_iff)
  moreover have "(i, True) \<in> set (ocOpen st) \<longleftrightarrow> i \<in> set (map fst (ocOpen st))"
    using a by (cases b) force
  ultimately show ?thesis by simp
qed

definition item_choice :: "oc_item \<Rightarrow> nat \<Rightarrow> oc_choice" where
  "item_choice x n = (case x of
     OText s \<Rightarrow> oc_zero_choice\<lparr>chContent := s\<rparr>
   | OThink s \<Rightarrow> oc_zero_choice\<lparr>chReasoning := s\<rparr>
   | OCall i nm \<Rightarrow> oc_zero_choice\<lparr>chToolCalls := [\<lparr>tcIndex = Some (int n), tcID = i, tcName = nm, tcArguments = ''''\<rparr>]\<rparr>
   | OArgs k s \<Rightarrow> oc_zero_choice\<lparr>chToolCalls := [\<lparr>tcIndex = Some (int k), tcID = '''', tcName = '''', tcArguments = s\<rparr>]\<rparr>)"

lemma int64_small: "n < 1000 \<Longrightarrow> int64 (int n)"
  by (simp add: int64_def int64_max_def)

lemma item_decoded:
  assumes "oc_item_ok x (tx, th, n)" "n \<le> 1000"
  shows "dec_chunk (snd (chunk (item_delta x n) JNull t st)) zero_chunk = Some (chunk_of st [item_choice x n])"
  using assms by (cases x)
    (simp_all add: item_delta_def item_choice_def dec_content dec_reasoning dec_open_call dec_more_args int64_small tool_d_def zero_delta_def)

lemma emits_one: "ocStarted st \<Longrightarrow> emits (chunk_steps (chunk_of cst [ch])) st = emits (choice_steps ch) st"
  by (simp add: chunk_steps_def oc_start_def oc_usage_def chunk_of_def split: prod.splits)

lemma quiet_steps [simp]: "oc_text '''' st = (st, [])" "oc_think '''' st = (st, [])" "oc_finish None st = (st, [])"
  by (simp_all add: oc_text_def oc_think_def oc_finish_def)

lemma item_steps:
  "emits (choice_steps (item_choice (OText s) n)) st = oc_text s st"
  "emits (choice_steps (item_choice (OThink s) n)) st = oc_think s st"
  "emits (choice_steps (item_choice (OCall i nm) n)) st = oc_tool \<lparr>tcIndex = Some (int n), tcID = i, tcName = nm, tcArguments = ''''\<rparr> st"
  "emits (choice_steps (item_choice (OArgs k s) n)) st = oc_tool \<lparr>tcIndex = Some (int k), tcID = '''', tcName = '''', tcArguments = s\<rparr> st"
  by (simp_all add: choice_steps_def item_choice_def oc_zero_choice_def split: prod.splits)

lemma mid_fresh:
  assumes "oc_mid b st" "i \<notin> set (oc_keys b)"
  shows "Open (ocOpen st) i = ocOpen st @ [(i, True)]"
proof -
  have "set (map fst (ocOpen st)) = set (oc_keys b)" using assms(1) by (cases b) (metis oc_mid.simps set_mset_mset)
  with assms(2) show ?thesis by (intro Open_fresh) simp
qed

lemma item_emits:
  assumes "oc_item_ok x (tx, th, n)" "oc_mid (tx, th, n) st"
  shows "\<exists>st1. emits (chunk_steps (chunk_of cst [item_choice x n])) st = (st1, oc_item_events x (tx, th, n)) \<and>
    oc_mid (oc_next x (tx, th, n)) st1"
proof -
  note op = oc_mid_open[OF assms(2)] and fresh = mid_fresh[OF assms(2)]
  have w: "wrap64 (1000 + int k) = 1000 + int k" if "k < 1000" for k
    using that by (intro wrap64_id) (auto simp: int64_max_def)
  have st: "ocStarted st" "n \<le> 1000" using assms(2) by simp_all
  show ?thesis
  proof (cases x)
    case (OText s)
    have f: "\<not> tx \<Longrightarrow> Open (ocOpen st) 0 = ocOpen st @ [(0, True)]" by (rule fresh) auto
    show ?thesis using OText assms f
      by (cases tx) (auto simp: emits_one[OF st(1)] item_steps oc_text_def)
  next
    case (OThink s)
    have f: "\<not> th \<Longrightarrow> Open (ocOpen st) 2000 = ocOpen st @ [(2000, True)]" using st(2) by (intro fresh) auto
    show ?thesis using OThink assms f
      by (cases th) (auto simp: emits_one[OF st(1)] item_steps oc_think_def reasoningBlockBase_def)
  next
    case (OCall i nm)
    then have "n < 1000" using assms(1) by simp
    then have f: "1000 + int n \<notin> set (oc_keys (tx, th, n))" by auto
    moreover have "\<not> IsOpen (ocOpen st) (1000 + int n)" using op f by blast
    moreover have "call_delta \<lparr>tcIndex = Some (int n), tcID = i, tcName = nm, tcArguments = ''''\<rparr> = tool_d i nm"
      by (simp add: call_delta_def tool_d_def zero_delta_def)
    ultimately have "\<exists>st1. oc_tool \<lparr>tcIndex = Some (int n), tcID = i, tcName = nm, tcArguments = ''''\<rparr> st =
        (st1, oc_item_events x (tx, th, n)) \<and> ocOpen st1 = ocOpen st @ [(1000 + int n, True)] \<and> ocStarted st1 = ocStarted st \<and>
        ocTextIdx st1 = ocTextIdx st \<and> ocReasoningIdx st1 = ocReasoningIdx st"
      using OCall fresh[OF f] \<open>n < 1000\<close>
      by (simp add: oc_tool_def call_index_def toolBlockBase_def w Let_def)
    then show ?thesis using OCall assms(2) \<open>n < 1000\<close>
      by (auto simp: emits_one[OF st(1)] item_steps)
  next
    case (OArgs k s)
    then have k: "k < n" using assms(1) by simp
    then have "IsOpen (ocOpen st) (1000 + int k)" using op[of "1000 + int k"] by auto
    then show ?thesis using OArgs assms k st(2)
      by (simp add: emits_one[OF st(1)] item_steps oc_tool_def call_index_def toolBlockBase_def w call_delta_def tool_d_def
          input_d_def zero_delta_def)
  qed
qed

lemma oc_body_run:
  assumes "oc_body_ok xs (tx, th, n)" "ow_mid mid model n st"
  shows "\<exists>ws st1. (\<forall>tail. ow_run clock (map Inl (oc_body xs (tx, th, n) @ tail)) st = ws @ ow_run clock (map Inl tail) st1) \<and>
    owID st1 = mid \<and> owModel st1 = model \<and>
    (codec_ok m un ws \<and> un ''[DONE]'' = None \<longrightarrow> (\<forall>pst raws fin. oc_mid (tx, th, n) pst \<longrightarrow>
       (\<exists>pst1. oc_mid (oc_after xs (tx, th, n)) pst1 \<and>
          oc_loop un rt (sse_of m ws @ raws) fin pst = map Inl (oc_body xs (tx, th, n)) @ oc_loop un rt raws fin pst1)))"
  using assms
proof (induction xs arbitrary: tx th n st)
  case Nil
  then show ?case by (intro exI[of _ "[]"] exI[of _ st]) (auto simp: ow_mid_def sse_of_def)
next
  case (Cons x xs)
  obtain tx1 th1 n1 where nx: "oc_next x (tx, th, n) = (tx1, th1, n1)" by (cases "oc_next x (tx, th, n)")
  have ok: "oc_item_ok x (tx, th, n)" "oc_body_ok xs (tx1, th1, n1)" using Cons.prems(1) by (simp_all add: nx)
  obtain t st1 st2 where w: "\<And>tail. ow_run clock (map Inl (oc_item_events x (tx, th, n) @ tail)) st =
      chunk (item_delta x n) JNull t st1 # ow_run clock (map Inl tail) st2" "ow_mid mid model n1 st2"
    using ow_item[OF Cons.prems(2) ok(1), of clock] by (auto simp: nx)
  let ?w = "chunk (item_delta x n) JNull t st1"
  obtain ws st3 where v: "\<And>tail. ow_run clock (map Inl (oc_body xs (tx1, th1, n1) @ tail)) st2 = ws @ ow_run clock (map Inl tail) st3"
    "owID st3 = mid" "owModel st3 = model"
    and p: "codec_ok m un ws \<Longrightarrow> un ''[DONE]'' = None \<Longrightarrow> oc_mid (tx1, th1, n1) pst \<Longrightarrow>
       \<exists>pst1. oc_mid (oc_after xs (tx1, th1, n1)) pst1 \<and>
          oc_loop un rt (sse_of m ws @ raws) fin pst = map Inl (oc_body xs (tx1, th1, n1)) @ oc_loop un rt raws fin pst1"
    for pst raws fin
    using Cons.IH[OF ok(2) w(2)] by blast
  have "\<exists>pst1. oc_mid (oc_after (x # xs) (tx, th, n)) pst1 \<and>
      oc_loop un rt (sse_of m (?w # ws) @ raws) fin pst = map Inl (oc_body (x # xs) (tx, th, n)) @ oc_loop un rt raws fin pst1"
    if k: "codec_ok m un (?w # ws)" and d: "un ''[DONE]'' = None" and q: "oc_mid (tx, th, n) pst" for pst raws fin
  proof -
    have k1: "codec_ok m un [?w]" "codec_ok m un ws" using k by (simp_all add: codec_ok_def)
    obtain pst0 where e: "emits (chunk_steps (chunk_of st1 [item_choice x n])) pst = (pst0, oc_item_events x (tx, th, n))"
      "oc_mid (tx1, th1, n1) pst0" using item_emits[OF ok(1) q] by (auto simp: nx)
    have "n \<le> 1000" using q by simp
    from oc_loop_chunk[OF k1(1) d item_decoded[OF ok(1) this, of t st1] _ e(1)] p[OF k1(2) d e(2), of raws fin]
    show ?thesis by (auto simp: chunk_of_def nx sse_of_def)
  qed
  moreover have "ow_run clock (map Inl (oc_body (x # xs) (tx, th, n) @ tail)) st = (?w # ws) @ ow_run clock (map Inl tail) st3" for tail
    using w(1)[of "oc_body xs (tx1, th1, n1) @ tail"] v(1)[of tail] by (simp add: nx)
  ultimately show ?case
    by (intro exI[of _ "?w # ws"] exI[of _ st3]) (use v(2,3) in blast)
qed

lemma oc_keys_sorted: "n \<le> 1000 \<Longrightarrow> sorted (oc_keys (tx, th, n))"
  by (auto simp: sorted_append sorted_map intro!: sorted_wrt_mono_rel[OF _ sorted_upt])

lemma finish_emits:
  assumes "oc_mid b st"
  shows "\<exists>st1. emits (chunk_steps (chunk_of cst [oc_zero_choice\<lparr>chFinish := Some s\<rparr>])) st =
      (st1, map block_stop (oc_keys b) @ [zero_event\<lparr>evType := EventMessageStop, evStopReason := oc_stopReason s\<rparr>]) \<and>
    ocOpen st1 = [] \<and> ocStarted st1"
proof -
  have st: "ocStarted st" using assms by (cases b) simp
  have "sort (map fst (ocOpen st)) = oc_keys b"
    using assms by (cases b) (metis oc_mid.simps oc_keys_sorted properties_for_sort)
  then show ?thesis
    by (simp add: emits_one[OF st] choice_steps_def oc_zero_choice_def oc_finish_def closeAll_eq st)
qed

lemma oc_writer_parser:
  assumes "oc_body_ok items (False, False, 0)" "mid \<noteq> ''''" "oc_usage_ok u" "stop \<in> {StopEndTurn, StopMaxTokens, StopToolUse, StopContentFilter}"
    and "codec_ok m un (ow_run clock (map Inl (oc_stream mid model items stop u)) ow_init)" "un ''[DONE]'' = None"
  shows "oc_loop un rt (sse_of m (ow_run clock (map Inl (oc_stream mid model items stop u)) ow_init) @
      [\<lparr>seType = '''', seData = ''[DONE]'', seID = '''', seRetry = ''''\<rparr>]) fin oc_init = map Inl (oc_stream mid model items stop u)"
proof -
  let ?keys = "oc_keys (oc_after items (False, False, 0))"
  let ?ms = "zero_event\<lparr>evType := EventMessageStart, evID := mid, evModel := model\<rparr>"
  let ?tail = "map block_stop ?keys @ [zero_event\<lparr>evType := EventMessageStop, evStopReason := stop\<rparr>, usage_event u []]"
  define st0 where "st0 = ow_init\<lparr>owID := mid, owModel := model\<rparr>"
  define st1 where "st1 = st0\<lparr>owSent := Suc 0\<rparr>"
  let ?w0 = "chunk (JObj [(''role'', JStr ''assistant'')]) JNull (clock 0) st0"
  have mid: "ow_mid mid model 0 st1" by (simp add: ow_mid_def st1_def st0_def ow_init_def)
  obtain ws st2 where b: "\<And>tail. ow_run clock (map Inl (oc_body items (False, False, 0) @ tail)) st1 = ws @ ow_run clock (map Inl tail) st2"
      "owID st2 = mid" "owModel st2 = model"
    and p: "codec_ok m un ws \<Longrightarrow> un ''[DONE]'' = None \<Longrightarrow> oc_mid (False, False, 0) pst \<Longrightarrow>
      \<exists>pst1. oc_mid (oc_after items (False, False, 0)) pst1 \<and>
        oc_loop un rt (sse_of m ws @ raws) fin pst = map Inl (oc_body items (False, False, 0)) @ oc_loop un rt raws fin pst1" for pst raws
    using oc_body_run[OF assms(1) mid, of clock m un rt] by blast
  have stops: "ow_run clock (map (Inl \<circ> block_stop) ks @ xs) st = ow_run clock xs st" for ks xs st
    by (induction ks) (simp_all add: ow_event_def block_stop_def zero_event_def)
  obtain t1 t2 st3 where tail: "ow_run clock (map Inl ?tail) st2 =
      [chunk (JObj []) (JStr (finishReason stop)) t1 st2, usage_chunk u t2 st3]"
    by (simp add: stops ow_event_def zero_event_def usage_event_def Let_def)
  let ?w1 = "chunk (JObj []) (JStr (finishReason stop)) t1 st2" and ?w2 = "usage_chunk u t2 st3"
  have ws: "ow_run clock (map Inl (oc_stream mid model items stop u)) ow_init = ?w0 # ws @ [?w1, ?w2]"
    using b(1)[of ?tail] tail
    by (simp add: oc_stream_def ow_event_def Let_def zero_event_def st0_def st1_def ow_init_def)
  have k: "codec_ok m un [?w0]" "codec_ok m un ws" "codec_ok m un [?w1]" "codec_ok m un [?w2]"
    using assms(5) by (simp_all add: ws codec_ok_def)
  let ?p0 = "oc_init\<lparr>ocStarted := True\<rparr>"
  have e0: "emits (chunk_steps (chunk_of st0 [oc_zero_choice\<lparr>chRole := ''assistant''\<rparr>])) oc_init = (?p0, [?ms])"
    using assms(2) by (simp add: chunk_steps_def choice_steps_def oc_start_def oc_usage_def chunk_of_def oc_zero_choice_def oc_init_def st0_def)
  have m0: "oc_mid (False, False, 0) ?p0" by (simp add: oc_init_def)
  let ?done = "[\<lparr>seType = '''', seData = ''[DONE]'', seID = '''', seRetry = ''''\<rparr>]"
  obtain p1 where p1: "oc_mid (oc_after items (False, False, 0)) p1"
    "oc_loop un rt (sse_of m ws @ sse_of m [?w1] @ sse_of m [?w2] @ ?done) fin ?p0 =
       map Inl (oc_body items (False, False, 0)) @ oc_loop un rt (sse_of m [?w1] @ sse_of m [?w2] @ ?done) fin p1"
    using p[OF k(2) assms(6) m0, of "sse_of m [?w1] @ sse_of m [?w2] @ ?done"] by blast
  have r: "oc_stopReason (finishReason stop) = stop" using assms(4) by (auto simp: oc_stopReason_def)
  obtain p2 where p2: "emits (chunk_steps (chunk_of st2 [oc_zero_choice\<lparr>chFinish := Some (finishReason stop)\<rparr>])) p1 =
      (p2, map block_stop ?keys @ [zero_event\<lparr>evType := EventMessageStop, evStopReason := stop\<rparr>])" "ocOpen p2 = []" "ocStarted p2"
    using finish_emits[OF p1(1), of st2 "finishReason stop"] r by auto
  obtain wu where wu: "dec_chunk (snd ?w2) zero_chunk = Some ((chunk_of st3 [])\<lparr>wkUsage := Some wu\<rparr>)" "oc_toIR wu = u"
    using dec_usage_chunk[OF assms(3)] by blast
  have e2: "emits (chunk_steps ((chunk_of st3 [])\<lparr>wkUsage := Some wu\<rparr>)) p2 = (p2, [usage_event u []])"
    using p2(3) wu(2) by (simp add: chunk_steps_def oc_start_def oc_usage_def chunk_of_def)
  have n: "wkError (chunk_of s cs) = None" "wkError ((chunk_of s cs)\<lparr>wkUsage := x\<rparr>) = None" for s cs x by (simp_all add: chunk_of_def)
  have last: "oc_loop un rt ?done fin p2 = []" using p2(2) by (simp add: closeAll_eq)
  have split: "sse_of m (?w0 # ws @ [?w1, ?w2]) @ ?done = sse_of m [?w0] @ sse_of m ws @ sse_of m [?w1] @ sse_of m [?w2] @ ?done"
    by (simp add: sse_of_def)
  show ?thesis
    unfolding ws split oc_loop_chunk[OF k(1) assms(6) dec_role n(1) e0] p1(2) oc_loop_chunk[OF k(3) assms(6) dec_finish n(1) p2(1)]
      oc_loop_chunk[OF k(4) assms(6) wu(1) n(2) e2] last
    by (simp add: oc_stream_def)
qed

lemma frames_no_object:
  assumes "fs \<noteq> []"
  shows "\<not> isUnaryBody (frames fs)"
proof -
  have "\<exists>t. Send e d = CHR ''e'' # t \<or> Send e d = CHR ''d'' # t" for e d
    using Split_nonempty[of LF d] by (cases "Split LF d") (auto simp: Send_def)
  then obtain t where "frames fs = CHR ''e'' # t \<or> frames fs = CHR ''d'' # t"
    using assms by (cases fs) (auto simp: frames_def, metis append_Cons)
  then show ?thesis by (auto simp: isUnaryBody_def CR_def LF_def)
qed

section \<open>The unary completion, there and back\<close>

definition wire_call :: "(json \<Rightarrow> string) \<Rightarrow> ToolUse \<Rightarrow> json" where
  "wire_call raw_text tu = JObj [(''function'', JObj [(''arguments'', JStr (case tuInput tu of None \<Rightarrow> '''' | Some j \<Rightarrow> raw_text j)),
     (''name'', JStr (tuName tu))]), (''id'', JStr (tuID tu)), (''type'', JStr ''function'')]"

definition use_block_of :: "ToolUse \<Rightarrow> ContentBlock" where
  "use_block_of tu = ContentBlock BlockToolUse '''' None None (Some tu) None None []"

text \<open>A call whose input is a message the two readings agree on.\<close>

definition raw_input :: "(json \<Rightarrow> string) \<Rightarrow> (string \<Rightarrow> json) \<Rightarrow> ToolUse \<Rightarrow> bool" where
  "raw_input raw_text raw_of tu = (tuSignature tu = '''' \<and>
     (case tuInput tu of None \<Rightarrow> False | Some j \<Rightarrow> TrimSpace (raw_text j) \<noteq> '''' \<and> raw_of (raw_text j) = j))"

definition turn_content :: "string \<Rightarrow> string \<Rightarrow> ToolUse list \<Rightarrow> ContentBlock list" where
  "turn_content thought txt tus =
     (if thought \<noteq> '''' then [thought_block thought] else []) @ (if txt \<noteq> '''' then [text_block txt] else []) @ map use_block_of tus"

lemma blank_trim: "TrimSpace s \<noteq> '''' \<Longrightarrow> s \<noteq> ''''"
  by (auto simp: TrimSpace_def)

lemma fold_calls:
  "\<forall>tu \<in> set tus. raw_input raw_text raw_of tu \<Longrightarrow>
   fold (oa_fold_block raw_text) (map use_block_of tus) (t, r, cs) = (t, r, cs @ map (wire_call raw_text) tus)"
  by (induction tus arbitrary: cs)
     (auto simp: oa_fold_block_def use_block_of_def wire_call_def raw_input_def Let_def dest: blank_trim split: option.splits)

lemma fold_turn:
  assumes "\<forall>tu \<in> set tus. raw_input raw_text raw_of tu"
  shows "fold (oa_fold_block raw_text) (turn_content thought txt tus) ('''', '''', []) = (txt, thought, map (wire_call raw_text) tus)"
  using fold_calls[OF assms] by (simp add: turn_content_def) (simp add: oa_fold_block_def thought_block_def text_block_def)

lemma dec_calls:
  "dec_elems oc_zero_toolCall oc_dec_toolCall (map (wire_call raw_text) tus) [] =
   Some (map (\<lambda>tu. \<lparr>ouID = tuID tu, ouName = tuName tu,
     ouArguments = Some (JStr (case tuInput tu of None \<Rightarrow> '''' | Some j \<Rightarrow> raw_text j))\<rparr>) tus)"
  by (induction tus) (simp_all add: wire_call_def oc_dec_toolCall_def oc_zero_toolCall_def json_keys)

lemma call_block_back:
  "raw_input raw_text raw_of tu \<Longrightarrow> call_block raw_of \<lparr>ouID = tuID tu, ouName = tuName tu,
     ouArguments = Some (JStr (case tuInput tu of None \<Rightarrow> '''' | Some j \<Rightarrow> raw_text j))\<rparr> = use_block_of tu"
  by (auto simp: raw_input_def call_block_def use_block_of_def toolArguments_def split: option.splits intro!: ToolUse.equality)

lemma choice_content_turn:
  assumes "\<forall>tu \<in> set tus. raw_input raw_text raw_of tu"
  shows "choice_content raw_of \<lparr>omContent = Some (if txt \<noteq> '''' then JStr txt else JNull), omReasoningContent = thought, omReasoning = '''',
      omToolCalls = map (\<lambda>tu. \<lparr>ouID = tuID tu, ouName = tuName tu,
        ouArguments = Some (JStr (case tuInput tu of None \<Rightarrow> '''' | Some j \<Rightarrow> raw_text j))\<rparr>) tus, omFinish = f\<rparr> =
    turn_content thought txt tus"
  using assms by (auto simp: choice_content_def turn_content_def contentText_def call_block_back)

section \<open>A completion replayed\<close>

text \<open>What a completion says: its text, its reasoning, and its tool calls numbered from \<open>k\<close>.\<close>

definition tool_input :: "(json \<Rightarrow> string) \<Rightarrow> ToolUse \<Rightarrow> string" where
  "tool_input raw_text tu = (case tuInput tu of None \<Rightarrow> '''' | Some j \<Rightarrow> raw_text j)"

fun said :: "(json \<Rightarrow> string) \<Rightarrow> ContentBlock list \<Rightarrow> int \<Rightarrow> assembled \<Rightarrow> assembled" where
  "said raw_text [] k a = a"
| "said raw_text (b # bs) k a =
     (case (cbType b, cbThinking b, cbToolUse b) of
        (BlockText, _, _) \<Rightarrow> said raw_text bs k (a\<lparr>asText := asText a @ cbText b\<rparr>)
      | (BlockThinking, Some th, _) \<Rightarrow> said raw_text bs k (a\<lparr>asThinking := asThinking a @ thText th\<rparr>)
      | (BlockToolUse, _, Some tu) \<Rightarrow>
          said raw_text bs (k + 1) (a\<lparr>asCalls := asCalls a @ [(k, tuID tu, tuName tu, tool_input raw_text tu)]\<rparr>)
      | _ \<Rightarrow> said raw_text bs k a)"

lemma take_quiet: "evType ev \<notin> {EventBlockStart, EventContentDelta} \<Longrightarrow> ir_take ev a = a \<and> (tools_open_once (ev # evs) a \<longleftrightarrow> tools_open_once evs a)"
  by (auto simp: ir_take_def split: option.splits)

lemma take_text: "fold ir_take [start_ev 0 (text_d ''''), delta_ev 0 (text_d s), block_stop 0] a = a\<lparr>asText := asText a @ s\<rparr> \<and>
    (tools_open_once (start_ev 0 (text_d '''') # delta_ev 0 (text_d s) # block_stop 0 # evs) a \<longleftrightarrow>
     tools_open_once evs (a\<lparr>asText := asText a @ s\<rparr>))"
  by (simp add: ir_take_def start_ev_def delta_ev_def block_stop_def text_d_def zero_event_def zero_delta_def)

lemma take_think: "fold ir_take [start_ev i (thinking_d ''''), delta_ev i (thinking_d s), block_stop i] a = a\<lparr>asThinking := asThinking a @ s\<rparr> \<and>
    (tools_open_once (start_ev i (thinking_d '''') # delta_ev i (thinking_d s) # block_stop i # evs) a \<longleftrightarrow>
     tools_open_once evs (a\<lparr>asThinking := asThinking a @ s\<rparr>))"
  by (simp add: ir_take_def start_ev_def delta_ev_def block_stop_def thinking_d_def zero_event_def zero_delta_def)

lemma take_call:
  assumes "i \<notin> fst ` set (asCalls a)"
  shows "fold ir_take [start_ev i (tool_d x y), delta_ev i ((tool_d x y)\<lparr>dToolInput := s\<rparr>), block_stop i] a =
      a\<lparr>asCalls := asCalls a @ [(i, x, y, s)]\<rparr> \<and>
    (tools_open_once (start_ev i (tool_d x y) # delta_ev i ((tool_d x y)\<lparr>dToolInput := s\<rparr>) # block_stop i # evs) a \<longleftrightarrow>
     tools_open_once evs (a\<lparr>asCalls := asCalls a @ [(i, x, y, s)]\<rparr>))"
  using assms add_call_twice[of i x y s x y "''''" "asCalls a"]
  by (simp add: ir_take_def start_ev_def delta_ev_def block_stop_def tool_d_def zero_event_def zero_delta_def add_call_new)

lemma block_said:
  assumes "\<forall>c \<in> set (asCalls a). fst c < toolBlockBase + k" "replay_block rt b k = (k1, out)"
  shows "\<exists>a1. fold ir_take out a = a1 \<and> (\<forall>evs. tools_open_once (out @ evs) a \<longleftrightarrow> tools_open_once evs a1) \<and>
    said rt (b # bs) (toolBlockBase + k) a = said rt bs (toolBlockBase + k1) a1 \<and> (\<forall>c \<in> set (asCalls a1). fst c < toolBlockBase + k1)"
proof -
  consider (quiet) "k1 = k" "out = []" "said rt (b # bs) (toolBlockBase + k) a = said rt bs (toolBlockBase + k) a"
    | (plain) "cbType b = BlockText" | (think) th where "cbType b = BlockThinking" "cbThinking b = Some th"
    | (tool) tu where "cbType b = BlockToolUse" "cbToolUse b = Some tu"
    using assms(2) by (cases "cbType b") (auto simp: replay_block_def split: option.splits)
  then show ?thesis
  proof cases
    case quiet
    then show ?thesis using assms(1) by simp
  next
    case plain
    then have o: "k1 = k" "out = [start_ev 0 (text_d ''''), delta_ev 0 (text_d (cbText b)), block_stop 0]"
      using assms(2) by (simp_all add: replay_block_def Let_def)
    show ?thesis unfolding o using take_text[of "cbText b" a] assms(1) plain by (simp add: del: fold_simps tools_open_once.simps)
  next
    case think
    then have o: "k1 = k" "out = [start_ev reasoningBlockBase (thinking_d ''''), delta_ev reasoningBlockBase (thinking_d (thText th)),
        block_stop reasoningBlockBase]"
      using assms(2) by (simp_all add: replay_block_def Let_def)
    show ?thesis unfolding o using take_think[of reasoningBlockBase "thText th" a] assms(1) think
      by (simp add: del: fold_simps tools_open_once.simps)
  next
    case tool
    let ?i = "toolBlockBase + k" and ?d = "tool_d (tuID tu) (tuName tu)"
    have o: "k1 = k + 1" "out = [start_ev ?i ?d, delta_ev ?i (?d\<lparr>dToolInput := tool_input rt tu\<rparr>), block_stop ?i]"
      using assms(2) tool by (simp_all add: replay_block_def Let_def tool_input_def)
    have "?i \<notin> fst ` set (asCalls a)" using assms(1) by auto
    from take_call[OF this, of "tuID tu" "tuName tu" "tool_input rt tu"] show ?thesis unfolding o
      using assms(1) tool by (auto simp: algebra_simps simp del: fold_simps tools_open_once.simps)
  qed
qed

lemma replay_said:
  assumes "\<forall>c \<in> set (asCalls a). fst c < toolBlockBase + k"
  shows "fold ir_take (snd (emits (map (replay_block raw_text) bs) k)) a = said raw_text bs (toolBlockBase + k) a \<and>
    (tools_open_once (snd (emits (map (replay_block raw_text) bs) k) @ evs) a \<longleftrightarrow>
     tools_open_once evs (said raw_text bs (toolBlockBase + k) a))"
  using assms
proof (induction bs arbitrary: k a)
  case (Cons b bs)
  obtain k1 out where b: "replay_block raw_text b k = (k1, out)" by fastforce
  obtain k2 out2 where bs: "emits (map (replay_block raw_text) bs) k1 = (k2, out2)" by fastforce
  from block_said[OF Cons.prems b] obtain a1 where a1: "fold ir_take out a = a1"
    "\<And>evs. tools_open_once (out @ evs) a \<longleftrightarrow> tools_open_once evs a1"
    "said raw_text (b # bs) (toolBlockBase + k) a = said raw_text bs (toolBlockBase + k1) a1"
    "\<forall>c \<in> set (asCalls a1). fst c < toolBlockBase + k1" by blast
  show ?case using Cons.IH[OF a1(4)] a1(1-3) by (simp add: b bs del: said.simps)
qed simp

lemma numbered_upd:
  "numbered (a\<lparr>asText := s\<rparr>) = (numbered a)\<lparr>asText := s\<rparr>" "numbered (a\<lparr>asThinking := s\<rparr>) = (numbered a)\<lparr>asThinking := s\<rparr>"
  "numbered (a\<lparr>asCalls := asCalls a @ [(i, r)]\<rparr>) = (numbered a)\<lparr>asCalls := asCalls (numbered a) @ [(int (length (asCalls a)), r)]\<rparr>"
  "asText (numbered a) = asText a" "asThinking (numbered a) = asThinking a"
  by (simp_all add: numbered_def number_snoc)

lemma numbered_said:
  "k = int (length (asCalls a)) \<Longrightarrow> numbered (said rt bs i a) = said rt bs k (numbered a)"
proof (induction bs arbitrary: a i k)
  case (Cons b bs)
  then show ?case
    by (auto simp: numbered_upd add.commute[of 1] split: BlockType.splits option.splits)
qed simp

lemma replay_client:
  "fold client_chunk (ow_run clock (map Inl (replay_events raw_text resp)) ow_init) nothing_yet =
   said raw_text (rspContent resp) 0 nothing_yet"
proof -
  let ?ms = "zero_event\<lparr>evType := EventMessageStart, evID := rspID resp, evModel := rspModel resp, evWarnings := rspWarnings resp\<rparr>"
  let ?tail = "[usage_event (rspUsage resp) [], zero_event\<lparr>evType := EventMessageStop, evStopReason := rspStopReason resp\<rparr>]"
  have q: "ir_take ?ms a = a" "tools_open_once (?ms # evs) a \<longleftrightarrow> tools_open_once evs a" "fold ir_take ?tail a = a"
    "tools_open_once ?tail a" for a evs
    by (simp_all add: ir_take_def zero_event_def usage_event_def)
  have b: "\<forall>c \<in> set (asCalls nothing_yet). fst c < toolBlockBase + 0" by (simp add: nothing_yet_def)
  note said = replay_said[OF b, of raw_text "rspContent resp"]
  have f: "fold ir_take (replay_events raw_text resp) nothing_yet = said raw_text (rspContent resp) toolBlockBase nothing_yet"
    using said q(1,3) by (simp add: replay_events_def)
  have "tools_open_once (replay_events raw_text resp) nothing_yet"
    using said q(2,4) by (simp add: replay_events_def)
  then have "fold client_chunk (ow_run clock (map Inl (replay_events raw_text resp)) ow_init) (numbered nothing_yet) =
      numbered (fold ir_take (replay_events raw_text resp) nothing_yet)"
    by (intro ow_run_follows) (simp_all add: ow_init_def slots_def nothing_yet_def)
  moreover have "numbered nothing_yet = nothing_yet" by (simp add: numbered_def nothing_yet_def number_def)
  moreover have "numbered (said raw_text (rspContent resp) toolBlockBase nothing_yet) =
      said raw_text (rspContent resp) 0 (numbered nothing_yet)"
    by (rule numbered_said) (simp add: nothing_yet_def)
  ultimately show ?thesis by (simp add: f)
qed

section \<open>Properties\<close>

text \<open>Whatever an OpenAI-compatible upstream sends, as an event stream or as one completion, the canonical events are
  well nested (one message start first, blocks opened once and closed, deltas only inside an open block of their own
  kind, no block open at a message stop or at the end, nothing after an error), as long as the tool calls stay
  below number 1000, the distance between the block numbers of tool calls and of reasoning.\<close>

theorem openai_stream_nested:
  assumes "tools_in_range (lefts (oc_ParseStream un raw_text raw_of decode_err body whole raws fin))"
  shows "nested (False, []) (oc_ParseStream un raw_text raw_of decode_err body whole raws fin)"
proof (cases "isUnaryBody body")
  case True
  then show ?thesis using nested_append[OF replay_events_nested, of _ _ "[]"]
    by (simp add: oc_ParseStream_def replayResponse_def split: sum.splits)
next
  case False
  moreover have "oc_abs oc_init = (False, [])" by (simp add: oc_abs_def oc_init_def)
  ultimately show ?thesis using loop_nested[of oc_init un raw_text raws fin] assms by (simp add: oc_ParseStream_def)
qed
text \<open>C10. OpenAI through OpenAI, byte for byte. A turn of text, reasoning, tool calls and their argument fragments, as an
  OpenAI-compatible upstream streams it, written to a client by the OpenAI writer and read back by the SSE reader and
  the OpenAI parser, gives exactly the same canonical events: the blocks, their indices, the stop reason, the usage.
  The JSON printer and reader have to agree on the bodies written, DONE must be no JSON value, and no line may outgrow
  the reader's cap.\<close>

theorem openai_round_trip:
  assumes "oc_body_ok items (False, False, 0)" "mid \<noteq> ''''" "oc_usage_ok u"
    and "stop \<in> {StopEndTurn, StopMaxTokens, StopToolUse, StopContentFilter}"
    and "evs = oc_stream mid model items stop u" "ws = ow_run clock (map Inl evs) ow_init"
    and "codec_ok marshal unmarshal ws" "unmarshal ''[DONE]'' = None" "lines_fit marshal mx ws" "13 \<le> mx"
  shows "case read_all mx (scan_lines (wire_text marshal ws @ SendDone)) of (raws, fin) \<Rightarrow> fin = EOF \<and>
    oc_ParseStream unmarshal raw_text raw_of decode_err (wire_text marshal ws @ SendDone) whole raws None = map Inl evs"
proof -
  let ?fs = "map (\<lambda>(name, body). (name, marshal body)) ws @ [('''', ''[DONE]'')]"
  have "\<forall>f \<in> set ?fs. frame_ok f \<and> length (fst f) + 8 \<le> mx \<and> length (snd f) + 7 \<le> mx"
    using assms(9,10) by (auto simp: lines_fit_def list_all_iff frame_ok_def plain_line_def CR_def split: prod.splits)
  from read_frames[OF this] have r: "read_all mx (scan_lines (wire_text marshal ws @ SendDone)) =
      (sse_of marshal ws @ [\<lparr>seType = '''', seData = ''[DONE]'', seID = '''', seRetry = ''''\<rparr>], EOF)"
    by (simp add: wire_text_def frames_def SendDone_def sse_of_def case_prod_unfold comp_def)
  have "wire_text marshal ws @ SendDone = frames ?fs" by (simp add: wire_text_def frames_def SendDone_def)
  then have "\<not> isUnaryBody (wire_text marshal ws @ SendDone)" using frames_no_object[of ?fs] by simp
  then show ?thesis
    using oc_writer_parser[OF assms(1-4), of marshal unmarshal clock model raw_text None] assms(5-8)
    unfolding r by (simp add: oc_ParseStream_def)
qed
text \<open>A response written as an OpenAI completion and parsed by the OpenAI-compatible adapter is the same response:
  its reasoning, text and tool calls, its stop reason and its usage.\<close>

theorem openai_response_round_trip:
  assumes "rspContent r = turn_content thought txt tus" "\<forall>tu \<in> set tus. raw_input raw_text raw_of tu"
    and "oc_usage_ok (rspUsage r)" "rspStopReason r \<in> {StopEndTurn, StopMaxTokens, StopToolUse, StopContentFilter}"
    and "rspWarnings r = []" "rspExtra r = []"
  shows "decodeResponse raw_text raw_of decode_err (Inr (oa_WriteResponse raw_text created r)) = Inr r"
proof -
  obtain w where w: "oc_dec_usage (oa_usageBody (rspUsage r)) oc_zero_usage = Some w" "oc_toIR w = rspUsage r"
    using oc_usage_round_trip[OF assms(3)] by blast
  let ?m = "\<lparr>omContent = Some (if txt \<noteq> '''' then JStr txt else JNull), omReasoningContent = thought, omReasoning = '''',
      omToolCalls = map (\<lambda>tu. \<lparr>ouID = tuID tu, ouName = tuName tu,
        ouArguments = Some (JStr (case tuInput tu of None \<Rightarrow> '''' | Some j \<Rightarrow> raw_text j))\<rparr>) tus,
      omFinish = finishReason (rspStopReason r)\<rparr>"
  have "oc_dec_completion (oa_WriteResponse raw_text created r) oc_zero_completion =
      Some \<lparr>orID = rspID r, orModel = rspModel r, orChoices = [?m], orUsage = w, orError = None\<rparr>"
    using w(1) fold_turn[OF assms(2), of thought "txt"]
    by (auto simp: oa_WriteResponse_def assms(1) oc_dec_completion_def oc_zero_completion_def json_keys Let_def
        oc_dec_unary_choice_def oc_zero_message_def oc_dec_message_def dec_calls)
  moreover have "oc_stopReason (finishReason (rspStopReason r)) = rspStopReason r" using assms(4) by (auto simp: oc_stopReason_def)
  ultimately show ?thesis
    using w(2) assms(1,5,6) choice_content_turn[OF assms(2), of "txt" thought] by (simp add: decodeResponse_def)
qed

definition demo_oc_response :: IRResponse where
  "demo_oc_response = \<lparr>rspID = ''c1'', rspModel = ''gpt'', rspContent = turn_content ''why'' ''hi'' [\<lparr>tuID = ''t1'', tuName = ''look'',
      tuInput = Some (JObj []), tuSignature = ''''\<rparr>], rspStopReason = StopToolUse, rspUsage = zero_usage, rspWarnings = [], rspExtra = []\<rparr>"

theorem openai_response_round_trip_witness:
  "decodeResponse (\<lambda>_. ''{}'') (\<lambda>_. JObj []) (plain_error '''') (Inr (oa_WriteResponse (\<lambda>_. ''{}'') 0 demo_oc_response)) = Inr demo_oc_response"
  by (rule openai_response_round_trip[of _ "''why''" "''hi''" "[\<lparr>tuID = ''t1'', tuName = ''look'', tuInput = Some (JObj []), tuSignature = ''''\<rparr>]"])
     (simp_all add: demo_oc_response_def raw_input_def TrimSpace_def is_space_def oc_usage_ok_def zero_usage_def int64_def int64_max_def)

text \<open>A completion that answers a streaming request is not lost on the way: when the body is one JSON object that decodes
  to a response, the parser yields it as a stream without an error, and a client that accumulates the chunks the OpenAI
  writer makes of it has exactly what the completion said: its text, its reasoning, and each of its tool calls under
  its own number with its whole arguments.\<close>

theorem openai_replay_complete:
  assumes "isUnaryBody body" "decodeResponse raw_text raw_of decode_err whole = Inr resp"
  shows "\<exists>evs. oc_ParseStream unmarshal raw_text raw_of decode_err body whole raws fin = map Inl evs \<and>
    fold client_chunk (ow_run clock (map Inl evs) ow_init) nothing_yet = said raw_text (rspContent resp) 0 nothing_yet"
  using assms replay_client[of clock raw_text resp] by (auto simp: oc_ParseStream_def replayResponse_def)

theorem openai_replay_complete_witness:
  "\<exists>evs. oc_ParseStream (\<lambda>_. None) (\<lambda>_. ''{}'') (\<lambda>_. JObj []) (plain_error '''') ''{}''
      (Inr (oa_WriteResponse (\<lambda>_. ''{}'') 0 demo_oc_response)) [] None = map Inl evs \<and>
    fold client_chunk (ow_run int (map Inl evs) ow_init) nothing_yet =
      \<lparr>asText = ''hi'', asThinking = ''why'', asCalls = [(0, ''t1'', ''look'', ''{}'')]\<rparr>"
proof -
  have u: "isUnaryBody ''{}''" by code_simp
  have d: "decodeResponse (\<lambda>_. ''{}'') (\<lambda>_. JObj []) (plain_error '''') (Inr (oa_WriteResponse (\<lambda>_. ''{}'') 0 demo_oc_response)) = Inr demo_oc_response"
    by code_simp
  have s: "said (\<lambda>_. ''{}'') (rspContent demo_oc_response) 0 nothing_yet =
      \<lparr>asText = ''hi'', asThinking = ''why'', asCalls = [(0, ''t1'', ''look'', ''{}'')]\<rparr>"
    by (simp add: demo_oc_response_def turn_content_def thought_block_def text_block_def use_block_of_def nothing_yet_def tool_input_def)
  from openai_replay_complete[OF u d, of "\<lambda>_. None" "[]" None int] show ?thesis unfolding s .
qed

definition demo_items :: "oc_item list" where
  "demo_items = [OThink ''why'', OText ''hi'', OCall ''t1'' ''look'', OCall ''t2'' ''find'', OArgs 1 ''{'', OArgs 0 ''{}'', OArgs 1 ''}'']"

definition demo_oc_usage :: Usage where
  "demo_oc_usage = zero_usage\<lparr>InputTokens := 5, CacheReadTokens := 2, OutputTokens := 3\<rparr>"

definition demo_oc_wires :: "wire list" where
  "demo_oc_wires = ow_run int (map Inl (oc_stream ''c1'' ''gpt'' demo_items StopToolUse demo_oc_usage)) ow_init"

lemma demo_oc_wire_names: "list_all (\<lambda>w. plain_line (fst w) \<and> length (fst w) \<le> 50) demo_oc_wires \<and> length demo_oc_wires \<le> 50"
  by code_simp

theorem openai_round_trip_witness:
  "case read_all 100 (scan_lines (wire_text (table_marshal (map snd demo_oc_wires)) demo_oc_wires @ SendDone)) of (raws, fin) \<Rightarrow>
     fin = EOF \<and>
     oc_ParseStream (table_unmarshal (map snd demo_oc_wires)) (\<lambda>_. '''') (\<lambda>_. JNull) (plain_error '''')
       (wire_text (table_marshal (map snd demo_oc_wires)) demo_oc_wires @ SendDone) (Inr JNull) raws None =
       map Inl (oc_stream ''c1'' ''gpt'' demo_items StopToolUse demo_oc_usage)"
proof (rule openai_round_trip[OF _ _ _ _ refl demo_oc_wires_def])
  let ?bs = "map snd demo_oc_wires"
  let ?m = "table_marshal ?bs"
  have "plain_line (?m j)" for j
    using table_marshal_short[of ?bs j] by (auto simp: plain_line_def LF_def CR_def)
  moreover have "length (?m j) + 7 \<le> 100" for j
    using table_marshal_short[of ?bs j] demo_oc_wire_names by auto
  ultimately show "lines_fit ?m 100 demo_oc_wires"
    using demo_oc_wire_names by (auto simp: lines_fit_def frame_ok_def plain_line_def list_all_iff)
  show "codec_ok ?m (table_unmarshal ?bs) demo_oc_wires"
    using table_codec[of _ ?bs] by (auto simp: codec_ok_def list_all_iff)
  show "table_unmarshal ?bs ''[DONE]'' = None" by (simp add: table_unmarshal_def)
qed (simp_all add: demo_items_def demo_oc_usage_def oc_usage_ok_def int64_def int64_max_def zero_usage_def)

theorem openai_stream_nested_witness:
  "nested (False, []) (oc_ParseStream (table_unmarshal (map snd demo_oc_wires)) (\<lambda>_. '''') (\<lambda>_. JNull) (plain_error '''') ''data''
     (Inr JNull) (sse_of (table_marshal (map snd demo_oc_wires)) demo_oc_wires) None)"
  by (rule openai_stream_nested) code_simp

section \<open>Colliding block numbers\<close>

text \<open>A tool call that the upstream numbers 1000 gets the block of the reasoning: its arguments are reported as a delta of an
  open thinking block, and no block is ever started for the call.\<close>

lemma call_1000_is_reasoning:
  "snd (emits (chunk_steps (chunk_of ow_init
      [oc_zero_choice\<lparr>chReasoning := ''why'', chToolCalls := [\<lparr>tcIndex = Some 1000, tcID = ''t'', tcName = ''f'', tcArguments = ''{}''\<rparr>]\<rparr>]))
      (oc_init\<lparr>ocStarted := True\<rparr>)) =
   [start_ev 2000 (thinking_d ''''), delta_ev 2000 (thinking_d ''why''),
    delta_ev 2000 ((tool_d ''t'' ''f'')\<lparr>dToolInput := ''{}''\<rparr>)]"
  by code_simp
end
