(* ===== verification/Xlate.thy ===== *)
theory Xlate
  imports Dialect Health
begin

text \<open>
  The conversions every outbound adapter shares, \<^verbatim>\<open>internal/adapter/xlate\<close>: where system content is collected, the output cap
  a target demands, the banding of reasoning effort and token budget, and the conversion of a schema in Gemini's
  OpenAPI subset into JSON Schema. Also what the renderers build on: a JSON object under construction is an
  association list, printed in the order of its keys. A number that passes through Go's \<^verbatim>\<open>any\<close> becomes a \<^verbatim>\<open>float64\<close> and is
  printed as such: \<open>refloat\<close>, an argument.
\<close>

section \<open>Warnings and objects\<close>

definition warn :: "string \<Rightarrow> string \<Rightarrow> string \<Rightarrow> Warning" where
  "warn target fld reason = \<lparr>wField = fld, wTarget = target, wReason = reason\<rparr>"

type_synonym members = "(string, json) gomap"

definition put :: "string \<Rightarrow> json \<Rightarrow> members \<Rightarrow> members" where
  "put k v m = AList.update k v m"

text \<open>\<^verbatim>\<open>BlockType\<close> printed: \<^verbatim>\<open>string(b.Type)\<close> is \<open>BlockType_string\<close>. An empty string slice prints as \<^verbatim>\<open>null\<close> when it is nil;
  the renderers only put a slice they found non-empty.\<close>

definition jstrings :: "string list \<Rightarrow> json" where
  "jstrings ss = JArr (map JStr ss)"

section \<open>System content\<close>

text \<open>One source of system content: its text blocks, and a warning for each block that is not text.\<close>

definition system_group :: "string \<Rightarrow> string \<Rightarrow> ContentBlock list \<Rightarrow> ContentBlock list \<times> Warning list" where
  "system_group target fld blocks =
     (filter (\<lambda>b. cbType b = BlockText) blocks,
      map (\<lambda>b. warn target (fld @ ''.'' @ BlockType_string (cbType b)) ''system content accepts text only'')
        (filter (\<lambda>b. cbType b \<noteq> BlockText) blocks))"

fun system_messages :: "string \<Rightarrow> Message list \<Rightarrow> bool \<Rightarrow> ContentBlock list list \<times> Warning list \<times> bool" where
  "system_messages target [] seenTurn = ([], [], False)"
| "system_messages target (m # ms) seenTurn =
     (if msgRole m \<noteq> RoleSystem then system_messages target ms True
      else
        case system_group target ''messages[].system'' (msgContent m) of (g, ws) \<Rightarrow>
        case system_messages target ms seenTurn of (gs, ws', misplaced) \<Rightarrow>
          ((if g \<noteq> [] then g # gs else gs), ws @ ws', seenTurn \<or> misplaced))"

definition systemSources :: "Request \<Rightarrow> string \<Rightarrow> ContentBlock list list \<times> Warning list" where
  "systemSources req target =
     (case system_group target ''system[]'' (reqSystem req) of (g, ws) \<Rightarrow>
      case system_messages target (reqMessages req) False of (gs, ws', misplaced) \<Rightarrow>
        ((if g \<noteq> [] then g # gs else gs),
         ws @ ws' @ (if misplaced
           then [warn target ''messages[].role=system'' ''a system message after a conversation turn was moved to the front'']
           else [])))"

definition CollectSystem :: "Request \<Rightarrow> string \<Rightarrow> string \<times> Warning list" where
  "CollectSystem req target =
     (case systemSources req target of (groups, warns) \<Rightarrow>
        (Join [LF, LF] (filter (\<lambda>t. t \<noteq> '''') (map (\<lambda>g. concat (map cbText g)) groups)), warns))"

definition CollectSystemBlocks :: "Request \<Rightarrow> string \<Rightarrow> ContentBlock list \<times> Warning list" where
  "CollectSystemBlocks req target = (case systemSources req target of (groups, warns) \<Rightarrow> (concat groups, warns))"

definition NonSystemMessages :: "Message list \<Rightarrow> Message list" where
  "NonSystemMessages msgs = filter (\<lambda>m. msgRole m \<noteq> RoleSystem) msgs"

section \<open>Parameters\<close>

definition DefaultMaxTokens :: int where "DefaultMaxTokens = 4096"
definition MaxCacheBreakpoints :: nat where "MaxCacheBreakpoints = 4"
definition budgetLow :: int where "budgetLow = 4096"
definition budgetMedium :: int where "budgetMedium = 16384"
definition budgetHigh :: int where "budgetHigh = 32768"

definition EffortBudget :: "string \<Rightarrow> int \<Rightarrow> int" where
  "EffortBudget effort maxOut =
     (let e = ToLower effort in
      if e \<notin> {''minimal'', ''low'', ''medium'', ''high'', ''xhigh'', ''max''} then 0
      else
        let b = (if e = ''minimal'' \<or> e = ''low'' then budgetLow else if e = ''medium'' then budgetMedium else budgetHigh)
        in if maxOut > 0 \<and> b > maxOut then maxOut else b)"

definition AnthropicEffort :: "string \<Rightarrow> string" where
  "AnthropicEffort effort = (let e = ToLower effort in if e = ''minimal'' then ''low'' else e)"

definition BudgetEffort :: "int \<Rightarrow> string" where
  "BudgetEffort budget =
     (if budget \<le> 0 then ''''
      else if budget < (budgetLow + budgetMedium) div 2 then ''low''
      else if budget < (budgetMedium + budgetHigh) div 2 then ''medium''
      else ''high'')"

definition RequiredMaxTokens :: "Request \<Rightarrow> string \<Rightarrow> int \<Rightarrow> int \<times> Warning list" where
  "RequiredMaxTokens req target catalogMax =
     (case reqMaxTokens req of
        Some asked \<Rightarrow>
          if asked > 0 then
            if catalogMax > 0 \<and> asked > catalogMax
            then (catalogMax, [warn target ''max_tokens'' (''above the model's maximum output; clamped to '' @ FormatInt catalogMax)])
            else (asked, [])
          else if catalogMax > 0
          then (catalogMax, [warn target ''max_tokens''
            (''required by the target and absent from the request; substituted the model's maximum, '' @ FormatInt catalogMax)])
          else (DefaultMaxTokens, [warn target ''max_tokens''
            (''required by the target and absent from the request, and the catalog does not know the model's maximum; substituted '' @
             FormatInt DefaultMaxTokens)])
      | None \<Rightarrow>
          if catalogMax > 0
          then (catalogMax, [warn target ''max_tokens''
            (''required by the target and absent from the request; substituted the model's maximum, '' @ FormatInt catalogMax)])
          else (DefaultMaxTokens, [warn target ''max_tokens''
            (''required by the target and absent from the request, and the catalog does not know the model's maximum; substituted '' @
             FormatInt DefaultMaxTokens)]))"

definition SyntheticToolCallID :: "nat \<Rightarrow> nat \<Rightarrow> string" where
  "SyntheticToolCallID turn call = ''call_'' @ Itoa turn @ ''_'' @ Itoa call"

lemma RequiredMaxTokens_pos: "0 < fst (RequiredMaxTokens req target cap)"
  by (auto simp: RequiredMaxTokens_def DefaultMaxTokens_def split: option.splits)

lemma RequiredMaxTokens_cap: "0 < cap \<Longrightarrow> fst (RequiredMaxTokens req target cap) \<le> cap"
  by (auto simp: RequiredMaxTokens_def split: option.splits)

section \<open>Schemas\<close>

definition openAPIOnlyFormats :: "string list" where
  "openAPIOnlyFormats = [''enum'', ''int32'', ''int64'', ''float'', ''double'']"

definition countKeywords :: "string list" where
  "countKeywords = [''minItems'', ''maxItems'', ''minLength'', ''maxLength'', ''minProperties'', ''maxProperties'']"

text \<open>The members of an object that was decoded into a Go map: the last of a key.\<close>

definition dedup :: "(string \<times> json) list \<Rightarrow> members" where
  "dedup ms = fold (\<lambda>(k, v). AList.update k v) ms []"

definition str_member :: "string \<Rightarrow> members \<Rightarrow> string option" where
  "str_member k m = (case map_of m k of Some (JStr s) \<Rightarrow> Some s | _ \<Rightarrow> None)"

text \<open>The rewriting of one object's own keywords, its subschemas not yet touched.\<close>

definition fix_type :: "members \<Rightarrow> members" where
  "fix_type s =
     (case str_member ''type'' s of
        None \<Rightarrow> s
      | Some t \<Rightarrow> if t = '''' \<or> t = ''TYPE_UNSPECIFIED'' then AList.delete ''type'' s else put ''type'' (JStr (ToLower t)) s)"

definition fix_format :: "members \<Rightarrow> members" where
  "fix_format s =
     (case str_member ''format'' s of Some f \<Rightarrow> if f \<in> set openAPIOnlyFormats then AList.delete ''format'' s else s | None \<Rightarrow> s)"

definition fix_count :: "string \<Rightarrow> members \<Rightarrow> members" where
  "fix_count k s =
     (case str_member k s of None \<Rightarrow> s | Some str \<Rightarrow> (case Atoi str of None \<Rightarrow> s | Some n \<Rightarrow> put k (JInt n) s))"

definition fix_ref :: "members \<Rightarrow> members" where
  "fix_ref s =
     (case str_member ''ref'' s of
        None \<Rightarrow> s
      | Some ref \<Rightarrow>
          put ''$ref'' (JStr (if HasPrefix ref ''#/defs/'' then ''#/$defs/'' @ drop 7 ref else ref)) (AList.delete ''ref'' s))"

definition fix_defs :: "members \<Rightarrow> members" where
  "fix_defs s = (case map_of s ''defs'' of None \<Rightarrow> s | Some d \<Rightarrow> put ''$defs'' d (AList.delete ''defs'' s))"

definition null_branch :: "members \<Rightarrow> members" where
  "null_branch s =
     (case map_of s ''anyOf'' of Some (JArr l) \<Rightarrow> put ''anyOf'' (JArr (l @ [JObj [(''type'', JStr ''null'')]])) s | _ \<Rightarrow> s)"

definition null_type :: "members \<Rightarrow> members" where
  "null_type s =
     (case map_of s ''type'' of
        Some (JStr t) \<Rightarrow> put ''type'' (JArr [JStr t, JStr ''null'']) s
      | None \<Rightarrow> null_branch s
      | Some JNull \<Rightarrow> null_branch s
      | _ \<Rightarrow> s)"

definition null_enum :: "members \<Rightarrow> members" where
  "null_enum s =
     (case map_of s ''enum'' of Some (JArr l) \<Rightarrow> if JNull \<notin> set l then put ''enum'' (JArr (l @ [JNull])) s else s | _ \<Rightarrow> s)"

definition fix_nullable :: "members \<Rightarrow> members" where
  "fix_nullable s = null_enum (null_type s)"

definition own_keywords :: "members \<Rightarrow> members" where
  "own_keywords s0 =
     fix_defs (fix_ref (fold fix_count countKeywords (fix_format (fix_type
       (AList.delete ''example'' (AList.delete ''propertyOrdering'' (AList.delete ''nullable'' s0)))))))"

lemma in_put: "(k, v) \<in> set (put k' j s) \<Longrightarrow> (k, v) = (k', j) \<or> k \<noteq> k' \<and> (k, v) \<in> set s \<or> (k, v) \<in> set s"
  unfolding put_def by (induction s) (auto split: if_splits)

lemma in_delete: "(k, v) \<in> set (AList.delete k' s) \<longleftrightarrow> k \<noteq> k' \<and> (k, v) \<in> set s"
  by (auto simp: AList.delete_eq)

definition schema_keys :: "string list" where
  "schema_keys = [''properties'', ''$defs'', ''items'', ''additionalProperties'', ''anyOf'']"

lemma in_fix_count: "(k, v) \<in> set (fold fix_count ks s) \<Longrightarrow> k \<notin> set ks \<Longrightarrow> (k, v) \<in> set s"
proof (induction ks arbitrary: s)
  case (Cons a ks)
  then have "(k, v) \<in> set (fix_count a s)" "k \<noteq> a" by auto
  then show ?case by (auto simp: fix_count_def split: option.splits dest!: in_put)
qed simp

lemma fix_ref_from: "(k, v) \<in> set (fix_ref s) \<Longrightarrow> k \<noteq> ''$ref'' \<Longrightarrow> (k, v) \<in> set s"
  by (auto simp: fix_ref_def in_delete split: option.splits dest!: in_put)

lemma fix_type_from: "(k, v) \<in> set (fix_type s) \<Longrightarrow> k \<noteq> ''type'' \<Longrightarrow> (k, v) \<in> set s"
  by (auto simp: fix_type_def in_delete split: option.splits if_splits dest!: in_put)

lemma fix_format_from: "(k, v) \<in> set (fix_format s) \<Longrightarrow> (k, v) \<in> set s"
  by (auto simp: fix_format_def in_delete split: option.splits if_splits)

lemma fix_defs_from: "(k, v) \<in> set (fix_defs s) \<Longrightarrow> (k, v) \<in> set s \<or> (''defs'', v) \<in> set s"
  by (auto simp: fix_defs_def in_delete split: option.splits dest!: in_put map_of_SomeD)

lemma own_keywords_from:
  assumes "(k, v) \<in> set (own_keywords ms)" "k \<in> set schema_keys"
  shows "v \<in> snd ` set ms"
proof -
  let ?s1 = "AList.delete ''example'' (AList.delete ''propertyOrdering'' (AList.delete ''nullable'' ms))"
  let ?s2 = "fold fix_count countKeywords (fix_format (fix_type ?s1))"
  have "(k, v) \<in> set (fix_ref ?s2) \<or> (''defs'', v) \<in> set (fix_ref ?s2)"
    using assms(1) unfolding own_keywords_def by (rule fix_defs_from)
  then obtain k' where k': "(k', v) \<in> set (fix_ref ?s2)" "k' \<in> set (''defs'' # schema_keys)" using assms(2) by auto
  then have ne: "k' \<noteq> ''$ref''" "k' \<noteq> ''type''" "k' \<notin> set countKeywords" by (auto simp: schema_keys_def countKeywords_def)
  have "(k', v) \<in> set ?s2" using fix_ref_from[OF k'(1) ne(1)] .
  then have "(k', v) \<in> set (fix_format (fix_type ?s1))" using in_fix_count ne(3) by blast
  then have "(k', v) \<in> set ?s1" using fix_format_from fix_type_from ne(2) by blast
  then have "(k', v) \<in> set ms" by (simp add: in_delete)
  then show ?thesis by force
qed

lemma size_member: "v \<in> snd ` set ms \<Longrightarrow> size v < size (JObj ms)"
proof (induction ms)
  case (Cons m ms)
  then show ?case by (cases m) force
qed simp

lemma size_element: "v \<in> set l \<Longrightarrow> size v < size (JArr l)"
proof (induction l)
  case (Cons a l)
  then show ?case by force
qed simp

function schema :: "bool \<Rightarrow> json \<Rightarrow> json" where
  "schema root (JObj ms) =
     (let nullable = (map_of ms ''nullable'' = Some (JBool True));
          s = map (\<lambda>(k, v).
                (k, if k = ''properties'' \<or> k = ''$defs'' then
                      (case v of JObj ps \<Rightarrow> JObj (map (\<lambda>(n, sub). (n, schema False sub)) ps) | _ \<Rightarrow> v)
                    else if k = ''items'' \<or> k = ''additionalProperties'' then schema False v
                    else if k = ''anyOf'' then (case v of JArr l \<Rightarrow> JArr (map (\<lambda>sub. schema False sub) l) | _ \<Rightarrow> v)
                    else v))
              (own_keywords ms)
      in JObj (if nullable \<and> \<not> root then fix_nullable s else s))"
| "schema root JNull = JNull"
| "schema root (JBool b) = JBool b"
| "schema root (JInt n) = JInt n"
| "schema root (JNumber l) = JNumber l"
| "schema root (JStr s) = JStr s"
| "schema root (JArr l) = JArr l"
  by pat_completeness auto
termination
proof (relation "measure (\<lambda>(root, j). size j)", goal_cases)
  case 1
  then show ?case by simp
next
  case (2 root ms nullable kv k v ps e n sub)
  from 2(2,3,5) have m: "(k, JObj ps) \<in> set (own_keywords ms)" by simp
  from 2(4) have "k \<in> set schema_keys" unfolding schema_keys_def by force
  from size_member[OF own_keywords_from[OF m this]] have "size (JObj ps) < size (JObj ms)" .
  moreover from 2(6,7) have "sub \<in> snd ` set ps" by force
  note size_member[OF this]
  ultimately show ?case by simp
next
  case (3 root ms nullable kv k v)
  from 3(2,3) have m: "(k, v) \<in> set (own_keywords ms)" by simp
  from 3(5) have "k \<in> set schema_keys" unfolding schema_keys_def by force
  from size_member[OF own_keywords_from[OF m this]] show ?case by simp
next
  case (4 root ms nullable kv k v l sub)
  from 4(2,3,6,7) have m: "(''anyOf'', JArr l) \<in> set (own_keywords ms)" by simp
  have "''anyOf'' \<in> set schema_keys" unfolding schema_keys_def by simp
  from size_member[OF own_keywords_from[OF m this]] have "size (JArr l) < size (JObj ms)" .
  moreover from 4(8) have "size sub < size (JArr l)" by (rule size_element)
  ultimately show ?case by simp
qed

text \<open>Reading a schema into Go's \<^verbatim>\<open>any\<close>: the members of an object become a map, a number a \<^verbatim>\<open>float64\<close>, which fails for one
  out of its range. Printing sorts the keys of every object.\<close>

fun any_value :: "(json \<Rightarrow> json option) \<Rightarrow> json \<Rightarrow> json option" where
  "any_value refloat (JObj ms) =
     map_option (\<lambda>vs. JObj (dedup (zip (map fst ms) vs))) (those (map (\<lambda>(k, v). any_value refloat v) ms))"
| "any_value refloat (JArr l) = map_option JArr (those (map (any_value refloat) l))"
| "any_value refloat (JInt n) = refloat (JInt n)"
| "any_value refloat (JNumber l) = refloat (JNumber l)"
| "any_value refloat j = Some j"

fun sort_keys :: "json \<Rightarrow> json" where
  "sort_keys (JObj ms) = JObj (sort_key fst (map (\<lambda>(k, v). (k, sort_keys v)) ms))"
| "sort_keys (JArr l) = JArr (map sort_keys l)"
| "sort_keys j = j"

text \<open>A schema in the OpenAPI subset is marked as such; any other is JSON Schema and stays as it is.\<close>

definition SchemaOpenAPI :: string where "SchemaOpenAPI = ''openapi''"

definition JSONSchema :: "(json \<Rightarrow> json option) \<Rightarrow> json option \<Rightarrow> string \<Rightarrow> json option" where
  "JSONSchema refloat sch dialect =
     (if dialect \<noteq> SchemaOpenAPI then sch
      else case sch of
        None \<Rightarrow> None
      | Some raw \<Rightarrow> (case any_value refloat raw of None \<Rightarrow> Some raw | Some v \<Rightarrow> Some (sort_keys (schema True v))))"

section \<open>What the conversion leaves\<close>

definition own_clean :: "members \<Rightarrow> bool" where
  "own_clean ms =
     ((\<forall>k \<in> {''nullable'', ''propertyOrdering'', ''example'', ''defs''}. map_of ms k = None) \<and>
      str_member ''ref'' ms = None \<and>
      (case str_member ''type'' ms of Some t \<Rightarrow> t \<noteq> '''' \<and> ToLower t = t | None \<Rightarrow> True) \<and>
      (case str_member ''format'' ms of Some f \<Rightarrow> f \<notin> set openAPIOnlyFormats | None \<Rightarrow> True) \<and>
      (\<forall>k \<in> set countKeywords. case str_member k ms of Some s \<Rightarrow> Atoi s = None | None \<Rightarrow> True))"

inductive clean_schema :: "json \<Rightarrow> bool" where
  other: "(\<And>ms. j \<noteq> JObj ms) \<Longrightarrow> clean_schema j"
| object: "own_clean ms \<Longrightarrow>
    (\<And>k ps n sub. k \<in> {''properties'', ''$defs''} \<Longrightarrow> map_of ms k = Some (JObj ps) \<Longrightarrow> (n, sub) \<in> set ps \<Longrightarrow> clean_schema sub) \<Longrightarrow>
    (\<And>k sub. k \<in> {''items'', ''additionalProperties''} \<Longrightarrow> map_of ms k = Some sub \<Longrightarrow> clean_schema sub) \<Longrightarrow>
    (\<And>l sub. map_of ms ''anyOf'' = Some (JArr l) \<Longrightarrow> sub \<in> set l \<Longrightarrow> clean_schema sub) \<Longrightarrow> clean_schema (JObj ms)"

lemma map_of_put [simp]: "map_of (put k v s) k' = (if k' = k then Some v else map_of s k')"
  by (simp add: put_def update_conv)

lemma fix_count_other: "k' \<noteq> k \<Longrightarrow> map_of (fix_count k s) k' = map_of s k'"
  by (auto simp: fix_count_def split: option.splits)

lemma fix_counts_other: "k' \<notin> set ks \<Longrightarrow> map_of (fold fix_count ks s) k' = map_of s k'"
  by (induction ks arbitrary: s) (auto simp: fix_count_other)

lemma fix_counts_int: "distinct ks \<Longrightarrow> k \<in> set ks \<Longrightarrow> str_member k (fold fix_count ks s) = Some n \<Longrightarrow> Atoi n = None"
proof (induction ks arbitrary: s)
  case (Cons a ks)
  show ?case
  proof (cases "k = a")
    case True
    then have "str_member k (fix_count k s) = Some n"
      using Cons.prems by (auto simp: str_member_def fix_counts_other)
    then show ?thesis by (auto simp: fix_count_def str_member_def split: option.splits json.splits)
  next
    case False
    then show ?thesis using Cons by simp
  qed
qed simp

lemma str_member_put: "str_member k (put k' v s) = (if k = k' then (case v of JStr x \<Rightarrow> Some x | _ \<Rightarrow> None) else str_member k s)"
  by (simp add: str_member_def split: json.splits)

lemma str_member_delete: "str_member k (AList.delete k' s) = (if k = k' then None else str_member k s)"
  by (simp add: str_member_def)

lemma str_member_counts: "k \<notin> set ks \<Longrightarrow> str_member k (fold fix_count ks s) = str_member k s"
  by (simp add: str_member_def fix_counts_other)

lemma own_keywords_clean: "own_clean (own_keywords ms)"
proof -
  define s1 where "s1 = AList.delete ''example'' (AList.delete ''propertyOrdering'' (AList.delete ''nullable'' ms))"
  define s2 where "s2 = fix_format (fix_type s1)"
  define s3 where "s3 = fold fix_count countKeywords s2"
  have o: "own_keywords ms = fix_defs (fix_ref s3)" by (simp add: own_keywords_def s1_def s2_def s3_def)
  have keep: "map_of (fix_defs (fix_ref s3)) k = map_of s3 k" if "k \<notin> {''ref'', ''$ref'', ''defs'', ''$defs''}" for k
    using that by (auto simp: fix_defs_def fix_ref_def split: option.splits)
  have none: "map_of s1 k = None" if "k \<in> {''nullable'', ''propertyOrdering'', ''example''}" for k
    using that by (auto simp: s1_def)
  have none2: "map_of s3 k = None" if "k \<in> {''nullable'', ''propertyOrdering'', ''example''}" for k
  proof -
    have "k \<notin> set countKeywords" "k \<noteq> ''type''" "k \<noteq> ''format''" using that by (auto simp: countKeywords_def)
    then show ?thesis using none[OF that]
      by (auto simp: s3_def s2_def fix_counts_other fix_format_def fix_type_def split: option.splits)
  qed
  have "str_member ''ref'' (fix_ref s3) = None"
    by (auto simp: fix_ref_def str_member_put str_member_delete split: option.splits)
  then have ref: "str_member ''ref'' (fix_defs (fix_ref s3)) = None"
    by (auto simp: fix_defs_def str_member_put str_member_delete split: option.splits)
  have defs: "map_of (fix_defs (fix_ref s3)) ''defs'' = None"
    by (auto simp: fix_defs_def split: option.splits)
  have "''type'' \<notin> set countKeywords" "''format'' \<notin> set countKeywords" by (auto simp: countKeywords_def)
  then have tf: "str_member ''type'' s3 = str_member ''type'' s2" "str_member ''format'' s3 = str_member ''format'' s2"
    by (simp_all add: s3_def str_member_counts)
  have ty: "t \<noteq> '''' \<and> ToLower t = t" if "str_member ''type'' s2 = Some t" for t
    using that by (auto simp: s2_def fix_format_def fix_type_def str_member_put str_member_delete ToLower_def[of "[]"]
        split: option.splits if_splits dest: arg_cong[where f = length])
  have fo: "f \<notin> set openAPIOnlyFormats" if "str_member ''format'' s2 = Some f" for f
    using that by (auto simp: s2_def fix_format_def str_member_put str_member_delete split: option.splits if_splits)
  have co: "Atoi s = None" if "k \<in> set countKeywords" "str_member k s3 = Some s" for k s
    using fix_counts_int[of countKeywords k s2 s] that by (simp add: s3_def countKeywords_def)
  have sm: "str_member k (fix_defs (fix_ref s3)) = str_member k s3" if "k \<notin> {''ref'', ''$ref'', ''defs'', ''$defs''}" for k
    using keep[OF that] by (simp add: str_member_def)
  show ?thesis unfolding o own_clean_def
  proof (intro conjI ballI, goal_cases)
    case (1 k)
    then show ?case using keep[of k] none2[of k] defs by auto
  next
    case 2
    then show ?case by (rule ref)
  next
    case 3
    then show ?case using sm[of "''type''"] tf ty by (simp split: option.splits)
  next
    case 4
    then show ?case using sm[of "''format''"] tf fo by (simp split: option.splits)
  next
    case (5 k)
    then have "k \<notin> {''ref'', ''$ref'', ''defs'', ''$defs''}" by (auto simp: countKeywords_def)
    then show ?case using sm[of k] co[OF 5] by (auto split: option.splits)
  qed
qed

definition sub_schemas :: "string \<Rightarrow> json \<Rightarrow> json" where
  "sub_schemas k v =
     (if k = ''properties'' \<or> k = ''$defs'' then
        (case v of JObj ps \<Rightarrow> JObj (map (\<lambda>(n, sub). (n, schema False sub)) ps) | _ \<Rightarrow> v)
      else if k = ''items'' \<or> k = ''additionalProperties'' then schema False v
      else if k = ''anyOf'' then (case v of JArr l \<Rightarrow> JArr (map (schema False) l) | _ \<Rightarrow> v)
      else v)"

lemma schema_object:
  "schema root (JObj ms) =
     (let s = map (\<lambda>(k, v). (k, sub_schemas k v)) (own_keywords ms)
      in JObj (if map_of ms ''nullable'' = Some (JBool True) \<and> \<not> root then fix_nullable s else s))"
  by (simp add: Let_def sub_schemas_def cong: map_cong)

lemma map_of_keyed: "map_of (map (\<lambda>(k, v). (k, f k v)) ms) k = map_option (f k) (map_of ms k)"
  by (induction ms) auto

lemma own_clean_subs:
  assumes "own_clean ms"
  shows "own_clean (map (\<lambda>(k, v). (k, sub_schemas k v)) ms)"
proof -
  let ?s = "map (\<lambda>(k, v). (k, sub_schemas k v)) ms"
  have eq: "str_member k ?s = str_member k ms" if "k \<notin> set schema_keys" for k
  proof -
    have "sub_schemas k v = v" for v using that by (simp add: sub_schemas_def schema_keys_def)
    then show ?thesis by (simp add: str_member_def map_of_keyed option.map_ident)
  qed
  have "\<forall>k \<in> set countKeywords \<union> {''ref'', ''type'', ''format''}. k \<notin> set schema_keys"
    by (simp add: countKeywords_def schema_keys_def)
  then have "\<forall>k \<in> set countKeywords \<union> {''ref'', ''type'', ''format''}. str_member k ?s = str_member k ms"
    by (intro ballI eq) blast
  then show ?thesis using assms unfolding own_clean_def by (simp add: map_of_keyed)
qed

lemma null_branch_get: "k \<noteq> ''anyOf'' \<Longrightarrow> map_of (null_branch s) k = map_of s k"
  by (simp add: null_branch_def split: option.split json.split)

lemma null_enum_get: "k \<noteq> ''enum'' \<Longrightarrow> map_of (null_enum s) k = map_of s k"
  by (simp add: null_enum_def split: option.split json.split)

lemma null_type_get: "k \<noteq> ''type'' \<Longrightarrow> k \<noteq> ''anyOf'' \<Longrightarrow> map_of (null_type s) k = map_of s k"
  by (simp add: null_type_def null_branch_get split: option.split json.split)

lemma fix_nullable_other: "k \<notin> {''type'', ''anyOf'', ''enum''} \<Longrightarrow> map_of (fix_nullable s) k = map_of s k"
  by (simp add: fix_nullable_def null_enum_get null_type_get)

lemma fix_nullable_type: "str_member ''type'' (fix_nullable s) = None"
proof -
  have "map_of (fix_nullable s) ''type'' = map_of (null_type s) ''type''" by (simp add: fix_nullable_def null_enum_get)
  then show ?thesis
    by (simp add: str_member_def null_type_def null_branch_get split: option.split json.split)
qed

lemma null_branch_anyOf:
  "map_of (null_branch s) ''anyOf'' = Some (JArr l) \<Longrightarrow>
   \<exists>l0. map_of s ''anyOf'' = Some (JArr l0) \<and> set l \<subseteq> insert (JObj [(''type'', JStr ''null'')]) (set l0)"
  by (auto simp: null_branch_def split: option.splits json.splits)

lemma fix_nullable_anyOf:
  assumes "map_of (fix_nullable s) ''anyOf'' = Some (JArr l)"
  shows "\<exists>l0. map_of s ''anyOf'' = Some (JArr l0) \<and> set l \<subseteq> insert (JObj [(''type'', JStr ''null'')]) (set l0)"
proof -
  have "map_of (null_type s) ''anyOf'' = Some (JArr l)" using assms by (simp add: fix_nullable_def null_enum_get)
  moreover have "map_of (null_type s) ''anyOf'' \<in> {map_of s ''anyOf'', map_of (null_branch s) ''anyOf''}"
    by (simp add: null_type_def split: option.split json.split)
  ultimately consider "map_of s ''anyOf'' = Some (JArr l)" | "map_of (null_branch s) ''anyOf'' = Some (JArr l)" by force
  then show ?thesis
  proof cases
    case 1
    then show ?thesis by blast
  next
    case 2
    then show ?thesis by (rule null_branch_anyOf)
  qed
qed

lemma own_clean_nullable:
  assumes "own_clean s"
  shows "own_clean (fix_nullable s)"
proof -
  have "str_member k (fix_nullable s) = str_member k s" if "k \<in> set countKeywords \<or> k \<in> {''ref'', ''format''}" for k
    using that fix_nullable_other[of k s] by (auto simp: str_member_def countKeywords_def)
  then show ?thesis using assms unfolding own_clean_def by (simp add: fix_nullable_other fix_nullable_type)
qed

lemma clean_null: "clean_schema (JObj [(''type'', JStr ''null'')])"
  by (rule clean_schema.object) (auto simp: own_clean_def str_member_def countKeywords_def ToLower_def to_lower_char_def)

lemma map_of_sort: "map_of (sort_key fst xs) k = map_of xs (k :: string)"
proof -
  have f: "map_of xs k = map_of (filter (\<lambda>p. fst p = k) xs) k" for xs :: "(string \<times> 'a) list"
    by (induction xs) auto
  show ?thesis using f[of xs] f[of "sort_key fst xs"] by (simp add: sort_key_stable)
qed

lemma clean_not_object: "(\<And>ms. j \<noteq> JObj ms) \<Longrightarrow> clean_schema (schema root j)"
  by (cases j) (auto intro: clean_schema.other)

lemma schema_clean: "clean_schema (schema root j)"
proof (induction "size j" arbitrary: root j rule: less_induct)
  case less
  show ?case
  proof (cases j)
    case (JObj ms)
    define own where "own = own_keywords ms"
    define s where "s = map (\<lambda>(k, v). (k, sub_schemas k v)) own"
    have clean_s: "own_clean s" using own_clean_subs[OF own_keywords_clean] by (simp add: s_def own_def)
    have get: "map_of s k = map_option (sub_schemas k) (map_of own k)" for k by (simp add: s_def map_of_keyed)
    have small: "size v < size j" if "map_of own k = Some v" "k \<in> set schema_keys" for k v
      using size_member[OF own_keywords_from[of k v ms]] that map_of_SomeD[of own k v] by (simp add: own_def JObj)
    have props: "clean_schema sub" if a: "k \<in> {''properties'', ''$defs''}" "map_of s k = Some (JObj ps)" "(n, sub) \<in> set ps" for k ps n sub
    proof -
      obtain v where v: "map_of own k = Some v" "sub_schemas k v = JObj ps" using a(2) get by auto
      then obtain qs where q: "v = JObj qs" "ps = map (\<lambda>(n, sub). (n, schema False sub)) qs"
        using a(1) by (cases v) (auto simp: sub_schemas_def)
      then obtain sub0 where sub0: "(n, sub0) \<in> set qs" "sub = schema False sub0" using a(3) by auto
      have "size v < size j" using small[OF v(1)] a(1) by (auto simp: schema_keys_def)
      moreover have "size sub0 < size v" using size_member[of sub0 qs] sub0(1) q(1) by force
      ultimately show ?thesis using less sub0(2) by simp
    qed
    have items: "clean_schema sub" if a: "k \<in> {''items'', ''additionalProperties''}" "map_of s k = Some sub" for k sub
    proof -
      obtain v where v: "map_of own k = Some v" "sub = schema False v" using a get by (auto simp: sub_schemas_def)
      moreover have "size v < size j" using small[OF v(1)] a(1) by (auto simp: schema_keys_def)
      ultimately show ?thesis using less by simp
    qed
    have any: "clean_schema sub" if a: "map_of s ''anyOf'' = Some (JArr l)" "sub \<in> set l" for l sub
    proof -
      obtain v where v: "map_of own ''anyOf'' = Some v" "sub_schemas ''anyOf'' v = JArr l" using a(1) get by auto
      then obtain qs where q: "v = JArr qs" "l = map (schema False) qs" by (cases v) (auto simp: sub_schemas_def)
      then obtain sub0 where sub0: "sub0 \<in> set qs" "sub = schema False sub0" using a(2) by auto
      have "size v < size j" using small[OF v(1)] by (simp add: schema_keys_def)
      moreover have "size sub0 < size v" using size_element[OF sub0(1)] q(1) by simp
      ultimately show ?thesis using less sub0(2) by simp
    qed
    have plain: "clean_schema (JObj s)" using clean_s props items any by (rule clean_schema.object)
    have "clean_schema (JObj (fix_nullable s))"
    proof (rule clean_schema.object)
      show "own_clean (fix_nullable s)" using clean_s by (rule own_clean_nullable)
    next
      fix k ps n sub
      assume "k \<in> {''properties'', ''$defs''}" "map_of (fix_nullable s) k = Some (JObj ps)" "(n, sub) \<in> set ps"
      then show "clean_schema sub" using props[of k ps n sub] fix_nullable_other[of k s] by auto
    next
      fix k sub
      assume "k \<in> {''items'', ''additionalProperties''}" "map_of (fix_nullable s) k = Some sub"
      then show "clean_schema sub" using items[of k sub] fix_nullable_other[of k s] by auto
    next
      fix l sub
      assume l: "map_of (fix_nullable s) ''anyOf'' = Some (JArr l)" and sub: "sub \<in> set l"
      show "clean_schema sub" using fix_nullable_anyOf[OF l] sub any clean_null by blast
    qed
    then show ?thesis using plain by (simp del: schema.simps add: JObj schema_object Let_def flip: s_def own_def)
  qed (auto intro: clean_schema.other)
qed

lemma sort_keys_null: "sort_keys j = JStr x \<longleftrightarrow> j = JStr x"
  by (cases j) auto

lemma map_of_sort_keys: "map_of (sort_key fst (map (\<lambda>(k, v). (k, sort_keys v)) ms)) k = map_option sort_keys (map_of ms (k :: string))"
  unfolding map_of_sort by (rule map_of_keyed)

lemma str_member_sort_keys:
  "str_member k (sort_key fst (map (\<lambda>(k, v). (k, sort_keys v)) ms)) = str_member k ms"
  by (simp add: str_member_def map_of_sort_keys split: option.split json.split)

lemma clean_sorted: "clean_schema j \<Longrightarrow> clean_schema (sort_keys j)"
proof (induction rule: clean_schema.induct)
  case (other j)
  then show ?case by (cases j) (auto intro: clean_schema.other)
next
  case (object ms)
  let ?s = "sort_key fst (map (\<lambda>(k, v). (k, sort_keys v)) ms)"
  have own: "own_clean ?s" using object.hyps(1) by (simp add: own_clean_def map_of_sort_keys str_member_sort_keys)
  have p: "clean_schema sub" if k: "k \<in> {''properties'', ''$defs''}" "map_of ?s k = Some (JObj ps)" "(n, sub) \<in> set ps" for k ps n sub
  proof -
    obtain v where v: "map_of ms k = Some v" "sort_keys v = JObj ps" using k(2) by (auto simp: map_of_sort_keys)
    then obtain qs where "v = JObj qs" "ps = sort_key fst (map (\<lambda>(k, v). (k, sort_keys v)) qs)" by (cases v) auto
    then show ?thesis using object.IH(1)[OF k(1)] v(1) k(3) by auto
  qed
  have i: "clean_schema sub" if "k \<in> {''items'', ''additionalProperties''}" "map_of ?s k = Some sub" for k sub
    using object.IH(2)[of k] that by (auto simp: map_of_sort_keys)
  have a: "clean_schema sub" if l: "map_of ?s ''anyOf'' = Some (JArr l)" "sub \<in> set l" for l sub
  proof -
    obtain v where v: "map_of ms ''anyOf'' = Some v" "sort_keys v = JArr l" using l(1) by (auto simp: map_of_sort_keys)
    then obtain qs where "v = JArr qs" "l = map sort_keys qs" by (cases v) auto
    then show ?thesis using object.IH(3) v(1) l(2) by auto
  qed
  have "clean_schema (JObj ?s)" using own p i a by (rule clean_schema.object)
  then show ?case by simp
qed

lemma root_type:
  assumes "str_member ''type'' ms = Some t" "t \<noteq> ''''" "t \<noteq> ''TYPE_UNSPECIFIED''"
  shows "\<exists>ms'. schema True (JObj ms) = JObj ms' \<and> str_member ''type'' ms' = Some (ToLower t)"
proof -
  have t: "''type'' \<notin> set countKeywords" by (simp add: countKeywords_def)
  let ?s1 = "AList.delete ''example'' (AList.delete ''propertyOrdering'' (AList.delete ''nullable'' ms))"
  let ?s3 = "fold fix_count countKeywords (fix_format (fix_type ?s1))"
  have "str_member ''type'' ?s1 = Some t" using assms(1) by (simp add: str_member_delete)
  then have "str_member ''type'' (fix_type ?s1) = Some (ToLower t)" using assms(2,3) by (simp add: fix_type_def str_member_put)
  then have "str_member ''type'' (fix_format (fix_type ?s1)) = Some (ToLower t)"
    by (simp add: fix_format_def str_member_delete split: option.split)
  then have "str_member ''type'' ?s3 = Some (ToLower t)" using t by (simp add: str_member_counts)
  then have "str_member ''type'' (fix_ref ?s3) = Some (ToLower t)"
    by (simp add: fix_ref_def str_member_put str_member_delete split: option.split)
  then have "str_member ''type'' (own_keywords ms) = Some (ToLower t)"
    by (simp add: own_keywords_def fix_defs_def str_member_put str_member_delete split: option.split)
  then have "map_of (own_keywords ms) ''type'' = Some (JStr (ToLower t))"
    by (simp add: str_member_def split: option.splits json.splits)
  then show ?thesis
    by (simp del: schema.simps add: schema_object Let_def str_member_def map_of_keyed sub_schemas_def)
qed

text \<open>A tool's or a response's schema in Gemini's OpenAPI subset is converted into one that holds none of what JSON
  Schema does not know, however deep it nests: no \<^verbatim>\<open>nullable\<close>, \<^verbatim>\<open>propertyOrdering\<close>, \<^verbatim>\<open>example\<close>, \<^verbatim>\<open>ref\<close> or \<^verbatim>\<open>defs\<close>, no type name in
  upper case and no OpenAPI number format; and the type of the root stays a single name, \<^verbatim>\<open>nullable\<close> or not.\<close>

theorem openapi_schema_clean:
  assumes "any_value refloat raw = Some v" "JSONSchema refloat (Some raw) SchemaOpenAPI = Some out"
  shows "clean_schema out \<and> (\<forall>ms t. v = JObj ms \<longrightarrow> str_member ''type'' ms = Some t \<longrightarrow> t \<notin> {'''', ''TYPE_UNSPECIFIED''} \<longrightarrow>
    member ''type'' out = Some (JStr (ToLower t)))"
proof (intro conjI allI impI)
  have out: "out = sort_keys (schema True v)" using assms by (simp add: JSONSchema_def)
  show "clean_schema out" unfolding out by (intro clean_sorted schema_clean)
  fix ms t
  assume "v = JObj ms" "str_member ''type'' ms = Some t" "t \<notin> {'''', ''TYPE_UNSPECIFIED''}"
  then obtain ms' where "schema True v = JObj ms'" "str_member ''type'' ms' = Some (ToLower t)" using root_type[of ms t] by auto
  then show "member ''type'' out = Some (JStr (ToLower t))"
    by (simp add: out member_def map_of_sort_keys str_member_def split: option.splits json.splits)
qed

definition demo_schema :: json where
  "demo_schema = JObj [(''nullable'', JBool True), (''type'', JStr ''OBJECT''),
     (''properties'', JObj [(''n'', JObj [(''type'', JStr ''INTEGER''), (''format'', JStr ''int32''), (''nullable'', JBool True)])])]"

definition demo_converted :: json where
  "demo_converted = JObj [(''properties'', JObj [(''n'', JObj [(''type'', JArr [JStr ''integer'', JStr ''null''])])]),
     (''type'', JStr ''object'')]"

lemma openapi_schema_clean_witness:
  "any_value Some demo_schema = Some demo_schema \<and> JSONSchema Some (Some demo_schema) SchemaOpenAPI = Some demo_converted \<and>
   clean_schema demo_converted"
proof -
  have a: "any_value Some demo_schema = Some demo_schema" by code_simp
  moreover have j: "JSONSchema Some (Some demo_schema) SchemaOpenAPI = Some demo_converted" by code_simp
  ultimately show ?thesis using openapi_schema_clean[OF a j] by blast
qed

end
