(* ===== verification/Gemini_Writer.thy ===== *)
theory Gemini_Writer
  imports OpenAI_Parser Xlate
begin

text \<open>
  The Gemini client dialect's response side, \<^verbatim>\<open>internal/edge/gemini/stream.go\<close> and \<^verbatim>\<open>write.go\<close>: the chunks a stream of canonical
  events becomes, framed as server-sent events or as the elements of one JSON array, and the response, error and
  count bodies. The arguments of a call are a text an upstream sent in pieces; \<open>valid\<close> reads it as JSON where it is JSON.
\<close>

section \<open>Bodies\<close>

fun finishReasonWire :: "StopReason \<Rightarrow> string" where
  "finishReasonWire StopMaxTokens = ''MAX_TOKENS''"
| "finishReasonWire StopContentFilter = ''SAFETY''"
| "finishReasonWire StopError = ''OTHER''"
| "finishReasonWire _ = ''STOP''"

definition ExtraThoughtSignature :: string where "ExtraThoughtSignature = ''thoughtSignature''"

definition sig_member :: "string \<Rightarrow> members" where
  "sig_member sig = (if sig \<noteq> '''' then [(''thoughtSignature'', JStr sig)] else [])"

definition text_part :: "string \<Rightarrow> string \<Rightarrow> members" where
  "text_part s sig = [(''text'', JStr s)] @ sig_member sig"

definition thought_part :: "string \<Rightarrow> string \<Rightarrow> members" where
  "thought_part s sig = [(''text'', JStr s), (''thought'', JBool True)] @ sig_member sig"

definition call_part :: "string \<Rightarrow> string \<Rightarrow> json \<Rightarrow> string \<Rightarrow> members" where
  "call_part ident name args sig =
     [(''functionCall'', JObj ([(''args'', args)] @ (if ident \<noteq> '''' then [(''id'', JStr ident)] else []) @ [(''name'', JStr name)]))] @ sig_member sig"

definition responsePart :: "ContentBlock \<Rightarrow> members option" where
  "responsePart b =
     (case cbType b of
        BlockText \<Rightarrow> Some (text_part (cbText b) (ExtraString b ExtraThoughtSignature))
      | BlockThinking \<Rightarrow> map_option (\<lambda>th. thought_part (thText th) (thSignature th)) (cbThinking b)
      | BlockToolUse \<Rightarrow>
          map_option (\<lambda>tu. call_part (tuID tu) (tuName tu) (case tuInput tu of None \<Rightarrow> JObj [] | Some j \<Rightarrow> j) (tuSignature tu)) (cbToolUse b)
      | _ \<Rightarrow> None)"

definition responseParts :: "ContentBlock list \<Rightarrow> json list" where
  "responseParts bs = map JObj (List.map_filter responsePart bs)"

definition gm_usageBody :: "Usage \<Rightarrow> json" where
  "gm_usageBody u =
     (let candidates = OutputTokens u - ReasoningTokens u
      in JObj [(''cachedContentTokenCount'', JInt (CacheReadTokens u)),
           (''candidatesTokenCount'', JInt (if candidates < 0 then 0 else candidates)),
           (''promptTokenCount'', JInt (PromptTokens u)),
           (''thoughtsTokenCount'', JInt (ReasoningTokens u)),
           (''totalTokenCount'', JInt (PromptTokens u + OutputTokens u))])"

definition model_content :: "json list \<Rightarrow> json" where
  "model_content parts = JObj [(''parts'', JArr parts), (''role'', JStr ''model'')]"

definition gm_candidate :: "json list \<Rightarrow> string \<Rightarrow> json" where
  "gm_candidate parts reason = JObj [(''content'', model_content parts), (''finishReason'', JStr reason), (''index'', JInt 0)]"

definition gm_WriteResponse :: "IRResponse \<Rightarrow> json" where
  "gm_WriteResponse r =
     JObj [(''candidates'', JArr [gm_candidate (responseParts (rspContent r)) (finishReasonWire (rspStopReason r))]),
       (''modelVersion'', JStr (rspModel r)), (''responseId'', JStr (rspID r)), (''usageMetadata'', gm_usageBody (rspUsage r))]"

fun gm_errorShape :: "ErrorType \<Rightarrow> string \<times> int" where
  "gm_errorShape ErrInvalidRequest = (''INVALID_ARGUMENT'', 400)"
| "gm_errorShape ErrContentFilter = (''INVALID_ARGUMENT'', 400)"
| "gm_errorShape ErrAuthentication = (''UNAUTHENTICATED'', 401)"
| "gm_errorShape ErrPermission = (''PERMISSION_DENIED'', 403)"
| "gm_errorShape ErrNotFound = (''NOT_FOUND'', 404)"
| "gm_errorShape ErrPayloadTooLarge = (''INVALID_ARGUMENT'', 413)"
| "gm_errorShape ErrUnsupportedMedia = (''INVALID_ARGUMENT'', 415)"
| "gm_errorShape ErrRateLimit = (''RESOURCE_EXHAUSTED'', 429)"
| "gm_errorShape ErrOverloaded = (''UNAVAILABLE'', 503)"
| "gm_errorShape _ = (''INTERNAL'', 500)"

definition gm_WriteError :: "Error \<Rightarrow> int \<times> json" where
  "gm_WriteError e =
     (case gm_errorShape (errType e) of (name, status) \<Rightarrow>
        (status, JObj [(''error'', JObj [(''code'', JInt status), (''message'', JStr (errMessage e)), (''status'', JStr name)])]))"

definition gm_WriteCount :: "int \<Rightarrow> json" where
  "gm_WriteCount tokens = JObj [(''totalTokens'', JInt tokens)]"

section \<open>Framing\<close>

text \<open>\<^verbatim>\<open>chunkWriter\<close>: whether the client asked for server-sent events, and whether the first chunk is still to come.\<close>

record chunkWriter =
  cwSSE :: bool
  cwFirst :: bool

definition chunk_send :: "(json \<Rightarrow> string) \<Rightarrow> chunkWriter \<Rightarrow> json \<Rightarrow> CommitWriter \<Rightarrow> chunkWriter \<times> CommitWriter \<times> bool" where
  "chunk_send marshal c v cw =
     (let b = marshal v; c1 = c\<lparr>cwFirst := False\<rparr> in
      if cwSSE c
      then (let e = write_err cw; cw1 = cw_Write cw (Send '''' b) in if e \<noteq> None then (c1, cw1, False) else (c1, cw_Flush cw1, True))
      else
        let e = write_err cw; cw1 = cw_Write cw (if cwFirst c then ''['' else '','') in
        if e \<noteq> None then (c1, cw1, False)
        else (let e2 = write_err cw1; cw2 = cw_Write cw1 b in if e2 \<noteq> None then (c1, cw2, False) else (c1, cw_Flush cw2, True)))"

definition chunk_close :: "chunkWriter \<Rightarrow> CommitWriter \<Rightarrow> CommitWriter" where
  "chunk_close c cw = (if cwSSE c then cw else cw_Flush (cw_Write cw (if cwFirst c then ''[]'' else '']'')))"

fun chunks_send :: "(json \<Rightarrow> string) \<Rightarrow> json list \<Rightarrow> chunkWriter \<Rightarrow> CommitWriter \<Rightarrow> chunkWriter \<times> CommitWriter \<times> bool" where
  "chunks_send marshal [] c cw = (c, cw, True)"
| "chunks_send marshal (v # vs) c cw =
     (case chunk_send marshal c v cw of (c1, cw1, ok) \<Rightarrow> if ok then chunks_send marshal vs c1 cw1 else (c1, cw1, False))"

section \<open>The stream writer\<close>

record pendingCall =
  pcID :: string
  pcName :: string
  pcArgs :: string
  pcSig :: string

record gw_state =
  gwModel :: string
  gwUsage :: Usage
  gwStop :: StopReason
  gwCalls :: "(int, pendingCall) gomap"
  gwMalformed :: bool
  gwHeld :: "members option"
  gwHeldIdx :: int

definition gw_init :: gw_state where
  "gw_init = \<lparr>gwModel = '''', gwUsage = zero_usage, gwStop = StopEndTurn, gwCalls = [], gwMalformed = False, gwHeld = None, gwHeldIdx = 0\<rparr>"

definition partChunk :: "string \<Rightarrow> json list \<Rightarrow> json" where
  "partChunk model parts =
     JObj [(''candidates'', JArr [JObj [(''content'', model_content parts), (''index'', JInt 0)]]), (''modelVersion'', JStr model)]"

definition flushCall :: "(string \<Rightarrow> json option) \<Rightarrow> int \<Rightarrow> gw_state \<Rightarrow> gw_state \<times> json list" where
  "flushCall valid idx st =
     (case map_of (gwCalls st) idx of
        None \<Rightarrow> (st, [])
      | Some pc \<Rightarrow>
          let st1 = st\<lparr>gwCalls := AList.delete idx (gwCalls st)\<rparr>
          in (case if pcArgs pc = '''' then Some (JObj []) else valid (pcArgs pc) of
                None \<Rightarrow> (st1\<lparr>gwMalformed := True\<rparr>, [])
              | Some args \<Rightarrow> (st1, [partChunk (gwModel st) [JObj (call_part (pcID pc) (pcName pc) args (pcSig pc))]])))"

definition flushAllCalls :: "(string \<Rightarrow> json option) \<Rightarrow> gw_state \<Rightarrow> gw_state \<times> json list" where
  "flushAllCalls valid st = emits (map (flushCall valid) (sort (map fst (gwCalls st)))) st"

definition flushThought :: "gw_state \<Rightarrow> gw_state \<times> json list" where
  "flushThought st =
     (case gwHeld st of None \<Rightarrow> (st, []) | Some p \<Rightarrow> (st\<lparr>gwHeld := None\<rparr>, [partChunk (gwModel st) [JObj p]]))"

definition terminal :: "string \<Rightarrow> gw_state \<Rightarrow> json" where
  "terminal reason st =
     JObj [(''candidates'', JArr [gm_candidate [] reason]), (''modelVersion'', JStr (gwModel st)),
       (''usageMetadata'', gm_usageBody (gwUsage st))]"

definition failure_chunk :: "go_error \<Rightarrow> gw_state \<Rightarrow> json" where
  "failure_chunk err st =
     (let e = (case geIR err of Some e \<Rightarrow> e | None \<Rightarrow> mk_error ErrAPI (geText err));
          reason = (if errType e = ErrContentFilter then ''SAFETY'' else ''OTHER'')
      in JObj [(''candidates'', JArr [gm_candidate [] reason]), (''modelVersion'', JStr (gwModel st)),
           (''promptFeedback'', JObj [(''blockReason'', JStr reason), (''blockReasonMessage'', JStr (errMessage e))]),
           (''usageMetadata'', gm_usageBody (gwUsage st))])"

definition rejoins :: "StreamEvent \<Rightarrow> gw_state \<Rightarrow> bool" where
  "rejoins ev st =
     (gwHeld st \<noteq> None \<and> evType ev = EventContentDelta \<and> evIndex ev = gwHeldIdx st \<and>
      (case evDelta ev of None \<Rightarrow> False | Some d \<Rightarrow> dType d = BlockThinking \<and> dThinking d = '''' \<and> dSignature d \<noteq> ''''))"

definition delta_sig :: "StreamEvent \<Rightarrow> string" where
  "delta_sig ev = (case evDelta ev of None \<Rightarrow> '''' | Some d \<Rightarrow> dSignature d)"

definition call_piece :: "Delta \<Rightarrow> pendingCall option \<Rightarrow> pendingCall" where
  "call_piece d known =
     (let pc = (case known of Some pc \<Rightarrow> pc | None \<Rightarrow> \<lparr>pcID = dToolID d, pcName = dToolName d, pcArgs = '''', pcSig = ''''\<rparr>)
      in \<lparr>pcID = (if pcID pc = '''' then dToolID d else pcID pc), pcName = (if pcName pc = '''' then dToolName d else pcName pc),
          pcArgs = pcArgs pc @ dToolInput d, pcSig = (if dSignature d \<noteq> '''' then dSignature d else pcSig pc)\<rparr>)"

definition gw_delta :: "int \<Rightarrow> Delta \<Rightarrow> gw_state \<Rightarrow> gw_state \<times> json list" where
  "gw_delta idx d st =
     (case dType d of
        BlockText \<Rightarrow>
          if dText d = '''' \<and> dSignature d = '''' then (st, [])
          else (st, [partChunk (gwModel st) [JObj (text_part (dText d) (dSignature d))]])
      | BlockThinking \<Rightarrow>
          let p = thought_part (dThinking d) (dSignature d) in
          if dSignature d \<noteq> '''' then (st, [partChunk (gwModel st) [JObj p]])
          else (st\<lparr>gwHeld := Some p, gwHeldIdx := idx\<rparr>, [])
      | BlockToolUse \<Rightarrow> (st\<lparr>gwCalls := AList.update idx (call_piece d (map_of (gwCalls st) idx)) (gwCalls st)\<rparr>, [])
      | _ \<Rightarrow> (st, []))"

definition set_gw_stop :: "StopReason \<Rightarrow> gw_state \<Rightarrow> gw_state" where
  "set_gw_stop s st = (if s \<noteq> StopOther '''' then st\<lparr>gwStop := s\<rparr> else st)"

definition gw_switch :: "(string \<Rightarrow> json option) \<Rightarrow> StreamEvent \<Rightarrow> gw_state \<Rightarrow> gw_state \<times> json list" where
  "gw_switch valid ev st =
     (case evType ev of
        EventMessageStart \<Rightarrow> (st\<lparr>gwModel := evModel ev\<rparr>, [])
      | EventBlockStart \<Rightarrow>
          (case evDelta ev of
             None \<Rightarrow> (st, [])
           | Some d \<Rightarrow>
               if dType d = BlockToolUse
               then (st\<lparr>gwCalls := AList.update (evIndex ev) \<lparr>pcID = dToolID d, pcName = dToolName d, pcArgs = '''', pcSig = ''''\<rparr> (gwCalls st)\<rparr>, [])
               else (st, []))
      | EventContentDelta \<Rightarrow> (case evDelta ev of None \<Rightarrow> (st, []) | Some d \<Rightarrow> gw_delta (evIndex ev) d st)
      | EventBlockStop \<Rightarrow> flushCall valid (evIndex ev) st
      | EventMessageDelta \<Rightarrow>
          (set_gw_stop (evStopReason ev) (case evUsage ev of None \<Rightarrow> st | Some u \<Rightarrow> st\<lparr>gwUsage := u\<rparr>), [])
      | EventMessageStop \<Rightarrow> flushAllCalls valid (set_gw_stop (evStopReason ev) st)
      | _ \<Rightarrow> (st, []))"

text \<open>One event: a signature rejoins the thought held back for it; any other event lets the thought go first.\<close>

definition gw_event :: "(string \<Rightarrow> json option) \<Rightarrow> StreamEvent \<Rightarrow> gw_state \<Rightarrow> gw_state \<times> json list" where
  "gw_event valid ev st =
     (if rejoins ev st
      then flushThought (st\<lparr>gwHeld := map_option (\<lambda>p. p @ sig_member (delta_sig ev)) (gwHeld st)\<rparr>)
      else emits [flushThought, gw_switch valid ev] st)"

definition gw_reason :: "gw_state \<Rightarrow> string" where
  "gw_reason st =
     (if gwMalformed st \<and> gwStop st \<noteq> StopMaxTokens then ''MALFORMED_FUNCTION_CALL'' else finishReasonWire (gwStop st))"

definition gw_end :: "(string \<Rightarrow> json option) \<Rightarrow> gw_state \<Rightarrow> json list" where
  "gw_end valid st =
     (case emits [flushThought, flushAllCalls valid] st of (st1, out) \<Rightarrow> out @ [terminal (gw_reason st1) st1])"

definition gw_error :: "go_error \<Rightarrow> gw_state \<Rightarrow> json list" where
  "gw_error err st = (case flushThought st of (st1, out) \<Rightarrow> out @ [failure_chunk err st1])"

text \<open>The writer as the executor drives it: its state, its framing, and whether it has returned.\<close>

type_synonym gw_writer = "gw_state \<times> chunkWriter \<times> bool"

definition gw_step :: "(json \<Rightarrow> string) \<Rightarrow> (string \<Rightarrow> json option) \<Rightarrow> gw_writer \<Rightarrow> CommitWriter \<Rightarrow> StreamEvent + go_error
    \<Rightarrow> gw_writer \<times> CommitWriter \<times> bool" where
  "gw_step marshal valid w cw x =
     (case w of (st, c, done) \<Rightarrow>
        case x of
          Inl ev \<Rightarrow>
            (case gw_event valid ev st of (st1, out) \<Rightarrow>
               case chunks_send marshal out c cw of (c1, cw1, ok) \<Rightarrow> ((st1, c1, \<not> ok), cw1, ok))
        | Inr err \<Rightarrow>
            (case chunks_send marshal (gw_error err st) c cw of (c1, cw1, ok) \<Rightarrow>
               ((st, c1, True), if ok then chunk_close c1 cw1 else cw1, False)))"

definition gw_finish :: "(json \<Rightarrow> string) \<Rightarrow> (string \<Rightarrow> json option) \<Rightarrow> gw_writer \<Rightarrow> CommitWriter \<Rightarrow> CommitWriter" where
  "gw_finish marshal valid w cw =
     (case w of (st, c, done) \<Rightarrow>
        if done then cw
        else case chunks_send marshal (gw_end valid st) c cw of (c1, cw1, ok) \<Rightarrow> if ok then chunk_close c1 cw1 else cw1)"

definition gm_WriteStream :: "(json \<Rightarrow> string) \<Rightarrow> (string \<Rightarrow> json option) \<Rightarrow> bool \<Rightarrow> gw_writer dialect" where
  "gm_WriteStream marshal valid asSSE =
     \<lparr>dlInit = (gw_init, \<lparr>cwSSE = asSSE, cwFirst = True\<rparr>, False), dlStep = gw_step marshal valid, dlEnd = gw_finish marshal valid\<rparr>"

text \<open>The loop with no client behind it: the chunks it sends.\<close>

fun gw_run :: "(string \<Rightarrow> json option) \<Rightarrow> (StreamEvent + go_error) list \<Rightarrow> gw_state \<Rightarrow> json list" where
  "gw_run valid [] st = gw_end valid st"
| "gw_run valid (Inr err # xs) st = gw_error err st"
| "gw_run valid (Inl ev # xs) st = (case gw_event valid ev st of (st1, out) \<Rightarrow> out @ gw_run valid xs st1)"

section \<open>The writer meets the contract\<close>

text \<open>The text of a run of chunks: frames, or elements each behind a bracket or a comma.\<close>

definition framed :: "(json \<Rightarrow> string) \<Rightarrow> json list \<Rightarrow> chunkWriter \<Rightarrow> string" where
  "framed m vs c =
     (if cwSSE c then wire_text m (map (Pair '''') vs)
      else concat (map2 (\<lambda>p v. p @ m v) ((if cwFirst c then ''['' else '','') # replicate (length vs) '','') vs))"

definition framed_close :: "chunkWriter \<Rightarrow> string" where
  "framed_close c = (if cwSSE c then '''' else if cwFirst c then ''[]'' else '']'')"

definition after_chunks :: "json list \<Rightarrow> chunkWriter \<Rightarrow> chunkWriter" where
  "after_chunks vs c = (if vs = [] then c else c\<lparr>cwFirst := False\<rparr>)"

lemma healthy_write: "healthy cw \<Longrightarrow> healthy (cw_Write cw b) \<and> cwOut (cw_Write cw b) = cwOut cw @ b \<and> write_err cw = None"
  by (auto simp: healthy_def cw_Write_def cw_commit_def cw_fail_def write_err_def Let_def)

lemma healthy_flush: "healthy cw \<Longrightarrow> healthy (cw_Flush cw) \<and> cwOut (cw_Flush cw) = cwOut cw"
  by (auto simp: healthy_def cw_Flush_def cw_commit_def cw_fail_def Let_def)

lemma framed_Cons: "framed m (v # vs) c = framed m [v] c @ framed m vs (c\<lparr>cwFirst := False\<rparr>)"
  by (simp add: framed_def wire_text_def frames_def)

lemma chunk_send_healthy:
  assumes "healthy cw"
  shows "\<exists>cw1. chunk_send m c v cw = (c\<lparr>cwFirst := False\<rparr>, cw1, True) \<and> healthy cw1 \<and> cwOut cw1 = cwOut cw @ framed m [v] c"
proof (cases "cwSSE c")
  case True
  then show ?thesis using healthy_send[OF assms, of "Send '''' (m v)"]
    by (simp add: chunk_send_def framed_def wire_text_def frames_def Let_def)
next
  case False
  let ?p = "if cwFirst c then ''['' else '',''"
  note w = healthy_write[OF assms, of ?p]
  then have w2: "healthy (cw_Write (cw_Write cw ?p) (m v))" "write_err (cw_Write cw ?p) = None"
    "cwOut (cw_Write (cw_Write cw ?p) (m v)) = cwOut cw @ ?p @ m v"
    using healthy_write[of "cw_Write cw ?p" "m v"] by simp_all
  then show ?thesis using False w healthy_flush[OF w2(1)] by (simp add: chunk_send_def framed_def Let_def)
qed

lemma chunks_send_healthy:
  assumes "healthy cw"
  shows "\<exists>cw1. chunks_send m vs c cw = (after_chunks vs c, cw1, True) \<and> healthy cw1 \<and> cwOut cw1 = cwOut cw @ framed m vs c"
  using assms
proof (induction vs arbitrary: c cw)
  case Nil
  then show ?case by (simp add: after_chunks_def framed_def wire_text_def frames_def)
next
  case (Cons v vs)
  obtain cw1 where s: "chunk_send m c v cw = (c\<lparr>cwFirst := False\<rparr>, cw1, True)" "healthy cw1" "cwOut cw1 = cwOut cw @ framed m [v] c"
    using chunk_send_healthy[OF Cons.prems] by blast
  from Cons.IH[OF s(2), of "c\<lparr>cwFirst := False\<rparr>"] show ?case
    by (auto simp: s(1,3) framed_Cons[of m v vs] after_chunks_def)
qed

lemma close_healthy: "healthy cw \<Longrightarrow> healthy (chunk_close c cw) \<and> cwOut (chunk_close c cw) = cwOut cw @ framed_close c"
  using healthy_send[of cw "if cwFirst c then ''[]'' else '']''"] by (simp add: chunk_close_def framed_close_def)

definition gw_sends :: "(json \<Rightarrow> string) \<Rightarrow> (string \<Rightarrow> json option) \<Rightarrow> StreamEvent \<Rightarrow> gw_writer \<Rightarrow> gw_writer \<times> string" where
  "gw_sends m valid ev w =
     (case w of (st, c, done) \<Rightarrow> case gw_event valid ev st of (st1, out) \<Rightarrow> ((st1, after_chunks out c, False), framed m out c))"

definition gw_last :: "(json \<Rightarrow> string) \<Rightarrow> (string \<Rightarrow> json option) \<Rightarrow> gw_writer \<Rightarrow> string" where
  "gw_last m valid w =
     (case w of (st, c, done) \<Rightarrow> framed m (gw_end valid st) c @ framed_close (after_chunks (gw_end valid st) c))"

interpretation gemini: event_writer "gm_WriteStream m valid asSSE" "gw_sends m valid" "gw_last m valid" "\<lambda>(st, c, done). \<not> done"
  for m valid asSSE
proof
  show "case dlInit (gm_WriteStream m valid asSSE) of (st, c, done) \<Rightarrow> \<not> done" by (simp add: gm_WriteStream_def)
next
  fix cw ev d d1 b
  assume h: "healthy cw" "case d of (st, c, done) \<Rightarrow> \<not> done" "gw_sends m valid ev d = (d1, b)"
  obtain st c where d: "d = (st, c, False)" using h(2) by (cases d) auto
  obtain st1 out where e: "gw_event valid ev st = (st1, out)" by fastforce
  have d1: "d1 = (st1, after_chunks out c, False)" "b = framed m out c" using h(3) by (simp_all add: gw_sends_def d e)
  from chunks_send_healthy[OF h(1), of m out c] show "(case d1 of (st, c, done) \<Rightarrow> \<not> done) \<and>
      (\<exists>cw1. dlStep (gm_WriteStream m valid asSSE) d cw (Inl ev) = (d1, cw1, True) \<and> healthy cw1 \<and> cwOut cw1 = cwOut cw @ b)"
    by (auto simp: gm_WriteStream_def gw_step_def d d1 e)
next
  fix cw and d :: gw_writer
  assume h: "healthy cw" "case d of (st, c, done) \<Rightarrow> \<not> done"
  obtain st c where d: "d = (st, c, False)" using h(2) by (cases d) auto
  obtain cw1 where s: "chunks_send m (gw_end valid st) c cw = (after_chunks (gw_end valid st) c, cw1, True)" "healthy cw1"
    "cwOut cw1 = cwOut cw @ framed m (gw_end valid st) c" using chunks_send_healthy[OF h(1)] by blast
  then show "healthy (dlEnd (gm_WriteStream m valid asSSE) d cw) \<and>
      cwOut (dlEnd (gm_WriteStream m valid asSSE) d cw) = cwOut cw @ gw_last m valid d"
    using close_healthy[OF s(2)] by (simp add: gm_WriteStream_def gw_finish_def gw_last_def d)
qed

section \<open>What the client receives\<close>

lemma framed_append: "framed m (xs @ ys) c = framed m xs c @ framed m ys (after_chunks xs c)"
proof (induction xs arbitrary: c)
  case Nil
  then show ?case by (simp add: framed_def after_chunks_def wire_text_def frames_def)
next
  case (Cons x xs)
  then show ?case
    by (simp add: framed_Cons[of m x "xs @ ys"] framed_Cons[of m x xs] after_chunks_def)
qed

lemma after_chunks_append: "after_chunks ys (after_chunks xs c) = after_chunks (xs @ ys) c"
  by (simp add: after_chunks_def)

lemma gw_text:
  "text_run (gw_sends m valid) (gw_last m valid) evs (st, c, False) =
     framed m (gw_run valid (map Inl evs) st) c @ framed_close (after_chunks (gw_run valid (map Inl evs) st) c)"
proof (induction evs arbitrary: st c)
  case Nil
  then show ?case by (simp add: gw_last_def)
next
  case (Cons ev evs)
  obtain st1 out where "gw_event valid ev st = (st1, out)" by fastforce
  then show ?case using Cons.IH[of st1 "after_chunks out c"]
    by (simp add: gw_sends_def framed_append after_chunks_append)
qed

lemma gw_end_nonempty: "gw_end valid st \<noteq> []"
  by (simp add: gw_end_def split: prod.split)

lemma gw_run_nonempty: "gw_run valid (map Inl evs) st \<noteq> []"
  by (induction evs arbitrary: st) (auto simp: gw_end_nonempty split: prod.split)

lemma array_text:
  "vs \<noteq> [] \<Longrightarrow> framed m vs \<lparr>cwSSE = False, cwFirst = True\<rparr> = ''['' @ Join '','' (map m vs)"
proof -
  have "length vs \<le> n \<Longrightarrow> concat (map2 (\<lambda>p v. p @ m v) (replicate n '','') vs) = concat (map (\<lambda>v. '','' @ m v) vs)" for vs n
  proof (induction vs arbitrary: n)
    case (Cons v vs)
    then show ?case by (cases n) auto
  qed simp
  from this[where n = "Suc (length vs)" and vs = vs for vs]
  have c: "concat (map2 (\<lambda>p v. p @ m v) ('','' # replicate (length vs) '','') vs) = concat (map (\<lambda>v. '','' @ m v) vs)" for vs
    by simp
  have j: "Join '','' (map m (v # vs)) = m v @ concat (map (\<lambda>v. '','' @ m v) vs)" for v vs
    by (induction vs arbitrary: v) auto
  have "framed m (v # vs) \<lparr>cwSSE = False, cwFirst = True\<rparr> = ''['' @ Join '','' (map m (v # vs))" for v vs
    unfolding j using c[of vs] by (simp add: framed_def)
  then show "vs \<noteq> [] \<Longrightarrow> ?thesis" by (cases vs) blast+
qed

lemma gemini_text:
  "text_run (gw_sends m valid) (gw_last m valid) evs (dlInit (gm_WriteStream m valid asSSE)) =
     (let vs = gw_run valid (map Inl evs) gw_init
      in if asSSE then wire_text m (map (Pair '''') vs) else ''['' @ Join '','' (map m vs) @ '']'')"
  using gw_run_nonempty[of valid evs gw_init]
  by (simp add: gm_WriteStream_def gw_text Let_def array_text after_chunks_def framed_close_def) (simp add: framed_def)

section \<open>What a client makes of the chunks\<close>

text \<open>What an SDK accumulates: the parts in the order they came, each text with whether it is a thought and with the
  signature it carries; the calls, each whole, with the signature on its part; and the finish reasons.\<close>

record gm_client =
  gmParts :: "(bool \<times> string \<times> string) list"
  gcCalls :: "(string \<times> string \<times> json \<times> string) list"
  gcReasons :: "string list"

definition gm_nothing :: gm_client where
  "gm_nothing = \<lparr>gmParts = [], gcCalls = [], gcReasons = []\<rparr>"

definition gm_part :: "json \<Rightarrow> gm_client \<Rightarrow> gm_client" where
  "gm_part p c =
     (let sig = str_of (member ''thoughtSignature'' p) in
      case member ''functionCall'' p of
        Some f \<Rightarrow> c\<lparr>gcCalls := gcCalls c @ [(str_of (member ''id'' f), str_of (member ''name'' f),
                     case member ''args'' f of Some j \<Rightarrow> j | None \<Rightarrow> JNull, sig)]\<rparr>
      | None \<Rightarrow> c\<lparr>gmParts := gmParts c @ [(member ''thought'' p = Some (JBool True), str_of (member ''text'' p), sig)]\<rparr>)"

definition gm_chunk :: "json \<Rightarrow> gm_client \<Rightarrow> gm_client" where
  "gm_chunk v c =
     (case member ''candidates'' v of
        Some (JArr (cand # _)) \<Rightarrow>
          let c1 = (case member ''content'' cand of
                      Some k \<Rightarrow> (case member ''parts'' k of Some (JArr ps) \<Rightarrow> fold gm_part ps c | _ \<Rightarrow> c) | None \<Rightarrow> c)
          in (case member ''finishReason'' cand of Some (JStr r) \<Rightarrow> c1\<lparr>gcReasons := gcReasons c1 @ [r]\<rparr> | _ \<Rightarrow> c1)
      | _ \<Rightarrow> c)"

lemma chunk_text: "gm_chunk (partChunk m [JObj (text_part s sig)]) c = c\<lparr>gmParts := gmParts c @ [(False, s, sig)]\<rparr>"
  by (simp add: gm_chunk_def partChunk_def model_content_def gm_part_def text_part_def sig_member_def member_def str_of_def)

lemma chunk_thought: "gm_chunk (partChunk m [JObj (thought_part s sig)]) c = c\<lparr>gmParts := gmParts c @ [(True, s, sig)]\<rparr>"
  by (simp add: gm_chunk_def partChunk_def model_content_def gm_part_def thought_part_def sig_member_def member_def str_of_def)

lemma chunk_call: "gm_chunk (partChunk m [JObj (call_part i n j sig)]) c = c\<lparr>gcCalls := gcCalls c @ [(i, n, j, sig)]\<rparr>"
  by (simp add: gm_chunk_def partChunk_def model_content_def gm_part_def call_part_def sig_member_def member_def str_of_def)

lemma chunk_terminal: "gm_chunk (terminal r st) c = c\<lparr>gcReasons := gcReasons c @ [r]\<rparr>"
  by (simp add: gm_chunk_def terminal_def gm_candidate_def model_content_def member_def)

text \<open>What the canonical events call for, read from the events alone. Each piece of text or of thought is a part of its
  own, in order, with the signature it came with; a thought that came without one has the signature of the event right
  after it, when that event is nothing but a signature for the same block.\<close>

definition shown :: "StreamEvent \<Rightarrow> (bool \<times> string \<times> string) list" where
  "shown ev =
     (case evDelta ev of
        None \<Rightarrow> []
      | Some d \<Rightarrow>
          if evType ev \<noteq> EventContentDelta then []
          else if dType d = BlockThinking then [(True, dThinking d, dSignature d)]
          else if dType d = BlockText \<and> (dText d \<noteq> '''' \<or> dSignature d \<noteq> '''') then [(False, dText d, dSignature d)]
          else [])"

definition signed_by :: "StreamEvent \<Rightarrow> StreamEvent \<Rightarrow> bool" where
  "signed_by ev nxt =
     (case (shown ev, shown nxt) of
        ([(th, _, sig)], [(th', s', sig')]) \<Rightarrow> th \<and> sig = '''' \<and> th' \<and> s' = '''' \<and> sig' \<noteq> '''' \<and> evIndex nxt = evIndex ev
      | _ \<Rightarrow> False)"

fun due_parts :: "StreamEvent list \<Rightarrow> (bool \<times> string \<times> string) list" where
  "due_parts [] = []"
| "due_parts [ev] = shown ev"
| "due_parts (ev # nxt # evs) =
     (if signed_by ev nxt then map2 (\<lambda>(th, s, _) (_, _, sig). (th, s, sig)) (shown ev) (shown nxt) @ due_parts evs
      else shown ev @ due_parts (nxt # evs))"

text \<open>A call is what its index is given: the first id and name that are not empty, all the arguments, the last signature.\<close>

type_synonym due_call = "string \<times> string \<times> string \<times> string"

fun join_call :: "int \<Rightarrow> due_call \<Rightarrow> (int \<times> due_call) list \<Rightarrow> (int \<times> due_call) list" where
  "join_call i c [] = [(i, c)]"
| "join_call i (ident, name, args, sig) ((j, ident', name', args', sig') # cs) =
     (if i = j
      then (j, if ident' = '''' then ident else ident', if name' = '''' then name else name', args' @ args,
              if sig = '''' then sig' else sig) # cs
      else (j, ident', name', args', sig') # join_call i (ident, name, args, sig) cs)"

definition gm_take :: "StreamEvent \<Rightarrow> (int \<times> due_call) list \<Rightarrow> (int \<times> due_call) list" where
  "gm_take ev a =
     (case evDelta ev of
        None \<Rightarrow> a
      | Some d \<Rightarrow>
          if dType d \<noteq> BlockToolUse then a
          else if evType ev = EventBlockStart then join_call (evIndex ev) (dToolID d, dToolName d, '''', '''') a
          else if evType ev = EventContentDelta then join_call (evIndex ev) (dToolID d, dToolName d, dToolInput d, dSignature d) a
          else a)"

text \<open>A call block is started at most once, and no argument comes for it once it or the message has stopped.\<close>

fun one_call_each :: "StreamEvent list \<Rightarrow> int list \<Rightarrow> int list \<Rightarrow> bool" where
  "one_call_each [] seen closed = True"
| "one_call_each (ev # evs) seen closed =
     (let tool = (case evDelta ev of Some d \<Rightarrow> dType d = BlockToolUse | None \<Rightarrow> False); i = evIndex ev in
      if evType ev = EventBlockStart \<and> tool then i \<notin> set seen \<and> i \<notin> set closed \<and> one_call_each evs (i # seen) closed
      else if evType ev = EventContentDelta \<and> tool then i \<notin> set closed \<and> one_call_each evs (i # seen) closed
      else if evType ev = EventBlockStop then one_call_each evs seen (i # closed)
      else if evType ev = EventMessageStop then one_call_each evs seen (seen @ closed)
      else one_call_each evs seen closed)"

definition whole_call :: "(string \<Rightarrow> json option) \<Rightarrow> int \<times> due_call \<Rightarrow> (string \<times> string \<times> json \<times> string) option" where
  "whole_call valid c = (case c of (i, ident, name, args, sig) \<Rightarrow>
     map_option (\<lambda>j. (ident, name, j, sig)) (if args = '''' then Some (JObj []) else valid args))"

definition take_stop :: "StreamEvent \<Rightarrow> StopReason \<Rightarrow> StopReason" where
  "take_stop ev s = (if evType ev \<in> {EventMessageDelta, EventMessageStop} \<and> evStopReason ev \<noteq> StopOther '''' then evStopReason ev else s)"

lemma join_keys: "fst ` set (join_call i c cs) = insert i (fst ` set cs)"
  by (induction i c cs rule: join_call.induct) (auto simp: insert_commute)

lemma join_distinct: "distinct (map fst cs) \<Longrightarrow> distinct (map fst (join_call i c cs))"
proof (induction i c cs rule: join_call.induct)
  case (2 i x y z s j x' y' z' s' cs)
  have "set (map fst (join_call i (x, y, z, s) cs)) = insert i (set (map fst cs))" using join_keys[of i "(x, y, z, s)" cs] by simp
  with 2 show ?case by auto
qed simp

lemma join_lookup:
  "map_of (join_call i (x, y, z, s) cs) k =
     (if k = i then Some (case map_of cs i of None \<Rightarrow> (x, y, z, s)
        | Some (x', y', z', s') \<Rightarrow>
            (if x' = '''' then x else x', if y' = '''' then y else y', z' @ z, if s = '''' then s' else s))
      else map_of cs k)"
proof (induction cs)
  case (Cons c cs)
  then show ?case by (cases c) auto
qed simp

text \<open>The calls that are idle_calls, those whose index is not open.\<close>

definition idle_calls :: "(int, pendingCall) gomap \<Rightarrow> (int \<times> due_call) list \<Rightarrow> (int \<times> due_call) list" where
  "idle_calls op cs = filter (\<lambda>x. map_of op (fst x) = None) cs"

lemma idle_join: "map_of op i \<noteq> None \<Longrightarrow> idle_calls op (join_call i c cs) = idle_calls op cs"
  by (induction i c cs rule: join_call.induct) (auto simp: idle_calls_def)

lemma idle_update_open: "map_of op i \<noteq> None \<Longrightarrow> idle_calls (AList.update i pc op) cs = idle_calls op cs"
  by (auto simp: idle_calls_def update_conv intro!: filter_cong)

lemma idle_update_new: "i \<notin> fst ` set cs \<Longrightarrow> idle_calls (AList.update i pc op) cs = idle_calls op cs"
  by (force simp: idle_calls_def update_conv intro!: filter_cong)

lemma idle_delete:
  assumes "distinct (map fst cs)" "map_of cs i = Some r" "map_of op i \<noteq> None"
  shows "mset (idle_calls (AList.delete i op) cs) = add_mset (i, r) (mset (idle_calls op cs))"
  using assms(1,2)
proof (induction cs)
  case (Cons c cs)
  obtain k q where c: "c = (k, q)" by (cases c)
  show ?case
  proof (cases "k = i")
    case True
    then have "\<forall>x \<in> set cs. fst x \<noteq> i" using Cons.prems(1) by (auto simp: c image_iff)
    then have "idle_calls (AList.delete i op) cs = idle_calls op cs" by (auto simp: idle_calls_def delete_conv intro!: filter_cong)
    then show ?thesis using True Cons.prems(2) assms(3) by (simp add: c idle_calls_def delete_conv)
  next
    case False
    then show ?thesis using Cons assms(3) by (auto simp: c idle_calls_def delete_conv)
  qed
qed simp

lemma mset_map_filter_add:
  assumes "mset xs = add_mset x (mset ys)"
  shows "mset (List.map_filter f xs) =
    (case f x of None \<Rightarrow> mset (List.map_filter f ys) | Some y \<Rightarrow> add_mset y (mset (List.map_filter f ys)))"
proof -
  have m: "mset (List.map_filter f zs) = image_mset (\<lambda>z. the (f z)) (filter_mset (\<lambda>z. f z \<noteq> None) (mset zs))" for zs
    by (induction zs) (auto simp: List.map_filter_def)
  show ?thesis by (auto simp: m assms split: option.splits)
qed

definition gm_rel :: "(string \<Rightarrow> json option) \<Rightarrow> gw_state \<Rightarrow> gm_client \<Rightarrow> (int \<times> due_call) list \<Rightarrow> int list \<Rightarrow> int list \<Rightarrow> bool" where
  "gm_rel valid st c a seen closed =
     (gcReasons c = [] \<and> (\<forall>p. gwHeld st = Some p \<longrightarrow> (\<exists>s. p = thought_part s '''')) \<and>
      distinct (map fst a) \<and> fst ` set a = set seen \<and>
      (\<forall>i. map_of (gwCalls st) i = None \<longleftrightarrow> i \<notin> set seen \<or> i \<in> set closed) \<and>
      (\<forall>i pc. map_of (gwCalls st) i = Some pc \<longrightarrow> map_of a i = Some (pcID pc, pcName pc, pcArgs pc, pcSig pc)) \<and>
      mset (gcCalls c) = mset (List.map_filter (whole_call valid) (idle_calls (gwCalls st) a)) \<and>
      (gwMalformed st \<longleftrightarrow> (\<exists>x \<in> set (idle_calls (gwCalls st) a). whole_call valid x = None)))"

lemma gm_rel_closed:
  "gm_rel valid st c a seen closed \<Longrightarrow> (\<forall>i \<in> set seen. i \<in> set closed \<longleftrightarrow> i \<in> set closed') \<Longrightarrow> gm_rel valid st c a seen closed'"
  by (auto simp: gm_rel_def)

lemma gm_rel_seen: "gm_rel valid st c a seen closed \<Longrightarrow> set seen = set seen' \<Longrightarrow> gm_rel valid st c a seen' closed"
  by (auto simp: gm_rel_def)

lemma flushCall_rel:
  assumes "gm_rel valid st c a seen closed" "flushCall valid i st = (st1, out)"
  shows "gm_rel valid st1 (fold gm_chunk out c) a seen (i # closed) \<and> gwHeld st1 = gwHeld st \<and> gwStop st1 = gwStop st \<and>
    gwModel st1 = gwModel st"
proof (cases "map_of (gwCalls st) i")
  case None
  then have "st1 = st" "out = []" using assms(2) by (simp_all add: flushCall_def)
  moreover have "i \<in> set seen \<Longrightarrow> i \<in> set closed" using None assms(1) by (auto simp: gm_rel_def)
  ultimately show ?thesis using gm_rel_closed[OF assms(1), of "i # closed"] by auto
next
  case (Some pc)
  let ?r = "(pcID pc, pcName pc, pcArgs pc, pcSig pc)"
  have lk: "map_of a i = Some ?r" and d: "distinct (map fst a)" using assms(1) Some by (auto simp: gm_rel_def)
  have ms: "mset (idle_calls (AList.delete i (gwCalls st)) a) = add_mset (i, ?r) (mset (idle_calls (gwCalls st) a))"
    by (rule idle_delete[OF d lk]) (simp add: Some)
  then have ss: "set (idle_calls (AList.delete i (gwCalls st)) a) = insert (i, ?r) (set (idle_calls (gwCalls st) a))"
    by (metis set_mset_add_mset_insert set_mset_mset)
  have keys: "map_of (AList.delete i (gwCalls st)) k = None \<longleftrightarrow> k \<notin> set seen \<or> k \<in> set (i # closed)" for k
    using assms(1) by (auto simp: gm_rel_def)
  have ents: "map_of (AList.delete i (gwCalls st)) k = Some pc' \<Longrightarrow>
      map_of a k = Some (pcID pc', pcName pc', pcArgs pc', pcSig pc')" for k pc'
    using assms(1) by (auto simp: gm_rel_def split: if_splits)
  note mf = mset_map_filter_add[OF ms, of "whole_call valid"]
  show ?thesis
  proof (cases "if pcArgs pc = '''' then Some (JObj []) else valid (pcArgs pc)")
    case None
    then have w: "whole_call valid (i, ?r) = None" by (simp add: whole_call_def)
    have o: "out = []" "st1 = st\<lparr>gwCalls := AList.delete i (gwCalls st), gwMalformed := True\<rparr>"
      using assms(2) by (simp_all only: flushCall_def Some Let_def option.case None prod.inject)
    show ?thesis using assms(1) keys ents mf w ss unfolding o gm_rel_def by simp
  next
    case (Some j)
    then have w: "whole_call valid (i, ?r) = Some (pcID pc, pcName pc, j, pcSig pc)" by (simp add: whole_call_def)
    have o: "out = [partChunk (gwModel st) [JObj (call_part (pcID pc) (pcName pc) j (pcSig pc))]]"
      "st1 = st\<lparr>gwCalls := AList.delete i (gwCalls st)\<rparr>"
      using assms(2) by (simp_all only: flushCall_def \<open>map_of (gwCalls st) i = _\<close> Let_def option.case Some prod.inject)
    show ?thesis using assms(1) keys ents mf w ss unfolding o gm_rel_def by (simp add: chunk_call)
  qed
qed

lemma flushCalls_rel:
  assumes "gm_rel valid st c a seen closed" "emits (map (flushCall valid) ks) st = (st1, out)"
  shows "gm_rel valid st1 (fold gm_chunk out c) a seen (rev ks @ closed) \<and> gwHeld st1 = gwHeld st \<and> gwStop st1 = gwStop st \<and>
    gwModel st1 = gwModel st"
  using assms
proof (induction ks arbitrary: st c closed out)
  case (Cons k ks)
  obtain st0 o0 where f: "flushCall valid k st = (st0, o0)" by fastforce
  obtain o1 where e: "emits (map (flushCall valid) ks) st0 = (st1, o1)" "out = o0 @ o1"
    using Cons.prems(2) by (auto simp: f split: prod.splits)
  from Cons.IH[OF flushCall_rel[OF Cons.prems(1) f, THEN conjunct1] e(1)] flushCall_rel[OF Cons.prems(1) f] show ?case
    by (simp add: e(2))
qed simp

lemma flushAll_rel:
  assumes "gm_rel valid st c a seen closed" "flushAllCalls valid st = (st1, out)"
  shows "gm_rel valid st1 (fold gm_chunk out c) a seen (seen @ closed) \<and> gwHeld st1 = gwHeld st \<and> gwStop st1 = gwStop st"
proof -
  have "i \<in> set (map fst (gwCalls st)) \<longleftrightarrow> i \<in> set seen \<and> i \<notin> set closed" for i
    using assms(1) map_of_eq_None_iff[of "gwCalls st" i] by (auto simp: gm_rel_def)
  then show ?thesis
    using flushCalls_rel[OF assms(1) assms(2)[unfolded flushAllCalls_def]] by (auto elim!: gm_rel_closed)
qed

lemma flushThought_rel:
  assumes "gm_rel valid st c a seen closed" "flushThought st = (st1, out)"
  shows "gm_rel valid st1 (fold gm_chunk out c) a seen closed \<and> gwHeld st1 = None \<and> st1 = st\<lparr>gwHeld := None\<rparr>"
  using assms by (auto simp: flushThought_def gm_rel_def chunk_thought split: option.splits)

lemma piece_rel:
  assumes r: "gm_rel valid st c a seen closed" and i: "i \<notin> set closed"
    and pc: "(pcID pc, pcName pc, pcArgs pc, pcSig pc) = the (map_of (join_call i x a) i)"
  shows "gm_rel valid (st\<lparr>gwCalls := AList.update i pc (gwCalls st)\<rparr>) c (join_call i x a) (i # seen) closed"
proof -
  obtain x1 x2 x3 x4 where x: "x = (x1, x2, x3, x4)" by (cases x)
  let ?cs = "join_call i x a" and ?op = "AList.update i pc (gwCalls st)"
  have k: "fst ` set a = set seen" "distinct (map fst a)" using r by (simp_all add: gm_rel_def)
  have "i \<in> set seen \<Longrightarrow> map_of (gwCalls st) i \<noteq> None" using r i by (auto simp: gm_rel_def)
  moreover have "idle_calls ?op (join_call i x a) = idle_calls ?op a"
    by (rule idle_join) (simp add: update_conv)
  ultimately have s: "idle_calls ?op ?cs = idle_calls (gwCalls st) a"
    using idle_update_open[of "gwCalls st" i] idle_update_new[of i a] k(1) by metis
  have lk: "map_of ?cs i = Some (pcID pc, pcName pc, pcArgs pc, pcSig pc)" using pc by (simp add: x join_lookup)
  show ?thesis
    using r i s lk join_keys[of i x a] join_distinct[OF k(2)] unfolding gm_rel_def
    by (auto simp: update_conv x join_lookup)
qed

lemma gw_switch_rel:
  assumes r: "gm_rel valid st c a seen closed" and h: "gwHeld st = None" and e: "gw_switch valid ev st = (st1, out)"
    and o: "one_call_each (ev # evs) seen closed"
  shows "\<exists>seen' closed'. gm_rel valid st1 (fold gm_chunk out c) (gm_take ev a) seen' closed' \<and> one_call_each evs seen' closed' \<and>
    gwStop st1 = take_stop ev (gwStop st)"
proof -
  have stop: "gm_rel valid (set_gw_stop s st) c a seen closed" "gwHeld (set_gw_stop s st) = gwHeld st" for s
    using r by (cases "s = StopOther ''''"; simp add: set_gw_stop_def gm_rel_def del: map_of_eq_Some_iff)+
  have keep: "gm_rel valid (st\<lparr>gwModel := m\<rparr>) c a seen closed" "gm_rel valid (st\<lparr>gwUsage := u\<rparr>) c a seen closed" for m u
    using r by (simp_all add: gm_rel_def del: map_of_eq_Some_iff)
  have flat: "gm_take ev a = a" if "evType ev \<notin> {EventBlockStart, EventContentDelta}"
    using that by (auto simp: gm_take_def split: option.splits)
  have fin: ?thesis if "gm_rel valid st1 (fold gm_chunk out c) (gm_take ev a) s2 c2" "one_call_each evs s2 c2"
      "gwStop st1 = take_stop ev (gwStop st)" for s2 c2
    using that by blast
  show ?thesis
  proof (cases "evType ev")
    case EventMessageStart
    then show ?thesis using e o keep(1)[of "evModel ev"] flat
      by (intro fin[of seen closed]) (auto simp: gw_switch_def take_stop_def Let_def)
  next
    case EventBlockStart
    show ?thesis
    proof (cases "case evDelta ev of Some d \<Rightarrow> dType d = BlockToolUse | None \<Rightarrow> False")
      case False
      then have "gm_take ev a = a" "st1 = st" "out = []" using EventBlockStart e
        by (auto simp: gw_switch_def gm_take_def split: option.splits if_splits)
      then show ?thesis using EventBlockStart False o r
        by (intro fin[of seen closed]) (auto simp: take_stop_def Let_def split: option.splits)
    next
      case True
      then obtain d where d: "evDelta ev = Some d" "dType d = BlockToolUse" by (auto split: option.splits)
      let ?i = "evIndex ev"
      have n: "?i \<notin> set seen" "?i \<notin> set closed" "one_call_each evs (?i # seen) closed"
        using o EventBlockStart d by (auto simp: Let_def)
      have "map_of a ?i = None" using n(1) r by (auto simp: gm_rel_def map_of_eq_None_iff)
      then have "(dToolID d, dToolName d, '''', '''') = the (map_of (join_call ?i (dToolID d, dToolName d, '''', '''') a) ?i)"
        by (simp add: join_lookup)
      with piece_rel[OF r n(2), of "\<lparr>pcID = dToolID d, pcName = dToolName d, pcArgs = '''', pcSig = ''''\<rparr>"
          "(dToolID d, dToolName d, '''', '''')"]
      show ?thesis using e EventBlockStart d n(3)
        by (intro fin[of "evIndex ev # seen" closed]) (auto simp: gw_switch_def gm_take_def take_stop_def)
    qed
  next
    case EventContentDelta
    show ?thesis
    proof (cases "evDelta ev")
      case None
      then show ?thesis using EventContentDelta e o r
        by (intro fin[of seen closed]) (auto simp: gw_switch_def gm_take_def take_stop_def Let_def)
    next
      case (Some d)
      show ?thesis
      proof (cases "dType d = BlockToolUse")
        case True
        let ?i = "evIndex ev"
        have n: "?i \<notin> set closed" "one_call_each evs (?i # seen) closed" using o EventContentDelta Some True by (auto simp: Let_def)
        have look: "map_of (gwCalls st) ?i = None \<longleftrightarrow> map_of a ?i = None"
          "map_of (gwCalls st) ?i = Some pc \<Longrightarrow> map_of a ?i = Some (pcID pc, pcName pc, pcArgs pc, pcSig pc)" for pc
          using r n(1) by (auto simp: gm_rel_def map_of_eq_None_iff)
        let ?pc = "call_piece d (map_of (gwCalls st) ?i)"
        have "(pcID ?pc, pcName ?pc, pcArgs ?pc, pcSig ?pc) =
            the (map_of (join_call ?i (dToolID d, dToolName d, dToolInput d, dSignature d) a) ?i)"
          using look by (auto simp: join_lookup call_piece_def Let_def split: option.splits)
        from piece_rel[OF r n(1) this] show ?thesis
          using e EventContentDelta Some True n(2)
          by (intro fin[of "evIndex ev # seen" closed]) (auto simp: gw_switch_def gw_delta_def gm_take_def take_stop_def)
      next
        case False
        have "gm_rel valid st1 (fold gm_chunk out c) (gm_take ev a) seen closed \<and> gwStop st1 = gwStop st"
          using r h e EventContentDelta Some False
          by (auto simp: gw_switch_def gw_delta_def gm_take_def gm_rel_def Let_def chunk_text chunk_thought split: BlockType.splits if_splits)
        then show ?thesis using o EventContentDelta Some False
          by (intro fin[of seen closed]) (auto simp: take_stop_def Let_def)
      qed
    qed
  next
    case EventBlockStop
    from flushCall_rel[OF r] e o show ?thesis using EventBlockStop flat
      by (intro fin[of seen "evIndex ev # closed"]) (auto simp: gw_switch_def take_stop_def)
  next
    case EventMessageStop
    from flushAll_rel[OF stop(1)] e o show ?thesis using EventMessageStop flat
      by (intro fin[of seen "seen @ closed"]) (auto simp: gw_switch_def take_stop_def set_gw_stop_def)
  next
    case EventMessageDelta
    have "gm_rel valid (set_gw_stop (evStopReason ev) (case evUsage ev of None \<Rightarrow> st | Some u \<Rightarrow> st\<lparr>gwUsage := u\<rparr>)) c a seen closed"
      using keep(2) r by (auto simp: gm_rel_def set_gw_stop_def simp del: map_of_eq_Some_iff split: option.splits)
    then show ?thesis using e o EventMessageDelta flat
      by (intro fin[of seen closed]) (auto simp: gw_switch_def take_stop_def Let_def set_gw_stop_def split: option.splits if_splits)
  qed (rule fin[of seen closed], use e o r flat in \<open>auto simp: gw_switch_def take_stop_def Let_def\<close>)+
qed

lemma thought_signed: "thought_part s '''' @ sig_member sig = thought_part s sig"
  by (simp add: thought_part_def sig_member_def)

lemma gw_event_rel:
  assumes r: "gm_rel valid st c a seen closed" and e: "gw_event valid ev st = (st1, out)"
    and o: "one_call_each (ev # evs) seen closed"
  shows "\<exists>seen' closed'. gm_rel valid st1 (fold gm_chunk out c) (gm_take ev a) seen' closed' \<and> one_call_each evs seen' closed' \<and>
    gwStop st1 = take_stop ev (gwStop st)"
proof (cases "rejoins ev st")
  case True
  then obtain d p where d: "evType ev = EventContentDelta" "evDelta ev = Some d" "dType d = BlockThinking" "dThinking d = ''''"
    "gwHeld st = Some p" by (auto simp: rejoins_def split: option.splits)
  obtain s where p: "p = thought_part s ''''" using r d(5) by (auto simp: gm_rel_def)
  have "gm_rel valid st1 (fold gm_chunk out c) a seen closed" "gwStop st1 = gwStop st"
    using r e True p by (auto simp: gw_event_def flushThought_def d thought_signed chunk_thought gm_rel_def simp del: map_of_eq_Some_iff)
  moreover have "gm_take ev a = a" by (simp add: gm_take_def d)
  ultimately show ?thesis using o d by (intro exI[of _ seen] exI[of _ closed]) (auto simp: take_stop_def Let_def)
next
  case False
  obtain st0 o0 where f: "flushThought st = (st0, o0)" by fastforce
  obtain o1 where s: "gw_switch valid ev st0 = (st1, o1)" "out = o0 @ o1"
    using e False by (auto simp: gw_event_def f split: prod.splits)
  note fr = flushThought_rel[OF r f]
  from gw_switch_rel[OF fr[THEN conjunct1] fr[THEN conjunct2, THEN conjunct1] s(1) o] fr show ?thesis by (auto simp: s(2))
qed

lemma gw_run_rel:
  assumes "gm_rel valid st c a seen closed" "one_call_each evs seen closed"
  shows "\<exists>st1 out seen' closed'. gw_run valid (map Inl evs) st = out @ gw_end valid st1 \<and>
    gm_rel valid st1 (fold gm_chunk out c) (fold gm_take evs a) seen' closed' \<and> gwStop st1 = fold take_stop evs (gwStop st)"
  using assms
proof (induction evs arbitrary: st c a seen closed)
  case Nil
  then show ?case by (intro exI[of _ st] exI[of _ "[]"] exI[of _ seen] exI[of _ closed]) simp
next
  case (Cons ev evs)
  obtain st1 out where e: "gw_event valid ev st = (st1, out)" by fastforce
  obtain s1 c1 where 1: "gm_rel valid st1 (fold gm_chunk out c) (gm_take ev a) s1 c1" "one_call_each evs s1 c1"
    "gwStop st1 = take_stop ev (gwStop st)" using gw_event_rel[OF Cons.prems(1) e Cons.prems(2)] by blast
  obtain st2 out2 s2 c2 where 2: "gw_run valid (map Inl evs) st1 = out2 @ gw_end valid st2"
    "gm_rel valid st2 (fold gm_chunk out2 (fold gm_chunk out c)) (fold gm_take evs (gm_take ev a)) s2 c2"
    "gwStop st2 = fold take_stop evs (gwStop st1)" using Cons.IH[OF 1(1,2)] by blast
  then show ?case using 1(3)
    by (intro exI[of _ st2] exI[of _ "out @ out2"] exI[of _ s2] exI[of _ c2]) (simp add: e)
qed

definition due_reason :: "(string \<Rightarrow> json option) \<Rightarrow> (int \<times> due_call) list \<Rightarrow> StopReason \<Rightarrow> string" where
  "due_reason valid a stop =
     (if (\<exists>x \<in> set a. whole_call valid x = None) \<and> stop \<noteq> StopMaxTokens then ''MALFORMED_FUNCTION_CALL''
      else finishReasonWire stop)"

lemma gw_end_rel:
  assumes "gm_rel valid st c a seen closed"
  shows "let c1 = fold gm_chunk (gw_end valid st) c in
    mset (gcCalls c1) = mset (List.map_filter (whole_call valid) a) \<and> gcReasons c1 = [due_reason valid a (gwStop st)]"
proof -
  obtain st1 o1 where 1: "flushThought st = (st1, o1)" by fastforce
  obtain st2 o2 where 2: "flushAllCalls valid st1 = (st2, o2)" by fastforce
  note r1 = flushThought_rel[OF assms 1]
  note r2 = flushAll_rel[OF r1[THEN conjunct1] 2]
  have r: "gm_rel valid st2 (fold gm_chunk o2 (fold gm_chunk o1 c)) a seen (seen @ closed)" "gwHeld st2 = None" "gwStop st2 = gwStop st"
    using r1 r2 by auto
  have none: "map_of (gwCalls st2) i = None" for i using r(1) by (simp add: gm_rel_def)
  have "idle_calls (gwCalls st2) a = a" by (simp add: idle_calls_def none)
  then show ?thesis
    using r by (simp add: gw_end_def 1 2 gm_rel_def chunk_terminal due_reason_def gw_reason_def Let_def del: not_None_eq)
qed

text \<open>The parts: what the client has, with what is held back and what is still to come, is what is due. The thought held
  back is the part of an event that still waits for the next one.\<close>

definition held_ok :: "gw_state \<Rightarrow> StreamEvent list \<Rightarrow> bool" where
  "held_ok st h =
     (case gwHeld st of
        None \<Rightarrow> h = []
      | Some p \<Rightarrow> \<exists>ev s. h = [ev] \<and> p = thought_part s '''' \<and> shown ev = [(True, s, '''')] \<and> evIndex ev = gwHeldIdx st)"

lemma due_parts_free: "\<nexists>s. shown ev = [(True, s, '''')] \<Longrightarrow> due_parts (ev # evs) = shown ev @ due_parts evs"
  by (cases evs) (auto simp: signed_by_def split: list.splits)

lemma flushCall_parts:
  "flushCall valid i st = (st1, out) \<Longrightarrow> gmParts (fold gm_chunk out c) = gmParts c \<and> gwHeld st1 = gwHeld st"
  by (auto simp: flushCall_def chunk_call Let_def split: option.splits)

lemma flushCalls_parts:
  "emits (map (flushCall valid) ks) st = (st1, out) \<Longrightarrow> gmParts (fold gm_chunk out c) = gmParts c \<and> gwHeld st1 = gwHeld st"
proof (induction ks arbitrary: st c out)
  case (Cons k ks)
  obtain st0 o0 where f: "flushCall valid k st = (st0, o0)" by fastforce
  obtain o1 where e: "emits (map (flushCall valid) ks) st0 = (st1, o1)" "out = o0 @ o1"
    using Cons.prems by (auto simp: f split: prod.splits)
  from Cons.IH[OF e(1), of "fold gm_chunk o0 c"] flushCall_parts[OF f, of c] show ?case by (simp add: e(2))
qed simp

lemma flushThought_parts:
  assumes "held_ok st h" "flushThought st = (st1, out)"
  shows "gmParts (fold gm_chunk out c) = gmParts c @ concat (map shown h) \<and> gwHeld st1 = None"
  using assms by (auto simp: held_ok_def flushThought_def chunk_thought split: option.splits)

lemma gw_switch_parts:
  assumes "gw_switch valid ev st = (st1, out)" "gwHeld st = None"
  shows "\<exists>h. held_ok st1 h \<and> gmParts (fold gm_chunk out c) @ concat (map shown h) = gmParts c @ shown ev \<and>
    (if h = [] then \<nexists>s. shown ev = [(True, s, '''')] else h = [ev])"
proof -
  have quiet: ?thesis if "shown ev = []" "gmParts (fold gm_chunk out c) = gmParts c" "gwHeld st1 = None"
    using that by (intro exI[of _ "[]"]) (simp add: held_ok_def)
  have stops: "gwHeld (set_gw_stop s st') = gwHeld st'" for s st' by (simp add: set_gw_stop_def)
  show ?thesis
  proof (cases "evType ev")
    case EventContentDelta
    show ?thesis
    proof (cases "\<exists>d. evDelta ev = Some d \<and> dType d = BlockThinking \<and> dSignature d = ''''")
      case True
      then have "gwHeld st1 = Some (thought_part (dThinking (the (evDelta ev))) '''')" "gwHeldIdx st1 = evIndex ev" "out = []"
        "shown ev = [(True, dThinking (the (evDelta ev)), '''')]"
        using assms EventContentDelta by (auto simp: gw_switch_def gw_delta_def shown_def Let_def)
      then show ?thesis by (intro exI[of _ "[ev]"]) (simp add: held_ok_def)
    next
      case False
      then show ?thesis using assms EventContentDelta
        by (intro exI[of _ "[]"]; cases "evDelta ev")
          (auto simp: held_ok_def gw_switch_def gw_delta_def shown_def chunk_text chunk_thought Let_def split: BlockType.splits if_splits)
    qed
  next
    case EventBlockStop
    then show ?thesis using flushCall_parts[of valid "evIndex ev" st st1 out c] assms
      by (intro quiet) (simp_all add: gw_switch_def shown_def split: option.splits)
  next
    case EventMessageStop
    then show ?thesis using flushCalls_parts[of valid _ "set_gw_stop (evStopReason ev) st" st1 out c] assms
      by (intro quiet) (auto simp: gw_switch_def shown_def flushAllCalls_def stops split: option.splits)
  qed (use assms in \<open>intro quiet; auto simp: gw_switch_def shown_def stops split: option.splits if_splits\<close>)+
qed

lemma gw_run_parts:
  "held_ok st h \<Longrightarrow> gmParts (fold gm_chunk (gw_run valid (map Inl evs) st) c) = gmParts c @ due_parts (h @ evs)"
proof (induction evs arbitrary: st h c)
  case Nil
  obtain st1 o1 where 1: "flushThought st = (st1, o1)" by fastforce
  obtain st2 o2 where 2: "flushAllCalls valid st1 = (st2, o2)" by fastforce
  have "due_parts h = concat (map shown h)" using Nil by (auto simp: held_ok_def split: option.splits)
  then show ?case
    using flushThought_parts[OF Nil 1, of c] flushCalls_parts[OF 2[unfolded flushAllCalls_def], of "fold gm_chunk o1 c"]
    by (simp add: gw_end_def 1 2 chunk_terminal)
next
  case (Cons ev evs)
  obtain st1 out where e: "gw_event valid ev st = (st1, out)" by fastforce
  show ?case
  proof (cases "rejoins ev st")
    case True
    then obtain p d where d: "gwHeld st = Some p" "evType ev = EventContentDelta" "evDelta ev = Some d" "dType d = BlockThinking"
      "dThinking d = ''''" "dSignature d \<noteq> ''''" "evIndex ev = gwHeldIdx st"
      by (auto simp: rejoins_def split: option.splits)
    obtain he s where h: "h = [he]" "p = thought_part s ''''" "shown he = [(True, s, '''')]" "evIndex he = evIndex ev"
      using Cons.prems d by (auto simp: held_ok_def)
    have s: "shown ev = [(True, '''', dSignature d)]" by (simp add: shown_def d)
    have "signed_by he ev" using s h d(6) by (simp add: signed_by_def)
    moreover have "gmParts (fold gm_chunk out c) = gmParts c @ [(True, s, dSignature d)]" "held_ok st1 []"
      using e True h(2) by (auto simp: gw_event_def flushThought_def d thought_signed delta_sig_def chunk_thought held_ok_def)
    ultimately show ?thesis using Cons.IH[of st1 "[]" "fold gm_chunk out c"] s h(1,3) by (simp add: e)
  next
    case False
    obtain st0 o0 where f: "flushThought st = (st0, o0)" by fastforce
    obtain o1 where sw: "gw_switch valid ev st0 = (st1, o1)" "out = o0 @ o1"
      using e False by (auto simp: gw_event_def f split: prod.splits)
    note fr = flushThought_parts[OF Cons.prems f, of c]
    obtain h1 where h1: "held_ok st1 h1" "gmParts (fold gm_chunk out c) @ concat (map shown h1) = gmParts (fold gm_chunk o0 c) @ shown ev"
      "if h1 = [] then \<nexists>s. shown ev = [(True, s, '''')] else h1 = [ev]"
      using gw_switch_parts[OF sw(1) fr[THEN conjunct2], of "fold gm_chunk o0 c"] by (auto simp: sw(2))
    have "due_parts (h @ ev # evs) = concat (map shown h) @ due_parts (ev # evs)"
    proof (cases "gwHeld st")
      case None
      then show ?thesis using Cons.prems by (simp add: held_ok_def)
    next
      case (Some p)
      then obtain he s where h: "h = [he]" "shown he = [(True, s, '''')]" "evIndex he = gwHeldIdx st"
        using Cons.prems by (auto simp: held_ok_def)
      have "\<not> signed_by he ev"
        using False Some h by (auto simp: signed_by_def rejoins_def shown_def split: option.splits if_splits list.splits)
      then show ?thesis using h(1) by simp
    qed
    moreover have "gmParts (fold gm_chunk out c) @ due_parts (h1 @ evs) = gmParts (fold gm_chunk o0 c) @ due_parts (ev # evs)"
      using h1(2,3) due_parts_free[of ev evs] by (auto split: if_splits)
    ultimately show ?thesis using Cons.IH[OF h1(1), of "fold gm_chunk out c"] fr by (simp add: e)
  qed
qed

text \<open>C17. What the client of a Gemini route receives from a translated stream. When the upstream's events are read without
  error, fit the cap before their first content, start and stop each call block at most once and the client takes
  every write, the attempt succeeds, and the bytes the client has received since are chunks, as frames of an event stream
  or as one JSON array. A client that collects their parts has each piece of text and of thought of the canonical
  events as a part of its own, in order and with its signature, the one that came with it or the one that came alone
  right after it; each call whose arguments are JSON exactly once, whole, with its id, its name and its signature; and
  sees one finish reason, which says so when a call had to be dropped because its arguments are not JSON, unless it
  says that the stream met its token limit.\<close>

theorem gemini_client_stream:
  assumes "map fst pulls = map Inl evs" "exMaxPrecommit env \<le> 0 \<or> held_bytes evs \<le> exMaxPrecommit env"
    and "healthy (xCW xs)" "one_call_each evs [] []"
  shows "\<exists>xs' vs. attemptStream env ck (gm_WriteStream m valid asSSE) pulls cx xs = (xs', OutcomeSuccess, None) \<and>
    cwOut (xCW xs') = cwOut (xCW xs) @
      (if asSSE then wire_text m (map (Pair '''') vs) else ''['' @ Join '','' (map m vs) @ '']'') \<and>
    (let c = fold gm_chunk vs gm_nothing; calls = fold gm_take evs []; stop = fold take_stop evs StopEndTurn
     in gmParts c = due_parts evs \<and>
        mset (gcCalls c) = mset (List.map_filter (whole_call valid) calls) \<and> gcReasons c = [due_reason valid calls stop])"
proof -
  have "gm_rel valid gw_init gm_nothing [] [] []"
    by (simp add: gm_rel_def gw_init_def gm_nothing_def idle_calls_def List.map_filter_def)
  from gw_run_rel[OF this assms(4)] obtain st1 out s1 c1 where r: "gw_run valid (map Inl evs) gw_init = out @ gw_end valid st1"
    "gm_rel valid st1 (fold gm_chunk out gm_nothing) (fold gm_take evs []) s1 c1"
    "gwStop st1 = fold take_stop evs StopEndTurn" by (auto simp: gw_init_def)
  have p: "gmParts (fold gm_chunk (gw_run valid (map Inl evs) gw_init) gm_nothing) = due_parts evs"
    using gw_run_parts[of gw_init "[]" valid evs gm_nothing] by (simp add: held_ok_def gw_init_def gm_nothing_def)
  obtain xs' where x: "attemptStream env ck (gm_WriteStream m valid asSSE) pulls cx xs = (xs', OutcomeSuccess, None)"
    "cwOut (xCW xs') = cwOut (xCW xs) @ text_run (gw_sends m valid) (gw_last m valid) evs (dlInit (gm_WriteStream m valid asSSE))"
    using gemini.client_receives[OF assms(1-3), of ck m valid asSSE cx] by blast
  from gw_end_rel[OF r(2)] p x show ?thesis
    by (intro exI[of _ xs'] exI[of _ "gw_run valid (map Inl evs) gw_init"]) (simp add: gemini_text Let_def r(1,3))
qed

definition demo_gemini_events :: "StreamEvent list" where
  "demo_gemini_events = [delta_ev 1 (thinking_d ''hm''), delta_ev 1 (signature_d ''s''), delta_ev 0 (text_d ''a''),
     demo_tool_event EventBlockStart 2 ''x'' '''', demo_tool_event EventContentDelta 2 '''' ''{'', demo_tool_event EventBlockStart 3 ''y'' '''',
     demo_tool_event EventContentDelta 3 '''' ''{}'', block_stop 3]"

theorem gemini_client_stream_witness:
  "\<exists>xs' vs. attemptStream demo_stream_env demo_stream_clock
      (gm_WriteStream (\<lambda>_. ''{}'') (\<lambda>s. if s = ''{}'' then Some (JObj []) else None) False)
      (map (\<lambda>e. (Inl e, demo_stream_ctx)) demo_gemini_events) demo_stream_ctx demo_stream_state = (xs', OutcomeSuccess, None) \<and>
     cwOut (xCW xs') = ''['' @ Join '','' (map (\<lambda>_. ''{}'') vs) @ '']'' \<and>
     gmParts (fold gm_chunk vs gm_nothing) = [(True, ''hm'', ''s''), (False, ''a'', '''')] \<and>
     mset (gcCalls (fold gm_chunk vs gm_nothing)) = {#(''y'', '''', JObj [], '''')#} \<and>
     gcReasons (fold gm_chunk vs gm_nothing) = [''MALFORMED_FUNCTION_CALL'']"
proof -
  let ?valid = "\<lambda>s. if s = ''{}'' then Some (JObj []) else None"
  note defs = demo_gemini_events_def demo_tool_event_def zero_event_def zero_delta_def delta_ev_def thinking_d_def signature_d_def
    text_d_def block_stop_def
  have "exMaxPrecommit demo_stream_env \<le> 0 \<or> held_bytes demo_gemini_events \<le> exMaxPrecommit demo_stream_env"
    by (simp add: demo_stream_env_def defs eventBytes_def)
  moreover have "healthy (xCW demo_stream_state)" "cwOut (xCW demo_stream_state) = []"
    by (simp_all add: healthy_def demo_stream_state_def NewCommitWriter_def)
  moreover have "one_call_each demo_gemini_events [] []" by (simp add: defs Let_def)
  moreover have "fold gm_take demo_gemini_events [] = [(2, ''x'', '''', ''{'', ''''), (3, ''y'', '''', ''{}'', '''')]"
    "fold take_stop demo_gemini_events StopEndTurn = StopEndTurn"
    by (simp_all add: defs gm_take_def take_stop_def)
  moreover have "due_parts demo_gemini_events = [(True, ''hm'', ''s''), (False, ''a'', '''')]"
    by (simp add: defs shown_def signed_by_def)
  ultimately show ?thesis
    using gemini_client_stream[of "map (\<lambda>e. (Inl e, demo_stream_ctx)) demo_gemini_events" demo_gemini_events demo_stream_env
        demo_stream_state demo_stream_clock "\<lambda>_. ''{}''" ?valid False demo_stream_ctx]
    by (simp add: comp_def Let_def due_reason_def whole_call_def List.map_filter_def)
qed

end

