(* ===== verification/Gemini_Parser.thy ===== *)
theory Gemini_Parser
  imports Gemini_Writer
begin

text \<open>
  The Gemini adapter's response side, \<^verbatim>\<open>internal/adapter/gemini/parse.go\<close> and \<^verbatim>\<open>stream.go\<close>: the wire structs and their
  decoding, the ids given to calls Gemini leaves unnamed, the unary response and the stream's state machine. A chunk
  carries new content to append: text parts are fragments, a call arrives whole.

  \<open>rand_base\<close> is the random base of the ids of a response without an id, \<open>digest\<close> the hexadecimal SHA-256 of a long one;
  \<open>unmarshal\<close> and \<open>raw_text\<close> are as in the other parsers.
\<close>

section \<open>Wire structs\<close>

record gm_inline =
  inMime :: string
  inData :: string

record gm_functionCall =
  gfID :: string
  gfName :: string
  gfArgs :: "json option"

record gm_wirePart =
  gpText :: string
  gpThought :: bool
  gpSignature :: string
  gpInline :: "gm_inline option"
  gpCall :: "gm_functionCall option"

record gm_wireCandidate =
  gcRole :: string
  gcParts :: "gm_wirePart list"
  gcFinish :: string

record gm_wireUsage =
  guPrompt :: int
  guCandidates :: int
  guCached :: int
  guThoughts :: int
  guTotal :: int

record gm_wireError =
  gmCode :: int
  gmMessage :: string
  gmStatus :: string

record gm_wireResponse =
  grID :: string
  grModel :: string
  grCandidates :: "gm_wireCandidate list option"
  grFeedback :: "string option"
  grUsage :: gm_wireUsage
  grError :: "gm_wireError option"

definition gm_dec_inline :: "json \<Rightarrow> gm_inline \<Rightarrow> gm_inline option" where
  "gm_dec_inline = dec_struct (\<lambda>k v s.
     if k = ''mimetype'' then set_field (\<lambda>x s. s\<lparr>inMime := x\<rparr>) (dec_string v (inMime s)) s
     else if k = ''data'' then set_field (\<lambda>x s. s\<lparr>inData := x\<rparr>) (dec_string v (inData s)) s
     else Some s)"

definition gm_dec_call :: "json \<Rightarrow> gm_functionCall \<Rightarrow> gm_functionCall option" where
  "gm_dec_call = dec_struct (\<lambda>k v s.
     if k = ''id'' then set_field (\<lambda>x s. s\<lparr>gfID := x\<rparr>) (dec_string v (gfID s)) s
     else if k = ''name'' then set_field (\<lambda>x s. s\<lparr>gfName := x\<rparr>) (dec_string v (gfName s)) s
     else if k = ''args'' then Some (s\<lparr>gfArgs := Some v\<rparr>)
     else Some s)"

definition gm_zero_part :: gm_wirePart where
  "gm_zero_part = \<lparr>gpText = '''', gpThought = False, gpSignature = '''', gpInline = None, gpCall = None\<rparr>"

definition gm_dec_part :: "json \<Rightarrow> gm_wirePart \<Rightarrow> gm_wirePart option" where
  "gm_dec_part = dec_struct (\<lambda>k v s.
     if k = ''text'' then set_field (\<lambda>x s. s\<lparr>gpText := x\<rparr>) (dec_string v (gpText s)) s
     else if k = ''thought'' then set_field (\<lambda>x s. s\<lparr>gpThought := x\<rparr>) (dec_bool v (gpThought s)) s
     else if k = ''thoughtsignature'' then set_field (\<lambda>x s. s\<lparr>gpSignature := x\<rparr>) (dec_string v (gpSignature s)) s
     else if k = ''inlinedata'' then
       set_field (\<lambda>x s. s\<lparr>gpInline := x\<rparr>) (dec_ptr \<lparr>inMime = '''', inData = ''''\<rparr> gm_dec_inline v (gpInline s)) s
     else if k = ''functioncall'' then
       set_field (\<lambda>x s. s\<lparr>gpCall := x\<rparr>) (dec_ptr \<lparr>gfID = '''', gfName = '''', gfArgs = None\<rparr> gm_dec_call v (gpCall s)) s
     else Some s)"

definition gm_zero_candidate :: gm_wireCandidate where
  "gm_zero_candidate = \<lparr>gcRole = '''', gcParts = [], gcFinish = ''''\<rparr>"

definition gm_dec_candidate :: "json \<Rightarrow> gm_wireCandidate \<Rightarrow> gm_wireCandidate option" where
  "gm_dec_candidate = dec_struct (\<lambda>k v s.
     if k = ''content'' then
       dec_struct (\<lambda>k v s.
         if k = ''role'' then set_field (\<lambda>x s. s\<lparr>gcRole := x\<rparr>) (dec_string v (gcRole s)) s
         else if k = ''parts'' then set_field (\<lambda>x s. s\<lparr>gcParts := x\<rparr>) (dec_slice gm_zero_part gm_dec_part v (gcParts s)) s
         else Some s) v s
     else if k = ''finishreason'' then set_field (\<lambda>x s. s\<lparr>gcFinish := x\<rparr>) (dec_string v (gcFinish s)) s
     else Some s)"

definition gm_zero_usage :: gm_wireUsage where
  "gm_zero_usage = \<lparr>guPrompt = 0, guCandidates = 0, guCached = 0, guThoughts = 0, guTotal = 0\<rparr>"

definition gm_dec_usage :: "json \<Rightarrow> gm_wireUsage \<Rightarrow> gm_wireUsage option" where
  "gm_dec_usage = dec_struct (\<lambda>k v s.
     if k = ''prompttokencount'' then set_field (\<lambda>x s. s\<lparr>guPrompt := x\<rparr>) (dec_int v (guPrompt s)) s
     else if k = ''candidatestokencount'' then set_field (\<lambda>x s. s\<lparr>guCandidates := x\<rparr>) (dec_int v (guCandidates s)) s
     else if k = ''cachedcontenttokencount'' then set_field (\<lambda>x s. s\<lparr>guCached := x\<rparr>) (dec_int v (guCached s)) s
     else if k = ''thoughtstokencount'' then set_field (\<lambda>x s. s\<lparr>guThoughts := x\<rparr>) (dec_int v (guThoughts s)) s
     else if k = ''totaltokencount'' then set_field (\<lambda>x s. s\<lparr>guTotal := x\<rparr>) (dec_int v (guTotal s)) s
     else Some s)"

definition gm_dec_error :: "json \<Rightarrow> gm_wireError \<Rightarrow> gm_wireError option" where
  "gm_dec_error = dec_struct (\<lambda>k v s.
     if k = ''code'' then set_field (\<lambda>x s. s\<lparr>gmCode := x\<rparr>) (dec_int v (gmCode s)) s
     else if k = ''message'' then set_field (\<lambda>x s. s\<lparr>gmMessage := x\<rparr>) (dec_string v (gmMessage s)) s
     else if k = ''status'' then set_field (\<lambda>x s. s\<lparr>gmStatus := x\<rparr>) (dec_string v (gmStatus s)) s
     else Some s)"

definition gm_dec_feedback :: "json \<Rightarrow> string \<Rightarrow> string option" where
  "gm_dec_feedback = dec_struct (\<lambda>k v s. if k = ''blockreason'' then dec_string v s else Some s)"

text \<open>A slice that a reader tells apart from an absent one: \<^verbatim>\<open>null\<close> clears it.\<close>

definition dec_slice_ptr :: "'s \<Rightarrow> (json \<Rightarrow> 's \<Rightarrow> 's option) \<Rightarrow> json \<Rightarrow> 's list option \<Rightarrow> 's list option option" where
  "dec_slice_ptr zero dec v old =
     (if v = JNull then Some None else map_option Some (dec_slice zero dec v (case old of None \<Rightarrow> [] | Some xs \<Rightarrow> xs)))"

definition gm_zero_response :: gm_wireResponse where
  "gm_zero_response = \<lparr>grID = '''', grModel = '''', grCandidates = None, grFeedback = None, grUsage = gm_zero_usage, grError = None\<rparr>"

definition gm_dec_response :: "json \<Rightarrow> gm_wireResponse \<Rightarrow> gm_wireResponse option" where
  "gm_dec_response = dec_struct (\<lambda>k v s.
     if k = ''responseid'' then set_field (\<lambda>x s. s\<lparr>grID := x\<rparr>) (dec_string v (grID s)) s
     else if k = ''modelversion'' then set_field (\<lambda>x s. s\<lparr>grModel := x\<rparr>) (dec_string v (grModel s)) s
     else if k = ''candidates'' then
       set_field (\<lambda>x s. s\<lparr>grCandidates := x\<rparr>) (dec_slice_ptr gm_zero_candidate gm_dec_candidate v (grCandidates s)) s
     else if k = ''promptfeedback'' then
       set_field (\<lambda>x s. s\<lparr>grFeedback := x\<rparr>) (dec_ptr '''' gm_dec_feedback v (grFeedback s)) s
     else if k = ''usagemetadata'' then set_field (\<lambda>x s. s\<lparr>grUsage := x\<rparr>) (gm_dec_usage v (grUsage s)) s
     else if k = ''error'' then
       set_field (\<lambda>x s. s\<lparr>grError := x\<rparr>) (dec_ptr \<lparr>gmCode = 0, gmMessage = '''', gmStatus = ''''\<rparr> gm_dec_error v (grError s)) s
     else Some s)"

section \<open>Usage, errors and finish reasons\<close>

definition gm_toIR :: "gm_wireUsage \<Rightarrow> Usage" where
  "gm_toIR u =
     (let inp = wrap64 (guPrompt u - guCached u); inp1 = (if inp < 0 then 0 else inp)
      in zero_usage\<lparr>InputTokens := inp1, OutputTokens := wrap64 (guCandidates u + guThoughts u), CacheReadTokens := guCached u,
           ReasoningTokens := guThoughts u\<rparr>)"

definition gm_classifyError :: "string \<Rightarrow> int \<Rightarrow> ErrorType" where
  "gm_classifyError status code =
     (if status = ''RESOURCE_EXHAUSTED'' then ErrRateLimit
      else if status = ''UNAVAILABLE'' then ErrOverloaded
      else if status = ''UNAUTHENTICATED'' then ErrAuthentication
      else if status = ''PERMISSION_DENIED'' then ErrPermission
      else if status = ''NOT_FOUND'' then ErrNotFound
      else if status = ''INVALID_ARGUMENT'' \<or> status = ''FAILED_PRECONDITION'' then ErrInvalidRequest
      else if code = 429 then ErrRateLimit
      else if code = 503 \<or> code = 529 then ErrOverloaded
      else if code = 401 then ErrAuthentication
      else if code = 403 then ErrPermission
      else if code = 404 then ErrNotFound
      else if code = 400 then ErrInvalidRequest
      else ErrAPI)"

definition gm_error_toIR :: "gm_wireError \<Rightarrow> Error" where
  "gm_error_toIR e =
     \<lparr>errType = gm_classifyError (gmStatus e) (gmCode e), errMessage = gmMessage e,
      errCode = (if gmStatus e = '''' \<and> gmCode e \<noteq> 0 then FormatInt (gmCode e) else gmStatus e)\<rparr>"

definition gm_finishReason :: "string \<Rightarrow> bool \<Rightarrow> StopReason \<times> bool" where
  "gm_finishReason s hasCall =
     (if s \<in> {'''', ''FINISH_REASON_UNSPECIFIED'', ''STOP''} then (if hasCall then StopToolUse else StopEndTurn, True)
      else if s = ''MAX_TOKENS'' then (StopMaxTokens, True)
      else if s \<in> {''SAFETY'', ''BLOCKLIST'', ''PROHIBITED_CONTENT'', ''SPII'', ''RECITATION'', ''IMAGE_SAFETY''} then (StopContentFilter, True)
      else if s \<in> {''MALFORMED_FUNCTION_CALL'', ''OTHER'', ''LANGUAGE''} then (StopError, True)
      else (StopEndTurn, False))"

definition gm_target :: string where "gm_target = ''gemini''"

definition finish_warnings :: "string \<Rightarrow> bool \<Rightarrow> Warning list" where
  "finish_warnings reason known =
     (if known then [] else [warn gm_target ''finishReason'' (''unrecognized value '' @ reason @ ''; reported as end_turn'')])"

definition blocked :: "gm_wireResponse \<Rightarrow> Error option" where
  "blocked w =
     (case (grCandidates w, grFeedback w) of
        (None, Some r) \<Rightarrow> if r \<noteq> '''' then Some \<lparr>errType = ErrContentFilter, errMessage = ''the prompt was blocked: '' @ r, errCode = r\<rparr> else None
      | (Some [], Some r) \<Rightarrow> if r \<noteq> '''' then Some \<lparr>errType = ErrContentFilter, errMessage = ''the prompt was blocked: '' @ r, errCode = r\<rparr> else None
      | _ \<Rightarrow> None)"

section \<open>Call ids\<close>

record callIDs =
  ciBase :: string
  ciN :: nat

definition id_char :: "char \<Rightarrow> bool" where
  "id_char c = (c = CHR ''_'' \<or> c = CHR ''-'' \<or> (CHR ''a'' \<le> c \<and> c \<le> CHR ''z'') \<or> (CHR ''A'' \<le> c \<and> c \<le> CHR ''Z'') \<or>
     (CHR ''0'' \<le> c \<and> c \<le> CHR ''9''))"

definition maxCallIDBase :: nat where "maxCallIDBase = 24"

definition newCallIDs :: "string \<Rightarrow> (string \<Rightarrow> string) \<Rightarrow> string \<Rightarrow> callIDs" where
  "newCallIDs rand_base digest responseID =
     (let base = filter id_char responseID
      in \<lparr>ciBase = (if base = '''' then rand_base else if length base > maxCallIDBase then take maxCallIDBase (digest base) else base),
          ciN = 0\<rparr>)"

definition next_call_id :: "callIDs \<Rightarrow> string \<Rightarrow> callIDs \<times> string" where
  "next_call_id c supplied =
     (if supplied \<noteq> '''' then (c, supplied)
      else (c\<lparr>ciN := Suc (ciN c)\<rparr>, ''call_'' @ ciBase c @ ''_'' @ Itoa (Suc (ciN c))))"

section \<open>The unary response\<close>

definition call_args :: "gm_functionCall \<Rightarrow> json" where
  "call_args f = (case gfArgs f of None \<Rightarrow> JObj [] | Some j \<Rightarrow> j)"

definition partToIR :: "gm_wirePart \<Rightarrow> callIDs \<Rightarrow> callIDs \<times> ContentBlock option" where
  "partToIR p ids =
     (case gpCall p of
        Some f \<Rightarrow>
          (case next_call_id ids (gfID f) of (ids1, i) \<Rightarrow>
             (ids1, Some (ContentBlock BlockToolUse '''' None None
                (Some \<lparr>tuID = i, tuName = gfName f, tuInput = Some (call_args f), tuSignature = gpSignature p\<rparr>) None None [])))
      | None \<Rightarrow>
          if gpThought p
          then (ids, Some (ContentBlock BlockThinking '''' None (Some \<lparr>thText = gpText p, thSignature = gpSignature p, thData = ''''\<rparr>) None None None []))
          else (case gpInline p of
                  Some d \<Rightarrow>
                    (ids, Some (ContentBlock (MediaKind (inMime d)) '''' (Some \<lparr>MIME = inMime d, Data = inData d, URL = '''', FileID = ''''\<rparr>)
                       None None None None []))
                | None \<Rightarrow>
                    if gpText p \<noteq> '''' \<or> gpSignature p \<noteq> ''''
                    then (ids, Some (if gpSignature p \<noteq> '''' then SetExtraString ExtraThoughtSignature (gpSignature p) (text_block (gpText p))
                                     else text_block (gpText p)))
                    else (ids, None)))"

fun partsToIR :: "gm_wirePart list \<Rightarrow> callIDs \<Rightarrow> ContentBlock list" where
  "partsToIR [] ids = []"
| "partsToIR (p # ps) ids =
     (case partToIR p ids of (ids1, b) \<Rightarrow> (case b of None \<Rightarrow> [] | Some b \<Rightarrow> [b]) @ partsToIR ps ids1)"

definition gm_ParseResponse :: "string \<Rightarrow> (string \<Rightarrow> string) \<Rightarrow> go_error \<Rightarrow> go_error + json \<Rightarrow> go_error + IRResponse" where
  "gm_ParseResponse rand_base digest decode_err body =
     (case body of
        Inl e \<Rightarrow> Inl e
      | Inr j \<Rightarrow>
          (case gm_dec_response j gm_zero_response of
             None \<Rightarrow> Inl decode_err
           | Some w \<Rightarrow>
               (case grError w of
                  Some e \<Rightarrow> Inl (of_ir_error (gm_error_toIR e))
                | None \<Rightarrow>
                    (case blocked w of
                       Some e \<Rightarrow> Inl (of_ir_error e)
                     | None \<Rightarrow>
                         let out = \<lparr>rspID = grID w, rspModel = grModel w, rspContent = [], rspStopReason = StopEndTurn,
                               rspUsage = gm_toIR (grUsage w), rspWarnings = [], rspExtra = []\<rparr> in
                         (case grCandidates w of
                            None \<Rightarrow> Inl (of_ir_error (mk_error ErrAPI ''the upstream response carried no candidates''))
                          | Some [] \<Rightarrow> Inr out
                          | Some (c # _) \<Rightarrow>
                              let content = partsToIR (gcParts c) (newCallIDs rand_base digest (grID w));
                                  hasCall = list_ex (\<lambda>b. cbType b = BlockToolUse) content
                              in (case gm_finishReason (gcFinish c) hasCall of (sr, known) \<Rightarrow>
                                    Inr (out\<lparr>rspContent := content, rspStopReason := sr,
                                      rspWarnings := finish_warnings (gcFinish c) known\<rparr>)))))))"

section \<open>The stream\<close>

record gp_state =
  gsStarted :: bool
  gsIDs :: callIDs
  gsTextIdx :: int
  gsThoughtIdx :: int
  gsNextIdx :: int
  gsOpen :: OpenBlocks
  gsHasCall :: bool
  gsDropped :: bool

definition gp_init :: gp_state where
  "gp_init = \<lparr>gsStarted = False, gsIDs = \<lparr>ciBase = '''', ciN = 0\<rparr>, gsTextIdx = - 1, gsThoughtIdx = - 1, gsNextIdx = 0, gsOpen = [],
     gsHasCall = False, gsDropped = False\<rparr>"

definition gp_open :: "BlockType \<Rightarrow> (gp_state \<Rightarrow> int) \<Rightarrow> (int \<Rightarrow> gp_state \<Rightarrow> gp_state) \<Rightarrow> gp_state \<Rightarrow> gp_state \<times> StreamEvent list" where
  "gp_open kind slot set_slot st =
     (if slot st \<ge> 0 then (st, [])
      else (set_slot (gsNextIdx st) (st\<lparr>gsNextIdx := gsNextIdx st + 1, gsOpen := Open (gsOpen st) (gsNextIdx st)\<rparr>),
            [start_ev (gsNextIdx st) (zero_delta\<lparr>dType := kind\<rparr>)]))"

definition gp_call :: "(json \<Rightarrow> string) \<Rightarrow> gm_functionCall \<Rightarrow> string \<Rightarrow> gp_state \<Rightarrow> gp_state \<times> StreamEvent list" where
  "gp_call raw_text f sig st =
     (case next_call_id (gsIDs st) (gfID f) of (ids, i) \<Rightarrow>
        let idx = gsNextIdx st; d = tool_d i (gfName f)
        in (st\<lparr>gsHasCall := True, gsNextIdx := idx + 1, gsIDs := ids\<rparr>,
            [start_ev idx d, delta_ev idx (d\<lparr>dToolInput := raw_text (call_args f), dSignature := sig\<rparr>), block_stop idx]))"

definition gp_thought :: "string \<Rightarrow> string \<Rightarrow> gp_state \<Rightarrow> gp_state \<times> StreamEvent list" where
  "gp_thought s sig st =
     (case gp_open BlockThinking gsThoughtIdx (\<lambda>i st. st\<lparr>gsThoughtIdx := i\<rparr>) st of (st1, out) \<Rightarrow>
        (st1, out @ (if s \<noteq> '''' then [delta_ev (gsThoughtIdx st1) (thinking_d s)] else []) @
                (if sig \<noteq> '''' \<or> s = '''' then [delta_ev (gsThoughtIdx st1) (signature_d sig)] else [])))"

definition gp_text :: "string \<Rightarrow> string \<Rightarrow> gp_state \<Rightarrow> gp_state \<times> StreamEvent list" where
  "gp_text s sig st =
     (case gp_open BlockText gsTextIdx (\<lambda>i st. st\<lparr>gsTextIdx := i\<rparr>) st of (st1, out) \<Rightarrow>
        (st1, out @ [delta_ev (gsTextIdx st1) ((text_d s)\<lparr>dSignature := sig\<rparr>)]))"

definition gp_part :: "(json \<Rightarrow> string) \<Rightarrow> gm_wirePart \<Rightarrow> gp_state \<Rightarrow> gp_state \<times> StreamEvent list" where
  "gp_part raw_text p st =
     (case gpCall p of
        Some f \<Rightarrow> gp_call raw_text f (gpSignature p) st
      | None \<Rightarrow>
          if gpInline p \<noteq> None then (st\<lparr>gsDropped := True\<rparr>, [])
          else if gpThought p then gp_thought (gpText p) (gpSignature p) st
          else if gpText p \<noteq> '''' \<or> gpSignature p \<noteq> '''' then gp_text (gpText p) (gpSignature p) st
          else (st, []))"

definition gp_start :: "string \<Rightarrow> (string \<Rightarrow> string) \<Rightarrow> gm_wireResponse \<Rightarrow> gp_state \<Rightarrow> gp_state \<times> StreamEvent list" where
  "gp_start rand_base digest c st =
     (if gsStarted st then (st, [])
      else (st\<lparr>gsStarted := True, gsIDs := newCallIDs rand_base digest (grID c)\<rparr>,
            [zero_event\<lparr>evType := EventMessageStart, evID := grID c, evModel := grModel c\<rparr>]))"

definition gp_usage :: "gm_wireResponse \<Rightarrow> gp_state \<Rightarrow> gp_state \<times> StreamEvent list" where
  "gp_usage c st =
     (st, if guTotal (grUsage c) > 0 \<or> guPrompt (grUsage c) > 0 then [usage_event (gm_toIR (grUsage c)) []] else [])"

definition gp_candidate :: "gm_wireResponse \<Rightarrow> gm_wireCandidate option" where
  "gp_candidate c = (case grCandidates c of Some (x # _) \<Rightarrow> Some x | _ \<Rightarrow> None)"

definition chunk_parts :: "gm_wireResponse \<Rightarrow> gm_wirePart list" where
  "chunk_parts c = (case gp_candidate c of None \<Rightarrow> [] | Some x \<Rightarrow> gcParts x)"

definition gp_steps :: "(json \<Rightarrow> string) \<Rightarrow> string \<Rightarrow> (string \<Rightarrow> string) \<Rightarrow> gm_wireResponse \<Rightarrow> (gp_state \<Rightarrow> gp_state \<times> StreamEvent list) list" where
  "gp_steps raw_text rand_base digest c =
     [gp_start rand_base digest c, gp_usage c] @ map (gp_part raw_text) (chunk_parts c)"

definition gp_finish :: "string \<Rightarrow> gp_state \<Rightarrow> StreamEvent list" where
  "gp_finish reason st =
     (case CloseAll (gsOpen st) collect [] of (ob, out, ok) \<Rightarrow>
        case gm_finishReason reason (gsHasCall st) of (sr, known) \<Rightarrow>
          out @ [zero_event\<lparr>evType := EventMessageStop, evStopReason := sr,
             evWarnings := finish_warnings reason known @
               (if gsDropped st
                then [warn gm_target ''candidates[].content.parts[].inlineData'' ''generated media cannot be streamed to this client; it was dropped'']
                else [])\<rparr>])"

fun gp_loop :: "(string \<Rightarrow> json option) \<Rightarrow> (json \<Rightarrow> string) \<Rightarrow> string \<Rightarrow> (string \<Rightarrow> string) \<Rightarrow> Event list \<Rightarrow> go_error option \<Rightarrow> gp_state
    \<Rightarrow> (StreamEvent + go_error) list" where
  "gp_loop unmarshal raw_text rand_base digest [] fin st = [Inr (case fin of None \<Rightarrow> oc_truncated | Some err \<Rightarrow> err)]"
| "gp_loop unmarshal raw_text rand_base digest (raw # raws) fin st =
     (if seData raw = '''' \<or> seData raw = ''[DONE]'' then gp_loop unmarshal raw_text rand_base digest raws fin st
      else case (case unmarshal (seData raw) of None \<Rightarrow> None | Some j \<Rightarrow> gm_dec_response j gm_zero_response) of
        None \<Rightarrow> gp_loop unmarshal raw_text rand_base digest raws fin st
      | Some c \<Rightarrow>
          (case grError c of
             Some e \<Rightarrow> [Inr (of_ir_error (gm_error_toIR e))]
           | None \<Rightarrow>
               (case blocked c of
                  Some e \<Rightarrow> [Inr (of_ir_error e)]
                | None \<Rightarrow>
                    (case emits (gp_steps raw_text rand_base digest c) st of (st1, out) \<Rightarrow>
                       map Inl out @
                       (case gp_candidate c of
                          Some x \<Rightarrow>
                            if gcFinish x \<noteq> '''' then map Inl (gp_finish (gcFinish x) st1)
                            else gp_loop unmarshal raw_text rand_base digest raws fin st1
                        | None \<Rightarrow> gp_loop unmarshal raw_text rand_base digest raws fin st1)))))"

definition gm_ParseStream ::
    "(string \<Rightarrow> json option) \<Rightarrow> (json \<Rightarrow> string) \<Rightarrow> string \<Rightarrow> (string \<Rightarrow> string) \<Rightarrow> Event list \<Rightarrow> go_error option \<Rightarrow> (StreamEvent + go_error) list" where
  "gm_ParseStream unmarshal raw_text rand_base digest raws fin = gp_loop unmarshal raw_text rand_base digest raws fin gp_init"

section \<open>Well-nested streams\<close>

text \<open>At most a text and a thinking block are open, each on the number its slot holds; numbers are never used twice.\<close>

definition gp_rel :: "gp_state \<Rightarrow> nest \<Rightarrow> bool" where
  "gp_rel st n =
     (fst n = gsStarted st \<and> gsStarted st \<and> distinct (map fst (snd n)) \<and>
      set (snd n) = {(i, k). i \<ge> 0 \<and> (i = gsTextIdx st \<and> k = BlockText \<or> i = gsThoughtIdx st \<and> k = BlockThinking)} \<and>
      mset (map fst (gsOpen st)) = mset (map fst (snd n)) \<and> 0 \<le> gsNextIdx st \<and>
      gsTextIdx st < gsNextIdx st \<and> gsThoughtIdx st < gsNextIdx st \<and>
      (gsTextIdx st = gsThoughtIdx st \<longrightarrow> gsTextIdx st < 0))"

definition keeps_nest :: "(gp_state \<Rightarrow> gp_state \<times> StreamEvent list) \<Rightarrow> bool" where
  "keeps_nest f = (\<forall>st n. gp_rel st n \<longrightarrow> (\<exists>n1. nest_run (snd (f st)) n = Some n1 \<and> gp_rel (fst (f st)) n1))"

lemma keeps_nestD: "keeps_nest f \<Longrightarrow> gp_rel st n \<Longrightarrow> f st = (st1, out) \<Longrightarrow> \<exists>n1. nest_run out n = Some n1 \<and> gp_rel st1 n1"
  unfolding keeps_nest_def by (metis fst_conv snd_conv)

lemma keeps_emits: "list_all keeps_nest fs \<Longrightarrow> keeps_nest (emits fs)"
proof (induction fs)
  case (Cons f fs)
  then have f: "keeps_nest f" and fs: "keeps_nest (emits fs)" by simp_all
  show ?case unfolding keeps_nest_def
  proof (intro allI impI)
    fix st n assume r: "gp_rel st n"
    obtain st1 o1 where 1: "f st = (st1, o1)" by fastforce
    obtain st2 o2 where 2: "emits fs st1 = (st2, o2)" by fastforce
    obtain n1 where n1: "nest_run o1 n = Some n1" "gp_rel st1 n1" using keeps_nestD[OF f r 1] by blast
    from keeps_nestD[OF fs n1(2) 2] n1(1)
    show "\<exists>n1. nest_run (snd (emits (f # fs) st)) n = Some n1 \<and> gp_rel (fst (emits (f # fs) st)) n1"
      by (auto simp: 1 2 nest_run_append)
  qed
qed (simp add: keeps_nest_def)

lemma gp_keys: "gp_rel st n \<Longrightarrow> i \<in> fst ` set (snd n) \<longleftrightarrow> i \<ge> 0 \<and> (i = gsTextIdx st \<or> i = gsThoughtIdx st)"
  by (force simp: gp_rel_def)

lemma gp_fresh: "gp_rel st n \<Longrightarrow> gsNextIdx st \<notin> fst ` set (snd n) \<and> gsNextIdx st \<notin> fst ` set (gsOpen st)"
proof -
  assume r: "gp_rel st n"
  have "fst ` set (gsOpen st) = fst ` set (snd n)" using r unfolding gp_rel_def by (metis list.set_map set_mset_mset)
  then show ?thesis using gp_keys[OF r] r by (auto simp: gp_rel_def)
qed

lemma nest_start: "gp_rel st n \<Longrightarrow>
   nest_step (start_ev (gsNextIdx st) d) n = Some (gsStarted st, snd n @ [(gsNextIdx st, dType d)])"
  using gp_fresh[of st n] by (cases n) (simp add: nest_simps gp_rel_def)

lemma nest_delta: "gp_rel st n \<Longrightarrow> (i, dType d) \<in> set (snd n) \<Longrightarrow> nest_step (delta_ev i d) n = Some n"
  by (cases n) (simp add: nest_simps)

lemma open_rel:
  assumes "gp_rel st n" "k = BlockText \<and> gsTextIdx st < 0 \<and> st1 = st\<lparr>gsNextIdx := gsNextIdx st + 1, gsOpen := Open (gsOpen st) (gsNextIdx st),
      gsTextIdx := gsNextIdx st\<rparr> \<or>
    k = BlockThinking \<and> gsThoughtIdx st < 0 \<and> st1 = st\<lparr>gsNextIdx := gsNextIdx st + 1, gsOpen := Open (gsOpen st) (gsNextIdx st),
      gsThoughtIdx := gsNextIdx st\<rparr>"
  shows "gp_rel st1 (gsStarted st, snd n @ [(gsNextIdx st, k)])"
proof -
  have "Open (gsOpen st) (gsNextIdx st) = gsOpen st @ [(gsNextIdx st, True)]" using gp_fresh[OF assms(1)] by (intro Open_fresh) simp
  then show ?thesis using assms(1) gp_fresh[OF assms(1)] assms(2) by (auto simp: gp_rel_def)
qed

lemma thought_nests: "keeps_nest (gp_thought s sig)"
  unfolding keeps_nest_def
proof (intro allI impI)
  fix st n assume r: "gp_rel st n"
  let ?ds = "\<lambda>i. (if s \<noteq> '''' then [delta_ev i (thinking_d s)] else []) @ (if sig \<noteq> '''' \<or> s = '''' then [delta_ev i (signature_d sig)] else [])"
  have ds: "nest_run (?ds i) n = Some n" if "gp_rel st n" "(i, BlockThinking) \<in> set (snd n)" for i n st
    using nest_delta[OF that(1), of i] that(2) by (simp add: thinking_d_def signature_d_def)
  show "\<exists>n1. nest_run (snd (gp_thought s sig st)) n = Some n1 \<and> gp_rel (fst (gp_thought s sig st)) n1"
  proof (cases "gsThoughtIdx st \<ge> 0")
    case True
    then have "(gsThoughtIdx st, BlockThinking) \<in> set (snd n)" using r by (simp add: gp_rel_def)
    then show ?thesis using True r ds[OF r] by (simp add: gp_thought_def gp_open_def del: nest_run.simps)
  next
    case False
    let ?st1 = "st\<lparr>gsNextIdx := gsNextIdx st + 1, gsOpen := Open (gsOpen st) (gsNextIdx st), gsThoughtIdx := gsNextIdx st\<rparr>"
    let ?n1 = "(gsStarted st, snd n @ [(gsNextIdx st, BlockThinking)])"
    have r1: "gp_rel ?st1 ?n1" using open_rel[OF r, of BlockThinking ?st1] False by simp
    have "nest_run (?ds (gsNextIdx st)) ?n1 = Some ?n1" by (rule ds[OF r1]) simp
    moreover have "gp_thought s sig st = (?st1, start_ev (gsNextIdx st) (zero_delta\<lparr>dType := BlockThinking\<rparr>) # ?ds (gsNextIdx st))"
      using False by (simp add: gp_thought_def gp_open_def)
    ultimately show ?thesis using r1 nest_start[OF r, of "zero_delta\<lparr>dType := BlockThinking\<rparr>"] by simp
  qed
qed

lemma text_nests: "keeps_nest (gp_text s sig)"
  unfolding keeps_nest_def
proof (intro allI impI)
  fix st n assume r: "gp_rel st n"
  have t: "dType ((text_d s)\<lparr>dSignature := sig\<rparr>) = BlockText" by (simp add: text_d_def)
  show "\<exists>n1. nest_run (snd (gp_text s sig st)) n = Some n1 \<and> gp_rel (fst (gp_text s sig st)) n1"
  proof (cases "gsTextIdx st \<ge> 0")
    case True
    then have "(gsTextIdx st, BlockText) \<in> set (snd n)" using r by (simp add: gp_rel_def)
    then show ?thesis using True r nest_delta[OF r, of _ "(text_d s)\<lparr>dSignature := sig\<rparr>"] by (simp add: gp_text_def gp_open_def t)
  next
    case False
    let ?st1 = "st\<lparr>gsNextIdx := gsNextIdx st + 1, gsOpen := Open (gsOpen st) (gsNextIdx st), gsTextIdx := gsNextIdx st\<rparr>"
    let ?n1 = "(gsStarted st, snd n @ [(gsNextIdx st, BlockText)])"
    have r1: "gp_rel ?st1 ?n1" using open_rel[OF r, of BlockText ?st1] False by simp
    show ?thesis using False r1 nest_start[OF r, of "zero_delta\<lparr>dType := BlockText\<rparr>"] nest_delta[OF r1, of "gsNextIdx st" "(text_d s)\<lparr>dSignature := sig\<rparr>"]
      by (simp add: gp_text_def gp_open_def t)
  qed
qed

lemma call_nests: "keeps_nest (gp_call raw_text f sig)"
  unfolding keeps_nest_def
proof (intro allI impI)
  fix st n assume r: "gp_rel st n"
  obtain ids i where c: "next_call_id (gsIDs st) (gfID f) = (ids, i)" by fastforce
  have "filter (\<lambda>b. fst b \<noteq> gsNextIdx st) (snd n) = snd n" using gp_fresh[OF r] by (force intro: filter_True)
  then have "nest_run (snd (gp_call raw_text f sig st)) n = Some n"
    using nest_start[OF r] r by (cases n) (simp add: gp_call_def c Let_def nest_simps gp_rel_def)
  moreover have "gp_rel (fst (gp_call raw_text f sig st)) n" using r by (auto simp: gp_call_def c Let_def gp_rel_def)
  ultimately show "\<exists>n1. nest_run (snd (gp_call raw_text f sig st)) n = Some n1 \<and> gp_rel (fst (gp_call raw_text f sig st)) n1" by blast
qed

lemma part_nests: "keeps_nest (gp_part raw_text p)"
  unfolding keeps_nest_def
proof (intro allI impI)
  fix st n assume r: "gp_rel st n"
  have d: "gp_rel (st\<lparr>gsDropped := True\<rparr>) n" using r by (simp add: gp_rel_def)
  have "gp_part raw_text p st \<in> {(st, []), (st\<lparr>gsDropped := True\<rparr>, [])} \<or> (\<exists>f s. gp_part raw_text p st = gp_call raw_text f s st) \<or>
      (\<exists>t s. gp_part raw_text p st = gp_thought t s st) \<or> (\<exists>t s. gp_part raw_text p st = gp_text t s st)"
    unfolding gp_part_def by (simp split: option.split) blast
  then show "\<exists>n1. nest_run (snd (gp_part raw_text p st)) n = Some n1 \<and> gp_rel (fst (gp_part raw_text p st)) n1"
    using r d call_nests[unfolded keeps_nest_def, rule_format, OF r] thought_nests[unfolded keeps_nest_def, rule_format, OF r]
      text_nests[unfolded keeps_nest_def, rule_format, OF r]
    by (elim disjE exE) (auto simp del: split_paired_Ex)
qed

lemma usage_nests: "keeps_nest (gp_usage c)"
  by (auto simp: keeps_nest_def gp_usage_def nest_simps gp_rel_def split: prod.splits)

lemma chunk_nests_gemini:
  assumes "gp_rel st n \<or> st = gp_init \<and> n = (False, [])" "emits (gp_steps raw_text rb dg c) st = (st1, out)"
  shows "\<exists>n1. nest_run out n = Some n1 \<and> gp_rel st1 n1"
proof -
  obtain st0 o0 where s: "gp_start rb dg c st = (st0, o0)" by fastforce
  obtain o1 where e: "emits (gp_usage c # map (gp_part raw_text) (chunk_parts c)) st0 = (st1, o1)" "out = o0 @ o1"
    using assms(2) by (auto simp: gp_steps_def s simp del: emits.simps(2) simp: emits.simps(2)[of "gp_start rb dg c"] split: prod.splits)
  have "\<exists>n0. nest_run o0 n = Some n0 \<and> gp_rel st0 n0"
  proof (cases "gsStarted st")
    case True
    then have "gp_rel st n" "st0 = st" "o0 = []" using assms(1) s by (auto simp: gp_start_def gp_init_def)
    then show ?thesis by (intro exI[of _ n]) simp
  next
    case False
    then have "st = gp_init" "n = (False, [])" using assms(1) by (auto simp: gp_rel_def)
    then show ?thesis using s by (intro exI[of _ "(True, [])"]) (auto simp: gp_start_def gp_init_def gp_rel_def nest_simps split: if_splits)
  qed
  then obtain n0 where n0: "nest_run o0 n = Some n0" "gp_rel st0 n0" by blast
  have "keeps_nest (emits (gp_usage c # map (gp_part raw_text) (chunk_parts c)))"
    by (intro keeps_emits) (auto simp: list_all_iff usage_nests part_nests)
  from keeps_nestD[OF this n0(2) e(1)] n0(1) show ?thesis by (auto simp: e(2) nest_run_append)
qed

lemma finish_nested:
  assumes "gp_rel st n"
  shows "nested n (map Inl (gp_finish reason st))"
proof -
  obtain b op where n: "n = (b, op)" by (cases n)
  have "nest_run (map block_stop (sort (map fst (gsOpen st)))) (b, op) = Some (b, [])"
  proof (rule nest_run_stops)
    have m: "mset (map fst (gsOpen st)) = mset (map fst op)" "distinct (map fst op)" using assms by (simp_all add: n gp_rel_def)
    then show "distinct (sort (map fst (gsOpen st)))" using mset_eq_imp_distinct_iff by (metis distinct_sort)
    show "set (sort (map fst (gsOpen st))) = fst ` set op" using mset_eq_setD[OF m(1)] by simp
  qed
  moreover have "b" using assms by (simp add: n gp_rel_def)
  moreover obtain s w where f: "gm_finishReason reason (gsHasCall st) = (s, w)" by fastforce
  moreover have "b" using assms by (simp add: n gp_rel_def)
  ultimately have "nest_run (gp_finish reason st) (b, op) = Some (b, [])"
    by (simp add: gp_finish_def f CloseAll_def yield_stops_collect nest_run_append nest_simps)
  then show ?thesis unfolding n using nested_append[of "gp_finish reason st" "(b, op)" "(b, [])" "[]"] by simp
qed

lemma gp_loop_nested:
  assumes "gp_rel st n \<or> st = gp_init \<and> n = (False, [])"
  shows "nested n (gp_loop un raw_text rb dg raws fin st)"
  using assms
proof (induction raws arbitrary: st n)
  case (Cons raw raws)
  show ?case
  proof (cases "seData raw = '''' \<or> seData raw = ''[DONE]''")
    case False
    show ?thesis
    proof (cases "case un (seData raw) of None \<Rightarrow> None | Some j \<Rightarrow> gm_dec_response j gm_zero_response")
      case None
      then show ?thesis using Cons False by simp
    next
      case (Some c)
      obtain st1 out where e: "emits (gp_steps raw_text rb dg c) st = (st1, out)" by fastforce
      obtain n1 where n1: "nest_run out n = Some n1" "gp_rel st1 n1" using chunk_nests_gemini[OF Cons.prems e] by blast
      then show ?thesis using False Some Cons.IH[of st1 n1] finish_nested[OF n1(2)]
        by (auto simp: e nested_append split: option.splits)
    qed
  qed (use Cons in auto)
qed simp

text \<open>C39. Whatever a Gemini upstream sends, its canonical stream is well nested: from any run of events, readable or not, and any
  end of the body, one message start comes first, a block is opened once until it is closed, every delta lies in an open
  block of its own kind, no block is open at a message stop or at the end of a stream that did not fail, and nothing
  follows an error.\<close>

theorem gemini_stream_nested: "nested (False, []) (gm_ParseStream unmarshal raw_text rand_base digest raws fin)"
  unfolding gm_ParseStream_def by (rule gp_loop_nested) simp

section \<open>A stream relayed to a Gemini client\<close>

text \<open>The parts an upstream streams, one to a chunk.\<close>

datatype gm_item = GText string string | GThought string string | GCall string string json string

fun item_part :: "gm_item \<Rightarrow> members" where
  "item_part (GText s sig) = text_part s sig"
| "item_part (GThought s sig) = thought_part s sig"
| "item_part (GCall i name args sig) = call_part i name args sig"

fun item_ok :: "(json \<Rightarrow> string) \<Rightarrow> (string \<Rightarrow> json option) \<Rightarrow> gm_item \<Rightarrow> bool" where
  "item_ok raw_text valid (GText s sig) = (s \<noteq> '''' \<or> sig \<noteq> '''')"
| "item_ok raw_text valid (GThought s sig) = (s \<noteq> '''')"
| "item_ok raw_text valid (GCall i name args sig) = (raw_text args \<noteq> '''' \<and> valid (raw_text args) = Some args)"

text \<open>The same parts with an id on every call: the ones Gemini leaves unnamed are numbered through the stream.\<close>

fun name_calls :: "string \<Rightarrow> nat \<Rightarrow> gm_item list \<Rightarrow> gm_item list" where
  "name_calls base n [] = []"
| "name_calls base n (x # xs) =
     (case x of
        GCall i name args sig \<Rightarrow>
          if i = '''' then GCall (''call_'' @ base @ ''_'' @ Itoa (Suc n)) name args sig # name_calls base (Suc n) xs
          else x # name_calls base n xs
      | _ \<Rightarrow> x # name_calls base n xs)"

definition name_item :: "callIDs \<Rightarrow> gm_item \<Rightarrow> gm_item" where
  "name_item ids x = (case x of GCall i name args sig \<Rightarrow> GCall (snd (next_call_id ids i)) name args sig | _ \<Rightarrow> x)"

definition after_item :: "callIDs \<Rightarrow> gm_item \<Rightarrow> callIDs" where
  "after_item ids x = (case x of GCall i name args sig \<Rightarrow> fst (next_call_id ids i) | _ \<Rightarrow> ids)"

lemma name_calls_item:
  "name_calls (ciBase ids) (ciN ids) (x # xs) =
     name_item ids x # name_calls (ciBase (after_item ids x)) (ciN (after_item ids x)) xs"
  by (cases x) (auto simp: name_item_def after_item_def next_call_id_def)

definition item_chunk :: "string \<Rightarrow> gm_item \<Rightarrow> json" where
  "item_chunk model i = partChunk model [JObj (item_part i)]"

text \<open>The response's id, which the upstream may state on each of its chunks.\<close>

fun with_id :: "string \<Rightarrow> json \<Rightarrow> json" where
  "with_id rid (JObj ms) = JObj (ms @ (if rid = '''' then [] else [(''responseId'', JStr rid)]))"
| "with_id rid j = j"

definition last_chunk :: "string \<Rightarrow> string \<Rightarrow> Usage \<Rightarrow> json" where
  "last_chunk model reason u =
     JObj [(''candidates'', JArr [gm_candidate [] reason]), (''modelVersion'', JStr model), (''usageMetadata'', gm_usageBody u)]"

definition wire_item :: "gm_item \<Rightarrow> gm_wirePart" where
  "wire_item i =
     (case i of
        GText s sig \<Rightarrow> gm_zero_part\<lparr>gpText := s, gpSignature := sig\<rparr>
      | GThought s sig \<Rightarrow> gm_zero_part\<lparr>gpText := s, gpThought := True, gpSignature := sig\<rparr>
      | GCall c name args sig \<Rightarrow> gm_zero_part\<lparr>gpCall := Some \<lparr>gfID = c, gfName = name, gfArgs = Some args\<rparr>, gpSignature := sig\<rparr>)"

lemma gemini_keys [json_keys]:
  "ToLower ''candidates'' = ''candidates''" "ToLower ''content'' = ''content''" "ToLower ''parts'' = ''parts''" "ToLower ''role'' = ''role''"
  "ToLower ''finishReason'' = ''finishreason''" "ToLower ''index'' = ''index''" "ToLower ''modelVersion'' = ''modelversion''"
  "ToLower ''responseId'' = ''responseid''" "ToLower ''usageMetadata'' = ''usagemetadata''" "ToLower ''text'' = ''text''"
  "ToLower ''thought'' = ''thought''" "ToLower ''thoughtSignature'' = ''thoughtsignature''" "ToLower ''functionCall'' = ''functioncall''"
  "ToLower ''args'' = ''args''" "ToLower ''id'' = ''id''" "ToLower ''name'' = ''name''"
  "ToLower ''cachedContentTokenCount'' = ''cachedcontenttokencount''" "ToLower ''candidatesTokenCount'' = ''candidatestokencount''"
  "ToLower ''promptTokenCount'' = ''prompttokencount''" "ToLower ''thoughtsTokenCount'' = ''thoughtstokencount''"
  "ToLower ''totalTokenCount'' = ''totaltokencount''"
  by code_simp+

lemma dec_item: "gm_dec_part (JObj (item_part i)) gm_zero_part = Some (wire_item i)"
  by (cases i) (auto simp: gm_dec_part_def json_keys text_part_def thought_part_def call_part_def sig_member_def gm_zero_part_def
      wire_item_def gm_dec_call_def)

lemma dec_items: "dec_elems gm_zero_part gm_dec_part (map (\<lambda>i. JObj (item_part i)) xs) [] = Some (map wire_item xs)"
  by (induction xs) (simp_all add: dec_item)

definition usage_fits :: "Usage \<Rightarrow> bool" where
  "usage_fits u = (0 \<le> InputTokens u \<and> 0 \<le> CacheReadTokens u \<and> 0 \<le> ReasoningTokens u \<and> ReasoningTokens u \<le> OutputTokens u \<and>
     PromptTokens u + OutputTokens u \<le> int64_max \<and> CacheWriteTokens u = 0 \<and> CacheWrite5mTokens u = 0 \<and> CacheWrite1hTokens u = 0 \<and>
     \<not> Estimated u)"

definition wire_usage_of :: "Usage \<Rightarrow> gm_wireUsage" where
  "wire_usage_of u =
     \<lparr>guPrompt = PromptTokens u, guCandidates = OutputTokens u - ReasoningTokens u, guCached = CacheReadTokens u,
      guThoughts = ReasoningTokens u, guTotal = PromptTokens u + OutputTokens u\<rparr>"

lemma dec_gemini_usage:
  "usage_fits u \<Longrightarrow> gm_dec_usage (gm_usageBody u) gm_zero_usage = Some (wire_usage_of u)"
  by (simp add: gm_dec_usage_def gm_usageBody_def json_keys gm_zero_usage_def wire_usage_of_def usage_fits_def PromptTokens_def Let_def)

lemma wrap64_small: "0 \<le> n \<Longrightarrow> n \<le> int64_max \<Longrightarrow> wrap64 n = n"
  by (simp add: wrap64_def int64_max_def)

lemma gemini_usage_back: "usage_fits u \<Longrightarrow> gm_toIR (wire_usage_of u) = u"
  by (simp add: gm_toIR_def wire_usage_of_def usage_fits_def PromptTokens_def zero_usage_def wrap64_small)

text \<open>The writer's run over a block of events.\<close>

lemma gw_run_append: "gw_run valid (map Inl evs @ xs) w = (case emits (map (gw_event valid) evs) w of (w1, out) \<Rightarrow> out @ gw_run valid xs w1)"
  by (induction evs arbitrary: w) (simp_all split: prod.splits)

definition pending_chunks :: "gw_state \<Rightarrow> json list" where
  "pending_chunks w = (case gwHeld w of None \<Rightarrow> [] | Some p \<Rightarrow> [partChunk (gwModel w) [JObj p]])"

text \<open>What ties the writer to the parts relayed so far: no call is open, and a part held back is a thought with no signature.\<close>

definition relay_rel :: "string \<Rightarrow> gw_state \<Rightarrow> bool" where
  "relay_rel model w =
     (gwModel w = model \<and> gwCalls w = [] \<and> \<not> gwMalformed w \<and> gwStop w = StopEndTurn \<and>
      (\<forall>p. gwHeld w = Some p \<longrightarrow> (\<exists>s. p = thought_part s '''')))"

definition relays :: "string \<Rightarrow> (string \<Rightarrow> json option) \<Rightarrow> StreamEvent list \<Rightarrow> json list \<Rightarrow> bool" where
  "relays model valid evs cs =
     (\<forall>w. relay_rel model w \<longrightarrow>
        (case emits (map (gw_event valid) evs) w of (w1, out) \<Rightarrow>
           relay_rel model w1 \<and> gwUsage w1 = gwUsage w \<and> out @ pending_chunks w1 = pending_chunks w @ cs))"

lemma emits_append:
  "emits (xs @ ys) st = (case emits xs st of (st1, o1) \<Rightarrow> case emits ys st1 of (st2, o2) \<Rightarrow> (st2, o1 @ o2))"
  by (induction xs arbitrary: st) (simp_all split: prod.splits)

lemma relays_append:
  assumes "relays model valid evs cs" "relays model valid evs1 cs1"
  shows "relays model valid (evs @ evs1) (cs @ cs1)"
  unfolding relays_def
proof (intro allI impI)
  fix w assume r: "relay_rel model w"
  obtain w1 o1 where 1: "emits (map (gw_event valid) evs) w = (w1, o1)" by fastforce
  obtain w2 o2 where 2: "emits (map (gw_event valid) evs1) w1 = (w2, o2)" by fastforce
  from assms(1) r 1 have a: "relay_rel model w1" "gwUsage w1 = gwUsage w" "o1 @ pending_chunks w1 = pending_chunks w @ cs"
    by (auto simp: relays_def)
  from assms(2) a(1) 2 have b: "relay_rel model w2" "gwUsage w2 = gwUsage w1" "o2 @ pending_chunks w2 = pending_chunks w1 @ cs1"
    by (auto simp: relays_def)
  have "(o1 @ o2) @ pending_chunks w2 = pending_chunks w @ cs @ cs1"
    using a(3) b(3) by (metis append.assoc)
  then show "case emits (map (gw_event valid) (evs @ evs1)) w of (w1, out) \<Rightarrow>
      relay_rel model w1 \<and> gwUsage w1 = gwUsage w \<and> out @ pending_chunks w1 = pending_chunks w @ cs @ cs1"
    using a(2) b by (simp add: emits_append 1 2)
qed

lemmas relay_eval = relays_def relay_rel_def pending_chunks_def gw_event_def rejoins_def flushThought_def gw_switch_def
  gw_delta_def flushCall_def delta_sig_def delta_ev_def zero_event_def zero_delta_def

lemma relay_text: "s \<noteq> '''' \<or> sig \<noteq> '''' \<Longrightarrow> relays model valid [delta_ev i ((text_d s)\<lparr>dSignature := sig\<rparr>)] [item_chunk model (GText s sig)]"
  by (auto simp: relay_eval text_d_def item_chunk_def split: option.splits)

lemma relay_start: "dType d \<noteq> BlockToolUse \<Longrightarrow> relays model valid [start_ev i d] []"
  by (auto simp: relay_eval start_ev_def split: option.splits)

lemma relay_thought:
  "s \<noteq> '''' \<Longrightarrow> relays model valid ([delta_ev i (thinking_d s)] @ (if sig \<noteq> '''' then [delta_ev i (signature_d sig)] else []))
     [item_chunk model (GThought s sig)]"
  by (auto simp: relay_eval thinking_d_def signature_d_def item_chunk_def thought_part_def sig_member_def split: option.splits)

lemma relay_call:
  "item_ok raw_text valid (GCall c name args sig) \<Longrightarrow>
   relays model valid [start_ev i (tool_d c name), delta_ev i ((tool_d c name)\<lparr>dToolInput := raw_text args, dSignature := sig\<rparr>), block_stop i]
     [item_chunk model (GCall c name args sig)]"
  by (auto simp: relay_eval tool_d_def start_ev_def block_stop_def call_piece_def item_chunk_def Let_def split: option.splits)

lemma relay_part:
  assumes "item_ok raw_text valid i" "gp_part raw_text (wire_item i) st = (st1, evs)"
  shows "relays model valid evs [item_chunk model (name_item (gsIDs st) i)] \<and> gsIDs st1 = after_item (gsIDs st) i \<and>
    gsStarted st1 = gsStarted st"
proof (cases i)
  case (GText s sig)
  have t: "relays model valid ([start_ev (gsNextIdx st) (zero_delta\<lparr>dType := BlockText\<rparr>)] @ [delta_ev (gsNextIdx st) ((text_d s)\<lparr>dSignature := sig\<rparr>)])
      ([] @ [item_chunk model (GText s sig)])"
    by (intro relays_append relay_text relay_start) (use assms(1) GText in simp_all)
  show ?thesis using assms t relay_text[of s sig model valid "gsTextIdx st"] GText
    by (auto simp: gp_part_def wire_item_def gm_zero_part_def gp_text_def gp_open_def name_item_def after_item_def split: if_splits)
next
  case (GThought s sig)
  have t: "relays model valid ([start_ev (gsNextIdx st) (zero_delta\<lparr>dType := BlockThinking\<rparr>)] @
      [delta_ev (gsNextIdx st) (thinking_d s)] @ (if sig \<noteq> '''' then [delta_ev (gsNextIdx st) (signature_d sig)] else []))
      ([] @ [item_chunk model (GThought s sig)])"
    by (intro relays_append relay_thought relay_start) (use assms(1) GThought in simp_all)
  show ?thesis using assms t relay_thought[of s model valid "gsThoughtIdx st" sig] GThought
    by (auto simp: gp_part_def wire_item_def gm_zero_part_def gp_thought_def gp_open_def name_item_def after_item_def split: if_splits)
next
  case (GCall c name args sig)
  obtain ids c' where n: "next_call_id (gsIDs st) c = (ids, c')" by fastforce
  show ?thesis using assms relay_call[of raw_text valid c' name args sig model "gsNextIdx st"]
    by (auto simp: GCall n gp_part_def wire_item_def gm_zero_part_def gp_call_def call_args_def Let_def name_item_def after_item_def)
qed

lemma relay_stops: "relays model valid (map block_stop ks) []"
proof (induction ks)
  case Nil
  then show ?case by (simp add: relays_def)
next
  case (Cons k ks)
  have "relays model valid [block_stop k] []" by (auto simp: relay_eval block_stop_def split: option.splits)
  from relays_append[OF this Cons] show ?case by simp
qed

lemma relay_usage:
  "relay_rel model w \<Longrightarrow> gw_event valid (usage_event u []) w = (w\<lparr>gwHeld := None, gwUsage := u\<rparr>, pending_chunks w)"
  by (auto simp: relay_eval usage_event_def set_gw_stop_def split: option.splits)

text \<open>The reasons a client of this dialect is told: each refusal of content as one, each failure as one, and any other
  value, one the upstream made up included, as the ordinary end.\<close>

definition relayed_reason :: "string \<Rightarrow> string" where
  "relayed_reason r =
     (if r = ''MAX_TOKENS'' then ''MAX_TOKENS''
      else if r \<in> {''SAFETY'', ''BLOCKLIST'', ''PROHIBITED_CONTENT'', ''SPII'', ''RECITATION'', ''IMAGE_SAFETY''} then ''SAFETY''
      else if r \<in> {''MALFORMED_FUNCTION_CALL'', ''OTHER'', ''LANGUAGE''} then ''OTHER''
      else ''STOP'')"

lemma reason_back:
  "gm_finishReason r h = (sr, known) \<Longrightarrow> finishReasonWire sr = relayed_reason r \<and> sr \<noteq> StopOther ''''"
  unfolding gm_finishReason_def relayed_reason_def by (simp split: if_splits) auto

lemma relay_end:
  assumes "relay_rel model w"
  shows "gw_run valid (map Inl (gp_finish r st)) w = pending_chunks w @ [last_chunk model (relayed_reason r) (gwUsage w)]"
proof -
  obtain sr known where f: "gm_finishReason r (gsHasCall st) = (sr, known)" by fastforce
  note b = reason_back[OF f]
  let ?ks = "sort (map fst (gsOpen st))"
  obtain w1 o1 where 1: "emits (map (gw_event valid) (map block_stop ?ks)) w = (w1, o1)" by fastforce
  have r1: "relay_rel model w1" "gwUsage w1 = gwUsage w" "o1 @ pending_chunks w1 = pending_chunks w"
    using relay_stops[of model valid ?ks] assms(1) 1 by (auto simp: relays_def)
  define stop where "stop = zero_event\<lparr>evType := EventMessageStop, evStopReason := sr, evWarnings := finish_warnings r known @
    (if gsDropped st then [warn gm_target ''candidates[].content.parts[].inlineData''
       ''generated media cannot be streamed to this client; it was dropped''] else [])\<rparr>"
  have g: "gp_finish r st = map block_stop ?ks @ [stop]" by (simp add: gp_finish_def CloseAll_def yield_stops_collect f stop_def)
  have "gw_run valid [Inl stop] w1 = pending_chunks w1 @ [last_chunk model (relayed_reason r) (gwUsage w1)]"
    using r1(1) b by (auto simp: stop_def relay_eval set_gw_stop_def flushAllCalls_def gw_end_def terminal_def last_chunk_def gw_reason_def
        split: option.splits)
  then show ?thesis unfolding g using gw_run_append[of valid "map block_stop ?ks" "[Inl stop]" w] 1 r1(2,3) by simp
qed

text \<open>A frame carries a chunk when it is neither empty nor the end mark and reads back as that chunk.\<close>

definition carries :: "(string \<Rightarrow> json option) \<Rightarrow> Event \<Rightarrow> json \<Rightarrow> bool" where
  "carries unmarshal raw j = (seData raw \<noteq> '''' \<and> seData raw \<noteq> ''[DONE]'' \<and> unmarshal (seData raw) = Some j)"

definition response_of :: "string \<Rightarrow> string \<Rightarrow> gm_wirePart list \<Rightarrow> string \<Rightarrow> gm_wireUsage \<Rightarrow> gm_wireResponse" where
  "response_of rid model ps reason u =
     gm_zero_response\<lparr>grID := rid, grModel := model, grCandidates := Some [\<lparr>gcRole = ''model'', gcParts = ps, gcFinish = reason\<rparr>],
       grUsage := u\<rparr>"

lemma dec_item_chunk:
  "gm_dec_response (with_id rid (item_chunk model i)) gm_zero_response = Some (response_of rid model [wire_item i] '''' gm_zero_usage)"
  by (simp add: item_chunk_def partChunk_def model_content_def gm_dec_response_def json_keys dec_slice_ptr_def gm_dec_candidate_def
      gm_zero_candidate_def dec_item gm_zero_response_def response_of_def)

lemma dec_last_chunk:
  "usage_fits u \<Longrightarrow> gm_dec_response (with_id rid (last_chunk model r u)) gm_zero_response = Some (response_of rid model [] r (wire_usage_of u))"
  using dec_gemini_usage[of u]
  by (simp add: last_chunk_def gm_candidate_def model_content_def gm_dec_response_def json_keys dec_slice_ptr_def gm_dec_candidate_def
      gm_zero_candidate_def gm_zero_response_def response_of_def)

lemma usage_none: "usage_fits u \<Longrightarrow> \<not> (guTotal (wire_usage_of u) > 0 \<or> guPrompt (wire_usage_of u) > 0) \<Longrightarrow> u = zero_usage"
  by (cases u) (auto simp: usage_fits_def wire_usage_of_def zero_usage_def PromptTokens_def)

lemma response_of_simps [simp]:
  "grError (response_of rid m ps r u) = None" "blocked (response_of rid m ps r u) = None" "chunk_parts (response_of rid m ps r u) = ps"
  "gp_candidate (response_of rid m ps r u) = Some \<lparr>gcRole = ''model'', gcParts = ps, gcFinish = r\<rparr>"
  "grUsage (response_of rid m ps r u) = u" "grID (response_of rid m ps r u) = rid" "grModel (response_of rid m ps r u) = m"
  by (simp_all add: response_of_def gm_zero_response_def blocked_def chunk_parts_def gp_candidate_def)

lemma relay_loop:
  assumes "relay_rel model w" "gwUsage w = zero_usage" "gsStarted st" "list_all (item_ok raw_text valid) items" "usage_fits u"
    and "r \<noteq> ''''" "list_all2 (carries un) raws (map (with_id rid \<circ> item_chunk model) items @ [with_id rid (last_chunk model r u)])"
  shows "gw_run valid (gp_loop un raw_text rb dg raws fin st) w =
    pending_chunks w @ map (item_chunk model) (name_calls (ciBase (gsIDs st)) (ciN (gsIDs st)) items) @ [last_chunk model (relayed_reason r) u]"
  using assms(1-4,7)
proof (induction items arbitrary: raws st w)
  case Nil
  obtain raw where raws: "raws = [raw]" "carries un raw (with_id rid (last_chunk model r u))" using Nil.prems(5) by (auto simp: list_all2_Cons2)
  let ?w1 = "w\<lparr>gwHeld := None, gwUsage := u\<rparr>"
  have r1: "relay_rel model ?w1" using Nil.prems(1) by (simp add: relay_rel_def)
  show ?case
  proof (cases "guTotal (wire_usage_of u) > 0 \<or> guPrompt (wire_usage_of u) > 0")
    case True
    then show ?thesis using raws(2) Nil.prems(3) assms(6) relay_usage[OF Nil.prems(1), of valid u] relay_end[OF r1, of valid r st]
      by (simp add: raws(1) carries_def dec_last_chunk[OF assms(5)] gp_steps_def gp_start_def gp_usage_def gemini_usage_back[OF assms(5)]
          pending_chunks_def)
  next
    case False
    note u0 = usage_none[OF assms(5) False]
    show ?thesis using raws(2) Nil.prems(2,3) assms(6) relay_end[OF Nil.prems(1), of valid r st] False
      by (simp add: raws(1) carries_def dec_last_chunk[OF assms(5)] gp_steps_def gp_start_def gp_usage_def u0 dec_last_chunk[OF assms(5)[unfolded u0]])
  qed
next
  case (Cons i items)
  obtain raw raws1 where raws: "raws = raw # raws1" "carries un raw (with_id rid (item_chunk model i))"
    "list_all2 (carries un) raws1 (map (with_id rid \<circ> item_chunk model) items @ [with_id rid (last_chunk model r u)])"
    using Cons.prems(5) by (auto simp: list_all2_Cons2 comp_def)
  obtain st1 evs where p: "gp_part raw_text (wire_item i) st = (st1, evs)" by fastforce
  have i: "item_ok raw_text valid i" "list_all (item_ok raw_text valid) items" using Cons.prems(4) by simp_all
  let ?i = "name_item (gsIDs st) i"
  note rp = relay_part[OF i(1) p, of model]
  obtain w1 out where e: "emits (map (gw_event valid) evs) w = (w1, out)" by fastforce
  have r1: "relay_rel model w1" "gwUsage w1 = gwUsage w" "out @ pending_chunks w1 = pending_chunks w @ [item_chunk model ?i]"
    using rp Cons.prems(1) e by (auto simp: relays_def)
  let ?rest = "map (item_chunk model) (name_calls (ciBase (gsIDs st1)) (ciN (gsIDs st1)) items) @ [last_chunk model (relayed_reason r) u]"
  have ih: "gw_run valid (gp_loop un raw_text rb dg raws1 fin st1) w1 = pending_chunks w1 @ ?rest"
    using Cons.IH[OF r1(1) _ _ i(2) raws(3), of st1] r1(2) Cons.prems(2,3) rp by simp
  have st: "emits (gp_steps raw_text rb dg (response_of rid model [wire_item i] '''' gm_zero_usage)) st = (st1, evs)"
    using Cons.prems(3) p by (simp add: gp_steps_def gp_start_def gp_usage_def gm_zero_usage_def)
  have "gp_loop un raw_text rb dg raws fin st = map Inl evs @ gp_loop un raw_text rb dg raws1 fin st1"
    using raws(2) st by (simp add: raws(1) carries_def dec_item_chunk)
  then have "gw_run valid (gp_loop un raw_text rb dg raws fin st) w = (out @ pending_chunks w1) @ ?rest"
    using gw_run_append[of valid evs _ w] e ih by simp
  moreover have "name_calls (ciBase (gsIDs st)) (ciN (gsIDs st)) (i # items) =
      ?i # name_calls (ciBase (gsIDs st1)) (ciN (gsIDs st1)) items"
    using rp by (simp only: name_calls_item)
  ultimately show ?case using r1(3) by (simp only: list.map append.simps append_assoc)
qed

lemma start_split:
  assumes "carries un raw j" "gm_dec_response j gm_zero_response = Some (response_of rid model ps r u)"
  shows "gp_loop un raw_text rb dg (raw # raws) fin gp_init =
    Inl (zero_event\<lparr>evType := EventMessageStart, evID := rid, evModel := model\<rparr>) #
    gp_loop un raw_text rb dg (raw # raws) fin (gp_init\<lparr>gsStarted := True, gsIDs := newCallIDs rb dg rid\<rparr>)"
  using assms by (simp add: carries_def gp_steps_def gp_start_def gp_init_def zero_event_def split: prod.splits)

text \<open>C40. A Gemini upstream relayed to a Gemini client. An upstream that streams text, thoughts and calls, none of them
  empty and one part to a chunk, then any finish reason with its token counts, is read into canonical events and written
  back: the client gets chunk for chunk what the upstream sent, each thought with its signature, each call with its
  arguments and the same counts, none lost, split, merged or reordered. What differs is stated: the response's id is not
  repeated, a call the upstream left without an id is given one by its place among such calls, and the finish
  reason is the client's word for it, one for every refusal of content, one for every failure.\<close>

theorem gemini_relayed:
  assumes "list_all (item_ok raw_text valid) items" "usage_fits u" "reason \<noteq> ''''"
    and "list_all2 (carries unmarshal) raws (map (with_id rid) (map (item_chunk model) items @ [last_chunk model reason u]))"
  shows "gw_run valid (gm_ParseStream unmarshal raw_text rand_base digest raws fin) gw_init =
    map (item_chunk model) (name_calls (ciBase (newCallIDs rand_base digest rid)) 0 items) @ [last_chunk model (relayed_reason reason) u]"
proof -
  let ?st = "gp_init\<lparr>gsStarted := True, gsIDs := newCallIDs rand_base digest rid\<rparr>" and ?w = "gw_init\<lparr>gwModel := model\<rparr>"
  let ?chunks = "map (with_id rid) (map (item_chunk model) items @ [last_chunk model reason u])"
  obtain raw raws1 where raws: "raws = raw # raws1" using assms(4) by (cases raws) auto
  have "carries unmarshal raw (hd ?chunks)" using assms(4) by (cases ?chunks) (auto simp: raws)
  moreover have "\<exists>ps r u1. gm_dec_response (hd ?chunks) gm_zero_response = Some (response_of rid model ps r u1)"
  proof (cases items)
    case Nil
    then show ?thesis using dec_last_chunk[OF assms(2), of rid model reason] by simp blast
  next
    case (Cons i items1)
    then show ?thesis using dec_item_chunk[of rid model i] by simp blast
  qed
  ultimately have "\<exists>ps r u1 j. carries unmarshal raw j \<and> gm_dec_response j gm_zero_response = Some (response_of rid model ps r u1)" by blast
  then have s: "gp_loop unmarshal raw_text rand_base digest raws fin gp_init =
      Inl (zero_event\<lparr>evType := EventMessageStart, evID := rid, evModel := model\<rparr>) # gp_loop unmarshal raw_text rand_base digest raws fin ?st"
    unfolding raws using start_split by blast
  have e: "gw_event valid (zero_event\<lparr>evType := EventMessageStart, evID := rid, evModel := model\<rparr>) gw_init = (?w, [])"
    by (simp add: gw_event_def rejoins_def gw_init_def flushThought_def gw_switch_def zero_event_def)
  have "gw_run valid (gp_loop unmarshal raw_text rand_base digest raws fin ?st) ?w =
      pending_chunks ?w @ map (item_chunk model) (name_calls (ciBase (gsIDs ?st)) (ciN (gsIDs ?st)) items) @
      [last_chunk model (relayed_reason reason) u]"
    by (rule relay_loop[OF _ _ _ assms(1-3)]) (use assms(4) in \<open>simp_all add: relay_rel_def gw_init_def comp_def\<close>)
  moreover have "pending_chunks ?w = []" by (simp add: pending_chunks_def gw_init_def)
  ultimately show ?thesis by (simp add: gm_ParseStream_def s e newCallIDs_def Let_def)
qed

definition demo_gemini_items :: "string \<Rightarrow> gm_item list" where
  "demo_gemini_items i = [GThought ''hm'' ''s'', GText ''a'' '''', GCall i ''look'' (JObj []) ''t'', GText ''b'' '''']"

definition demo_gemini_usage :: Usage where
  "demo_gemini_usage = zero_usage\<lparr>InputTokens := 5, CacheReadTokens := 2, OutputTokens := 7, ReasoningTokens := 3\<rparr>"

definition demo_gemini_chunks :: "json list" where
  "demo_gemini_chunks = map (with_id ''x'') (map (item_chunk ''g'') (demo_gemini_items '''') @ [last_chunk ''g'' ''RECITATION'' demo_gemini_usage])"

theorem gemini_relayed_witness:
  "gw_run (\<lambda>s. if s = ''{}'' then Some (JObj []) else None)
     (gm_ParseStream (\<lambda>s. if length s < 6 then Some (demo_gemini_chunks ! (length s - 1)) else None) (\<lambda>_. ''{}'') ''r'' (\<lambda>s. s)
       (map (\<lambda>n. \<lparr>seType = '''', seData = replicate n CHR ''x'', seID = '''', seRetry = ''''\<rparr>) [1, 2, 3, 4, 5]) None) gw_init =
   map (item_chunk ''g'') (demo_gemini_items ''call_x_1'') @ [last_chunk ''g'' ''SAFETY'' demo_gemini_usage]"
proof -
  let ?valid = "\<lambda>s. if s = ''{}'' then Some (JObj []) else None"
  let ?un = "\<lambda>s. if length s < 6 then Some (demo_gemini_chunks ! (length s - 1)) else None"
  let ?raws = "map (\<lambda>n. \<lparr>seType = '''', seData = replicate n CHR ''x'', seID = '''', seRetry = ''''\<rparr>) [1, 2, 3, 4, 5]"
  have "list_all2 (carries ?un) ?raws (map (with_id ''x'') (map (item_chunk ''g'') (demo_gemini_items '''') @ [last_chunk ''g'' ''RECITATION'' demo_gemini_usage]))"
    by (simp add: demo_gemini_items_def demo_gemini_chunks_def carries_def numeral_eq_Suc)
  moreover have "list_all (item_ok (\<lambda>_. ''{}'') ?valid) (demo_gemini_items '''')" by (simp add: demo_gemini_items_def)
  moreover have "usage_fits demo_gemini_usage"
    by (simp add: demo_gemini_usage_def usage_fits_def zero_usage_def PromptTokens_def int64_max_def)
  moreover have "name_calls (ciBase (newCallIDs ''r'' (\<lambda>s. s) ''x'')) 0 (demo_gemini_items '''') = demo_gemini_items ''call_x_1''" by code_simp
  moreover have "relayed_reason ''RECITATION'' = ''SAFETY''" by (simp add: relayed_reason_def)
  ultimately show ?thesis using gemini_relayed[of "\<lambda>_. ''{}''" ?valid "demo_gemini_items ''''" demo_gemini_usage "''RECITATION''" ?un ?raws "''x''" "''g''"
      "''r''" "\<lambda>s. s" None] by simp
qed

section \<open>The unary answer, there and back\<close>

fun item_block :: "gm_item \<Rightarrow> ContentBlock" where
  "item_block (GText s sig) = (if sig = '''' then text_block s else SetExtraString ExtraThoughtSignature sig (text_block s))"
| "item_block (GThought s sig) = ContentBlock BlockThinking '''' None (Some \<lparr>thText = s, thSignature = sig, thData = ''''\<rparr>) None None None []"
| "item_block (GCall i name args sig) = ContentBlock BlockToolUse '''' None None
     (Some \<lparr>tuID = i, tuName = name, tuInput = Some args, tuSignature = sig\<rparr>) None None []"

fun block_ok :: "gm_item \<Rightarrow> bool" where
  "block_ok (GText s sig) = (s \<noteq> '''' \<or> sig \<noteq> '''')"
| "block_ok (GThought s sig) = True"
| "block_ok (GCall i name args sig) = (i \<noteq> '''')"

fun is_call :: "gm_item \<Rightarrow> bool" where
  "is_call (GCall i name args sig) = True"
| "is_call _ = False"

lemma item_responsePart: "responsePart (item_block i) = Some (item_part i)"
  by (cases i) (auto simp: responsePart_def text_block_def ExtraString_def)

lemma item_blocks_parts: "responseParts (map item_block xs) = map (\<lambda>i. JObj (item_part i)) xs"
  by (induction xs) (simp_all add: responseParts_def item_responsePart List.map_filter_simps)

lemma partsToIR_items: "list_all block_ok xs \<Longrightarrow> partsToIR (map wire_item xs) ids = map item_block xs"
proof (induction xs arbitrary: ids)
  case (Cons x xs)
  have "partToIR (wire_item x) ids = (ids, Some (item_block x))" using Cons.prems
    by (cases x) (auto simp: partToIR_def wire_item_def gm_zero_part_def next_call_id_def call_args_def)
  with Cons show ?case by simp
qed simp

lemma calls_of_items: "list_ex (\<lambda>b. cbType b = BlockToolUse) (map item_block xs) \<longleftrightarrow> list_ex is_call xs"
proof (induction xs)
  case (Cons x xs)
  then show ?case by (cases x) (auto simp: text_block_def)
qed simp

definition gemini_stop :: "gm_item list \<Rightarrow> StopReason \<Rightarrow> bool" where
  "gemini_stop xs s = (s \<in> {StopMaxTokens, StopContentFilter, StopError} \<or> s = (if list_ex is_call xs then StopToolUse else StopEndTurn))"

text \<open>The unary answer, there and back. A response of text, thoughts and calls, written as a Gemini body and parsed by
  the Gemini adapter, is the same response: its blocks in order with their signatures, its identifiers, its token counts
  and its stop reason, which Gemini states only for an answer that was cut short.\<close>

theorem gemini_response_round_trip:
  assumes "list_all block_ok items" "rspContent r = map item_block items" "gemini_stop items (rspStopReason r)" "usage_fits (rspUsage r)"
    and "rspWarnings r = []" "rspExtra r = []"
  shows "gm_ParseResponse rand_base digest decode_err (Inr (gm_WriteResponse r)) = Inr r"
proof -
  let ?reason = "finishReasonWire (rspStopReason r)"
  have d: "gm_dec_response (gm_WriteResponse r) gm_zero_response =
      Some (gm_zero_response\<lparr>grID := rspID r, grModel := rspModel r,
        grCandidates := Some [\<lparr>gcRole = ''model'', gcParts = map wire_item items, gcFinish = ?reason\<rparr>], grUsage := wire_usage_of (rspUsage r)\<rparr>)"
    using dec_gemini_usage[OF assms(4)]
    by (simp add: gm_WriteResponse_def gm_candidate_def model_content_def gm_dec_response_def json_keys dec_slice_ptr_def
        gm_dec_candidate_def gm_zero_candidate_def gm_zero_response_def assms(2) item_blocks_parts dec_items)
  have "gm_finishReason ?reason (list_ex is_call items) = (rspStopReason r, True)"
    using assms(3) by (auto simp: gemini_stop_def gm_finishReason_def split: if_splits)
  then show ?thesis
    using assms(2,5,6) partsToIR_items[OF assms(1)] calls_of_items[of items] gemini_usage_back[OF assms(4)]
    by (simp add: gm_ParseResponse_def d[unfolded gm_zero_response_def] gm_zero_response_def blocked_def Let_def finish_warnings_def)
qed

definition demo_gemini_response :: IRResponse where
  "demo_gemini_response = \<lparr>rspID = ''r1'', rspModel = ''g'', rspContent = map item_block (demo_gemini_items ''c''), rspStopReason = StopToolUse,
     rspUsage = demo_gemini_usage, rspWarnings = [], rspExtra = []\<rparr>"

theorem gemini_response_round_trip_witness:
  "gm_ParseResponse ''x'' (\<lambda>s. s) (plain_error ''bad'') (Inr (gm_WriteResponse demo_gemini_response)) = Inr demo_gemini_response"
  by (rule gemini_response_round_trip[of "demo_gemini_items ''c''"])
    (simp_all add: demo_gemini_response_def demo_gemini_items_def gemini_stop_def demo_gemini_usage_def usage_fits_def
      zero_usage_def PromptTokens_def int64_max_def)
end
