(* ===== verification/Bytes.thy ===== *)
theory Bytes
  imports Prelude
begin

text \<open>
  What the content converters use of \<^verbatim>\<open>encoding/base64\<close> and \<^verbatim>\<open>unicode/utf8\<close>: the padded standard encoding, its decoder (which
  skips line breaks, wants the padding, and does not look at the bits a short last group leaves over), and UTF-8
  validity. A string is its bytes.
\<close>

section \<open>Base64\<close>

definition b64_alphabet :: string where
  "b64_alphabet = ''ABCDEFGHIJKLMNOPQRSTUVWXYZabcdefghijklmnopqrstuvwxyz0123456789+/''"

definition b64_digit :: "nat \<Rightarrow> char" where
  "b64_digit n = b64_alphabet ! n"

fun index_from :: "char \<Rightarrow> string \<Rightarrow> nat \<Rightarrow> nat option" where
  "index_from c [] n = None"
| "index_from c (d # ds) n = (if c = d then Some n else index_from c ds (Suc n))"

definition b64_val :: "char \<Rightarrow> nat option" where
  "b64_val c = index_from c b64_alphabet 0"

fun b64_groups :: "nat list \<Rightarrow> string" where
  "b64_groups [] = ''''"
| "b64_groups [a] = [b64_digit (a div 4), b64_digit (a mod 4 * 16), CHR ''='', CHR ''='']"
| "b64_groups [a, b] = [b64_digit (a div 4), b64_digit (a mod 4 * 16 + b div 16), b64_digit (b mod 16 * 4), CHR ''='']"
| "b64_groups (a # b # c # bs) =
     b64_digit (a div 4) # b64_digit (a mod 4 * 16 + b div 16) # b64_digit (b mod 16 * 4 + c div 64) # b64_digit (c mod 64) #
     b64_groups bs"

fun b64_quads :: "string \<Rightarrow> nat list option" where
  "b64_quads [] = Some []"
| "b64_quads (w # x # y # z # rest) =
     (case (b64_val w, b64_val x) of
        (Some a, Some b) \<Rightarrow>
          if z = CHR ''='' then
            if rest \<noteq> [] then None
            else if y = CHR ''='' then Some [a * 4 + b div 16]
            else (case b64_val y of None \<Rightarrow> None | Some c \<Rightarrow> Some [a * 4 + b div 16, b mod 16 * 16 + c div 4])
          else
            (case (b64_val y, b64_val z, b64_quads rest) of
               (Some c, Some d, Some bs) \<Rightarrow> Some ((a * 4 + b div 16) # (b mod 16 * 16 + c div 4) # (c mod 4 * 64 + d) # bs)
             | _ \<Rightarrow> None)
      | _ \<Rightarrow> None)"
| "b64_quads _ = None"

definition bytes_of :: "string \<Rightarrow> nat list" where
  "bytes_of s = map of_char s"

definition of_bytes :: "nat list \<Rightarrow> string" where
  "of_bytes bs = map char_of bs"

definition EncodeToString :: "string \<Rightarrow> string" where
  "EncodeToString s = b64_groups (bytes_of s)"

definition DecodeString :: "string \<Rightarrow> string option" where
  "DecodeString s = map_option of_bytes (b64_quads (filter (\<lambda>c. c \<noteq> CR \<and> c \<noteq> LF) s))"

lemma b64_val_table: "list_all (\<lambda>n. b64_val (b64_digit n) = Some n \<and> b64_digit n \<noteq> CHR ''='' \<and> b64_digit n \<noteq> CR \<and> b64_digit n \<noteq> LF) [0..<64]"
  by code_simp

lemma b64_val_digit: "n < 64 \<Longrightarrow> b64_val (b64_digit n) = Some n \<and> b64_digit n \<noteq> CHR ''='' \<and> b64_digit n \<noteq> CR \<and> b64_digit n \<noteq> LF"
  using b64_val_table by (simp add: list_all_iff)

lemma b64_bounds:
  fixes a b c :: nat
  assumes "a < 256" "b < 256" "c < 256"
  shows "a div 4 < 64" "a mod 4 * 16 < 64" "a mod 4 * 16 + b div 16 < 64" "b mod 16 * 4 < 64"
    "b mod 16 * 4 + c div 64 < 64" "c mod 64 < 64"
proof -
  have "b div 16 < 16" "c div 64 < 4" using assms by (simp_all add: less_mult_imp_div_less)
  moreover have "a mod 4 < 4" "b mod 16 < 16" by simp_all
  ultimately show "a mod 4 * 16 < 64" "a mod 4 * 16 + b div 16 < 64" "b mod 16 * 4 < 64" "b mod 16 * 4 + c div 64 < 64"
    by linarith+
qed (use assms in \<open>simp_all add: less_mult_imp_div_less\<close>)

lemma b64_glue:
  fixes b c :: nat
  assumes "b < 256" "c < 256"
  shows "b div 16 div 16 = 0" "b div 16 mod 16 = b div 16" "c div 64 div 4 = 0" "c div 64 mod 4 = c div 64"
  using assms by (simp_all add: less_mult_imp_div_less)

lemma digit_in: "n < 64 \<Longrightarrow> \<exists>m < 64. b64_digit n = b64_digit m"
  by blast

lemma b64_groups_chars: "list_all (\<lambda>b. b < 256) bs \<Longrightarrow> c \<in> set (b64_groups bs) \<Longrightarrow> c = CHR ''='' \<or> (\<exists>n < 64. c = b64_digit n)"
proof (induction bs rule: b64_groups.induct)
  case (2 a)
  from 2 show ?case using digit_in[OF b64_bounds(1)[of a a a]] digit_in[OF b64_bounds(2)[of a a a]] by auto
next
  case (3 a b)
  then show ?case using b64_bounds(1,3)[of a b 0] digit_in[OF b64_bounds(4)[of a b 0]] by auto
next
  case (4 a b d bs)
  then show ?case using b64_bounds[of a b d] digit_in[OF b64_bounds(6)[of a b d]] by auto
qed simp

lemma b64_groups_plain:
  assumes "list_all (\<lambda>b. b < 256) bs"
  shows "filter (\<lambda>c. c \<noteq> CR \<and> c \<noteq> LF) (b64_groups bs) = b64_groups bs"
proof -
  have "c \<noteq> CR \<and> c \<noteq> LF" if "c \<in> set (b64_groups bs)" for c
    using b64_groups_chars[OF assms that] b64_val_digit by (auto simp: CR_def LF_def)
  then show ?thesis by (simp add: filter_id_conv)
qed

lemma b64_quads_groups: "list_all (\<lambda>b. b < 256) bs \<Longrightarrow> b64_quads (b64_groups bs) = Some bs"
proof (induction bs rule: b64_groups.induct)
  case (2 a)
  then show ?case using b64_bounds[of a 0 0] by (simp add: b64_val_digit)
next
  case (3 a b)
  then show ?case using b64_bounds[of a b 0] b64_glue[of b 0] by (simp add: b64_val_digit)
next
  case (4 a b c bs)
  then show ?case using b64_bounds[of a b c] by (simp add: b64_val_digit b64_glue[of b c])
qed simp

lemma of_bytes_of [simp]: "of_bytes (bytes_of s) = s"
  by (induction s) (simp_all add: of_bytes_def bytes_of_def)

lemma bytes_small: "list_all (\<lambda>b. b < 256) (bytes_of s)"
  by (simp add: bytes_of_def list_all_iff)

lemma Decode_Encode [simp]: "DecodeString (EncodeToString s) = Some s"
  by (simp add: DecodeString_def EncodeToString_def b64_groups_plain b64_quads_groups bytes_small)

lemma Encode_empty_iff [simp]: "EncodeToString s = '''' \<longleftrightarrow> s = ''''"
  by (cases "bytes_of s" rule: b64_groups.cases) (auto simp: EncodeToString_def bytes_of_def)

section \<open>UTF-8\<close>

definition cont :: "nat \<Rightarrow> bool" where
  "cont b = (128 \<le> b \<and> b < 192)"

fun utf8_valid :: "nat list \<Rightarrow> bool" where
  "utf8_valid [] = True"
| "utf8_valid (b # bs) =
     (if b < 128 then utf8_valid bs
      else if 194 \<le> b \<and> b < 224 then (case bs of c # cs \<Rightarrow> cont c \<and> utf8_valid cs | _ \<Rightarrow> False)
      else if 224 \<le> b \<and> b < 240 then
        (case bs of
           c # d # cs \<Rightarrow> cont c \<and> (b = 224 \<longrightarrow> 160 \<le> c) \<and> (b = 237 \<longrightarrow> c < 160) \<and> cont d \<and> utf8_valid cs
         | _ \<Rightarrow> False)
      else if 240 \<le> b \<and> b < 245 then
        (case bs of
           c # d # e # cs \<Rightarrow> cont c \<and> (b = 240 \<longrightarrow> 144 \<le> c) \<and> (b = 244 \<longrightarrow> c < 144) \<and> cont d \<and> cont e \<and> utf8_valid cs
         | _ \<Rightarrow> False)
      else False)"

definition utf8_Valid :: "string \<Rightarrow> bool" where
  "utf8_Valid s = utf8_valid (bytes_of s)"

end
