(* ===== verification/Anthropic_Build.thy ===== *)
theory Anthropic_Build
  imports Xlate Exec Bytes
begin

text \<open>
  The Anthropic adapter's request side, \<^verbatim>\<open>internal/adapter/anthropic/build.go\<close> and \<^verbatim>\<open>content.go\<close>: content blocks with the
  four cache markers a request may carry, the merging of turns, the model's traits and the thinking mode they allow,
  tools and the choice among them, and the request itself.

  The counter of cache markers is threaded through the renderers. A JSON object is the list of its members in the order
  of their keys. Arguments: \<open>marshal\<close>, the JSON printer, which may fail; \<open>refloat\<close>, a number as a \<^verbatim>\<open>float64\<close> prints it;
  \<open>in_band\<close>, whether a \<^verbatim>\<open>float64\<close> lies between 0.95 and 1; \<open>valid_url\<close>, whether \<^verbatim>\<open>net/http\<close> takes a URL.
\<close>

section \<open>Objects\<close>

definition targetName :: string where "targetName = ''anthropic''"

definition aw :: "string \<Rightarrow> string \<Rightarrow> Warning" where
  "aw fld reason = warn targetName fld reason"

text \<open>Setting a member of a Go map that is listed in the order of its keys.\<close>

fun member_put :: "string \<Rightarrow> json \<Rightarrow> members \<Rightarrow> members" where
  "member_put k v [] = [(k, v)]"
| "member_put k v ((k', v') # ms) =
     (if k = k' then (k, v) # ms else if k < k' then (k, v) # (k', v') # ms else (k', v') # member_put k v ms)"

text \<open>A slice that nothing was appended to is nil, and prints as \<^verbatim>\<open>null\<close>.\<close>

definition jslice :: "json list \<Rightarrow> json" where
  "jslice xs = (if xs = [] then JNull else JArr xs)"

section \<open>Content\<close>

definition take_marker :: "nat \<Rightarrow> bool \<times> nat" where
  "take_marker used = (if used \<ge> MaxCacheBreakpoints then (False, used) else (True, Suc used))"

definition surplus :: Warning where
  "surplus = aw ''cache_control'' ''more than four breakpoints; the surplus marker was dropped''"

definition cacheControl :: "CacheControl \<Rightarrow> json" where
  "cacheControl cc =
     (let t = (''type'', JStr (if ccType cc = '''' then ''ephemeral'' else ccType cc))
      in JObj (if ccTTL cc \<noteq> '''' then [(''ttl'', JStr (ccTTL cc)), t] else [t]))"

definition mediaSource :: "Media option \<Rightarrow> string \<Rightarrow> json option \<times> Warning list" where
  "mediaSource m fld =
     (case m of
        None \<Rightarrow> (None, [])
      | Some m \<Rightarrow>
          if FileID m \<noteq> '''' then (Some (JObj [(''file_id'', JStr (FileID m)), (''type'', JStr ''file'')]), [])
          else if Data m \<noteq> '''' then
            (Some (JObj [(''data'', JStr (Data m)), (''media_type'', JStr (MIME m)), (''type'', JStr ''base64'')]), [])
          else if URL m \<noteq> '''' then (Some (JObj [(''type'', JStr ''url''), (''url'', JStr (URL m))]), [])
          else (None, [aw (''messages[].'' @ fld) ''carried neither data, a URL, nor a file id'']))"

definition documentSource :: "Media option \<Rightarrow> json option \<times> Warning list" where
  "documentSource m =
     (case m of
        None \<Rightarrow> mediaSource None ''document''
      | Some md \<Rightarrow>
          if Data md = '''' \<or> FileID md \<noteq> '''' then mediaSource m ''document''
          else
            let drop = (\<lambda>reason. (None, [aw ''messages[].document'' reason]));
                mime = ToLower (TrimSpace (MIME md)) in
            if mime = ''application/pdf'' then
              (Some (JObj [(''data'', JStr (Data md)), (''media_type'', JStr mime), (''type'', JStr ''base64'')]), [])
            else if HasPrefix mime ''text/'' then
              (case DecodeString (Data md) of
                 None \<Rightarrow> drop ''the document's data is not valid base64; it was dropped''
               | Some txt \<Rightarrow>
                   if \<not> utf8_Valid txt then drop (MIME md @ '' document is not UTF-8 text; it was dropped'')
                   else (Some (JObj [(''data'', JStr txt), (''media_type'', JStr ''text/plain''), (''type'', JStr ''text'')]), []))
            else if mime = '''' then drop ''a document with no media type cannot be sent; it was dropped''
            else drop (''Anthropic accepts PDF and plain-text documents only; '' @ MIME md @ '' was dropped''))"

text \<open>The marker of a rendered block, when the block has one and a marker is left.\<close>

definition marked :: "CacheControl option \<Rightarrow> members \<Rightarrow> nat \<Rightarrow> members \<times> Warning list \<times> nat" where
  "marked cc m cb =
     (case cc of
        None \<Rightarrow> (m, [], cb)
      | Some c \<Rightarrow>
          (case take_marker cb of
             (True, cb1) \<Rightarrow> (member_put ''cache_control'' (cacheControl c) m, [], cb1)
           | (False, cb1) \<Rightarrow> (m, [surplus], cb1)))"

definition sourced :: "string \<Rightarrow> json option \<times> Warning list \<Rightarrow> members option \<times> Warning list" where
  "sourced kind r = (case r of (None, w) \<Rightarrow> (None, w) | (Some src, w) \<Rightarrow> (Some [(''source'', src), (''type'', JStr kind)], w))"

text \<open>\<^verbatim>\<open>renderBlock\<close> for every type but a tool result, whose content is rendered in turn. The members of a carried block are
  a Go map.\<close>

fun render_leaf :: "ContentBlock \<Rightarrow> members option \<times> Warning list" where
  "render_leaf (ContentBlock t txt m th tu tr cc ex) =
     (case t of
        BlockText \<Rightarrow> (Some [(''text'', JStr txt), (''type'', JStr ''text'')], [])
      | BlockThinking \<Rightarrow>
          (case th of
             None \<Rightarrow> (None, [])
           | Some k \<Rightarrow>
               if thSignature k = '''' then
                 (None, [aw ''messages[].thinking'' ''thinking block without a signature; Anthropic rejects it, so it was dropped''])
               else (Some [(''signature'', JStr (thSignature k)), (''thinking'', JStr (thText k)), (''type'', JStr ''thinking'')], []))
      | BlockRedactedThinking \<Rightarrow>
          (case th of
             None \<Rightarrow> (None, [])
           | Some k \<Rightarrow> (Some [(''data'', JStr (thData k)), (''type'', JStr ''redacted_thinking'')], []))
      | BlockImage \<Rightarrow> sourced ''image'' (mediaSource m ''image'')
      | BlockDocument \<Rightarrow> sourced ''document'' (documentSource m)
      | BlockAudio \<Rightarrow> (None, [aw ''messages[].audio'' ''Anthropic has no audio content block''])
      | BlockToolUse \<Rightarrow>
          (case tu of
             None \<Rightarrow> (None, [])
           | Some u \<Rightarrow>
               (Some [(''id'', JStr (tuID u)), (''input'', case tuInput u of None \<Rightarrow> JObj [] | Some i \<Rightarrow> i),
                      (''name'', JStr (tuName u)), (''type'', JStr ''tool_use'')], []))
      | BlockToolResult \<Rightarrow> (None, [])
      | BlockOther s \<Rightarrow>
          if ex \<noteq> [] then (Some (sort_key fst ex), []) else (None, [aw (''messages[].'' @ s) ''unsupported content block'']))"

definition result_members :: "string \<Rightarrow> json list \<Rightarrow> bool \<Rightarrow> members" where
  "result_members tid inner isError =
     [(''content'', jslice inner)] @ (if isError then [(''is_error'', JBool True)] else []) @
     [(''tool_use_id'', JStr tid), (''type'', JStr ''tool_result'')]"

function (sequential) renderBlocks :: "ContentBlock list \<Rightarrow> nat \<Rightarrow> json list \<times> Warning list \<times> nat"
  and renderBlock :: "ContentBlock \<Rightarrow> nat \<Rightarrow> members option \<times> Warning list \<times> nat" where
  "renderBlocks [] cb = ([], [], cb)"
| "renderBlocks (b # bs) cb =
     (case renderBlock b cb of (r, w, cb1) \<Rightarrow>
      case r of
        None \<Rightarrow> (case renderBlocks bs cb1 of (out, ws, cb2) \<Rightarrow> (out, w @ ws, cb2))
      | Some m \<Rightarrow>
          (case marked (cbCacheControl b) m cb1 of (m1, w1, cb2) \<Rightarrow>
           case renderBlocks bs cb2 of (out, ws, cb3) \<Rightarrow> (JObj m1 # out, w @ w1 @ ws, cb3)))"
| "renderBlock (ContentBlock BlockToolResult txt m th tu (Some (ToolResult tid content isError)) cc ex) cb =
     (case renderBlocks content cb of (inner, w, cb1) \<Rightarrow> (Some (result_members tid inner isError), w, cb1))"
| "renderBlock b cb = (case render_leaf b of (r, w) \<Rightarrow> (r, w, cb))"
  by pat_completeness auto
termination
  by (relation "measure (\<lambda>x. case x of Inl (bs, cb) \<Rightarrow> size_list size bs | Inr (b, cb) \<Rightarrow> size b)") auto

section \<open>Turns\<close>

definition message_turn :: "string \<Rightarrow> json list \<Rightarrow> json" where
  "message_turn role content = JObj [(''content'', JArr content), (''role'', JStr role)]"

text \<open>The open turn is the role and the content gathered for it; no role, no turn.\<close>

definition close_turn :: "string \<Rightarrow> json list \<Rightarrow> json list" where
  "close_turn role content = (if role = '''' then [] else [message_turn role content])"

definition wire_role :: "Role \<Rightarrow> string" where
  "wire_role r = (if r = RoleAssistant then ''assistant'' else ''user'')"

fun render_turns :: "Message list \<Rightarrow> string \<Rightarrow> json list \<Rightarrow> nat \<Rightarrow> json list \<times> Warning list \<times> nat" where
  "render_turns [] curRole content cb = (close_turn curRole content, [], cb)"
| "render_turns (m # ms) curRole content cb =
     (case renderBlocks (msgContent m) cb of (blocks, w, cb1) \<Rightarrow>
      let role = wire_role (msgRole m) in
      if blocks = [] then (case render_turns ms curRole content cb1 of (out, ws, cb2) \<Rightarrow> (out, w @ ws, cb2))
      else if role \<noteq> curRole
      then (case render_turns ms role blocks cb1 of (out, ws, cb2) \<Rightarrow> (close_turn curRole content @ out, w @ ws, cb2))
      else (case render_turns ms curRole (content @ blocks) cb1 of (out, ws, cb2) \<Rightarrow> (out, w @ ws, cb2)))"

definition renderMessages :: "Request \<Rightarrow> nat \<Rightarrow> bool \<Rightarrow> json list \<times> Warning list \<times> nat" where
  "renderMessages req cb dropPrefill =
     (let msgs = NonSystemMessages (reqMessages req)
      in render_turns (if dropPrefill then butlast msgs else msgs) '''' [] cb)"

definition droppedPrefill :: "Request \<Rightarrow> bool" where
  "droppedPrefill req =
     (let msgs = NonSystemMessages (reqMessages req) in
      if msgs = [] then False
      else let m = last msgs in
        if msgRole m \<noteq> RoleAssistant \<or> msgContent m = [] then False
        else list_all (\<lambda>b. cbType b = BlockText) (msgContent m))"

section \<open>Traits and the thinking mode\<close>

text \<open>A model the catalogue does not know gets the permissive traits.\<close>

definition traitsOf :: "(int \<times> int \<times> Traits) option \<Rightarrow> Traits" where
  "traitsOf info =
     (let guessed = zero_traits\<lparr>trAdaptive := True, trManualBudget := True, trFreeSampling := True\<rparr> in
      case info of None \<Rightarrow> guessed | Some (_, _, t) \<Rightarrow> if \<not> trKnown t then guessed else t)"

definition maxOutput :: "(int \<times> int \<times> Traits) option \<Rightarrow> int" where
  "maxOutput info = (case info of None \<Rightarrow> 0 | Some (_, mx, _) \<Rightarrow> mx)"

datatype thinkingChoice = modeNone | modeAdaptive | modeManual | modeDisabled

definition meta :: "Request \<Rightarrow> string \<Rightarrow> string" where
  "meta req k = (case map_of (reqMetadata req) k of None \<Rightarrow> '''' | Some v \<Rightarrow> v)"

definition thinkingMode :: "Request \<Rightarrow> Traits \<Rightarrow> thinkingChoice" where
  "thinkingMode req tr =
     (let inbound = meta req ''anthropic_thinking_type''; rs = reqReasoning req in
      if inbound = ''disabled'' \<or> (case rs of Some r \<Rightarrow> rsDisabled r | None \<Rightarrow> False) then modeDisabled
      else if rs = None \<and> inbound = '''' then modeNone
      else
        let wantsManual = (inbound = ''enabled'' \<or> (case rs of Some r \<Rightarrow> rsBudget r > 0 | None \<Rightarrow> False)) in
        if wantsManual \<and> trManualBudget tr \<and> rs \<noteq> None then modeManual
        else if trAdaptive tr then modeAdaptive
        else if trManualBudget tr \<and> rs \<noteq> None then modeManual
        else modeNone)"

definition adaptiveEffort :: "Request \<Rightarrow> string" where
  "adaptiveEffort req =
     (case reqReasoning req of
        None \<Rightarrow> ''''
      | Some r \<Rightarrow> if rsEffort r \<noteq> '''' then AnthropicEffort (rsEffort r) else BudgetEffort (rsBudget r))"

section \<open>Tools\<close>

definition builtInDropped :: "Tool \<Rightarrow> Warning list" where
  "builtInDropped t =
     map (\<lambda>k. aw (''tools[].'' @ k) ''another provider's built-in tool has no Anthropic equivalent; dropped'')
       (sort (map fst (toolExtra t)))"

definition empty_schema :: json where
  "empty_schema = JObj [(''type'', JStr ''object'')]"

definition tool_members :: "(json \<Rightarrow> json option) \<Rightarrow> Tool \<Rightarrow> members" where
  "tool_members refloat t =
     fold (\<lambda>(k, v). member_put k v) (toolExtra t)
       (if map_of (toolExtra t) ''type'' = None then
          [(''description'', JStr (toolDescription t)),
           (''input_schema'', case JSONSchema refloat (toolSchema t) (toolSchemaDialect t) of None \<Rightarrow> empty_schema | Some s \<Rightarrow> s),
           (''name'', JStr (toolName t))]
        else [])"

text \<open>A tool's marker counts as one of content does.\<close>

definition marked_tool :: "members \<Rightarrow> nat \<Rightarrow> members \<times> Warning list \<times> nat" where
  "marked_tool m cb =
     (if map_of m ''cache_control'' = None then (m, [], cb)
      else case take_marker cb of
        (True, cb1) \<Rightarrow> (m, [], cb1)
      | (False, cb1) \<Rightarrow> (AList.delete ''cache_control'' m, [surplus], cb1))"

fun renderTools :: "(json \<Rightarrow> json option) \<Rightarrow> Tool list \<Rightarrow> nat \<Rightarrow> json list \<times> Warning list \<times> nat" where
  "renderTools refloat [] cb = ([], [], cb)"
| "renderTools refloat (t # ts) cb =
     (if BuiltIn t then (case renderTools refloat ts cb of (out, ws, cb1) \<Rightarrow> (out, builtInDropped t @ ws, cb1))
      else
        case marked_tool (tool_members refloat t) cb of
          (m1, w, cb1) \<Rightarrow> (case renderTools refloat ts cb1 of (out, ws, cb2) \<Rightarrow> (JObj m1 # out, w @ ws, cb2)))"

definition forcedChoice :: "ToolChoice option \<Rightarrow> bool" where
  "forcedChoice tc = (case tc of None \<Rightarrow> False | Some c \<Rightarrow> tcMode c = ''any'' \<or> tcMode c = ''tool'')"

definition renderToolChoice :: "ToolChoice option \<Rightarrow> bool option \<Rightarrow> json option" where
  "renderToolChoice tc parallel =
     (if tc = None \<and> parallel = None then None
      else
        let m = (case tc of
            None \<Rightarrow> [(''type'', JStr ''auto'')]
          | Some c \<Rightarrow>
              if tcMode c = ''none'' then [(''type'', JStr ''none'')]
              else if tcMode c = ''any'' then [(''type'', JStr ''any'')]
              else if tcMode c = ''tool'' then [(''name'', JStr (tcName c)), (''type'', JStr ''tool'')]
              else [(''type'', JStr ''auto'')])
        in Some (JObj (if parallel = Some False then (''disable_parallel_tool_use'', JBool True) # m else m)))"

text \<open>The tools and the choice among them that will be sent.\<close>

definition settle_tools ::
    "(json \<Rightarrow> json option) \<Rightarrow> Request \<Rightarrow> Traits \<Rightarrow> nat \<Rightarrow> json list \<times> ToolChoice option \<times> Warning list \<times> nat" where
  "settle_tools refloat req tr cb =
     (case renderTools refloat (reqTools req) cb of (tools, ws, cb1) \<Rightarrow>
      let choice = reqToolChoice req in
      if tools = [] then
        (tools, None,
         ws @ (if forcedChoice choice
               then [aw ''tool_choice'' ''no tool was left to declare; the forced tool choice was dropped''] else []), cb1)
      else if trNoForcedToolChoice tr \<and> forcedChoice choice then
        (tools, Some \<lparr>tcMode = ''auto'', tcName = ''''\<rparr>,
         ws @ [aw ''tool_choice'' ''this model rejects a forced tool choice; downgraded to auto''], cb1)
      else (tools, choice, ws, cb1))"

section \<open>Thinking and sampling\<close>

text \<open>The \<^verbatim>\<open>thinking\<close> member, the effort, whether thinking is on, and the warnings. Manual mode is chosen only for a request
  that has its reasoning set.\<close>

definition thinking_member :: "string \<Rightarrow> json" where
  "thinking_member t = JObj [(''type'', JStr t)]"

definition manual_budget :: "Reasoning \<Rightarrow> int \<Rightarrow> int \<Rightarrow> int \<times> Warning list" where
  "manual_budget r maxOut maxTok =
     (let budget = (if rsBudget r = 0 then EffortBudget (rsEffort r) maxOut else rsBudget r) in
      if budget \<ge> maxTok
      then (maxTok - 1, [aw ''reasoning.budget'' ''clamped below max_tokens, which Anthropic requires to be larger''])
      else (budget, []))"

definition settle_thinking ::
    "Request \<Rightarrow> int \<Rightarrow> int \<Rightarrow> Traits \<Rightarrow> ToolChoice option \<Rightarrow> json option \<times> string \<times> bool \<times> Warning list" where
  "settle_thinking req maxOut maxTok tr choice =
     (let mode = thinkingMode req tr;
          always = trThinkingAlwaysOn tr;
          guess = (if mode \<noteq> modeNone \<and> \<not> trKnown tr
            then [aw ''model'' ''unrecognized Anthropic model name; the thinking mode was guessed from the request''] else []) in
      case mode of
        modeNone \<Rightarrow> (None, '''', always, guess)
      | modeAdaptive \<Rightarrow> (Some (thinking_member ''adaptive''), adaptiveEffort req, True, guess)
      | modeManual \<Rightarrow>
          (case reqReasoning req of
             None \<Rightarrow> (None, '''', always, guess)
           | Some r \<Rightarrow>
               (case manual_budget r maxOut maxTok of (budget, w) \<Rightarrow>
                if budget < 1024 then
                  (None, '''', always,
                   guess @ w @ [aw ''reasoning'' ''budget below Anthropic's 1024-token minimum; thinking disabled''])
                else if forcedChoice choice then
                  (None, '''', always,
                   guess @ w @ [aw ''reasoning'' ''manual thinking is incompatible with a forced tool choice; thinking disabled''])
                else (Some (JObj [(''budget_tokens'', JInt budget), (''type'', JStr ''enabled'')]), '''', True, guess @ w)))
      | modeDisabled \<Rightarrow>
          if always then
            (None, '''', always, guess @ [aw ''thinking'' ''this model cannot turn thinking off; the request was sent with thinking on''])
          else if trAdaptive tr then (Some (thinking_member ''disabled''), '''', always, guess)
          else (None, '''', always, guess))"

definition sealed :: string where "sealed = ''this model rejects any non-default sampling parameter''"
definition withThinking :: string where "withThinking = ''rejected by Anthropic alongside thinking''"

text \<open>One sampling parameter: kept, or dropped with a warning.\<close>

definition sampling :: "string \<Rightarrow> Traits \<Rightarrow> bool \<Rightarrow> string \<Rightarrow> json option \<Rightarrow> json option \<times> Warning list" where
  "sampling fld tr banned reason val =
     (case val of
        None \<Rightarrow> (None, [])
      | Some v \<Rightarrow>
          if \<not> trFreeSampling tr then (None, [aw fld sealed])
          else if banned then (None, [aw fld reason])
          else (Some v, []))"

definition top_p_reason :: string where
  "top_p_reason = ''with thinking on, Anthropic accepts top_p only between 0.95 and 1''"

section \<open>The request\<close>

text \<open>A member that is there when its value is.\<close>

definition opt :: "string \<Rightarrow> json option \<Rightarrow> members" where
  "opt k v = (case v of None \<Rightarrow> [] | Some j \<Rightarrow> [(k, j)])"

definition only_if :: "bool \<Rightarrow> 'a \<Rightarrow> 'a option" where
  "only_if b x = (if b then Some x else None)"

definition response_format :: "(json \<Rightarrow> json option) \<Rightarrow> ResponseFormat option \<Rightarrow> json option \<times> Warning list" where
  "response_format refloat rf =
     (case rf of
        None \<Rightarrow> (None, [])
      | Some f \<Rightarrow>
          if rfType f = ''json_schema'' then
            (Some (JObj [(''schema'', case JSONSchema refloat (rfSchema f) (rfSchemaDialect f) of None \<Rightarrow> JNull | Some s \<Rightarrow> s),
                         (''type'', JStr ''json_schema'')]), [])
          else if rfType f = ''json_object'' then
            (None, [aw ''response_format'' ''Anthropic has no JSON mode without a schema; the response is unconstrained''])
          else (None, []))"

definition build_body ::
    "(json \<Rightarrow> json option) \<Rightarrow> (json \<Rightarrow> bool) \<Rightarrow> Target \<Rightarrow> Request \<Rightarrow> members \<times> Warning list" where
  "build_body refloat in_band t req =
     (case CollectSystemBlocks req targetName of (sysBlocks, w_sys) \<Rightarrow>
      case renderBlocks sysBlocks 0 of (system, w_sysr, cb1) \<Rightarrow>
      case RequiredMaxTokens req targetName (maxOutput (taInfo t)) of (maxTok, w_max) \<Rightarrow>
      let tr = traitsOf (taInfo t) in
      case settle_tools refloat req tr cb1 of (tools, choice, w_tools, cb2) \<Rightarrow>
      case settle_thinking req (maxOutput (taInfo t)) maxTok tr choice of (think, effort, thinking, w_think) \<Rightarrow>
      case sampling ''temperature'' tr thinking withThinking (reqTemperature req) of (temperature, w_temp) \<Rightarrow>
      case sampling ''top_p'' tr (thinking \<and> \<not> (case reqTopP req of Some p \<Rightarrow> in_band p | None \<Rightarrow> True)) top_p_reason (reqTopP req) of
        (top_p, w_p) \<Rightarrow>
      case sampling ''top_k'' tr thinking withThinking (map_option JInt (reqTopK req)) of (top_k, w_k) \<Rightarrow>
      case response_format refloat (reqResponseFormat req) of (fmt, w_fmt) \<Rightarrow>
      let output_config = opt ''effort'' (only_if (effort \<noteq> '''') (JStr effort)) @ opt ''format'' fmt;
          dropPrefill = ((thinking \<or> trNoPrefill tr) \<and> droppedPrefill req) in
      case renderMessages req cb2 dropPrefill of (msgs, w_msgs, cb3) \<Rightarrow>
        ([(''max_tokens'', JInt maxTok), (''messages'', jslice msgs)] @
         opt ''metadata'' (only_if (meta req ''user_id'' \<noteq> '''') (JObj [(''user_id'', JStr (meta req ''user_id''))])) @
         [(''model'', JStr (taModel t))] @
         opt ''output_config'' (only_if (output_config \<noteq> []) (JObj output_config)) @
         opt ''stop_sequences'' (only_if (reqStopSequences req \<noteq> []) (jstrings (reqStopSequences req))) @
         opt ''stream'' (only_if (reqStream req) (JBool True)) @
         opt ''system'' (only_if (sysBlocks \<noteq> []) (jslice system)) @
         opt ''temperature'' temperature @
         opt ''thinking'' think @
         opt ''tool_choice'' (if tools = [] then None else renderToolChoice choice (reqParallelToolCalls req)) @
         opt ''tools'' (only_if (tools \<noteq> []) (JArr tools)) @
         opt ''top_k'' top_k @
         opt ''top_p'' top_p,
         w_sys @ w_sysr @ w_max @ w_think @ w_temp @ w_p @ w_k @ w_tools @ w_fmt @
         (if reqSafety req \<noteq> [] then [aw ''safety'' ''safety settings are Gemini-only''] else []) @ w_msgs @
         (if dropPrefill
          then [aw ''messages[last].assistant_prefill''
            (if trNoPrefill tr then ''this model rejects a response prefill; the turn was dropped''
             else ''response prefill is rejected while thinking is on; the turn was dropped'')]
          else [])))"

definition DefaultVersion :: string where "DefaultVersion = ''2023-06-01''"

record http_request =
  hqMethod :: string
  hqURL :: string
  hqHeader :: "(string, string) gomap"
  hqBody :: string

definition TrimSlashes :: "string \<Rightarrow> string" where
  "TrimSlashes s = rev (dropWhile (\<lambda>c. c = CHR ''/'') (rev s))"

definition BuildRequest ::
    "(json \<Rightarrow> string option) \<Rightarrow> (json \<Rightarrow> json option) \<Rightarrow> (json \<Rightarrow> bool) \<Rightarrow> (string \<Rightarrow> bool) \<Rightarrow> Target \<Rightarrow> Request \<Rightarrow>
     http_request option \<times> Warning list" where
  "BuildRequest marshal refloat in_band valid_url t req =
     (case build_body refloat in_band t req of (body, warns) \<Rightarrow>
        (case marshal (JObj body) of
           None \<Rightarrow> (None, warns)
         | Some buf \<Rightarrow>
             let url = TrimSlashes (taBaseURL t) @ ''/messages'' in
             if \<not> valid_url url then (None, warns)
             else (Some \<lparr>hqMethod = ''POST'', hqURL = url,
               hqHeader =
                 [(''Content-Type'', ''application/json'')] @
                 (if taAPIKey t \<noteq> '''' then [(''X-Api-Key'', taAPIKey t)] else []) @
                 [(''Anthropic-Version'',
                   if meta req ''anthropic_version'' \<noteq> '''' then meta req ''anthropic_version'' else DefaultVersion)] @
                 (if meta req ''anthropic_beta'' \<noteq> '''' then [(''Anthropic-Beta'', meta req ''anthropic_beta'')] else []),
               hqBody = buf\<rparr>, warns)))"

section \<open>Cache markers\<close>

text \<open>The markers of a rendered block: its own, and those of the content of a tool result.\<close>

fun block_marks :: "json \<Rightarrow> nat" where
  "block_marks (JObj ms) =
     (if map_of ms ''cache_control'' = None then 0 else 1) +
     (if map_of ms ''type'' = Some (JStr ''tool_result'') then
        sum_list (map (\<lambda>(k, v). case v of JArr l \<Rightarrow> if k = ''content'' then sum_list (map block_marks l) else 0 | _ \<Rightarrow> 0) ms)
      else 0)"
| "block_marks j = 0"

lemma map_of_member_put [simp]: "map_of (member_put k v ms) k' = (if k' = k then Some v else map_of ms k')"
  by (induction k v ms rule: member_put.induct) auto

text \<open>A carried block has no marker of its own and is no tool result: a marker is the canonical field's business.\<close>

fun carried_plain :: "ContentBlock \<Rightarrow> bool" where
  "carried_plain (ContentBlock t txt m th tu tr cc ex) =
     (case t of
        BlockOther _ \<Rightarrow> map_of ex ''cache_control'' = None \<and> map_of ex ''type'' \<noteq> Some (JStr ''tool_result'')
      | BlockToolResult \<Rightarrow> (case tr of None \<Rightarrow> True | Some (ToolResult tid content e) \<Rightarrow> list_all carried_plain content)
      | _ \<Rightarrow> True)"

definition unmarked :: "members \<Rightarrow> bool" where
  "unmarked m \<longleftrightarrow> map_of m ''cache_control'' = None \<and>
     (map_of m ''type'' \<noteq> Some (JStr ''tool_result'') \<or> (\<exists>tid inner e. m = result_members tid inner e))"

lemma cache_before_content: "''cache_control'' < ''content''"
  by code_simp

lemma marks_put:
  assumes "unmarked m"
  shows "block_marks (JObj (member_put ''cache_control'' c m)) = Suc (block_marks (JObj m))"
proof (cases "map_of m ''type'' = Some (JStr ''tool_result'')")
  case True
  then obtain tid inner e where m: "m = result_members tid inner e" using assms by (auto simp: unmarked_def)
  show ?thesis by (cases c) (auto simp: m result_members_def cache_before_content)
next
  case False
  then show ?thesis using assms by (simp add: unmarked_def)
qed

text \<open>Of \<open>n\<close> markers asked for when \<open>cb\<close> are placed: as many are placed as the four still allow, and each other one is warned
  about.\<close>

definition counts :: "nat \<Rightarrow> nat \<Rightarrow> nat \<Rightarrow> nat \<Rightarrow> Warning list \<Rightarrow> bool" where
  "counts cb n placed cb1 ws \<longleftrightarrow>
     (cb \<le> 4 \<longrightarrow> placed = min n (4 - cb) \<and> cb1 = cb + placed \<and> count_list ws surplus = n - placed)"

lemma counts_trans: "counts a n p b ws \<Longrightarrow> counts b m q c ws' \<Longrightarrow> counts a (n + m) (p + q) c (ws @ ws')"
  unfolding counts_def by (auto simp: min_def split: if_splits)

lemma counts_none: "surplus \<notin> set ws \<Longrightarrow> counts a 0 0 a ws"
  by (simp add: counts_def count_list_0_iff)

text \<open>The markers of a block's own, and of the blocks in a tool result. A block that is not sent has none to place.\<close>

definition own_mark :: "CacheControl option \<Rightarrow> nat" where
  "own_mark cc = (if cc = None then 0 else 1)"

fun asked_block :: "ContentBlock \<Rightarrow> nat" where
  "asked_block (ContentBlock t txt m th tu tr cc ex) =
     (case tr of
        Some (ToolResult tid content e) \<Rightarrow>
          if t = BlockToolResult then sum_list (map asked_block content) + own_mark cc
          else if fst (render_leaf (ContentBlock t txt m th tu tr cc ex)) = None then 0 else own_mark cc
      | None \<Rightarrow> if fst (render_leaf (ContentBlock t txt m th tu tr cc ex)) = None then 0 else own_mark cc)"

lemma marked_counts:
  assumes "marked cc m cb = (m1, w, cb1)" "unmarked m"
  shows "\<exists>p. block_marks (JObj m1) = block_marks (JObj m) + p \<and> counts cb (own_mark cc) p cb1 w"
  using assms marks_put[OF assms(2)]
  by (auto simp: marked_def take_marker_def MaxCacheBreakpoints_def counts_def own_mark_def split: option.splits if_splits)

lemma surplus_field: "aw fld reason = surplus \<Longrightarrow> fld = ''cache_control''"
  by (simp add: aw_def surplus_def warn_def)

lemma map_of_sorted: "map_of (sort_key fst xs) = map_of (xs :: members)"
  by (rule ext) (rule map_of_sort)

lemma mediaSource_warns: "snd (mediaSource m fld) \<in> {[], [aw (''messages[].'' @ fld) ''carried neither data, a URL, nor a file id'']}"
  by (auto simp: mediaSource_def split: option.split)

lemma documentSource_warns: "set (snd (documentSource m)) \<subseteq> {w. wField w = ''messages[].document''}"
  using mediaSource_warns[of m "''document''"]
  by (auto simp: documentSource_def Let_def aw_def warn_def mediaSource_def split: option.splits)

lemma render_leaf_warns:
  assumes "render_leaf b = (r, w)"
  shows "surplus \<notin> set w"
proof (cases b)
  case (ContentBlock t x m th tu tr cc ex)
  have s: "sourced kind p = (r', w') \<Longrightarrow> w' = snd p" for kind p r' w'
    by (auto simp: sourced_def split: prod.splits option.splits)
  show ?thesis
  proof (cases t)
    case BlockImage
    then have "w = snd (mediaSource m ''image'')" using assms s by (auto simp: ContentBlock)
    then show ?thesis using mediaSource_warns[of m "''image''"] by (auto simp: surplus_def aw_def warn_def)
  next
    case BlockDocument
    then have "w = snd (documentSource m)" using assms s by (auto simp: ContentBlock)
    then show ?thesis using documentSource_warns[of m] by (auto simp: surplus_def aw_def warn_def)
  qed (use assms in \<open>auto simp: ContentBlock surplus_def aw_def warn_def split: option.splits if_splits\<close>)
qed

lemma render_leaf_plain:
  assumes "render_leaf b = (Some m, w)" "carried_plain b"
  shows "unmarked m \<and> block_marks (JObj m) = 0"
proof -
  have "map_of m ''cache_control'' = None \<and> map_of m ''type'' \<noteq> Some (JStr ''tool_result'')"
    using assms
    by (cases b) (auto simp: sourced_def map_of_sorted split: BlockType.splits option.splits if_splits prod.splits)
  then show ?thesis by (simp add: unmarked_def)
qed

lemma result_unmarked: "unmarked (result_members tid inner e) \<and>
    block_marks (JObj (result_members tid inner e)) = sum_list (map block_marks inner)"
  by (auto simp: unmarked_def result_members_def jslice_def)

declare block_marks.simps [simp del]

text \<open>The renderers count exactly the markers they place, up to four, and warn about each one beyond.\<close>

lemma leaf_counts:
  assumes "render_leaf b = (r, w)" "carried_plain b" "cbType b \<noteq> BlockToolResult \<or> cbToolResult b = None"
  shows "case r of None \<Rightarrow> asked_block b = 0 \<and> counts cb 0 0 cb w
    | Some m \<Rightarrow> unmarked m \<and> (\<exists>n. asked_block b = n + own_mark (cbCacheControl b) \<and> counts cb n (block_marks (JObj m)) cb w)"
proof -
  have c: "counts cb 0 0 cb w" by (rule counts_none[OF render_leaf_warns[OF assms(1)]])
  have a: "asked_block b = (if r = None then 0 else own_mark (cbCacheControl b))"
    using assms(1,3) by (cases b) (auto simp del: render_leaf.simps split: option.split ToolResult.split)
  show ?thesis
  proof (cases r)
    case None
    then show ?thesis using a c by simp
  next
    case (Some m)
    then show ?thesis using a c render_leaf_plain[of b m w] assms(1,2) by simp
  qed
qed

lemma render_counts:
  "renderBlocks bs cb = (out, ws, cb1) \<Longrightarrow> list_all carried_plain bs \<Longrightarrow>
     counts cb (sum_list (map asked_block bs)) (sum_list (map block_marks out)) cb1 ws"
  "renderBlock b cb = (r, w, cb1) \<Longrightarrow> carried_plain b \<Longrightarrow>
     (case r of None \<Rightarrow> asked_block b = 0 \<and> counts cb 0 0 cb1 w
      | Some m \<Rightarrow> unmarked m \<and>
          (\<exists>n. asked_block b = n + own_mark (cbCacheControl b) \<and> counts cb n (block_marks (JObj m)) cb1 w))"
proof (induction bs cb and b cb arbitrary: out ws cb1 and r w cb1 rule: renderBlocks_renderBlock.induct)
  case (1 cb)
  then show ?case by (simp add: counts_def)
next
  case (2 b bs cb)
  obtain r w cb2 where b: "renderBlock b cb = (r, w, cb2)" by (cases "renderBlock b cb")
  show ?case
  proof (cases r)
    case None
    obtain out' ws' cb3 where bs: "renderBlocks bs cb2 = (out', ws', cb3)" by (cases "renderBlocks bs cb2")
    have "asked_block b = 0" "counts cb 0 0 cb2 w" using 2(1)[OF b] 2(5) None by simp_all
    moreover have "counts cb2 (sum_list (map asked_block bs)) (sum_list (map block_marks out')) cb3 ws'" using 2(2) b None bs 2(5) by simp
    ultimately show ?thesis using counts_trans 2(4) b None bs by fastforce
  next
    case (Some m)
    obtain m1 w1 cb3 where m: "marked (cbCacheControl b) m cb2 = (m1, w1, cb3)" by (cases "marked (cbCacheControl b) m cb2")
    obtain out' ws' cb4 where bs: "renderBlocks bs cb3 = (out', ws', cb4)" by (cases "renderBlocks bs cb3")
    obtain n where rb: "unmarked m" "asked_block b = n + own_mark (cbCacheControl b)" "counts cb n (block_marks (JObj m)) cb2 w"
      using 2(1)[OF b] 2(5) Some by auto
    obtain p where mk: "block_marks (JObj m1) = block_marks (JObj m) + p" "counts cb2 (own_mark (cbCacheControl b)) p cb3 w1"
      using marked_counts[OF m rb(1)] by blast
    have "counts cb (asked_block b) (block_marks (JObj m1)) cb3 (w @ w1)" using counts_trans[OF rb(3) mk(2)] by (simp add: rb(2) mk(1))
    moreover have "counts cb3 (sum_list (map asked_block bs)) (sum_list (map block_marks out')) cb4 ws'" using 2(3) b Some m bs 2(5) by simp
    ultimately have "counts cb (asked_block b + sum_list (map asked_block bs)) (block_marks (JObj m1) + sum_list (map block_marks out')) cb4
        ((w @ w1) @ ws')" by (rule counts_trans)
    then show ?thesis using 2(4) b Some m bs by auto
  qed
next
  case (3 x m th tu tid content e cc ex cb)
  obtain inner w' cb2 where c: "renderBlocks content cb = (inner, w', cb2)" by (cases "renderBlocks content cb")
  then show ?case using 3 result_unmarked[of tid inner e] by (auto simp del: block_marks.simps)
qed (use leaf_counts in \<open>fastforce simp del: block_marks.simps render_leaf.simps carried_plain.simps asked_block.simps split: prod.splits\<close>)+

definition tool_marks :: "json \<Rightarrow> nat" where
  "tool_marks j = (if member ''cache_control'' j = None then 0 else 1)"

definition asked_tool :: "Tool \<Rightarrow> nat" where
  "asked_tool t = (if \<not> BuiltIn t \<and> ''cache_control'' \<in> fst ` set (toolExtra t) then 1 else 0)"

lemma member_puts_None:
  "map_of (fold (\<lambda>(k, v). member_put k v) xs m) k = None \<longleftrightarrow> k \<notin> fst ` set xs \<and> map_of m k = None"
  by (induction xs arbitrary: m) (auto split: if_splits)

lemma tool_marker: "map_of (tool_members refloat t) ''cache_control'' = None \<longleftrightarrow> ''cache_control'' \<notin> fst ` set (toolExtra t)"
  by (simp add: tool_members_def member_puts_None del: not_None_eq)

lemma tools_count:
  "renderTools refloat ts cb = (out, ws, cb1) \<Longrightarrow> counts cb (sum_list (map asked_tool ts)) (sum_list (map tool_marks out)) cb1 ws"
proof (induction ts arbitrary: cb out ws cb1)
  case (Cons t ts)
  show ?case
  proof (cases "BuiltIn t")
    case True
    obtain ws' where r: "renderTools refloat ts cb = (out, ws', cb1)" "ws = builtInDropped t @ ws'"
      using Cons.prems True by (auto split: prod.splits)
    have "counts cb 0 0 cb (builtInDropped t)"
      by (rule counts_none) (auto simp: builtInDropped_def surplus_def aw_def warn_def)
    from counts_trans[OF this Cons.IH[OF r(1)]] show ?thesis using True by (simp add: r(2) asked_tool_def)
  next
    case False
    let ?m = "tool_members refloat t"
    obtain m1 w cb2 where m: "marked_tool ?m cb = (m1, w, cb2)" by (cases "marked_tool ?m cb")
    obtain out' ws' where r: "renderTools refloat ts cb2 = (out', ws', cb1)" "out = JObj m1 # out'" "ws = w @ ws'"
      using Cons.prems False m by (simp split: prod.splits)
    have "asked_tool t = (if map_of ?m ''cache_control'' = None then 0 else 1)"
      using False tool_marker[of refloat t] by (simp add: asked_tool_def)
    then have "counts cb (asked_tool t) (tool_marks (JObj m1)) cb2 w" using m
      by (auto simp: marked_tool_def counts_def tool_marks_def member_def take_marker_def MaxCacheBreakpoints_def split: if_splits)
    from counts_trans[OF this Cons.IH[OF r(1)]] show ?thesis by (simp add: r(2,3))
  qed
qed (simp add: counts_def)

definition message_marks :: "json \<Rightarrow> nat" where
  "message_marks j = (case member ''content'' j of Some (JArr l) \<Rightarrow> sum_list (map block_marks l) | _ \<Rightarrow> 0)"

lemma message_marks_turn [simp]: "message_marks (message_turn role content) = sum_list (map block_marks content)"
  by (simp add: message_marks_def message_turn_def member_def)

lemma close_turn_marks: "role \<noteq> '''' \<or> content = [] \<Longrightarrow> sum_list (map message_marks (close_turn role content)) = sum_list (map block_marks content)"
  by (auto simp: close_turn_def)

lemma wire_role_set [simp]: "wire_role r \<noteq> ''''"
  by (simp add: wire_role_def)

definition asked_turns :: "Message list \<Rightarrow> nat" where
  "asked_turns ms = sum_list (map (\<lambda>m. sum_list (map asked_block (msgContent m))) ms)"

lemma turns_count:
  "render_turns ms cur content cb = (out, ws, cb1) \<Longrightarrow> list_all (\<lambda>m. list_all carried_plain (msgContent m)) ms \<Longrightarrow>
   cur \<noteq> '''' \<or> content = [] \<Longrightarrow>
   \<exists>p. sum_list (map message_marks out) = sum_list (map block_marks content) + p \<and> counts cb (asked_turns ms) p cb1 ws"
proof (induction ms arbitrary: cur content cb out ws cb1)
  case Nil
  then show ?case by (auto simp: close_turn_marks counts_def asked_turns_def)
next
  case (Cons m ms)
  obtain blocks w cb2 where b: "renderBlocks (msgContent m) cb = (blocks, w, cb2)" by (cases "renderBlocks (msgContent m) cb")
  let ?n = "sum_list (map asked_block (msgContent m))"
  have c: "counts cb ?n (sum_list (map block_marks blocks)) cb2 w" using render_counts(1)[OF b] Cons.prems(2) by simp
  have n: "asked_turns (m # ms) = ?n + asked_turns ms" by (simp add: asked_turns_def)
  show ?case
  proof (cases "blocks = []")
    case True
    then obtain ws' where r: "render_turns ms cur content cb2 = (out, ws', cb1)" "ws = w @ ws'"
      using Cons.prems(1) b by (auto split: prod.splits)
    from Cons.IH[OF r(1)] Cons.prems(2,3) obtain p where "sum_list (map message_marks out) = sum_list (map block_marks content) + p"
      "counts cb2 (asked_turns ms) p cb1 ws'" by auto
    then show ?thesis using counts_trans[OF c] r(2) True by (auto simp: n intro!: exI[of _ p])
  next
    case False
    show ?thesis
    proof (cases "wire_role (msgRole m) = cur")
      case True
      then obtain ws' where r: "render_turns ms cur (content @ blocks) cb2 = (out, ws', cb1)" "ws = w @ ws'"
        using Cons.prems(1) b False by (auto simp: Let_def split: prod.splits)
      from Cons.IH[OF r(1)] Cons.prems(2) True obtain p where
        "sum_list (map message_marks out) = sum_list (map block_marks content) + sum_list (map block_marks blocks) + p"
        "counts cb2 (asked_turns ms) p cb1 ws'" using wire_role_set[of "msgRole m"] by auto
      then show ?thesis using counts_trans[OF c] r(2) by (auto simp: add.assoc n)
    next
      case other: False
      then obtain out' ws' where r: "render_turns ms (wire_role (msgRole m)) blocks cb2 = (out', ws', cb1)" "ws = w @ ws'"
          "out = close_turn cur content @ out'"
        using Cons.prems(1) b False by (auto simp: Let_def split: prod.splits)
      from Cons.IH[OF r(1)] Cons.prems(2) obtain p where
        "sum_list (map message_marks out') = sum_list (map block_marks blocks) + p" "counts cb2 (asked_turns ms) p cb1 ws'" by auto
      then show ?thesis using counts_trans[OF c] r(2,3) close_turn_marks[OF Cons.prems(3)] by (auto simp: add.assoc n)
    qed
  qed
qed

section \<open>The members of a request\<close>

lemma map_of_opt [simp]: "map_of (opt k v) k' = (if k' = k then v else None)"
  by (simp add: opt_def split: option.split)

lemma map_of_opt_append [simp]:
  "k' \<noteq> k \<Longrightarrow> map_of (opt k v @ ms) k' = map_of ms k'"
  "map_of ms k = None \<Longrightarrow> map_of (opt k v @ ms) k = v"
  by (simp_all add: opt_def split: option.split)

lemma only_if_simps [simp]: "only_if True x = Some x" "only_if False x = None"
  by (simp_all add: only_if_def)

definition sysBlocks :: "Request \<Rightarrow> ContentBlock list" where
  "sysBlocks req = fst (CollectSystemBlocks req targetName)"

definition sent_max :: "Target \<Rightarrow> Request \<Rightarrow> int" where
  "sent_max t req = fst (RequiredMaxTokens req targetName (maxOutput (taInfo t)))"

lemma system_warns:
  assumes "CollectSystemBlocks req target = (bs, ws)"
  shows "list_all (\<lambda>b. cbType b = BlockText) bs" "\<forall>w \<in> set ws. wField w \<noteq> ''cache_control''"
proof -
  have m: "system_messages target ms seen = (gs, w, mis) \<Longrightarrow>
      (\<forall>g \<in> set gs. list_all (\<lambda>b. cbType b = BlockText) g) \<and> (\<forall>w \<in> set w. wField w \<noteq> ''cache_control'')" for ms seen gs w mis
  proof (induction ms arbitrary: seen gs w mis)
    case (Cons a ms)
    then show ?case
      by (fastforce simp: system_group_def warn_def list_all_iff split: if_splits prod.splits)
  qed simp
  obtain gs ws' mis where g: "system_messages target (reqMessages req) False = (gs, ws', mis)"
    by (cases "system_messages target (reqMessages req) False")
  show "list_all (\<lambda>b. cbType b = BlockText) bs" "\<forall>w \<in> set ws. wField w \<noteq> ''cache_control''"
    using assms m[OF g] by (auto simp: CollectSystemBlocks_def systemSources_def g system_group_def warn_def list_all_iff
        split: if_splits)
qed

lemma max_warns: "RequiredMaxTokens req target cap = (n, ws) \<Longrightarrow> \<forall>w \<in> set ws. wField w \<noteq> ''cache_control''"
  by (auto simp: RequiredMaxTokens_def warn_def split: option.splits if_splits)

lemma thinking_warns:
  assumes "settle_thinking req maxOut maxTok tr choice = (think, effort, thinking, ws)"
  shows "\<forall>w \<in> set ws. wField w \<noteq> ''cache_control''"
  using assms
  by (auto simp: settle_thinking_def manual_budget_def Let_def aw_def warn_def
      split: thinkingChoice.splits option.splits if_splits prod.splits)

lemma sampling_warns: "\<forall>w \<in> set (snd (sampling fld tr b r v)). wField w = fld"
  by (auto simp: sampling_def aw_def warn_def split: option.splits)

lemma body_parts:
  assumes "build_body refloat in_band t req = (body, ws)"
  obtains system w_sysr cb1 tools choice w_tools cb2 think effort thinking w_think msgs w_msgs cb3 dropPrefill where
    "renderBlocks (sysBlocks req) 0 = (system, w_sysr, cb1)"
    "settle_tools refloat req (traitsOf (taInfo t)) cb1 = (tools, choice, w_tools, cb2)"
    "settle_thinking req (maxOutput (taInfo t)) (sent_max t req) (traitsOf (taInfo t)) choice = (think, effort, thinking, w_think)"
    "dropPrefill = ((thinking \<or> trNoPrefill (traitsOf (taInfo t))) \<and> droppedPrefill req)"
    "renderMessages req cb2 dropPrefill = (msgs, w_msgs, cb3)"
    "map_of body ''max_tokens'' = Some (JInt (sent_max t req))"
    "map_of body ''messages'' = Some (jslice msgs)"
    "map_of body ''system'' = only_if (sysBlocks req \<noteq> []) (jslice system)"
    "map_of body ''thinking'' = think"
    "map_of body ''tools'' = only_if (tools \<noteq> []) (JArr tools)"
    "map_of body ''tool_choice'' = (if tools = [] then None else renderToolChoice choice (reqParallelToolCalls req))"
    "map_of body ''temperature'' = fst (sampling ''temperature'' (traitsOf (taInfo t)) thinking withThinking (reqTemperature req))"
    "map_of body ''top_p'' = fst (sampling ''top_p'' (traitsOf (taInfo t))
       (thinking \<and> \<not> (case reqTopP req of Some p \<Rightarrow> in_band p | None \<Rightarrow> True)) top_p_reason (reqTopP req))"
    "map_of body ''top_k'' = fst (sampling ''top_k'' (traitsOf (taInfo t)) thinking withThinking (map_option JInt (reqTopK req)))"
    "count_list ws surplus = count_list w_sysr surplus + count_list w_tools surplus + count_list w_msgs surplus"
proof -
  let ?tr = "traitsOf (taInfo t)"
  obtain w_sys where s: "CollectSystemBlocks req targetName = (sysBlocks req, w_sys)"
    by (metis sysBlocks_def prod.collapse)
  obtain system w_sysr cb1 where r: "renderBlocks (sysBlocks req) 0 = (system, w_sysr, cb1)" by (cases "renderBlocks (sysBlocks req) 0")
  obtain w_max where mx: "RequiredMaxTokens req targetName (maxOutput (taInfo t)) = (sent_max t req, w_max)"
    by (metis sent_max_def prod.collapse)
  obtain tools choice w_tools cb2 where tl: "settle_tools refloat req ?tr cb1 = (tools, choice, w_tools, cb2)"
    by (cases "settle_tools refloat req ?tr cb1")
  obtain think effort thinking w_think where th:
    "settle_thinking req (maxOutput (taInfo t)) (sent_max t req) ?tr choice = (think, effort, thinking, w_think)"
    by (cases "settle_thinking req (maxOutput (taInfo t)) (sent_max t req) ?tr choice")
  define temp where "temp = sampling ''temperature'' ?tr thinking withThinking (reqTemperature req)"
  define topp where "topp = sampling ''top_p'' ?tr
       (thinking \<and> \<not> (case reqTopP req of Some p \<Rightarrow> in_band p | None \<Rightarrow> True)) top_p_reason (reqTopP req)"
  define topk where "topk = sampling ''top_k'' ?tr thinking withThinking (map_option JInt (reqTopK req))"
  define fmt where "fmt = response_format refloat (reqResponseFormat req)"
  define dp where "dp = ((thinking \<or> trNoPrefill ?tr) \<and> droppedPrefill req)"
  obtain msgs w_msgs cb3 where ms: "renderMessages req cb2 dp = (msgs, w_msgs, cb3)" by (cases "renderMessages req cb2 dp")
  note eq = assms[unfolded build_body_def s r mx prod.case Let_def tl th, folded temp_def topp_def topk_def fmt_def dp_def,
    unfolded ms case_prod_unfold fst_conv snd_conv]
  note b = arg_cong[OF eq, of fst, unfolded fst_conv, symmetric]
  note w = arg_cong[OF eq, of snd, unfolded snd_conv, symmetric]
  define rest where "rest = w_sys @ w_max @ w_think @ snd temp @ snd topp @ snd topk @ snd fmt @
    (if reqSafety req \<noteq> [] then [aw ''safety'' ''safety settings are Gemini-only''] else []) @
    (if dp then [aw ''messages[last].assistant_prefill''
       (if trNoPrefill ?tr then ''this model rejects a response prefill; the turn was dropped''
        else ''response prefill is rejected while thinking is on; the turn was dropped'')] else [])"
  have "\<forall>w \<in> set rest. wField w \<noteq> ''cache_control''"
    using system_warns[OF s] max_warns[OF mx] thinking_warns[OF th] sampling_warns[of _ ?tr]
    by (auto simp: rest_def temp_def topp_def topk_def fmt_def response_format_def aw_def warn_def split: option.splits if_splits)
  then have sp: "surplus \<notin> set rest" by (auto simp: surplus_def aw_def warn_def)
  have "count_list ws surplus = count_list w_sysr surplus + count_list w_tools surplus + count_list w_msgs surplus + count_list rest surplus"
    unfolding w rest_def count_list_append by (simp only: add_ac)
  then have ws: "count_list ws surplus = count_list w_sysr surplus + count_list w_tools surplus + count_list w_msgs surplus"
    using sp by (simp add: count_list_0_iff)
  show thesis
    by (rule that[OF r tl th dp_def ms _ _ _ _ _ _ _ _ _ ws])
      (simp_all del: map_of_append add: b temp_def topp_def topk_def)
qed

section \<open>What every request keeps to\<close>

text \<open>The markers a client asked for, over what is sent of its request: \<open>sent\<close> is the conversation without its system turns.\<close>

definition asked_marks :: "Request \<Rightarrow> Message list \<Rightarrow> nat" where
  "asked_marks req sent =
     sum_list (map asked_block (sysBlocks req)) + sum_list (map asked_tool (reqTools req)) + asked_turns sent"

definition array_sum :: "(json \<Rightarrow> nat) \<Rightarrow> json option \<Rightarrow> nat" where
  "array_sum f v = (case v of Some (JArr l) \<Rightarrow> sum_list (map f l) | _ \<Rightarrow> 0)"

definition body_marks :: "members \<Rightarrow> nat" where
  "body_marks body =
     array_sum block_marks (map_of body ''system'') + array_sum tool_marks (map_of body ''tools'') +
     array_sum message_marks (map_of body ''messages'')"

lemma array_sum_simps [simp]:
  "array_sum f None = 0" "array_sum f (Some (jslice l)) = sum_list (map f l)" "array_sum f (Some (JArr l)) = sum_list (map f l)"
  by (simp_all add: array_sum_def jslice_def)

lemma text_plain: "cbType b = BlockText \<Longrightarrow> carried_plain b"
  by (cases b) simp

lemma settle_counts:
  assumes "settle_tools refloat req tr cb = (tools, choice, ws, cb1)"
  shows "counts cb (sum_list (map asked_tool (reqTools req))) (sum_list (map tool_marks tools)) cb1 ws"
proof -
  obtain w x where r: "renderTools refloat (reqTools req) cb = (tools, w, cb1)" and ws: "ws = w @ x" "surplus \<notin> set x"
  proof -
    obtain t0 w0 c0 where r0: "renderTools refloat (reqTools req) cb = (t0, w0, c0)" by (metis prod_cases3)
    then show thesis using assms that[of w0] by (auto simp: settle_tools_def Let_def surplus_def aw_def warn_def split: if_splits)
  qed
  then show ?thesis using counts_trans[OF tools_count[OF r] counts_none[OF ws(2)]] by simp
qed

text \<open>C25. However many cache markers a client asks for on its system content, its tools and its turns, a request built for
  Anthropic carries as many of them as fit, at most four, and each one beyond is dropped with a warning of its own: the
  request carries the smaller of four and the number asked for, and the warnings are as many as the rest. Asked for are
  the markers of the blocks and tools that are sent; a prefill that had to be dropped takes its own along. Blocks carried
  verbatim have no marker of their own, theirs is the canonical field.\<close>

theorem cache_markers_bounded:
  assumes "build_body refloat in_band t req = (body, ws)"
    and "list_all (\<lambda>m. list_all carried_plain (msgContent m)) (reqMessages req)"
  shows "\<exists>sent. (sent = NonSystemMessages (reqMessages req) \<or>
      droppedPrefill req \<and> sent = butlast (NonSystemMessages (reqMessages req))) \<and>
    body_marks body = min 4 (asked_marks req sent) \<and> count_list ws surplus = asked_marks req sent - 4"
proof -
  from body_parts[OF assms(1)] obtain system w_sysr cb1 tools choice w_tools cb2 thinking msgs w_msgs cb3 dp where p:
    "renderBlocks (sysBlocks req) 0 = (system, w_sysr, cb1)"
    "settle_tools refloat req (traitsOf (taInfo t)) cb1 = (tools, choice, w_tools, cb2)"
    "dp = ((thinking \<or> trNoPrefill (traitsOf (taInfo t))) \<and> droppedPrefill req)"
    "renderMessages req cb2 dp = (msgs, w_msgs, cb3)"
    "map_of body ''messages'' = Some (jslice msgs)"
    "map_of body ''system'' = only_if (sysBlocks req \<noteq> []) (jslice system)"
    "map_of body ''tools'' = only_if (tools \<noteq> []) (JArr tools)"
    "count_list ws surplus = count_list w_sysr surplus + count_list w_tools surplus + count_list w_msgs surplus" by metis
  have "list_all (\<lambda>b. cbType b = BlockText) (sysBlocks req)"
    unfolding sysBlocks_def by (rule system_warns(1)) (rule prod.collapse[symmetric])
  then have "list_all carried_plain (sysBlocks req)"
    by (simp add: list_all_iff text_plain)
  note s = render_counts(1)[OF p(1) this]
  note tl = settle_counts[OF p(2)]
  define ms where "ms = (if dp then butlast (NonSystemMessages (reqMessages req)) else NonSystemMessages (reqMessages req))"
  have "list_all (\<lambda>m. list_all carried_plain (msgContent m)) ms"
    using assms(2) by (auto simp: ms_def NonSystemMessages_def list_all_iff dest!: in_set_butlastD)
  from turns_count[OF _ this, of "''''" "[]" cb2 msgs w_msgs cb3] p(4) have
    m: "counts cb2 (asked_turns ms) (sum_list (map message_marks msgs)) cb3 w_msgs"
    by (auto simp: renderMessages_def Let_def ms_def)
  note all = counts_trans[OF counts_trans[OF s tl] m]
  have "system = [] \<or> sysBlocks req \<noteq> []" using p(1) by auto
  then have "body_marks body = min 4 (asked_marks req ms) \<and> count_list ws surplus = asked_marks req ms - 4"
    using all by (auto simp: body_marks_def p counts_def only_if_def asked_marks_def)
  moreover have "ms = NonSystemMessages (reqMessages req) \<or> droppedPrefill req \<and> ms = butlast (NonSystemMessages (reqMessages req))"
    by (auto simp: ms_def p(3))
  ultimately show ?thesis by blast
qed

definition str_field :: "string \<Rightarrow> json option \<Rightarrow> string" where
  "str_field k v = (case v of None \<Rightarrow> '''' | Some j \<Rightarrow> (case member k j of Some (JStr s) \<Rightarrow> s | _ \<Rightarrow> ''''))"

text \<open>What Anthropic demands of a request's parameters, given a model's traits.\<close>

definition budget_ok :: "members \<Rightarrow> bool" where
  "budget_ok body =
     (case map_of body ''max_tokens'' of
        Some (JInt mx) \<Rightarrow> 0 < mx \<and>
          (str_field ''type'' (map_of body ''thinking'') = ''enabled'' \<longrightarrow>
            (case Option.bind (map_of body ''thinking'') (member ''budget_tokens'') of Some (JInt b) \<Rightarrow> 1024 \<le> b \<and> b < mx | _ \<Rightarrow> False))
      | _ \<Rightarrow> False)"

definition params_ok :: "Traits \<Rightarrow> (json \<Rightarrow> bool) \<Rightarrow> members \<Rightarrow> bool" where
  "params_ok tr in_band body =
     (let mode = str_field ''type'' (map_of body ''thinking'');
          forced = (str_field ''type'' (map_of body ''tool_choice'') \<in> {''any'', ''tool''});
          thinking = (mode = ''enabled'' \<or> mode = ''adaptive'' \<or> trThinkingAlwaysOn tr) in
      budget_ok body \<and>
      (mode = ''adaptive'' \<longrightarrow> trAdaptive tr) \<and> (mode = ''enabled'' \<longrightarrow> trManualBudget tr \<and> \<not> forced) \<and>
      (mode = ''disabled'' \<longrightarrow> trAdaptive tr \<and> \<not> trThinkingAlwaysOn tr) \<and>
      (trNoForcedToolChoice tr \<longrightarrow> \<not> forced) \<and>
      (map_of body ''tool_choice'' \<noteq> None \<longrightarrow> map_of body ''tools'' \<noteq> None) \<and>
      (thinking \<or> \<not> trFreeSampling tr \<longrightarrow> map_of body ''temperature'' = None \<and> map_of body ''top_k'' = None) \<and>
      (case map_of body ''top_p'' of None \<Rightarrow> True | Some p \<Rightarrow> trFreeSampling tr \<and> (thinking \<longrightarrow> in_band p)))"

lemma thinking_cases:
  assumes "settle_thinking req maxOut maxTok tr choice = (think, effort, thinking, w)"
  shows "think = None \<and> thinking = trThinkingAlwaysOn tr \<or>
    think = Some (thinking_member ''adaptive'') \<and> trAdaptive tr \<and> thinking \<or>
    (\<exists>b. think = Some (JObj [(''budget_tokens'', JInt b), (''type'', JStr ''enabled'')]) \<and> 1024 \<le> b \<and> b < maxTok \<and>
      \<not> forcedChoice choice \<and> trManualBudget tr \<and> thinking) \<or>
    think = Some (thinking_member ''disabled'') \<and> trAdaptive tr \<and> \<not> trThinkingAlwaysOn tr \<and> \<not> thinking"
proof -
  have modes: "thinkingMode req tr = modeAdaptive \<Longrightarrow> trAdaptive tr" "thinkingMode req tr = modeManual \<Longrightarrow> trManualBudget tr"
    by (auto simp: thinkingMode_def Let_def split: if_splits)
  have "b < maxTok" if "manual_budget r maxOut maxTok = (b, w')" for r b w'
    using that by (auto simp: manual_budget_def Let_def split: if_splits)
  then show ?thesis using assms modes
    by (auto simp: settle_thinking_def Let_def split: thinkingChoice.splits option.splits if_splits prod.splits)
qed

lemma choice_forced: "str_field ''type'' (renderToolChoice c par) \<in> {''any'', ''tool''} \<longleftrightarrow> forcedChoice c"
  by (auto simp: renderToolChoice_def forcedChoice_def str_field_def member_def Let_def split: option.splits if_splits)

lemma settle_choice:
  assumes "settle_tools refloat req tr cb = (tools, choice, w, cb1)"
  shows "tools = [] \<Longrightarrow> choice = None" "trNoForcedToolChoice tr \<Longrightarrow> \<not> forcedChoice choice"
  using assms by (auto simp: settle_tools_def Let_def forcedChoice_def split: prod.splits if_splits)

text \<open>C11. Whatever thinking, sampling, tool choice and output cap a client asks for, the parameters of the request built for
  Anthropic are ones the model accepts: a positive cap, a thinking mode the model has, a manual budget of at least 1024
  and below the cap and never beside a forced tool, no forced tool for a model that rejects it, no choice without tools,
  and no sampling parameter that the model or its thinking rules out.\<close>

theorem built_request_accepted:
  assumes "build_body refloat in_band t req = (body, ws)"
  shows "params_ok (traitsOf (taInfo t)) in_band body"
proof -
  let ?tr = "traitsOf (taInfo t)"
  from body_parts[OF assms] obtain tools choice w_tools cb1 cb2 think effort thinking w_think where p:
    "settle_tools refloat req ?tr cb1 = (tools, choice, w_tools, cb2)"
    "settle_thinking req (maxOutput (taInfo t)) (sent_max t req) ?tr choice = (think, effort, thinking, w_think)"
    "map_of body ''max_tokens'' = Some (JInt (sent_max t req))"
    "map_of body ''thinking'' = think"
    "map_of body ''tools'' = only_if (tools \<noteq> []) (JArr tools)"
    "map_of body ''tool_choice'' = (if tools = [] then None else renderToolChoice choice (reqParallelToolCalls req))"
    "map_of body ''temperature'' = fst (sampling ''temperature'' ?tr thinking withThinking (reqTemperature req))"
    "map_of body ''top_p'' = fst (sampling ''top_p'' ?tr
       (thinking \<and> \<not> (case reqTopP req of Some p \<Rightarrow> in_band p | None \<Rightarrow> True)) top_p_reason (reqTopP req))"
    "map_of body ''top_k'' = fst (sampling ''top_k'' ?tr thinking withThinking (map_option JInt (reqTopK req)))" by metis
  have pos: "0 < sent_max t req" by (simp add: sent_max_def RequiredMaxTokens_pos)
  have forced: "str_field ''type'' (map_of body ''tool_choice'') \<in> {''any'', ''tool''} \<longleftrightarrow> forcedChoice choice \<and> tools \<noteq> []"
    using choice_forced by (simp add: p(6) str_field_def)
  have samp: "fst (sampling fld tr' b r v) = None \<or> (trFreeSampling tr' \<and> \<not> b \<and> fst (sampling fld tr' b r v) = v)" for fld tr' b r v
    by (auto simp: sampling_def split: option.split)
  have thinking: "thinking \<longleftrightarrow> str_field ''type'' think \<in> {''enabled'', ''adaptive''} \<or> trThinkingAlwaysOn ?tr"
    and mode: "str_field ''type'' think = ''adaptive'' \<longrightarrow> trAdaptive ?tr"
      "str_field ''type'' think = ''enabled'' \<longrightarrow> trManualBudget ?tr \<and> \<not> forcedChoice choice"
      "str_field ''type'' think = ''disabled'' \<longrightarrow> trAdaptive ?tr \<and> \<not> trThinkingAlwaysOn ?tr"
    and budget: "budget_ok body"
    using thinking_cases[OF p(2)] pos
    by (auto simp: str_field_def thinking_member_def member_def budget_ok_def p(3,4))
  have free: "thinking \<or> \<not> trFreeSampling ?tr \<longrightarrow> map_of body ''temperature'' = None \<and> map_of body ''top_k'' = None"
    using samp[of "''temperature''" ?tr thinking] samp[of "''top_k''" ?tr thinking] by (auto simp: p(7,9))
  have top_p: "case map_of body ''top_p'' of None \<Rightarrow> True | Some v \<Rightarrow> trFreeSampling ?tr \<and> (thinking \<longrightarrow> in_band v)"
    by (auto simp: p(8) sampling_def split: option.split)
  have tools: "map_of body ''tool_choice'' \<noteq> None \<longrightarrow> map_of body ''tools'' \<noteq> None" by (simp add: p(5,6))
  have th: "thinking \<longleftrightarrow> str_field ''type'' think = ''enabled'' \<or> str_field ''type'' think = ''adaptive'' \<or> trThinkingAlwaysOn ?tr"
    using thinking by simp
  have nf: "trNoForcedToolChoice ?tr \<longrightarrow> str_field ''type'' (map_of body ''tool_choice'') \<notin> {''any'', ''tool''}"
    using forced settle_choice(2)[OF p(1)] by simp
  have ef: "str_field ''type'' think = ''enabled'' \<longrightarrow>
      trManualBudget ?tr \<and> str_field ''type'' (map_of body ''tool_choice'') \<notin> {''any'', ''tool''}"
    using mode(2) forced by simp
  show ?thesis unfolding params_ok_def Let_def p(4) th[symmetric]
    using budget mode(1,3) ef nf tools free top_p by (intro conjI)
qed

section \<open>Turns\<close>

definition turn_role :: "json \<Rightarrow> string" where
  "turn_role j = str_field ''role'' (Some j)"

definition turn_blocks :: "json \<Rightarrow> json list" where
  "turn_blocks j = (case member ''content'' j of Some (JArr l) \<Rightarrow> l | _ \<Rightarrow> [])"

definition turns_ok :: "json list \<Rightarrow> bool" where
  "turns_ok msgs = (successively (\<lambda>a b. turn_role a \<noteq> turn_role b) msgs \<and>
     list_all (\<lambda>j. turn_role j \<in> {''user'', ''assistant''} \<and> turn_blocks j \<noteq> []) msgs)"

lemma message_turn_simps [simp]: "turn_role (message_turn r c) = r" "turn_blocks (message_turn r c) = c"
  by (simp_all add: turn_role_def turn_blocks_def message_turn_def str_field_def member_def)

lemma wire_role_cases: "wire_role r \<in> {''user'', ''assistant''}"
  by (simp add: wire_role_def)

lemma turns_ok_Cons: "turns_ok (j # js) \<longleftrightarrow> turn_role j \<in> {''user'', ''assistant''} \<and> turn_blocks j \<noteq> [] \<and>
    (js \<noteq> [] \<longrightarrow> turn_role j \<noteq> turn_role (hd js)) \<and> turns_ok js"
  by (cases js) (auto simp: turns_ok_def)

lemma renderBlocks_append:
  "renderBlocks (bs @ bs') cb =
     (case renderBlocks bs cb of (out, ws, cb1) \<Rightarrow> case renderBlocks bs' cb1 of (out', ws', cb2) \<Rightarrow> (out @ out', ws @ ws', cb2))"
  by (induction bs arbitrary: cb) (auto split: prod.splits option.splits)

lemma turns_shape:
  "render_turns ms cur content cb = (out, ws, cb1) \<Longrightarrow>
   (cur = '''' \<and> content = []) \<or> (cur \<in> {''user'', ''assistant''} \<and> content \<noteq> []) \<Longrightarrow>
   turns_ok out \<and> (cur \<noteq> '''' \<longrightarrow> out \<noteq> [] \<and> turn_role (hd out) = cur) \<and>
   concat (map turn_blocks out) = content @ fst (renderBlocks (concat (map msgContent ms)) cb)"
proof (induction ms arbitrary: cur content cb out ws cb1)
  case Nil
  then show ?case by (auto simp: close_turn_def turns_ok_def)
next
  case (Cons m ms)
  obtain blocks w cb2 where b: "renderBlocks (msgContent m) cb = (blocks, w, cb2)" by (cases "renderBlocks (msgContent m) cb")
  let ?role = "wire_role (msgRole m)"
  have all: "fst (renderBlocks (concat (map msgContent (m # ms))) cb) = blocks @ fst (renderBlocks (concat (map msgContent ms)) cb2)"
    by (simp add: renderBlocks_append b split: prod.split)
  consider (empty) "blocks = []" | (same) "blocks \<noteq> []" "?role = cur" | (new) "blocks \<noteq> []" "?role \<noteq> cur" by blast
  then show ?case
  proof cases
    case empty
    then obtain ws' where "render_turns ms cur content cb2 = (out, ws', cb1)" using Cons.prems(1) b by (auto split: prod.splits)
    from Cons.IH[OF this Cons.prems(2)] show ?thesis using all empty by simp
  next
    case same
    then obtain ws' where r: "render_turns ms cur (content @ blocks) cb2 = (out, ws', cb1)"
      using Cons.prems(1) b by (auto simp: Let_def split: prod.splits)
    have "cur \<in> {''user'', ''assistant''}" using wire_role_cases[of "msgRole m"] same(2) by simp
    with same(1) Cons.IH[OF r] show ?thesis using all by auto
  next
    case new
    then obtain out' ws' where r: "render_turns ms ?role blocks cb2 = (out', ws', cb1)" "out = close_turn cur content @ out'"
      using Cons.prems(1) b by (auto simp: Let_def split: prod.splits)
    have "?role \<in> {''user'', ''assistant''}" "?role \<noteq> ''''" using wire_role_cases[of "msgRole m"] by auto
    with new(1) Cons.IH[OF r(1)] have ih: "turns_ok out'" "out' \<noteq> []" "turn_role (hd out') = ?role"
      "concat (map turn_blocks out') = blocks @ fst (renderBlocks (concat (map msgContent ms)) cb2)" by blast+
    show ?thesis using Cons.prems(2) ih new(2) all by (auto simp: r(2) close_turn_def turns_ok_Cons)
  qed
qed

text \<open>The turns of a request for Anthropic alternate between the user and the assistant and are never empty, however the
  client's turns follow one another; and merging them neither loses, adds nor reorders a block: read one after the other,
  their contents are the rendered blocks of the client's turns.\<close>

theorem built_turns:
  "turns_ok (fst (renderMessages req cb dp)) \<and>
   concat (map turn_blocks (fst (renderMessages req cb dp))) =
     fst (renderBlocks (concat (map msgContent (if dp then butlast (NonSystemMessages (reqMessages req))
       else NonSystemMessages (reqMessages req)))) cb)"
proof -
  define ms where "ms = (if dp then butlast (NonSystemMessages (reqMessages req)) else NonSystemMessages (reqMessages req))"
  obtain out ws cb1 where r: "render_turns ms '''' [] cb = (out, ws, cb1)" by (cases "render_turns ms '''' [] cb")
  from turns_shape[OF r] show ?thesis by (simp add: renderMessages_def Let_def r flip: ms_def)
qed

section \<open>Examples\<close>

text \<open>A request with five marked turns, manual reasoning and a temperature, for a model with a manual budget.\<close>

definition marked_text :: "string \<Rightarrow> ContentBlock" where
  "marked_text s = ContentBlock BlockText s None None None None (Some \<lparr>ccType = '''', ccTTL = ''''\<rparr>) []"

definition demo_turn :: "Role \<Rightarrow> ContentBlock \<Rightarrow> Message" where
  "demo_turn r b = \<lparr>msgRole = r, msgContent = [b]\<rparr>"

definition demo_req :: "Message list \<Rightarrow> Request" where
  "demo_req ms = \<lparr>reqModel = ''m'', reqSystem = [marked_text ''s''], reqMessages = ms, reqTools = [], reqToolChoice = None,
     reqParallelToolCalls = None, reqMaxTokens = Some 3000, reqTemperature = Some (JInt 1), reqTopP = None, reqTopK = None,
     reqStopSequences = [], reqStream = True, reqReasoning = Some \<lparr>rsEffort = '''', rsBudget = 4000, rsDisabled = False\<rparr>,
     reqResponseFormat = None, reqSafety = [], reqMetadata = [], reqExtra = [], reqWarnings = []\<rparr>"

definition demo_target :: "Traits \<Rightarrow> Target" where
  "demo_target tr = \<lparr>taBaseURL = ''http://u/'', taAPIKey = ''k'', taModel = ''claude'', taInfo = Some (0, 8192, tr\<lparr>trKnown := True\<rparr>),
     taPreset = '''', taRerankPath = '''', taRegion = '''', taProject = '''', taLocation = '''', taPublisher = ''''\<rparr>"

definition demo_built :: "members \<times> Warning list" where
  "demo_built = build_body Some (\<lambda>p. True) (demo_target (zero_traits\<lparr>trManualBudget := True, trFreeSampling := True\<rparr>))
     (demo_req [demo_turn RoleUser (marked_text ''a''), demo_turn RoleUser (marked_text ''b''),
       demo_turn RoleAssistant (marked_text ''c''), demo_turn RoleUser (marked_text ''d'')])"

lemma cache_markers_bounded_witness: "body_marks (fst demo_built) = 4 \<and> count_list (snd demo_built) surplus = 1"
proof -
  let ?ms = "[demo_turn RoleUser (marked_text ''a''), demo_turn RoleUser (marked_text ''b''),
       demo_turn RoleAssistant (marked_text ''c''), demo_turn RoleUser (marked_text ''d'')]"
  have "list_all (\<lambda>m. list_all carried_plain (msgContent m)) (reqMessages (demo_req ?ms))"
    by (simp add: demo_req_def demo_turn_def marked_text_def)
  moreover have "\<not> droppedPrefill (demo_req ?ms)" by code_simp
  moreover have "asked_marks (demo_req ?ms) (NonSystemMessages (reqMessages (demo_req ?ms))) = 5" by code_simp
  ultimately show ?thesis
    using cache_markers_bounded[of Some "\<lambda>p. True" "demo_target (zero_traits\<lparr>trManualBudget := True, trFreeSampling := True\<rparr>)"
        "demo_req ?ms" "fst demo_built" "snd demo_built"]
    by (auto simp: demo_built_def)
qed

lemma built_request_accepted_witness:
  "params_ok (traitsOf (taInfo (demo_target (zero_traits\<lparr>trManualBudget := True, trFreeSampling := True\<rparr>)))) (\<lambda>p. True) (fst demo_built) \<and>
   map_of (fst demo_built) ''thinking'' = Some (JObj [(''budget_tokens'', JInt 2999), (''type'', JStr ''enabled'')]) \<and>
   map_of (fst demo_built) ''temperature'' = None"
proof -
  have "map_of (fst demo_built) ''thinking'' = Some (JObj [(''budget_tokens'', JInt 2999), (''type'', JStr ''enabled'')])" by code_simp
  moreover have "map_of (fst demo_built) ''temperature'' = None" by code_simp
  ultimately show ?thesis
    using built_request_accepted[of Some "\<lambda>p. True" "demo_target (zero_traits\<lparr>trManualBudget := True, trFreeSampling := True\<rparr>)" _
        "fst demo_built" "snd demo_built"]
    unfolding demo_built_def by (metis prod.collapse)
qed

text \<open>The prefill rule drops one turn. A prefill spread over two assistant turns leaves the first behind, so that the request
  still ends in a text-only assistant turn, for a model that rejects one; and so does one whose last turn also holds
  thinking that nothing signed, which is dropped only afterwards.\<close>

definition ends_in_text :: "members \<times> Warning list \<Rightarrow> bool" where
  "ends_in_text b =
     (case map_of (fst b) ''messages'' of
        Some (JArr ts) \<Rightarrow> turn_role (last ts) = ''assistant'' \<and>
          list_all (\<lambda>j. str_field ''type'' (Some j) = ''text'') (turn_blocks (last ts))
      | _ \<Rightarrow> False)"

lemma prefill_survives:
  "ends_in_text (build_body Some (\<lambda>p. True) (demo_target (zero_traits\<lparr>trNoPrefill := True\<rparr>))
     (demo_req [demo_turn RoleUser (text_block ''q''), demo_turn RoleAssistant (text_block ''a''),
        demo_turn RoleAssistant (text_block ''b'')]))"
  "ends_in_text (build_body Some (\<lambda>p. True) (demo_target (zero_traits\<lparr>trNoPrefill := True\<rparr>))
     (demo_req [demo_turn RoleUser (text_block ''q''),
        \<lparr>msgRole = RoleAssistant, msgContent = [ContentBlock BlockThinking '''' None
           (Some \<lparr>thText = ''t'', thSignature = '''', thData = ''''\<rparr>) None None None [], text_block ''a'']\<rparr>]))"
  by code_simp+

text \<open>A tool declared with an \<^verbatim>\<open>input_schema\<close> of \<^verbatim>\<open>null\<close> keeps it: only an absent one is replaced.\<close>

lemma null_schema_kept:
  "map_of (tool_members refloat \<lparr>toolName = ''f'', toolDescription = '''', toolSchema = Some JNull, toolSchemaDialect = '''',
     toolExtra = []\<rparr>) ''input_schema'' = Some JNull"
  by (simp add: tool_members_def JSONSchema_def SchemaOpenAPI_def)

end
