(* ===== verification/Anthropic_Writer.thy ===== *)
theory Anthropic_Writer
  imports Dialect
begin

text \<open>
  The Anthropic client dialect's response side, \<^verbatim>\<open>internal/edge/anthropic/stream.go\<close> and \<^verbatim>\<open>write.go\<close>: the stream writer
  as a state machine from canonical events to named wire events, the response and error bodies, and the grammar of
  an Anthropic message stream, which every stream it writes is shown to be a sentence of.
\<close>

section \<open>Bodies\<close>

fun stopReasonWire :: "StopReason \<Rightarrow> string" where
  "stopReasonWire StopMaxTokens = ''max_tokens''"
| "stopReasonWire StopToolUse = ''tool_use''"
| "stopReasonWire StopStopSequence = ''stop_sequence''"
| "stopReasonWire StopContentFilter = ''refusal''"
| "stopReasonWire StopPauseTurn = ''pause_turn''"
| "stopReasonWire _ = ''end_turn''"

definition usageBody :: "Usage \<Rightarrow> json" where
  "usageBody u = JObj
     ((if CacheWrite5mTokens u > 0 \<or> CacheWrite1hTokens u > 0
       then [(''cache_creation'', JObj [(''ephemeral_1h_input_tokens'', JInt (CacheWrite1hTokens u)),
               (''ephemeral_5m_input_tokens'', JInt (CacheWrite5mTokens u))])]
       else []) @
      [(''cache_creation_input_tokens'', JInt (CacheWriteTokens u)),
       (''cache_read_input_tokens'', JInt (CacheReadTokens u)),
       (''input_tokens'', JInt (InputTokens u)),
       (''output_tokens'', JInt (OutputTokens u))])"

definition messageID :: "string \<Rightarrow> string" where
  "messageID i = (if i = '''' then ''msg_darkrouter'' else i)"

fun errorShape :: "ErrorType \<Rightarrow> string \<times> int" where
  "errorShape ErrInvalidRequest = (''invalid_request_error'', 400)"
| "errorShape ErrContentFilter = (''invalid_request_error'', 400)"
| "errorShape ErrAuthentication = (''authentication_error'', 401)"
| "errorShape ErrPermission = (''permission_error'', 403)"
| "errorShape ErrNotFound = (''not_found_error'', 404)"
| "errorShape ErrPayloadTooLarge = (''invalid_request_error'', 413)"
| "errorShape ErrUnsupportedMedia = (''invalid_request_error'', 415)"
| "errorShape ErrRateLimit = (''rate_limit_error'', 429)"
| "errorShape ErrOverloaded = (''overloaded_error'', 529)"
| "errorShape _ = (''api_error'', 502)"

text \<open>\<^verbatim>\<open>responseBlocks\<close>: what one content block of a response becomes, nothing for one with no form here.\<close>

definition response_block :: "ContentBlock \<Rightarrow> json list" where
  "response_block b =
     (case cbType b of
        BlockText \<Rightarrow> [JObj [(''text'', JStr (cbText b)), (''type'', JStr ''text'')]]
      | BlockThinking \<Rightarrow> (case cbThinking b of
          None \<Rightarrow> []
        | Some th \<Rightarrow> [JObj ((if thSignature th \<noteq> '''' then [(''signature'', JStr (thSignature th))] else []) @
            [(''thinking'', JStr (thText th)), (''type'', JStr ''thinking'')])])
      | BlockRedactedThinking \<Rightarrow> (case cbThinking b of
          None \<Rightarrow> []
        | Some th \<Rightarrow> [JObj [(''data'', JStr (thData th)), (''type'', JStr ''redacted_thinking'')]])
      | BlockToolUse \<Rightarrow> (case cbToolUse b of
          None \<Rightarrow> []
        | Some tu \<Rightarrow> [JObj [(''id'', JStr (tuID tu)),
            (''input'', (case tuInput tu of None \<Rightarrow> JObj [] | Some raw \<Rightarrow> raw)),
            (''name'', JStr (tuName tu)), (''type'', JStr ''tool_use'')]])
      | _ \<Rightarrow> if cbExtra b \<noteq> [] then [go_map (cbExtra b)] else [])"

definition responseBlocks :: "ContentBlock list \<Rightarrow> json" where
  "responseBlocks bs = JArr (concat (map response_block bs))"

definition WriteResponse_body :: "IRResponse \<Rightarrow> json" where
  "WriteResponse_body r = JObj
     [(''content'', responseBlocks (rspContent r)), (''id'', JStr (messageID (rspID r))),
      (''model'', JStr (rspModel r)), (''role'', JStr ''assistant''),
      (''stop_reason'', JStr (stopReasonWire (rspStopReason r))), (''stop_sequence'', JNull),
      (''type'', JStr ''message''), (''usage'', usageBody (rspUsage r))]"

definition WriteError_body :: "Error \<Rightarrow> int \<times> json" where
  "WriteError_body e =
     (case errorShape (errType e) of (name, status) \<Rightarrow>
        (status, JObj [(''error'', JObj [(''message'', JStr (errMessage e)), (''type'', JStr name)]),
           (''type'', JStr ''error'')]))"

definition WriteCount_body :: "int \<Rightarrow> json" where
  "WriteCount_body tokens = JObj [(''input_tokens'', JInt tokens)]"

definition blockStartBody :: "Delta option \<Rightarrow> json" where
  "blockStartBody d =
     (case d of
        None \<Rightarrow> JObj [(''text'', JStr ''''), (''type'', JStr ''text'')]
      | Some d \<Rightarrow>
          if dExtra d \<noteq> [] then go_map (dExtra d)
          else case dType d of
            BlockThinking \<Rightarrow> JObj [(''signature'', JStr ''''), (''thinking'', JStr ''''), (''type'', JStr ''thinking'')]
          | BlockRedactedThinking \<Rightarrow> JObj [(''data'', JStr (dThinking d)), (''type'', JStr ''redacted_thinking'')]
          | BlockToolUse \<Rightarrow> JObj [(''id'', JStr (dToolID d)), (''input'', JObj []), (''name'', JStr (dToolName d)),
              (''type'', JStr ''tool_use'')]
          | _ \<Rightarrow> JObj [(''text'', JStr ''''), (''type'', JStr ''text'')])"

definition deltaBody :: "Delta \<Rightarrow> json" where
  "deltaBody d =
     (case dType d of
        BlockThinking \<Rightarrow>
          if dSignature d \<noteq> '''' then JObj [(''signature'', JStr (dSignature d)), (''type'', JStr ''signature_delta'')]
          else JObj [(''thinking'', JStr (dThinking d)), (''type'', JStr ''thinking_delta'')]
      | BlockToolUse \<Rightarrow> JObj [(''partial_json'', JStr (dToolInput d)), (''type'', JStr ''input_json_delta'')]
      | _ \<Rightarrow> JObj [(''text'', JStr (dText d)), (''type'', JStr ''text_delta'')])"

section \<open>The stream writer\<close>

record aw_state =
  awID :: string
  awModel :: string
  awUsage :: Usage
  awStarted :: bool
  awWireOf :: "(int, int) gomap"
  awNext :: int
  awStop :: StopReason
  awDone :: bool

definition aw_init :: aw_state where
  "aw_init = \<lparr>awID = '''', awModel = '''', awUsage = zero_usage, awStarted = False, awWireOf = [], awNext = 0,
     awStop = StopEndTurn, awDone = False\<rparr>"

definition message_start :: "aw_state \<Rightarrow> wire" where
  "message_start st = (''message_start'', JObj
     [(''message'', JObj [(''content'', JArr []), (''id'', JStr (messageID (awID st))), (''model'', JStr (awModel st)),
        (''role'', JStr ''assistant''), (''stop_reason'', JNull), (''stop_sequence'', JNull), (''type'', JStr ''message''),
        (''usage'', usageBody (awUsage st))]),
      (''type'', JStr ''message_start'')])"

definition block_start :: "int \<Rightarrow> Delta option \<Rightarrow> wire" where
  "block_start w d = (''content_block_start'', JObj
     [(''content_block'', blockStartBody d), (''index'', JInt w), (''type'', JStr ''content_block_start'')])"

definition block_delta :: "int \<Rightarrow> Delta \<Rightarrow> wire" where
  "block_delta w d = (''content_block_delta'', JObj
     [(''delta'', deltaBody d), (''index'', JInt w), (''type'', JStr ''content_block_delta'')])"

definition wire_stop :: "int \<Rightarrow> wire" where
  "wire_stop w = (''content_block_stop'', JObj [(''index'', JInt w), (''type'', JStr ''content_block_stop'')])"

definition ping :: wire where
  "ping = (''ping'', JObj [(''type'', JStr ''ping'')])"

definition stream_error :: "Error \<Rightarrow> wire" where
  "stream_error e = (''error'', JObj
     [(''error'', JObj [(''message'', JStr (errMessage e)), (''type'', JStr (fst (errorShape (errType e))))]),
      (''type'', JStr ''error'')])"

definition message_delta :: "aw_state \<Rightarrow> wire" where
  "message_delta st = (''message_delta'', JObj
     [(''delta'', JObj [(''stop_reason'', JStr (stopReasonWire (awStop st))), (''stop_sequence'', JNull)]),
      (''type'', JStr ''message_delta''), (''usage'', usageBody (awUsage st))])"

definition message_stop :: wire where
  "message_stop = (''message_stop'', JObj [(''type'', JStr ''message_stop'')])"

definition aw_start :: "aw_state \<Rightarrow> aw_state \<times> wire list" where
  "aw_start st = (if awStarted st then (st, []) else (st\<lparr>awStarted := True\<rparr>, [message_start st]))"

definition openBlock :: "int \<Rightarrow> Delta option \<Rightarrow> aw_state \<Rightarrow> int \<times> aw_state \<times> wire list" where
  "openBlock irIdx d st =
     (case map_of (awWireOf st) irIdx of
        Some w \<Rightarrow> (w, st, [])
      | None \<Rightarrow>
          (case aw_start st of (st1, out) \<Rightarrow>
             let w = awNext st1 in
             (w, st1\<lparr>awNext := w + 1, awWireOf := AList.update irIdx w (awWireOf st1)\<rparr>, out @ [block_start w d])))"

definition aw_closeAll :: "aw_state \<Rightarrow> aw_state \<times> wire list" where
  "aw_closeAll st = (st\<lparr>awWireOf := []\<rparr>, map wire_stop (sort (map snd (awWireOf st))))"

definition set_stop :: "StopReason \<Rightarrow> aw_state \<Rightarrow> aw_state" where
  "set_stop s st = (if s \<noteq> StopOther '''' then st\<lparr>awStop := s\<rparr> else st)"

definition write_stream_error :: "go_error \<Rightarrow> aw_state \<Rightarrow> aw_state \<times> wire list" where
  "write_stream_error err st =
     (case aw_start st of (st1, out) \<Rightarrow>
        (st1, out @ [stream_error (case geIR err of Some e \<Rightarrow> e | None \<Rightarrow> mk_error ErrAPI (geText err))]))"

definition aw_event :: "StreamEvent \<Rightarrow> aw_state \<Rightarrow> aw_state \<times> wire list" where
  "aw_event ev st =
     (case evType ev of
        EventMessageStart \<Rightarrow> (st\<lparr>awID := evID ev, awModel := evModel ev\<rparr>, [])
      | EventPing \<Rightarrow> (case aw_start st of (st1, out) \<Rightarrow> (st1, out @ [ping]))
      | EventBlockStart \<Rightarrow> (case openBlock (evIndex ev) (evDelta ev) st of (w, st1, out) \<Rightarrow> (st1, out))
      | EventContentDelta \<Rightarrow>
          (case evDelta ev of
             None \<Rightarrow> (st, [])
           | Some d \<Rightarrow>
               (case openBlock (evIndex ev) (Some d) st of (w, st1, out) \<Rightarrow>
                  if dType d = BlockRedactedThinking then (st1, out) else (st1, out @ [block_delta w d])))
      | EventBlockStop \<Rightarrow>
          (case map_of (awWireOf st) (evIndex ev) of
             None \<Rightarrow> (st, [])
           | Some w \<Rightarrow> (st\<lparr>awWireOf := AList.delete (evIndex ev) (awWireOf st)\<rparr>, [wire_stop w]))
      | EventMessageDelta \<Rightarrow>
          (case (case evUsage ev of None \<Rightarrow> (st, []) | Some u \<Rightarrow> aw_start (st\<lparr>awUsage := u\<rparr>)) of (st1, out) \<Rightarrow>
             (set_stop (evStopReason ev) st1, out))
      | EventMessageStop \<Rightarrow>
          (case aw_start (set_stop (evStopReason ev) st) of (st1, out1) \<Rightarrow>
             (case aw_closeAll st1 of (st2, out2) \<Rightarrow> (st2, out1 @ out2)))
      | _ \<Rightarrow> (st, []))"

definition aw_end :: "aw_state \<Rightarrow> wire list" where
  "aw_end st =
     (case aw_start st of (st1, out1) \<Rightarrow>
        (case aw_closeAll st1 of (st2, out2) \<Rightarrow> out1 @ out2 @ [message_delta st2, message_stop]))"

text \<open>The loop on its own, with no client behind it: everything it sends for a sequence of events that ends with the
  list or at the first error.\<close>

fun aw_run :: "(StreamEvent + go_error) list \<Rightarrow> aw_state \<Rightarrow> wire list" where
  "aw_run [] st = aw_end st"
| "aw_run (Inr err # xs) st = snd (write_stream_error err st)"
| "aw_run (Inl ev # xs) st = (case aw_event ev st of (st1, out) \<Rightarrow> out @ aw_run xs st1)"

definition aw_step :: "(json \<Rightarrow> string) \<Rightarrow> aw_state \<Rightarrow> CommitWriter \<Rightarrow> StreamEvent + go_error \<Rightarrow> aw_state \<times> CommitWriter \<times> bool" where
  "aw_step marshal st cw x =
     (case (case x of Inl ev \<Rightarrow> aw_event ev st | Inr err \<Rightarrow> write_stream_error err st) of (st1, out) \<Rightarrow>
        (case send_all marshal out cw of (cw1, ok) \<Rightarrow>
           let go = ok \<and> isl x in (st1\<lparr>awDone := \<not> go\<rparr>, cw1, go)))"

definition WriteStream :: "(json \<Rightarrow> string) \<Rightarrow> aw_state dialect" where
  "WriteStream marshal = \<lparr>dlInit = aw_init, dlStep = aw_step marshal,
     dlEnd = (\<lambda>st cw. if awDone st then cw else fst (send_all marshal (aw_end st) cw))\<rparr>"

section \<open>The grammar of a message stream\<close>

text \<open>What an Anthropic client accepts: message_start first; blocks started at consecutive indexes, each one's deltas
  between its start and its one stop; then message_delta with every block stopped, and message_stop; or an error
  event at any point after the start, and nothing behind it.\<close>

datatype gstate = Before | During "int set" int | Closing | Done | Failed

definition index_of :: "json \<Rightarrow> int option" where
  "index_of j = (case member ''index'' j of Some (JInt i) \<Rightarrow> Some i | _ \<Rightarrow> None)"

definition g_step :: "wire \<Rightarrow> gstate \<Rightarrow> gstate option" where
  "g_step w g =
     (let name = fst w; idx = index_of (snd w) in
      case g of
        Before \<Rightarrow> if name = ''message_start'' then Some (During {} 0) else None
      | During op n \<Rightarrow>
          if name = ''ping'' then Some g
          else if name = ''error'' then Some Failed
          else if name = ''message_delta'' then (if op = {} then Some Closing else None)
          else (case idx of
            None \<Rightarrow> None
          | Some i \<Rightarrow>
              if name = ''content_block_start'' then (if i = n then Some (During (insert i op) (n + 1)) else None)
              else if name = ''content_block_delta'' then (if i \<in> op then Some g else None)
              else if name = ''content_block_stop'' then (if i \<in> op then Some (During (op - {i}) n) else None)
              else None)
      | Closing \<Rightarrow> if name = ''message_stop'' then Some Done else None
      | _ \<Rightarrow> None)"

fun g_run :: "wire list \<Rightarrow> gstate \<Rightarrow> gstate option" where
  "g_run [] g = Some g"
| "g_run (w # ws) g = (case g_step w g of None \<Rightarrow> None | Some g1 \<Rightarrow> g_run ws g1)"

section \<open>The writer's invariant and simulation\<close>

text \<open>Open blocks have distinct wire positions, all below the next free one; nothing is open before the start.\<close>

definition aw_inv :: "aw_state \<Rightarrow> bool" where
  "aw_inv st = (distinct (map fst (awWireOf st)) \<and> distinct (map snd (awWireOf st)) \<and>
     (\<forall>w \<in> set (map snd (awWireOf st)). w < awNext st) \<and>
     (\<not> awStarted st \<longrightarrow> awWireOf st = [] \<and> awNext st = 0))"

definition aw_abs :: "aw_state \<Rightarrow> gstate" where
  "aw_abs st = (if awStarted st then During (set (map snd (awWireOf st))) (awNext st) else Before)"

named_theorems wire_simps \<open>evaluation of wire events in the grammar\<close>

lemma g_step_simps [wire_simps]:
  "g_step (message_start st) Before = Some (During {} 0)"
  "g_step ping (During ws n) = Some (During ws n)"
  "g_step (stream_error e) (During ws n) = Some Failed"
  "g_step (message_delta st) (During {} n) = Some Closing"
  "g_step message_stop Closing = Some Done"
  "g_step (block_start i d) (During ws n) = (if i = n then Some (During (insert i ws) (n + 1)) else None)"
  "g_step (block_delta i dd) (During ws n) = (if i \<in> ws then Some (During ws n) else None)"
  "g_step (wire_stop i) (During ws n) = (if i \<in> ws then Some (During (ws - {i}) n) else None)"
  by (simp_all add: g_step_def message_start_def ping_def stream_error_def message_delta_def message_stop_def
      block_start_def block_delta_def wire_stop_def index_of_def member_def)

lemma g_run_append: "g_run (xs @ ys) g = (case g_run xs g of None \<Rightarrow> None | Some g1 \<Rightarrow> g_run ys g1)"
  by (induction xs arbitrary: g) (auto split: option.splits)

lemma aw_start_sim:
  assumes "aw_inv st" "aw_start st = (st1, out)"
  shows "aw_inv st1 \<and> awStarted st1 \<and> g_run out (aw_abs st) = Some (aw_abs st1) \<and>
    awWireOf st1 = awWireOf st \<and> awNext st1 = awNext st \<and> awStop st1 = awStop st"
  using assms by (auto simp: aw_start_def aw_inv_def aw_abs_def wire_simps split: if_splits)

lemma openBlock_sim:
  assumes "aw_inv st" "openBlock i d st = (w, st1, out)"
  shows "aw_inv st1 \<and> g_run out (aw_abs st) = Some (aw_abs st1) \<and> awStarted st1 \<and> w \<in> set (map snd (awWireOf st1))"
proof (cases "map_of (awWireOf st) i")
  case (Some v)
  then have "v \<in> set (map snd (awWireOf st))" by (force dest: map_of_SomeD)
  moreover from this have "awStarted st" using assms(1) by (auto simp: aw_inv_def)
  ultimately show ?thesis using assms Some by (simp add: openBlock_def)
next
  case None
  obtain st0 o0 where s: "aw_start st = (st0, o0)" by (cases "aw_start st")
  note sim = aw_start_sim[OF assms(1) s]
  have e: "w = awNext st0" "out = o0 @ [block_start w d]"
    "st1 = st0\<lparr>awNext := w + 1, awWireOf := awWireOf st0 @ [(i, w)]\<rparr>"
    using assms(2) None sim by (auto simp: openBlock_def s Let_def update_fresh)
  have "i \<notin> set (map fst (awWireOf st0))" using None sim by (simp add: map_of_eq_None_iff)
  with sim show ?thesis
    by (force simp: e aw_inv_def aw_abs_def g_run_append wire_simps)
qed

lemma g_run_stops:
  "distinct ws \<Longrightarrow> set ws = A \<Longrightarrow> g_run (map wire_stop ws) (During (A \<union> B) n) = Some (During (B - A) n)"
proof (induction ws arbitrary: A B)
  case (Cons w ws)
  then have w: "w \<notin> set ws" and A: "A = insert w (set ws)" by auto
  have "(A \<union> B) - {w} = set ws \<union> (B - {w})" using w A by auto
  with Cons.IH[of "set ws" "B - {w}"] Cons.prems A show ?case
    by (simp add: wire_simps insert_Diff_if Diff_insert2[symmetric] split: if_splits)
qed simp

lemma aw_closeAll_sim:
  assumes "aw_inv st" "awStarted st" "aw_closeAll st = (st1, out)"
  shows "aw_inv st1 \<and> awStarted st1 \<and> awWireOf st1 = [] \<and> awStop st1 = awStop st \<and>
    g_run out (aw_abs st) = Some (aw_abs st1) \<and> awUsage st1 = awUsage st"
proof -
  have "g_run (map wire_stop (sort (map snd (awWireOf st)))) (During (set (map snd (awWireOf st)) \<union> {}) (awNext st)) =
      Some (During ({} - set (map snd (awWireOf st))) (awNext st))"
    using assms(1) by (intro g_run_stops) (simp_all add: aw_inv_def)
  then show ?thesis using assms by (auto simp: aw_closeAll_def aw_inv_def aw_abs_def)
qed

lemma aw_frame [simp]:
  "aw_inv (st\<lparr>awID := i, awModel := m\<rparr>) = aw_inv st" "aw_abs (st\<lparr>awID := i, awModel := m\<rparr>) = aw_abs st"
  "aw_inv (st\<lparr>awUsage := u\<rparr>) = aw_inv st" "aw_abs (st\<lparr>awUsage := u\<rparr>) = aw_abs st"
  by (simp_all add: aw_inv_def aw_abs_def)

lemma delete_values:
  assumes "distinct (map fst m)" "distinct (map snd m)" "map_of m k = Some v"
  shows "set (map snd (AList.delete k m)) = set (map snd m) - {v} \<and> distinct (map snd (AList.delete k m))"
  using assms
proof (induction m)
  case (Cons p m)
  obtain k' v' where p: "p = (k', v')" by (cases p)
  have "AList.delete k m = m" if "k \<notin> set (map fst m)" for m :: "('a \<times> 'b) list"
    using that by (induction m) auto
  with Cons p show ?case by (auto simp: dest: map_of_SomeD split: if_splits) (force dest: map_of_SomeD)+
qed simp

lemma set_stop_sim: "aw_inv (set_stop s st) = aw_inv st" "aw_abs (set_stop s st) = aw_abs st"
  by (simp_all add: set_stop_def aw_inv_def aw_abs_def)

lemma aw_event_sim:
  assumes "aw_inv st" "aw_event ev st = (st1, out)"
  shows "aw_inv st1 \<and> g_run out (aw_abs st) = Some (aw_abs st1)"
proof (cases "evType ev")
  case EventMessageStart
  then show ?thesis using assms by (auto simp: aw_event_def)
next
  case EventPing
  obtain st0 o0 where s: "aw_start st = (st0, o0)" by (cases "aw_start st")
  with EventPing assms aw_start_sim[OF assms(1) s] show ?thesis
    by (auto simp: aw_event_def g_run_append aw_abs_def wire_simps)
next
  case EventBlockStart
  obtain w st0 o0 where s: "openBlock (evIndex ev) (evDelta ev) st = (w, st0, o0)" by (metis prod_cases3)
  with EventBlockStart assms openBlock_sim[OF assms(1) s] show ?thesis by (simp add: aw_event_def)
next
  case EventContentDelta
  show ?thesis
  proof (cases "evDelta ev")
    case (Some d)
    obtain w st0 o0 where s: "openBlock (evIndex ev) (Some d) st = (w, st0, o0)" by (metis prod_cases3)
    with EventContentDelta Some assms openBlock_sim[OF assms(1) s] show ?thesis
      by (auto simp: aw_event_def g_run_append aw_abs_def wire_simps split: if_splits) force+
  qed (use EventContentDelta assms in \<open>auto simp: aw_event_def\<close>)
next
  case EventBlockStop
  show ?thesis
  proof (cases "map_of (awWireOf st) (evIndex ev)")
    case (Some w)
    then have w: "w \<in> set (map snd (awWireOf st))" by (force dest: map_of_SomeD)
    then have started: "awStarted st" using assms(1) by (auto simp: aw_inv_def)
    have e: "st1 = st\<lparr>awWireOf := AList.delete (evIndex ev) (awWireOf st)\<rparr>" "out = [wire_stop w]"
      using EventBlockStop Some assms(2) by (auto simp: aw_event_def)
    have d: "set (map snd (AList.delete (evIndex ev) (awWireOf st))) = set (map snd (awWireOf st)) - {w}"
      "distinct (map snd (AList.delete (evIndex ev) (awWireOf st)))"
      using assms(1) Some delete_values[of "awWireOf st" "evIndex ev" w] by (auto simp: aw_inv_def)
    have "g_step (wire_stop w) (aw_abs st) = Some (aw_abs st1)"
      using w started by (simp add: e aw_abs_def wire_simps d[unfolded set_map] del: map_of_eq_Some_iff)
    moreover have "\<forall>v \<in> set (map snd (awWireOf st1)). v < awNext st"
      using assms(1) d(1) by (simp add: e aw_inv_def) blast
    ultimately show ?thesis using assms(1) started d(2) by (simp add: e aw_inv_def distinct_delete)
  qed (use EventBlockStop assms in \<open>auto simp: aw_event_def\<close>)
next
  case EventMessageDelta
  obtain st0 o0 where s: "(case evUsage ev of None \<Rightarrow> (st, []) | Some u \<Rightarrow> aw_start (st\<lparr>awUsage := u\<rparr>)) = (st0, o0)"
    by fastforce
  have "aw_inv st0 \<and> g_run o0 (aw_abs st) = Some (aw_abs st0)"
  proof (cases "evUsage ev")
    case (Some u)
    with assms(1) aw_start_sim[of "st\<lparr>awUsage := u\<rparr>" st0 o0] s Some show ?thesis by simp
  qed (use s assms in auto)
  with EventMessageDelta assms(2) s show ?thesis by (auto simp: aw_event_def set_stop_sim)
next
  case EventMessageStop
  obtain st0 o0 where s: "aw_start (set_stop (evStopReason ev) st) = (st0, o0)" by fastforce
  obtain st2 o2 where c: "aw_closeAll st0 = (st2, o2)" by fastforce
  have sim: "aw_inv st0 \<and> awStarted st0 \<and> g_run o0 (aw_abs st) = Some (aw_abs st0)"
    using aw_start_sim[OF _ s] assms(1) by (simp add: set_stop_sim)
  with aw_closeAll_sim[OF _ _ c] EventMessageStop assms(2) s c show ?thesis
    by (auto simp: aw_event_def g_run_append)
qed (use assms in \<open>auto simp: aw_event_def\<close>)

lemma aw_end_sim: "aw_inv st \<Longrightarrow> g_run (aw_end st) (aw_abs st) = Some Done"
proof -
  assume inv: "aw_inv st"
  obtain st0 o0 where s: "aw_start st = (st0, o0)" by fastforce
  obtain st2 o2 where c: "aw_closeAll st0 = (st2, o2)" by fastforce
  note a = aw_start_sim[OF inv s]
  with aw_closeAll_sim[OF _ _ c] show ?thesis
    by (simp add: aw_end_def s c g_run_append aw_abs_def wire_simps)
qed

lemma aw_error_sim: "aw_inv st \<Longrightarrow> g_run (snd (write_stream_error err st)) (aw_abs st) = Some Failed"
proof -
  assume inv: "aw_inv st"
  obtain st0 o0 where s: "aw_start st = (st0, o0)" by fastforce
  with aw_start_sim[OF inv s] show ?thesis
    by (simp add: write_stream_error_def g_run_append aw_abs_def wire_simps)
qed

lemma aw_run_sim:
  "aw_inv st \<Longrightarrow> g_run (aw_run xs st) (aw_abs st) = Some (if list_all isl xs then Done else Failed)"
proof (induction xs arbitrary: st)
  case Nil
  then show ?case by (simp add: aw_end_sim)
next
  case (Cons x xs)
  show ?case
  proof (cases x)
    case (Inl ev)
    obtain st1 out where e: "aw_event ev st = (st1, out)" by fastforce
    with Cons aw_event_sim[OF Cons.prems e] show ?thesis by (simp add: Inl g_run_append)
  qed (simp add: aw_error_sim Cons.prems)
qed

section \<open>Content\<close>

text \<open>The content deltas of a wire stream and of a canonical one. A redacted payload has no delta form.\<close>

definition wire_deltas :: "wire list \<Rightarrow> json list" where
  "wire_deltas ws = List.map_filter (\<lambda>(name, body). if name = ''content_block_delta'' then member ''delta'' body else None) ws"

fun ir_deltas :: "(StreamEvent + go_error) list \<Rightarrow> Delta list" where
  "ir_deltas [] = []"
| "ir_deltas (Inr err # xs) = []"
| "ir_deltas (Inl ev # xs) =
     (case evDelta ev of
        Some d \<Rightarrow> if evType ev = EventContentDelta \<and> dType d \<noteq> BlockRedactedThinking then [d] else []
      | None \<Rightarrow> []) @ ir_deltas xs"

lemma wire_deltas_append [simp]: "wire_deltas (xs @ ys) = wire_deltas xs @ wire_deltas ys"
  by (simp add: wire_deltas_def map_filter_def)

lemma wire_deltas_simps [simp]:
  "wire_deltas [] = []"
  "wire_deltas (message_start st # ws) = wire_deltas ws"
  "wire_deltas (ping # ws) = wire_deltas ws"
  "wire_deltas (stream_error e # ws) = wire_deltas ws"
  "wire_deltas (message_delta st # ws) = wire_deltas ws"
  "wire_deltas (message_stop # ws) = wire_deltas ws"
  "wire_deltas (block_start i x # ws) = wire_deltas ws"
  "wire_deltas (wire_stop i # ws) = wire_deltas ws"
  "wire_deltas (block_delta i d # ws) = deltaBody d # wire_deltas ws"
  by (simp_all add: wire_deltas_def map_filter_simps message_start_def ping_def stream_error_def message_delta_def
      message_stop_def block_start_def block_delta_def wire_stop_def member_def)

lemma wire_deltas_stops [simp]: "wire_deltas (map wire_stop ws) = []"
  by (induction ws) simp_all

lemma aw_start_deltas [simp]: "aw_start st = (st1, out) \<Longrightarrow> wire_deltas out = []"
  by (auto simp: aw_start_def split: if_splits)

lemma openBlock_deltas [simp]: "openBlock i x st = (w, st1, out) \<Longrightarrow> wire_deltas out = []"
  by (auto simp: openBlock_def Let_def split: option.splits prod.splits)

lemma aw_closeAll_deltas [simp]: "aw_closeAll st = (st1, out) \<Longrightarrow> wire_deltas out = []"
  by (auto simp: aw_closeAll_def)

lemma aw_event_deltas:
  "aw_event ev st = (st1, out) \<Longrightarrow> wire_deltas out = map deltaBody (ir_deltas [Inl ev])"
  by (cases "evType ev") (auto simp: aw_event_def split: option.splits prod.splits if_splits)

lemma aw_run_deltas: "wire_deltas (aw_run xs st) = map deltaBody (ir_deltas xs)"
proof (induction xs st rule: aw_run.induct)
  case (1 st)
  then show ?case by (auto simp: aw_end_def split: prod.splits)
next
  case (2 err xs st)
  then show ?case by (auto simp: write_stream_error_def split: prod.splits)
next
  case (3 ev xs st)
  then show ?case by (auto simp: aw_event_deltas split: prod.splits)
qed

section \<open>The writer behind a client that takes everything\<close>

lemma aw_event_done: "aw_event ev st = (st1, out) \<Longrightarrow> awDone st1 = awDone st"
  by (auto simp: aw_event_def openBlock_def aw_start_def aw_closeAll_def set_stop_def Let_def
      split: EventType.splits option.splits prod.splits if_splits)

definition aw_sends :: "(json \<Rightarrow> string) \<Rightarrow> StreamEvent \<Rightarrow> aw_state \<Rightarrow> aw_state \<times> string" where
  "aw_sends m ev st = (case aw_event ev st of (st1, out) \<Rightarrow> (st1, wire_text m out))"

interpretation anthropic: event_writer "WriteStream m" "aw_sends m" "\<lambda>st. wire_text m (aw_end st)" "\<lambda>st. \<not> awDone st" for m
proof
  show "\<not> awDone (dlInit (WriteStream m))" by (simp add: WriteStream_def aw_init_def)
next
  fix cw ev d d1 b
  assume h: "healthy cw" "\<not> awDone d" "aw_sends m ev d = (d1, b)"
  obtain out where e: "aw_event ev d = (d1, out)" "b = wire_text m out"
    using h(3) by (auto simp: aw_sends_def split: prod.splits)
  obtain cw1 where "send_all m out cw = (cw1, True)" "healthy cw1" "cwOut cw1 = cwOut cw @ wire_text m out"
    using send_all_healthy[OF h(1)] by blast
  moreover have "d1\<lparr>awDone := False\<rparr> = d1" "\<not> awDone d1" using aw_event_done[OF e(1)] h(2) by simp_all
  ultimately show "\<not> awDone d1 \<and>
      (\<exists>cw1. dlStep (WriteStream m) d cw (Inl ev) = (d1, cw1, True) \<and> healthy cw1 \<and> cwOut cw1 = cwOut cw @ b)"
    by (simp add: WriteStream_def aw_step_def e)
next
  fix cw and d :: aw_state
  assume h: "healthy cw" "\<not> awDone d"
  with send_all_healthy[OF h(1), of m "aw_end d"]
  show "healthy (dlEnd (WriteStream m) d cw) \<and> cwOut (dlEnd (WriteStream m) d cw) = cwOut cw @ wire_text m (aw_end d)"
    by (auto simp: WriteStream_def)
qed

lemma aw_text: "text_run (aw_sends m) (\<lambda>st. wire_text m (aw_end st)) evs st = wire_text m (aw_run (map Inl evs) st)"
  by (induction evs arbitrary: st) (auto simp: aw_sends_def wire_text_append split: prod.splits)

section \<open>Properties\<close>

lemma aw_init_abs: "aw_inv aw_init" "aw_abs aw_init = Before"
  by (simp_all add: aw_inv_def aw_abs_def aw_init_def)

lemma aw_run_init:
  "g_run (aw_run xs aw_init) Before = Some (if list_all isl xs then Done else Failed) \<and>
   wire_deltas (aw_run xs aw_init) = map deltaBody (ir_deltas xs)"
  using aw_run_sim[OF aw_init_abs(1), of xs] by (simp add: aw_init_abs(2) aw_run_deltas)

text \<open>C5. The Anthropic writer refines the grammar of a message stream. Whatever canonical events it is given, in
  whatever order, with blocks opened twice, never opened, never closed or closed late, it writes a sentence of that
  grammar: one that runs to message_stop when the events end, and one that ends with an error event, and no
  message_stop, when they fail. Its content deltas are the canonical ones in order, each exactly once.\<close>

theorem anthropic_stream_grammatical:
  "g_run (aw_run xs aw_init) Before = Some (if list_all isl xs then Done else Failed) \<and>
   wire_deltas (aw_run xs aw_init) = map deltaBody (ir_deltas xs)"
  by (rule aw_run_init)

text \<open>What the client of an Anthropic route receives from a translated stream. When the upstream's events are read
  without error, fit the cap before their first content and the client takes every write, the attempt succeeds and
  the bytes the client has received since are the frames of one complete message stream, in the grammar, carrying
  every content delta once and in order.\<close>

theorem anthropic_client_stream:
  assumes "map fst pulls = map Inl evs" "exMaxPrecommit env \<le> 0 \<or> held_bytes evs \<le> exMaxPrecommit env"
    and "healthy (xCW xs)"
  shows "\<exists>xs' ws. attemptStream env ck (WriteStream marshal) pulls cx xs = (xs', OutcomeSuccess, None) \<and>
    cwOut (xCW xs') = cwOut (xCW xs) @ wire_text marshal ws \<and> g_run ws Before = Some Done \<and>
    wire_deltas ws = map deltaBody (ir_deltas (map Inl evs))"
proof -
  have "g_run (aw_run (map Inl evs) aw_init) Before = Some Done \<and>
      wire_deltas (aw_run (map Inl evs) aw_init) = map deltaBody (ir_deltas (map Inl evs))"
    using aw_run_init[of "map Inl evs"] by (simp add: list_all_iff)
  moreover have "dlInit (WriteStream marshal) = aw_init" by (simp add: WriteStream_def)
  ultimately show ?thesis using anthropic.client_receives[OF assms, of ck marshal cx] unfolding aw_text by metis
qed

theorem anthropic_client_stream_witness:
  "\<exists>xs' ws. attemptStream demo_stream_env demo_stream_clock (WriteStream (\<lambda>_. ''{}'')) demo_pulls demo_stream_ctx demo_stream_state =
     (xs', OutcomeSuccess, None) \<and> cwOut (xCW xs') = wire_text (\<lambda>_. ''{}'') ws \<and> g_run ws Before = Some Done \<and>
     wire_deltas ws = map (\<lambda>t. JObj [(''text'', JStr t), (''type'', JStr ''text_delta'')]) ['''', ''a'', ''b'']"
proof -
  let ?evs = "[demo_event '''', demo_event ''a'', demo_event ''b'']"
  have "map fst demo_pulls = map Inl ?evs" by (simp add: demo_pulls_def)
  moreover have "exMaxPrecommit demo_stream_env \<le> 0 \<or> held_bytes ?evs \<le> exMaxPrecommit demo_stream_env"
    by (simp add: demo_stream_env_def demo_event_def eventBytes_def zero_event_def zero_delta_def)
  moreover have "healthy (xCW demo_stream_state)" "cwOut (xCW demo_stream_state) = []"
    by (simp_all add: healthy_def demo_stream_state_def NewCommitWriter_def)
  moreover have "map deltaBody (ir_deltas (map Inl ?evs)) =
      map (\<lambda>t. JObj [(''text'', JStr t), (''type'', JStr ''text_delta'')]) ['''', ''a'', ''b'']"
    by (simp add: demo_event_def deltaBody_def zero_delta_def)
  ultimately show ?thesis
    using anthropic_client_stream[of demo_pulls ?evs demo_stream_env demo_stream_state demo_stream_clock "\<lambda>_. ''{}''" demo_stream_ctx]
    by simp
qed

end
