(* ===== verification/Anthropic_Parser.thy ===== *)
theory Anthropic_Parser
  imports Anthropic_Writer Codec
begin

text \<open>
  The Anthropic adapter's response side, \<^verbatim>\<open>internal/adapter/anthropic/stream.go\<close> and \<^verbatim>\<open>parse.go\<close>: the wire structs and
  their decoding, the unary response and the event stream as canonical events, and the round trip through the Anthropic
  writer. \<open>unmarshal\<close>, the reading of a text as a JSON value, is an argument; the decoding of a value into the wire
  structs is \<open>Json\<close>'s. What a stream yields is a list: a consumer that stops early has read a prefix of it.
\<close>

section \<open>Wire structs\<close>

record wireCacheCreation =
  wcEphemeral5m :: int
  wcEphemeral1h :: int

record wireUsage =
  wuInputTokens :: int
  wuOutputTokens :: int
  wuCacheCreationInputTokens :: int
  wuCacheReadInputTokens :: int
  wuCacheCreation :: "wireCacheCreation option"

definition zero_wire_usage :: wireUsage where
  "zero_wire_usage = \<lparr>wuInputTokens = 0, wuOutputTokens = 0, wuCacheCreationInputTokens = 0,
     wuCacheReadInputTokens = 0, wuCacheCreation = None\<rparr>"

definition dec_cache_creation :: "json \<Rightarrow> wireCacheCreation \<Rightarrow> wireCacheCreation option" where
  "dec_cache_creation = dec_struct (\<lambda>k v s.
     if k = ''ephemeral_5m_input_tokens'' then set_field (\<lambda>x s. s\<lparr>wcEphemeral5m := x\<rparr>) (dec_int v (wcEphemeral5m s)) s
     else if k = ''ephemeral_1h_input_tokens'' then set_field (\<lambda>x s. s\<lparr>wcEphemeral1h := x\<rparr>) (dec_int v (wcEphemeral1h s)) s
     else Some s)"

definition dec_usage :: "json \<Rightarrow> wireUsage \<Rightarrow> wireUsage option" where
  "dec_usage = dec_struct (\<lambda>k v s.
     if k = ''input_tokens'' then set_field (\<lambda>x s. s\<lparr>wuInputTokens := x\<rparr>) (dec_int v (wuInputTokens s)) s
     else if k = ''output_tokens'' then set_field (\<lambda>x s. s\<lparr>wuOutputTokens := x\<rparr>) (dec_int v (wuOutputTokens s)) s
     else if k = ''cache_creation_input_tokens''
       then set_field (\<lambda>x s. s\<lparr>wuCacheCreationInputTokens := x\<rparr>) (dec_int v (wuCacheCreationInputTokens s)) s
     else if k = ''cache_read_input_tokens''
       then set_field (\<lambda>x s. s\<lparr>wuCacheReadInputTokens := x\<rparr>) (dec_int v (wuCacheReadInputTokens s)) s
     else if k = ''cache_creation''
       then set_field (\<lambda>x s. s\<lparr>wuCacheCreation := x\<rparr>)
         (dec_ptr \<lparr>wcEphemeral5m = 0, wcEphemeral1h = 0\<rparr> dec_cache_creation v (wuCacheCreation s)) s
     else Some s)"

definition toIR :: "wireUsage \<Rightarrow> Usage" where
  "toIR u =
     (let out = zero_usage\<lparr>InputTokens := wuInputTokens u, OutputTokens := wuOutputTokens u,
        CacheWriteTokens := wuCacheCreationInputTokens u, CacheReadTokens := wuCacheReadInputTokens u\<rparr>
      in case wuCacheCreation u of
           None \<Rightarrow> out
         | Some cc \<Rightarrow> out\<lparr>CacheWrite5mTokens := wcEphemeral5m cc, CacheWrite1hTokens := wcEphemeral1h cc\<rparr>)"

record wireBlock =
  wbType :: string
  wbText :: string
  wbThinking :: string
  wbSignature :: string
  wbData :: string
  wbID :: string
  wbName :: string
  wbInput :: "json option"

definition zero_wire_block :: wireBlock where
  "zero_wire_block = \<lparr>wbType = '''', wbText = '''', wbThinking = '''', wbSignature = '''', wbData = '''', wbID = '''',
     wbName = '''', wbInput = None\<rparr>"

definition dec_block :: "json \<Rightarrow> wireBlock \<Rightarrow> wireBlock option" where
  "dec_block = dec_struct (\<lambda>k v s.
     if k = ''type'' then set_field (\<lambda>x s. s\<lparr>wbType := x\<rparr>) (dec_string v (wbType s)) s
     else if k = ''text'' then set_field (\<lambda>x s. s\<lparr>wbText := x\<rparr>) (dec_string v (wbText s)) s
     else if k = ''thinking'' then set_field (\<lambda>x s. s\<lparr>wbThinking := x\<rparr>) (dec_string v (wbThinking s)) s
     else if k = ''signature'' then set_field (\<lambda>x s. s\<lparr>wbSignature := x\<rparr>) (dec_string v (wbSignature s)) s
     else if k = ''data'' then set_field (\<lambda>x s. s\<lparr>wbData := x\<rparr>) (dec_string v (wbData s)) s
     else if k = ''id'' then set_field (\<lambda>x s. s\<lparr>wbID := x\<rparr>) (dec_string v (wbID s)) s
     else if k = ''name'' then set_field (\<lambda>x s. s\<lparr>wbName := x\<rparr>) (dec_string v (wbName s)) s
     else if k = ''input'' then Some (s\<lparr>wbInput := Some v\<rparr>)
     else Some s)"

record wireError =
  wrType :: string
  wrMessage :: string

definition dec_error :: "json \<Rightarrow> wireError \<Rightarrow> wireError option" where
  "dec_error = dec_struct (\<lambda>k v s.
     if k = ''type'' then set_field (\<lambda>x s. s\<lparr>wrType := x\<rparr>) (dec_string v (wrType s)) s
     else if k = ''message'' then set_field (\<lambda>x s. s\<lparr>wrMessage := x\<rparr>) (dec_string v (wrMessage s)) s
     else Some s)"

section \<open>Vocabulary\<close>

definition stopReason :: "string \<Rightarrow> StopReason \<times> bool" where
  "stopReason s =
     (if s = '''' \<or> s = ''end_turn'' then (StopEndTurn, True)
      else if s = ''max_tokens'' \<or> s = ''model_context_window_exceeded'' then (StopMaxTokens, True)
      else if s = ''stop_sequence'' then (StopStopSequence, True)
      else if s = ''tool_use'' then (StopToolUse, True)
      else if s = ''refusal'' then (StopContentFilter, True)
      else if s = ''pause_turn'' then (StopPauseTurn, True)
      else (StopEndTurn, False))"

definition errorType :: "string \<Rightarrow> ErrorType" where
  "errorType t =
     (if t = ''invalid_request_error'' then ErrInvalidRequest
      else if t = ''authentication_error'' then ErrAuthentication
      else if t = ''permission_error'' then ErrPermission
      else if t = ''not_found_error'' then ErrNotFound
      else if t = ''rate_limit_error'' then ErrRateLimit
      else if t = ''overloaded_error'' then ErrOverloaded
      else ErrAPI)"

text \<open>The conversion \<^verbatim>\<open>ir.BlockType(s)\<close>.\<close>

definition BlockType_of :: "string \<Rightarrow> BlockType" where
  "BlockType_of s =
     (case List.find (\<lambda>t. BlockType_string t = s)
        [BlockText, BlockImage, BlockAudio, BlockDocument, BlockThinking, BlockRedactedThinking, BlockToolUse, BlockToolResult] of
        Some t \<Rightarrow> t
      | None \<Rightarrow> BlockOther s)"

definition stop_warning :: "string \<Rightarrow> Warning" where
  "stop_warning s = \<lparr>wField = ''stop_reason'', wTarget = ''anthropic'',
     wReason = ''unrecognized value '' @ s @ ''; reported as end_turn''\<rparr>"

section \<open>The unary response\<close>

definition carriedBlock :: "string \<Rightarrow> json \<Rightarrow> ContentBlock option" where
  "carriedBlock typ raw =
     (case dec_raw_map raw of
        None \<Rightarrow> None
      | Some flds \<Rightarrow> if flds = [] then None
          else Some (ContentBlock (BlockType_of typ) '''' None None None None None flds))"

definition blockToIR :: "wireBlock \<Rightarrow> ContentBlock option" where
  "blockToIR b =
     (if wbType b = ''text'' then Some (text_block (wbText b))
      else if wbType b = ''thinking'' then Some (ContentBlock BlockThinking '''' None
        (Some \<lparr>thText = wbThinking b, thSignature = wbSignature b, thData = ''''\<rparr>) None None None [])
      else if wbType b = ''redacted_thinking'' then Some (ContentBlock BlockRedactedThinking '''' None
        (Some \<lparr>thText = '''', thSignature = '''', thData = wbData b\<rparr>) None None None [])
      else if wbType b = ''tool_use'' then Some (ContentBlock BlockToolUse '''' None None
        (Some \<lparr>tuID = wbID b, tuName = wbName b, tuInput = wbInput b, tuSignature = ''''\<rparr>) None None [])
      else None)"

record wireResponse =
  wpID :: string
  wpModel :: string
  wpContent :: "json list option"
  wpStopReason :: string
  wpUsage :: wireUsage
  wpType :: string
  wpError :: "wireError option"

definition zero_wire_response :: wireResponse where
  "zero_wire_response = \<lparr>wpID = '''', wpModel = '''', wpContent = None, wpStopReason = '''', wpUsage = zero_wire_usage,
     wpType = '''', wpError = None\<rparr>"

definition dec_response :: "json \<Rightarrow> wireResponse \<Rightarrow> wireResponse option" where
  "dec_response = dec_struct (\<lambda>k v s.
     if k = ''id'' then set_field (\<lambda>x s. s\<lparr>wpID := x\<rparr>) (dec_string v (wpID s)) s
     else if k = ''model'' then set_field (\<lambda>x s. s\<lparr>wpModel := x\<rparr>) (dec_string v (wpModel s)) s
     else if k = ''content'' then set_field (\<lambda>x s. s\<lparr>wpContent := x\<rparr>)
       (case v of JArr xs \<Rightarrow> Some (Some xs) | JNull \<Rightarrow> Some None | _ \<Rightarrow> None) s
     else if k = ''stop_reason'' then set_field (\<lambda>x s. s\<lparr>wpStopReason := x\<rparr>) (dec_string v (wpStopReason s)) s
     else if k = ''usage'' then set_field (\<lambda>x s. s\<lparr>wpUsage := x\<rparr>) (dec_usage v (wpUsage s)) s
     else if k = ''type'' then set_field (\<lambda>x s. s\<lparr>wpType := x\<rparr>) (dec_string v (wpType s)) s
     else if k = ''error'' then set_field (\<lambda>x s. s\<lparr>wpError := x\<rparr>)
       (dec_ptr \<lparr>wrType = '''', wrMessage = ''''\<rparr> dec_error v (wpError s)) s
     else Some s)"

text \<open>One element of the content array: a block, a warning, or a decoding error.\<close>

definition parse_content_block :: "go_error \<Rightarrow> json \<Rightarrow> go_error + (ContentBlock + Warning)" where
  "parse_content_block decode_err raw =
     (case dec_block raw zero_wire_block of
        None \<Rightarrow> Inl decode_err
      | Some b \<Rightarrow>
          (case (case blockToIR b of Some blk \<Rightarrow> Some blk | None \<Rightarrow> carriedBlock (wbType b) raw) of
             Some blk \<Rightarrow> Inr (Inl blk)
           | None \<Rightarrow> Inr (Inr \<lparr>wField = ''content[].'' @ wbType b, wTarget = ''anthropic'', wReason = ''unrecognized content block''\<rparr>)))"

fun parse_content :: "go_error \<Rightarrow> json list \<Rightarrow> IRResponse \<Rightarrow> go_error + IRResponse" where
  "parse_content de [] out = Inr out"
| "parse_content de (raw # raws) out =
     (case parse_content_block de raw of
        Inl e \<Rightarrow> Inl e
      | Inr (Inl blk) \<Rightarrow> parse_content de raws (out\<lparr>rspContent := rspContent out @ [blk]\<rparr>)
      | Inr (Inr w) \<Rightarrow> parse_content de raws (out\<lparr>rspWarnings := rspWarnings out @ [w]\<rparr>))"

text \<open>\<open>body\<close> is what reading the body and scanning it as JSON gave; \<open>decode_err\<close> is the decoder's error.\<close>

definition ParseResponse :: "go_error \<Rightarrow> go_error + json \<Rightarrow> go_error + IRResponse" where
  "ParseResponse decode_err body =
     (case body of
        Inl e \<Rightarrow> Inl e
      | Inr j \<Rightarrow>
          (case dec_response j zero_wire_response of
             None \<Rightarrow> Inl decode_err
           | Some w \<Rightarrow>
               (case wpError w of
                  Some e \<Rightarrow> Inl (of_ir_error \<lparr>errType = errorType (wrType e), errMessage = wrMessage e, errCode = wrType e\<rparr>)
                | None \<Rightarrow>
                    if wpType w \<noteq> ''message'' \<and> wpContent w = None \<and> wpStopReason w = ''''
                    then Inl (of_ir_error (mk_error ErrAPI ''the upstream response carried no message''))
                    else
                      let (sr, known) = stopReason (wpStopReason w);
                          out = \<lparr>rspID = wpID w, rspModel = wpModel w, rspContent = [], rspStopReason = sr, rspUsage = toIR (wpUsage w),
                            rspWarnings = (if known then [] else [stop_warning (wpStopReason w)]), rspExtra = []\<rparr>
                      in parse_content decode_err (case wpContent w of None \<Rightarrow> [] | Some raws \<Rightarrow> raws) out)))"

section \<open>The stream\<close>

record wireMessage =
  wmID :: string
  wmModel :: string
  wmUsage :: wireUsage

record wireDelta =
  wdType :: string
  wdText :: string
  wdThinking :: string
  wdSignature :: string
  wdPartialJSON :: string
  wdStopReason :: string

record wireStreamEvent =
  weType :: string
  weIndex :: int
  weMessage :: "wireMessage option"
  weContentBlock :: "json option"
  weDelta :: "wireDelta option"
  weUsage :: "wireUsage option"
  weError :: "wireError option"

definition zero_wire_event :: wireStreamEvent where
  "zero_wire_event = \<lparr>weType = '''', weIndex = 0, weMessage = None, weContentBlock = None, weDelta = None, weUsage = None,
     weError = None\<rparr>"

definition dec_message :: "json \<Rightarrow> wireMessage \<Rightarrow> wireMessage option" where
  "dec_message = dec_struct (\<lambda>k v s.
     if k = ''id'' then set_field (\<lambda>x s. s\<lparr>wmID := x\<rparr>) (dec_string v (wmID s)) s
     else if k = ''model'' then set_field (\<lambda>x s. s\<lparr>wmModel := x\<rparr>) (dec_string v (wmModel s)) s
     else if k = ''usage'' then set_field (\<lambda>x s. s\<lparr>wmUsage := x\<rparr>) (dec_usage v (wmUsage s)) s
     else Some s)"

definition dec_delta :: "json \<Rightarrow> wireDelta \<Rightarrow> wireDelta option" where
  "dec_delta = dec_struct (\<lambda>k v s.
     if k = ''type'' then set_field (\<lambda>x s. s\<lparr>wdType := x\<rparr>) (dec_string v (wdType s)) s
     else if k = ''text'' then set_field (\<lambda>x s. s\<lparr>wdText := x\<rparr>) (dec_string v (wdText s)) s
     else if k = ''thinking'' then set_field (\<lambda>x s. s\<lparr>wdThinking := x\<rparr>) (dec_string v (wdThinking s)) s
     else if k = ''signature'' then set_field (\<lambda>x s. s\<lparr>wdSignature := x\<rparr>) (dec_string v (wdSignature s)) s
     else if k = ''partial_json'' then set_field (\<lambda>x s. s\<lparr>wdPartialJSON := x\<rparr>) (dec_string v (wdPartialJSON s)) s
     else if k = ''stop_reason'' then set_field (\<lambda>x s. s\<lparr>wdStopReason := x\<rparr>) (dec_string v (wdStopReason s)) s
     else Some s)"

definition zero_wire_delta :: wireDelta where
  "zero_wire_delta = \<lparr>wdType = '''', wdText = '''', wdThinking = '''', wdSignature = '''', wdPartialJSON = '''', wdStopReason = ''''\<rparr>"

definition dec_event :: "json \<Rightarrow> wireStreamEvent \<Rightarrow> wireStreamEvent option" where
  "dec_event = dec_struct (\<lambda>k v s.
     if k = ''type'' then set_field (\<lambda>x s. s\<lparr>weType := x\<rparr>) (dec_string v (weType s)) s
     else if k = ''index'' then set_field (\<lambda>x s. s\<lparr>weIndex := x\<rparr>) (dec_int v (weIndex s)) s
     else if k = ''message'' then set_field (\<lambda>x s. s\<lparr>weMessage := x\<rparr>)
       (dec_ptr \<lparr>wmID = '''', wmModel = '''', wmUsage = zero_wire_usage\<rparr> dec_message v (weMessage s)) s
     else if k = ''content_block'' then Some (s\<lparr>weContentBlock := Some v\<rparr>)
     else if k = ''delta'' then set_field (\<lambda>x s. s\<lparr>weDelta := x\<rparr>) (dec_ptr zero_wire_delta dec_delta v (weDelta s)) s
     else if k = ''usage'' then set_field (\<lambda>x s. s\<lparr>weUsage := x\<rparr>) (dec_ptr zero_wire_usage dec_usage v (weUsage s)) s
     else if k = ''error'' then set_field (\<lambda>x s. s\<lparr>weError := x\<rparr>)
       (dec_ptr \<lparr>wrType = '''', wrMessage = ''''\<rparr> dec_error v (weError s)) s
     else Some s)"

definition blockStart :: "json option \<Rightarrow> Delta" where
  "blockStart raw =
     (let d = zero_delta\<lparr>dType := BlockText\<rparr> in
      case raw of
        None \<Rightarrow> d
      | Some j \<Rightarrow>
          (case dec_block j zero_wire_block of
             None \<Rightarrow> d
           | Some b \<Rightarrow>
               (let d1 = d\<lparr>dToolID := wbID b, dToolName := wbName b\<rparr>;
                    flds = (case dec_raw_map j of None \<Rightarrow> [] | Some m \<Rightarrow> m)
                in if wbType b = ''text'' \<or> wbType b = '''' then d1
                   else if wbType b = ''thinking'' then d1\<lparr>dType := BlockThinking\<rparr>
                   else if wbType b = ''redacted_thinking'' then d1\<lparr>dType := BlockRedactedThinking, dExtra := flds\<rparr>
                   else if wbType b = ''tool_use'' then d1\<lparr>dType := BlockToolUse\<rparr>
                   else d1\<lparr>dType := BlockType_of (wbType b), dExtra := flds\<rparr>)))"

definition delta_of :: "wireDelta \<Rightarrow> Delta option" where
  "delta_of w =
     (if wdType w = ''text_delta'' then Some (zero_delta\<lparr>dType := BlockText, dText := wdText w\<rparr>)
      else if wdType w = ''thinking_delta'' then Some (zero_delta\<lparr>dType := BlockThinking, dThinking := wdThinking w\<rparr>)
      else if wdType w = ''signature_delta'' then Some (zero_delta\<lparr>dType := BlockThinking, dSignature := wdSignature w\<rparr>)
      else if wdType w = ''input_json_delta'' then Some (zero_delta\<lparr>dType := BlockToolUse, dToolInput := wdPartialJSON w\<rparr>)
      else None)"

definition later :: "int \<Rightarrow> int \<Rightarrow> int" where
  "later new old = (if new > 0 then new else old)"

definition merge_stream_usage :: "Usage \<Rightarrow> Usage \<Rightarrow> Usage" where
  "merge_stream_usage usage u = usage\<lparr>OutputTokens := later (OutputTokens u) (OutputTokens usage),
     InputTokens := later (InputTokens u) (InputTokens usage),
     CacheReadTokens := later (CacheReadTokens u) (CacheReadTokens usage),
     CacheWriteTokens := later (CacheWriteTokens u) (CacheWriteTokens usage),
     CacheWrite5mTokens := later (CacheWrite5mTokens u) (CacheWrite5mTokens usage),
     CacheWrite1hTokens := later (CacheWrite1hTokens u) (CacheWrite1hTokens usage)\<rparr>"

record ap_state =
  apUsage :: Usage
  apStop :: StopReason
  apDone :: bool

definition ap_init :: ap_state where
  "ap_init = \<lparr>apUsage = zero_usage, apStop = StopEndTurn, apDone = False\<rparr>"

text \<open>One decoded event: the new state, what is yielded, and whether the stream ends there.\<close>

definition ap_event :: "wireStreamEvent \<Rightarrow> ap_state \<Rightarrow> ap_state \<times> (StreamEvent + go_error) list \<times> bool" where
  "ap_event ev st =
     (if weType ev = ''message_start'' then
        (case weMessage ev of
           None \<Rightarrow> (st, [], False)
         | Some m \<Rightarrow>
             let u = toIR (wmUsage m) in
             (st\<lparr>apUsage := u\<rparr>,
              [Inl (zero_event\<lparr>evType := EventMessageStart, evID := wmID m, evModel := wmModel m\<rparr>), Inl (usage_event u [])], False))
      else if weType ev = ''content_block_start'' then
        (st, [Inl (zero_event\<lparr>evType := EventBlockStart, evIndex := weIndex ev, evDelta := Some (blockStart (weContentBlock ev))\<rparr>)], False)
      else if weType ev = ''content_block_delta'' then
        (case weDelta ev of
           None \<Rightarrow> (st, [], False)
         | Some w \<Rightarrow>
             (case delta_of w of
                None \<Rightarrow> (st, [], False)
              | Some d \<Rightarrow> (st, [Inl (zero_event\<lparr>evType := EventContentDelta, evIndex := weIndex ev, evDelta := Some d\<rparr>)], False)))
      else if weType ev = ''content_block_stop'' then (st, [Inl (block_stop (weIndex ev))], False)
      else if weType ev = ''message_delta'' then
        (let (st1, warns) =
           (case weDelta ev of
              None \<Rightarrow> (st, [])
            | Some w \<Rightarrow>
                if wdStopReason w \<noteq> '''' then
                  (case stopReason (wdStopReason w) of (s, known) \<Rightarrow>
                     (st\<lparr>apDone := True, apStop := s\<rparr>, if known then [] else [stop_warning (wdStopReason w)]))
                else (st, []));
             st2 = (case weUsage ev of
                None \<Rightarrow> st1
              | Some wu \<Rightarrow> st1\<lparr>apUsage := merge_stream_usage (apUsage st1) (toIR wu)\<rparr>)
         in (st2, [Inl (usage_event (apUsage st2) warns)], False))
      else if weType ev = ''message_stop'' then
        (st\<lparr>apDone := True\<rparr>, [Inl (zero_event\<lparr>evType := EventMessageStop, evStopReason := apStop st\<rparr>)], False)
      else if weType ev = ''ping'' then (st, [Inl (zero_event\<lparr>evType := EventPing\<rparr>)], False)
      else if weType ev = ''error'' then
        (st, [Inr (of_ir_error (case weError ev of
            None \<Rightarrow> mk_error ErrAPI ''upstream stream error''
          | Some e \<Rightarrow> \<lparr>errType = errorType (wrType e), errMessage = wrMessage e, errCode = wrType e\<rparr>))], True)
      else (st, [], False))"

definition errStreamTruncated :: go_error where
  "errStreamTruncated = plain_error ''upstream stream ended before message_stop: unexpected EOF''"

text \<open>The loop over the events the SSE reader returns; \<open>fin\<close> is how reading ended, \<open>None\<close> for the end of the body.\<close>

fun ap_loop :: "(string \<Rightarrow> json option) \<Rightarrow> Event list \<Rightarrow> go_error option \<Rightarrow> ap_state \<Rightarrow> (StreamEvent + go_error) list" where
  "ap_loop unmarshal [] fin st =
     (case fin of
        None \<Rightarrow> if apDone st then [] else [Inr errStreamTruncated]
      | Some err \<Rightarrow> [Inr err])"
| "ap_loop unmarshal (raw # raws) fin st =
     (if seData raw = '''' then ap_loop unmarshal raws fin st
      else case unmarshal (seData raw) of
        None \<Rightarrow> ap_loop unmarshal raws fin st
      | Some j \<Rightarrow>
          (case dec_event j zero_wire_event of
             None \<Rightarrow> ap_loop unmarshal raws fin st
           | Some ev \<Rightarrow>
               (case ap_event ev st of (st1, out, ends) \<Rightarrow>
                  out @ (if ends then [] else ap_loop unmarshal raws fin st1))))"

definition ParseStream :: "(string \<Rightarrow> json option) \<Rightarrow> Event list \<Rightarrow> go_error option \<Rightarrow> (StreamEvent + go_error) list" where
  "ParseStream unmarshal raws fin = ap_loop unmarshal raws fin ap_init"

section \<open>Reading back what the writer sends\<close>

lemma folded_keys [json_keys]:
  "ToLower ''type'' = ''type''" "ToLower ''index'' = ''index''" "ToLower ''message'' = ''message''"
  "ToLower ''content_block'' = ''content_block''" "ToLower ''delta'' = ''delta''" "ToLower ''usage'' = ''usage''"
  "ToLower ''error'' = ''error''" "ToLower ''id'' = ''id''" "ToLower ''model'' = ''model''" "ToLower ''text'' = ''text''"
  "ToLower ''thinking'' = ''thinking''" "ToLower ''signature'' = ''signature''" "ToLower ''data'' = ''data''"
  "ToLower ''name'' = ''name''" "ToLower ''input'' = ''input''" "ToLower ''partial_json'' = ''partial_json''"
  "ToLower ''stop_reason'' = ''stop_reason''" "ToLower ''stop_sequence'' = ''stop_sequence''" "ToLower ''role'' = ''role''"
  "ToLower ''content'' = ''content''" "ToLower ''cache_creation'' = ''cache_creation''"
  "ToLower ''input_tokens'' = ''input_tokens''" "ToLower ''output_tokens'' = ''output_tokens''"
  "ToLower ''cache_creation_input_tokens'' = ''cache_creation_input_tokens''"
  "ToLower ''cache_read_input_tokens'' = ''cache_read_input_tokens''"
  "ToLower ''ephemeral_5m_input_tokens'' = ''ephemeral_5m_input_tokens''"
  "ToLower ''ephemeral_1h_input_tokens'' = ''ephemeral_1h_input_tokens''"
  by code_simp+

text \<open>A usage with an Anthropic form: counts of 64 bits, no separate reasoning count, nothing estimated.\<close>

definition wire_usage_ok :: "Usage \<Rightarrow> bool" where
  "wire_usage_ok u = (int64 (InputTokens u) \<and> int64 (OutputTokens u) \<and> int64 (CacheReadTokens u) \<and> int64 (CacheWriteTokens u) \<and>
     int64 (CacheWrite5mTokens u) \<and> int64 (CacheWrite1hTokens u) \<and> ReasoningTokens u = 0 \<and> \<not> Estimated u)"

lemma usage_round_trip:
  assumes "wire_usage_ok u"
  shows "\<exists>w. dec_usage (usageBody u) zero_wire_usage = Some w \<and> toIR w = u"
proof (cases "CacheWrite5mTokens u > 0 \<or> CacheWrite1hTokens u > 0")
  case True
  with assms show ?thesis
    by (auto simp: dec_usage_def usageBody_def dec_cache_creation_def json_keys dec_int_int64 wire_usage_ok_def toIR_def
        zero_usage_def zero_wire_usage_def simp del: dec_int.simps intro!: Usage.equality)
next
  case False
  with assms show ?thesis
    by (auto simp: dec_usage_def usageBody_def json_keys dec_int_int64 wire_usage_ok_def toIR_def int64_def
        zero_usage_def zero_wire_usage_def intro!: Usage.equality)
qed

text \<open>The deltas with an Anthropic form, as this parser builds them.\<close>

definition redacted_d :: "string \<Rightarrow> Delta" where
  "redacted_d payload = zero_delta\<lparr>dType := BlockRedactedThinking,
     dExtra := [(''data'', JStr payload), (''type'', JStr ''redacted_thinking'')]\<rparr>"

definition canon_delta :: "Delta \<Rightarrow> bool" where
  "canon_delta d = (d = text_d (dText d) \<or> d = thinking_d (dThinking d) \<or> d = input_d (dToolInput d) \<or>
     (dSignature d \<noteq> '''' \<and> d = signature_d (dSignature d)))"

definition canon_start :: "Delta \<Rightarrow> bool" where
  "canon_start d = (d = text_d '''' \<or> d = thinking_d '''' \<or> d = tool_d (dToolID d) (dToolName d) \<or>
     (case map_of (dExtra d) ''data'' of Some (JStr p) \<Rightarrow> d = redacted_d p | _ \<Rightarrow> False))"

lemma canon_delta_cases:
  assumes "canon_delta d"
  obtains s where "d = text_d s" | s where "d = thinking_d s" | s where "d = input_d s"
  | s where "d = signature_d s" "s \<noteq> ''''"
  using assms unfolding canon_delta_def by blast

lemma canon_start_cases:
  assumes "canon_start d"
  obtains "d = text_d ''''" | "d = thinking_d ''''" | i n where "d = tool_d i n" | p where "d = redacted_d p"
  using assms unfolding canon_start_def by (auto split: option.splits json.splits)

lemmas delta_forms = text_d_def thinking_d_def signature_d_def input_d_def tool_d_def redacted_d_def zero_delta_def

lemma delta_round_trip:
  assumes "canon_delta d"
  shows "\<exists>w. dec_delta (deltaBody d) zero_wire_delta = Some w \<and> delta_of w = Some d"
  using assms
  by (cases rule: canon_delta_cases) (simp_all add: deltaBody_def dec_delta_def delta_of_def json_keys zero_wire_delta_def delta_forms)

lemma redacted_members:
  "go_map [(''data'', a), (''type'', b)] = JObj [(''data'', a), (''type'', b)]"
  "dec_raw_map (JObj [(''data'', a), (''type'', b)]) = Some [(''data'', a), (''type'', b)]"
proof -
  have "''data'' \<le> ''type''" by code_simp
  then show "go_map [(''data'', a), (''type'', b)] = JObj [(''data'', a), (''type'', b)]" by (simp add: go_map_def)
qed simp

lemma start_round_trip:
  assumes "canon_start d"
  shows "blockStart (Some (blockStartBody (Some d))) = d"
  using assms
  by (cases rule: canon_start_cases)
    (simp_all add: blockStartBody_def blockStart_def dec_block_def json_keys zero_wire_block_def delta_forms redacted_members)

section \<open>The round trip\<close>

definition ping_ev :: StreamEvent where
  "ping_ev = zero_event\<lparr>evType := EventPing\<rparr>"

text \<open>The events between message_start and message_delta as an Anthropic upstream sends them: blocks numbered from
  \<open>n\<close>, each delta inside an open block, every block closed at the end.\<close>

fun canon_body :: "int list \<Rightarrow> int \<Rightarrow> StreamEvent list \<Rightarrow> bool" where
  "canon_body op n [] = (op = [])"
| "canon_body op n (ev # evs) =
     (int64 (evIndex ev) \<and>
      (case evType ev of
         EventPing \<Rightarrow> ev = ping_ev \<and> canon_body op n evs
       | EventBlockStart \<Rightarrow>
           (case evDelta ev of None \<Rightarrow> False
            | Some d \<Rightarrow> ev = start_ev n d \<and> canon_start d \<and> canon_body (op @ [n]) (n + 1) evs)
       | EventContentDelta \<Rightarrow>
           (case evDelta ev of None \<Rightarrow> False
            | Some d \<Rightarrow> ev = delta_ev (evIndex ev) d \<and> evIndex ev \<in> set op \<and> canon_delta d \<and> canon_body op n evs)
       | EventBlockStop \<Rightarrow>
           ev = block_stop (evIndex ev) \<and> evIndex ev \<in> set op \<and> canon_body (filter (\<lambda>i. i \<noteq> evIndex ev) op) n evs
       | _ \<Rightarrow> False))"

definition canon_stream :: "string \<Rightarrow> string \<Rightarrow> Usage \<Rightarrow> StreamEvent list \<Rightarrow> Usage \<Rightarrow> StopReason \<Rightarrow> StreamEvent list" where
  "canon_stream mid model u0 body u1 stop =
     [zero_event\<lparr>evType := EventMessageStart, evID := mid, evModel := model\<rparr>, usage_event u0 []] @ body @
     [usage_event u1 [], zero_event\<lparr>evType := EventMessageStop, evStopReason := stop\<rparr>]"

text \<open>One wire body yields these events and leaves the parser as it was.\<close>

definition reads :: "json \<Rightarrow> StreamEvent \<Rightarrow> bool" where
  "reads b ev = (\<exists>e. dec_event b zero_wire_event = Some e \<and> (\<forall>st. ap_event e st = (st, [Inl ev], False)))"

lemma reads_ping: "reads (snd ping) ping_ev"
  by (simp add: reads_def ping_def dec_event_def json_keys zero_wire_event_def ap_event_def ping_ev_def)

lemma reads_stop: "int64 i \<Longrightarrow> reads (snd (wire_stop i)) (block_stop i)"
  by (simp add: reads_def wire_stop_def dec_event_def json_keys zero_wire_event_def ap_event_def int64_def)

lemma reads_start: "int64 i \<Longrightarrow> canon_start d \<Longrightarrow> reads (snd (block_start i (Some d))) (start_ev i d)"
  by (simp add: reads_def block_start_def dec_event_def json_keys zero_wire_event_def ap_event_def int64_def
      start_ev_def start_round_trip)

lemma reads_delta:
  assumes "int64 i" "canon_delta d"
  shows "reads (snd (block_delta i d)) (delta_ev i d)"
proof -
  from delta_round_trip[OF assms(2)] obtain w where w: "dec_delta (deltaBody d) zero_wire_delta = Some w" "delta_of w = Some d"
    by blast
  have "deltaBody d \<noteq> JNull" by (simp add: deltaBody_def split: BlockType.splits)
  with w assms(1) show ?thesis
    by (simp add: reads_def block_delta_def dec_event_def json_keys zero_wire_event_def ap_event_def int64_def delta_ev_def)
qed

lemma ap_loop_wire:
  assumes "codec_ok m un [w]" "dec_event (snd w) zero_wire_event = Some e" "ap_event e st = (st1, out, False)"
  shows "ap_loop un (sse_of m [w] @ raws) fin st = out @ ap_loop un raws fin st1"
  using assms by (cases w) (simp add: codec_ok_def sse_of_def)

lemma ap_loop_reads:
  assumes "codec_ok m un [w]" "reads (snd w) ev"
  shows "ap_loop un (sse_of m [w] @ raws) fin st = Inl ev # ap_loop un raws fin st"
proof -
  from assms(2) obtain e where "dec_event (snd w) zero_wire_event = Some e" "ap_event e st = (st, [Inl ev], False)"
    by (auto simp: reads_def)
  from ap_loop_wire[OF assms(1) this] show ?thesis by simp
qed

text \<open>The writer in the middle of such a stream: every open block stands at its own index.\<close>

definition mid_stream :: "int list \<Rightarrow> int \<Rightarrow> aw_state \<Rightarrow> bool" where
  "mid_stream op n st = (awStarted st \<and> awWireOf st = map (\<lambda>i. (i, i)) op \<and> awNext st = n \<and> (\<forall>i \<in> set op. i < n))"

lemma map_of_ident: "map_of (map (\<lambda>i. (i, i)) op) i = (if i \<in> set op then Some i else None)"
  by (induction op) auto

lemma delete_ident: "AList.delete i (map (\<lambda>j. (j, j)) op) = map (\<lambda>j. (j, j)) (filter (\<lambda>j. j \<noteq> i) op)"
  by (induction op) auto

lemma aw_event_canon:
  assumes "canon_body op n (ev # evs)" "mid_stream op n st"
  shows "\<exists>w st1 op1 n1. aw_event ev st = (st1, [w]) \<and> reads (snd w) ev \<and> mid_stream op1 n1 st1 \<and> canon_body op1 n1 evs \<and>
    awUsage st1 = awUsage st \<and> awStop st1 = awStop st"
proof (cases "evType ev")
  case EventPing
  with assms have "ev = ping_ev" "canon_body op n evs" "evType ping_ev = EventPing" by (simp_all add: ping_ev_def)
  with assms(2) show ?thesis
    by (intro exI[of _ ping] exI[of _ st] exI[of _ op] exI[of _ n])
      (simp add: aw_event_def aw_start_def mid_stream_def reads_ping)
next
  case EventBlockStart
  with assms(1) obtain d where e: "ev = start_ev n d" "canon_start d" "canon_body (op @ [n]) (n + 1) evs" "int64 (evIndex ev)"
    by (auto split: option.splits)
  have n: "map_of (awWireOf st) n = None" using assms(2) by (auto simp: mid_stream_def map_of_ident)
  let ?st = "st\<lparr>awNext := n + 1, awWireOf := map (\<lambda>i. (i, i)) (op @ [n])\<rparr>"
  have "aw_event ev st = (?st, [block_start n (Some d)])"
    using assms(2) n by (simp add: e(1) aw_event_def start_ev_def openBlock_def aw_start_def mid_stream_def update_fresh)
  moreover have "mid_stream (op @ [n]) (n + 1) ?st" using assms(2) by (auto simp: mid_stream_def)
  moreover have "reads (snd (block_start n (Some d))) ev" using e reads_start[of n d] by (simp add: start_ev_def)
  ultimately show ?thesis using e(3) by (intro exI[of _ "block_start n (Some d)"] exI[of _ ?st] exI[of _ "op @ [n]"] exI[of _ "n + 1"]) simp
next
  case EventContentDelta
  with assms(1) obtain d where e: "ev = delta_ev (evIndex ev) d" "evIndex ev \<in> set op" "canon_delta d" "canon_body op n evs"
    "int64 (evIndex ev)" by (auto split: option.splits)
  have w: "map_of (awWireOf st) (evIndex ev) = Some (evIndex ev)" using assms(2) e(2) by (simp add: mid_stream_def map_of_ident)
  have f: "evType ev = EventContentDelta" "evDelta ev = Some d" using e(1) by (metis delta_ev_def StreamEvent.select_convs(1,3)
      StreamEvent.update_convs(1,2,3) StreamEvent.surjective)+
  have "dType d \<noteq> BlockRedactedThinking" using e(3) by (cases rule: canon_delta_cases) (simp_all add: delta_forms)
  with w f have "aw_event ev st = (st, [block_delta (evIndex ev) d])" by (simp add: aw_event_def openBlock_def)
  moreover have "reads (snd (block_delta (evIndex ev) d)) ev" using reads_delta[OF e(5,3)] e(1) by simp
  ultimately show ?thesis using e(4) assms(2) by blast
next
  case EventBlockStop
  with assms(1) have e: "ev = block_stop (evIndex ev)" "evIndex ev \<in> set op" "canon_body (filter (\<lambda>i. i \<noteq> evIndex ev) op) n evs"
    "int64 (evIndex ev)" by auto
  have w: "map_of (awWireOf st) (evIndex ev) = Some (evIndex ev)" using assms(2) e(2) by (simp add: mid_stream_def map_of_ident)
  let ?st = "st\<lparr>awWireOf := map (\<lambda>i. (i, i)) (filter (\<lambda>i. i \<noteq> evIndex ev) op)\<rparr>"
  have "aw_event ev st = (?st, [wire_stop (evIndex ev)])"
    using EventBlockStop w assms(2) by (simp add: aw_event_def mid_stream_def delete_ident)
  moreover have "mid_stream (filter (\<lambda>i. i \<noteq> evIndex ev) op) n ?st" using assms(2) by (auto simp: mid_stream_def)
  moreover have "reads (snd (wire_stop (evIndex ev))) ev" using reads_stop[OF e(4)] e(1) by simp
  ultimately show ?thesis using e(3) by (intro exI[of _ "wire_stop (evIndex ev)"] exI[of _ ?st]) force
qed (use assms in auto)

lemma aw_run_canon:
  assumes "canon_body op n evs" "mid_stream op n st"
  shows "\<exists>ws st1 n1. (\<forall>tail. aw_run (map Inl (evs @ tail)) st = ws @ aw_run (map Inl tail) st1) \<and> mid_stream [] n1 st1 \<and>
    awUsage st1 = awUsage st \<and> awStop st1 = awStop st \<and>
    (\<forall>m un raws fin pst. codec_ok m un ws \<longrightarrow> ap_loop un (sse_of m ws @ raws) fin pst = map Inl evs @ ap_loop un raws fin pst)"
  using assms
proof (induction evs arbitrary: op n st)
  case Nil
  then show ?case by (intro exI[of _ "[]"] exI[of _ st] exI[of _ n]) (simp add: sse_of_def)
next
  case (Cons ev evs)
  from aw_event_canon[OF Cons.prems] obtain w st1 op1 n1 where
    s: "aw_event ev st = (st1, [w])" "reads (snd w) ev" "awUsage st1 = awUsage st" "awStop st1 = awStop st"
    and c: "mid_stream op1 n1 st1" "canon_body op1 n1 evs" by blast
  from Cons.IH[OF c(2,1)] obtain ws st2 n2 where
    ih: "\<And>tail. aw_run (map Inl (evs @ tail)) st1 = ws @ aw_run (map Inl tail) st2" "mid_stream [] n2 st2"
      "awUsage st2 = awUsage st1" "awStop st2 = awStop st1"
      "\<And>m un raws fin pst. codec_ok m un ws \<Longrightarrow> ap_loop un (sse_of m ws @ raws) fin pst = map Inl evs @ ap_loop un raws fin pst"
    by blast
  have "ap_loop un (sse_of m (w # ws) @ raws) fin pst = map Inl (ev # evs) @ ap_loop un raws fin pst"
    if "codec_ok m un (w # ws)" for m un raws fin pst
  proof -
    have k: "codec_ok m un [w]" "codec_ok m un ws" using that by (simp_all add: codec_ok_def)
    have "sse_of m (w # ws) @ raws = sse_of m [w] @ (sse_of m ws @ raws)" by (simp add: sse_of_def)
    then show ?thesis using ap_loop_reads[OF k(1) s(2), of "sse_of m ws @ raws"] ih(5)[OF k(2)] by simp
  qed
  with s ih show ?case by (intro exI[of _ "w # ws"] exI[of _ st2] exI[of _ n2]) simp
qed

text \<open>The two ends of the stream.\<close>

lemma dec_message_start:
  assumes "wire_usage_ok (awUsage st)"
  shows "\<exists>e. dec_event (snd (message_start st)) zero_wire_event = Some e \<and>
    (\<forall>pst. ap_event e pst = (pst\<lparr>apUsage := awUsage st\<rparr>,
       [Inl (zero_event\<lparr>evType := EventMessageStart, evID := messageID (awID st), evModel := awModel st\<rparr>),
        Inl (usage_event (awUsage st) [])], False))"
proof -
  from usage_round_trip[OF assms] obtain w where w: "dec_usage (usageBody (awUsage st)) zero_wire_usage = Some w" "toIR w = awUsage st"
    by blast
  then show ?thesis
    by (simp add: message_start_def dec_event_def dec_message_def json_keys zero_wire_event_def ap_event_def Let_def)
qed

definition anthropic_stop :: "StopReason \<Rightarrow> bool" where
  "anthropic_stop s = (s \<in> {StopEndTurn, StopMaxTokens, StopToolUse, StopStopSequence, StopContentFilter, StopPauseTurn})"

lemma stop_round_trip: "anthropic_stop s \<Longrightarrow> stopReason (stopReasonWire s) = (s, True) \<and> stopReasonWire s \<noteq> ''''"
  by (auto simp: anthropic_stop_def stopReason_def)

lemma dec_message_delta:
  assumes "wire_usage_ok (awUsage st)" "anthropic_stop (awStop st)"
  shows "\<exists>e. dec_event (snd (message_delta st)) zero_wire_event = Some e \<and>
    (\<forall>pst. ap_event e pst =
       (let u = merge_stream_usage (apUsage pst) (awUsage st)
        in (pst\<lparr>apDone := True, apStop := awStop st, apUsage := u\<rparr>, [Inl (usage_event u [])], False)))"
proof -
  from usage_round_trip[OF assms(1)] obtain w where w: "dec_usage (usageBody (awUsage st)) zero_wire_usage = Some w" "toIR w = awUsage st"
    by blast
  have "usageBody (awUsage st) \<noteq> JNull" by (simp add: usageBody_def)
  with w stop_round_trip[OF assms(2)] show ?thesis
    by (simp add: message_delta_def dec_event_def dec_delta_def json_keys zero_wire_event_def zero_wire_delta_def ap_event_def Let_def)
qed

lemma dec_message_stop:
  "\<exists>e. dec_event (snd message_stop) zero_wire_event = Some e \<and>
    (\<forall>pst. ap_event e pst = (pst\<lparr>apDone := True\<rparr>, [Inl (zero_event\<lparr>evType := EventMessageStop, evStopReason := apStop pst\<rparr>)], False))"
  by (simp add: message_stop_def dec_event_def json_keys zero_wire_event_def ap_event_def)

lemma writer_parser:
  assumes "canon_body [] 0 body" "mid \<noteq> ''''" "wire_usage_ok u0" "wire_usage_ok u1" "merge_stream_usage u0 u1 = u1" "anthropic_stop stop"
    and "codec_ok m un (aw_run (map Inl (canon_stream mid model u0 body u1 stop)) aw_init)"
  shows "ParseStream un (sse_of m (aw_run (map Inl (canon_stream mid model u0 body u1 stop)) aw_init)) None =
    map Inl (canon_stream mid model u0 body u1 stop)"
proof -
  let ?ms = "zero_event\<lparr>evType := EventMessageStart, evID := mid, evModel := model\<rparr>"
  let ?tail = "[usage_event u1 [], zero_event\<lparr>evType := EventMessageStop, evStopReason := stop\<rparr>]"
  define st0 where "st0 = aw_init\<lparr>awID := mid, awModel := model, awUsage := u0\<rparr>"
  define st1 where "st1 = st0\<lparr>awStarted := True\<rparr>"
  have head: "aw_run (map Inl (canon_stream mid model u0 body u1 stop)) aw_init = message_start st0 # aw_run (map Inl (body @ ?tail)) st1"
    by (simp add: canon_stream_def aw_event_def usage_event_def zero_event_def aw_start_def set_stop_def st0_def st1_def aw_init_def)
  have "mid_stream [] 0 st1" by (simp add: mid_stream_def st1_def st0_def aw_init_def)
  from aw_run_canon[OF assms(1) this] obtain ws st2 n2 where
    b: "\<And>tail. aw_run (map Inl (body @ tail)) st1 = ws @ aw_run (map Inl tail) st2" "mid_stream [] n2 st2" "awStop st2 = awStop st1"
    and p: "\<And>raws fin pst. codec_ok m un ws \<Longrightarrow> ap_loop un (sse_of m ws @ raws) fin pst = map Inl body @ ap_loop un raws fin pst"
    by blast
  define st3 where "st3 = st2\<lparr>awUsage := u1, awStop := stop\<rparr>"
  have "StopOther '''' \<noteq> stop" using assms(6) by (auto simp: anthropic_stop_def)
  then have tail: "aw_run (map Inl ?tail) st2 = [message_delta st3, message_stop]"
    using b(2) by (simp add: aw_event_def usage_event_def zero_event_def aw_start_def set_stop_def aw_closeAll_def aw_end_def
        mid_stream_def st3_def message_delta_def)
  have ws: "aw_run (map Inl (canon_stream mid model u0 body u1 stop)) aw_init = [message_start st0] @ ws @ [message_delta st3] @ [message_stop]"
    unfolding head b(1) tail by simp
  note k = assms(7)[unfolded ws codec_ok_append]
  obtain e1 where e1: "dec_event (snd (message_start st0)) zero_wire_event = Some e1"
    "ap_event e1 ap_init = (ap_init\<lparr>apUsage := u0\<rparr>, [Inl ?ms, Inl (usage_event u0 [])], False)"
    using dec_message_start[of st0] assms(2,3) by (auto simp: st0_def messageID_def)
  let ?p2 = "\<lparr>apUsage = u1, apStop = stop, apDone = True\<rparr>"
  obtain e2 where e2: "dec_event (snd (message_delta st3)) zero_wire_event = Some e2"
    "ap_event e2 (ap_init\<lparr>apUsage := u0\<rparr>) = (?p2, [Inl (usage_event u1 [])], False)"
    using dec_message_delta[of st3] assms(4,5,6) by (auto simp: st3_def Let_def ap_init_def)
  obtain e3 where e3: "dec_event (snd message_stop) zero_wire_event = Some e3"
    "ap_event e3 ?p2 = (?p2, [Inl (zero_event\<lparr>evType := EventMessageStop, evStopReason := stop\<rparr>)], False)"
    using dec_message_stop by auto
  have "ap_loop un (sse_of m [message_delta st3] @ sse_of m [message_stop]) None (ap_init\<lparr>apUsage := u0\<rparr>) = map Inl ?tail"
    using ap_loop_wire[OF _ e2] ap_loop_wire[OF _ e3, of m un "[]" None] k by simp
  then show ?thesis
    unfolding ParseStream_def ws sse_of_append
    using k ap_loop_wire[OF _ e1, of m un] p by (simp add: canon_stream_def)
qed

section \<open>Properties\<close>

text \<open>C6. Anthropic through Anthropic, byte for byte. A stream as an Anthropic upstream sends it (message start with its
  usage, numbered blocks of text, thinking, redacted thinking and tool calls, the final usage and stop reason),
  written to a client by the Anthropic writer and read back by the SSE reader and the Anthropic parser, gives exactly
  the same canonical events, whenever the JSON printer and reader agree on the bodies written and no line outgrows
  the reader's cap.\<close>

theorem anthropic_round_trip:
  assumes "canon_body [] 0 body" "mid \<noteq> ''''" "wire_usage_ok u0" "wire_usage_ok u1" "merge_stream_usage u0 u1 = u1" "anthropic_stop stop"
    and "evs = canon_stream mid model u0 body u1 stop" "ws = aw_run (map Inl evs) aw_init"
    and "codec_ok marshal unmarshal ws" "lines_fit marshal mx ws"
  shows "case read_all mx (scan_lines (wire_text marshal ws)) of (raws, fin) \<Rightarrow>
    fin = EOF \<and> ParseStream unmarshal raws None = map Inl evs"
  using writer_parser[OF assms(1-6), of marshal unmarshal model] assms(7-10) by (simp add: read_wire_text)

definition demo_message :: "StreamEvent list" where
  "demo_message = canon_stream ''msg_1'' ''claude'' (zero_usage\<lparr>InputTokens := 5\<rparr>)
     [start_ev 0 (text_d ''''), delta_ev 0 (text_d ''hi''), ping_ev, block_stop 0,
      start_ev 1 (tool_d ''t1'' ''look''), delta_ev 1 (input_d ''{}''), block_stop 1]
     (zero_usage\<lparr>InputTokens := 5, OutputTokens := 2\<rparr>) StopToolUse"

definition demo_wires :: "wire list" where
  "demo_wires = aw_run (map Inl demo_message) aw_init"

lemma demo_wire_names: "list_all (\<lambda>w. plain_line (fst w) \<and> length (fst w) \<le> 50) demo_wires \<and> length demo_wires \<le> 50"
  by code_simp

theorem anthropic_round_trip_witness:
  "case read_all 100 (scan_lines (wire_text (table_marshal (map snd demo_wires)) demo_wires)) of (raws, fin) \<Rightarrow>
     fin = EOF \<and> ParseStream (table_unmarshal (map snd demo_wires)) raws None = map Inl demo_message"
proof (rule anthropic_round_trip[OF _ _ _ _ _ _ demo_message_def demo_wires_def])
  let ?m = "table_marshal (map snd demo_wires)"
  have "plain_line (?m j)" for j
    using table_marshal_short[of "map snd demo_wires" j] by (auto simp: plain_line_def LF_def CR_def)
  moreover have "length (?m j) + 7 \<le> 100" for j
    using table_marshal_short[of "map snd demo_wires" j] demo_wire_names by auto
  ultimately show "lines_fit ?m 100 demo_wires"
    using demo_wire_names by (auto simp: lines_fit_def frame_ok_def plain_line_def list_all_iff)
  show "codec_ok ?m (table_unmarshal (map snd demo_wires)) demo_wires"
    using table_codec[of _ "map snd demo_wires"] by (auto simp: codec_ok_def list_all_iff)
qed code_simp+

text \<open>A stream cut after message_delta is not truncated to the parser, but the stop reason it carried is only ever
  yielded with message_stop: the writer behind it, whose default is end_turn, reports a tool call as a finished turn.\<close>

definition cut_wires :: "wire list" where
  "cut_wires = butlast demo_wires"

lemma cut_stream_loses_stop_reason:
  "let evs = ParseStream (table_unmarshal (map snd demo_wires)) (sse_of (table_marshal (map snd demo_wires)) cut_wires) None in
   list_all isl evs \<and>
   stopReason ''tool_use'' = (StopToolUse, True) \<and>
   member ''delta'' (snd (last cut_wires)) = Some (JObj [(''stop_reason'', JStr ''tool_use''), (''stop_sequence'', JNull)]) \<and>
   member ''delta'' (snd (last (butlast (aw_run evs aw_init)))) =
     Some (JObj [(''stop_reason'', JStr ''end_turn''), (''stop_sequence'', JNull)])"
  by code_simp

section \<open>The unary response, there and back\<close>

definition thinking_block :: "string \<Rightarrow> string \<Rightarrow> ContentBlock" where
  "thinking_block t sig = ContentBlock BlockThinking '''' None (Some \<lparr>thText = t, thSignature = sig, thData = ''''\<rparr>) None None None []"

definition redacted_block :: "string \<Rightarrow> ContentBlock" where
  "redacted_block p = ContentBlock BlockRedactedThinking '''' None (Some \<lparr>thText = '''', thSignature = '''', thData = p\<rparr>) None None None []"

definition tool_block :: "string \<Rightarrow> string \<Rightarrow> json \<Rightarrow> ContentBlock" where
  "tool_block i name input = ContentBlock BlockToolUse '''' None None
     (Some \<lparr>tuID = i, tuName = name, tuInput = Some input, tuSignature = ''''\<rparr>) None None []"

text \<open>The assistant content with an Anthropic form.\<close>

inductive canon_block :: "ContentBlock \<Rightarrow> bool" where
  canon_text: "canon_block (text_block s)"
| canon_thinking: "canon_block (thinking_block t sig)"
| canon_redacted: "canon_block (redacted_block p)"
| canon_tool: "canon_block (tool_block i name input)"

lemma block_round_trip:
  "canon_block b \<Longrightarrow> \<exists>j. response_block b = [j] \<and> parse_content_block de j = Inr (Inl b)"
  by (induction rule: canon_block.induct)
    (auto simp: response_block_def parse_content_block_def dec_block_def zero_wire_block_def json_keys blockToIR_def
      text_block_def thinking_block_def redacted_block_def tool_block_def)

lemma parse_content_canon:
  "\<forall>b \<in> set bs. canon_block b \<Longrightarrow>
   parse_content de (concat (map response_block bs)) out = Inr (out\<lparr>rspContent := rspContent out @ bs\<rparr>)"
proof (induction bs arbitrary: out)
  case (Cons b bs)
  from Cons.prems block_round_trip[of b de] obtain j where "response_block b = [j]" "parse_content_block de j = Inr (Inl b)" by auto
  with Cons show ?case by simp
qed simp

text \<open>The unary answer, there and back. A response whose content is text, thinking, redacted thinking and tool calls,
  written as an Anthropic body and parsed by the Anthropic adapter, is the same response: content in order and complete,
  identifiers, stop reason and every token count.\<close>

theorem anthropic_response_round_trip:
  assumes "list_all canon_block (rspContent r)" "rspID r \<noteq> ''''" "anthropic_stop (rspStopReason r)" "wire_usage_ok (rspUsage r)"
    and "rspWarnings r = []" "rspExtra r = []"
  shows "ParseResponse decode_err (Inr (WriteResponse_body r)) = Inr r"
proof -
  from usage_round_trip[OF assms(4)] obtain w where w: "dec_usage (usageBody (rspUsage r)) zero_wire_usage = Some w" "toIR w = rspUsage r"
    by blast
  have c: "\<forall>b \<in> set (rspContent r). canon_block b" using assms(1) by (simp add: list_all_iff)
  show ?thesis
    using w assms(2,5,6) stop_round_trip[OF assms(3)]
    by (simp add: ParseResponse_def WriteResponse_body_def dec_response_def json_keys zero_wire_response_def responseBlocks_def
        parse_content_canon[OF c] messageID_def Let_def)
qed

definition demo_response :: IRResponse where
  "demo_response = \<lparr>rspID = ''msg_1'', rspModel = ''claude'', rspContent = [thinking_block ''hm'' ''sig'', text_block ''hi'',
     tool_block ''t1'' ''look'' (JObj [(''q'', JStr ''x'')])], rspStopReason = StopToolUse,
     rspUsage = zero_usage\<lparr>InputTokens := 5, OutputTokens := 2\<rparr>, rspWarnings = [], rspExtra = []\<rparr>"

theorem anthropic_response_round_trip_witness:
  "ParseResponse (plain_error ''bad'') (Inr (WriteResponse_body demo_response)) = Inr demo_response"
  by (rule anthropic_response_round_trip)
    (simp_all add: demo_response_def canon_block.intros anthropic_stop_def wire_usage_ok_def int64_def int64_max_def zero_usage_def)

end
