(* ===== verification/Anthropic_Request.thy ===== *)
theory Anthropic_Request
  imports Anthropic_Build Anthropic_Parser
begin

text \<open>
  The Anthropic client dialect's request side, \<^verbatim>\<open>internal/edge/anthropic/parse.go\<close> and \<^verbatim>\<open>dialect.go\<close>, with the cap on a
  body of \<^verbatim>\<open>internal/edge/edge.go\<close>: the wire request, its decoding, and the canonical request it becomes. Then the two
  directions together: content, and whole requests, that the adapter of \<^verbatim>\<open>Anthropic_Build\<close> sends are read back as they were.

  Arguments: \<open>unmarshal\<close>, the JSON reader; \<open>fin\<close>, whether a number fits a \<^verbatim>\<open>float64\<close>; \<open>de\<close>, the error a decoder gives.
\<close>

section \<open>Wire types\<close>

record wireSource =
  wsType :: string
  wsMediaType :: string
  wsData :: string
  wsURL :: string
  wsFileID :: string

record contentBlock =
  cqType :: string
  cqText :: string
  cqThinking :: string
  cqSignature :: string
  cqData :: string
  cqID :: string
  cqName :: string
  cqInput :: "json option"
  cqToolUseID :: string
  cqIsError :: bool
  cqContent :: "json option"
  cqSource :: "wireSource option"
  cqCacheControl :: "CacheControl option"

record wireTurn =
  wmRole :: string
  wmContent :: "json option"

record wireTool =
  wtType :: string
  wtName :: string
  wtDescription :: string
  wtInputSchema :: "json option"
  wtCacheControl :: "json option"

record wireToolChoice =
  wcType :: string
  wcName :: string
  wcDisableParallel :: "bool option"

record wireThinking =
  wkType :: string
  wkBudget :: int

record wireFormat =
  wfType :: string
  wfSchema :: "json option"

record wireOutputConfig =
  woEffort :: string
  woFormat :: "wireFormat option"

record wireRequest =
  wqModel :: string
  wqSystem :: "json option"
  wqMessages :: "wireTurn list"
  wqTools :: "json list"
  wqToolChoice :: "wireToolChoice option"
  wqMaxTokens :: "int option"
  wqTemperature :: "json option"
  wqTopP :: "json option"
  wqTopK :: "int option"
  wqStopSequences :: "string list"
  wqStream :: bool
  wqThinking :: "wireThinking option"
  wqOutputConfig :: "wireOutputConfig option"
  wqMetadata :: "(string, string) gomap"

section \<open>Decoding\<close>

definition zero_source :: wireSource where
  "zero_source = \<lparr>wsType = '''', wsMediaType = '''', wsData = '''', wsURL = '''', wsFileID = ''''\<rparr>"

definition dec_source :: "json \<Rightarrow> wireSource \<Rightarrow> wireSource option" where
  "dec_source = dec_struct (\<lambda>k v s.
     if k = ''type'' then set_field (\<lambda>x s. s\<lparr>wsType := x\<rparr>) (dec_string v (wsType s)) s
     else if k = ''media_type'' then set_field (\<lambda>x s. s\<lparr>wsMediaType := x\<rparr>) (dec_string v (wsMediaType s)) s
     else if k = ''data'' then set_field (\<lambda>x s. s\<lparr>wsData := x\<rparr>) (dec_string v (wsData s)) s
     else if k = ''url'' then set_field (\<lambda>x s. s\<lparr>wsURL := x\<rparr>) (dec_string v (wsURL s)) s
     else if k = ''file_id'' then set_field (\<lambda>x s. s\<lparr>wsFileID := x\<rparr>) (dec_string v (wsFileID s)) s
     else Some s)"

definition dec_cache :: "json \<Rightarrow> CacheControl \<Rightarrow> CacheControl option" where
  "dec_cache = dec_struct (\<lambda>k v s.
     if k = ''type'' then set_field (\<lambda>x s. s\<lparr>ccType := x\<rparr>) (dec_string v (ccType s)) s
     else if k = ''ttl'' then set_field (\<lambda>x s. s\<lparr>ccTTL := x\<rparr>) (dec_string v (ccTTL s)) s
     else Some s)"

definition zero_content :: contentBlock where
  "zero_content = \<lparr>cqType = '''', cqText = '''', cqThinking = '''', cqSignature = '''', cqData = '''', cqID = '''', cqName = '''',
     cqInput = None, cqToolUseID = '''', cqIsError = False, cqContent = None, cqSource = None, cqCacheControl = None\<rparr>"

definition content_member :: "string \<Rightarrow> json \<Rightarrow> contentBlock \<Rightarrow> contentBlock option" where
  "content_member k v s =
     (if k = ''type'' then set_field (\<lambda>x s. s\<lparr>cqType := x\<rparr>) (dec_string v (cqType s)) s
      else if k = ''text'' then set_field (\<lambda>x s. s\<lparr>cqText := x\<rparr>) (dec_string v (cqText s)) s
      else if k = ''thinking'' then set_field (\<lambda>x s. s\<lparr>cqThinking := x\<rparr>) (dec_string v (cqThinking s)) s
      else if k = ''signature'' then set_field (\<lambda>x s. s\<lparr>cqSignature := x\<rparr>) (dec_string v (cqSignature s)) s
      else if k = ''data'' then set_field (\<lambda>x s. s\<lparr>cqData := x\<rparr>) (dec_string v (cqData s)) s
      else if k = ''id'' then set_field (\<lambda>x s. s\<lparr>cqID := x\<rparr>) (dec_string v (cqID s)) s
      else if k = ''name'' then set_field (\<lambda>x s. s\<lparr>cqName := x\<rparr>) (dec_string v (cqName s)) s
      else if k = ''input'' then Some (s\<lparr>cqInput := Some v\<rparr>)
      else if k = ''tool_use_id'' then set_field (\<lambda>x s. s\<lparr>cqToolUseID := x\<rparr>) (dec_string v (cqToolUseID s)) s
      else if k = ''is_error'' then set_field (\<lambda>x s. s\<lparr>cqIsError := x\<rparr>) (dec_bool v (cqIsError s)) s
      else if k = ''content'' then Some (s\<lparr>cqContent := Some v\<rparr>)
      else if k = ''source'' then set_field (\<lambda>x s. s\<lparr>cqSource := x\<rparr>) (dec_ptr zero_source dec_source v (cqSource s)) s
      else if k = ''cache_control'' then
        set_field (\<lambda>x s. s\<lparr>cqCacheControl := x\<rparr>)
          (dec_ptr \<lparr>ccType = '''', ccTTL = ''''\<rparr> dec_cache v (cqCacheControl s)) s
      else Some s)"

definition dec_content :: "json \<Rightarrow> contentBlock \<Rightarrow> contentBlock option" where
  "dec_content = dec_struct content_member"

definition dec_wireTurn :: "json \<Rightarrow> wireTurn \<Rightarrow> wireTurn option" where
  "dec_wireTurn = dec_struct (\<lambda>k v s.
     if k = ''role'' then set_field (\<lambda>x s. s\<lparr>wmRole := x\<rparr>) (dec_string v (wmRole s)) s
     else if k = ''content'' then Some (s\<lparr>wmContent := Some v\<rparr>)
     else Some s)"

definition dec_wireTool :: "json \<Rightarrow> wireTool \<Rightarrow> wireTool option" where
  "dec_wireTool = dec_struct (\<lambda>k v s.
     if k = ''type'' then set_field (\<lambda>x s. s\<lparr>wtType := x\<rparr>) (dec_string v (wtType s)) s
     else if k = ''name'' then set_field (\<lambda>x s. s\<lparr>wtName := x\<rparr>) (dec_string v (wtName s)) s
     else if k = ''description'' then set_field (\<lambda>x s. s\<lparr>wtDescription := x\<rparr>) (dec_string v (wtDescription s)) s
     else if k = ''input_schema'' then Some (s\<lparr>wtInputSchema := Some v\<rparr>)
     else if k = ''cache_control'' then Some (s\<lparr>wtCacheControl := Some v\<rparr>)
     else Some s)"

definition dec_wireToolChoice :: "json \<Rightarrow> wireToolChoice \<Rightarrow> wireToolChoice option" where
  "dec_wireToolChoice = dec_struct (\<lambda>k v s.
     if k = ''type'' then set_field (\<lambda>x s. s\<lparr>wcType := x\<rparr>) (dec_string v (wcType s)) s
     else if k = ''name'' then set_field (\<lambda>x s. s\<lparr>wcName := x\<rparr>) (dec_string v (wcName s)) s
     else if k = ''disable_parallel_tool_use'' then
       set_field (\<lambda>x s. s\<lparr>wcDisableParallel := x\<rparr>) (dec_ptr False dec_bool v (wcDisableParallel s)) s
     else Some s)"

definition dec_wireThinking :: "json \<Rightarrow> wireThinking \<Rightarrow> wireThinking option" where
  "dec_wireThinking = dec_struct (\<lambda>k v s.
     if k = ''type'' then set_field (\<lambda>x s. s\<lparr>wkType := x\<rparr>) (dec_string v (wkType s)) s
     else if k = ''budget_tokens'' then set_field (\<lambda>x s. s\<lparr>wkBudget := x\<rparr>) (dec_int v (wkBudget s)) s
     else Some s)"

definition dec_wireFormat :: "json \<Rightarrow> wireFormat \<Rightarrow> wireFormat option" where
  "dec_wireFormat = dec_struct (\<lambda>k v s.
     if k = ''type'' then set_field (\<lambda>x s. s\<lparr>wfType := x\<rparr>) (dec_string v (wfType s)) s
     else if k = ''schema'' then Some (s\<lparr>wfSchema := Some v\<rparr>)
     else Some s)"

definition dec_wireOutputConfig :: "json \<Rightarrow> wireOutputConfig \<Rightarrow> wireOutputConfig option" where
  "dec_wireOutputConfig = dec_struct (\<lambda>k v s.
     if k = ''effort'' then set_field (\<lambda>x s. s\<lparr>woEffort := x\<rparr>) (dec_string v (woEffort s)) s
     else if k = ''format'' then
       set_field (\<lambda>x s. s\<lparr>woFormat := x\<rparr>) (dec_ptr \<lparr>wfType = '''', wfSchema = None\<rparr> dec_wireFormat v (woFormat s)) s
     else Some s)"

definition zero_request :: wireRequest where
  "zero_request = \<lparr>wqModel = '''', wqSystem = None, wqMessages = [], wqTools = [], wqToolChoice = None, wqMaxTokens = None,
     wqTemperature = None, wqTopP = None, wqTopK = None, wqStopSequences = [], wqStream = False, wqThinking = None,
     wqOutputConfig = None, wqMetadata = []\<rparr>"

definition request_member :: "(json \<Rightarrow> bool) \<Rightarrow> string \<Rightarrow> json \<Rightarrow> wireRequest \<Rightarrow> wireRequest option" where
  "request_member fin k v s =
     (if k = ''model'' then set_field (\<lambda>x s. s\<lparr>wqModel := x\<rparr>) (dec_string v (wqModel s)) s
      else if k = ''system'' then Some (s\<lparr>wqSystem := Some v\<rparr>)
      else if k = ''messages'' then
        set_field (\<lambda>x s. s\<lparr>wqMessages := x\<rparr>) (dec_slice \<lparr>wmRole = '''', wmContent = None\<rparr> dec_wireTurn v (wqMessages s)) s
      else if k = ''tools'' then set_field (\<lambda>x s. s\<lparr>wqTools := x\<rparr>) (dec_raws v (wqTools s)) s
      else if k = ''tool_choice'' then
        set_field (\<lambda>x s. s\<lparr>wqToolChoice := x\<rparr>)
          (dec_ptr \<lparr>wcType = '''', wcName = '''', wcDisableParallel = None\<rparr> dec_wireToolChoice v (wqToolChoice s)) s
      else if k = ''max_tokens'' then set_field (\<lambda>x s. s\<lparr>wqMaxTokens := x\<rparr>) (dec_ptr 0 dec_int v (wqMaxTokens s)) s
      else if k = ''temperature'' then
        set_field (\<lambda>x s. s\<lparr>wqTemperature := x\<rparr>) (dec_ptr (JInt 0) (dec_float fin) v (wqTemperature s)) s
      else if k = ''top_p'' then set_field (\<lambda>x s. s\<lparr>wqTopP := x\<rparr>) (dec_ptr (JInt 0) (dec_float fin) v (wqTopP s)) s
      else if k = ''top_k'' then set_field (\<lambda>x s. s\<lparr>wqTopK := x\<rparr>) (dec_ptr 0 dec_int v (wqTopK s)) s
      else if k = ''stop_sequences'' then
        set_field (\<lambda>x s. s\<lparr>wqStopSequences := x\<rparr>) (dec_slice '''' dec_string v (wqStopSequences s)) s
      else if k = ''stream'' then set_field (\<lambda>x s. s\<lparr>wqStream := x\<rparr>) (dec_bool v (wqStream s)) s
      else if k = ''thinking'' then
        set_field (\<lambda>x s. s\<lparr>wqThinking := x\<rparr>) (dec_ptr \<lparr>wkType = '''', wkBudget = 0\<rparr> dec_wireThinking v (wqThinking s)) s
      else if k = ''output_config'' then
        set_field (\<lambda>x s. s\<lparr>wqOutputConfig := x\<rparr>)
          (dec_ptr \<lparr>woEffort = '''', woFormat = None\<rparr> dec_wireOutputConfig v (wqOutputConfig s)) s
      else if k = ''metadata'' then set_field (\<lambda>x s. s\<lparr>wqMetadata := x\<rparr>) (dec_string_map v (wqMetadata s)) s
      else Some s)"

definition dec_request :: "(json \<Rightarrow> bool) \<Rightarrow> json \<Rightarrow> wireRequest \<Rightarrow> wireRequest option" where
  "dec_request fin = dec_struct (request_member fin)"

section \<open>Content\<close>

definition sourceToMedia :: "wireSource option \<Rightarrow> Media option" where
  "sourceToMedia s =
     (case s of
        None \<Rightarrow> None
      | Some s \<Rightarrow>
          Some \<lparr>MIME = wsMediaType s, Data = (if wsType s = ''text'' then EncodeToString (wsData s) else wsData s),
            URL = wsURL s, FileID = wsFileID s\<rparr>)"

text \<open>One block, given what its content was parsed to, for a tool result: \<open>None\<close> is a block of no known type, which is
  skipped.\<close>

definition parseBlock :: "go_error + ContentBlock list \<Rightarrow> contentBlock \<Rightarrow> go_error + ContentBlock option" where
  "parseBlock inner b =
     (if cqType b = ''text'' then Inr (Some (text_block (cqText b)))
      else if cqType b = ''thinking'' then
        Inr (Some (ContentBlock BlockThinking '''' None
          (Some \<lparr>thText = cqThinking b, thSignature = cqSignature b, thData = ''''\<rparr>) None None None []))
      else if cqType b = ''redacted_thinking'' then
        Inr (Some (ContentBlock BlockRedactedThinking '''' None
          (Some \<lparr>thText = '''', thSignature = '''', thData = cqData b\<rparr>) None None None []))
      else if cqType b = ''image'' then
        Inr (Some (ContentBlock BlockImage '''' (sourceToMedia (cqSource b)) None None None None []))
      else if cqType b = ''document'' then
        Inr (Some (ContentBlock BlockDocument '''' (sourceToMedia (cqSource b)) None None None None []))
      else if cqType b = ''tool_use'' then
        Inr (Some (ContentBlock BlockToolUse '''' None None
          (Some \<lparr>tuID = cqID b, tuName = cqName b, tuInput = cqInput b, tuSignature = ''''\<rparr>) None None []))
      else if cqType b = ''tool_result'' then
        (case inner of
           Inl e \<Rightarrow> Inl e
         | Inr content \<Rightarrow>
             Inr (Some (ContentBlock BlockToolResult '''' None None None
               (Some (ToolResult (cqToolUseID b) content (cqIsError b))) None [])))
      else Inr None)"

fun with_cache :: "CacheControl option \<Rightarrow> ContentBlock \<Rightarrow> ContentBlock" where
  "with_cache cc (ContentBlock t s m th tu tr old ex) = ContentBlock t s m th tu tr (if cc = None then old else cc) ex"

fun gather :: "(contentBlock \<times> (go_error + ContentBlock option)) list \<Rightarrow> go_error + ContentBlock list" where
  "gather [] = Inr []"
| "gather ((w, r) # rs) =
     (case r of
        Inl e \<Rightarrow> Inl e
      | Inr None \<Rightarrow> gather rs
      | Inr (Some b) \<Rightarrow> (case gather rs of Inl e \<Rightarrow> Inl e | Inr bs \<Rightarrow> Inr (with_cache (cqCacheControl w) b # bs)))"

lemma set_field_keeps: "set_field upd r s = Some s' \<Longrightarrow> (\<And>v t. g (upd v t) = g t) \<Longrightarrow> g s' = g s"
  by (auto simp: set_field_def split: option.splits)

lemma Some_keeps: "Some a = Some s' \<Longrightarrow> g a = b \<Longrightarrow> g s' = b"
  by auto

lemma if_Some_elim: "(if c then A else B) = Some s \<Longrightarrow> (c \<Longrightarrow> A = Some s \<Longrightarrow> P) \<Longrightarrow> (\<not> c \<Longrightarrow> B = Some s \<Longrightarrow> P) \<Longrightarrow> P"
  by (auto split: if_splits)

lemma dec_content_size:
  assumes "dec_content x zero_content = Some w" "cqContent w = Some c"
  shows "size c < size x"
proof -
  have m: "cqContent s' = cqContent s \<or> cqContent s' = Some v" if "content_member k v s = Some s'" for k v s s'
  proof (cases "k = ''content''")
    case True
    then show ?thesis using that by (auto simp: content_member_def)
  next
    case False
    then show ?thesis using that unfolding content_member_def
      by - (rule disjI1, elim if_Some_elim, ((erule set_field_keeps[where g = cqContent], simp) | (erule (1) notE) | (erule Some_keeps[where g = cqContent], simp))+)
  qed
  have ms: "dec_members content_member ms s = Some w \<Longrightarrow> cqContent w = cqContent s \<or> cqContent w \<in> Some ` snd ` set ms" for ms s
  proof (induction ms arbitrary: s)
    case (Cons kv ms)
    obtain k v where kv: "kv = (k, v)" by (cases kv)
    with Cons.prems obtain s1 where s1: "content_member (ToLower k) v s = Some s1" "dec_members content_member ms s1 = Some w"
      by (auto split: option.splits)
    from Cons.IH[OF s1(2)] m[OF s1(1)] show ?case by (auto simp: kv)
  qed simp
  show ?thesis
  proof (cases x)
    case (JObj kvs)
    then have "c \<in> snd ` set kvs" using ms[of kvs zero_content] assms by (auto simp: dec_content_def zero_content_def)
    then show ?thesis using size_member JObj by blast
  qed (use assms in \<open>auto simp: dec_content_def zero_content_def\<close>)
qed

lemma dec_elems_from: "dec_elems zero dec xs [] = Some ws \<Longrightarrow> w \<in> set ws \<Longrightarrow> \<exists>x \<in> set xs. dec x zero = Some w"
  by (induction xs arbitrary: ws) (auto split: option.splits)

function parseContent :: "go_error \<Rightarrow> json \<Rightarrow> go_error + ContentBlock list" where
  "parseContent de (JArr xs) =
     (case dec_elems zero_content dec_content xs [] of
        None \<Rightarrow> Inl (wrap_error ''unsupported content'' de)
      | Some ws \<Rightarrow> gather (map (\<lambda>w. (w, parseBlock (case cqContent w of None \<Rightarrow> Inr [] | Some c \<Rightarrow> parseContent de c) w)) ws))"
| "parseContent de JNull = Inr []"
| "parseContent de (JStr s) = (if s = '''' then Inr [] else Inr [text_block s])"
| "parseContent de (JBool b) = Inl (wrap_error ''unsupported content'' de)"
| "parseContent de (JInt n) = Inl (wrap_error ''unsupported content'' de)"
| "parseContent de (JNumber l) = Inl (wrap_error ''unsupported content'' de)"
| "parseContent de (JObj ms) = Inl (wrap_error ''unsupported content'' de)"
  by pat_completeness auto
termination
proof (relation "measure (\<lambda>(de, j). size j)", goal_cases)
  case (2 de xs ws w c)
  obtain x where x: "x \<in> set xs" "dec_content x zero_content = Some w"
    using dec_elems_from[OF 2(1,2)] by blast
  from dec_content_size[OF x(2) 2(3)] size_element[OF x(1)] have "size c < size (JArr xs)" by (rule less_trans)
  then show ?case by (simp only: in_measure split_conv)
qed simp

definition parse_raw :: "go_error \<Rightarrow> json option \<Rightarrow> go_error + ContentBlock list" where
  "parse_raw de raw = (case raw of None \<Rightarrow> Inr [] | Some j \<Rightarrow> parseContent de j)"

section \<open>Tools and messages\<close>

definition parseTool :: "go_error \<Rightarrow> json \<Rightarrow> go_error + Tool" where
  "parseTool de raw =
     (case dec_wireTool raw \<lparr>wtType = '''', wtName = '''', wtDescription = '''', wtInputSchema = None, wtCacheControl = None\<rparr> of
        None \<Rightarrow> Inl (wrap_error ''invalid tool'' de)
      | Some t \<Rightarrow>
          let tool = \<lparr>toolName = wtName t, toolDescription = wtDescription t, toolSchema = wtInputSchema t,
            toolSchemaDialect = '''', toolExtra = []\<rparr> in
          if wtType t \<noteq> '''' \<and> wtType t \<noteq> ''custom'' then
            (case dec_raw_map raw of
               None \<Rightarrow> Inl (wrap_error ''invalid tool'' de)
             | Some mems \<Rightarrow> Inr (tool\<lparr>toolExtra := mems\<rparr>))
          else case wtCacheControl t of
            None \<Rightarrow> Inr tool
          | Some c \<Rightarrow> Inr (if c = JNull then tool else tool\<lparr>toolExtra := [(''cache_control'', c)]\<rparr>))"

fun parse_tools :: "go_error \<Rightarrow> json list \<Rightarrow> go_error + Tool list" where
  "parse_tools de [] = Inr []"
| "parse_tools de (raw # raws) =
     (case parseTool de raw of
        Inl e \<Rightarrow> Inl e
      | Inr t \<Rightarrow> (case parse_tools de raws of Inl e \<Rightarrow> Inl e | Inr ts \<Rightarrow> Inr (t # ts)))"

fun parse_messages :: "go_error \<Rightarrow> wireTurn list \<Rightarrow> go_error + Message list" where
  "parse_messages de [] = Inr []"
| "parse_messages de (m # ms) =
     (case parse_raw de (wmContent m) of
        Inl e \<Rightarrow> Inl e
      | Inr blocks \<Rightarrow>
          (case parse_messages de ms of
             Inl e \<Rightarrow> Inl e
           | Inr rest \<Rightarrow>
               Inr (\<lparr>msgRole = (if wmRole m = ''assistant'' then RoleAssistant else RoleUser), msgContent = blocks\<rparr> # rest)))"

definition parse_choice :: "wireToolChoice \<Rightarrow> ToolChoice" where
  "parse_choice c =
     (if wcType c = ''none'' then \<lparr>tcMode = ''none'', tcName = ''''\<rparr>
      else if wcType c = ''any'' then \<lparr>tcMode = ''any'', tcName = ''''\<rparr>
      else if wcType c = ''tool'' then \<lparr>tcMode = ''tool'', tcName = wcName c\<rparr>
      else \<lparr>tcMode = ''auto'', tcName = ''''\<rparr>)"

section \<open>Requests\<close>

text \<open>The effort comes from the output configuration, the budget from the thinking configuration; a request with neither has
  no reasoning set.\<close>

definition parse_reasoning :: "wireRequest \<Rightarrow> Reasoning option" where
  "parse_reasoning w =
     (let effort = (case wqOutputConfig w of
            Some oc \<Rightarrow> if woEffort oc \<noteq> '''' then Some \<lparr>rsEffort = woEffort oc, rsBudget = 0, rsDisabled = False\<rparr> else None
          | None \<Rightarrow> None)
      in case wqThinking w of
           None \<Rightarrow> effort
         | Some th \<Rightarrow>
             if wkBudget th > 0 then
               Some ((case effort of None \<Rightarrow> \<lparr>rsEffort = '''', rsBudget = 0, rsDisabled = False\<rparr> | Some r \<Rightarrow> r)\<lparr>rsBudget := wkBudget th\<rparr>)
             else effort)"

definition parse_format :: "wireRequest \<Rightarrow> ResponseFormat option" where
  "parse_format w =
     (case wqOutputConfig w of
        None \<Rightarrow> None
      | Some oc \<Rightarrow>
          (case woFormat oc of
             None \<Rightarrow> None
           | Some f \<Rightarrow>
               if wfType f = ''json_schema'' then
                 Some \<lparr>rfType = ''json_schema'', rfSchema = wfSchema f, rfSchemaDialect = '''', rfName = '''', rfStrict = None\<rparr>
               else None))"

text \<open>Transport state the adapter echoes: the version, the betas, the thinking mode.\<close>

definition parse_metadata :: "(string, string list) gomap \<Rightarrow> wireRequest \<Rightarrow> (string, string) gomap" where
  "parse_metadata header w =
     (let v = Values_Get header ''Anthropic-Version'';
          m1 = (if v \<noteq> '''' then AList.update ''anthropic_version'' v (wqMetadata w) else wqMetadata w);
          beta = Join '','' (case map_of header ''Anthropic-Beta'' of None \<Rightarrow> [] | Some vs \<Rightarrow> vs);
          m2 = (if beta \<noteq> '''' then AList.update ''anthropic_beta'' beta m1 else m1)
      in case wqThinking w of
           Some th \<Rightarrow> if wkType th \<noteq> '''' then AList.update ''anthropic_thinking_type'' (wkType th) m2 else m2
         | None \<Rightarrow> m2)"

definition request_of :: "go_error \<Rightarrow> (string, string list) gomap \<Rightarrow> wireRequest \<Rightarrow> go_error + Request" where
  "request_of de header w =
     (case parse_raw de (wqSystem w) of
        Inl e \<Rightarrow> Inl e
      | Inr sys \<Rightarrow>
          (case parse_messages de (wqMessages w) of
             Inl e \<Rightarrow> Inl e
           | Inr msgs \<Rightarrow>
               (case parse_tools de (wqTools w) of
                  Inl e \<Rightarrow> Inl e
                | Inr tools \<Rightarrow>
                    Inr \<lparr>reqModel = wqModel w, reqSystem = sys, reqMessages = msgs, reqTools = tools,
                      reqToolChoice = map_option parse_choice (wqToolChoice w),
                      reqParallelToolCalls = (case wqToolChoice w of
                          None \<Rightarrow> None | Some c \<Rightarrow> map_option Not (wcDisableParallel c)),
                      reqMaxTokens = wqMaxTokens w, reqTemperature = wqTemperature w, reqTopP = wqTopP w,
                      reqTopK = wqTopK w, reqStopSequences = wqStopSequences w, reqStream = wqStream w,
                      reqReasoning = parse_reasoning w, reqResponseFormat = parse_format w, reqSafety = [],
                      reqMetadata = parse_metadata header w, reqExtra = [], reqWarnings = []\<rparr>)))"

text \<open>What the inbound body stream yields: bytes, then its end or an error. One byte past the cap is read, so that a body of
  exactly the cap passes.\<close>

definition ReadCappedBody :: "string \<times> go_error option \<Rightarrow> nat \<Rightarrow> go_error + string" where
  "ReadCappedBody stream maxBody =
     (case stream of (bytes, err) \<Rightarrow>
        if length bytes > maxBody then
          Inl (of_ir_error (mk_error ErrPayloadTooLarge (''request body exceeds '' @ Itoa maxBody @ '' bytes'')))
        else case err of Some e \<Rightarrow> Inl e | None \<Rightarrow> Inr bytes)"

definition ParseRequest ::
    "(string \<Rightarrow> json option) \<Rightarrow> (json \<Rightarrow> bool) \<Rightarrow> go_error \<Rightarrow> (string, string list) gomap \<Rightarrow> string \<times> go_error option \<Rightarrow> nat \<Rightarrow>
     go_error + (Request \<times> Passthrough)" where
  "ParseRequest unmarshal fin de header stream maxBody =
     (case ReadCappedBody stream maxBody of
        Inl e \<Rightarrow> Inl e
      | Inr body \<Rightarrow>
          (case Option.bind (unmarshal body) (\<lambda>j. dec_request fin j zero_request) of
             None \<Rightarrow> Inl (wrap_error ''invalid JSON body'' de)
           | Some w \<Rightarrow>
               (case request_of de header w of
                  Inl e \<Rightarrow> Inl e
                | Inr req \<Rightarrow>
                    Inr (req, \<lparr>ptBody = body, ptModelField = ''model'', ptSurface = SurfaceLLM, ptMethod = '''', ptQuery = [],
                      ptStream = reqStream req\<rparr>))))"

section \<open>The proxy credential\<close>

definition ProxyToken :: "(string, string list) gomap \<Rightarrow> string" where
  "ProxyToken header =
     (let k = TrimSpace (Values_Get header ''X-Api-Key'') in
      if k \<noteq> '''' then k
      else case Cut (CHR '' '') (Values_Get header ''Authorization'') of
        None \<Rightarrow> ''''
      | Some (scheme, token) \<Rightarrow> if ToLower scheme \<noteq> ''bearer'' then '''' else TrimSpace token)"

section \<open>Reading back what the adapter sends\<close>

lemma request_keys [json_keys]:
  "ToLower ''cache_control'' = ''cache_control''" "ToLower ''ttl'' = ''ttl''" "ToLower ''source'' = ''source''"
  "ToLower ''media_type'' = ''media_type''" "ToLower ''url'' = ''url''" "ToLower ''file_id'' = ''file_id''"
  "ToLower ''tool_use_id'' = ''tool_use_id''" "ToLower ''is_error'' = ''is_error''"
  by code_simp+

lemma marker_first:
  "''cache_control'' < ''text''" "''cache_control'' < ''signature''" "''cache_control'' < ''data''" "''cache_control'' < ''source''"
  "''cache_control'' < ''id''" "''cache_control'' < ''content''"
  by code_simp+

text \<open>Content in the form a client of Anthropic's sends it: one source for a file, a document that is PDF or UTF-8 text, a
  signature on thinking, an input for a call.\<close>

definition client_media :: "bool \<Rightarrow> Media \<Rightarrow> bool" where
  "client_media document m =
     (if FileID m \<noteq> '''' then Data m = '''' \<and> URL m = '''' \<and> MIME m = ''''
      else if URL m \<noteq> '''' then Data m = '''' \<and> MIME m = ''''
      else Data m \<noteq> '''' \<and>
        (document \<longrightarrow> MIME m = ''application/pdf'' \<or>
          (MIME m = ''text/plain'' \<and>
           (case DecodeString (Data m) of None \<Rightarrow> False | Some s \<Rightarrow> EncodeToString s = Data m \<and> utf8_Valid s))))"

fun client_block :: "ContentBlock \<Rightarrow> bool" where
  "client_block (ContentBlock t s m th tu tr cc ex) =
     (ex = [] \<and> (case cc of None \<Rightarrow> True | Some c \<Rightarrow> ccType c \<noteq> '''') \<and>
      (case t of
         BlockText \<Rightarrow> m = None \<and> th = None \<and> tu = None \<and> tr = None
       | BlockThinking \<Rightarrow> s = '''' \<and> m = None \<and> tu = None \<and> tr = None \<and>
           (case th of None \<Rightarrow> False | Some k \<Rightarrow> thSignature k \<noteq> '''' \<and> thData k = '''')
       | BlockRedactedThinking \<Rightarrow> s = '''' \<and> m = None \<and> tu = None \<and> tr = None \<and>
           (case th of None \<Rightarrow> False | Some k \<Rightarrow> thText k = '''' \<and> thSignature k = '''')
       | BlockImage \<Rightarrow> s = '''' \<and> th = None \<and> tu = None \<and> tr = None \<and> (case m of None \<Rightarrow> False | Some md \<Rightarrow> client_media False md)
       | BlockDocument \<Rightarrow> s = '''' \<and> th = None \<and> tu = None \<and> tr = None \<and> (case m of None \<Rightarrow> False | Some md \<Rightarrow> client_media True md)
       | BlockToolUse \<Rightarrow> s = '''' \<and> m = None \<and> th = None \<and> tr = None \<and>
           (case tu of None \<Rightarrow> False | Some u \<Rightarrow> tuInput u \<noteq> None \<and> tuSignature u = '''')
       | BlockToolResult \<Rightarrow> s = '''' \<and> m = None \<and> th = None \<and> tu = None \<and>
           (case tr of None \<Rightarrow> False | Some (ToolResult tid content e) \<Rightarrow> list_all client_block content)
       | _ \<Rightarrow> False))"

definition parse_of :: "go_error \<Rightarrow> contentBlock \<Rightarrow> go_error + ContentBlock option" where
  "parse_of de w = parseBlock (case cqContent w of None \<Rightarrow> Inr [] | Some c \<Rightarrow> parseContent de c) w"

definition reads_back :: "go_error \<Rightarrow> json \<Rightarrow> ContentBlock \<Rightarrow> bool" where
  "reads_back de j b =
     (\<exists>w b'. dec_content j zero_content = Some w \<and> parse_of de w = Inr (Some b') \<and> with_cache (cqCacheControl w) b' = b)"

lemma gather_back:
  assumes "list_all2 (reads_back de) out bs"
  shows "\<exists>ws. dec_elems zero_content dec_content out [] = Some ws \<and> gather (map (\<lambda>w. (w, parse_of de w)) ws) = Inr bs"
  using assms
proof (induction rule: list_all2_induct)
  case (Cons j js b bs)
  then obtain w b' ws where "dec_content j zero_content = Some w" "parse_of de w = Inr (Some b')" "with_cache (cqCacheControl w) b' = b"
    "dec_elems zero_content dec_content js [] = Some ws" "gather (map (\<lambda>w. (w, parse_of de w)) ws) = Inr bs"
    by (auto simp: reads_back_def)
  then show ?case by (intro exI[of _ "w # ws"]) simp
qed simp

lemma slice_back: "list_all2 (reads_back de) out bs \<Longrightarrow> parseContent de (jslice out) = Inr bs"
  using gather_back[of de out bs] by (cases out) (auto simp: jslice_def parse_of_def)

definition marker :: "CacheControl option \<Rightarrow> members" where
  "marker cc = (case cc of None \<Rightarrow> [] | Some c \<Rightarrow> [(''cache_control'', cacheControl c)])"

lemma marked_plain:
  assumes "marked cc ((k, v) # ms) cb = (m1, [], cb1)" "''cache_control'' < k"
  shows "m1 = marker cc @ (k, v) # ms"
  using assms by (auto simp: marker_def marked_def split: option.splits prod.splits if_splits bool.splits)

lemma cache_back: "ccType c \<noteq> '''' \<Longrightarrow> dec_ptr \<lparr>ccType = '''', ccTTL = ''''\<rparr> dec_cache (cacheControl c) None = Some (Some c)"
  by (cases c) (simp add: cacheControl_def dec_cache_def json_keys Let_def)

text \<open>Decoding an optional marker and then the members of a block.\<close>

lemma dec_marker:
  assumes "case cc of None \<Rightarrow> True | Some c \<Rightarrow> ccType c \<noteq> ''''"
  shows "dec_members content_member (marker cc @ ms) zero_content =
    dec_members content_member ms (zero_content\<lparr>cqCacheControl := cc\<rparr>)"
proof (cases cc)
  case None
  then show ?thesis by (simp add: zero_content_def marker_def)
next
  case (Some c)
  have "content_member ''cache_control'' (cacheControl c) zero_content = Some (zero_content\<lparr>cqCacheControl := Some c\<rparr>)"
    using assms Some cache_back[of c] by (simp add: content_member_def) (simp add: zero_content_def)
  then show ?thesis by (simp add: Some json_keys marker_def)
qed

definition source_back :: "json \<Rightarrow> Media \<Rightarrow> bool" where
  "source_back src md = (\<exists>ws. dec_ptr zero_source dec_source src None = Some (Some ws) \<and> sourceToMedia (Some ws) = Some md)"

lemma source_forms:
  "source_back (JObj [(''file_id'', JStr i), (''type'', JStr ''file'')]) \<lparr>MIME = '''', Data = '''', URL = '''', FileID = i\<rparr>"
  "source_back (JObj [(''type'', JStr ''url''), (''url'', JStr u)]) \<lparr>MIME = '''', Data = '''', URL = u, FileID = ''''\<rparr>"
  "source_back (JObj [(''data'', JStr d), (''media_type'', JStr mt), (''type'', JStr ''base64'')]) \<lparr>MIME = mt, Data = d, URL = '''', FileID = ''''\<rparr>"
  "source_back (JObj [(''data'', JStr d), (''media_type'', JStr mt), (''type'', JStr ''text'')])
     \<lparr>MIME = mt, Data = EncodeToString d, URL = '''', FileID = ''''\<rparr>"
  by (simp_all add: source_back_def dec_source_def zero_source_def json_keys sourceToMedia_def)

lemma media_back:
  assumes "client_media False md"
  shows "\<exists>src. mediaSource (Some md) fld = (Some src, []) \<and> source_back src md"
  using assms source_forms by (cases md) (auto simp: client_media_def mediaSource_def split: if_splits)

lemma mime_forms: "ToLower (TrimSpace ''application/pdf'') = ''application/pdf''" "ToLower (TrimSpace ''text/plain'') = ''text/plain''"
    "HasPrefix ''text/plain'' ''text/''"
  by code_simp+

lemma document_back:
  assumes "client_media True md"
  shows "\<exists>src. documentSource (Some md) = (Some src, []) \<and> source_back src md"
proof (cases "Data md = '''' \<or> FileID md \<noteq> ''''")
  case True
  then show ?thesis using assms media_back[of md "''document''"]
    by (auto simp: documentSource_def client_media_def split: if_splits)
next
  case False
  then have d: "Data md \<noteq> ''''" "FileID md = ''''" "URL md = ''''" using assms by (auto simp: client_media_def split: if_splits)
  obtain mt dt where md: "md = \<lparr>MIME = mt, Data = dt, URL = '''', FileID = ''''\<rparr>" using d by (cases md) simp
  consider "mt = ''application/pdf''" | s where "mt = ''text/plain''" "DecodeString dt = Some s" "EncodeToString s = dt" "utf8_Valid s"
    using assms d by (auto simp: client_media_def md split: option.splits)
  then show ?thesis
  proof cases
    case 1
    then show ?thesis using d source_forms(3)[of dt mt] by (simp add: documentSource_def md Let_def mime_forms)
  next
    case 2
    then show ?thesis using d source_forms(4)[of s mt] by (simp add: documentSource_def md Let_def mime_forms)
  qed
qed

lemma reads_backI:
  assumes "case cc of None \<Rightarrow> True | Some c \<Rightarrow> ccType c \<noteq> ''''"
    and "case dec_members content_member ms (zero_content\<lparr>cqCacheControl := cc\<rparr>) of
        None \<Rightarrow> False
      | Some w \<Rightarrow> (case parse_of de w of Inr (Some b') \<Rightarrow> with_cache (cqCacheControl w) b' = b | _ \<Rightarrow> False)"
  shows "reads_back de (JObj (marker cc @ ms)) b"
  using assms(2) by (auto simp: reads_back_def dec_content_def dec_marker[OF assms(1)] split: option.splits sum.splits)

lemma leaf_forms:
  assumes cc: "case cc of None \<Rightarrow> True | Some c \<Rightarrow> ccType c \<noteq> ''''"
  shows "reads_back de (JObj (marker cc @ [(''text'', JStr s), (''type'', JStr ''text'')])) (ContentBlock BlockText s None None None None cc [])"
    and "reads_back de (JObj (marker cc @ [(''signature'', JStr sg), (''thinking'', JStr s), (''type'', JStr ''thinking'')]))
      (ContentBlock BlockThinking '''' None (Some \<lparr>thText = s, thSignature = sg, thData = ''''\<rparr>) None None cc [])"
    and "reads_back de (JObj (marker cc @ [(''data'', JStr d), (''type'', JStr ''redacted_thinking'')]))
      (ContentBlock BlockRedactedThinking '''' None (Some \<lparr>thText = '''', thSignature = '''', thData = d\<rparr>) None None cc [])"
    and "source_back src md \<Longrightarrow> reads_back de (JObj (marker cc @ [(''source'', src), (''type'', JStr ''image'')]))
      (ContentBlock BlockImage '''' (Some md) None None None cc [])"
    and "source_back src md \<Longrightarrow> reads_back de (JObj (marker cc @ [(''source'', src), (''type'', JStr ''document'')]))
      (ContentBlock BlockDocument '''' (Some md) None None None cc [])"
    and "reads_back de (JObj (marker cc @ [(''id'', JStr i), (''input'', inp), (''name'', JStr n), (''type'', JStr ''tool_use'')]))
      (ContentBlock BlockToolUse '''' None None (Some \<lparr>tuID = i, tuName = n, tuInput = Some inp, tuSignature = ''''\<rparr>) None cc [])"
proof -
  note eval = content_member_def json_keys zero_content_def parse_of_def parseBlock_def text_block_def
  show "reads_back de (JObj (marker cc @ [(''text'', JStr s), (''type'', JStr ''text'')])) (ContentBlock BlockText s None None None None cc [])"
    by (rule reads_backI[OF cc]) (simp add: eval)
  show "reads_back de (JObj (marker cc @ [(''signature'', JStr sg), (''thinking'', JStr s), (''type'', JStr ''thinking'')]))
      (ContentBlock BlockThinking '''' None (Some \<lparr>thText = s, thSignature = sg, thData = ''''\<rparr>) None None cc [])"
    by (rule reads_backI[OF cc]) (simp add: eval)
  show "reads_back de (JObj (marker cc @ [(''data'', JStr d), (''type'', JStr ''redacted_thinking'')]))
      (ContentBlock BlockRedactedThinking '''' None (Some \<lparr>thText = '''', thSignature = '''', thData = d\<rparr>) None None cc [])"
    by (rule reads_backI[OF cc]) (simp add: eval)
  show "source_back src md \<Longrightarrow> reads_back de (JObj (marker cc @ [(''source'', src), (''type'', JStr ''image'')]))
      (ContentBlock BlockImage '''' (Some md) None None None cc [])"
    by (rule reads_backI[OF cc]) (auto simp: eval source_back_def)
  show "source_back src md \<Longrightarrow> reads_back de (JObj (marker cc @ [(''source'', src), (''type'', JStr ''document'')]))
      (ContentBlock BlockDocument '''' (Some md) None None None cc [])"
    by (rule reads_backI[OF cc]) (auto simp: eval source_back_def)
  show "reads_back de (JObj (marker cc @ [(''id'', JStr i), (''input'', inp), (''name'', JStr n), (''type'', JStr ''tool_use'')]))
      (ContentBlock BlockToolUse '''' None None (Some \<lparr>tuID = i, tuName = n, tuInput = Some inp, tuSignature = ''''\<rparr>) None cc [])"
    by (rule reads_backI[OF cc]) (simp add: eval)
qed

lemma result_form:
  assumes cc: "case cc of None \<Rightarrow> True | Some c \<Rightarrow> ccType c \<noteq> ''''" and "parseContent de (jslice inner) = Inr content"
  shows "reads_back de (JObj (marker cc @ result_members tid inner e))
    (ContentBlock BlockToolResult '''' None None None (Some (ToolResult tid content e)) cc [])"
  by (rule reads_backI[OF cc])
    (use assms(2) in \<open>auto simp: result_members_def content_member_def json_keys zero_content_def parse_of_def parseBlock_def\<close>)

lemma leaf_back:
  assumes "client_block b" "cbType b \<noteq> BlockToolResult" "render_leaf b = (r, [])"
  shows "\<exists>k v ms. r = Some ((k, v) # ms) \<and> ''cache_control'' < k \<and> reads_back de (JObj (marker (cbCacheControl b) @ (k, v) # ms)) b"
proof (cases b)
  case (ContentBlock t s m th tu tr cc ex)
  have cc: "case cc of None \<Rightarrow> True | Some c \<Rightarrow> ccType c \<noteq> ''''" and ex: "ex = []" using assms(1) by (auto simp: ContentBlock)
  note forms = leaf_forms[OF cc, where de = de]
  show ?thesis
  proof (cases t)
    case BlockText
    then show ?thesis using assms ex forms(1) marker_first by (auto simp: ContentBlock)
  next
    case BlockThinking
    then obtain x y where "th = Some \<lparr>thText = x, thSignature = y, thData = ''''\<rparr>" "y \<noteq> ''''"
      using assms(1) by (cases th; cases "the th") (auto simp: ContentBlock)
    then show ?thesis using assms ex forms(2) marker_first BlockThinking by (auto simp: ContentBlock)
  next
    case BlockRedactedThinking
    then obtain d where "th = Some \<lparr>thText = '''', thSignature = '''', thData = d\<rparr>"
      using assms(1) by (cases th; cases "the th") (auto simp: ContentBlock)
    then show ?thesis using assms ex forms(3) marker_first BlockRedactedThinking by (auto simp: ContentBlock)
  next
    case BlockImage
    then obtain md where md: "m = Some md" "client_media False md" using assms(1) by (auto simp: ContentBlock split: option.splits)
    obtain src where src: "mediaSource (Some md) ''image'' = (Some src, [])" "source_back src md" using media_back[OF md(2)] by blast
    then show ?thesis using assms ex BlockImage md forms(4)[OF src(2)] marker_first by (auto simp: ContentBlock sourced_def)
  next
    case BlockDocument
    then obtain md where md: "m = Some md" "client_media True md" using assms(1) by (auto simp: ContentBlock split: option.splits)
    obtain src where src: "documentSource (Some md) = (Some src, [])" "source_back src md" using document_back[OF md(2)] by blast
    then show ?thesis using assms ex BlockDocument md forms(5)[OF src(2)] marker_first by (auto simp: ContentBlock sourced_def)
  next
    case BlockToolUse
    then obtain i n inp where "tu = Some \<lparr>tuID = i, tuName = n, tuInput = Some inp, tuSignature = ''''\<rparr>"
      using assms(1) by (cases tu; cases "the tu") (auto simp: ContentBlock)
    then show ?thesis using assms ex forms(6) marker_first BlockToolUse by (auto simp: ContentBlock)
  qed (use assms in \<open>auto simp: ContentBlock\<close>)
qed

lemma renderBlock_leaf: "cbType b \<noteq> BlockToolResult \<Longrightarrow> renderBlock b cb = (case render_leaf b of (r, w) \<Rightarrow> (r, w, cb))"
proof (cases b)
  case (ContentBlock t s m th tu tr cc ex)
  then show "cbType b \<noteq> BlockToolResult \<Longrightarrow> ?thesis" by (cases t) simp_all
qed

lemma client_result: "client_block b \<Longrightarrow> cbToolResult b = None \<Longrightarrow> cbType b \<noteq> BlockToolResult"
  by (cases b) auto

lemma other_back:
  "renderBlock b cb = (r, [], cb1) \<Longrightarrow> client_block b \<Longrightarrow> cbType b \<noteq> BlockToolResult \<Longrightarrow>
     \<exists>k v ms. r = Some ((k, v) # ms) \<and> ''cache_control'' < k \<and> reads_back de (JObj (marker (cbCacheControl b) @ (k, v) # ms)) b"
  using leaf_back[of b r de] by (simp add: renderBlock_leaf split: prod.splits)

lemma blocks_back:
  "renderBlocks bs cb = (out, [], cb1) \<Longrightarrow> list_all client_block bs \<Longrightarrow> list_all2 (reads_back de) out bs"
  "renderBlock b cb = (r, [], cb1) \<Longrightarrow> client_block b \<Longrightarrow>
     \<exists>k v ms. r = Some ((k, v) # ms) \<and> ''cache_control'' < k \<and> reads_back de (JObj (marker (cbCacheControl b) @ (k, v) # ms)) b"
proof (induction bs cb and b cb arbitrary: out cb1 and r cb1 rule: renderBlocks_renderBlock.induct)
  case (2 b bs cb)
  obtain r w cb2 where b: "renderBlock b cb = (r, w, cb2)" by (cases "renderBlock b cb")
  have "w = []" using 2(4) b by (auto split: option.splits prod.splits)
  with b have b': "renderBlock b cb = (r, [], cb2)" by simp
  from 2(1)[OF b'] 2(5) obtain k v ms where r: "r = Some ((k, v) # ms)" "''cache_control'' < k"
    "reads_back de (JObj (marker (cbCacheControl b) @ (k, v) # ms)) b" by auto
  obtain m1 w1 cb3 where m: "marked (cbCacheControl b) ((k, v) # ms) cb2 = (m1, w1, cb3)" by (cases "marked (cbCacheControl b) ((k, v) # ms) cb2")
  obtain out' ws' cb4 where bs: "renderBlocks bs cb3 = (out', ws', cb4)" by (cases "renderBlocks bs cb3")
  have e: "w1 = []" "ws' = []" "out = JObj m1 # out'" using 2(4) b' r(1) m bs by auto
  have "m1 = marker (cbCacheControl b) @ (k, v) # ms" using marked_plain[of "cbCacheControl b" k v ms cb2 m1 cb3] m e(1) r(2) by simp
  moreover have "list_all2 (reads_back de) out' bs"
    using 2(3)[OF b'[symmetric] refl r(1) m[symmetric] refl, of out' cb4] bs e(2) 2(5) by simp
  ultimately show ?case using r(3) e(3) by simp
next
  case (3 x m th tu tid content e cc ex cb)
  obtain inner w' cb2 where c: "renderBlocks content cb = (inner, w', cb2)" by (cases "renderBlocks content cb")
  with 3(2) have r: "r = Some (result_members tid inner e)" "w' = []" by auto
  have shape: "x = ''''" "m = None" "th = None" "tu = None" "ex = []" "case cc of None \<Rightarrow> True | Some c \<Rightarrow> ccType c \<noteq> ''''"
    "list_all client_block content" using 3(3) by auto
  have "list_all2 (reads_back de) inner content" using 3(1) c r(2) shape(7) by simp
  from result_form[OF shape(6) slice_back[OF this]] show ?case
    using marker_first(6) by (simp add: r(1) shape(1-5) result_members_def)
qed ((simp; fail) | (rule other_back, assumption, assumption, rule client_result, assumption, (simp; fail)) |
  (rule other_back, assumption, assumption, (simp; fail)))+

text \<open>The turns a client of Anthropic's sends: user and assistant in turn, none empty.\<close>

fun alternating :: "Message list \<Rightarrow> bool" where
  "alternating [] = True"
| "alternating [m] = True"
| "alternating (a # b # ms) = (msgRole a \<noteq> msgRole b \<and> alternating (b # ms))"

definition client_turns :: "Message list \<Rightarrow> bool" where
  "client_turns ms = (alternating ms \<and>
     list_all (\<lambda>m. msgRole m \<in> {RoleUser, RoleAssistant} \<and> msgContent m \<noteq> [] \<and> list_all client_block (msgContent m)) ms)"

definition zero_turn :: wireTurn where "zero_turn = \<lparr>wmRole = '''', wmContent = None\<rparr>"

lemma turn_back:
  assumes "list_all2 (reads_back de) blocks (msgContent m)" "msgRole m \<in> {RoleUser, RoleAssistant}" "blocks \<noteq> []"
  shows "\<exists>w. dec_wireTurn (message_turn (wire_role (msgRole m)) blocks) zero_turn = Some w \<and>
    parse_messages de (w # ws) = (case parse_messages de ws of Inl e \<Rightarrow> Inl e | Inr rest \<Rightarrow> Inr (m # rest))"
proof -
  have "parseContent de (JArr blocks) = Inr (msgContent m)" using slice_back[OF assms(1)] assms(3) by (simp add: jslice_def)
  then show ?thesis using assms(2)
    by (cases m) (auto simp: dec_wireTurn_def message_turn_def zero_turn_def json_keys wire_role_def parse_raw_def
        simp del: parseContent.simps split: sum.split)
qed

lemma turns_back:
  "render_turns ms cur content cb = (out, [], cb1) \<Longrightarrow> client_turns ms \<Longrightarrow> cur = '''' \<or> ms = [] \<or> cur \<noteq> wire_role (msgRole (hd ms)) \<Longrightarrow>
   \<exists>js ws. out = close_turn cur content @ js \<and> dec_elems zero_turn dec_wireTurn js [] = Some ws \<and> parse_messages de ws = Inr ms"
proof (induction ms arbitrary: cur content cb out cb1)
  case (Cons m ms)
  obtain blocks w cb2 where b: "renderBlocks (msgContent m) cb = (blocks, w, cb2)" by (cases "renderBlocks (msgContent m) cb")
  have cm: "msgRole m \<in> {RoleUser, RoleAssistant}" "msgContent m \<noteq> []" "list_all client_block (msgContent m)" "client_turns ms"
    using Cons.prems(2) by (cases ms; auto simp: client_turns_def)+
  have w: "w = []" using Cons.prems(1) b by (auto simp: Let_def split: prod.splits if_splits)
  with b blocks_back(1)[of "msgContent m" cb blocks cb2 de] cm(3) have bk: "list_all2 (reads_back de) blocks (msgContent m)" by simp
  have ne: "blocks \<noteq> []" using bk cm(2) by (cases "msgContent m") auto
  have cur: "wire_role (msgRole m) \<noteq> cur" using Cons.prems(3) wire_role_set[of "msgRole m"] by auto
  obtain out' where r: "render_turns ms (wire_role (msgRole m)) blocks cb2 = (out', [], cb1)" "out = close_turn cur content @ out'"
    using Cons.prems(1) b w ne cur by (auto simp: Let_def split: prod.splits)
  have "ms = [] \<or> wire_role (msgRole m) \<noteq> wire_role (msgRole (hd ms))"
    using Cons.prems(2) by (cases ms) (auto simp: client_turns_def wire_role_def)
  with Cons.IH[OF r(1) cm(4)] obtain js ws where ih: "out' = close_turn (wire_role (msgRole m)) blocks @ js"
    "dec_elems zero_turn dec_wireTurn js [] = Some ws" "parse_messages de ws = Inr ms" by blast
  obtain w' where w': "dec_wireTurn (message_turn (wire_role (msgRole m)) blocks) zero_turn = Some w'"
    "parse_messages de (w' # ws) = (case parse_messages de ws of Inl e \<Rightarrow> Inl e | Inr rest \<Rightarrow> Inr (m # rest))"
    using turn_back[OF bk cm(1) ne] by blast
  show ?case
  proof (intro exI conjI)
    show "out = close_turn cur content @ message_turn (wire_role (msgRole m)) blocks # js" by (simp add: r(2) ih(1) close_turn_def)
    show "dec_elems zero_turn dec_wireTurn (message_turn (wire_role (msgRole m)) blocks # js) [] = Some (w' # ws)" by (simp add: w'(1) ih(2))
    show "parse_messages de (w' # ws) = Inr (m # ms)" using w'(2) ih(3) by simp
  qed
qed simp

text \<open>C12. A conversation an Anthropic client can send, rendered for Anthropic without a warning, is read back turn for turn
  and block for block: text, signed thinking, images and documents, calls and their results, error flags and cache
  markers.\<close>

theorem anthropic_turns_round_trip:
  assumes "renderMessages req cb False = (out, [], cb1)" "client_turns (reqMessages req)"
  shows "\<exists>ws. dec_slice zero_turn dec_wireTurn (jslice out) [] = Some ws \<and> parse_messages de ws = Inr (reqMessages req)"
proof -
  have "NonSystemMessages (reqMessages req) = reqMessages req"
    using assms(2) by (auto simp: NonSystemMessages_def client_turns_def list_all_iff filter_id_conv)
  then have "render_turns (reqMessages req) '''' [] cb = (out, [], cb1)" using assms(1) by (simp add: renderMessages_def)
  from turns_back[OF this assms(2), of de] obtain ws where
    "dec_elems zero_turn dec_wireTurn out [] = Some ws" "parse_messages de ws = Inr (reqMessages req)"
    by (auto simp: close_turn_def)
  then show ?thesis by (cases out) (auto simp: jslice_def)
qed

definition plain_block :: "BlockType \<Rightarrow> Thinking option \<Rightarrow> ToolUse option \<Rightarrow> ToolResult option \<Rightarrow> ContentBlock" where
  "plain_block t th tu tr = ContentBlock t [] None th tu tr None []"

definition demo_turns :: "Message list" where
  "demo_turns =
     [\<lparr>msgRole = RoleUser, msgContent = [ContentBlock BlockText ''hi'' None None None None (Some \<lparr>ccType = ''ephemeral'', ccTTL = ''1h''\<rparr>) [],
        ContentBlock BlockDocument [] (Some \<lparr>MIME = ''text/plain'', Data = ''aGk='', URL = [], FileID = []\<rparr>) None None None None []]\<rparr>,
      \<lparr>msgRole = RoleAssistant, msgContent =
        [plain_block BlockThinking (Some \<lparr>thText = ''t'', thSignature = ''sig'', thData = []\<rparr>) None None,
         plain_block BlockToolUse None (Some \<lparr>tuID = ''c1'', tuName = ''f'', tuInput = Some (JObj []), tuSignature = []\<rparr>) None]\<rparr>,
      \<lparr>msgRole = RoleUser, msgContent = [plain_block BlockToolResult None None (Some (ToolResult ''c1'' [text_block ''r''] True))]\<rparr>]"

lemma anthropic_turns_round_trip_witness:
  "client_turns demo_turns \<and>
   (\<exists>ws. dec_slice zero_turn dec_wireTurn (jslice (fst (renderMessages (demo_req demo_turns) 0 False))) [] = Some ws \<and>
     parse_messages (plain_error []) ws = Inr demo_turns)"
proof -
  have c: "client_turns demo_turns" by code_simp
  have w: "fst (snd (renderMessages (demo_req demo_turns) 0 False)) = []" by code_simp
  obtain out ws cb where r: "renderMessages (demo_req demo_turns) 0 False = (out, ws, cb)" by (cases "renderMessages (demo_req demo_turns) 0 False")
  with w have "renderMessages (demo_req demo_turns) 0 False = (out, [], cb)" by simp
  from anthropic_turns_round_trip[OF this, of "plain_error []"] c r show ?thesis by (simp add: demo_req_def)
qed

end
