(* ===== verification/OpenAI_Request.thy ===== *)
theory OpenAI_Request
  imports Anthropic_Request OpenAI_Writer
begin

text \<open>
  The OpenAI chat dialect's request side, \<^verbatim>\<open>internal/edge/openai/parse.go\<close>, \<^verbatim>\<open>datauri.go\<close> and \<^verbatim>\<open>dialect.go\<close>: data URIs, the wire
  request and its decoding, content parts, the ids of legacy function calls, which later results are matched with, and
  the canonical request.

  Arguments: \<open>unmarshal\<close> and \<open>de\<close>, the JSON reader and its error; \<open>fin\<close>, whether a number fits a \<^verbatim>\<open>float64\<close>; \<open>raw_of\<close>, the
  message made of the text of a call's arguments, which nothing checks; \<open>type_by_ext\<close>, the host's MIME table.
\<close>

section \<open>Data URIs\<close>

definition isHex :: "char \<Rightarrow> bool" where
  "isHex c = (CHR ''0'' \<le> c \<and> c \<le> CHR ''9'' \<or> CHR ''a'' \<le> c \<and> c \<le> CHR ''f'' \<or> CHR ''A'' \<le> c \<and> c \<le> CHR ''F'')"

definition unhex :: "char \<Rightarrow> nat" where
  "unhex c =
     (if CHR ''a'' \<le> c then of_char c - of_char CHR ''a'' + 10
      else if CHR ''A'' \<le> c then of_char c - of_char CHR ''A'' + 10
      else of_char c - of_char CHR ''0'')"

fun percentDecode :: "string \<Rightarrow> string" where
  "percentDecode (c # x # y # rest) =
     (if c = CHR ''%'' \<and> isHex x \<and> isHex y then char_of (unhex x * 16 + unhex y) # percentDecode rest
      else c # percentDecode (x # y # rest))"
| "percentDecode s = s"

definition dataURIParts :: "string \<Rightarrow> string \<Rightarrow> string \<times> string" where
  "dataURIParts head payload =
     (let params = Split (CHR '';'') head;
          mime0 = TrimSpace (hd params);
          mime = (if mime0 = '''' then ''text/plain'' else mime0) in
      if ToLower (last params) = ''base64'' \<and> length params > 1 then (mime, payload)
      else (mime, EncodeToString (percentDecode payload)))"

definition splitDataURI :: "string \<Rightarrow> string \<times> string" where
  "splitDataURI s =
     (if \<not> HasPrefix s ''data:'' then ('''', s)
      else case Cut (CHR '','') (drop 5 s) of
        None \<Rightarrow> ('''', s)
      | Some (head, payload) \<Rightarrow> dataURIParts head payload)"

definition documentTypes :: "(string \<times> string) list" where
  "documentTypes =
     [(''.pdf'', ''application/pdf''), (''.txt'', ''text/plain''), (''.md'', ''text/markdown''), (''.markdown'', ''text/markdown''),
      (''.csv'', ''text/csv''), (''.html'', ''text/html''), (''.htm'', ''text/html''), (''.doc'', ''application/msword''),
      (''.docx'', ''application/vnd.openxmlformats-officedocument.wordprocessingml.document''),
      (''.xls'', ''application/vnd.ms-excel''),
      (''.xlsx'', ''application/vnd.openxmlformats-officedocument.spreadsheetml.sheet'')]"

text \<open>\<^verbatim>\<open>filepath.Ext\<close>: from the last dot of the last path element on.\<close>

definition Ext :: "string \<Rightarrow> string" where
  "Ext path =
     (let base = takeWhile (\<lambda>c. c \<noteq> CHR ''/'') (rev path); suffix = takeWhile (\<lambda>c. c \<noteq> CHR ''.'') base in
      if CHR ''.'' \<in> set base then CHR ''.'' # rev suffix else '''')"

definition fileMedia :: "(string \<Rightarrow> string) \<Rightarrow> string \<Rightarrow> string \<Rightarrow> string \<times> string" where
  "fileMedia type_by_ext fileData filename =
     (case splitDataURI fileData of (mime, dt) \<Rightarrow>
        if mime = '''' \<and> filename \<noteq> '''' then
          let ext = ToLower (Ext filename) in
          (case map_of documentTypes ext of
             Some t \<Rightarrow> (t, dt)
           | None \<Rightarrow> (case Cut (CHR '';'') (type_by_ext ext) of Some (before, _) \<Rightarrow> (before, dt) | None \<Rightarrow> (type_by_ext ext, dt)))
        else (mime, dt))"

section \<open>Wire types\<close>

record wireFunctionCall =
  fcName :: string
  fcArguments :: string

record wireToolCall =
  tkID :: string
  tkFunction :: wireFunctionCall

record openaiMessage =
  qmRole :: string
  qmContent :: "json option"
  qmName :: string
  qmToolCallID :: string
  qmToolCalls :: "wireToolCall list"
  qmReasoningContent :: string
  qmFunctionCall :: "wireFunctionCall option"

record wireFunction =
  qfName :: string
  qfDescription :: string
  qfParameters :: "json option"
  qfStrict :: "bool option"

record wireSchema =
  qsName :: string
  qsSchema :: "json option"
  qsStrict :: "bool option"

record wireResponseFormat =
  qrType :: string
  qrJSONSchema :: "wireSchema option"

record wireImageURL =
  quURL :: string
  quDetail :: string

record wireInputAudio =
  qaData :: string
  qaFormat :: string

record wireFile =
  qiFileID :: string
  qiFileData :: string
  qiFilename :: string

record wirePart =
  qpType :: string
  qpText :: string
  qpImageURL :: "wireImageURL option"
  qpInputAudio :: "wireInputAudio option"
  qpFile :: "wireFile option"

record openaiRequest =
  oqModel :: string
  oqMessages :: "openaiMessage list"
  oqTools :: "wireFunction list"
  oqFunctions :: "wireFunction list"
  oqToolChoice :: "json option"
  oqFunctionCall :: "json option"
  oqMaxTokens :: "int option"
  oqMaxCompletionTokens :: "int option"
  oqTemperature :: "json option"
  oqTopP :: "json option"
  oqStop :: "json option"
  oqStream :: bool
  oqReasoning :: "string option"
  oqResponseFormat :: "wireResponseFormat option"
  oqParallelToolCalls :: "bool option"
  oqMetadata :: "(string, string) gomap"
  oqN :: "int option"

definition extraFields :: "string list" where
  "extraFields = [''seed'', ''logprobs'', ''top_logprobs'', ''frequency_penalty'', ''presence_penalty'', ''logit_bias'', ''user'',
     ''service_tier'', ''prediction'', ''modalities'', ''audio'', ''web_search_options'']"

section \<open>Decoding\<close>

definition zero_call :: wireFunctionCall where "zero_call = \<lparr>fcName = '''', fcArguments = ''''\<rparr>"

definition dec_functionCall :: "json \<Rightarrow> wireFunctionCall \<Rightarrow> wireFunctionCall option" where
  "dec_functionCall = dec_struct (\<lambda>k v s.
     if k = ''name'' then set_field (\<lambda>x s. s\<lparr>fcName := x\<rparr>) (dec_string v (fcName s)) s
     else if k = ''arguments'' then set_field (\<lambda>x s. s\<lparr>fcArguments := x\<rparr>) (dec_string v (fcArguments s)) s
     else Some s)"

definition dec_toolCall :: "json \<Rightarrow> wireToolCall \<Rightarrow> wireToolCall option" where
  "dec_toolCall = dec_struct (\<lambda>k v s.
     if k = ''id'' then set_field (\<lambda>x s. s\<lparr>tkID := x\<rparr>) (dec_string v (tkID s)) s
     else if k = ''function'' then set_field (\<lambda>x s. s\<lparr>tkFunction := x\<rparr>) (dec_functionCall v (tkFunction s)) s
     else Some s)"

definition zero_openai_message :: openaiMessage where
  "zero_openai_message = \<lparr>qmRole = '''', qmContent = None, qmName = '''', qmToolCallID = '''', qmToolCalls = [],
     qmReasoningContent = '''', qmFunctionCall = None\<rparr>"

definition dec_openaiMessage :: "json \<Rightarrow> openaiMessage \<Rightarrow> openaiMessage option" where
  "dec_openaiMessage = dec_struct (\<lambda>k v s.
     if k = ''role'' then set_field (\<lambda>x s. s\<lparr>qmRole := x\<rparr>) (dec_string v (qmRole s)) s
     else if k = ''content'' then Some (s\<lparr>qmContent := Some v\<rparr>)
     else if k = ''name'' then set_field (\<lambda>x s. s\<lparr>qmName := x\<rparr>) (dec_string v (qmName s)) s
     else if k = ''tool_call_id'' then set_field (\<lambda>x s. s\<lparr>qmToolCallID := x\<rparr>) (dec_string v (qmToolCallID s)) s
     else if k = ''tool_calls'' then
       set_field (\<lambda>x s. s\<lparr>qmToolCalls := x\<rparr>) (dec_slice \<lparr>tkID = '''', tkFunction = zero_call\<rparr> dec_toolCall v (qmToolCalls s)) s
     else if k = ''reasoning_content'' then set_field (\<lambda>x s. s\<lparr>qmReasoningContent := x\<rparr>) (dec_string v (qmReasoningContent s)) s
     else if k = ''function_call'' then
       set_field (\<lambda>x s. s\<lparr>qmFunctionCall := x\<rparr>) (dec_ptr zero_call dec_functionCall v (qmFunctionCall s)) s
     else Some s)"

definition zero_function :: wireFunction where
  "zero_function = \<lparr>qfName = '''', qfDescription = '''', qfParameters = None, qfStrict = None\<rparr>"

text \<open>A legacy function has no \<^verbatim>\<open>strict\<close>; a tool's function does.\<close>

definition dec_wireFunction :: "bool \<Rightarrow> json \<Rightarrow> wireFunction \<Rightarrow> wireFunction option" where
  "dec_wireFunction with_strict = dec_struct (\<lambda>k v s.
     if k = ''name'' then set_field (\<lambda>x s. s\<lparr>qfName := x\<rparr>) (dec_string v (qfName s)) s
     else if k = ''description'' then set_field (\<lambda>x s. s\<lparr>qfDescription := x\<rparr>) (dec_string v (qfDescription s)) s
     else if k = ''parameters'' then Some (s\<lparr>qfParameters := Some v\<rparr>)
     else if with_strict \<and> k = ''strict'' then set_field (\<lambda>x s. s\<lparr>qfStrict := x\<rparr>) (dec_ptr False dec_bool v (qfStrict s)) s
     else Some s)"

definition dec_openaiTool :: "json \<Rightarrow> wireFunction \<Rightarrow> wireFunction option" where
  "dec_openaiTool = dec_struct (\<lambda>k v s. if k = ''function'' then dec_wireFunction True v s else Some s)"

definition dec_wireSchema :: "json \<Rightarrow> wireSchema \<Rightarrow> wireSchema option" where
  "dec_wireSchema = dec_struct (\<lambda>k v s.
     if k = ''name'' then set_field (\<lambda>x s. s\<lparr>qsName := x\<rparr>) (dec_string v (qsName s)) s
     else if k = ''schema'' then Some (s\<lparr>qsSchema := Some v\<rparr>)
     else if k = ''strict'' then set_field (\<lambda>x s. s\<lparr>qsStrict := x\<rparr>) (dec_ptr False dec_bool v (qsStrict s)) s
     else Some s)"

definition dec_responseFormat :: "json \<Rightarrow> wireResponseFormat \<Rightarrow> wireResponseFormat option" where
  "dec_responseFormat = dec_struct (\<lambda>k v s.
     if k = ''type'' then set_field (\<lambda>x s. s\<lparr>qrType := x\<rparr>) (dec_string v (qrType s)) s
     else if k = ''json_schema'' then
       set_field (\<lambda>x s. s\<lparr>qrJSONSchema := x\<rparr>)
         (dec_ptr \<lparr>qsName = '''', qsSchema = None, qsStrict = None\<rparr> dec_wireSchema v (qrJSONSchema s)) s
     else Some s)"

definition dec_imageURL :: "json \<Rightarrow> wireImageURL \<Rightarrow> wireImageURL option" where
  "dec_imageURL = dec_struct (\<lambda>k v s.
     if k = ''url'' then set_field (\<lambda>x s. s\<lparr>quURL := x\<rparr>) (dec_string v (quURL s)) s
     else if k = ''detail'' then set_field (\<lambda>x s. s\<lparr>quDetail := x\<rparr>) (dec_string v (quDetail s)) s
     else Some s)"

definition dec_inputAudio :: "json \<Rightarrow> wireInputAudio \<Rightarrow> wireInputAudio option" where
  "dec_inputAudio = dec_struct (\<lambda>k v s.
     if k = ''data'' then set_field (\<lambda>x s. s\<lparr>qaData := x\<rparr>) (dec_string v (qaData s)) s
     else if k = ''format'' then set_field (\<lambda>x s. s\<lparr>qaFormat := x\<rparr>) (dec_string v (qaFormat s)) s
     else Some s)"

definition dec_file :: "json \<Rightarrow> wireFile \<Rightarrow> wireFile option" where
  "dec_file = dec_struct (\<lambda>k v s.
     if k = ''file_id'' then set_field (\<lambda>x s. s\<lparr>qiFileID := x\<rparr>) (dec_string v (qiFileID s)) s
     else if k = ''file_data'' then set_field (\<lambda>x s. s\<lparr>qiFileData := x\<rparr>) (dec_string v (qiFileData s)) s
     else if k = ''filename'' then set_field (\<lambda>x s. s\<lparr>qiFilename := x\<rparr>) (dec_string v (qiFilename s)) s
     else Some s)"

definition zero_part :: wirePart where
  "zero_part = \<lparr>qpType = '''', qpText = '''', qpImageURL = None, qpInputAudio = None, qpFile = None\<rparr>"

definition dec_part :: "json \<Rightarrow> wirePart \<Rightarrow> wirePart option" where
  "dec_part = dec_struct (\<lambda>k v s.
     if k = ''type'' then set_field (\<lambda>x s. s\<lparr>qpType := x\<rparr>) (dec_string v (qpType s)) s
     else if k = ''text'' then set_field (\<lambda>x s. s\<lparr>qpText := x\<rparr>) (dec_string v (qpText s)) s
     else if k = ''image_url'' then
       set_field (\<lambda>x s. s\<lparr>qpImageURL := x\<rparr>) (dec_ptr \<lparr>quURL = '''', quDetail = ''''\<rparr> dec_imageURL v (qpImageURL s)) s
     else if k = ''input_audio'' then
       set_field (\<lambda>x s. s\<lparr>qpInputAudio := x\<rparr>) (dec_ptr \<lparr>qaData = '''', qaFormat = ''''\<rparr> dec_inputAudio v (qpInputAudio s)) s
     else if k = ''file'' then
       set_field (\<lambda>x s. s\<lparr>qpFile := x\<rparr>) (dec_ptr \<lparr>qiFileID = '''', qiFileData = '''', qiFilename = ''''\<rparr> dec_file v (qpFile s)) s
     else Some s)"

definition zero_openai_request :: openaiRequest where
  "zero_openai_request = \<lparr>oqModel = '''', oqMessages = [], oqTools = [], oqFunctions = [], oqToolChoice = None, oqFunctionCall = None,
     oqMaxTokens = None, oqMaxCompletionTokens = None, oqTemperature = None, oqTopP = None, oqStop = None, oqStream = False,
     oqReasoning = None, oqResponseFormat = None, oqParallelToolCalls = None, oqMetadata = [], oqN = None\<rparr>"

definition dec_openaiRequest :: "(json \<Rightarrow> bool) \<Rightarrow> json \<Rightarrow> openaiRequest \<Rightarrow> openaiRequest option" where
  "dec_openaiRequest fin = dec_struct (\<lambda>k v s.
     if k = ''model'' then set_field (\<lambda>x s. s\<lparr>oqModel := x\<rparr>) (dec_string v (oqModel s)) s
     else if k = ''messages'' then
       set_field (\<lambda>x s. s\<lparr>oqMessages := x\<rparr>) (dec_slice zero_openai_message dec_openaiMessage v (oqMessages s)) s
     else if k = ''tools'' then set_field (\<lambda>x s. s\<lparr>oqTools := x\<rparr>) (dec_slice zero_function dec_openaiTool v (oqTools s)) s
     else if k = ''functions'' then
       set_field (\<lambda>x s. s\<lparr>oqFunctions := x\<rparr>) (dec_slice zero_function (dec_wireFunction False) v (oqFunctions s)) s
     else if k = ''tool_choice'' then Some (s\<lparr>oqToolChoice := Some v\<rparr>)
     else if k = ''function_call'' then Some (s\<lparr>oqFunctionCall := Some v\<rparr>)
     else if k = ''max_tokens'' then set_field (\<lambda>x s. s\<lparr>oqMaxTokens := x\<rparr>) (dec_ptr 0 dec_int v (oqMaxTokens s)) s
     else if k = ''max_completion_tokens'' then
       set_field (\<lambda>x s. s\<lparr>oqMaxCompletionTokens := x\<rparr>) (dec_ptr 0 dec_int v (oqMaxCompletionTokens s)) s
     else if k = ''temperature'' then
       set_field (\<lambda>x s. s\<lparr>oqTemperature := x\<rparr>) (dec_ptr (JInt 0) (dec_float fin) v (oqTemperature s)) s
     else if k = ''top_p'' then set_field (\<lambda>x s. s\<lparr>oqTopP := x\<rparr>) (dec_ptr (JInt 0) (dec_float fin) v (oqTopP s)) s
     else if k = ''stop'' then Some (s\<lparr>oqStop := Some v\<rparr>)
     else if k = ''stream'' then set_field (\<lambda>x s. s\<lparr>oqStream := x\<rparr>) (dec_bool v (oqStream s)) s
     else if k = ''reasoning_effort'' then set_field (\<lambda>x s. s\<lparr>oqReasoning := x\<rparr>) (dec_ptr '''' dec_string v (oqReasoning s)) s
     else if k = ''response_format'' then
       set_field (\<lambda>x s. s\<lparr>oqResponseFormat := x\<rparr>)
         (dec_ptr \<lparr>qrType = '''', qrJSONSchema = None\<rparr> dec_responseFormat v (oqResponseFormat s)) s
     else if k = ''parallel_tool_calls'' then
       set_field (\<lambda>x s. s\<lparr>oqParallelToolCalls := x\<rparr>) (dec_ptr False dec_bool v (oqParallelToolCalls s)) s
     else if k = ''metadata'' then set_field (\<lambda>x s. s\<lparr>oqMetadata := x\<rparr>) (dec_string_map v (oqMetadata s)) s
     else if k = ''n'' then set_field (\<lambda>x s. s\<lparr>oqN := x\<rparr>) (dec_ptr 0 dec_int v (oqN s)) s
     else Some s)"

section \<open>Content\<close>

definition ow :: "string \<Rightarrow> string \<Rightarrow> Warning" where
  "ow fld reason = warn ''openai'' fld reason"

definition media_block :: "BlockType \<Rightarrow> Media \<Rightarrow> ContentBlock" where
  "media_block t m = ContentBlock t '''' (Some m) None None None None []"

definition mapRole :: "string \<Rightarrow> Role" where
  "mapRole role =
     (if role = ''system'' \<or> role = ''developer'' then RoleSystem
      else if role = ''assistant'' then RoleAssistant
      else if role = ''tool'' \<or> role = ''function'' then RoleTool
      else RoleUser)"

text \<open>One part: the blocks it becomes, none when it is of no known type or lacks its payload.\<close>

definition parse_part :: "(string \<Rightarrow> string) \<Rightarrow> wirePart \<Rightarrow> ContentBlock list \<times> Warning list" where
  "parse_part type_by_ext p =
     (if qpType p = ''text'' then ([text_block (qpText p)], [])
      else if qpType p = ''image_url'' then
        (case qpImageURL p of
           None \<Rightarrow> ([], [])
         | Some u \<Rightarrow>
             let w = (if quDetail u \<noteq> '''' \<and> quDetail u \<noteq> ''auto''
               then [ow ''messages[].image_url.detail'' ''image detail has no equivalent in the IR; the image is sent at default detail'']
               else [])
             in case splitDataURI (quURL u) of (mime, dt) \<Rightarrow>
                  if dt \<noteq> quURL u then ([media_block BlockImage \<lparr>MIME = mime, Data = dt, URL = '''', FileID = ''''\<rparr>], w)
                  else ([media_block BlockImage \<lparr>MIME = '''', Data = '''', URL = quURL u, FileID = ''''\<rparr>], w))
      else if qpType p = ''input_audio'' then
        (case qpInputAudio p of
           None \<Rightarrow> ([], [])
         | Some a \<Rightarrow> ([media_block BlockAudio \<lparr>MIME = ''audio/'' @ qaFormat a, Data = qaData a, URL = '''', FileID = ''''\<rparr>], []))
      else if qpType p = ''file'' then
        (case qpFile p of
           None \<Rightarrow> ([], [])
         | Some f \<Rightarrow>
             (case fileMedia type_by_ext (qiFileData f) (qiFilename f) of (mime, dt) \<Rightarrow>
                ([media_block BlockDocument \<lparr>MIME = mime, Data = dt, URL = '''', FileID = qiFileID f\<rparr>], [])))
      else ([], []))"

definition oq_parseContent ::
    "(string \<Rightarrow> string) \<Rightarrow> go_error \<Rightarrow> json option \<Rightarrow> go_error + (ContentBlock list \<times> Warning list)" where
  "oq_parseContent type_by_ext de raw =
     (case raw of
        None \<Rightarrow> Inr ([], [])
      | Some JNull \<Rightarrow> Inr ([], [])
      | Some (JStr s) \<Rightarrow> Inr (if s = '''' then [] else [text_block s], [])
      | Some j \<Rightarrow>
          (case dec_slice zero_part dec_part j [] of
             None \<Rightarrow> Inl (wrap_error ''unsupported message content'' de)
           | Some parts \<Rightarrow>
               let rs = map (parse_part type_by_ext) parts in Inr (concat (map fst rs), concat (map snd rs))))"

section \<open>Messages\<close>

definition argumentsOrEmpty :: "(string \<Rightarrow> json) \<Rightarrow> string \<Rightarrow> json" where
  "argumentsOrEmpty raw_of s = (if TrimSpace s = '''' then JObj [] else raw_of s)"

definition use_block :: "string \<Rightarrow> string \<Rightarrow> json \<Rightarrow> ContentBlock" where
  "use_block i name input = ContentBlock BlockToolUse '''' None None
     (Some \<lparr>tuID = i, tuName = name, tuInput = Some input, tuSignature = ''''\<rparr>) None None []"

definition result_block :: "string \<Rightarrow> ContentBlock list \<Rightarrow> ContentBlock" where
  "result_block i content = ContentBlock BlockToolResult '''' None None None (Some (ToolResult i content False)) None []"

text \<open>The calls of a turn. One without an id is given one from its place, and that id joins the ids pending an answer.\<close>

fun parse_calls :: "(string \<Rightarrow> json) \<Rightarrow> nat \<Rightarrow> nat \<Rightarrow> wireToolCall list \<Rightarrow> string list \<Rightarrow> ContentBlock list \<times> string list" where
  "parse_calls raw_of pos i [] pending = ([], pending)"
| "parse_calls raw_of pos i (tc # tcs) pending =
     (let named = (tkID tc \<noteq> '''');
          cid = (if named then tkID tc else SyntheticToolCallID pos i) in
      case parse_calls raw_of pos (Suc i) tcs (if named then pending else pending @ [cid]) of (bs, pending1) \<Rightarrow>
        (use_block cid (fcName (tkFunction tc)) (argumentsOrEmpty raw_of (fcArguments (tkFunction tc))) # bs, pending1))"

definition parse_functionCall ::
    "(string \<Rightarrow> json) \<Rightarrow> nat \<Rightarrow> openaiMessage \<Rightarrow> string list \<Rightarrow> ContentBlock list \<times> string list" where
  "parse_functionCall raw_of pos m pending =
     (case qmFunctionCall m of
        None \<Rightarrow> ([], pending)
      | Some fc \<Rightarrow>
          let cid = SyntheticToolCallID pos (length (qmToolCalls m))
          in ([use_block cid (fcName fc) (argumentsOrEmpty raw_of (fcArguments fc))], pending @ [cid]))"

text \<open>The id of a result: its own, else the first pending one, else one made from its place.\<close>

definition result_id :: "nat \<Rightarrow> string \<Rightarrow> string list \<Rightarrow> string \<times> string list" where
  "result_id pos given pending =
     (if given \<noteq> '''' then (given, pending)
      else case pending of i # rest \<Rightarrow> (i, rest) | [] \<Rightarrow> (SyntheticToolCallID pos 0, []))"

definition parseMessage ::
    "(string \<Rightarrow> string) \<Rightarrow> (string \<Rightarrow> json) \<Rightarrow> go_error \<Rightarrow> nat \<Rightarrow> openaiMessage \<Rightarrow> string list \<Rightarrow>
     go_error + (Message \<times> Warning list \<times> string list)" where
  "parseMessage type_by_ext raw_of de pos m pending =
     (let role = mapRole (qmRole m) in
      case oq_parseContent type_by_ext de (qmContent m) of
        Inl e \<Rightarrow> Inl e
      | Inr (blocks, ws0) \<Rightarrow>
          let ws = ws0 @ (if qmName m \<noteq> '''' \<and> role \<noteq> RoleTool
            then [ow ''messages[].name'' ''participant names have no equivalent in the IR; the name was dropped''] else []) in
          if role = RoleTool then
            (case result_id pos (qmToolCallID m) pending of (i, pending1) \<Rightarrow>
               Inr (\<lparr>msgRole = role, msgContent = [result_block i blocks]\<rparr>, ws, pending1))
          else
            let thinking = (if role = RoleAssistant \<and> qmReasoningContent m \<noteq> '''' then
                  [ContentBlock BlockThinking '''' None
                     (Some \<lparr>thText = qmReasoningContent m, thSignature = '''', thData = ''''\<rparr>) None None None []]
                else []) in
            case parse_calls raw_of pos 0 (qmToolCalls m) (if role = RoleAssistant then [] else pending) of (calls, pending1) \<Rightarrow>
            case parse_functionCall raw_of pos m pending1 of (legacy, pending2) \<Rightarrow>
              Inr (\<lparr>msgRole = role, msgContent = thinking @ blocks @ calls @ legacy\<rparr>, ws, pending2))"

fun oq_parse_messages ::
    "(string \<Rightarrow> string) \<Rightarrow> (string \<Rightarrow> json) \<Rightarrow> go_error \<Rightarrow> nat \<Rightarrow> openaiMessage list \<Rightarrow> string list \<Rightarrow>
     go_error + (Message list \<times> Warning list)" where
  "oq_parse_messages tbe raw_of de pos [] pending = Inr ([], [])"
| "oq_parse_messages tbe raw_of de pos (m # ms) pending =
     (case parseMessage tbe raw_of de pos m pending of
        Inl e \<Rightarrow> Inl e
      | Inr (msg, ws, pending1) \<Rightarrow>
          (case oq_parse_messages tbe raw_of de (Suc pos) ms pending1 of
             Inl e \<Rightarrow> Inl e
           | Inr (msgs, ws') \<Rightarrow> Inr (msg # msgs, ws @ ws')))"

section \<open>Requests\<close>

text \<open>A stop that is a string, or \<^verbatim>\<open>null\<close>, which \<^verbatim>\<open>json.Unmarshal\<close> takes for the empty string, or a list.\<close>

definition parseStop :: "json option \<Rightarrow> string list" where
  "parseStop raw =
     (case raw of
        None \<Rightarrow> []
      | Some j \<Rightarrow>
          (case dec_string j '''' of
             Some one \<Rightarrow> [one]
           | None \<Rightarrow> (case dec_slice '''' dec_string j [] of Some many \<Rightarrow> many | None \<Rightarrow> [])))"

definition parseResponseFormat :: "wireResponseFormat option \<Rightarrow> ResponseFormat option" where
  "parseResponseFormat rf =
     (case rf of
        None \<Rightarrow> None
      | Some f \<Rightarrow>
          if qrType f = ''json_object'' then
            Some \<lparr>rfType = ''json_object'', rfSchema = None, rfSchemaDialect = '''', rfName = '''', rfStrict = None\<rparr>
          else if qrType f = ''json_schema'' then
            map_option (\<lambda>s. \<lparr>rfType = ''json_schema'', rfSchema = qsSchema s, rfSchemaDialect = '''', rfName = qsName s, rfStrict = qsStrict s\<rparr>)
              (qrJSONSchema f)
          else None)"

definition captureExtra :: "json \<Rightarrow> (string, json) gomap" where
  "captureExtra body =
     (case dec_raw_map body of
        None \<Rightarrow> []
      | Some tops \<Rightarrow> List.map_filter (\<lambda>k. case map_of tops k of None \<Rightarrow> None | Some v \<Rightarrow> if v = JNull then None else Some (k, v)) extraFields)"

record namedChoice =
  ncName :: string
  ncFunction :: string

definition dec_named :: "json \<Rightarrow> namedChoice \<Rightarrow> namedChoice option" where
  "dec_named = dec_struct (\<lambda>k v s.
     if k = ''name'' then set_field (\<lambda>x s. s\<lparr>ncName := x\<rparr>) (dec_string v (ncName s)) s
     else if k = ''function'' then
       set_field (\<lambda>x s. s\<lparr>ncFunction := x\<rparr>)
         (dec_struct (\<lambda>k v n. if k = ''name'' then dec_string v n else Some n) v (ncFunction s)) s
     else Some s)"

definition parseToolChoice :: "json option \<Rightarrow> ToolChoice option" where
  "parseToolChoice raw =
     (case raw of
        None \<Rightarrow> None
      | Some j \<Rightarrow>
          (case dec_string j '''' of
             Some s \<Rightarrow>
               if s = ''auto'' then Some \<lparr>tcMode = ''auto'', tcName = ''''\<rparr>
               else if s = ''none'' then Some \<lparr>tcMode = ''none'', tcName = ''''\<rparr>
               else if s = ''required'' then Some \<lparr>tcMode = ''any'', tcName = ''''\<rparr>
               else None
           | None \<Rightarrow>
               (case dec_named j \<lparr>ncName = '''', ncFunction = ''''\<rparr> of
                  None \<Rightarrow> None
                | Some n \<Rightarrow>
                    if ncFunction n \<noteq> '''' then Some \<lparr>tcMode = ''tool'', tcName = ncFunction n\<rparr>
                    else if ncName n \<noteq> '''' then Some \<lparr>tcMode = ''tool'', tcName = ncName n\<rparr>
                    else None)))"

definition function_tool :: "wireFunction \<Rightarrow> Tool" where
  "function_tool f =
     \<lparr>toolName = qfName f, toolDescription = qfDescription f, toolSchema = qfParameters f, toolSchemaDialect = '''',
      toolExtra = (case qfStrict f of None \<Rightarrow> [] | Some b \<Rightarrow> [(''strict'', JBool b)])\<rparr>"

definition strict_warnings :: "wireFunction list \<Rightarrow> Warning list" where
  "strict_warnings ts =
     map (\<lambda>t. ow ''tools[].function.strict'' ''strict schema mode is honored by OpenAI-compatible targets only'')
       (filter (\<lambda>t. qfStrict t \<noteq> None) ts)"

definition oq_ParseRequest ::
    "(string \<Rightarrow> json option) \<Rightarrow> (json \<Rightarrow> bool) \<Rightarrow> (string \<Rightarrow> string) \<Rightarrow> (string \<Rightarrow> json) \<Rightarrow> go_error \<Rightarrow>
     string \<times> go_error option \<Rightarrow> nat \<Rightarrow> go_error + (Request \<times> Passthrough)" where
  "oq_ParseRequest unmarshal fin tbe raw_of de stream maxBody =
     (case ReadCappedBody stream maxBody of
        Inl e \<Rightarrow> Inl e
      | Inr body \<Rightarrow>
          (case unmarshal body of
             None \<Rightarrow> Inl (wrap_error ''invalid JSON body'' de)
           | Some j \<Rightarrow>
               (case dec_openaiRequest fin j zero_openai_request of
                  None \<Rightarrow> Inl (wrap_error ''invalid JSON body'' de)
                | Some w \<Rightarrow>
                    (case oq_parse_messages tbe raw_of de 0 (oqMessages w) [] of
                       Inl e \<Rightarrow> Inl e
                     | Inr (msgs, ws) \<Rightarrow>
                         Inr (\<lparr>reqModel = oqModel w, reqSystem = [], reqMessages = msgs,
                           reqTools = map function_tool (oqTools w @ oqFunctions w),
                           reqToolChoice = (case parseToolChoice (oqToolChoice w) of
                               None \<Rightarrow> parseToolChoice (oqFunctionCall w) | Some c \<Rightarrow> Some c),
                           reqParallelToolCalls = oqParallelToolCalls w,
                           reqMaxTokens = (if oqMaxCompletionTokens w \<noteq> None then oqMaxCompletionTokens w else oqMaxTokens w),
                           reqTemperature = oqTemperature w, reqTopP = oqTopP w, reqTopK = None,
                           reqStopSequences = parseStop (oqStop w), reqStream = oqStream w,
                           reqReasoning = map_option (\<lambda>e. \<lparr>rsEffort = e, rsBudget = 0, rsDisabled = False\<rparr>) (oqReasoning w),
                           reqResponseFormat = parseResponseFormat (oqResponseFormat w), reqSafety = [],
                           reqMetadata = oqMetadata w, reqExtra = captureExtra j,
                           reqWarnings = (case oqN w of
                               Some n \<Rightarrow> if n > 1 then [ow ''n'' (''one choice is produced; the request asked for '' @ FormatInt n)] else []
                             | None \<Rightarrow> []) @ ws @ strict_warnings (oqTools w)\<rparr>,
                         \<lparr>ptBody = body, ptModelField = ''model'', ptSurface = SurfaceLLM, ptMethod = '''', ptQuery = [],
                           ptStream = oqStream w\<rparr>)))))"

definition oq_ProxyToken :: "(string, string list) gomap \<Rightarrow> string" where
  "oq_ProxyToken header =
     (case Cut (CHR '' '') (Values_Get header ''Authorization'') of
        None \<Rightarrow> ''''
      | Some (scheme, token) \<Rightarrow> if ToLower scheme \<noteq> ''bearer'' then '''' else TrimSpace token)"

section \<open>What the parser makes of a client's history\<close>

text \<open>A client may send \<^verbatim>\<open>"stop": null\<close>; the request then carries one empty stop sequence.\<close>

lemma null_stop: "parseStop (Some JNull) = ['''']"
  by (simp add: parseStop_def)

definition call_ids :: "Message \<Rightarrow> string list" where
  "call_ids m = List.map_filter (\<lambda>b. map_option tuID (cbToolUse b)) (msgContent m)"

definition answered_ids :: "Message \<Rightarrow> string list" where
  "answered_ids m = List.map_filter (\<lambda>b. map_option trToolUseID (cbToolResult b)) (msgContent m)"

lemma map_filter_simps [simp]:
  "List.map_filter f [] = []" "List.map_filter f (xs @ ys) = List.map_filter f xs @ List.map_filter f ys"
  "List.map_filter f (x # xs) = (case f x of None \<Rightarrow> List.map_filter f xs | Some y \<Rightarrow> y # List.map_filter f xs)"
  by (simp_all add: List.map_filter_def split: option.split)

lemma calls_pending:
  "parse_calls raw_of pos i tcs pending = (bs, pending1) \<Longrightarrow> list_all (\<lambda>tc. tkID tc = '''') tcs \<Longrightarrow>
     pending1 = pending @ List.map_filter (\<lambda>b. map_option tuID (cbToolUse b)) bs \<and> length bs = length tcs \<and>
     List.map_filter (\<lambda>b. map_option tuID (cbToolUse b)) bs = map (SyntheticToolCallID pos) [i ..< i + length tcs]"
proof (induction tcs arbitrary: i pending bs pending1)
  case (Cons tc tcs)
  obtain bs' p' where r: "parse_calls raw_of pos (Suc i) tcs (pending @ [SyntheticToolCallID pos i]) = (bs', p')"
    by (cases "parse_calls raw_of pos (Suc i) tcs (pending @ [SyntheticToolCallID pos i])")
  have u: "[i ..< Suc (i + length tcs)] = i # [Suc i ..< Suc (i + length tcs)]" by (simp add: upt_conv_Cons del: upt_Suc)
  from Cons.IH[OF r] Cons.prems r show ?case by (auto simp: Let_def use_block_def u simp del: upt_Suc)
qed simp

lemma parts_no_use:
  "oq_parseContent tbe de raw = Inr (blocks, ws) \<Longrightarrow> \<forall>b \<in> set blocks. cbToolUse b = None \<and> cbToolResult b = None"
proof -
  assume a: "oq_parseContent tbe de raw = Inr (blocks, ws)"
  have "\<forall>b \<in> set (fst (parse_part tbe p)). cbToolUse b = None \<and> cbToolResult b = None" for p
    by (auto simp: parse_part_def text_block_def media_block_def Let_def split: option.splits prod.splits if_splits)
  then show ?thesis using a
    by (auto simp: oq_parseContent_def Let_def text_block_def split: option.splits json.splits if_splits)
qed

lemma map_filter_none: "\<forall>x \<in> set xs. f x = None \<Longrightarrow> List.map_filter f xs = []"
  by (induction xs) auto

text \<open>The assistant's turn leaves exactly the ids it made up pending; each following result takes the first.\<close>

lemma legacy_turn:
  assumes "parseMessage tbe raw_of de pos m pending = Inr (msg, ws, pending1)" "mapRole (qmRole m) = RoleAssistant"
    and "list_all (\<lambda>tc. tkID tc = '''') (qmToolCalls m)"
  shows "pending1 = call_ids msg \<and>
    call_ids msg = map (SyntheticToolCallID pos) [0 ..< length (qmToolCalls m) + (if qmFunctionCall m = None then 0 else 1)]"
proof -
  obtain blocks ws0 where c: "oq_parseContent tbe de (qmContent m) = Inr (blocks, ws0)"
    using assms(1,2) by (auto simp: parseMessage_def Let_def split: sum.splits)
  obtain calls p1 where k: "parse_calls raw_of pos 0 (qmToolCalls m) [] = (calls, p1)" by (cases "parse_calls raw_of pos 0 (qmToolCalls m) []")
  note ids = calls_pending[OF k assms(3)]
  have none: "List.map_filter (\<lambda>b. map_option tuID (cbToolUse b)) blocks = []"
    using parts_no_use[OF c] by (auto intro: map_filter_none)
  show ?thesis
    using assms(1,2) c k ids none
    by (cases "qmFunctionCall m")
      (auto simp: parseMessage_def Let_def parse_functionCall_def call_ids_def use_block_def split: if_splits)
qed

lemma legacy_results:
  "oq_parse_messages tbe raw_of de pos rs pending = Inr (msgs, ws) \<Longrightarrow>
   list_all (\<lambda>m. mapRole (qmRole m) = RoleTool \<and> qmToolCallID m = '''') rs \<Longrightarrow> length rs \<le> length pending \<Longrightarrow>
   concat (map answered_ids msgs) = take (length rs) pending"
proof (induction rs arbitrary: pos pending msgs ws)
  case (Cons m rs)
  then obtain i rest where p: "pending = i # rest" by (cases pending) auto
  from Cons.prems(1) obtain msg w p1 msgs' ws' where s: "parseMessage tbe raw_of de pos m pending = Inr (msg, w, p1)"
    "oq_parse_messages tbe raw_of de (Suc pos) rs p1 = Inr (msgs', ws')" "msgs = msg # msgs'"
    by (auto split: sum.splits)
  have "p1 = rest" "answered_ids msg = [i]"
    using s(1) Cons.prems(2) p
    by (auto simp: parseMessage_def Let_def result_id_def answered_ids_def result_block_def split: sum.splits)
  then show ?case using Cons.IH[OF s(2)] Cons.prems(2,3) p s(3) by simp
qed simp

text \<open>A client that replays a history from before calls had ids, or whose calls lost theirs: the results that follow the
  assistant's turn answer its calls one by one, in order, under the ids the calls were given, which are distinct.\<close>

theorem legacy_results_answer_calls:
  assumes "oq_parse_messages tbe raw_of de pos (a # rs) pending = Inr (msgs, ws)"
    and "mapRole (qmRole a) = RoleAssistant" "list_all (\<lambda>tc. tkID tc = '''') (qmToolCalls a)"
    and "list_all (\<lambda>m. mapRole (qmRole m) = RoleTool \<and> qmToolCallID m = '''') rs"
    and "length rs = length (qmToolCalls a) + (if qmFunctionCall a = None then 0 else 1)"
  shows "concat (map answered_ids (tl msgs)) = call_ids (hd msgs) \<and> length (call_ids (hd msgs)) = length rs \<and>
    distinct (call_ids (hd msgs))"
proof -
  from assms(1) obtain msg w p1 msgs' ws' where s: "parseMessage tbe raw_of de pos a pending = Inr (msg, w, p1)"
    "oq_parse_messages tbe raw_of de (Suc pos) rs p1 = Inr (msgs', ws')" "msgs = msg # msgs'"
    by (auto split: sum.splits)
  note t = legacy_turn[OF s(1) assms(2,3)]
  have "concat (map answered_ids msgs') = take (length rs) p1"
    by (rule legacy_results[OF s(2) assms(4)]) (use t assms(5) in simp)
  moreover have "inj (SyntheticToolCallID pos)"
  proof (rule injI)
    fix i k
    assume "SyntheticToolCallID pos i = SyntheticToolCallID pos k"
    then have "digits_val (Itoa i) 0 = digits_val (Itoa k) 0" by (simp add: SyntheticToolCallID_def)
    then show "i = k" using digits_val_digits[of i "Suc i"] digits_val_digits[of k "Suc k"] by (simp add: Itoa_def)
  qed
  ultimately show ?thesis using t assms(5) s(3) by (simp add: distinct_map inj_on_subset[OF _ subset_UNIV])
qed

definition demo_history :: "openaiMessage list" where
  "demo_history =
     [zero_openai_message\<lparr>qmRole := ''assistant'',
        qmToolCalls := [\<lparr>tkID = [], tkFunction = \<lparr>fcName = ''f'', fcArguments = ''1''\<rparr>\<rparr>, \<lparr>tkID = [], tkFunction = \<lparr>fcName = ''g'', fcArguments = []\<rparr>\<rparr>]\<rparr>,
      zero_openai_message\<lparr>qmRole := ''tool'', qmContent := Some (JStr ''x'')\<rparr>,
      zero_openai_message\<lparr>qmRole := ''function'', qmContent := Some (JStr ''y'')\<rparr>]"

lemma legacy_results_answer_calls_witness:
  "\<exists>msgs ws. oq_parse_messages (\<lambda>e. []) JStr (plain_error []) 3 demo_history [] = Inr (msgs, ws) \<and>
     call_ids (hd msgs) = [''call_3_0'', ''call_3_1''] \<and> concat (map answered_ids (tl msgs)) = [''call_3_0'', ''call_3_1'']"
proof -
  define r where "r = oq_parse_messages (\<lambda>e. []) JStr (plain_error []) 3 demo_history []"
  have "case r of Inl e \<Rightarrow> False | Inr (msgs, ws) \<Rightarrow> call_ids (hd msgs) = [''call_3_0'', ''call_3_1'']" unfolding r_def by code_simp
  then obtain msgs ws where m: "oq_parse_messages (\<lambda>e. []) JStr (plain_error []) 3 demo_history [] = Inr (msgs, ws)"
    "call_ids (hd msgs) = [''call_3_0'', ''call_3_1'']" by (auto simp: r_def split: sum.splits)
  have "concat (map answered_ids (tl msgs)) = call_ids (hd msgs)"
    using legacy_results_answer_calls[of "\<lambda>e. []" JStr "plain_error []" 3 "hd demo_history" "tl demo_history" "[]" msgs ws] m(1)
    by (simp add: demo_history_def zero_openai_message_def mapRole_def)
  then show ?thesis using m by auto
qed

end
