(* ===== verification/Gemini_Request.thy ===== *)
theory Gemini_Request
  imports Gemini_Parser OpenAI_Request
begin

text \<open>
  The Gemini client dialect's request side, \<^verbatim>\<open>internal/edge/gemini/parse.go\<close> and \<^verbatim>\<open>dialect.go\<close>: the wire structs, the model
  and the method in the path segment, turns into canonical blocks with each function response matched to its call,
  tools, tool choice with its allow list, and the generation settings.

  Arguments: \<open>unmarshal\<close> and \<open>raw_text\<close> as elsewhere, \<open>fin\<close> says which literals a \<^verbatim>\<open>float64\<close> can hold, \<open>de\<close> is the decoder's
  error. The router hands over the path segment with its percent escapes already undone.
\<close>

section \<open>The path segment\<close>

definition ExtractModel :: "string \<Rightarrow> string \<times> string" where
  "ExtractModel segment =
     (let model = (if HasPrefix segment ''models/'' then drop 7 segment else segment);
          method = rev (takeWhile (\<lambda>c. c \<noteq> CHR '':'') (rev model))
      in if CHR '':'' \<in> set model then (take (length model - length method - 1) model, method) else (model, ''''))"

section \<open>Wire structs\<close>

record gq_fileData =
  gdMime :: string
  gdURI :: string

record gq_functionResponse =
  gfrID :: string
  gfrName :: string
  gfrResponse :: "json option"

record gq_part =
  gqText :: string
  gqThought :: bool
  gqSignature :: string
  gqInline :: "gm_inline option"
  gqFile :: "gq_fileData option"
  gqCall :: "gm_functionCall option"
  gqResponse :: "gq_functionResponse option"

record gq_content =
  gqRole :: string
  gqParts :: "gq_part list"

record gq_callingConfig =
  gccMode :: string
  gccAllowed :: "string list"

record gq_thinkingConfig =
  gtBudget :: "int option"
  gtLevel :: string
  gtInclude :: bool

record gq_generation =
  ggTemperature :: "json option"
  ggTopP :: "json option"
  ggTopK :: "int option"
  ggMaxOutput :: "int option"
  ggStop :: "string list"
  ggMimeType :: string
  ggSchema :: "json option"
  ggJSONSchema :: "json option"
  ggThinking :: "gq_thinkingConfig option"

record gq_request =
  gqContents :: "gq_content list"
  gqSystem :: "gq_content option"
  gqTools :: "members list"
  gqToolConfig :: "gq_callingConfig option option"
  gqSafety :: "(string \<times> string) list"
  gqGeneration :: "gq_generation option"
  gqCached :: string

record gq_declaration =
  dlName :: string
  dlDescription :: string
  dlParameters :: "json option"
  dlJSONSchema :: "json option"
  dlJSONSchemaSnake :: "json option"

definition gq_dec_file :: "json \<Rightarrow> gq_fileData \<Rightarrow> gq_fileData option" where
  "gq_dec_file = dec_struct (\<lambda>k v s.
     if k = ''mimetype'' then set_field (\<lambda>x s. s\<lparr>gdMime := x\<rparr>) (dec_string v (gdMime s)) s
     else if k = ''fileuri'' then set_field (\<lambda>x s. s\<lparr>gdURI := x\<rparr>) (dec_string v (gdURI s)) s
     else Some s)"

definition gq_dec_response :: "json \<Rightarrow> gq_functionResponse \<Rightarrow> gq_functionResponse option" where
  "gq_dec_response = dec_struct (\<lambda>k v s.
     if k = ''id'' then set_field (\<lambda>x s. s\<lparr>gfrID := x\<rparr>) (dec_string v (gfrID s)) s
     else if k = ''name'' then set_field (\<lambda>x s. s\<lparr>gfrName := x\<rparr>) (dec_string v (gfrName s)) s
     else if k = ''response'' then Some (s\<lparr>gfrResponse := Some v\<rparr>)
     else Some s)"

definition gq_zero_part :: gq_part where
  "gq_zero_part = \<lparr>gqText = '''', gqThought = False, gqSignature = '''', gqInline = None, gqFile = None, gqCall = None, gqResponse = None\<rparr>"

definition gq_dec_part :: "json \<Rightarrow> gq_part \<Rightarrow> gq_part option" where
  "gq_dec_part = dec_struct (\<lambda>k v s.
     if k = ''text'' then set_field (\<lambda>x s. s\<lparr>gqText := x\<rparr>) (dec_string v (gqText s)) s
     else if k = ''thought'' then set_field (\<lambda>x s. s\<lparr>gqThought := x\<rparr>) (dec_bool v (gqThought s)) s
     else if k = ''thoughtsignature'' then set_field (\<lambda>x s. s\<lparr>gqSignature := x\<rparr>) (dec_string v (gqSignature s)) s
     else if k = ''inlinedata'' then
       set_field (\<lambda>x s. s\<lparr>gqInline := x\<rparr>) (dec_ptr \<lparr>inMime = '''', inData = ''''\<rparr> gm_dec_inline v (gqInline s)) s
     else if k = ''filedata'' then
       set_field (\<lambda>x s. s\<lparr>gqFile := x\<rparr>) (dec_ptr \<lparr>gdMime = '''', gdURI = ''''\<rparr> gq_dec_file v (gqFile s)) s
     else if k = ''functioncall'' then
       set_field (\<lambda>x s. s\<lparr>gqCall := x\<rparr>) (dec_ptr \<lparr>gfID = '''', gfName = '''', gfArgs = None\<rparr> gm_dec_call v (gqCall s)) s
     else if k = ''functionresponse'' then
       set_field (\<lambda>x s. s\<lparr>gqResponse := x\<rparr>)
         (dec_ptr \<lparr>gfrID = '''', gfrName = '''', gfrResponse = None\<rparr> gq_dec_response v (gqResponse s)) s
     else Some s)"

definition gq_zero_content :: gq_content where "gq_zero_content = \<lparr>gqRole = '''', gqParts = []\<rparr>"

definition gq_dec_content :: "json \<Rightarrow> gq_content \<Rightarrow> gq_content option" where
  "gq_dec_content = dec_struct (\<lambda>k v s.
     if k = ''role'' then set_field (\<lambda>x s. s\<lparr>gqRole := x\<rparr>) (dec_string v (gqRole s)) s
     else if k = ''parts'' then set_field (\<lambda>x s. s\<lparr>gqParts := x\<rparr>) (dec_slice gq_zero_part gq_dec_part v (gqParts s)) s
     else Some s)"

text \<open>\<^verbatim>\<open>map[string]json.RawMessage\<close>, decoded over the map that is there.\<close>

fun dec_entry :: "json \<Rightarrow> members \<Rightarrow> members option" where
  "dec_entry (JObj ms) old = Some (fold (\<lambda>(k, v). AList.update k v) ms old)"
| "dec_entry JNull old = Some []"
| "dec_entry _ old = None"

definition gq_dec_calling :: "json \<Rightarrow> gq_callingConfig \<Rightarrow> gq_callingConfig option" where
  "gq_dec_calling = dec_struct (\<lambda>k v s.
     if k = ''mode'' then set_field (\<lambda>x s. s\<lparr>gccMode := x\<rparr>) (dec_string v (gccMode s)) s
     else if k = ''allowedfunctionnames'' then
       set_field (\<lambda>x s. s\<lparr>gccAllowed := x\<rparr>) (dec_slice '''' dec_string v (gccAllowed s)) s
     else Some s)"

definition gq_dec_toolConfig :: "json \<Rightarrow> gq_callingConfig option \<Rightarrow> gq_callingConfig option option" where
  "gq_dec_toolConfig = dec_struct (\<lambda>k v s.
     if k = ''functioncallingconfig'' then dec_ptr \<lparr>gccMode = '''', gccAllowed = []\<rparr> gq_dec_calling v s else Some s)"

definition gq_dec_safety :: "json \<Rightarrow> string \<times> string \<Rightarrow> (string \<times> string) option" where
  "gq_dec_safety = dec_struct (\<lambda>k v s.
     if k = ''category'' then set_field (\<lambda>x s. (x, snd s)) (dec_string v (fst s)) s
     else if k = ''threshold'' then set_field (\<lambda>x s. (fst s, x)) (dec_string v (snd s)) s
     else Some s)"

definition gq_dec_thinking :: "json \<Rightarrow> gq_thinkingConfig \<Rightarrow> gq_thinkingConfig option" where
  "gq_dec_thinking = dec_struct (\<lambda>k v s.
     if k = ''thinkingbudget'' then set_field (\<lambda>x s. s\<lparr>gtBudget := x\<rparr>) (dec_ptr 0 dec_int v (gtBudget s)) s
     else if k = ''thinkinglevel'' then set_field (\<lambda>x s. s\<lparr>gtLevel := x\<rparr>) (dec_string v (gtLevel s)) s
     else if k = ''includethoughts'' then set_field (\<lambda>x s. s\<lparr>gtInclude := x\<rparr>) (dec_bool v (gtInclude s)) s
     else Some s)"

definition gq_zero_generation :: gq_generation where
  "gq_zero_generation = \<lparr>ggTemperature = None, ggTopP = None, ggTopK = None, ggMaxOutput = None, ggStop = [], ggMimeType = '''',
     ggSchema = None, ggJSONSchema = None, ggThinking = None\<rparr>"

definition gq_dec_generation :: "(json \<Rightarrow> bool) \<Rightarrow> json \<Rightarrow> gq_generation \<Rightarrow> gq_generation option" where
  "gq_dec_generation fin = dec_struct (\<lambda>k v s.
     if k = ''temperature'' then
       set_field (\<lambda>x s. s\<lparr>ggTemperature := x\<rparr>) (dec_ptr (JInt 0) (dec_float fin) v (ggTemperature s)) s
     else if k = ''topp'' then set_field (\<lambda>x s. s\<lparr>ggTopP := x\<rparr>) (dec_ptr (JInt 0) (dec_float fin) v (ggTopP s)) s
     else if k = ''topk'' then set_field (\<lambda>x s. s\<lparr>ggTopK := x\<rparr>) (dec_ptr 0 dec_int v (ggTopK s)) s
     else if k = ''maxoutputtokens'' then set_field (\<lambda>x s. s\<lparr>ggMaxOutput := x\<rparr>) (dec_ptr 0 dec_int v (ggMaxOutput s)) s
     else if k = ''stopsequences'' then set_field (\<lambda>x s. s\<lparr>ggStop := x\<rparr>) (dec_slice '''' dec_string v (ggStop s)) s
     else if k = ''responsemimetype'' then set_field (\<lambda>x s. s\<lparr>ggMimeType := x\<rparr>) (dec_string v (ggMimeType s)) s
     else if k = ''responseschema'' then Some (s\<lparr>ggSchema := Some v\<rparr>)
     else if k = ''responsejsonschema'' then Some (s\<lparr>ggJSONSchema := Some v\<rparr>)
     else if k = ''thinkingconfig'' then
       set_field (\<lambda>x s. s\<lparr>ggThinking := x\<rparr>)
         (dec_ptr \<lparr>gtBudget = None, gtLevel = '''', gtInclude = False\<rparr> gq_dec_thinking v (ggThinking s)) s
     else Some s)"

definition gq_zero_request :: gq_request where
  "gq_zero_request = \<lparr>gqContents = [], gqSystem = None, gqTools = [], gqToolConfig = None, gqSafety = [], gqGeneration = None, gqCached = ''''\<rparr>"

definition gq_dec_request :: "(json \<Rightarrow> bool) \<Rightarrow> json \<Rightarrow> gq_request \<Rightarrow> gq_request option" where
  "gq_dec_request fin = dec_struct (\<lambda>k v s.
     if k = ''contents'' then set_field (\<lambda>x s. s\<lparr>gqContents := x\<rparr>) (dec_slice gq_zero_content gq_dec_content v (gqContents s)) s
     else if k = ''systeminstruction'' then
       set_field (\<lambda>x s. s\<lparr>gqSystem := x\<rparr>) (dec_ptr gq_zero_content gq_dec_content v (gqSystem s)) s
     else if k = ''tools'' then set_field (\<lambda>x s. s\<lparr>gqTools := x\<rparr>) (dec_slice [] dec_entry v (gqTools s)) s
     else if k = ''toolconfig'' then set_field (\<lambda>x s. s\<lparr>gqToolConfig := x\<rparr>) (dec_ptr None gq_dec_toolConfig v (gqToolConfig s)) s
     else if k = ''safetysettings'' then
       set_field (\<lambda>x s. s\<lparr>gqSafety := x\<rparr>) (dec_slice ('''', '''') gq_dec_safety v (gqSafety s)) s
     else if k = ''generationconfig'' then
       set_field (\<lambda>x s. s\<lparr>gqGeneration := x\<rparr>) (dec_ptr gq_zero_generation (gq_dec_generation fin) v (gqGeneration s)) s
     else if k = ''cachedcontent'' then set_field (\<lambda>x s. s\<lparr>gqCached := x\<rparr>) (dec_string v (gqCached s)) s
     else Some s)"

definition gq_zero_declaration :: gq_declaration where
  "gq_zero_declaration = \<lparr>dlName = '''', dlDescription = '''', dlParameters = None, dlJSONSchema = None, dlJSONSchemaSnake = None\<rparr>"

definition gq_dec_declaration :: "json \<Rightarrow> gq_declaration \<Rightarrow> gq_declaration option" where
  "gq_dec_declaration = dec_struct (\<lambda>k v s.
     if k = ''name'' then set_field (\<lambda>x s. s\<lparr>dlName := x\<rparr>) (dec_string v (dlName s)) s
     else if k = ''description'' then set_field (\<lambda>x s. s\<lparr>dlDescription := x\<rparr>) (dec_string v (dlDescription s)) s
     else if k = ''parameters'' then Some (s\<lparr>dlParameters := Some v\<rparr>)
     else if k = ''parametersjsonschema'' then Some (s\<lparr>dlJSONSchema := Some v\<rparr>)
     else if k = ''parameters_json_schema'' then Some (s\<lparr>dlJSONSchemaSnake := Some v\<rparr>)
     else Some s)"

definition present :: "json option \<Rightarrow> bool" where
  "present raw = (raw \<noteq> None \<and> raw \<noteq> Some JNull)"

section \<open>Tools\<close>

definition declared_tool :: "gq_declaration \<Rightarrow> Tool" where
  "declared_tool d =
     \<lparr>toolName = dlName d, toolDescription = dlDescription d,
      toolSchema = (if present (dlJSONSchema d) then dlJSONSchema d
        else if present (dlJSONSchemaSnake d) then dlJSONSchemaSnake d
        else if present (dlParameters d) then dlParameters d else None),
      toolSchemaDialect = (if \<not> present (dlJSONSchema d) \<and> \<not> present (dlJSONSchemaSnake d) \<and> present (dlParameters d)
        then SchemaOpenAPI else ''''),
      toolExtra = []\<rparr>"

definition gq_built_in :: "string \<Rightarrow> json \<Rightarrow> Tool" where
  "gq_built_in k raw = \<lparr>toolName = '''', toolDescription = '''', toolSchema = None, toolSchemaDialect = '''', toolExtra = [(k, raw)]\<rparr>"

fun parse_entry :: "go_error \<Rightarrow> (string \<times> json) list \<Rightarrow> go_error + Tool list" where
  "parse_entry de [] = Inr []"
| "parse_entry de ((k, raw) # ms) =
     (case (if k = ''functionDeclarations'' \<or> k = ''function_declarations'' then
              (case dec_slice gq_zero_declaration gq_dec_declaration raw [] of
                 None \<Rightarrow> Inl (wrap_error ''invalid functionDeclarations'' de)
               | Some ds \<Rightarrow> Inr (map declared_tool ds))
            else if raw = JNull then Inr []
            else Inr [gq_built_in k raw]) of
        Inl e \<Rightarrow> Inl e
      | Inr ts \<Rightarrow> (case parse_entry de ms of Inl e \<Rightarrow> Inl e | Inr ts1 \<Rightarrow> Inr (ts @ ts1)))"

definition parseToolEntry :: "go_error \<Rightarrow> members \<Rightarrow> go_error + Tool list" where
  "parseToolEntry de entry = parse_entry de (sort_key fst entry)"

fun parse_tool_entries :: "go_error \<Rightarrow> members list \<Rightarrow> go_error + Tool list" where
  "parse_tool_entries de [] = Inr []"
| "parse_tool_entries de (e # es) =
     (case parseToolEntry de e of
        Inl err \<Rightarrow> Inl err
      | Inr ts \<Rightarrow> (case parse_tool_entries de es of Inl err \<Rightarrow> Inl err | Inr ts1 \<Rightarrow> Inr (ts @ ts1)))"

definition allowedTools :: "Tool list \<Rightarrow> string list \<Rightarrow> Tool list" where
  "allowedTools tools allowed = filter (\<lambda>t. toolExtra t \<noteq> [] \<or> toolName t \<in> set allowed) tools"

definition tool_choice_of :: "gq_callingConfig \<Rightarrow> ToolChoice" where
  "tool_choice_of cfg =
     (if gccMode cfg = ''NONE'' then \<lparr>tcMode = ''none'', tcName = ''''\<rparr>
      else if gccMode cfg = ''ANY'' then
        (case gccAllowed cfg of [name] \<Rightarrow> \<lparr>tcMode = ''tool'', tcName = name\<rparr> | _ \<Rightarrow> \<lparr>tcMode = ''any'', tcName = ''''\<rparr>)
      else \<lparr>tcMode = ''auto'', tcName = ''''\<rparr>)"

definition tools_of :: "gq_callingConfig option \<Rightarrow> Tool list \<Rightarrow> Tool list" where
  "tools_of cfg tools =
     (case cfg of
        None \<Rightarrow> tools
      | Some c \<Rightarrow> if gccAllowed c \<noteq> [] \<and> (gccMode c = ''ANY'' \<or> gccMode c = ''VALIDATED'') then allowedTools tools (gccAllowed c) else tools)"

section \<open>Turns\<close>

text \<open>The call a response without an id answers: the next one of the previous model turn that no response of this turn names.\<close>

fun next_unnamed :: "string list \<Rightarrow> string set \<Rightarrow> nat \<Rightarrow> nat" where
  "next_unnamed [] named n = n"
| "next_unnamed (p # ps) named n = (if p \<in> named then next_unnamed ps named (Suc n) else n)"

definition positional :: "string list \<Rightarrow> string set \<Rightarrow> nat \<Rightarrow> string \<times> nat" where
  "positional pending named n =
     (let m = next_unnamed (drop n pending) named n in (if m < length pending then pending ! m else '''', Suc m))"

definition gm_call_block :: "string \<Rightarrow> string \<Rightarrow> json \<Rightarrow> string \<Rightarrow> ContentBlock" where
  "gm_call_block i name args sig = ContentBlock BlockToolUse '''' None None
     (Some \<lparr>tuID = i, tuName = name, tuInput = Some args, tuSignature = sig\<rparr>) None None []"

definition answer_block :: "string \<Rightarrow> string \<Rightarrow> ContentBlock" where
  "answer_block i text = ContentBlock BlockToolResult '''' None None None (Some (ToolResult i [text_block text] False)) None []"

definition plain_part :: "gq_part \<Rightarrow> ContentBlock list" where
  "plain_part p =
     (if gqThought p then
        [ContentBlock BlockThinking '''' None (Some \<lparr>thText = gqText p, thSignature = gqSignature p, thData = ''''\<rparr>) None None None []]
      else case gqInline p of
        Some d \<Rightarrow> [media_block (MediaKind (inMime d)) \<lparr>MIME = inMime d, Data = inData d, URL = '''', FileID = ''''\<rparr>]
      | None \<Rightarrow>
          (case gqFile p of
             Some d \<Rightarrow> [media_block (MediaKind (gdMime d)) \<lparr>MIME = gdMime d, Data = '''', URL = '''', FileID = gdURI d\<rparr>]
           | None \<Rightarrow>
               if gqText p \<noteq> '''' \<or> gqSignature p \<noteq> ''''
               then [if gqSignature p \<noteq> '''' then SetExtraString ExtraThoughtSignature (gqSignature p) (text_block (gqText p))
                     else text_block (gqText p)]
               else []))"

fun gq_parts :: "(json \<Rightarrow> string) \<Rightarrow> nat \<Rightarrow> string set \<Rightarrow> string list \<Rightarrow> gq_part list \<Rightarrow> nat \<Rightarrow> string list \<Rightarrow> ContentBlock list \<times> string list" where
  "gq_parts raw_text turn named pending [] n calls = ([], calls)"
| "gq_parts raw_text turn named pending (p # ps) n calls =
     (case gqCall p of
        Some f \<Rightarrow>
          let i = (if gfID f = '''' then SyntheticToolCallID turn (length calls) else gfID f) in
          (case gq_parts raw_text turn named pending ps n (calls @ [i]) of (bs, cs) \<Rightarrow>
             (gm_call_block i (gfName f) (call_args f) (gqSignature p) # bs, cs))
      | None \<Rightarrow>
          (case gqResponse p of
             Some f \<Rightarrow>
               (case (if gfrID f = '''' then positional pending named n else (gfrID f, n)) of (i, n1) \<Rightarrow>
                  case gq_parts raw_text turn named pending ps n1 calls of (bs, cs) \<Rightarrow>
                    (answer_block i (case gfrResponse f of None \<Rightarrow> '''' | Some j \<Rightarrow> raw_text j) # bs, cs))
           | None \<Rightarrow> (case gq_parts raw_text turn named pending ps n calls of (bs, cs) \<Rightarrow> (plain_part p @ bs, cs))))"

definition named_set :: "gq_part list \<Rightarrow> string set" where
  "named_set ps = set (filter (\<lambda>i. i \<noteq> '''') (map gfrID (List.map_filter gqResponse ps)))"

definition parseParts :: "(json \<Rightarrow> string) \<Rightarrow> nat \<Rightarrow> gq_part list \<Rightarrow> string list \<Rightarrow> ContentBlock list \<times> string list" where
  "parseParts raw_text turn ps pending = gq_parts raw_text turn (named_set ps) pending ps 0 []"

fun parse_contents :: "(json \<Rightarrow> string) \<Rightarrow> nat \<Rightarrow> gq_content list \<Rightarrow> string list \<Rightarrow> Message list" where
  "parse_contents raw_text turn [] pending = []"
| "parse_contents raw_text turn (c # cs) pending =
     (case parseParts raw_text turn (gqParts c) pending of (blocks, calls) \<Rightarrow>
        \<lparr>msgRole = (if gqRole c = ''model'' then RoleAssistant else RoleUser), msgContent = blocks\<rparr> #
        parse_contents raw_text (Suc turn) cs (if calls \<noteq> [] then calls else pending))"

section \<open>Requests\<close>

definition gq_format :: "gq_generation \<Rightarrow> ResponseFormat option" where
  "gq_format g =
     (if present (ggJSONSchema g) then
        Some \<lparr>rfType = ''json_schema'', rfSchema = ggJSONSchema g, rfSchemaDialect = '''', rfName = '''', rfStrict = None\<rparr>
      else if present (ggSchema g) then
        Some \<lparr>rfType = ''json_schema'', rfSchema = ggSchema g, rfSchemaDialect = SchemaOpenAPI, rfName = '''', rfStrict = None\<rparr>
      else if ggMimeType g = ''application/json'' then
        Some \<lparr>rfType = ''json_object'', rfSchema = None, rfSchemaDialect = '''', rfName = '''', rfStrict = None\<rparr>
      else None)"

definition gq_reasoning :: "gq_generation \<Rightarrow> Reasoning option" where
  "gq_reasoning g =
     (case ggThinking g of
        None \<Rightarrow> None
      | Some tc \<Rightarrow>
          if gtBudget tc = Some 0 then Some \<lparr>rsEffort = '''', rsBudget = 0, rsDisabled = True\<rparr>
          else if (case gtBudget tc of Some b \<Rightarrow> b > 0 | None \<Rightarrow> False) then
            Some \<lparr>rsEffort = '''', rsBudget = the (gtBudget tc), rsDisabled = False\<rparr>
          else if gtLevel tc \<noteq> '''' then Some \<lparr>rsEffort = ToLower (gtLevel tc), rsBudget = 0, rsDisabled = False\<rparr>
          else None)"

definition gemini_request_of :: "(json \<Rightarrow> string) \<Rightarrow> string \<Rightarrow> gq_request \<Rightarrow> Tool list \<Rightarrow> Request" where
  "gemini_request_of raw_text segment w tools =
     (case ExtractModel segment of (model, method) \<Rightarrow>
        let cfg = (case gqToolConfig w of None \<Rightarrow> None | Some c \<Rightarrow> c);
            g = (case gqGeneration w of None \<Rightarrow> gq_zero_generation | Some g \<Rightarrow> g)
        in \<lparr>reqModel = model,
            reqSystem = (case gqSystem w of
                None \<Rightarrow> [] | Some c \<Rightarrow> map (\<lambda>p. text_block (gqText p)) (filter (\<lambda>p. gqText p \<noteq> '''') (gqParts c))),
            reqMessages = parse_contents raw_text 0 (gqContents w) [],
            reqTools = tools_of cfg tools, reqToolChoice = map_option tool_choice_of cfg, reqParallelToolCalls = None,
            reqMaxTokens = ggMaxOutput g, reqTemperature = ggTemperature g, reqTopP = ggTopP g, reqTopK = ggTopK g,
            reqStopSequences = ggStop g, reqStream = (method = ''streamGenerateContent''),
            reqReasoning = gq_reasoning g, reqResponseFormat = gq_format g, reqSafety = gqSafety w,
            reqMetadata = (if gqCached w \<noteq> '''' then [(''gemini_cached_content'', gqCached w)] else []),
            reqExtra = [], reqWarnings = []\<rparr>)"

definition gq_ParseRequest ::
    "(string \<Rightarrow> json option) \<Rightarrow> (json \<Rightarrow> bool) \<Rightarrow> (json \<Rightarrow> string) \<Rightarrow> go_error \<Rightarrow> string \<Rightarrow> (string, string list) gomap \<Rightarrow>
     string \<times> go_error option \<Rightarrow> nat \<Rightarrow> go_error + (Request \<times> Passthrough)" where
  "gq_ParseRequest unmarshal fin raw_text de segment query stream maxBody =
     (case ReadCappedBody stream maxBody of
        Inl e \<Rightarrow> Inl e
      | Inr body \<Rightarrow>
          (case Option.bind (unmarshal body) (\<lambda>j. gq_dec_request fin j gq_zero_request) of
             None \<Rightarrow> Inl (wrap_error ''invalid JSON body'' de)
           | Some w \<Rightarrow>
               (case parse_tool_entries de (gqTools w) of
                  Inl e \<Rightarrow> Inl e
                | Inr tools \<Rightarrow>
                    let req = gemini_request_of raw_text segment w tools in
                    Inr (req, \<lparr>ptBody = body, ptModelField = '''', ptSurface = SurfaceLLM, ptMethod = snd (ExtractModel segment),
                      ptQuery = AList.delete ''key'' query, ptStream = reqStream req\<rparr>))))"

section \<open>The dialect\<close>

text \<open>Which framing the client asked for, and the credential it sent: the header, or else the query parameter.\<close>

definition NewFor :: "(string, string list) gomap \<Rightarrow> bool" where
  "NewFor query = (Values_Get query ''alt'' = ''sse'')"

definition gq_ProxyToken :: "(string, string list) gomap \<Rightarrow> (string, string list) gomap \<Rightarrow> string" where
  "gq_ProxyToken header query =
     (let k = TrimSpace (Values_Get header ''X-Goog-Api-Key'')
      in if k \<noteq> '''' then k else TrimSpace (Values_Get query ''key''))"
end
