(* ===== verification/OpenAI_Build.thy ===== *)
theory OpenAI_Build
  imports OpenAI_Request OpenAI_Parser
begin

text \<open>
  The OpenAI-compatible adapter's request side, \<^verbatim>\<open>internal/adapter/openaicompat/messages.go\<close>, \<^verbatim>\<open>build.go\<close> and \<^verbatim>\<open>quirks.go\<close>: the
  messages one turn becomes, system content with and without a system role, the quirks of a target, and the request.

  Arguments as in \<open>Anthropic_Build\<close>, and \<open>raw_text\<close>, the bytes of a \<^verbatim>\<open>json.RawMessage\<close>. A Go map whose keys the code walks
  in no order is walked in the order it is listed in.
\<close>

section \<open>Content\<close>

definition compatName :: string where "compatName = ''openaicompat''"

definition cacheWarning :: "string \<Rightarrow> ContentBlock \<Rightarrow> Warning list" where
  "cacheWarning target b =
     (if cbCacheControl b = None then [] else [warn target ''cache_control'' ''no explicit prompt-caching control in this dialect''])"

definition blocksText :: "ContentBlock list \<Rightarrow> string \<Rightarrow> string \<Rightarrow> string \<times> Warning list" where
  "blocksText blocks fld target =
     (concat (map cbText (filter (\<lambda>b. cbType b = BlockText) blocks)),
      map (\<lambda>b. warn target (fld @ ''.'' @ BlockType_string (cbType b)) ''this position accepts text only'')
        (filter (\<lambda>b. cbType b \<noteq> BlockText) blocks))"

definition audioFormat :: "string \<Rightarrow> string option" where
  "audioFormat mime =
     (if mime \<in> {''audio/wav'', ''audio/x-wav'', ''audio/wave''} then Some ''wav''
      else if mime \<in> {''audio/mp3'', ''audio/mpeg''} then Some ''mp3''
      else None)"

definition documentFilename :: "string \<Rightarrow> string" where
  "documentFilename mime =
     (if mime = ''application/pdf'' then ''document.pdf''
      else if mime = ''text/plain'' then ''document.txt''
      else if mime = ''text/markdown'' then ''document.md''
      else if mime = ''text/csv'' then ''document.csv''
      else ''document'')"

definition data_uri :: "Media \<Rightarrow> string" where
  "data_uri m = ''data:'' @ MIME m @ '';base64,'' @ Data m"

definition part_json :: "string \<Rightarrow> json \<Rightarrow> json" where
  "part_json kind payload = JObj [(kind, payload), (''type'', JStr kind)]"

definition renderPart :: "string \<Rightarrow> ContentBlock \<Rightarrow> json list \<times> Warning list" where
  "renderPart target b =
     (case cbType b of
        BlockText \<Rightarrow> ([part_json ''text'' (JStr (cbText b))], [])
      | BlockImage \<Rightarrow>
          (case cbMedia b of
             None \<Rightarrow> ([], [])
           | Some m \<Rightarrow>
               let url = (if URL m = '''' \<and> Data m \<noteq> '''' then data_uri m else URL m) in
               if url = '''' then ([], [warn target ''messages[].image'' ''image carried neither data nor a URL''])
               else ([part_json ''image_url'' (JObj [(''url'', JStr url)])], []))
      | BlockDocument \<Rightarrow>
          (case cbMedia b of
             None \<Rightarrow> ([], [])
           | Some m \<Rightarrow>
               if FileID m \<noteq> '''' then ([part_json ''file'' (JObj [(''file_id'', JStr (FileID m))])], [])
               else if Data m \<noteq> '''' then
                 ([part_json ''file'' (JObj [(''file_data'', JStr (data_uri m)), (''filename'', JStr (documentFilename (MIME m)))])], [])
               else ([], [warn target ''messages[].document'' ''document carried neither data nor a file id'']))
      | BlockAudio \<Rightarrow>
          (case cbMedia b of
             None \<Rightarrow> ([], [])
           | Some m \<Rightarrow>
               (case audioFormat (MIME m) of
                  Some fmt \<Rightarrow>
                    if Data m \<noteq> '''' then
                      ([part_json ''input_audio'' (JObj [(''data'', JStr (Data m)), (''format'', JStr fmt)])], [])
                    else ([], [warn target ''messages[].audio'' ''OpenAI input_audio accepts inline wav or mp3 only''])
                | None \<Rightarrow> ([], [warn target ''messages[].audio'' ''OpenAI input_audio accepts inline wav or mp3 only''])))
      | t \<Rightarrow> ([], [warn target (''messages[].'' @ BlockType_string t) ''unsupported content block'']))"

definition renderContent :: "ContentBlock list \<Rightarrow> string \<Rightarrow> json \<times> Warning list" where
  "renderContent blocks target =
     (if list_all (\<lambda>b. cbType b = BlockText) blocks then (JStr (concat (map cbText blocks)), [])
      else let rs = map (renderPart target) blocks in (JArr (concat (map fst rs)), concat (map snd rs)))"

section \<open>Messages\<close>

definition isTextOnlyAssistant :: "Message \<Rightarrow> bool" where
  "isTextOnlyAssistant m = (msgRole m = RoleAssistant \<and> list_all (\<lambda>b. cbType b = BlockText) (msgContent m))"

text \<open>What an assistant's turn is gathered into: its text, its reasoning, its calls.\<close>

definition call_json :: "string \<Rightarrow> string \<Rightarrow> string \<Rightarrow> json" where
  "call_json i name args =
     JObj [(''function'', JObj [(''arguments'', JStr args), (''name'', JStr name)]), (''id'', JStr i), (''type'', JStr ''function'')]"

fun gather_assistant ::
    "(json \<Rightarrow> string) \<Rightarrow> nat \<Rightarrow> string \<Rightarrow> bool \<Rightarrow> ContentBlock list \<Rightarrow> string \<Rightarrow> string \<Rightarrow> json list \<Rightarrow>
     string \<times> string \<times> json list \<times> Warning list" where
  "gather_assistant raw_text pos target echo [] text reasoning calls = (text, reasoning, calls, [])"
| "gather_assistant raw_text pos target echo (b # bs) text reasoning calls =
     (case cbType b of
        BlockText \<Rightarrow> gather_assistant raw_text pos target echo bs (text @ cbText b) reasoning calls
      | BlockThinking \<Rightarrow>
          if \<not> echo then
            (case gather_assistant raw_text pos target echo bs text reasoning calls of (x, r, c, ws) \<Rightarrow>
               (x, r, c, warn target ''messages[].assistant.thinking''
                  ''the target does not accept reasoning_content on an assistant turn; the block was dropped'' # ws))
          else gather_assistant raw_text pos target echo bs text
            (reasoning @ (case cbThinking b of None \<Rightarrow> '''' | Some t \<Rightarrow> thText t)) calls
      | BlockToolUse \<Rightarrow>
          (case cbToolUse b of
             None \<Rightarrow> gather_assistant raw_text pos target echo bs text reasoning calls
           | Some u \<Rightarrow>
               let i = (if tuID u = '''' then SyntheticToolCallID pos (length calls) else tuID u);
                   a = (case tuInput u of None \<Rightarrow> '''' | Some j \<Rightarrow> raw_text j) in
               gather_assistant raw_text pos target echo bs text reasoning
                 (calls @ [call_json i (tuName u) (if a = '''' then ''{}'' else a)]))
      | t \<Rightarrow>
          (case gather_assistant raw_text pos target echo bs text reasoning calls of (x, r, c, ws) \<Rightarrow>
             (x, r, c, warn target (''messages[].assistant.'' @ BlockType_string t)
                ''assistant turns carry text and tool calls only'' # ws)))"

definition plain_message :: "string \<Rightarrow> json \<Rightarrow> members" where
  "plain_message role content = [(''content'', content), (''role'', JStr role)]"

definition assistant_message :: "string \<times> string \<times> json list \<Rightarrow> members" where
  "assistant_message g =
     (case g of (text, reasoning, calls) \<Rightarrow>
        [(''content'', if text \<noteq> '''' then JStr text else JNull)] @
        opt ''reasoning_content'' (only_if (reasoning \<noteq> '''') (JStr reasoning)) @
        [(''role'', JStr ''assistant'')] @
        opt ''tool_calls'' (only_if (calls \<noteq> []) (JArr calls)))"

definition tool_message :: "ToolResult \<Rightarrow> members" where
  "tool_message tr =
     [(''content'', JStr (ToolResult_Text (Some tr))), (''role'', JStr ''tool''), (''tool_call_id'', JStr (trToolUseID tr))]"

definition is_result :: "ContentBlock \<Rightarrow> bool" where
  "is_result b = (cbType b = BlockToolResult \<and> cbToolResult b \<noteq> None)"

text \<open>The results of a turn and, of each, what is not text and moves to the user message that follows.\<close>

definition turn_results :: "Message \<Rightarrow> ToolResult list" where
  "turn_results m = List.map_filter cbToolResult (filter is_result (msgContent m))"

definition hoisted :: "Message \<Rightarrow> ContentBlock list" where
  "hoisted m = concat (map (\<lambda>tr. filter (\<lambda>b. cbType b \<noteq> BlockText) (trContent tr)) (turn_results m))"

definition oc_renderMessage :: "(json \<Rightarrow> string) \<Rightarrow> nat \<Rightarrow> Message \<Rightarrow> string \<Rightarrow> bool \<Rightarrow> members list \<times> Warning list" where
  "oc_renderMessage raw_text pos m target echo =
     (let ws = concat (map (cacheWarning target) (msgContent m)) in
      if msgRole m = RoleSystem then
        (case blocksText (msgContent m) ''messages[].system'' target of (text, w) \<Rightarrow>
           (if text \<noteq> '''' then [plain_message ''system'' (JStr text)] else [], ws @ w))
      else if msgRole m = RoleAssistant then
        (case gather_assistant raw_text pos target echo (msgContent m) '''' '''' [] of (text, reasoning, calls, w) \<Rightarrow>
           ([assistant_message (text, reasoning, calls)], ws @ w))
      else
        let out = map tool_message (turn_results m);
            w = map (\<lambda>b. warn target (''messages[].tool_result.'' @ BlockType_string (cbType b))
                  ''tool messages are text-only; moved into a following user message'') (hoisted m);
            blocks = hoisted m @ filter (\<lambda>b. \<not> is_result b) (msgContent m) in
        if blocks = [] then (out, ws @ w)
        else (case renderContent blocks target of (content, w') \<Rightarrow> (out @ [plain_message ''user'' content], ws @ w @ w')))"

fun oc_render_turns :: "(json \<Rightarrow> string) \<Rightarrow> nat \<Rightarrow> Message list \<Rightarrow> string \<Rightarrow> bool \<Rightarrow> members list \<times> Warning list" where
  "oc_render_turns raw_text pos [] target echo = ([], [])"
| "oc_render_turns raw_text pos (m # ms) target echo =
     (case oc_renderMessage raw_text pos m target echo of (out, w) \<Rightarrow>
      case oc_render_turns raw_text (Suc pos) ms target echo of (outs, ws) \<Rightarrow> (out @ outs, w @ ws))"

section \<open>System content\<close>

definition collect_text :: "ContentBlock list \<Rightarrow> string \<Rightarrow> string \<Rightarrow> string list \<times> Warning list" where
  "collect_text blocks fld target =
     (case blocksText blocks fld target of (text, w) \<Rightarrow>
        (if text \<noteq> '''' then [text] else [], w @ concat (map (cacheWarning target) blocks)))"

definition foldSystemTurns :: "Request \<Rightarrow> string \<Rightarrow> string \<times> Message list \<times> Warning list" where
  "foldSystemTurns req target =
     (let rs = collect_text (reqSystem req) ''system[]'' target #
            map (\<lambda>m. collect_text (msgContent m) ''messages[].system'' target) (filter (\<lambda>m. msgRole m = RoleSystem) (reqMessages req));
          parts = concat (map fst rs); ws = concat (map snd rs);
          rest = filter (\<lambda>m. msgRole m \<noteq> RoleSystem) (reqMessages req) in
      if parts = [] then ('''', rest, ws)
      else (Join [LF, LF] parts, rest,
        ws @ [warn target ''system'' ''the target has no system role; the instruction was folded into the first user message'']))"

definition with_text :: "string \<Rightarrow> members \<Rightarrow> members" where
  "with_text text m =
     member_put ''content''
       (case map_of m ''content'' of
          Some (JStr c) \<Rightarrow> JStr (text @ [LF, LF] @ c)
        | Some (JArr parts) \<Rightarrow> JArr (part_json ''text'' (JStr text) # parts)
        | _ \<Rightarrow> JStr text) m"

fun prepend_loop :: "members list \<Rightarrow> string \<Rightarrow> members list option" where
  "prepend_loop [] text = None"
| "prepend_loop (m # ms) text =
     (if map_of m ''role'' = Some (JStr ''user'') then Some (with_text text m # ms) else map_option ((#) m) (prepend_loop ms text))"

definition prependToFirstUser :: "members list \<Rightarrow> string \<Rightarrow> members list" where
  "prependToFirstUser msgs text =
     (case prepend_loop msgs text of Some ms \<Rightarrow> ms | None \<Rightarrow> plain_message ''user'' (JStr text) # msgs)"

definition prefill_warning :: "string \<Rightarrow> Warning" where
  "prefill_warning target = warn target ''messages[last].assistant_prefill'' ''assistant prefill has no equivalent; the turn was dropped''"

definition oc_renderMessages :: "(json \<Rightarrow> string) \<Rightarrow> Request \<Rightarrow> string \<Rightarrow> bool \<Rightarrow> bool \<Rightarrow> members list \<times> Warning list" where
  "oc_renderMessages raw_text req target foldSystem echo =
     (case (if foldSystem then (case foldSystemTurns req target of (folded, msgs, w) \<Rightarrow> ([], folded, msgs, w))
            else if reqSystem req \<noteq> [] then
              (case blocksText (reqSystem req) ''system[]'' target of (text, w) \<Rightarrow>
                 (if text \<noteq> '''' then [plain_message ''system'' (JStr text)] else [], '''', reqMessages req,
                  w @ concat (map (cacheWarning target) (reqSystem req))))
            else ([], '''', reqMessages req, [])) of
        (lead, folded, msgs, w) \<Rightarrow>
          let prefill = (msgs \<noteq> [] \<and> isTextOnlyAssistant (last msgs)) in
          case oc_render_turns raw_text 0 (if prefill then butlast msgs else msgs) target echo of (outs, ws) \<Rightarrow>
            (if folded \<noteq> '''' then prependToFirstUser (lead @ outs) folded else lead @ outs,
             w @ (if prefill then [prefill_warning target] else []) @ ws))"

section \<open>Quirks\<close>

definition quirksOf :: "Preset \<Rightarrow> string list" where
  "quirksOf p = filter (\<lambda>q. \<not> Contains q ''='') (psQuirks p)"

definition QuirksFor :: "Presets \<Rightarrow> string \<Rightarrow> string list" where
  "QuirksFor presets preset =
     (if preset = '''' then [] else case map_of presets preset of None \<Rightarrow> [] | Some p \<Rightarrow> quirksOf p)"

definition normalizeBase :: "string \<Rightarrow> string" where
  "normalizeBase u = ToLower (TrimSlashes (TrimSpace u))"

definition quirksForTarget :: "Presets \<Rightarrow> Target \<Rightarrow> string list" where
  "quirksForTarget presets t =
     (if taPreset t \<noteq> '''' then QuirksFor presets (taPreset t)
      else if taBaseURL t = '''' then []
      else concat (map (\<lambda>(i, p). quirksOf p)
        (sort_key fst (filter (\<lambda>(i, p). psKind p = ''openaicompat'' \<and> psQuirks p \<noteq> [] \<and>
           normalizeBase (psBaseURL p) = normalizeBase (taBaseURL t)) presets))))"

section \<open>The request\<close>

definition ocw :: "string \<Rightarrow> string \<Rightarrow> Warning" where
  "ocw fld reason = warn compatName fld reason"

definition oc_renderResponseFormat :: "(json \<Rightarrow> json option) \<Rightarrow> ResponseFormat option \<Rightarrow> json option" where
  "oc_renderResponseFormat refloat rf =
     (case rf of
        None \<Rightarrow> None
      | Some f \<Rightarrow>
          if rfType f = ''json_object'' then Some (JObj [(''type'', JStr ''json_object'')])
          else if rfType f = ''json_schema'' then
            Some (JObj [(''json_schema'', JObj
                ([(''name'', JStr (if rfName f = '''' then ''response'' else rfName f)),
                  (''schema'', case JSONSchema refloat (rfSchema f) (rfSchemaDialect f) of None \<Rightarrow> JNull | Some s \<Rightarrow> s)] @
                 (if rfStrict f = Some True then [(''strict'', JBool True)] else []))), (''type'', JStr ''json_schema'')])
          else None)"

definition function_json :: "(json \<Rightarrow> json option) \<Rightarrow> Tool \<Rightarrow> json" where
  "function_json refloat t =
     JObj ([(''description'', JStr (toolDescription t)), (''name'', JStr (toolName t)),
       (''parameters'', case JSONSchema refloat (toolSchema t) (toolSchemaDialect t) of None \<Rightarrow> JNull | Some s \<Rightarrow> s)] @
       opt ''strict'' (map_of (toolExtra t) ''strict''))"

fun oc_renderTools :: "(json \<Rightarrow> json option) \<Rightarrow> Tool list \<Rightarrow> json list \<times> Warning list" where
  "oc_renderTools refloat [] = ([], [])"
| "oc_renderTools refloat (t # ts) =
     (case oc_renderTools refloat ts of (out, ws) \<Rightarrow>
        if BuiltIn t then
          (out, map (\<lambda>(k, v). ocw (''tools[].'' @ k) ''provider built-in tool has no equivalent; the tool was dropped'') (toolExtra t) @ ws)
        else if map_of (toolExtra t) ''type'' \<noteq> None then
          (out, ocw ''tools[].type'' ''typed server tool has no equivalent; the tool was dropped'' # ws)
        else
          (JObj [(''function'', function_json refloat t), (''type'', JStr ''function'')] # out,
           map (\<lambda>k. ocw (''tools[].'' @ k) ''field has no equivalent in an OpenAI function definition; it was dropped'')
             (filter (\<lambda>k. k \<noteq> ''strict'') (sort (map fst (toolExtra t)))) @ ws))"

definition oc_renderToolChoice :: "ToolChoice \<Rightarrow> json" where
  "oc_renderToolChoice tc =
     (if tcMode tc = ''auto'' \<or> tcMode tc = ''none'' then JStr (tcMode tc)
      else if tcMode tc = ''any'' then JStr ''required''
      else if tcMode tc = ''tool'' then
        JObj [(''function'', JObj [(''name'', JStr (ToolChoice.tcName tc))]), (''type'', JStr ''function'')]
      else JStr ''auto'')"

definition forwardableMetadata :: "(string, string) gomap \<Rightarrow> (string, string) gomap" where
  "forwardableMetadata md = filter (\<lambda>(k, v). \<not> HasPrefix k ''anthropic_'') md"

text \<open>The effort a request is sent with, and what is said of the rest.\<close>

definition oc_effort :: "bool \<Rightarrow> Reasoning option \<Rightarrow> json option \<times> Warning list" where
  "oc_effort strict rs =
     (case rs of
        None \<Rightarrow> (None, [])
      | Some r \<Rightarrow>
          if rsDisabled r then
            (None, [ocw ''reasoning.disabled'' ''no switch to turn thinking off; the request was sent without a reasoning_effort''])
          else if strict \<and> (rsEffort r \<noteq> '''' \<or> rsBudget r > 0) then
            (None, [ocw ''reasoning.effort'' ''the target rejects unknown fields and reasoning_effort is not one it knows''])
          else if rsEffort r \<noteq> '''' then (Some (JStr (rsEffort r)), [])
          else if rsBudget r > 0 then
            (Some (JStr (BudgetEffort (rsBudget r))), [ocw ''reasoning.budget'' ''converted to the nearest reasoning_effort band''])
          else (None, []))"

definition oc_parallel :: "bool \<Rightarrow> bool \<Rightarrow> bool option \<Rightarrow> json option \<times> Warning list" where
  "oc_parallel none strict p =
     (case p of
        None \<Rightarrow> (None, [])
      | Some b \<Rightarrow>
          if none then
            (None, [ocw ''parallel_tool_calls'' ''the target does not accept parallel_tool_calls; the field was dropped''])
          else if strict then
            (None, [ocw ''parallel_tool_calls'' ''the target rejects unknown fields; parallel_tool_calls was dropped''])
          else (Some (JBool b), []))"

definition oc_metadata :: "bool \<Rightarrow> (string, string) gomap \<Rightarrow> json option \<times> Warning list" where
  "oc_metadata strict md =
     (let f = forwardableMetadata md in
      if f = [] then (None, [])
      else if strict then (None, [ocw ''metadata'' ''the target rejects unknown fields; metadata was dropped''])
      else (Some (JObj (sort_key fst (map (\<lambda>(k, v). (k, JStr v)) f))), []))"

definition oc_cap :: "string list \<Rightarrow> Target \<Rightarrow> Request \<Rightarrow> json option \<times> Warning list" where
  "oc_cap q t req =
     (if ''requires-max-tokens'' \<in> set q then
        (case RequiredMaxTokens req compatName (maxOutput (taInfo t)) of (n, w) \<Rightarrow> (Some (JInt n), w))
      else (map_option JInt (reqMaxTokens req), []))"

definition oc_top_p :: "string list \<Rightarrow> Request \<Rightarrow> json option \<times> Warning list" where
  "oc_top_p q req =
     (case reqTopP req of
        None \<Rightarrow> (None, [])
      | Some p \<Rightarrow>
          if ''temperature-top-p-exclusive'' \<in> set q \<and> reqTemperature req \<noteq> None then
            (None, [ocw ''top_p'' ''the target accepts temperature or top_p, not both; top_p was dropped''])
          else (Some p, []))"

text \<open>The members the canonical request gives, before what it carries verbatim.\<close>

definition oc_base :: "(json \<Rightarrow> string) \<Rightarrow> (json \<Rightarrow> json option) \<Rightarrow> string list \<Rightarrow> Target \<Rightarrow> Request \<Rightarrow> members \<times> Warning list" where
  "oc_base raw_text refloat q t req =
     (let strict = (''strict-unknown-fields'' \<in> set q);
          cap_key = (if ''max-completion-tokens-name'' \<in> set q then ''max_completion_tokens'' else ''max_tokens'') in
      case oc_renderMessages raw_text req compatName (''no-system-role'' \<in> set q) (''echo-reasoning-content'' \<in> set q) of (msgs, w_msgs) \<Rightarrow>
      case oc_cap q t req of (cap, w_cap) \<Rightarrow>
      case oc_top_p q req of (top_p, w_p) \<Rightarrow>
      case oc_effort strict (reqReasoning req) of (effort, w_r) \<Rightarrow>
      case oc_parallel (''no-parallel-tool-calls'' \<in> set q) strict (reqParallelToolCalls req) of (par, w_par) \<Rightarrow>
      case oc_metadata strict (reqMetadata req) of (md, w_md) \<Rightarrow>
      case oc_renderTools refloat (reqTools req) of (tools, w_tools) \<Rightarrow>
        (opt cap_key cap @
         [(''messages'', jslice (map JObj msgs))] @
         opt ''metadata'' md @
         [(''model'', JStr (taModel t))] @
         opt ''parallel_tool_calls'' par @
         opt ''reasoning_effort'' effort @
         opt ''response_format'' (oc_renderResponseFormat refloat (reqResponseFormat req)) @
         opt ''stop'' (only_if (reqStopSequences req \<noteq> []) (jstrings (reqStopSequences req))) @
         opt ''temperature'' (reqTemperature req) @
         opt ''tool_choice'' (map_option oc_renderToolChoice (reqToolChoice req)) @
         opt ''tools'' (only_if (tools \<noteq> []) (JArr tools)) @
         opt ''top_p'' top_p,
         w_msgs @ w_cap @ w_p @
         (if reqTopK req \<noteq> None then [ocw ''top_k'' ''no equivalent parameter''] else []) @
         (if reqSafety req \<noteq> [] then [ocw ''safety'' ''safety settings are Gemini-only''] else []) @
         w_r @ w_par @ w_md @ w_tools))"

definition fill_extra :: "(string, json) gomap \<Rightarrow> members \<Rightarrow> members" where
  "fill_extra extra body = fold (\<lambda>(k, v) b. if map_of b k = None then member_put k v b else b) extra body"

definition oc_streaming :: "string list \<Rightarrow> Request \<Rightarrow> bool" where
  "oc_streaming q req = (reqStream req \<and> \<not> (reqTools req \<noteq> [] \<and> ''no-tool-streaming'' \<in> set q))"

definition oc_request_body :: "(json \<Rightarrow> string) \<Rightarrow> (json \<Rightarrow> json option) \<Rightarrow> string list \<Rightarrow> Target \<Rightarrow> Request \<Rightarrow> members \<times> Warning list" where
  "oc_request_body raw_text refloat q t req =
     (case oc_base raw_text refloat q t req of (base, ws) \<Rightarrow>
        let b1 = fill_extra (reqExtra req) base;
            b2 = (if oc_streaming q req then member_put ''stream'' (JBool True) b1 else b1);
            b3 = (if oc_streaming q req \<and> ''strict-unknown-fields'' \<notin> set q
              then member_put ''stream_options'' (JObj [(''include_usage'', JBool True)]) b2 else b2)
        in (b3, ws @ (if reqStream req \<and> \<not> oc_streaming q req
              then [ocw ''stream'' ''the target cannot stream tool calls; the request was sent unary''] else [])))"

definition oc_BuildRequest ::
    "(json \<Rightarrow> string option) \<Rightarrow> (json \<Rightarrow> string) \<Rightarrow> (json \<Rightarrow> json option) \<Rightarrow> (string \<Rightarrow> bool) \<Rightarrow> Presets \<Rightarrow> Target \<Rightarrow> Request \<Rightarrow>
     http_request option \<times> Warning list" where
  "oc_BuildRequest marshal raw_text refloat valid_url presets t req =
     (case oc_request_body raw_text refloat (quirksForTarget presets t) t req of (body, warns) \<Rightarrow>
        (case marshal (JObj body) of
           None \<Rightarrow> (None, warns)
         | Some buf \<Rightarrow>
             let url = TrimSlashes (taBaseURL t) @ ''/chat/completions'' in
             if \<not> valid_url url then (None, warns)
             else (Some \<lparr>hqMethod = ''POST'', hqURL = url,
               hqHeader = [(''Content-Type'', ''application/json'')] @
                 (if taAPIKey t \<noteq> '''' then [(''Authorization'', ''Bearer '' @ taAPIKey t)] else []),
               hqBody = buf\<rparr>, warns)))"

section \<open>What a target's quirks rule out\<close>

lemma fill_extra_get: "map_of (fill_extra extra body) k = (case map_of body k of Some v \<Rightarrow> Some v | None \<Rightarrow> map_of extra k)"
  unfolding fill_extra_def
proof (induction extra arbitrary: body)
  case (Cons e extra)
  obtain k0 v0 where e: "e = (k0, v0)" by (cases e)
  show ?case using Cons.IH by (auto simp: e split: option.splits)
qed (simp split: option.split)

lemma extra_not_managed: "k \<in> {''stream_options'', ''reasoning_effort'', ''metadata'', ''parallel_tool_calls'', ''stream'', ''temperature'',
    ''top_p'', ''max_tokens'', ''max_completion_tokens'', ''messages''} \<Longrightarrow> k \<notin> set extraFields"
  by (auto simp: extraFields_def)

definition cap_name :: "string list \<Rightarrow> string" where
  "cap_name q = (if ''max-completion-tokens-name'' \<in> set q then ''max_completion_tokens'' else ''max_tokens'')"

lemma oc_base_get:
  fixes raw_text refloat q t req
  defines "strict \<equiv> ''strict-unknown-fields'' \<in> set q" and "base \<equiv> fst (oc_base raw_text refloat q t req)"
  shows "map_of base ''metadata'' = fst (oc_metadata strict (reqMetadata req))"
    and "map_of base ''parallel_tool_calls'' = fst (oc_parallel (''no-parallel-tool-calls'' \<in> set q) strict (reqParallelToolCalls req))"
    and "map_of base ''reasoning_effort'' = fst (oc_effort strict (reqReasoning req))"
    and "map_of base ''temperature'' = reqTemperature req"
    and "map_of base ''top_p'' = fst (oc_top_p q req)"
    and "map_of base ''stream'' = None" and "map_of base ''stream_options'' = None"
    and "map_of base (cap_name q) = fst (oc_cap q t req)"
    and "k \<in> {''max_tokens'', ''max_completion_tokens''} \<Longrightarrow> k \<noteq> cap_name q \<Longrightarrow> map_of base k = None"
    and "map_of base ''messages'' = Some (jslice (map JObj (fst (oc_renderMessages raw_text req compatName
      (''no-system-role'' \<in> set q) (''echo-reasoning-content'' \<in> set q)))))"
proof -
  note b = base_def oc_base_def strict_def Let_def case_prod_unfold cap_name_def
  show "map_of base ''metadata'' = fst (oc_metadata strict (reqMetadata req))"
    "map_of base ''parallel_tool_calls'' = fst (oc_parallel (''no-parallel-tool-calls'' \<in> set q) strict (reqParallelToolCalls req))"
    "map_of base ''reasoning_effort'' = fst (oc_effort strict (reqReasoning req))"
    "map_of base ''temperature'' = reqTemperature req" "map_of base ''top_p'' = fst (oc_top_p q req)"
    "map_of base ''stream'' = None" "map_of base ''stream_options'' = None" "map_of base (cap_name q) = fst (oc_cap q t req)"
    "map_of base ''messages'' = Some (jslice (map JObj (fst (oc_renderMessages raw_text req compatName
      (''no-system-role'' \<in> set q) (''echo-reasoning-content'' \<in> set q)))))"
    by (simp_all add: b del: map_of_append)
  show "k \<in> {''max_tokens'', ''max_completion_tokens''} \<Longrightarrow> k \<noteq> cap_name q \<Longrightarrow> map_of base k = None"
    by (auto simp: b simp del: map_of_append split: if_splits)
qed

lemma oc_request_body_get:
  "map_of (fst (oc_request_body raw_text refloat q t req)) k =
     (if oc_streaming q req \<and> k = ''stream'' then Some (JBool True)
      else if oc_streaming q req \<and> ''strict-unknown-fields'' \<notin> set q \<and> k = ''stream_options'' then Some (JObj [(''include_usage'', JBool True)])
      else case map_of (fst (oc_base raw_text refloat q t req)) k of Some v \<Rightarrow> Some v | None \<Rightarrow> map_of (reqExtra req) k)"
  by (simp add: oc_request_body_def Let_def case_prod_unfold fill_extra_get)

lemma captureExtra_keys: "fst ` set (captureExtra j) \<subseteq> set extraFields"
  by (auto simp: captureExtra_def List.map_filter_def split: option.splits if_splits)

text \<open>The messages of a target without a system role hold none, and a target that was not declared to take its reasoning
  back is sent none.\<close>

definition message_allowed :: "bool \<Rightarrow> bool \<Rightarrow> members \<Rightarrow> bool" where
  "message_allowed no_system echo m =
     ((no_system \<longrightarrow> map_of m ''role'' \<noteq> Some (JStr ''system'')) \<and> (\<not> echo \<longrightarrow> map_of m ''reasoning_content'' = None))"

lemma gather_no_reasoning:
  "gather_assistant raw_text pos target False bs t0 reasoning calls = (x, r, c, ws) \<Longrightarrow> r = reasoning"
proof (induction bs arbitrary: t0 calls x c ws)
  case (Cons b bs)
  then show ?case by (cases "cbType b") (auto simp: Let_def split: prod.splits option.splits)
qed simp

lemma plain_allowed: "role \<noteq> ''system'' \<Longrightarrow> message_allowed ns echo (plain_message role c)" "message_allowed False echo (plain_message role c)"
  by (simp_all add: message_allowed_def plain_message_def)

lemma render_message_allowed:
  assumes "oc_renderMessage raw_text pos m target echo = (out, ws)" "ns \<Longrightarrow> msgRole m \<noteq> RoleSystem"
  shows "list_all (message_allowed ns echo) out"
proof -
  consider (sys) "msgRole m = RoleSystem" | (asst) "msgRole m = RoleAssistant" | (user) "msgRole m \<noteq> RoleSystem" "msgRole m \<noteq> RoleAssistant"
    by blast
  then show ?thesis
  proof cases
    case sys
    then have "\<not> ns" using assms(2) by blast
    then show ?thesis using assms(1) sys plain_allowed(2) by (auto simp: oc_renderMessage_def Let_def split: prod.splits if_splits)
  next
    case asst
    obtain x r c w where g: "gather_assistant raw_text pos target echo (msgContent m) '''' '''' [] = (x, r, c, w)" by (metis prod_cases4)
    have "\<not> echo \<longrightarrow> r = ''''" using g gather_no_reasoning by (cases echo) auto
    then have "message_allowed ns echo (assistant_message (x, r, c))"
      by (auto simp: message_allowed_def assistant_message_def opt_def only_if_def)
    then show ?thesis using assms asst g by (auto simp: oc_renderMessage_def Let_def)
  next
    case user
    have "message_allowed ns echo (tool_message tr)" for tr by (simp add: message_allowed_def tool_message_def)
    then show ?thesis using assms(1) user plain_allowed(1)
      by (auto simp: oc_renderMessage_def Let_def list_all_iff split: prod.splits if_splits)
  qed
qed

lemma render_turns_allowed:
  "oc_render_turns raw_text pos ms target echo = (out, ws) \<Longrightarrow> (ns \<Longrightarrow> \<forall>m \<in> set ms. msgRole m \<noteq> RoleSystem) \<Longrightarrow>
   list_all (message_allowed ns echo) out"
proof (induction ms arbitrary: pos out ws)
  case (Cons m ms)
  then show ?case using render_message_allowed[of raw_text pos m target echo _ _ ns]
    by (fastforce split: prod.splits)
qed simp

lemma with_text_allowed: "message_allowed ns echo (with_text t m) = message_allowed ns echo m"
  by (simp add: message_allowed_def with_text_def)

lemma prepend_allowed:
  assumes "list_all (message_allowed ns echo) ms"
  shows "list_all (message_allowed ns echo) (prependToFirstUser ms t)"
proof -
  have "list_all (message_allowed ns echo) ms \<Longrightarrow> prepend_loop ms t = Some out \<Longrightarrow> list_all (message_allowed ns echo) out" for ms out
    by (induction ms arbitrary: out) (auto simp: with_text_allowed split: if_splits)
  then show ?thesis using assms plain_allowed(1)[of "''user''"]
    by (auto simp: prependToFirstUser_def split: option.split)
qed

lemma messages_allowed: "list_all (message_allowed ns echo) (fst (oc_renderMessages raw_text req target ns echo))"
proof (cases ns)
  case True
  have "fst (snd (foldSystemTurns req target)) = filter (\<lambda>m. msgRole m \<noteq> RoleSystem) (reqMessages req)"
    by (simp add: foldSystemTurns_def Let_def)
  then obtain folded w where f: "foldSystemTurns req target = (folded, filter (\<lambda>m. msgRole m \<noteq> RoleSystem) (reqMessages req), w)"
    by (metis prod.collapse)
  let ?msgs = "filter (\<lambda>m. msgRole m \<noteq> RoleSystem) (reqMessages req)"
  let ?ms = "if ?msgs \<noteq> [] \<and> isTextOnlyAssistant (last ?msgs) then butlast ?msgs else ?msgs"
  obtain outs ws where t: "oc_render_turns raw_text 0 ?ms target echo = (outs, ws)" by fastforce
  have "\<forall>m \<in> set ?ms. msgRole m \<noteq> RoleSystem" by (auto dest: in_set_butlastD)
  then have "list_all (message_allowed ns echo) outs" using render_turns_allowed[OF t] by blast
  then show ?thesis using True t prepend_allowed by (simp add: oc_renderMessages_def f Let_def)
next
  case False
  obtain t0 w0 where bt: "blocksText (reqSystem req) ''system[]'' target = (t0, w0)" by fastforce
  obtain lead w where l: "(if reqSystem req \<noteq> [] then
      (case blocksText (reqSystem req) ''system[]'' target of (text, w) \<Rightarrow>
                 (if text \<noteq> '''' then [plain_message ''system'' (JStr text)] else [], '''' :: string, reqMessages req,
                  w @ concat (map (cacheWarning target) (reqSystem req)))) else ([], '''', reqMessages req, [])) = (lead, '''', reqMessages req, w)"
    "list_all (message_allowed ns echo) lead"
    using plain_allowed(2) False by (cases "reqSystem req = []"; cases "t0 = ''''") (simp_all add: bt)
  let ?ms = "if reqMessages req \<noteq> [] \<and> isTextOnlyAssistant (last (reqMessages req)) then butlast (reqMessages req) else reqMessages req"
  obtain outs ws where t: "oc_render_turns raw_text 0 ?ms target echo = (outs, ws)" by fastforce
  have "list_all (message_allowed ns echo) outs" using render_turns_allowed[OF t, of ns] False by blast
  then show ?thesis using False t l by (simp add: oc_renderMessages_def Let_def)
qed

text \<open>What each quirk leaves of the request, member by member: \<open>mx\<close> is the output limit the catalogue knows, 0 for none.\<close>

definition cap_due :: "int \<Rightarrow> int option \<Rightarrow> json option \<Rightarrow> bool" where
  "cap_due mx asked sent =
     (\<exists>n > 0. sent = Some (JInt n) \<and> (0 < mx \<longrightarrow> n \<le> mx) \<and>
        (\<forall>a. asked = Some a \<longrightarrow> 0 < a \<longrightarrow> n = (if 0 < mx then min a mx else a)))"

definition quirks_ok :: "string list \<Rightarrow> int \<Rightarrow> Request \<Rightarrow> members \<Rightarrow> bool" where
  "quirks_ok q mx req body =
     (let strict = ''strict-unknown-fields'' \<in> set q;
          streaming = (reqStream req \<and> \<not> (''no-tool-streaming'' \<in> set q \<and> reqTools req \<noteq> []));
          cap = (if ''max-completion-tokens-name'' \<in> set q then ''max_completion_tokens'' else ''max_tokens'');
          other = (if ''max-completion-tokens-name'' \<in> set q then ''max_tokens'' else ''max_completion_tokens'') in
      (if ''requires-max-tokens'' \<in> set q then cap_due mx (reqMaxTokens req) (map_of body cap)
       else map_of body cap = map_option JInt (reqMaxTokens req)) \<and>
      map_of body other = None \<and>
      map_of body ''temperature'' = reqTemperature req \<and>
      map_of body ''top_p'' =
        (if ''temperature-top-p-exclusive'' \<in> set q \<and> reqTemperature req \<noteq> None then None else reqTopP req) \<and>
      map_of body ''parallel_tool_calls'' =
        (if ''no-parallel-tool-calls'' \<in> set q \<or> strict then None else map_option JBool (reqParallelToolCalls req)) \<and>
      (strict \<longrightarrow> map_of body ''reasoning_effort'' = None \<and> map_of body ''metadata'' = None) \<and>
      map_of body ''stream'' = (if streaming then Some (JBool True) else None) \<and>
      map_of body ''stream_options'' = (if streaming \<and> \<not> strict then Some (JObj [(''include_usage'', JBool True)]) else None) \<and>
      (\<exists>msgs. map_of body ''messages'' = Some (jslice (map JObj msgs)) \<and>
        list_all (message_allowed (''no-system-role'' \<in> set q) (''echo-reasoning-content'' \<in> set q)) msgs))"

lemma required_cap_due: "cap_due mx (reqMaxTokens req) (Some (JInt (fst (RequiredMaxTokens req target mx))))"
  using RequiredMaxTokens_pos[of req target mx]
  by (auto simp: cap_due_def RequiredMaxTokens_def DefaultMaxTokens_def min_def split: option.splits)

text \<open>C23. A request built for an OpenAI-compatible target is what its preset's quirks leave of the client's: the cap is under the
  one name the target has and is the client's own, or where one is demanded a positive one that keeps to the client's wish and the model's limit;
  top_p goes only where the two samplers exclude each other and both were given; the parallel-call switch only where
  there is none or the target is strict; a strict target gets no reasoning effort, metadata or stream options; a request
  is streamed when the client asked, unless it has tools and the target cannot stream their calls; no system message is
  sent where there is no such role, and no reasoning back where it was not declared. This holds whatever OpenAI-only
  fields the client's request carried along.\<close>

theorem quirks_respected:
  assumes "fst ` set (reqExtra req) \<subseteq> set extraFields"
  shows "quirks_ok q (maxOutput (taInfo t)) req (fst (oc_request_body raw_text refloat q t req))"
proof -
  let ?body = "fst (oc_request_body raw_text refloat q t req)" and ?base = "fst (oc_base raw_text refloat q t req)"
  have extra: "map_of (reqExtra req) k = None" if "k \<notin> set extraFields" for k
    using that assms by (auto simp: map_of_eq_None_iff)
  have managed: "k \<in> {''stream_options'', ''reasoning_effort'', ''metadata'', ''parallel_tool_calls'', ''stream'', ''temperature'',
      ''top_p'', ''max_tokens'', ''max_completion_tokens'', ''messages''} \<Longrightarrow> map_of (reqExtra req) k = None" for k
    by (rule extra, rule extra_not_managed) auto
  have get: "map_of ?body k = map_of ?base k"
    if "k \<in> {''reasoning_effort'', ''metadata'', ''parallel_tool_calls'', ''temperature'', ''top_p'', ''max_tokens'', ''max_completion_tokens'', ''messages''}" for k
  proof -
    have "k \<noteq> ''stream''" "k \<noteq> ''stream_options''" using that by fastforce+
    moreover have "map_of (reqExtra req) k = None" by (rule managed, rule subsetD[OF _ that]) simp
    ultimately show ?thesis by (simp add: oc_request_body_get split: option.split)
  qed
  note base = oc_base_get[where raw_text = raw_text and refloat = refloat and q = q and t = t and req = req]
  have names: "cap_name q \<in> {''max_tokens'', ''max_completion_tokens''}" by (simp add: cap_name_def)
  have cap: "map_of ?body (cap_name q) = fst (oc_cap q t req)"
  proof -
    have "map_of ?body (cap_name q) = map_of ?base (cap_name q)" by (rule get) (use names in blast)
    then show ?thesis using base(8) by simp
  qed
  have other: "map_of ?body k = None" if "k \<in> {''max_tokens'', ''max_completion_tokens''}" "k \<noteq> cap_name q" for k
  proof -
    have "map_of ?body k = map_of ?base k" by (rule get) (use that(1) in blast)
    then show ?thesis using base(9)[OF that] by simp
  qed
  have stream: "map_of ?body ''stream'' = (if oc_streaming q req then Some (JBool True) else None)"
    using managed[of "''stream''"] base(6) by (simp add: oc_request_body_get)
  have opts: "map_of ?body ''stream_options'' =
      (if oc_streaming q req \<and> ''strict-unknown-fields'' \<notin> set q then Some (JObj [(''include_usage'', JBool True)]) else None)"
    using managed[of "''stream_options''"] base(7) by (simp add: oc_request_body_get)
  have caps: "if ''requires-max-tokens'' \<in> set q then cap_due (maxOutput (taInfo t)) (reqMaxTokens req) (map_of ?body (cap_name q))
      else map_of ?body (cap_name q) = map_option JInt (reqMaxTokens req)"
    using required_cap_due[of "maxOutput (taInfo t)" req compatName] by (simp add: cap oc_cap_def case_prod_unfold)
  have top: "map_of ?body ''top_p'' =
      (if ''temperature-top-p-exclusive'' \<in> set q \<and> reqTemperature req \<noteq> None then None else reqTopP req)"
    using get base(5) by (simp add: oc_top_p_def split: option.split)
  have par: "map_of ?body ''parallel_tool_calls'' =
      (if ''no-parallel-tool-calls'' \<in> set q \<or> ''strict-unknown-fields'' \<in> set q then None else map_option JBool (reqParallelToolCalls req))"
    using get base(2) by (simp add: oc_parallel_def split: option.split)
  have strict: "''strict-unknown-fields'' \<in> set q \<longrightarrow> map_of ?body ''reasoning_effort'' = None \<and> map_of ?body ''metadata'' = None"
    using get base(1,3) by (auto simp: oc_metadata_def oc_effort_def Let_def split: option.splits)
  have msgs: "\<exists>msgs. map_of ?body ''messages'' = Some (jslice (map JObj msgs)) \<and>
      list_all (message_allowed (''no-system-role'' \<in> set q) (''echo-reasoning-content'' \<in> set q)) msgs"
    using get[of "''messages''"] base(10) messages_allowed by auto
  have temp: "map_of ?body ''temperature'' = reqTemperature req" using get[of "''temperature''"] base(4) by simp
  have live: "oc_streaming q req \<longleftrightarrow> reqStream req \<and> \<not> (''no-tool-streaming'' \<in> set q \<and> reqTools req \<noteq> [])"
    by (auto simp: oc_streaming_def)
  have none: "map_of ?body (if ''max-completion-tokens-name'' \<in> set q then ''max_tokens'' else ''max_completion_tokens'') = None"
    by (rule other) (simp_all add: cap_name_def)
  show ?thesis unfolding quirks_ok_def Let_def live[symmetric]
    using caps[unfolded cap_name_def] none temp top par strict stream opts msgs by (intro conjI)
qed

section \<open>Reading back what the adapter sends\<close>

lemma openai_keys [json_keys]:
  "ToLower ''tool_call_id'' = ''tool_call_id''" "ToLower ''tool_calls'' = ''tool_calls''" "ToLower ''reasoning_content'' = ''reasoning_content''"
  "ToLower ''function'' = ''function''" "ToLower ''arguments'' = ''arguments''" "ToLower ''image_url'' = ''image_url''"
  "ToLower ''input_audio'' = ''input_audio''" "ToLower ''file'' = ''file''" "ToLower ''format'' = ''format''"
  "ToLower ''file_data'' = ''file_data''" "ToLower ''filename'' = ''filename''"
  by code_simp+

text \<open>A media type a data URI carries as it is.\<close>

definition uri_mime :: "string \<Rightarrow> bool" where
  "uri_mime mime = (TrimSpace mime = mime \<and> mime \<noteq> '''' \<and> CHR '';'' \<notin> set mime \<and> CHR '','' \<notin> set mime)"

lemma Split_one: "c \<notin> set a \<Longrightarrow> Split c (a @ c # b) = a # Split c b"
  by (induction a) auto

lemma Split_none: "c \<notin> set a \<Longrightarrow> Split c a = [a]"
  by (induction a) auto

lemma split_plain: "\<not> HasPrefix u ''data:'' \<Longrightarrow> splitDataURI u = ('''', u)"
  by (simp add: splitDataURI_def)

lemma splitDataURI_data_uri: "uri_mime (MIME m) \<Longrightarrow> splitDataURI (data_uri m) = (MIME m, Data m)"
proof -
  assume m: "uri_mime (MIME m)"
  have c: "Cut (CHR '','') (MIME m @ '';base64,'' @ Data m) = Some (MIME m @ '';base64'', Data m)"
    using m by (simp add: Cut_Some_iff uri_mime_def)
  have s: "Split (CHR '';'') (MIME m @ '';base64'') = [MIME m, ''base64'']"
    using m Split_one[of "CHR '';''" "MIME m" "''base64''"] by (simp add: uri_mime_def)
  have "ToLower ''base64'' = ''base64''" by code_simp
  then show ?thesis using m c s by (simp add: splitDataURI_def data_uri_def dataURIParts_def Let_def uri_mime_def)
qed

definition openai_part :: "ContentBlock \<Rightarrow> bool" where
  "openai_part b =
     (b = text_block (cbText b) \<or>
      (case cbMedia b of
         None \<Rightarrow> False
       | Some m \<Rightarrow> b = media_block (cbType b) m \<and>
           (case cbType b of
              BlockImage \<Rightarrow> FileID m = '''' \<and>
                (URL m = '''' \<and> uri_mime (MIME m) \<and> Data m \<noteq> '''' \<or>
                 URL m \<noteq> '''' \<and> \<not> HasPrefix (URL m) ''data:'' \<and> MIME m = '''' \<and> Data m = '''')
            | BlockAudio \<Rightarrow> URL m = '''' \<and> FileID m = '''' \<and> MIME m \<in> {''audio/wav'', ''audio/mp3''} \<and> Data m \<noteq> ''''
            | BlockDocument \<Rightarrow> URL m = '''' \<and>
                (FileID m \<noteq> '''' \<and> MIME m = '''' \<and> Data m = '''' \<or> FileID m = '''' \<and> uri_mime (MIME m) \<and> Data m \<noteq> '''')
            | _ \<Rightarrow> False)))"

lemma data_uri_longer: "Data m \<noteq> data_uri m"
proof -
  have "length (Data m) < length (data_uri m)" by (simp add: data_uri_def)
  then show ?thesis by auto
qed

lemma part_back:
  assumes "openai_part b"
  shows "\<exists>j w. renderPart target b = ([j], []) \<and> dec_part j zero_part = Some w \<and> parse_part tbe w = ([b], [])"
proof (cases "b = text_block (cbText b)")
  case True
  then have "cbType b = BlockText" by (metis ContentBlock.sel(1) text_block_def)
  then show ?thesis using True
    by (simp add: renderPart_def part_json_def dec_part_def zero_part_def json_keys parse_part_def)
next
  case False
  then obtain m where m: "cbMedia b = Some m" "b = media_block (cbType b) m" using assms by (auto simp: openai_part_def split: option.splits)
  note eval = renderPart_def part_json_def dec_part_def zero_part_def json_keys parse_part_def dec_imageURL_def dec_inputAudio_def dec_file_def
    Let_def
  show ?thesis
  proof (cases "cbType b")
    case BlockImage
    then show ?thesis using assms False m splitDataURI_data_uri[of m] data_uri_longer[of m]
      by (cases m) (auto simp: openai_part_def eval split_plain data_uri_def[of m])
  next
    case BlockAudio
    then show ?thesis using assms False m by (cases m) (auto simp: openai_part_def eval audioFormat_def)
  next
    case BlockDocument
    then show ?thesis using assms False m splitDataURI_data_uri[of m]
      by (cases m) (auto simp: openai_part_def eval fileMedia_def uri_mime_def splitDataURI_def[of "[]"])
  qed (use assms False m in \<open>auto simp: openai_part_def\<close>)
qed

lemma parts_back:
  assumes "list_all openai_part bs"
  shows "\<exists>ws. dec_elems zero_part dec_part (concat (map fst (map (renderPart target) bs))) [] = Some ws \<and>
    concat (map snd (map (renderPart target) bs)) = [] \<and>
    concat (map fst (map (parse_part tbe) ws)) = bs \<and> concat (map snd (map (parse_part tbe) ws)) = []"
  using assms
proof (induction bs)
  case (Cons b bs)
  then obtain ws where ih: "dec_elems zero_part dec_part (concat (map fst (map (renderPart target) bs))) [] = Some ws"
    "concat (map snd (map (renderPart target) bs)) = []"
    "concat (map fst (map (parse_part tbe) ws)) = bs" "concat (map snd (map (parse_part tbe) ws)) = []" by auto
  obtain j w where p: "renderPart target b = ([j], [])" "dec_part j zero_part = Some w" "parse_part tbe w = ([b], [])"
    using part_back[of b target tbe] Cons.prems by auto
  show ?case by (intro exI[of _ "w # ws"]) (use ih p in simp)
qed simp

text \<open>The turns an OpenAI client sends, in the form the parser gives them: content given as one string or as parts, a
  result's content as text. \<open>arg\<close> says of a call's arguments that they read back from their own bytes.\<close>

definition user_turn :: "Message \<Rightarrow> bool" where
  "user_turn m = (msgRole m = RoleUser \<and> msgContent m \<noteq> [] \<and> list_all openai_part (msgContent m))"

definition system_turn :: "Message \<Rightarrow> bool" where
  "system_turn m = (msgRole m = RoleSystem \<and> (\<exists>ss. concat ss \<noteq> '''' \<and> msgContent m = map text_block ss))"

definition result_turn :: "Message \<Rightarrow> bool" where
  "result_turn m = (msgRole m = RoleTool \<and> (\<exists>i ss. i \<noteq> '''' \<and> msgContent m = [result_block i (map text_block ss)]))"

definition reasoning_block :: "string \<Rightarrow> ContentBlock" where
  "reasoning_block s = ContentBlock BlockThinking '''' None (Some \<lparr>thText = s, thSignature = '''', thData = ''''\<rparr>) None None None []"

definition assistant_turn :: "(json \<Rightarrow> bool) \<Rightarrow> bool \<Rightarrow> Message \<Rightarrow> bool" where
  "assistant_turn arg echo m = (msgRole m = RoleAssistant \<and>
     (\<exists>th ss calls. msgContent m = map reasoning_block th @ map text_block ss @ map (\<lambda>(i, n, a). use_block i n a) calls \<and>
        length th \<le> (if echo then 1 else 0) \<and> list_all (\<lambda>s. s \<noteq> '''') th \<and>
        list_all (\<lambda>(i, n, a). i \<noteq> '''' \<and> arg a) calls))"

definition openai_turns :: "(json \<Rightarrow> bool) \<Rightarrow> bool \<Rightarrow> Message list \<Rightarrow> bool" where
  "openai_turns arg echo ms = list_all (\<lambda>m. user_turn m \<or> system_turn m \<or> result_turn m \<or> assistant_turn arg echo m) ms"

text \<open>What is read back of a turn: the text parts of content that is all text have become one string, no part when it is
  empty.\<close>

definition joined :: "ContentBlock list \<Rightarrow> ContentBlock list" where
  "joined bs =
     (if list_all (\<lambda>b. cbType b = BlockText) bs
      then (let s = concat (map cbText bs) in if s = '''' then [] else [text_block s]) else bs)"

definition joined_result :: "ContentBlock \<Rightarrow> ContentBlock" where
  "joined_result b = (case cbToolResult b of Some (ToolResult i c e) \<Rightarrow> result_block i (joined c) | None \<Rightarrow> b)"

definition joined_turn :: "Message \<Rightarrow> Message" where
  "joined_turn m = m\<lparr>msgContent :=
     (if msgRole m = RoleAssistant then
        filter (\<lambda>b. cbType b = BlockThinking) (msgContent m) @ joined (filter (\<lambda>b. cbType b = BlockText) (msgContent m)) @
        filter (\<lambda>b. cbType b = BlockToolUse) (msgContent m)
      else if msgRole m = RoleTool then map joined_result (msgContent m)
      else joined (msgContent m))\<rparr>"

definition sent_turns :: "Message list \<Rightarrow> Message list" where
  "sent_turns ms = (if ms \<noteq> [] \<and> isTextOnlyAssistant (last ms) then butlast ms else ms)"

definition arg_ok :: "(json \<Rightarrow> string) \<Rightarrow> (string \<Rightarrow> json) \<Rightarrow> json \<Rightarrow> bool" where
  "arg_ok raw_text raw_of a = (TrimSpace (raw_text a) \<noteq> '''' \<and> raw_of (raw_text a) = a)"

definition reads_turn :: "(string \<Rightarrow> string) \<Rightarrow> (string \<Rightarrow> json) \<Rightarrow> go_error \<Rightarrow> json \<Rightarrow> Message \<Rightarrow> bool" where
  "reads_turn tbe raw_of de j m =
     (\<exists>w. dec_openaiMessage j zero_openai_message = Some w \<and>
        (\<forall>pos pending. \<exists>pending1. parseMessage tbe raw_of de pos w pending = Inr (m, [], pending1)))"

lemma message_roles: "mapRole ''user'' = RoleUser" "mapRole ''system'' = RoleSystem" "mapRole ''assistant'' = RoleAssistant"
    "mapRole ''tool'' = RoleTool"
  by (simp_all add: mapRole_def)

lemma block_types [simp]:
  "cbType (text_block s) = BlockText" "cbText (text_block s) = s" "cbCacheControl (text_block s) = None"
  "cbType (reasoning_block s) = BlockThinking" "cbCacheControl (reasoning_block s) = None"
  "cbThinking (reasoning_block s) = Some \<lparr>thText = s, thSignature = '''', thData = ''''\<rparr>"
  "cbType (use_block i n a) = BlockToolUse" "cbCacheControl (use_block i n a) = None"
  "cbToolUse (use_block i n a) = Some \<lparr>tuID = i, tuName = n, tuInput = Some a, tuSignature = ''''\<rparr>"
  "cbType (result_block i c) = BlockToolResult" "cbCacheControl (result_block i c) = None"
  "cbToolResult (result_block i c) = Some (ToolResult i c False)"
  "cbToolResult (text_block s) = None"
  by (simp_all add: text_block_def reasoning_block_def use_block_def result_block_def)

lemma plain_back:
  assumes "oq_parseContent tbe de (Some content) = Inr (blocks, [])" "mapRole role \<noteq> RoleTool"
  shows "reads_turn tbe raw_of de (JObj (plain_message role content)) \<lparr>msgRole = mapRole role, msgContent = blocks\<rparr>"
  using assms
  by (auto simp: reads_turn_def plain_message_def dec_openaiMessage_def zero_openai_message_def json_keys parseMessage_def Let_def
      parse_functionCall_def)

lemma text_of_blocks [simp]: "map (cbText \<circ> text_block) ss = ss" "cbType \<circ> text_block = (\<lambda>_. BlockText)"
  by (simp_all add: comp_def)

lemma joined_texts: "joined (map text_block ss) = (if concat ss = '''' then [] else [text_block (concat ss)])"
  by (simp add: joined_def list_all_iff comp_def Let_def)

lemma parse_joined:
  "oq_parseContent tbe de (Some (JStr (concat ss))) = Inr (joined (map text_block ss), [])"
  by (simp add: oq_parseContent_def joined_texts)

lemma user_back:
  assumes "user_turn m"
  shows "\<exists>j. oc_renderMessage raw_text pos m target echo = ([j], []) \<and> reads_turn tbe raw_of de (JObj j) (joined_turn m)"
proof -
  have shape: "cbCacheControl b = None \<and> cbToolResult b = None" if "openai_part b" for b
    using that by (cases b) (auto simp: openai_part_def text_block_def media_block_def split: option.splits)
  then have ct: "openai_part b \<Longrightarrow> cacheWarning target b = []" and nr: "openai_part b \<Longrightarrow> \<not> is_result b" for b
    by (simp_all add: cacheWarning_def is_result_def)
  have op: "list_all openai_part (msgContent m)" and role: "msgRole m = RoleUser" and ne: "msgContent m \<noteq> []"
    using assms by (simp_all add: user_turn_def)
  have res: "turn_results m = []" "hoisted m = []" "filter (\<lambda>b. \<not> is_result b) (msgContent m) = msgContent m"
    using op nr by (auto simp: turn_results_def hoisted_def list_all_iff filter_id_conv filter_empty_conv)
  have cache: "concat (map (cacheWarning target) (msgContent m)) = []" using op ct by (auto simp: list_all_iff)
  obtain content where c: "renderContent (msgContent m) target = (content, [])"
    "oq_parseContent tbe de (Some content) = Inr (joined (msgContent m), [])"
  proof (cases "list_all (\<lambda>b. cbType b = BlockText) (msgContent m)")
    case True
    have "b = text_block (cbText b)" if "b \<in> set (msgContent m)" for b
      using that True op by (auto simp: list_all_iff openai_part_def split: option.splits)
    then have bs: "msgContent m = map text_block (map cbText (msgContent m))" by (simp add: map_idI)
    show thesis
      by (rule that[of "JStr (concat (map cbText (msgContent m)))"])
        (use True parse_joined[of tbe de "map cbText (msgContent m)"] bs in \<open>simp_all add: renderContent_def\<close>)
  next
    case False
    obtain ws where ws: "dec_elems zero_part dec_part (concat (map fst (map (renderPart target) (msgContent m)))) [] = Some ws"
      "concat (map snd (map (renderPart target) (msgContent m))) = []"
      "concat (map fst (map (parse_part tbe) ws)) = msgContent m" "concat (map snd (map (parse_part tbe) ws)) = []"
      using parts_back[OF op] by blast
    show thesis by (rule that[of "JArr (concat (map fst (map (renderPart target) (msgContent m))))"])
      (use False ws in \<open>simp_all add: renderContent_def oq_parseContent_def joined_def Let_def\<close>)
  qed
  have m: "joined_turn m = \<lparr>msgRole = mapRole ''user'', msgContent = joined (msgContent m)\<rparr>"
    using role by (cases m) (simp add: message_roles joined_turn_def)
  have "oc_renderMessage raw_text pos m target echo = ([plain_message ''user'' content], [])"
    using c(1) ne by (simp add: oc_renderMessage_def role res cache Let_def)
  moreover have "reads_turn tbe raw_of de (JObj (plain_message ''user'' content)) (joined_turn m)"
    using plain_back[OF c(2), of "''user''" raw_of] m by (simp add: message_roles)
  ultimately show ?thesis by blast
qed

lemma text_blocks_quiet:
  "concat (map (cacheWarning target) (map text_block ss)) = []" "concat (map cbText (map text_block ss)) = concat ss"
  "filter (\<lambda>b. cbType b = BlockText) (map text_block ss) = map text_block ss"
  "filter (\<lambda>b. cbType b \<noteq> BlockText) (map text_block ss) = []"
  by (auto simp: cacheWarning_def filter_empty_conv filter_id_conv comp_def)

lemma system_back:
  assumes "system_turn m"
  shows "\<exists>j. oc_renderMessage raw_text pos m target echo = ([j], []) \<and> reads_turn tbe raw_of de (JObj j) (joined_turn m)"
proof -
  obtain ss where s: "concat ss \<noteq> ''''" "m = \<lparr>msgRole = RoleSystem, msgContent = map text_block ss\<rparr>"
    using assms by (cases m) (auto simp: system_turn_def)
  have bt: "blocksText (map text_block ss) ''messages[].system'' target = (concat ss, [])"
    unfolding blocksText_def text_blocks_quiet by (simp add: text_blocks_quiet)
  have "oc_renderMessage raw_text pos m target echo = ([plain_message ''system'' (JStr (concat ss))], [])"
    unfolding oc_renderMessage_def Let_def s(2) using s(1) bt text_blocks_quiet(1) by simp
  moreover note plain_back[OF parse_joined, of "''system''" tbe raw_of de ss]
  ultimately show ?thesis by (simp add: message_roles s(2) joined_turn_def)
qed

lemma result_back:
  assumes "result_turn m"
  shows "\<exists>j. oc_renderMessage raw_text pos m target echo = ([j], []) \<and> reads_turn tbe raw_of de (JObj j) (joined_turn m)"
proof -
  obtain i ss where s: "i \<noteq> ''''" "m = \<lparr>msgRole = RoleTool, msgContent = [result_block i (map text_block ss)]\<rparr>"
    using assms by (cases m) (auto simp: result_turn_def)
  have tx: "ToolResult_Text (Some (ToolResult i (map text_block ss) False)) = concat ss"
    by (simp add: ToolResult_Text_def text_blocks_quiet)
  have "filter (\<lambda>b. cbType b \<noteq> BlockText) (map text_block ss) = []" by (rule text_blocks_quiet)
  then have "oc_renderMessage raw_text pos m target echo =
      ([[(''content'', JStr (concat ss)), (''role'', JStr ''tool''), (''tool_call_id'', JStr i)]], [])"
    using tx by (simp add: oc_renderMessage_def s(2) cacheWarning_def turn_results_def is_result_def hoisted_def tool_message_def Let_def)
  moreover have "reads_turn tbe raw_of de (JObj [(''content'', JStr (concat ss)), (''role'', JStr ''tool''), (''tool_call_id'', JStr i)])
      (joined_turn m)"
    using s(1) parse_joined[of tbe de ss]
    by (auto simp: reads_turn_def dec_openaiMessage_def zero_openai_message_def json_keys parseMessage_def Let_def
        message_roles result_id_def s(2) joined_turn_def joined_result_def)
  ultimately show ?thesis by blast
qed

definition client_call :: "(json \<Rightarrow> string) \<Rightarrow> string \<times> string \<times> json \<Rightarrow> wireToolCall" where
  "client_call raw_text c = (case c of (i, n, a) \<Rightarrow> \<lparr>tkID = i, tkFunction = \<lparr>fcName = n, fcArguments = raw_text a\<rparr>\<rparr>)"

definition calls_ok :: "(json \<Rightarrow> string) \<Rightarrow> (string \<Rightarrow> json) \<Rightarrow> (string \<times> string \<times> json) list \<Rightarrow> bool" where
  "calls_ok raw_text raw_of calls = list_all (\<lambda>(i, n, a). i \<noteq> '''' \<and> arg_ok raw_text raw_of a) calls"

lemma gather_calls:
  "calls_ok raw_text raw_of calls \<Longrightarrow>
   gather_assistant raw_text pos target echo (map (\<lambda>(i, n, a). use_block i n a) calls) x r cs =
     (x, r, cs @ map (\<lambda>(i, n, a). call_json i n (raw_text a)) calls, [])"
proof (induction calls arbitrary: cs)
  case (Cons c calls)
  obtain i n a where c: "c = (i, n, a)" by (cases c)
  have "raw_text a \<noteq> ''''" using Cons.prems by (auto simp: calls_ok_def arg_ok_def c TrimSpace_def)
  then show ?case using Cons by (simp add: c calls_ok_def Let_def)
qed simp

lemma decode_calls:
  "dec_elems \<lparr>tkID = '''', tkFunction = zero_call\<rparr> dec_toolCall (map (\<lambda>(i, n, a). call_json i n (raw_text a)) calls) [] =
     Some (map (client_call raw_text) calls)"
  by (induction calls) (auto simp: call_json_def dec_toolCall_def dec_functionCall_def zero_call_def json_keys client_call_def)

lemma parse_calls_back:
  "calls_ok raw_text raw_of calls \<Longrightarrow>
   parse_calls raw_of pos k (map (client_call raw_text) calls) pending = (map (\<lambda>(i, n, a). use_block i n a) calls, pending)"
proof (induction calls arbitrary: k)
  case (Cons c calls)
  then show ?case by (cases c) (simp add: calls_ok_def client_call_def arg_ok_def argumentsOrEmpty_def Let_def)
qed simp

lemma gather_texts:
  "gather_assistant raw_text pos target echo (map text_block ss @ bs) x r cs = gather_assistant raw_text pos target echo bs (x @ concat ss) r cs"
  by (induction ss arbitrary: x) simp_all

lemma assistant_back:
  assumes "assistant_turn (arg_ok raw_text raw_of) echo m"
  shows "\<exists>j. oc_renderMessage raw_text pos m target echo = ([j], []) \<and> reads_turn tbe raw_of de (JObj j) (joined_turn m)"
proof -
  obtain th ss calls where s: "m = \<lparr>msgRole = RoleAssistant,
      msgContent = map reasoning_block th @ map text_block ss @ map (\<lambda>(i, n, a). use_block i n a) calls\<rparr>"
    "length th \<le> (if echo then 1 else 0)" "list_all (\<lambda>s. s \<noteq> '''') th"
    "calls_ok raw_text raw_of calls"
    using assms by (cases m) (auto simp: assistant_turn_def calls_ok_def)
  have th: "th = [] \<or> (\<exists>x. th = [x] \<and> x \<noteq> '''' \<and> echo)" using s(2,3) by (cases th; cases "tl th") (auto split: if_splits)
  have cache: "concat (map (cacheWarning target) (msgContent m)) = []"
    by (auto simp: s(1) cacheWarning_def split: prod.split)
  define cs where "cs = map (\<lambda>(i, n, a). call_json i n (raw_text a)) calls"
  have g: "gather_assistant raw_text pos target echo (msgContent m) '''' '''' [] = (concat ss, concat th, cs, [])"
    using th gather_calls[OF s(4)] by (auto simp: s(1) cs_def gather_texts)
  define j where "j = assistant_message (concat ss, concat th, cs)"
  have roleA: "msgRole m = RoleAssistant" by (simp add: s(1))
  have r: "oc_renderMessage raw_text pos m target echo = ([j], [])"
    unfolding oc_renderMessage_def Let_def g cache roleA by (simp add: j_def)
  have no: "filter (\<lambda>b. cbType b = BlockThinking) (map (\<lambda>(i, n, a). use_block i n a) calls) = []"
    "filter (\<lambda>b. cbType b = BlockText) (map (\<lambda>(i, n, a). use_block i n a) calls) = []"
    "filter (\<lambda>b. cbType b = BlockToolUse) (map (\<lambda>(i, n, a). use_block i n a) calls) = map (\<lambda>(i, n, a). use_block i n a) calls"
    by (auto simp: filter_empty_conv filter_id_conv)
  have jt: "joined_turn m = \<lparr>msgRole = RoleAssistant,
      msgContent = map reasoning_block th @ joined (map text_block ss) @ map (\<lambda>(i, n, a). use_block i n a) calls\<rparr>"
    using th by (auto simp: joined_turn_def s(1) no filter_empty_conv filter_id_conv)
  define w where "w = zero_openai_message\<lparr>qmRole := ''assistant'', qmContent := Some (if concat ss = '''' then JNull else JStr (concat ss)),
      qmReasoningContent := concat th, qmToolCalls := map (client_call raw_text) calls\<rparr>"
  have dec: "dec_openaiMessage (JObj j) zero_openai_message = Some w"
    using decode_calls[of raw_text calls]
    by (cases "concat th = ''''"; cases "cs = []")
      (auto simp: j_def assistant_message_def opt_def dec_openaiMessage_def json_keys w_def zero_openai_message_def cs_def)
  have pc: "oq_parseContent tbe de (Some (if concat ss = '''' then JNull else JStr (concat ss))) = Inr (joined (map text_block ss), [])"
    by (simp add: oq_parseContent_def joined_texts)
  have "\<exists>p. parseMessage tbe raw_of de q w pending = Inr (joined_turn m, [], p)" for q pending
    using th parse_calls_back[OF s(4)] pc
    by (auto simp: parseMessage_def Let_def w_def zero_openai_message_def message_roles parse_functionCall_def jt
        reasoning_block_def)
  with r dec show ?thesis by (auto simp: reads_turn_def)
qed

lemma all_turns_back:
  assumes "openai_turns (arg_ok raw_text raw_of) echo ms"
  shows "\<exists>outs ws. oc_render_turns raw_text pos ms target echo = (outs, []) \<and>
    dec_elems zero_openai_message dec_openaiMessage (map JObj outs) [] = Some ws \<and>
    (\<forall>q pending. oq_parse_messages tbe raw_of de q ws pending = Inr (map joined_turn ms, []))"
  using assms
proof (induction ms arbitrary: pos)
  case (Cons m ms)
  then obtain outs ws where ih: "oc_render_turns raw_text (Suc pos) ms target echo = (outs, [])"
    "dec_elems zero_openai_message dec_openaiMessage (map JObj outs) [] = Some ws"
    "\<forall>q pending. oq_parse_messages tbe raw_of de q ws pending = Inr (map joined_turn ms, [])" by (force simp: openai_turns_def)
  obtain j where j: "oc_renderMessage raw_text pos m target echo = ([j], [])" "reads_turn tbe raw_of de (JObj j) (joined_turn m)"
  proof -
    from Cons.prems consider "user_turn m" | "system_turn m" | "result_turn m" | "assistant_turn (arg_ok raw_text raw_of) echo m"
      by (auto simp: openai_turns_def)
    then have "\<exists>j. oc_renderMessage raw_text pos m target echo = ([j], []) \<and> reads_turn tbe raw_of de (JObj j) (joined_turn m)"
      using user_back system_back result_back assistant_back by cases metis+
    then show thesis using that by blast
  qed
  then obtain w where w: "dec_openaiMessage (JObj j) zero_openai_message = Some w"
    "\<forall>q pending. \<exists>p. parseMessage tbe raw_of de q w pending = Inr (joined_turn m, [], p)" by (auto simp: reads_turn_def)
  have "oq_parse_messages tbe raw_of de q (w # ws) pending = Inr (map joined_turn (m # ms), [])" for q pending
  proof -
    obtain p where "parseMessage tbe raw_of de q w pending = Inr (joined_turn m, [], p)" using w(2) by blast
    then show ?thesis using ih(3) by simp
  qed
  then show ?case using j(1) ih w(1) by (intro exI[of _ "j # outs"] exI[of _ "w # ws"]) simp
qed simp

text \<open>C24. A conversation of an OpenAI client, rendered for an OpenAI-compatible target that has a system role, is read back turn
  for turn: system and user text, images, audio and files, the assistant's text, reasoning where the target takes it,
  calls with their ids and arguments, and the textual results that answer them. The system prompt is a turn, as the OpenAI parser leaves it. Two things happen on the way, and no
  more: text parts that are all of a turn's content are joined into one, and a text-only assistant turn at the end, a
  prefill, is dropped with the one warning there is. The turns covered are those with something to say (a system turn that is not empty, a user turn with a part) and with the media in the
  form the parser gives them; a result that holds an image is not among them, its image moves into a turn of its own.\<close>

theorem openai_turns_round_trip:
  assumes "openai_turns (arg_ok raw_text raw_of) echo (reqMessages req)" "reqSystem req = []"
  shows "\<exists>outs ws. oc_renderMessages raw_text req target False echo =
      (outs, if sent_turns (reqMessages req) = reqMessages req then [] else [prefill_warning target]) \<and>
    dec_slice zero_openai_message dec_openaiMessage (JArr (map JObj outs)) [] = Some ws \<and>
    oq_parse_messages tbe raw_of de 0 ws [] = Inr (map joined_turn (sent_turns (reqMessages req)), [])"
proof -
  have "openai_turns (arg_ok raw_text raw_of) echo (sent_turns (reqMessages req))"
    using assms(1) by (auto simp: openai_turns_def sent_turns_def list_all_iff dest: in_set_butlastD)
  from all_turns_back[OF this, of 0 target tbe de] obtain outs ws where
    r: "oc_render_turns raw_text 0 (sent_turns (reqMessages req)) target echo = (outs, [])"
    "dec_elems zero_openai_message dec_openaiMessage (map JObj outs) [] = Some ws"
    "\<forall>q pending. oq_parse_messages tbe raw_of de q ws pending = Inr (map joined_turn (sent_turns (reqMessages req)), [])"
    by blast
  have b: "butlast ms \<noteq> ms" if "ms \<noteq> []" for ms :: "Message list"
    using that by (metis append_butlast_last_id append_self_conv not_Cons_self2)
  have "oc_renderMessages raw_text req target False echo =
      (outs, if sent_turns (reqMessages req) = reqMessages req then [] else [prefill_warning target])"
    using r(1) assms(2) b[of "reqMessages req"]
    by (cases "reqMessages req \<noteq> [] \<and> isTextOnlyAssistant (last (reqMessages req))")
      (auto simp: oc_renderMessages_def Let_def sent_turns_def split: if_splits)
  then show ?thesis using r(2,3) by (intro exI[of _ outs] exI[of _ ws]) simp
qed

section \<open>Examples\<close>

definition demo_openai_turns :: "Message list" where
  "demo_openai_turns =
     [\<lparr>msgRole = RoleSystem, msgContent = [text_block ''s'']\<rparr>,
      \<lparr>msgRole = RoleUser, msgContent = [text_block ''look'',
         media_block BlockImage \<lparr>MIME = ''image/png'', Data = ''aGk='', URL = [], FileID = []\<rparr>]\<rparr>,
      \<lparr>msgRole = RoleAssistant, msgContent = [reasoning_block ''hm'', text_block ''o'', text_block ''k'', use_block ''c1'' ''f'' (JObj [])]\<rparr>,
      \<lparr>msgRole = RoleTool, msgContent = [result_block ''c1'' [text_block ''r'']]\<rparr>,
      \<lparr>msgRole = RoleAssistant, msgContent = [text_block ''so'']\<rparr>]"

lemma openai_turns_round_trip_witness:
  "\<exists>outs ws. oc_renderMessages (\<lambda>j. ''{}'') ((demo_req demo_openai_turns)\<lparr>reqSystem := []\<rparr>) compatName False True =
       (outs, [prefill_warning compatName]) \<and>
     length outs = 4 \<and>
     dec_slice zero_openai_message dec_openaiMessage (JArr (map JObj outs)) [] = Some ws \<and>
     oq_parse_messages (\<lambda>e. []) (\<lambda>s. JObj []) (plain_error []) 0 ws [] = Inr (map joined_turn (butlast demo_openai_turns), [])"
proof -
  let ?req = "(demo_req demo_openai_turns)\<lparr>reqSystem := []\<rparr>"
  have u: "user_turn \<lparr>msgRole = RoleUser, msgContent = [text_block ''look'',
         media_block BlockImage \<lparr>MIME = ''image/png'', Data = ''aGk='', URL = [], FileID = []\<rparr>]\<rparr>"
    unfolding user_turn_def by (rule conjI, simp, rule conjI, simp, code_simp)
  have sy: "system_turn \<lparr>msgRole = RoleSystem, msgContent = [text_block ''s'']\<rparr>"
    unfolding system_turn_def by (rule conjI, simp, rule exI[of _ "[''s'']"], simp)
  have re: "result_turn \<lparr>msgRole = RoleTool, msgContent = [result_block ''c1'' [text_block ''r'']]\<rparr>"
    unfolding result_turn_def
    by (rule conjI, simp, rule exI[of _ "''c1''"], rule exI[of _ "[''r'']"], simp)
  have ar: "arg_ok (\<lambda>j. ''{}'') (\<lambda>s. JObj []) (JObj [])"
  proof -
    have "TrimSpace ''{}'' \<noteq> ''''" by code_simp
    then show ?thesis by (simp add: arg_ok_def)
  qed
  have a: "assistant_turn (arg_ok (\<lambda>j. ''{}'') (\<lambda>s. JObj [])) True
      \<lparr>msgRole = RoleAssistant, msgContent = [reasoning_block ''hm'', text_block ''o'', text_block ''k'', use_block ''c1'' ''f'' (JObj [])]\<rparr>"
    unfolding assistant_turn_def
    by (intro conjI exI[of _ "[''hm'']"] exI[of _ "[''o'', ''k'']"] exI[of _ "[(''c1'', ''f'', JObj [])]"]) (simp_all add: ar)
  have p: "assistant_turn (arg_ok (\<lambda>j. ''{}'') (\<lambda>s. JObj [])) True \<lparr>msgRole = RoleAssistant, msgContent = [text_block ''so'']\<rparr>"
    unfolding assistant_turn_def
    by (intro conjI exI[of _ "[]"] exI[of _ "[''so'']"] exI[of _ "[] :: (string \<times> string \<times> json) list"]) simp_all
  have ms: "reqMessages ?req = demo_openai_turns" by (simp add: demo_req_def)
  have "openai_turns (arg_ok (\<lambda>j. ''{}'') (\<lambda>s. JObj [])) True (reqMessages ?req)"
    using u a sy re p by (simp add: openai_turns_def demo_req_def demo_openai_turns_def)
  moreover have "reqSystem ?req = []" by simp
  moreover have "sent_turns demo_openai_turns = butlast demo_openai_turns" "butlast demo_openai_turns \<noteq> demo_openai_turns"
    by (simp_all add: sent_turns_def demo_openai_turns_def isTextOnlyAssistant_def)
  ultimately obtain outs ws where r: "oc_renderMessages (\<lambda>j. ''{}'') ?req compatName False True = (outs, [prefill_warning compatName])"
    "dec_slice zero_openai_message dec_openaiMessage (JArr (map JObj outs)) [] = Some ws"
    "oq_parse_messages (\<lambda>e. []) (\<lambda>s. JObj []) (plain_error []) 0 ws [] = Inr (map joined_turn (butlast demo_openai_turns), [])"
    using openai_turns_round_trip[of "\<lambda>j. ''{}''" "\<lambda>s. JObj []" True ?req compatName "\<lambda>e. []" "plain_error []"] unfolding ms by auto
  have "length (fst (oc_renderMessages (\<lambda>j. ''{}'') ?req compatName False True)) = 4" by code_simp
  then show ?thesis using r by auto
qed

definition demo_quirks :: "string list" where
  "demo_quirks = [''strict-unknown-fields'', ''requires-max-tokens'', ''no-tool-streaming'']"

definition demo_openai_req :: Request where
  "demo_openai_req = (demo_req demo_openai_turns)\<lparr>reqExtra := [(''seed'', JInt 7)], reqMetadata := [(''k'', ''v'')],
     reqParallelToolCalls := Some True,
     reqTools := [\<lparr>toolName = ''web'', toolDescription = [], toolSchema = None, toolSchemaDialect = [],
       toolExtra = [(''type'', JStr ''web_search'')]\<rparr>],
     reqToolChoice := Some \<lparr>tcMode = ''tool'', tcName = ''web''\<rparr>\<rparr>"

definition demo_openai_body :: members where
  "demo_openai_body = fst (oc_request_body (\<lambda>j. ''{}'') Some demo_quirks (demo_target zero_traits) demo_openai_req)"

lemma quirks_respected_witness:
  "quirks_ok demo_quirks 8192 demo_openai_req demo_openai_body \<and> map_of demo_openai_body ''max_tokens'' = Some (JInt 3000) \<and>
   map_of demo_openai_body ''metadata'' = None \<and> map_of demo_openai_body ''parallel_tool_calls'' = None"
proof -
  have "fst ` set (reqExtra demo_openai_req) \<subseteq> set extraFields" by (simp add: demo_openai_req_def extraFields_def)
  from quirks_respected[OF this, of demo_quirks "demo_target zero_traits" "\<lambda>j. ''{}''" Some]
  have "quirks_ok demo_quirks 8192 demo_openai_req demo_openai_body"
    by (simp add: demo_openai_body_def demo_target_def maxOutput_def)
  moreover have "map_of demo_openai_body ''max_tokens'' = Some (JInt 3000)" by code_simp
  moreover have "map_of demo_openai_body ''metadata'' = None" by code_simp
  moreover have "map_of demo_openai_body ''parallel_tool_calls'' = None" by code_simp
  ultimately show ?thesis by blast
qed

text \<open>A target that rejects unknown fields is still sent what the client's request carried along, such as a seed; and a choice
  that forces a tool is sent although the tool was dropped and none is declared.\<close>

lemma extra_past_strict:
  "map_of demo_openai_body ''seed'' = Some (JInt 7)"
  "map_of demo_openai_body ''tools'' = None \<and> map_of demo_openai_body ''tool_choice'' \<noteq> None"
  by code_simp+

text \<open>Two results as the OpenAI dialect parses them, a turn each, the first with an image: what moves out of the first comes
  between the two.\<close>

lemma image_splits_results:
  "map (\<lambda>m. map_of m ''role'') (fst (oc_render_turns (\<lambda>j. []) 0
     [\<lparr>msgRole = RoleTool, msgContent = [result_block ''c1'' [media_block BlockImage \<lparr>MIME = [], Data = [], URL = ''u'', FileID = []\<rparr>]]\<rparr>,
      \<lparr>msgRole = RoleTool, msgContent = [result_block ''c2'' [text_block ''r'']]\<rparr>] compatName False)) =
   [Some (JStr ''tool''), Some (JStr ''user''), Some (JStr ''tool'')]"
  by code_simp

end
