(* ===== verification/Gemini_Build.thy ===== *)
theory Gemini_Build
  imports Gemini_Request OpenAI_Build
begin

text \<open>
  The Gemini adapter's request side, \<^verbatim>\<open>internal/adapter/gemini/media.go\<close>, \<^verbatim>\<open>content.go\<close> and \<^verbatim>\<open>build.go\<close>: media, which the
  gateway itself may have to fetch within a budget, the contents array with each function response next to the name
  of its call, the signatures of the current turn, tools, the thinking configuration of each model family, and the
  request.

  Arguments: \<open>unmarshal\<close> and \<open>refloat\<close> as in the other builders. A fetcher is its settings, the URL parser it uses and the
  world that answers it: what the n-th request of a build gets.
\<close>

section \<open>Media\<close>

record fetched =
  ftStatus :: int
  ftType :: string
  ftBody :: string
  ftErr :: "string option"

record fetcher =
  feParse :: "string \<Rightarrow> string + (string \<times> string)"
  feGet :: "nat \<Rightarrow> string \<Rightarrow> string + fetched"
  feMaxBytes :: int
  feInline :: bool

text \<open>What one build may still fetch, and the URLs it has asked for.\<close>

record inline_state =
  isLeft :: int
  isAsked :: "string list"

datatype inline_failure = OverBudget | Failed string

definition gmn :: "string \<Rightarrow> string \<Rightarrow> Warning" where
  "gmn fld reason = warn gm_target fld reason"

definition passthroughURI :: "fetcher \<Rightarrow> string \<Rightarrow> bool" where
  "passthroughURI fe u =
     (if HasPrefix u ''gs://'' then True
      else case feParse fe u of
        Inl e \<Rightarrow> False
      | Inr (scheme, host) \<Rightarrow>
          host \<in> {''generativelanguage.googleapis.com'', ''www.youtube.com'', ''youtube.com'', ''m.youtube.com'', ''youtu.be''})"

definition media_type :: "string \<Rightarrow> string" where
  "media_type ct = (case Cut (CHR '';'') ct of None \<Rightarrow> ct | Some (t, _) \<Rightarrow> TrimSpace t)"

text \<open>One byte past the cap is read, so that a body too large is seen rather than cut.\<close>

definition inline_body :: "fetcher \<Rightarrow> fetched \<Rightarrow> inline_state \<Rightarrow> inline_state \<times> (inline_failure + (string \<times> string))" where
  "inline_body fe r st =
     (if ftStatus r < 200 \<or> ftStatus r \<ge> 300 then (st, Inl (Failed ''gemini: the URL did not return 2xx''))
      else
        let lim = nat (feMaxBytes fe + 1); body = take lim (ftBody r) in
        if length (ftBody r) < lim \<and> ftErr r \<noteq> None then (st, Inl (Failed (the (ftErr r))))
        else if int (length body) > feMaxBytes fe then (st, Inl (Failed ''gemini: the URL exceeded the inline cap''))
        else if int (length body) > isLeft st then (st, Inl OverBudget)
        else (st\<lparr>isLeft := isLeft st - int (length body)\<rparr>, Inr (media_type (ftType r), EncodeToString body)))"

definition inline_url :: "fetcher \<Rightarrow> string \<Rightarrow> inline_state \<Rightarrow> inline_state \<times> (inline_failure + (string \<times> string))" where
  "inline_url fe raw st =
     (case feParse fe raw of
        Inl e \<Rightarrow> (st, Inl (Failed e))
      | Inr (scheme, host) \<Rightarrow>
          if scheme \<noteq> ''http'' \<and> scheme \<noteq> ''https'' then (st, Inl (Failed ''gemini: only http and https URLs are inlined''))
          else
            let st1 = st\<lparr>isAsked := isAsked st @ [raw]\<rparr> in
            (case feGet fe (length (isAsked st)) raw of
               Inl e \<Rightarrow> (st1, Inl (Failed e))
             | Inr r \<Rightarrow> inline_body fe r st1))"

definition inline_part :: "string \<Rightarrow> string \<Rightarrow> members" where
  "inline_part mime dat = [(''inlineData'', JObj [(''data'', JStr dat), (''mimeType'', JStr mime)])]"

definition file_part :: "string \<Rightarrow> string \<Rightarrow> members" where
  "file_part mime uri = [(''fileData'', JObj [(''fileUri'', JStr uri), (''mimeType'', JStr mime)])]"

definition media_part :: "fetcher \<Rightarrow> Media option \<Rightarrow> string \<Rightarrow> inline_state \<Rightarrow> inline_state \<times> (Error + (members option \<times> Warning list))" where
  "media_part fe media fld st =
     (let omit = (\<lambda>reason. Inr (None, [gmn (''messages[].'' @ fld) reason])) in
      case media of
        None \<Rightarrow> (st, omit ''media block carried nothing'')
      | Some m \<Rightarrow>
          if Data m \<noteq> '''' then (st, Inr (Some (inline_part (MIME m) (Data m)), []))
          else if FileID m \<noteq> '''' then (st, Inr (Some (file_part (MIME m) (FileID m)), []))
          else if URL m = '''' then (st, omit ''media block carried neither data nor a URL'')
          else if passthroughURI fe (URL m) then (st, Inr (Some (file_part (MIME m) (URL m)), []))
          else if \<not> feInline fe then (st, omit ''media inlining is disabled'')
          else
            (case inline_url fe (URL m) st of
               (st1, Inl OverBudget) \<Rightarrow>
                 (st1, Inl (mk_error ErrPayloadTooLarge (''media fetched from URLs exceeds '' @ FormatInt (feMaxBytes fe) @
                    '' bytes in total; send large media as a file URI instead'')))
             | (st1, Inl (Failed e)) \<Rightarrow> (st1, omit (''could not inline the URL: '' @ e))
             | (st1, Inr (mime, dat)) \<Rightarrow> (st1, Inr (Some (inline_part (if MIME m \<noteq> '''' then MIME m else mime) dat), []))))"

section \<open>Contents\<close>

type_synonym known_call = "string \<times> string"

definition callByID :: "known_call list \<Rightarrow> string \<Rightarrow> known_call option" where
  "callByID pending i = (if i = '''' then None else List.find (\<lambda>c. fst c = i) pending)"

definition responseStruct :: "(string \<Rightarrow> json option) \<Rightarrow> (json \<Rightarrow> json option) \<Rightarrow> string \<Rightarrow> json" where
  "responseStruct unmarshal refloat text =
     (case unmarshal text of
        Some (JObj ms) \<Rightarrow> (case any_value refloat (JObj ms) of Some v \<Rightarrow> sort_keys v | None \<Rightarrow> JObj [(''result'', JStr text)])
      | _ \<Rightarrow> JObj [(''result'', JStr text)])"

definition response_part :: "string \<Rightarrow> string \<Rightarrow> json \<Rightarrow> members" where
  "response_part i name resp =
     [(''functionResponse'', JObj ((if i \<noteq> '''' then [(''id'', JStr i)] else []) @ [(''name'', JStr name), (''response'', resp)]))]"

definition result_of :: "ContentBlock \<Rightarrow> ToolResult option" where
  "result_of b = (if cbType b = BlockToolResult then cbToolResult b else None)"

text \<open>The calls the results of this turn name.\<close>

definition claimed_ids :: "known_call list \<Rightarrow> ContentBlock list \<Rightarrow> string set" where
  "claimed_ids pending blocks =
     set (map fst (List.map_filter (\<lambda>tr. callByID pending (trToolUseID tr)) (List.map_filter result_of blocks)))"

text \<open>The name a result goes out under: of the call it names, or else of the next one nothing claims.\<close>

definition result_name :: "known_call list \<Rightarrow> string set \<Rightarrow> string \<Rightarrow> nat \<Rightarrow> string \<times> nat" where
  "result_name pending claimed i n =
     (case callByID pending i of
        Some c \<Rightarrow> (snd c, n)
      | None \<Rightarrow>
          let m = next_unnamed (drop n (map fst pending)) claimed n
          in (if m < length pending then snd (pending ! m) else '''', Suc m))"

definition block_cache_warning :: "ContentBlock \<Rightarrow> Warning list" where
  "block_cache_warning b =
     (if cbCacheControl b = None then [] else [gmn ''cache_control'' ''Gemini caches explicitly through cachedContent, not per block''])"

text \<open>Media inside a result, hoisted into parts of their own.\<close>

fun hoist_media :: "fetcher \<Rightarrow> ContentBlock list \<Rightarrow> inline_state \<Rightarrow> inline_state \<times> Warning list \<times> (Error + members list)" where
  "hoist_media fe [] st = (st, [], Inr [])"
| "hoist_media fe (b # bs) st =
     (if cbType b = BlockText then hoist_media fe bs st
      else
        case media_part fe (cbMedia b) (''tool_result.'' @ BlockType_string (cbType b)) st of
          (st1, Inl e) \<Rightarrow> (st1, [], Inl e)
        | (st1, Inr (p, w)) \<Rightarrow>
            let w1 = w @ (if p = None then [] else [gmn (''messages[].tool_result.'' @ BlockType_string (cbType b))
                  ''moved out of the function response, which accepts a JSON struct only'']) in
            (case hoist_media fe bs st1 of
               (st2, ws, Inl e) \<Rightarrow> (st2, w1 @ ws, Inl e)
             | (st2, ws, Inr ps) \<Rightarrow> (st2, w1 @ ws, Inr ((case p of None \<Rightarrow> ps | Some m \<Rightarrow> m # ps)))))"

text \<open>A block of a turn: the parts it becomes and the call it makes. \<open>n\<close> is the place in the pending calls.\<close>

record parts_state =
  psNext :: nat
  psCalls :: "known_call list"
  psInline :: inline_state

definition gb_block ::
    "fetcher \<Rightarrow> (string \<Rightarrow> json option) \<Rightarrow> (json \<Rightarrow> json option) \<Rightarrow> nat \<Rightarrow> known_call list \<Rightarrow> string set \<Rightarrow> ContentBlock \<Rightarrow> parts_state \<Rightarrow>
     parts_state \<times> Warning list \<times> (Error + members list)" where
  "gb_block fe unmarshal refloat turn pending claimed b s =
     (case cbType b of
        BlockText \<Rightarrow> (s, [], Inr [text_part (cbText b) (ExtraString b ExtraThoughtSignature)])
      | BlockThinking \<Rightarrow>
          (s, [], Inr (case cbThinking b of None \<Rightarrow> [] | Some th \<Rightarrow> [thought_part (thText th) (thSignature th)]))
      | BlockRedactedThinking \<Rightarrow>
          (s, [gmn ''messages[].redacted_thinking'' ''no equivalent part; the block was dropped''], Inr [])
      | BlockToolUse \<Rightarrow>
          (case cbToolUse b of
             None \<Rightarrow> (s, [], Inr [])
           | Some u \<Rightarrow>
               let i = (if tuID u = '''' then SyntheticToolCallID turn (length (psCalls s)) else tuID u) in
               (s\<lparr>psCalls := psCalls s @ [(i, tuName u)]\<rparr>, [],
                Inr [call_part (tuID u) (tuName u) (case tuInput u of None \<Rightarrow> JObj [] | Some j \<Rightarrow> j) (tuSignature u)]))
      | BlockToolResult \<Rightarrow>
          (case cbToolResult b of
             None \<Rightarrow> (s, [], Inr [])
           | Some tr \<Rightarrow>
               (case result_name pending claimed (trToolUseID tr) (psNext s) of
                  (name, n1) \<Rightarrow>
                    (case hoist_media fe (trContent tr) (psInline s) of
                       (st1, ws, r) \<Rightarrow>
                         (s\<lparr>psNext := n1, psInline := st1\<rparr>, ws,
                          case r of
                            Inl e \<Rightarrow> Inl e
                          | Inr ms \<Rightarrow>
                              Inr (response_part (trToolUseID tr) name (responseStruct unmarshal refloat (ToolResult_Text (Some tr))) # ms)))))
      | t \<Rightarrow>
          if t \<in> {BlockImage, BlockDocument, BlockAudio} then
            (case media_part fe (cbMedia b) (BlockType_string t) (psInline s) of
               (st1, Inl e) \<Rightarrow> (s\<lparr>psInline := st1\<rparr>, [], Inl e)
             | (st1, Inr (p, w)) \<Rightarrow> (s\<lparr>psInline := st1\<rparr>, w, Inr (case p of None \<Rightarrow> [] | Some m \<Rightarrow> [m])))
          else (s, [gmn (''messages[].'' @ BlockType_string t) ''unsupported content block''], Inr []))"

fun gb_blocks ::
    "fetcher \<Rightarrow> (string \<Rightarrow> json option) \<Rightarrow> (json \<Rightarrow> json option) \<Rightarrow> nat \<Rightarrow> known_call list \<Rightarrow> string set \<Rightarrow> ContentBlock list \<Rightarrow> parts_state \<Rightarrow>
     parts_state \<times> Warning list \<times> (Error + members list)" where
  "gb_blocks fe unmarshal refloat turn pending claimed [] s = (s, [], Inr [])"
| "gb_blocks fe unmarshal refloat turn pending claimed (b # bs) s =
     (case gb_block fe unmarshal refloat turn pending claimed b s of
        (s1, w, Inl e) \<Rightarrow> (s1, block_cache_warning b @ w, Inl e)
      | (s1, w, Inr ps) \<Rightarrow>
          (case gb_blocks fe unmarshal refloat turn pending claimed bs s1 of
             (s2, ws, r) \<Rightarrow> (s2, block_cache_warning b @ w @ ws, map_sum id (\<lambda>qs. ps @ qs) r)))"

definition renderParts ::
    "fetcher \<Rightarrow> (string \<Rightarrow> json option) \<Rightarrow> (json \<Rightarrow> json option) \<Rightarrow> nat \<Rightarrow> ContentBlock list \<Rightarrow> known_call list \<Rightarrow> inline_state \<Rightarrow>
     inline_state \<times> Warning list \<times> (Error + (members list \<times> known_call list))" where
  "renderParts fe unmarshal refloat turn blocks pending st =
     (case gb_blocks fe unmarshal refloat turn pending (claimed_ids pending blocks) blocks \<lparr>psNext = 0, psCalls = [], psInline = st\<rparr> of
        (s1, ws, r) \<Rightarrow> (psInline s1, ws, map_sum id (\<lambda>ps. (ps, psCalls s1)) r))"

text \<open>A content: its role and its parts. Turns of one role in a row become one content.\<close>

type_synonym content = "string \<times> members list"

definition gm_role :: "Message \<Rightarrow> string" where
  "gm_role m = (if msgRole m = RoleAssistant then ''model'' else ''user'')"

fun close_content :: "content option \<Rightarrow> content list" where
  "close_content None = []"
| "close_content (Some c) = [c]"

definition join_parts :: "content option \<Rightarrow> string \<Rightarrow> members list \<Rightarrow> content list \<times> content option" where
  "join_parts cur role ps =
     (if ps = [] then ([], cur)
      else case cur of
        Some (r, qs) \<Rightarrow> if r = role then ([], Some (r, qs @ ps)) else ([(r, qs)], Some (role, ps))
      | None \<Rightarrow> ([], Some (role, ps)))"

fun gb_turns ::
    "fetcher \<Rightarrow> (string \<Rightarrow> json option) \<Rightarrow> (json \<Rightarrow> json option) \<Rightarrow> nat \<Rightarrow> Message list \<Rightarrow> known_call list \<Rightarrow> inline_state \<Rightarrow> content option \<Rightarrow>
     inline_state \<times> Warning list \<times> (Error + content list)" where
  "gb_turns fe unmarshal refloat turn [] pending st cur = (st, [], Inr (close_content cur))"
| "gb_turns fe unmarshal refloat turn (m # ms) pending st cur =
     (case renderParts fe unmarshal refloat turn (msgContent m) pending st of
        (st1, w, Inl e) \<Rightarrow> (st1, w, Inl e)
      | (st1, w, Inr (ps, calls)) \<Rightarrow>
          (case join_parts cur (gm_role m) ps of
             (closed, cur1) \<Rightarrow>
               case gb_turns fe unmarshal refloat (Suc turn) ms (if calls \<noteq> [] then calls else pending) st1 cur1 of
                 (st2, ws, r) \<Rightarrow> (st2, w @ ws, map_sum id (\<lambda>cs. closed @ cs) r)))"

definition renderContents ::
    "fetcher \<Rightarrow> (string \<Rightarrow> json option) \<Rightarrow> (json \<Rightarrow> json option) \<Rightarrow> Request \<Rightarrow> inline_state \<times> Warning list \<times> (Error + content list)" where
  "renderContents fe unmarshal refloat req =
     gb_turns fe unmarshal refloat 0 (NonSystemMessages (reqMessages req)) [] \<lparr>isLeft = feMaxBytes fe, isAsked = []\<rparr> None"

section \<open>Signatures of the current turn\<close>

definition skipSignatureValidator :: string where "skipSignatureValidator = ''skip_thought_signature_validator''"

definition is_call_part :: "members \<Rightarrow> bool" where "is_call_part p = (map_of p ''functionCall'' \<noteq> None)"

definition onlyFunctionResponses :: "content \<Rightarrow> bool" where
  "onlyFunctionResponses c = (list_all (\<lambda>p. map_of p ''functionResponse'' \<noteq> None) (snd c) \<and> snd c \<noteq> [])"

fun sign_first :: "members list \<Rightarrow> members list \<times> bool" where
  "sign_first [] = ([], False)"
| "sign_first (p # ps) =
     (if is_call_part p then
        (if map_of p ''thoughtSignature'' = None
         then ((p @ [(''thoughtSignature'', JStr skipSignatureValidator)]) # ps, True) else (p # ps, False))
      else case sign_first ps of (qs, signed_any) \<Rightarrow> (p # qs, signed_any))"

definition sign_step :: "content \<Rightarrow> content \<times> bool" where
  "sign_step c = (if fst c \<noteq> ''model'' then (c, False) else case sign_first (snd c) of (ps, b) \<Rightarrow> ((fst c, ps), b))"

definition starts_turn :: "content \<Rightarrow> bool" where
  "starts_turn c = (fst c = ''user'' \<and> \<not> onlyFunctionResponses c)"

definition current_turn :: "content list \<Rightarrow> content list" where
  "current_turn cs = rev (takeWhile (\<lambda>c. \<not> starts_turn c) (rev cs))"

definition signCurrentTurn :: "content list \<Rightarrow> content list \<times> bool" where
  "signCurrentTurn cs =
     (let steps = map sign_step (current_turn cs)
      in (take (length cs - length (current_turn cs)) cs @ map fst steps, list_ex snd steps))"

section \<open>Tools\<close>

definition schemaField :: "string \<Rightarrow> string \<Rightarrow> string \<Rightarrow> string" where
  "schemaField dialect openAPIField jsonSchemaField = (if dialect = SchemaOpenAPI then openAPIField else jsonSchemaField)"

definition tool_declaration :: "Tool \<Rightarrow> json" where
  "tool_declaration t =
     JObj [(''description'', JStr (toolDescription t)), (''name'', JStr (toolName t)),
       (case toolSchema t of
          None \<Rightarrow> (''parametersJsonSchema'', JObj [(''type'', JStr ''object'')])
        | Some s \<Rightarrow> (schemaField (toolSchemaDialect t) ''parameters'' ''parametersJsonSchema'', s))]"

definition typed_tool :: "Tool \<Rightarrow> bool" where
  "typed_tool t = (map_of (toolExtra t) ''type'' \<noteq> None)"

text \<open>The functions a request declares, the built-in tools it carries, and the warnings.\<close>

definition declared_functions :: "Tool list \<Rightarrow> json list" where
  "declared_functions tools = map tool_declaration (filter (\<lambda>t. \<not> BuiltIn t \<and> \<not> typed_tool t) tools)"

definition carried_built_ins :: "Tool list \<Rightarrow> json list" where
  "carried_built_ins tools = concat (map (\<lambda>t. map (\<lambda>(k, v). JObj [(k, v)]) (sort_key fst (toolExtra t))) (filter BuiltIn tools))"

definition tool_warnings :: "Tool \<Rightarrow> Warning list" where
  "tool_warnings t =
     (if BuiltIn t then []
      else if typed_tool t then [gmn ''tools[].type'' ''typed server tool has no equivalent; the tool was dropped'']
      else map (\<lambda>(k, v). gmn (''tools[].'' @ k) ''no equivalent on a function declaration; the field was dropped'') (toolExtra t))"

definition gb_renderTools :: "Tool list \<Rightarrow> json list \<times> Warning list" where
  "gb_renderTools tools =
     (let decls = declared_functions tools in
      ((if decls = [] then [] else [JObj [(''functionDeclarations'', JArr decls)]]) @ carried_built_ins tools,
       concat (map tool_warnings tools)))"

definition functionCallingConfig :: "ToolChoice option \<Rightarrow> json option" where
  "functionCallingConfig tc =
     (case tc of
        None \<Rightarrow> None
      | Some c \<Rightarrow>
          Some (if tcMode c = ''none'' then JObj [(''mode'', JStr ''NONE'')]
            else if tcMode c = ''any'' then JObj [(''mode'', JStr ''ANY'')]
            else if tcMode c = ''tool'' then
              JObj [(''allowedFunctionNames'', JArr [JStr (ToolChoice.tcName c)]), (''mode'', JStr ''ANY'')]
            else JObj [(''mode'', JStr ''AUTO'')]))"

section \<open>Thinking\<close>

definition budgetCapFlash :: int where "budgetCapFlash = 24576"
definition budgetCapPro :: int where "budgetCapPro = 32768"
definition budgetFloorPro :: int where "budgetFloorPro = 128"
definition budgetFloorFlashLite :: int where "budgetFloorFlashLite = 512"

definition budgetCap :: "string \<Rightarrow> int" where
  "budgetCap model = (if Contains (ToLower model) ''flash'' then budgetCapFlash else budgetCapPro)"

definition isPro :: "string \<Rightarrow> bool" where "isPro model = Contains (ToLower model) ''-pro''"

definition budgetFloor :: "string \<Rightarrow> int" where
  "budgetFloor model =
     (let m = ToLower model in
      if Contains m ''flash-lite'' then budgetFloorFlashLite else if isPro m then budgetFloorPro else 0)"

definition isGemini3 :: "string \<Rightarrow> bool" where "isGemini3 model = Contains (ToLower model) ''gemini-3''"

definition nonThinking :: "string \<Rightarrow> bool" where
  "nonThinking model =
     (let m = ToLower model in
      if Contains m ''gemini-2.0-flash-thinking'' then False else Contains m ''gemini-1.'' \<or> Contains m ''gemini-2.0-'')"

definition thinkingLevel :: "string \<Rightarrow> string" where
  "thinkingLevel effort =
     (let e = ToLower effort in
      if e \<in> {''minimal'', ''low'', ''medium''} then e else if e \<in> {''high'', ''xhigh'', ''max''} then ''high'' else '''')"

definition levelOrder :: "string list" where
  "levelOrder = [''minimal'', ''low'', ''medium'', ''high'']"

text \<open>The pattern \<^verbatim>\<open>gemini-(3(?:\.\d+)?)-([a-z-]+)\<close>: the version and the variant at its first match.\<close>

definition is_digit_char :: "char \<Rightarrow> bool" where "is_digit_char c = (CHR ''0'' \<le> c \<and> c \<le> CHR ''9'')"

definition variant_char :: "char \<Rightarrow> bool" where "variant_char c = (CHR ''a'' \<le> c \<and> c \<le> CHR ''z'' \<or> c = CHR ''-'')"

definition gemini3_version :: "string \<Rightarrow> string \<times> string" where
  "gemini3_version r =
     (case r of
        CHR ''.'' # r1 \<Rightarrow>
          (let ds = takeWhile is_digit_char r1 in if ds = '''' then (''3'', r) else (''3.'' @ ds, drop (length ds) r1))
      | _ \<Rightarrow> (''3'', r))"

definition gemini3_at :: "string \<Rightarrow> (string \<times> string) option" where
  "gemini3_at s =
     (if HasPrefix s ''gemini-3'' then
        (case gemini3_version (drop 8 s) of
           (v, CHR ''-'' # r) \<Rightarrow> (let var = takeWhile variant_char r in if var = '''' then None else Some (v, var))
         | _ \<Rightarrow> None)
      else None)"

fun gemini3_match :: "string \<Rightarrow> (string \<times> string) option" where
  "gemini3_match [] = gemini3_at []"
| "gemini3_match (c # cs) = (case gemini3_at (c # cs) of Some m \<Rightarrow> Some m | None \<Rightarrow> gemini3_match cs)"

definition gemini3Levels :: "string \<Rightarrow> string list" where
  "gemini3Levels model =
     (case gemini3_match (ToLower model) of
        None \<Rightarrow> tl levelOrder
      | Some (version, variant) \<Rightarrow>
          if Contains variant ''image'' \<and> HasPrefix variant ''pro'' then [''high'']
          else if Contains variant ''image'' then [''minimal'', ''high'']
          else if HasPrefix variant ''pro'' then (if version = ''3'' then [''low'', ''high''] else tl levelOrder)
          else if HasPrefix variant ''flash-lite'' then (if version \<in> {''3.1'', ''3.5''} then levelOrder else tl levelOrder)
          else if HasPrefix variant ''flash'' then (if version \<in> {''3'', ''3.5'', ''3.6''} then levelOrder else tl levelOrder)
          else tl levelOrder)"

fun effort_index :: "'a list \<Rightarrow> 'a \<Rightarrow> int" where
  "effort_index [] x = - 1"
| "effort_index (y # ys) x = (if y = x then 0 else let i = effort_index ys x in if i < 0 then - 1 else i + 1)"

text \<open>The supported level nearest the one asked for, the higher one of two as near.\<close>

definition level_dist :: "string \<Rightarrow> string \<Rightarrow> int" where
  "level_dist level s = \<bar>effort_index levelOrder s - effort_index levelOrder level\<bar>"

definition nearer :: "string \<Rightarrow> string \<Rightarrow> string \<times> int \<Rightarrow> string \<times> int" where
  "nearer level s best = (let d = level_dist level s in if d \<le> snd best then (s, d) else best)"

definition nearestLevel :: "string \<Rightarrow> string list \<Rightarrow> string" where
  "nearestLevel level supported = fst (fold (nearer level) supported (hd supported, int (length levelOrder)))"

definition effortBudget :: "string \<Rightarrow> int \<Rightarrow> int" where
  "effortBudget effort cap =
     (let e = ToLower effort in
      if e = ''minimal'' then 1024 else if e = ''xhigh'' \<or> e = ''max'' then cap else EffortBudget effort cap)"

definition cannotDisable :: "Warning list" where
  "cannotDisable = [gmn ''reasoning'' ''this model cannot turn thinking off; sent with the least thinking it accepts'']"

definition level_config :: "string \<Rightarrow> members" where
  "level_config level = [(''includeThoughts'', JBool True), (''thinkingLevel'', JStr level)]"

definition thinkingConfig3 :: "string \<Rightarrow> Reasoning \<Rightarrow> members option \<times> Warning list" where
  "thinkingConfig3 model r =
     (let effort = (if rsEffort r = '''' \<and> rsBudget r > 0 then BudgetEffort (rsBudget r) else rsEffort r);
          level = thinkingLevel effort in
      if level = '''' then (None, [])
      else
        let sent = nearestLevel level (gemini3Levels model) in
        (Some (level_config sent),
         (if rsEffort r = '''' then [gmn ''reasoning.budget'' ''Gemini 3 takes a thinking level, not a budget; converted to the nearest level''] else []) @
         (if sent \<noteq> level then [gmn ''reasoning.effort'' (''this model has no '' @ level @ '' thinking level; sent '' @ sent)] else [])))"

definition clamp_budget :: "string \<Rightarrow> int \<Rightarrow> int \<times> Warning list" where
  "clamp_budget model budget =
     (let cap = budgetCap model; b1 = (if budget > cap then cap else budget); floor_b = budgetFloor model;
          b2 = (if b1 < floor_b then floor_b else b1)
      in (b2,
          (if budget > cap then [gmn ''reasoning.budget'' (''above the model family's thinking ceiling; clamped to '' @ FormatInt cap)] else []) @
          (if b1 < floor_b then [gmn ''reasoning.budget'' (''below the model family's thinking floor; raised to '' @ FormatInt floor_b)] else [])))"

definition thinkingConfig :: "string \<Rightarrow> Reasoning option \<Rightarrow> members option \<times> Warning list" where
  "thinkingConfig model rs =
     (case rs of
        None \<Rightarrow> (None, [])
      | Some r \<Rightarrow>
          if rsDisabled r then
            (if isGemini3 model then (Some [(''thinkingLevel'', JStr (hd (gemini3Levels model)))], cannotDisable)
             else if nonThinking model then (None, [])
             else if isPro model then (Some [(''thinkingBudget'', JInt budgetFloorPro)], cannotDisable)
             else (Some [(''thinkingBudget'', JInt 0)], []))
          else if nonThinking model then (None, [gmn ''reasoning'' ''this model has no thinking; reasoning dropped''])
          else if isGemini3 model then thinkingConfig3 model r
          else
            let budget = (if rsBudget r = 0 then effortBudget (rsEffort r) (budgetCap model) else rsBudget r) in
            if budget \<le> 0 then (None, [])
            else case clamp_budget model budget of
              (b, w) \<Rightarrow> (Some [(''includeThoughts'', JBool True), (''thinkingBudget'', JInt b)], w))"

section \<open>The request\<close>

definition MetadataCachedContent :: string where "MetadataCachedContent = ''gemini_cached_content''"

text \<open>The metadata, in the order the map is walked in: the walk ends at the first member that cannot be forwarded.\<close>

fun gb_metadata :: "(string, string) gomap \<Rightarrow> string option \<Rightarrow> string option \<times> Warning list" where
  "gb_metadata [] cached = (cached, [])"
| "gb_metadata ((k, v) # ms) cached =
     (if k = MetadataCachedContent then gb_metadata ms (Some v)
      else if HasPrefix k ''anthropic_'' then gb_metadata ms cached
      else (cached, [gmn ''metadata'' ''no request metadata field'']))"

definition gb_format :: "ResponseFormat option \<Rightarrow> members" where
  "gb_format rf =
     (case rf of
        None \<Rightarrow> []
      | Some f \<Rightarrow>
          if rfType f = ''json_schema'' then
            sort_key fst [(''responseMimeType'', JStr ''application/json''),
              (schemaField (rfSchemaDialect f) ''responseSchema'' ''responseJsonSchema'', case rfSchema f of None \<Rightarrow> JNull | Some s \<Rightarrow> s)]
          else if rfType f = ''json_object'' then [(''responseMimeType'', JStr ''application/json'')]
          else [])"

definition gb_generation :: "Request \<Rightarrow> members option \<Rightarrow> members" where
  "gb_generation req tc =
     opt ''maxOutputTokens'' (map_option JInt (reqMaxTokens req)) @
     gb_format (reqResponseFormat req) @
     opt ''stopSequences'' (only_if (reqStopSequences req \<noteq> []) (jstrings (reqStopSequences req))) @
     opt ''temperature'' (reqTemperature req) @
     opt ''thinkingConfig'' (map_option JObj tc) @
     opt ''topK'' (map_option JInt (reqTopK req)) @
     opt ''topP'' (reqTopP req)"

definition content_json :: "content \<Rightarrow> json" where
  "content_json c = JObj [(''parts'', JArr (map JObj (snd c))), (''role'', JStr (fst c))]"

definition safety_json :: "string \<times> string \<Rightarrow> json" where
  "safety_json s = JObj [(''category'', JStr (fst s)), (''threshold'', JStr (snd s))]"

definition unsigned_warning :: Warning where
  "unsigned_warning = gmn ''messages[].tool_calls'' (''a function call in the current turn had no Gemini thought signature; '' @
     ''sent with Google's validator placeholder, which can degrade the model's reasoning'')"

definition renderBody ::
    "fetcher \<Rightarrow> (string \<Rightarrow> json option) \<Rightarrow> (json \<Rightarrow> json option) \<Rightarrow> Target \<Rightarrow> Request \<Rightarrow> Warning list \<times> (Error + members)" where
  "renderBody fe unmarshal refloat t req =
     (case renderContents fe unmarshal refloat req of
        (st, w_c, Inl e) \<Rightarrow> (w_c, Inl e)
      | (st, w_c, Inr contents0) \<Rightarrow>
          (case (if isGemini3 (taModel t) then signCurrentTurn contents0 else (contents0, False)) of
             (contents, signed_any) \<Rightarrow>
           case CollectSystem req gm_target of (sys, w_s) \<Rightarrow>
           case gb_renderTools (reqTools req) of (tools, w_t) \<Rightarrow>
           case gb_metadata (reqMetadata req) None of (cached, w_m) \<Rightarrow>
           case thinkingConfig (taModel t) (reqReasoning req) of (tc, w_r) \<Rightarrow>
             let cfg = gb_generation req tc in
             (w_c @ (if signed_any then [unsigned_warning] else []) @ w_s @
              map (\<lambda>b. gmn ''system[].cache_control'' ''Gemini caches explicitly through cachedContent, not per block'')
                (filter (\<lambda>b. cbCacheControl b \<noteq> None) (reqSystem req)) @
              w_t @
              (if reqParallelToolCalls req \<noteq> None then [gmn ''parallel_tool_calls'' ''no equivalent setting''] else []) @ w_m @ w_r,
              Inr (opt ''cachedContent'' (map_option JStr cached) @
                [(''contents'', jslice (map content_json contents))] @
                opt ''generationConfig'' (only_if (cfg \<noteq> []) (JObj cfg)) @
                opt ''safetySettings'' (only_if (reqSafety req \<noteq> []) (JArr (map safety_json (reqSafety req)))) @
                opt ''systemInstruction'' (only_if (sys \<noteq> '''') (JObj [(''parts'', JArr [JObj [(''text'', JStr sys)]])])) @
                opt ''toolConfig'' (map_option (\<lambda>c. JObj [(''functionCallingConfig'', c)]) (functionCallingConfig (reqToolChoice req))) @
                opt ''tools'' (only_if (tools \<noteq> []) (JArr tools))))))"

text \<open>\<^verbatim>\<open>url.PathEscape\<close>.\<close>

definition path_safe :: "char \<Rightarrow> bool" where
  "path_safe c = (is_digit_char c \<or> (CHR ''a'' \<le> c \<and> c \<le> CHR ''z'') \<or> (CHR ''A'' \<le> c \<and> c \<le> CHR ''Z'') \<or> c \<in> set ''-_.~$&+:=@'')"

definition hex_digit :: "nat \<Rightarrow> char" where "hex_digit n = ''0123456789ABCDEF'' ! n"

definition PathEscape :: "string \<Rightarrow> string" where
  "PathEscape s =
     concat (map (\<lambda>c. if path_safe c then [c] else [CHR ''%'', hex_digit (of_char c div 16), hex_digit (of_char c mod 16)]) s)"

definition modelEndpoint :: "Target \<Rightarrow> string \<Rightarrow> string" where
  "modelEndpoint t method = TrimSlashes (taBaseURL t) @ ''/models/'' @ PathEscape (taModel t) @ method"

definition gb_newRequest :: "(string \<Rightarrow> bool) \<Rightarrow> Target \<Rightarrow> string \<Rightarrow> string \<Rightarrow> http_request option" where
  "gb_newRequest valid_url t endpoint body =
     (if \<not> valid_url endpoint then None
      else Some \<lparr>hqMethod = ''POST'', hqURL = endpoint,
        hqHeader = [(''Content-Type'', ''application/json'')] @ (if taAPIKey t \<noteq> '''' then [(''X-Goog-Api-Key'', taAPIKey t)] else []),
        hqBody = body\<rparr>)"

definition gb_BuildRequest ::
    "fetcher \<Rightarrow> (json \<Rightarrow> string option) \<Rightarrow> (string \<Rightarrow> json option) \<Rightarrow> (json \<Rightarrow> json option) \<Rightarrow> (string \<Rightarrow> bool) \<Rightarrow> Target \<Rightarrow> Request \<Rightarrow>
     http_request option \<times> Warning list" where
  "gb_BuildRequest fe marshal unmarshal refloat valid_url t req =
     (case renderBody fe unmarshal refloat t req of
        (warns, Inl e) \<Rightarrow> (None, warns)
      | (warns, Inr body) \<Rightarrow>
          (case marshal (JObj body) of
             None \<Rightarrow> (None, warns)
           | Some buf \<Rightarrow>
               (gb_newRequest valid_url t
                  (if reqStream req then modelEndpoint t '':streamGenerateContent'' @ ''?alt=sse'' else modelEndpoint t '':generateContent'') buf,
                warns)))"

section \<open>What a build may fetch\<close>

text \<open>The bytes the fetches of a build gave it, a body the reader refused not counted.\<close>

definition answer_bytes :: "fetcher \<Rightarrow> string + fetched \<Rightarrow> int" where
  "answer_bytes fe a =
     (case a of
        Inl e \<Rightarrow> 0
      | Inr r \<Rightarrow>
          if ftStatus r < 200 \<or> ftStatus r \<ge> 300 \<or> int (length (ftBody r)) > feMaxBytes fe \<or> ftErr r \<noteq> None then 0
          else int (length (ftBody r)))"

definition fetched_bytes :: "fetcher \<Rightarrow> string list \<Rightarrow> int" where
  "fetched_bytes fe asked = (\<Sum>i<length asked. answer_bytes fe (feGet fe i (asked ! i)))"

definition may_ask :: "fetcher \<Rightarrow> string \<Rightarrow> bool" where
  "may_ask fe u = (feInline fe \<and> \<not> passthroughURI fe u \<and> (case feParse fe u of Inr (scheme, host) \<Rightarrow> scheme \<in> {''http'', ''https''} | Inl e \<Rightarrow> False))"

definition fetch_inv :: "fetcher \<Rightarrow> inline_state \<Rightarrow> bool" where
  "fetch_inv fe st =
     (list_all (may_ask fe) (isAsked st) \<and> fetched_bytes fe (isAsked st) + isLeft st = feMaxBytes fe \<and> 0 \<le> isLeft st)"

definition fetch_over :: "fetcher \<Rightarrow> inline_state \<Rightarrow> Error \<Rightarrow> bool" where
  "fetch_over fe st e =
     (list_all (may_ask fe) (isAsked st) \<and> fetched_bytes fe (isAsked st) > feMaxBytes fe \<and> errType e = ErrPayloadTooLarge)"

definition fetch_ok :: "fetcher \<Rightarrow> inline_state \<Rightarrow> Error + 'a \<Rightarrow> bool" where
  "fetch_ok fe st r = (case r of Inl e \<Rightarrow> fetch_over fe st e | Inr x \<Rightarrow> fetch_inv fe st)"

lemma fetch_ok_simps [simp]: "fetch_ok fe st (Inr x) = fetch_inv fe st" "fetch_ok fe st (Inl e) = fetch_over fe st e"
  by (simp_all add: fetch_ok_def)

lemma fetch_ok_map [simp]: "fetch_ok fe st (map_sum id f r) = fetch_ok fe st r"
  by (cases r) simp_all

lemma asked_more: "fetched_bytes fe (asked @ [u]) = fetched_bytes fe asked + answer_bytes fe (feGet fe (length asked) u)"
  by (simp add: fetched_bytes_def nth_append)

lemma fetched_nonneg: "0 \<le> fetched_bytes fe asked"
  unfolding fetched_bytes_def by (rule sum_nonneg) (simp add: answer_bytes_def split: sum.split)

lemma media_fetch:
  assumes "fetch_inv fe st" "media_part fe media fld st = (st1, r)"
  shows "fetch_ok fe st1 r"
proof (cases "\<exists>m. media = Some m \<and> Data m = '''' \<and> FileID m = '''' \<and> URL m \<noteq> '''' \<and> \<not> passthroughURI fe (URL m) \<and> feInline fe")
  case False
  then have "st1 = st \<and> (\<exists>x. r = Inr x)" using assms(2) by (auto simp: media_part_def Let_def split: option.splits if_splits)
  then show ?thesis using assms(1) by auto
next
  case True
  then obtain m where m: "media = Some m" "Data m = ''''" "FileID m = ''''" "URL m \<noteq> ''''" "\<not> passthroughURI fe (URL m)" "feInline fe"
    by blast
  let ?u = "URL m"
  show ?thesis
  proof (cases "may_ask fe ?u")
    case False
    then have "\<exists>e. inline_url fe ?u st = (st, Inl (Failed e))"
      using m by (auto simp: may_ask_def inline_url_def split: sum.splits prod.splits)
    then show ?thesis using assms m by (auto simp: media_part_def Let_def)
  next
    case True
    let ?a = "feGet fe (length (isAsked st)) ?u" and ?st = "st\<lparr>isAsked := isAsked st @ [?u]\<rparr>"
    have i: "inline_url fe ?u st = (case ?a of Inl e \<Rightarrow> (?st, Inl (Failed e)) | Inr r \<Rightarrow> inline_body fe r ?st)"
      using True by (auto simp: may_ask_def inline_url_def Let_def split: sum.splits prod.splits)
    have b: "fetched_bytes fe (isAsked ?st) = fetched_bytes fe (isAsked st) + answer_bytes fe ?a" by (simp add: asked_more)
    have ask: "list_all (may_ask fe) (isAsked ?st)" using True assms(1) by (simp add: fetch_inv_def)
    have "case inline_url fe ?u st of (st2, Inl OverBudget) \<Rightarrow> list_all (may_ask fe) (isAsked st2) \<and> fetched_bytes fe (isAsked st2) > feMaxBytes fe
        | (st2, _) \<Rightarrow> fetch_inv fe st2"
    proof (cases ?a)
      case (Inl e)
      then show ?thesis using assms(1) ask b by (simp add: i fetch_inv_def answer_bytes_def)
    next
      case (Inr a)
      have len: "length (take (nat (feMaxBytes fe + 1)) (ftBody a)) = (if int (length (ftBody a)) \<le> feMaxBytes fe then length (ftBody a)
          else nat (feMaxBytes fe + 1))" by auto
      have mx: "feMaxBytes fe \<ge> 0" using assms(1) fetched_nonneg[of fe "isAsked st"] by (simp add: fetch_inv_def)
      show ?thesis using assms(1) ask b len mx
        by (auto simp: i Inr inline_body_def Let_def fetch_inv_def answer_bytes_def split: if_splits)
    qed
    then show ?thesis using assms(2) m
      by (auto simp: media_part_def Let_def fetch_over_def mk_error_def split: prod.splits sum.splits inline_failure.splits)
  qed
qed

lemma hoist_fetch: "fetch_inv fe st \<Longrightarrow> hoist_media fe bs st = (st1, ws, r) \<Longrightarrow> fetch_ok fe st1 r"
proof (induction bs arbitrary: st st1 ws r)
  case (Cons b bs)
  show ?case
  proof (cases "cbType b = BlockText")
    case True
    then show ?thesis using Cons by auto
  next
    case False
    obtain st2 p where p: "media_part fe (cbMedia b) (''tool_result.'' @ BlockType_string (cbType b)) st = (st2, p)" by fastforce
    note q = media_fetch[OF Cons.prems(1) p]
    show ?thesis
    proof (cases p)
      case (Inl e)
      then show ?thesis using q Cons.prems(2) False p by (auto simp: Let_def)
    next
      case (Inr x)
      obtain st3 ws3 r3 where h: "hoist_media fe bs st2 = (st3, ws3, r3)" by (cases "hoist_media fe bs st2")
      have "fetch_ok fe st3 r3" using Cons.IH[OF _ h] q Inr by simp
      then show ?thesis using Cons.prems(2) False p Inr h
        by (cases x; cases r3) (auto simp: Let_def)
    qed
  qed
qed simp

lemma block_fetch:
  "fetch_inv fe (psInline s) \<Longrightarrow> gb_block fe un rf turn pending claimed b s = (s1, ws, r) \<Longrightarrow> fetch_ok fe (psInline s1) r"
proof (goal_cases)
  case 1
  show ?thesis
  proof (cases "cbType b \<in> {BlockImage, BlockDocument, BlockAudio} \<or> (\<exists>tr. cbType b = BlockToolResult \<and> cbToolResult b = Some tr)")
    case False
    then have "psInline s1 = psInline s \<and> (\<exists>x. r = Inr x)" using 1(2)
      by (auto simp: gb_block_def Let_def split: BlockType.splits option.splits)
    then show ?thesis using 1(1) by auto
  next
    case True
    then show ?thesis
    proof (elim disjE exE conjE)
      assume t: "cbType b \<in> {BlockImage, BlockDocument, BlockAudio}"
      obtain st2 p where p: "media_part fe (cbMedia b) (BlockType_string (cbType b)) (psInline s) = (st2, p)" by fastforce
      show ?thesis using media_fetch[OF 1(1) p] 1(2) t p by (cases p) (auto simp: gb_block_def)
    next
      fix tr assume t: "cbType b = BlockToolResult" "cbToolResult b = Some tr"
      obtain name n1 where n: "result_name pending claimed (trToolUseID tr) (psNext s) = (name, n1)" by fastforce
      obtain st2 ws2 r2 where h: "hoist_media fe (trContent tr) (psInline s) = (st2, ws2, r2)" by (cases "hoist_media fe (trContent tr) (psInline s)")
      show ?thesis using hoist_fetch[OF 1(1) h] 1(2) t n h by (cases r2) (auto simp: gb_block_def)
    qed
  qed
qed

lemma blocks_fetch:
  "fetch_inv fe (psInline s) \<Longrightarrow> gb_blocks fe un rf turn pending claimed bs s = (s1, ws, r) \<Longrightarrow> fetch_ok fe (psInline s1) r"
proof (induction bs arbitrary: s s1 ws r)
  case (Cons b bs)
  obtain s2 w2 r2 where g: "gb_block fe un rf turn pending claimed b s = (s2, w2, r2)" by (cases "gb_block fe un rf turn pending claimed b s")
  note q = block_fetch[OF Cons.prems(1) g]
  show ?case
  proof (cases r2)
    case (Inl e)
    then show ?thesis using q Cons.prems(2) g by auto
  next
    case (Inr ps)
    obtain s3 w3 r3 where h: "gb_blocks fe un rf turn pending claimed bs s2 = (s3, w3, r3)" by (cases "gb_blocks fe un rf turn pending claimed bs s2")
    show ?thesis using Cons.IH[OF _ h] q Cons.prems(2) g h Inr by auto
  qed
qed simp

lemma turns_fetch:
  "fetch_inv fe st \<Longrightarrow> gb_turns fe un rf turn ms pending st cur = (st1, ws, r) \<Longrightarrow> fetch_ok fe st1 r"
proof (induction ms arbitrary: turn pending st st1 cur ws r)
  case (Cons m ms)
  obtain s2 w2 r2 where g: "gb_blocks fe un rf turn pending (claimed_ids pending (msgContent m)) (msgContent m) \<lparr>psNext = 0, psCalls = [], psInline = st\<rparr> =
      (s2, w2, r2)" by (cases "gb_blocks fe un rf turn pending (claimed_ids pending (msgContent m)) (msgContent m) \<lparr>psNext = 0, psCalls = [], psInline = st\<rparr>")
  have q: "fetch_ok fe (psInline s2) r2" using blocks_fetch[OF _ g] Cons.prems(1) by simp
  show ?case
  proof (cases r2)
    case (Inl e)
    then show ?thesis using q Cons.prems(2) g by (auto simp: renderParts_def)
  next
    case (Inr ps)
    obtain closed cur1 where j: "join_parts cur (gm_role m) ps = (closed, cur1)" by fastforce
    let ?pending = "if psCalls s2 \<noteq> [] then psCalls s2 else pending"
    obtain s3 w3 r3 where h: "gb_turns fe un rf (Suc turn) ms ?pending (psInline s2) cur1 = (s3, w3, r3)"
      by (cases "gb_turns fe un rf (Suc turn) ms ?pending (psInline s2) cur1")
    show ?thesis using Cons.IH[OF _ h] q Cons.prems(2) g h Inr j by (auto simp: renderParts_def)
  qed
qed simp

text \<open>C16. What a build may fetch. However many URLs a request lists and however its media are nested, the gateway asks only for
  http and https URLs the upstream would not resolve itself, none at all when inlining is off, and holds at most the
  cap of fetched bytes; only when the answers exceed it is the request refused, as too large.\<close>

theorem gemini_fetch_budget:
  assumes "0 \<le> feMaxBytes fe" "renderContents fe unmarshal refloat req = (st, warns, r)"
  shows "list_all (may_ask fe) (isAsked st) \<and>
    (case r of
       Inr contents \<Rightarrow> fetched_bytes fe (isAsked st) \<le> feMaxBytes fe
     | Inl e \<Rightarrow> fetched_bytes fe (isAsked st) > feMaxBytes fe \<and> errType e = ErrPayloadTooLarge)"
proof -
  have "fetch_inv fe \<lparr>isLeft = feMaxBytes fe, isAsked = []\<rparr>" using assms(1) by (simp add: fetch_inv_def fetched_bytes_def)
  from turns_fetch[OF this assms(2)[unfolded renderContents_def]] show ?thesis
    by (cases r) (auto simp: fetch_inv_def fetch_over_def)
qed
section \<open>Thinking within what a model accepts\<close>

lemma gemini3Levels_cases:
  "gemini3Levels model \<in> {tl levelOrder, levelOrder, [''high''], [''minimal'', ''high''], [''low'', ''high'']}"
  by (simp add: gemini3Levels_def split: option.split prod.split)

lemma levels_order: "set (gemini3Levels model) \<subseteq> set levelOrder" "gemini3Levels model \<noteq> []"
  using gemini3Levels_cases[of model] by (auto simp: levelOrder_def)

lemma nearer_fold:
  assumes "best = (s0, d0)" "d0 = level_dist l s0 \<or> (\<forall>s \<in> set ss. level_dist l s < d0)" "ss \<noteq> [] \<or> d0 = level_dist l s0"
  shows "let r = fold (nearer l) ss best in
    snd r = level_dist l (fst r) \<and> (fst r \<in> set ss \<or> fst r = s0 \<and> d0 = level_dist l s0) \<and> snd r \<le> d0 \<and> (\<forall>s \<in> set ss. snd r \<le> level_dist l s)"
  using assms
proof (induction ss arbitrary: best s0 d0)
  case Nil
  then show ?case by simp
next
  case (Cons s ss)
  show ?case
  proof (cases "level_dist l s \<le> d0")
    case True
    then have n: "nearer l s best = (s, level_dist l s)" by (simp add: nearer_def Cons.prems(1))
    from Cons.IH[OF n, simplified] True show ?thesis by (auto simp: n Let_def)
  next
    case False
    then have n: "nearer l s best = (s0, d0)" and d: "d0 = level_dist l s0" using Cons.prems by (auto simp: nearer_def)
    from Cons.IH[OF n, of] d False show ?thesis by (auto simp: n Let_def)
  qed
qed

lemma index_bounds: "- 1 \<le> effort_index xs x \<and> effort_index xs x < int (length xs)"
  by (induction xs) (auto simp: Let_def)

lemma index_in: "x \<in> set xs \<Longrightarrow> 0 \<le> effort_index xs x"
  by (induction xs) (auto simp: Let_def)

lemma level_dist_small: "s \<in> set levelOrder \<Longrightarrow> l \<in> set levelOrder \<Longrightarrow> level_dist l s < int (length levelOrder)"
  using index_bounds[of levelOrder s] index_bounds[of levelOrder l] index_in[of s levelOrder] index_in[of l levelOrder]
  by (auto simp: level_dist_def)

lemma nearest_ok:
  assumes "ss \<noteq> []" "set ss \<subseteq> set levelOrder" "l \<in> set levelOrder"
  shows "nearestLevel l ss \<in> set ss \<and> (\<forall>s \<in> set ss. level_dist l (nearestLevel l ss) \<le> level_dist l s)"
proof -
  have "\<forall>s \<in> set ss. level_dist l s < int (length levelOrder)" using level_dist_small assms(2,3) by blast
  moreover have "level_dist l (hd ss) < int (length levelOrder)" using calculation assms(1) by simp
  ultimately show ?thesis
    using nearer_fold[of "(hd ss, int (length levelOrder))" "hd ss" "int (length levelOrder)" l ss] assms(1)
    by (auto simp: nearestLevel_def Let_def)
qed

lemma floor_cap: "0 \<le> budgetFloor model \<and> budgetFloor model \<le> budgetCap model"
  by (simp add: budgetFloor_def budgetCap_def budgetFloorFlashLite_def budgetFloorPro_def budgetCapFlash_def budgetCapPro_def Let_def)

lemma clamp_bounds: "clamp_budget model budget = (b, w) \<Longrightarrow> budgetFloor model \<le> b \<and> b \<le> budgetCap model"
  using floor_cap[of model] by (auto simp: clamp_budget_def Let_def split: if_splits)

text \<open>The level a request's effort or budget names.\<close>

definition asked_level :: "Reasoning \<Rightarrow> string" where
  "asked_level r = thinkingLevel (if rsEffort r = '''' \<and> rsBudget r > 0 then BudgetEffort (rsBudget r) else rsEffort r)"

lemma thinkingLevel_order: "thinkingLevel e = '''' \<or> thinkingLevel e \<in> set levelOrder"
  by (auto simp: thinkingLevel_def levelOrder_def Let_def)

text \<open>C20. The thinking a Gemini request asks for is one its model takes. A generation without thinking gets none; a Gemini 3
  model gets a level it supports and no supported one is nearer the level asked for, or its lowest to turn thinking
  down; any other model gets a token budget between its family's floor and ceiling, or to turn thinking off zero where
  that is allowed and the least elsewhere.\<close>

theorem gemini_thinking_accepted:
  assumes "thinkingConfig model (Some r) = (Some m, warns)"
  shows "if isGemini3 model
    then (\<exists>l \<in> set (gemini3Levels model). map_of m ''thinkingLevel'' = Some (JStr l) \<and> map_of m ''thinkingBudget'' = None \<and>
        (if rsDisabled r then l = hd (gemini3Levels model)
         else asked_level r \<noteq> '''' \<and> (\<forall>s \<in> set (gemini3Levels model). level_dist (asked_level r) l \<le> level_dist (asked_level r) s)))
    else \<not> nonThinking model \<and> map_of m ''thinkingLevel'' = None \<and>
      (\<exists>b. map_of m ''thinkingBudget'' = Some (JInt b) \<and>
        (if rsDisabled r then b = (if isPro model then budgetFloorPro else 0) else budgetFloor model \<le> b \<and> b \<le> budgetCap model))"
proof (cases "isGemini3 model")
  case True
  show ?thesis
  proof (cases "rsDisabled r")
    case True
    then show ?thesis using \<open>isGemini3 model\<close> assms levels_order[of model] by (auto simp: thinkingConfig_def)
  next
    case False
    let ?sent = "nearestLevel (asked_level r) (gemini3Levels model)"
    have a: "asked_level r \<noteq> ''''" "m = level_config ?sent"
      using assms True False by (auto simp: thinkingConfig_def thinkingConfig3_def asked_level_def Let_def split: if_splits)
    have "asked_level r \<in> set levelOrder" using a(1) thinkingLevel_order unfolding asked_level_def by metis
    from nearest_ok[OF levels_order(2) levels_order(1) this] show ?thesis
      using True False a by (auto simp: level_config_def)
  qed
next
  case False
  then show ?thesis using assms clamp_bounds[of model]
    by (auto simp: thinkingConfig_def Let_def split: if_splits prod.splits)
qed

theorem gemini_thinking_accepted_witness:
  "(\<exists>l \<in> set (gemini3Levels ''gemini-3-pro-preview''). map_of [(''includeThoughts'', JBool True), (''thinkingLevel'', JStr ''high'')] ''thinkingLevel'' =
      Some (JStr l) \<and> (\<forall>s \<in> set (gemini3Levels ''gemini-3-pro-preview''). level_dist ''medium'' l \<le> level_dist ''medium'' s))"
proof -
  let ?r = "\<lparr>rsEffort = ''medium'', rsBudget = 0, rsDisabled = False\<rparr>"
  have "thinkingConfig ''gemini-3-pro-preview'' (Some ?r) =
      (Some [(''includeThoughts'', JBool True), (''thinkingLevel'', JStr ''high'')],
       [gmn ''reasoning.effort'' ''this model has no medium thinking level; sent high''])"
    by code_simp
  moreover have "isGemini3 ''gemini-3-pro-preview''" by code_simp
  moreover have "asked_level ?r = ''medium''" by code_simp
  ultimately show ?thesis using gemini_thinking_accepted[of "''gemini-3-pro-preview''" ?r] by auto
qed

section \<open>The signatures Gemini 3 demands\<close>

text \<open>A model step is signed when its first function call carries a signature.\<close>

definition step_signed :: "content \<Rightarrow> bool" where
  "step_signed c = (fst c = ''model'' \<longrightarrow>
     (case List.find is_call_part (snd c) of Some p \<Rightarrow> map_of p ''thoughtSignature'' \<noteq> None | None \<Rightarrow> True))"

text \<open>What signing does to the parts of a model step: the first function call gets the placeholder when it has no
  signature, and every other part stays what it is.\<close>

definition signed_parts :: "members list \<Rightarrow> members list" where
  "signed_parts ps =
     map (\<lambda>j. if is_call_part (ps ! j) \<and> \<not> list_ex is_call_part (take j ps) \<and> map_of (ps ! j) ''thoughtSignature'' = None
        then ps ! j @ [(''thoughtSignature'', JStr skipSignatureValidator)] else ps ! j) [0..<length ps]"

definition signed_step :: "content \<Rightarrow> content" where
  "signed_step c = (fst c, if fst c = ''model'' then signed_parts (snd c) else snd c)"

lemma sign_first_find:
  "sign_first ps = (qs, b) \<Longrightarrow> (case List.find is_call_part qs of Some p \<Rightarrow> map_of p ''thoughtSignature'' \<noteq> None | None \<Rightarrow> True)"
proof (induction ps arbitrary: qs b)
  case (Cons p ps)
  show ?case
  proof (cases "is_call_part p")
    case True
    then show ?thesis using Cons.prems by (auto simp: is_call_part_def map_add_def split: if_splits)
  next
    case False
    then show ?thesis using Cons.prems Cons.IH[of "fst (sign_first ps)"] by (auto split: prod.splits)
  qed
qed simp

lemma signed_parts_Cons:
  "signed_parts (p # ps) =
     (if is_call_part p
      then (if map_of p ''thoughtSignature'' = None then p @ [(''thoughtSignature'', JStr skipSignatureValidator)] else p) # ps
      else p # signed_parts ps)"
  by (simp add: signed_parts_def upt_conv_Cons map_Suc_upt[symmetric] comp_def map_nth del: upt_Suc)

lemma sign_first_exact: "sign_first ps = (qs, b) \<Longrightarrow> qs = signed_parts ps \<and> (b \<longleftrightarrow> qs \<noteq> ps)"
proof (induction ps arbitrary: qs b)
  case Nil
  then show ?case by (simp add: signed_parts_def)
next
  case (Cons p ps)
  then show ?case by (auto simp: signed_parts_Cons split: if_splits prod.splits)
qed

lemma sign_step_ok: "sign_step c = (d, b) \<Longrightarrow> step_signed d \<and> d = signed_step c \<and> (b \<longleftrightarrow> d \<noteq> c)"
  using sign_first_find[of "snd c"] sign_first_exact[of "snd c"]
  by (cases c) (auto simp: sign_step_def step_signed_def signed_step_def split: if_splits prod.splits)

lemma current_suffix: "cs = take (length cs - length (current_turn cs)) cs @ current_turn cs"
proof -
  let ?k = "\<lambda>c. \<not> starts_turn c"
  have "rev cs = takeWhile ?k (rev cs) @ dropWhile ?k (rev cs)" by simp
  then have s: "cs = rev (dropWhile ?k (rev cs)) @ current_turn cs" unfolding current_turn_def by (metis rev_append rev_rev_ident)
  then have "length (rev (dropWhile ?k (rev cs))) = length cs - length (current_turn cs)"
    by (metis add_diff_cancel_right' length_append)
  then show ?thesis using s by (metis append_eq_conv_conj)
qed

lemma current_ends: "list_all (\<lambda>c. \<not> starts_turn c) (current_turn cs)"
  "let before = take (length cs - length (current_turn cs)) cs in before \<noteq> [] \<longrightarrow> starts_turn (last before)"
proof -
  let ?k = "\<lambda>c. \<not> starts_turn c"
  show "list_all (\<lambda>c. \<not> starts_turn c) (current_turn cs)" by (auto simp: current_turn_def list_all_iff dest: set_takeWhileD)
  have "rev (dropWhile ?k (rev cs)) @ current_turn cs = cs"
    unfolding current_turn_def by (metis rev_append rev_rev_ident takeWhile_dropWhile_id)
  then have "take (length cs - length (current_turn cs)) cs = rev (dropWhile ?k (rev cs))"
    by (metis append_same_eq current_suffix)
  then show "let before = take (length cs - length (current_turn cs)) cs in before \<noteq> [] \<longrightarrow> starts_turn (last before)"
    using hd_dropWhile[of ?k "rev cs"] by (auto simp: Let_def last_rev)
qed

text \<open>C22. The signatures Gemini 3 demands. The current turn is what follows the last user content that is more than
  function responses. After signing, every model step of it has a signature on its first function call: the placeholder
  is added to that call alone, and only when it has no signature. Every other part of the step, every other content
  of the turn and every earlier content is what it was, and whether a placeholder was used is reported.\<close>

theorem gemini_turn_signed:
  assumes "signCurrentTurn cs = (ds, placed)"
  shows "\<exists>before now. cs = before @ now \<and> (if before = [] then True else starts_turn (last before)) \<and> list_all (\<lambda>c. \<not> starts_turn c) now \<and>
    ds = before @ map signed_step now \<and> list_all step_signed (map signed_step now) \<and> (placed \<longleftrightarrow> ds \<noteq> cs)"
proof -
  let ?cur = "current_turn cs" and ?before = "take (length cs - length (current_turn cs)) cs"
  have ok: "step_signed (fst (sign_step c)) \<and> fst (sign_step c) = signed_step c \<and> (snd (sign_step c) \<longleftrightarrow> signed_step c \<noteq> c)" for c
    using sign_step_ok[of c] by (cases "sign_step c") auto
  have d: "ds = ?before @ map signed_step ?cur" "placed = list_ex (snd \<circ> sign_step) ?cur"
    using assms ok by (auto simp: signCurrentTurn_def Let_def list_ex_iff comp_def)
  have "map signed_step xs \<noteq> xs \<longleftrightarrow> list_ex (snd \<circ> sign_step) xs" for xs
    by (induction xs) (simp_all add: ok)
  then have "ds \<noteq> cs \<longleftrightarrow> placed" using d current_suffix[of cs] by (metis same_append_eq)
  moreover have "step_signed (signed_step c)" for c using ok[of c] by metis
  then have "list_all step_signed (map signed_step ?cur)" by (simp add: list_all_iff)
  ultimately show ?thesis using d(1) current_suffix[of cs] current_ends[of cs]
    by (intro exI[of _ ?before] exI[of _ ?cur]) (simp add: Let_def)
qed

section \<open>A conversation, read and built again\<close>

text \<open>The parts of a client's history.\<close>

datatype hist_part =
  HText string string | HThought string string | HInline string string | HFile string string
| HCall string string json string | HResp string string json

fun hist_members :: "hist_part \<Rightarrow> members" where
  "hist_members (HText s sig) = text_part s sig"
| "hist_members (HThought s sig) = thought_part s sig"
| "hist_members (HInline mime dat) = inline_part mime dat"
| "hist_members (HFile mime uri) = file_part mime uri"
| "hist_members (HCall i name args sig) = call_part i name args sig"
| "hist_members (HResp i name resp) = response_part i name resp"

fun hist_wire :: "hist_part \<Rightarrow> gq_part" where
  "hist_wire (HText s sig) = gq_zero_part\<lparr>gqText := s, gqSignature := sig\<rparr>"
| "hist_wire (HThought s sig) = gq_zero_part\<lparr>gqText := s, gqThought := True, gqSignature := sig\<rparr>"
| "hist_wire (HInline mime dat) = gq_zero_part\<lparr>gqInline := Some \<lparr>inMime = mime, inData = dat\<rparr>\<rparr>"
| "hist_wire (HFile mime uri) = gq_zero_part\<lparr>gqFile := Some \<lparr>gdMime = mime, gdURI = uri\<rparr>\<rparr>"
| "hist_wire (HCall i name args sig) = gq_zero_part\<lparr>gqCall := Some \<lparr>gfID = i, gfName = name, gfArgs = Some args\<rparr>, gqSignature := sig\<rparr>"
| "hist_wire (HResp i name resp) = gq_zero_part\<lparr>gqResponse := Some \<lparr>gfrID = i, gfrName = name, gfrResponse = Some resp\<rparr>\<rparr>"

fun hist_calls :: "hist_part list \<Rightarrow> known_call list" where
  "hist_calls [] = []"
| "hist_calls (HCall i name args sig # ps) = (i, name) # hist_calls ps"
| "hist_calls (p # ps) = hist_calls ps"

text \<open>Gemini usually leaves the ids out. A call without one is given a synthetic id, by its turn and its place among the calls
  of its turn; a response without one answers the next of the calls before it that no response of its turn names.
  Filling them in changes nothing else.\<close>

definition named_by :: "hist_part list \<Rightarrow> string set" where
  "named_by ps = set (concat (map (\<lambda>p. case p of HResp i name resp \<Rightarrow> if i = '''' then [] else [i] | _ \<Rightarrow> []) ps))"

fun fill_parts :: "nat \<Rightarrow> nat \<Rightarrow> known_call list \<Rightarrow> hist_part list \<Rightarrow> hist_part list" where
  "fill_parts turn n free [] = []"
| "fill_parts turn n free (p # ps) =
     (case p of
        HCall i name args sig \<Rightarrow>
          HCall (if i = '''' then SyntheticToolCallID turn n else i) name args sig # fill_parts turn (Suc n) free ps
      | HResp i name resp \<Rightarrow>
          if i = '''' \<and> free \<noteq> [] then HResp (fst (hd free)) name resp # fill_parts turn n (tl free) ps
          else p # fill_parts turn n free ps
      | _ \<Rightarrow> p # fill_parts turn n free ps)"

text \<open>With its ids filled in, a call has one, and a response names one of the calls it may answer, has its name and is an
  object that survives being text.\<close>

fun hist_ok :: "(json \<Rightarrow> string) \<Rightarrow> (string \<Rightarrow> json option) \<Rightarrow> (json \<Rightarrow> json option) \<Rightarrow> known_call list \<Rightarrow> hist_part \<Rightarrow> bool" where
  "hist_ok raw_text un rf pending (HText s sig) = (s \<noteq> '''' \<or> sig \<noteq> '''')"
| "hist_ok raw_text un rf pending (HThought s sig) = True"
| "hist_ok raw_text un rf pending (HInline mime dat) = (dat \<noteq> '''')"
| "hist_ok raw_text un rf pending (HFile mime uri) = (uri \<noteq> '''')"
| "hist_ok raw_text un rf pending (HCall i name args sig) = (i \<noteq> '''')"
| "hist_ok raw_text un rf pending (HResp i name resp) =
     (callByID pending i = Some (i, name) \<and> responseStruct un rf (raw_text resp) = resp)"

type_synonym hist_turn = "bool \<times> hist_part list"

fun fill_ids :: "nat \<Rightarrow> known_call list \<Rightarrow> hist_turn list \<Rightarrow> hist_turn list" where
  "fill_ids turn pending [] = []"
| "fill_ids turn pending (t # ts) =
     (let ps = fill_parts turn 0 (filter (\<lambda>c. fst c \<notin> named_by (snd t)) pending) (snd t)
      in (fst t, ps) # fill_ids (Suc turn) (if hist_calls ps \<noteq> [] then hist_calls ps else pending) ts)"

lemma fill_parts_named:
  "list_all (\<lambda>p. case p of HCall i name args sig \<Rightarrow> i \<noteq> '''' | HResp i name resp \<Rightarrow> i \<noteq> '''' | _ \<Rightarrow> True) ps \<Longrightarrow>
   fill_parts turn n free ps = ps"
  by (induction ps arbitrary: n free) (auto split: hist_part.splits)

definition sent_content :: "hist_turn \<Rightarrow> content" where
  "sent_content t = (if fst t then ''model'' else ''user'', map hist_members (snd t))"

fun history_ok :: "(json \<Rightarrow> string) \<Rightarrow> (string \<Rightarrow> json option) \<Rightarrow> (json \<Rightarrow> json option) \<Rightarrow> known_call list \<Rightarrow> bool option \<Rightarrow> hist_turn list \<Rightarrow> bool" where
  "history_ok raw_text un rf pending role [] = True"
| "history_ok raw_text un rf pending role (t # ts) =
     (snd t \<noteq> [] \<and> list_all (hist_ok raw_text un rf pending) (snd t) \<and> role \<noteq> Some (fst t) \<and>
      history_ok raw_text un rf (if hist_calls (snd t) \<noteq> [] then hist_calls (snd t) else pending) (Some (fst t)) ts)"

lemma history_keys [json_keys]:
  "ToLower ''mimeType'' = ''mimetype''" "ToLower ''data'' = ''data''" "ToLower ''fileUri'' = ''fileuri''"
  "ToLower ''inlineData'' = ''inlinedata''" "ToLower ''fileData'' = ''filedata''" "ToLower ''functionResponse'' = ''functionresponse''"
  "ToLower ''response'' = ''response''" "ToLower ''contents'' = ''contents''"
  by code_simp+

lemma dec_hist: "gq_dec_part (JObj (hist_members p)) gq_zero_part = Some (hist_wire p)"
  by (cases p) (auto simp: gq_dec_part_def json_keys text_part_def thought_part_def call_part_def sig_member_def gq_zero_part_def
      gm_dec_call_def inline_part_def gm_dec_inline_def file_part_def gq_dec_file_def response_part_def gq_dec_response_def)

lemma dec_hists: "dec_elems gq_zero_part gq_dec_part (map (\<lambda>p. JObj (hist_members p)) ps) [] = Some (map hist_wire ps)"
  by (induction ps) (simp_all add: dec_hist)

definition turn_wire :: "hist_turn \<Rightarrow> gq_content" where
  "turn_wire t = \<lparr>gqRole = (if fst t then ''model'' else ''user''), gqParts = map hist_wire (snd t)\<rparr>"

lemma dec_turn: "gq_dec_content (content_json (sent_content t)) gq_zero_content = Some (turn_wire t)"
  using dec_hists[of "snd t"]
  by (simp add: gq_dec_content_def content_json_def sent_content_def json_keys gq_zero_content_def turn_wire_def comp_def)

lemma dec_turns:
  "dec_elems gq_zero_content gq_dec_content (map (\<lambda>t. content_json (sent_content t)) ts) [] = Some (map turn_wire ts)"
  by (induction ts) (simp_all add: dec_turn)

fun hist_block :: "(json \<Rightarrow> string) \<Rightarrow> hist_part \<Rightarrow> ContentBlock" where
  "hist_block raw_text (HText s sig) = (if sig \<noteq> '''' then SetExtraString ExtraThoughtSignature sig (text_block s) else text_block s)"
| "hist_block raw_text (HThought s sig) =
     ContentBlock BlockThinking '''' None (Some \<lparr>thText = s, thSignature = sig, thData = ''''\<rparr>) None None None []"
| "hist_block raw_text (HInline mime dat) = media_block (MediaKind mime) \<lparr>MIME = mime, Data = dat, URL = '''', FileID = ''''\<rparr>"
| "hist_block raw_text (HFile mime uri) = media_block (MediaKind mime) \<lparr>MIME = mime, Data = '''', URL = '''', FileID = uri\<rparr>"
| "hist_block raw_text (HCall i name args sig) = gm_call_block i name args sig"
| "hist_block raw_text (HResp i name resp) = answer_block i (raw_text resp)"

text \<open>The next call that no response names, as the reader finds it and as a filter.\<close>

lemma next_unnamed_length: "next_unnamed xs named n = n + length (takeWhile (\<lambda>i. i \<in> named) xs)"
  by (induction xs arbitrary: n) auto

lemma next_free:
  assumes "filter (\<lambda>c. fst c \<notin> named) (drop n pending) = c # free"
  defines "m \<equiv> next_unnamed (drop n (map fst pending)) named n"
  shows "m < length pending \<and> map fst pending ! m = fst c \<and> filter (\<lambda>c. fst c \<notin> named) (drop (Suc m) pending) = free"
proof -
  obtain us vs where u: "drop n pending = us @ c # vs" "\<forall>x \<in> set us. fst x \<in> named" "fst c \<notin> named" "free = filter (\<lambda>c. fst c \<notin> named) vs"
    using assms(1) by (auto simp: filter_eq_Cons_iff)
  have m: "m = n + length us"
    using u(1-3) by (simp add: m_def next_unnamed_length drop_map takeWhile_append)
  have l: "n + length us < length pending" using arg_cong[OF u(1), of length] by simp
  have "pending ! m = c" using u(1) l m by (metis add.commute nth_append_length nth_drop add_leD1 less_imp_le)
  moreover have "drop (Suc m) pending = vs"
    using arg_cong[OF u(1), of "drop (Suc (length us))"] by (simp add: m drop_drop add.commute)
  ultimately show ?thesis using l m u(4) by simp
qed

lemma read_parts:
  "free = filter (\<lambda>c. fst c \<notin> named) (drop n pending) \<Longrightarrow>
   list_all (hist_ok raw_text un rf pending) (fill_parts turn (length calls) free ps) \<Longrightarrow>
   gq_parts raw_text turn named (map fst pending) (map hist_wire ps) n calls =
     (map (hist_block raw_text) (fill_parts turn (length calls) free ps),
      calls @ map fst (hist_calls (fill_parts turn (length calls) free ps)))"
proof (induction ps arbitrary: n calls free)
  case (Cons p ps)
  show ?case
  proof (cases p)
    case (HCall i name args sig)
    define i' where "i' = (if i = '''' then SyntheticToolCallID turn (length calls) else i)"
    have "fill_parts turn (length calls) free (p # ps) = HCall i' name args sig # fill_parts turn (Suc (length calls)) free ps"
      by (simp add: HCall i'_def)
    moreover have "gq_parts raw_text turn named (map fst pending) (map hist_wire (p # ps)) n calls =
        (case gq_parts raw_text turn named (map fst pending) (map hist_wire ps) n (calls @ [i']) of
           (bs, cs) \<Rightarrow> (gm_call_block i' name args sig # bs, cs))"
      by (simp add: HCall i'_def gq_zero_part_def call_args_def Let_def)
    ultimately show ?thesis using Cons.IH[OF Cons.prems(1), of "calls @ [i']"] Cons.prems(2) by simp
  next
    case (HResp i name resp)
    show ?thesis
    proof (cases "i = ''''")
      case False
      then show ?thesis using Cons.IH[OF Cons.prems(1), of calls] Cons.prems(2) by (simp add: HResp gq_zero_part_def)
    next
      case True
      have "free \<noteq> []" using Cons.prems(2) True by (auto simp: HResp callByID_def)
      then obtain c free' where f: "free = c # free'" by (cases free) auto
      let ?m = "next_unnamed (drop n (map fst pending)) named n"
      note nf = next_free[OF Cons.prems(1)[unfolded f, symmetric]]
      have "positional (map fst pending) named n = (fst c, Suc ?m)" using nf by (simp add: positional_def Let_def)
      then show ?thesis using Cons.IH[of free' "Suc ?m" calls] Cons.prems(2) nf True
        by (simp add: HResp f gq_zero_part_def)
    qed
  qed (use Cons.IH[OF Cons.prems(1), of calls] Cons.prems(2) in \<open>auto simp: gq_zero_part_def plain_part_def\<close>)
qed simp

lemma named_wire: "named_set (map hist_wire ps) = named_by ps"
proof -
  have "set (filter (\<lambda>i. i \<noteq> '''') (map gfrID (List.map_filter gqResponse (map hist_wire ps)))) =
      set (concat (map (\<lambda>p. case p of HResp i name resp \<Rightarrow> if i = '''' then [] else [i] | _ \<Rightarrow> []) ps))"
  proof (induction ps)
    case (Cons p ps)
    then show ?case by (cases p) (auto simp: List.map_filter_simps gq_zero_part_def)
  qed (simp add: List.map_filter_simps)
  then show ?thesis by (simp only: named_set_def named_by_def)
qed

lemma read_turns:
  "history_ok raw_text un rf pending role (fill_ids turn pending ts) \<Longrightarrow>
   parse_contents raw_text turn (map turn_wire ts) (map fst pending) =
     map (\<lambda>t. \<lparr>msgRole = (if fst t then RoleAssistant else RoleUser), msgContent = map (hist_block raw_text) (snd t)\<rparr>)
       (fill_ids turn pending ts)"
proof (induction ts arbitrary: turn pending role)
  case (Cons t ts)
  let ?ps = "fill_parts turn 0 (filter (\<lambda>c. fst c \<notin> named_by (snd t)) pending) (snd t)"
  let ?p1 = "if hist_calls ?ps \<noteq> [] then hist_calls ?ps else pending"
  have ok: "list_all (hist_ok raw_text un rf pending) ?ps" and h: "history_ok raw_text un rf ?p1 (Some (fst t)) (fill_ids (Suc turn) ?p1 ts)"
    using Cons.prems unfolding fill_ids.simps Let_def history_ok.simps fst_conv snd_conv by blast+
  have w: "gqParts (turn_wire t) = map hist_wire (snd t)" "gqRole (turn_wire t) = (if fst t then ''model'' else ''user'')"
    by (simp_all add: turn_wire_def)
  have r: "parseParts raw_text turn (map hist_wire (snd t)) (map fst pending) = (map (hist_block raw_text) ?ps, map fst (hist_calls ?ps))"
    using read_parts[of "filter (\<lambda>c. fst c \<notin> named_by (snd t)) pending" "named_by (snd t)" 0 pending raw_text un rf turn "[]" "snd t"] ok
    by (simp add: parseParts_def named_wire)
  have p1: "(if map fst (hist_calls ?ps) \<noteq> [] then map fst (hist_calls ?ps) else map fst pending) = map fst ?p1" by simp
  show ?case unfolding list.map parse_contents.simps w r prod.case p1 Cons.IH[OF h] fill_ids.simps Let_def by simp
qed simp

lemma media_kind: "MediaKind mime \<in> {BlockImage, BlockAudio, BlockDocument}"
  by (simp add: MediaKind_def)

lemma build_part:
  assumes "hist_ok raw_text un rf pending p"
  shows "gb_block fe un rf turn pending claimed (hist_block raw_text p) s =
      (s\<lparr>psCalls := psCalls s @ hist_calls [p]\<rparr>, [], Inr [hist_members p]) \<and>
    block_cache_warning (hist_block raw_text p) = []"
  using assms
proof (cases p)
  case (HText t sig)
  then show ?thesis by (simp add: text_block_def gb_block_def block_cache_warning_def ExtraString_def)
next
  case (HInline mime dat)
  then show ?thesis using assms media_kind[of mime]
    by (auto simp: media_block_def gb_block_def block_cache_warning_def media_part_def)
next
  case (HFile mime uri)
  then show ?thesis using assms media_kind[of mime]
    by (auto simp: media_block_def gb_block_def block_cache_warning_def media_part_def)
next
  case (HCall i name args sig)
  then show ?thesis using assms by (simp add: gm_call_block_def gb_block_def block_cache_warning_def Let_def)
next
  case (HResp i name resp)
  then show ?thesis using assms
    by (simp add: answer_block_def gb_block_def block_cache_warning_def result_name_def text_block_def ToolResult_Text_def)
qed (simp add: gb_block_def block_cache_warning_def)

lemma hist_calls_Cons: "hist_calls (p # ps) = hist_calls [p] @ hist_calls ps"
  by (cases p) auto

lemma build_parts:
  "list_all (hist_ok raw_text un rf pending) ps \<Longrightarrow>
   gb_blocks fe un rf turn pending claimed (map (hist_block raw_text) ps) s =
     (s\<lparr>psCalls := psCalls s @ hist_calls ps\<rparr>, [], Inr (map hist_members ps))"
proof (induction ps arbitrary: s)
  case (Cons p ps)
  have p: "hist_ok raw_text un rf pending p" and ps: "list_all (hist_ok raw_text un rf pending) ps" using Cons.prems by simp_all
  show ?case using build_part[OF p, of fe turn claimed s] Cons.IH[OF ps] hist_calls_Cons[of p ps] by simp
qed simp

lemma message_simps: "msgContent \<lparr>msgRole = a, msgContent = b\<rparr> = b"
  by simp

lemma build_turns:
  "history_ok raw_text un rf pending (map_option (\<lambda>c. fst c = ''model'') cur) ts \<Longrightarrow>
   (case cur of Some (r, qs) \<Rightarrow> r \<in> {''model'', ''user''} | None \<Rightarrow> True) \<Longrightarrow>
   gb_turns fe un rf turn (map (\<lambda>t. \<lparr>msgRole = (if fst t then RoleAssistant else RoleUser), msgContent = map (hist_block raw_text) (snd t)\<rparr>) ts)
     pending st cur = (st, [], Inr (close_content cur @ map sent_content ts))"
proof (induction ts arbitrary: turn pending cur)
  case (Cons t ts)
  let ?role = "if fst t then ''model'' else ''user''"
  have ok: "list_all (hist_ok raw_text un rf pending) (snd t)" "snd t \<noteq> []" using Cons.prems by simp_all
  have r: "renderParts fe un rf turn (map (hist_block raw_text) (snd t)) pending st = (st, [], Inr (map hist_members (snd t), hist_calls (snd t)))"
    by (simp add: renderParts_def build_parts[OF ok(1)])
  have j: "join_parts cur ?role (map hist_members (snd t)) = (close_content cur, Some (sent_content t))"
    using Cons.prems ok(2) by (cases cur) (auto simp: join_parts_def sent_content_def)
  have m: "map_option (\<lambda>c. fst c = ''model'') (Some (sent_content t)) = Some (fst t)" by (simp add: sent_content_def)
  have "gb_turns fe un rf (Suc turn)
      (map (\<lambda>t. \<lparr>msgRole = (if fst t then RoleAssistant else RoleUser), msgContent = map (hist_block raw_text) (snd t)\<rparr>) ts)
      (if hist_calls (snd t) \<noteq> [] then hist_calls (snd t) else pending) st (Some (sent_content t)) =
      (st, [], Inr (close_content (Some (sent_content t)) @ map sent_content ts))"
    by (rule Cons.IH) (use Cons.prems m in \<open>auto simp: sent_content_def\<close>)
  moreover have "gm_role \<lparr>msgRole = (if fst t then RoleAssistant else RoleUser), msgContent = map (hist_block raw_text) (snd t)\<rparr> = ?role"
    by (simp add: gm_role_def)
  ultimately show ?case by (simp only: list.map gb_turns.simps r j message_simps prod.case sum.case close_content.simps) simp
qed simp

text \<open>C18. A conversation, read and built again. The contents array of a Gemini client, of text, thoughts, media, calls and
  responses, read into the canonical request and built for a Gemini upstream, is the array the client sent with the
  ids it left out filled in: a call without an id gets the synthetic one of its turn and place, and a response without
  one the id of the call it answers by its position. Contents and parts are the same in the same order, every part with
  its signature, every response with its call's name, nothing fetched and nothing warned about. The contents of the
  history are not empty and alternate between the roles, its texts and media are not empty, and each response answers a
  call of the last turn that made any, has that call's name and is an object whose numbers and order of members survive decoding.\<close>

theorem gemini_conversation_round_trip:
  assumes "history_ok raw_text unmarshal refloat [] None (fill_ids 0 [] turns)"
    and "dec_slice gq_zero_content gq_dec_content (JArr (map (\<lambda>t. content_json (sent_content t)) turns)) [] = Some wires"
    and "reqMessages req = parse_contents raw_text 0 wires []"
  shows "renderContents fe unmarshal refloat req =
    (\<lparr>isLeft = feMaxBytes fe, isAsked = []\<rparr>, [], Inr (map sent_content (fill_ids 0 [] turns)))"
proof -
  let ?turns = "fill_ids 0 [] turns"
  have w: "wires = map turn_wire turns" using dec_turns assms(2) by simp
  have m: "NonSystemMessages (map (\<lambda>t. \<lparr>msgRole = (if fst t then RoleAssistant else RoleUser), msgContent = map (hist_block raw_text) (snd t)\<rparr>) ts) =
      map (\<lambda>t. \<lparr>msgRole = (if fst t then RoleAssistant else RoleUser), msgContent = map (hist_block raw_text) (snd t)\<rparr>) ts" for ts
    by (auto simp: NonSystemMessages_def intro: filter_True)
  show ?thesis
    using build_turns[of raw_text unmarshal refloat "[]" None ?turns fe 0 "\<lparr>isLeft = feMaxBytes fe, isAsked = []\<rparr>"] assms(1)
      read_turns[OF assms(1)]
    by (simp add: renderContents_def assms(3) w m)
qed

definition demo_fetcher :: fetcher where
  "demo_fetcher = \<lparr>feParse = (\<lambda>u. Inr (''https'', ''h'')),
     feGet = (\<lambda>n u. Inr \<lparr>ftStatus = 200, ftType = ''image/png'', ftBody = ''abc'', ftErr = None\<rparr>), feMaxBytes = 5, feInline = True\<rparr>"

definition url_block :: "string \<Rightarrow> ContentBlock" where
  "url_block u = media_block BlockImage \<lparr>MIME = '''', Data = '''', URL = u, FileID = ''''\<rparr>"

definition demo_fetch_request :: Request where
  "demo_fetch_request = (gemini_request_of (\<lambda>_. '''') ''m:generateContent'' gq_zero_request [])
     \<lparr>reqMessages := [\<lparr>msgRole = RoleUser, msgContent = [url_block ''https://h/1'', url_block ''https://h/2'']\<rparr>]\<rparr>"

theorem gemini_fetch_budget_witness:
  "list_all (may_ask demo_fetcher) [''https://h/1'', ''https://h/2''] \<and> fetched_bytes demo_fetcher [''https://h/1'', ''https://h/2''] > 5"
proof -
  have m: "feMaxBytes demo_fetcher = 5" by (simp add: demo_fetcher_def)
  obtain e where "renderContents demo_fetcher (\<lambda>_. None) Some demo_fetch_request =
      (\<lparr>isLeft = 2, isAsked = [''https://h/1'', ''https://h/2'']\<rparr>, [], Inl e)"
  proof -
    have "case renderContents demo_fetcher (\<lambda>_. None) Some demo_fetch_request of
        (st, w, r) \<Rightarrow> isLeft st = 2 \<and> isAsked st = [''https://h/1'', ''https://h/2''] \<and> w = [] \<and> (case r of Inl e \<Rightarrow> True | Inr c \<Rightarrow> False)"
      by code_simp
    then show ?thesis using that by (auto split: prod.splits sum.splits)
  qed
  from gemini_fetch_budget[OF _ this] show ?thesis by (simp add: m)
qed

definition demo_history_turns :: "hist_turn list" where
  "demo_history_turns = [(False, [HText ''hi'' '''']),
     (True, [HThought ''hm'' ''s'', HCall ''c'' ''look'' (JObj []) ''t'', HCall '''' ''find'' (JObj []) '''']),
     (False, [HResp '''' ''find'' (JObj []), HResp ''c'' ''look'' (JObj []), HInline ''image/png'' ''AA==''])]"

theorem gemini_conversation_round_trip_witness:
  "renderContents demo_fetcher (\<lambda>_. Some (JObj [])) Some
      (demo_fetch_request\<lparr>reqMessages := parse_contents (\<lambda>_. ''{}'') 0 (map turn_wire demo_history_turns) []\<rparr>) =
      (\<lparr>isLeft = 5, isAsked = []\<rparr>, [], Inr (map sent_content
         [(False, [HText ''hi'' '''']),
          (True, [HThought ''hm'' ''s'', HCall ''c'' ''look'' (JObj []) ''t'', HCall ''call_1_1'' ''find'' (JObj []) '''']),
          (False, [HResp ''call_1_1'' ''find'' (JObj []), HResp ''c'' ''look'' (JObj []), HInline ''image/png'' ''AA==''])]))"
proof -
  have f: "fill_ids 0 [] demo_history_turns =
      [(False, [HText ''hi'' '''']),
       (True, [HThought ''hm'' ''s'', HCall ''c'' ''look'' (JObj []) ''t'', HCall ''call_1_1'' ''find'' (JObj []) '''']),
       (False, [HResp ''call_1_1'' ''find'' (JObj []), HResp ''c'' ''look'' (JObj []), HInline ''image/png'' ''AA==''])]"
    by code_simp
  have h: "history_ok (\<lambda>_. ''{}'') (\<lambda>_. Some (JObj [])) Some [] None (fill_ids 0 [] demo_history_turns)" by code_simp
  have m: "feMaxBytes demo_fetcher = 5" by (simp add: demo_fetcher_def)
  from gemini_conversation_round_trip[OF h, of "map turn_wire demo_history_turns"
      "demo_fetch_request\<lparr>reqMessages := parse_contents (\<lambda>_. ''{}'') 0 (map turn_wire demo_history_turns) []\<rparr>" demo_fetcher]
  show ?thesis using dec_turns by (simp add: m f)
qed

definition demo_unsigned :: "content list" where
  "demo_unsigned = [(''model'', [call_part ''a'' ''f'' (JObj []) '''']), (''user'', [text_part ''go'' '''']),
     (''model'', [text_part ''ok'' '''', call_part ''b'' ''f'' (JObj []) '''', call_part ''c'' ''g'' (JObj []) ''''])]"

theorem gemini_turn_signed_witness:
  "\<exists>before now. demo_unsigned = before @ now \<and> fst (signCurrentTurn demo_unsigned) = before @ map signed_step now \<and>
     list_all step_signed (map signed_step now) \<and> map signed_step now \<noteq> now"
proof -
  have "snd (signCurrentTurn demo_unsigned)" by code_simp
  moreover obtain ds placed where d: "signCurrentTurn demo_unsigned = (ds, placed)" by fastforce
  from gemini_turn_signed[OF d] obtain before now where b: "demo_unsigned = before @ now" "ds = before @ map signed_step now"
    "list_all step_signed (map signed_step now)" "placed \<longleftrightarrow> ds \<noteq> demo_unsigned" by blast
  ultimately have "map signed_step now \<noteq> now" using d by auto
  then show ?thesis using b d by (intro exI[of _ before] exI[of _ now]) simp
qed

text \<open>A map with another key beside the cache handle: whether the handle is sent depends on the order the map is walked in.\<close>

lemma metadata_order_matters:
  "fst (gb_metadata [(MetadataCachedContent, h), (''user'', u)] None) = Some h \<and>
   fst (gb_metadata [(''user'', u), (MetadataCachedContent, h)] None) = None"
  by (simp add: MetadataCachedContent_def)

end
