(* ===== verification/Forward.thy ===== *)
theory Forward
  imports Gemini_Build Anthropic_Parser
begin

text \<open>
  The forward paths of the three native adapters, \<^verbatim>\<open>forward.go\<close> of \<^verbatim>\<open>internal/adapter/openaicompat\<close>, \<^verbatim>\<open>anthropic\<close> and
  \<^verbatim>\<open>gemini\<close>: the request that carries a client's own body, and what each recogniser makes of one raw event without
  translating it; and the token counting of the Anthropic and Gemini adapters, \<^verbatim>\<open>count.go\<close>.

  A recogniser has to see content exactly where the translated path would: an attempt commits there. Arguments as in
  the parsers; header names are canonical.
\<close>

section \<open>Building a forwarded request\<close>

definition Header_Set :: "string \<Rightarrow> string \<Rightarrow> (string \<times> string) list \<Rightarrow> (string \<times> string) list" where
  "Header_Set k v h = filter (\<lambda>x. fst x \<noteq> k) h @ [(k, v)]"

definition forward_request :: "(string \<Rightarrow> bool) \<Rightarrow> string \<Rightarrow> (string \<times> string) list \<Rightarrow> string \<Rightarrow> http_request option" where
  "forward_request valid_url url h body =
     (if \<not> valid_url url then None else Some \<lparr>hqMethod = ''POST'', hqURL = url, hqHeader = h, hqBody = body\<rparr>)"

definition oc_BuildForward :: "(string \<Rightarrow> bool) \<Rightarrow> Target \<Rightarrow> Forward \<Rightarrow> http_request option" where
  "oc_BuildForward valid_url t f =
     (let h = Header_Set ''Content-Type'' ''application/json'' (fdHeader f);
          h1 = (if taAPIKey t \<noteq> '''' then Header_Set ''Authorization'' (''Bearer '' @ taAPIKey t) h else h)
      in forward_request valid_url (TrimSlashes (taBaseURL t) @ ''/chat/completions'') h1 (fdBody f))"

definition an_BuildForward :: "(string \<Rightarrow> bool) \<Rightarrow> Target \<Rightarrow> Forward \<Rightarrow> http_request option" where
  "an_BuildForward valid_url t f =
     (let h = Header_Set ''Content-Type'' ''application/json'' (fdHeader f);
          h1 = (if taAPIKey t \<noteq> '''' then Header_Set ''X-Api-Key'' (taAPIKey t) h else h);
          h2 = (case map_of h1 ''Anthropic-Version'' of
                  Some v \<Rightarrow> if v = '''' then Header_Set ''Anthropic-Version'' DefaultVersion h1 else h1
                | None \<Rightarrow> Header_Set ''Anthropic-Version'' DefaultVersion h1)
      in forward_request valid_url (TrimSlashes (taBaseURL t) @ ''/messages'') h2 (fdBody f))"

text \<open>\<^verbatim>\<open>url.Values.Encode\<close>: keys in order, a space as a plus sign.\<close>

definition query_safe :: "char \<Rightarrow> bool" where
  "query_safe c = (is_digit_char c \<or> (CHR ''a'' \<le> c \<and> c \<le> CHR ''z'') \<or> (CHR ''A'' \<le> c \<and> c \<le> CHR ''Z'') \<or> c \<in> set ''-_.~'')"

definition QueryEscape :: "string \<Rightarrow> string" where
  "QueryEscape s =
     concat (map (\<lambda>c. if c = CHR '' '' then ''+'' else if query_safe c then [c]
       else [CHR ''%'', hex_digit (of_char c div 16), hex_digit (of_char c mod 16)]) s)"

definition Values_Encode :: "(string, string list) gomap \<Rightarrow> string" where
  "Values_Encode q =
     Join ''&'' (concat (map (\<lambda>(k, vs). map (\<lambda>v. QueryEscape k @ ''='' @ QueryEscape v) vs) (sort_key fst q)))"

definition gm_BuildForward :: "(string \<Rightarrow> bool) \<Rightarrow> Target \<Rightarrow> Forward \<Rightarrow> http_request option" where
  "gm_BuildForward valid_url t f =
     (if fdMethod f = '''' then None
      else
        let h = Header_Set ''Content-Type'' ''application/json'' (fdHeader f);
            h1 = (if taAPIKey t \<noteq> '''' then Header_Set ''X-Goog-Api-Key'' (taAPIKey t) h else h);
            q = Values_Encode (fdQuery f)
        in forward_request valid_url (modelEndpoint t ('':'' @ fdMethod f) @ (if q \<noteq> '''' then ''?'' @ q else '''')) h1 (fdBody f))"

section \<open>Recognising one event\<close>

record oc_forwardChoice =
  ofContent :: string
  ofReasoning :: string
  ofReasoningAlt :: string
  ofArguments :: "string list"

definition of_zero_choice :: oc_forwardChoice where
  "of_zero_choice = \<lparr>ofContent = '''', ofReasoning = '''', ofReasoningAlt = '''', ofArguments = []\<rparr>"

definition of_dec_call :: "json \<Rightarrow> string \<Rightarrow> string option" where
  "of_dec_call = dec_struct (\<lambda>k v s.
     if k = ''function'' then dec_struct (\<lambda>k v s. if k = ''arguments'' then dec_string v s else Some s) v s else Some s)"

definition of_dec_choice :: "json \<Rightarrow> oc_forwardChoice \<Rightarrow> oc_forwardChoice option" where
  "of_dec_choice = dec_struct (\<lambda>k v s.
     if k = ''delta'' then
       dec_struct (\<lambda>k v s.
         if k = ''content'' then set_field (\<lambda>x s. s\<lparr>ofContent := x\<rparr>) (dec_string v (ofContent s)) s
         else if k = ''reasoning_content'' then set_field (\<lambda>x s. s\<lparr>ofReasoning := x\<rparr>) (dec_string v (ofReasoning s)) s
         else if k = ''reasoning'' then set_field (\<lambda>x s. s\<lparr>ofReasoningAlt := x\<rparr>) (dec_string v (ofReasoningAlt s)) s
         else if k = ''tool_calls'' then set_field (\<lambda>x s. s\<lparr>ofArguments := x\<rparr>) (dec_slice '''' of_dec_call v (ofArguments s)) s
         else Some s) v s
     else Some s)"

record oc_forwardChunk =
  ofChoices :: "oc_forwardChoice list"
  ofUsage :: "oc_wireUsage option"
  ofError :: "json option"

definition of_dec_chunk :: "json \<Rightarrow> oc_forwardChunk \<Rightarrow> oc_forwardChunk option" where
  "of_dec_chunk = dec_struct (\<lambda>k v s.
     if k = ''choices'' then set_field (\<lambda>x s. s\<lparr>ofChoices := x\<rparr>) (dec_slice of_zero_choice of_dec_choice v (ofChoices s)) s
     else if k = ''usage'' then set_field (\<lambda>x s. s\<lparr>ofUsage := x\<rparr>) (dec_ptr oc_zero_usage oc_dec_usage v (ofUsage s)) s
     else if k = ''error'' then Some (s\<lparr>ofError := Some v\<rparr>)
     else Some s)"

definition of_content :: "oc_forwardChoice \<Rightarrow> bool" where
  "of_content ch = (ofContent ch \<noteq> '''' \<or> ofReasoning ch \<noteq> '''' \<or> ofReasoningAlt ch \<noteq> '''' \<or> list_ex (\<lambda>a. a \<noteq> '''') (ofArguments ch))"

definition oc_RecognizeEvent :: "(string \<Rightarrow> json option) \<Rightarrow> Event \<Rightarrow> RawEvent" where
  "oc_RecognizeEvent unmarshal ev =
     (if seData ev = ''[DONE]'' then zero_raw\<lparr>reTerminal := True\<rparr>
      else if seData ev = '''' then zero_raw
      else case Option.bind (unmarshal (seData ev)) (\<lambda>j. of_dec_chunk j \<lparr>ofChoices = [], ofUsage = None, ofError = None\<rparr>) of
        None \<Rightarrow> zero_raw
      | Some c \<Rightarrow>
          if present (ofError c) then zero_raw\<lparr>reErrPayload := seData ev\<rparr>
          else zero_raw\<lparr>reContent := list_ex of_content (ofChoices c), reUsage := map_option oc_toIR (ofUsage c),
            reUsageOnly := (ofUsage c \<noteq> None \<and> ofChoices c = [])\<rparr>)"

record an_forwardDelta =
  afText :: string
  afThinking :: string
  afPartial :: string

definition af_zero_delta :: an_forwardDelta where
  "af_zero_delta = \<lparr>afText = '''', afThinking = '''', afPartial = ''''\<rparr>"

text \<open>The delta's type is decoded and never looked at.\<close>

definition af_dec_delta :: "json \<Rightarrow> string \<times> an_forwardDelta \<Rightarrow> (string \<times> an_forwardDelta) option" where
  "af_dec_delta = dec_struct (\<lambda>k v s.
     if k = ''type'' then set_field (\<lambda>x s. (x, snd s)) (dec_string v (fst s)) s
     else if k = ''text'' then set_field (\<lambda>x s. (fst s, (snd s)\<lparr>afText := x\<rparr>)) (dec_string v (afText (snd s))) s
     else if k = ''thinking'' then set_field (\<lambda>x s. (fst s, (snd s)\<lparr>afThinking := x\<rparr>)) (dec_string v (afThinking (snd s))) s
     else if k = ''partial_json'' then set_field (\<lambda>x s. (fst s, (snd s)\<lparr>afPartial := x\<rparr>)) (dec_string v (afPartial (snd s))) s
     else Some s)"

record an_forward =
  anType :: string
  anMessage :: "wireUsage option"
  anDelta :: "(string \<times> an_forwardDelta) option"
  anUsage :: "wireUsage option"

definition af_dec_event :: "json \<Rightarrow> an_forward \<Rightarrow> an_forward option" where
  "af_dec_event = dec_struct (\<lambda>k v s.
     if k = ''type'' then set_field (\<lambda>x s. s\<lparr>anType := x\<rparr>) (dec_string v (anType s)) s
     else if k = ''message'' then
       set_field (\<lambda>x s. s\<lparr>anMessage := x\<rparr>)
         (dec_ptr zero_wire_usage (dec_struct (\<lambda>k v s. if k = ''usage'' then dec_usage v s else Some s)) v (anMessage s)) s
     else if k = ''delta'' then set_field (\<lambda>x s. s\<lparr>anDelta := x\<rparr>) (dec_ptr ('''', af_zero_delta) af_dec_delta v (anDelta s)) s
     else if k = ''usage'' then set_field (\<lambda>x s. s\<lparr>anUsage := x\<rparr>) (dec_ptr zero_wire_usage dec_usage v (anUsage s)) s
     else Some s)"

definition an_content :: "an_forwardDelta \<Rightarrow> bool" where
  "an_content d = (afText d \<noteq> '''' \<or> afThinking d \<noteq> '''' \<or> afPartial d \<noteq> '''')"

definition an_RecognizeEvent :: "(string \<Rightarrow> json option) \<Rightarrow> Event \<Rightarrow> RawEvent" where
  "an_RecognizeEvent unmarshal ev =
     (if seData ev = '''' then zero_raw
      else case Option.bind (unmarshal (seData ev)) (\<lambda>j. af_dec_event j \<lparr>anType = '''', anMessage = None, anDelta = None, anUsage = None\<rparr>) of
        None \<Rightarrow> zero_raw
      | Some w \<Rightarrow>
          if anType w = ''error'' then zero_raw\<lparr>reErrPayload := seData ev\<rparr>
          else if anType w = ''message_stop'' then zero_raw\<lparr>reTerminal := True\<rparr>
          else if anType w = ''message_start'' then zero_raw\<lparr>reUsage := map_option toIR (anMessage w)\<rparr>
          else if anType w = ''message_delta'' then zero_raw\<lparr>reUsage := map_option toIR (anUsage w)\<rparr>
          else if anType w = ''content_block_delta'' then
            (case anDelta w of None \<Rightarrow> zero_raw | Some (typ, d) \<Rightarrow> zero_raw\<lparr>reContent := an_content d\<rparr>)
          else zero_raw)"

record gm_forwardPart =
  fpText :: string
  fpCall :: "json option"
  fpInline :: "json option"

definition fp_zero :: gm_forwardPart where "fp_zero = \<lparr>fpText = '''', fpCall = None, fpInline = None\<rparr>"

definition fp_dec_part :: "json \<Rightarrow> gm_forwardPart \<Rightarrow> gm_forwardPart option" where
  "fp_dec_part = dec_struct (\<lambda>k v s.
     if k = ''text'' then set_field (\<lambda>x s. s\<lparr>fpText := x\<rparr>) (dec_string v (fpText s)) s
     else if k = ''functioncall'' then Some (s\<lparr>fpCall := Some v\<rparr>)
     else if k = ''inlinedata'' then Some (s\<lparr>fpInline := Some v\<rparr>)
     else Some s)"

definition fp_dec_candidate :: "json \<Rightarrow> gm_forwardPart list \<Rightarrow> gm_forwardPart list option" where
  "fp_dec_candidate = dec_struct (\<lambda>k v s.
     if k = ''content'' then dec_struct (\<lambda>k v s. if k = ''parts'' then dec_slice fp_zero fp_dec_part v s else Some s) v s
     else Some s)"

record gm_forward =
  gfoCandidates :: "gm_forwardPart list list"
  gfoUsage :: "gm_wireUsage option"
  gfoError :: "json option"

definition fp_dec_chunk :: "json \<Rightarrow> gm_forward \<Rightarrow> gm_forward option" where
  "fp_dec_chunk = dec_struct (\<lambda>k v s.
     if k = ''candidates'' then set_field (\<lambda>x s. s\<lparr>gfoCandidates := x\<rparr>) (dec_slice [] fp_dec_candidate v (gfoCandidates s)) s
     else if k = ''usagemetadata'' then set_field (\<lambda>x s. s\<lparr>gfoUsage := x\<rparr>) (dec_ptr gm_zero_usage gm_dec_usage v (gfoUsage s)) s
     else if k = ''error'' then Some (s\<lparr>gfoError := Some v\<rparr>)
     else Some s)"

definition fp_content :: "gm_forwardPart \<Rightarrow> bool" where
  "fp_content p = (fpText p \<noteq> '''' \<or> present (fpCall p) \<or> present (fpInline p))"

definition gm_RecognizeEvent :: "(string \<Rightarrow> json option) \<Rightarrow> Event \<Rightarrow> RawEvent" where
  "gm_RecognizeEvent unmarshal ev =
     (if seData ev = '''' then zero_raw
      else case Option.bind (unmarshal (seData ev)) (\<lambda>j. fp_dec_chunk j \<lparr>gfoCandidates = [], gfoUsage = None, gfoError = None\<rparr>) of
        None \<Rightarrow> zero_raw
      | Some w \<Rightarrow>
          if present (gfoError w) then zero_raw\<lparr>reErrPayload := seData ev\<rparr>
          else zero_raw\<lparr>reContent := list_ex (list_ex fp_content) (gfoCandidates w), reUsage := map_option gm_toIR (gfoUsage w)\<rparr>)"

section \<open>Usage of a whole body\<close>

definition RecognizeUsage_of ::
    "(json \<Rightarrow> 'u \<Rightarrow> 'u option) \<Rightarrow> string \<Rightarrow> 'u \<Rightarrow> ('u \<Rightarrow> Usage) \<Rightarrow> (string \<Rightarrow> json option) \<Rightarrow> string \<Rightarrow> Usage option" where
  "RecognizeUsage_of dec key zero to_ir unmarshal body =
     (case Option.bind (unmarshal body) (\<lambda>j. dec_struct (\<lambda>k v s. if k = key then dec_ptr zero dec v s else Some s) j None) of
        None \<Rightarrow> None
      | Some u \<Rightarrow> map_option to_ir u)"

definition oc_RecognizeUsage :: "(string \<Rightarrow> json option) \<Rightarrow> string \<Rightarrow> Usage option" where
  "oc_RecognizeUsage = RecognizeUsage_of oc_dec_usage ''usage'' oc_zero_usage oc_toIR"

definition an_RecognizeUsage :: "(string \<Rightarrow> json option) \<Rightarrow> string \<Rightarrow> Usage option" where
  "an_RecognizeUsage = RecognizeUsage_of dec_usage ''usage'' zero_wire_usage toIR"

definition gm_RecognizeUsage :: "(string \<Rightarrow> json option) \<Rightarrow> string \<Rightarrow> Usage option" where
  "gm_RecognizeUsage = RecognizeUsage_of gm_dec_usage ''usagemetadata'' gm_zero_usage gm_toIR"
section \<open>Counting\<close>

definition gm_BuildCountRequest ::
    "fetcher \<Rightarrow> (json \<Rightarrow> string option) \<Rightarrow> (string \<Rightarrow> json option) \<Rightarrow> (json \<Rightarrow> json option) \<Rightarrow> (string \<Rightarrow> bool) \<Rightarrow> Target \<Rightarrow> Request \<Rightarrow>
     http_request option" where
  "gm_BuildCountRequest fe marshal unmarshal refloat valid_url t req =
     (case renderBody fe unmarshal refloat t (req\<lparr>reqStream := False\<rparr>) of
        (warns, Inl e) \<Rightarrow> None
      | (warns, Inr body) \<Rightarrow>
          (case marshal (JObj [(''generateContentRequest'',
                  JObj (sort_key fst ((''model'', JStr (''models/'' @ taModel t)) # body)))]) of
             None \<Rightarrow> None
           | Some buf \<Rightarrow> gb_newRequest valid_url t (modelEndpoint t '':countTokens'') buf))"

text \<open>The count a body reports; \<open>body\<close> is what reading it and scanning it as JSON gave.\<close>

definition parse_count :: "string \<Rightarrow> go_error \<Rightarrow> go_error + json \<Rightarrow> go_error + int" where
  "parse_count key decode_err body =
     (case body of
        Inl e \<Rightarrow> Inl e
      | Inr j \<Rightarrow> (case dec_struct (\<lambda>k v s. if k = key then dec_int v s else Some s) j 0 of None \<Rightarrow> Inl decode_err | Some n \<Rightarrow> Inr n))"

definition gm_ParseCountResponse :: "go_error \<Rightarrow> go_error + json \<Rightarrow> go_error + int" where
  "gm_ParseCountResponse = parse_count ''totaltokens''"

definition an_ParseCountResponse :: "go_error \<Rightarrow> go_error + json \<Rightarrow> go_error + int" where
  "an_ParseCountResponse = parse_count ''input_tokens''"

text \<open>The body a message would be sent with, read back and rid of what shapes an answer.\<close>

definition an_BuildCountRequest ::
    "(json \<Rightarrow> string option) \<Rightarrow> (string \<Rightarrow> json option) \<Rightarrow> (json \<Rightarrow> json option) \<Rightarrow> (json \<Rightarrow> bool) \<Rightarrow> (string \<Rightarrow> bool) \<Rightarrow> Target \<Rightarrow> Request \<Rightarrow>
     http_request option" where
  "an_BuildCountRequest marshal unmarshal refloat in_band valid_url t req =
     (case fst (BuildRequest marshal refloat in_band valid_url t (req\<lparr>reqStream := False\<rparr>)) of
        None \<Rightarrow> None
      | Some hr \<Rightarrow>
          (case Option.bind (unmarshal (hqBody hr)) (any_value refloat) of
             Some (JObj body) \<Rightarrow>
               (case marshal (sort_keys (JObj (filter (\<lambda>m. fst m \<notin> {''max_tokens'', ''stream'', ''output_config''}) body))) of
                  None \<Rightarrow> None
                | Some buf \<Rightarrow>
                    let url = TrimSlashes (taBaseURL t) @ ''/messages/count_tokens'' in
                    if \<not> valid_url url then None else Some (hr\<lparr>hqURL := url, hqBody := buf\<rparr>))
           | _ \<Rightarrow> None))"

section \<open>Decoding less of the same value\<close>

text \<open>A struct with fewer fields decodes wherever the larger one does, to the same values.\<close>

definition projects :: "('s \<Rightarrow> 't) \<Rightarrow> (json \<Rightarrow> 's \<Rightarrow> 's option) \<Rightarrow> (json \<Rightarrow> 't \<Rightarrow> 't option) \<Rightarrow> bool" where
  "projects f d d' = (\<forall>j s s'. d j s = Some s' \<longrightarrow> d' j (f s) = Some (f s'))"

lemma projectsD: "projects f d d' \<Longrightarrow> d j s = Some s' \<Longrightarrow> d' j (f s) = Some (f s')"
  by (simp add: projects_def)

lemma dec_members_rel:
  assumes "\<And>k v s t s'. R s t \<Longrightarrow> f k v s = Some s' \<Longrightarrow> \<exists>t'. g k v t = Some t' \<and> R s' t'"
  shows "R s t \<Longrightarrow> dec_members f ms s = Some s' \<Longrightarrow> \<exists>t'. dec_members g ms t = Some t' \<and> R s' t'"
proof (induction ms arbitrary: s t)
  case (Cons m ms)
  obtain k v where m: "m = (k, v)" by (cases m)
  obtain s1 where s1: "f (ToLower k) v s = Some s1" "dec_members f ms s1 = Some s'" using Cons.prems(2) by (auto simp: m split: option.splits)
  from assms[OF Cons.prems(1) s1(1)] obtain t1 where t1: "g (ToLower k) v t = Some t1" "R s1 t1" by blast
  from Cons.IH[OF t1(2) s1(2)] show ?case by (simp add: m t1(1))
qed simp

lemma dec_struct_rel:
  assumes "\<And>k v s t s'. R s t \<Longrightarrow> f k v s = Some s' \<Longrightarrow> \<exists>t'. g k v t = Some t' \<and> R s' t'" "R s t" "dec_struct f j s = Some s'"
  shows "\<exists>t'. dec_struct g j t = Some t' \<and> R s' t'"
proof (cases j)
  case (JObj ms)
  then show ?thesis using dec_members_rel[of R f g, OF assms(1) assms(2)] assms(3) by simp
qed (use assms in auto)

lemma projects_struct:
  assumes "\<And>k v s s'. f k v s = Some s' \<Longrightarrow> g k v (p s) = Some (p s')"
  shows "projects p (dec_struct f) (dec_struct g)"
  unfolding projects_def
proof (intro allI impI)
  fix j s s' assume "dec_struct f j s = Some s'"
  from dec_struct_rel[of "\<lambda>s t. t = p s" f g s "p s" j s', OF _ refl this] assms show "dec_struct g j (p s) = Some (p s')" by simp
qed

lemma projects_slice:
  assumes "projects p d d'"
  shows "projects (map p) (dec_slice z d) (dec_slice (p z) d')"
proof -
  have e: "dec_elems z d xs old = Some ys \<Longrightarrow> dec_elems (p z) d' xs (map p old) = Some (map p ys)" for xs old ys
  proof (induction xs arbitrary: old ys)
    case (Cons x xs)
    obtain y ys1 where y: "d x (case old of [] \<Rightarrow> z | q # _ \<Rightarrow> q) = Some y" "dec_elems z d xs (tl old) = Some ys1" "ys = y # ys1"
      using Cons.prems by (auto split: option.splits)
    have "d' x (case map p old of [] \<Rightarrow> p z | q # _ \<Rightarrow> q) = Some (p y)" using projectsD[OF assms y(1)] by (cases old) simp_all
    then show ?case using Cons.IH[OF y(2)] y(3) by (simp add: map_tl)
  qed simp
  show ?thesis unfolding projects_def
  proof (intro allI impI)
    fix j s s' assume "dec_slice z d j s = Some s'"
    then show "dec_slice (p z) d' j (map p s) = Some (map p s')" using e by (cases j) auto
  qed
qed

lemma projects_ptr:
  assumes "projects p d d'"
  shows "projects (map_option p) (dec_ptr z d) (dec_ptr (p z) d')"
  unfolding projects_def
proof (intro allI impI)
  fix j s s' assume d: "dec_ptr z d j s = Some s'"
  show "dec_ptr (p z) d' j (map_option p s) = Some (map_option p s')"
  proof (cases "j = JNull")
    case False
    then obtain x where x: "d j (case s of None \<Rightarrow> z | Some y \<Rightarrow> y) = Some x" "s' = Some x"
      using d by (auto simp: dec_ptr_def split: option.splits)
    from projectsD[OF assms x(1)] False show ?thesis by (cases s) (auto simp: dec_ptr_def x(2))
  qed (use d in simp)
qed

lemma set_field_Some: "set_field u r s = Some s' \<longleftrightarrow> (\<exists>x. r = Some x \<and> s' = u x s)"
  by (auto simp: set_field_def split: option.splits)

section \<open>Where an attempt commits\<close>

text \<open>The first event of a stream that is content.\<close>

fun first_at :: "('e \<Rightarrow> bool) \<Rightarrow> 'e list \<Rightarrow> nat option" where
  "first_at P [] = None"
| "first_at P (e # es) = (if P e then Some 0 else map_option Suc (first_at P es))"

text \<open>The events the translated path yields for each raw event, the parser's state threaded through.\<close>

fun yields_of :: "('c \<Rightarrow> 's \<Rightarrow> 's \<times> StreamEvent list) \<Rightarrow> 'c list \<Rightarrow> 's \<Rightarrow> StreamEvent list list" where
  "yields_of step [] st = []"
| "yields_of step (c # cs) st = (case step c st of (st1, out) \<Rightarrow> out # yields_of step cs st1)"

text \<open>The one is no later than the other.\<close>

definition no_later :: "nat option \<Rightarrow> nat option \<Rightarrow> bool" where
  "no_later x y = (case y of None \<Rightarrow> True | Some n \<Rightarrow> (case x of None \<Rightarrow> False | Some m \<Rightarrow> m \<le> n))"

lemma no_later_simps [simp]: "no_later (Some 0) y" "no_later x None" "no_later (map_option Suc x) (map_option Suc y) \<longleftrightarrow> no_later x y"
  by (auto simp: no_later_def split: option.splits)

locale recognizer =
  fixes recognize :: "Event \<Rightarrow> RawEvent"
    and reads :: "Event \<Rightarrow> 'c option"
    and step :: "'c \<Rightarrow> 's \<Rightarrow> 's \<times> StreamEvent list"
    and plain :: "'c \<Rightarrow> bool"
  assumes sees: "reads ev = Some c \<Longrightarrow> step c st = (st1, out) \<Longrightarrow> list_ex IsContentBearing out \<Longrightarrow> reContent (recognize ev)"
    and agrees: "reads ev = Some c \<Longrightarrow> plain c \<Longrightarrow> step c st = (st1, out) \<Longrightarrow> reContent (recognize ev) \<longleftrightarrow> list_ex IsContentBearing out"
    and no_error: "reads ev = Some c \<Longrightarrow> reErrPayload (recognize ev) = ''''"
begin

lemma commits_no_later:
  "list_all2 (\<lambda>ev c. reads ev = Some c) evs cs \<Longrightarrow>
   no_later (first_at (\<lambda>ev. reContent (recognize ev)) evs) (first_at (list_ex IsContentBearing) (yields_of step cs st))"
proof (induction evs cs arbitrary: st rule: list_all2_induct)
  case (Cons ev evs c cs)
  obtain st1 out where s: "step c st = (st1, out)" by fastforce
  show ?case using sees[OF Cons.hyps(1) s] Cons.IH[of st1] by (simp add: s)
qed simp

lemma commits_together:
  "list_all2 (\<lambda>ev c. reads ev = Some c) evs cs \<Longrightarrow> list_all plain cs \<Longrightarrow>
   first_at (\<lambda>ev. reContent (recognize ev)) evs = first_at (list_ex IsContentBearing) (yields_of step cs st)"
proof (induction evs cs arbitrary: st rule: list_all2_induct)
  case (Cons ev evs c cs)
  obtain st1 out where s: "step c st = (st1, out)" by fastforce
  show ?case using agrees[OF Cons.hyps(1) _ s] Cons.IH[of st1] Cons.prems by (simp add: s)
qed simp

lemma no_errors:
  "list_all2 (\<lambda>ev c. reads ev = Some c) evs cs \<Longrightarrow> list_all (\<lambda>ev. reErrPayload (recognize ev) = '''') evs"
  by (induction evs cs rule: list_all2_induct) (use no_error in simp_all)

end

section \<open>OpenAI\<close>

definition of_choice :: "oc_choice \<Rightarrow> oc_forwardChoice" where
  "of_choice ch = \<lparr>ofContent = chContent ch, ofReasoning = chReasoning ch, ofReasoningAlt = chReasoningAlt ch,
     ofArguments = map tcArguments (chToolCalls ch)\<rparr>"

lemma of_call: "projects tcArguments oc_dec_call of_dec_call"
proof -
  have f: "projects tcArguments
      (dec_struct (\<lambda>k v s. if k = ''name'' then set_field (\<lambda>x s. s\<lparr>tcName := x\<rparr>) (dec_string v (tcName s)) s
         else if k = ''arguments'' then set_field (\<lambda>x s. s\<lparr>tcArguments := x\<rparr>) (dec_string v (tcArguments s)) s else Some s))
      (dec_struct (\<lambda>k v s. if k = ''arguments'' then dec_string v s else Some s))"
    by (rule projects_struct) (auto simp: set_field_Some split: if_splits)
  show ?thesis unfolding oc_dec_call_def of_dec_call_def
    by (rule projects_struct) (auto simp: set_field_Some dest: projectsD[OF f] split: if_splits)
qed

lemma of_choice_dec: "projects of_choice oc_dec_choice of_dec_choice"
proof -
  have c: "projects (map tcArguments) (dec_slice oc_zero_call oc_dec_call) (dec_slice '''' of_dec_call)"
    using projects_slice[OF of_call, of oc_zero_call] by (simp add: oc_zero_call_def)
  have d: "projects of_choice oc_dec_delta (dec_struct (\<lambda>k v s.
         if k = ''content'' then set_field (\<lambda>x s. s\<lparr>ofContent := x\<rparr>) (dec_string v (ofContent s)) s
         else if k = ''reasoning_content'' then set_field (\<lambda>x s. s\<lparr>ofReasoning := x\<rparr>) (dec_string v (ofReasoning s)) s
         else if k = ''reasoning'' then set_field (\<lambda>x s. s\<lparr>ofReasoningAlt := x\<rparr>) (dec_string v (ofReasoningAlt s)) s
         else if k = ''tool_calls'' then set_field (\<lambda>x s. s\<lparr>ofArguments := x\<rparr>) (dec_slice '''' of_dec_call v (ofArguments s)) s
         else Some s))"
    unfolding oc_dec_delta_def
    by (rule projects_struct) (auto simp: set_field_Some of_choice_def dest: projectsD[OF c] split: if_splits)
  show ?thesis unfolding oc_dec_choice_def of_dec_choice_def
    by (rule projects_struct) (auto simp: set_field_Some of_choice_def dest: projectsD[OF d] split: if_splits)
qed

definition of_chunk_rel :: "wireChunk \<Rightarrow> oc_forwardChunk \<Rightarrow> bool" where
  "of_chunk_rel c w = (ofChoices w = map of_choice (wkChoices c) \<and> ofUsage w = wkUsage c \<and> (present (ofError w) \<longleftrightarrow> wkError c \<noteq> None))"

lemma of_chunk:
  assumes "dec_chunk j zero_chunk = Some c"
  shows "\<exists>w. of_dec_chunk j \<lparr>ofChoices = [], ofUsage = None, ofError = None\<rparr> = Some w \<and> of_chunk_rel c w"
proof -
  have ch: "projects (map of_choice) (dec_slice oc_zero_choice oc_dec_choice) (dec_slice of_zero_choice of_dec_choice)"
    using projects_slice[OF of_choice_dec, of oc_zero_choice] by (simp add: oc_zero_choice_def of_zero_choice_def of_choice_def)
  show ?thesis
    using assms unfolding dec_chunk_def of_dec_chunk_def
  proof (rule dec_struct_rel[of of_chunk_rel, rotated 2])
    show "of_chunk_rel zero_chunk \<lparr>ofChoices = [], ofUsage = None, ofError = None\<rparr>" by (simp add: of_chunk_rel_def zero_chunk_def present_def)
  next
    fix k v s t s'
    assume r: "of_chunk_rel s t" and d: "(if k = ''id'' then set_field (\<lambda>x s. s\<lparr>wkID := x\<rparr>) (dec_string v (wkID s)) s
     else if k = ''model'' then set_field (\<lambda>x s. s\<lparr>wkModel := x\<rparr>) (dec_string v (wkModel s)) s
     else if k = ''choices'' then set_field (\<lambda>x s. s\<lparr>wkChoices := x\<rparr>) (dec_slice oc_zero_choice oc_dec_choice v (wkChoices s)) s
     else if k = ''usage'' then set_field (\<lambda>x s. s\<lparr>wkUsage := x\<rparr>) (dec_ptr oc_zero_usage oc_dec_usage v (wkUsage s)) s
     else if k = ''error'' then set_field (\<lambda>x s. s\<lparr>wkError := x\<rparr>) (dec_ptr oc_zero_error oc_dec_error v (wkError s)) s
     else Some s) = Some s'"
    show "\<exists>t'. (if k = ''choices'' then set_field (\<lambda>x s. s\<lparr>ofChoices := x\<rparr>) (dec_slice of_zero_choice of_dec_choice v (ofChoices t)) t
     else if k = ''usage'' then set_field (\<lambda>x s. s\<lparr>ofUsage := x\<rparr>) (dec_ptr oc_zero_usage oc_dec_usage v (ofUsage t)) t
     else if k = ''error'' then Some (t\<lparr>ofError := Some v\<rparr>) else Some t) = Some t' \<and> of_chunk_rel s' t'"
      using r d by (auto simp: of_chunk_rel_def set_field_Some dec_ptr_def present_def dest!: projectsD[OF ch] split: if_splits option.splits)
  qed
qed

lemma emits_bearing:
  "list_all2 (\<lambda>f b. \<forall>st. list_ex P (snd (f st)) \<longleftrightarrow> b) fs bs \<Longrightarrow> list_ex P (snd (emits fs st)) \<longleftrightarrow> list_ex id bs"
proof (induction fs bs arbitrary: st rule: list_all2_induct)
  case (Cons f fs b bs)
  obtain st1 o1 where 1: "f st = (st1, o1)" by fastforce
  obtain st2 o2 where 2: "emits fs st1 = (st2, o2)" by fastforce
  show ?case using Cons.hyps(1)[rule_format, of st] Cons.IH[of st1] by (simp add: 1 2)
qed simp

lemmas bearing_simps = IsContentBearing_def start_ev_def delta_ev_def zero_event_def zero_delta_def text_d_def thinking_d_def tool_d_def
  call_delta_def block_stop_def usage_event_def

lemma step_bearing:
  "list_ex IsContentBearing (snd (oc_text s st)) \<longleftrightarrow> s \<noteq> ''''"
  "list_ex IsContentBearing (snd (oc_think s st)) \<longleftrightarrow> s \<noteq> ''''"
  "list_ex IsContentBearing (snd (oc_tool tc st)) \<longleftrightarrow> tcArguments tc \<noteq> ''''"
  "\<not> list_ex IsContentBearing (snd (oc_start c st))" "\<not> list_ex IsContentBearing (snd (oc_usage c st))"
  by (auto simp: oc_text_def oc_think_def oc_tool_def oc_start_def oc_usage_def bearing_simps Let_def split: option.split)

lemma stops_not_bearing: "\<not> list_ex IsContentBearing (map block_stop ks)"
  by (induction ks) (simp_all add: bearing_simps)

lemma finish_not_bearing: "\<not> list_ex IsContentBearing (snd (oc_finish r st))"
  using stops_not_bearing
  by (auto simp: oc_finish_def oc_closeAll_def CloseAll_def yield_stops_collect bearing_simps Let_def split: option.split)

lemma choice_bearing:
  "list_all2 (\<lambda>f b. \<forall>st. list_ex IsContentBearing (snd (f st)) \<longleftrightarrow> b) (choice_steps ch)
     ([chContent ch \<noteq> '''', chReasoning ch \<noteq> '''' \<or> chReasoningAlt ch \<noteq> ''''] @ map (\<lambda>tc. tcArguments tc \<noteq> '''') (chToolCalls ch) @ [False])"
  by (auto simp: choice_steps_def step_bearing finish_not_bearing list_all2_append list_all2_map1 list_all2_map2 intro: list_all2_refl)

lemma chunk_bearing:
  "list_ex IsContentBearing (snd (emits (chunk_steps c) st)) \<longleftrightarrow> list_ex of_content (map of_choice (wkChoices c))"
proof -
  let ?b = "\<lambda>ch. [chContent ch \<noteq> '''', chReasoning ch \<noteq> '''' \<or> chReasoningAlt ch \<noteq> ''''] @
    map (\<lambda>tc. tcArguments tc \<noteq> '''') (chToolCalls ch) @ [False]"
  have "list_all2 (\<lambda>f b. \<forall>st. list_ex IsContentBearing (snd (f st)) \<longleftrightarrow> b) (concat (map choice_steps cs)) (concat (map ?b cs))" for cs
  proof (induction cs)
    case (Cons ch cs)
    show ?case using list_all2_appendI[OF choice_bearing[of ch] Cons.IH] by simp
  qed simp
  then have "list_all2 (\<lambda>f b. \<forall>st. list_ex IsContentBearing (snd (f st)) \<longleftrightarrow> b) (chunk_steps c) ([False, False] @ concat (map ?b (wkChoices c)))"
    by (simp add: chunk_steps_def step_bearing)
  from emits_bearing[OF this, of st] show ?thesis
    by (auto simp: list_ex_iff of_content_def of_choice_def)
qed

text \<open>What the translated path decodes of an event, errors apart.\<close>

definition oc_reads :: "(string \<Rightarrow> json option) \<Rightarrow> Event \<Rightarrow> wireChunk option" where
  "oc_reads unmarshal ev =
     (if seData ev = '''' \<or> seData ev = ''[DONE]'' then None
      else case Option.bind (unmarshal (seData ev)) (\<lambda>j. dec_chunk j zero_chunk) of
        None \<Rightarrow> None | Some c \<Rightarrow> if wkError c = None then Some c else None)"

lemma oc_recognized:
  assumes "oc_reads unmarshal ev = Some c" "emits (chunk_steps c) st = (st1, out)"
  shows "(reContent (oc_RecognizeEvent unmarshal ev) \<longleftrightarrow> list_ex IsContentBearing out) \<and> reErrPayload (oc_RecognizeEvent unmarshal ev) = ''''"
proof -
  obtain j where j: "seData ev \<noteq> ''''" "seData ev \<noteq> ''[DONE]''" "unmarshal (seData ev) = Some j" "dec_chunk j zero_chunk = Some c" "wkError c = None"
    using assms(1) by (auto simp: oc_reads_def split: if_splits option.splits bind_splits)
  from of_chunk[OF j(4)] obtain w where w: "of_dec_chunk j \<lparr>ofChoices = [], ofUsage = None, ofError = None\<rparr> = Some w" "of_chunk_rel c w" by blast
  show ?thesis
    using j w chunk_bearing[of c st] assms(2) by (simp add: oc_RecognizeEvent_def of_chunk_rel_def zero_raw_def)
qed

interpretation openai_forward: recognizer "oc_RecognizeEvent unmarshal" "oc_reads unmarshal" "\<lambda>c. emits (chunk_steps c)" "\<lambda>c. True"
  for unmarshal
  by unfold_locales (use oc_recognized in \<open>blast, blast, metis surj_pair\<close>)

section \<open>Anthropic\<close>

text \<open>A delta in the form Anthropic documents: the fields of its own kind only.\<close>

definition own_fields :: "wireDelta \<Rightarrow> bool" where
  "own_fields d =
     ((wdText d \<noteq> '''' \<longrightarrow> wdType d = ''text_delta'') \<and> (wdThinking d \<noteq> '''' \<longrightarrow> wdType d = ''thinking_delta'') \<and>
      (wdPartialJSON d \<noteq> '''' \<longrightarrow> wdType d = ''input_json_delta''))"

definition af_delta :: "wireDelta \<Rightarrow> string \<times> an_forwardDelta" where
  "af_delta d = (wdType d, \<lparr>afText = wdText d, afThinking = wdThinking d, afPartial = wdPartialJSON d\<rparr>)"

definition af_event :: "wireStreamEvent \<Rightarrow> an_forward" where
  "af_event e = \<lparr>anType = weType e, anMessage = map_option wmUsage (weMessage e), anDelta = map_option af_delta (weDelta e), anUsage = weUsage e\<rparr>"

lemma af_delta_dec: "projects af_delta dec_delta af_dec_delta"
  unfolding dec_delta_def af_dec_delta_def
  by (rule projects_struct) (auto simp: set_field_Some af_delta_def split: if_splits)

lemma af_message_dec: "projects wmUsage dec_message (dec_struct (\<lambda>k v s. if k = ''usage'' then dec_usage v s else Some s))"
  unfolding dec_message_def by (rule projects_struct) (auto simp: set_field_Some split: if_splits)

lemma af_event_dec: "projects af_event dec_event af_dec_event"
proof -
  have d: "projects (map_option af_delta) (dec_ptr zero_wire_delta dec_delta) (dec_ptr ('''', af_zero_delta) af_dec_delta)"
    using projects_ptr[OF af_delta_dec, of zero_wire_delta] by (simp add: af_delta_def zero_wire_delta_def af_zero_delta_def)
  have m: "projects (map_option wmUsage) (dec_ptr \<lparr>wmID = '''', wmModel = '''', wmUsage = zero_wire_usage\<rparr> dec_message)
      (dec_ptr zero_wire_usage (dec_struct (\<lambda>k v s. if k = ''usage'' then dec_usage v s else Some s)))"
    using projects_ptr[OF af_message_dec, of "\<lparr>wmID = '''', wmModel = '''', wmUsage = zero_wire_usage\<rparr>"] by simp
  show ?thesis unfolding dec_event_def af_dec_event_def
    by (rule projects_struct) (auto simp: set_field_Some af_event_def dest: projectsD[OF d] projectsD[OF m] split: if_splits)
qed

definition an_reads :: "(string \<Rightarrow> json option) \<Rightarrow> Event \<Rightarrow> wireStreamEvent option" where
  "an_reads unmarshal ev =
     (if seData ev = '''' then None
      else case Option.bind (unmarshal (seData ev)) (\<lambda>j. dec_event j zero_wire_event) of
        None \<Rightarrow> None | Some e \<Rightarrow> if weType e = ''error'' then None else Some e)"

definition an_step :: "wireStreamEvent \<Rightarrow> ap_state \<Rightarrow> ap_state \<times> StreamEvent list" where
  "an_step e st = (case ap_event e st of (st1, out, ends) \<Rightarrow> (st1, List.map_filter (\<lambda>x. case x of Inl ev \<Rightarrow> Some ev | Inr err \<Rightarrow> None) out))"

definition an_plain :: "wireStreamEvent \<Rightarrow> bool" where
  "an_plain e = (case weDelta e of None \<Rightarrow> True | Some d \<Rightarrow> own_fields d)"

lemma an_bearing:
  assumes "weType e \<noteq> ''error''"
  defines "seen \<equiv> weType e = ''content_block_delta'' \<and> (case weDelta e of None \<Rightarrow> False | Some d \<Rightarrow> an_content (snd (af_delta d)))"
  shows "list_ex IsContentBearing (snd (an_step e st)) \<Longrightarrow> seen"
    and "an_plain e \<Longrightarrow> seen \<Longrightarrow> list_ex IsContentBearing (snd (an_step e st))"
proof -
  have "(list_ex IsContentBearing (snd (an_step e st)) \<longrightarrow> seen) \<and> (an_plain e \<longrightarrow> seen \<longrightarrow> list_ex IsContentBearing (snd (an_step e st)))"
  proof (cases "weType e = ''content_block_delta''")
    case True
    show ?thesis
    proof (cases "weDelta e")
      case None
      then show ?thesis using True by (simp add: an_step_def ap_event_def List.map_filter_def seen_def)
    next
      case (Some d)
      then show ?thesis using True
        by (auto simp: an_step_def ap_event_def List.map_filter_def delta_of_def own_fields_def an_content_def af_delta_def bearing_simps
            seen_def an_plain_def)
    qed
  next
    case False
    have "list_ex IsContentBearing (snd (an_step e st)) = False"
      using False assms(1)
      by (auto simp: an_step_def ap_event_def List.map_filter_def bearing_simps Let_def split: option.splits prod.splits)
    then show ?thesis using False by (simp add: seen_def)
  qed
  then show "list_ex IsContentBearing (snd (an_step e st)) \<Longrightarrow> seen"
    "an_plain e \<Longrightarrow> seen \<Longrightarrow> list_ex IsContentBearing (snd (an_step e st))" by blast+
qed

lemma an_recognized:
  assumes "an_reads unmarshal ev = Some c"
  shows "reErrPayload (an_RecognizeEvent unmarshal ev) = '''' \<and> weType c \<noteq> ''error'' \<and>
    (reContent (an_RecognizeEvent unmarshal ev) \<longleftrightarrow>
       weType c = ''content_block_delta'' \<and> (case weDelta c of None \<Rightarrow> False | Some d \<Rightarrow> an_content (snd (af_delta d))))"
proof -
  obtain j where j: "seData ev \<noteq> ''''" "unmarshal (seData ev) = Some j" "dec_event j zero_wire_event = Some c" "weType c \<noteq> ''error''"
    using assms by (auto simp: an_reads_def split: if_splits option.splits bind_splits)
  have z: "af_event zero_wire_event = \<lparr>anType = '''', anMessage = None, anDelta = None, anUsage = None\<rparr>"
    by (simp add: af_event_def zero_wire_event_def)
  have w: "af_dec_event j \<lparr>anType = '''', anMessage = None, anDelta = None, anUsage = None\<rparr> = Some (af_event c)"
    using projectsD[OF af_event_dec j(3)] by (simp add: z)
  show ?thesis
    using j(1,2,4) w by (auto simp: an_RecognizeEvent_def af_event_def zero_raw_def af_delta_def split: option.splits)
qed

interpretation anthropic_forward: recognizer "an_RecognizeEvent unmarshal" "an_reads unmarshal" an_step an_plain
  for unmarshal
proof
  fix ev c st st1 out
  assume r: "an_reads unmarshal ev = Some c"
  show "reErrPayload (an_RecognizeEvent unmarshal ev) = ''''" using an_recognized[OF r] by blast
  assume e: "an_step c st = (st1, out)"
  have out: "out = snd (an_step c st)" using e by simp
  show "reContent (an_RecognizeEvent unmarshal ev)" if "list_ex IsContentBearing out"
    using an_recognized[OF r] an_bearing(1)[of c st] that unfolding out by blast
  show "reContent (an_RecognizeEvent unmarshal ev) \<longleftrightarrow> list_ex IsContentBearing out" if "an_plain c"
    using an_recognized[OF r] an_bearing[of c st] that unfolding out by blast
qed

section \<open>Gemini\<close>

lemma dec_slice_rel:
  assumes "\<And>j s t s'. R s t \<Longrightarrow> d j s = Some s' \<Longrightarrow> \<exists>t'. d' j t = Some t' \<and> R s' t'" "R z z'"
    and "list_all2 R old old'" "dec_slice z d j old = Some ys"
  shows "\<exists>ys'. dec_slice z' d' j old' = Some ys' \<and> list_all2 R ys ys'"
proof -
  have "list_all2 R old old' \<Longrightarrow> dec_elems z d xs old = Some ys \<Longrightarrow> \<exists>ys'. dec_elems z' d' xs old' = Some ys' \<and> list_all2 R ys ys'" for xs old old' ys
  proof (induction xs arbitrary: old old' ys)
    case (Cons x xs)
    obtain y ys1 where y: "d x (case old of [] \<Rightarrow> z | q # _ \<Rightarrow> q) = Some y" "dec_elems z d xs (tl old) = Some ys1" "ys = y # ys1"
      using Cons.prems(2) by (auto split: option.splits)
    have h: "R (case old of [] \<Rightarrow> z | q # _ \<Rightarrow> q) (case old' of [] \<Rightarrow> z' | q # _ \<Rightarrow> q)" "list_all2 R (tl old) (tl old')"
      using Cons.prems(1) assms(2) by (cases old; cases old'; simp)+
    obtain y' where y': "d' x (case old' of [] \<Rightarrow> z' | q # _ \<Rightarrow> q) = Some y'" "R y y'" using assms(1)[OF h(1) y(1)] by blast
    from Cons.IH[OF h(2) y(2)] y' show ?case by (auto simp: y(3))
  qed simp
  then show ?thesis using assms(3,4) by (cases j) auto
qed

definition fp_rel :: "gm_wirePart \<Rightarrow> gm_forwardPart \<Rightarrow> bool" where
  "fp_rel p q = (fpText q = gpText p \<and> (present (fpCall q) \<longleftrightarrow> gpCall p \<noteq> None) \<and> (present (fpInline q) \<longleftrightarrow> gpInline p \<noteq> None))"

definition fc_rel :: "gm_wireCandidate \<Rightarrow> gm_forwardPart list \<Rightarrow> bool" where
  "fc_rel c ps = list_all2 fp_rel (gcParts c) ps"

definition fr_rel :: "gm_wireResponse \<Rightarrow> gm_forward \<Rightarrow> bool" where
  "fr_rel r w = (list_all2 fc_rel (case grCandidates r of None \<Rightarrow> [] | Some cs \<Rightarrow> cs) (gfoCandidates w) \<and>
     (present (gfoError w) \<longleftrightarrow> grError r \<noteq> None))"

lemma fp_zero_rel: "fp_rel gm_zero_part fp_zero"
  by (simp add: fp_rel_def gm_zero_part_def fp_zero_def present_def)

lemma ptr_null: "dec_ptr z d v old = Some x \<Longrightarrow> x = None \<longleftrightarrow> v = JNull"
  by (auto simp: dec_ptr_def split: if_splits option.splits)

lemma fp_part:
  assumes "fp_rel s t" "gm_dec_part j s = Some s'"
  shows "\<exists>t'. fp_dec_part j t = Some t' \<and> fp_rel s' t'"
  unfolding fp_dec_part_def
proof (rule dec_struct_rel[of fp_rel, OF _ assms(1) assms(2)[unfolded gm_dec_part_def]], goal_cases)
  case (1 k v s t s')
  consider "k = ''text''" | "k = ''functioncall''" | "k = ''inlinedata''" | "k \<notin> {''text'', ''functioncall'', ''inlinedata''}" by blast
  then show ?case
    using 1 by cases (auto simp: fp_rel_def set_field_Some present_def dest!: ptr_null split: if_splits)
qed

lemma fp_candidate:
  assumes "fc_rel s t" "gm_dec_candidate j s = Some s'"
  shows "\<exists>t'. fp_dec_candidate j t = Some t' \<and> fc_rel s' t'"
proof -
  have parts: "list_all2 fp_rel old old' \<Longrightarrow> dec_slice gm_zero_part gm_dec_part v old = Some ys \<Longrightarrow>
      \<exists>ys'. dec_slice fp_zero fp_dec_part v old' = Some ys' \<and> list_all2 fp_rel ys ys'" for old old' v ys
    by (rule dec_slice_rel[of fp_rel gm_dec_part fp_dec_part, OF fp_part fp_zero_rel])
  have cont: "\<exists>t'. dec_struct (\<lambda>k v s. if k = ''parts'' then dec_slice fp_zero fp_dec_part v s else Some s) v t = Some t' \<and> fc_rel s' t'"
    if a: "fc_rel s t" and b: "dec_struct (\<lambda>k v s.
         if k = ''role'' then set_field (\<lambda>x s. s\<lparr>gcRole := x\<rparr>) (dec_string v (gcRole s)) s
         else if k = ''parts'' then set_field (\<lambda>x s. s\<lparr>gcParts := x\<rparr>) (dec_slice gm_zero_part gm_dec_part v (gcParts s)) s
         else Some s) v s = Some s'" for s t v s'
  proof (rule dec_struct_rel[of fc_rel, OF _ a b], goal_cases)
    case (1 k v s t s')
    show ?case
    proof (cases "k = ''parts''")
      case True
      then obtain ys where ys: "dec_slice gm_zero_part gm_dec_part v (gcParts s) = Some ys" "s' = s\<lparr>gcParts := ys\<rparr>"
        using 1(2) by (auto simp: set_field_Some split: if_splits)
      from parts[OF _ ys(1), of t] 1(1) show ?thesis using True by (simp add: fc_rel_def ys(2))
    next
      case False
      then have "gcParts s' = gcParts s" using 1(2) by (auto simp: set_field_Some split: if_splits)
      then show ?thesis using False 1(1) by (simp add: fc_rel_def)
    qed
  qed
  show ?thesis unfolding fp_dec_candidate_def
  proof (rule dec_struct_rel[of fc_rel, OF _ assms(1) assms(2)[unfolded gm_dec_candidate_def]], goal_cases)
    case (1 k v s t s')
    show ?case
    proof (cases "k = ''content''")
      case True
      then show ?thesis using cont[OF 1(1)] 1(2) by simp
    next
      case False
      then have "gcParts s' = gcParts s" using 1(2) by (auto simp: set_field_Some split: if_splits)
      then show ?thesis using False 1(1) by (simp add: fc_rel_def)
    qed
  qed
qed

lemma dec_int_any: "dec_int v n = Some x \<Longrightarrow> \<exists>y. dec_int v m = Some y"
  by (cases v) auto

lemma fp_chunk:
  assumes "gm_dec_response j gm_zero_response = Some c"
  shows "\<exists>w. fp_dec_chunk j \<lparr>gfoCandidates = [], gfoUsage = None, gfoError = None\<rparr> = Some w \<and> fr_rel c w"
proof -
  have usage: "gm_dec_usage v s = Some s' \<Longrightarrow> \<exists>t'. gm_dec_usage v t = Some t'" for v s s' t
  proof -
    assume u: "gm_dec_usage v s = Some s'"
    have "\<exists>t'. gm_dec_usage v t = Some t' \<and> True" unfolding gm_dec_usage_def
    proof (rule dec_struct_rel[of "\<lambda>_ _. True", OF _ TrueI u[unfolded gm_dec_usage_def]], goal_cases)
      case (1 k v s t s')
      then show ?case using dec_int_any[of v] by (fastforce simp: set_field_Some split: if_splits)
    qed
    then show ?thesis by simp
  qed
  have cands: "list_all2 fc_rel old old' \<Longrightarrow> dec_slice gm_zero_candidate gm_dec_candidate v old = Some ys \<Longrightarrow>
      \<exists>ys'. dec_slice [] fp_dec_candidate v old' = Some ys' \<and> list_all2 fc_rel ys ys'" for old old' v ys
    by (rule dec_slice_rel[of fc_rel gm_dec_candidate fp_dec_candidate, OF fp_candidate]) (simp_all add: fc_rel_def gm_zero_candidate_def)
  show ?thesis
    using assms unfolding gm_dec_response_def fp_dec_chunk_def
  proof (rule dec_struct_rel[of fr_rel, rotated 2])
    show "fr_rel gm_zero_response \<lparr>gfoCandidates = [], gfoUsage = None, gfoError = None\<rparr>"
      by (simp add: fr_rel_def gm_zero_response_def present_def)
  next
    fix k v s t s'
    assume r: "fr_rel s t" and d: "(if k = ''responseid'' then set_field (\<lambda>x s. s\<lparr>grID := x\<rparr>) (dec_string v (grID s)) s
     else if k = ''modelversion'' then set_field (\<lambda>x s. s\<lparr>grModel := x\<rparr>) (dec_string v (grModel s)) s
     else if k = ''candidates'' then
       set_field (\<lambda>x s. s\<lparr>grCandidates := x\<rparr>) (dec_slice_ptr gm_zero_candidate gm_dec_candidate v (grCandidates s)) s
     else if k = ''promptfeedback'' then
       set_field (\<lambda>x s. s\<lparr>grFeedback := x\<rparr>) (dec_ptr '''' gm_dec_feedback v (grFeedback s)) s
     else if k = ''usagemetadata'' then set_field (\<lambda>x s. s\<lparr>grUsage := x\<rparr>) (gm_dec_usage v (grUsage s)) s
     else if k = ''error'' then
       set_field (\<lambda>x s. s\<lparr>grError := x\<rparr>) (dec_ptr \<lparr>gmCode = 0, gmMessage = '''', gmStatus = ''''\<rparr> gm_dec_error v (grError s)) s
     else Some s) = Some s'"
    let ?goal = "\<exists>t'. (if k = ''candidates'' then set_field (\<lambda>x s. s\<lparr>gfoCandidates := x\<rparr>) (dec_slice [] fp_dec_candidate v (gfoCandidates t)) t
     else if k = ''usagemetadata'' then set_field (\<lambda>x s. s\<lparr>gfoUsage := x\<rparr>) (dec_ptr gm_zero_usage gm_dec_usage v (gfoUsage t)) t
     else if k = ''error'' then Some (t\<lparr>gfoError := Some v\<rparr>) else Some t) = Some t' \<and> fr_rel s' t'"
    consider "k = ''candidates''" | "k = ''usagemetadata''" | "k \<noteq> ''candidates''" "k \<noteq> ''usagemetadata''" by blast
    then show ?goal
    proof cases
      case 1
      show ?thesis
      proof (cases "v = JNull")
        case True
        then show ?thesis using 1 r d by (auto simp: set_field_Some dec_slice_ptr_def fr_rel_def)
      next
        case False
        then obtain ys where ys: "dec_slice gm_zero_candidate gm_dec_candidate v (case grCandidates s of None \<Rightarrow> [] | Some xs \<Rightarrow> xs) = Some ys"
          "s' = s\<lparr>grCandidates := Some ys\<rparr>" using 1 d by (auto simp: set_field_Some dec_slice_ptr_def)
        from cands[OF _ ys(1)] r obtain ys' where "dec_slice [] fp_dec_candidate v (gfoCandidates t) = Some ys'" "list_all2 fc_rel ys ys'"
          unfolding fr_rel_def by blast
        then show ?thesis using 1 r by (simp add: ys(2) fr_rel_def)
      qed
    next
      case 2
      then obtain u where "gm_dec_usage v (grUsage s) = Some u" "s' = s\<lparr>grUsage := u\<rparr>" using d by (auto simp: set_field_Some)
      moreover have "\<exists>x. dec_ptr gm_zero_usage gm_dec_usage v (gfoUsage t) = Some x"
      proof -
        obtain y where "gm_dec_usage v (case gfoUsage t of None \<Rightarrow> gm_zero_usage | Some z \<Rightarrow> z) = Some y"
          using usage[OF calculation(1)] by blast
        then show ?thesis by (simp add: dec_ptr_def)
      qed
      moreover then obtain x where "dec_ptr gm_zero_usage gm_dec_usage v (gfoUsage t) = Some x" by blast
      ultimately show ?thesis using 2 r by (simp add: fr_rel_def)
    next
      case 3
      show ?thesis
      proof (cases "k = ''error''")
        case True
        then obtain x where x: "dec_ptr \<lparr>gmCode = 0, gmMessage = '''', gmStatus = ''''\<rparr> gm_dec_error v (grError s) = Some x"
          "s' = s\<lparr>grError := x\<rparr>" using d by (auto simp: set_field_Some)
        show ?thesis using True r ptr_null[OF x(1)] by (simp add: fr_rel_def present_def x(2))
      next
        case False
        then have "grCandidates s' = grCandidates s" "grError s' = grError s" using d 3 by (auto simp: set_field_Some split: if_splits)
        then show ?thesis using False 3 r by (simp add: fr_rel_def)
      qed
    qed
  qed
qed

text \<open>One candidate, no generated media, and arguments that have a text.\<close>

definition gm_plain :: "(json \<Rightarrow> string) \<Rightarrow> gm_wireResponse \<Rightarrow> bool" where
  "gm_plain raw_text c =
     (length (case grCandidates c of None \<Rightarrow> [] | Some cs \<Rightarrow> cs) \<le> 1 \<and>
      list_all (\<lambda>p. gpInline p = None \<and> (case gpCall p of Some f \<Rightarrow> raw_text (call_args f) \<noteq> '''' | None \<Rightarrow> True)) (chunk_parts c))"

lemma gm_part_bearing:
  assumes "fp_rel p q"
  shows "list_ex IsContentBearing (snd (gp_part raw_text p st)) \<Longrightarrow> fp_content q"
    and "gpInline p = None \<Longrightarrow> (case gpCall p of Some f \<Rightarrow> raw_text (call_args f) \<noteq> '''' | None \<Rightarrow> True) \<Longrightarrow>
      fp_content q \<Longrightarrow> list_ex IsContentBearing (snd (gp_part raw_text p st))"
proof -
  have "(list_ex IsContentBearing (snd (gp_part raw_text p st)) \<longrightarrow> fp_content q) \<and>
    (gpInline p = None \<longrightarrow> (case gpCall p of Some f \<Rightarrow> raw_text (call_args f) \<noteq> '''' | None \<Rightarrow> True) \<longrightarrow>
      fp_content q \<longrightarrow> list_ex IsContentBearing (snd (gp_part raw_text p st)))"
  proof (cases "gpCall p")
    case None
    then show ?thesis using assms
      by (auto simp: gp_part_def gp_thought_def gp_text_def gp_open_def fp_content_def fp_rel_def bearing_simps signature_d_def)
  next
    case (Some f)
    then show ?thesis using assms
      by (auto simp: gp_part_def gp_call_def fp_content_def fp_rel_def bearing_simps Let_def split: prod.split)
  qed
  then show "list_ex IsContentBearing (snd (gp_part raw_text p st)) \<Longrightarrow> fp_content q"
    "gpInline p = None \<Longrightarrow> (case gpCall p of Some f \<Rightarrow> raw_text (call_args f) \<noteq> '''' | None \<Rightarrow> True) \<Longrightarrow>
      fp_content q \<Longrightarrow> list_ex IsContentBearing (snd (gp_part raw_text p st))" by blast+
qed

lemma emits_seen: "list_ex P (snd (emits fs st)) \<Longrightarrow> \<exists>f \<in> set fs. \<exists>s. list_ex P (snd (f s))"
proof (induction fs arbitrary: st)
  case (Cons f fs)
  obtain st1 o1 where 1: "f st = (st1, o1)" by fastforce
  obtain st2 o2 where 2: "emits fs st1 = (st2, o2)" by fastforce
  show ?case using Cons.prems Cons.IH[of st1] by (auto simp: 1 2) (metis 1 snd_conv)
qed simp

lemma gm_quiet: "\<not> list_ex IsContentBearing (snd (gp_start rb dg c st))" "\<not> list_ex IsContentBearing (snd (gp_usage c st))"
  by (auto simp: gp_start_def gp_usage_def bearing_simps)

lemma gm_parts_rel:
  assumes "fr_rel c w"
  shows "\<exists>qs. list_all2 fp_rel (chunk_parts c) qs \<and> (list_ex fp_content qs \<longrightarrow> list_ex (list_ex fp_content) (gfoCandidates w)) \<and>
    (gm_plain raw_text c \<longrightarrow> list_ex (list_ex fp_content) (gfoCandidates w) \<longrightarrow> list_ex fp_content qs)"
proof (cases "case grCandidates c of None \<Rightarrow> [] | Some cs \<Rightarrow> cs")
  case Nil
  then have "gfoCandidates w = []" "chunk_parts c = []"
    using assms by (auto simp: fr_rel_def chunk_parts_def gp_candidate_def split: option.splits)
  then show ?thesis by simp
next
  case (Cons x xs)
  then have x: "grCandidates c = Some (x # xs)" by (auto split: option.splits)
  then obtain ps pss where p: "gfoCandidates w = ps # pss" "fc_rel x ps" "length pss = length xs"
    using assms by (auto simp: fr_rel_def list_all2_Cons1 list_all2_lengthD[symmetric])
  then have "list_all2 fp_rel (chunk_parts c) ps" using x by (simp add: chunk_parts_def gp_candidate_def fc_rel_def)
  then show ?thesis using p x by (intro exI[of _ ps]) (auto simp: gm_plain_def)
qed

lemma gm_bearing:
  assumes "fr_rel c w"
  shows "list_ex IsContentBearing (snd (emits (gp_steps raw_text rb dg c) st)) \<Longrightarrow> list_ex (list_ex fp_content) (gfoCandidates w)"
    and "gm_plain raw_text c \<Longrightarrow> list_ex (list_ex fp_content) (gfoCandidates w) \<Longrightarrow>
      list_ex IsContentBearing (snd (emits (gp_steps raw_text rb dg c) st))"
proof -
  obtain qs where qs: "list_all2 fp_rel (chunk_parts c) qs" "list_ex fp_content qs \<Longrightarrow> list_ex (list_ex fp_content) (gfoCandidates w)"
    "gm_plain raw_text c \<Longrightarrow> list_ex (list_ex fp_content) (gfoCandidates w) \<Longrightarrow> list_ex fp_content qs"
    using gm_parts_rel[OF assms] by blast
  show "list_ex (list_ex fp_content) (gfoCandidates w)" if l: "list_ex IsContentBearing (snd (emits (gp_steps raw_text rb dg c) st))"
  proof -
    obtain f s where f: "f \<in> set (gp_steps raw_text rb dg c)" "list_ex IsContentBearing (snd (f s))" using emits_seen[OF l] by blast
    then obtain p where "p \<in> set (chunk_parts c)" "list_ex IsContentBearing (snd (gp_part raw_text p s))"
      using gm_quiet by (auto simp: gp_steps_def)
    moreover obtain q where "q \<in> set qs" "fp_rel p q" using qs(1) calculation(1) by (metis list_all2_conv_all_nth in_set_conv_nth)
    ultimately show ?thesis using qs(2) gm_part_bearing(1) unfolding list_ex_iff[of fp_content] by blast
  qed
  show "list_ex IsContentBearing (snd (emits (gp_steps raw_text rb dg c) st))"
    if pl: "gm_plain raw_text c" and l: "list_ex (list_ex fp_content) (gfoCandidates w)"
  proof -
    have p: "list_all (\<lambda>p. gpInline p = None \<and> (case gpCall p of Some f \<Rightarrow> raw_text (call_args f) \<noteq> '''' | None \<Rightarrow> True)) (chunk_parts c)"
      using pl by (simp add: gm_plain_def)
    have "list_all2 (\<lambda>f b. \<forall>st. list_ex IsContentBearing (snd (f st)) \<longleftrightarrow> b) (map (gp_part raw_text) (chunk_parts c)) (map fp_content qs)"
      using qs(1) p
    proof (induction rule: list_all2_induct)
      case (Cons p ps q qs)
      then show ?case using gm_part_bearing[OF Cons.hyps(1), of raw_text] by auto
    qed simp
    then have "list_all2 (\<lambda>f b. \<forall>st. list_ex IsContentBearing (snd (f st)) \<longleftrightarrow> b) (gp_steps raw_text rb dg c)
        ([False, False] @ map fp_content qs)" using gm_quiet by (simp add: gp_steps_def)
    from emits_bearing[OF this, of st] qs(3)[OF pl l] show ?thesis by (simp add: list_ex_iff)
  qed
qed

definition gm_reads :: "(string \<Rightarrow> json option) \<Rightarrow> Event \<Rightarrow> gm_wireResponse option" where
  "gm_reads unmarshal ev =
     (if seData ev = '''' \<or> seData ev = ''[DONE]'' then None
      else case Option.bind (unmarshal (seData ev)) (\<lambda>j. gm_dec_response j gm_zero_response) of
        None \<Rightarrow> None | Some c \<Rightarrow> if grError c = None then Some c else None)"

lemma gm_recognized:
  assumes "gm_reads unmarshal ev = Some c"
  shows "\<exists>w. fr_rel c w \<and> reErrPayload (gm_RecognizeEvent unmarshal ev) = '''' \<and>
    (reContent (gm_RecognizeEvent unmarshal ev) \<longleftrightarrow> list_ex (list_ex fp_content) (gfoCandidates w))"
proof -
  obtain j where j: "seData ev \<noteq> ''''" "unmarshal (seData ev) = Some j" "gm_dec_response j gm_zero_response = Some c" "grError c = None"
    using assms by (auto simp: gm_reads_def split: if_splits option.splits bind_splits)
  from fp_chunk[OF j(3)] obtain w where w: "fp_dec_chunk j \<lparr>gfoCandidates = [], gfoUsage = None, gfoError = None\<rparr> = Some w" "fr_rel c w" by blast
  show ?thesis
    by (rule exI[of _ w]) (use j(1,2,4) w in \<open>simp add: gm_RecognizeEvent_def fr_rel_def zero_raw_def\<close>)
qed

interpretation gemini_forward: recognizer "gm_RecognizeEvent unmarshal" "gm_reads unmarshal" "\<lambda>c. emits (gp_steps raw_text rb dg c)" "gm_plain raw_text"
  for unmarshal raw_text rb dg
proof
  fix ev c st st1 out
  assume r: "gm_reads unmarshal ev = Some c"
  obtain w where w: "fr_rel c w" "reErrPayload (gm_RecognizeEvent unmarshal ev) = ''''"
    "reContent (gm_RecognizeEvent unmarshal ev) \<longleftrightarrow> list_ex (list_ex fp_content) (gfoCandidates w)" using gm_recognized[OF r] by blast
  show "reErrPayload (gm_RecognizeEvent unmarshal ev) = ''''" by (rule w(2))
  assume e: "emits (gp_steps raw_text rb dg c) st = (st1, out)"
  have out: "out = snd (emits (gp_steps raw_text rb dg c) st)" using e by simp
  show "reContent (gm_RecognizeEvent unmarshal ev)" if "list_ex IsContentBearing out"
    using gm_bearing(1)[OF w(1)] w(3) that unfolding out by blast
  show "reContent (gm_RecognizeEvent unmarshal ev) \<longleftrightarrow> list_ex IsContentBearing out" if "gm_plain raw_text c"
    using gm_bearing[OF w(1)] w(3) that unfolding out by blast
qed

section \<open>The three together\<close>

text \<open>C19. A forwarded stream commits where its translation would. On every run of events an adapter's own stream parser can
  read, the recogniser of the forward path, which builds nothing, sees its first content no later than the event from
  which the parser first yields content, and takes none of the events for an error. An OpenAI stream always has the two at
  the very same event. So has an Anthropic stream whose deltas have text only in the field their type names, and a Gemini
  stream whose chunks have at most one candidate, no generated media, and arguments with a text on their calls. Generated
  media is the exception Gemini's recogniser is written for: it is content there, and the parser yields nothing for it.\<close>

theorem forward_commits_with_translation:
  "(list_all2 (\<lambda>ev c. oc_reads unmarshal ev = Some c) evs chunks \<longrightarrow>
      first_at (\<lambda>ev. reContent (oc_RecognizeEvent unmarshal ev)) evs =
      first_at (list_ex IsContentBearing) (yields_of (\<lambda>c. emits (chunk_steps c)) chunks oc_st) \<and>
      list_all (\<lambda>ev. reErrPayload (oc_RecognizeEvent unmarshal ev) = '''') evs) \<and>
   (list_all2 (\<lambda>ev e. an_reads unmarshal ev = Some e) evs events \<longrightarrow>
      (let seen = first_at (\<lambda>ev. reContent (an_RecognizeEvent unmarshal ev)) evs;
           yielded = first_at (list_ex IsContentBearing) (yields_of an_step events an_st)
       in no_later seen yielded \<and> (list_all an_plain events \<longrightarrow> seen = yielded)) \<and>
      list_all (\<lambda>ev. reErrPayload (an_RecognizeEvent unmarshal ev) = '''') evs) \<and>
   (list_all2 (\<lambda>ev c. gm_reads unmarshal ev = Some c) evs responses \<longrightarrow>
      (let seen = first_at (\<lambda>ev. reContent (gm_RecognizeEvent unmarshal ev)) evs;
           yielded = first_at (list_ex IsContentBearing) (yields_of (\<lambda>c. emits (gp_steps raw_text rand_base digest c)) responses gm_st)
       in no_later seen yielded \<and> (list_all (gm_plain raw_text) responses \<longrightarrow> seen = yielded)) \<and>
      list_all (\<lambda>ev. reErrPayload (gm_RecognizeEvent unmarshal ev) = '''') evs)"
  unfolding Let_def
  by (intro conjI impI openai_forward.commits_together openai_forward.no_errors
      anthropic_forward.commits_no_later anthropic_forward.commits_together anthropic_forward.no_errors
      gemini_forward.commits_no_later gemini_forward.commits_together gemini_forward.no_errors)
    (simp_all add: list_all_iff)

text \<open>Generated media commits the forward path where the parser yields nothing, so the plain chunks above are needed.\<close>

lemma media_commits_early:
  "fr_rel c w \<Longrightarrow> chunk_parts c = [gm_zero_part\<lparr>gpInline := Some d\<rparr>] \<Longrightarrow> grCandidates c \<noteq> None \<Longrightarrow>
   list_ex (list_ex fp_content) (gfoCandidates w) \<and> \<not> list_ex IsContentBearing (snd (emits (gp_steps raw_text rb dg c) st))"
  using gm_quiet(1)[of rb dg c st] gm_quiet(2)
  by (auto simp: fr_rel_def chunk_parts_def gp_candidate_def fc_rel_def fp_rel_def fp_content_def gm_zero_part_def gp_steps_def gp_part_def
      gp_start_def gp_usage_def bearing_simps list_all2_Cons1 split: option.splits list.splits)

definition demo_forward_frames :: "json list" where
  "demo_forward_frames =
     [JObj [(''type'', JStr ''message_start''), (''message'', JObj [(''id'', JStr ''m'')])],
      JObj [(''type'', JStr ''content_block_delta''), (''delta'', JObj [(''type'', JStr ''signature_delta''), (''signature'', JStr ''s'')])],
      JObj [(''type'', JStr ''content_block_delta''), (''delta'', JObj [(''type'', JStr ''text_delta''), (''text'', JStr ''hi'')])]]"

definition demo_forward_events :: "Event list" where
  "demo_forward_events = map (\<lambda>n. \<lparr>seType = '''', seData = replicate n CHR ''x'', seID = '''', seRetry = ''''\<rparr>) [1, 2, 3]"

theorem forward_commits_with_translation_witness:
  "first_at (\<lambda>ev. reContent (an_RecognizeEvent (table_unmarshal demo_forward_frames) ev)) demo_forward_events = Some 2"
proof -
  let ?un = "table_unmarshal demo_forward_frames"
  let ?es = "map (\<lambda>ev. the (an_reads ?un ev)) demo_forward_events"
  have a: "list_all (\<lambda>ev. case an_reads ?un ev of None \<Rightarrow> False | Some e \<Rightarrow> an_plain e) demo_forward_events" by code_simp
  then have "list_all2 (\<lambda>ev e. an_reads ?un ev = Some e) demo_forward_events ?es"
    by (auto simp: list_all_iff list_all2_map2 list_all2_same split: option.splits)
  moreover have "list_all an_plain ?es" using a by (auto simp: list_all_iff split: option.splits)
  moreover have "first_at (list_ex IsContentBearing) (yields_of an_step ?es ap_init) = Some 2" by code_simp
  ultimately show ?thesis
    using forward_commits_with_translation[where unmarshal = ?un and evs = demo_forward_events and events = ?es and an_st = ap_init]
    by (simp add: Let_def)
qed

end

