(* ===== verification/Egress.thy ===== *)
theory Egress
  imports Prelude "HOL-Library.Word"
begin

text \<open>
  The guard on the gateway's own fetches, \<^verbatim>\<open>internal/adapter/gemini/egress.go\<close>: which addresses a connection made for a
  client may reach, checked on the resolved address just before it is dialled. An address is a word, an IPv6 one with
  its zone; what the guard uses of \<^verbatim>\<open>net/netip\<close> is defined as that package documents it. \<open>parse_addr\<close> is \<^verbatim>\<open>netip.ParseAddr\<close>.
\<close>

section \<open>Addresses\<close>

datatype addr = V4 "32 word" | V6 "128 word" string

definition mapped :: "128 word \<Rightarrow> bool" where "mapped w = (drop_bit 32 w = 0xFFFF)"

fun Unmap :: "addr \<Rightarrow> addr" where
  "Unmap (V4 w) = V4 w"
| "Unmap (V6 w z) = (if mapped w then V4 (ucast w) else V6 w z)"

fun IsLoopback :: "addr \<Rightarrow> bool" where
  "IsLoopback (V4 w) = (drop_bit 24 w = 127)"
| "IsLoopback (V6 w z) = (w = 1)"

text \<open>The comparison is of whole addresses, zone included.\<close>

fun IsUnspecified :: "addr \<Rightarrow> bool" where
  "IsUnspecified (V4 w) = (w = 0)"
| "IsUnspecified (V6 w z) = (w = 0 \<and> z = '''')"

fun IsPrivate :: "addr \<Rightarrow> bool" where
  "IsPrivate (V4 w) = (drop_bit 24 w = 10 \<or> drop_bit 20 w = 0xAC1 \<or> drop_bit 16 w = 0xC0A8)"
| "IsPrivate (V6 w z) = (drop_bit 121 w = 0x7E)"

fun IsLinkLocalUnicast :: "addr \<Rightarrow> bool" where
  "IsLinkLocalUnicast (V4 w) = (drop_bit 16 w = 0xA9FE)"
| "IsLinkLocalUnicast (V6 w z) = (drop_bit 118 w = 0x3FA)"

text \<open>The flags of an IPv6 multicast address are not looked at, its scope is.\<close>

fun IsLinkLocalMulticast :: "addr \<Rightarrow> bool" where
  "IsLinkLocalMulticast (V4 w) = (drop_bit 8 w = 0xE00000)"
| "IsLinkLocalMulticast (V6 w z) = (drop_bit 120 w = 0xFF \<and> take_bit 4 (drop_bit 112 w) = 2)"

fun IsInterfaceLocalMulticast :: "addr \<Rightarrow> bool" where
  "IsInterfaceLocalMulticast (V4 w) = False"
| "IsInterfaceLocalMulticast (V6 w z) = (drop_bit 120 w = 0xFF \<and> take_bit 4 (drop_bit 112 w) = 1)"

fun IsMulticast :: "addr \<Rightarrow> bool" where
  "IsMulticast (V4 w) = (drop_bit 28 w = 0xE)"
| "IsMulticast (V6 w z) = (drop_bit 120 w = 0xFF)"

text \<open>A prefix: its address and how many of its bits count. A prefix contains no address with a zone.\<close>

datatype addr_prefix = P4 "32 word" nat | P6 "128 word" nat

fun Prefix_Contains :: "addr_prefix \<Rightarrow> addr \<Rightarrow> bool" where
  "Prefix_Contains (P4 p n) (V4 w) = (drop_bit (32 - n) w = drop_bit (32 - n) p)"
| "Prefix_Contains (P6 p n) (V6 w z) = (z = '''' \<and> drop_bit (128 - n) w = drop_bit (128 - n) p)"
| "Prefix_Contains _ _ = False"

section \<open>The guard\<close>

definition nonPublic :: "addr_prefix list" where
  "nonPublic =
     [P4 0x64400000 10, P4 0xC0000000 24, P4 0xC6120000 15, P4 0xF0000000 4,
      P6 0x0064FF9B000000000000000000000000 96, P6 0x20020000000000000000000000000000 16]"

definition addrIsPublic :: "addr \<Rightarrow> bool" where
  "addrIsPublic ip0 =
     (let ip = Unmap ip0 in
      \<not> (IsLoopback ip \<or> IsUnspecified ip \<or> IsPrivate ip \<or> IsLinkLocalUnicast ip \<or> IsLinkLocalMulticast ip \<or>
         IsInterfaceLocalMulticast ip \<or> IsMulticast ip) \<and>
      list_all (\<lambda>p. \<not> Prefix_Contains p ip) nonPublic)"

text \<open>\<^verbatim>\<open>net.SplitHostPort\<close>, of which the guard uses the host.\<close>

definition last_colon :: "string \<Rightarrow> nat option" where
  "last_colon s = (if CHR '':'' \<in> set s then Some (length s - 1 - length (takeWhile (\<lambda>c. c \<noteq> CHR '':'') (rev s))) else None)"

definition SplitHost :: "string \<Rightarrow> string option" where
  "SplitHost s =
     (case last_colon s of
        None \<Rightarrow> None
      | Some i \<Rightarrow>
          (case s of
             CHR ''['' # r \<Rightarrow>
               (let host = takeWhile (\<lambda>c. c \<noteq> CHR '']'') r; e = Suc (length host) in
                if e < length s \<and> Suc e = i \<and> CHR ''['' \<notin> set r \<and> CHR '']'' \<notin> set (drop (Suc e) s) then Some host else None)
           | _ \<Rightarrow>
               (let host = take i s in
                if CHR '':'' \<in> set host \<or> CHR ''['' \<in> set s \<or> CHR '']'' \<in> set s then None else Some host)))"

definition guardConn :: "(string \<Rightarrow> addr option) \<Rightarrow> string \<Rightarrow> bool" where
  "guardConn parse_addr address =
     (case SplitHost address of
        None \<Rightarrow> False
      | Some host \<Rightarrow> (case parse_addr host of None \<Rightarrow> False | Some ip \<Rightarrow> addrIsPublic ip))"

section \<open>What gets through\<close>

text \<open>The blocks of the IPv4 address space that are not the public internet, as numbers.\<close>

definition internal_blocks :: "(int \<times> int) list" where
  "internal_blocks =
     [(0, 0), (0x0A000000, 0x0AFFFFFF), (0x64400000, 0x647FFFFF), (0x7F000000, 0x7FFFFFFF), (0xA9FE0000, 0xA9FEFFFF),
      (0xAC100000, 0xAC1FFFFF), (0xC0000000, 0xC00000FF), (0xC0A80000, 0xC0A8FFFF), (0xC6120000, 0xC613FFFF), (0xE0000000, 0xFFFFFFFF)]"

definition internal4 :: "32 word \<Rightarrow> bool" where
  "internal4 w = list_ex (\<lambda>(lo, hi). lo \<le> uint w \<and> uint w \<le> hi) internal_blocks"

text \<open>The IPv4 address a connection may end up at: the address itself, the one an IPv6 address maps, or the one a NAT64 or
  6to4 gateway routes to.\<close>

fun reaches :: "addr \<Rightarrow> 32 word set" where
  "reaches (V4 w) = {w}"
| "reaches (V6 w z) =
     (if mapped w then {ucast w} else {}) \<union>
     (if drop_bit 32 w = 0x0064FF9B0000000000000000 then {ucast w} else {}) \<union>
     (if drop_bit 112 w = 0x2002 then {ucast (drop_bit 80 w)} else {})"

lemma drop_eq:
  fixes w :: "'a::len word"
  shows "drop_bit n w = c \<longleftrightarrow> uint w div 2 ^ n = uint c"
proof -
  have t: "take_bit LENGTH('a) (uint w) = uint w"
    using uint_range_size[of w] by (intro take_bit_int_eq_self) (simp_all add: word_size)
  have "uint (drop_bit n w) = uint w div 2 ^ n" unfolding unsigned_drop_bit_eq t by (simp add: drop_bit_eq_div)
  then show ?thesis by (simp add: word_uint_eq_iff)
qed

lemma div_block:
  fixes x :: int
  assumes "0 < d"
  shows "x div d = c \<longleftrightarrow> c * d \<le> x \<and> x \<le> c * d + (d - 1)"
proof
  assume "x div d = c"
  then have "x = d * c + x mod d" by (metis mult_div_mod_eq)
  then show "c * d \<le> x \<and> x \<le> c * d + (d - 1)" using pos_mod_sign[OF assms, of x] pos_mod_bound[OF assms, of x]
    by (simp add: mult.commute)
next
  assume "c * d \<le> x \<and> x \<le> c * d + (d - 1)"
  then show "x div d = c" using assms by (intro int_div_pos_eq[of x d c "x - d * c"]) (auto simp: mult.commute)
qed

lemma public4: "addrIsPublic (V4 w) \<longleftrightarrow> \<not> internal4 w"
proof -
  have b: "0 \<le> uint w" "uint w < 4294967296" using uint_range_size[of w] by (simp_all add: word_size)
  have "w = 0 \<longleftrightarrow> uint w = 0" by (simp add: uint_0_iff)
  then show ?thesis using b
    by (simp add: addrIsPublic_def nonPublic_def internal4_def internal_blocks_def drop_eq div_block Let_def) (rule iffI; (auto; linarith)?)
qed

text \<open>The blocks of the IPv6 address space that are not public, the unspecified address apart.\<close>

definition internal6 :: "128 word \<Rightarrow> bool" where
  "internal6 w = list_ex (\<lambda>(lo, hi). lo \<le> uint w \<and> uint w \<le> hi)
     [(1, 1), (0xFC000000000000000000000000000000, 0xFDFFFFFFFFFFFFFFFFFFFFFFFFFFFFFF),
      (0xFE800000000000000000000000000000, 0xFEBFFFFFFFFFFFFFFFFFFFFFFFFFFFFF),
      (0xFF000000000000000000000000000000, 0xFFFFFFFFFFFFFFFFFFFFFFFFFFFFFFFF)]"

lemma public6:
  assumes "addrIsPublic (V6 w z)" "\<not> mapped w"
  shows "\<not> internal6 w \<and> (z = '''' \<longrightarrow> w \<noteq> 0 \<and> drop_bit 32 w \<noteq> 0x0064FF9B0000000000000000 \<and> drop_bit 112 w \<noteq> 0x2002)"
proof -
  have b: "uint w < 340282366920938463463374607431768211456" using uint_range_size[of w] by (simp add: word_size)
  have p: "drop_bit 32 (0x0064FF9B000000000000000000000000 :: 128 word) = 0x0064FF9B0000000000000000"
    "drop_bit 112 (0x20020000000000000000000000000000 :: 128 word) = 0x2002" by (simp_all add: drop_eq)
  have one: "w = 1 \<longleftrightarrow> uint w = 1" by (simp add: word_uint_eq_iff)
  have "w \<noteq> 1" "drop_bit 121 w \<noteq> 0x7E" "drop_bit 118 w \<noteq> 0x3FA" "drop_bit 120 w \<noteq> 0xFF"
    using assms by (auto simp: addrIsPublic_def Let_def)
  then have "\<not> internal6 w" using b unfolding drop_eq by (simp add: internal6_def one div_block)
  moreover have "z = '''' \<longrightarrow> w \<noteq> 0 \<and> drop_bit 32 w \<noteq> 0x0064FF9B0000000000000000 \<and> drop_bit 112 w \<noteq> 0x2002"
    using assms by (auto simp: addrIsPublic_def nonPublic_def Let_def p)
  ultimately show ?thesis by blast
qed

fun zone :: "addr \<Rightarrow> string" where
  "zone (V4 w) = ''''"
| "zone (V6 w z) = z"

text \<open>C21. What the gateway's own connections may reach. A dialled address the guard lets through is an address of the public
  internet: if it is an IPv4 address, or an IPv6 address that maps one, it lies in none of the private, loopback,
  link-local, shared, benchmarking, multicast or reserved blocks; if it is an IPv6 address it is none of the local
  ones; and if it has no zone, no NAT64 or 6to4 gateway can take it back to an internal IPv4 address either.\<close>

theorem egress_is_public:
  assumes "guardConn parse_addr address"
  shows "\<exists>host ip. SplitHost address = Some host \<and> parse_addr host = Some ip \<and>
    (case Unmap ip of V4 w \<Rightarrow> \<not> internal4 w | V6 w z \<Rightarrow> \<not> internal6 w) \<and>
    (zone ip = '''' \<longrightarrow> (\<forall>w \<in> reaches ip. \<not> internal4 w) \<and> ip \<noteq> V6 0 '''')"
proof -
  obtain host ip where h: "SplitHost address = Some host" "parse_addr host = Some ip" "addrIsPublic ip"
    using assms by (auto simp: guardConn_def split: option.splits)
  have "(case Unmap ip of V4 w \<Rightarrow> \<not> internal4 w | V6 w z \<Rightarrow> \<not> internal6 w) \<and>
    (zone ip = '''' \<longrightarrow> (\<forall>w \<in> reaches ip. \<not> internal4 w) \<and> ip \<noteq> V6 0 '''')"
  proof (cases ip)
    case (V4 w)
    then show ?thesis using h(3) public4 by simp
  next
    case (V6 w z)
    show ?thesis
    proof (cases "mapped w")
      case True
      then have "addrIsPublic (V4 (ucast w))" using h(3) V6 by (simp add: addrIsPublic_def Let_def)
      moreover have "drop_bit 32 w = 0xFFFF" using True by (simp add: mapped_def)
      moreover have "drop_bit 112 w = drop_bit 80 (drop_bit 32 w)" by simp
      ultimately show ?thesis using True V6 public4[of "ucast w"] by (auto simp: drop_eq mapped_def)
    next
      case False
      then show ?thesis using h(3) V6 public6[of w z] by auto
    qed
  qed
  then show ?thesis using h(1,2) by blast
qed

theorem egress_is_public_witness:
  "guardConn (\<lambda>h. if h = ''93.184.216.34'' then Some (V4 0x5DB8D822) else None) ''93.184.216.34:443'' \<and> \<not> internal4 0x5DB8D822"
proof -
  let ?p = "\<lambda>h. if h = ''93.184.216.34'' then Some (V4 0x5DB8D822) else None"
  have s: "SplitHost ''93.184.216.34:443'' = Some ''93.184.216.34''" by code_simp
  have "\<not> internal4 0x5DB8D822" by (simp add: internal4_def internal_blocks_def)
  then have g: "guardConn ?p ''93.184.216.34:443''" by (simp add: guardConn_def s public4)
  from egress_is_public[OF g] show ?thesis using g by (auto simp: s)
qed

text \<open>A zone is what the guard does not see past: the unspecified address, which dials the gateway itself, and a NAT64 address
  of its loopback are let through when they are written with one.\<close>

lemma zoned_addresses_pass:
  "addrIsPublic (V6 0 ''lo'') \<and> \<not> addrIsPublic (V6 0 '''') \<and>
   addrIsPublic (V6 0x0064FF9B00000000000000007F000001 ''lo'') \<and> \<not> addrIsPublic (V6 0x0064FF9B00000000000000007F000001 '''')"
  by (simp add: addrIsPublic_def nonPublic_def Let_def mapped_def drop_eq)
end
