(* ===== verification/Responses_Request.thy ===== *)
theory Responses_Request
  imports OpenAI_Request
begin

text \<open>
  The OpenAI Responses dialect's request side, the first half of \<^verbatim>\<open>internal/edge/openai/responses.go\<close>: the wire request and
  its decoding, the refusal of everything that needs state Darkrouter does not keep, tools, input items and content
  parts, the canonical request, and the parameters a response has to repeat.

  Arguments as in \<^verbatim>\<open>OpenAI_Request\<close>; \<open>quote\<close> is \<^verbatim>\<open>strconv.Quote\<close>, the verb \<^verbatim>\<open>%q\<close> of the error messages.
\<close>

section \<open>Wire types\<close>

record responsesEcho =
  reInstructions :: string
  reTools :: "json option"
  reToolChoice :: "json option"
  reParallel :: "bool option"
  reTemperature :: "json option"
  reTopP :: "json option"
  reMaxOutput :: "int option"
  reMetadata :: "(string, string) gomap"

record wireRespTool =
  rtType :: string
  rtName :: string
  rtDescription :: string
  rtParameters :: "json option"
  rtStrict :: "bool option"

record wireRespFormat =
  rfmType :: string
  rfmName :: string
  rfmSchema :: "json option"
  rfmStrict :: "bool option"

record wireRespItem =
  riType :: string
  riRole :: string
  riContent :: "json option"
  riCallID :: string
  riName :: string
  riArguments :: string
  riOutput :: string

record wireRespPart =
  rpType :: string
  rpText :: string
  rpRefusal :: string
  rpImageURL :: string
  rpFileURL :: string
  rpFileData :: string
  rpFilename :: string
  rpFileID :: string

text \<open>\<open>rwEffort\<close> is empty without \<^verbatim>\<open>reasoning\<close>; \<open>rwFormat\<close> is \<open>None\<close> without \<^verbatim>\<open>text\<close>: the parser tells neither apart.\<close>

record wireResponsesRequest =
  rwModel :: string
  rwInput :: "json option"
  rwInstructions :: string
  rwTools :: "wireRespTool list"
  rwRawTools :: "json option"
  rwToolChoice :: "json option"
  rwMaxOutputTokens :: "int option"
  rwTemperature :: "json option"
  rwTopP :: "json option"
  rwStream :: bool
  rwParallelToolCalls :: "bool option"
  rwEffort :: string
  rwFormat :: "wireRespFormat option"
  rwMetadata :: "(string, string) gomap"
  rwPreviousResponseID :: string
  rwConversation :: "json option"
  rwBackground :: bool

section \<open>Decoding\<close>

definition zero_resp_tool :: wireRespTool where
  "zero_resp_tool = \<lparr>rtType = '''', rtName = '''', rtDescription = '''', rtParameters = None, rtStrict = None\<rparr>"

definition dec_resp_tool :: "json \<Rightarrow> wireRespTool \<Rightarrow> wireRespTool option" where
  "dec_resp_tool = dec_struct (\<lambda>k v s.
     if k = ''type'' then set_field (\<lambda>x s. s\<lparr>rtType := x\<rparr>) (dec_string v (rtType s)) s
     else if k = ''name'' then set_field (\<lambda>x s. s\<lparr>rtName := x\<rparr>) (dec_string v (rtName s)) s
     else if k = ''description'' then set_field (\<lambda>x s. s\<lparr>rtDescription := x\<rparr>) (dec_string v (rtDescription s)) s
     else if k = ''parameters'' then Some (s\<lparr>rtParameters := Some v\<rparr>)
     else if k = ''strict'' then set_field (\<lambda>x s. s\<lparr>rtStrict := x\<rparr>) (dec_ptr False dec_bool v (rtStrict s)) s
     else Some s)"

definition zero_resp_format :: wireRespFormat where
  "zero_resp_format = \<lparr>rfmType = '''', rfmName = '''', rfmSchema = None, rfmStrict = None\<rparr>"

definition dec_resp_format :: "json \<Rightarrow> wireRespFormat \<Rightarrow> wireRespFormat option" where
  "dec_resp_format = dec_struct (\<lambda>k v s.
     if k = ''type'' then set_field (\<lambda>x s. s\<lparr>rfmType := x\<rparr>) (dec_string v (rfmType s)) s
     else if k = ''name'' then set_field (\<lambda>x s. s\<lparr>rfmName := x\<rparr>) (dec_string v (rfmName s)) s
     else if k = ''schema'' then Some (s\<lparr>rfmSchema := Some v\<rparr>)
     else if k = ''strict'' then set_field (\<lambda>x s. s\<lparr>rfmStrict := x\<rparr>) (dec_ptr False dec_bool v (rfmStrict s)) s
     else Some s)"

definition zero_resp_item :: wireRespItem where
  "zero_resp_item = \<lparr>riType = '''', riRole = '''', riContent = None, riCallID = '''', riName = '''', riArguments = '''', riOutput = ''''\<rparr>"

definition dec_resp_item :: "json \<Rightarrow> wireRespItem \<Rightarrow> wireRespItem option" where
  "dec_resp_item = dec_struct (\<lambda>k v s.
     if k = ''type'' then set_field (\<lambda>x s. s\<lparr>riType := x\<rparr>) (dec_string v (riType s)) s
     else if k = ''role'' then set_field (\<lambda>x s. s\<lparr>riRole := x\<rparr>) (dec_string v (riRole s)) s
     else if k = ''content'' then Some (s\<lparr>riContent := Some v\<rparr>)
     else if k = ''call_id'' then set_field (\<lambda>x s. s\<lparr>riCallID := x\<rparr>) (dec_string v (riCallID s)) s
     else if k = ''name'' then set_field (\<lambda>x s. s\<lparr>riName := x\<rparr>) (dec_string v (riName s)) s
     else if k = ''arguments'' then set_field (\<lambda>x s. s\<lparr>riArguments := x\<rparr>) (dec_string v (riArguments s)) s
     else if k = ''output'' then set_field (\<lambda>x s. s\<lparr>riOutput := x\<rparr>) (dec_string v (riOutput s)) s
     else Some s)"

definition zero_resp_part :: wireRespPart where
  "zero_resp_part = \<lparr>rpType = '''', rpText = '''', rpRefusal = '''', rpImageURL = '''', rpFileURL = '''', rpFileData = '''',
     rpFilename = '''', rpFileID = ''''\<rparr>"

definition dec_resp_part :: "json \<Rightarrow> wireRespPart \<Rightarrow> wireRespPart option" where
  "dec_resp_part = dec_struct (\<lambda>k v s.
     if k = ''type'' then set_field (\<lambda>x s. s\<lparr>rpType := x\<rparr>) (dec_string v (rpType s)) s
     else if k = ''text'' then set_field (\<lambda>x s. s\<lparr>rpText := x\<rparr>) (dec_string v (rpText s)) s
     else if k = ''refusal'' then set_field (\<lambda>x s. s\<lparr>rpRefusal := x\<rparr>) (dec_string v (rpRefusal s)) s
     else if k = ''image_url'' then set_field (\<lambda>x s. s\<lparr>rpImageURL := x\<rparr>) (dec_string v (rpImageURL s)) s
     else if k = ''file_url'' then set_field (\<lambda>x s. s\<lparr>rpFileURL := x\<rparr>) (dec_string v (rpFileURL s)) s
     else if k = ''file_data'' then set_field (\<lambda>x s. s\<lparr>rpFileData := x\<rparr>) (dec_string v (rpFileData s)) s
     else if k = ''filename'' then set_field (\<lambda>x s. s\<lparr>rpFilename := x\<rparr>) (dec_string v (rpFilename s)) s
     else if k = ''file_id'' then set_field (\<lambda>x s. s\<lparr>rpFileID := x\<rparr>) (dec_string v (rpFileID s)) s
     else Some s)"

definition zero_responses :: wireResponsesRequest where
  "zero_responses = \<lparr>rwModel = '''', rwInput = None, rwInstructions = '''', rwTools = [], rwRawTools = None, rwToolChoice = None,
     rwMaxOutputTokens = None, rwTemperature = None, rwTopP = None, rwStream = False, rwParallelToolCalls = None, rwEffort = '''',
     rwFormat = None, rwMetadata = [], rwPreviousResponseID = '''', rwConversation = None, rwBackground = False\<rparr>"

text \<open>The tools are decoded twice, once typed and once as they are.\<close>

definition dec_responses :: "(json \<Rightarrow> bool) \<Rightarrow> json \<Rightarrow> wireResponsesRequest \<Rightarrow> wireResponsesRequest option" where
  "dec_responses fin = dec_struct (\<lambda>k v s.
     if k = ''model'' then set_field (\<lambda>x s. s\<lparr>rwModel := x\<rparr>) (dec_string v (rwModel s)) s
     else if k = ''input'' then Some (s\<lparr>rwInput := Some v\<rparr>)
     else if k = ''instructions'' then set_field (\<lambda>x s. s\<lparr>rwInstructions := x\<rparr>) (dec_string v (rwInstructions s)) s
     else if k = ''tools'' then
       set_field (\<lambda>x s. s\<lparr>rwTools := x, rwRawTools := Some v\<rparr>) (dec_slice zero_resp_tool dec_resp_tool v (rwTools s)) s
     else if k = ''tool_choice'' then Some (s\<lparr>rwToolChoice := Some v\<rparr>)
     else if k = ''max_output_tokens'' then set_field (\<lambda>x s. s\<lparr>rwMaxOutputTokens := x\<rparr>) (dec_ptr 0 dec_int v (rwMaxOutputTokens s)) s
     else if k = ''temperature'' then
       set_field (\<lambda>x s. s\<lparr>rwTemperature := x\<rparr>) (dec_ptr (JInt 0) (dec_float fin) v (rwTemperature s)) s
     else if k = ''top_p'' then set_field (\<lambda>x s. s\<lparr>rwTopP := x\<rparr>) (dec_ptr (JInt 0) (dec_float fin) v (rwTopP s)) s
     else if k = ''stream'' then set_field (\<lambda>x s. s\<lparr>rwStream := x\<rparr>) (dec_bool v (rwStream s)) s
     else if k = ''parallel_tool_calls'' then
       set_field (\<lambda>x s. s\<lparr>rwParallelToolCalls := x\<rparr>) (dec_ptr False dec_bool v (rwParallelToolCalls s)) s
     else if k = ''reasoning'' then
       set_field (\<lambda>x s. s\<lparr>rwEffort := x\<rparr>)
         (if v = JNull then Some '''' else dec_struct (\<lambda>k v e. if k = ''effort'' then dec_string v e else Some e) v (rwEffort s)) s
     else if k = ''text'' then
       set_field (\<lambda>x s. s\<lparr>rwFormat := x\<rparr>)
         (if v = JNull then Some None
          else dec_struct (\<lambda>k v f. if k = ''format'' then dec_ptr zero_resp_format dec_resp_format v f else Some f) v (rwFormat s)) s
     else if k = ''metadata'' then set_field (\<lambda>x s. s\<lparr>rwMetadata := x\<rparr>) (dec_string_map v (rwMetadata s)) s
     else if k = ''previous_response_id'' then
       set_field (\<lambda>x s. s\<lparr>rwPreviousResponseID := x\<rparr>) (dec_string v (rwPreviousResponseID s)) s
     else if k = ''conversation'' then Some (s\<lparr>rwConversation := Some v\<rparr>)
     else if k = ''background'' then set_field (\<lambda>x s. s\<lparr>rwBackground := x\<rparr>) (dec_bool v (rwBackground s)) s
     else Some s)"

section \<open>Tools\<close>

definition rawArray :: "json option \<Rightarrow> json option" where
  "rawArray raw = (if raw = Some JNull then None else raw)"

definition rw :: "string \<Rightarrow> string \<Rightarrow> Warning" where
  "rw fld reason = warn ''responses'' fld reason"

definition resp_tool :: "wireRespTool \<Rightarrow> Tool" where
  "resp_tool t = \<lparr>toolName = rtName t, toolDescription = rtDescription t, toolSchema = rtParameters t, toolSchemaDialect = '''', toolExtra = []\<rparr>"

definition resp_strict_warning :: "wireRespTool \<Rightarrow> Warning list" where
  "resp_strict_warning t =
     (if rtStrict t = Some True
      then [rw (''tools.'' @ rtName t @ ''.strict'') ''strict schema adherence is not forwarded; arguments may not validate'']
      else [])"

fun responses_tools :: "(string \<Rightarrow> string) \<Rightarrow> wireRespTool list \<Rightarrow> go_error + (Tool list \<times> Warning list)" where
  "responses_tools quote [] = Inr ([], [])"
| "responses_tools quote (t # ts) =
     (if rtType t \<noteq> '''' \<and> rtType t \<noteq> ''function'' then
        Inl (plain_error (''tool type '' @ quote (rtType t) @ '' is not supported: Darkrouter cannot execute built-in tools, '' @
          ''and answering without one would look like success''))
      else if rtName t = '''' then Inl (plain_error ''a function tool has no name'')
      else case responses_tools quote ts of
        Inl e \<Rightarrow> Inl e
      | Inr (tools, ws) \<Rightarrow> Inr (resp_tool t # tools, resp_strict_warning t @ ws))"

definition dec_resp_choice :: "json \<Rightarrow> string \<times> string \<Rightarrow> (string \<times> string) option" where
  "dec_resp_choice = dec_struct (\<lambda>k v s.
     if k = ''type'' then set_field (\<lambda>x s. (x, snd s)) (dec_string v (fst s)) s
     else if k = ''name'' then set_field (\<lambda>x s. (fst s, x)) (dec_string v (snd s)) s
     else Some s)"

definition parseResponsesToolChoice :: "json option \<Rightarrow> ToolChoice option" where
  "parseResponsesToolChoice raw =
     (case raw of
        None \<Rightarrow> None
      | Some JNull \<Rightarrow> None
      | Some j \<Rightarrow>
          (case dec_string j '''' of
             Some s \<Rightarrow>
               if s = ''auto'' then Some \<lparr>tcMode = ''auto'', tcName = ''''\<rparr>
               else if s = ''none'' then Some \<lparr>tcMode = ''none'', tcName = ''''\<rparr>
               else if s = ''required'' then Some \<lparr>tcMode = ''any'', tcName = ''''\<rparr>
               else None
           | None \<Rightarrow>
               (case dec_resp_choice j ('''', '''') of
                  None \<Rightarrow> None
                | Some (t, name) \<Rightarrow>
                    if t = ''function'' \<and> name \<noteq> '''' then Some \<lparr>tcMode = ''tool'', tcName = name\<rparr> else None)))"

section \<open>Input\<close>

definition responsesRole :: "string \<Rightarrow> Role" where
  "responsesRole s =
     (if s = ''assistant'' then RoleAssistant else if s = ''system'' \<or> s = ''developer'' then RoleSystem else RoleUser)"

definition responsesImageBlock :: "string \<Rightarrow> string \<Rightarrow> go_error + ContentBlock" where
  "responsesImageBlock imageURL fileID =
     (if fileID \<noteq> '''' then Inr (media_block BlockImage \<lparr>MIME = '''', Data = '''', URL = '''', FileID = fileID\<rparr>)
      else if imageURL = '''' then Inl (plain_error ''image part has neither image_url nor file_id'')
      else if HasPrefix imageURL ''data:'' then
        (case Cut (CHR '','') (drop 5 imageURL) of
           None \<Rightarrow> Inl (plain_error ''malformed data URL in an image part'')
         | Some (head, payload) \<Rightarrow>
             (case dataURIParts head payload of (mime, dt) \<Rightarrow>
                Inr (media_block BlockImage \<lparr>MIME = mime, Data = dt, URL = '''', FileID = ''''\<rparr>)))
      else Inr (media_block BlockImage \<lparr>MIME = '''', Data = '''', URL = imageURL, FileID = ''''\<rparr>))"

definition resp_part :: "(string \<Rightarrow> string) \<Rightarrow> (string \<Rightarrow> string) \<Rightarrow> wireRespPart \<Rightarrow> go_error + ContentBlock" where
  "resp_part quote tbe p =
     (if rpType p \<in> {''input_text'', ''output_text'', ''text'', ''summary_text''} then Inr (text_block (rpText p))
      else if rpType p = ''refusal'' then Inr (text_block (rpRefusal p))
      else if rpType p = ''input_image'' \<or> rpType p = ''image'' then responsesImageBlock (rpImageURL p) (rpFileID p)
      else if rpType p = ''input_file'' \<or> rpType p = ''file'' then
        (case fileMedia tbe (rpFileData p) (rpFilename p) of (mime, dt) \<Rightarrow>
           Inr (media_block BlockDocument \<lparr>MIME = mime, Data = dt, URL = rpFileURL p, FileID = rpFileID p\<rparr>))
      else Inl (plain_error (''content part type '' @ quote (rpType p) @ '' is not supported'')))"

fun resp_parts :: "(string \<Rightarrow> string) \<Rightarrow> (string \<Rightarrow> string) \<Rightarrow> wireRespPart list \<Rightarrow> go_error + ContentBlock list" where
  "resp_parts quote tbe [] = Inr []"
| "resp_parts quote tbe (p # ps) =
     (case resp_part quote tbe p of
        Inl e \<Rightarrow> Inl e
      | Inr b \<Rightarrow> map_sum id (\<lambda>bs. b # bs) (resp_parts quote tbe ps))"

definition responsesContent ::
    "(string \<Rightarrow> string) \<Rightarrow> (string \<Rightarrow> string) \<Rightarrow> go_error \<Rightarrow> json option \<Rightarrow> go_error + ContentBlock list" where
  "responsesContent quote tbe de raw =
     (case raw of
        None \<Rightarrow> Inl (plain_error ''content is required'')
      | Some JNull \<Rightarrow> Inl (plain_error ''content is required'')
      | Some (JStr s) \<Rightarrow> Inr [text_block s]
      | Some j \<Rightarrow>
          (case dec_slice zero_resp_part dec_resp_part j [] of
             None \<Rightarrow> Inl (wrap_error ''content must be text or an array of parts'' de)
           | Some parts \<Rightarrow>
               (case resp_parts quote tbe parts of
                  Inl e \<Rightarrow> Inl e
                | Inr bs \<Rightarrow> if bs = [] then Inl (plain_error ''content carried no parts'') else Inr bs)))"

definition input_at :: "nat \<Rightarrow> string" where
  "input_at i = ''input['' @ Itoa i @ '']''"

text \<open>One item: the messages it adds and its warnings. The arguments of a call are kept as they are, spaces included.\<close>

definition resp_item ::
    "(string \<Rightarrow> string) \<Rightarrow> (string \<Rightarrow> string) \<Rightarrow> (string \<Rightarrow> json) \<Rightarrow> go_error \<Rightarrow> nat \<Rightarrow> wireRespItem \<Rightarrow>
     go_error + (Message list \<times> Warning list)" where
  "resp_item quote tbe raw_of de i it =
     (if riType it = ''function_call'' then
        Inr ([\<lparr>msgRole = RoleAssistant,
          msgContent = [use_block (riCallID it) (riName it) (raw_of (if riArguments it = '''' then ''{}'' else riArguments it))]\<rparr>], [])
      else if riType it = ''function_call_output'' then
        Inr ([\<lparr>msgRole = RoleTool, msgContent = [result_block (riCallID it) [text_block (riOutput it)]]\<rparr>], [])
      else if riType it = ''reasoning'' then
        Inr ([], [rw (input_at i) ''reasoning item dropped; it is only meaningful to the provider that produced it''])
      else if riType it = '''' \<or> riType it = ''message'' then
        (case responsesContent quote tbe de (riContent it) of
           Inl e \<Rightarrow> Inl (wrap_error (input_at i) e)
         | Inr bs \<Rightarrow> Inr ([\<lparr>msgRole = responsesRole (riRole it), msgContent = bs\<rparr>], []))
      else Inl (plain_error (input_at i @ '': item type '' @ quote (riType it) @ '' is not supported'')))"

fun resp_items ::
    "(string \<Rightarrow> string) \<Rightarrow> (string \<Rightarrow> string) \<Rightarrow> (string \<Rightarrow> json) \<Rightarrow> go_error \<Rightarrow> nat \<Rightarrow> wireRespItem list \<Rightarrow>
     go_error + (Message list \<times> Warning list)" where
  "resp_items quote tbe raw_of de i [] = Inr ([], [])"
| "resp_items quote tbe raw_of de i (it # its) =
     (case resp_item quote tbe raw_of de i it of
        Inl e \<Rightarrow> Inl e
      | Inr (ms, ws) \<Rightarrow>
          (case resp_items quote tbe raw_of de (Suc i) its of
             Inl e \<Rightarrow> Inl e
           | Inr (ms', ws') \<Rightarrow> Inr (ms @ ms', ws @ ws')))"

definition responsesInput ::
    "(string \<Rightarrow> string) \<Rightarrow> (string \<Rightarrow> string) \<Rightarrow> (string \<Rightarrow> json) \<Rightarrow> go_error \<Rightarrow> json option \<Rightarrow>
     go_error + (Message list \<times> Warning list)" where
  "responsesInput quote tbe raw_of de raw =
     (case raw of
        None \<Rightarrow> Inl (plain_error ''input is required'')
      | Some JNull \<Rightarrow> Inl (plain_error ''input is required'')
      | Some (JStr s) \<Rightarrow> Inr ([\<lparr>msgRole = RoleUser, msgContent = [text_block s]\<rparr>], [])
      | Some j \<Rightarrow>
          (case dec_slice zero_resp_item dec_resp_item j [] of
             None \<Rightarrow> Inl (wrap_error ''input must be text or an array of items'' de)
           | Some items \<Rightarrow>
               if items = [] then Inl (plain_error ''input is empty'')
               else
                 (case resp_items quote tbe raw_of de 0 items of
                    Inl e \<Rightarrow> Inl e
                  | Inr (ms, ws) \<Rightarrow> if ms = [] then Inl (plain_error ''input carried no messages'') else Inr (ms, ws))))"

section \<open>Requests\<close>

text \<open>What needs a stored conversation or a queue is refused before anything else is read.\<close>

definition stateful :: "wireResponsesRequest \<Rightarrow> string option" where
  "stateful w =
     (if rwPreviousResponseID w \<noteq> '''' then
        Some (''previous_response_id is not supported: Darkrouter stores no conversations, '' @
          ''so send the full input each turn and use stateless requests'')
      else if rawArray (rwConversation w) \<noteq> None then
        Some (''conversation is not supported: Darkrouter stores no conversations, '' @
          ''so send the full input each turn and use stateless requests'')
      else if rwBackground w then
        Some (''background is not supported: Darkrouter has no queue and mints no '' @
          ''resolvable ids, so use a stateless foreground request'')
      else None)"

definition resp_format :: "wireRespFormat option \<Rightarrow> ResponseFormat option" where
  "resp_format fmt =
     (case fmt of
        None \<Rightarrow> None
      | Some f \<Rightarrow>
          if rfmType f = ''json_object'' then
            Some \<lparr>rfType = ''json_object'', rfSchema = None, rfSchemaDialect = '''', rfName = '''', rfStrict = None\<rparr>
          else if rfmType f = ''json_schema'' then
            Some \<lparr>rfType = ''json_schema'', rfSchema = rfmSchema f, rfSchemaDialect = '''', rfName = rfmName f, rfStrict = rfmStrict f\<rparr>
          else None)"

definition responses_echo :: "wireResponsesRequest \<Rightarrow> responsesEcho" where
  "responses_echo w =
     \<lparr>reInstructions = rwInstructions w, reTools = rawArray (rwRawTools w), reToolChoice = rwToolChoice w,
      reParallel = rwParallelToolCalls w, reTemperature = rwTemperature w, reTopP = rwTopP w,
      reMaxOutput = rwMaxOutputTokens w, reMetadata = rwMetadata w\<rparr>"

definition responses_request ::
    "(string \<Rightarrow> string) \<Rightarrow> (string \<Rightarrow> string) \<Rightarrow> (string \<Rightarrow> json) \<Rightarrow> go_error \<Rightarrow> wireResponsesRequest \<Rightarrow> go_error + Request" where
  "responses_request quote tbe raw_of de w =
     (case stateful w of
        Some reason \<Rightarrow> Inl (plain_error reason)
      | None \<Rightarrow>
          (case responses_tools quote (rwTools w) of
             Inl e \<Rightarrow> Inl e
           | Inr (tools, ws) \<Rightarrow>
               (case responsesInput quote tbe raw_of de (rwInput w) of
                  Inl e \<Rightarrow> Inl e
                | Inr (msgs, ws') \<Rightarrow>
                    Inr \<lparr>reqModel = rwModel w,
                      reqSystem = (if rwInstructions w \<noteq> '''' then [text_block (rwInstructions w)] else []),
                      reqMessages = msgs, reqTools = tools, reqToolChoice = parseResponsesToolChoice (rwToolChoice w),
                      reqParallelToolCalls = rwParallelToolCalls w, reqMaxTokens = rwMaxOutputTokens w,
                      reqTemperature = rwTemperature w, reqTopP = rwTopP w, reqTopK = None, reqStopSequences = [],
                      reqStream = rwStream w,
                      reqReasoning = (if rwEffort w \<noteq> '''' then Some \<lparr>rsEffort = rwEffort w, rsBudget = 0, rsDisabled = False\<rparr> else None),
                      reqResponseFormat = resp_format (rwFormat w), reqSafety = [], reqMetadata = rwMetadata w, reqExtra = [],
                      reqWarnings = ws @ ws'\<rparr>)))"

definition ParseResponses ::
    "(string \<Rightarrow> json option) \<Rightarrow> (json \<Rightarrow> bool) \<Rightarrow> (string \<Rightarrow> string) \<Rightarrow> (string \<Rightarrow> string) \<Rightarrow> (string \<Rightarrow> json) \<Rightarrow> go_error \<Rightarrow>
     string \<times> go_error option \<Rightarrow> nat \<Rightarrow> go_error + (Request \<times> Passthrough \<times> responsesEcho)" where
  "ParseResponses unmarshal fin quote tbe raw_of de stream maxBody =
     (case ReadCappedBody stream maxBody of
        Inl e \<Rightarrow> Inl e
      | Inr body \<Rightarrow>
          (case Option.bind (unmarshal body) (\<lambda>j. dec_responses fin j zero_responses) of
             None \<Rightarrow> Inl (wrap_error ''invalid JSON body'' de)
           | Some w \<Rightarrow>
               (case responses_request quote tbe raw_of de w of
                  Inl e \<Rightarrow> Inl e
                | Inr req \<Rightarrow>
                    Inr (req, \<lparr>ptBody = body, ptModelField = ''model'', ptSurface = SurfaceLLM, ptMethod = '''', ptQuery = [],
                      ptStream = rwStream w\<rparr>, responses_echo w))))"

section \<open>The same request in the other dialect\<close>

text \<open>A conversation: what someone says, a call and its answer. Both dialects can put it into words.\<close>

datatype spoken = Says string string | Calls string string string | Answers string string

fun resp_said :: "spoken \<Rightarrow> json" where
  "resp_said (Says r t) = JObj [(''type'', JStr ''message''), (''role'', JStr r), (''content'', JStr t)]"
| "resp_said (Calls i n a) = JObj
     [(''type'', JStr ''function_call''), (''call_id'', JStr i), (''name'', JStr n), (''arguments'', JStr a)]"
| "resp_said (Answers i t) = JObj [(''type'', JStr ''function_call_output''), (''call_id'', JStr i), (''output'', JStr t)]"

fun chat_said :: "spoken \<Rightarrow> json" where
  "chat_said (Says r t) = JObj [(''role'', JStr r), (''content'', JStr t)]"
| "chat_said (Calls i n a) = JObj [(''role'', JStr ''assistant''), (''content'', JNull), (''tool_calls'', JArr [JObj
     [(''id'', JStr i), (''type'', JStr ''function''), (''function'', JObj [(''name'', JStr n), (''arguments'', JStr a)])]])]"
| "chat_said (Answers i t) = JObj [(''role'', JStr ''tool''), (''tool_call_id'', JStr i), (''content'', JStr t)]"

fun said_ok :: "spoken \<Rightarrow> bool" where
  "said_ok (Says r t) = (r \<in> {''user'', ''assistant'', ''system'', ''developer''} \<and> t \<noteq> '''')"
| "said_ok (Calls i n a) = (i \<noteq> '''' \<and> TrimSpace a \<noteq> '''')"
| "said_ok (Answers i t) = (i \<noteq> '''' \<and> t \<noteq> '''')"

record asked =
  akModel :: string
  akSaid :: "spoken list"
  akTools :: "(string \<times> string \<times> json) list"
  akChoice :: string
  akMaxTokens :: int
  akTemperature :: json
  akParallel :: bool
  akStream :: bool

definition shared_members :: "asked \<Rightarrow> (string \<times> json) list" where
  "shared_members a = [(''model'', JStr (akModel a)), (''tool_choice'', JStr (akChoice a)), (''temperature'', akTemperature a),
     (''parallel_tool_calls'', JBool (akParallel a)), (''stream'', JBool (akStream a))]"

definition resp_asked :: "asked \<Rightarrow> json" where
  "resp_asked a = JObj (shared_members a @
     [(''max_output_tokens'', JInt (akMaxTokens a)), (''input'', JArr (map resp_said (akSaid a))),
      (''tools'', JArr (map (\<lambda>(n, d, s). JObj [(''type'', JStr ''function''), (''name'', JStr n), (''description'', JStr d), (''parameters'', s)])
         (akTools a)))])"

definition chat_asked :: "asked \<Rightarrow> json" where
  "chat_asked a = JObj (shared_members a @
     [(''max_completion_tokens'', JInt (akMaxTokens a)), (''messages'', JArr (map chat_said (akSaid a))),
      (''tools'', JArr (map (\<lambda>(n, d, s). JObj [(''type'', JStr ''function''),
         (''function'', JObj [(''name'', JStr n), (''description'', JStr d), (''parameters'', s)])]) (akTools a)))])"

definition asked_ok :: "(json \<Rightarrow> bool) \<Rightarrow> asked \<Rightarrow> bool" where
  "asked_ok fin a \<longleftrightarrow> akSaid a \<noteq> [] \<and> list_all said_ok (akSaid a) \<and> list_all (\<lambda>(n, d, s). n \<noteq> '''') (akTools a) \<and>
     - 9223372036854775808 \<le> akMaxTokens a \<and> akMaxTokens a \<le> int64_max \<and>
     (\<forall>x. dec_float fin (akTemperature a) x = Some (akTemperature a)) \<and> akTemperature a \<noteq> JNull"

fun item_of_said :: "spoken \<Rightarrow> wireRespItem" where
  "item_of_said (Says r t) = zero_resp_item\<lparr>riType := ''message'', riRole := r, riContent := Some (JStr t)\<rparr>"
| "item_of_said (Calls i n a) = zero_resp_item\<lparr>riType := ''function_call'', riCallID := i, riName := n, riArguments := a\<rparr>"
| "item_of_said (Answers i t) = zero_resp_item\<lparr>riType := ''function_call_output'', riCallID := i, riOutput := t\<rparr>"

fun message_of_said :: "spoken \<Rightarrow> openaiMessage" where
  "message_of_said (Says r t) = zero_openai_message\<lparr>qmRole := r, qmContent := Some (JStr t)\<rparr>"
| "message_of_said (Calls i n a) = zero_openai_message\<lparr>qmRole := ''assistant'', qmContent := Some JNull,
     qmToolCalls := [\<lparr>tkID = i, tkFunction = \<lparr>fcName = n, fcArguments = a\<rparr>\<rparr>]\<rparr>"
| "message_of_said (Answers i t) = zero_openai_message\<lparr>qmRole := ''tool'', qmToolCallID := i, qmContent := Some (JStr t)\<rparr>"

fun meant :: "(string \<Rightarrow> json) \<Rightarrow> spoken \<Rightarrow> Message" where
  "meant raw_of (Says r t) = \<lparr>msgRole = mapRole r, msgContent = [text_block t]\<rparr>"
| "meant raw_of (Calls i n a) = \<lparr>msgRole = RoleAssistant, msgContent = [use_block i n (raw_of a)]\<rparr>"
| "meant raw_of (Answers i t) = \<lparr>msgRole = RoleTool, msgContent = [result_block i [text_block t]]\<rparr>"

lemma dec_elems_map:
  assumes "\<And>x. x \<in> set xs \<Longrightarrow> dec (enc x) zero = Some (wire x)"
  shows "dec_elems zero dec (map enc xs) [] = Some (map wire xs)"
  using assms by (induction xs) auto

lemma dec_item_said: "dec_resp_item (resp_said x) zero_resp_item = Some (item_of_said x)"
  by (cases x) (simp_all add: dec_resp_item_def zero_resp_item_def ToLower_def to_lower_char_def)

lemma dec_message_said: "dec_openaiMessage (chat_said x) zero_openai_message = Some (message_of_said x)"
  by (cases x) (simp_all add: dec_openaiMessage_def zero_openai_message_def ToLower_def to_lower_char_def dec_toolCall_def
      dec_functionCall_def zero_call_def)

lemma resp_items_meant:
  assumes "list_all said_ok xs"
  shows "resp_items quote tbe raw_of de i (map item_of_said xs) = Inr (map (meant raw_of) xs, [])"
  using assms
proof (induction xs arbitrary: i)
  case (Cons x xs)
  have "resp_item quote tbe raw_of de i (item_of_said x) = Inr ([meant raw_of x], [])"
    using Cons.prems
    by (cases x) (auto simp: resp_item_def zero_resp_item_def responsesContent_def responsesRole_def mapRole_def TrimSpace_def)
  then show ?case using Cons by simp
qed simp

lemma chat_messages_meant:
  assumes "list_all said_ok xs"
  shows "oq_parse_messages tbe raw_of de i (map message_of_said xs) [] = Inr (map (meant raw_of) xs, [])"
  using assms
proof (induction xs arbitrary: i)
  case (Cons x xs)
  have "parseMessage tbe raw_of de i (message_of_said x) [] = Inr (meant raw_of x, [], [])"
    using Cons.prems
    by (cases x) (auto simp: parseMessage_def zero_openai_message_def oq_parseContent_def mapRole_def parse_functionCall_def
        argumentsOrEmpty_def result_id_def Let_def)
  then show ?case using Cons by simp
qed simp

lemma dec_tool_asked:
  "dec_resp_tool (JObj [(''type'', JStr ''function''), (''name'', JStr n), (''description'', JStr d), (''parameters'', s)]) zero_resp_tool =
     Some \<lparr>rtType = ''function'', rtName = n, rtDescription = d, rtParameters = Some s, rtStrict = None\<rparr>"
  "dec_openaiTool (JObj [(''type'', JStr ''function''),
       (''function'', JObj [(''name'', JStr n), (''description'', JStr d), (''parameters'', s)])]) zero_function =
     Some \<lparr>qfName = n, qfDescription = d, qfParameters = Some s, qfStrict = None\<rparr>"
  by (simp_all add: dec_resp_tool_def zero_resp_tool_def dec_openaiTool_def dec_wireFunction_def zero_function_def ToLower_def to_lower_char_def)

definition tools_asked :: "asked \<Rightarrow> Tool list" where
  "tools_asked a = map (\<lambda>(n, d, s). \<lparr>toolName = n, toolDescription = d, toolSchema = Some s, toolSchemaDialect = '''', toolExtra = []\<rparr>) (akTools a)"

definition resp_wire :: "asked \<Rightarrow> wireResponsesRequest" where
  "resp_wire a = zero_responses\<lparr>rwModel := akModel a, rwToolChoice := Some (JStr (akChoice a)), rwTemperature := Some (akTemperature a),
     rwParallelToolCalls := Some (akParallel a), rwStream := akStream a, rwMaxOutputTokens := Some (akMaxTokens a),
     rwInput := Some (JArr (map resp_said (akSaid a))),
     rwTools := map (\<lambda>(n, d, s). \<lparr>rtType = ''function'', rtName = n, rtDescription = d, rtParameters = Some s, rtStrict = None\<rparr>) (akTools a),
     rwRawTools := Some (JArr (map (\<lambda>(n, d, s). JObj [(''type'', JStr ''function''), (''name'', JStr n), (''description'', JStr d),
       (''parameters'', s)]) (akTools a)))\<rparr>"

definition chat_wire :: "asked \<Rightarrow> openaiRequest" where
  "chat_wire a = zero_openai_request\<lparr>oqModel := akModel a, oqToolChoice := Some (JStr (akChoice a)), oqTemperature := Some (akTemperature a),
     oqParallelToolCalls := Some (akParallel a), oqStream := akStream a, oqMaxCompletionTokens := Some (akMaxTokens a),
     oqMessages := map message_of_said (akSaid a),
     oqTools := map (\<lambda>(n, d, s). \<lparr>qfName = n, qfDescription = d, qfParameters = Some s, qfStrict = None\<rparr>) (akTools a)\<rparr>"

lemma resp_decoded:
  assumes "asked_ok fin a"
  shows "dec_responses fin (resp_asked a) zero_responses = Some (resp_wire a)"
proof -
  have t: "dec_elems zero_resp_tool dec_resp_tool (map (\<lambda>(n, d, s). JObj [(''type'', JStr ''function''), (''name'', JStr n),
      (''description'', JStr d), (''parameters'', s)]) (akTools a)) [] =
    Some (map (\<lambda>(n, d, s). \<lparr>rtType = ''function'', rtName = n, rtDescription = d, rtParameters = Some s, rtStrict = None\<rparr>) (akTools a))"
    by (rule dec_elems_map) (auto simp: dec_tool_asked)
  show ?thesis using assms
    by (simp add: resp_asked_def shared_members_def dec_responses_def zero_responses_def resp_wire_def asked_ok_def t
        ToLower_def to_lower_char_def)
qed

lemma chat_decoded:
  assumes "asked_ok fin a"
  shows "dec_openaiRequest fin (chat_asked a) zero_openai_request = Some (chat_wire a)"
proof -
  have t: "dec_elems zero_function dec_openaiTool (map (\<lambda>(n, d, s). JObj [(''type'', JStr ''function''),
      (''function'', JObj [(''name'', JStr n), (''description'', JStr d), (''parameters'', s)])]) (akTools a)) [] =
    Some (map (\<lambda>(n, d, s). \<lparr>qfName = n, qfDescription = d, qfParameters = Some s, qfStrict = None\<rparr>) (akTools a))"
    by (rule dec_elems_map) (auto simp: dec_tool_asked)
  have m: "dec_elems zero_openai_message dec_openaiMessage (map chat_said (akSaid a)) [] = Some (map message_of_said (akSaid a))"
    by (rule dec_elems_map) (rule dec_message_said)
  show ?thesis using assms
    by (simp add: chat_asked_def shared_members_def dec_openaiRequest_def zero_openai_request_def chat_wire_def asked_ok_def t m
        ToLower_def to_lower_char_def)
qed

lemma resp_tools_asked:
  "list_all (\<lambda>(n, d, s). n \<noteq> '''') ts \<Longrightarrow>
   responses_tools quote (map (\<lambda>(n, d, s). \<lparr>rtType = ''function'', rtName = n, rtDescription = d, rtParameters = Some s, rtStrict = None\<rparr>) ts) =
     Inr (map (\<lambda>(n, d, s). \<lparr>toolName = n, toolDescription = d, toolSchema = Some s, toolSchemaDialect = '''', toolExtra = []\<rparr>) ts, [])"
  by (induction ts) (auto simp: resp_tool_def resp_strict_warning_def)

lemma chat_extra: "captureExtra (chat_asked a) = []"
  by (simp add: captureExtra_def chat_asked_def shared_members_def extraFields_def)

definition asked_request :: "(string \<Rightarrow> json) \<Rightarrow> asked \<Rightarrow> Request" where
  "asked_request raw_of a =
     \<lparr>reqModel = akModel a, reqSystem = [], reqMessages = map (meant raw_of) (akSaid a), reqTools = tools_asked a,
      reqToolChoice = parseToolChoice (Some (JStr (akChoice a))), reqParallelToolCalls = Some (akParallel a),
      reqMaxTokens = Some (akMaxTokens a), reqTemperature = Some (akTemperature a), reqTopP = None, reqTopK = None,
      reqStopSequences = [], reqStream = akStream a, reqReasoning = None, reqResponseFormat = None, reqSafety = [],
      reqMetadata = [], reqExtra = [], reqWarnings = []\<rparr>"

lemma resp_parsed:
  assumes "asked_ok fin a"
  shows "responses_request quote tbe raw_of de (resp_wire a) = Inr (asked_request raw_of a)"
proof -
  have ok: "list_all said_ok (akSaid a)" "akSaid a \<noteq> []" "list_all (\<lambda>(n, d, s). n \<noteq> '''') (akTools a)"
    using assms(1) by (simp_all add: asked_ok_def)
  have i: "dec_elems zero_resp_item dec_resp_item (map resp_said (akSaid a)) [] = Some (map item_of_said (akSaid a))"
    by (rule dec_elems_map) (rule dec_item_said)
  have input: "responsesInput quote tbe raw_of de (rwInput (resp_wire a)) = Inr (map (meant raw_of) (akSaid a), [])"
    using ok(2) by (simp add: responsesInput_def resp_wire_def i resp_items_meant[OF ok(1)])
  have tools: "responses_tools quote (rwTools (resp_wire a)) = Inr (tools_asked a, [])"
    unfolding tools_asked_def using resp_tools_asked[OF ok(3)] by (simp add: resp_wire_def)
  have "stateful (resp_wire a) = None" by (simp add: stateful_def resp_wire_def zero_responses_def rawArray_def)
  then show ?thesis
    by (simp add: responses_request_def input tools)
      (simp add: asked_request_def resp_wire_def zero_responses_def resp_format_def parseResponsesToolChoice_def parseToolChoice_def)
qed

lemma chat_parsed:
  assumes "asked_ok fin a" "unmarshal body = Some (chat_asked a)" "length body \<le> maxBody"
  shows "oq_ParseRequest unmarshal fin tbe raw_of de (body, None) maxBody = Inr (asked_request raw_of a,
    \<lparr>ptBody = body, ptModelField = ''model'', ptSurface = SurfaceLLM, ptMethod = '''', ptQuery = [], ptStream = akStream a\<rparr>)"
proof -
  have ms: "oq_parse_messages tbe raw_of de 0 (oqMessages (chat_wire a)) [] = Inr (map (meant raw_of) (akSaid a), [])"
    using assms(1) by (simp add: chat_wire_def chat_messages_meant asked_ok_def)
  have tools: "map function_tool (oqTools (chat_wire a) @ oqFunctions (chat_wire a)) = tools_asked a"
    by (auto simp: chat_wire_def zero_openai_request_def tools_asked_def function_tool_def)
  have none: "strict_warnings (oqTools (chat_wire a)) = []"
    by (auto simp: strict_warnings_def chat_wire_def filter_empty_conv)
  have choice: "(case parseToolChoice (oqToolChoice (chat_wire a)) of None \<Rightarrow> parseToolChoice (oqFunctionCall (chat_wire a)) | Some c \<Rightarrow> Some c) =
      parseToolChoice (Some (JStr (akChoice a)))"
    by (auto simp: chat_wire_def zero_openai_request_def parseToolChoice_def split: option.split)
  show ?thesis
    by (simp add: oq_ParseRequest_def ReadCappedBody_def assms(2,3) not_less chat_decoded[OF assms(1)] ms tools none choice chat_extra
        del: map_append)
      (simp add: asked_request_def chat_wire_def zero_openai_request_def parseStop_def parseResponseFormat_def)
qed

text \<open>C15. One conversation, two dialects. A request said in the Responses dialect, of messages, calls, answers and
  function tools, with its model, cap, temperature, tool choice, streaming and parallelism, becomes exactly the canonical
  request that the chat-completions parser makes of the same conversation, so everything behind the parsers treats the
  two alike; and the response will repeat the parameters and the tools as they were sent.\<close>

theorem responses_is_chat:
  assumes "asked_ok fin a"
    and "unmarshal body = Some (resp_asked a)" "unmarshal chat_body = Some (chat_asked a)"
    and "length body \<le> maxBody" "length chat_body \<le> maxBody"
  shows "\<exists>req pt pt' echo. ParseResponses unmarshal fin quote tbe raw_of de (body, None) maxBody = Inr (req, pt, echo) \<and>
    oq_ParseRequest unmarshal fin tbe raw_of de (chat_body, None) maxBody = Inr (req, pt') \<and>
    reqMessages req = map (meant raw_of) (akSaid a) \<and> reqWarnings req = [] \<and>
    ptBody pt = body \<and> ptBody pt' = chat_body \<and> ptStream pt = ptStream pt' \<and>
    reMaxOutput echo = Some (akMaxTokens a) \<and> reTemperature echo = Some (akTemperature a) \<and>
    reToolChoice echo = Some (JStr (akChoice a)) \<and> reTools echo = (case resp_asked a of JObj ms \<Rightarrow> map_of ms ''tools'' | _ \<Rightarrow> None)"
proof -
  have "reTools (responses_echo (resp_wire a)) = (case resp_asked a of JObj ms \<Rightarrow> map_of ms ''tools'' | _ \<Rightarrow> None)"
    by (simp add: responses_echo_def resp_wire_def rawArray_def resp_asked_def shared_members_def)
  then show ?thesis
    by (simp add: ParseResponses_def ReadCappedBody_def assms(2,4) resp_decoded[OF assms(1)] resp_parsed[OF assms(1)]
        chat_parsed[where unmarshal = unmarshal and body = chat_body and maxBody = maxBody, OF assms(1,3,5)] not_less)
      (simp add: asked_request_def responses_echo_def resp_wire_def)
qed

definition demo_asked :: asked where
  "demo_asked = \<lparr>akModel = ''m'', akSaid = [Says ''user'' ''hi'', Calls ''c1'' ''look'' ''{}'', Answers ''c1'' ''found''],
     akTools = [(''look'', ''looks'', JObj [])], akChoice = ''auto'', akMaxTokens = 64, akTemperature = JInt 1, akParallel = True, akStream = False\<rparr>"

theorem responses_is_chat_witness:
  "\<exists>req pt pt' echo.
     ParseResponses (\<lambda>s. if s = ''r'' then Some (resp_asked demo_asked) else Some (chat_asked demo_asked)) (\<lambda>_. True) id id JStr (plain_error [])
       (''r'', None) 9 = Inr (req, pt, echo) \<and>
     oq_ParseRequest (\<lambda>s. if s = ''r'' then Some (resp_asked demo_asked) else Some (chat_asked demo_asked)) (\<lambda>_. True) id JStr (plain_error [])
       (''c'', None) 9 = Inr (req, pt') \<and>
     reqMessages req = [\<lparr>msgRole = RoleUser, msgContent = [text_block ''hi'']\<rparr>,
       \<lparr>msgRole = RoleAssistant, msgContent = [use_block ''c1'' ''look'' (JStr ''{}'')]\<rparr>,
       \<lparr>msgRole = RoleTool, msgContent = [result_block ''c1'' [text_block ''found'']]\<rparr>]"
proof -
  have "asked_ok (\<lambda>_. True) demo_asked"
    by (simp add: asked_ok_def demo_asked_def TrimSpace_def int64_max_def is_space_def)
  from responses_is_chat[OF this, of "\<lambda>s. if s = ''r'' then Some (resp_asked demo_asked) else Some (chat_asked demo_asked)" "''r''" "''c''" 9
      id id JStr "plain_error []"]
  show ?thesis by (auto simp: demo_asked_def mapRole_def)
qed

text \<open>What a refused request looks like: state, a queue, or a tool the gateway would have to run.\<close>

lemma stateful_refused:
  "rwPreviousResponseID w \<noteq> '''' \<or> rawArray (rwConversation w) \<noteq> None \<or> rwBackground w \<Longrightarrow>
   \<exists>reason. responses_request quote tbe raw_of de w = Inl (plain_error reason)"
  by (auto simp: responses_request_def stateful_def)

lemma built_in_refused:
  "t \<in> set ts \<Longrightarrow> rtType t \<notin> {'''', ''function''} \<Longrightarrow> \<exists>e. responses_tools quote ts = Inl e"
  by (induction ts) (auto split: sum.splits)

text \<open>Arguments of blanks alone are an empty object in a chat request and stay what they are here.\<close>

lemma blank_arguments:
  "resp_item quote tbe raw_of de i (zero_resp_item\<lparr>riType := ''function_call'', riArguments := '' ''\<rparr>) =
     Inr ([\<lparr>msgRole = RoleAssistant, msgContent = [use_block '''' '''' (raw_of '' '')]\<rparr>], [])"
  "argumentsOrEmpty raw_of '' '' = JObj []"
  by (simp_all add: resp_item_def zero_resp_item_def argumentsOrEmpty_def TrimSpace_def is_space_def)

end
