(* ===== verification/Responses_Writer.thy ===== *)
theory Responses_Writer
  imports Responses_Request OpenAI_Parser
begin

text \<open>
  The OpenAI Responses dialect's response side, the second half of \<^verbatim>\<open>internal/edge/openai/responses.go\<close> and
  \<^verbatim>\<open>responses_stream.go\<close>: the response object, which the unary answer and the terminal event of a stream share, and the
  writer that turns canonical events into numbered semantic events over output items opened and closed one by one.

  \<open>clock\<close> gives the seconds \<^verbatim>\<open>now().Unix()\<close> reads for the event of each number; a \<^verbatim>\<open>json.RawMessage\<close> as text is \<open>raw_text\<close> of
  its value. A write through a nil pointer, which the writer can run into, is the state \<open>rtPanicked\<close>.
\<close>

section \<open>The response object\<close>

text \<open>An output item: a message, a reasoning summary, or a call with its id, name and argument text.\<close>

datatype out_item = OutMessage string | OutReasoning string | OutCall string string string

fun item_kind :: "out_item \<Rightarrow> BlockType" where
  "item_kind (OutMessage s) = BlockText"
| "item_kind (OutReasoning s) = BlockThinking"
| "item_kind (OutCall i n a) = BlockToolUse"

fun item_prefix :: "out_item \<Rightarrow> string" where
  "item_prefix (OutMessage s) = ''msg''"
| "item_prefix (OutReasoning s) = ''rs''"
| "item_prefix (OutCall i n a) = ''fc''"

fun item_text :: "out_item \<Rightarrow> string" where
  "item_text (OutMessage s) = s"
| "item_text (OutReasoning s) = s"
| "item_text (OutCall i n a) = a"

text \<open>An empty message and an empty summary are left out; a call never is.\<close>

fun item_shown :: "out_item \<Rightarrow> bool" where
  "item_shown (OutMessage s) = (s \<noteq> '''')"
| "item_shown (OutReasoning s) = (s \<noteq> '''')"
| "item_shown (OutCall i n a) = True"

definition out_block :: "(json \<Rightarrow> string) \<Rightarrow> ContentBlock \<Rightarrow> out_item option" where
  "out_block raw_text b =
     (case cbType b of
        BlockThinking \<Rightarrow> map_option (\<lambda>th. OutReasoning (thText th)) (cbThinking b)
      | BlockText \<Rightarrow> Some (OutMessage (cbText b))
      | BlockToolUse \<Rightarrow>
          map_option (\<lambda>u. OutCall (tuID u) (tuName u) (case tuInput u of None \<Rightarrow> '''' | Some j \<Rightarrow> raw_text j)) (cbToolUse b)
      | _ \<Rightarrow> None)"

definition responsesID :: "string \<Rightarrow> string" where
  "responsesID upstream = (if upstream = '''' then ''resp_dr_darkrouter'' else ''resp_dr_'' @ upstream)"

definition responsesItemID :: "string \<Rightarrow> string \<Rightarrow> nat \<Rightarrow> string" where
  "responsesItemID respID kind index =
     (if HasPrefix respID ''resp_dr_'' then drop 8 respID else respID) @ ''_'' @ kind @ ''_'' @ Itoa index"

fun responsesStatus :: "StopReason \<Rightarrow> string \<times> string" where
  "responsesStatus StopMaxTokens = (''incomplete'', ''max_output_tokens'')"
| "responsesStatus StopContentFilter = (''incomplete'', ''content_filter'')"
| "responsesStatus _ = (''completed'', '''')"

definition responsesUsage :: "Usage \<Rightarrow> json" where
  "responsesUsage u = JObj
     [(''input_tokens'', JInt (PromptTokens u)), (''input_tokens_details'', JObj [(''cached_tokens'', JInt (CacheReadTokens u))]),
      (''output_tokens'', JInt (OutputTokens u)), (''output_tokens_details'', JObj [(''reasoning_tokens'', JInt (ReasoningTokens u))]),
      (''total_tokens'', JInt (PromptTokens u + OutputTokens u))]"

definition output_text_part :: "string \<Rightarrow> json" where
  "output_text_part s = JObj [(''annotations'', JArr []), (''text'', JStr s), (''type'', JStr ''output_text'')]"

definition summary_part :: "string \<Rightarrow> json" where
  "summary_part s = JObj [(''text'', JStr s), (''type'', JStr ''summary_text'')]"

definition args_or_empty :: "string \<Rightarrow> string" where
  "args_or_empty a = (if a = '''' then ''{}'' else a)"

text \<open>A finished item under its id.\<close>

fun item_json :: "string \<Rightarrow> out_item \<Rightarrow> json" where
  "item_json i (OutMessage s) = JObj
     [(''content'', JArr [output_text_part s]), (''id'', JStr i), (''role'', JStr ''assistant''), (''status'', JStr ''completed''),
      (''type'', JStr ''message'')]"
| "item_json i (OutReasoning s) = JObj
     [(''id'', JStr i), (''summary'', JArr [summary_part s]), (''type'', JStr ''reasoning'')]"
| "item_json i (OutCall cid name a) = JObj
     [(''arguments'', JStr (args_or_empty a)), (''call_id'', JStr cid), (''id'', JStr i), (''name'', JStr name),
      (''status'', JStr ''completed''), (''type'', JStr ''function_call'')]"

definition responses_output :: "string \<Rightarrow> out_item list \<Rightarrow> json list" where
  "responses_output rid items =
     (let shown = filter item_shown items
      in map2 (\<lambda>n it. item_json (responsesItemID rid (item_prefix it) n) it) [0..<length shown] shown)"

fun message_text :: "out_item \<Rightarrow> string" where
  "message_text (OutMessage s) = s"
| "message_text _ = ''''"

text \<open>The request's own parameters, repeated; what the SDK has no default for is there even when the client sent nothing.\<close>

record echoed =
  ecInstructions :: json
  ecTools :: json
  ecToolChoice :: json
  ecParallel :: json
  ecTemperature :: json
  ecTopP :: json
  ecMaxOutput :: json
  ecMetadata :: json

definition or_null :: "('a \<Rightarrow> json) \<Rightarrow> 'a option \<Rightarrow> json" where
  "or_null f x = (case x of None \<Rightarrow> JNull | Some v \<Rightarrow> f v)"

definition applyResponsesEcho :: "responsesEcho option \<Rightarrow> echoed" where
  "applyResponsesEcho echo =
     (let e0 = \<lparr>ecInstructions = JNull, ecTools = JArr [], ecToolChoice = JStr ''auto'', ecParallel = JBool True,
          ecTemperature = JNull, ecTopP = JNull, ecMaxOutput = JNull, ecMetadata = JObj []\<rparr> in
      case echo of
        None \<Rightarrow> e0
      | Some e \<Rightarrow>
          \<lparr>ecInstructions = (if reInstructions e \<noteq> '''' then JStr (reInstructions e) else JNull),
           ecTools = (case reTools e of None \<Rightarrow> JArr [] | Some j \<Rightarrow> j),
           ecToolChoice = (case reToolChoice e of None \<Rightarrow> JStr ''auto'' | Some j \<Rightarrow> j),
           ecParallel = (case reParallel e of None \<Rightarrow> JBool True | Some b \<Rightarrow> JBool b),
           ecTemperature = or_null id (reTemperature e), ecTopP = or_null id (reTopP e),
           ecMaxOutput = or_null JInt (reMaxOutput e), ecMetadata = go_map (map (\<lambda>(k, v). (k, JStr v)) (reMetadata e))\<rparr>)"

definition responsesBody ::
    "string \<Rightarrow> string \<Rightarrow> out_item list \<Rightarrow> Usage \<Rightarrow> string \<Rightarrow> string \<Rightarrow> json \<Rightarrow> responsesEcho option \<Rightarrow> int \<Rightarrow> json" where
  "responsesBody rid model items u status incomplete err echo created =
     (let e = applyResponsesEcho echo in JObj
       [(''created_at'', JInt created), (''error'', err), (''id'', JStr rid),
        (''incomplete_details'', if incomplete \<noteq> '''' then JObj [(''reason'', JStr incomplete)] else JNull),
        (''instructions'', ecInstructions e), (''max_output_tokens'', ecMaxOutput e), (''metadata'', ecMetadata e),
        (''model'', JStr model), (''object'', JStr ''response''), (''output'', JArr (responses_output rid items)),
        (''output_text'', JStr (concat (map message_text items))), (''parallel_tool_calls'', ecParallel e),
        (''status'', JStr status), (''store'', JBool False), (''temperature'', ecTemperature e),
        (''tool_choice'', ecToolChoice e), (''tools'', ecTools e), (''top_p'', ecTopP e), (''usage'', responsesUsage u)])"

definition WriteResponses :: "(json \<Rightarrow> string) \<Rightarrow> IRResponse \<Rightarrow> responsesEcho option \<Rightarrow> int \<Rightarrow> json" where
  "WriteResponses raw_text resp echo created =
     (case responsesStatus (rspStopReason resp) of (status, incomplete) \<Rightarrow>
        responsesBody (responsesID (rspID resp)) (rspModel resp) (List.map_filter (out_block raw_text) (rspContent resp))
          (rspUsage resp) status incomplete JNull echo created)"

section \<open>The stream writer\<close>

record responsesItem =
  itIndex :: nat
  itKind :: BlockType
  itID :: string
  itText :: string

record responsesStream =
  rtSeq :: int
  rtRespID :: string
  rtUpstream :: string
  rtModel :: string
  rtAcc :: "out_item list"
  rtUsage :: Usage
  rtStop :: StopReason
  rtOpen :: "(int, responsesItem) gomap"
  rtNext :: nat
  rtStarted :: bool
  rtCompleted :: bool
  rtStopped :: bool
  rtPanicked :: bool
  rtDone :: bool

definition rt_init :: responsesStream where
  "rt_init = \<lparr>rtSeq = 0, rtRespID = '''', rtUpstream = '''', rtModel = '''', rtAcc = [], rtUsage = zero_usage,
     rtStop = StopOther '''', rtOpen = [], rtNext = 0, rtStarted = False, rtCompleted = False, rtStopped = False,
     rtPanicked = False, rtDone = False\<rparr>"

type_synonym rt_op = "responsesStream \<Rightarrow> responsesStream \<times> wire list"

definition rt_send :: "string \<Rightarrow> members \<Rightarrow> rt_op" where
  "rt_send kind obj st =
     (st\<lparr>rtSeq := rtSeq st + 1\<rparr>, [(kind, go_map (obj @ [(''type'', JStr kind), (''sequence_number'', JInt (rtSeq st))]))])"

definition rt_body :: "(nat \<Rightarrow> int) \<Rightarrow> responsesEcho option \<Rightarrow> string \<Rightarrow> string \<Rightarrow> json \<Rightarrow> responsesStream \<Rightarrow> json" where
  "rt_body clock echo status incomplete err st =
     responsesBody (rtRespID st) (rtModel st) (rtAcc st) (rtUsage st) status incomplete err echo (clock (nat (rtSeq st)))"

definition send_progress :: "(nat \<Rightarrow> int) \<Rightarrow> responsesEcho option \<Rightarrow> string \<Rightarrow> rt_op" where
  "send_progress clock echo kind st =
     rt_send kind [(''response'', rt_body clock echo ''in_progress'' '''' JNull st)] st"

definition ensureStarted :: "(nat \<Rightarrow> int) \<Rightarrow> responsesEcho option \<Rightarrow> rt_op" where
  "ensureStarted clock echo st =
     (if rtStarted st then (st, [])
      else
        let st1 = st\<lparr>rtStarted := True, rtRespID := if rtRespID st = '''' then responsesID (rtUpstream st) else rtRespID st\<rparr>
        in emits [send_progress clock echo ''response.created'', send_progress clock echo ''response.in_progress''] st1)"

definition claim :: "int \<Rightarrow> out_item \<Rightarrow> responsesStream \<Rightarrow> responsesStream \<times> responsesItem" where
  "claim at blk st =
     (let it = \<lparr>itIndex = rtNext st, itKind = item_kind blk, itID = responsesItemID (rtRespID st) (item_prefix blk) (rtNext st),
            itText = ''''\<rparr>
      in (st\<lparr>rtNext := Suc (rtNext st), rtOpen := AList.update at it (rtOpen st), rtAcc := rtAcc st @ [blk]\<rparr>, it))"

definition at_item :: "responsesItem \<Rightarrow> members" where
  "at_item it = [(''item_id'', JStr (itID it)), (''output_index'', JInt (int (itIndex it)))]"

definition item_added :: "responsesItem \<Rightarrow> json \<Rightarrow> rt_op" where
  "item_added it item = rt_send ''response.output_item.added'' [(''output_index'', JInt (int (itIndex it))), (''item'', item)]"

text \<open>What goes out when an item of each kind is opened.\<close>

fun item_opening :: "out_item \<Rightarrow> responsesItem \<Rightarrow> rt_op list" where
  "item_opening (OutMessage s) it =
     [item_added it (JObj [(''content'', JArr []), (''id'', JStr (itID it)), (''role'', JStr ''assistant''),
        (''status'', JStr ''in_progress''), (''type'', JStr ''message'')]),
      rt_send ''response.content_part.added'' (at_item it @ [(''content_index'', JInt 0), (''part'', output_text_part '''')])]"
| "item_opening (OutReasoning s) it =
     [item_added it (JObj [(''id'', JStr (itID it)), (''summary'', JArr []), (''type'', JStr ''reasoning'')]),
      rt_send ''response.reasoning_summary_part.added'' (at_item it @ [(''summary_index'', JInt 0), (''part'', summary_part '''')])]"
| "item_opening (OutCall cid name a) it =
     [item_added it (JObj [(''arguments'', JStr ''''), (''call_id'', JStr cid), (''id'', JStr (itID it)), (''name'', JStr name),
        (''status'', JStr ''in_progress''), (''type'', JStr ''function_call'')])]"

text \<open>\<^verbatim>\<open>openMessage\<close>, \<^verbatim>\<open>openReasoning\<close> and \<^verbatim>\<open>openTool\<close>: nothing when the block has an item, of whatever kind.\<close>

definition open_item :: "(nat \<Rightarrow> int) \<Rightarrow> responsesEcho option \<Rightarrow> int \<Rightarrow> out_item \<Rightarrow> rt_op" where
  "open_item clock echo block blk st =
     (if map_of (rtOpen st) block \<noteq> None then (st, [])
      else
        case ensureStarted clock echo st of (st1, out1) \<Rightarrow>
        case claim block blk st1 of (st2, it) \<Rightarrow>
        case emits (item_opening blk it) st2 of (st3, out3) \<Rightarrow> (st3, out1 @ out3))"

text \<open>A delta is appended to the item's text and that text put into the accumulated block, whose pointer for the delta's
  kind may be nil: \<^verbatim>\<open>Text\<close> is a field of every block, \<^verbatim>\<open>Thinking\<close> and \<^verbatim>\<open>ToolUse\<close> are pointers.\<close>

fun put_text :: "BlockType \<Rightarrow> string \<Rightarrow> out_item \<Rightarrow> out_item option" where
  "put_text BlockText s (OutMessage _) = Some (OutMessage s)"
| "put_text BlockText s b = Some b"
| "put_text BlockThinking s (OutReasoning _) = Some (OutReasoning s)"
| "put_text BlockToolUse s (OutCall i n _) = Some (OutCall i n s)"
| "put_text _ s b = None"

fun delta_fields :: "BlockType \<Rightarrow> string \<Rightarrow> string \<times> members" where
  "delta_fields BlockText s = (''response.output_text.delta'', [(''content_index'', JInt 0), (''delta'', JStr s), (''logprobs'', JArr [])])"
| "delta_fields BlockThinking s = (''response.reasoning_summary_text.delta'', [(''summary_index'', JInt 0), (''delta'', JStr s)])"
| "delta_fields _ s = (''response.function_call_arguments.delta'', [(''delta'', JStr s)])"

definition append_text :: "int \<Rightarrow> BlockType \<Rightarrow> string \<Rightarrow> rt_op" where
  "append_text block kind s st =
     (case map_of (rtOpen st) block of
        None \<Rightarrow> (st, [])
      | Some it0 \<Rightarrow>
          let it = it0\<lparr>itText := itText it0 @ s\<rparr>; st1 = st\<lparr>rtOpen := AList.update block it (rtOpen st)\<rparr> in
          (case put_text kind (itText it) (rtAcc st ! itIndex it) of
             None \<Rightarrow> (st1\<lparr>rtPanicked := True\<rparr>, [])
           | Some b \<Rightarrow>
               (case delta_fields kind s of (name, fs) \<Rightarrow>
                  rt_send name (at_item it @ fs) (st1\<lparr>rtAcc := (rtAcc st)[itIndex it := b]\<rparr>))))"

text \<open>What a delta carries: its kind, its text, and the block it opens when there is none.\<close>

definition delta_parts :: "Delta \<Rightarrow> (BlockType \<times> string \<times> out_item) option" where
  "delta_parts d =
     (case dType d of
        BlockText \<Rightarrow> Some (BlockText, dText d, OutMessage '''')
      | BlockThinking \<Rightarrow> Some (BlockThinking, dThinking d, OutReasoning '''')
      | BlockToolUse \<Rightarrow> Some (BlockToolUse, dToolInput d, OutCall (dToolID d) (dToolName d) '''')
      | _ \<Rightarrow> None)"

definition rt_delta :: "(nat \<Rightarrow> int) \<Rightarrow> responsesEcho option \<Rightarrow> int \<Rightarrow> Delta \<Rightarrow> rt_op" where
  "rt_delta clock echo block d st =
     (case delta_parts d of
        None \<Rightarrow> (st, [])
      | Some (kind, s, blk) \<Rightarrow>
          if s = '''' then (st, []) else emits [open_item clock echo block blk, append_text block kind s] st)"

fun item_closing :: "BlockType \<Rightarrow> out_item \<Rightarrow> responsesItem \<Rightarrow> rt_op list" where
  "item_closing BlockText b it =
     [rt_send ''response.output_text.done'' (at_item it @ [(''content_index'', JInt 0), (''text'', JStr (itText it)), (''logprobs'', JArr [])]),
      rt_send ''response.content_part.done'' (at_item it @ [(''content_index'', JInt 0), (''part'', output_text_part (itText it))]),
      rt_send ''response.output_item.done''
        [(''output_index'', JInt (int (itIndex it))), (''item'', item_json (itID it) (OutMessage (itText it)))]]"
| "item_closing BlockThinking b it =
     [rt_send ''response.reasoning_summary_text.done'' (at_item it @ [(''summary_index'', JInt 0), (''text'', JStr (itText it))]),
      rt_send ''response.reasoning_summary_part.done'' (at_item it @ [(''summary_index'', JInt 0), (''part'', summary_part (itText it))]),
      rt_send ''response.output_item.done''
        [(''output_index'', JInt (int (itIndex it))), (''item'', item_json (itID it) (OutReasoning (itText it)))]]"
| "item_closing _ (OutCall cid name a) it =
     [rt_send ''response.function_call_arguments.done'' (at_item it @ [(''arguments'', JStr (args_or_empty (itText it)))]),
      rt_send ''response.output_item.done''
        [(''output_index'', JInt (int (itIndex it))), (''item'', item_json (itID it) (OutCall cid name (itText it)))]]"
| "item_closing _ b it = []"

definition closeItem :: "int \<Rightarrow> rt_op" where
  "closeItem block st =
     (case map_of (rtOpen st) block of
        None \<Rightarrow> (st, [])
      | Some it \<Rightarrow>
          emits (item_closing (itKind it) (rtAcc st ! itIndex it) it) (st\<lparr>rtOpen := AList.delete block (rtOpen st)\<rparr>))"

definition rt_closeAll :: rt_op where
  "rt_closeAll st = emits (map closeItem (sort (map fst (rtOpen st)))) st"

definition rt_event :: "(nat \<Rightarrow> int) \<Rightarrow> responsesEcho option \<Rightarrow> StreamEvent \<Rightarrow> rt_op" where
  "rt_event clock echo ev st =
     (case evType ev of
        EventMessageStart \<Rightarrow>
          ensureStarted clock echo (st\<lparr>rtUpstream := evID ev, rtModel := evModel ev, rtRespID := responsesID (evID ev)\<rparr>)
      | EventBlockStart \<Rightarrow>
          (case evDelta ev of
             None \<Rightarrow> (st, [])
           | Some d \<Rightarrow>
               if dType d \<noteq> BlockToolUse then (st, [])
               else open_item clock echo (evIndex ev) (OutCall (dToolID d) (dToolName d) '''') st)
      | EventContentDelta \<Rightarrow> (case evDelta ev of None \<Rightarrow> (st, []) | Some d \<Rightarrow> rt_delta clock echo (evIndex ev) d st)
      | EventBlockStop \<Rightarrow> closeItem (evIndex ev) st
      | EventMessageDelta \<Rightarrow> (case evUsage ev of None \<Rightarrow> (st, []) | Some u \<Rightarrow> (st\<lparr>rtUsage := u\<rparr>, []))
      | EventMessageStop \<Rightarrow> rt_closeAll (st\<lparr>rtStop := evStopReason ev, rtStopped := True\<rparr>)
      | _ \<Rightarrow> (st, []))"

definition rt_finish :: "(nat \<Rightarrow> int) \<Rightarrow> responsesEcho option \<Rightarrow> string \<Rightarrow> string \<Rightarrow> string \<Rightarrow> json \<Rightarrow> rt_op" where
  "rt_finish clock echo name status incomplete err st =
     rt_send name [(''response'', rt_body clock echo status incomplete err st)] (st\<lparr>rtCompleted := True\<rparr>)"

definition rt_complete :: "(nat \<Rightarrow> int) \<Rightarrow> responsesEcho option \<Rightarrow> rt_op" where
  "rt_complete clock echo st =
     (if rtCompleted st then (st, [])
      else case responsesStatus (rtStop st) of (status, incomplete) \<Rightarrow>
        emits [ensureStarted clock echo, rt_closeAll,
          rt_finish clock echo (if status = ''incomplete'' then ''response.incomplete'' else ''response.completed'') status incomplete JNull] st)"

definition rt_fail :: "(nat \<Rightarrow> int) \<Rightarrow> responsesEcho option \<Rightarrow> go_error \<Rightarrow> rt_op" where
  "rt_fail clock echo err st =
     (if rtCompleted st then (st, [])
      else
        let e = (case geIR err of Some e \<Rightarrow> e | None \<Rightarrow> mk_error ErrAPI (geText err)) in
        emits [ensureStarted clock echo, rt_closeAll,
          rt_finish clock echo ''response.failed'' ''failed''  ''''
            (JObj [(''code'', JStr (ErrorType_string (errType e))), (''message'', JStr (errMessage e))])] st)"

text \<open>The writer behind a client: it returns at a failed write and after an error.\<close>

definition rt_step :: "(json \<Rightarrow> string) \<Rightarrow> (nat \<Rightarrow> int) \<Rightarrow> responsesEcho option \<Rightarrow> responsesStream \<Rightarrow> CommitWriter \<Rightarrow>
    StreamEvent + go_error \<Rightarrow> responsesStream \<times> CommitWriter \<times> bool" where
  "rt_step marshal clock echo st cw x =
     (case (case x of Inl ev \<Rightarrow> rt_event clock echo ev st | Inr err \<Rightarrow> rt_fail clock echo err st) of (st1, out) \<Rightarrow>
        (case send_all marshal out cw of (cw1, ok) \<Rightarrow>
           let go = ok \<and> isl x \<and> \<not> rtPanicked st1 in (st1\<lparr>rtDone := \<not> go\<rparr>, cw1, go)))"

definition WriteResponsesStream :: "(json \<Rightarrow> string) \<Rightarrow> (nat \<Rightarrow> int) \<Rightarrow> responsesEcho option \<Rightarrow> responsesStream dialect" where
  "WriteResponsesStream marshal clock echo =
     \<lparr>dlInit = rt_init, dlStep = rt_step marshal clock echo,
      dlEnd = (\<lambda>st cw. if rtDone st then cw else fst (send_all marshal (snd (rt_complete clock echo st)) cw))\<rparr>"

text \<open>The loop with no client behind it: the events it sends.\<close>

fun rt_run :: "(nat \<Rightarrow> int) \<Rightarrow> responsesEcho option \<Rightarrow> (StreamEvent + go_error) list \<Rightarrow> responsesStream \<Rightarrow> wire list" where
  "rt_run clock echo [] st = snd (rt_complete clock echo st)"
| "rt_run clock echo (Inr err # xs) st = snd (rt_fail clock echo err st)"
| "rt_run clock echo (Inl ev # xs) st =
     (case rt_event clock echo ev st of (st1, out) \<Rightarrow> out @ (if rtPanicked st1 then [] else rt_run clock echo xs st1))"

section \<open>What a client makes of the events\<close>

text \<open>The protocol as a client follows it: the items it has assembled from the deltas, each with its id and whether it is
  finished, the number of the next event, and the terminal event once there is one. Anything out of order is \<open>None\<close>.\<close>

record rclient =
  rcSeq :: int
  rcItems :: "(string \<times> out_item \<times> bool) list"
  rcEnd :: "(string \<times> json) option"

definition rc_init :: rclient where
  "rc_init = \<lparr>rcSeq = 0, rcItems = [], rcEnd = None\<rparr>"

fun add_text :: "string \<Rightarrow> out_item \<Rightarrow> out_item" where
  "add_text s (OutMessage t) = OutMessage (t @ s)"
| "add_text s (OutReasoning t) = OutReasoning (t @ s)"
| "add_text s (OutCall i n a) = OutCall i n (a @ s)"

text \<open>A call nobody sent arguments for is finished with an empty object.\<close>

fun settled :: "out_item \<Rightarrow> out_item" where
  "settled (OutCall i n a) = OutCall i n (args_or_empty a)"
| "settled it = it"

definition parts_text :: "json option \<Rightarrow> string" where
  "parts_text x = (case x of Some (JArr ps) \<Rightarrow> concat (map (\<lambda>p. str_of (member ''text'' p)) ps) | _ \<Rightarrow> '''')"

definition read_item :: "json \<Rightarrow> (string \<times> out_item) option" where
  "read_item j =
     (let t = str_of (member ''type'' j); i = str_of (member ''id'' j) in
      if t = ''message'' then Some (i, OutMessage (parts_text (member ''content'' j)))
      else if t = ''reasoning'' then Some (i, OutReasoning (parts_text (member ''summary'' j)))
      else if t = ''function_call'' then
        Some (i, OutCall (str_of (member ''call_id'' j)) (str_of (member ''name'' j)) (str_of (member ''arguments'' j)))
      else None)"

definition int_of :: "json option \<Rightarrow> int" where
  "int_of x = (case x of Some (JInt i) \<Rightarrow> i | _ \<Rightarrow> - 1)"

text \<open>The unfinished item of a kind an event is about: by its place and, where the event names it, its id.\<close>

definition rc_at :: "BlockType \<Rightarrow> json \<Rightarrow> rclient \<Rightarrow> (nat \<times> string \<times> out_item) option" where
  "rc_at kind j c =
     (let i = int_of (member ''output_index'' j); k = nat i in
      if 0 \<le> i \<and> k < length (rcItems c) then
        (case rcItems c ! k of (rid, it, finished) \<Rightarrow>
           if \<not> finished \<and> item_kind it = kind \<and> rid = str_of (member ''item_id'' j) then Some (k, rid, it) else None)
      else None)"

definition must :: "bool \<Rightarrow> rclient \<Rightarrow> rclient option" where
  "must b c = (if b then Some c else None)"

definition rc_delta :: "BlockType \<Rightarrow> json \<Rightarrow> rclient \<Rightarrow> rclient option" where
  "rc_delta kind j c =
     (case rc_at kind j c of
        None \<Rightarrow> None
      | Some (k, rid, it) \<Rightarrow> Some (c\<lparr>rcItems := (rcItems c)[k := (rid, add_text (str_of (member ''delta'' j)) it, False)]\<rparr>))"

text \<open>An event that repeats the text of an item so far: the empty text when its part is opened, the whole when it is done.\<close>

definition rc_text :: "BlockType \<Rightarrow> string \<Rightarrow> json \<Rightarrow> rclient \<Rightarrow> rclient option" where
  "rc_text kind s j c = (case rc_at kind j c of None \<Rightarrow> None | Some (k, rid, it) \<Rightarrow> must (item_text (settled it) = s) c)"

definition rc_added :: "json \<Rightarrow> rclient \<Rightarrow> rclient option" where
  "rc_added j c =
     (case Option.bind (member ''item'' j) read_item of
        None \<Rightarrow> None
      | Some (rid, it) \<Rightarrow>
          must (int_of (member ''output_index'' j) = int (length (rcItems c)) \<and> item_text it = '''')
            (c\<lparr>rcItems := rcItems c @ [(rid, it, False)]\<rparr>))"

definition rc_done :: "json \<Rightarrow> rclient \<Rightarrow> rclient option" where
  "rc_done j c =
     (let i = int_of (member ''output_index'' j); k = nat i in
      case Option.bind (member ''item'' j) read_item of
        None \<Rightarrow> None
      | Some (rid, it) \<Rightarrow>
          must (0 \<le> i \<and> k < length (rcItems c) \<and> (case rcItems c ! k of (rid', it', finished) \<Rightarrow>
              \<not> finished \<and> rid' = rid \<and> settled it' = it))
            (c\<lparr>rcItems := (rcItems c)[k := (rid, it, True)]\<rparr>))"

text \<open>The terminal event: every item is finished, and the response's output is what was assembled, under the same ids.\<close>

definition rc_finish :: "string \<Rightarrow> json \<Rightarrow> rclient \<Rightarrow> rclient option" where
  "rc_finish name j c =
     (case member ''response'' j of
        None \<Rightarrow> None
      | Some body \<Rightarrow>
          must (list_all (\<lambda>(rid, it, finished). finished) (rcItems c) \<and>
              (case member ''output'' body of
                 Some (JArr js) \<Rightarrow> map read_item js = map (\<lambda>(rid, it, finished). Some (rid, it)) (rcItems c)
               | _ \<Rightarrow> False))
            (c\<lparr>rcEnd := Some (name, body)\<rparr>))"

definition part_text :: "json \<Rightarrow> string" where
  "part_text j = str_of (Option.bind (member ''part'' j) (member ''text''))"

definition rc_apply :: "string \<Rightarrow> json \<Rightarrow> rclient \<Rightarrow> rclient option" where
  "rc_apply name j c =
     (if name = ''response.created'' then must (rcSeq c = 0) c
      else if name = ''response.in_progress'' then must (rcSeq c = 1) c
      else if rcSeq c < 2 then None
      else if name = ''response.output_item.added'' then rc_added j c
      else if name = ''response.content_part.added'' then rc_text BlockText (part_text j) j c
      else if name = ''response.reasoning_summary_part.added'' then rc_text BlockThinking (part_text j) j c
      else if name = ''response.output_text.delta'' then rc_delta BlockText j c
      else if name = ''response.reasoning_summary_text.delta'' then rc_delta BlockThinking j c
      else if name = ''response.function_call_arguments.delta'' then rc_delta BlockToolUse j c
      else if name = ''response.output_text.done'' then rc_text BlockText (str_of (member ''text'' j)) j c
      else if name = ''response.reasoning_summary_text.done'' then rc_text BlockThinking (str_of (member ''text'' j)) j c
      else if name = ''response.function_call_arguments.done'' then rc_text BlockToolUse (str_of (member ''arguments'' j)) j c
      else if name = ''response.content_part.done'' then rc_text BlockText (part_text j) j c
      else if name = ''response.reasoning_summary_part.done'' then rc_text BlockThinking (part_text j) j c
      else if name = ''response.output_item.done'' then rc_done j c
      else if name \<in> {''response.completed'', ''response.incomplete'', ''response.failed''} then rc_finish name j c
      else None)"

definition rc_step :: "wire \<Rightarrow> rclient \<Rightarrow> rclient option" where
  "rc_step w c =
     (if rcEnd c = None \<and> member ''type'' (snd w) = Some (JStr (fst w)) \<and> member ''sequence_number'' (snd w) = Some (JInt (rcSeq c))
      then map_option (\<lambda>c1. c1\<lparr>rcSeq := rcSeq c + 1\<rparr>) (rc_apply (fst w) (snd w) c) else None)"

fun rc_run :: "wire list \<Rightarrow> rclient \<Rightarrow> rclient option" where
  "rc_run [] c = Some c"
| "rc_run (w # ws) c = (case rc_step w c of None \<Rightarrow> None | Some c1 \<Rightarrow> rc_run ws c1)"

section \<open>The turn behind the events\<close>

text \<open>What a stream of canonical events says, block by block: a call as soon as its block starts, text and thoughts as soon as
  there is some, each in the order it begins; a block that has stopped takes no more.\<close>

record turn_said =
  tnID :: string
  tnModel :: string
  tnUsage :: Usage
  tnStop :: StopReason
  tnItems :: "out_item list"
  tnAt :: "int \<Rightarrow> nat option"

definition tn_init :: turn_said where
  "tn_init = \<lparr>tnID = '''', tnModel = '''', tnUsage = zero_usage, tnStop = StopOther '''', tnItems = [], tnAt = (\<lambda>_. None)\<rparr>"

definition tn_open :: "int \<Rightarrow> out_item \<Rightarrow> turn_said \<Rightarrow> turn_said" where
  "tn_open b it t =
     (if tnAt t b \<noteq> None then t else t\<lparr>tnItems := tnItems t @ [it], tnAt := (tnAt t)(b := Some (length (tnItems t)))\<rparr>)"

definition tn_add :: "int \<Rightarrow> string \<Rightarrow> turn_said \<Rightarrow> turn_said" where
  "tn_add b s t = (case tnAt t b of None \<Rightarrow> t | Some k \<Rightarrow> t\<lparr>tnItems := (tnItems t)[k := add_text s (tnItems t ! k)]\<rparr>)"

definition tn_take :: "StreamEvent \<Rightarrow> turn_said \<Rightarrow> turn_said" where
  "tn_take ev t =
     (case evType ev of
        EventMessageStart \<Rightarrow> t\<lparr>tnID := evID ev, tnModel := evModel ev\<rparr>
      | EventBlockStart \<Rightarrow>
          (case evDelta ev of
             Some d \<Rightarrow> if dType d = BlockToolUse then tn_open (evIndex ev) (OutCall (dToolID d) (dToolName d) '''') t else t
           | None \<Rightarrow> t)
      | EventContentDelta \<Rightarrow>
          (case Option.bind (evDelta ev) delta_parts of
             Some (kind, s, blk) \<Rightarrow> if s = '''' then t else tn_add (evIndex ev) s (tn_open (evIndex ev) blk t)
           | None \<Rightarrow> t)
      | EventBlockStop \<Rightarrow> t\<lparr>tnAt := (tnAt t)(evIndex ev := None)\<rparr>
      | EventMessageDelta \<Rightarrow> (case evUsage ev of Some u \<Rightarrow> t\<lparr>tnUsage := u\<rparr> | None \<Rightarrow> t)
      | EventMessageStop \<Rightarrow> t\<lparr>tnStop := evStopReason ev\<rparr>
      | _ \<Rightarrow> t)"

section \<open>The writer follows the protocol\<close>

lemma member_go_map [simp]: "member k (go_map ms) = map_of ms k"
  by (simp add: member_def go_map_def map_of_sort)

lemma member_JObj [simp]: "member k (JObj ms) = map_of ms k"
  by (simp add: member_def)

lemma must_simps [simp]: "must True c = Some c" "must False c = None"
  by (simp_all add: must_def)

lemma rc_run_append: "rc_run (xs @ ys) c = (case rc_run xs c of None \<Rightarrow> None | Some c1 \<Rightarrow> rc_run ys c1)"
  by (induction xs arbitrary: c) (auto split: option.splits)

lemma read_item_json: "read_item (item_json i it) = Some (i, settled it)"
  by (cases it) (simp_all add: read_item_def str_of_def parts_text_def output_text_part_def summary_part_def)

lemma settled_kind [simp]: "item_kind (settled it) = item_kind it" "item_prefix (settled it) = item_prefix it"
  by (cases it; simp)+

lemma settled_text: "item_text (settled it) = (if item_kind it = BlockToolUse then args_or_empty (item_text it) else item_text it)"
  by (cases it) simp_all

definition rt_item_id :: "responsesStream \<Rightarrow> nat \<Rightarrow> string" where
  "rt_item_id st k = responsesItemID (rtRespID st) (item_prefix (rtAcc st ! k)) k"

definition open_at :: "responsesStream \<Rightarrow> nat \<Rightarrow> bool" where
  "open_at st k = (\<exists>b it. map_of (rtOpen st) b = Some it \<and> itIndex it = k)"

definition client_item :: "responsesStream \<Rightarrow> nat \<Rightarrow> string \<times> out_item \<times> bool" where
  "client_item st k = (rt_item_id st k, if open_at st k then rtAcc st ! k else settled (rtAcc st ! k), \<not> open_at st k)"

definition rc_abs :: "responsesStream \<Rightarrow> rclient" where
  "rc_abs st = \<lparr>rcSeq = rtSeq st, rcItems = map (client_item st) [0..<length (rtAcc st)], rcEnd = None\<rparr>"

definition item_rel :: "responsesStream \<Rightarrow> responsesItem \<Rightarrow> bool" where
  "item_rel st it = (itIndex it < length (rtAcc st) \<and> itKind it = item_kind (rtAcc st ! itIndex it) \<and>
     itID it = rt_item_id st (itIndex it) \<and> itText it = item_text (rtAcc st ! itIndex it))"

definition rt_inv :: "responsesStream \<Rightarrow> bool" where
  "rt_inv st \<longleftrightarrow> rtNext st = length (rtAcc st) \<and>
     (\<forall>b it. map_of (rtOpen st) b = Some it \<longrightarrow> item_rel st it) \<and>
     (\<forall>b b' it it'. map_of (rtOpen st) b = Some it \<longrightarrow> map_of (rtOpen st) b' = Some it' \<longrightarrow> itIndex it = itIndex it' \<longrightarrow> b = b') \<and>
     \<not> rtCompleted st \<and> \<not> rtPanicked st \<and> (if rtStarted st then 2 \<le> rtSeq st else rtSeq st = 0 \<and> rtAcc st = [])"

text \<open>\<open>follows\<close>: what an operation sends takes the client from the state before to the state after.\<close>

definition follows :: "responsesStream \<Rightarrow> responsesStream \<Rightarrow> wire list \<Rightarrow> bool" where
  "follows st st1 out = (rc_run out (rc_abs st) = Some (rc_abs st1))"

lemma follows_trans: "follows st st1 out \<Longrightarrow> follows st1 st2 out' \<Longrightarrow> follows st st2 (out @ out')"
  by (simp add: follows_def rc_run_append)

lemma follows_refl [simp]: "follows st st []"
  by (simp add: follows_def)

text \<open>What is the same before and after: everything but the number of the next event and what the operation is about.\<close>

definition same_turn :: "responsesStream \<Rightarrow> responsesStream \<Rightarrow> bool" where
  "same_turn st st1 \<longleftrightarrow> rtUpstream st1 = rtUpstream st \<and> rtModel st1 = rtModel st \<and> rtUsage st1 = rtUsage st \<and> rtStop st1 = rtStop st \<and>
     rtDone st1 = rtDone st \<and> (rtStarted st \<longrightarrow> rtStarted st1 \<and> rtRespID st1 = rtRespID st)"

lemma ensure_follows:
  assumes "rt_inv st" "ensureStarted clock echo st = (st1, out)"
  shows "follows st st1 out \<and> rt_inv st1 \<and> rtStarted st1 \<and> same_turn st st1 \<and> rtAcc st1 = rtAcc st \<and> rtOpen st1 = rtOpen st \<and>
    rtRespID st1 = (if rtStarted st \<or> rtRespID st \<noteq> '''' then rtRespID st else responsesID (rtUpstream st))"
proof (cases "rtStarted st")
  case False
  then have "rtAcc st = []" "rtSeq st = 0" using assms(1) by (simp_all add: rt_inv_def)
  with False assms show ?thesis
    by (auto simp: ensureStarted_def send_progress_def rt_send_def follows_def rc_abs_def rc_step_def rc_apply_def rt_inv_def
        item_rel_def same_turn_def)
qed (use assms in \<open>simp add: ensureStarted_def same_turn_def\<close>)

lemma claim_inv:
  assumes "rt_inv st" "rtStarted st" "map_of (rtOpen st) b = None" "item_text blk = ''''" "claim b blk st = (st1, it)"
  shows "rt_inv st1 \<and> rtStarted st1 \<and> same_turn st st1 \<and> rtAcc st1 = rtAcc st @ [blk] \<and> map_of (rtOpen st1) = (map_of (rtOpen st))(b \<mapsto> it) \<and>
    itIndex it = length (rtAcc st) \<and> itKind it = item_kind blk \<and> itID it = rt_item_id st1 (length (rtAcc st)) \<and> itText it = '''' \<and>
    rtSeq st1 = rtSeq st"
proof -
  have n: "rtNext st = length (rtAcc st)" using assms(1) by (simp add: rt_inv_def)
  have old: "item_rel st1 it'" if "map_of (rtOpen st) b' = Some it'" for b' it'
    using assms(1,5) that unfolding rt_inv_def claim_def item_rel_def rt_item_id_def by (force simp: nth_append Let_def)
  have less: "itIndex it' \<noteq> length (rtAcc st)" if "map_of (rtOpen st) b' = Some it'" for b' it'
    using assms(1) that by (fastforce simp: rt_inv_def item_rel_def)
  have e: "st1 = st\<lparr>rtNext := Suc (rtNext st), rtOpen := AList.update b it (rtOpen st), rtAcc := rtAcc st @ [blk]\<rparr>"
    "it = \<lparr>itIndex = length (rtAcc st), itKind = item_kind blk, itID = responsesItemID (rtRespID st) (item_prefix blk) (length (rtAcc st)),
       itText = ''''\<rparr>"
    using assms(5) by (auto simp: claim_def Let_def n)
  have m: "map_of (rtOpen st1) = (map_of (rtOpen st))(b \<mapsto> it)" by (simp add: e(1) update_conv')
  have new: "item_rel st1 it" using assms(4) by (simp add: item_rel_def rt_item_id_def e)
  have new_at: "itIndex it = length (rtAcc st)" by (simp add: e(2))
  have inj: "b' = b''" if "map_of (rtOpen st) b' = Some i'" "map_of (rtOpen st) b'' = Some i''" "itIndex i' = itIndex i''" for b' b'' i' i''
    using that assms(1) unfolding rt_inv_def by blast
  have "b' = b''" if "map_of (rtOpen st1) b' = Some i'" "map_of (rtOpen st1) b'' = Some i''" "itIndex i' = itIndex i''" for b' b'' i' i''
  proof -
    have at: "map_of (rtOpen st) c = Some i \<and> c \<noteq> b \<or> i = it \<and> c = b" if "map_of (rtOpen st1) c = Some i" for c i
      using that m by (simp split: if_splits)
    show ?thesis using at[OF that(1)] at[OF that(2)] that(3) less inj new_at by metis
  qed
  moreover have "item_rel st1 i'" if "map_of (rtOpen st1) b' = Some i'" for b' i'
    using that old new by (auto simp: m split: if_splits)
  moreover have "rtNext st1 = length (rtAcc st1)" "\<not> rtCompleted st1" "\<not> rtPanicked st1" "2 \<le> rtSeq st1" "rtStarted st1"
    using assms(1,2) by (simp_all add: rt_inv_def e(1))
  ultimately have "rt_inv st1" unfolding rt_inv_def by (simp only: if_True) blast
  then show ?thesis using assms(2) m by (simp add: e same_turn_def rt_item_id_def)
qed

lemma open_at_claimed:
  assumes "rt_inv st" "rtStarted st" "map_of (rtOpen st) b = None" "item_text blk = ''''" "claim b blk st = (st1, it)"
  shows "rcItems (rc_abs st1) = rcItems (rc_abs st) @ [(itID it, blk, False)]"
proof -
  note c = claim_inv[OF assms]
  have o: "open_at st1 k = (open_at st k \<or> k = length (rtAcc st))" for k
  proof
    assume "open_at st1 k"
    then obtain b' i' where "map_of (rtOpen st1) b' = Some i'" "itIndex i' = k" by (auto simp: open_at_def)
    then show "open_at st k \<or> k = length (rtAcc st)" using c by (auto simp: open_at_def split: if_splits)
  next
    have "map_of (rtOpen st1) b' = Some i'" if "map_of (rtOpen st) b' = Some i'" for b' i' using that c assms(3) by auto
    moreover have "map_of (rtOpen st1) b = Some it" using c by simp
    moreover have "itIndex it = length (rtAcc st)" using c by simp
    moreover assume "open_at st k \<or> k = length (rtAcc st)"
    ultimately show "open_at st1 k" unfolding open_at_def by blast
  qed
  have i: "rt_item_id st1 k = rt_item_id st k" if "k < length (rtAcc st)" for k
    using c that assms(2) by (simp add: rt_item_id_def nth_append same_turn_def)
  have "client_item st1 k = client_item st k" if "k < length (rtAcc st)" for k
    using that c by (simp add: client_item_def o i nth_append)
  then show ?thesis using c by (simp add: rc_abs_def client_item_def o)
qed

lemma rt_send_run:
  assumes "rt_send kind obj st = (st1, out)"
  shows "rc_run out c = (if rcEnd c = None \<and> rcSeq c = rtSeq st \<and> map_of obj ''type'' = None \<and> map_of obj ''sequence_number'' = None
      then map_option (\<lambda>c1. c1\<lparr>rcSeq := rcSeq c + 1\<rparr>)
        (rc_apply kind (go_map (obj @ [(''type'', JStr kind), (''sequence_number'', JInt (rtSeq st))])) c)
      else rc_run out c)"
  using assms by (auto simp: rt_send_def rc_step_def map_add_def split: option.splits)

text \<open>The runs of events that open an item, add to it and close it, at a client of any state.\<close>

lemmas event_simps = rt_send_def rc_step_def rc_apply_def rc_added_def rc_text_def rc_delta_def rc_done_def rc_at_def read_item_def
  int_of_def str_of_def parts_text_def part_text_def at_item_def item_added_def output_text_part_def summary_part_def must_def Let_def

lemma opening_run:
  assumes "emits (item_opening blk it) st = (st1, out)" "item_text blk = ''''" "rcEnd c = None" "2 \<le> rcSeq c" "rcSeq c = rtSeq st"
    and "itIndex it = length (rcItems c)"
  shows "rc_run out c = Some (c\<lparr>rcSeq := rtSeq st1, rcItems := rcItems c @ [(itID it, blk, False)]\<rparr>) \<and>
    st1 = st\<lparr>rtSeq := rtSeq st1\<rparr> \<and> rtSeq st < rtSeq st1"
proof (cases blk)
  case (OutMessage s)
  then show ?thesis using assms by (auto simp: event_simps)
next
  case (OutReasoning s)
  then show ?thesis using assms by (auto simp: event_simps)
next
  case (OutCall i n a)
  then show ?thesis using assms by (auto simp: event_simps)
qed

lemma delta_run:
  assumes "rt_send name (at_item it @ fs) st = (st1, out)" "delta_fields (item_kind x) s = (name, fs)" "rcEnd c = None" "2 \<le> rcSeq c"
    and "rcSeq c = rtSeq st" "itIndex it < length (rcItems c)" "rcItems c ! itIndex it = (itID it, x, False)"
  shows "rc_run out c = Some (c\<lparr>rcSeq := rtSeq st + 1, rcItems := (rcItems c)[itIndex it := (itID it, add_text s x, False)]\<rparr>)"
proof (cases x)
  case (OutMessage t)
  then show ?thesis using assms by (auto simp: event_simps)
next
  case (OutReasoning t)
  then show ?thesis using assms by (auto simp: event_simps)
next
  case (OutCall i n a)
  then show ?thesis using assms by (auto simp: event_simps)
qed

lemma closing_run:
  assumes "emits (item_closing (item_kind x) x it) st = (st1, out)" "itText it = item_text x" "rcEnd c = None" "2 \<le> rcSeq c"
    and "rcSeq c = rtSeq st" "itIndex it < length (rcItems c)" "rcItems c ! itIndex it = (itID it, x, False)"
  shows "rc_run out c = Some (c\<lparr>rcSeq := rtSeq st1, rcItems := (rcItems c)[itIndex it := (itID it, settled x, True)]\<rparr>) \<and>
    st1 = st\<lparr>rtSeq := rtSeq st1\<rparr> \<and> rtSeq st < rtSeq st1"
proof (cases x)
  case (OutMessage t)
  then show ?thesis using assms by (auto simp: event_simps)
next
  case (OutReasoning t)
  then show ?thesis using assms by (auto simp: event_simps)
next
  case (OutCall i n a)
  then show ?thesis using assms by (auto simp: event_simps)
qed

text \<open>Numbering an event changes nothing else.\<close>

lemma inv_seq: "rt_inv st \<Longrightarrow> rtStarted st \<Longrightarrow> rtSeq st \<le> n \<Longrightarrow> rt_inv (st\<lparr>rtSeq := n\<rparr>)"
  unfolding rt_inv_def item_rel_def rt_item_id_def by simp

lemma abs_seq: "rc_abs (st\<lparr>rtSeq := n\<rparr>) = (rc_abs st)\<lparr>rcSeq := n\<rparr>"
proof -
  have "open_at (st\<lparr>rtSeq := n\<rparr>) = open_at st" by (simp add: open_at_def fun_eq_iff)
  then have "client_item (st\<lparr>rtSeq := n\<rparr>) = client_item st" by (simp add: client_item_def rt_item_id_def fun_eq_iff)
  then show ?thesis by (simp add: rc_abs_def)
qed

lemma abs_simps [simp]: "rcSeq (rc_abs st) = rtSeq st" "rcEnd (rc_abs st) = None" "length (rcItems (rc_abs st)) = length (rtAcc st)"
  by (simp_all add: rc_abs_def)

lemma abs_items_cong:
  "rcItems (rc_abs st) = xs \<Longrightarrow> rc_abs st = \<lparr>rcSeq = rtSeq st, rcItems = xs, rcEnd = None\<rparr>"
  by (simp add: rc_abs_def)

lemma opened_follows:
  assumes "rt_inv st" "rtStarted st" "map_of (rtOpen st) b = None" "item_text blk = ''''" "open_item clock echo b blk st = (st1, out)"
  shows "follows st st1 out \<and> rt_inv st1 \<and> rtStarted st1 \<and> same_turn st st1 \<and> rtAcc st1 = rtAcc st @ [blk] \<and>
    (\<exists>it. map_of (rtOpen st1) = (map_of (rtOpen st))(b \<mapsto> it) \<and> itIndex it = length (rtAcc st) \<and> itKind it = item_kind blk)"
proof -
  obtain st2 it where k: "claim b blk st = (st2, it)" by fastforce
  note c = claim_inv[OF assms(1-4) k] and i = open_at_claimed[OF assms(1-4) k]
  have e: "emits (item_opening blk it) st2 = (st1, out)"
    using assms(2,3,5) k by (auto simp: open_item_def ensureStarted_def split: prod.splits)
  have two: "2 \<le> rtSeq st" using assms(1,2) by (simp add: rt_inv_def)
  have r: "rc_run out (rc_abs st) = Some ((rc_abs st)\<lparr>rcSeq := rtSeq st1, rcItems := rcItems (rc_abs st2)\<rparr>)"
    "st1 = st2\<lparr>rtSeq := rtSeq st1\<rparr>" "rtSeq st2 < rtSeq st1"
    using opening_run[OF e assms(4), of "rc_abs st"] c two by (simp_all add: i)
  have "rc_abs st1 = (rc_abs st)\<lparr>rcSeq := rtSeq st1, rcItems := rcItems (rc_abs st2)\<rparr>"
    by (subst r(2), subst abs_seq) (simp add: rc_abs_def)
  moreover have "rt_inv st1" using inv_seq[of st2 "rtSeq st1"] c r(2,3) by simp
  moreover have "rtStarted st1" "rtAcc st1 = rtAcc st2" "rtOpen st1 = rtOpen st2" "same_turn st2 st1"
    using c by (subst r(2); simp add: same_turn_def)+
  ultimately show ?thesis using c r(1) by (auto simp: follows_def same_turn_def)
qed

lemma nth_abs: "k < length (rtAcc st) \<Longrightarrow> rcItems (rc_abs st) ! k = client_item st k"
  by (simp add: rc_abs_def)

lemma put_add: "put_text (item_kind x) (item_text x @ s) x = Some (add_text s x)"
  by (cases x) simp_all

lemma add_text_kind [simp]: "item_kind (add_text s x) = item_kind x" "item_prefix (add_text s x) = item_prefix x"
  "item_text (add_text s x) = item_text x @ s"
  by (cases x; simp)+

text \<open>A change of one item at the client is the same change in the state.\<close>

lemma abs_update:
  assumes "k < length (rtAcc st)" "rtAcc st1 = (rtAcc st)[k := y]" "rtRespID st1 = rtRespID st" "item_prefix y = item_prefix (rtAcc st ! k)"
    and "\<And>j. j \<noteq> k \<Longrightarrow> open_at st1 j = open_at st j"
  shows "rcItems (rc_abs st1) = (rcItems (rc_abs st))[k := (rt_item_id st k, if open_at st1 k then y else settled y, \<not> open_at st1 k)]"
proof (rule nth_equalityI)
  fix j assume "j < length (rcItems (rc_abs st1))"
  then have j: "j < length (rtAcc st)" "j < length (rtAcc st1)" using assms(2) by simp_all
  have same: "rt_item_id st1 j = rt_item_id st j" using assms(1-4) by (cases "j = k") (simp_all add: rt_item_id_def)
  show "rcItems (rc_abs st1) ! j = (rcItems (rc_abs st))[k := (rt_item_id st k, if open_at st1 k then y else settled y, \<not> open_at st1 k)] ! j"
    using assms(1,2) assms(5)[of j] j same by (cases "j = k") (simp_all add: nth_abs client_item_def)
qed (simp add: assms(2))

lemma append_follows:
  assumes "rt_inv st" "rtStarted st" "map_of (rtOpen st) b = Some it" "append_text b (itKind it) s st = (st1, out)"
  shows "follows st st1 out \<and> rt_inv st1 \<and> rtStarted st1 \<and> same_turn st st1 \<and>
    rtAcc st1 = (rtAcc st)[itIndex it := add_text s (rtAcc st ! itIndex it)] \<and>
    (\<exists>it'. map_of (rtOpen st1) = (map_of (rtOpen st))(b \<mapsto> it') \<and> itIndex it' = itIndex it \<and> itKind it' = itKind it)"
proof -
  let ?k = "itIndex it" and ?x = "rtAcc st ! itIndex it"
  let ?it = "it\<lparr>itText := itText it @ s\<rparr>"
  have rel: "item_rel st it" and inj: "\<And>b'. map_of (rtOpen st) b' = Some i' \<Longrightarrow> itIndex i' = ?k \<Longrightarrow> b' = b" for i'
    using assms(1,3) unfolding rt_inv_def by blast+
  then have k: "?k < length (rtAcc st)" "itKind it = item_kind ?x" "itID it = rt_item_id st ?k" "itText it = item_text ?x"
    by (simp_all add: item_rel_def)
  define st2 where "st2 = st\<lparr>rtOpen := AList.update b ?it (rtOpen st), rtAcc := (rtAcc st)[?k := add_text s ?x]\<rparr>"
  obtain name fs where f: "delta_fields (itKind it) s = (name, fs)" by fastforce
  have e: "rt_send name (at_item ?it @ fs) st2 = (st1, out)"
    using assms(3,4) put_add[of ?x s] by (simp add: append_text_def k(2,4) Let_def f[unfolded k(2)] st2_def)
  have m: "map_of (rtOpen st2) = (map_of (rtOpen st))(b \<mapsto> ?it)" by (simp add: st2_def update_conv')
  have o: "open_at st2 = open_at st"
  proof
    fix j
    show "open_at st2 j = open_at st j"
    proof
      assume "open_at st2 j"
      then show "open_at st j" using assms(3) by (auto simp: open_at_def m split: if_splits)
    next
      assume "open_at st j"
      then obtain b' i' where i': "map_of (rtOpen st) b' = Some i'" "itIndex i' = j" by (auto simp: open_at_def)
      have "map_of (rtOpen st2) b' = Some (if b' = b then ?it else i')" "itIndex (if b' = b then ?it else i') = j"
        using i' assms(3) by (auto simp: m)
      then show "open_at st2 j" unfolding open_at_def by blast
    qed
  qed
  have two: "2 \<le> rtSeq st" using assms(1,2) by (simp add: rt_inv_def)
  have open_k: "open_at st ?k" using assms(3) by (auto simp: open_at_def)
  have "rc_run out (rc_abs st) = Some ((rc_abs st)\<lparr>rcSeq := rtSeq st + 1, rcItems := (rcItems (rc_abs st))[?k := (itID it, add_text s ?x, False)]\<rparr>)"
    using delta_run[OF e f[unfolded k(2)], of "rc_abs st"] two k(1,3) open_k
    by (simp add: st2_def nth_abs client_item_def)
  moreover have "rcItems (rc_abs st2) = (rcItems (rc_abs st))[?k := (itID it, add_text s ?x, False)]"
    using abs_update[OF k(1), of st2 "add_text s ?x"] open_k by (simp add: st2_def[symmetric] o k(3)) (simp add: st2_def)
  moreover have st1: "st1 = st2\<lparr>rtSeq := rtSeq st + 1\<rparr>" using e by (simp add: rt_send_def st2_def)
  moreover have "rc_abs st1 = (rc_abs st2)\<lparr>rcSeq := rtSeq st + 1\<rparr>" by (simp add: st1 abs_seq)
  ultimately have "follows st st1 out" by (simp add: follows_def rc_abs_def)
  moreover have "rt_inv st2"
  proof -
    have "item_rel st2 i'" if "map_of (rtOpen st2) b' = Some i'" for b' i'
    proof (cases "b' = b")
      case True
      then have "i' = ?it" using that by (simp add: m)
      then show ?thesis using k by (simp add: item_rel_def st2_def rt_item_id_def)
    next
      case False
      then have o: "map_of (rtOpen st) b' = Some i'" using that by (simp add: m)
      then have "item_rel st i'" "itIndex i' \<noteq> ?k" using assms(1) inj False unfolding rt_inv_def by blast+
      then show ?thesis by (simp add: item_rel_def st2_def rt_item_id_def)
    qed
    moreover have "b' = b''" if "map_of (rtOpen st2) b' = Some i'" "map_of (rtOpen st2) b'' = Some i''" "itIndex i' = itIndex i''" for b' b'' i' i''
    proof -
      have "\<exists>i0. map_of (rtOpen st) c = Some i0 \<and> itIndex i0 = itIndex i" if "map_of (rtOpen st2) c = Some i" for c i
        using that assms(3) by (auto simp: m split: if_splits)
      then show ?thesis using that assms(1) unfolding rt_inv_def by metis
    qed
    moreover have "rtNext st2 = length (rtAcc st2)" "\<not> rtCompleted st2" "\<not> rtPanicked st2" "2 \<le> rtSeq st2" "rtStarted st2"
      using assms(1,2) by (simp_all add: rt_inv_def st2_def)
    ultimately show ?thesis unfolding rt_inv_def by (simp only: if_True) blast
  qed
  ultimately have "follows st st1 out" "rt_inv st1" using inv_seq[of st2 "rtSeq st + 1"] assms(2) by (simp_all add: st1 st2_def)
  moreover have "\<exists>it'. map_of (rtOpen st1) = (map_of (rtOpen st))(b \<mapsto> it') \<and> itIndex it' = ?k \<and> itKind it' = itKind it"
    by (rule exI[of _ ?it]) (simp add: st1 m)
  moreover have "rtStarted st1" "same_turn st st1" "rtAcc st1 = (rtAcc st)[?k := add_text s ?x]"
    using assms(2) by (simp_all add: st1 st2_def same_turn_def)
  ultimately show ?thesis by blast
qed

lemma close_follows:
  assumes "rt_inv st" "rtStarted st" "closeItem b st = (st1, out)"
  shows "follows st st1 out \<and> rt_inv st1 \<and> rtStarted st1 \<and> same_turn st st1 \<and> rtAcc st1 = rtAcc st \<and>
    map_of (rtOpen st1) = (map_of (rtOpen st))(b := None)"
proof (cases "map_of (rtOpen st) b")
  case None
  then show ?thesis using assms by (auto simp: closeItem_def same_turn_def)
next
  case (Some it)
  let ?k = "itIndex it" and ?x = "rtAcc st ! itIndex it"
  have rel: "item_rel st it" and inj: "\<And>b' i'. map_of (rtOpen st) b' = Some i' \<Longrightarrow> itIndex i' = ?k \<Longrightarrow> b' = b"
    using assms(1) Some unfolding rt_inv_def by blast+
  then have k: "?k < length (rtAcc st)" "itKind it = item_kind ?x" "itID it = rt_item_id st ?k" "itText it = item_text ?x"
    by (simp_all add: item_rel_def)
  define st2 where "st2 = st\<lparr>rtOpen := AList.delete b (rtOpen st)\<rparr>"
  have e: "emits (item_closing (item_kind ?x) ?x it) st2 = (st1, out)"
    using assms(3) Some by (simp add: closeItem_def k(2) st2_def)
  have m: "map_of (rtOpen st2) = (map_of (rtOpen st))(b := None)" by (simp add: st2_def delete_conv')
  have o: "open_at st2 j = (open_at st j \<and> j \<noteq> ?k)" for j
  proof
    assume "open_at st2 j"
    then show "open_at st j \<and> j \<noteq> ?k" unfolding open_at_def m using inj by (auto split: if_splits)
  next
    assume "open_at st j \<and> j \<noteq> ?k"
    then obtain b' i' where i': "map_of (rtOpen st) b' = Some i'" "itIndex i' = j" "j \<noteq> ?k" by (auto simp: open_at_def)
    then have "b' \<noteq> b" using Some by auto
    then have "map_of (rtOpen st2) b' = Some i'" using i' by (simp add: m)
    then show "open_at st2 j" using i' by (auto simp: open_at_def)
  qed
  have two: "2 \<le> rtSeq st" using assms(1,2) by (simp add: rt_inv_def)
  have open_k: "open_at st ?k" using Some by (auto simp: open_at_def)
  have r: "rc_run out (rc_abs st) = Some ((rc_abs st)\<lparr>rcSeq := rtSeq st1, rcItems := (rcItems (rc_abs st))[?k := (itID it, settled ?x, True)]\<rparr>)"
    "st1 = st2\<lparr>rtSeq := rtSeq st1\<rparr>" "rtSeq st2 < rtSeq st1"
    using closing_run[OF e k(4), of "rc_abs st"] two k(1,3) open_k
    by (simp_all add: st2_def nth_abs client_item_def)
  have "rcItems (rc_abs st2) = (rcItems (rc_abs st))[?k := (itID it, settled ?x, True)]"
    using abs_update[OF k(1), of st2 ?x] by (simp add: o k(3)) (simp add: st2_def)
  moreover have "rc_abs st1 = (rc_abs st2)\<lparr>rcSeq := rtSeq st1\<rparr>" by (subst r(2), subst abs_seq) simp
  ultimately have f: "follows st st1 out" using r(1) by (simp add: follows_def rc_abs_def)
  have "rt_inv st2"
  proof -
    have old: "map_of (rtOpen st) b' = Some i'" if "map_of (rtOpen st2) b' = Some i'" for b' i'
      using that by (simp add: m split: if_splits)
    have "item_rel st2 i'" if "map_of (rtOpen st2) b' = Some i'" for b' i'
    proof -
      have "item_rel st i'" using old[OF that] assms(1) unfolding rt_inv_def by blast
      then show ?thesis by (simp add: item_rel_def rt_item_id_def st2_def)
    qed
    moreover have "b' = b''" if "map_of (rtOpen st2) b' = Some i'" "map_of (rtOpen st2) b'' = Some i''" "itIndex i' = itIndex i''" for b' b'' i' i''
      using old[OF that(1)] old[OF that(2)] that(3) assms(1) unfolding rt_inv_def by blast
    moreover have "rtNext st2 = length (rtAcc st2)" "\<not> rtCompleted st2" "\<not> rtPanicked st2" "2 \<le> rtSeq st2" "rtStarted st2"
      using assms(1,2) by (simp_all add: rt_inv_def st2_def)
    ultimately show ?thesis unfolding rt_inv_def by (simp only: if_True) blast
  qed
  moreover have "rtStarted st2" using assms(2) by (simp add: st2_def)
  ultimately have "rt_inv st1" using inv_seq[of st2 "rtSeq st1"] r(2,3) by simp
  moreover have "rtStarted st1" "same_turn st st1" "rtAcc st1 = rtAcc st" "rtOpen st1 = rtOpen st2"
    using assms(2) by (subst r(2); simp add: st2_def same_turn_def)+
  ultimately show ?thesis using f m by simp
qed

lemma close_list_follows:
  assumes "rt_inv st" "rtStarted st" "emits (map closeItem ks) st = (st1, out)"
  shows "follows st st1 out \<and> rt_inv st1 \<and> rtStarted st1 \<and> same_turn st st1 \<and> rtAcc st1 = rtAcc st \<and>
    map_of (rtOpen st1) = (\<lambda>b. if b \<in> set ks then None else map_of (rtOpen st) b)"
  using assms
proof (induction ks arbitrary: st out)
  case Nil
  then show ?case by (simp add: same_turn_def)
next
  case (Cons k ks)
  obtain st2 out2 where c: "closeItem k st = (st2, out2)" by fastforce
  note f = close_follows[OF Cons.prems(1,2) c]
  obtain out3 where e: "emits (map closeItem ks) st2 = (st1, out3)" "out = out2 @ out3"
    using Cons.prems(3) c by (auto split: prod.splits)
  note g = Cons.IH[OF _ _ e(1)]
  show ?case using f g follows_trans[of st st2 out2 st1 out3] by (auto simp: same_turn_def e(2) fun_eq_iff)
qed

lemma closeAll_follows:
  assumes "rt_inv st" "rtStarted st" "rt_closeAll st = (st1, out)"
  shows "follows st st1 out \<and> rt_inv st1 \<and> rtStarted st1 \<and> same_turn st st1 \<and> rtAcc st1 = rtAcc st \<and> map_of (rtOpen st1) = Map.empty"
proof -
  note c = close_list_follows[OF assms(1,2) assms(3)[unfolded rt_closeAll_def]]
  have "map_of (rtOpen st) b = None" if "b \<notin> fst ` set (rtOpen st)" for b using that by (simp add: map_of_eq_None_iff)
  then show ?thesis using c by (auto simp: fun_eq_iff)
qed

lemma output_read:
  assumes "list_all item_shown items"
  shows "map read_item (responses_output rid items) =
    map (\<lambda>k. Some (responsesItemID rid (item_prefix (items ! k)) k, settled (items ! k))) [0..<length items]"
proof -
  have "filter item_shown items = items" using assms by (simp add: list_all_iff)
  then show ?thesis by (intro nth_equalityI) (simp_all add: responses_output_def Let_def read_item_json)
qed

lemma finish_run:
  assumes "rt_inv st" "rtStarted st" "map_of (rtOpen st) = Map.empty" "list_all item_shown (rtAcc st)"
    and "name \<in> {''response.completed'', ''response.incomplete'', ''response.failed''}" "rt_finish clock echo name status incomplete err st = (st1, out)"
  shows "rc_run out (rc_abs st) = Some ((rc_abs st)\<lparr>rcSeq := rtSeq st + 1, rcEnd := Some (name, rt_body clock echo status incomplete err st)\<rparr>)"
proof -
  let ?body = "rt_body clock echo status incomplete err st"
  have two: "2 \<le> rtSeq st" using assms(1,2) by (simp add: rt_inv_def)
  have all: "\<not> open_at st k" for k by (simp add: open_at_def assms(3))
  have out: "out = [(name, go_map [(''response'', ?body), (''type'', JStr name), (''sequence_number'', JInt (rtSeq st))])]"
    using assms(6) by (auto simp: rt_finish_def rt_send_def rt_body_def)
  have m: "member ''output'' ?body = Some (JArr (responses_output (rtRespID st) (rtAcc st)))"
    by (simp add: rt_body_def responsesBody_def Let_def)
  have items: "rcItems (rc_abs st) = map (\<lambda>k. (rt_item_id st k, settled (rtAcc st ! k), True)) [0..<length (rtAcc st)]"
    by (simp add: rc_abs_def client_item_def all)
  have "rc_finish name (snd (hd out)) (rc_abs st) = Some ((rc_abs st)\<lparr>rcEnd := Some (name, ?body)\<rparr>)"
    by (simp add: out rc_finish_def m output_read[OF assms(4)] items rt_item_id_def list_all_iff must_def comp_def)
  then show ?thesis using assms(5) two by (auto simp: out rc_step_def rc_apply_def)
qed

section \<open>Every nested stream is written by the protocol\<close>

definition rt_ok :: "nest \<Rightarrow> responsesStream \<Rightarrow> bool" where
  "rt_ok n st \<longleftrightarrow> rt_inv st \<and> rtStarted st = fst n \<and> (snd n \<noteq> [] \<longrightarrow> fst n) \<and> distinct (map fst (snd n)) \<and>
     (\<forall>b it. map_of (rtOpen st) b = Some it \<longrightarrow> (b, itKind it) \<in> set (snd n)) \<and> list_all item_shown (rtAcc st)"

definition tn_rel :: "turn_said \<Rightarrow> responsesStream \<Rightarrow> bool" where
  "tn_rel t st \<longleftrightarrow> tnItems t = rtAcc st \<and> tnAt t = map_option itIndex \<circ> map_of (rtOpen st) \<and> tnID t = rtUpstream st \<and>
     tnModel t = rtModel st \<and> tnUsage t = rtUsage st \<and> tnStop t = rtStop st \<and>
     rtRespID st = (if rtStarted st then responsesID (rtUpstream st) else '''')"

lemma abs_cong:
  assumes "rtSeq st1 = rtSeq st" "rtAcc st1 = rtAcc st" "rtOpen st1 = rtOpen st" "rtRespID st1 = rtRespID st \<or> rtAcc st = []"
  shows "rc_abs st1 = rc_abs st"
proof (cases "rtAcc st = []")
  case False
  have "open_at st1 = open_at st" by (simp add: open_at_def fun_eq_iff assms(3))
  then have "client_item st1 = client_item st" using False assms(2,4) by (simp add: client_item_def rt_item_id_def fun_eq_iff)
  then show ?thesis by (simp add: rc_abs_def assms)
qed (simp add: rc_abs_def assms)

lemma delta_parts_some:
  "delta_parts d = Some (kind, s, blk) \<Longrightarrow> kind = dType d \<and> item_kind blk = kind \<and> item_text blk = ''''"
  by (auto simp: delta_parts_def split: BlockType.splits)

lemma shown_add: "s \<noteq> '''' \<Longrightarrow> item_shown (add_text s x)"
  by (cases x) simp_all

lemma open_ok:
  assumes "rt_inv st" "rtStarted st" "item_text blk = ''''" "open_item clock echo b blk st = (st1, out)"
    and "tn_rel t st"
  shows "follows st st1 out \<and> rt_inv st1 \<and> rtStarted st1 \<and> same_turn st st1 \<and> tn_rel (tn_open b blk t) st1 \<and>
    (\<exists>it. map_of (rtOpen st1) b = Some it \<and> (map_of (rtOpen st) b = None \<longrightarrow> itKind it = item_kind blk)) \<and>
    (\<forall>b'. b' \<noteq> b \<or> map_of (rtOpen st) b \<noteq> None \<longrightarrow> map_of (rtOpen st1) b' = map_of (rtOpen st) b') \<and>
    rtAcc st1 = rtAcc st @ (if map_of (rtOpen st) b = None then [blk] else [])"
proof (cases "map_of (rtOpen st) b")
  case None
  note o = opened_follows[OF assms(1,2) None assms(3,4)]
  then obtain it where it: "map_of (rtOpen st1) = (map_of (rtOpen st))(b \<mapsto> it)" "itIndex it = length (rtAcc st)" "itKind it = item_kind blk"
    by blast
  have "tn_rel (tn_open b blk t) st1"
    using o assms(2,5) None by (auto simp: tn_rel_def tn_open_def it(1,2) same_turn_def fun_eq_iff)
  then show ?thesis using o it None by auto
next
  case (Some it)
  then have "st1 = st" "out = []" using assms(4) by (auto simp: open_item_def)
  moreover have "tn_open b blk t = t" using assms(5) Some by (simp add: tn_open_def tn_rel_def)
  ultimately show ?thesis using assms Some by (auto simp: same_turn_def)
qed

lemma delta_ok:
  assumes "rt_ok n st" "fst n" "(b, dType d) \<in> set (snd n)" "rt_delta clock echo b d st = (st1, out)" "tn_rel t st"
    and "t1 = (case delta_parts d of Some (kind, s, blk) \<Rightarrow> if s = '''' then t else tn_add b s (tn_open b blk t) | None \<Rightarrow> t)"
  shows "follows st st1 out \<and> rt_ok n st1 \<and> tn_rel t1 st1 \<and> rtDone st1 = rtDone st"
proof (cases "delta_parts d")
  case None
  then show ?thesis using assms by (simp add: rt_delta_def)
next
  case (Some p)
  then obtain kind s blk where p: "delta_parts d = Some (kind, s, blk)" by (cases p) auto
  note k = delta_parts_some[OF p]
  show ?thesis
  proof (cases "s = ''''")
    case True
    then show ?thesis using assms p by (simp add: rt_delta_def)
  next
    case False
    have inv: "rt_inv st" "rtStarted st" using assms(1,2) by (simp_all add: rt_ok_def)
    obtain st2 out2 where o: "open_item clock echo b blk st = (st2, out2)" by fastforce
    have blank: "item_text blk = ''''" using k by simp
    note f = open_ok[OF inv blank o assms(5)]
    from f obtain it where it: "map_of (rtOpen st2) b = Some it" "map_of (rtOpen st) b = None \<longrightarrow> itKind it = item_kind blk"
      by (elim conjE exE) (rule that)
    have old_kind: "(c, itKind i) \<in> set (snd n)" if "map_of (rtOpen st) c = Some i" for c i
      using that assms(1) by (simp add: rt_ok_def)
    have uniq: "x = y" if "(b, x) \<in> set (snd n)" "(b, y) \<in> set (snd n)" for x y
      using that assms(1) by (auto simp: rt_ok_def dest: eq_key_imp_eq_value)
    have kind: "itKind it = kind"
    proof (cases "map_of (rtOpen st) b")
      case None
      then show ?thesis using it(2) k by simp
    next
      case (Some i)
      then have "map_of (rtOpen st2) b = Some i" using f by simp
      then show ?thesis using old_kind[OF Some] uniq assms(3) k it(1) by auto
    qed
    obtain out3 where a: "append_text b kind s st2 = (st1, out3)" "out = out2 @ out3"
      using assms(4) p False o by (auto simp: rt_delta_def split: prod.splits)
    have inv2: "rt_inv st2" "rtStarted st2" using f by simp_all
    note g = append_follows[OF inv2 it(1) a(1)[unfolded kind[symmetric]]]
    then obtain it' where it': "map_of (rtOpen st1) = (map_of (rtOpen st2))(b \<mapsto> it')" "itIndex it' = itIndex it" "itKind it' = itKind it"
      by blast
    have len: "itIndex it < length (rtAcc st2)" using inv2(1) it(1) unfolding rt_inv_def item_rel_def by blast
    have "tn_rel (tn_add b s (tn_open b blk t)) st1"
      using f g it(1) it' by (auto simp: tn_rel_def tn_add_def same_turn_def fun_eq_iff)
    moreover have "follows st st1 out" using follows_trans f g a(2) by blast
    moreover have "list_all item_shown (rtAcc st1)"
    proof -
      have old: "list_all item_shown (rtAcc st)" using assms(1) by (simp add: rt_ok_def)
      show ?thesis
      proof (cases "map_of (rtOpen st) b")
        case None
        have "itIndex it = length (rtAcc st)"
          using opened_follows[OF inv None blank o] it(1) by auto
        then show ?thesis using g f None old False by (simp add: shown_add)
      next
        case (Some i)
        then show ?thesis using g f old False len
          by (auto simp: list_all_length nth_list_update shown_add)
      qed
    qed
    moreover have kinds: "(c, itKind i) \<in> set (snd n)" if "map_of (rtOpen st1) c = Some i" for c i
    proof (cases "c = b")
      case True
      then show ?thesis using that it' kind k assms(3) by auto
    next
      case False
      then have "map_of (rtOpen st) c = Some i" using that it'(1) f by auto
      then show ?thesis by (rule old_kind)
    qed
    moreover have "rt_inv st1" "rtStarted st1" "rtDone st1 = rtDone st" using f g by (simp_all add: same_turn_def)
    moreover have "t1 = tn_add b s (tn_open b blk t)" using assms(6) p False by simp
    ultimately show ?thesis using assms(1,2) unfolding rt_ok_def by blast
  qed
qed

lemma inv_set:
  "rt_inv st \<Longrightarrow> rt_inv (st\<lparr>rtUsage := u\<rparr>)" "rt_inv st \<Longrightarrow> rt_inv (st\<lparr>rtStop := s, rtStopped := True\<rparr>)"
  "rt_inv st \<Longrightarrow> rtAcc st = [] \<Longrightarrow> rt_inv (st\<lparr>rtUpstream := i, rtModel := m, rtRespID := r\<rparr>)"
  unfolding rt_inv_def item_rel_def rt_item_id_def by simp_all

lemma event_ok:
  assumes "rt_ok n st" "nest_step ev n = Some n1" "rt_event clock echo ev st = (st1, out)" "tn_rel t st"
  shows "follows st st1 out \<and> rt_ok n1 st1 \<and> tn_rel (tn_take ev t) st1 \<and> rtDone st1 = rtDone st"
proof -
  have inv: "rt_inv st" and started: "rtStarted st = fst n" and kinds: "\<And>b it. map_of (rtOpen st) b = Some it \<Longrightarrow> (b, itKind it) \<in> set (snd n)"
    and shown: "list_all item_shown (rtAcc st)" and dist: "distinct (map fst (snd n))" and some: "snd n \<noteq> [] \<Longrightarrow> fst n"
    using assms(1) by (auto simp: rt_ok_def)
  show ?thesis
  proof (cases "evType ev")
    case EventMessageStart
    then have n: "\<not> fst n" "snd n = []" "n1 = (True, [])"
      using assms(2) by (auto simp: nest_step_def split: prod.splits if_splits)
    have acc: "rtAcc st = []" using inv started n(1) by (simp add: rt_inv_def)
    let ?st = "st\<lparr>rtUpstream := evID ev, rtModel := evModel ev, rtRespID := responsesID (evID ev)\<rparr>"
    have e: "ensureStarted clock echo ?st = (st1, out)" using assms(3) EventMessageStart by (simp add: rt_event_def)
    note f = ensure_follows[OF inv_set(3)[OF inv acc] e]
    have "follows st st1 out" using f abs_cong[of ?st st] acc by (simp add: follows_def)
    moreover have "map_of (rtOpen st) b = None" for b using kinds n(2) by (cases "map_of (rtOpen st) b") auto
    ultimately show ?thesis using f n acc started assms(4) EventMessageStart
      by (auto simp: rt_ok_def tn_rel_def tn_take_def same_turn_def responsesID_def)
  next
    case EventBlockStart
    then obtain d where d: "evDelta ev = Some d" "fst n" "evIndex ev \<notin> fst ` set (snd n)" "n1 = (True, snd n @ [(evIndex ev, dType d)])"
      using assms(2) by (auto simp: nest_step_def split: prod.splits if_splits option.splits)
    have none: "map_of (rtOpen st) (evIndex ev) = None"
    proof (rule ccontr)
      assume "map_of (rtOpen st) (evIndex ev) \<noteq> None"
      then obtain it where "map_of (rtOpen st) (evIndex ev) = Some it" by blast
      then show False using kinds[of "evIndex ev" it] d(3) by force
    qed
    show ?thesis
    proof (cases "dType d = BlockToolUse")
      case False
      then show ?thesis using assms(1,3,4) d EventBlockStart by (auto simp: rt_event_def rt_ok_def tn_take_def)
    next
      case True
      let ?blk = "OutCall (dToolID d) (dToolName d) ''''"
      have o: "open_item clock echo (evIndex ev) ?blk st = (st1, out)" using assms(3) d(1) True EventBlockStart by (simp add: rt_event_def)
      have st: "rtStarted st" "item_text ?blk = ''''" using started d(2) by simp_all
      note f = open_ok[OF inv st o assms(4)]
      obtain it where it: "map_of (rtOpen st1) (evIndex ev) = Some it" "itKind it = BlockToolUse" using f none by auto
      have "(c, itKind i) \<in> set (snd n1)" if "map_of (rtOpen st1) c = Some i" for c i
        using that it f kinds[of c i] d(4) True by (cases "c = evIndex ev") auto
      moreover have "list_all item_shown (rtAcc st1)" using f shown none by simp
      moreover have "tn_take ev t = tn_open (evIndex ev) ?blk t" using EventBlockStart d(1) True by (simp add: tn_take_def)
      moreover have "rt_inv st1" "rtStarted st1" "rtDone st1 = rtDone st" "follows st st1 out" "tn_rel (tn_open (evIndex ev) ?blk t) st1"
        using f by (simp_all add: same_turn_def)
      moreover have "distinct (map fst (snd n1))" "fst n1" using d(3,4) dist by auto
      ultimately show ?thesis unfolding rt_ok_def by simp
    qed
  next
    case EventContentDelta
    then obtain d where d: "evDelta ev = Some d" "(evIndex ev, dType d) \<in> set (snd n)" "n1 = n"
      using assms(2) by (auto simp: nest_step_def split: prod.splits if_splits option.splits)
    have "snd n \<noteq> []" using d(2) by (cases "snd n") simp_all
    then have "fst n" by (rule some)
    moreover have "rt_delta clock echo (evIndex ev) d st = (st1, out)" using assms(3) d(1) EventContentDelta by (simp add: rt_event_def)
    ultimately show ?thesis
      using delta_ok[OF assms(1) _ d(2) _ assms(4) refl] d(1,3) EventContentDelta by (simp add: tn_take_def)
  next
    case EventBlockStop
    then have n: "evIndex ev \<in> fst ` set (snd n)" "n1 = (fst n, filter (\<lambda>b. fst b \<noteq> evIndex ev) (snd n))"
      using assms(2) by (auto simp: nest_step_def split: prod.splits if_splits)
    have "snd n \<noteq> []" using n(1) by (cases "snd n") simp_all
    then have st: "rtStarted st" using some started by simp
    have c: "closeItem (evIndex ev) st = (st1, out)" using assms(3) EventBlockStop by (simp add: rt_event_def)
    note f = close_follows[OF inv st c]
    have "(b, itKind it) \<in> set (snd n1)" if "map_of (rtOpen st1) b = Some it" for b it
      using that f kinds[of b it] n(2) by (auto split: if_splits)
    moreover have "distinct (map fst (snd n1))" using dist n(2) by (simp add: distinct_map inj_on_def) 
    moreover have "tn_rel (tn_take ev t) st1"
      using f assms(4) st EventBlockStop by (auto simp: tn_rel_def tn_take_def same_turn_def fun_eq_iff)
    ultimately show ?thesis using f shown st n(2) started by (auto simp: rt_ok_def same_turn_def)
  next
    case EventMessageDelta
    then have "n1 = n" using assms(2) by (auto simp: nest_step_def split: prod.splits if_splits)
    moreover have "rc_abs (st\<lparr>rtUsage := u\<rparr>) = rc_abs st" for u by (rule abs_cong) simp_all
    ultimately show ?thesis using assms(1,3,4) EventMessageDelta inv_set(1)[OF inv]
      by (cases "evUsage ev") (auto simp: rt_event_def rt_ok_def tn_rel_def tn_take_def follows_def)
  next
    case EventMessageStop
    then have n: "n1 = n" "fst n" "snd n = []" using assms(2) by (auto simp: nest_step_def split: prod.splits if_splits)
    let ?st = "st\<lparr>rtStop := evStopReason ev, rtStopped := True\<rparr>"
    have c: "rt_closeAll ?st = (st1, out)" using assms(3) EventMessageStop by (simp add: rt_event_def)
    have st: "rtStarted ?st" using n(2) started by simp
    note f = closeAll_follows[OF inv_set(2)[OF inv] st c]
    have none: "map_of (rtOpen st) = Map.empty" using kinds n(3) by (intro ext) (metis emptyE not_None_eq set_empty)
    have "rc_abs ?st = rc_abs st" by (rule abs_cong) simp_all
    then have "follows st st1 out" using f by (simp add: follows_def)
    then show ?thesis using f assms(4) n started shown none dist EventMessageStop st
      by (auto simp: rt_ok_def tn_rel_def tn_take_def same_turn_def)
  qed (use assms in \<open>auto simp: rt_event_def nest_step_def tn_take_def split: prod.splits\<close>)
qed

text \<open>The end of a stream, in order or by an error: one terminal event, every item finished before it.\<close>

lemma end_ok:
  assumes "rt_inv st" "list_all item_shown (rtAcc st)" "name \<in> {''response.completed'', ''response.incomplete'', ''response.failed''}"
    and "emits [ensureStarted clock echo, rt_closeAll, rt_finish clock echo name status incomplete err] st = (st1, out)"
  shows "\<exists>c body. rc_run out (rc_abs st) = Some c \<and> rcEnd c = Some (name, body) \<and>
    map (fst \<circ> snd) (rcItems c) = map settled (rtAcc st) \<and> list_all (snd \<circ> snd) (rcItems c) \<and>
    (\<exists>t. body = responsesBody (if rtStarted st \<or> rtRespID st \<noteq> '''' then rtRespID st else responsesID (rtUpstream st)) (rtModel st)
       (rtAcc st) (rtUsage st) status incomplete err echo t)"
proof -
  obtain st2 out2 where a: "ensureStarted clock echo st = (st2, out2)" by fastforce
  note f = ensure_follows[OF assms(1) a]
  then have inv2: "rt_inv st2" "rtStarted st2" by simp_all
  obtain st3 out3 where b: "rt_closeAll st2 = (st3, out3)" by fastforce
  note g = closeAll_follows[OF inv2 b]
  obtain out4 where d: "rt_finish clock echo name status incomplete err st3 = (st1, out4)" "out = out2 @ out3 @ out4"
    using assms(4) a b by (auto split: prod.splits)
  have acc: "rtAcc st3 = rtAcc st" using f g by simp
  have shown: "list_all item_shown (rtAcc st3)" using assms(2) acc by simp
  have "rt_inv st3" "rtStarted st3" "map_of (rtOpen st3) = Map.empty" using g by simp_all
  from finish_run[OF this shown assms(3) d(1)]
  have r: "rc_run out4 (rc_abs st3) = Some ((rc_abs st3)\<lparr>rcSeq := rtSeq st3 + 1, rcEnd := Some (name, rt_body clock echo status incomplete err st3)\<rparr>)" .
  have "rc_run out (rc_abs st) = Some ((rc_abs st3)\<lparr>rcSeq := rtSeq st3 + 1, rcEnd := Some (name, rt_body clock echo status incomplete err st3)\<rparr>)"
    using f g r by (simp add: follows_def rc_run_append d(2))
  moreover have none: "\<not> open_at st3 k" for k using g by (simp add: open_at_def)
  moreover have "map (fst \<circ> snd) (rcItems (rc_abs st3)) = map settled (rtAcc st)"
    by (intro nth_equalityI) (simp_all add: rc_abs_def client_item_def none acc)
  moreover have "list_all (snd \<circ> snd) (rcItems (rc_abs st3))" by (simp add: rc_abs_def list_all_iff client_item_def none)
  moreover have "rt_body clock echo status incomplete err st3 =
      responsesBody (if rtStarted st \<or> rtRespID st \<noteq> '''' then rtRespID st else responsesID (rtUpstream st)) (rtModel st)
        (rtAcc st) (rtUsage st) status incomplete err echo (clock (nat (rtSeq st3)))"
    using f g acc by (simp add: rt_body_def same_turn_def)
  ultimately show ?thesis by auto
qed

lemma init_ok: "rt_ok (False, []) rt_init" "tn_rel tn_init rt_init" "rc_abs rt_init = rc_init"
  by (simp_all add: rt_ok_def rt_inv_def rt_init_def tn_rel_def tn_init_def rc_abs_def rc_init_def comp_def)

lemma ok_parts: "rt_ok n st \<Longrightarrow> rt_inv st \<and> list_all item_shown (rtAcc st) \<and> \<not> rtCompleted st \<and> \<not> rtPanicked st"
  by (simp add: rt_ok_def rt_inv_def)

lemma said_id:
  "tn_rel t st \<Longrightarrow> (if rtStarted st \<or> rtRespID st \<noteq> '''' then rtRespID st else responsesID (rtUpstream st)) = responsesID (tnID t)"
  by (simp add: tn_rel_def)

definition terminal_name :: "StopReason \<Rightarrow> string" where
  "terminal_name s = (if fst (responsesStatus s) = ''incomplete'' then ''response.incomplete'' else ''response.completed'')"

text \<open>What the protocol delivers: everything finished, the items of the turn, one terminal event.\<close>

definition rc_delivered :: "rclient \<Rightarrow> turn_said \<Rightarrow> string \<Rightarrow> json \<Rightarrow> bool" where
  "rc_delivered c t name body \<longleftrightarrow> rcEnd c = Some (name, body) \<and> list_all (snd \<circ> snd) (rcItems c) \<and>
     map (fst \<circ> snd) (rcItems c) = map settled (tnItems t)"

lemma complete_delivers:
  assumes "rt_ok n st" "tn_rel t st"
  shows "\<exists>c body tm. rc_run (snd (rt_complete clock echo st)) (rc_abs st) = Some c \<and> rc_delivered c t (terminal_name (tnStop t)) body \<and>
    body = responsesBody (responsesID (tnID t)) (tnModel t) (tnItems t) (tnUsage t) (fst (responsesStatus (tnStop t)))
      (snd (responsesStatus (tnStop t))) JNull echo tm"
proof -
  have p: "rt_inv st" "list_all item_shown (rtAcc st)" "\<not> rtCompleted st" using ok_parts[OF assms(1)] by simp_all
  obtain status incomplete where s: "responsesStatus (tnStop t) = (status, incomplete)" by fastforce
  have stop: "rtStop st = tnStop t" using assms(2) by (simp add: tn_rel_def)
  obtain st1 out where e: "emits [ensureStarted clock echo, rt_closeAll, rt_finish clock echo (terminal_name (tnStop t)) status incomplete JNull] st = (st1, out)"
    by fastforce
  then have out: "snd (rt_complete clock echo st) = out" using p(3) by (simp add: rt_complete_def stop s terminal_name_def)
  have name: "terminal_name (tnStop t) \<in> {''response.completed'', ''response.incomplete'', ''response.failed''}" by (simp add: terminal_name_def)
  from end_ok[OF p(1,2) name e, unfolded said_id[OF assms(2)]] obtain c body tm where
    c: "rc_run out (rc_abs st) = Some c" "rcEnd c = Some (terminal_name (tnStop t), body)" "map (fst \<circ> snd) (rcItems c) = map settled (rtAcc st)"
      "list_all (snd \<circ> snd) (rcItems c)"
      "body = responsesBody (responsesID (tnID t)) (rtModel st) (rtAcc st) (rtUsage st) status incomplete JNull echo tm"
    by blast
  have t: "tnItems t = rtAcc st" "tnModel t = rtModel st" "tnUsage t = rtUsage st" using assms(2) by (simp_all add: tn_rel_def)
  show ?thesis
    by (rule exI[of _ c], rule exI[of _ body], rule exI[of _ tm]) (use c in \<open>simp add: rc_delivered_def out s t\<close>)
qed

lemma terminal_name_ok: "terminal_name s \<noteq> ''response.failed''"
  by (simp add: terminal_name_def)

lemma fail_delivers:
  assumes "rt_ok n st" "tn_rel t st"
  shows "\<exists>c body. rc_run (snd (rt_fail clock echo err st)) (rc_abs st) = Some c \<and> rc_delivered c t ''response.failed'' body"
proof -
  have p: "rt_inv st" "list_all item_shown (rtAcc st)" "\<not> rtCompleted st" using ok_parts[OF assms(1)] by simp_all
  define e where "e = (case geIR err of Some e \<Rightarrow> e | None \<Rightarrow> mk_error ErrAPI (geText err))"
  obtain st1 out where o: "emits [ensureStarted clock echo, rt_closeAll, rt_finish clock echo ''response.failed'' ''failed'' ''''
      (JObj [(''code'', JStr (ErrorType_string (errType e))), (''message'', JStr (errMessage e))])] st = (st1, out)"
    by fastforce
  then have "snd (rt_fail clock echo err st) = out" using p(3) by (simp add: rt_fail_def Let_def e_def)
  then show ?thesis using end_ok[OF p(1,2) _ o] assms(2) by (fastforce simp: rc_delivered_def tn_rel_def)
qed

fun turn_of :: "(StreamEvent + go_error) list \<Rightarrow> turn_said \<Rightarrow> turn_said" where
  "turn_of (Inl ev # xs) t = turn_of xs (tn_take ev t)"
| "turn_of _ t = t"

text \<open>C13. The Responses protocol, whatever ends the stream. For every well-nested run of canonical events, ended in order or
  by an error, the writer never writes through a nil pointer, and what it sends is a Responses stream: numbered from zero
  without a gap, created and in progress first, every item announced at the next place and then only added to under its
  own id, closed with exactly the text its deltas made, and last, with every item finished, one terminal event whose
  output is the items the client has assembled, which are those of the turn, block by block.\<close>

theorem responses_stream_protocol:
  assumes "nested (False, []) xs"
  shows "\<exists>c name body. rc_run (rt_run clock echo xs rt_init) rc_init = Some c \<and> rc_delivered c (turn_of xs tn_init) name body \<and>
    (name = ''response.failed'' \<longleftrightarrow> (\<exists>err. Inr err \<in> set xs))"
proof -
  have "rt_ok n st \<Longrightarrow> nested n xs \<Longrightarrow> tn_rel t st \<Longrightarrow>
    \<exists>c name body. rc_run (rt_run clock echo xs st) (rc_abs st) = Some c \<and> rc_delivered c (turn_of xs t) name body \<and>
      (name = ''response.failed'' \<longleftrightarrow> (\<exists>err. Inr err \<in> set xs))" for n st t
  proof (induction xs arbitrary: n st t)
    case Nil
    from complete_delivers[OF Nil.prems(1,3), of clock echo] obtain c body where
      "rc_run (snd (rt_complete clock echo st)) (rc_abs st) = Some c" "rc_delivered c t (terminal_name (tnStop t)) body" by blast
    then show ?case using terminal_name_ok[of "tnStop t"] by auto
  next
    case (Cons x xs)
    show ?case
    proof (cases x)
      case (Inr err)
      then show ?thesis using fail_delivers[OF Cons.prems(1,3), of clock echo err] by auto
    next
      case (Inl ev)
      then obtain n1 where n1: "nest_step ev n = Some n1" "nested n1 xs" using Cons.prems(2) by (auto split: option.splits)
      obtain st1 out where e: "rt_event clock echo ev st = (st1, out)" by fastforce
      note f = event_ok[OF Cons.prems(1) n1(1) e Cons.prems(3)]
      have calm: "\<not> rtPanicked st1" using ok_parts f by blast
      show ?thesis using Cons.IH[of n1 st1 "tn_take ev t"] f n1(2) calm
        by (auto simp: Inl e follows_def rc_run_append)
    qed
  qed
  from this[OF init_ok(1) assms init_ok(2)] show ?thesis by (simp add: init_ok(3))
qed

section \<open>Behind a client\<close>

text \<open>A writer that needs its events to be well formed: \<open>fits\<close> says which events may still come.\<close>

locale careful_writer =
  fixes dl :: "'d dialect"
    and sends :: "StreamEvent \<Rightarrow> 'd \<Rightarrow> 'd \<times> string"
    and fin :: "'d \<Rightarrow> string"
    and fits :: "'d \<Rightarrow> StreamEvent list \<Rightarrow> bool"
  assumes step_sends: "healthy cw \<Longrightarrow> fits d (ev # evs) \<Longrightarrow> sends ev d = (d1, b) \<Longrightarrow>
      fits d1 evs \<and> (\<exists>cw1. dlStep dl d cw (Inl ev) = (d1, cw1, True) \<and> healthy cw1 \<and> cwOut cw1 = cwOut cw @ b)"
    and end_sends: "healthy cw \<Longrightarrow> fits d [] \<Longrightarrow> healthy (dlEnd dl d cw) \<and> cwOut (dlEnd dl d cw) = cwOut cw @ fin d"
begin

lemma write_events_fit:
  assumes "healthy cw" "fits d evs"
  shows "\<exists>d' cw'. write_events dl evs d cw = (d', cw') \<and> takes_all dl evs d cw \<and> healthy (dlEnd dl d' cw') \<and>
    cwOut (dlEnd dl d' cw') = cwOut cw @ text_run sends fin evs d"
  using assms
proof (induction evs arbitrary: d cw)
  case Nil
  then show ?case using end_sends[OF Nil] by (simp add: write_events_def healthy_def)
next
  case (Cons ev evs)
  obtain d1 b where e: "sends ev d = (d1, b)" by fastforce
  from step_sends[OF Cons.prems e] obtain cw1 where s: "fits d1 evs" "dlStep dl d cw (Inl ev) = (d1, cw1, True)" "healthy cw1"
    "cwOut cw1 = cwOut cw @ b" by blast
  from Cons.IH[OF s(3,1)] s(4) Cons.prems(1) show ?case
    by (simp add: write_events_Cons[OF s(2)] s(2) e healthy_def)
qed

lemma fitting_client_receives:
  assumes "map fst pulls = map Inl evs" "exMaxPrecommit env \<le> 0 \<or> held_bytes evs \<le> exMaxPrecommit env"
    and "healthy (xCW xs)" "fits (dlInit dl) evs"
  shows "\<exists>xs'. attemptStream env ck dl pulls cx xs = (xs', OutcomeSuccess, None) \<and>
    cwOut (xCW xs') = cwOut (xCW xs) @ text_run sends fin evs (dlInit dl)"
proof -
  from write_events_fit[OF assms(3,4)] obtain d cw' where w: "write_events dl evs (dlInit dl) (xCW xs) = (d, cw')"
    "takes_all dl evs (dlInit dl) (xCW xs)" "healthy (dlEnd dl d cw')"
    "cwOut (dlEnd dl d cw') = cwOut (xCW xs) @ text_run sends fin evs (dlInit dl)"
    by blast
  have "cwErr (dlEnd dl d cw') = None" using w(3) by (simp add: healthy_def)
  from buffered_stream[OF assms(1,2) w(2,1) this] w(4) show ?thesis by fastforce
qed

end

definition rt_sends :: "(json \<Rightarrow> string) \<Rightarrow> (nat \<Rightarrow> int) \<Rightarrow> responsesEcho option \<Rightarrow> StreamEvent \<Rightarrow> responsesStream \<Rightarrow> responsesStream \<times> string" where
  "rt_sends m clock echo ev st = (case rt_event clock echo ev st of (st1, out) \<Rightarrow> (st1\<lparr>rtDone := False\<rparr>, wire_text m out))"

definition rt_fits :: "responsesStream \<Rightarrow> StreamEvent list \<Rightarrow> bool" where
  "rt_fits st evs = (\<not> rtDone st \<and> (\<exists>n t. rt_ok n st \<and> tn_rel t st \<and> nested n (map Inl evs)))"

interpretation responses: careful_writer "WriteResponsesStream m clock echo" "rt_sends m clock echo"
  "\<lambda>st. wire_text m (snd (rt_complete clock echo st))" rt_fits for m clock echo
proof
  fix cw d ev evs d1 b
  assume h: "healthy cw" "rt_fits d (ev # evs)" "rt_sends m clock echo ev d = (d1, b)"
  obtain st1 out where e: "rt_event clock echo ev d = (st1, out)" by fastforce
  from h(2) obtain n t n1 where n: "rt_ok n d" "tn_rel t d" "nest_step ev n = Some n1" "nested n1 (map Inl evs)" "\<not> rtDone d"
    by (auto simp: rt_fits_def split: option.splits)
  note f = event_ok[OF n(1,3) e n(2)]
  have same: "st1\<lparr>rtDone := False\<rparr> = st1" using f n(5) by simp
  have calm: "\<not> rtPanicked st1" using ok_parts f by blast
  obtain cw1 where "send_all m out cw = (cw1, True)" "healthy cw1" "cwOut cw1 = cwOut cw @ wire_text m out"
    using send_all_healthy[OF h(1)] by blast
  moreover have "d1 = st1" "b = wire_text m out" using h(3) same by (auto simp: rt_sends_def e)
  moreover have "rt_fits st1 evs" unfolding rt_fits_def using f n(4,5) by blast
  ultimately show "rt_fits d1 evs \<and>
      (\<exists>cw1. dlStep (WriteResponsesStream m clock echo) d cw (Inl ev) = (d1, cw1, True) \<and> healthy cw1 \<and> cwOut cw1 = cwOut cw @ b)"
    using same calm by (simp add: WriteResponsesStream_def rt_step_def e Let_def)
next
  fix cw d
  assume "healthy cw" "rt_fits d []"
  then show "healthy (dlEnd (WriteResponsesStream m clock echo) d cw) \<and>
      cwOut (dlEnd (WriteResponsesStream m clock echo) d cw) = cwOut cw @ wire_text m (snd (rt_complete clock echo d))"
    using send_all_healthy[of cw m "snd (rt_complete clock echo d)"] by (auto simp: WriteResponsesStream_def rt_fits_def)
qed

text \<open>The text of the run.\<close>

lemma rt_text:
  assumes "rt_fits st evs"
  shows "\<exists>ws c body tm. text_run (rt_sends m clock echo) (\<lambda>st. wire_text m (snd (rt_complete clock echo st))) evs st = wire_text m ws \<and>
    rc_run ws (rc_abs st) = Some c \<and> (\<forall>t. tn_rel t st \<longrightarrow> (let t1 = fold tn_take evs t in
      rc_delivered c t1 (terminal_name (tnStop t1)) body \<and>
      body = responsesBody (responsesID (tnID t1)) (tnModel t1) (tnItems t1) (tnUsage t1) (fst (responsesStatus (tnStop t1)))
        (snd (responsesStatus (tnStop t1))) JNull echo tm))"
  using assms
proof (induction evs arbitrary: st)
  case Nil
  then obtain n t where n: "rt_ok n st" "tn_rel t st" by (auto simp: rt_fits_def)
  have uniq: "t' = t" if "tn_rel t' st" for t' using that n(2) by (simp add: tn_rel_def)
  from complete_delivers[OF n, of clock echo] show ?case using uniq unfolding Let_def text_run.simps fold_simps by (metis (no_types))
next
  case (Cons ev evs)
  from Cons.prems obtain n t n1 where n: "rt_ok n st" "tn_rel t st" "nest_step ev n = Some n1" "nested n1 (map Inl evs)" "\<not> rtDone st"
    by (auto simp: rt_fits_def split: option.splits)
  obtain st1 out where e: "rt_event clock echo ev st = (st1, out)" by fastforce
  note f = event_ok[OF n(1,3) e n(2)]
  have same: "st1\<lparr>rtDone := False\<rparr> = st1" using f n(5) by simp
  have "rt_fits st1 evs" unfolding rt_fits_def using f n(4,5) by blast
  from Cons.IH[OF this] obtain ws c body tm where
    w: "text_run (rt_sends m clock echo) (\<lambda>st. wire_text m (snd (rt_complete clock echo st))) evs st1 = wire_text m ws"
    "rc_run ws (rc_abs st1) = Some c" and
    d: "\<And>t. tn_rel t st1 \<Longrightarrow> (let t1 = fold tn_take evs t in rc_delivered c t1 (terminal_name (tnStop t1)) body \<and>
      body = responsesBody (responsesID (tnID t1)) (tnModel t1) (tnItems t1) (tnUsage t1) (fst (responsesStatus (tnStop t1)))
        (snd (responsesStatus (tnStop t1))) JNull echo tm)"
    by blast
  have uniq: "t' = t" if "tn_rel t' st" for t' using that n(2) by (simp add: tn_rel_def)
  show ?case
  proof (rule exI[of _ "out @ ws"], rule exI[of _ c], rule exI[of _ body], rule exI[of _ tm], intro conjI allI impI)
    show "text_run (rt_sends m clock echo) (\<lambda>st. wire_text m (snd (rt_complete clock echo st))) (ev # evs) st = wire_text m (out @ ws)"
      by (simp add: rt_sends_def e same w(1) wire_text_append)
    show "rc_run (out @ ws) (rc_abs st) = Some c" using f w(2) by (simp add: follows_def rc_run_append)
  next
    fix t' assume "tn_rel t' st"
    then have "tn_rel (tn_take ev t') st1" using uniq f by simp
    from d[OF this] show "let t1 = fold tn_take (ev # evs) t' in rc_delivered c t1 (terminal_name (tnStop t1)) body \<and>
      body = responsesBody (responsesID (tnID t1)) (tnModel t1) (tnItems t1) (tnUsage t1) (fst (responsesStatus (tnStop t1)))
        (snd (responsesStatus (tnStop t1))) JNull echo tm" by simp
  qed
qed

text \<open>C14. What the client of the Responses route receives. When the upstream's events are read without error, are well
  nested, fit the cap before their first content and the client takes every write, the attempt succeeds, and the bytes
  the client has received since are the frames of a Responses stream: a client that follows it ends with the items of the
  turn, and the object the terminal event gives it is the one the unary route would have returned for the same response.\<close>

theorem responses_client_stream:
  assumes "map fst pulls = map Inl evs" "exMaxPrecommit env \<le> 0 \<or> held_bytes evs \<le> exMaxPrecommit env"
    and "healthy (xCW xs)" "nested (False, []) (map Inl evs)"
    and "t = fold tn_take evs tn_init" "rspID resp = tnID t" "rspModel resp = tnModel t" "rspUsage resp = tnUsage t"
      "rspStopReason resp = tnStop t" "List.map_filter (out_block raw_text) (rspContent resp) = tnItems t"
  shows "\<exists>xs' ws c body tm. attemptStream env ck (WriteResponsesStream marshal clock echo) pulls cx xs = (xs', OutcomeSuccess, None) \<and>
    cwOut (xCW xs') = cwOut (xCW xs) @ wire_text marshal ws \<and> rc_run ws rc_init = Some c \<and>
    rc_delivered c t (terminal_name (tnStop t)) body \<and> body = WriteResponses raw_text resp echo tm"
proof -
  have "\<not> rtDone rt_init" by (simp add: rt_init_def)
  then have fits: "rt_fits rt_init evs" unfolding rt_fits_def using init_ok(1,2) assms(4) by blast
  have "dlInit (WriteResponsesStream marshal clock echo) = rt_init" by (simp add: WriteResponsesStream_def)
  then obtain xs' where a: "attemptStream env ck (WriteResponsesStream marshal clock echo) pulls cx xs = (xs', OutcomeSuccess, None)"
    "cwOut (xCW xs') = cwOut (xCW xs) @ text_run (rt_sends marshal clock echo) (\<lambda>st. wire_text marshal (snd (rt_complete clock echo st))) evs rt_init"
    using responses.fitting_client_receives[OF assms(1-3), of marshal clock echo ck cx] fits by auto
  from rt_text[OF fits, of marshal clock echo] obtain ws c body tm where
    w: "text_run (rt_sends marshal clock echo) (\<lambda>st. wire_text marshal (snd (rt_complete clock echo st))) evs rt_init = wire_text marshal ws"
      "rc_run ws rc_init = Some c" and
    d: "rc_delivered c t (terminal_name (tnStop t)) body"
      "body = responsesBody (responsesID (tnID t)) (tnModel t) (tnItems t) (tnUsage t) (fst (responsesStatus (tnStop t)))
        (snd (responsesStatus (tnStop t))) JNull echo tm"
    using init_ok(2) unfolding init_ok(3) Let_def assms(5)[symmetric] by (elim exE conjE) (auto simp: assms(5))
  have e: "body = WriteResponses raw_text resp echo tm"
    by (simp add: d(2) WriteResponses_def assms(6-10) split: prod.split)
  show ?thesis
    by (intro exI[of _ xs'] exI[of _ ws] exI[of _ c] exI[of _ body] exI[of _ tm] conjI)
      (rule a(1), simp only: a(2) w(1), rule w(2), rule d(1), rule e)
qed

definition demo_turn_events :: "StreamEvent list" where
  "demo_turn_events =
     [zero_event\<lparr>evType := EventMessageStart, evID := ''r1'', evModel := ''m''\<rparr>,
      start_ev 0 (text_d ''''), delta_ev 0 (text_d ''hi''), start_ev 1000 (tool_d ''c1'' ''look''), delta_ev 0 (text_d ''!''),
      block_stop 1000, block_stop 0, zero_event\<lparr>evType := EventMessageStop, evStopReason := StopToolUse\<rparr>]"

lemmas demo_turn_defs = demo_turn_events_def start_ev_def delta_ev_def block_stop_def text_d_def tool_d_def zero_event_def zero_delta_def

lemma demo_turn_nested: "nested (False, []) (map Inl demo_turn_events)"
  by (simp add: demo_turn_defs nest_step_def)

lemma demo_turn_said:
  "fold tn_take demo_turn_events tn_init =
     \<lparr>tnID = ''r1'', tnModel = ''m'', tnUsage = zero_usage, tnStop = StopToolUse,
      tnItems = [OutMessage ''hi!'', OutCall ''c1'' ''look'' ''''], tnAt = (\<lambda>_. None)\<rparr>"
  by (simp add: demo_turn_defs tn_take_def tn_open_def tn_add_def tn_init_def delta_parts_def fun_eq_iff)

theorem responses_stream_protocol_witness:
  "\<exists>c name body. rc_run (rt_run int None (map Inl demo_turn_events @ [Inr (plain_error ''cut'')]) rt_init) rc_init = Some c \<and>
     map (fst \<circ> snd) (rcItems c) = [OutMessage ''hi!'', OutCall ''c1'' ''look'' ''{}''] \<and> rcEnd c = Some (''response.failed'', body)"
proof -
  have n: "nested (False, []) (map Inl demo_turn_events @ [Inr (plain_error ''cut'')])"
    by (simp add: demo_turn_defs nest_step_def)
  have t: "turn_of (map Inl demo_turn_events @ [Inr (plain_error ''cut'')]) tn_init = fold tn_take demo_turn_events tn_init"
    by (simp add: demo_turn_events_def)
  show ?thesis using responses_stream_protocol[OF n, of int None]
    by (auto simp: t demo_turn_said rc_delivered_def args_or_empty_def)
qed

definition demo_turn_response :: IRResponse where
  "demo_turn_response = \<lparr>rspID = ''r1'', rspModel = ''m'', rspContent = [text_block ''hi!'',
     ContentBlock BlockToolUse '''' None None (Some \<lparr>tuID = ''c1'', tuName = ''look'', tuInput = None, tuSignature = ''''\<rparr>) None None []],
     rspStopReason = StopToolUse, rspUsage = zero_usage, rspWarnings = [], rspExtra = []\<rparr>"

theorem responses_client_stream_witness:
  "\<exists>xs' ws c body tm. attemptStream demo_stream_env demo_stream_clock (WriteResponsesStream (\<lambda>_. ''{}'') int None)
      (map (\<lambda>e. (Inl e, demo_stream_ctx)) demo_turn_events) demo_stream_ctx demo_stream_state = (xs', OutcomeSuccess, None) \<and>
    cwOut (xCW xs') = wire_text (\<lambda>_. ''{}'') ws \<and> rc_run ws rc_init = Some c \<and>
    rcEnd c = Some (''response.completed'', body) \<and> body = WriteResponses (\<lambda>_. ''{}'') demo_turn_response None tm \<and>
    map (fst \<circ> snd) (rcItems c) = [OutMessage ''hi!'', OutCall ''c1'' ''look'' ''{}'']"
proof -
  have "exMaxPrecommit demo_stream_env \<le> 0 \<or> held_bytes demo_turn_events \<le> exMaxPrecommit demo_stream_env"
    by (simp add: demo_stream_env_def demo_turn_defs eventBytes_def)
  moreover have "healthy (xCW demo_stream_state)" "cwOut (xCW demo_stream_state) = []"
    by (simp_all add: healthy_def demo_stream_state_def NewCommitWriter_def)
  moreover have "List.map_filter (out_block (\<lambda>_. ''{}'')) (rspContent demo_turn_response) = [OutMessage ''hi!'', OutCall ''c1'' ''look'' '''']"
    by (simp add: demo_turn_response_def out_block_def text_block_def)
  moreover have "rspID demo_turn_response = ''r1''" "rspModel demo_turn_response = ''m''" "rspUsage demo_turn_response = zero_usage"
    "rspStopReason demo_turn_response = StopToolUse"
    by (simp_all add: demo_turn_response_def)
  ultimately obtain xs' ws c body tm where r:
    "attemptStream demo_stream_env demo_stream_clock (WriteResponsesStream (\<lambda>_. ''{}'') int None)
      (map (\<lambda>e. (Inl e, demo_stream_ctx)) demo_turn_events) demo_stream_ctx demo_stream_state = (xs', OutcomeSuccess, None)"
    "cwOut (xCW xs') = wire_text (\<lambda>_. ''{}'') ws" "rc_run ws rc_init = Some c"
    "rc_delivered c (fold tn_take demo_turn_events tn_init) (terminal_name StopToolUse) body"
    "body = WriteResponses (\<lambda>_. ''{}'') demo_turn_response None tm"
    using responses_client_stream[of "map (\<lambda>e. (Inl e, demo_stream_ctx)) demo_turn_events" demo_turn_events demo_stream_env demo_stream_state
        "fold tn_take demo_turn_events tn_init" demo_turn_response "\<lambda>_. ''{}''" demo_stream_clock "\<lambda>_. ''{}''" int None demo_stream_ctx]
      demo_turn_nested
    by (auto simp: demo_turn_said comp_def)
  have "rcEnd c = Some (''response.completed'', body)" "map (fst \<circ> snd) (rcItems c) = [OutMessage ''hi!'', OutCall ''c1'' ''look'' ''{}'']"
    using r(4) by (simp_all add: demo_turn_said rc_delivered_def args_or_empty_def terminal_name_def)
  then show ?thesis
    by (intro exI[of _ xs'] exI[of _ ws] exI[of _ c] exI[of _ body] exI[of _ tm] conjI) (simp_all only: r)
qed

section \<open>Where the writer and its comments part\<close>

text \<open>The upstream call of \<open>call_1000_is_reasoning\<close>, which the parser reports as argument text of an open thinking block: the
  writer finds the block's reasoning item and writes through the nil pointer to its tool call.\<close>

lemma call_1000_panics:
  "rtPanicked (fst (emits (map (rt_event int None)
     [zero_event\<lparr>evType := EventMessageStart, evID := ''r'', evModel := ''m''\<rparr>, start_ev 2000 (thinking_d ''''),
      delta_ev 2000 (thinking_d ''why''), delta_ev 2000 ((tool_d ''t'' ''f'')\<lparr>dToolInput := ''{}''\<rparr>)]) rt_init))"
  by code_simp

text \<open>What is left open is closed in the order of the block numbers, not of the output: an item that began second is done first.\<close>

lemma closed_by_block_number:
  "map (\<lambda>w. (fst w, int_of (member ''output_index'' (snd w)))) (filter (\<lambda>w. fst w = ''response.output_item.done'')
     (rt_run int None (map Inl [zero_event\<lparr>evType := EventMessageStart\<rparr>, start_ev 1000 (tool_d ''c'' ''f''), delta_ev 0 (text_d ''x''),
        zero_event\<lparr>evType := EventMessageStop\<rparr>]) rt_init)) =
   [(''response.output_item.done'', 1), (''response.output_item.done'', 0)]"
  by code_simp

text \<open>A tool choice of \<^verbatim>\<open>null\<close>, for which the SDK's model has no null, is repeated as it came.\<close>

lemma null_choice_echoed:
  "ecToolChoice (applyResponsesEcho (Some (responses_echo (zero_responses\<lparr>rwToolChoice := Some JNull\<rparr>)))) = JNull"
  by (simp add: applyResponsesEcho_def responses_echo_def zero_responses_def)

end
