(* ===== verification/Spec2Isabelle.thy ===== *)
theory Spec2Isabelle
  imports Loop Streams Catalog_Merge Count Usage_Ledger Timer Forward Egress Responses_Writer
begin

text \<open>
  Darkrouter: a gateway that accepts OpenAI (chat and Responses), Anthropic and Gemini shaped requests, resolves the model name to an
  ordered list of (provider, credential, model) candidates, tries them in turn against the upstreams, and streams the
  answer back in the client's dialect. Paths below are under \<^verbatim>\<open>src/internal\<close>.

  The path of a request. A dialect (\<^verbatim>\<open>edge\<close>) parses the body into the canonical request of \<^verbatim>\<open>ir\<close>. The executor (\<^verbatim>\<open>exec\<close>)
  asks the router (\<^verbatim>\<open>router\<close>) for candidates, over the catalogue (\<^verbatim>\<open>catalog\<close>) and a frozen view of the circuit breaker
  (\<^verbatim>\<open>health\<close>). For each candidate it claims the breaker, builds a request with the upstream's adapter (\<^verbatim>\<open>adapter\<close>) or
  forwards the client's bytes, sends it under a timer, parses the answer into canonical events, holds events back until
  the first content commits the response, and writes them with the client's dialect over \<^verbatim>\<open>sse\<close>. The outcome is told to the
  breaker once, an attempt row is appended, and the finished record goes to the log writer (\<^verbatim>\<open>store\<close>), from which the
  daily usage is rolled up, reported and pruned.

  Theories and sources.
  \<^item> \<open>Prelude\<close>: the parts of Go's \<^verbatim>\<open>strings\<close>, \<^verbatim>\<open>strconv\<close>, \<^verbatim>\<open>sort\<close> and wrapping arithmetic the sources call, and the orders as
    locales. \<open>Json\<close>: JSON values and the decoding rules of \<^verbatim>\<open>encoding/json\<close>. \<open>Bytes\<close>: base64 and UTF-8. \<open>Codec\<close>: a stream as
    the events its reader sees, and the law a printer and reader of JSON have to meet on the bodies of a stream.
  \<^item> \<open>IR\<close>: \<^verbatim>\<open>ir/ir.go\<close>. \<open>Adapter\<close>: the outcome taxonomy and the classification of a status and a body.
  \<^item> \<open>Health\<close>: the breaker (entries, ladder, half-open claims), its frozen view, persistence and LRU stamps.
  \<^item> \<open>Catalog\<close>, \<open>Catalog_Merge\<close>: the snapshot, pricing, free tiers and presets; the merge of one model out of the stored row,
    the preset, the operator's override, models.dev and LiteLLM.
  \<^item> \<open>Router\<close>: resolution of a name and the gates of a target.
  \<^item> \<open>SSE\<close>: reader, writer and byte-preserving splitter.
  \<^item> \<open>Records\<close>, \<open>Attempt\<close>, \<open>Exec\<close>, \<open>Loop\<close>, \<open>Streams\<close>, \<open>Timer\<close>, \<open>Count\<close>: \<^verbatim>\<open>exec\<close>: the rows and rules; one upstream call with its
    commit writer and buffer; the attempt with its early returns; the chain and the entry points; what reaches the client;
    the timer with its expiry and goroutine as separate steps; the counting route.
  \<^item> \<open>Dialect\<close>, \<open>Anthropic_Writer\<close>, \<open>OpenAI_Writer\<close>, \<open>Gemini_Writer\<close>, \<open>Responses_Writer\<close>: the stream and response writers of the
    client dialects of \<^verbatim>\<open>edge\<close>, and their contract with the executor. \<open>Anthropic_Request\<close>, \<open>OpenAI_Request\<close>,
    \<open>Gemini_Request\<close>, \<open>Responses_Request\<close>: their request parsers.
  \<^item> \<open>Xlate\<close>, \<open>Anthropic_Build\<close>, \<open>Anthropic_Parser\<close>, \<open>OpenAI_Build\<close>, \<open>OpenAI_Parser\<close>, \<open>Gemini_Build\<close>, \<open>Gemini_Parser\<close>: the
    conversions all adapters share, and the request builders and response parsers of three adapters.
  \<^item> \<open>Forward\<close>: the byte-forwarding adapters (\<^verbatim>\<open>forward.go\<close> of each dialect): which event commits a forwarded stream and
    what usage it reports. \<open>Egress\<close>: the dial guard of \<^verbatim>\<open>httpx\<close>.
  \<^item> \<open>Log_Writer\<close>, \<open>Usage_Ledger\<close>: \<^verbatim>\<open>store/log.go\<close>, \<^verbatim>\<open>rollup.go\<close>, \<^verbatim>\<open>retention.go\<close>, \<^verbatim>\<open>analytics.go\<close>.

  How state corresponds. A struct is a record with its fields, an enumeration a datatype, a Go map an association list
  (\<open>gomap\<close>) or a function to an option where order cannot be observed, a nil pointer \<open>None\<close>, an error return the left of a
  sum. A method with a pointer receiver takes and returns the state. Times and durations are integers of nanoseconds;
  where the source's arithmetic can wrap it is written with \<open>wrap64\<close>. A body under construction, a \<^verbatim>\<open>map[string]any\<close>, is its
  list of members in the order \<^verbatim>\<open>json.Marshal\<close> prints them. One field has no counterpart in the code: \<open>xSent\<close> lists the
  candidates requests were sent to, is appended where the transport is called and is read by nothing but the theorems.

  What the lemmas show. Of the chain: one answer, one signal and one row an attempt, no claim left behind, at most the
  configured number of calls. Of the breaker: a well-formedness invariant over all its operations, a single probe, a
  bounded outage. Of the router and the catalogue: exactly which candidates are offered, every target accounted for, every
  field of a merged model decided by its own precedence list. Of streams: bytes forwarded unchanged, buffering
  invisible, every stream a writer writes grammatical. Of the dialects and adapters: what one side writes the other
  reads back, for events, whole answers and conversations; a built request obeys the limits of its model or the quirks of
  its target. Of the store: every record offered is accounted for, and totals and log together report the whole history.

  Termination. There is no fuel: every loop of the source that is a recursion here has a measure or is structural (the
  chain by the candidates and attempts left, the reader by the bytes left, conversions by the size of the value), so each
  is total and a claim that it ends is a claim about its value.

  Interleaving. The breaker's operations are atomic, under its lock; other requests act on it between any two operations
  of a chain through an arbitrary step list. The timer's expiry and its goroutine are separate steps from the attempt's. The
  log writer, rollup, prune and report are atomic per transaction.

  Arguments that stand for code or systems not modelled: the JSON printer and reader (a \<^verbatim>\<open>json.RawMessage\<close> is its
  value, \<open>raw_text\<close> and \<open>raw_of\<close> go to and from text), the behaviour of floats (\<open>refloat\<close>, \<open>in_band\<close>, \<open>fin\<close>), the validity of
  a URL, \<^verbatim>\<open>mime.TypeByExtension\<close>, \<^verbatim>\<open>http.ParseTime\<close>, the transport, the clock, the tokenizer, the embedded presets, the
  authorizer of a credential, and which statements and transactions the database refuses.

  Not modelled. The Bedrock adapter, its request builder, parser and event-stream framing alike; the Vertex adapter (the
  Gemini and Anthropic ones behind another URL); and the auxiliary surfaces (embeddings, rerank, moderation, images, speech, transcription: a JSON or
  multipart body passed through the same attempt loop); catalogue discovery and synchronisation, authentication flows and
  signing, configuration loading, the tables besides the log, the admin API and the server, which are HTTP, SQL and
  cryptographic glue; programs and tools.
\<close>

section \<open>Routing against the live breaker\<close>

text \<open>C37. What the router offers the executor can use: when the view a request was routed on was frozen at an
  instant of a reachable breaker with no half-open probe in flight for a candidate, the breaker itself
  admits that candidate at that instant.\<close>

theorem routed_candidates_admitted:
  assumes "reachable b" "rsHealth snap = SnapshotAvailability b at" "c \<in> set (fst (Resolve q snap))"
    and "k = \<lparr>hkProvider = cdProviderID c, hkKey = cdKeyID c, hkModel = cdModel c\<rparr>"
    and "k \<notin> claims b" "cred_key k \<notin> claims b"
  shows "fst (Available b at at k)"
proof -
  obtain t p m cr where a: "Availability_Available (rsHealth snap) (cred_hkey p t cr)"
    and c: "c = candidate_of p m (crID cr) (tgModelID t)"
    using assms(3) by (auto simp: Resolve_cands mem_filterTarget)
  have "Availability_Available (SnapshotAvailability b at) k"
    using a assms(2,4) by (simp add: c candidate_of_def cred_hkey_def)
  moreover have "map_wf (bm b)" using reachable_wf[OF assms(1)] by (simp add: breaker_wf_def)
  ultimately show ?thesis
    using assms(5,6) by (simp add: live_iff[OF reachable_wf[OF assms(1)]] frozen_iff)
qed

theorem routed_candidates_admitted_witness:
  "fst (Available demo_tripped 200 200 \<lparr>hkProvider = ''openai'', hkKey = ''k2'', hkModel = ''gpt-4o''\<rparr>)"
proof -
  have n: "claims demo_tripped = {}" by (auto simp: claims_def demo_tripped_bm split: if_splits)
  show ?thesis
    by (rule routed_candidates_admitted[of demo_tripped demo_snap 200 demo_candidate "demo_query ''fast''"])
      (simp_all add: demo_tripped_reachable demo_resolve n, simp_all add: demo_snap_def demo_candidate_def)
qed

end
